(* ===== verification/Prelude.thy ===== *)
theory Prelude
  imports Main "HOL-Library.Word"
begin

text \<open>Vocabulary shared by the component theories: the machine integers of the C code, the
  result type of operations that may panic or touch memory out of range, bounds-checked array
  accesses, and the lemma collections the component proofs use.\<close>

unbundle bit_operations_syntax

section \<open>Machine integers\<close>

type_synonym u8 = "8 word"
type_synonym u16 = "16 word"
type_synonym u32 = "32 word"
type_synonym u64 = "64 word"

section \<open>Results\<close>

text \<open>\<open>Panic\<close> is a call of \<open>panic\<close> (it never returns), \<open>Fault\<close> an access outside the object the
  code means to access, \<open>Diverge\<close> the exhaustion of the fuel of a loop.\<close>

datatype err = Panic string | Fault | Diverge

datatype 'a result = Ok 'a | Err err

definition rbind :: "'a result \<Rightarrow> ('a \<Rightarrow> 'b result) \<Rightarrow> 'b result" where
  "rbind m f = (case m of Ok x \<Rightarrow> f x | Err e \<Rightarrow> Err e)"

definition guard :: "bool \<Rightarrow> string \<Rightarrow> unit result" where
  "guard b msg = (if b then Ok () else Err (Panic msg))"

definition is_ok :: "'a result \<Rightarrow> bool" where
  "is_ok r = (case r of Ok _ \<Rightarrow> True | Err _ \<Rightarrow> False)"

named_theorems result_simps

lemma rbind_Ok [simp, result_simps]: "rbind (Ok x) f = f x"
  by (simp add: rbind_def)

lemma rbind_Err [simp, result_simps]: "rbind (Err e) f = Err e"
  by (simp add: rbind_def)

lemma rbind_eq_Ok [result_simps]: "rbind m f = Ok y \<longleftrightarrow> (\<exists>x. m = Ok x \<and> f x = Ok y)"
  by (cases m) simp_all

lemma rbind_eq_OkE [elim!]:
  assumes "rbind m f = Ok y"
  obtains x where "m = Ok x" and "f x = Ok y"
  using assms by (auto simp: rbind_eq_Ok)

lemma guard_eq_Ok [simp, result_simps]: "guard b msg = Ok u \<longleftrightarrow> b"
  by (simp add: guard_def)

lemma guard_True [simp]: "guard True msg = Ok ()"
  by (simp add: guard_def)

lemma guard_False [simp]: "guard False msg = Err (Panic msg)"
  by (simp add: guard_def)

lemma is_ok_simps [simp]: "is_ok (Ok x)" "\<not> is_ok (Err e)"
  by (simp_all add: is_ok_def)

lemma is_ok_iff: "is_ok r \<longleftrightarrow> (\<exists>x. r = Ok x)"
  by (cases r) simp_all

section \<open>Arrays\<close>

definition rd :: "'a list \<Rightarrow> nat \<Rightarrow> 'a result" where
  "rd xs i = (if i < length xs then Ok (xs ! i) else Err Fault)"

definition wr :: "'a list \<Rightarrow> nat \<Rightarrow> 'a \<Rightarrow> 'a list result" where
  "wr xs i v = (if i < length xs then Ok (xs[i := v]) else Err Fault)"

lemma rd_Ok [simp]: "i < length xs \<Longrightarrow> rd xs i = Ok (xs ! i)"
  by (simp add: rd_def)

lemma rd_eq_Ok [result_simps]: "rd xs i = Ok v \<longleftrightarrow> i < length xs \<and> v = xs ! i"
  by (auto simp: rd_def)

lemma wr_Ok [simp]: "i < length xs \<Longrightarrow> wr xs i v = Ok (xs[i := v])"
  by (simp add: wr_def)

lemma wr_eq_Ok [result_simps]: "wr xs i v = Ok ys \<longleftrightarrow> i < length xs \<and> ys = xs[i := v]"
  by (auto simp: wr_def)

lemma rd_wr_same: "wr xs i v = Ok ys \<Longrightarrow> rd ys i = Ok v"
  by (auto simp: wr_eq_Ok rd_eq_Ok)

lemma rd_wr_other: "wr xs i v = Ok ys \<Longrightarrow> j \<noteq> i \<Longrightarrow> rd ys j = rd xs j"
  by (auto simp: wr_eq_Ok rd_def)

section \<open>Words\<close>

lemma unat_add_small [simp]:
  "unat a + unat b < 2 ^ LENGTH('a) \<Longrightarrow> unat (a + b :: 'a::len word) = unat a + unat b"
  by (simp add: unat_word_ariths)

lemma unat_Suc_small: "unat (a :: 'a::len word) + 1 < 2 ^ LENGTH('a) \<Longrightarrow> unat (a + 1) = unat a + 1"
  by (simp add: unat_word_ariths)

lemma unat_sub_small: "b \<le> a \<Longrightarrow> unat (a - b :: 'a::len word) = unat a - unat b"
  by (fact unat_sub)

lemma unat_u64 [simp]: "unat (x :: u64) < 18446744073709551616"
  using unsigned_less [of x, where ?'a = nat] by simp

lemma unat_of_nat_u64 [simp]: "n < 18446744073709551616 \<Longrightarrow> unat (word_of_nat n :: u64) = n"
  by (simp add: unsigned_of_nat take_bit_nat_eq_self)

lemma word_zero_iff_unat: "(x :: 'a::len word) = 0 \<longleftrightarrow> unat x = 0"
  by (simp add: unat_eq_zero)

lemma unat_mod_eq_0: "(x :: 'a::len word) mod y = 0 \<longleftrightarrow> unat x mod unat y = 0"
  by (simp add: word_zero_iff_unat unat_mod_distrib)

lemma mod_add_aligned: "(a :: nat) mod n = 0 \<Longrightarrow> (a + b) mod n = b mod n"
  by (metis add_0 mod_add_left_eq)

section \<open>Bit fields\<close>

text \<open>A C bit field of \<open>n\<close> bits from bit \<open>lo\<close> on.\<close>

definition bf_get :: "nat \<Rightarrow> nat \<Rightarrow> u64 \<Rightarrow> u64" where
  "bf_get lo n w = take_bit n (drop_bit lo w)"

definition bf_set :: "nat \<Rightarrow> nat \<Rightarrow> u64 \<Rightarrow> u64 \<Rightarrow> u64" where
  "bf_set lo n v w = (w AND NOT (push_bit lo (mask n))) OR push_bit lo (take_bit n v)"

named_theorems field_simps_bf

lemma bf_get_set_same [field_simps_bf]:
  "lo + n \<le> 64 \<Longrightarrow> bf_get lo n (bf_set lo n v w) = take_bit n v"
  by (rule bit_word_eqI) (auto simp: bf_get_def bf_set_def bit_simps)

lemma bf_get_set_other [field_simps_bf]:
  "lo + n \<le> lo' \<or> lo' + n' \<le> lo \<Longrightarrow> bf_get lo' n' (bf_set lo n v w) = bf_get lo' n' w"
  by (rule bit_word_eqI) (auto simp: bf_get_def bf_set_def bit_simps dest: bit_imp_le_length)

lemma bf_get_zero [field_simps_bf]: "bf_get lo n 0 = 0"
  by (simp add: bf_get_def)

end
