(* ===== verification/Bitmap.thy ===== *)
theory Bitmap
  imports Prelude
begin

text \<open>Bitmaps stored as arrays of bytes, bit \<open>x\<close> in byte \<open>x / 8\<close>: the page bitfield of
  \<open>memory/memory.c\<close> and the block and inode bitmaps of ext2. The locale \<open>bitset\<close> is the contract the
  allocators rely on; it is interpreted here on the byte-level operations.\<close>

section \<open>The byte-level operations\<close>

definition bit_mask :: "nat \<Rightarrow> u8" where
  "bit_mask x = push_bit (x mod 8) 1"

definition bm_get :: "u8 list \<Rightarrow> nat \<Rightarrow> u8 result" where
  "bm_get bf x = rbind (rd bf (x div 8)) (\<lambda>b. Ok (drop_bit (x mod 8) (b AND bit_mask x)))"

definition bm_set :: "u8 list \<Rightarrow> nat \<Rightarrow> u8 list result" where
  "bm_set bf x = rbind (rd bf (x div 8)) (\<lambda>b. wr bf (x div 8) (b OR bit_mask x))"

definition bm_clear :: "u8 list \<Rightarrow> nat \<Rightarrow> u8 list result" where
  "bm_clear bf x = rbind (rd bf (x div 8)) (\<lambda>b. wr bf (x div 8) (b AND NOT (bit_mask x)))"

definition bm_elems :: "u8 list \<Rightarrow> nat set" where
  "bm_elems bf = {x. x < 8 * length bf \<and> bit (bf ! (x div 8)) (x mod 8)}"

definition bm_cap :: "u8 list \<Rightarrow> nat" where
  "bm_cap bf = 8 * length bf"

lemma bit_bit_mask [simp]: "bit (bit_mask x) n \<longleftrightarrow> n = x mod 8"
  by (auto simp: bit_mask_def bit_simps)

lemma bm_cap_div [simp]: "x < bm_cap bf \<longleftrightarrow> x div 8 < length bf"
  by (auto simp: bm_cap_def)

lemma masked_bit: "drop_bit (x mod 8) (b AND bit_mask x) = of_bool (bit b (x mod 8))"
  by (rule bit_eqI) (auto simp: bit_simps)

lemma bm_get_eq:
  "bm_get bf x = (if x div 8 < length bf then Ok (of_bool (x \<in> bm_elems bf)) else Err Fault)"
  unfolding bm_get_def masked_bit by (auto simp: bm_elems_def rd_def)

lemma bm_elems_finite [simp]: "finite (bm_elems bf)"
  by (rule finite_subset [of _ "{..<8 * length bf}"]) (auto simp: bm_elems_def)

lemma bm_elems_iff:
  "x \<in> bm_elems bf \<longleftrightarrow> x div 8 < length bf \<and> bit (bf ! (x div 8)) (x mod 8)"
  by (auto simp: bm_elems_def)

lemma bm_elems_bound: "x \<in> bm_elems bf \<Longrightarrow> x div 8 < length bf"
  by (auto simp: bm_elems_def)

lemma div_mod_8_eq: "y div 8 = x div 8 \<Longrightarrow> y mod 8 = x mod 8 \<Longrightarrow> y = (x :: nat)"
  by (metis div_mult_mod_eq)

lemma bm_elems_update:
  assumes "x div 8 < length bf"
  shows "y \<in> bm_elems (bf[x div 8 := b]) \<longleftrightarrow>
    (if y div 8 = x div 8 then bit b (y mod 8) else y \<in> bm_elems bf)"
  using assms by (auto simp: bm_elems_def nth_list_update)

lemma bm_set_eq:
  assumes "x div 8 < length bf"
  shows "\<exists>bf'. bm_set bf x = Ok bf' \<and> length bf' = length bf \<and> bm_elems bf' = insert x (bm_elems bf)"
proof -
  let ?b = "(bf ! (x div 8)) OR bit_mask x"
  have "y \<in> bm_elems (bf[x div 8 := ?b]) \<longleftrightarrow> y \<in> insert x (bm_elems bf)" for y
    using assms unfolding bm_elems_update [OF assms]
    by (auto simp: bit_simps bm_elems_iff dest: div_mod_8_eq)
  hence "bm_elems (bf[x div 8 := ?b]) = insert x (bm_elems bf)" by blast
  then show ?thesis using assms by (simp add: bm_set_def)
qed

lemma bm_clear_eq:
  assumes "x div 8 < length bf"
  shows "\<exists>bf'. bm_clear bf x = Ok bf' \<and> length bf' = length bf \<and> bm_elems bf' = bm_elems bf - {x}"
proof -
  let ?b = "(bf ! (x div 8)) AND NOT (bit_mask x)"
  have "y \<in> bm_elems (bf[x div 8 := ?b]) \<longleftrightarrow> y \<in> bm_elems bf - {x}" for y
    using assms unfolding bm_elems_update [OF assms]
    by (auto simp: bit_simps bm_elems_iff dest: div_mod_8_eq)
  hence "bm_elems (bf[x div 8 := ?b]) = bm_elems bf - {x}" by blast
  then show ?thesis using assms by (simp add: bm_clear_def)
qed

lemma bm_ext:
  assumes "bm_elems a = bm_elems b" and "length a = length b"
  shows "a = b"
proof (rule nth_equalityI)
  show "length a = length b" by (fact assms)
next
  fix i assume i: "i < length a"
  show "a ! i = b ! i"
  proof (rule bit_word_eqI)
    fix n :: nat assume "n < LENGTH(8)"
    hence n: "n < 8" by simp
    have "8 * i + n \<in> bm_elems a \<longleftrightarrow> 8 * i + n \<in> bm_elems b" by (simp add: assms)
    then show "bit (a ! i) n \<longleftrightarrow> bit (b ! i) n"
      using i n assms(2) by (auto simp: bm_elems_def)
  qed
qed

lemma bm_elems_zero [simp]: "bm_elems (replicate n 0) = {}"
  by (auto simp: bm_elems_def)

section \<open>The contract of a bitmap\<close>

locale bitset =
  fixes get :: "'s \<Rightarrow> nat \<Rightarrow> u8 result"
    and put :: "'s \<Rightarrow> nat \<Rightarrow> 's result"
    and del :: "'s \<Rightarrow> nat \<Rightarrow> 's result"
    and elems :: "'s \<Rightarrow> nat set"
    and cap :: "'s \<Rightarrow> nat"
  assumes get_in: "x < cap s \<Longrightarrow> get s x = Ok (of_bool (x \<in> elems s))"
    and put_in: "x < cap s \<Longrightarrow> \<exists>s'. put s x = Ok s' \<and> cap s' = cap s \<and> elems s' = insert x (elems s)"
    and del_in: "x < cap s \<Longrightarrow> \<exists>s'. del s x = Ok s' \<and> cap s' = cap s \<and> elems s' = elems s - {x}"
    and ext: "elems s = elems t \<Longrightarrow> cap s = cap t \<Longrightarrow> s = t"
begin

lemma put_del:
  assumes "x < cap s" and "x \<notin> elems s"
  shows "rbind (put s x) (\<lambda>t. del t x) = Ok s"
proof -
  obtain t where t: "put s x = Ok t" "cap t = cap s" "elems t = insert x (elems s)"
    using put_in [OF assms(1)] by auto
  obtain u where u: "del t x = Ok u" "cap u = cap t" "elems u = elems t - {x}"
    using del_in [of x t] t assms by auto
  have "u = s" using t u assms(2) by (intro ext) auto
  then show ?thesis using t u by simp
qed

lemma get_put:
  assumes "x < cap s" and "y < cap s" and "put s x = Ok t"
  shows "get t y = (if y = x then Ok 1 else get s y)"
  using put_in [OF assms(1)] assms get_in [of y s] get_in [of y t] by auto

lemma get_del:
  assumes "x < cap s" and "y < cap s" and "del s x = Ok t"
  shows "get t y = (if y = x then Ok 0 else get s y)"
  using del_in [OF assms(1)] assms get_in [of y s] get_in [of y t] by auto

lemma put_Ok: "x < cap s \<Longrightarrow> put s x = Ok t \<Longrightarrow> cap t = cap s \<and> elems t = insert x (elems s)"
  using put_in [of x s] by auto

lemma del_Ok: "x < cap s \<Longrightarrow> del s x = Ok t \<Longrightarrow> cap t = cap s \<and> elems t = elems s - {x}"
  using del_in [of x s] by auto

end

interpretation bm: bitset bm_get bm_set bm_clear bm_elems bm_cap
proof
  fix x and s :: "u8 list" assume "x < bm_cap s"
  hence x: "x div 8 < length s" by simp
  show "bm_get s x = Ok (of_bool (x \<in> bm_elems s))" using x by (simp add: bm_get_eq)
  show "\<exists>s'. bm_set s x = Ok s' \<and> bm_cap s' = bm_cap s \<and> bm_elems s' = insert x (bm_elems s)"
    using bm_set_eq [OF x] by (auto simp: bm_cap_def)
  show "\<exists>s'. bm_clear s x = Ok s' \<and> bm_cap s' = bm_cap s \<and> bm_elems s' = bm_elems s - {x}"
    using bm_clear_eq [OF x] by (auto simp: bm_cap_def)
next
  fix s t :: "u8 list" assume "bm_elems s = bm_elems t" "bm_cap s = bm_cap t"
  then show "s = t" by (intro bm_ext) (simp_all add: bm_cap_def)
qed

end
