(* ===== verification/Memory.thy ===== *)
theory Memory
  imports Bitmap
begin

text \<open>The physical page allocator, \<open>memory/memory.c\<close> with \<open>memory.h\<close> and the memory-map callbacks of
  \<open>memory_cb.h\<close>. The record \<open>pmm\<close> is \<open>struct system_memory\<close> (its bitfield as the array of its
  bytes) together with the static variables of \<open>request_page\<close> and \<open>request_contiguous_pages\<close>. An
  access behind the bitfield is \<open>Fault\<close>. The memory map the boot loader hands over is a list of
  entries, an argument.\<close>

section \<open>State\<close>

record pmm =
  total_available_pages :: u64
  first_available_page_addr :: u64
  last_available_page_address :: u64
  total_memory :: u64
  total_pages :: u64
  bitfield :: "u8 list"
  free_memory :: u64
  locked_memory :: u64
  reserved_memory :: u64
  rp_last :: u64
  rp_stat :: u64
  rc_last :: u64
  rc_stat :: u64

abbreviation PAGESIZE :: u64 where "PAGESIZE \<equiv> 0x1000"

definition IS_ALIGNED :: "u64 \<Rightarrow> bool" where
  "IS_ALIGNED x = (x AND (PAGESIZE - 1) = 0)"

definition ALIGN_ADDR :: "u64 \<Rightarrow> u64" where
  "ALIGN_ADDR x = (if (PAGESIZE - 1) AND x \<noteq> 0 then (x + PAGESIZE) AND NOT (PAGESIZE - 1) else x)"

definition ADDR_TO_PAGE :: "u64 \<Rightarrow> u64" where
  "ADDR_TO_PAGE x = drop_bit 12 x"

definition SET_PAGE_BIT :: "pmm \<Rightarrow> u64 \<Rightarrow> pmm result" where
  "SET_PAGE_BIT m x = rbind (bm_set (bitfield m) (unat x)) (\<lambda>bf. Ok (m\<lparr>bitfield := bf\<rparr>))"

definition CLEAR_PAGE_BIT :: "pmm \<Rightarrow> u64 \<Rightarrow> pmm result" where
  "CLEAR_PAGE_BIT m x = rbind (bm_clear (bitfield m) (unat x)) (\<lambda>bf. Ok (m\<lparr>bitfield := bf\<rparr>))"

definition GET_PAGE_BIT :: "pmm \<Rightarrow> u64 \<Rightarrow> u8 result" where
  "GET_PAGE_BIT m x = bm_get (bitfield m) (unat x)"

section \<open>Single pages\<close>

definition set_page_bit :: "pmm \<Rightarrow> u64 \<Rightarrow> pmm result" where
  "set_page_bit m address =
    rbind (guard (\<not> ADDR_TO_PAGE address > total_available_pages m) ''set_page_bit: address out of bounds'') (\<lambda>_.
    rbind (SET_PAGE_BIT m (ADDR_TO_PAGE address)) (\<lambda>m.
    rbind (GET_PAGE_BIT m (ADDR_TO_PAGE address)) (\<lambda>b.
    rbind (guard (b = 1) ''set_page_bit: bit not set'') (\<lambda>_. Ok m))))"

definition clear_page_bit :: "pmm \<Rightarrow> u64 \<Rightarrow> pmm result" where
  "clear_page_bit m address =
    rbind (guard (\<not> ADDR_TO_PAGE address > total_available_pages m) ''clear_page_bit: address out of bounds'') (\<lambda>_.
    CLEAR_PAGE_BIT m (ADDR_TO_PAGE address))"

definition get_page_bit :: "pmm \<Rightarrow> u64 \<Rightarrow> u8 result" where
  "get_page_bit m address =
    rbind (guard (\<not> ADDR_TO_PAGE address > total_available_pages m) ''get_page_bit: address out of bounds'') (\<lambda>_.
    GET_PAGE_BIT m (ADDR_TO_PAGE address))"

definition reserve_page :: "pmm \<Rightarrow> u64 \<Rightarrow> pmm result" where
  "reserve_page m address =
    rbind (get_page_bit m address) (\<lambda>b.
    rbind (guard (b \<noteq> 1) ''Page already reserved!'') (\<lambda>_.
    rbind (set_page_bit m address) (\<lambda>m.
    Ok (m\<lparr>free_memory := free_memory m - PAGESIZE, reserved_memory := reserved_memory m + PAGESIZE\<rparr>))))"

definition unreserve_page :: "pmm \<Rightarrow> u64 \<Rightarrow> pmm result" where
  "unreserve_page m address =
    rbind (get_page_bit m address) (\<lambda>b.
    rbind (guard (b \<noteq> 0) ''Page not reserved!'') (\<lambda>_.
    rbind (clear_page_bit m address) (\<lambda>m.
    Ok (m\<lparr>free_memory := free_memory m + PAGESIZE, reserved_memory := reserved_memory m - PAGESIZE\<rparr>))))"

definition lock_page :: "pmm \<Rightarrow> u64 \<Rightarrow> pmm result" where
  "lock_page m address =
    rbind (get_page_bit m address) (\<lambda>b.
    rbind (guard (b \<noteq> 1) ''Page already locked!'') (\<lambda>_.
    rbind (set_page_bit m address) (\<lambda>m.
    Ok (m\<lparr>free_memory := free_memory m - PAGESIZE, locked_memory := locked_memory m + PAGESIZE\<rparr>))))"

definition unlock_page :: "pmm \<Rightarrow> u64 \<Rightarrow> pmm result" where
  "unlock_page m address =
    rbind (get_page_bit m address) (\<lambda>b.
    rbind (guard (b \<noteq> 0) ''Page not locked!'') (\<lambda>_.
    rbind (clear_page_bit m address) (\<lambda>m.
    Ok (m\<lparr>free_memory := free_memory m - PAGESIZE, locked_memory := locked_memory m + PAGESIZE\<rparr>))))"

section \<open>Runs of pages\<close>

text \<open>The four \<open>for\<close> loops: \<open>n\<close> more iterations from index \<open>i\<close> on.\<close>

primrec each_page :: "(pmm \<Rightarrow> u64 \<Rightarrow> pmm result) \<Rightarrow> u64 \<Rightarrow> u64 \<Rightarrow> nat \<Rightarrow> pmm \<Rightarrow> pmm result" where
  "each_page f address i 0 m = Ok m"
| "each_page f address i (Suc n) m =
    rbind (f m (address + push_bit 12 i)) (\<lambda>m. each_page f address (i + 1) n m)"

definition reserve_pages :: "pmm \<Rightarrow> u64 \<Rightarrow> u64 \<Rightarrow> pmm result" where
  "reserve_pages m address pages =
    rbind (guard (\<not> sint address < 0) ''NEGATIVE'') (\<lambda>_. each_page reserve_page address 0 (unat pages) m)"

definition unreserve_pages :: "pmm \<Rightarrow> u64 \<Rightarrow> u64 \<Rightarrow> pmm result" where
  "unreserve_pages m address pages = each_page unreserve_page address 0 (unat pages) m"

definition lock_pages :: "pmm \<Rightarrow> u64 \<Rightarrow> u64 \<Rightarrow> pmm result" where
  "lock_pages m address pages = each_page lock_page address 0 (unat pages) m"

definition unlock_pages :: "pmm \<Rightarrow> u64 \<Rightarrow> u64 \<Rightarrow> pmm result" where
  "unlock_pages m address pages = each_page unlock_page address 0 (unat pages) m"

section \<open>Requesting and freeing\<close>

text \<open>The search loop of both request functions, on the static \<open>last_requested\<close> (here \<open>l\<close>).\<close>

fun find_free :: "nat \<Rightarrow> pmm \<Rightarrow> u64 \<Rightarrow> u64 \<Rightarrow> u64 result" where
  "find_free 0 m first l = Err Diverge"
| "find_free (Suc fuel) m first l =
    rbind (GET_PAGE_BIT m l) (\<lambda>b.
    if b = 1 then
      (let l = (if l \<ge> total_available_pages m then 0 else l) in
       rbind (guard (l \<noteq> first) ''No free pages available!'') (\<lambda>_. find_free fuel m first (l + 1)))
    else Ok l)"

definition scan_fuel :: "pmm \<Rightarrow> nat" where
  "scan_fuel m = 2 * unat (total_available_pages m) + 4"

definition request_page :: "pmm \<Rightarrow> (u64 \<times> pmm) result" where
  "request_page m =
    rbind (find_free (scan_fuel m) m (rp_last m - 1) (rp_last m)) (\<lambda>last.
    rbind (lock_page (m\<lparr>rp_last := last\<rparr>) (push_bit 12 last)) (\<lambda>m.
    rbind (GET_PAGE_BIT m last) (\<lambda>b.
    rbind (guard (b \<noteq> 0) ''Page not reserved!'') (\<lambda>_.
    Ok (first_available_page_addr m + push_bit 12 last, m\<lparr>rp_stat := rp_stat m + 1\<rparr>)))))"

definition free_page :: "pmm \<Rightarrow> u64 \<Rightarrow> pmm result" where
  "free_page m addr = (let normalized = addr - first_available_page_addr m in
    rbind (guard (\<not> addr < first_available_page_addr m) ''Page below active range'') (\<lambda>_.
    rbind (GET_PAGE_BIT m (drop_bit 12 normalized)) (\<lambda>b.
    rbind (guard (b \<noteq> 0) ''page was not locked'') (\<lambda>_.
    rbind (unlock_page m normalized) (\<lambda>m.
    rbind (GET_PAGE_BIT m (drop_bit 12 normalized)) (\<lambda>b.
    rbind (guard (b \<noteq> 1) ''Page not freed!'') (\<lambda>_. Ok m)))))))"

primrec lock_run :: "nat \<Rightarrow> pmm \<Rightarrow> pmm result" where
  "lock_run 0 m = Ok m"
| "lock_run (Suc n) m =
    rbind (GET_PAGE_BIT m (rc_last m)) (\<lambda>b.
    rbind (guard (b \<noteq> 1) ''Page already reserved!'') (\<lambda>_.
    rbind (lock_page m (push_bit 12 (rc_last m))) (\<lambda>m.
    lock_run n (m\<lparr>rc_last := rc_last m + 1\<rparr>))))"

definition request_contiguous_pages :: "pmm \<Rightarrow> u64 \<Rightarrow> (u64 \<times> pmm) result" where
  "request_contiguous_pages m num = (let last = rc_last m - 1 in
    rbind (find_free (scan_fuel m) m (rc_last m - 1) (rc_last m)) (\<lambda>l.
    rbind (lock_run (unat num) (m\<lparr>rc_last := l\<rparr>)) (\<lambda>m.
    Ok (first_available_page_addr m + push_bit 12 last, m\<lparr>rc_stat := rc_stat m + num\<rparr>))))"

primrec unlock_run :: "u64 \<Rightarrow> u64 \<Rightarrow> nat \<Rightarrow> pmm \<Rightarrow> pmm result" where
  "unlock_run normalized i 0 m = Ok m"
| "unlock_run normalized i (Suc n) m =
    rbind (GET_PAGE_BIT m (drop_bit 12 normalized + i)) (\<lambda>b.
    rbind (guard (b \<noteq> 0) ''Page was not locked!'') (\<lambda>_.
    rbind (unlock_page m (normalized + push_bit 12 i)) (\<lambda>m. unlock_run normalized (i + 1) n m)))"

definition free_contiguous_pages :: "pmm \<Rightarrow> u64 \<Rightarrow> u64 \<Rightarrow> pmm result" where
  "free_contiguous_pages m address num = (let normalized = address - first_available_page_addr m in
    rbind (guard (\<not> address < first_available_page_addr m) ''Page below active range!'') (\<lambda>_.
    rbind (unlock_run normalized 0 (unat num) m) (\<lambda>m.
    rbind (GET_PAGE_BIT m (drop_bit 12 normalized)) (\<lambda>b.
    rbind (guard (b \<noteq> 1) ''Page not freed'') (\<lambda>_. Ok m)))))"

section \<open>The memory map\<close>

text \<open>An entry of the boot loader's map: base, length, type. The callbacks get the accumulator the
  C code passes by reference.\<close>

record mmap_entry =
  mm_base :: u64
  mm_length :: u64
  mm_type :: u64

record chunk_data =
  chunk_addr :: u64
  chunk_size :: u64

abbreviation MEMMAP_USABLE :: u64 where "MEMMAP_USABLE \<equiv> 0"

definition get_total_memory_cb :: "u64 \<Rightarrow> mmap_entry \<Rightarrow> u64" where
  "get_total_memory_cb acc e = acc + mm_length e"

definition get_free_memory_cb :: "u64 \<Rightarrow> mmap_entry \<Rightarrow> u64" where
  "get_free_memory_cb acc e = (if mm_type e = MEMMAP_USABLE then acc + mm_length e else acc)"

definition init_memory_cb :: "chunk_data \<Rightarrow> mmap_entry \<Rightarrow> chunk_data" where
  "init_memory_cb chunk e =
    (if mm_type e = MEMMAP_USABLE then
       (if mm_length e > chunk_size chunk then \<lparr>chunk_addr = mm_base e, chunk_size = mm_length e\<rparr> else chunk)
     else chunk)"

definition iterate_memory :: "('a \<Rightarrow> mmap_entry \<Rightarrow> 'a) \<Rightarrow> mmap_entry list \<Rightarrow> 'a \<Rightarrow> 'a" where
  "iterate_memory callback entries acc = fold (\<lambda>e a. callback a e) entries acc"

text \<open>\<open>static\<close> is the value of the function's static variable; the result is its new value, which is
  also the one returned.\<close>

definition get_total_memory :: "mmap_entry list \<Rightarrow> u64 \<Rightarrow> u64" where
  "get_total_memory entries static = (if static > 0 then static else iterate_memory get_total_memory_cb entries static)"

definition get_free_memory :: "mmap_entry list \<Rightarrow> u64 \<Rightarrow> u64" where
  "get_free_memory entries static = (if static > 0 then static else iterate_memory get_free_memory_cb entries static)"

section \<open>Initialisation\<close>

text \<open>The self test: 100 bytes of \<open>0x55\<close> are written and every bit of them read back.\<close>

definition bitfield_self_test :: "u8 list \<Rightarrow> unit result" where
  "bitfield_self_test bf =
    fold (\<lambda>x r. rbind r (\<lambda>_. rbind (bm_get bf x) (\<lambda>b.
      if x mod 8 mod 2 = 1 then guard (b \<noteq> 1) ''init_memory: GET_PAGE_BIT failed''
      else guard (b \<noteq> 0) ''init_memory: GET_PAGE_BIT failed''))) [0..<800] (Ok ())"

definition bitfield_entries :: "u64 \<Rightarrow> u64" where
  "bitfield_entries pages = (if pages mod 8 = 0 then drop_bit 3 pages else drop_bit 3 pages + 1)"

abbreviation sizeof_system_memory :: u64 where "sizeof_system_memory \<equiv> 72"

text \<open>\<open>prev\<close> is the allocator before the call: its statics keep their values. The first component of
  the result is the return value.\<close>

definition init_memory :: "mmap_entry list \<Rightarrow> chunk_data \<Rightarrow> pmm \<Rightarrow> (int \<times> chunk_data \<times> pmm) result" where
  "init_memory entries biggest prev =
    (if chunk_size biggest > 0 then Ok (0, biggest, prev) else
    (let total = get_total_memory entries 0;
         pages = drop_bit 12 total;
         biggest = iterate_memory init_memory_cb entries biggest;
         first_available_address = ALIGN_ADDR (chunk_addr biggest);
         last_available_address = ALIGN_ADDR (chunk_addr biggest + chunk_size biggest);
         available_pages = drop_bit 12 (last_available_address - first_available_address);
         n = bitfield_entries available_pages
     in
     rbind (guard (\<not> chunk_size biggest < n + sizeof_system_memory + push_bit 12 3)
       ''init_memory: not enough memory for memory bitfield'') (\<lambda>_.
     rbind (bitfield_self_test (replicate 100 0x55)) (\<lambda>_.
     let m = prev\<lparr>bitfield := replicate (unat n) 0,
                  total_available_pages := available_pages,
                  total_memory := total,
                  total_pages := pages,
                  free_memory := last_available_address - first_available_address,
                  locked_memory := 0,
                  reserved_memory := 0,
                  last_available_page_address := last_available_address,
                  first_available_page_addr := first_available_address\<rparr> in
     rbind (guard (\<not> (\<not> IS_ALIGNED first_available_address
          \<or> \<not> IS_ALIGNED (ALIGN_ADDR (first_available_address + 8))
          \<or> \<not> IS_ALIGNED (first_available_page_addr m))) ''Memory alignment error!'') (\<lambda>_.
     let used_space = drop_bit 12 (n + sizeof_system_memory + push_bit 12 3) in
     rbind (reserve_pages m 0 used_space) (\<lambda>m. Ok (1, biggest, m)))))))"

section \<open>Single pages: behaviour\<close>

definition used :: "pmm \<Rightarrow> nat set" where
  "used m = bm_elems (bitfield m)"

definition page_ok :: "pmm \<Rightarrow> u64 \<Rightarrow> bool" where
  "page_ok m p \<longleftrightarrow> p \<le> total_available_pages m \<and> unat p < bm_cap (bitfield m)"

lemma page_okD: "page_ok m p \<Longrightarrow> unat p div 8 < length (bitfield m)"
  by (simp add: page_ok_def)

lemma page_ok_le [simp]: "page_ok m p \<Longrightarrow> \<not> total_available_pages m < p"
  by (simp add: page_ok_def not_less)

lemma GET_PAGE_BIT_ok [simp]:
  "page_ok m p \<Longrightarrow> GET_PAGE_BIT m p = Ok (of_bool (unat p \<in> used m))"
  by (simp add: GET_PAGE_BIT_def used_def bm_get_eq page_okD)

lemma set_page_bit_ok:
  assumes "page_ok m (ADDR_TO_PAGE a)"
  obtains bf where "set_page_bit m a = Ok (m\<lparr>bitfield := bf\<rparr>)"
    and "length bf = length (bitfield m)" and "bm_elems bf = insert (unat (ADDR_TO_PAGE a)) (used m)"
proof -
  let ?p = "ADDR_TO_PAGE a"
  obtain bf where bf: "bm_set (bitfield m) (unat ?p) = Ok bf" "length bf = length (bitfield m)"
    "bm_elems bf = insert (unat ?p) (used m)"
    using bm_set_eq [OF page_okD [OF assms]] by (auto simp: used_def)
  have "page_ok (m\<lparr>bitfield := bf\<rparr>) ?p" using assms bf by (simp add: page_ok_def)
  then have "set_page_bit m a = Ok (m\<lparr>bitfield := bf\<rparr>)"
    using page_ok_le [OF assms] bf by (simp add: set_page_bit_def SET_PAGE_BIT_def used_def)
  then show thesis using bf that by blast
qed

lemma clear_page_bit_ok:
  assumes "page_ok m (ADDR_TO_PAGE a)"
  obtains bf where "clear_page_bit m a = Ok (m\<lparr>bitfield := bf\<rparr>)"
    and "length bf = length (bitfield m)" and "bm_elems bf = used m - {unat (ADDR_TO_PAGE a)}"
  using bm_clear_eq [OF page_okD [OF assms]] page_ok_le [OF assms]
  by (auto simp: clear_page_bit_def CLEAR_PAGE_BIT_def used_def)

lemma get_page_bit_ok [simp]:
  "page_ok m (ADDR_TO_PAGE a) \<Longrightarrow> get_page_bit m a = Ok (of_bool (unat (ADDR_TO_PAGE a) \<in> used m))"
  by (simp add: get_page_bit_def page_ok_le)

lemma lock_page_free:
  assumes "page_ok m (ADDR_TO_PAGE a)" and "unat (ADDR_TO_PAGE a) \<notin> used m"
  obtains bf where "lock_page m a = Ok (m\<lparr>bitfield := bf, free_memory := free_memory m - PAGESIZE,
      locked_memory := locked_memory m + PAGESIZE\<rparr>)"
    and "length bf = length (bitfield m)" and "bm_elems bf = insert (unat (ADDR_TO_PAGE a)) (used m)"
  by (rule set_page_bit_ok [OF assms(1)], rule that) (use assms in \<open>simp_all add: lock_page_def\<close>)

lemma lock_page_used:
  "page_ok m (ADDR_TO_PAGE a) \<Longrightarrow> unat (ADDR_TO_PAGE a) \<in> used m \<Longrightarrow>
   lock_page m a = Err (Panic ''Page already locked!'')"
  by (simp add: lock_page_def)

lemma reserve_page_free:
  assumes "page_ok m (ADDR_TO_PAGE a)" and "unat (ADDR_TO_PAGE a) \<notin> used m"
  obtains bf where "reserve_page m a = Ok (m\<lparr>bitfield := bf, free_memory := free_memory m - PAGESIZE,
      reserved_memory := reserved_memory m + PAGESIZE\<rparr>)"
    and "length bf = length (bitfield m)" and "bm_elems bf = insert (unat (ADDR_TO_PAGE a)) (used m)"
  by (rule set_page_bit_ok [OF assms(1)], rule that) (use assms in \<open>simp_all add: reserve_page_def\<close>)

lemma unreserve_page_used:
  assumes "page_ok m (ADDR_TO_PAGE a)" and "unat (ADDR_TO_PAGE a) \<in> used m"
  obtains bf where "unreserve_page m a = Ok (m\<lparr>bitfield := bf, free_memory := free_memory m + PAGESIZE,
      reserved_memory := reserved_memory m - PAGESIZE\<rparr>)"
    and "length bf = length (bitfield m)" and "bm_elems bf = used m - {unat (ADDR_TO_PAGE a)}"
  by (rule clear_page_bit_ok [OF assms(1)], rule that) (use assms in \<open>simp_all add: unreserve_page_def\<close>)

lemma unlock_page_used:
  assumes "page_ok m (ADDR_TO_PAGE a)" and "unat (ADDR_TO_PAGE a) \<in> used m"
  obtains bf where "unlock_page m a = Ok (m\<lparr>bitfield := bf, free_memory := free_memory m - PAGESIZE,
      locked_memory := locked_memory m + PAGESIZE\<rparr>)"
    and "length bf = length (bitfield m)" and "bm_elems bf = used m - {unat (ADDR_TO_PAGE a)}"
  by (rule clear_page_bit_ok [OF assms(1)], rule that) (use assms in \<open>simp_all add: unlock_page_def\<close>)

lemma unlock_page_free:
  "page_ok m (ADDR_TO_PAGE a) \<Longrightarrow> unat (ADDR_TO_PAGE a) \<notin> used m \<Longrightarrow>
   unlock_page m a = Err (Panic ''Page not locked!'')"
  by (simp add: unlock_page_def)

section \<open>The search loop\<close>

definition pmm_wf :: "pmm \<Rightarrow> bool" where
  "pmm_wf m \<longleftrightarrow> unat (total_available_pages m) < 2 ^ 51
    \<and> length (bitfield m) = unat (bitfield_entries (total_available_pages m))
    \<and> rp_last m \<le> total_available_pages m"

abbreviation npages :: "pmm \<Rightarrow> nat" where
  "npages m \<equiv> unat (total_available_pages m)"

lemma pmm_wf_npages: "pmm_wf m \<Longrightarrow> npages m < 2 ^ 51"
  by (simp add: pmm_wf_def)

lemma unat_bitfield_entries: "unat (bitfield_entries t) = (unat t + 7) div 8"
proof -
  have m8: "t mod 8 = 0 \<longleftrightarrow> unat t mod 8 = 0"
    by (simp add: unat_mod_eq_0)
  have d: "unat (drop_bit 3 t) = unat t div 8"
    by (simp add: drop_bit_eq_div unat_div_distrib)
  have b: "unat t div 8 < 2 ^ 61" by (rule less_mult_imp_div_less) simp
  have "unat (drop_bit 3 t + 1) = unat t div 8 + 1"
    using b by (subst unat_Suc_small) (simp_all add: d)
  then show ?thesis unfolding bitfield_entries_def m8 using d
    by (auto split: if_splits) presburger+
qed

lemma pmm_wf_cap: "pmm_wf m \<Longrightarrow> length (bitfield m) = (npages m + 7) div 8"
  by (simp add: pmm_wf_def unat_bitfield_entries)

lemma GET_PAGE_BIT_nat:
  assumes "p < bm_cap (bitfield m)" and "p < 18446744073709551616"
  shows "GET_PAGE_BIT m (word_of_nat p) = Ok (of_bool (p \<in> used m))"
  using assms by (simp add: GET_PAGE_BIT_def used_def bm_get_eq)

lemma used_cap: "p \<in> used m \<Longrightarrow> p < bm_cap (bitfield m)"
  by (auto simp: used_def dest: bm_elems_bound)

lemma find_free_hit:
  assumes "q \<notin> used m" and "q < bm_cap (bitfield m)" and "q < 18446744073709551616"
  shows "find_free (Suc fuel) m first (word_of_nat q) = Ok (word_of_nat q)"
  using assms by (simp add: GET_PAGE_BIT_nat del: bm_cap_div)

lemma find_free_next:
  assumes "p \<in> used m" and "p < npages m" and "word_of_nat p \<noteq> first"
  shows "find_free (Suc fuel) m first (word_of_nat p) = find_free fuel m first (word_of_nat (Suc p))"
proof -
  have p: "p < 18446744073709551616" using assms(2) unat_u64 [of "total_available_pages m"] by linarith
  then have "\<not> total_available_pages m \<le> word_of_nat p"
    using assms(2) by (simp add: word_le_nat_alt )
  then show ?thesis using assms used_cap [OF assms(1)] p
    by (simp add: GET_PAGE_BIT_nat Let_def add.commute del: bm_cap_div)
qed

lemma find_free_wrap:
  assumes "npages m \<in> used m" and "first \<noteq> 0"
  shows "find_free (Suc fuel) m first (total_available_pages m) = find_free fuel m first 1"
  using assms GET_PAGE_BIT_nat [OF used_cap [OF assms(1)]]
  by (simp add: Let_def)

lemma find_free_skip:
  assumes "\<And>i. p \<le> i \<Longrightarrow> i < p + n \<Longrightarrow> i \<in> used m \<and> word_of_nat i \<noteq> first" and "p + n \<le> npages m" and "n \<le> fuel"
  shows "find_free fuel m first (word_of_nat p) = find_free (fuel - n) m first (word_of_nat (p + n))"
  using assms
proof (induction n arbitrary: p fuel)
  case (Suc n)
  then obtain f where f: "fuel = Suc f" by (cases fuel) auto
  have "find_free fuel m first (word_of_nat p) = find_free f m first (word_of_nat (Suc p))"
    unfolding f using Suc.prems by (intro find_free_next) auto
  also have "\<dots> = find_free (f - n) m first (word_of_nat (Suc p + n))"
    using Suc.prems f by (intro Suc.IH) auto
  finally show ?case using f by simp
qed simp

section \<open>Accounting\<close>

text \<open>The counters against the bitmap: \<open>free_memory\<close> is the size of the range less one page for every
  set bit, and every set bit is counted as locked or as reserved.\<close>

definition accounted :: "pmm \<Rightarrow> bool" where
  "accounted m \<longleftrightarrow>
     free_memory m + PAGESIZE * word_of_nat (card (used m)) = last_available_page_address m - first_available_page_addr m
   \<and> locked_memory m + reserved_memory m = PAGESIZE * word_of_nat (card (used m))"

lemma finite_used [simp]: "finite (used m)"
  by (simp add: used_def)

lemma used_upd [simp]: "used (m\<lparr>bitfield := bf\<rparr>) = bm_elems bf"
  "used (m\<lparr>free_memory := a\<rparr>) = used m" "used (m\<lparr>locked_memory := a\<rparr>) = used m"
  "used (m\<lparr>reserved_memory := a\<rparr>) = used m" "used (m\<lparr>rp_last := a\<rparr>) = used m"
  "used (m\<lparr>rp_stat := a\<rparr>) = used m" "used (m\<lparr>rc_last := a\<rparr>) = used m" "used (m\<lparr>rc_stat := a\<rparr>) = used m"
  by (simp_all add: used_def)

lemma card_Diff1_word:
  assumes "x \<in> A" and "finite A"
  shows "(word_of_nat (card (A - {x})) :: u64) = word_of_nat (card A) - 1"
proof -
  have c: "card A = Suc (card (A - {x}))" by (rule card.remove [OF assms(2,1)])
  show ?thesis unfolding c by simp
qed

lemma lock_page_OkE:
  assumes "lock_page m a = Ok m'" and "page_ok m (ADDR_TO_PAGE a)"
  obtains bf where "m' = m\<lparr>bitfield := bf, free_memory := free_memory m - PAGESIZE,
      locked_memory := locked_memory m + PAGESIZE\<rparr>"
    and "length bf = length (bitfield m)" and "bm_elems bf = insert (unat (ADDR_TO_PAGE a)) (used m)"
    and "unat (ADDR_TO_PAGE a) \<notin> used m"
proof (cases "unat (ADDR_TO_PAGE a) \<in> used m")
  case True then show thesis using assms by (simp add: lock_page_used)
next
  case False
  show thesis by (rule lock_page_free [OF assms(2) False], rule that) (use assms False in simp_all)
qed

lemma unlock_page_OkE:
  assumes "unlock_page m a = Ok m'" and "page_ok m (ADDR_TO_PAGE a)"
  obtains bf where "m' = m\<lparr>bitfield := bf, free_memory := free_memory m - PAGESIZE,
      locked_memory := locked_memory m + PAGESIZE\<rparr>"
    and "length bf = length (bitfield m)" and "bm_elems bf = used m - {unat (ADDR_TO_PAGE a)}"
    and "unat (ADDR_TO_PAGE a) \<in> used m"
proof (cases "unat (ADDR_TO_PAGE a) \<in> used m")
  case False then show thesis using assms by (simp add: unlock_page_free)
next
  case True
  show thesis by (rule unlock_page_used [OF assms(2) True], rule that) (use assms True in simp_all)
qed

lemma reserve_page_OkE:
  assumes "reserve_page m a = Ok m'" and "page_ok m (ADDR_TO_PAGE a)"
  obtains bf where "m' = m\<lparr>bitfield := bf, free_memory := free_memory m - PAGESIZE,
      reserved_memory := reserved_memory m + PAGESIZE\<rparr>"
    and "length bf = length (bitfield m)" and "bm_elems bf = insert (unat (ADDR_TO_PAGE a)) (used m)"
    and "unat (ADDR_TO_PAGE a) \<notin> used m"
proof (cases "unat (ADDR_TO_PAGE a) \<in> used m")
  case True then show thesis using assms by (simp add: reserve_page_def)
next
  case False
  show thesis by (rule reserve_page_free [OF assms(2) False], rule that) (use assms False in simp_all)
qed

lemma unreserve_page_OkE:
  assumes "unreserve_page m a = Ok m'" and "page_ok m (ADDR_TO_PAGE a)"
  obtains bf where "m' = m\<lparr>bitfield := bf, free_memory := free_memory m + PAGESIZE,
      reserved_memory := reserved_memory m - PAGESIZE\<rparr>"
    and "length bf = length (bitfield m)" and "bm_elems bf = used m - {unat (ADDR_TO_PAGE a)}"
    and "unat (ADDR_TO_PAGE a) \<in> used m"
proof (cases "unat (ADDR_TO_PAGE a) \<in> used m")
  case False then show thesis using assms by (simp add: unreserve_page_def)
next
  case True
  show thesis by (rule unreserve_page_used [OF assms(2) True], rule that) (use assms True in simp_all)
qed

lemma accounted_take:
  assumes "accounted m" and "used m' = insert p (used m)" and "p \<notin> used m"
    and "free_memory m' = free_memory m - PAGESIZE"
    and "locked_memory m' + reserved_memory m' = locked_memory m + reserved_memory m + PAGESIZE"
    and "last_available_page_address m' = last_available_page_address m"
    and "first_available_page_addr m' = first_available_page_addr m"
  shows "accounted m'"
proof -
  have "free_memory m' + PAGESIZE * word_of_nat (card (used m')) = free_memory m + PAGESIZE * word_of_nat (card (used m))"
    using assms(2-4) by (simp add: algebra_simps)
  moreover have "PAGESIZE * word_of_nat (card (used m')) = PAGESIZE * word_of_nat (card (used m)) + PAGESIZE"
    using assms(2,3) by (simp add: algebra_simps)
  ultimately show ?thesis using assms(1,5-7) unfolding accounted_def by simp
qed

lemma card_used_drop:
  assumes "p \<in> used m" and "used m' = used m - {p}"
  shows "PAGESIZE * word_of_nat (card (used m)) = PAGESIZE * word_of_nat (card (used m')) + PAGESIZE"
  using assms by (simp add: card_Diff1_word algebra_simps del: card_Diff_insert)

lemma accounted_drop:
  assumes "accounted m" and "used m' = used m - {p}" and "p \<in> used m"
    and "last_available_page_address m' = last_available_page_address m"
    and "first_available_page_addr m' = first_available_page_addr m"
  shows "free_memory m' = free_memory m + PAGESIZE \<Longrightarrow>
      locked_memory m' + reserved_memory m' = locked_memory m + reserved_memory m - PAGESIZE \<Longrightarrow> accounted m'"
    and "free_memory m' = free_memory m - PAGESIZE \<Longrightarrow>
      free_memory m' + PAGESIZE * word_of_nat (card (used m')) =
        last_available_page_address m' - first_available_page_addr m' - 2 * PAGESIZE"
proof -
  note c = card_used_drop [OF assms(3,2)]
  have f: "free_memory m + (PAGESIZE * word_of_nat (card (used m')) + PAGESIZE) =
      last_available_page_address m - first_available_page_addr m"
    and l: "locked_memory m + reserved_memory m = PAGESIZE * word_of_nat (card (used m')) + PAGESIZE"
    using assms(1) unfolding accounted_def c by auto
  show "accounted m'" if "free_memory m' = free_memory m + PAGESIZE"
    "locked_memory m' + reserved_memory m' = locked_memory m + reserved_memory m - PAGESIZE"
    unfolding accounted_def assms(4,5) that l f [symmetric] by (simp add: ac_simps)
  show "free_memory m' + PAGESIZE * word_of_nat (card (used m')) =
        last_available_page_address m' - first_available_page_addr m' - 2 * PAGESIZE"
    if "free_memory m' = free_memory m - PAGESIZE"
    unfolding assms(4,5) that f [symmetric] by simp
qed

lemma lock_page_accounted:
  "lock_page m a = Ok m' \<Longrightarrow> page_ok m (ADDR_TO_PAGE a) \<Longrightarrow> accounted m \<Longrightarrow> accounted m'"
  by (erule (1) lock_page_OkE, rule accounted_take, assumption) simp_all

lemma reserve_page_accounted:
  "reserve_page m a = Ok m' \<Longrightarrow> page_ok m (ADDR_TO_PAGE a) \<Longrightarrow> accounted m \<Longrightarrow> accounted m'"
  by (erule (1) reserve_page_OkE, rule accounted_take, assumption) simp_all

lemma unreserve_page_accounted:
  "unreserve_page m a = Ok m' \<Longrightarrow> page_ok m (ADDR_TO_PAGE a) \<Longrightarrow> accounted m \<Longrightarrow> accounted m'"
  by (erule (1) unreserve_page_OkE, rule accounted_drop(1), assumption) (simp_all add: algebra_simps)

text \<open>\<open>unlock_page\<close> moves the counters the same way as \<open>lock_page\<close> although it clears the bit.\<close>

lemma unlock_page_drift:
  "unlock_page m a = Ok m' \<Longrightarrow> page_ok m (ADDR_TO_PAGE a) \<Longrightarrow> accounted m \<Longrightarrow>
   free_memory m' + PAGESIZE * word_of_nat (card (used m')) =
    last_available_page_address m' - first_available_page_addr m' - 2 * PAGESIZE"
  by (erule (1) unlock_page_OkE, rule accounted_drop(2), assumption) simp_all

section \<open>Requesting a page\<close>

lemma ADDR_TO_PAGE_shift:
  assumes "unat p < 2 ^ 52"
  shows "ADDR_TO_PAGE (push_bit 12 p) = p"
proof (rule bit_word_eqI)
  fix n :: nat assume "n < LENGTH(64)"
  have "\<not> bit p k" if "k \<ge> 52" for k
  proof -
    have "take_bit 52 (unat p) = unat p" using assms by (simp add: take_bit_nat_eq_self)
    then have "bit (unat p) k \<longleftrightarrow> k < 52 \<and> bit (unat p) k" by (metis bit_take_bit_iff)
    then show ?thesis using that by (simp add: bit_unsigned_iff)
  qed
  then show "bit (ADDR_TO_PAGE (push_bit 12 p)) n \<longleftrightarrow> bit p n"
    using \<open>n < LENGTH(64)\<close> by (auto simp: ADDR_TO_PAGE_def bit_simps not_le) (meson not_le_imp_less)
qed

text \<open>What follows the search: the page found is locked and its address handed out.\<close>

abbreviation handed_out :: "pmm \<Rightarrow> nat \<Rightarrow> u8 list \<Rightarrow> pmm" where
  "handed_out m q bf \<equiv> m\<lparr>bitfield := bf, free_memory := free_memory m - PAGESIZE,
     locked_memory := locked_memory m + PAGESIZE, rp_last := word_of_nat q, rp_stat := rp_stat m + 1\<rparr>"

lemma handed_out:
  assumes "pmm_wf m" and "q \<notin> used m" and "q \<le> npages m" and "length bf = length (bitfield m)"
    and "bm_elems bf = insert q (used m)"
  shows "used (handed_out m q bf) = insert q (used m)" and "pmm_wf (handed_out m q bf)"
    and "accounted m \<Longrightarrow> accounted (handed_out m q bf)"
proof -
  show "used (handed_out m q bf) = insert q (used m)" using assms by simp
  have "unat (word_of_nat q :: u64) = q" using assms pmm_wf_npages [OF assms(1)] by simp
  then show "pmm_wf (handed_out m q bf)" using assms by (simp add: pmm_wf_def word_le_nat_alt)
  show "accounted m \<Longrightarrow> accounted (handed_out m q bf)"
    by (rule accounted_take [OF _ _ assms(2)]) (use assms in simp_all)
qed

lemma request_page_found:
  assumes wf: "pmm_wf m" and f: "find_free (scan_fuel m) m (rp_last m - 1) (rp_last m) = Ok (word_of_nat q)"
    and q: "q \<notin> used m" "q \<le> npages m" "q < bm_cap (bitfield m)"
  obtains bf where "request_page m = Ok (first_available_page_addr m + PAGESIZE * word_of_nat q, handed_out m q bf)"
    and "length bf = length (bitfield m)" and "bm_elems bf = insert q (used m)"
proof -
  let ?w = "word_of_nat q :: u64" and ?m = "m\<lparr>rp_last := word_of_nat q\<rparr>"
  have q64: "q < 2 ^ 51" using q(2) pmm_wf_npages [OF wf] by linarith
  have u: "unat ?w = q" using q64 by simp
  have a: "ADDR_TO_PAGE (push_bit 12 ?w) = ?w" using q64 by (intro ADDR_TO_PAGE_shift) simp
  have ok: "page_ok ?m (ADDR_TO_PAGE (push_bit 12 ?w))"
    unfolding a using q u by (simp add: page_ok_def word_le_nat_alt)
  obtain bf where bf: "lock_page ?m (push_bit 12 ?w) = Ok (?m\<lparr>bitfield := bf, free_memory := free_memory ?m - PAGESIZE,
      locked_memory := locked_memory ?m + PAGESIZE\<rparr>)" (is "_ = Ok ?n")
    "length bf = length (bitfield m)" "bm_elems bf = insert q (used m)"
    by (rule lock_page_free [OF ok]) (use a u q in auto)
  have "page_ok ?n ?w" using q u bf by (simp add: page_ok_def word_le_nat_alt)
  then have "request_page m = Ok (first_available_page_addr m + PAGESIZE * ?w, handed_out m q bf)"
    using f bf u by (simp add: request_page_def push_bit_eq_mult mult.commute)
  then show thesis by (rule that) (use bf in simp_all)
qed

lemma find_free_from:
  assumes "l \<le> q" and "\<And>i. l \<le> i \<Longrightarrow> i < q \<Longrightarrow> i \<in> used m \<and> word_of_nat i \<noteq> first"
    and "q \<notin> used m" and "q \<le> npages m" and "q < bm_cap (bitfield m)" and "q - l < fuel"
  shows "find_free fuel m first (word_of_nat l) = Ok (word_of_nat q)"
proof -
  have "find_free fuel m first (word_of_nat l) = find_free (fuel - (q - l)) m first (word_of_nat (l + (q - l)))"
    using assms by (intro find_free_skip) auto
  also have "\<dots> = Ok (word_of_nat q)"
  proof -
    obtain k where "fuel - (q - l) = Suc k" using assms(6) by (metis Suc_pred zero_less_diff)
    moreover have "q < 18446744073709551616" using assms(4) unat_u64 [of "total_available_pages m"] by linarith
    ultimately show ?thesis using assms(1) find_free_hit [OF assms(3,5)] by simp
  qed
  finally show ?thesis .
qed

lemma pred_not_ahead:
  assumes e: "word_of_nat i = l - (1 :: u64)" and "unat l \<le> i"
  shows "18446744073709551615 \<le> i"
proof (rule ccontr)
  assume "\<not> 18446744073709551615 \<le> i"
  note assms = assms this
  have "i = unat (l - 1)" using assms by (simp flip: e)
  also have "\<dots> = (if l = 0 then 18446744073709551615 else unat l - 1)"
    by (auto simp: unat_sub_if' unat_eq_zero not_less_eq_eq)
  finally show False using assms unat_eq_zero [of l] by (auto split: if_splits)
qed

lemma npages_cap: "pmm_wf m \<Longrightarrow> p < npages m \<Longrightarrow> p < bm_cap (bitfield m)"
  by (simp add: pmm_wf_cap bm_cap_def del: bm_cap_div)

lemma rp_last_le: "pmm_wf m \<Longrightarrow> unat (rp_last m) \<le> npages m"
  by (simp add: pmm_wf_def word_le_nat_alt)

lemma request_page_ahead:
  assumes wf: "pmm_wf m" and q: "unat (rp_last m) \<le> q" "q \<le> npages m" "q < bm_cap (bitfield m)" "q \<notin> used m"
    and all: "\<And>i. unat (rp_last m) \<le> i \<Longrightarrow> i < q \<Longrightarrow> i \<in> used m"
  obtains bf where "request_page m = Ok (first_available_page_addr m + PAGESIZE * word_of_nat q, handed_out m q bf)"
    and "length bf = length (bitfield m)" and "bm_elems bf = insert q (used m)"
proof -
  have "find_free (scan_fuel m) m (rp_last m - 1) (word_of_nat (unat (rp_last m))) = Ok (word_of_nat q)"
    using q all pmm_wf_npages [OF wf]
    by (intro find_free_from) (auto simp: scan_fuel_def dest!: pred_not_ahead)
  then have "find_free (scan_fuel m) m (rp_last m - 1) (rp_last m) = Ok (word_of_nat q)" by simp
  then show thesis by (rule request_page_found [OF wf _ q(4,2,3)]) (rule that)
qed

text \<open>C1: next fit. When a page between the last one handed out and the end of the range is free, \<open>request_page\<close>
  returns the address of the first such page: it was free, it is used afterwards, no other page changes
  state, and the counters still agree with the bitmap.\<close>

theorem request_page_next_fit:
  assumes "pmm_wf m" and "q \<notin> used m" and "unat (rp_last m) \<le> q" and "q < npages m"
    and "\<forall>i. unat (rp_last m) \<le> i \<and> i < q \<longrightarrow> i \<in> used m"
  shows "\<exists>m'. request_page m = Ok (first_available_page_addr m + PAGESIZE * word_of_nat q, m')
    \<and> used m' = insert q (used m) \<and> pmm_wf m' \<and> rp_last m' = word_of_nat q \<and> (accounted m \<longrightarrow> accounted m')"
proof -
  obtain bf where bf: "request_page m = Ok (first_available_page_addr m + PAGESIZE * word_of_nat q, handed_out m q bf)"
    "length bf = length (bitfield m)" "bm_elems bf = insert q (used m)"
    by (rule request_page_ahead [OF assms(1,3) _ npages_cap [OF assms(1,4)] assms(2)]) (use assms(4,5) in auto)
  show ?thesis
    using bf(1) handed_out [OF assms(1,2) less_imp_le [OF assms(4)] bf(2,3)]
    by (intro exI [of _ "handed_out m q bf"] conjI) simp_all
qed

text \<open>the search looks one bit too far. When every page from the last one handed out to the end is used and the
  page count is not a multiple of eight, the padding bit behind the last page is taken for a free page:
  \<open>request_page\<close> returns the first address behind the range, although the pages before
  \<open>last_requested\<close> may be free.\<close>

theorem request_page_past_end:
  assumes "pmm_wf m" and "npages m \<notin> used m" and "npages m mod 8 \<noteq> 0"
    and "\<forall>i. unat (rp_last m) \<le> i \<and> i < npages m \<longrightarrow> i \<in> used m"
  shows "\<exists>m'. request_page m = Ok (first_available_page_addr m + PAGESIZE * total_available_pages m, m')
    \<and> used m' = insert (npages m) (used m)"
proof -
  have "npages m < bm_cap (bitfield m)"
    using assms(3) pmm_wf_cap [OF assms(1)] by (simp add: bm_cap_def del: bm_cap_div) presburger
  from request_page_ahead [OF assms(1) rp_last_le [OF assms(1)] order_refl this assms(2)] assms(4)
  obtain bf where "request_page m = Ok (first_available_page_addr m + PAGESIZE * word_of_nat (npages m), handed_out m (npages m) bf)"
    and "bm_elems bf = insert (npages m) (used m)" by metis
  then show ?thesis by simp
qed

text \<open>once the padding bit is set the search wraps to page 1: with every page from \<open>last_requested\<close> to the end
  used, the first free page below \<open>last_requested\<close> (other than page 0) is handed out.\<close>

theorem request_page_wraps:
  assumes wf: "pmm_wf m" and top: "\<forall>i. unat (rp_last m) \<le> i \<and> i \<le> npages m \<longrightarrow> i \<in> used m"
    and q: "0 < q" "q < unat (rp_last m)" "q \<notin> used m" and low: "\<forall>i. 0 < i \<and> i < q \<longrightarrow> i \<in> used m"
  shows "\<exists>m'. request_page m = Ok (first_available_page_addr m + PAGESIZE * word_of_nat q, m')
    \<and> used m' = insert q (used m) \<and> pmm_wf m' \<and> (accounted m \<longrightarrow> accounted m')"
proof -
  let ?l = "unat (rp_last m)" and ?f = "rp_last m - 1" and ?n = "npages m"
  have T: "?n < 2 ^ 51" and l: "?l \<le> ?n" by (rule pmm_wf_npages [OF wf], rule rp_last_le [OF wf])
  have f: "unat ?f = ?l - 1" using q by (simp add: unat_sub_if' Suc_le_eq)
  then have f0: "?f \<noteq> 0" using q by auto
  have qc: "q < bm_cap (bitfield m)" using q l by (intro npages_cap [OF wf]) simp
  have "find_free (scan_fuel m) m ?f (word_of_nat ?l) = find_free (scan_fuel m - (?n - ?l)) m ?f (word_of_nat (?l + (?n - ?l)))"
    by (rule find_free_skip) (use top l T in \<open>auto simp: scan_fuel_def dest!: pred_not_ahead\<close>)
  also have "?l + (?n - ?l) = ?n" using l by simp
  also have "scan_fuel m - (?n - ?l) = Suc (?n + ?l + 3)" using l by (simp add: scan_fuel_def)
  also have "find_free (Suc (?n + ?l + 3)) m ?f (word_of_nat ?n) = find_free (?n + ?l + 3) m ?f (word_of_nat 1)"
  proof -
    have t: "word_of_nat ?n = total_available_pages m" "word_of_nat 1 = (1 :: u64)" by simp_all
    show ?thesis unfolding t by (rule find_free_wrap) (use top l f0 in auto)
  qed
  also have "\<dots> = Ok (word_of_nat q)"
  proof (rule find_free_from)
    fix i assume i: "1 \<le> i" "i < q"
    have "word_of_nat i \<noteq> ?f"
    proof
      assume e: "word_of_nat i = ?f"
      have "unat (word_of_nat i :: u64) = i" using i q l T by (intro unat_of_nat_u64) simp
      then show False unfolding e using i q f by simp
    qed
    then show "i \<in> used m \<and> word_of_nat i \<noteq> ?f" using low i by simp
  qed (use q l qc in auto)
  finally have "find_free (scan_fuel m) m ?f (rp_last m) = Ok (word_of_nat q)" by simp
  then obtain bf where bf: "request_page m = Ok (first_available_page_addr m + PAGESIZE * word_of_nat q, handed_out m q bf)"
    "length bf = length (bitfield m)" "bm_elems bf = insert q (used m)"
    by (rule request_page_found [OF wf _ q(3) _ qc]) (use q l in auto)
  have "q \<le> npages m" using q l by simp
  from bf(1) handed_out [OF wf q(3) this bf(2,3)] show ?thesis
    by (intro exI [of _ "handed_out m q bf"] conjI) simp_all
qed

section \<open>Any successful request\<close>

lemma find_free_Ok:
  assumes "find_free fuel m first l = Ok x" and "unat l < 2 ^ 51" and "npages m < 2 ^ 51"
  shows "unat x \<notin> used m \<and> unat x div 8 < length (bitfield m) \<and> unat x < 2 ^ 52"
  using assms
proof (induction fuel m first l rule: find_free.induct)
  case (2 fuel m first l)
  have g: "\<exists>b. GET_PAGE_BIT m l = Ok b \<and> (b \<noteq> 1 \<longrightarrow> unat l \<notin> used m \<and> unat l div 8 < length (bitfield m))"
    using 2(2) by (auto simp: GET_PAGE_BIT_def used_def bm_get_eq split: if_splits)
  then obtain b where b: "GET_PAGE_BIT m l = Ok b" "b \<noteq> 1 \<longrightarrow> unat l \<notin> used m \<and> unat l div 8 < length (bitfield m)"
    by blast
  show ?case
  proof (cases "b = 1")
    case True
    let ?l = "if l \<ge> total_available_pages m then 0 else l"
    have u: "unat (?l + 1) < 2 ^ 51"
      using 2(4) by (subst unat_Suc_small) (auto simp: word_le_nat_alt not_le)
    have "find_free fuel m first (?l + 1) = Ok x"
      using 2(2) b(1) True by (auto simp: Let_def split: if_splits elim!: rbind_eq_OkE)
    then show ?thesis using 2(1) [OF True refl] u 2(4) by blast
  next
    case False then show ?thesis using 2(2,3) b by simp
  qed
qed simp

text \<open>Whatever page a successful request returns, it was free before.\<close>

lemma request_page_Ok:
  assumes wf: "pmm_wf m" and ok: "request_page m = Ok (a, m')"
  obtains q bf where "a = first_available_page_addr m + PAGESIZE * word_of_nat q" and "m' = handed_out m q bf"
    and "length bf = length (bitfield m)" and "bm_elems bf = insert q (used m)" and "q \<notin> used m" and "q \<le> npages m"
proof -
  note n = pmm_wf_npages [OF wf]
  obtain l m1 where l: "find_free (scan_fuel m) m (rp_last m - 1) (rp_last m) = Ok l"
    and lk: "lock_page (m\<lparr>rp_last := l\<rparr>) (push_bit 12 l) = Ok m1"
    using ok unfolding request_page_def by blast
  have x: "unat l \<notin> used m" "unat l div 8 < length (bitfield m)" "unat l < 2 ^ 52"
    using find_free_Ok [OF l _ n] rp_last_le [OF wf] n by auto
  have "\<not> ADDR_TO_PAGE (push_bit 12 l) > total_available_pages m"
    using lk by (auto simp: lock_page_def get_page_bit_def elim!: rbind_eq_OkE)
  then have le: "unat l \<le> npages m" unfolding ADDR_TO_PAGE_shift [OF x(3)] by (simp add: word_le_nat_alt not_less)
  obtain bf where "request_page m = Ok (first_available_page_addr m + PAGESIZE * word_of_nat (unat l), handed_out m (unat l) bf)"
    "length bf = length (bitfield m)" "bm_elems bf = insert (unat l) (used m)"
    by (rule request_page_found [OF wf, of "unat l"]) (use l x le in auto)
  then show thesis using that [of "unat l" bf] ok x le by auto
qed

definition free_ahead :: "pmm \<Rightarrow> nat set" where
  "free_ahead m = {p. unat (rp_last m) \<le> p \<and> p < npages m \<and> p \<notin> used m}"

lemma finite_free_ahead [simp]: "finite (free_ahead m)"
  by (rule finite_subset [of _ "{..<npages m}"]) (auto simp: free_ahead_def)

text \<open>While a page is free ahead of the cursor a request succeeds and leaves all the others ahead of it.\<close>

lemma request_page_progress:
  assumes wf: "pmm_wf m" and "0 < card (free_ahead m)"
  shows "\<exists>a m'. request_page m = Ok (a, m') \<and> card (free_ahead m) = Suc (card (free_ahead m'))"
proof -
  define q where "q = (LEAST p. p \<in> free_ahead m)"
  have "free_ahead m \<noteq> {}" using assms(2) by auto
  then have q: "q \<in> free_ahead m" unfolding q_def by (metis LeastI ex_in_conv)
  have least: "q \<le> p" if "p \<in> free_ahead m" for p unfolding q_def using that by (rule Least_le)
  have ql: "unat (rp_last m) \<le> q" "q < npages m" "q \<notin> used m" using q by (simp_all add: free_ahead_def)
  obtain bf where bf: "request_page m = Ok (first_available_page_addr m + PAGESIZE * word_of_nat q, handed_out m q bf)"
    "length bf = length (bitfield m)" "bm_elems bf = insert q (used m)"
  proof (rule request_page_ahead [OF wf ql(1) _ npages_cap [OF wf ql(2)] ql(3)])
    show "i \<in> used m" if "unat (rp_last m) \<le> i" "i < q" for i
      using that least [of i] ql(2) by (auto simp: free_ahead_def)
  qed (use ql in auto)
  have "unat (word_of_nat q :: u64) = q" using ql(2) pmm_wf_npages [OF wf] by simp
  then have "free_ahead (handed_out m q bf) = free_ahead m - {q}"
    using bf(3) ql least by (fastforce simp: free_ahead_def)
  then have "card (free_ahead m) = Suc (card (free_ahead (handed_out m q bf)))"
    using q by (metis card.remove finite_free_ahead)
  then show ?thesis using bf(1) by blast
qed

section \<open>Freeing a page\<close>

lemma free_page_ok:
  assumes "page_ok m p" and "unat p \<in> used m" and "unat p < 2 ^ 51"
    and "first_available_page_addr m \<le> first_available_page_addr m + PAGESIZE * p"
  obtains m' where "free_page m (first_available_page_addr m + PAGESIZE * p) = Ok m'"
    and "used m' = used m - {unat p}" and "length (bitfield m') = length (bitfield m)"
    and "free_memory m' = free_memory m - PAGESIZE" and "locked_memory m' = locked_memory m + PAGESIZE"
proof -
  let ?a = "PAGESIZE * p"
  have a: "?a = push_bit 12 p" by (simp add: push_bit_eq_mult mult.commute)
  have p: "ADDR_TO_PAGE ?a = p" "drop_bit 12 ?a = p"
    using ADDR_TO_PAGE_shift [of p] assms(3) by (simp_all add: a ADDR_TO_PAGE_def)
  obtain bf where bf: "unlock_page m ?a = Ok (m\<lparr>bitfield := bf, free_memory := free_memory m - PAGESIZE,
      locked_memory := locked_memory m + PAGESIZE\<rparr>)" (is "_ = Ok ?n")
    "length bf = length (bitfield m)" "bm_elems bf = used m - {unat p}"
    by (rule unlock_page_used [of m ?a]) (use assms p in auto)
  have "page_ok ?n p" using assms bf by (simp add: page_ok_def)
  then have "free_page m (first_available_page_addr m + ?a) = Ok ?n"
    using assms bf p by (simp add: free_page_def Let_def not_less)
  then show thesis by (rule that) (use bf in simp_all)
qed

text \<open>requesting a page and freeing it restores the bitmap, but not the counters: \<open>unlock_page\<close> takes the page off
  \<open>free_memory\<close> and adds it to \<open>locked_memory\<close> a second time, so that each such pair loses two pages
  of \<open>free_memory\<close>.\<close>

theorem request_free_roundtrip:
  assumes "pmm_wf m" and "q \<notin> used m" and "unat (rp_last m) \<le> q" and "q < npages m"
    and "\<forall>i. unat (rp_last m) \<le> i \<and> i < q \<longrightarrow> i \<in> used m"
    and "unat (first_available_page_addr m) + 4096 * npages m < 2 ^ 64"
  shows "\<exists>a m1 m2. request_page m = Ok (a, m1) \<and> free_page m1 a = Ok m2 \<and> bitfield m2 = bitfield m
    \<and> free_memory m2 = free_memory m - 2 * PAGESIZE \<and> locked_memory m2 = locked_memory m + 2 * PAGESIZE"
proof -
  obtain bf where bf: "request_page m = Ok (first_available_page_addr m + PAGESIZE * word_of_nat q, handed_out m q bf)"
    "length bf = length (bitfield m)" "bm_elems bf = insert q (used m)"
    by (rule request_page_ahead [OF assms(1,3) _ npages_cap [OF assms(1,4)] assms(2)]) (use assms(4,5) in auto)
  let ?m1 = "handed_out m q bf" and ?p = "word_of_nat q :: u64"
  have q51: "q < 2 ^ 51" using assms(4) pmm_wf_npages [OF assms(1)] by simp
  have q: "unat ?p = q" using q51 by simp
  have pq: "unat (PAGESIZE * ?p) = 4096 * q" using q q51 by (simp add: unat_word_ariths)
  have ok: "page_ok ?m1 ?p" using assms(4) npages_cap [OF assms(1,4)] bf(2) q
    by (simp add: page_ok_def word_le_nat_alt)
  have over: "first_available_page_addr ?m1 \<le> first_available_page_addr ?m1 + PAGESIZE * ?p"
    using assms(4,6) pq by (simp add: word_le_nat_alt unat_word_ariths)
  obtain m2 where m2: "free_page ?m1 (first_available_page_addr ?m1 + PAGESIZE * ?p) = Ok m2"
    "used m2 = used ?m1 - {unat ?p}" "length (bitfield m2) = length (bitfield ?m1)"
    "free_memory m2 = free_memory ?m1 - PAGESIZE" "locked_memory m2 = locked_memory ?m1 + PAGESIZE"
    by (rule free_page_ok [OF ok _ _ over]) (use bf q q51 in auto)
  have "bitfield m2 = bitfield m"
    by (rule bm_ext) (use m2 bf q assms(2) in \<open>auto simp: used_def\<close>)
  then show ?thesis using m2(1,4,5) by (simp add: bf(1))
qed

section \<open>Initialisation\<close>


text \<open>\<open>reserve_page\<close> in a loop from page \<open>i\<close> on, all of them free.\<close>

lemma each_reserve:
  assumes "npages m < 2 ^ 51" and "unat i + n \<le> npages m" and "npages m \<le> bm_cap (bitfield m)"
    and "\<forall>p \<in> {unat i..<unat i + n}. p \<notin> used m"
  shows "\<exists>m'. each_page reserve_page 0 i n m = Ok m' \<and> used m' = used m \<union> {unat i..<unat i + n}
    \<and> length (bitfield m') = length (bitfield m) \<and> total_available_pages m' = total_available_pages m
    \<and> first_available_page_addr m' = first_available_page_addr m
    \<and> last_available_page_address m' = last_available_page_address m
    \<and> locked_memory m' = locked_memory m \<and> rp_last m' = rp_last m
    \<and> (accounted m \<longrightarrow> accounted m')"
  using assms
proof (induction n arbitrary: i m)
  case (Suc n)
  have i: "unat i < npages m" "unat i < 2 ^ 51" using Suc.prems by simp_all
  have a: "ADDR_TO_PAGE (push_bit 12 i) = i" using i(2) by (intro ADDR_TO_PAGE_shift) simp
  have ok: "page_ok m (ADDR_TO_PAGE (push_bit 12 i))"
    unfolding a page_ok_def using i(1) Suc.prems(3) by (simp add: word_le_nat_alt del: bm_cap_div)
  obtain bf where bf: "reserve_page m (push_bit 12 i) = Ok (m\<lparr>bitfield := bf, free_memory := free_memory m - PAGESIZE,
      reserved_memory := reserved_memory m + PAGESIZE\<rparr>)" (is "_ = Ok ?n")
    "length bf = length (bitfield m)" "bm_elems bf = insert (unat i) (used m)"
    by (rule reserve_page_free [OF ok]) (use a Suc.prems in auto)
  have acc: "accounted m \<Longrightarrow> accounted ?n" using reserve_page_accounted [OF bf(1) ok] .
  have s: "unat (i + 1) = Suc (unat i)" using i(2) by (subst unat_Suc_small) simp_all
  have "\<exists>m'. each_page reserve_page 0 (i + 1) n ?n = Ok m' \<and> used m' = used ?n \<union> {unat (i + 1)..<unat (i + 1) + n}
    \<and> length (bitfield m') = length (bitfield ?n) \<and> total_available_pages m' = total_available_pages ?n
    \<and> first_available_page_addr m' = first_available_page_addr ?n
    \<and> last_available_page_address m' = last_available_page_address ?n
    \<and> locked_memory m' = locked_memory ?n \<and> rp_last m' = rp_last ?n \<and> (accounted ?n \<longrightarrow> accounted m')"
    using Suc.prems bf s by (intro Suc.IH) (auto simp: bm_cap_def simp del: bm_cap_div)
  moreover have "{unat i..<unat i + Suc n} = insert (unat i) {Suc (unat i)..<Suc (unat i) + n}" by auto
  ultimately show ?case using bf acc s by auto
qed simp

lemma fold_all_Ok:
  "(\<And>x. x \<in> set xs \<Longrightarrow> f x = Ok ()) \<Longrightarrow> fold (\<lambda>x r. rbind r (\<lambda>_. f x)) xs (Ok ()) = Ok ()"
  by (induction xs) simp_all

lemma bit_55: "k < 8 \<Longrightarrow> bit (0x55 :: u8) k \<longleftrightarrow> k mod 2 = 0"
proof -
  assume "k < 8"
  then have "k \<in> {0, 1, 2, 3, 4, 5, 6, 7}" by auto
  then show ?thesis by (auto simp: bit_iff_odd)
qed

lemma self_test_passes: "bitfield_self_test (replicate 100 0x55) = Ok ()"
  unfolding bitfield_self_test_def
proof (rule fold_all_Ok)
  fix x :: nat assume "x \<in> set [0..<800]"
  then have x: "x div 8 < 100" by (simp add: less_mult_imp_div_less)
  then have "bm_get (replicate 100 0x55) x = Ok (of_bool (x mod 8 mod 2 = 0))"
    using bit_55 [of "x mod 8"] by (simp add: bm_get_eq bm_elems_iff)
  then show "rbind (bm_get (replicate 100 0x55) x) (\<lambda>b. if x mod 8 mod 2 = 1
      then guard (b \<noteq> 1) ''init_memory: GET_PAGE_BIT failed''
      else guard (b \<noteq> 0) ''init_memory: GET_PAGE_BIT failed'') = Ok ()" by auto
qed

lemma biggest_chunk_max:
  "e \<in> set entries \<Longrightarrow> mm_type e = MEMMAP_USABLE \<Longrightarrow>
   mm_length e \<le> chunk_size (iterate_memory init_memory_cb entries c)"
proof -
  have mono: "chunk_size c \<le> chunk_size (iterate_memory init_memory_cb es c)" for es c
  proof (induction es arbitrary: c)
    case (Cons a es)
    have "chunk_size c \<le> chunk_size (init_memory_cb c a)" by (simp add: init_memory_cb_def less_imp_le)
    also have "\<dots> \<le> chunk_size (iterate_memory init_memory_cb es (init_memory_cb c a))" by (rule Cons.IH)
    finally show ?case by (simp add: iterate_memory_def)
  qed (simp add: iterate_memory_def)
  show "e \<in> set entries \<Longrightarrow> mm_type e = MEMMAP_USABLE \<Longrightarrow>
    mm_length e \<le> chunk_size (iterate_memory init_memory_cb entries c)"
  proof (induction entries arbitrary: c)
    case (Cons a es)
    show ?case
    proof (cases "e = a")
      case True
      have "mm_length a \<le> chunk_size (init_memory_cb c a)"
        using Cons.prems True by (simp add: init_memory_cb_def not_less)
      then show ?thesis using mono [of "init_memory_cb c a" es] True by (simp add: iterate_memory_def)
    next
      case False then show ?thesis using Cons by (simp add: iterate_memory_def)
    qed
  qed simp
qed

lemma aligned_ALIGN [simp]: "IS_ALIGNED x \<Longrightarrow> ALIGN_ADDR x = x"
  by (simp add: IS_ALIGNED_def ALIGN_ADDR_def and.commute)

lemma IS_ALIGNED_mod: "IS_ALIGNED x \<longleftrightarrow> unat x mod 4096 = 0"
proof -
  have "x AND (PAGESIZE - 1) = take_bit 12 x"
    using take_bit_eq_mask [of 12 x] by (simp add: mask_eq_exp_minus_1)
  also have "take_bit 12 x = 0 \<longleftrightarrow> take_bit 12 (unat x) = 0"
    by (simp add: word_zero_iff_unat unsigned_take_bit_eq)
  finally show ?thesis by (simp add: IS_ALIGNED_def take_bit_eq_mod)
qed

text \<open>The byte array of the bitfield starts at the first page boundary behind the pointer.\<close>

lemma ALIGN_ADDR_up: "IS_ALIGNED x \<Longrightarrow> unat x < 2 ^ 63 \<Longrightarrow> ALIGN_ADDR (x + 8) = x + PAGESIZE"
proof -
  have m: "PAGESIZE - 1 = mask 12" by (simp add: mask_eq_exp_minus_1)
  have tb: "unat (take_bit 12 y) = unat y mod 4096" for y :: u64
    by (simp add: take_bit_eq_mod unat_mod_distrib)
  assume "IS_ALIGNED x" and b: "unat x < 2 ^ 63"
  then have x: "unat x mod 4096 = 0" by (simp add: IS_ALIGNED_mod)
  have "unat (take_bit 12 (x + 8)) = 8" using b unfolding tb by (simp add: mod_add_aligned [OF x])
  moreover have "unat (take_bit 12 (x + 8 + PAGESIZE)) = 8"
    using b unfolding tb add.assoc by (simp add: mod_add_aligned [OF x])
  ultimately have t: "take_bit 12 (x + 8) = 8" "take_bit 12 (x + 8 + PAGESIZE) = 8"
    by (simp_all add: word_eq_iff_unsigned [where ?'a = nat])
  have "y AND NOT (mask 12) = y - take_bit 12 y" for y :: u64
  proof -
    have "y AND NOT (mask 12) = push_bit 12 (drop_bit 12 y)"
      by (rule bit_word_eqI) (auto simp: bit_simps)
    then show ?thesis using bits_ident [of 12 y] by (simp add: algebra_simps)
  qed
  note u = this
  have a: "mask 12 AND y = take_bit 12 y" for y :: u64
    by (simp add: take_bit_eq_mask and.commute)
  have "ALIGN_ADDR (x + 8) = x + 8 + PAGESIZE - 8"
    unfolding ALIGN_ADDR_def m u a t by simp
  then show ?thesis by simp
qed

definition bitfield_span :: "u64 \<Rightarrow> u64" where
  "bitfield_span n = drop_bit 12 (n + sizeof_system_memory + push_bit 12 3)"

lemma unat_bitfield_span: "unat n < 2 ^ 52 \<Longrightarrow> unat (bitfield_span n) = (unat n + 12360) div 4096"
  by (simp add: bitfield_span_def drop_bit_eq_div unat_div_distrib unat_word_ariths push_bit_eq_mult)

text \<open>after \<open>init_memory\<close> on a memory map whose largest usable chunk is page aligned and large enough, the
  allocator covers exactly that chunk, exactly the pages that hold the header and the bitfield are used,
  the counters agree with the bitmap, and the bytes of the bitfield lie inside the reserved pages.\<close>

theorem init_memory_ok:
  assumes c: "iterate_memory init_memory_cb entries biggest = c" and "chunk_size biggest = 0" and "0 < chunk_size c"
    and al: "IS_ALIGNED (chunk_addr c)" "IS_ALIGNED (chunk_size c)"
    and lim: "unat (chunk_addr c) + unat (chunk_size c) < 2 ^ 62"
    and big: "unat (chunk_size c) \<ge> 5 * 4096" and prev: "rp_last prev = 0"
  shows "\<exists>m. init_memory entries biggest prev = Ok (1, c, m) \<and> pmm_wf m \<and> accounted m
    \<and> first_available_page_addr m = chunk_addr c \<and> last_available_page_address m = chunk_addr c + chunk_size c
    \<and> 4096 * npages m = unat (chunk_size c)
    \<and> used m = {0..<(length (bitfield m) + 12360) div 4096}
    \<and> 4096 + length (bitfield m) \<le> 4096 * card (used m)"
proof -
  let ?b = "chunk_addr c" and ?s = "chunk_size c"
  let ?n = "bitfield_entries (drop_bit 12 ?s)"
  have addr: "unat (?b + ?s) = unat ?b + unat ?s" using lim by simp
  have s0: "unat ?s mod 4096 = 0" and b0: "unat ?b mod 4096 = 0" using al by (simp_all add: IS_ALIGNED_mod)
  then have "IS_ALIGNED (?b + ?s)" by (simp add: IS_ALIGNED_mod addr mod_add_aligned)
  then have l: "ALIGN_ADDR (?b + ?s) = ?b + ?s" by simp
  have p: "unat (drop_bit 12 ?s) = unat ?s div 4096" by (simp add: drop_bit_eq_div unat_div_distrib)
  have n: "unat ?n = (unat ?s div 4096 + 7) div 8" unfolding unat_bitfield_entries p ..
  have "unat ?s div 4096 < 2 ^ 50" using lim by (intro less_mult_imp_div_less) simp
  then have nsmall: "unat ?n < 2 ^ 50" unfolding n by (intro less_mult_imp_div_less) simp
  have span: "unat (bitfield_span ?n) = (unat ?n + 12360) div 4096"
    using nsmall by (intro unat_bitfield_span) simp
  have al2: "IS_ALIGNED (ALIGN_ADDR (?b + 8))"
    using ALIGN_ADDR_up [OF al(1)] lim b0 by (simp add: IS_ALIGNED_mod)
  define k where "k = unat ?s div 4096"
  have k: "unat ?s = 4096 * k" "5 \<le> k" "k < 2 ^ 50" using s0 big \<open>unat ?s div 4096 < 2 ^ 50\<close> unfolding k_def by auto
  have nk: "unat ?n \<le> k" "k \<le> 8 * unat ?n" using k(2) unfolding n k_def [symmetric] by simp_all
  have span_k: "unat (bitfield_span ?n) \<le> k"
    unfolding span using nk k(2) by (intro less_Suc_eq_le [THEN iffD1] less_mult_imp_div_less) simp
  have span_n: "4096 + unat ?n \<le> 4096 * ((unat ?n + 12360) div 4096)"
    using div_mult_mod_eq [of "unat ?n + 12360" 4096] mod_less_divisor [of 4096 "unat ?n + 12360"] by linarith
  let ?t = "get_total_memory entries 0"
  let ?m = "prev\<lparr>bitfield := replicate (unat ?n) 0, total_available_pages := drop_bit 12 ?s,
      total_memory := ?t, total_pages := drop_bit 12 ?t, free_memory := ?s, locked_memory := 0, reserved_memory := 0,
      last_available_page_address := ?b + ?s, first_available_page_addr := ?b\<rparr>"
  have u0: "used ?m = {}" by (simp add: used_def)
  have np: "npages ?m = k" by (simp add: p k_def)
  obtain m where m: "each_page reserve_page 0 0 (unat (bitfield_span ?n)) ?m = Ok m"
    "used m = used ?m \<union> {unat (0 :: u64)..<unat (0 :: u64) + unat (bitfield_span ?n)}"
    "length (bitfield m) = length (bitfield ?m)" "total_available_pages m = total_available_pages ?m"
    "first_available_page_addr m = first_available_page_addr ?m"
    "last_available_page_address m = last_available_page_address ?m" "rp_last m = rp_last ?m"
    "accounted ?m \<longrightarrow> accounted m"
    using each_reserve [of ?m 0 "unat (bitfield_span ?n)"] np u0 k nk span_k
    by (auto simp: bm_cap_def simp del: bm_cap_div)
  have "accounted ?m" using u0 by (simp add: accounted_def)
  have g: "\<not> ?s < ?n + sizeof_system_memory + push_bit 12 3"
    using nsmall nk k by (simp add: word_less_nat_alt push_bit_eq_mult)
  have "init_memory entries biggest prev = Ok (1, c, m)"
    using assms(2) al al2 g m(1) self_test_passes l
    by (simp add: init_memory_def c Let_def reserve_pages_def bitfield_span_def)
  then show ?thesis using m \<open>accounted ?m\<close> u0 np k span span_n prev
    by (simp add: pmm_wf_def)
qed

section \<open>Contiguous pages\<close>

lemma lock_run_free:
  assumes "npages m < 2 ^ 51" and "unat (rc_last m) + n \<le> npages m" and "npages m \<le> bm_cap (bitfield m)"
    and "\<forall>p \<in> {unat (rc_last m)..<unat (rc_last m) + n}. p \<notin> used m"
  shows "\<exists>m'. lock_run n m = Ok m' \<and> used m' = used m \<union> {unat (rc_last m)..<unat (rc_last m) + n}
    \<and> rc_last m' = rc_last m + word_of_nat n \<and> first_available_page_addr m' = first_available_page_addr m
    \<and> (accounted m \<longrightarrow> accounted m')"
  using assms
proof (induction n arbitrary: m)
  case (Suc n)
  let ?i = "rc_last m"
  have i: "unat ?i < npages m" "unat ?i < 2 ^ 51" using Suc.prems by simp_all
  have a: "ADDR_TO_PAGE (push_bit 12 ?i) = ?i" using i(2) by (intro ADDR_TO_PAGE_shift) simp
  have ok: "page_ok m ?i" "page_ok m (ADDR_TO_PAGE (push_bit 12 ?i))"
    unfolding a page_ok_def using i(1) Suc.prems(3) by (simp_all add: word_le_nat_alt del: bm_cap_div)
  obtain bf where bf: "lock_page m (push_bit 12 ?i) = Ok (m\<lparr>bitfield := bf, free_memory := free_memory m - PAGESIZE,
      locked_memory := locked_memory m + PAGESIZE\<rparr>)" (is "_ = Ok ?n")
    "length bf = length (bitfield m)" "bm_elems bf = insert (unat ?i) (used m)"
    by (rule lock_page_free [OF ok(2)]) (use a Suc.prems in auto)
  let ?k = "?n\<lparr>rc_last := ?i + 1\<rparr>"
  have acc: "accounted m \<Longrightarrow> accounted ?k"
    using lock_page_accounted [OF bf(1) ok(2)] by (simp add: accounted_def)
  have s: "unat (?i + 1) = Suc (unat ?i)" using i(2) by (subst unat_Suc_small) simp_all
  have "\<exists>m'. lock_run n ?k = Ok m' \<and> used m' = used ?k \<union> {unat (rc_last ?k)..<unat (rc_last ?k) + n}
    \<and> rc_last m' = rc_last ?k + word_of_nat n \<and> first_available_page_addr m' = first_available_page_addr ?k
    \<and> (accounted ?k \<longrightarrow> accounted m')"
    using Suc.prems bf s by (intro Suc.IH) (auto simp: bm_cap_def simp del: bm_cap_div)
  then obtain m' where m': "lock_run n ?k = Ok m'" "used m' = used ?k \<union> {unat (rc_last ?k)..<unat (rc_last ?k) + n}"
    "rc_last m' = rc_last ?k + word_of_nat n" "first_available_page_addr m' = first_available_page_addr ?k"
    "accounted ?k \<longrightarrow> accounted m'" by blast
  have "{unat ?i..<unat ?i + Suc n} = insert (unat ?i) {Suc (unat ?i)..<Suc (unat ?i) + n}" by auto
  moreover have "lock_run (Suc n) m = Ok m'" using bf(1) ok(1) m'(1) Suc.prems(4) by simp
  moreover have "rc_last m' = ?i + word_of_nat (Suc n)" using m'(3) by (simp add: add.assoc)
  ultimately show ?case using bf(3) acc s m'(2,4,5) by auto
qed simp

text \<open>\<open>request_contiguous_pages\<close> locks the run of pages that starts at \<open>last_requested\<close>, but the address it
  returns is computed from the value saved before the search, less one: the caller gets the address
  one page below the run, and the last page of the run is never given to it.\<close>

theorem request_contiguous_address:
  assumes "npages m < 2 ^ 51" and "npages m \<le> bm_cap (bitfield m)" and "0 < num"
    and "unat (rc_last m) + unat num \<le> npages m"
    and "\<forall>p \<in> {unat (rc_last m)..<unat (rc_last m) + unat num}. p \<notin> used m"
  shows "\<exists>m'. request_contiguous_pages m num = Ok (first_available_page_addr m + PAGESIZE * (rc_last m - 1), m')
    \<and> used m' = used m \<union> {unat (rc_last m)..<unat (rc_last m) + unat num}
    \<and> (accounted m \<longrightarrow> accounted m')"
proof -
  have n: "0 < unat num" using assms(3) by (simp add: word_less_nat_alt)
  have "find_free (Suc (2 * npages m + 3)) m (rc_last m - 1) (word_of_nat (unat (rc_last m))) = Ok (word_of_nat (unat (rc_last m)))"
    using assms n by (intro find_free_hit) (auto simp del: bm_cap_div)
  then have f: "find_free (scan_fuel m) m (rc_last m - 1) (rc_last m) = Ok (rc_last m)"
    by (simp add: scan_fuel_def add.commute del: find_free.simps)
  obtain m' where m': "lock_run (unat num) m = Ok m'"
    "used m' = used m \<union> {unat (rc_last m)..<unat (rc_last m) + unat num}"
    "first_available_page_addr m' = first_available_page_addr m" "accounted m \<longrightarrow> accounted m'"
    using lock_run_free [OF assms(1,4,2,5)] by blast
  have "m\<lparr>rc_last := rc_last m\<rparr> = m" by simp
  then have "request_contiguous_pages m num =
      Ok (first_available_page_addr m + PAGESIZE * (rc_last m - 1), m'\<lparr>rc_stat := rc_stat m' + num\<rparr>)"
    using f m' by (simp add: request_contiguous_pages_def Let_def push_bit_eq_mult mult.commute)
  then show ?thesis using m' by (auto simp: accounted_def)
qed

section \<open>Concrete runs\<close>

text \<open>A range of five pages whose first two hold the allocator.\<close>

definition pmm_example :: pmm where
  "pmm_example = \<lparr>total_available_pages = 5, first_available_page_addr = 0x100000,
     last_available_page_address = 0x105000, total_memory = 0x5000, total_pages = 5, bitfield = [3],
     free_memory = 0x3000, locked_memory = 0, reserved_memory = 0x2000, rp_last = 0, rp_stat = 0,
     rc_last = 2, rc_stat = 0\<rparr>"

lemma pmm_example_used: "used pmm_example = {0, 1}"
proof -
  have "used pmm_example = {x. x < 8 \<and> bit (3 :: u8) x}" by (auto simp: used_def bm_elems_def pmm_example_def)
  also have "\<dots> = {x \<in> {0, 1, 2, 3, 4, 5, 6, 7}. bit (3 :: u8) x}" by auto
  also have "\<dots> = {0, 1}" by (auto simp: bit_iff_odd)
  finally show ?thesis .
qed

lemma pmm_example_wf: "pmm_wf pmm_example"
  by (simp add: pmm_wf_def pmm_example_def bitfield_entries_def)

theorem request_page_next_fit_witness:
  "\<exists>m'. request_page pmm_example = Ok (0x102000, m') \<and> used m' = {0, 1, 2}"
proof -
  have "\<forall>i. unat (rp_last pmm_example) \<le> i \<and> i < 2 \<longrightarrow> i \<in> used pmm_example"
    by (auto simp: pmm_example_used)
  with request_page_next_fit [of pmm_example 2] pmm_example_wf show ?thesis
    by (auto simp: pmm_example_used) (auto simp: pmm_example_def)
qed

lemma used_one_byte: "used (m\<lparr>bitfield := [b]\<rparr>) = {x \<in> {0, 1, 2, 3, 4, 5, 6, 7}. bit b x}"
proof -
  have "used (m\<lparr>bitfield := [b]\<rparr>) = {x. x < 8 \<and> bit b x}" by (auto simp: used_def bm_elems_def)
  also have "\<dots> = {x \<in> {0, 1, 2, 3, 4, 5, 6, 7}. bit b x}" by auto
  finally show ?thesis .
qed

definition pmm_full :: pmm where
  "pmm_full = pmm_example\<lparr>bitfield := [31], rp_last := 4\<rparr>"

lemma pmm_full_used: "used pmm_full = {0, 1, 2, 3, 4}"
proof -
  have "used pmm_full = used (pmm_example\<lparr>bitfield := [31]\<rparr>)" by (simp add: pmm_full_def)
  also have "\<dots> = {0, 1, 2, 3, 4}" unfolding used_one_byte by (auto simp: bit_iff_odd)
  finally show ?thesis .
qed

theorem request_page_past_end_witness:
  "\<exists>m'. request_page pmm_full = Ok (0x105000, m') \<and> last_available_page_address pmm_full = 0x105000"
proof -
  have wf: "pmm_wf pmm_full" by (simp add: pmm_full_def pmm_example_def pmm_wf_def bitfield_entries_def)
  have n: "npages pmm_full = 5" "unat (rp_last pmm_full) = 4" by (simp_all add: pmm_full_def pmm_example_def)
  have "\<forall>i. unat (rp_last pmm_full) \<le> i \<and> i < npages pmm_full \<longrightarrow> i \<in> used pmm_full"
    by (auto simp: pmm_full_used n)
  with request_page_past_end [OF wf] show ?thesis
    by (auto simp: pmm_full_used n) (auto simp: pmm_full_def pmm_example_def)
qed

definition pmm_hole :: pmm where
  "pmm_hole = pmm_example\<lparr>bitfield := [59], rp_last := 4\<rparr>"

lemma pmm_hole_used: "used pmm_hole = {0, 1, 3, 4, 5}"
proof -
  have "used pmm_hole = used (pmm_example\<lparr>bitfield := [59]\<rparr>)" by (simp add: pmm_hole_def)
  also have "\<dots> = {0, 1, 3, 4, 5}" unfolding used_one_byte by (auto simp: bit_iff_odd)
  finally show ?thesis .
qed

theorem request_page_wraps_witness:
  "\<exists>m'. request_page pmm_hole = Ok (0x102000, m') \<and> used m' = {0, 1, 2, 3, 4, 5}"
proof -
  have wf: "pmm_wf pmm_hole" by (simp add: pmm_hole_def pmm_example_def pmm_wf_def bitfield_entries_def)
  have n: "npages pmm_hole = 5" "unat (rp_last pmm_hole) = 4" by (simp_all add: pmm_hole_def pmm_example_def)
  have top: "\<forall>i. unat (rp_last pmm_hole) \<le> i \<and> i \<le> npages pmm_hole \<longrightarrow> i \<in> used pmm_hole"
    by (auto simp: pmm_hole_used n)
  have low: "\<forall>i. 0 < i \<and> i < 2 \<longrightarrow> i \<in> used pmm_hole" by (auto simp: pmm_hole_used)
  obtain m' where "request_page pmm_hole = Ok (first_available_page_addr pmm_hole + PAGESIZE * word_of_nat 2, m')"
    "used m' = insert 2 (used pmm_hole)"
    using request_page_wraps [OF wf top _ _ _ low] by (auto simp: n pmm_hole_used)
  then show ?thesis by (auto simp: pmm_hole_used) (auto simp: pmm_hole_def pmm_example_def)
qed

theorem request_free_roundtrip_witness:
  "\<exists>a m1 m2. request_page pmm_example = Ok (a, m1) \<and> free_page m1 a = Ok m2 \<and> free_memory m2 = 0x1000"
proof -
  have "\<forall>i. unat (rp_last pmm_example) \<le> i \<and> i < 2 \<longrightarrow> i \<in> used pmm_example"
    by (auto simp: pmm_example_used)
  moreover have "2 \<notin> used pmm_example" by (simp add: pmm_example_used)
  moreover have "unat (rp_last pmm_example) \<le> 2" "2 < npages pmm_example"
    "unat (first_available_page_addr pmm_example) + 4096 * npages pmm_example < 2 ^ 64"
    by (simp_all add: pmm_example_def)
  ultimately obtain a m1 m2 where "request_page pmm_example = Ok (a, m1)" "free_page m1 a = Ok m2"
    "free_memory m2 = free_memory pmm_example - 2 * PAGESIZE"
    using request_free_roundtrip [OF pmm_example_wf] by blast
  then show ?thesis by (simp add: pmm_example_def)
qed

theorem request_contiguous_address_witness:
  "\<exists>m'. request_contiguous_pages pmm_example 3 = Ok (0x101000, m') \<and> used m' = {0, 1, 2, 3, 4}"
proof -
  have n: "npages pmm_example = 5" "unat (rc_last pmm_example) = 2" "length (bitfield pmm_example) = 1"
    by (simp_all add: pmm_example_def)
  obtain m' where "request_contiguous_pages pmm_example 3 =
      Ok (first_available_page_addr pmm_example + PAGESIZE * (rc_last pmm_example - 1), m')"
    "used m' = used pmm_example \<union> {unat (rc_last pmm_example)..<unat (rc_last pmm_example) + unat (3 :: u64)}"
    using request_contiguous_address [of pmm_example 3] n by (auto simp: pmm_example_used bm_cap_def simp del: bm_cap_div)
  moreover have "{2..<5 :: nat} = {2, 3, 4}" by auto
  ultimately show ?thesis using n by (auto simp: pmm_example_used) (auto simp: pmm_example_def)
qed

theorem init_memory_ok_witness:
  "\<exists>m. init_memory [\<lparr>mm_base = 0x100000, mm_length = 0x8000, mm_type = 0\<rparr>] \<lparr>chunk_addr = 0, chunk_size = 0\<rparr> pmm_example
    = Ok (1, \<lparr>chunk_addr = 0x100000, chunk_size = 0x8000\<rparr>, m) \<and> npages m = 8 \<and> used m = {0, 1, 2}"
proof -
  let ?c = "\<lparr>chunk_addr = 0x100000, chunk_size = 0x8000\<rparr>"
  have p0: "rp_last pmm_example = 0" by (simp add: pmm_example_def)
  have c: "iterate_memory init_memory_cb [\<lparr>mm_base = 0x100000, mm_length = 0x8000, mm_type = 0\<rparr>]
      \<lparr>chunk_addr = 0, chunk_size = 0\<rparr> = ?c"
    by (simp add: iterate_memory_def init_memory_cb_def)
  obtain m where m: "init_memory [\<lparr>mm_base = 0x100000, mm_length = 0x8000, mm_type = 0\<rparr>] \<lparr>chunk_addr = 0, chunk_size = 0\<rparr> pmm_example
      = Ok (1, ?c, m)" "pmm_wf m" "4096 * npages m = unat (chunk_size ?c)"
    "used m = {0..<(length (bitfield m) + 12360) div 4096}"
    using init_memory_ok [OF c _ _ _ _ _ _ p0] by (auto simp: IS_ALIGNED_mod)
  have n: "npages m = 8" using m(3) by simp
  then have "length (bitfield m) = 1" using pmm_wf_cap [OF m(2)] by simp
  then have "used m = {0..<3}" using m(4) by simp
  moreover have "{0..<3 :: nat} = {0, 1, 2}" by auto
  ultimately show ?thesis using m(1) n by auto
qed

end
