(* ===== verification/Paging.thy ===== *)
theory Paging
  imports Memory
begin

text \<open>The four-level page tables of \<open>memory/paging.c\<close> and \<open>paging.h\<close>. A page table or directory is
  the frame that holds its 512 entries; an entry is a 64-bit word with the bit fields of
  \<open>struct page_directory_entry\<close> and \<open>struct page_table_entry\<close> (the same positions for the fields the code
  uses). A C pointer to a table is a virtual address; the kernel reaches frames through two linear
  windows, the identity map the boot loader leaves in the low addresses and the map at
  \<open>IDENTITY_MAP_START\<close>. The page allocator is an argument: the state carries it, and the operations
  call \<open>req\<close> for a frame.\<close>

section \<open>State and entries\<close>

record 'm vm =
  pmem :: "u64 \<Rightarrow> nat \<Rightarrow> u64"
  cr3 :: u64
  alloc :: 'm

abbreviation IDENTITY_MAP_START :: u64 where "IDENTITY_MAP_START \<equiv> 0xffffA00000000000"

definition TO_KERNEL_MAP :: "u64 \<Rightarrow> u64" where "TO_KERNEL_MAP a = a + IDENTITY_MAP_START"
definition FROM_KERNEL_MAP :: "u64 \<Rightarrow> u64" where "FROM_KERNEL_MAP a = a - IDENTITY_MAP_START"

definition e_present :: "u64 \<Rightarrow> u64" where "e_present e = bf_get 0 1 e"
definition e_writeable :: "u64 \<Rightarrow> u64" where "e_writeable e = bf_get 1 1 e"
definition e_user_access :: "u64 \<Rightarrow> u64" where "e_user_access e = bf_get 2 1 e"
definition e_cache_disabled :: "u64 \<Rightarrow> u64" where "e_cache_disabled e = bf_get 4 1 e"
definition e_page_ppn :: "u64 \<Rightarrow> u64" where "e_page_ppn e = bf_get 12 28 e"
definition e_execution_disabled :: "u64 \<Rightarrow> u64" where "e_execution_disabled e = bf_get 63 1 e"

lemmas entry_defs = e_present_def e_writeable_def e_user_access_def e_cache_disabled_def e_page_ppn_def
  e_execution_disabled_def

text \<open>The frame a table pointer denotes.\<close>

definition ptr_frame :: "u64 \<Rightarrow> u64 result" where
  "ptr_frame p = (let a = (if p \<ge> IDENTITY_MAP_START then p - IDENTITY_MAP_START else p) in
     if a < 2 ^ 40 \<and> IS_ALIGNED a then Ok (drop_bit 12 a) else Err Fault)"

definition load :: "('m, 'z) vm_scheme \<Rightarrow> u64 \<Rightarrow> u64 \<Rightarrow> u64 result" where
  "load s tbl i = rbind (ptr_frame tbl) (\<lambda>f. if i < 512 then Ok (pmem s f (unat i)) else Err Fault)"

definition store :: "('m, 'z) vm_scheme \<Rightarrow> u64 \<Rightarrow> u64 \<Rightarrow> u64 \<Rightarrow> ('m, 'z) vm_scheme result" where
  "store s tbl i e = rbind (ptr_frame tbl) (\<lambda>f.
     if i < 512 then Ok (s\<lparr>pmem := (pmem s)(f := (pmem s f)(unat i := e))\<rparr>) else Err Fault)"

definition zero_page :: "('m, 'z) vm_scheme \<Rightarrow> u64 \<Rightarrow> ('m, 'z) vm_scheme result" where
  "zero_page s tbl = rbind (ptr_frame tbl) (\<lambda>f. Ok (s\<lparr>pmem := (pmem s)(f := (\<lambda>_. 0))\<rparr>))"

section \<open>Decomposing an address\<close>

record page_map_index =
  PDP_i :: u64
  PD_i :: u64
  PT_i :: u64
  P_i :: u64

definition address_to_map :: "u64 \<Rightarrow> page_map_index" where
  "address_to_map address =
    (let a0 = drop_bit 12 address; p = a0 AND 0x1ff;
         a1 = drop_bit 9 a0; pt = a1 AND 0x1ff;
         a2 = drop_bit 9 a1; pd = a2 AND 0x1ff;
         a3 = drop_bit 9 a2; pdp = a3 AND 0x1ff
     in \<lparr>PDP_i = pdp, PD_i = pd, PT_i = pt, P_i = p\<rparr>)"

section \<open>Translation\<close>

text \<open>One level: \<open>NULL\<close> (here \<open>None\<close>) when the entry is absent, else the pointer to the next table.
  \<open>conv\<close> is how the function turns a frame address into a pointer: \<open>TO_KERNEL_MAP\<close>, or nothing.\<close>

definition next_table :: "(u64 \<Rightarrow> u64) \<Rightarrow> ('m, 'z) vm_scheme \<Rightarrow> u64 \<Rightarrow> u64 \<Rightarrow> u64 option result" where
  "next_table conv s tbl i = rbind (load s tbl i) (\<lambda>pde.
     if e_present pde = 0 then Ok None else Ok (Some (conv (push_bit 12 (e_page_ppn pde)))))"

definition virtual_to_physical :: "('m, 'z) vm_scheme \<Rightarrow> u64 \<Rightarrow> u64 \<Rightarrow> u64 result" where
  "virtual_to_physical s pml4 virtual = (let mp = address_to_map virtual in
    rbind (next_table id s pml4 (PDP_i mp)) (\<lambda>pdp. case pdp of None \<Rightarrow> Ok 0 | Some pdp \<Rightarrow>
    rbind (next_table id s pdp (PD_i mp)) (\<lambda>pd. case pd of None \<Rightarrow> Ok 0 | Some pd \<Rightarrow>
    rbind (next_table id s pd (PT_i mp)) (\<lambda>pt. case pt of None \<Rightarrow> Ok 0 | Some pt \<Rightarrow>
    rbind (load s pt (P_i mp)) (\<lambda>pte.
      if e_present pte = 0 then Ok 0 else Ok (push_bit 12 (e_page_ppn pte)))))))"

section \<open>The current tables\<close>

definition get_pml4 :: "('m, 'z) vm_scheme \<Rightarrow> u64" where
  "get_pml4 s = TO_KERNEL_MAP (cr3 s)"

definition set_pml4 :: "('m, 'z) vm_scheme \<Rightarrow> u64 \<Rightarrow> ('m, 'z) vm_scheme" where
  "set_pml4 s pml4 = s\<lparr>cr3 := FROM_KERNEL_MAP pml4\<rparr>"

definition swap_pml4 :: "('m, 'z) vm_scheme \<Rightarrow> u64 \<Rightarrow> (u64 \<times> ('m, 'z) vm_scheme) result" where
  "swap_pml4 s pml =
    rbind (guard (pml \<noteq> 0) ''ERROR: Tried to swap to NULL PML4'') (\<lambda>_.
    let old = get_pml4 s in
    if old = pml then Ok (old, s) else Ok (old, set_pml4 s pml))"

definition invalidate_current_pml4 :: "('m, 'z) vm_scheme \<Rightarrow> ('m, 'z) vm_scheme" where
  "invalidate_current_pml4 s = set_pml4 s (get_pml4 s)"

section \<open>Mapping\<close>

definition CACHE_BIT_SET :: "u8 \<Rightarrow> u8" where "CACHE_BIT_SET x = drop_bit 3 (x AND 8)"
definition NX_BIT_SET :: "u8 \<Rightarrow> u8" where "NX_BIT_SET x = drop_bit 2 (x AND 4)"
definition USER_BIT_SET :: "u8 \<Rightarrow> u8" where "USER_BIT_SET x = drop_bit 1 (x AND 2)"
definition WRITE_BIT_SET :: "u8 \<Rightarrow> u8" where "WRITE_BIT_SET x = x AND 1"

text \<open>The directory entry written for a new table, and the entry of the page itself.\<close>

definition table_entry :: "u64 \<Rightarrow> u64 \<Rightarrow> u64" where
  "table_entry pde frame = bf_set 2 1 1 (bf_set 1 1 1 (bf_set 0 1 1 (bf_set 12 28 frame pde)))"

definition set_flags :: "u8 \<Rightarrow> u64 \<Rightarrow> u64" where
  "set_flags flags pte =
    bf_set 4 1 (ucast (CACHE_BIT_SET flags)) (bf_set 63 1 (ucast (NX_BIT_SET flags))
      (bf_set 2 1 (ucast (USER_BIT_SET flags)) (bf_set 1 1 (ucast (WRITE_BIT_SET flags)) pte)))"

definition page_entry :: "u64 \<Rightarrow> u64 \<Rightarrow> u8 \<Rightarrow> u64" where
  "page_entry pte physical flags = set_flags flags (bf_set 0 1 1 (bf_set 12 28 (drop_bit 12 physical) pte))"

definition ensure_table ::
  "('m \<Rightarrow> (u64 \<times> 'm) result) \<Rightarrow> (u64 \<Rightarrow> u64) \<Rightarrow> ('m, 'z) vm_scheme \<Rightarrow> u64 \<Rightarrow> u64 \<Rightarrow> (u64 \<times> ('m, 'z) vm_scheme) result"
where
  "ensure_table req conv s tbl i = rbind (load s tbl i) (\<lambda>pde.
     if e_present pde = 0 then
       rbind (req (alloc s)) (\<lambda>(p, m).
       rbind (guard (conv p \<noteq> 0) ''ERROR: Could not allocate page for new table'') (\<lambda>_.
       rbind (zero_page (s\<lparr>alloc := m\<rparr>) (conv p)) (\<lambda>s.
       rbind (store s tbl i (table_entry pde (drop_bit 12 p))) (\<lambda>s. Ok (conv p, s)))))
     else Ok (conv (push_bit 12 (e_page_ppn pde)), s))"

definition map_with ::
  "('m \<Rightarrow> (u64 \<times> 'm) result) \<Rightarrow> (u64 \<Rightarrow> u64) \<Rightarrow> ('m, 'z) vm_scheme \<Rightarrow> u64 \<Rightarrow> u64 \<Rightarrow> u64 \<Rightarrow> u8 \<Rightarrow> ('m, 'z) vm_scheme result"
where
  "map_with req conv s pml4 virtual_memory physical_memory flags =
    rbind (guard (virtual_memory AND 0xfff = 0) ''map_memory: virtual_memory must be aligned to 0x1000'') (\<lambda>_.
    rbind (guard (physical_memory AND 0xfff = 0) ''map_memory: physical_memory must be aligned to 0x1000'') (\<lambda>_.
    let mp = address_to_map virtual_memory in
    rbind (ensure_table req conv s pml4 (PDP_i mp)) (\<lambda>(pdp, s).
    rbind (ensure_table req conv s pdp (PD_i mp)) (\<lambda>(pd, s).
    rbind (ensure_table req conv s pd (PT_i mp)) (\<lambda>(pt, s).
    rbind (load s pt (P_i mp)) (\<lambda>pte.
    store s pt (P_i mp) (page_entry pte physical_memory flags)))))))"

type_synonym kvm = "pmm vm"

definition map_memory_hh :: "kvm \<Rightarrow> u64 \<Rightarrow> u64 \<Rightarrow> u64 \<Rightarrow> u8 \<Rightarrow> kvm result" where
  "map_memory_hh = map_with request_page TO_KERNEL_MAP"

definition map_memory :: "kvm \<Rightarrow> u64 \<Rightarrow> u64 \<Rightarrow> u64 \<Rightarrow> u8 \<Rightarrow> kvm result" where
  "map_memory s pml4 virtual_memory physical_memory flags = map_memory_hh s pml4 virtual_memory physical_memory flags"

definition map_current_memory :: "kvm \<Rightarrow> u64 \<Rightarrow> u64 \<Rightarrow> u8 \<Rightarrow> kvm result" where
  "map_current_memory s virtual_memory physical_memory flags =
    map_memory_hh s (get_pml4 s) virtual_memory physical_memory flags"

definition map_memory_low :: "kvm \<Rightarrow> u64 \<Rightarrow> u64 \<Rightarrow> u64 \<Rightarrow> u8 \<Rightarrow> kvm result" where
  "map_memory_low = map_with request_page id"

definition request_page_at :: "kvm \<Rightarrow> u64 \<Rightarrow> u64 \<Rightarrow> u8 \<Rightarrow> (u64 \<times> kvm) result" where
  "request_page_at s pml4 vaddr flags = rbind (request_page (alloc s)) (\<lambda>(p, m).
     rbind (guard (p \<noteq> 0) ''ERROR: Could not allocate page for mapping'') (\<lambda>_.
     rbind (map_memory_hh (s\<lparr>alloc := m\<rparr>) pml4 vaddr p flags) (\<lambda>s. Ok (vaddr, s))))"

definition request_current_page_at :: "kvm \<Rightarrow> u64 \<Rightarrow> u8 \<Rightarrow> (u64 \<times> kvm) result" where
  "request_current_page_at s vaddr flags = request_page_at s (get_pml4 s) vaddr flags"

section \<open>Unmapping\<close>

text \<open>Each level that is absent is an early return.\<close>

definition unmap_with :: "(u64 \<Rightarrow> u64) \<Rightarrow> ('m, 'z) vm_scheme \<Rightarrow> u64 \<Rightarrow> u64 \<Rightarrow> ('m, 'z) vm_scheme result" where
  "unmap_with conv s pml4 virtual_address = (let mp = address_to_map virtual_address in
    rbind (next_table conv s pml4 (PDP_i mp)) (\<lambda>pdp. case pdp of None \<Rightarrow> Ok s | Some pdp \<Rightarrow>
    rbind (next_table conv s pdp (PD_i mp)) (\<lambda>pd. case pd of None \<Rightarrow> Ok s | Some pd \<Rightarrow>
    rbind (next_table conv s pd (PT_i mp)) (\<lambda>pt. case pt of None \<Rightarrow> Ok s | Some pt \<Rightarrow>
    rbind (load s pt (P_i mp)) (\<lambda>pte. store s pt (P_i mp) (bf_set 0 1 0 pte))))))"

definition unmap_memory_low :: "('m, 'z) vm_scheme \<Rightarrow> u64 \<Rightarrow> u64 \<Rightarrow> ('m, 'z) vm_scheme result" where
  "unmap_memory_low = unmap_with id"

definition unmap_current_memory :: "('m, 'z) vm_scheme \<Rightarrow> u64 \<Rightarrow> ('m, 'z) vm_scheme result" where
  "unmap_current_memory s virtual_address = unmap_with TO_KERNEL_MAP s (get_pml4 s) virtual_address"

section \<open>Permissions\<close>

text \<open>These functions follow the entries without looking at their present bits.\<close>

definition follow :: "(u64 \<Rightarrow> u64) \<Rightarrow> ('m, 'z) vm_scheme \<Rightarrow> u64 \<Rightarrow> u64 \<Rightarrow> u64 result" where
  "follow conv s tbl i = rbind (load s tbl i) (\<lambda>pde. Ok (conv (push_bit 12 (e_page_ppn pde))))"

definition page_table_of :: "(u64 \<Rightarrow> u64) \<Rightarrow> ('m, 'z) vm_scheme \<Rightarrow> u64 \<Rightarrow> u64 \<Rightarrow> u64 result" where
  "page_table_of conv s pml4 address = (let mp = address_to_map address in
    rbind (follow conv s pml4 (PDP_i mp)) (\<lambda>pd.
    rbind (follow conv s pd (PD_i mp)) (\<lambda>pd.
    follow conv s pd (PT_i mp))))"

definition set_perms_with :: "(u64 \<Rightarrow> u64) \<Rightarrow> ('m, 'z) vm_scheme \<Rightarrow> u64 \<Rightarrow> u64 \<Rightarrow> u8 \<Rightarrow> ('m, 'z) vm_scheme result" where
  "set_perms_with conv s pml4 address permissions =
    rbind (page_table_of conv s pml4 address) (\<lambda>pt.
    rbind (load s pt (P_i (address_to_map address))) (\<lambda>pte.
    store s pt (P_i (address_to_map address)) (set_flags permissions pte)))"

definition set_page_perms :: "('m, 'z) vm_scheme \<Rightarrow> u64 \<Rightarrow> u64 \<Rightarrow> u8 \<Rightarrow> ('m, 'z) vm_scheme result" where
  "set_page_perms = set_perms_with id"

definition set_page_perms_hh :: "('m, 'z) vm_scheme \<Rightarrow> u64 \<Rightarrow> u64 \<Rightarrow> u8 \<Rightarrow> ('m, 'z) vm_scheme result" where
  "set_page_perms_hh = set_perms_with TO_KERNEL_MAP"

definition entry_perms :: "u64 \<Rightarrow> u8" where
  "entry_perms pte = ucast (e_writeable pte) OR push_bit 1 (ucast (e_user_access pte))
     OR push_bit 2 (ucast (e_execution_disabled pte)) OR push_bit 3 (ucast (e_cache_disabled pte))"

definition get_perms_with :: "(u64 \<Rightarrow> u64) \<Rightarrow> ('m, 'z) vm_scheme \<Rightarrow> u64 \<Rightarrow> u64 \<Rightarrow> u8 result" where
  "get_perms_with conv s pml4 address =
    rbind (page_table_of conv s pml4 address) (\<lambda>pt.
    rbind (load s pt (P_i (address_to_map address))) (\<lambda>pte. Ok (entry_perms pte)))"

definition get_page_perms :: "('m, 'z) vm_scheme \<Rightarrow> u64 \<Rightarrow> u64 \<Rightarrow> u8 result" where
  "get_page_perms = get_perms_with id"

definition get_page_perms_hh :: "('m, 'z) vm_scheme \<Rightarrow> u64 \<Rightarrow> u64 \<Rightarrow> u8 result" where
  "get_page_perms_hh = get_perms_with TO_KERNEL_MAP"

definition is_present :: "('m, 'z) vm_scheme \<Rightarrow> u64 \<Rightarrow> u64 \<Rightarrow> u64 result" where
  "is_present s pml4 address =
    rbind (page_table_of id s pml4 address) (\<lambda>pt.
    rbind (load s pt (P_i (address_to_map address))) (\<lambda>pte. Ok (e_present pte)))"

definition is_executable :: "('m, 'z) vm_scheme \<Rightarrow> u64 \<Rightarrow> u64 \<Rightarrow> bool result" where
  "is_executable s pml4 address =
    rbind (page_table_of id s pml4 address) (\<lambda>pt.
    rbind (load s pt (P_i (address_to_map address))) (\<lambda>pte. Ok (e_execution_disabled pte = 0)))"

definition is_user_access :: "('m, 'z) vm_scheme \<Rightarrow> u64 \<Rightarrow> u64 \<Rightarrow> u64 result" where
  "is_user_access s pml4 address = (let mp = address_to_map address in
    rbind (load s pml4 (PDP_i mp)) (\<lambda>pde. if e_user_access pde = 0 then Ok 0 else
    (let pd = push_bit 12 (e_page_ppn pde) in
    rbind (load s pd (PD_i mp)) (\<lambda>pde. if e_user_access pde = 0 then Ok 0 else
    (let pd = push_bit 12 (e_page_ppn pde) in
    rbind (load s pd (PT_i mp)) (\<lambda>pde. if e_user_access pde = 0 then Ok 0 else
    (let pt = push_bit 12 (e_page_ppn pde) in
    rbind (load s pt (P_i mp)) (\<lambda>pte. Ok (e_user_access pte)))))))))"

text \<open>The loop over the pages of a range; the fuel is the number of pages, which \<open>mprotect_total\<close> shows
  to be enough.\<close>

fun protect_loop :: "(u64 \<Rightarrow> u64) \<Rightarrow> nat \<Rightarrow> ('m, 'z) vm_scheme \<Rightarrow> u64 \<Rightarrow> u64 \<Rightarrow> u64 \<Rightarrow> u8 \<Rightarrow> ('m, 'z) vm_scheme result" where
  "protect_loop conv fuel s pml4 i stop permissions =
    (if i < stop then
       (case fuel of 0 \<Rightarrow> Err Diverge | Suc fuel \<Rightarrow>
          rbind (set_perms_with conv s pml4 i permissions) (\<lambda>s.
          protect_loop conv fuel s pml4 (i + 0x1000) stop permissions))
     else Ok s)"

declare protect_loop.simps [simp del]

definition protect_with :: "(u64 \<Rightarrow> u64) \<Rightarrow> ('m, 'z) vm_scheme \<Rightarrow> u64 \<Rightarrow> u64 \<Rightarrow> u64 \<Rightarrow> u8 \<Rightarrow> ('m, 'z) vm_scheme result" where
  "protect_with conv s pml4 address sz permissions =
    (let start = address; stop = start + sz;
         start = start AND NOT 0xfff;
         stop = (stop + 0xfff) AND NOT 0xfff
     in protect_loop conv (unat (drop_bit 12 (stop - start))) s pml4 start stop permissions)"

definition mprotect :: "('m, 'z) vm_scheme \<Rightarrow> u64 \<Rightarrow> u64 \<Rightarrow> u64 \<Rightarrow> u8 \<Rightarrow> ('m, 'z) vm_scheme result" where
  "mprotect = protect_with id"

definition mprotect_hh :: "('m, 'z) vm_scheme \<Rightarrow> u64 \<Rightarrow> u64 \<Rightarrow> u64 \<Rightarrow> u8 \<Rightarrow> ('m, 'z) vm_scheme result" where
  "mprotect_hh = protect_with TO_KERNEL_MAP"

definition mprotect_current :: "('m, 'z) vm_scheme \<Rightarrow> u64 \<Rightarrow> u64 \<Rightarrow> u8 \<Rightarrow> ('m, 'z) vm_scheme result" where
  "mprotect_current s address sz permissions = mprotect_hh s (get_pml4 s) address sz permissions"

section \<open>Duplicating the tables\<close>

definition copy_page :: "('m, 'z) vm_scheme \<Rightarrow> u64 \<Rightarrow> u64 \<Rightarrow> ('m, 'z) vm_scheme result" where
  "copy_page s dst src = rbind (ptr_frame dst) (\<lambda>d. rbind (ptr_frame src) (\<lambda>f.
     Ok (s\<lparr>pmem := (pmem s)(d := pmem s f)\<rparr>)))"

text \<open>A present entry gets a copy of the frame it points to; \<open>inner\<close> is what the loop does to the copy.\<close>

definition dup_entry ::
  "('m \<Rightarrow> (u64 \<times> 'm) result) \<Rightarrow> (u64 \<Rightarrow> u64 \<Rightarrow> ('m, 'z) vm_scheme \<Rightarrow> ('m, 'z) vm_scheme result) \<Rightarrow>
   u64 \<Rightarrow> u64 \<Rightarrow> u64 \<Rightarrow> ('m, 'z) vm_scheme \<Rightarrow> ('m, 'z) vm_scheme result" where
  "dup_entry req inner src dst i s = rbind (load s src i) (\<lambda>pde.
     if e_present pde = 0 then Ok s else
     (let old = push_bit 12 (e_page_ppn pde) in
     rbind (req (alloc s)) (\<lambda>(p, m).
     rbind (guard (p \<noteq> 0) ''ERROR: Could not allocate page for new table'') (\<lambda>_.
     rbind (copy_page (s\<lparr>alloc := m\<rparr>) p old) (\<lambda>s.
     rbind (store s dst i (bf_set 12 28 (drop_bit 12 p) pde)) (\<lambda>s. inner old p s))))))"

primrec each_index :: "(u64 \<Rightarrow> 's \<Rightarrow> 's result) \<Rightarrow> u64 \<Rightarrow> nat \<Rightarrow> 's \<Rightarrow> 's result" where
  "each_index f i 0 s = Ok s"
| "each_index f i (Suc n) s = rbind (f i s) (\<lambda>s. each_index f (i + 1) n s)"

definition copy_present :: "u64 \<Rightarrow> u64 \<Rightarrow> u64 \<Rightarrow> ('m, 'z) vm_scheme \<Rightarrow> ('m, 'z) vm_scheme result" where
  "copy_present pt new_pt k s = rbind (load s pt k) (\<lambda>pte.
     if e_present pte = 0 then Ok s else store s new_pt k pte)"

definition dup_tables ::
  "('m \<Rightarrow> (u64 \<times> 'm) result) \<Rightarrow> ('m, 'z) vm_scheme \<Rightarrow> u64 \<Rightarrow> u64 \<Rightarrow> u64 \<Rightarrow> u64 \<Rightarrow> ('m, 'z) vm_scheme result" where
  "dup_tables req s father pml start stop =
    each_index (dup_entry req (\<lambda>pd new_pd. each_index (dup_entry req (\<lambda>pt new_pt.
      each_index (copy_present pt new_pt) 0 512) pd new_pd) 0 512) father pml) start (unat (stop - start)) s"

definition duplicate_pd :: "kvm \<Rightarrow> u64 \<Rightarrow> u64 \<Rightarrow> u64 \<Rightarrow> (u64 \<times> kvm) result" where
  "duplicate_pd s father start stop = rbind (request_page (alloc s)) (\<lambda>(pml, m).
     rbind (guard (pml \<noteq> 0) ''ERROR: Could not allocate page for new PML4'') (\<lambda>_.
     rbind (zero_page (s\<lparr>alloc := m\<rparr>) pml) (\<lambda>s.
     rbind (dup_tables request_page s father pml start stop) (\<lambda>s. Ok (TO_KERNEL_MAP pml, s)))))"

definition duplicate_current_pml4 :: "kvm \<Rightarrow> (u64 \<times> kvm) result" where
  "duplicate_current_pml4 s = duplicate_pd s (get_pml4 s) 0 512"

definition duplicate_current_kernel_pml4 :: "kvm \<Rightarrow> (u64 \<times> kvm) result" where
  "duplicate_current_kernel_pml4 s = duplicate_pd s (get_pml4 s) 256 512"

text \<open>\<open>kernel_start\<close> is the linker symbol, \<open>kernel_virtual\<close> the boot loader's answer.\<close>

fun map_range :: "nat \<Rightarrow> kvm \<Rightarrow> u64 \<Rightarrow> u64 \<Rightarrow> u64 \<Rightarrow> kvm result" where
  "map_range fuel s pml4 i last_page =
    (if i < last_page then
       (case fuel of 0 \<Rightarrow> Err Diverge | Suc fuel \<Rightarrow>
          rbind (map_memory_low s pml4 (TO_KERNEL_MAP i) i 1) (\<lambda>s. map_range fuel s pml4 (i + 0x1000) last_page))
     else Ok s)"

declare map_range.simps [simp del]

definition init_paging :: "kvm \<Rightarrow> u64 \<Rightarrow> u64 \<Rightarrow> kvm result" where
  "init_paging s kernel_start kernel_virtual = rbind (request_page (alloc s)) (\<lambda>(pml4, m).
     rbind (guard (pml4 \<noteq> 0) ''ERROR: Could not allocate page for PML4'') (\<lambda>_.
     rbind (zero_page (s\<lparr>alloc := m\<rparr>) pml4) (\<lambda>s.
     rbind (dup_tables request_page s (cr3 s) pml4 0 512) (\<lambda>s.
     let last_page = last_available_page_address (alloc s) in
     rbind (map_range (unat (drop_bit 12 last_page) + 1) s pml4 0 last_page) (\<lambda>s.
     rbind (guard (kernel_start = kernel_virtual)
       ''init_paging: kernel virtual address does not match KERNEL_START'') (\<lambda>_.
     Ok (s\<lparr>cr3 := pml4\<rparr>)))))))"

section \<open>Pointers and frames\<close>

lemma take_bit_12_aligned: "IS_ALIGNED p \<longleftrightarrow> take_bit 12 p = 0"
proof -
  have "PAGESIZE - 1 = mask 12" by (simp add: mask_eq_exp_minus_1)
  then show ?thesis unfolding IS_ALIGNED_def take_bit_eq_mask by simp
qed

lemma aligned_push_bit [simp]: "IS_ALIGNED (push_bit 12 f)"
  unfolding take_bit_12_aligned by (rule bit_word_eqI) (auto simp: bit_simps)

lemma aligned_split: "IS_ALIGNED p \<Longrightarrow> push_bit 12 (drop_bit 12 p) = p"
  using bits_ident [of 12 p] by (simp add: take_bit_12_aligned)

lemma take_bit_word_self: "n < 64 \<Longrightarrow> take_bit n w = w \<longleftrightarrow> w < (2 ^ n :: u64)"
proof -
  assume n: "n < 64"
  have "take_bit n w = w \<longleftrightarrow> take_bit n (unat w) = unat w"
    by (simp add: word_eq_iff_unsigned [where ?'a = nat] unsigned_take_bit_eq)
  also have "\<dots> \<longleftrightarrow> unat w < 2 ^ n" by (rule take_bit_nat_eq_self_iff)
  also have "\<dots> \<longleftrightarrow> w < 2 ^ n"
    using n unat_of_nat_u64 [of "2 ^ n"] power_strict_increasing [of n 64 "2 :: nat"] by (simp add: word_less_nat_alt)
  finally show ?thesis .
qed

lemma less_bits: "(w :: u64) < 2 ^ n \<longleftrightarrow> (\<forall>k. bit w k \<longrightarrow> k < n)" if "n < 64"
proof -
  have "w < 2 ^ n \<longleftrightarrow> take_bit n w = w"
    using that by (simp add: take_bit_word_self)
  also have "\<dots> \<longleftrightarrow> (\<forall>k. bit w k \<longrightarrow> k < n)"
    using bit_imp_le_length [of w] by (auto simp: bit_eq_iff bit_simps)
  finally show ?thesis .
qed

lemma frame_less: "p < 2 ^ 40 \<Longrightarrow> drop_bit 12 p < (2 ^ 28 :: u64)"
  using less_bits [of 40 p] less_bits [of 28 "drop_bit 12 p"] by (auto simp: bit_simps)

lemma frame_pointer:
  assumes "f < (2 ^ 28 :: u64)"
  shows "push_bit 12 f < 2 ^ 40" and "drop_bit 12 (push_bit 12 f) = f"
proof -
  have b: "bit f k \<Longrightarrow> k < 28" for k using assms less_bits [of 28 f] by auto
  show "push_bit 12 f < 2 ^ 40" using less_bits [of 40 "push_bit 12 f"] by (auto simp: bit_simps dest: b)
  show "drop_bit 12 (push_bit 12 f) = f" by (rule bit_word_eqI) (auto simp: bit_simps dest: b)
qed

lemma e_page_ppn_less: "e_page_ppn e < 2 ^ 28"
  using less_bits [of 28 "e_page_ppn e"] by (auto simp: e_page_ppn_def bf_get_def bit_simps)

lemma take_bit_28: "f < 2 ^ 28 \<Longrightarrow> take_bit 28 f = (f :: u64)"
  using take_bit_word_self [of 28 f] by simp

text \<open>A conversion reaches every frame the 28-bit frame numbers can name, and no frame but frame 0 at
  \<open>NULL\<close>.\<close>

definition conv_ok :: "(u64 \<Rightarrow> u64) \<Rightarrow> bool" where
  "conv_ok conv \<longleftrightarrow> (\<forall>f < 2 ^ 28. ptr_frame (conv (push_bit 12 f)) = Ok f \<and> (f \<noteq> 0 \<longrightarrow> conv (push_bit 12 f) \<noteq> 0))"

lemma low_lt_IMS: "(a :: u64) < 2 ^ 40 \<Longrightarrow> \<not> IDENTITY_MAP_START \<le> a"
  by (simp add: not_le word_less_nat_alt)

lemma push_bit_12_eq_0: "f < (2 ^ 28 :: u64) \<Longrightarrow> push_bit 12 f = 0 \<longleftrightarrow> f = 0"
  using frame_pointer(2) [of f] by auto

lemma conv_ok_id: "conv_ok id"
  unfolding conv_ok_def
proof (intro allI impI)
  fix f :: u64 assume f: "f < 2 ^ 28"
  show "ptr_frame (id (push_bit 12 f)) = Ok f \<and> (f \<noteq> 0 \<longrightarrow> id (push_bit 12 f) \<noteq> 0)"
    using frame_pointer [OF f] low_lt_IMS [of "push_bit 12 f"] push_bit_12_eq_0 [OF f]
    by (simp add: ptr_frame_def Let_def)
qed

lemma conv_ok_hh: "conv_ok TO_KERNEL_MAP"
  unfolding conv_ok_def
proof (intro allI impI)
  fix f :: u64 assume f: "f < 2 ^ 28"
  note p = frame_pointer [OF f]
  have up: "unat (TO_KERNEL_MAP (push_bit 12 f)) = unat (push_bit 12 f) + unat IDENTITY_MAP_START"
    using p(1) unfolding TO_KERNEL_MAP_def by (intro unat_add_small) (simp add: word_less_nat_alt)
  then have "IDENTITY_MAP_START \<le> TO_KERNEL_MAP (push_bit 12 f)" and "TO_KERNEL_MAP (push_bit 12 f) \<noteq> 0"
    by (auto simp: word_le_nat_alt word_zero_iff_unat)
  then show "ptr_frame (TO_KERNEL_MAP (push_bit 12 f)) = Ok f \<and> (f \<noteq> 0 \<longrightarrow> TO_KERNEL_MAP (push_bit 12 f) \<noteq> 0)"
    using p by (simp add: ptr_frame_def Let_def TO_KERNEL_MAP_def)
qed

lemma conv_okD: "conv_ok conv \<Longrightarrow> f < 2 ^ 28 \<Longrightarrow> ptr_frame (conv (push_bit 12 f)) = Ok f"
  by (simp add: conv_ok_def)

section \<open>The tables as a tree\<close>

definition ent :: "('m, 'z) vm_scheme \<Rightarrow> u64 \<Rightarrow> u64 \<Rightarrow> u64" where
  "ent s f i = pmem s f (unat i)"

definition child :: "('m, 'z) vm_scheme \<Rightarrow> u64 \<Rightarrow> u64 \<Rightarrow> u64 option" where
  "child s f i = (if e_present (ent s f i) = 0 then None else Some (e_page_ppn (ent s f i)))"

fun walk :: "('m, 'z) vm_scheme \<Rightarrow> u64 \<Rightarrow> u64 list \<Rightarrow> u64 option" where
  "walk s f [] = Some f"
| "walk s f (i # is) = (case child s f i of None \<Rightarrow> None | Some g \<Rightarrow> walk s g is)"

definition indices :: "u64 \<Rightarrow> u64 list" where
  "indices v = (let mp = address_to_map v in [PDP_i mp, PD_i mp, PT_i mp, P_i mp])"

definition translate :: "('m, 'z) vm_scheme \<Rightarrow> u64 \<Rightarrow> u64 \<Rightarrow> u64 option" where
  "translate s r v = walk s r (indices v)"

lemma index_less: "(x AND 0x1ff) < (512 :: u64)"
  using word_and_le1 [of x "0x1ff"] by (rule le_less_trans) simp

lemma map_index_less [simp]:
  "PDP_i (address_to_map v) < 512" "PD_i (address_to_map v) < 512"
  "PT_i (address_to_map v) < 512" "P_i (address_to_map v) < 512"
  by (simp_all add: address_to_map_def Let_def index_less)

lemma load_ok: "ptr_frame tbl = Ok f \<Longrightarrow> i < 512 \<Longrightarrow> load s tbl i = Ok (ent s f i)"
  by (simp add: load_def ent_def)

lemma next_table_child:
  "ptr_frame tbl = Ok f \<Longrightarrow> i < 512 \<Longrightarrow>
   next_table conv s tbl i = Ok (map_option (\<lambda>g. conv (push_bit 12 g)) (child s f i))"
  by (simp add: next_table_def load_ok child_def)

lemma child_less: "child s f i = Some g \<Longrightarrow> g < 2 ^ 28"
  using e_page_ppn_less by (auto simp: child_def split: if_splits)

lemma virtual_to_physical_translate:
  assumes "ptr_frame pml4 = Ok r"
  shows "virtual_to_physical s pml4 v =
    Ok (case translate s r v of None \<Rightarrow> 0 | Some g \<Rightarrow> push_bit 12 g)"
proof -
  have c: "child s f i = Some g \<Longrightarrow> ptr_frame (push_bit 12 g) = Ok g" for f i g
    using conv_okD [OF conv_ok_id child_less] by simp
  show ?thesis using assms
    by (auto simp: virtual_to_physical_def Let_def next_table_child translate_def indices_def load_ok
        child_def [of s _ "P_i (address_to_map v)"] c split: option.split)
qed

section \<open>The interface to the frame allocator\<close>

text \<open>\<open>lev f\<close> is the level of the table in frame \<open>f\<close> (4 for the root, 1 for a page table, 0 for a frame that
  holds no table). A table has one parent entry.\<close>

definition tables_wf :: "('m, 'z) vm_scheme \<Rightarrow> u64 \<Rightarrow> (u64 \<Rightarrow> nat) \<Rightarrow> bool" where
  "tables_wf s r lev \<longleftrightarrow> lev r = 4 \<and> (\<forall>f. 0 < lev f \<longrightarrow> f < 2 ^ 28)
    \<and> (\<forall>f i g. 1 < lev f \<longrightarrow> i < 512 \<longrightarrow> child s f i = Some g \<longrightarrow> Suc (lev g) = lev f)
    \<and> (\<forall>f i f' i' g. 1 < lev f \<longrightarrow> 1 < lev f' \<longrightarrow> i < 512 \<longrightarrow> i' < 512 \<longrightarrow>
        child s f i = Some g \<longrightarrow> child s f' i' = Some g \<longrightarrow> f = f' \<and> i = i')"

definition vm_inv ::
  "('m \<Rightarrow> bool) \<Rightarrow> ('m \<Rightarrow> u64 \<Rightarrow> bool) \<Rightarrow> ('m, 'z) vm_scheme \<Rightarrow> u64 \<Rightarrow> (u64 \<Rightarrow> nat) \<Rightarrow> bool" where
  "vm_inv I taken s r lev \<longleftrightarrow>
     tables_wf s r lev \<and> (\<forall>f. 0 < lev f \<longrightarrow> taken (alloc s) f) \<and> I (alloc s)"

lemma tables_wf_root: "tables_wf s r lev \<Longrightarrow> lev r = 4"
  unfolding tables_wf_def by blast

lemma tables_wf_less: "tables_wf s r lev \<Longrightarrow> 0 < lev f \<Longrightarrow> f < 2 ^ 28"
  unfolding tables_wf_def by blast

lemma tables_wf_level:
  "tables_wf s r lev \<Longrightarrow> child s f i = Some g \<Longrightarrow> 1 < lev f \<Longrightarrow> i < 512 \<Longrightarrow> Suc (lev g) = lev f"
  unfolding tables_wf_def by blast

lemma tables_wf_unique:
  "tables_wf s r lev \<Longrightarrow> child s f i = Some g \<Longrightarrow> child s f' i' = Some g \<Longrightarrow>
   1 < lev f \<Longrightarrow> 1 < lev f' \<Longrightarrow> i < 512 \<Longrightarrow> i' < 512 \<Longrightarrow> f = f' \<and> i = i'"
  unfolding tables_wf_def by blast

lemma walk_append:
  "walk s f (is @ js) = (case walk s f is of None \<Rightarrow> None | Some g \<Rightarrow> walk s g js)"
  by (induction "is" arbitrary: f) (auto split: option.splits)

lemma walk_snoc:
  "walk s f (is @ [i]) = Some g \<longleftrightarrow> (\<exists>h. walk s f is = Some h \<and> child s h i = Some g)"
  by (auto simp: walk_append split: option.splits)

lemma walk_level:
  assumes "tables_wf s r lev" and "walk s f is = Some g" and "length is < lev f" and "\<forall>i \<in> set is. i < 512"
  shows "lev g + length is = lev f"
  using assms(2-)
proof (induction "is" arbitrary: f)
  case (Cons i "is")
  then obtain h where h: "child s f i = Some h" "walk s h is = Some g" by (auto split: option.splits)
  then have "Suc (lev h) = lev f" using Cons.prems by (intro tables_wf_level [OF assms(1)]) auto
  then show ?case using Cons.IH [OF h(2)] Cons.prems by simp
qed simp

text \<open>In a tree two walks of the same length that meet took the same way.\<close>

lemma walk_unique:
  assumes "tables_wf s r lev" and "walk s r is = Some g" and "walk s r js = Some g"
    and "length is = length js" and "length is < 4" and "\<forall>i \<in> set is \<union> set js. i < 512"
  shows "is = js"
  using assms(2-)
proof (induction "is" arbitrary: js g rule: rev_induct)
  case (snoc i "is")
  obtain j js' where js: "js = js' @ [j]" using snoc.prems(3) by (cases js rule: rev_cases) auto
  obtain h h' where h: "walk s r is = Some h" "child s h i = Some g" "walk s r js' = Some h'" "child s h' j = Some g"
    using snoc.prems(1,2) unfolding js walk_snoc by auto
  have lr: "lev r = 4" using assms(1) by (rule tables_wf_root)
  have "lev h + length is = 4" "lev h' + length js' = 4"
    using walk_level [OF assms(1) h(1)] walk_level [OF assms(1) h(3)] snoc.prems lr by (auto simp: js)
  then have "h = h' \<and> i = j"
    using snoc.prems by (intro tables_wf_unique [OF assms(1) h(2) h(4)]) (auto simp: js)
  then show ?case using snoc.IH [of h js'] h snoc.prems by (auto simp: js)
qed simp

section \<open>The state after an entry is written\<close>

lemma unat_eq_iff_u64: "unat (a :: u64) = unat b \<longleftrightarrow> a = b"
  by (simp add: word_eq_iff_unsigned [where ?'a = nat])

lemma child_store [simp]:
  "child (s\<lparr>pmem := (pmem s)(f := (pmem s f)(unat i := e))\<rparr>) h j =
    (if h = f \<and> j = i then (if e_present e = 0 then None else Some (e_page_ppn e)) else child s h j)"
  by (auto simp: child_def ent_def unat_eq_iff_u64)

lemma child_alloc [simp]: "child (s\<lparr>alloc := m\<rparr>) = child s"
  by (intro ext) (simp add: child_def ent_def)

lemma walk_alloc [simp]: "walk (s\<lparr>alloc := m\<rparr>) f is = walk s f is"
  by (induction "is" arbitrary: f) (auto split: option.splits)

lemma tables_wf_alloc [simp]: "tables_wf (s\<lparr>alloc := m\<rparr>) r lev = tables_wf s r lev"
  by (simp add: tables_wf_def)

lemma child_zero [simp]:
  "child (s\<lparr>pmem := (pmem s)(g := (\<lambda>_. 0))\<rparr>) h j = (if h = g then None else child s h j)"
  by (simp add: child_def ent_def e_present_def bf_get_zero)

lemma take_bit_one_1 [simp]: "take_bit (Suc 0) (1 :: u64) = 1"
  by (simp add: take_bit_Suc)

lemma table_entry_fields [simp]:
  "e_present (table_entry pde f) = 1" "e_page_ppn (table_entry pde f) = take_bit 28 f"
  "e_writeable (table_entry pde f) = 1" "e_user_access (table_entry pde f) = 1"
  by (simp_all add: table_entry_def entry_defs field_simps_bf)

text \<open>The state after a new table \<open>g\<close> was hung below \<open>f\<close> at index \<open>i\<close>.\<close>

definition hang :: "('m, 'z) vm_scheme \<Rightarrow> u64 \<Rightarrow> u64 \<Rightarrow> u64 \<Rightarrow> ('m, 'z) vm_scheme" where
  "hang s f i g = (let s0 = s\<lparr>pmem := (pmem s)(g := (\<lambda>_. 0))\<rparr> in
     s0\<lparr>pmem := (pmem s0)(f := (pmem s0 f)(unat i := table_entry (ent s f i) g))\<rparr>)"

lemma child_hang:
  "f \<noteq> g \<Longrightarrow> child (hang s f i g) h j =
    (if h = f \<and> j = i then Some (take_bit 28 g) else if h = g then None else child s h j)"
  unfolding hang_def Let_def child_store by simp

lemma walk_hang:
  assumes wf: "tables_wf s r lev" and f: "child s f i = None" "1 < lev f" and g: "lev g = 0" "g < 2 ^ 28"
    and h: "length is = lev h" "0 < lev h" "\<forall>j \<in> set is. j < 512"
  shows "walk (hang s f i g) h is = walk s h is"
  using h
proof (induction "is" arbitrary: h)
  case (Cons j "is")
  have fg: "f \<noteq> g" using f g by auto
  have hg: "h \<noteq> g" using Cons.prems g by auto
  show ?case
  proof (cases "h = f \<and> j = i")
    case True
    then obtain j' js where js: "is = j' # js" using Cons.prems f by (cases "is") auto
    have "walk (hang s f i g) g is = None" using fg by (simp add: js child_hang)
    then show ?thesis using True f g take_bit_28 [of g] by (simp add: child_hang [OF fg])
  next
    case False
    show ?thesis
    proof (cases "child s h j")
      case None then show ?thesis using False hg by (auto simp: child_hang [OF fg])
    next
      case (Some k)
      have "walk (hang s f i g) k is = walk s k is" if "is \<noteq> []"
      proof (rule Cons.IH)
        have "1 < lev h" using that Cons.prems(1) by (cases "is") auto
        then have "Suc (lev k) = lev h" using Cons.prems by (intro tables_wf_level [OF wf Some]) auto
        then show "length is = lev k" "0 < lev k" using Cons.prems that by (auto simp: neq_Nil_conv)
      qed (use Cons.prems in auto)
      then show ?thesis using Some False hg by (cases "is = []") (auto simp: child_hang [OF fg])
    qed
  qed
qed simp

lemma tables_wf_hang:
  assumes wf: "tables_wf s r lev" and f: "child s f i = None" "lev f = Suc k" "0 < k" and g: "lev g = 0" "g < 2 ^ 28"
    and i: "i < 512"
  shows "tables_wf (hang s f i g) r (lev(g := k))"
proof -
  have fg: "f \<noteq> g" using f g by auto
  have rg: "r \<noteq> g" using tables_wf_root [OF wf] g by auto
  have noparent: "child s h j \<noteq> Some g" if "1 < lev h" "j < 512" for h j
    using tables_wf_level [OF wf, of h j g] that g by auto
  have tb: "take_bit 28 g = g" by (rule take_bit_28 [OF g(2)])
  have c: "child (hang s f i g) h j = (if h = f \<and> j = i then Some g else if h = g then None else child s h j)" for h j
    by (simp add: child_hang [OF fg] tb)
  have lev': "Suc ((lev(g := k)) x) = (lev(g := k)) h"
    if "1 < (lev(g := k)) h" "j < 512" "child (hang s f i g) h j = Some x" for h j x
    using that f(2) g(1) noparent tables_wf_level [OF wf, of h j x] fg by (auto simp: c split: if_splits)
  have uniq': "h = h' \<and> j = j'"
    if "1 < (lev(g := k)) h" "1 < (lev(g := k)) h'" "j < 512" "j' < 512"
      "child (hang s f i g) h j = Some x" "child (hang s f i g) h' j' = Some x" for h j h' j' x
    using that f(2) g(1) noparent tables_wf_unique [OF wf, of h j x h' j'] by (auto simp: c split: if_splits)
  have "(lev(g := k)) r = 4" using rg tables_wf_root [OF wf] by simp
  moreover have "\<forall>f. 0 < (lev(g := k)) f \<longrightarrow> f < 2 ^ 28" using tables_wf_less [OF wf] g(2) by auto
  ultimately show ?thesis unfolding tables_wf_def using lev' uniq' by blast
qed

locale frame_source =
  fixes req :: "'m \<Rightarrow> (u64 \<times> 'm) result"
    and I :: "'m \<Rightarrow> bool"
    and taken :: "'m \<Rightarrow> u64 \<Rightarrow> bool"
    and avail :: "'m \<Rightarrow> nat"
  assumes req_Ok: "I m \<Longrightarrow> req m = Ok (p, m') \<Longrightarrow> I m' \<and> IS_ALIGNED p \<and> p < 2 ^ 40 \<and> p \<noteq> 0
      \<and> \<not> taken m (drop_bit 12 p) \<and> (\<forall>f. taken m' f \<longleftrightarrow> taken m f \<or> f = drop_bit 12 p)"
    and req_avail: "I m \<Longrightarrow> 0 < avail m \<Longrightarrow> \<exists>p m'. req m = Ok (p, m') \<and> avail m \<le> Suc (avail m')"
begin

lemma ensure_table_present:
  "child s f i = Some g \<Longrightarrow> ptr_frame tbl = Ok f \<Longrightarrow> i < 512 \<Longrightarrow>
   ensure_table req conv s tbl i = Ok (conv (push_bit 12 g), s)"
  by (auto simp: ensure_table_def load_ok child_def split: if_splits)

lemma ensure_table_absent:
  assumes "child s f i = None" and "ptr_frame tbl = Ok f" and "i < 512" and "conv_ok conv"
    and "I (alloc s)" and "req (alloc s) = Ok (p, m)" and "taken (alloc s) f"
  shows "ensure_table req conv s tbl i =
    Ok (conv (push_bit 12 (drop_bit 12 p)), (hang s f i (drop_bit 12 p))\<lparr>alloc := m\<rparr>)"
proof -
  let ?g = "drop_bit 12 p"
  have p: "IS_ALIGNED p" "p < 2 ^ 40" "p \<noteq> 0" "\<not> taken (alloc s) ?g" using req_Ok [OF assms(5,6)] by auto
  then have g: "?g < 2 ^ 28" and pp: "push_bit 12 ?g = p" and fg: "f \<noteq> ?g"
    using frame_less [of p] aligned_split [of p] assms(7) by auto
  then have "?g \<noteq> 0" using p by auto
  then have c: "ptr_frame (conv p) = Ok ?g" "conv p \<noteq> 0" using assms(4) g pp unfolding conv_ok_def by force+
  have "e_present (ent s f i) = 0" using assms(1) by (auto simp: child_def split: if_splits)
  then show ?thesis using assms(2,3,6) c fg pp
    by (simp add: ensure_table_def load_ok zero_page_def store_def hang_def Let_def fun_upd_twist)
qed

text \<open>Whatever the case, the pointer to the next table is returned, and every walk that reached a page
  before reaches the same page.\<close>

lemma ensure_table_step:
  assumes conv: "conv_ok conv" and inv: "vm_inv I taken s r lev" and f: "ptr_frame tbl = Ok f" "lev f = Suc k" "0 < k"
    and i: "i < 512" and av: "Suc n \<le> avail (alloc s)"
  obtains g s' lev' where "ensure_table req conv s tbl i = Ok (conv (push_bit 12 g), s')"
    and "ptr_frame (conv (push_bit 12 g)) = Ok g" and "child s' f i = Some g" and "lev' g = k"
    and "vm_inv I taken s' r lev'" and "\<And>h. 0 < lev h \<Longrightarrow> lev' h = lev h"
    and "\<And>h j x. 0 < lev h \<Longrightarrow> child s h j = Some x \<Longrightarrow> child s' h j = Some x"
    and "\<And>h is. length is = lev h \<Longrightarrow> 0 < lev h \<Longrightarrow> \<forall>j \<in> set is. j < 512 \<Longrightarrow> walk s' h is = walk s h is"
    and "n \<le> avail (alloc s')" and "cr3 s' = cr3 s"
    and "\<And>h. taken (alloc s) h \<Longrightarrow> taken (alloc s') h"
    and "\<And>h. taken (alloc s) h \<Longrightarrow> lev h = 0 \<Longrightarrow> pmem s' h = pmem s h \<and> lev' h = 0"
proof (cases "child s f i")
  case (Some g)
  have wf: "tables_wf s r lev" using inv by (simp add: vm_inv_def)
  have "Suc (lev g) = lev f" using f i by (intro tables_wf_level [OF wf Some]) auto
  moreover have "ptr_frame (conv (push_bit 12 g)) = Ok g" by (rule conv_okD [OF conv child_less [OF Some]])
  ultimately show thesis
    using ensure_table_present [OF Some f(1) i] Some f inv av by (intro that [of g s lev]) simp_all
next
  case None
  have wf: "tables_wf s r lev" and I: "I (alloc s)" and tk: "\<And>h. 0 < lev h \<Longrightarrow> taken (alloc s) h"
    using inv by (simp_all add: vm_inv_def)
  obtain p m where req: "req (alloc s) = Ok (p, m)" and am: "avail (alloc s) \<le> Suc (avail m)"
    using req_avail [OF I] av by auto
  let ?g = "drop_bit 12 p" and ?s = "(hang s f i (drop_bit 12 p))\<lparr>alloc := m\<rparr>"
  have p: "I m" "IS_ALIGNED p" "p < 2 ^ 40" "\<not> taken (alloc s) ?g" "\<And>h. taken m h \<longleftrightarrow> taken (alloc s) h \<or> h = ?g"
    using req_Ok [OF I req] by auto
  have g: "?g < 2 ^ 28" "lev ?g = 0" "f \<noteq> ?g" using frame_less [OF p(3)] p(4) tk f by auto
  have wf': "tables_wf (hang s f i ?g) r (lev(?g := k))"
    using f g(1,2) i by (intro tables_wf_hang [OF wf None]) auto
  have inv': "vm_inv I taken ?s r (lev(?g := k))"
    using wf' p(1,5) tk by (simp add: vm_inv_def)
  have e: "ensure_table req conv s tbl i = Ok (conv (push_bit 12 ?g), ?s)"
    using tk f by (intro ensure_table_absent [OF None f(1) i conv I req]) auto
  have ch: "child ?s f i = Some ?g" using g by (simp add: child_hang take_bit_28)
  have chs: "child ?s h j = Some x" if "0 < lev h" "child s h j = Some x" for h j x
    using that g None by (auto simp: child_hang)
  have wks: "walk ?s h is = walk s h is" if "length is = lev h" "0 < lev h" "\<forall>j \<in> set is. j < 512" for h "is"
    using walk_hang [OF wf None _ g(2,1)] that f by simp
  have lk: "(lev(?g := k)) ?g = k" by simp
  have lext: "(lev(?g := k)) h = lev h" if "0 < lev h" for h using that g by auto
  have av': "n \<le> avail (alloc ?s)" using av am by simp
  have cr: "cr3 ?s = cr3 s" by (simp add: hang_def Let_def)
  have tks: "taken (alloc ?s) h" if "taken (alloc s) h" for h using that p(5) by simp
  have same: "pmem ?s h = pmem s h \<and> (lev(?g := k)) h = 0" if "taken (alloc s) h" "lev h = 0" for h
    using that p(4) f by (auto simp: hang_def Let_def)
  note pt = conv_okD [OF conv g(1)]
  show thesis by (rule that [of ?g ?s "lev(?g := k)"]) (fact e pt ch lk inv' lext chs wks av' cr tks same)+
qed

end

section \<open>Mapping a page\<close>

lemma page_entry_fields [simp]:
  "e_present (page_entry pte p flags) = 1" "e_page_ppn (page_entry pte p flags) = take_bit 28 (drop_bit 12 p)"
  by (simp_all add: page_entry_def set_flags_def entry_defs field_simps_bf)

definition set_ent :: "('m, 'z) vm_scheme \<Rightarrow> u64 \<Rightarrow> u64 \<Rightarrow> u64 \<Rightarrow> ('m, 'z) vm_scheme" where
  "set_ent s f i e = s\<lparr>pmem := (pmem s)(f := (pmem s f)(unat i := e))\<rparr>"

lemma store_ok: "ptr_frame tbl = Ok f \<Longrightarrow> i < 512 \<Longrightarrow> store s tbl i e = Ok (set_ent s f i e)"
  by (simp add: store_def set_ent_def)

lemma child_set_ent [simp]:
  "child (set_ent s f i e) h j =
    (if h = f \<and> j = i then (if e_present e = 0 then None else Some (e_page_ppn e)) else child s h j)"
  unfolding set_ent_def by simp

lemma ent_set_ent [simp]: "ent (set_ent s f i e) h j = (if h = f \<and> j = i then e else ent s h j)"
  by (auto simp: set_ent_def ent_def unat_eq_iff_u64)

lemma alloc_set_ent [simp]: "alloc (set_ent s f i e) = alloc s"
  by (simp add: set_ent_def)

lemma cr3_set_ent [simp]: "cr3 (set_ent s f i e) = cr3 s"
  by (simp add: set_ent_def)

lemma tables_wf_set_pte [simp]:
  assumes "lev pt = 1"
  shows "tables_wf (set_ent s pt i e) r lev = tables_wf s r lev"
proof -
  have "child (set_ent s pt i e) f j = child s f j" if "1 < lev f" for f j using that assms by auto
  then show ?thesis unfolding tables_wf_def by (simp del: child_set_ent cong: imp_cong)
qed

lemma walk_set_pte:
  assumes "tables_wf s r lev" and "lev pt = 1" and "length js < lev f" and "\<forall>j \<in> set js. j < 512"
  shows "walk (set_ent s pt i e) f js = walk s f js"
  using assms(3,4)
proof (induction js arbitrary: f)
  case (Cons j js)
  have "f \<noteq> pt" using Cons.prems assms(2) by auto
  then have c: "child (set_ent s pt i e) f j = child s f j" by simp
  show ?case
  proof (cases "child s f j")
    case (Some g)
    have "Suc (lev g) = lev f" using Cons.prems by (intro tables_wf_level [OF assms(1) Some]) auto
    then show ?thesis using Some c Cons by (simp del: child_set_ent)
  qed (use c in \<open>simp del: child_set_ent\<close>)
qed simp

definition upper :: "u64 \<Rightarrow> u64 list" where
  "upper v = (let mp = address_to_map v in [PDP_i mp, PD_i mp, PT_i mp])"

lemma upper_props: "indices v = upper v @ [P_i (address_to_map v)]" "length (upper v) = 3" "\<forall>j \<in> set (upper v). j < 512"
  by (simp_all add: indices_def upper_def Let_def)

lemma indices_eq: "indices w = indices v \<longleftrightarrow> upper w = upper v \<and> P_i (address_to_map w) = P_i (address_to_map v)"
  by (auto simp: indices_def upper_def Let_def)

text \<open>Writing the entry of the page itself changes the translation of that page only.\<close>

lemma translate_set_pte:
  assumes wf: "tables_wf s r lev" and pt: "walk s r (upper v) = Some pt" and "e_present e \<noteq> 0"
  shows "translate (set_ent s pt (P_i (address_to_map v)) e) r w =
    (if indices w = indices v then Some (e_page_ppn e) else translate s r w)"
proof -
  let ?s = "set_ent s pt (P_i (address_to_map v)) e"
  have r4: "lev r = 4" by (rule tables_wf_root [OF wf])
  have l: "lev pt = 1" using walk_level [OF wf pt] r4 by (simp add: upper_props)
  have u: "walk ?s r (upper w) = walk s r (upper w)" for w
    using r4 by (intro walk_set_pte [OF wf l]) (simp_all add: upper_props)
  show ?thesis
  proof (cases "walk s r (upper w) = Some pt")
    case True
    have "upper w = upper v"
      using walk_unique [OF wf True pt] by (simp add: upper_props(2)) (use upper_props(3) in blast)
    then show ?thesis using True u assms(3) unfolding translate_def upper_props(1) walk_append indices_eq [unfolded upper_props(1)]
      by (auto split: option.splits)
  next
    case False
    then have "upper w \<noteq> upper v" using pt by auto
    then show ?thesis using False u unfolding translate_def upper_props(1) walk_append indices_eq [unfolded upper_props(1)]
      by (auto split: option.splits)
  qed
qed

lemma walk_mono:
  assumes wf: "tables_wf s r lev" and c: "\<And>h j x. 0 < lev h \<Longrightarrow> child s h j = Some x \<Longrightarrow> child s' h j = Some x"
  shows "walk s f is = Some g \<Longrightarrow> length is < lev f \<Longrightarrow> \<forall>j \<in> set is. j < 512 \<Longrightarrow> walk s' f is = Some g"
proof (induction "is" arbitrary: f)
  case (Cons i "is")
  then obtain h where h: "child s f i = Some h" "walk s h is = Some g" by (auto split: option.splits)
  have "Suc (lev h) = lev f" using Cons.prems by (intro tables_wf_level [OF wf h(1)]) auto
  then show ?case using Cons.IH [OF h(2)] Cons.prems c [OF _ h(1)] by simp
qed simp

context frame_source
begin

lemma map_with_total:
  assumes conv: "conv_ok conv" and inv: "vm_inv I taken s r lev" and r: "ptr_frame pml4 = Ok r"
    and al: "v AND 0xfff = 0" "p AND 0xfff = 0" and av: "n + 3 \<le> avail (alloc s)"
  obtains s' lev' pt pte where "map_with req conv s pml4 v p flags = Ok s'" and "vm_inv I taken s' r lev'"
    and "\<And>w. translate s' r w = (if indices w = indices v then Some (take_bit 28 (drop_bit 12 p)) else translate s r w)"
    and "walk s' r (upper v) = Some pt" and "ent s' pt (P_i (address_to_map v)) = page_entry pte p flags"
    and "cr3 s' = cr3 s" and "n \<le> avail (alloc s')"
    and "\<And>h. taken (alloc s) h \<Longrightarrow> taken (alloc s') h"
    and "\<And>h. taken (alloc s) h \<Longrightarrow> lev h = 0 \<Longrightarrow> pmem s' h = pmem s h \<and> lev' h = 0"
    and "\<And>w g. walk s r (upper w) = Some g \<Longrightarrow> walk s' r (upper w) = Some g"
proof -
  let ?mp = "address_to_map v"
  have r4: "lev r = 4" using inv unfolding vm_inv_def by (blast dest: tables_wf_root)
  have av': "Suc (n + 2) \<le> avail (alloc s)" using av by simp
  obtain g1 s1 l1 where 1: "ensure_table req conv s pml4 (PDP_i ?mp) = Ok (conv (push_bit 12 g1), s1)"
    "ptr_frame (conv (push_bit 12 g1)) = Ok g1" "child s1 r (PDP_i ?mp) = Some g1" "l1 g1 = 3" "vm_inv I taken s1 r l1"
    "\<And>h. 0 < lev h \<Longrightarrow> l1 h = lev h" "\<And>h is. length is = lev h \<Longrightarrow> 0 < lev h \<Longrightarrow> \<forall>j \<in> set is. j < 512 \<Longrightarrow> walk s1 h is = walk s h is"
    "n + 2 \<le> avail (alloc s1)" "cr3 s1 = cr3 s" "\<And>h. taken (alloc s) h \<Longrightarrow> taken (alloc s1) h"
    "\<And>h. taken (alloc s) h \<Longrightarrow> lev h = 0 \<Longrightarrow> pmem s1 h = pmem s h \<and> l1 h = 0"
    "\<And>h j x. 0 < lev h \<Longrightarrow> child s h j = Some x \<Longrightarrow> child s1 h j = Some x"
    by (rule ensure_table_step [OF conv inv r _ _ _ av', of 3 "PDP_i ?mp"]) (use r4 in auto)
  have av1: "Suc (n + 1) \<le> avail (alloc s1)" using 1 by simp
  obtain g2 s2 l2 where 2: "ensure_table req conv s1 (conv (push_bit 12 g1)) (PD_i ?mp) = Ok (conv (push_bit 12 g2), s2)"
    "ptr_frame (conv (push_bit 12 g2)) = Ok g2" "child s2 g1 (PD_i ?mp) = Some g2" "l2 g2 = 2" "vm_inv I taken s2 r l2"
    "\<And>h. 0 < l1 h \<Longrightarrow> l2 h = l1 h" "\<And>h j x. 0 < l1 h \<Longrightarrow> child s1 h j = Some x \<Longrightarrow> child s2 h j = Some x"
    "\<And>h is. length is = l1 h \<Longrightarrow> 0 < l1 h \<Longrightarrow> \<forall>j \<in> set is. j < 512 \<Longrightarrow> walk s2 h is = walk s1 h is"
    "n + 1 \<le> avail (alloc s2)" "cr3 s2 = cr3 s1" "\<And>h. taken (alloc s1) h \<Longrightarrow> taken (alloc s2) h"
    "\<And>h. taken (alloc s1) h \<Longrightarrow> l1 h = 0 \<Longrightarrow> pmem s2 h = pmem s1 h \<and> l2 h = 0"
    by (rule ensure_table_step [OF conv 1(5) 1(2) _ _ _ av1, of 2 "PD_i ?mp"]) (use 1(4) in auto)
  have av2: "Suc n \<le> avail (alloc s2)" using 2 by simp
  obtain g3 s3 l3 where 3: "ensure_table req conv s2 (conv (push_bit 12 g2)) (PT_i ?mp) = Ok (conv (push_bit 12 g3), s3)"
    "ptr_frame (conv (push_bit 12 g3)) = Ok g3" "child s3 g2 (PT_i ?mp) = Some g3" "l3 g3 = 1" "vm_inv I taken s3 r l3"
    "\<And>h. 0 < l2 h \<Longrightarrow> l3 h = l2 h" "\<And>h j x. 0 < l2 h \<Longrightarrow> child s2 h j = Some x \<Longrightarrow> child s3 h j = Some x"
    "\<And>h is. length is = l2 h \<Longrightarrow> 0 < l2 h \<Longrightarrow> \<forall>j \<in> set is. j < 512 \<Longrightarrow> walk s3 h is = walk s2 h is"
    "n \<le> avail (alloc s3)" "cr3 s3 = cr3 s2" "\<And>h. taken (alloc s2) h \<Longrightarrow> taken (alloc s3) h"
    "\<And>h. taken (alloc s2) h \<Longrightarrow> l2 h = 0 \<Longrightarrow> pmem s3 h = pmem s2 h \<and> l3 h = 0"
    by (rule ensure_table_step [OF conv 2(5) 2(2) _ _ _ av2, of 1 "PT_i ?mp"]) (use 2(4) in auto)
  have r1: "l1 r = 4" and r2: "l2 r = 4" using 1(6) 2(6) r4 by auto
  have wf3: "tables_wf s3 r l3" using 3(5) by (simp add: vm_inv_def)
  have pt: "walk s3 r (upper v) = Some g3"
    using 1(3,4) 2(3,4,6,7) 3(3,7) r1 r2 by (simp add: upper_def Let_def)
  have same: "translate s3 r w = translate s r w" for w
    using 1(7) [of "indices w" r] 2(8) [of "indices w" r] 3(8) [of "indices w" r] r4 r1 r2
    by (simp add: translate_def indices_def Let_def)
  let ?e = "page_entry (ent s3 g3 (P_i ?mp)) p flags" and ?s = "set_ent s3 g3 (P_i ?mp) (page_entry (ent s3 g3 (P_i ?mp)) p flags)"
  have run: "map_with req conv s pml4 v p flags = Ok ?s"
    using 1(1) 2(1) 3(1,2) al by (simp add: map_with_def Let_def load_ok store_ok)
  have "walk ?s r (upper v) = walk s3 r (upper v)"
    using tables_wf_root [OF wf3] by (intro walk_set_pte [OF wf3 3(4)]) (simp_all add: upper_props)
  then have w: "walk ?s r (upper v) = Some g3" using pt by simp
  have inv': "vm_inv I taken ?s r l3" using 3(4,5) by (simp add: vm_inv_def)
  have tr: "translate ?s r w = (if indices w = indices v then Some (take_bit 28 (drop_bit 12 p)) else translate s r w)" for w
    using translate_set_pte [OF wf3 pt, of ?e w] same by simp
  have e: "ent ?s g3 (P_i ?mp) = page_entry (ent s3 g3 (P_i ?mp)) p flags" by simp
  have tk: "taken (alloc ?s) h" if "taken (alloc s) h" for h using 1(10) 2(11) 3(11) that by simp
  have data: "pmem ?s h = pmem s h \<and> l3 h = 0" if "taken (alloc s) h" "lev h = 0" for h
  proof -
    have "pmem s3 h = pmem s h \<and> l3 h = 0" using 1(10,11) 2(11,12) 3(12) that by simp
    moreover have "h \<noteq> g3" using calculation 3(4) by auto
    ultimately show ?thesis by (simp add: set_ent_def)
  qed
  have c: "child s3 h j = Some x" if "0 < lev h" "child s h j = Some x" for h j x
    using 1(6,12) 2(6,7) 3(7) that by simp
  have up: "walk ?s r (upper u) = Some g" if "walk s r (upper u) = Some g" for u g
  proof -
    have "tables_wf s r lev" using inv by (simp add: vm_inv_def)
    hence "walk s3 r (upper u) = Some g" by (rule walk_mono) (use c that r4 in \<open>simp_all add: upper_props\<close>)
    moreover have "walk ?s r (upper u) = walk s3 r (upper u)"
      using tables_wf_root [OF wf3] by (intro walk_set_pte [OF wf3 3(4)]) (simp_all add: upper_props)
    ultimately show ?thesis by simp
  qed
  show thesis by (rule that [OF run inv' tr w e _ _ tk data up]) (use 1(9) 2(10) 3(9,10) in simp_all)
qed

end

section \<open>The page allocator provides the frames\<close>

text \<open>The allocator's range is aligned, does not hold \<open>NULL\<close> and can be named by 28-bit frame numbers, also
  the page behind it that \<open>request_page\<close> may return.\<close>

definition pmm_ok :: "pmm \<Rightarrow> bool" where
  "pmm_ok m \<longleftrightarrow> pmm_wf m \<and> IS_ALIGNED (first_available_page_addr m) \<and> first_available_page_addr m \<noteq> 0
    \<and> unat (first_available_page_addr m) + 4096 * npages m + 4096 \<le> 2 ^ 40"

definition frame_taken :: "pmm \<Rightarrow> u64 \<Rightarrow> bool" where
  "frame_taken m f \<longleftrightarrow>
     \<not> (\<exists>q \<le> npages m. q \<notin> used m \<and> f = drop_bit 12 (first_available_page_addr m + PAGESIZE * word_of_nat q))"

definition free_frames :: "pmm \<Rightarrow> nat" where
  "free_frames m = card (free_ahead m)"

lemma page_address:
  assumes "pmm_ok m" and "q \<le> npages m"
  shows "unat (first_available_page_addr m + PAGESIZE * word_of_nat q) = unat (first_available_page_addr m) + 4096 * q"
proof -
  have "unat (first_available_page_addr m) + 4096 * q < 2 ^ 40" using assms by (simp add: pmm_ok_def)
  then have b: "unat (first_available_page_addr m) + 4096 * q < 2 ^ 64" by simp
  then have "unat (word_of_nat q :: u64) = q" by (intro unat_of_nat_u64) simp
  then have "unat (PAGESIZE * word_of_nat q) = 4096 * q" using b by (simp add: unat_word_ariths)
  then show ?thesis using b by simp
qed

lemma unat_drop_12: "unat (drop_bit 12 (x :: u64)) = unat x div 4096"
  by (simp add: drop_bit_eq_div unat_div_distrib)

lemma page_frame_inj:
  assumes "pmm_ok m" and "q \<le> npages m" and "q' \<le> npages m"
    and "drop_bit 12 (first_available_page_addr m + PAGESIZE * word_of_nat q) =
         drop_bit 12 (first_available_page_addr m + PAGESIZE * word_of_nat q')"
  shows "q = q'"
proof -
  have a: "unat (first_available_page_addr m) mod 4096 = 0" using assms(1) by (simp add: pmm_ok_def IS_ALIGNED_mod)
  have "unat (drop_bit 12 (first_available_page_addr m + PAGESIZE * word_of_nat q)) =
      unat (first_available_page_addr m) div 4096 + q" if "q \<le> npages m" for q
    unfolding unat_drop_12 page_address [OF assms(1) that] by simp
  from this [OF assms(2)] this [OF assms(3)] show ?thesis unfolding assms(4) by simp
qed

interpretation pm: frame_source request_page pmm_ok frame_taken free_frames
proof
  fix m p m' assume ok: "pmm_ok m" and req: "request_page m = Ok (p, m')"
  have wf: "pmm_wf m" using ok by (simp add: pmm_ok_def)
  obtain q bf where q: "p = first_available_page_addr m + PAGESIZE * word_of_nat q" "m' = handed_out m q bf"
    "length bf = length (bitfield m)" "bm_elems bf = insert q (used m)" "q \<notin> used m" "q \<le> npages m"
    by (rule request_page_Ok [OF wf req])
  have up: "unat p = unat (first_available_page_addr m) + 4096 * q" unfolding q(1) by (rule page_address [OF ok q(6)])
  have "pmm_wf m'" unfolding q(2) by (rule handed_out(2) [OF wf q(5,6,3,4)])
  then have 1: "pmm_ok m'" using ok by (simp add: pmm_ok_def q(2))
  have 2: "IS_ALIGNED p" using ok by (simp add: IS_ALIGNED_mod up pmm_ok_def)
  have "0 < unat (first_available_page_addr m)" "unat (first_available_page_addr m) + 4096 * npages m + 4096 \<le> 2 ^ 40"
    using ok by (auto simp: pmm_ok_def word_zero_iff_unat)
  then have "0 < unat p" "unat p < 2 ^ 40" unfolding up using q(6) by linarith+
  then have 3: "p < 2 ^ 40" "p \<noteq> 0" by (auto simp: word_less_nat_alt)
  have 4: "\<not> frame_taken m (drop_bit 12 p)" using q by (auto simp: frame_taken_def)
  have 5: "frame_taken m' f \<longleftrightarrow> frame_taken m f \<or> f = drop_bit 12 p" for f
    using q(5,6) page_frame_inj [OF ok] by (auto simp: frame_taken_def q(1,2,4))
  show "pmm_ok m' \<and> IS_ALIGNED p \<and> p < 2 ^ 40 \<and> p \<noteq> 0 \<and> \<not> frame_taken m (drop_bit 12 p)
    \<and> (\<forall>f. frame_taken m' f \<longleftrightarrow> frame_taken m f \<or> f = drop_bit 12 p)"
    using 1 2 3 4 5 by blast
next
  fix m assume "pmm_ok m" and "0 < free_frames m"
  then show "\<exists>p m'. request_page m = Ok (p, m') \<and> free_frames m \<le> Suc (free_frames m')"
    using request_page_progress [of m] by (auto simp: pmm_ok_def free_frames_def)
qed

abbreviation kvm_inv :: "kvm \<Rightarrow> u64 \<Rightarrow> (u64 \<Rightarrow> nat) \<Rightarrow> bool" where
  "kvm_inv \<equiv> vm_inv pmm_ok frame_taken"

text \<open>C2: mapping a page. With three free pages at hand \<open>map_memory_hh\<close> succeeds; afterwards the page translates
  to the physical page, every other address translates as before, and the tables still form a tree whose
  frames the allocator has marked as used.\<close>

theorem map_memory_hh_translates:
  assumes "kvm_inv s r lev" and "ptr_frame pml4 = Ok r" and "v AND 0xfff = 0" and "p AND 0xfff = 0"
    and "p < 2 ^ 40" and "3 \<le> free_frames (alloc s)"
  shows "\<exists>s' lev'. map_memory_hh s pml4 v p flags = Ok s' \<and> kvm_inv s' r lev'
    \<and> (\<forall>w. virtual_to_physical s' pml4 w =
        (if indices w = indices v then Ok p else virtual_to_physical s pml4 w))"
proof -
  obtain s' lev' pt pte where s': "map_with request_page TO_KERNEL_MAP s pml4 v p flags = Ok s'" "kvm_inv s' r lev'"
    "\<And>w. translate s' r w = (if indices w = indices v then Some (take_bit 28 (drop_bit 12 p)) else translate s r w)"
    by (rule pm.map_with_total [OF conv_ok_hh assms(1-4), where flags = flags and n = 0])
      (use assms(6) in simp, rule that)
  have m: "(0xfff :: u64) = mask 12" by (simp add: mask_eq_exp_minus_1)
  have "IS_ALIGNED p" using assms(4) unfolding take_bit_12_aligned m take_bit_eq_mask .
  then have "push_bit 12 (take_bit 28 (drop_bit 12 p)) = p"
    using take_bit_28 [OF frame_less [OF assms(5)]] aligned_split by simp
  then have "virtual_to_physical s' pml4 w = (if indices w = indices v then Ok p else virtual_to_physical s pml4 w)" for w
    by (simp add: virtual_to_physical_translate [OF assms(2)] s'(3))
  then show ?thesis using s' unfolding map_memory_hh_def by blast
qed

section \<open>Permissions and unmapping\<close>

lemma set_flags_fields:
  "e_present (set_flags f e) = e_present e" "e_page_ppn (set_flags f e) = e_page_ppn e"
  "e_writeable (set_flags f e) = take_bit 1 (ucast (WRITE_BIT_SET f))"
  "e_user_access (set_flags f e) = take_bit 1 (ucast (USER_BIT_SET f))"
  "e_execution_disabled (set_flags f e) = take_bit 1 (ucast (NX_BIT_SET f))"
  "e_cache_disabled (set_flags f e) = take_bit 1 (ucast (CACHE_BIT_SET f))"
  by (simp_all add: set_flags_def entry_defs field_simps_bf)

lemma bit_small: "n < 8 \<Longrightarrow> bit (15 :: u8) n \<longleftrightarrow> n < 4" "bit (1 :: u8) n \<longleftrightarrow> n = 0" "n < 8 \<Longrightarrow> bit (2 :: u8) n \<longleftrightarrow> n = 1"
  "n < 8 \<Longrightarrow> bit (4 :: u8) n \<longleftrightarrow> n = 2" "n < 8 \<Longrightarrow> bit (8 :: u8) n \<longleftrightarrow> n = 3"
proof -
  show "bit (1 :: u8) n \<longleftrightarrow> n = 0" by (simp add: bit_1_iff)
  assume "n < 8"
  then have "n \<in> {0, 1, 2, 3, 4, 5, 6, 7}" by auto
  then show "bit (15 :: u8) n \<longleftrightarrow> n < 4" "bit (2 :: u8) n \<longleftrightarrow> n = 1"
    "bit (4 :: u8) n \<longleftrightarrow> n = 2" "bit (8 :: u8) n \<longleftrightarrow> n = 3"
    by (auto simp: bit_iff_odd)
qed

lemma perm_fields:
  "bit (ucast (e_writeable (set_flags f e)) :: u8) n \<longleftrightarrow> n = 0 \<and> bit f 0"
  "bit (ucast (e_user_access (set_flags f e)) :: u8) n \<longleftrightarrow> n = 0 \<and> bit f 1"
  "bit (ucast (e_execution_disabled (set_flags f e)) :: u8) n \<longleftrightarrow> n = 0 \<and> bit f 2"
  "bit (ucast (e_cache_disabled (set_flags f e)) :: u8) n \<longleftrightarrow> n = 0 \<and> bit f 3"
  unfolding set_flags_fields WRITE_BIT_SET_def USER_BIT_SET_def NX_BIT_SET_def CACHE_BIT_SET_def
  by (auto simp: bit_simps bit_small simp flip: bit_0)

lemma entry_perms_set_flags: "entry_perms (set_flags f e) = f AND 0xF"
proof (rule bit_word_eqI)
  fix n :: nat assume "n < LENGTH(8)"
  then have n: "n < 8" by simp
  have "bit (f AND 0xF) n \<longleftrightarrow> n < 4 \<and> bit f n" using bit_small(1) [OF n] by (auto simp: bit_and_iff)
  moreover have "bit (entry_perms (set_flags f e)) n \<longleftrightarrow>
      n = 0 \<and> bit f 0 \<or> n = 1 \<and> bit f 1 \<or> n = 2 \<and> bit f 2 \<or> n = 3 \<and> bit f 3"
    unfolding entry_perms_def bit_or_iff bit_push_bit_iff perm_fields using n by auto
  moreover have "n < 4 \<longleftrightarrow> n = 0 \<or> n = 1 \<or> n = 2 \<or> n = 3" by auto
  ultimately show "bit (entry_perms (set_flags f e)) n \<longleftrightarrow> bit (f AND 0xF) n" by blast
qed

lemma page_table_of_walk:
  assumes "conv_ok conv" and "ptr_frame pml4 = Ok r" and "walk s r (upper v) = Some pt"
  obtains p where "page_table_of conv s pml4 v = Ok p" and "ptr_frame p = Ok pt"
proof -
  have f: "follow conv s tbl i = Ok (conv (push_bit 12 g)) \<and> ptr_frame (conv (push_bit 12 g)) = Ok g"
    if "ptr_frame tbl = Ok f" "child s f i = Some g" "i < 512" for tbl f i g
    using that conv_okD [OF assms(1) child_less [OF that(2)]]
    by (auto simp: follow_def load_ok child_def split: if_splits)
  obtain g1 g2 where g: "child s r (PDP_i (address_to_map v)) = Some g1" "child s g1 (PD_i (address_to_map v)) = Some g2"
    "child s g2 (PT_i (address_to_map v)) = Some pt"
    using assms(3) by (auto simp: upper_def Let_def split: option.splits)
  note f1 = f [OF assms(2) g(1) map_index_less(1)]
  note f2 = f [OF conjunct2 [OF f1] g(2) map_index_less(2)]
  note f3 = f [OF conjunct2 [OF f2] g(3) map_index_less(3)]
  show thesis using f1 f2 f3
    by (intro that [of "conv (push_bit 12 pt)"]) (simp_all add: page_table_of_def Let_def)
qed

lemma get_perms_walk:
  assumes "conv_ok conv" and "ptr_frame pml4 = Ok r" and "walk s r (upper v) = Some pt"
  shows "get_perms_with conv s pml4 v = Ok (entry_perms (ent s pt (P_i (address_to_map v))))"
  by (rule page_table_of_walk [OF assms]) (simp add: get_perms_with_def load_ok)

lemma set_perms_walk:
  assumes "conv_ok conv" and "ptr_frame pml4 = Ok r" and "walk s r (upper v) = Some pt"
  shows "set_perms_with conv s pml4 v f =
    Ok (set_ent s pt (P_i (address_to_map v)) (set_flags f (ent s pt (P_i (address_to_map v)))))"
  by (rule page_table_of_walk [OF assms]) (simp add: set_perms_with_def load_ok store_ok)

lemma vm_inv_wf: "vm_inv I taken s r lev \<Longrightarrow> tables_wf s r lev"
  by (simp add: vm_inv_def)

lemma walk_pt_level: "tables_wf s r lev \<Longrightarrow> walk s r (upper v) = Some pt \<Longrightarrow> lev pt = 1"
  using walk_level [of s r lev r "upper v" pt] by (simp add: upper_props tables_wf_root)

lemma walk_upper_set_pte:
  "tables_wf s r lev \<Longrightarrow> lev pt = 1 \<Longrightarrow> walk (set_ent s pt i e) r (upper v) = walk s r (upper v)"
  using walk_set_pte [of s r lev pt "upper v" r i e] by (simp add: upper_props tables_wf_root)

text \<open>the permissions a page was mapped with are read back by \<open>get_page_perms\<close> and
  \<open>get_page_perms_hh\<close>: the four bits the flags define.\<close>

theorem map_memory_hh_perms:
  assumes "kvm_inv s r lev" and "ptr_frame pml4 = Ok r" and "v AND 0xfff = 0" and "p AND 0xfff = 0"
    and "3 \<le> free_frames (alloc s)"
  shows "\<exists>s'. map_memory_hh s pml4 v p flags = Ok s' \<and> get_page_perms_hh s' pml4 v = Ok (flags AND 0xF)
    \<and> get_page_perms s' pml4 v = Ok (flags AND 0xF)"
proof -
  obtain s' lev' pt pte where s': "map_with request_page TO_KERNEL_MAP s pml4 v p flags = Ok s'"
    "walk s' r (upper v) = Some pt" "ent s' pt (P_i (address_to_map v)) = page_entry pte p flags"
    by (rule pm.map_with_total [OF conv_ok_hh assms(1-4), where flags = flags and n = 0])
      (use assms(5) in simp, rule that)
  then show ?thesis
    using get_perms_walk [OF conv_ok_hh assms(2) s'(2)] get_perms_walk [OF conv_ok_id assms(2) s'(2)]
    by (simp add: map_memory_hh_def get_page_perms_hh_def get_page_perms_def page_entry_def entry_perms_set_flags)
qed

text \<open>changing the permissions of a page whose page table exists changes what \<open>get_page_perms_hh\<close> reads for
  that page, to the four low bits, and changes no translation.\<close>

theorem set_page_perms_hh_frame:
  assumes "kvm_inv s r lev" and "ptr_frame pml4 = Ok r" and "walk s r (upper v) = Some pt"
  shows "\<exists>s'. set_page_perms_hh s pml4 v perms = Ok s' \<and> get_page_perms_hh s' pml4 v = Ok (perms AND 0xF)
    \<and> (\<forall>w. virtual_to_physical s' pml4 w = virtual_to_physical s pml4 w) \<and> kvm_inv s' r lev"
proof -
  let ?i = "P_i (address_to_map v)"
  let ?e = "ent s pt ?i" and ?s = "set_ent s pt ?i (set_flags perms (ent s pt ?i))"
  note wf = vm_inv_wf [OF assms(1)]
  note l = walk_pt_level [OF wf assms(3)]
  have w: "walk ?s r (upper u) = walk s r (upper u)" for u by (rule walk_upper_set_pte [OF wf l])
  have c: "child ?s h j = child s h j" for h j
    by (auto simp: child_def set_flags_fields)
  have "walk ?s f is = walk s f is" for f "is"
    by (induction "is" arbitrary: f) (simp_all add: c del: child_set_ent split: option.split)
  then have "virtual_to_physical ?s pml4 u = virtual_to_physical s pml4 u" for u
    by (simp add: virtual_to_physical_translate [OF assms(2)] translate_def)
  moreover have "get_page_perms_hh ?s pml4 v = Ok (perms AND 0xF)"
    using get_perms_walk [OF conv_ok_hh assms(2), of ?s v pt] w assms(3)
    by (simp add: get_page_perms_hh_def entry_perms_set_flags)
  moreover have "kvm_inv ?s r lev" using assms(1) l by (simp add: vm_inv_def)
  ultimately show ?thesis
    using set_perms_walk [OF conv_ok_hh assms(2,3)] by (simp add: set_page_perms_hh_def)
qed

lemma e_present_clear [simp]: "e_present (bf_set 0 (Suc 0) 0 e) = 0"
  by (simp add: e_present_def field_simps_bf)

lemma unmap_with_walk:
  assumes "conv_ok conv" and "ptr_frame pml4 = Ok r"
  shows "unmap_with conv s pml4 v = Ok (case walk s r (upper v) of None \<Rightarrow> s
    | Some pt \<Rightarrow> set_ent s pt (P_i (address_to_map v)) (bf_set 0 1 0 (ent s pt (P_i (address_to_map v)))))"
proof -
  have c: "child s f i = Some g \<Longrightarrow> ptr_frame (conv (push_bit 12 g)) = Ok g" for f i g
    by (rule conv_okD [OF assms(1) child_less])
  show ?thesis using assms(2)
    by (auto simp: unmap_with_def Let_def next_table_child upper_def c load_ok store_ok split: option.split)
qed

text \<open>\<open>unmap_current_memory\<close> always returns; afterwards the page translates to nothing and every other
  address as before, whether or not the page was mapped.\<close>

theorem unmap_current_memory_translates:
  assumes "kvm_inv s r lev" and "ptr_frame (get_pml4 s) = Ok r"
  shows "\<exists>s'. unmap_current_memory s v = Ok s' \<and> kvm_inv s' r lev
    \<and> (\<forall>w. virtual_to_physical s' (get_pml4 s) w =
        (if indices w = indices v then Ok 0 else virtual_to_physical s (get_pml4 s) w))"
proof -
  note wf = vm_inv_wf [OF assms(1)]
  note tr = virtual_to_physical_translate [OF assms(2)]
  note un = unmap_with_walk [OF conv_ok_hh assms(2), of s v]
  show ?thesis
  proof (cases "walk s r (upper v)")
    case None
    then have "translate s r w = None" if "indices w = indices v" for w
      using that unfolding translate_def that upper_props(1) walk_append by simp
    then have "virtual_to_physical s (get_pml4 s) w =
        (if indices w = indices v then Ok 0 else virtual_to_physical s (get_pml4 s) w)" for w by (simp add: tr)
    moreover have "unmap_current_memory s v = Ok s" using None un by (simp add: unmap_current_memory_def)
    ultimately show ?thesis using assms(1) by blast
  next
    case (Some pt)
    let ?i = "P_i (address_to_map v)"
    let ?s = "set_ent s pt ?i (bf_set 0 1 0 (ent s pt ?i))"
    note l = walk_pt_level [OF wf Some]
    have u: "walk ?s r (upper w) = walk s r (upper w)" for w by (rule walk_upper_set_pte [OF wf l])
    have "translate ?s r w = (if indices w = indices v then None else translate s r w)" for w
    proof (cases "walk s r (upper w) = Some pt")
      case True
      have "upper w = upper v"
        using walk_unique [OF wf True Some] by (simp add: upper_props(2)) (use upper_props(3) in blast)
      then show ?thesis using True u unfolding translate_def upper_props(1) walk_append indices_eq [unfolded upper_props(1)]
        by (auto simp: e_present_clear split: option.splits)
    next
      case False
      then have "upper w \<noteq> upper v" using Some by auto
      then show ?thesis using False u unfolding translate_def upper_props(1) walk_append indices_eq [unfolded upper_props(1)]
        by (auto split: option.splits)
    qed
    then have "virtual_to_physical ?s (get_pml4 s) w =
        (if indices w = indices v then Ok 0 else virtual_to_physical s (get_pml4 s) w)" for w by (simp add: tr)
    moreover have "kvm_inv ?s r lev" using assms(1) l by (simp add: vm_inv_def)
    moreover have "unmap_current_memory s v = Ok ?s" using Some un by (simp add: unmap_current_memory_def)
    ultimately show ?thesis by blast
  qed
qed

section \<open>Requesting a mapped page\<close>

lemma request_page_at_total:
  assumes inv: "kvm_inv s r lev" and r: "ptr_frame pml4 = Ok r" and v: "v AND 0xfff = 0"
    and av: "n + 4 \<le> free_frames (alloc s)"
  obtains s' lev' g where "request_page_at s pml4 v flags = Ok (v, s')" and "kvm_inv s' r lev'"
    and "\<not> frame_taken (alloc s) g" and "g \<noteq> 0"
    and "\<And>w. translate s' r w = (if indices w = indices v then Some g else translate s r w)"
    and "cr3 s' = cr3 s" and "n \<le> free_frames (alloc s')"
proof -
  have I: "pmm_ok (alloc s)" and tk: "\<And>f. 0 < lev f \<Longrightarrow> frame_taken (alloc s) f" using inv by (simp_all add: vm_inv_def)
  obtain p m where req: "request_page (alloc s) = Ok (p, m)" and am: "free_frames (alloc s) \<le> Suc (free_frames m)"
    using pm.req_avail [OF I] av by auto
  let ?g = "drop_bit 12 p" and ?s = "s\<lparr>alloc := m\<rparr>"
  have p: "pmm_ok m" "IS_ALIGNED p" "p < 2 ^ 40" "p \<noteq> 0" "\<not> frame_taken (alloc s) ?g"
    "\<And>h. frame_taken m h \<longleftrightarrow> frame_taken (alloc s) h \<or> h = ?g"
    using pm.req_Ok [OF I req] by auto
  have inv1: "kvm_inv ?s r lev" using inv p(1,6) by (simp add: vm_inv_def)
  have mk: "(0xfff :: u64) = mask 12" by (simp add: mask_eq_exp_minus_1)
  have al: "p AND 0xfff = 0" using p(2) unfolding take_bit_12_aligned mk take_bit_eq_mask .
  have av1: "n + 3 \<le> free_frames (alloc ?s)" using av am by simp
  obtain s' lev' where s': "map_with request_page TO_KERNEL_MAP ?s pml4 v p flags = Ok s'" "kvm_inv s' r lev'"
    "\<And>w. translate s' r w = (if indices w = indices v then Some (take_bit 28 (drop_bit 12 p)) else translate ?s r w)"
    "cr3 s' = cr3 ?s" "n \<le> free_frames (alloc s')"
    by (rule pm.map_with_total [OF conv_ok_hh inv1 r v al av1, where flags = flags]) (rule that)
  have "request_page_at s pml4 v flags = Ok (v, s')"
    using req s'(1) p(4) by (simp add: request_page_at_def map_memory_hh_def)
  moreover have "translate ?s r w = translate s r w" for w by (simp add: translate_def)
  moreover have "?g \<noteq> 0" using p(4) aligned_split [OF p(2)] by auto
  ultimately show thesis
    using s' p(5) take_bit_28 [OF frame_less [OF p(3)]] by (intro that [of s' lev' ?g]) simp_all
qed

section \<open>Protecting a range\<close>

lemma set_pte_perms_frame:
  assumes "kvm_inv s r lev" and "walk s r (upper v) = Some pt"
    and e: "e_present e = e_present (ent s pt (P_i (address_to_map v)))" "e_page_ppn e = e_page_ppn (ent s pt (P_i (address_to_map v)))"
  defines "t \<equiv> set_ent s pt (P_i (address_to_map v)) e"
  shows "kvm_inv t r lev" and "walk t f is = walk s f is"
proof -
  have l: "lev pt = 1" by (rule walk_pt_level [OF vm_inv_wf [OF assms(1)] assms(2)])
  show "kvm_inv t r lev" using assms(1) l by (simp add: vm_inv_def t_def)
  have c: "child t h j = child s h j" for h j using e by (auto simp: t_def child_def)
  show "walk t f is = walk s f is"
    by (induction "is" arbitrary: f) (simp_all add: c split: option.split)
qed

lemma protect_loop_range:
  assumes "kvm_inv s r lev" and "ptr_frame pml4 = Ok r" and "conv_ok conv"
    and "stop = i + PAGESIZE * word_of_nat n" and "unat i + 4096 * n < 2 ^ 64"
    and "\<forall>k < n. walk s r (upper (i + PAGESIZE * word_of_nat k)) \<noteq> None"
    and "P = (\<lambda>v. get_perms_with conv s pml4 v = Ok (perms AND 0xF))"
  shows "\<exists>s'. protect_loop conv n s pml4 i stop perms = Ok s' \<and> kvm_inv s' r lev
    \<and> (\<forall>f is. walk s' f is = walk s f is)
    \<and> (\<forall>k < n. get_perms_with conv s' pml4 (i + PAGESIZE * word_of_nat k) = Ok (perms AND 0xF))
    \<and> (\<forall>v. walk s r (upper v) \<noteq> None \<longrightarrow> P v \<longrightarrow> get_perms_with conv s' pml4 v = Ok (perms AND 0xF))"
  using assms
proof (induction n arbitrary: s i P)
  case 0 then show ?case by (simp add: protect_loop.simps)
next
  case (Suc n)
  have un: "unat (PAGESIZE * word_of_nat (Suc n) :: u64) = 4096 * Suc n"
  proof -
    have "unat (word_of_nat (Suc n) :: u64) = Suc n" using Suc.prems(5) by (intro unat_of_nat_u64) simp
    then show ?thesis using Suc.prems(5) unfolding unat_word_ariths by simp
  qed
  have lt: "i < stop" using Suc.prems(4,5) un by (simp add: word_less_nat_alt)
  obtain pt where pt: "walk s r (upper i) = Some pt" using Suc.prems(6) [rule_format, of 0] by auto
  let ?e = "set_flags perms (ent s pt (P_i (address_to_map i)))" and ?j = "P_i (address_to_map i)"
  let ?t = "set_ent s pt ?j ?e"
  have step: "set_perms_with conv s pml4 i perms = Ok ?t" by (rule set_perms_walk [OF Suc.prems(3,2) pt])
  note t = set_pte_perms_frame [OF Suc.prems(1) pt, of ?e, OF set_flags_fields(1,2)]
  have at: "get_perms_with conv ?t pml4 v = Ok (perms AND 0xF)"
    if a: "walk s r (upper v) \<noteq> None" and b: "P v \<or> v = i" for v
  proof -
    obtain pv where pv: "walk s r (upper v) = Some pv" using a by blast
    then have w: "walk ?t r (upper v) = Some pv" using t(2) by simp
    show ?thesis using get_perms_walk [OF Suc.prems(3,2) w] get_perms_walk [OF Suc.prems(3,2) pv] b pv pt Suc.prems(7)
      by (auto simp: entry_perms_set_flags)
  qed
  have i1: "unat (i + 0x1000) = unat i + 4096" using Suc.prems(5) by simp
  have shift: "i + PAGESIZE * word_of_nat (Suc k) = i + 0x1000 + PAGESIZE * word_of_nat k" for k
    by (simp add: algebra_simps)
  have walks: "\<forall>k<n. walk ?t r (upper (i + 0x1000 + PAGESIZE * word_of_nat k)) \<noteq> None"
    using Suc.prems(6) t(2) shift by (metis Suc_less_eq)
  have "unat (i + 0x1000) + 4096 * n < 2 ^ 64" using Suc.prems(5) i1 by simp
  with Suc.IH [OF t(1) Suc.prems(2,3) _ _ walks refl] Suc.prems(4) shift
  obtain s' where s': "protect_loop conv n ?t pml4 (i + 0x1000) stop perms = Ok s'" "kvm_inv s' r lev"
    "\<forall>f is. walk s' f is = walk ?t f is"
    "\<forall>k < n. get_perms_with conv s' pml4 (i + 0x1000 + PAGESIZE * word_of_nat k) = Ok (perms AND 0xF)"
    "\<forall>v. walk ?t r (upper v) \<noteq> None \<longrightarrow> get_perms_with conv ?t pml4 v = Ok (perms AND 0xF) \<longrightarrow>
       get_perms_with conv s' pml4 v = Ok (perms AND 0xF)" by blast
  have "protect_loop conv (Suc n) s pml4 i stop perms = Ok s'"
    using lt step s'(1) by (subst protect_loop.simps) simp
  moreover have "get_perms_with conv s' pml4 (i + PAGESIZE * word_of_nat k) = Ok (perms AND 0xF)" if "k < Suc n" for k
  proof (cases k)
    case 0 then show ?thesis using s'(5) at [of i] pt t(2) by simp
  next
    case (Suc k') then show ?thesis using s'(4) that unfolding Suc shift by simp
  qed
  moreover have "\<forall>v. walk s r (upper v) \<noteq> None \<longrightarrow> P v \<longrightarrow> get_perms_with conv s' pml4 v = Ok (perms AND 0xF)"
    using s'(5) at t(2) by simp
  ultimately show ?case using s'(2,3) t(2) by (intro exI [of _ s']) simp
qed

lemma page_floor: "a AND NOT 0xfff = push_bit 12 (drop_bit 12 (a :: u64))"
proof -
  have m: "(0xfff :: u64) = mask 12" by (simp add: mask_eq_exp_minus_1)
  show ?thesis unfolding m by (rule bit_word_eqI) (auto simp: bit_simps)
qed

lemma aligned_diff: "push_bit 12 (drop_bit 12 (push_bit 12 a - push_bit 12 b)) = push_bit 12 a - push_bit 12 (b :: u64)"
proof (rule aligned_split)
  have "push_bit 12 a - push_bit 12 b = push_bit 12 (a - b)" by (simp add: push_bit_eq_mult algebra_simps)
  then show "IS_ALIGNED (push_bit 12 a - push_bit 12 b)" by simp
qed

text \<open>\<open>mprotect\<close> (the kernel's variant) on a range whose page tables all exist: it returns, every page of the
  range has the requested permissions, and no address translates differently.\<close>

theorem mprotect_hh_range:
  assumes "kvm_inv s r lev" and "ptr_frame pml4 = Ok r"
    and "start = address AND NOT 0xfff" and "stop = (address + len + 0xfff) AND NOT 0xfff"
    and "start \<le> stop" and "n = unat (drop_bit 12 (stop - start))"
    and "\<forall>k < n. walk s r (upper (start + PAGESIZE * word_of_nat k)) \<noteq> None"
  shows "\<exists>s'. mprotect_hh s pml4 address len perms = Ok s' \<and> kvm_inv s' r lev
    \<and> (\<forall>k < n. get_page_perms_hh s' pml4 (start + PAGESIZE * word_of_nat k) = Ok (perms AND 0xF))
    \<and> (\<forall>w. virtual_to_physical s' pml4 w = virtual_to_physical s pml4 w)"
proof -
  have d: "push_bit 12 (drop_bit 12 (stop - start)) = stop - start"
    unfolding assms(3,4) page_floor by (rule aligned_diff)
  have stop: "stop = start + PAGESIZE * word_of_nat n"
    using d by (simp add: assms(6) push_bit_eq_mult algebra_simps)
  have "4096 * n \<le> unat (stop - start)"
    unfolding assms(6) unat_drop_12 by simp
  moreover have "unat stop < 2 ^ 64" by simp
  ultimately have "unat start + 4096 * n < 2 ^ 64"
    using unat_sub_small [OF assms(5)] assms(5) unfolding word_le_nat_alt by linarith
  from protect_loop_range [OF assms(1,2) conv_ok_hh stop this assms(7) refl]
  obtain s' where s': "protect_loop TO_KERNEL_MAP n s pml4 start stop perms = Ok s'" "kvm_inv s' r lev"
    "\<forall>f is. walk s' f is = walk s f is"
    "\<forall>k < n. get_perms_with TO_KERNEL_MAP s' pml4 (start + PAGESIZE * word_of_nat k) = Ok (perms AND 0xF)" by blast
  have "mprotect_hh s pml4 address len perms = Ok s'"
    using s'(1) unfolding mprotect_hh_def protect_with_def Let_def assms(6) unfolding assms(3,4) .
  moreover have "virtual_to_physical s' pml4 w = virtual_to_physical s pml4 w" for w
    using s'(3) by (simp add: virtual_to_physical_translate [OF assms(2)] translate_def)
  ultimately show ?thesis using s'(2,4) by (simp add: get_page_perms_hh_def)
qed

section \<open>Concrete runs\<close>

text \<open>The root in frame 0x50 with the tables of the low addresses in frames 0x51 to 0x53 and the page at
  address 0 in frame 9; the allocator is the example of \<open>Memory\<close>.\<close>

definition vm_example :: kvm where
  "vm_example = \<lparr>pmem = (\<lambda>f i. if i = 0 then
       (if f = 0x50 then 0x51007 else if f = 0x51 then 0x52007 else if f = 0x52 then 0x53007
        else if f = 0x53 then 0x9007 else 0) else 0),
     cr3 = 0x50000, alloc = pmm_example\<rparr>"

definition lev_example :: "u64 \<Rightarrow> nat" where
  "lev_example f = (if f = 0x50 then 4 else if f = 0x51 then 3 else if f = 0x52 then 2 else if f = 0x53 then 1 else 0)"

lemma example_fields:
  "e_present 0x51007 = 1" "e_present 0x52007 = 1" "e_present 0x53007 = 1" "e_present 0x9007 = 1" "e_present 0 = 0"
  "e_page_ppn 0x51007 = 0x51" "e_page_ppn 0x52007 = 0x52" "e_page_ppn 0x53007 = 0x53" "e_page_ppn 0x9007 = 9"
  by (simp_all add: entry_defs bf_get_def)

lemma vm_example_child: "child vm_example f i = (if i = 0 then
     (if f = 0x50 then Some 0x51 else if f = 0x51 then Some 0x52 else if f = 0x52 then Some 0x53
      else if f = 0x53 then Some 9 else None) else None)"
  by (simp add: child_def ent_def vm_example_def example_fields unat_eq_zero)

lemma pmm_example_ok: "pmm_ok pmm_example"
  using pmm_example_wf by (simp add: pmm_ok_def IS_ALIGNED_mod) (simp add: pmm_example_def)

lemma pmm_example_free_frames: "free_frames pmm_example = 3"
proof -
  have "free_ahead pmm_example = {2, 3, 4}"
    by (auto simp: free_ahead_def pmm_example_used) (auto simp: pmm_example_def)
  then show ?thesis by (simp add: free_frames_def)
qed

lemma pmm_example_taken: "unat f < 0x100 \<Longrightarrow> frame_taken pmm_example f"
proof -
  assume f: "unat f < 0x100"
  have "unat (drop_bit 12 (first_available_page_addr pmm_example + PAGESIZE * word_of_nat q)) \<ge> 0x100"
    if "q \<le> npages pmm_example" for q
    unfolding unat_drop_12 page_address [OF pmm_example_ok that] by (simp add: pmm_example_def)
  then show ?thesis using f by (force simp: frame_taken_def)
qed

lemma vm_example_inv: "kvm_inv vm_example 0x50 lev_example"
proof -
  have "tables_wf vm_example 0x50 lev_example"
    unfolding tables_wf_def vm_example_child lev_example_def by (auto split: if_splits)
  moreover have "frame_taken (alloc vm_example) f" if "0 < lev_example f" for f
    using that pmm_example_taken by (auto simp: lev_example_def vm_example_def split: if_splits)
  moreover have "pmm_ok (alloc vm_example)" using pmm_example_ok by (simp add: vm_example_def)
  ultimately show ?thesis by (simp add: vm_inv_def)
qed

lemma vm_example_ptr: "ptr_frame 0x50000 = Ok 0x50"
  by (simp add: ptr_frame_def IS_ALIGNED_def)

lemma vm_example_pml4: "ptr_frame (get_pml4 vm_example) = Ok 0x50"
  by (simp add: ptr_frame_def IS_ALIGNED_def get_pml4_def vm_example_def TO_KERNEL_MAP_def)

lemma vm_example_pt: "walk vm_example 0x50 (upper 0) = Some 0x53"
  by (simp add: upper_def Let_def address_to_map_def vm_example_child)

theorem map_memory_hh_translates_witness:
  "\<exists>s'. map_memory_hh vm_example 0x50000 0xFFFF800000000000 0x7000 3 = Ok s'
    \<and> virtual_to_physical s' 0x50000 0xFFFF800000000000 = Ok 0x7000"
  using map_memory_hh_translates [OF vm_example_inv vm_example_ptr, of "0xFFFF800000000000" "0x7000" 3]
    pmm_example_free_frames by (auto simp: vm_example_def)

theorem map_memory_hh_perms_witness:
  "\<exists>s'. map_memory_hh vm_example 0x50000 0xFFFF800000000000 0x7000 0x1b = Ok s'
    \<and> get_page_perms_hh s' 0x50000 0xFFFF800000000000 = Ok 0xb"
  using map_memory_hh_perms [OF vm_example_inv vm_example_ptr, of "0xFFFF800000000000" "0x7000" "0x1b"]
    pmm_example_free_frames by (auto simp: vm_example_def)

theorem set_page_perms_hh_frame_witness:
  "\<exists>s'. set_page_perms_hh vm_example 0x50000 0 5 = Ok s' \<and> get_page_perms_hh s' 0x50000 0 = Ok 5"
  using set_page_perms_hh_frame [OF vm_example_inv vm_example_ptr vm_example_pt, of 5] by auto

theorem unmap_current_memory_translates_witness:
  "\<exists>s'. unmap_current_memory vm_example 0 = Ok s' \<and> virtual_to_physical s' (get_pml4 vm_example) 0 = Ok 0"
  using unmap_current_memory_translates [OF vm_example_inv vm_example_pml4, of 0] by auto

theorem mprotect_hh_range_witness:
  "\<exists>s'. mprotect_hh vm_example 0x50000 0x10 0x20 5 = Ok s' \<and> get_page_perms_hh s' 0x50000 0 = Ok 5"
proof -
  have w: "\<forall>k < 1. walk vm_example 0x50 (upper (0 + PAGESIZE * word_of_nat k)) \<noteq> None" using vm_example_pt by simp
  have a: "(0 :: u64) = 0x10 AND NOT 0xfff" and b: "(0x1000 :: u64) = (0x10 + 0x20 + 0xfff) AND NOT 0xfff"
    and c: "(0 :: u64) \<le> 0x1000" and d: "1 = unat (drop_bit 12 (0x1000 - 0 :: u64))" by simp_all
  obtain s' where s': "mprotect_hh vm_example 0x50000 0x10 0x20 5 = Ok s'"
    "\<forall>k < 1. get_page_perms_hh s' 0x50000 (0 + PAGESIZE * word_of_nat k) = Ok (5 AND 0xF)"
    using mprotect_hh_range [OF vm_example_inv vm_example_ptr a b c d w, of 5] by blast
  have "get_page_perms_hh s' 0x50000 0 = Ok 5" using s'(2) [rule_format, of 0] by simp
  then show ?thesis using s'(1) by blast
qed

text \<open>\<open>request_current_page_at\<close> maps the address to a frame that was free before, so that no two requests share a
  frame; every other address translates as before.\<close>

theorem request_current_page_at_fresh:
  assumes "kvm_inv s r lev" and "ptr_frame (get_pml4 s) = Ok r" and "v AND 0xfff = 0" and "4 \<le> free_frames (alloc s)"
  shows "\<exists>s' lev' g. request_current_page_at s v flags = Ok (v, s') \<and> kvm_inv s' r lev' \<and> \<not> frame_taken (alloc s) g
    \<and> get_pml4 s' = get_pml4 s \<and> (\<forall>w. virtual_to_physical s' (get_pml4 s) w =
      (if indices w = indices v then Ok (push_bit 12 g) else virtual_to_physical s (get_pml4 s) w))"
proof -
  have "0 + 4 \<le> free_frames (alloc s)" using assms(4) by simp
  from request_page_at_total [OF assms(1-3) this]
  obtain s' lev' g where s': "request_page_at s (get_pml4 s) v flags = Ok (v, s')" "kvm_inv s' r lev'"
    "\<not> frame_taken (alloc s) g" "\<And>w. translate s' r w = (if indices w = indices v then Some g else translate s r w)"
    "cr3 s' = cr3 s" by metis
  have "virtual_to_physical s' (get_pml4 s) w =
      (if indices w = indices v then Ok (push_bit 12 g) else virtual_to_physical s (get_pml4 s) w)" for w
    by (simp add: virtual_to_physical_translate [OF assms(2)] s'(4))
  then show ?thesis using s' by (auto simp: request_current_page_at_def get_pml4_def)
qed

text \<open>The same tables over an allocator with thirty free pages.\<close>

definition pmm_big :: pmm where
  "pmm_big = pmm_example\<lparr>total_available_pages := 32, bitfield := [3, 0, 0, 0]\<rparr>"

definition vm_big :: kvm where
  "vm_big = vm_example\<lparr>alloc := pmm_big\<rparr>"

lemma pmm_big_used: "used pmm_big = {0, 1}"
proof -
  have "x \<in> used pmm_big \<longleftrightarrow> x \<in> used pmm_example" for x
  proof (cases "x div 8")
    case 0 then show ?thesis by (simp add: used_def bm_elems_iff pmm_big_def pmm_example_def)
  next
    case (Suc k)
    have "k = 0 \<or> k = 1 \<or> k = 2 \<or> 3 \<le> k" by linarith
    then show ?thesis using Suc by (elim disjE) (simp_all add: used_def bm_elems_iff pmm_big_def pmm_example_def numeral_2_eq_2)
  qed
  then have "used pmm_big = used pmm_example" by (intro set_eqI)
  then show ?thesis by (simp only: pmm_example_used)
qed

lemma pmm_big_ok: "pmm_ok pmm_big"
  by (simp add: pmm_ok_def pmm_wf_def pmm_big_def pmm_example_def bitfield_entries_def IS_ALIGNED_mod)

lemma vm_big_free: "free_frames (alloc vm_big) = 30"
proof -
  have "free_ahead pmm_big = {2..<32}"
    by (auto simp: free_ahead_def pmm_big_used) (auto simp: pmm_big_def pmm_example_def)
  then show ?thesis by (simp add: free_frames_def vm_big_def)
qed

lemma vm_big_inv: "kvm_inv vm_big 0x50 lev_example"
proof -
  have t: "frame_taken pmm_big f" if "unat f < 0x100" for f
  proof -
    have "unat (drop_bit 12 (first_available_page_addr pmm_big + PAGESIZE * word_of_nat q)) \<ge> 0x100"
      if "q \<le> npages pmm_big" for q
      unfolding unat_drop_12 page_address [OF pmm_big_ok that] by (simp add: pmm_big_def pmm_example_def)
    then show ?thesis using that by (force simp: frame_taken_def)
  qed
  have "frame_taken (alloc vm_big) f" if "0 < lev_example f" for f
    using that t by (auto simp: lev_example_def vm_big_def split: if_splits)
  then show ?thesis using vm_example_inv pmm_big_ok by (simp add: vm_inv_def vm_big_def)
qed

lemma vm_big_pml4: "ptr_frame (get_pml4 vm_big) = Ok 0x50"
  using vm_example_pml4 by (simp add: vm_big_def get_pml4_def)

theorem request_current_page_at_fresh_witness:
  "\<exists>s'. request_current_page_at vm_big 0xFFFFFFFF60000000 3 = Ok (0xFFFFFFFF60000000, s')"
  using request_current_page_at_fresh [OF vm_big_inv vm_big_pml4, of "0xFFFFFFFF60000000" 3] vm_big_free by auto

end
