(* ===== verification/Heap.thy ===== *)
theory Heap
  imports Paging
begin

text \<open>The kernel and user heaps, \<open>memory/heap.c\<close> with \<open>heap.h\<close>. A heap grows downwards from its end
  address; its segments form a doubly linked list that starts at the segment with the highest address.
  The segment headers are an explicit store from header addresses to records, because the list is
  changed through pointers; an access where no header was ever written is \<open>Fault\<close>. The bytes behind the
  headers are a second store, and the pages come from the paging model.\<close>

section \<open>State\<close>

record segment =
  s_free :: u8
  s_length :: u64
  s_next :: u64
  s_last :: u64
  s_isStack :: u8
  s_signature :: u32

record heap =
  heapEnd :: u64
  lastStack :: u64
  lastSegment :: u64
  mainSegment :: u64
  totalSize :: u64
  usedSize :: u64
  freeSize :: u64
  isKernel :: u8
  ready :: u8

record hst = heap +
  hdrs :: "u64 \<rightharpoonup> segment"
  bytes :: "u64 \<Rightarrow> u8"
  hvm :: kvm

abbreviation HEAP_SIGNATURE :: u32 where "HEAP_SIGNATURE \<equiv> 0xcafebabe"
abbreviation HDR :: u64 where "HDR \<equiv> 48"

definition zero_segment :: segment where
  "zero_segment = \<lparr>s_free = 0, s_length = 0, s_next = 0, s_last = 0, s_isStack = 0, s_signature = 0\<rparr>"

definition get_seg :: "hst \<Rightarrow> u64 \<Rightarrow> segment result" where
  "get_seg h a = (case hdrs h a of None \<Rightarrow> Err Fault | Some s \<Rightarrow> Ok s)"

definition upd_seg :: "hst \<Rightarrow> u64 \<Rightarrow> (segment \<Rightarrow> segment) \<Rightarrow> hst result" where
  "upd_seg h a f = (case hdrs h a of None \<Rightarrow> Err Fault | Some s \<Rightarrow> Ok (h\<lparr>hdrs := (hdrs h)(a \<mapsto> f s)\<rparr>))"

definition put_seg :: "hst \<Rightarrow> u64 \<Rightarrow> segment \<Rightarrow> hst" where
  "put_seg h a s = h\<lparr>hdrs := (hdrs h)(a \<mapsto> s)\<rparr>"

section \<open>Initialisation\<close>

definition heap_perms :: "bool \<Rightarrow> u8" where
  "heap_perms user = (if user then 1 OR 2 else 1)"

definition share_page :: "kvm \<Rightarrow> u64 \<Rightarrow> u64 \<Rightarrow> u64 \<Rightarrow> u8 \<Rightarrow> kvm result" where
  "share_page s pd pml4 vaddr perms = rbind (virtual_to_physical s pd vaddr) (\<lambda>physical.
     map_memory s pml4 vaddr physical perms)"

definition initHeap :: "hst \<Rightarrow> u64 \<Rightarrow> u64 \<Rightarrow> u64 \<Rightarrow> bool \<Rightarrow> hst result" where
  "initHeap h pml4 heap_end stack_end user =
    (let perms = heap_perms user;
         he = heap_end - PAGESIZE;
         ls = stack_end - PAGESIZE in
     rbind (request_current_page_at (hvm h) he perms) (\<lambda>(_, s).
     rbind (request_current_page_at s ls perms) (\<lambda>(_, s).
     let pd = get_pml4 s in
     rbind (if pd \<noteq> pml4 then rbind (share_page s pd pml4 he perms) (\<lambda>s. share_page s pd pml4 ls perms) else Ok s) (\<lambda>s.
     let main = he + (PAGESIZE - HDR);
         nxt = main - PAGESIZE + HDR;
         h = h\<lparr>heapEnd := he, lastStack := ls, mainSegment := main, hvm := s\<rparr>;
         h = put_seg h main (zero_segment\<lparr>s_next := nxt, s_signature := HEAP_SIGNATURE\<rparr>);
         h = put_seg h nxt \<lparr>s_free = 1, s_length = PAGESIZE - HDR - HDR, s_next = 0, s_last = main,
               s_isStack = 0, s_signature = HEAP_SIGNATURE\<rparr>
     in Ok (h\<lparr>lastSegment := nxt, totalSize := totalSize h + PAGESIZE, freeSize := freeSize h + PAGESIZE,
              isKernel := (if user then 0 else 1), ready := 1\<rparr>)))))"

definition heap_safeguard :: "hst \<Rightarrow> u8" where
  "heap_safeguard h = ready h"

section \<open>Segments\<close>

definition GetHeapSegmentHeader :: "u64 \<Rightarrow> u64" where
  "GetHeapSegmentHeader address = address - HDR"

text \<open>\<open>None\<close> is the null pointer the function returns when the segment is too small.\<close>

definition splitSegment :: "hst \<Rightarrow> u64 \<Rightarrow> u64 \<Rightarrow> (u64 option \<times> hst) result" where
  "splitSegment h segment sz = rbind (get_seg h segment) (\<lambda>s.
     if s_length s \<le> sz + HDR then Ok (None, h) else
     rbind (guard (s_signature s = HEAP_SIGNATURE) ''Invalid heap segment signature split'') (\<lambda>_.
     let new = segment + s_length s - sz;
         h = put_seg h new \<lparr>s_free = 1, s_length = sz, s_next = segment, s_last = s_last s, s_isStack = 0,
               s_signature = HEAP_SIGNATURE\<rparr>;
         h = (if s_next s = 0 then h\<lparr>lastSegment := segment\<rparr> else h) in
     rbind (if s_last s \<noteq> 0 then upd_seg h (s_last s) (\<lambda>l. l\<lparr>s_next := new\<rparr>) else Ok h) (\<lambda>h.
     rbind (upd_seg h segment (\<lambda>s. s\<lparr>s_last := new, s_length := s_length s - (sz + HDR)\<rparr>)) (\<lambda>h.
     Ok (Some new, h)))))"

definition take_segment :: "hst \<Rightarrow> u64 \<Rightarrow> (u64 \<times> hst) result" where
  "take_segment h a = rbind (get_seg h a) (\<lambda>s.
     rbind (upd_seg h a (\<lambda>s. s\<lparr>s_free := 0\<rparr>)) (\<lambda>h.
     Ok (a + HDR, h\<lparr>usedSize := usedSize h + (s_length s + HDR), freeSize := freeSize h - (s_length s + HDR)\<rparr>)))"

text \<open>The first-fit loop of \<open>_malloc\<close>; \<open>None\<close> when the list ends.\<close>

fun malloc_scan :: "nat \<Rightarrow> hst \<Rightarrow> u64 \<Rightarrow> u64 \<Rightarrow> (u64 \<times> hst) option result" where
  "malloc_scan 0 h cur sz = Err Diverge"
| "malloc_scan (Suc fuel) h cur sz = rbind (get_seg h cur) (\<lambda>s.
     rbind (guard (s_signature s = HEAP_SIGNATURE) ''Invalid heap segment signature malloc'') (\<lambda>_.
     if s_free s \<noteq> 0 \<and> s_length s > sz + HDR then
       rbind (splitSegment h cur sz) (\<lambda>(new, h). case new of None \<Rightarrow> Err Fault
         | Some new \<Rightarrow> rbind (take_segment h new) (\<lambda>r. Ok (Some r)))
     else if s_free s \<noteq> 0 \<and> s_length s = sz then rbind (take_segment h cur) (\<lambda>r. Ok (Some r))
     else if s_next s = 0 then Ok None
     else rbind (guard (s_next s \<noteq> cur) ''Current segment cycle'') (\<lambda>_. malloc_scan fuel h (s_next s) sz)))"

definition round_up :: "u64 \<Rightarrow> u64 \<Rightarrow> u64" where
  "round_up x m = (if x mod m > 0 then x - x mod m + m else x)"

section \<open>Growing the heap\<close>

primrec expand_pages :: "nat \<Rightarrow> u64 \<Rightarrow> u64 \<Rightarrow> u8 \<Rightarrow> hst \<Rightarrow> hst result" where
  "expand_pages 0 pd pml4 perms h = Ok h"
| "expand_pages (Suc n) pd pml4 perms h =
    rbind (request_current_page_at (hvm h) (heapEnd h - PAGESIZE) perms) (\<lambda>(v, s).
    rbind (guard (v \<noteq> 0) ''Failed to expand heap'') (\<lambda>_.
    rbind (if pd \<noteq> pml4 then share_page s pd pd v perms else Ok s) (\<lambda>s.
    expand_pages n pd pml4 perms (h\<lparr>heapEnd := v, hvm := s\<rparr>))))"

definition expand_heap :: "hst \<Rightarrow> u64 \<Rightarrow> u64 \<Rightarrow> hst result" where
  "expand_heap h pml4 len =
    (let len = round_up (len + HDR) PAGESIZE;
         pages = len div PAGESIZE + (if len mod PAGESIZE \<noteq> 0 then 1 else 0);
         perms = heap_perms (isKernel h = 0);
         pd = get_pml4 (hvm h) in
     rbind (expand_pages (unat pages) pd pml4 perms h) (\<lambda>h.
     let new = heapEnd h in
     rbind (if lastSegment h \<noteq> 0 then rbind (get_seg h (lastSegment h)) (\<lambda>s. Ok (Some s)) else Ok None) (\<lambda>ls.
     rbind (case ls of
         Some s \<Rightarrow>
           if s_free s \<noteq> 0 \<and> s_last s \<noteq> 0 then
             (let h = put_seg h new \<lparr>s_free = 1, s_length = s_length s + len - HDR, s_next = 0, s_last = s_last s,
                   s_isStack = 0, s_signature = HEAP_SIGNATURE\<rparr> in
              rbind (upd_seg h (s_last s) (\<lambda>l. l\<lparr>s_next := new\<rparr>)) (\<lambda>h. Ok (h\<lparr>lastSegment := new\<rparr>)))
           else
             (let h = put_seg h new \<lparr>s_free = 1, s_length = len - HDR, s_next = 0, s_last = lastSegment h,
                   s_isStack = 0, s_signature = HEAP_SIGNATURE\<rparr> in
              rbind (upd_seg h (lastSegment h) (\<lambda>l. l\<lparr>s_next := new\<rparr>)) (\<lambda>h. Ok (h\<lparr>lastSegment := new\<rparr>)))
       | None \<Rightarrow> Ok ((put_seg h new \<lparr>s_free = 1, s_length = len - HDR, s_next = 0, s_last = lastSegment h,
                   s_isStack = 0, s_signature = HEAP_SIGNATURE\<rparr>)\<lparr>lastSegment := new\<rparr>)) (\<lambda>h.
     Ok (h\<lparr>totalSize := totalSize h + (len + HDR), freeSize := freeSize h + (len + HDR)\<rparr>)))))"

section \<open>Allocation\<close>

text \<open>\<open>scan\<close> bounds the list walk, the first argument the number of times the heap may grow. The result 0
  is the null pointer.\<close>

fun malloc_fuel :: "nat \<Rightarrow> nat \<Rightarrow> hst \<Rightarrow> u64 \<Rightarrow> u64 \<Rightarrow> (u64 \<times> hst) result" where
  "malloc_fuel 0 scan h pml4 sz = Err Diverge"
| "malloc_fuel (Suc n) scan h pml4 sz =
    (if ready h = 0 then Ok (0, h)
     else if sz = 0 then Ok (0, h)
     else (let sz = round_up sz 0x10 in
       rbind (malloc_scan scan h (mainSegment h) sz) (\<lambda>r. case r of
         Some r \<Rightarrow> Ok r
       | None \<Rightarrow> rbind (expand_heap h pml4 sz) (\<lambda>h. malloc_fuel n scan h pml4 sz))))"

definition malloc :: "nat \<Rightarrow> hst \<Rightarrow> u64 \<Rightarrow> u64 \<Rightarrow> (u64 \<times> hst) result" where
  "malloc scan h pml4 sz = malloc_fuel 4 scan h pml4 sz"

definition fill_bytes :: "(u64 \<Rightarrow> u8) \<Rightarrow> u64 \<Rightarrow> u8 \<Rightarrow> u64 \<Rightarrow> u64 \<Rightarrow> u8" where
  "fill_bytes m p v n = (\<lambda>a. if a - p < n then v else m a)"

definition copy_bytes :: "(u64 \<Rightarrow> u8) \<Rightarrow> u64 \<Rightarrow> u64 \<Rightarrow> u64 \<Rightarrow> u64 \<Rightarrow> u8" where
  "copy_bytes m dst src n = (\<lambda>a. if a - dst < n then m (src + (a - dst)) else m a)"

definition calloc :: "nat \<Rightarrow> hst \<Rightarrow> u64 \<Rightarrow> u64 \<Rightarrow> u64 \<Rightarrow> (u64 \<times> hst) result" where
  "calloc scan h pml4 num sz =
    (if ready h = 0 then Ok (0, h) else
     rbind (malloc scan h pml4 (num * sz)) (\<lambda>(ptr, h).
     Ok (ptr, h\<lparr>bytes := fill_bytes (bytes h) ptr 0 (num * sz)\<rparr>)))"

section \<open>Release\<close>

definition MergeThisToNext :: "hst \<Rightarrow> u64 \<Rightarrow> hst result" where
  "MergeThisToNext h header = rbind (get_seg h header) (\<lambda>s.
     rbind (upd_seg h (s_next s) (\<lambda>n. n\<lparr>s_length := s_length n + (s_length s + HDR), s_last := s_last s\<rparr>)) (\<lambda>h.
     rbind (upd_seg h (s_last s) (\<lambda>l. l\<lparr>s_next := s_next s\<rparr>)) (\<lambda>h.
     Ok (put_seg h header zero_segment))))"

definition MergeLastToThis :: "hst \<Rightarrow> u64 \<Rightarrow> hst result" where
  "MergeLastToThis h header = rbind (get_seg h header) (\<lambda>s. let lst = s_last s in
     rbind (get_seg h lst) (\<lambda>l.
     rbind (upd_seg h header (\<lambda>s. s\<lparr>s_length := s_length s + (s_length l + HDR), s_last := s_last l\<rparr>)) (\<lambda>h.
     rbind (upd_seg h (s_last l) (\<lambda>x. x\<lparr>s_next := header\<rparr>)) (\<lambda>h.
     Ok (put_seg h lst zero_segment)))))"

definition MergeLastAndThisToNext :: "hst \<Rightarrow> u64 \<Rightarrow> hst result" where
  "MergeLastAndThisToNext h header = rbind (MergeLastToThis h header) (\<lambda>h. MergeThisToNext h header)"

definition seg_free :: "hst \<Rightarrow> u64 \<Rightarrow> bool result" where
  "seg_free h a = (if a = 0 then Ok False else rbind (get_seg h a) (\<lambda>s. Ok (s_free s \<noteq> 0)))"

definition heap_free :: "hst \<Rightarrow> u64 \<Rightarrow> hst result" where
  "heap_free h address =
    (if ready h = 0 then Ok h else if address = 0 then Ok h else
     (let header = address - HDR in
      rbind (get_seg h header) (\<lambda>s.
      rbind (guard (s_signature s = HEAP_SIGNATURE) ''Invalid free, signature'') (\<lambda>_.
      rbind (guard (s_free s = 0) ''Invalid free, double free'') (\<lambda>_.
      rbind (upd_seg h header (\<lambda>s. s\<lparr>s_free := 1\<rparr>)) (\<lambda>h.
      let h = h\<lparr>freeSize := freeSize h + (s_length s + HDR), usedSize := usedSize h - (s_length s + HDR)\<rparr> in
      rbind (seg_free h (s_next s)) (\<lambda>nf.
      rbind (seg_free h (s_last s)) (\<lambda>lf.
      if s_next s \<noteq> 0 \<and> s_last s \<noteq> 0 \<and> nf \<and> lf then MergeLastAndThisToNext h header
      else if s_last s \<noteq> 0 \<and> lf then MergeLastToThis h header
      else if s_next s \<noteq> 0 \<and> nf then MergeThisToNext h header
      else Ok h))))))))"

definition realloc :: "nat \<Rightarrow> hst \<Rightarrow> u64 \<Rightarrow> u64 \<Rightarrow> u64 \<Rightarrow> (u64 \<times> hst) result" where
  "realloc scan h pml4 buffer sz =
    (if ready h = 0 then Ok (0, h) else
     rbind (malloc scan h pml4 sz) (\<lambda>(new, h).
     if new = 0 then Ok (0, h) else if buffer = 0 then Ok (new, h) else
     rbind (get_seg h (GetHeapSegmentHeader buffer)) (\<lambda>s.
     let n = (if sz < s_length s then sz else s_length s) in
     rbind (heap_free (h\<lparr>bytes := copy_bytes (bytes h) new buffer n\<rparr>) buffer) (\<lambda>h. Ok (new, h)))))"

section \<open>Stacks\<close>

primrec stack_pages :: "nat \<Rightarrow> u64 \<Rightarrow> u64 \<Rightarrow> u8 \<Rightarrow> hst \<Rightarrow> hst result" where
  "stack_pages 0 pd pml4 perms h = Ok h"
| "stack_pages (Suc n) pd pml4 perms h =
    rbind (request_current_page_at (hvm h) (lastStack h - PAGESIZE) perms) (\<lambda>(v, s).
    rbind (guard (v \<noteq> 0) ''Out of memory'') (\<lambda>_.
    rbind (if pd \<noteq> pml4 then share_page s pd pml4 v perms else Ok s) (\<lambda>s.
    stack_pages n pd pml4 perms (h\<lparr>lastStack := v, hvm := s\<rparr>))))"

definition stackalloc :: "hst \<Rightarrow> u64 \<Rightarrow> u64 \<Rightarrow> (u64 \<times> hst) result" where
  "stackalloc h pml4 len =
    (let pages = len div PAGESIZE + (if len mod PAGESIZE \<noteq> 0 then 1 else 0);
         perms = heap_perms (isKernel h = 0) in
     rbind (stack_pages (unat pages) (get_pml4 (hvm h)) pml4 perms h) (\<lambda>h.
     Ok (lastStack h, h\<lparr>lastStack := lastStack h - PAGESIZE\<rparr>)))"

section \<open>The kernel's and the tasks' entry points\<close>

definition init_heap :: "hst \<Rightarrow> hst result" where
  "init_heap h = initHeap h (get_pml4 (hvm h)) 0xffffffff6ffff000 0xffffffff7ffff000 False"

definition create_user_heap :: "hst \<Rightarrow> u64 \<Rightarrow> hst result" where
  "create_user_heap h task_pd = initHeap h (TO_KERNEL_MAP task_pd) 0x00007fff6ffff000 0x00007fff7ffff000 True"

definition kmalloc :: "nat \<Rightarrow> hst \<Rightarrow> u64 \<Rightarrow> (u64 \<times> hst) result" where
  "kmalloc scan h sz = malloc scan h (get_pml4 (hvm h)) sz"

definition kfree :: "hst \<Rightarrow> u64 \<Rightarrow> hst result" where
  "kfree h address = heap_free h address"

definition kcalloc :: "nat \<Rightarrow> hst \<Rightarrow> u64 \<Rightarrow> u64 \<Rightarrow> (u64 \<times> hst) result" where
  "kcalloc scan h num sz = calloc scan h (get_pml4 (hvm h)) num sz"

definition krealloc :: "nat \<Rightarrow> hst \<Rightarrow> u64 \<Rightarrow> u64 \<Rightarrow> (u64 \<times> hst) result" where
  "krealloc scan h buffer sz = realloc scan h (get_pml4 (hvm h)) buffer sz"

definition kstackalloc :: "hst \<Rightarrow> u64 \<Rightarrow> (u64 \<times> hst) result" where
  "kstackalloc h len = stackalloc h (get_pml4 (hvm h)) len"

definition umalloc :: "nat \<Rightarrow> hst \<Rightarrow> u64 \<Rightarrow> u64 \<Rightarrow> (u64 \<times> hst) result" where
  "umalloc scan h task_pd sz = malloc scan h (TO_KERNEL_MAP task_pd) sz"

definition ufree :: "hst \<Rightarrow> u64 \<Rightarrow> hst result" where
  "ufree h address = heap_free h address"

definition ucalloc :: "nat \<Rightarrow> hst \<Rightarrow> u64 \<Rightarrow> u64 \<Rightarrow> u64 \<Rightarrow> (u64 \<times> hst) result" where
  "ucalloc scan h task_pd num sz = calloc scan h (TO_KERNEL_MAP task_pd) num sz"

definition urealloc :: "nat \<Rightarrow> hst \<Rightarrow> u64 \<Rightarrow> u64 \<Rightarrow> u64 \<Rightarrow> (u64 \<times> hst) result" where
  "urealloc scan h task_pd buffer sz = realloc scan h (TO_KERNEL_MAP task_pd) buffer sz"

definition ustackalloc :: "hst \<Rightarrow> u64 \<Rightarrow> u64 \<Rightarrow> (u64 \<times> hst) result" where
  "ustackalloc h task_pd len = stackalloc h (TO_KERNEL_MAP task_pd) len"

section \<open>The list of segments\<close>

text \<open>\<open>chain m p as n\<close>: the headers at the addresses \<open>as\<close>, from higher to lower addresses, form the part of
  the list between the predecessor \<open>p\<close> and the successor \<open>n\<close>, and every segment ends below its
  predecessor.\<close>

definition seg_ok :: "u64 \<Rightarrow> segment \<Rightarrow> u64 \<Rightarrow> u64 \<Rightarrow> bool" where
  "seg_ok a s p n \<longleftrightarrow> a \<noteq> 0 \<and> s_signature s = HEAP_SIGNATURE \<and> s_last s = p \<and> s_next s = n
    \<and> unat a + 48 + unat (s_length s) < 2 ^ 64 \<and> (p \<noteq> 0 \<longrightarrow> unat a + 48 + unat (s_length s) \<le> unat p)"

fun chain :: "(u64 \<rightharpoonup> segment) \<Rightarrow> u64 \<Rightarrow> u64 list \<Rightarrow> u64 \<Rightarrow> bool" where
  "chain m p [] n \<longleftrightarrow> True"
| "chain m p (a # as) n \<longleftrightarrow>
    (\<exists>s. m a = Some s \<and> seg_ok a s p (if as = [] then n else hd as)) \<and> chain m a as n"

lemma chain_append:
  "chain m p (as @ bs) n \<longleftrightarrow>
   chain m p as (if bs = [] then n else hd bs) \<and> chain m (if as = [] then p else last as) bs n"
  by (induction as arbitrary: p) (auto simp: hd_append)

lemma chain_cong: "(\<And>a. a \<in> set as \<Longrightarrow> m' a = m a) \<Longrightarrow> chain m' p as n \<longleftrightarrow> chain m p as n"
  by (induction as arbitrary: p) auto

lemma chain_below: "chain m p as n \<Longrightarrow> p \<noteq> 0 \<Longrightarrow> a \<in> set as \<Longrightarrow> unat a + 48 \<le> unat p"
proof (induction as arbitrary: p)
  case (Cons b as)
  have b: "unat b + 48 \<le> unat p" "b \<noteq> 0" using Cons.prems by (auto simp: seg_ok_def)
  show ?case using Cons.IH [of b] Cons.prems b by (cases "a = b") auto
qed simp

lemma chain_nonzero: "chain m p as n \<Longrightarrow> 0 \<notin> set as"
  by (induction as arbitrary: p) (auto simp: seg_ok_def)

text \<open>Addresses before a position lie above it, those after it below.\<close>

lemma chain_around:
  assumes "chain m 0 (pre @ a # post) 0"
  shows "\<And>b. b \<in> set pre \<Longrightarrow> unat (last pre) \<le> unat b" and "\<And>b. b \<in> set post \<Longrightarrow> unat b + 48 \<le> unat a"
proof -
  show "unat b + 48 \<le> unat a" if "b \<in> set post" for b
  proof (rule chain_below)
    show "chain m a post 0" using assms by (simp add: chain_append)
    show "a \<noteq> 0" using assms by (auto simp: chain_append seg_ok_def)
  qed fact
  show "unat (last pre) \<le> unat b" if b: "b \<in> set pre" for b
  proof -
    obtain xs ys where pre: "pre = xs @ b # ys" using b by (auto simp: in_set_conv_decomp)
    show ?thesis
    proof (cases "ys = []")
      case False
      have "chain m b ys a" "b \<noteq> 0" using assms by (auto simp: pre chain_append seg_ok_def)
      from chain_below [OF this, of "last ys"] False show ?thesis by (simp add: pre)
    qed (simp add: pre)
  qed
qed

lemma chain_distinct: "chain m p as n \<Longrightarrow> distinct as"
proof (induction as arbitrary: p)
  case (Cons a as)
  have "chain m a as n" "a \<noteq> 0" using Cons.prems by (auto simp: seg_ok_def)
  then have "a \<notin> set as" using chain_below [of m a as n a] by auto
  then show ?case using Cons by auto
qed simp

definition allocated :: "(u64 \<rightharpoonup> segment) \<Rightarrow> u64 list \<Rightarrow> (u64 \<times> u64) set" where
  "allocated m as = {(a + HDR, s_length s) | a s. a \<in> set as \<and> m a = Some s \<and> s_free s = 0}"

definition heap_inv :: "hst \<Rightarrow> u64 list \<Rightarrow> bool" where
  "heap_inv h as \<longleftrightarrow> as \<noteq> [] \<and> chain (hdrs h) 0 as 0 \<and> hd as = mainSegment h \<and> last as = lastSegment h
     \<and> (\<exists>s. hdrs h (hd as) = Some s \<and> s_free s = 0) \<and> ready h \<noteq> 0"

lemma heap_inv_chain: "heap_inv h as \<Longrightarrow> chain (hdrs h) 0 as 0"
  by (simp add: heap_inv_def)

text \<open>Two different blocks of a heap do not overlap.\<close>

lemma allocated_disjoint:
  assumes "heap_inv h as" and "(p, l) \<in> allocated (hdrs h) as" and "(q, k) \<in> allocated (hdrs h) as" and "(p, l) \<noteq> (q, k)"
  shows "unat p + unat l \<le> unat q \<or> unat q + unat k \<le> unat p"
proof -
  have ord: "unat y + unat (s_length t) + 96 \<le> unat (x + HDR)"
    if e: "as = xs @ x # ys" and yy: "y \<in> set ys" and t: "hdrs h y = Some t" for xs ys x y t
  proof -
    have x0: "unat (x + HDR) = unat x + 48"
      using heap_inv_chain [OF assms(1)] e by (auto simp: chain_append seg_ok_def)
    obtain us vs where ys: "ys = us @ y # vs" using yy by (auto simp: in_set_conv_decomp)
    have c: "chain (hdrs h) x ys 0" "x \<noteq> 0" using heap_inv_chain [OF assms(1)] e by (auto simp: chain_append seg_ok_def)
    have lz: "last us \<noteq> 0" if "us \<noteq> []"
      using chain_nonzero [OF c(1)] last_in_set [OF that] by (auto simp: ys)
    have y: "unat y + 48 + unat (s_length t) \<le> unat (if us = [] then x else last us)"
      using c t lz by (auto simp: ys chain_append seg_ok_def)
    have "unat (if us = [] then x else last us) \<le> unat x"
      using chain_below [OF c, of "last us"] by (auto simp: ys)
    then show ?thesis using y x0 by simp
  qed
  have hd: "unat (a + HDR) = unat a + 48" if "a \<in> set as" for a
    using that heap_inv_chain [OF assms(1)] by (auto simp: in_set_conv_decomp chain_append seg_ok_def)
  obtain a s b t where a: "p = a + HDR" "l = s_length s" "a \<in> set as" "hdrs h a = Some s"
    and b: "q = b + HDR" "k = s_length t" "b \<in> set as" "hdrs h b = Some t"
    using assms(2,3) by (auto simp: allocated_def)
  have ab: "a \<noteq> b" using assms(4) a b by auto
  obtain xs ys where as: "as = xs @ a # ys" using a(3) by (auto simp: in_set_conv_decomp)
  show ?thesis
  proof (cases "b \<in> set ys")
    case True
    from ord [OF as this b(4)] show ?thesis using hd [OF a(3)] hd [OF b(3)] by (simp add: a b)
  next
    case False
    then obtain us vs where xs: "xs = us @ b # vs" using b(3) ab as by (auto simp: in_set_conv_decomp)
    have "as = us @ b # (vs @ a # ys)" using as xs by simp
    from ord [OF this _ a(4)] show ?thesis using hd [OF a(3)] hd [OF b(3)] by (simp add: a b)
  qed
qed

section \<open>Allocation: behaviour\<close>

lemma chain_nth:
  "chain m p (pre @ a # post) n \<Longrightarrow> \<exists>s. m a = Some s
    \<and> seg_ok a s (if pre = [] then p else last pre) (if post = [] then n else hd post)"
  by (auto simp: chain_append)

text \<open>Changing the next pointer of the predecessor.\<close>

lemma chain_set_next:
  assumes "chain m p as n" and "as \<noteq> []" and "distinct as" and "m (last as) = Some l"
  shows "chain (m(last as \<mapsto> l\<lparr>s_next := n'\<rparr>)) p as n'"
  using assms
proof (induction as arbitrary: p)
  case (Cons a as)
  show ?case
  proof (cases "as = []")
    case True then show ?thesis using Cons.prems by (auto simp: seg_ok_def)
  next
    case False
    then have "a \<noteq> last as" using Cons.prems(3) by auto
    then show ?thesis using Cons False by auto
  qed
qed simp

text \<open>Changing the last pointer and the length of the first segment of a list.\<close>

lemma chain_set_head:
  assumes "chain m p (a # as) n" and "distinct (a # as)" and "m a = Some s"
    and "p' \<noteq> 0 \<Longrightarrow> unat a + 48 + unat l \<le> unat p'" and "unat a + 48 + unat l < 2 ^ 64"
  shows "chain (m(a \<mapsto> s\<lparr>s_last := p', s_length := l\<rparr>)) p' (a # as) n"
proof -
  have "chain (m(a \<mapsto> s\<lparr>s_last := p', s_length := l\<rparr>)) a as n = chain m a as n"
    by (rule chain_cong) (use assms(2) in auto)
  then show ?thesis using assms by (auto simp: seg_ok_def)
qed

lemma get_seg_Some [simp]: "hdrs h a = Some s \<Longrightarrow> get_seg h a = Ok s"
  by (simp add: get_seg_def)

lemma upd_seg_Some [simp]: "hdrs h a = Some s \<Longrightarrow> upd_seg h a f = Ok (h\<lparr>hdrs := (hdrs h)(a \<mapsto> f s)\<rparr>)"
  by (simp add: upd_seg_def)

text \<open>The store after a split of \<open>a\<close>, whose predecessor is \<open>p\<close>.\<close>

definition split_store :: "(u64 \<rightharpoonup> segment) \<Rightarrow> u64 \<Rightarrow> u64 \<Rightarrow> u64 \<Rightarrow> segment \<Rightarrow> segment \<Rightarrow> u64 \<Rightarrow> (u64 \<rightharpoonup> segment)" where
  "split_store m p a new l s sz = m(new \<mapsto> \<lparr>s_free = 1, s_length = sz, s_next = a, s_last = p, s_isStack = 0,
      s_signature = HEAP_SIGNATURE\<rparr>, p \<mapsto> l\<lparr>s_next := new\<rparr>,
      a \<mapsto> s\<lparr>s_last := new, s_length := s_length s - (sz + HDR)\<rparr>)"

lemma split_position:
  assumes ch: "chain m 0 (pre @ a # post) 0" and "pre \<noteq> []" and s: "m a = Some s"
    and big: "s_length s > sz + HDR" and sz: "unat sz < 2 ^ 62"
  defines "new \<equiv> a + s_length s - sz"
  shows "unat new = unat a + unat (s_length s) - unat sz" and "unat sz + 48 < unat (s_length s)"
    and "unat a + 48 < unat new" and "unat new + 48 + unat sz \<le> unat (last pre)" and "new \<notin> set (pre @ a # post)"
proof -
  obtain s' where "m a = Some s'" "seg_ok a s' (last pre) (if post = [] then 0 else hd post)"
    using chain_nth [OF ch] assms(2) by auto
  then have ok: "seg_ok a s (last pre) (if post = [] then 0 else hd post)" using s by simp
  have lp: "last pre \<noteq> 0" using chain_nonzero [OF ch] assms(2) by (metis UnCI last_in_set set_append)
  have sl: "unat (sz + HDR) = unat sz + 48" using sz by simp
  show len: "unat sz + 48 < unat (s_length s)" using big sl by (simp add: word_less_nat_alt)
  have e: "unat a + 48 + unat (s_length s) \<le> unat (last pre)" "unat a + 48 + unat (s_length s) < 2 ^ 64"
    using ok lp by (auto simp: seg_ok_def)
  have al: "unat (a + s_length s) = unat a + unat (s_length s)" using e by simp
  have "sz \<le> a + s_length s" using len al by (simp add: word_le_nat_alt)
  then show new: "unat new = unat a + unat (s_length s) - unat sz" by (simp add: new_def unat_sub_small al)
  show up: "unat a + 48 < unat new" "unat new + 48 + unat sz \<le> unat (last pre)" using new len e by linarith+
  show "new \<notin> set (pre @ a # post)"
  proof
    assume "new \<in> set (pre @ a # post)"
    then consider "new \<in> set pre" | "new = a" | "new \<in> set post" by auto
    then show False using chain_around [OF ch] up by cases fastforce+
  qed
qed

lemma chain_split:
  assumes ch: "chain m 0 (pre @ a # post) 0" and pre: "pre \<noteq> []" and s: "m a = Some s" and l: "m (last pre) = Some l"
    and big: "s_length s > sz + HDR" and sz: "unat sz < 2 ^ 62"
  defines "new \<equiv> a + s_length s - sz"
  shows "chain (split_store m (last pre) a new l s sz) 0 (pre @ new # a # post) 0"
proof -
  note pos = split_position [OF ch pre s big sz, folded new_def]
  have d: "distinct (pre @ a # post)" by (rule chain_distinct [OF ch])
  let ?m = "split_store m (last pre) a new l s sz"
  let ?a = "s\<lparr>s_last := new, s_length := s_length s - (sz + HDR)\<rparr>"
  have parts: "chain m 0 pre a" "chain m (last pre) (a # post) 0" using ch pre by (auto simp: chain_append)
  have lp: "last pre \<noteq> a" "last pre \<notin> set post" "last pre \<noteq> new" "last pre \<in> set pre"
    using d pos(5) pre by (auto dest: last_in_set)
  have c1: "chain ?m 0 pre new"
  proof -
    have "chain (m(last pre \<mapsto> l\<lparr>s_next := new\<rparr>)) 0 pre new"
      by (rule chain_set_next [OF parts(1) pre _ l]) (use d in simp)
    moreover have "chain ?m 0 pre new = chain (m(last pre \<mapsto> l\<lparr>s_next := new\<rparr>)) 0 pre new"
      by (rule chain_cong) (use d pos(5) lp in \<open>auto simp: split_store_def\<close>)
    ultimately show ?thesis by simp
  qed
  have len: "unat (s_length s - (sz + HDR)) = unat (s_length s) - unat sz - 48"
    using big sz by (simp add: unat_sub_small less_imp_le)
  have c2: "chain ?m new (a # post) 0"
  proof -
    have e: "unat a + 48 + unat (s_length s - (sz + HDR)) \<le> unat new"
      unfolding len using pos(1-3) by linarith
    then have "unat a + 48 + unat (s_length s - (sz + HDR)) < 2 ^ 64"
      using unat_u64 [of new] by (simp del: unat_u64)
    then have "chain (m(a \<mapsto> ?a)) new (a # post) 0"
      by (intro chain_set_head [OF parts(2) _ s] e) (use d in auto)
    moreover have "chain ?m new (a # post) 0 = chain (m(a \<mapsto> ?a)) new (a # post) 0"
      by (rule chain_cong) (use d pos(5) lp in \<open>auto simp: split_store_def\<close>)
    ultimately show ?thesis by simp
  qed
  have n: "?m new = Some \<lparr>s_free = 1, s_length = sz, s_next = a, s_last = last pre, s_isStack = 0, s_signature = HEAP_SIGNATURE\<rparr>"
    using lp pos(5) by (simp add: split_store_def)
  have "new \<noteq> 0" using pos(3) by auto
  moreover have "unat new + 48 + unat sz < 2 ^ 64"
    using pos(4) unat_u64 [of "last pre"] by (simp del: unat_u64)
  ultimately show ?thesis using c1 c2 n pos(4) pre by (auto simp: chain_append seg_ok_def)
qed

lemma chain_set_free:
  "m a = Some s \<Longrightarrow> chain (m(a \<mapsto> s\<lparr>s_free := v\<rparr>)) p as n = chain m p as n"
  by (induction as arbitrary: p) (auto simp: seg_ok_def)

lemma splitSegment_eq:
  assumes ch: "chain (hdrs h) 0 (pre @ a # post) 0" and pre: "pre \<noteq> []" and s: "hdrs h a = Some s"
    and l: "hdrs h (last pre) = Some l" and big: "s_length s > sz + HDR" and sz: "unat sz < 2 ^ 62"
    and lst: "last (a # post) = lastSegment h"
  shows "splitSegment h a sz = Ok (Some (a + s_length s - sz),
    h\<lparr>hdrs := split_store (hdrs h) (last pre) a (a + s_length s - sz) l s sz\<rparr>)"
proof -
  let ?new = "a + s_length s - sz"
  note pos = split_position [OF ch pre s big sz]
  obtain s' where "hdrs h a = Some s'" "seg_ok a s' (last pre) (if post = [] then 0 else hd post)"
    using chain_nth [OF ch] pre by auto
  then have ok: "s_signature s = HEAP_SIGNATURE" "s_last s = last pre" "s_next s = (if post = [] then 0 else hd post)"
    using s by (auto simp: seg_ok_def)
  have d: "distinct (pre @ a # post)" by (rule chain_distinct [OF ch])
  have ne: "last pre \<noteq> ?new" "a \<noteq> ?new" "a \<noteq> last pre" "last pre \<noteq> 0"
  proof -
    have lp: "last pre \<in> set pre" using pre by simp
    show "a \<noteq> ?new" using pos(5) by auto
    show "last pre \<noteq> ?new" using pos(5) lp by (metis UnCI set_append)
    show "a \<noteq> last pre" using d lp by auto
    show "last pre \<noteq> 0" using chain_nonzero [OF ch] lp by (metis UnCI set_append)
  qed
  have "0 \<notin> set post" using chain_nonzero [OF ch] by auto
  then have z: "s_next s = 0 \<Longrightarrow> lastSegment h = a"
    using ok(3) lst by (cases post) auto
  have "\<not> s_length s \<le> sz + HDR" using big by simp
  then show ?thesis
    using s l ok(1,2) ne z
    by (auto simp: splitSegment_def Let_def put_seg_def split_store_def)
qed

lemma allocated_free_update:
  assumes "m a = Some s" and "a \<in> set as"
  shows "allocated (m(a \<mapsto> s\<lparr>s_free := v\<rparr>)) as =
    (if v = 0 then insert (a + HDR, s_length s) (allocated m as)
     else {x \<in> allocated m as. fst x \<noteq> a + HDR})"
  using assms by (auto simp: allocated_def split: if_splits)

lemma allocated_split:
  assumes "new \<notin> set (pre @ a # post)" and "m a = Some s" and "s_free s \<noteq> 0" and "m (last pre) = Some l"
    and "pre \<noteq> []" and "last pre \<noteq> a"
  shows "allocated (split_store m (last pre) a new l s sz) (pre @ new # a # post) = allocated m (pre @ a # post)"
proof -
  have lp: "last pre \<in> set pre" using assms(5) by simp
  then have ln: "last pre \<noteq> new" using assms(1) by auto
  show ?thesis (is "?L = ?R")
  proof
    show "?L \<subseteq> ?R"
      using assms lp ln by (fastforce simp: allocated_def split_store_def split: if_splits)
    show "?R \<subseteq> ?L"
    proof
      fix x assume "x \<in> ?R"
      then obtain b t where b: "x = (b + HDR, s_length t)" "b \<in> set (pre @ a # post)" "m b = Some t" "s_free t = 0"
        by (auto simp: allocated_def)
      have "b \<noteq> new" "b \<noteq> a" using b assms by auto
      then have "\<exists>t'. split_store m (last pre) a new l s sz b = Some t' \<and> s_free t' = 0 \<and> s_length t' = s_length t"
        using b assms(4) by (auto simp: split_store_def)
      then show "x \<in> ?L" using b by (auto simp: allocated_def)
    qed
  qed
qed

definition fits :: "segment \<Rightarrow> u64 \<Rightarrow> bool" where
  "fits s sz \<longleftrightarrow> s_free s \<noteq> 0 \<and> (s_length s > sz + HDR \<or> s_length s = sz)"

text \<open>What a successful allocation did to the heap: a new block, nothing else.\<close>

definition alloc_step :: "hst \<Rightarrow> u64 list \<Rightarrow> u64 \<Rightarrow> u64 \<Rightarrow> hst \<Rightarrow> u64 list \<Rightarrow> bool" where
  "alloc_step h as ptr sz h' as' \<longleftrightarrow> heap_inv h' as' \<and> (ptr, sz) \<notin> allocated (hdrs h) as
     \<and> allocated (hdrs h') as' = insert (ptr, sz) (allocated (hdrs h) as)
     \<and> usedSize h' = usedSize h + (sz + HDR) \<and> freeSize h' = freeSize h - (sz + HDR) \<and> ptr \<noteq> 0
     \<and> hvm h' = hvm h \<and> bytes h' = bytes h \<and> heapEnd h' = heapEnd h"

lemma block_unique:
  assumes "chain m 0 as 0" and "a \<in> set as" and "m a = Some s" and "s_free s \<noteq> 0"
  shows "(a + HDR, k) \<notin> allocated m as"
  using assms by (auto simp: allocated_def)

lemma take_fit_exact:
  assumes inv: "heap_inv h as" and a: "a \<in> set as" "a \<noteq> hd as" and s: "hdrs h a = Some s" "s_free s \<noteq> 0"
  obtains h' where "take_segment h a = Ok (a + HDR, h')" and "alloc_step h as (a + HDR) (s_length s) h' as"
proof -
  let ?h = "h\<lparr>hdrs := (hdrs h)(a \<mapsto> s\<lparr>s_free := 0\<rparr>), usedSize := usedSize h + (s_length s + HDR),
      freeSize := freeSize h - (s_length s + HDR)\<rparr>"
  have ch: "chain (hdrs h) 0 as 0" by (rule heap_inv_chain [OF inv])
  have "heap_inv ?h as" using inv a(2) s chain_set_free [of "hdrs h" a s 0 0 as 0] by (auto simp: heap_inv_def)
  moreover have "a + HDR \<noteq> 0"
  proof -
    have "unat a + 48 < 2 ^ 64" using ch a(1) by (auto simp: in_set_conv_decomp chain_append seg_ok_def)
    then have "unat (a + HDR) = unat a + 48" by simp
    then show ?thesis by (auto simp: word_zero_iff_unat)
  qed
  ultimately have "alloc_step h as (a + HDR) (s_length s) ?h as"
    using block_unique [OF ch a(1) s] allocated_free_update [where m = "hdrs h" and a = a and v = 0, OF s(1) a(1)]
    by (simp add: alloc_step_def)
  moreover have "take_segment h a = Ok (a + HDR, ?h)" using s by (simp add: take_segment_def)
  ultimately show thesis by (rule that [rotated])
qed

lemma take_fit_split:
  assumes inv: "heap_inv h (pre @ a # post)" and pre: "pre \<noteq> []" and s: "hdrs h a = Some s" "s_free s \<noteq> 0"
    and big: "s_length s > sz + HDR" and sz: "unat sz < 2 ^ 62"
  obtains new h1 h' as' where "splitSegment h a sz = Ok (Some new, h1)" and "take_segment h1 new = Ok (new + HDR, h')"
    and "alloc_step h (pre @ a # post) (new + HDR) sz h' as'"
proof -
  have ch: "chain (hdrs h) 0 (pre @ a # post) 0" by (rule heap_inv_chain [OF inv])
  have d: "distinct (pre @ a # post)" by (rule chain_distinct [OF ch])
  have lpin: "last pre \<in> set pre" using pre by simp
  obtain l where l: "hdrs h (last pre) = Some l"
    using ch lpin by (metis (no_types, lifting) UnCI chain_nth in_set_conv_decomp set_append)
  let ?new = "a + s_length s - sz"
  note pos = split_position [OF ch pre s(1) big sz]
  have la: "last pre \<noteq> a" using d lpin by auto
  have lst: "last (a # post) = lastSegment h" using inv by (simp add: heap_inv_def)
  let ?m = "split_store (hdrs h) (last pre) a ?new l s sz"
  let ?h = "h\<lparr>hdrs := ?m\<rparr>" and ?as = "pre @ ?new # a # post"
  have eq: "splitSegment h a sz = Ok (Some ?new, ?h)"
    by (rule splitSegment_eq [OF ch pre s(1) l big sz lst])
  have al: "allocated ?m ?as = allocated (hdrs h) (pre @ a # post)"
    by (rule allocated_split [OF pos(5) s l pre la])
  have hdp: "hd pre \<in> set pre" using pre by simp
  have inv1: "heap_inv ?h ?as"
  proof -
    obtain t where t: "hdrs h (hd pre) = Some t" "s_free t = 0" using inv pre by (auto simp: heap_inv_def)
    have "hd pre \<noteq> a" "hd pre \<noteq> ?new" using d hdp pos(5) by auto
    then have "\<exists>t. ?m (hd pre) = Some t \<and> s_free t = 0" using t l by (auto simp: split_store_def)
    then show ?thesis using inv pre chain_split [OF ch pre s(1) l big sz] by (auto simp: heap_inv_def)
  qed
  let ?n = "\<lparr>s_free = 1, s_length = sz, s_next = a, s_last = last pre, s_isStack = 0, s_signature = HEAP_SIGNATURE\<rparr>"
  have n: "hdrs ?h ?new = Some ?n" using pos(5) lpin by (auto simp: split_store_def)
  have nh: "?new \<noteq> hd ?as" using pos(5) hdp pre by auto
  obtain h' where h': "take_segment ?h ?new = Ok (?new + HDR, h')" "alloc_step ?h ?as (?new + HDR) (s_length ?n) h' ?as"
    by (rule take_fit_exact [OF inv1 _ nh n]) auto
  have "alloc_step h (pre @ a # post) (?new + HDR) sz h' ?as"
    using h'(2) al by (simp add: alloc_step_def)
  then show thesis by (rule that [OF eq h'(1)])
qed

lemma malloc_scan_spec:
  assumes inv: "heap_inv h as" and sz: "0 < unat sz" "unat sz < 2 ^ 62"
    and "as = pre @ rest" and "rest \<noteq> []" and "length rest \<le> fuel"
  shows "(\<exists>ptr h' as'. malloc_scan fuel h (hd rest) sz = Ok (Some (ptr, h')) \<and> alloc_step h as ptr sz h' as')
    \<or> malloc_scan fuel h (hd rest) sz = Ok None \<and> (\<forall>a \<in> set rest. \<forall>s. hdrs h a = Some s \<longrightarrow> \<not> fits s sz)"
  using assms(4-)
proof (induction rest arbitrary: pre fuel)
  case (Cons a post)
  obtain f where f: "fuel = Suc f" using Cons.prems(3) by (cases fuel) auto
  have ch: "chain (hdrs h) 0 (pre @ a # post) 0" using heap_inv_chain [OF inv] Cons.prems(1) by simp
  obtain s where s: "hdrs h a = Some s" and ok: "seg_ok a s (if pre = [] then 0 else last pre) (if post = [] then 0 else hd post)"
    using chain_nth [OF ch] by auto
  have sig: "s_signature s = HEAP_SIGNATURE" and nx: "s_next s = (if post = [] then 0 else hd post)"
    using ok by (auto simp: seg_ok_def)
  show ?case
  proof (cases "fits s sz")
    case True
    then have fr: "s_free s \<noteq> 0" by (simp add: fits_def)
    have pre: "pre \<noteq> []" using inv Cons.prems(1) s fr by (auto simp: heap_inv_def)
    show ?thesis
    proof (cases "s_length s > sz + HDR")
      case True
      obtain new h1 h' as' where "splitSegment h a sz = Ok (Some new, h1)" "take_segment h1 new = Ok (new + HDR, h')"
        "alloc_step h as (new + HDR) sz h' as'"
        using take_fit_split [OF inv [unfolded Cons.prems(1)] pre s fr True sz(2)] Cons.prems(1) by metis
      then show ?thesis using True s sig fr f by auto
    next
      case False
      then have e: "s_length s = sz" using \<open>fits s sz\<close> by (simp add: fits_def)
      have "hd as \<in> set pre" using Cons.prems(1) pre by simp
      then have "a \<noteq> hd as" using chain_distinct [OF ch] by auto
      then obtain h' where "take_segment h a = Ok (a + HDR, h')" "alloc_step h as (a + HDR) sz h' as"
        using take_fit_exact [OF inv _ _ s fr] e Cons.prems(1) by (metis in_set_conv_decomp)
      then show ?thesis using False e s sig fr f by auto
    qed
  next
    case False
    then have nf: "\<not> (s_free s \<noteq> 0 \<and> s_length s > sz + HDR)" "\<not> (s_free s \<noteq> 0 \<and> s_length s = sz)"
      by (auto simp: fits_def)
    show ?thesis
    proof (cases "post = []")
      case True
      then show ?thesis using f s sig nx nf False by auto
    next
      case ne: False
      have nz: "hd post \<noteq> 0" "hd post \<noteq> a"
        using chain_nonzero [OF ch] chain_distinct [OF ch] hd_in_set [OF ne] by auto
      have "malloc_scan fuel h (hd (a # post)) sz = malloc_scan f h (hd post) sz"
        using f s sig nx nf ne nz by auto
      then show ?thesis
        using Cons.IH [of "pre @ [a]" f] Cons.prems f ne s False by auto
    qed
  qed
qed simp

lemma round_up_nat:
  assumes "n mod 16 \<noteq> (0 :: nat)"
  shows "n - n mod 16 + 16 = (n + 15) div 16 * 16"
proof -
  define q r where "q = n div 16" and "r = n mod 16"
  have n: "n = r + 16 * q" and r: "0 < r" "r < 16" using assms by (simp_all add: q_def r_def)
  have "(n + 15) div 16 = (r + 15 + 16 * q) div 16" by (simp add: n)
  also have "\<dots> = q + (r + 15) div 16" by (rule div_mult_self2) simp
  also have "(r + 15) div 16 = 1" by (rule div_nat_eqI) (use r in simp_all)
  finally have "(n + 15) div 16 * 16 = q * 16 + 16" by simp
  then show ?thesis unfolding r_def [symmetric] using n by linarith
qed

lemma round_up_nat_0:
  assumes "n mod 16 = (0 :: nat)"
  shows "(n + 15) div 16 * 16 = n"
proof -
  define q where "q = n div 16"
  have n: "n = 16 * q" using assms mult_div_mod_eq [of 16 n] by (simp only: q_def add_0_right)
  have "(15 + 16 * q) div 16 = q + 15 div 16" by (rule div_mult_self2) simp
  then show ?thesis by (simp add: n add.commute)
qed

lemma round_up_16: "unat sz < 2 ^ 61 \<Longrightarrow> unat (round_up sz 0x10) = (unat sz + 15) div 16 * 16"
proof -
  assume b: "unat sz < 2 ^ 61"
  have m: "unat (sz mod 0x10) = unat sz mod 16" by (simp add: unat_mod_distrib)
  have z: "sz mod 0x10 > 0 \<longleftrightarrow> unat sz mod 16 \<noteq> 0" by (simp add: word_less_nat_alt m)
  have d: "unat (sz - sz mod 0x10) = unat sz - unat sz mod 16"
    using m by (simp add: unat_sub_small word_le_nat_alt)
  have d2: "unat (sz - sz mod 0x10 + 0x10) = unat sz - unat sz mod 16 + 16"
    using b d by (subst unat_add_small) auto
  show ?thesis
  proof (cases "unat sz mod 16 = 0")
    case True then show ?thesis using z by (simp add: round_up_def round_up_nat_0)
  next
    case False
    then have "round_up sz 0x10 = sz - sz mod 0x10 + 0x10" using z by (simp add: round_up_def)
    moreover have "unat sz - unat sz mod 16 + 16 = (unat sz + 15) div 16 * 16" by (rule round_up_nat [OF False])
    ultimately show ?thesis using d2 by simp
  qed
qed

text \<open>C6: first fit. When some free segment has room, \<open>_malloc\<close> returns the address of a new block of the rounded
  size: the segment list stays well formed, the set of allocated blocks gains exactly this block (so,
  by the order of the list, it overlaps no other), the counters move by the block with its header, and
  no page is requested.\<close>

theorem malloc_fits:
  assumes "heap_inv h as" and "0 < unat sz" and "unat sz < 2 ^ 61" and "length as \<le> scan"
    and "\<exists>a \<in> set as. \<exists>s. hdrs h a = Some s \<and> fits s (round_up sz 0x10)"
  shows "\<exists>ptr h' as'. malloc scan h pml4 sz = Ok (ptr, h') \<and> alloc_step h as ptr (round_up sz 0x10) h' as'"
proof -
  let ?sz = "round_up sz 0x10"
  have r: "unat ?sz = (unat sz + 15) div 16 * 16" by (rule round_up_16 [OF assms(3)])
  have b: "0 < unat ?sz" "unat ?sz < 2 ^ 62" using assms(2,3) unfolding r by auto
  have ne: "as \<noteq> []" "hd as = mainSegment h" "ready h \<noteq> 0" using assms(1) by (auto simp: heap_inv_def)
  have "\<exists>ptr h' as'. malloc_scan scan h (hd as) ?sz = Ok (Some (ptr, h')) \<and> alloc_step h as ptr ?sz h' as'"
    using malloc_scan_spec [OF assms(1) b, of "[]" as scan] assms(4,5) ne by auto
  then obtain ptr h' as' where m: "malloc_scan scan h (mainSegment h) ?sz = Ok (Some (ptr, h'))" "alloc_step h as ptr ?sz h' as'"
    using ne by auto
  have "sz \<noteq> 0" using assms(2) by auto
  then have "malloc scan h pml4 sz = Ok (ptr, h')"
    using m(1) ne by (simp add: malloc_def eval_nat_numeral Let_def)
  then show ?thesis using m(2) by blast
qed

section \<open>Release: behaviour\<close>

text \<open>Both merge functions remove the upper (\<open>x\<close>) of two neighbouring segments and give its bytes to the lower
  one (\<open>y\<close>).\<close>

definition absorb :: "(u64 \<rightharpoonup> segment) \<Rightarrow> u64 \<Rightarrow> segment \<Rightarrow> u64 \<Rightarrow> segment \<Rightarrow> u64 \<Rightarrow> segment \<Rightarrow> (u64 \<rightharpoonup> segment)" where
  "absorb m p l x sx y sy = m(y \<mapsto> sy\<lparr>s_length := s_length sy + (s_length sx + HDR), s_last := p\<rparr>,
      p \<mapsto> l\<lparr>s_next := y\<rparr>, x \<mapsto> zero_segment)"

lemma chain_absorb:
  assumes ch: "chain m 0 (pre @ x # y # post) 0" and pre: "pre \<noteq> []"
    and s: "m (last pre) = Some l" "m x = Some sx" "m y = Some sy"
  shows "chain (absorb m (last pre) l x sx y sy) 0 (pre @ y # post) 0"
proof -
  let ?m = "absorb m (last pre) l x sx y sy"
  let ?y = "sy\<lparr>s_length := s_length sy + (s_length sx + HDR), s_last := last pre\<rparr>"
  have d: "distinct (pre @ x # y # post)" by (rule chain_distinct [OF ch])
  have lp: "last pre \<in> set pre" using pre by simp
  have lp0: "last pre \<noteq> 0" using chain_nonzero [OF ch] lp by (metis UnCI set_append)
  have ne: "last pre \<noteq> x" "last pre \<noteq> y" "last pre \<notin> set post" using d lp by auto
  have parts: "chain m 0 pre x" "chain m x (y # post) 0" using ch pre by (auto simp: chain_append)
  have x: "unat x + 48 + unat (s_length sx) \<le> unat (last pre)" "x \<noteq> 0"
    using ch pre s lp0 by (auto simp: chain_append seg_ok_def)
  have y: "unat y + 48 + unat (s_length sy) \<le> unat x" using parts(2) s x(2) by (auto simp: seg_ok_def)
  have lpb: "unat (last pre) < 2 ^ 64" using unat_u64 [of "last pre"] by (simp del: unat_u64)
  have len: "unat (s_length sy + (s_length sx + HDR)) = unat (s_length sy) + (unat (s_length sx) + 48)"
  proof -
    have "unat (s_length sx) + 48 < 2 ^ 64" using x lpb by linarith
    then have "unat (s_length sx + HDR) = unat (s_length sx) + 48" by simp
    moreover have "unat (s_length sy) + (unat (s_length sx) + 48) < 2 ^ 64" using x y lpb by linarith
    ultimately show ?thesis by (subst unat_add_small) simp_all
  qed
  have e: "unat y + 48 + unat (s_length sy + (s_length sx + HDR)) \<le> unat (last pre)" unfolding len using x y by linarith
  then have e': "unat y + 48 + unat (s_length sy + (s_length sx + HDR)) < 2 ^ 64" using lpb by linarith
  have "chain (m(last pre \<mapsto> l\<lparr>s_next := y\<rparr>)) 0 pre y"
    by (rule chain_set_next [OF parts(1) pre _ s(1)]) (use d in simp)
  moreover have "chain ?m 0 pre y = chain (m(last pre \<mapsto> l\<lparr>s_next := y\<rparr>)) 0 pre y"
    by (rule chain_cong) (use d in \<open>auto simp: absorb_def\<close>)
  ultimately have c1: "chain ?m 0 pre y" by simp
  have "chain (m(y \<mapsto> sy\<lparr>s_last := last pre, s_length := s_length sy + (s_length sx + HDR)\<rparr>)) (last pre) (y # post) 0"
    by (rule chain_set_head [OF parts(2) _ s(3) e e']) (use d in simp)
  moreover have "chain ?m (last pre) (y # post) 0 =
      chain (m(y \<mapsto> sy\<lparr>s_last := last pre, s_length := s_length sy + (s_length sx + HDR)\<rparr>)) (last pre) (y # post) 0"
    by (rule chain_cong) (use d ne in \<open>auto simp: absorb_def\<close>)
  ultimately show ?thesis using c1 pre by (simp add: chain_append)
qed

lemma allocated_absorb:
  assumes "distinct (pre @ x # y # post)" and "m (last pre) = Some l" and "m x = Some sx" and "m y = Some sy"
    and "s_free sx \<noteq> 0" and "s_free sy \<noteq> 0" and "pre \<noteq> []"
  shows "allocated (absorb m (last pre) l x sx y sy) (pre @ y # post) = allocated m (pre @ x # y # post)"
proof -
  let ?m = "absorb m (last pre) l x sx y sy"
  have "last pre \<in> set pre" using assms(7) by simp
  then have ne: "last pre \<noteq> x" "last pre \<noteq> y" using assms(1) by auto
  have same: "(\<exists>s. ?m b = Some s \<and> s_free s = 0 \<and> s_length s = k) \<longleftrightarrow> (\<exists>s. m b = Some s \<and> s_free s = 0 \<and> s_length s = k)"
    if "b \<in> set (pre @ y # post)" for b k
    using that assms ne by (auto simp: absorb_def)
  show ?thesis (is "?L = ?R")
  proof (intro set_eqI)
    fix z
    have "z \<in> ?L \<longleftrightarrow> (\<exists>b \<in> set (pre @ y # post). \<exists>k. z = (b + HDR, k) \<and> (\<exists>s. ?m b = Some s \<and> s_free s = 0 \<and> s_length s = k))"
      unfolding allocated_def by blast
    also have "\<dots> \<longleftrightarrow> (\<exists>b \<in> set (pre @ y # post). \<exists>k. z = (b + HDR, k) \<and> (\<exists>s. m b = Some s \<and> s_free s = 0 \<and> s_length s = k))"
      using same by (metis (no_types, lifting))
    also have "\<dots> \<longleftrightarrow> z \<in> ?R" using assms(3,5) by (auto simp: allocated_def)
    finally show "z \<in> ?L \<longleftrightarrow> z \<in> ?R" .
  qed
qed

lemma absorb_inv:
  assumes inv: "heap_inv h (pre @ x # y # post)" and pre: "pre \<noteq> []"
    and s: "hdrs h (last pre) = Some l" "hdrs h x = Some sx" "hdrs h y = Some sy" and fr: "s_free sx \<noteq> 0" "s_free sy \<noteq> 0"
  defines "h' \<equiv> h\<lparr>hdrs := absorb (hdrs h) (last pre) l x sx y sy\<rparr>"
  shows "heap_inv h' (pre @ y # post)" and "allocated (hdrs h') (pre @ y # post) = allocated (hdrs h) (pre @ x # y # post)"
proof -
  have ch: "chain (hdrs h) 0 (pre @ x # y # post) 0" by (rule heap_inv_chain [OF inv])
  have d: "distinct (pre @ x # y # post)" by (rule chain_distinct [OF ch])
  have hp: "hd pre \<in> set pre" using pre by simp
  obtain t where t: "hdrs h (hd pre) = Some t" "s_free t = 0" using inv pre by (auto simp: heap_inv_def)
  have "hd pre \<noteq> x" "hd pre \<noteq> y" using d hp by auto
  then have "\<exists>t. hdrs h' (hd pre) = Some t \<and> s_free t = 0" using t s by (auto simp: absorb_def h'_def)
  then show "heap_inv h' (pre @ y # post)"
    using inv pre chain_absorb [OF ch pre s] by (auto simp: heap_inv_def h'_def)
  show "allocated (hdrs h') (pre @ y # post) = allocated (hdrs h) (pre @ x # y # post)"
    unfolding h'_def using allocated_absorb [OF d s fr pre] by simp
qed

lemma chain_neighbours:
  assumes "heap_inv h (pre @ x # y # post)" and "pre \<noteq> []"
  obtains l sx sy where "hdrs h (last pre) = Some l" and "hdrs h x = Some sx" and "hdrs h y = Some sy"
    and "s_last sx = last pre" and "s_next sx = y" and "s_last sy = x" and "x \<noteq> 0" and "y \<noteq> 0" and "last pre \<noteq> 0"
    and "last pre \<noteq> x" and "last pre \<noteq> y" and "x \<noteq> y"
proof -
  have ch: "chain (hdrs h) 0 (pre @ x # y # post) 0" by (rule heap_inv_chain [OF assms(1)])
  have d: "distinct (pre @ x # y # post)" by (rule chain_distinct [OF ch])
  have lp: "last pre \<in> set pre" using assms(2) by simp
  then obtain us vs where pre: "pre = us @ last pre # vs" by (metis in_set_conv_decomp)
  have "chain (hdrs h) 0 (us @ last pre # (vs @ x # y # post)) 0" using ch pre by (metis append.assoc append_Cons)
  then obtain l where l: "hdrs h (last pre) = Some l" using chain_nth by blast
  have lp0: "last pre \<noteq> 0" using chain_nonzero [OF ch] lp by (metis UnCI set_append)
  obtain sx sy where s: "hdrs h x = Some sx" "hdrs h y = Some sy" "seg_ok x sx (last pre) y"
    "seg_ok y sy x (if post = [] then 0 else hd post)"
    using ch assms(2) by (auto simp: chain_append)
  have "last pre \<noteq> x" "last pre \<noteq> y" "x \<noteq> y" using d lp by auto
  with s l lp0 show thesis by (intro that [of l sx sy]) (simp_all add: seg_ok_def)
qed

text \<open>The two merges as steps of the list. \<open>merged\<close> says what a merge may do to a heap.\<close>

definition merged :: "hst \<Rightarrow> u64 list \<Rightarrow> hst \<Rightarrow> u64 list \<Rightarrow> bool" where
  "merged h as h' as' \<longleftrightarrow> heap_inv h' as' \<and> allocated (hdrs h') as' = allocated (hdrs h) as
     \<and> usedSize h' = usedSize h \<and> freeSize h' = freeSize h"

lemma merged_refl: "heap_inv h as \<Longrightarrow> merged h as h as"
  by (simp add: merged_def)

lemma merged_trans: "merged h as h1 as1 \<Longrightarrow> merged h1 as1 h2 as2 \<Longrightarrow> merged h as h2 as2"
  by (simp add: merged_def)

lemma MergeThisToNext_step:
  assumes inv: "heap_inv h (pre @ x # y # post)" and pre: "pre \<noteq> []"
    and s: "hdrs h x = Some sx" "hdrs h y = Some sy" and fr: "s_free sx \<noteq> 0" "s_free sy \<noteq> 0"
  shows "\<exists>h'. MergeThisToNext h x = Ok h' \<and> merged h (pre @ x # y # post) h' (pre @ y # post)"
proof -
  obtain l where l: "hdrs h (last pre) = Some l" "s_last sx = last pre" "s_next sx = y" "last pre \<noteq> y" "x \<noteq> y" "last pre \<noteq> x"
    using chain_neighbours [OF inv pre] s by (metis option.inject)
  let ?h = "h\<lparr>hdrs := absorb (hdrs h) (last pre) l x sx y sy\<rparr>"
  have "MergeThisToNext h x = Ok ?h"
    using l s by (simp add: MergeThisToNext_def put_seg_def absorb_def)
  then show ?thesis using absorb_inv [OF inv pre l(1) s fr] by (simp add: merged_def)
qed

lemma MergeLastToThis_step:
  assumes inv: "heap_inv h (pre @ x # y # post)" and pre: "pre \<noteq> []"
    and s: "hdrs h x = Some sx" "hdrs h y = Some sy" and fr: "s_free sx \<noteq> 0" "s_free sy \<noteq> 0"
  shows "\<exists>h' sy'. MergeLastToThis h y = Ok h' \<and> merged h (pre @ x # y # post) h' (pre @ y # post)
    \<and> hdrs h' y = Some sy' \<and> s_free sy' = s_free sy \<and> (\<forall>b \<in> set post. hdrs h' b = hdrs h b)"
proof -
  have d: "distinct (pre @ x # y # post)" by (rule chain_distinct [OF heap_inv_chain [OF inv]])
  obtain l where l: "hdrs h (last pre) = Some l" "s_last sx = last pre" "s_last sy = x" "last pre \<noteq> y" "x \<noteq> y" "last pre \<noteq> x"
    using chain_neighbours [OF inv pre] s by (metis option.inject)
  let ?h = "h\<lparr>hdrs := absorb (hdrs h) (last pre) l x sx y sy\<rparr>"
  have "MergeLastToThis h y = Ok ?h"
    using l s by (simp add: MergeLastToThis_def put_seg_def absorb_def Let_def)
  moreover have "hdrs ?h b = hdrs h b" if "b \<in> set post" for b
    using that d last_in_set [OF pre] by (auto simp: absorb_def)
  moreover have "merged h (pre @ x # y # post) ?h (pre @ y # post)"
    using absorb_inv [OF inv pre l(1) s fr] by (simp add: merged_def)
  moreover have "hdrs ?h y = Some (sy\<lparr>s_length := s_length sy + (s_length sx + HDR), s_last := last pre\<rparr>)"
    using l by (simp add: absorb_def)
  ultimately show ?thesis
    by (intro exI [of _ ?h] exI [of _ "sy\<lparr>s_length := s_length sy + (s_length sx + HDR), s_last := last pre\<rparr>"]) simp
qed

lemma heap_inv_main_used:
  assumes "heap_inv h (x # ys)" and "hdrs h x = Some s"
  shows "s_free s = 0"
  using assms by (auto simp: heap_inv_def)

lemma seg_free_Some [simp]: "hdrs h a = Some s \<Longrightarrow> a \<noteq> 0 \<Longrightarrow> seg_free h a = Ok (s_free s \<noteq> 0)"
  by (simp add: seg_free_def)

lemma seg_free_0 [simp]: "seg_free h 0 = Ok False"
  by (simp add: seg_free_def)

text \<open>What follows the marking in \<open>_free\<close>.\<close>

definition coalesce :: "hst \<Rightarrow> u64 \<Rightarrow> segment \<Rightarrow> hst result" where
  "coalesce h header s = rbind (seg_free h (s_next s)) (\<lambda>nf.
      rbind (seg_free h (s_last s)) (\<lambda>lf.
      if s_next s \<noteq> 0 \<and> s_last s \<noteq> 0 \<and> nf \<and> lf then MergeLastAndThisToNext h header
      else if s_last s \<noteq> 0 \<and> lf then MergeLastToThis h header
      else if s_next s \<noteq> 0 \<and> nf then MergeThisToNext h header
      else Ok h))"

lemma coalesce_step:
  assumes inv: "heap_inv h (us @ c # a # post)" and a: "hdrs h a = Some s" "s_free s \<noteq> 0"
  shows "\<exists>h' as'. coalesce h a s = Ok h' \<and> merged h (us @ c # a # post) h' as'"
proof -
  have ch: "chain (hdrs h) 0 (us @ c # a # post) 0" by (rule heap_inv_chain [OF inv])
  obtain sc where c: "hdrs h c = Some sc" "c \<noteq> 0" "s_last s = c" and nx: "s_next s = (if post = [] then 0 else hd post)"
    using ch a by (auto simp: chain_append seg_ok_def)
  have us: "us \<noteq> []" if "s_free sc \<noteq> 0"
    using that heap_inv_main_used [of h c "a # post"] inv c(1) by auto
  show ?thesis
  proof (cases post)
    case Nil
    then have n0: "s_next s = 0" using nx by simp
    show ?thesis
    proof (cases "s_free sc = 0")
      case True then show ?thesis using n0 c merged_refl [OF inv] by (auto simp: coalesce_def)
    next
      case False
      from MergeLastToThis_step [OF inv us [OF False] c(1) a(1) False a(2)]
      show ?thesis using n0 c False by (auto simp: coalesce_def)
    qed
  next
    case (Cons b ps)
    have inv': "heap_inv h ((us @ [c]) @ a # b # ps)" using inv Cons by simp
    obtain sb where b: "hdrs h b = Some sb" "b \<noteq> 0" using ch Cons by (auto simp: chain_append seg_ok_def)
    have nb: "s_next s = b" using nx Cons by simp
    show ?thesis
    proof (cases "s_free sc = 0")
      case True
      show ?thesis
      proof (cases "s_free sb = 0")
        case True then show ?thesis using \<open>s_free sc = 0\<close> nb b c merged_refl [OF inv] by (auto simp: coalesce_def)
      next
        case False
        from MergeThisToNext_step [OF inv' _ a(1) b(1) a(2) False]
        show ?thesis using \<open>s_free sc = 0\<close> nb b c False Cons by (auto simp: coalesce_def)
      qed
    next
      case False
      note lastfree = False
      obtain h1 s1 where 1: "MergeLastToThis h a = Ok h1" "merged h (us @ c # a # post) h1 (us @ a # post)"
        "hdrs h1 a = Some s1" "s_free s1 = s_free s" "\<forall>x \<in> set post. hdrs h1 x = hdrs h x"
        using MergeLastToThis_step [OF inv us [OF False] c(1) a(1) False a(2)] by blast
      show ?thesis
      proof (cases "s_free sb = 0")
        case True then show ?thesis using 1 lastfree nb b c by (auto simp: coalesce_def)
      next
        case False
        have i1: "heap_inv h1 (us @ a # b # ps)" using 1(2) Cons by (simp add: merged_def)
        have b1: "hdrs h1 b = Some sb" using 1(5) b Cons by simp
        obtain h2 where h2: "MergeThisToNext h1 a = Ok h2" "merged h1 (us @ a # b # ps) h2 (us @ b # ps)"
          using MergeThisToNext_step [OF i1 us [OF lastfree] 1(3) b1 _ False] 1(4) a(2) by auto
        have "merged h (us @ c # a # post) h2 (us @ b # ps)"
          by (rule merged_trans [OF 1(2)]) (use h2(2) Cons in simp)
        moreover have "coalesce h a s = Ok h2"
          using 1(1) h2(1) lastfree False nb b c by (simp add: coalesce_def MergeLastAndThisToNext_def)
        ultimately show ?thesis by blast
      qed
    qed
  qed
qed

text \<open>C7: freeing a block of a well-formed heap returns and removes exactly this block from the set of
  allocated blocks; the segment list stays well formed whatever the neighbours are (merged with the
  one above, the one below, both or none), and the counters move by the block with its header.\<close>

theorem heap_free_block:
  assumes inv: "heap_inv h as" and blk: "(p, l) \<in> allocated (hdrs h) as" and main: "p \<noteq> mainSegment h + HDR" and "p \<noteq> 0"
  shows "\<exists>h' as'. heap_free h p = Ok h' \<and> heap_inv h' as' \<and> allocated (hdrs h') as' = allocated (hdrs h) as - {(p, l)}
    \<and> usedSize h' = usedSize h - (l + HDR) \<and> freeSize h' = freeSize h + (l + HDR)"
proof -
  obtain a s where a: "p = a + HDR" "l = s_length s" "a \<in> set as" "hdrs h a = Some s" "s_free s = 0"
    using blk by (auto simp: allocated_def)
  have ch: "chain (hdrs h) 0 as 0" by (rule heap_inv_chain [OF inv])
  have ah: "a \<noteq> hd as" using main a(1) inv by (auto simp: heap_inv_def)
  obtain pre post where as: "as = pre @ a # post" using a(3) by (auto simp: in_set_conv_decomp)
  have "pre \<noteq> []" using ah as by auto
  then obtain us c where pre: "pre = us @ [c]" by (cases pre rule: rev_cases) auto
  let ?s = "s\<lparr>s_free := 1\<rparr>"
  let ?h = "h\<lparr>hdrs := (hdrs h)(a \<mapsto> ?s), freeSize := freeSize h + (l + HDR), usedSize := usedSize h - (l + HDR)\<rparr>"
  have inv1: "heap_inv ?h (us @ c # a # post)"
    using inv ah a(4) chain_set_free [of "hdrs h" a s 1 0 as 0] as pre by (auto simp: heap_inv_def)
  have "allocated (hdrs ?h) as = {x \<in> allocated (hdrs h) as. fst x \<noteq> a + HDR}"
    using allocated_free_update [where m = "hdrs h" and a = a and v = 1, OF a(4,3)] by simp
  also have "\<dots> = allocated (hdrs h) as - {(p, l)}"
    using a by (auto simp: allocated_def)
  finally have al: "allocated (hdrs ?h) as = allocated (hdrs h) as - {(p, l)}" .
  obtain h' as' where h': "coalesce ?h a ?s = Ok h'" "merged ?h (us @ c # a # post) h' as'"
    using coalesce_step [OF inv1, of ?s] by auto
  have sig: "s_signature s = HEAP_SIGNATURE" using ch as a(4) by (auto simp: chain_append seg_ok_def)
  have "ready h \<noteq> 0" using inv by (simp add: heap_inv_def)
  then have "heap_free h p = Ok h'"
    using h'(1) a sig assms(4) by (simp add: heap_free_def coalesce_def Let_def cong: if_cong)
  then show ?thesis using h'(2) al as pre by (auto simp: merged_def)
qed

section \<open>A new heap\<close>

lemma request_current_total:
  assumes "kvm_inv s r lev" and "ptr_frame (get_pml4 s) = Ok r" and "v AND 0xfff = 0" and "n + 4 \<le> free_frames (alloc s)"
  obtains s' lev' where "request_current_page_at s v flags = Ok (v, s')" and "kvm_inv s' r lev'"
    and "get_pml4 s' = get_pml4 s" and "n \<le> free_frames (alloc s')"
  by (rule request_page_at_total [OF assms, where flags = flags], rule that)
    (simp_all add: request_current_page_at_def get_pml4_def)

text \<open>the kernel heap after \<open>init_heap\<close>: the list holds the main segment, in use and without bytes, and one
  free segment with the rest of the page.\<close>

theorem init_heap_inv:
  assumes "kvm_inv (hvm h) r lev" and "ptr_frame (get_pml4 (hvm h)) = Ok r" and "8 \<le> free_frames (alloc (hvm h))"
  shows "\<exists>h' lev'. init_heap h = Ok h' \<and> heap_inv h' [0xffffffff6fffefd0, 0xffffffff6fffe000]
    \<and> allocated (hdrs h') [0xffffffff6fffefd0, 0xffffffff6fffe000] = {(0xffffffff6ffff000, 0)}
    \<and> (\<exists>s. hdrs h' 0xffffffff6fffe000 = Some s \<and> s_free s = 1 \<and> s_length s = 0xfa0) \<and> kvm_inv (hvm h') r lev'"
proof -
  let ?he = "0xffffffff6fffe000 :: u64" and ?ls = "0xffffffff7fffe000 :: u64" and ?main = "0xffffffff6fffefd0 :: u64"
  have av: "4 + 4 \<le> free_frames (alloc (hvm h))" using assms(3) by simp
  obtain s1 l1 where 1: "request_current_page_at (hvm h) ?he 1 = Ok (?he, s1)" "kvm_inv s1 r l1"
    "get_pml4 s1 = get_pml4 (hvm h)" "4 \<le> free_frames (alloc s1)"
    by (rule request_current_total [OF assms(1,2) _ av, of ?he 1]) simp_all
  have r1: "ptr_frame (get_pml4 s1) = Ok r" and av1: "0 + 4 \<le> free_frames (alloc s1)" using assms(2) 1 by simp_all
  obtain s2 l2 where 2: "request_current_page_at s1 ?ls 1 = Ok (?ls, s2)" "kvm_inv s2 r l2" "get_pml4 s2 = get_pml4 s1"
    by (rule request_current_total [OF 1(2) r1 _ av1, of ?ls 1]) simp_all
  let ?m = "(hdrs h)(?main \<mapsto> zero_segment\<lparr>s_next := ?he, s_signature := HEAP_SIGNATURE\<rparr>,
      ?he \<mapsto> \<lparr>s_free = 1, s_length = 0xfa0, s_next = 0, s_last = ?main, s_isStack = 0, s_signature = HEAP_SIGNATURE\<rparr>)"
  obtain h' where h': "init_heap h = Ok h'" "hdrs h' = ?m" "mainSegment h' = ?main" "lastSegment h' = ?he" "ready h' = 1"
    "hvm h' = s2"
    using 1 2 by (simp add: init_heap_def initHeap_def heap_perms_def Let_def put_seg_def)
  have "heap_inv h' [?main, ?he]"
    using h' by (simp add: heap_inv_def seg_ok_def zero_segment_def)
  moreover have "allocated (hdrs h') [?main, ?he] = {(0xffffffff6ffff000, 0)}"
    using h'(2) by (auto simp: allocated_def zero_segment_def)
  ultimately show ?thesis using h' 2(2) by auto
qed

section \<open>Concrete runs\<close>

section \<open>A new stack\<close>

lemma page_below: "(v :: u64) AND 0xfff = 0 \<Longrightarrow> (v - 4096) AND 0xfff = 0"
proof -
  assume v: "v AND 0xfff = 0"
  have m: "(0xfff :: u64) = mask 12" by (simp add: mask_eq_exp_minus_1)
  have "IS_ALIGNED v" using v unfolding take_bit_12_aligned m take_bit_eq_mask .
  then have "v = 4096 * drop_bit 12 v" using aligned_split [of v] by (simp add: push_bit_eq_mult mult.commute)
  then have "v - 4096 = push_bit 12 (drop_bit 12 v - 1)" by (simp add: push_bit_eq_mult algebra_simps)
  then have "IS_ALIGNED (v - 4096)" by (simp only: aligned_push_bit)
  then show ?thesis unfolding take_bit_12_aligned m take_bit_eq_mask .
qed

lemma stack_pages_total:
  assumes "kvm_inv (hvm h) r lev" and "ptr_frame (get_pml4 (hvm h)) = Ok r" and "lastStack h AND 0xfff = 0"
    and "m + 4 * n \<le> free_frames (alloc (hvm h))" and "4096 * n < unat (lastStack h)"
  shows "\<exists>s lev'. stack_pages n pd pd perms h = Ok (h\<lparr>lastStack := lastStack h - 4096 * of_nat n, hvm := s\<rparr>)
    \<and> kvm_inv s r lev' \<and> get_pml4 s = get_pml4 (hvm h) \<and> m \<le> free_frames (alloc s)
    \<and> (\<forall>i < n. translate s r (lastStack h - 4096 * of_nat (Suc i)) \<noteq> None)
    \<and> (\<forall>w. translate (hvm h) r w \<noteq> None \<longrightarrow> translate s r w \<noteq> None)"
  using assms
proof (induction n arbitrary: h lev)
  case 0
  then show ?case by (auto intro!: exI [of _ "hvm h"] exI [of _ lev])
next
  case (Suc n)
  let ?v = "lastStack h - 4096"
  have al: "?v AND 0xfff = 0" by (rule page_below) (rule Suc.prems(3))
  have av: "(m + 4 * n) + 4 \<le> free_frames (alloc (hvm h))" using Suc.prems(4) by simp
  obtain s lev' g where s: "request_page_at (hvm h) (get_pml4 (hvm h)) ?v perms = Ok (?v, s)" "kvm_inv s r lev'"
    "\<And>w. translate s r w = (if indices w = indices ?v then Some g else translate (hvm h) r w)"
    "cr3 s = cr3 (hvm h)" "m + 4 * n \<le> free_frames (alloc s)"
    by (rule request_page_at_total [OF Suc.prems(1,2) al av, where flags = perms]) (rule that)
  have u: "unat ?v = unat (lastStack h) - 4096" using Suc.prems(5) by (simp add: unat_sub word_le_nat_alt)
  then have v0: "?v \<noteq> 0" using Suc.prems(5) by (auto simp: word_zero_iff_unat)
  let ?h = "h\<lparr>lastStack := ?v, hvm := s\<rparr>"
  have pm: "get_pml4 s = get_pml4 (hvm h)" using s(4) by (simp add: get_pml4_def)
  have "\<exists>t l. stack_pages n pd pd perms ?h = Ok (?h\<lparr>lastStack := lastStack ?h - 4096 * of_nat n, hvm := t\<rparr>)
    \<and> kvm_inv t r l \<and> get_pml4 t = get_pml4 (hvm ?h) \<and> m \<le> free_frames (alloc t)
    \<and> (\<forall>i < n. translate t r (lastStack ?h - 4096 * of_nat (Suc i)) \<noteq> None)
    \<and> (\<forall>w. translate (hvm ?h) r w \<noteq> None \<longrightarrow> translate t r w \<noteq> None)"
    by (rule Suc.IH [of ?h lev']) (use s(2,5) pm Suc.prems(2,5) al u in simp_all)
  then obtain t l where t: "stack_pages n pd pd perms ?h = Ok (h\<lparr>lastStack := ?v - 4096 * of_nat n, hvm := t\<rparr>)"
    "kvm_inv t r l" "get_pml4 t = get_pml4 s" "m \<le> free_frames (alloc t)"
    "\<forall>i < n. translate t r (?v - 4096 * of_nat (Suc i)) \<noteq> None" "\<forall>w. translate s r w \<noteq> None \<longrightarrow> translate t r w \<noteq> None"
    by auto
  have e: "lastStack h - 4096 * of_nat (Suc k) = ?v - 4096 * of_nat k" for k by (simp add: algebra_simps)
  have "stack_pages (Suc n) pd pd perms h = Ok (h\<lparr>lastStack := lastStack h - 4096 * of_nat (Suc n), hvm := t\<rparr>)"
    using s(1) v0 t(1) by (simp add: request_current_page_at_def e algebra_simps)
  moreover have "translate t r (lastStack h - 4096 * of_nat (Suc i)) \<noteq> None" if "i < Suc n" for i
  proof (cases i)
    case 0 then show ?thesis using t(6) s(3) [of ?v] by simp
  next
    case (Suc j)
    then have "translate t r (?v - 4096 * of_nat (Suc j)) \<noteq> None" using t(5) that by blast
    then show ?thesis unfolding Suc e [of "Suc j"] .
  qed
  moreover have "translate t r w \<noteq> None" if "translate (hvm h) r w \<noteq> None" for w using that t(6) s(3) [of w] by auto
  ultimately show ?case using t(2,3,4) pm by (intro exI [of _ t] exI [of _ l]) auto
qed

text \<open>a stack from \<open>kstackalloc\<close>: all its pages are mapped, they lie directly below the last stack, and a page stays free
  below them. No page that was mapped is unmapped.\<close>

theorem kstackalloc_maps:
  assumes "kvm_inv (hvm h) r lev" and "ptr_frame (get_pml4 (hvm h)) = Ok r" and "lastStack h AND 0xfff = 0"
    and "m + 4 * n \<le> free_frames (alloc (hvm h))" and "4096 * n < unat (lastStack h)"
    and "n < 2 ^ 32"
  shows "\<exists>base h' lev'. kstackalloc h (4096 * of_nat n) = Ok (base, h') \<and> base = lastStack h - 4096 * of_nat n
    \<and> (\<forall>i < n. translate (hvm h') r (base + 4096 * of_nat i) \<noteq> None)
    \<and> (\<forall>w. translate (hvm h) r w \<noteq> None \<longrightarrow> translate (hvm h') r w \<noteq> None)
    \<and> lastStack h' = base - 4096 \<and> kvm_inv (hvm h') r lev' \<and> m \<le> free_frames (alloc (hvm h'))
    \<and> get_pml4 (hvm h') = get_pml4 (hvm h)"
proof -
  obtain s lev' where s: "stack_pages n (get_pml4 (hvm h)) (get_pml4 (hvm h)) (heap_perms (isKernel h = 0)) h
      = Ok (h\<lparr>lastStack := lastStack h - 4096 * of_nat n, hvm := s\<rparr>)"
    "kvm_inv s r lev'" "get_pml4 s = get_pml4 (hvm h)" "m \<le> free_frames (alloc s)"
    "\<forall>i < n. translate s r (lastStack h - 4096 * of_nat (Suc i)) \<noteq> None"
    "\<forall>w. translate (hvm h) r w \<noteq> None \<longrightarrow> translate s r w \<noteq> None"
    using stack_pages_total [OF assms(1-5)] by blast
  have u: "unat (of_nat n :: u64) = n" using assms(6) by (intro unat_of_nat_u64) simp
  have u4: "unat (4096 * of_nat n :: u64) = 4096 * n" using assms(6) u by (simp add: unat_word_ariths)
  have "unat (4096 * of_nat n div PAGESIZE :: u64) = n" "4096 * of_nat n mod PAGESIZE = (0 :: u64)"
    using u4 by (simp_all add: unat_div_distrib unat_mod_distrib word_zero_iff_unat)
  then have run: "kstackalloc h (4096 * of_nat n) =
      Ok (lastStack h - 4096 * of_nat n, h\<lparr>lastStack := lastStack h - 4096 * of_nat n - PAGESIZE, hvm := s\<rparr>)"
    using s(1) by (simp add: kstackalloc_def stackalloc_def Let_def)
  have "translate s r (lastStack h - 4096 * of_nat n + 4096 * of_nat i) \<noteq> None" if i: "i < n" for i
  proof -
    have "lastStack h - 4096 * of_nat n + 4096 * of_nat i = lastStack h - 4096 * of_nat (Suc (n - Suc i))"
      using i by (simp add: algebra_simps of_nat_diff)
    moreover have "n - Suc i < n" using i by simp
    ultimately show ?thesis using s(5) by metis
  qed
  then show ?thesis using run s(2,3,4,6) by auto
qed


definition heap_blank :: hst where
  "heap_blank = \<lparr>heapEnd = 0, lastStack = 0, lastSegment = 0, mainSegment = 0, totalSize = 0, usedSize = 0, freeSize = 0,
     isKernel = 0, ready = 0, hdrs = Map.empty, bytes = (\<lambda>_. 0), hvm = vm_big\<rparr>"

theorem init_heap_inv_witness:
  "\<exists>h'. init_heap heap_blank = Ok h' \<and> heap_inv h' [0xffffffff6fffefd0, 0xffffffff6fffe000]"
proof -
  have "kvm_inv (hvm heap_blank) 0x50 lev_example" and "ptr_frame (get_pml4 (hvm heap_blank)) = Ok 0x50"
    and "8 \<le> free_frames (alloc (hvm heap_blank))"
    using vm_big_inv vm_big_pml4 vm_big_free by (simp_all add: heap_blank_def)
  from init_heap_inv [OF this] show ?thesis by blast
qed

text \<open>A heap of one page: the main segment, one block in use, one free segment.\<close>

definition heap_example :: hst where
  "heap_example = heap_blank\<lparr>mainSegment := 0x10fd0, lastSegment := 0x10000, ready := 1, freeSize := 0x100, usedSize := 0x70,
     hdrs := [0x10fd0 \<mapsto> \<lparr>s_free = 0, s_length = 0, s_next = 0x10f60, s_last = 0, s_isStack = 0, s_signature = HEAP_SIGNATURE\<rparr>,
              0x10f60 \<mapsto> \<lparr>s_free = 0, s_length = 0x40, s_next = 0x10000, s_last = 0x10fd0, s_isStack = 0, s_signature = HEAP_SIGNATURE\<rparr>,
              0x10000 \<mapsto> \<lparr>s_free = 1, s_length = 0xf30, s_next = 0, s_last = 0x10f60, s_isStack = 0, s_signature = HEAP_SIGNATURE\<rparr>]\<rparr>"

lemma heap_example_inv: "heap_inv heap_example [0x10fd0, 0x10f60, 0x10000]"
  by (simp add: heap_inv_def heap_example_def seg_ok_def)

lemma heap_example_allocated:
  "allocated (hdrs heap_example) [0x10fd0, 0x10f60, 0x10000] = {(0x11000, 0), (0x10f90, 0x40)}"
proof -
  have "hdrs heap_example 0x10fd0 = Some \<lparr>s_free = 0, s_length = 0, s_next = 0x10f60, s_last = 0, s_isStack = 0, s_signature = HEAP_SIGNATURE\<rparr>"
    "hdrs heap_example 0x10f60 = Some \<lparr>s_free = 0, s_length = 0x40, s_next = 0x10000, s_last = 0x10fd0, s_isStack = 0, s_signature = HEAP_SIGNATURE\<rparr>"
    "hdrs heap_example 0x10000 = Some \<lparr>s_free = 1, s_length = 0xf30, s_next = 0, s_last = 0x10f60, s_isStack = 0, s_signature = HEAP_SIGNATURE\<rparr>"
    by (simp_all add: heap_example_def)
  then show ?thesis by (auto simp: allocated_def)
qed

theorem malloc_fits_witness:
  "\<exists>ptr h' as'. malloc 10 heap_example 0x50 20 = Ok (ptr, h')
    \<and> allocated (hdrs h') as' = {(ptr, 32), (0x11000, 0), (0x10f90, 0x40)}"
proof -
  have r: "round_up 20 0x10 = 32" by (simp add: round_up_def)
  have f: "\<exists>a \<in> set [0x10fd0, 0x10f60, 0x10000 :: u64]. \<exists>s. hdrs heap_example a = Some s \<and> fits s (round_up 20 0x10)"
    unfolding r by (simp add: heap_example_def fits_def)
  have "0 < unat (20 :: u64)" "unat (20 :: u64) < 2 ^ 61" "length [0x10fd0, 0x10f60, 0x10000 :: u64] \<le> 10" by simp_all
  from malloc_fits [OF heap_example_inv this f, of "0x50"]
  obtain ptr h' as' where "malloc 10 heap_example 0x50 20 = Ok (ptr, h')"
    "alloc_step heap_example [0x10fd0, 0x10f60, 0x10000] ptr 32 h' as'" unfolding r by blast
  then show ?thesis unfolding alloc_step_def heap_example_allocated by blast
qed

theorem heap_free_block_witness:
  "\<exists>h' as'. heap_free heap_example 0x10f90 = Ok h' \<and> allocated (hdrs h') as' = {(0x11000, 0)}"
proof -
  have "(0x10f90, 0x40) \<in> allocated (hdrs heap_example) [0x10fd0, 0x10f60, 0x10000]"
    by (simp add: heap_example_allocated)
  moreover have "0x10f90 \<noteq> mainSegment heap_example + HDR" by (simp add: heap_example_def)
  ultimately obtain h' as' where h': "heap_free heap_example 0x10f90 = Ok h'"
    "allocated (hdrs h') as' = allocated (hdrs heap_example) [0x10fd0, 0x10f60, 0x10000] - {(0x10f90, 0x40)}"
    using heap_free_block [OF heap_example_inv, of "0x10f90" "0x40"] by auto
  have "allocated (hdrs heap_example) [0x10fd0, 0x10f60, 0x10000] - {(0x10f90, 0x40)} = {(0x11000, 0)}"
    unfolding heap_example_allocated by auto
  then show ?thesis using h' by metis
qed

theorem kstackalloc_maps_witness:
  "\<exists>h'. kstackalloc (heap_blank\<lparr>lastStack := 0x20000\<rparr>) 0x2000 = Ok (0x1e000, h') \<and> translate (hvm h') 0x50 0x1f000 \<noteq> None"
proof -
  let ?h = "heap_blank\<lparr>lastStack := 0x20000\<rparr>"
  have "kvm_inv (hvm ?h) 0x50 lev_example" and "ptr_frame (get_pml4 (hvm ?h)) = Ok 0x50" and "lastStack ?h AND 0xfff = 0"
    and "0 + 4 * 2 \<le> free_frames (alloc (hvm ?h))" and "4096 * 2 < unat (lastStack ?h)" and "(2 :: nat) < 2 ^ 32"
    using vm_big_inv vm_big_pml4 vm_big_free by (simp_all add: heap_blank_def)
  from kstackalloc_maps [OF this] obtain h' where
    "kstackalloc ?h 0x2000 = Ok (0x1e000, h')" "\<forall>i < 2. translate (hvm h') 0x50 (0x1e000 + 4096 * of_nat i) \<noteq> None"
    by (auto simp: heap_blank_def)
  from this(1) spec [OF this(2), of 1] show ?thesis by auto
qed

end
