(* ===== verification/RingBuffer.thy ===== *)
theory RingBuffer
  imports Prelude
begin

text \<open>Circular buffers, the data structure behind the byte queues of the kernel (\<open>fifo.c\<close>, \<open>tty.c\<close>,
  \<open>serial.c\<close>, \<open>line_discipline.c\<close>): an array with a read and a write index, one slot kept empty. The
  contents are abstracted to the list of the bytes waiting, oldest first. The locale \<open>byte_queue\<close> is
  the contract the drivers rely on; every queue of the kernel interprets it.\<close>

section \<open>Indices\<close>

definition ring_inc :: "nat \<Rightarrow> nat \<Rightarrow> nat" where
  "ring_inc n i = (if i + 1 = n then 0 else i + 1)"

definition ring_dec :: "nat \<Rightarrow> nat \<Rightarrow> nat" where
  "ring_dec n i = (if i = 0 then n - 1 else i - 1)"

definition ring_cnt :: "nat \<Rightarrow> nat \<Rightarrow> nat \<Rightarrow> nat" where
  "ring_cnt n r w = (if r \<le> w then w - r else w + n - r)"

definition ring_pos :: "nat \<Rightarrow> nat \<Rightarrow> nat \<Rightarrow> nat" where
  "ring_pos n r i = (if r + i < n then r + i else r + i - n)"

definition ring_list :: "'a list \<Rightarrow> nat \<Rightarrow> nat \<Rightarrow> 'a list" where
  "ring_list b r w = map (\<lambda>i. b ! ring_pos (length b) r i) [0..<ring_cnt (length b) r w]"

lemmas ring_defs = ring_inc_def ring_dec_def ring_cnt_def ring_pos_def

lemma ring_inc_mod: "i < n \<Longrightarrow> (i + 1) mod n = ring_inc n i"
  by (auto simp: ring_inc_def mod_if)

lemma ring_inc_wrap: "i < n \<Longrightarrow> (if n \<le> i + 1 then 0 else i + 1) = ring_inc n i"
  by (auto simp: ring_inc_def)

lemma ring_inc_less [simp]: "i < n \<Longrightarrow> ring_inc n i < n"
  by (auto simp: ring_inc_def)

lemma ring_dec_less [simp]: "i < n \<Longrightarrow> ring_dec n i < n"
  by (auto simp: ring_dec_def)

lemma ring_cnt_less: "r < n \<Longrightarrow> w < n \<Longrightarrow> ring_cnt n r w < n"
  by (auto simp: ring_cnt_def)

lemma ring_cnt_mod: "r < n \<Longrightarrow> w < n \<Longrightarrow> (w + n - r) mod n = ring_cnt n r w"
  by (auto simp: ring_cnt_def mod_if)

lemma ring_cnt_room: "r < n \<Longrightarrow> w < n \<Longrightarrow> ring_inc n w \<noteq> r \<longleftrightarrow> ring_cnt n r w + 1 < n"
  by (auto simp: ring_defs)

section \<open>Contents\<close>

lemma length_ring_list [simp]: "length (ring_list b r w) = ring_cnt (length b) r w"
  by (simp add: ring_list_def)

lemma ring_list_same [simp]: "ring_list b r r = []"
  by (simp add: ring_list_def ring_cnt_def)

lemma ring_list_empty: "r < length b \<Longrightarrow> w < length b \<Longrightarrow> ring_list b r w = [] \<longleftrightarrow> r = w"
  by (auto simp: ring_list_def ring_cnt_def split: if_splits)

lemma nth_ring_list: "i < ring_cnt (length b) r w \<Longrightarrow> ring_list b r w ! i = b ! ring_pos (length b) r i"
  by (simp add: ring_list_def)

lemma ring_list_flat: "r \<le> w \<Longrightarrow> w \<le> length b \<Longrightarrow> ring_list b r w = take (w - r) (drop r b)"
  by (rule nth_equalityI) (auto simp: nth_ring_list ring_defs)

lemma ring_list_wrapped: "w < r \<Longrightarrow> r \<le> length b \<Longrightarrow> ring_list b r w = drop r b @ take w b"
proof (rule nth_equalityI)
  assume a: "w < r" "r \<le> length b"
  then show "length (ring_list b r w) = length (drop r b @ take w b)" by (simp add: ring_cnt_def)
  fix i assume "i < length (ring_list b r w)"
  hence i: "i < ring_cnt (length b) r w" by simp
  have "(i < length b - r) = (r + i < length b)" "i - (length b - r) = r + i - length b" using a by auto
  with a i show "ring_list b r w ! i = (drop r b @ take w b) ! i"
    by (simp add: nth_ring_list nth_append ring_cnt_def ring_pos_def)
qed

lemma ring_put:
  assumes "r < length b" "w < length b" "ring_inc (length b) w \<noteq> r"
  shows "ring_list (b[w := x]) r (ring_inc (length b) w) = ring_list b r w @ [x]"
proof (rule nth_equalityI)
  have c: "ring_cnt (length b) r (ring_inc (length b) w) = ring_cnt (length b) r w + 1"
    using assms by (auto simp: ring_defs)
  show "length (ring_list (b[w := x]) r (ring_inc (length b) w)) = length (ring_list b r w @ [x])"
    using c by simp
  fix i assume "i < length (ring_list (b[w := x]) r (ring_inc (length b) w))"
  hence i: "i < ring_cnt (length b) r w + 1" using c by simp
  have p: "ring_pos (length b) r i = w \<longleftrightarrow> i = ring_cnt (length b) r w"
    using assms i by (auto simp: ring_defs split: if_splits)
  have "ring_list (b[w := x]) r (ring_inc (length b) w) ! i = b[w := x] ! ring_pos (length b) r i"
    using i c by (simp add: nth_ring_list)
  also have "\<dots> = (ring_list b r w @ [x]) ! i"
    using i p assms(2) by (auto simp: nth_append nth_ring_list nth_list_update)
  finally show "ring_list (b[w := x]) r (ring_inc (length b) w) ! i = (ring_list b r w @ [x]) ! i" .
qed

lemma ring_get:
  assumes "r < length b" "w < length b" "r \<noteq> w"
  shows "ring_list b r w = b ! r # ring_list b (ring_inc (length b) r) w"
proof (rule nth_equalityI)
  have c: "ring_cnt (length b) r w = Suc (ring_cnt (length b) (ring_inc (length b) r) w)"
    using assms by (auto simp: ring_defs)
  show "length (ring_list b r w) = length (b ! r # ring_list b (ring_inc (length b) r) w)"
    using c by simp
  fix i assume "i < length (ring_list b r w)"
  then show "ring_list b r w ! i = (b ! r # ring_list b (ring_inc (length b) r) w) ! i"
  proof (cases i)
    case (Suc j)
    have "ring_pos (length b) r (Suc j) = ring_pos (length b) (ring_inc (length b) r) j"
      using assms c Suc \<open>i < length (ring_list b r w)\<close> by (auto simp: ring_defs split: if_splits)
    with Suc c \<open>i < length (ring_list b r w)\<close> show ?thesis by (simp add: nth_ring_list)
  qed (use assms in \<open>simp add: nth_ring_list ring_pos_def\<close>)
qed

lemma ring_put_full:
  assumes "r < length b" "w < length b" "ring_inc (length b) w = r" "1 < length b"
  shows "ring_list (b[w := x]) (ring_inc (length b) r) (ring_inc (length b) w) = tl (ring_list b r w) @ [x]"
proof -
  have rw: "r \<noteq> w" using assms by (auto simp: ring_defs split: if_splits)
  have "ring_list (b[w := x]) (ring_inc (length b) r) (ring_inc (length b) w)
      = ring_list b (ring_inc (length b) r) w @ [x]"
    using assms by (intro ring_put) (auto simp: ring_defs split: if_splits)
  also have "ring_list b (ring_inc (length b) r) w = tl (ring_list b r w)"
    using ring_get [OF assms(1,2) rw] by simp
  finally show ?thesis .
qed

lemma ring_drop_last:
  assumes "r < length b" "w < length b" "r \<noteq> w"
  shows "ring_list b r (ring_dec (length b) w) = butlast (ring_list b r w)"
proof (rule nth_equalityI)
  have c: "ring_cnt (length b) r w = Suc (ring_cnt (length b) r (ring_dec (length b) w))"
    using assms by (auto simp: ring_defs)
  show "length (ring_list b r (ring_dec (length b) w)) = length (butlast (ring_list b r w))"
    using c by simp
  fix i assume "i < length (ring_list b r (ring_dec (length b) w))"
  then show "ring_list b r (ring_dec (length b) w) ! i = butlast (ring_list b r w) ! i"
    using c by (simp add: nth_ring_list nth_butlast)
qed

section \<open>The contract of a byte queue\<close>

text \<open>A queue accepts a byte while there is room and gives the bytes back in the order they came.
  \<open>put_all\<close> and \<open>get_n\<close> iterate the operations.\<close>

fun put_all :: "('a \<Rightarrow> 's \<Rightarrow> 's result) \<Rightarrow> 'a list \<Rightarrow> 's \<Rightarrow> 's result" where
  "put_all put [] s = Ok s"
| "put_all put (x # xs) s = rbind (put x s) (put_all put xs)"

fun get_n :: "('s \<Rightarrow> ('a \<times> 's) result) \<Rightarrow> nat \<Rightarrow> 's \<Rightarrow> ('a list \<times> 's) result" where
  "get_n get 0 s = Ok ([], s)"
| "get_n get (Suc n) s = rbind (get s) (\<lambda>(x, s1). rbind (get_n get n s1) (\<lambda>(xs, s2). Ok (x # xs, s2)))"

locale byte_queue =
  fixes wf :: "'s \<Rightarrow> bool"
    and cap :: "'s \<Rightarrow> nat"
    and items :: "'s \<Rightarrow> 'a list"
    and put :: "'a \<Rightarrow> 's \<Rightarrow> 's result"
    and get :: "'s \<Rightarrow> ('a \<times> 's) result"
  assumes put_room: "wf s \<Longrightarrow> length (items s) < cap s \<Longrightarrow>
      \<exists>s'. put x s = Ok s' \<and> wf s' \<and> cap s' = cap s \<and> items s' = items s @ [x]"
    and get_cons: "wf s \<Longrightarrow> items s = x # xs \<Longrightarrow>
      \<exists>s'. get s = Ok (x, s') \<and> wf s' \<and> cap s' = cap s \<and> items s' = xs"
begin

lemma put_all_room:
  "wf s \<Longrightarrow> length (items s) + length xs \<le> cap s \<Longrightarrow>
    \<exists>s'. put_all put xs s = Ok s' \<and> wf s' \<and> cap s' = cap s \<and> items s' = items s @ xs"
proof (induction xs arbitrary: s)
  case (Cons x xs)
  from Cons.prems have "length (items s) < cap s" by simp
  from put_room [OF Cons.prems(1) this, of x] obtain s1 where s1: "put x s = Ok s1" "wf s1" "cap s1 = cap s"
    "items s1 = items s @ [x]" by blast
  from Cons.IH [OF s1(2)] Cons.prems(2) s1(3,4) show ?case by (auto simp: s1(1))
qed auto

lemma get_n_items:
  "wf s \<Longrightarrow> items s = xs @ ys \<Longrightarrow>
    \<exists>s'. get_n get (length xs) s = Ok (xs, s') \<and> wf s' \<and> cap s' = cap s \<and> items s' = ys"
proof (induction xs arbitrary: s)
  case (Cons x xs)
  from Cons.prems have "items s = x # (xs @ ys)" by simp
  from get_cons [OF Cons.prems(1) this] obtain s1 where s1: "get s = Ok (x, s1)" "wf s1" "cap s1 = cap s"
    "items s1 = xs @ ys" by blast
  from Cons.IH [OF s1(2,4)] s1(3) show ?case by (auto simp: s1(1))
qed auto

lemma fifo_order:
  assumes "wf s" and "length (items s) + length xs \<le> cap s"
  shows "\<exists>s1 s2. put_all put xs s = Ok s1 \<and> get_n get (length (items s) + length xs) s1 = Ok (items s @ xs, s2)
    \<and> wf s2 \<and> cap s2 = cap s \<and> items s2 = []"
proof -
  obtain s1 where s1: "put_all put xs s = Ok s1" "wf s1" "cap s1 = cap s" "items s1 = (items s @ xs) @ []"
    using put_all_room [OF assms] by auto
  from get_n_items [OF s1(2,4)] s1(1,3) show ?thesis by auto
qed

end

end
