(* ===== verification/Fifo.thy ===== *)
theory Fifo
  imports RingBuffer
begin

text \<open>The FIFO device (\<open>devices/fifo/fifo.c\<close>) and its driver (\<open>drivers/fifo/fifo_dd.c\<close>). The buffer that
  \<open>kmalloc\<close> hands out is a list of bytes, empty when the allocation failed: \<open>fifo_alloc\<close> does not test
  that pointer. A division by a size of zero is a fault.\<close>

record fifo =
  buf :: "u8 list"
  head :: u64
  tail :: u64
  sz :: u64
  free :: u8

text \<open>\<open>hdr\<close> says whether the allocation of the structure succeeded, \<open>mem\<close> is the memory block of the
  buffer with whatever bytes it holds, \<open>junk\<close> the uninitialised field.\<close>

definition fifo_alloc :: "bool \<Rightarrow> u8 list \<Rightarrow> u8 \<Rightarrow> u64 \<Rightarrow> fifo option" where
  "fifo_alloc hdr mem junk n = (if \<not> hdr then None
     else Some \<lparr>buf = mem, head = 0, tail = 0, sz = n, free = junk\<rparr>)"

definition fifo_next :: "fifo \<Rightarrow> u64 \<Rightarrow> u64 result" where
  "fifo_next f i = (if sz f = 0 then Err Fault else Ok ((i + 1) mod sz f))"

definition fifo_put :: "fifo \<Rightarrow> u8 \<Rightarrow> (u8 \<times> fifo) result" where
  "fifo_put f d = rbind (fifo_next f (tail f)) (\<lambda>t.
     if head f = t then Ok (0, f)
     else rbind (wr (buf f) (unat (tail f)) d) (\<lambda>b. Ok (1, f\<lparr>buf := b, tail := t\<rparr>)))"

definition fifo_get :: "fifo \<Rightarrow> (u8 \<times> fifo) result" where
  "fifo_get f = (if head f = tail f then Ok (0, f)
     else rbind (rd (buf f) (unat (head f))) (\<lambda>d.
       rbind (fifo_next f (head f)) (\<lambda>h. Ok (d, f\<lparr>head := h\<rparr>))))"

definition fifo_size :: "fifo \<Rightarrow> u64 result" where
  "fifo_size f = (if sz f = 0 then Err Fault else Ok ((tail f - head f + sz f) mod sz f))"

definition fifo_flush :: "fifo \<Rightarrow> fifo" where
  "fifo_flush f = f\<lparr>head := 0, tail := 0\<rparr>"

section \<open>The driver\<close>

text \<open>\<open>fifo_dd_read\<close>: the loop takes a byte per round, the first \<open>skip\<close> of them dropped; each round
  makes the queue shorter, so as many rounds as the queue has slots are enough. The bytes stored in
  the caller's buffer are returned as a list.\<close>

fun fifo_read_loop :: "nat \<Rightarrow> fifo \<Rightarrow> u64 \<Rightarrow> u64 \<Rightarrow> u8 list \<Rightarrow> (u8 list \<times> fifo) result" where
  "fifo_read_loop 0 f n skip acc = Err Diverge"
| "fifo_read_loop (Suc k) f n skip acc =
     (if \<not> of_nat (length acc) < n then Ok (acc, f)
      else rbind (fifo_size f) (\<lambda>s.
        if \<not> 0 < s then Ok (acc, f)
        else rbind (fifo_get f) (\<lambda>(d, f1).
          if 0 < skip then fifo_read_loop k f1 n (skip - 1) acc
          else fifo_read_loop k f1 n skip (acc @ [d]))))"

definition fifo_dd_read :: "fifo \<Rightarrow> u64 \<Rightarrow> u64 \<Rightarrow> (u64 \<times> u8 list \<times> fifo) result" where
  "fifo_dd_read f n skip = rbind (fifo_read_loop (unat (sz f) + 1) f n skip [])
     (\<lambda>(bs, f1). Ok (of_nat (length bs), bs, f1))"

fun fifo_put_bytes :: "fifo \<Rightarrow> u8 list \<Rightarrow> fifo result" where
  "fifo_put_bytes f [] = Ok f"
| "fifo_put_bytes f (d # ds) = rbind (fifo_put f d) (\<lambda>(_, f1). fifo_put_bytes f1 ds)"

text \<open>\<open>bs\<close> is the caller's buffer; the loop reads its first \<open>n\<close> bytes and ignores what \<open>fifo_put\<close>
  returns.\<close>

definition fifo_dd_write :: "fifo \<Rightarrow> u64 \<Rightarrow> u64 \<Rightarrow> u8 list \<Rightarrow> (u64 \<times> fifo) result" where
  "fifo_dd_write f n skip bs = (if length bs < unat n then Err Fault
     else rbind (fifo_put_bytes f (take (unat n) bs)) (\<lambda>f1. Ok (n, f1)))"

abbreviation "IOCTL_FIFO_FLUSH \<equiv> (1 :: u64)"
abbreviation "IOCTL_FIFO_VALIDATE \<equiv> (2 :: u64)"
abbreviation "IOCTL_FIFO_GET_SIZE \<equiv> (3 :: u64)"

definition fifo_dd_ioctl :: "fifo \<Rightarrow> u64 \<Rightarrow> (u64 \<times> fifo) result" where
  "fifo_dd_ioctl f op = (if op = IOCTL_FIFO_FLUSH then Ok (1, fifo_flush f)
     else if op = IOCTL_FIFO_GET_SIZE then rbind (fifo_size f) (\<lambda>s. Ok (s, f))
     else if op = IOCTL_FIFO_VALIDATE then Ok (1, f)
     else Ok (0, f))"

section \<open>Well-formed queues and their contents\<close>

definition fifo_wf :: "fifo \<Rightarrow> bool" where
  "fifo_wf f \<longleftrightarrow> length (buf f) = unat (sz f) \<and> sz f < 2 ^ 62 \<and> head f < sz f \<and> tail f < sz f"

definition fifo_items :: "fifo \<Rightarrow> u8 list" where
  "fifo_items f = ring_list (buf f) (unat (head f)) (unat (tail f))"

definition fifo_cap :: "fifo \<Rightarrow> nat" where
  "fifo_cap f = unat (sz f) - 1"

lemma fifo_wfD:
  assumes "fifo_wf f"
  shows "length (buf f) = unat (sz f)" "unat (head f) < unat (sz f)" "unat (tail f) < unat (sz f)"
    "unat (sz f) < 2 ^ 62" "sz f \<noteq> 0"
  using assms by (auto simp: fifo_wf_def word_less_nat_alt)

lemma fifo_next_Ok:
  assumes "fifo_wf f" "unat i < unat (sz f)"
  shows "\<exists>j. fifo_next f i = Ok j \<and> unat j = ring_inc (unat (sz f)) (unat i)"
proof -
  note w = fifo_wfD [OF assms(1)]
  have "unat (i + 1) = unat i + 1" using assms(2) w(4) by (intro unat_Suc_small) simp
  hence "unat ((i + 1) mod sz f) = ring_inc (unat (sz f)) (unat i)"
    using ring_inc_mod [OF assms(2)] by (simp add: unat_mod_distrib)
  then show ?thesis using w(5) by (simp add: fifo_next_def)
qed

lemma fifo_size_Ok:
  assumes "fifo_wf f"
  shows "fifo_size f = Ok (of_nat (length (fifo_items f)))"
proof -
  note w = fifo_wfD [OF assms]
  have "unat (tail f - head f + sz f) = unat (tail f) + unat (sz f) - unat (head f)"
  proof -
    have e: "tail f - head f + sz f = tail f + (sz f - head f)" by (simp add: algebra_simps)
    have u: "unat (sz f - head f) = unat (sz f) - unat (head f)"
      using w(2) by (intro unat_sub_small) (simp add: word_le_nat_alt)
    have "unat (tail f + (sz f - head f)) = unat (tail f) + unat (sz f - head f)"
      using w(3,4) u by (intro unat_add_small) simp
    then show ?thesis unfolding e u using w(2) by linarith
  qed
  hence "unat ((tail f - head f + sz f) mod sz f) = ring_cnt (unat (sz f)) (unat (head f)) (unat (tail f))"
    using ring_cnt_mod [OF w(2,3)] by (simp add: unat_mod_distrib)
  moreover have "length (fifo_items f) = ring_cnt (unat (sz f)) (unat (head f)) (unat (tail f))"
    using w(1) by (simp add: fifo_items_def)
  ultimately have u: "unat ((tail f - head f + sz f) mod sz f) = length (fifo_items f)" by simp
  have "(tail f - head f + sz f) mod sz f = of_nat (unat ((tail f - head f + sz f) mod sz f))" by simp
  also note u
  finally have "(tail f - head f + sz f) mod sz f = of_nat (length (fifo_items f))" .
  then show ?thesis using w(5) by (simp add: fifo_size_def)
qed

lemma fifo_items_len:
  assumes "fifo_wf f"
  shows "length (fifo_items f) \<le> fifo_cap f"
  using fifo_wfD [OF assms] ring_cnt_less [of "unat (head f)" "unat (sz f)" "unat (tail f)"]
  by (simp add: fifo_items_def fifo_cap_def)

lemma fifo_put_room:
  assumes "fifo_wf f" and "length (fifo_items f) < fifo_cap f"
  shows "\<exists>f'. fifo_put f d = Ok (1, f') \<and> fifo_wf f' \<and> fifo_cap f' = fifo_cap f \<and> fifo_items f' = fifo_items f @ [d]"
proof -
  note w = fifo_wfD [OF assms(1)]
  obtain t where t: "fifo_next f (tail f) = Ok t" "unat t = ring_inc (unat (sz f)) (unat (tail f))"
    using fifo_next_Ok [OF assms(1) w(3)] by blast
  have room: "ring_inc (unat (sz f)) (unat (tail f)) \<noteq> unat (head f)"
    using assms(2) w(1) ring_cnt_room [OF w(2,3)] by (simp add: fifo_items_def fifo_cap_def)
  hence ne: "head f \<noteq> t" using t(2) by auto
  let ?f = "f\<lparr>buf := (buf f)[unat (tail f) := d], tail := t\<rparr>"
  have "fifo_put f d = Ok (1, ?f)" using t(1) ne w by (simp add: fifo_put_def)
  moreover have "fifo_wf ?f"
    using assms(1) w t(2) by (simp add: fifo_wf_def word_less_nat_alt)
  moreover have "fifo_items ?f = fifo_items f @ [d]"
    using ring_put [of "unat (head f)" "buf f" "unat (tail f)" d] w room t(2) by (simp add: fifo_items_def)
  moreover have "fifo_cap ?f = fifo_cap f" by (simp add: fifo_cap_def)
  ultimately show ?thesis by blast
qed

lemma fifo_put_full:
  assumes "fifo_wf f" and "length (fifo_items f) = fifo_cap f"
  shows "fifo_put f d = Ok (0, f)"
proof -
  note w = fifo_wfD [OF assms(1)]
  obtain t where t: "fifo_next f (tail f) = Ok t" "unat t = ring_inc (unat (sz f)) (unat (tail f))"
    using fifo_next_Ok [OF assms(1) w(3)] by blast
  have "ring_inc (unat (sz f)) (unat (tail f)) = unat (head f)"
    using assms(2) w(1,2) ring_cnt_room [OF w(2,3)] by (simp add: fifo_items_def fifo_cap_def)
  hence "head f = t" using t(2) by (simp add: word_unat_eq_iff)
  with t(1) show ?thesis by (simp add: fifo_put_def)
qed

lemma fifo_get_cons:
  assumes "fifo_wf f" and "fifo_items f = d # ds"
  shows "\<exists>f'. fifo_get f = Ok (d, f') \<and> fifo_wf f' \<and> fifo_cap f' = fifo_cap f \<and> fifo_items f' = ds \<and> sz f' = sz f"
proof -
  note w = fifo_wfD [OF assms(1)]
  have ne: "unat (head f) \<noteq> unat (tail f)" using assms(2) by (auto simp: fifo_items_def)
  obtain h where h: "fifo_next f (head f) = Ok h" "unat h = ring_inc (unat (sz f)) (unat (head f))"
    using fifo_next_Ok [OF assms(1) w(2)] by blast
  have g: "fifo_items f = buf f ! unat (head f) # fifo_items (f\<lparr>head := h\<rparr>)"
    using ring_get [of "unat (head f)" "buf f" "unat (tail f)"] w ne h(2) by (simp add: fifo_items_def)
  have "fifo_get f = Ok (buf f ! unat (head f), f\<lparr>head := h\<rparr>)"
    using h(1) ne w by (auto simp: fifo_get_def)
  moreover have "fifo_wf (f\<lparr>head := h\<rparr>)" using assms(1) w h(2) by (simp add: fifo_wf_def word_less_nat_alt)
  ultimately show ?thesis using g assms(2) by (auto simp: fifo_cap_def)
qed

lemma fifo_get_empty: "fifo_wf f \<Longrightarrow> fifo_items f = [] \<Longrightarrow> fifo_get f = Ok (0, f)"
  using fifo_wfD [of f] ring_list_empty [of "unat (head f)" "buf f" "unat (tail f)"]
  by (auto simp: fifo_get_def fifo_items_def word_unat_eq_iff)

interpretation fq: byte_queue fifo_wf fifo_cap fifo_items
  "\<lambda>d f. rbind (fifo_put f d) (\<lambda>(_, f'). Ok f')" fifo_get
proof unfold_locales
  fix s :: fifo and x assume "fifo_wf s" "length (fifo_items s) < fifo_cap s"
  from fifo_put_room [OF this, of x]
  show "\<exists>s'. rbind (fifo_put s x) (\<lambda>(_, f'). Ok f') = Ok s' \<and> fifo_wf s' \<and> fifo_cap s' = fifo_cap s
    \<and> fifo_items s' = fifo_items s @ [x]" by auto
next
  fix s :: fifo and x xs assume "fifo_wf s" "fifo_items s = x # xs"
  from fifo_get_cons [OF this]
  show "\<exists>s'. fifo_get s = Ok (x, s') \<and> fifo_wf s' \<and> fifo_cap s' = fifo_cap s \<and> fifo_items s' = xs" by auto
qed

section \<open>The driver's transfers\<close>

lemma fifo_put_bytes_eq:
  "fifo_put_bytes f ds = put_all (\<lambda>d f. rbind (fifo_put f d) (\<lambda>(_, f'). Ok f')) ds f"
proof (induction ds arbitrary: f)
  case (Cons d ds)
  then show ?case by (cases "fifo_put f d") auto
qed simp

lemma fifo_put_bytes_all:
  "fifo_wf f \<Longrightarrow> \<exists>f'. fifo_put_bytes f ds = Ok f' \<and> fifo_wf f' \<and> fifo_cap f' = fifo_cap f
    \<and> fifo_items f' = fifo_items f @ take (fifo_cap f - length (fifo_items f)) ds"
proof (induction ds arbitrary: f)
  case (Cons d ds)
  show ?case
  proof (cases "length (fifo_items f) < fifo_cap f")
    case True
    from fifo_put_room [OF Cons.prems True, of d] obtain f1 where f1: "fifo_put f d = Ok (1, f1)" "fifo_wf f1"
      "fifo_cap f1 = fifo_cap f" "fifo_items f1 = fifo_items f @ [d]" by blast
    have "fifo_cap f - length (fifo_items f) = Suc (fifo_cap f - length (fifo_items f1))"
      using True f1(4) by simp
    with Cons.IH [OF f1(2)] f1 show ?thesis by auto
  next
    case False
    hence "length (fifo_items f) = fifo_cap f" using fifo_items_len [OF Cons.prems] by simp
    with fifo_put_full [OF Cons.prems this, of d] Cons.IH [OF Cons.prems] show ?thesis by auto
  qed
qed auto

lemma fifo_cap_bound: "fifo_wf f \<Longrightarrow> length (fifo_items f) < unat (sz f) \<and> unat (sz f) < 2 ^ 62"
  using fifo_items_len [of f] fifo_wfD [of f] by (auto simp: fifo_cap_def)

lemma fifo_read_loop_eq:
  "fifo_wf f \<Longrightarrow> length (fifo_items f) < k \<Longrightarrow> length acc \<le> unat n \<Longrightarrow>
    \<exists>f'. fifo_read_loop k f n skip acc = Ok (acc @ take (unat n - length acc) (drop (unat skip) (fifo_items f)), f')
      \<and> fifo_wf f' \<and> fifo_items f' = (if length acc < unat n then drop (unat skip + (unat n - length acc)) (fifo_items f)
          else fifo_items f)"
proof (induction k arbitrary: f skip acc)
  case (Suc k)
  have len: "length acc < 2 ^ 64" by (rule le_less_trans [OF Suc.prems(3)]) simp
  have lt: "of_nat (length acc) < n \<longleftrightarrow> length acc < unat n"
    using len by (simp add: word_less_nat_alt unsigned_of_nat take_bit_nat_eq_self)
  have sz: "fifo_size f = Ok (of_nat (length (fifo_items f)))" by (rule fifo_size_Ok [OF Suc.prems(1)])
  have pos: "0 < (of_nat (length (fifo_items f)) :: u64) \<longleftrightarrow> fifo_items f \<noteq> []"
    using fifo_cap_bound [OF Suc.prems(1)]
    by (simp add: word_less_nat_alt unsigned_of_nat take_bit_nat_eq_self)
  show ?case
  proof (cases "length acc < unat n \<and> fifo_items f \<noteq> []")
    case False
    with Suc.prems sz pos lt show ?thesis by (cases "length acc < unat n") auto
  next
    case True
    then obtain d ds where it: "fifo_items f = d # ds" by (cases "fifo_items f") auto
    from fifo_get_cons [OF Suc.prems(1) it] obtain f1 where
      g: "fifo_get f = Ok (d, f1)" "fifo_wf f1" "fifo_items f1 = ds" by blast
    show ?thesis
    proof (cases "0 < skip")
      case sk: True
      hence u: "unat skip = Suc (unat (skip - 1))"
        by (metis Suc_pred' unat_gt_0 unat_minus_one word_not_simps(1))
      have "length (fifo_items f1) < k" using Suc.prems(2) it g(3) by simp
      from Suc.IH [OF g(2) this Suc.prems(3), of "skip - 1"] sk True g sz pos lt it u show ?thesis by auto
    next
      case sk: False
      have z: "skip = 0" using sk word_gt_0 [of skip] by blast
      have l: "length (fifo_items f1) < k" "length (acc @ [d]) \<le> unat n" using Suc.prems(2) it g(3) True by auto
      have e: "unat n - length acc = Suc (unat n - length (acc @ [d]))" using True by (simp add: Suc_diff_Suc)
      have "unat (0 :: u64) = 0" by simp
      with Suc.IH [OF g(2) l, of 0] sk z True g sz pos lt it e show ?thesis
        by (auto simp del: length_append split: if_splits)
    qed
  qed
qed simp

text \<open>C40: reading from a FIFO through its driver always ends; it drops the first \<open>skip\<close> bytes waiting,
  delivers the next \<open>n\<close> (or what there is) in the order they came, reports their number, and leaves the
  rest in the queue.\<close>

theorem fifo_dd_read_takes:
  assumes "fifo_wf f" and "0 < n"
  shows "\<exists>f'. fifo_dd_read f n skip =
      Ok (of_nat (length (take (unat n) (drop (unat skip) (fifo_items f)))), take (unat n) (drop (unat skip) (fifo_items f)), f')
    \<and> fifo_wf f' \<and> fifo_items f' = drop (unat skip + unat n) (fifo_items f)"
proof -
  have k: "length (fifo_items f) < unat (sz f) + 1" using fifo_cap_bound [OF assms(1)] by simp
  have n: "0 < unat n" using assms(2) by (simp add: word_less_nat_alt)
  from fifo_read_loop_eq [OF assms(1) k, of "[]" n skip] n show ?thesis
    by (auto simp: fifo_dd_read_def)
qed

text \<open>writing to a FIFO through its driver appends the bytes in order as long as the queue has room
  and drops the rest, keeping the queue well formed; the count it returns is \<open>n\<close> all the same.\<close>

theorem fifo_dd_write_appends:
  assumes "fifo_wf f" and "unat n \<le> length bs"
  shows "\<exists>f'. fifo_dd_write f n skip bs = Ok (n, f') \<and> fifo_wf f' \<and> fifo_cap f' = fifo_cap f
    \<and> fifo_items f' = fifo_items f @ take (fifo_cap f - length (fifo_items f)) (take (unat n) bs)"
  using fifo_put_bytes_all [OF assms(1), of "take (unat n) bs"] assms(2)
  by (auto simp: fifo_dd_write_def)

text \<open>bytes written one after the other while they fit are read back one after the other, in the
  order they came, behind the ones that were waiting, and the queue is empty afterwards.\<close>

theorem fifo_put_get_roundtrip:
  assumes "fifo_wf f" and "length (fifo_items f) + length ds \<le> fifo_cap f"
  shows "\<exists>f1 f2. fifo_put_bytes f ds = Ok f1
    \<and> get_n fifo_get (length (fifo_items f) + length ds) f1 = Ok (fifo_items f @ ds, f2)
    \<and> fifo_items f2 = []"
  unfolding fifo_put_bytes_eq using fq.fifo_order [OF assms] by blast

definition fifo_example :: fifo where
  "fifo_example = \<lparr>buf = [5, 6, 7, 8], head = 3, tail = 1, sz = 4, free = 0\<rparr>"

lemma fifo_example_wf: "fifo_wf fifo_example" "fifo_items fifo_example = [8, 5]" "fifo_cap fifo_example = 3"
  by (simp_all add: fifo_example_def fifo_wf_def fifo_items_def ring_list_def ring_defs fifo_cap_def upt_rec)

theorem fifo_dd_read_takes_witness:
  "\<exists>f'. fifo_dd_read fifo_example 7 1 = Ok (1, [5], f') \<and> fifo_items f' = []"
  using fifo_dd_read_takes [OF fifo_example_wf(1), of 7 1] by (auto simp: fifo_example_wf(2))

theorem fifo_dd_write_appends_witness:
  "\<exists>f'. fifo_dd_write fifo_example 2 0 [1, 2, 3] = Ok (2, f') \<and> fifo_items f' = [8, 5, 1]"
  using fifo_dd_write_appends [OF fifo_example_wf(1), of 2 "[1, 2, 3]" 0]
  by (auto simp: fifo_example_wf(2,3))

theorem fifo_put_get_roundtrip_witness:
  "\<exists>f1 f2. fifo_put_bytes fifo_example [9] = Ok f1 \<and> get_n fifo_get 3 f1 = Ok ([8, 5, 9], f2) \<and> fifo_items f2 = []"
  using fifo_put_get_roundtrip [OF fifo_example_wf(1), of "[9]"]
  by (auto simp: fifo_example_wf(2,3) numeral_3_eq_3)

end
