(* ===== verification/LineDiscipline.thy ===== *)
theory LineDiscipline
  imports RingBuffer "HOL-Library.Signed_Division"
begin

text \<open>The line discipline of the terminals (\<open>drivers/tty/ld/line_discipline.c\<close>): it edits a line in a
  circular buffer and hands it to its parent on carriage return. The parent's two callbacks are
  arguments of the operations; \<open>echo\<close> is \<open>None\<close> for a null pointer. A C \<open>char\<close> is a signed byte, the
  indices are C \<open>int\<close>s and \<open>%\<close> truncates towards zero (\<open>smod\<close>). The messages some actions print are not
  modelled.\<close>

section \<open>The action table\<close>

datatype ld_action = Ignore | Bell | Eof | Erase | Htab | Lfeed | Vtab | Newpage | Cret
  | Restart_out | Stop_out | Sigint | Sigstop | Del

record ld_entry =
  e_output :: "u8 list"
  e_inserti :: "u8 list"
  e_inserto :: "u8 list"
  e_action :: ld_action

abbreviation "LD_NULL \<equiv> (0 :: u8)"
abbreviation "LD_BACKSPACE \<equiv> (8 :: u8)"
abbreviation "LD_LINE_FEED \<equiv> (10 :: u8)"
abbreviation "LD_CARRIAGE_RETURN \<equiv> (13 :: u8)"
abbreviation "LD_DEL \<equiv> (127 :: u8)"

definition nulls :: "u8 list" where
  "nulls = [LD_NULL, LD_NULL, LD_NULL, LD_NULL]"

definition quiet :: "ld_action \<Rightarrow> ld_entry" where
  "quiet a = \<lparr>e_output = nulls, e_inserti = nulls, e_inserto = nulls, e_action = a\<rparr>"

definition default_ld_table :: "ld_entry list" where
  "default_ld_table =
    [quiet Ignore, quiet Ignore, quiet Ignore, quiet Sigint, quiet Eof, quiet Ignore, quiet Ignore, quiet Bell,
     (quiet Erase)\<lparr>e_output := [8, 32, 8, LD_NULL]\<rparr>,
     quiet Htab,
     (quiet Lfeed)\<lparr>e_output := [10, LD_NULL, LD_NULL, LD_NULL], e_inserto := [13, 10, LD_NULL, LD_NULL]\<rparr>,
     quiet Vtab, quiet Newpage,
     (quiet Cret)\<lparr>e_output := [13, 10, LD_NULL, LD_NULL], e_inserto := [LD_NULL, 10, LD_NULL, LD_NULL]\<rparr>,
     quiet Ignore, quiet Ignore, quiet Ignore, quiet Restart_out, quiet Ignore, quiet Stop_out, quiet Ignore,
     quiet Ignore, quiet Ignore, quiet Ignore, quiet Ignore, quiet Ignore, quiet Sigstop, quiet Del]"

section \<open>State\<close>

abbreviation "MODE_RAW \<equiv> (0 :: int)"
abbreviation "MODE_CANONICAL \<equiv> (1 :: int)"
abbreviation "MODE_ECHO_ON \<equiv> (0 :: int)"
abbreviation "MODE_ECHO_OFF \<equiv> (1 :: int)"

record ldisc =
  ld_mode :: int
  ld_echo :: int
  ld_valid :: int
  ld_buffer :: "u8 list"
  ld_size :: int
  ld_head :: int
  ld_tail :: int
  ld_table :: "ld_entry list"

text \<open>\<open>hdr\<close> and \<open>mem\<close> are what the two calls of \<open>kmalloc\<close> give.\<close>

definition line_discipline_create :: "bool \<Rightarrow> u8 list option \<Rightarrow> int \<Rightarrow> int \<Rightarrow> int \<Rightarrow> int \<Rightarrow> ldisc option" where
  "line_discipline_create hdr mem m e table buffer_size = (if \<not> hdr then None
     else case mem of None \<Rightarrow> None | Some b \<Rightarrow>
       Some \<lparr>ld_mode = (if m = MODE_RAW \<or> m = MODE_CANONICAL then m else MODE_CANONICAL),
             ld_echo = (if e = MODE_ECHO_ON \<or> e = MODE_ECHO_OFF then e else MODE_ECHO_ON),
             ld_valid = 1, ld_buffer = b, ld_size = buffer_size, ld_head = 0, ld_tail = 0,
             ld_table = default_ld_table\<rparr>)"

definition line_discipline_set_mode :: "ldisc \<Rightarrow> int \<Rightarrow> ldisc" where
  "line_discipline_set_mode ld m = (if ld_valid ld = 1 \<and> (m = MODE_RAW \<or> m = MODE_CANONICAL)
     then ld\<lparr>ld_mode := m\<rparr> else ld)"

definition line_discipline_set_echo :: "ldisc \<Rightarrow> int \<Rightarrow> ldisc" where
  "line_discipline_set_echo ld e = (if ld_valid ld = 1 \<and> (e = MODE_ECHO_ON \<or> e = MODE_ECHO_OFF)
     then ld\<lparr>ld_echo := e\<rparr> else ld)"

section \<open>Editing\<close>

definition crem :: "int \<Rightarrow> int \<Rightarrow> int result" where
  "crem a b = (if b = 0 then Err Fault else Ok (a smod b))"

definition wri :: "'a list \<Rightarrow> int \<Rightarrow> 'a \<Rightarrow> 'a list result" where
  "wri xs i v = (if i < 0 then Err Fault else wr xs (nat i) v)"

definition line_discipline_delete_last :: "ldisc \<Rightarrow> ldisc result" where
  "line_discipline_delete_last ld = (if ld_valid ld = 0 then Ok ld
     else if ld_tail ld = ld_head ld then Ok ld
     else rbind (crem (ld_tail ld - 1) (ld_size ld)) (\<lambda>t. Ok (ld\<lparr>ld_tail := t\<rparr>)))"

definition line_discipline_insert :: "ldisc \<Rightarrow> u8 \<Rightarrow> ldisc result" where
  "line_discipline_insert ld c = (if ld_valid ld = 0 then Ok ld
     else if c = LD_NULL then Ok ld
     else rbind (wri (ld_buffer ld) (ld_tail ld) c) (\<lambda>b.
       rbind (crem (ld_tail ld + 1) (ld_size ld)) (\<lambda>t.
         if t = ld_head ld
         then rbind (crem (ld_head ld + 1) (ld_size ld)) (\<lambda>h.
           Ok (ld\<lparr>ld_buffer := b, ld_tail := t, ld_head := h\<rparr>))
         else Ok (ld\<lparr>ld_buffer := b, ld_tail := t\<rparr>))))"

fun ld_insert_all :: "ldisc \<Rightarrow> u8 list \<Rightarrow> ldisc result" where
  "ld_insert_all ld [] = Ok ld"
| "ld_insert_all ld (c # cs) = rbind (line_discipline_insert ld c) (\<lambda>ld1. ld_insert_all ld1 cs)"

text \<open>The \<open>size\<close> bytes that follow \<open>&buffer[head]\<close>, which \<open>flush_cb\<close> copies: a fault when they reach
  past the end of the buffer.\<close>

definition ld_slice :: "u8 list \<Rightarrow> int \<Rightarrow> int \<Rightarrow> u8 list result" where
  "ld_slice b h n = (if h < 0 \<or> int (length b) < h + n then Err Fault
     else Ok (take (nat n) (drop (nat h) b)))"

definition line_discipline_force_flush :: "('p \<Rightarrow> u8 list \<Rightarrow> 'p result) \<Rightarrow> ldisc \<Rightarrow> 'p \<Rightarrow> (ldisc \<times> 'p) result" where
  "line_discipline_force_flush flush ld p = (if ld_valid ld \<noteq> 1 then Ok (ld, p)
     else if ld_mode ld = MODE_CANONICAL
     then rbind (crem (ld_tail ld - ld_head ld + ld_size ld) (ld_size ld)) (\<lambda>n.
       rbind (ld_slice (ld_buffer ld) (ld_head ld) n) (\<lambda>bs.
         rbind (flush p bs) (\<lambda>p1. Ok (ld\<lparr>ld_head := ld_tail ld\<rparr>, p1))))
     else Ok (ld, p))"

section \<open>Reading a character\<close>

fun echo_bytes :: "('p \<Rightarrow> u8 \<Rightarrow> 'p result) option \<Rightarrow> 'p \<Rightarrow> u8 list \<Rightarrow> 'p result" where
  "echo_bytes None p cs = (if cs = [] then Ok p else Err Fault)"
| "echo_bytes (Some e) p [] = Ok p"
| "echo_bytes (Some e) p (c # cs) = rbind (e p c) (\<lambda>p1. echo_bytes (Some e) p1 cs)"

definition ld_echoes :: "('p \<Rightarrow> u8 \<Rightarrow> 'p result) option \<Rightarrow> ldisc \<Rightarrow> 'p \<Rightarrow> u8 list \<Rightarrow> 'p result" where
  "ld_echoes echo ld p cs = (if ld_echo ld = MODE_ECHO_ON \<and> echo \<noteq> None then echo_bytes echo p cs else Ok p)"

definition ld_plain :: "u8 \<Rightarrow> bool" where
  "ld_plain c \<longleftrightarrow> c \<noteq> LD_DEL \<and> (sint c < 0 \<or> 27 < sint c)"

text \<open>The functions of the action column; those that only print leave the state alone.\<close>

definition ld_act :: "('p \<Rightarrow> u8 list \<Rightarrow> 'p result) \<Rightarrow> ld_action \<Rightarrow> ldisc \<Rightarrow> 'p \<Rightarrow> (ldisc \<times> 'p) result" where
  "ld_act flush a ld p = (case a of
      Erase \<Rightarrow> rbind (line_discipline_delete_last ld) (\<lambda>ld1. Ok (ld1, p))
    | Cret \<Rightarrow> line_discipline_force_flush flush ld p
    | _ \<Rightarrow> Ok (ld, p))"

definition line_discipline_apply ::
  "('p \<Rightarrow> u8 list \<Rightarrow> 'p result) \<Rightarrow> ('p \<Rightarrow> u8 \<Rightarrow> 'p result) option \<Rightarrow> ldisc \<Rightarrow> 'p \<Rightarrow> u8 \<Rightarrow> (ldisc \<times> 'p) result" where
  "line_discipline_apply flush echo ld p c = (if ld_valid ld \<noteq> 1 then Ok (ld, p)
     else if ld_plain c
     then rbind (line_discipline_insert ld c) (\<lambda>ld1.
       rbind (ld_echoes echo ld1 p [c]) (\<lambda>p1. Ok (ld1, p1)))
     else if c = LD_DEL
     then rbind (line_discipline_delete_last ld) (\<lambda>ld1.
       rbind (echo_bytes echo p [8, 32, 8]) (\<lambda>p1. Ok (ld1, p1)))
     else rbind (rd (ld_table ld) (unat c)) (\<lambda>e.
       rbind (ld_insert_all ld (e_inserti e)) (\<lambda>ld1.
         rbind (ld_echoes echo ld1 p (takeWhile (\<lambda>x. x \<noteq> LD_NULL) (e_output e))) (\<lambda>p1.
           ld_act flush (e_action e) ld1 p1))))"

definition line_discipline_read ::
  "('p \<Rightarrow> u8 list \<Rightarrow> 'p result) \<Rightarrow> ('p \<Rightarrow> u8 \<Rightarrow> 'p result) option \<Rightarrow> ldisc \<Rightarrow> 'p \<Rightarrow> u8 \<Rightarrow> (ldisc \<times> 'p) result" where
  "line_discipline_read flush echo ld p c = (if ld_valid ld \<noteq> 1 then Ok (ld, p)
     else if ld_mode ld = MODE_RAW
     then rbind (ld_echoes echo ld p [c]) (\<lambda>p1. rbind (flush p1 [c]) (\<lambda>p2. Ok (ld, p2)))
     else if ld_mode ld = MODE_CANONICAL then line_discipline_apply flush echo ld p c
     else Ok (ld, p))"

text \<open>The characters written to the terminal for one character of output, stored in
  \<open>translated_characters\<close>.\<close>

definition line_discipline_translate :: "ldisc \<Rightarrow> u8 \<Rightarrow> u8 list result" where
  "line_discipline_translate ld c = (if ld_valid ld \<noteq> 1 then Ok [c]
     else if ld_mode ld = MODE_RAW then Ok [c]
     else if ld_mode ld = MODE_CANONICAL
     then (if ld_plain c then Ok [c]
           else rbind (rd (ld_table ld) (unat c)) (\<lambda>e. Ok (takeWhile (\<lambda>x. x \<noteq> LD_NULL) (e_inserto e))))
     else Ok [c])"

fun read_chars ::
  "('p \<Rightarrow> u8 list \<Rightarrow> 'p result) \<Rightarrow> ('p \<Rightarrow> u8 \<Rightarrow> 'p result) option \<Rightarrow> ldisc \<Rightarrow> 'p \<Rightarrow> u8 list \<Rightarrow> (ldisc \<times> 'p) result" where
  "read_chars flush echo ld p [] = Ok (ld, p)"
| "read_chars flush echo ld p (c # cs) = rbind (line_discipline_read flush echo ld p c)
     (\<lambda>(ld1, p1). read_chars flush echo ld1 p1 cs)"

section \<open>Well-formed buffers\<close>

definition ld_wf :: "ldisc \<Rightarrow> bool" where
  "ld_wf ld \<longleftrightarrow> ld_valid ld = 1 \<and> ld_size ld = int (length (ld_buffer ld)) \<and> 1 < ld_size ld
    \<and> 0 \<le> ld_head ld \<and> ld_head ld < ld_size ld \<and> 0 \<le> ld_tail ld \<and> ld_tail ld < ld_size ld
    \<and> ld_table ld = default_ld_table"

definition ld_items :: "ldisc \<Rightarrow> u8 list" where
  "ld_items ld = ring_list (ld_buffer ld) (nat (ld_head ld)) (nat (ld_tail ld))"

lemma crem_pos: "0 \<le> a \<Longrightarrow> 0 < b \<Longrightarrow> crem a b = Ok (a mod b)"
  by (simp add: crem_def smod_mod_positive)

lemma crem_Suc:
  assumes "0 \<le> i" "i < n"
  shows "crem (i + 1) n = Ok (int (ring_inc (nat n) (nat i)))"
proof -
  have "(i + 1) mod n = int (ring_inc (nat n) (nat i))"
  proof (cases "i + 1 = n")
    case True then show ?thesis using assms by (simp add: ring_inc_def nat_eq_iff)
  next
    case False
    hence "i + 1 < n" using assms by simp
    then show ?thesis using assms by (auto simp: ring_inc_def mod_pos_pos_trivial)
  qed
  then show ?thesis using assms by (simp add: crem_pos)
qed

lemma ld_wf_nat:
  assumes "ld_wf ld"
  shows "nat (ld_head ld) < length (ld_buffer ld)" "nat (ld_tail ld) < length (ld_buffer ld)"
    "nat (ld_size ld) = length (ld_buffer ld)" "1 < length (ld_buffer ld)"
  using assms by (auto simp: ld_wf_def)

lemma insert_wf:
  assumes "ld_wf ld" and "c \<noteq> LD_NULL"
  defines "t \<equiv> ring_inc (length (ld_buffer ld)) (nat (ld_tail ld))"
  shows "line_discipline_insert ld c = Ok (ld\<lparr>ld_buffer := (ld_buffer ld)[nat (ld_tail ld) := c], ld_tail := int t,
    ld_head := (if int t = ld_head ld then int (ring_inc (length (ld_buffer ld)) (nat (ld_head ld))) else ld_head ld)\<rparr>)"
proof -
  note w = ld_wf_nat [OF assms(1)]
  have a: "0 \<le> ld_tail ld" "ld_tail ld < ld_size ld" "0 \<le> ld_head ld" "ld_head ld < ld_size ld" "ld_valid ld = 1"
    using assms(1) by (auto simp: ld_wf_def)
  show ?thesis using w a assms(2)
    by (simp add: line_discipline_insert_def wri_def crem_Suc t_def)
qed

lemma insert_null: "line_discipline_insert ld LD_NULL = Ok ld"
  by (simp add: line_discipline_insert_def)

lemma insert_nulls: "ld_insert_all ld nulls = Ok ld"
  by (simp add: nulls_def insert_null)

lemma insert_room:
  assumes "ld_wf ld" and "c \<noteq> LD_NULL" and "length (ld_items ld) + 1 < length (ld_buffer ld)"
  shows "\<exists>ld'. line_discipline_insert ld c = Ok ld' \<and> ld_wf ld' \<and> ld_items ld' = ld_items ld @ [c]
    \<and> ld_head ld' = ld_head ld \<and> ld_mode ld' = ld_mode ld \<and> ld_echo ld' = ld_echo ld
    \<and> length (ld_buffer ld') = length (ld_buffer ld)"
proof -
  note w = ld_wf_nat [OF assms(1)]
  have ne: "ring_inc (length (ld_buffer ld)) (nat (ld_tail ld)) \<noteq> nat (ld_head ld)"
    using assms(3) ring_cnt_room [OF w(1,2)] by (simp add: ld_items_def)
  hence ne': "int (ring_inc (length (ld_buffer ld)) (nat (ld_tail ld))) \<noteq> ld_head ld" by auto
  have "int (ring_inc (length (ld_buffer ld)) (nat (ld_tail ld))) < int (length (ld_buffer ld))"
    using w(2) by simp
  then show ?thesis
    using insert_wf [OF assms(1,2)] assms(1) ne' ring_put [OF w(1,2) ne, of c]
    by (auto simp: ld_wf_def ld_items_def)
qed

text \<open>A full line keeps its last characters: the oldest one makes room.\<close>

lemma insert_full:
  assumes "ld_wf ld" and "c \<noteq> LD_NULL" and "length (ld_items ld) + 1 = length (ld_buffer ld)"
  shows "\<exists>ld'. line_discipline_insert ld c = Ok ld' \<and> ld_wf ld' \<and> ld_items ld' = tl (ld_items ld) @ [c]"
proof -
  note w = ld_wf_nat [OF assms(1)]
  have eq: "ring_inc (length (ld_buffer ld)) (nat (ld_tail ld)) = nat (ld_head ld)"
    using assms(3) ring_cnt_room [OF w(1,2)] by (auto simp: ld_items_def)
  have "int (ring_inc (length (ld_buffer ld)) (nat (ld_head ld))) < int (length (ld_buffer ld))"
    "int (ring_inc (length (ld_buffer ld)) (nat (ld_tail ld))) < int (length (ld_buffer ld))"
    using w(1,2) by simp_all
  then show ?thesis
    using insert_wf [OF assms(1,2)] assms(1) eq ring_put_full [OF w(1,2) eq w(4), of c]
    by (auto simp: ld_wf_def ld_items_def)
qed

lemma delete_last_items:
  assumes "ld_wf ld" and "0 < ld_tail ld"
  shows "\<exists>ld'. line_discipline_delete_last ld = Ok ld' \<and> ld_wf ld' \<and> ld_items ld' = butlast (ld_items ld)
    \<and> ld_head ld' = ld_head ld \<and> ld_mode ld' = ld_mode ld \<and> ld_echo ld' = ld_echo ld
    \<and> ld_buffer ld' = ld_buffer ld"
proof (cases "ld_tail ld = ld_head ld")
  case True
  then show ?thesis using assms(1) by (simp add: line_discipline_delete_last_def ld_wf_def ld_items_def)
next
  case False
  note w = ld_wf_nat [OF assms(1)]
  have c: "crem (ld_tail ld - 1) (ld_size ld) = Ok (ld_tail ld - 1)"
  proof -
    have a: "0 \<le> ld_tail ld - 1" "ld_tail ld - 1 < ld_size ld" "0 < ld_size ld" using assms by (auto simp: ld_wf_def)
    show ?thesis using crem_pos [OF a(1,3)] mod_pos_pos_trivial [OF a(1,2)] by simp
  qed
  have d: "ring_dec (length (ld_buffer ld)) (nat (ld_tail ld)) = nat (ld_tail ld - 1)"
    using assms(2) by (auto simp: ring_dec_def)
  have ne: "nat (ld_head ld) \<noteq> nat (ld_tail ld)" using False assms(1) by (simp add: ld_wf_def eq_nat_nat_iff)
  show ?thesis using assms False c ring_drop_last [OF w(1,2) ne] unfolding d
    by (auto simp: line_discipline_delete_last_def ld_wf_def ld_items_def)
qed

text \<open>With the tail at the start of the buffer the truncating remainder gives \<open>-1\<close>.\<close>

lemma delete_last_underflow:
  assumes "ld_wf ld" and "ld_tail ld = 0" and "ld_head ld \<noteq> 0"
  shows "line_discipline_delete_last ld = Ok (ld\<lparr>ld_tail := -1\<rparr>)"
proof -
  have "crem (-1) (ld_size ld) = Ok (-1)"
    using assms(1) by (auto simp: crem_def smod_int_alt_def ld_wf_def mod_pos_pos_trivial)
  then show ?thesis using assms by (auto simp: line_discipline_delete_last_def ld_wf_def)
qed

section \<open>A typed line\<close>

text \<open>The characters a user edits a line with, and the line they leave.\<close>

definition ld_erases :: "u8 \<Rightarrow> bool" where
  "ld_erases c \<longleftrightarrow> c = LD_BACKSPACE \<or> c = LD_DEL"

definition edit_char :: "u8 list \<Rightarrow> u8 \<Rightarrow> u8 list" where
  "edit_char l c = (if ld_erases c then butlast l else l @ [c])"

definition edit_line :: "u8 list \<Rightarrow> u8 list" where
  "edit_line cs = foldl edit_char [] cs"

definition ld_editing :: "u8 \<Rightarrow> bool" where
  "ld_editing c \<longleftrightarrow> ld_plain c \<or> ld_erases c"

lemma ld_plain_nonzero: "ld_plain c \<Longrightarrow> c \<noteq> LD_NULL"
  by (auto simp: ld_plain_def)

lemma not_plain: "\<not> ld_plain LD_BACKSPACE" "\<not> ld_plain LD_DEL" "\<not> ld_plain LD_CARRIAGE_RETURN"
  by (simp_all add: ld_plain_def)

lemma not_erases_plain: "ld_plain c \<Longrightarrow> \<not> ld_erases c"
  using not_plain by (auto simp: ld_erases_def)

lemma table_backspace: "rd default_ld_table 8 = Ok ((quiet Erase)\<lparr>e_output := [8, 32, 8, LD_NULL]\<rparr>)"
  by (simp add: default_ld_table_def)

lemma table_cret: "rd default_ld_table 13 =
    Ok ((quiet Cret)\<lparr>e_output := [13, 10, LD_NULL, LD_NULL], e_inserto := [LD_NULL, 10, LD_NULL, LD_NULL]\<rparr>)"
  by (simp add: default_ld_table_def)

text \<open>What the line discipline needs of its parent: echoing never fails and leaves the input alone,
  and a flushed line is appended to the input while it has room.\<close>

locale ld_parent =
  fixes flush :: "'p \<Rightarrow> u8 list \<Rightarrow> 'p result"
    and echo :: "'p \<Rightarrow> u8 \<Rightarrow> 'p result"
    and pwf :: "'p \<Rightarrow> bool"
    and room :: "'p \<Rightarrow> nat"
    and input :: "'p \<Rightarrow> u8 list"
  assumes echo_keeps: "pwf p \<Longrightarrow> \<exists>p'. echo p c = Ok p' \<and> pwf p' \<and> input p' = input p \<and> room p' = room p"
    and flush_appends: "pwf p \<Longrightarrow> length (input p) + length bs \<le> room p \<Longrightarrow>
      \<exists>p'. flush p bs = Ok p' \<and> pwf p' \<and> input p' = input p @ bs \<and> room p' = room p"
begin

lemma echoes_keep:
  "pwf p \<Longrightarrow> \<exists>p'. echo_bytes (Some echo) p cs = Ok p' \<and> pwf p' \<and> input p' = input p \<and> room p' = room p"
proof (induction cs arbitrary: p)
  case (Cons c cs)
  from echo_keeps [OF Cons.prems, of c] Cons.IH show ?case by fastforce
qed auto

lemma ld_echoes_keep:
  "pwf p \<Longrightarrow> \<exists>p'. ld_echoes (Some echo) ld p cs = Ok p' \<and> pwf p' \<and> input p' = input p \<and> room p' = room p"
  using echoes_keep by (auto simp: ld_echoes_def)

definition typing :: "ldisc \<Rightarrow> 'p \<Rightarrow> nat \<Rightarrow> bool" where
  "typing ld p k \<longleftrightarrow> ld_wf ld \<and> pwf p \<and> ld_mode ld = MODE_CANONICAL \<and> ld_head ld \<le> ld_tail ld
    \<and> nat (ld_tail ld) + k < length (ld_buffer ld)"

lemma typing_items:
  assumes "typing ld p k"
  shows "length (ld_items ld) + nat (ld_head ld) = nat (ld_tail ld)" "length (ld_items ld) + k + 1 \<le> length (ld_buffer ld)"
  using assms by (auto simp: typing_def ld_wf_def ld_items_def ring_cnt_def)

lemma typing_insert:
  assumes t: "typing ld p (Suc k)" and c: "ld_plain c"
  shows "\<exists>ld'. line_discipline_insert ld c = Ok ld' \<and> typing ld' p k \<and> ld_items ld' = ld_items ld @ [c]
    \<and> ld_head ld' = ld_head ld"
proof -
  have w: "ld_wf ld" and b: "nat (ld_tail ld) + Suc k < length (ld_buffer ld)" "ld_head ld \<le> ld_tail ld" "0 \<le> ld_tail ld"
    using t by (auto simp: typing_def ld_wf_def)
  have r: "length (ld_items ld) + 1 < length (ld_buffer ld)" using typing_items [OF t] by simp
  have ne: "c \<noteq> LD_NULL" using c by (rule ld_plain_nonzero)
  have i: "ring_inc (length (ld_buffer ld)) (nat (ld_tail ld)) = nat (ld_tail ld) + 1"
    using b by (auto simp: ring_inc_def)
  have ins: "line_discipline_insert ld c = Ok (ld\<lparr>ld_buffer := (ld_buffer ld)[nat (ld_tail ld) := c], ld_tail := ld_tail ld + 1\<rparr>)"
    using insert_wf [OF w ne] b unfolding i by auto
  from insert_room [OF w ne r] ins obtain ld' where l: "line_discipline_insert ld c = Ok ld'" "ld_wf ld'"
    "ld_items ld' = ld_items ld @ [c]" "ld_head ld' = ld_head ld" "ld_mode ld' = ld_mode ld"
    "length (ld_buffer ld') = length (ld_buffer ld)" "ld_tail ld' = ld_tail ld + 1" by auto
  have "typing ld' p k" using t l b unfolding typing_def by auto
  with l show ?thesis by blast
qed

lemma typing_delete:
  assumes t: "typing ld p (Suc k)"
  shows "\<exists>ld'. line_discipline_delete_last ld = Ok ld' \<and> typing ld' p k \<and> ld_items ld' = butlast (ld_items ld)
    \<and> ld_head ld' = ld_head ld"
proof (cases "ld_tail ld = ld_head ld")
  case True
  then show ?thesis using t by (simp add: line_discipline_delete_last_def typing_def ld_wf_def ld_items_def)
next
  case False
  hence w: "ld_wf ld" and b: "0 < ld_tail ld" "ld_head ld \<le> ld_tail ld - 1"
    using t by (auto simp: typing_def ld_wf_def)
  have s: "0 \<le> ld_tail ld - 1" "ld_tail ld - 1 < ld_size ld" "0 < ld_size ld" using w b by (auto simp: ld_wf_def)
  have c: "crem (ld_tail ld - 1) (ld_size ld) = Ok (ld_tail ld - 1)"
    using crem_pos [OF s(1,3)] mod_pos_pos_trivial [OF s(1,2)] by simp
  have d: "line_discipline_delete_last ld = Ok (ld\<lparr>ld_tail := ld_tail ld - 1\<rparr>)"
    using False w c by (simp add: line_discipline_delete_last_def ld_wf_def)
  from delete_last_items [OF w b(1)] d obtain ld' where l: "line_discipline_delete_last ld = Ok ld'" "ld_wf ld'"
    "ld_items ld' = butlast (ld_items ld)" "ld_head ld' = ld_head ld" "ld_mode ld' = ld_mode ld"
    "ld_buffer ld' = ld_buffer ld" "ld_tail ld' = ld_tail ld - 1" by auto
  have "typing ld' p k" using t l b unfolding typing_def by auto
  with l show ?thesis by blast
qed

lemma typing_parent: "typing ld p k \<Longrightarrow> pwf p' \<Longrightarrow> typing ld p' k"
  by (simp add: typing_def)

lemma typing_read:
  assumes t: "typing ld p (Suc k)" and c: "ld_editing c"
  shows "\<exists>ld' p'. line_discipline_read flush (Some echo) ld p c = Ok (ld', p') \<and> typing ld' p' k
    \<and> ld_items ld' = edit_char (ld_items ld) c \<and> input p' = input p \<and> room p' = room p"
proof -
  have v: "ld_valid ld = 1" "ld_mode ld = MODE_CANONICAL" "pwf p" "ld_table ld = default_ld_table"
    using t by (auto simp: typing_def ld_wf_def)
  consider "ld_plain c" | "c = LD_DEL" | "c = LD_BACKSPACE"
    using c by (auto simp: ld_editing_def ld_erases_def)
  then show ?thesis
  proof cases
    case 1
    from typing_insert [OF t 1] obtain ld' where l: "line_discipline_insert ld c = Ok ld'" "typing ld' p k"
      "ld_items ld' = ld_items ld @ [c]" by blast
    from ld_echoes_keep [OF v(3), of ld' "[c]"] obtain p' where "ld_echoes (Some echo) ld' p [c] = Ok p'"
      "pwf p'" "input p' = input p" "room p' = room p" by blast
    with l 1 v show ?thesis
      by (simp add: line_discipline_read_def line_discipline_apply_def edit_char_def not_erases_plain typing_parent)
  next
    case 2
    from typing_delete [OF t] obtain ld' where l: "line_discipline_delete_last ld = Ok ld'" "typing ld' p k"
      "ld_items ld' = butlast (ld_items ld)" by blast
    from echoes_keep [OF v(3), of "[8, 32, 8]"] obtain p' where "echo_bytes (Some echo) p [8, 32, 8] = Ok p'"
      "pwf p'" "input p' = input p" "room p' = room p" by blast
    with l 2 v not_plain(2) show ?thesis
      by (simp del: echo_bytes.simps
          add: line_discipline_read_def line_discipline_apply_def edit_char_def ld_erases_def typing_parent)
  next
    case 3
    from typing_delete [OF t] obtain ld' where l: "line_discipline_delete_last ld = Ok ld'" "typing ld' p k"
      "ld_items ld' = butlast (ld_items ld)" by blast
    from ld_echoes_keep [OF v(3), of ld "[8, 32, 8]"] obtain p' where e: "ld_echoes (Some echo) ld p [8, 32, 8] = Ok p'"
      "pwf p'" "input p' = input p" "room p' = room p" by blast
    from e l 3 v not_plain(1) table_backspace insert_nulls [of ld] show ?thesis
      by (simp del: echo_bytes.simps add: line_discipline_read_def line_discipline_apply_def edit_char_def
          ld_erases_def quiet_def ld_act_def typing_parent)
  qed
qed

lemma typing_chars:
  "typing ld p (length cs + k) \<Longrightarrow> list_all ld_editing cs \<Longrightarrow>
    \<exists>ld' p'. read_chars flush (Some echo) ld p cs = Ok (ld', p') \<and> typing ld' p' k
      \<and> ld_items ld' = foldl edit_char (ld_items ld) cs \<and> input p' = input p \<and> room p' = room p"
proof (induction cs arbitrary: ld p)
  case (Cons c cs)
  from typing_read [of ld p "length cs + k" c] Cons.prems obtain ld1 p1 where
    1: "line_discipline_read flush (Some echo) ld p c = Ok (ld1, p1)" "typing ld1 p1 (length cs + k)"
    "ld_items ld1 = edit_char (ld_items ld) c" "input p1 = input p" "room p1 = room p" by auto
  from Cons.IH [OF 1(2)] Cons.prems(2) 1 show ?case by auto
qed auto

text \<open>Carriage return hands the line over.\<close>

lemma force_flush_flat:
  assumes t: "typing ld p k" and r: "length (input p) + length (ld_items ld) \<le> room p"
  shows "\<exists>ld' p'. line_discipline_force_flush flush ld p = Ok (ld', p') \<and> typing ld' p' k \<and> ld_items ld' = []
    \<and> input p' = input p @ ld_items ld \<and> room p' = room p"
proof -
  have w: "ld_wf ld" "pwf p" "ld_mode ld = MODE_CANONICAL" "ld_head ld \<le> ld_tail ld" using t by (auto simp: typing_def)
  have b: "0 \<le> ld_head ld" "ld_tail ld < ld_size ld" "ld_size ld = int (length (ld_buffer ld))" "ld_valid ld = 1"
    using w(1) by (auto simp: ld_wf_def)
  have "crem (ld_tail ld - ld_head ld + ld_size ld) (ld_size ld) = Ok ((ld_tail ld - ld_head ld + ld_size ld) mod ld_size ld)"
    using w(4) b by (intro crem_pos) auto
  also have "(ld_tail ld - ld_head ld + ld_size ld) mod ld_size ld = ld_tail ld - ld_head ld"
    using w(4) b by (simp add: mod_pos_pos_trivial)
  finally have n: "crem (ld_tail ld - ld_head ld + ld_size ld) (ld_size ld) = Ok (ld_tail ld - ld_head ld)" .
  have "ld_items ld = take (nat (ld_tail ld) - nat (ld_head ld)) (drop (nat (ld_head ld)) (ld_buffer ld))"
    unfolding ld_items_def using w(4) b by (intro ring_list_flat) auto
  hence s: "ld_slice (ld_buffer ld) (ld_head ld) (ld_tail ld - ld_head ld) = Ok (ld_items ld)"
    using b w(4) by (simp add: ld_slice_def nat_diff_distrib)
  from flush_appends [OF w(2) r] obtain p' where "flush p (ld_items ld) = Ok p'" "pwf p'"
    "input p' = input p @ ld_items ld" "room p' = room p" by blast
  moreover have "typing (ld\<lparr>ld_head := ld_tail ld\<rparr>) p k"
    using t by (auto simp: typing_def ld_wf_def)
  moreover have "ld_items (ld\<lparr>ld_head := ld_tail ld\<rparr>) = []" by (simp add: ld_items_def)
  ultimately show ?thesis using n s w b
    by (auto simp: line_discipline_force_flush_def intro: typing_parent)
qed

lemma typing_return:
  assumes t: "typing ld p k" and r: "length (input p) + length (ld_items ld) \<le> room p"
  shows "\<exists>ld' p'. line_discipline_read flush (Some echo) ld p LD_CARRIAGE_RETURN = Ok (ld', p') \<and> typing ld' p' k
    \<and> ld_items ld' = [] \<and> input p' = input p @ ld_items ld \<and> room p' = room p"
proof -
  have v: "ld_valid ld = 1" "ld_mode ld = MODE_CANONICAL" "pwf p" "ld_table ld = default_ld_table"
    using t by (auto simp: typing_def ld_wf_def)
  from ld_echoes_keep [OF v(3), of ld "[13, 10]"] obtain p1 where e: "ld_echoes (Some echo) ld p [13, 10] = Ok p1"
    "pwf p1" "input p1 = input p" "room p1 = room p" by blast
  have t1: "typing ld p1 k" using t e(2) by (rule typing_parent)
  from force_flush_flat [OF t1] r e show ?thesis
    using v not_plain(3) table_cret insert_nulls [of ld]
    by (auto simp del: echo_bytes.simps simp: line_discipline_read_def line_discipline_apply_def quiet_def ld_act_def)
qed

lemma read_chars_append: "read_chars fl ec ld p (cs @ ds) =
    rbind (read_chars fl ec ld p cs) (\<lambda>(ld1, p1). read_chars fl ec ld1 p1 ds)"
proof (induction cs arbitrary: ld p)
  case (Cons c cs)
  then show ?case by (cases "line_discipline_read fl ec ld p c") auto
qed simp

lemma typed_line:
  assumes "typing ld p (length cs)" and "list_all ld_editing cs"
    and "length (input p) + length (foldl edit_char (ld_items ld) cs) \<le> room p"
  shows "\<exists>ld' p'. read_chars flush (Some echo) ld p (cs @ [LD_CARRIAGE_RETURN]) = Ok (ld', p')
    \<and> input p' = input p @ foldl edit_char (ld_items ld) cs \<and> ld_items ld' = [] \<and> ld_wf ld'"
proof -
  from typing_chars [of ld p cs 0] assms(1,2) obtain ld1 p1 where
    1: "read_chars flush (Some echo) ld p cs = Ok (ld1, p1)" "typing ld1 p1 0"
    "ld_items ld1 = foldl edit_char (ld_items ld) cs" "input p1 = input p" "room p1 = room p" by auto
  from typing_return [OF 1(2)] assms(3) 1 obtain ld2 p2 where
    "line_discipline_read flush (Some echo) ld1 p1 LD_CARRIAGE_RETURN = Ok (ld2, p2)" "typing ld2 p2 0"
    "ld_items ld2 = []" "input p2 = input p1 @ ld_items ld1" by auto
  then show ?thesis using 1 by (auto simp: read_chars_append typing_def)
qed

end

section \<open>Lines that wrap around the buffer\<close>

text \<open>once the tail of the line is at the start of the buffer and the line is not empty, erasing a
  character sets the tail to \<open>-1\<close> (the remainder of C), and the next character typed is written in front
  of the buffer.\<close>

theorem ld_erase_underflow:
  assumes "ld_wf ld" and "ld_mode ld = MODE_CANONICAL" and "ld_tail ld = 0" and "ld_head ld \<noteq> 0"
    and "ld_echo ld = MODE_ECHO_OFF" and "ld_plain c"
  shows "read_chars flush echo ld p [LD_BACKSPACE, c] = Err Fault"
proof -
  have v: "ld_valid ld = 1" "ld_table ld = default_ld_table" using assms(1) by (auto simp: ld_wf_def)
  have 1: "line_discipline_read flush echo ld p LD_BACKSPACE = Ok (ld\<lparr>ld_tail := -1\<rparr>, p)"
    using v assms(2,5) not_plain(1) table_backspace insert_nulls [of ld] delete_last_underflow [OF assms(1,3,4)]
    by (simp add: line_discipline_read_def line_discipline_apply_def quiet_def ld_act_def ld_echoes_def)
  have "line_discipline_read flush echo (ld\<lparr>ld_tail := -1\<rparr>) p c = Err Fault"
    using v assms(2,6) ld_plain_nonzero [OF assms(6)]
    by (simp add: line_discipline_read_def line_discipline_apply_def line_discipline_insert_def wri_def)
  with 1 show ?thesis by simp
qed

text \<open>a line that wraps around the end of the buffer is flushed as if it were contiguous: the
  callback reads past the end of the buffer.\<close>

theorem ld_flush_wrapped_overrun:
  assumes "ld_wf ld" and "ld_mode ld = MODE_CANONICAL" and "0 < ld_tail ld" and "ld_tail ld < ld_head ld"
  shows "line_discipline_force_flush flush ld p = Err Fault"
proof -
  have b: "0 \<le> ld_tail ld - ld_head ld + ld_size ld" "ld_tail ld - ld_head ld + ld_size ld < ld_size ld"
    "0 < ld_size ld" "ld_size ld = int (length (ld_buffer ld))" "ld_valid ld = 1"
    using assms by (auto simp: ld_wf_def)
  have "crem (ld_tail ld - ld_head ld + ld_size ld) (ld_size ld) = Ok (ld_tail ld - ld_head ld + ld_size ld)"
    using crem_pos [OF b(1,3)] mod_pos_pos_trivial [OF b(1,2)] by simp
  moreover have "ld_slice (ld_buffer ld) (ld_head ld) (ld_tail ld - ld_head ld + ld_size ld) = Err Fault"
    using assms(3) b(4) by (simp add: ld_slice_def)
  ultimately show ?thesis using assms(2) b(5) by (simp add: line_discipline_force_flush_def)
qed

lemma sint_nonneg_unat:
  assumes "0 \<le> sint (c :: u8)"
  shows "sint c = int (unat c)"
proof -
  have "sint c < 2 ^ 7" using sint_lt [of c] by simp
  hence "take_bit 8 (sint c) = sint c" using assms by (intro take_bit_int_eq_self) simp_all
  moreover have "uint c = take_bit 8 (sint c)" using uint_sint [of c] by simp
  ultimately show ?thesis by simp
qed

lemma control_bound: "\<not> ld_plain c \<Longrightarrow> c \<noteq> LD_DEL \<Longrightarrow> unat c < 28"
proof -
  assume "\<not> ld_plain c" "c \<noteq> LD_DEL"
  hence "0 \<le> sint c" "sint c \<le> 27" by (auto simp: ld_plain_def)
  with sint_nonneg_unat [of c] have "int (unat c) \<le> 27" by metis
  then show "unat c < 28" by linarith
qed

lemma default_table_inserto:
  "i < 28 \<Longrightarrow> takeWhile (\<lambda>x. x \<noteq> LD_NULL) (e_inserto (default_ld_table ! i)) = (if i = 10 then [13, 10] else [])"
proof -
  have "list_all (\<lambda>i. takeWhile (\<lambda>x. x \<noteq> LD_NULL) (e_inserto (default_ld_table ! i)) = (if i = 10 then [13, 10] else [])) [0..<28]"
    by code_simp
  then show "i < 28 \<Longrightarrow> ?thesis" by (simp add: list_all_iff)
qed

text \<open>in canonical mode a character written to a terminal is sent as it is unless it is a control
  character; line feed becomes carriage return and line feed, every other control character is dropped,
  and DEL looks up entry 127 of the action table, which has 28 entries.\<close>

theorem ld_translate_canonical:
  assumes "ld_valid ld = 1" and "ld_mode ld = MODE_CANONICAL" and "ld_table ld = default_ld_table"
  shows "line_discipline_translate ld c = (if ld_plain c then Ok [c] else if c = LD_DEL then Err Fault
    else if c = LD_LINE_FEED then Ok [LD_CARRIAGE_RETURN, LD_LINE_FEED] else Ok [])"
proof (cases "ld_plain c \<or> c = LD_DEL")
  case True
  have "length default_ld_table = 28" by (simp add: default_ld_table_def)
  then show ?thesis using True assms by (auto simp: line_discipline_translate_def rd_def ld_plain_def)
next
  case False
  hence u: "unat c < 28" by (intro control_bound) auto
  have l: "length default_ld_table = 28" by (simp add: default_ld_table_def)
  have "unat c = 10 \<longleftrightarrow> c = LD_LINE_FEED" by (simp add: word_unat_eq_iff)
  then show ?thesis using False assms u l default_table_inserto [OF u]
    by (simp add: line_discipline_translate_def)
qed

definition ld_example :: ldisc where
  "ld_example = \<lparr>ld_mode = 1, ld_echo = 1, ld_valid = 1, ld_buffer = [97, 98, 99, 100], ld_size = 4,
     ld_head = 1, ld_tail = 0, ld_table = default_ld_table\<rparr>"

lemma ld_example_wf: "ld_wf ld_example" "ld_wf (ld_example\<lparr>ld_head := 3, ld_tail := 2\<rparr>)"
  by (simp_all add: ld_wf_def ld_example_def)

theorem ld_erase_underflow_witness:
  "read_chars (\<lambda>p bs. Ok (p @ bs)) None ld_example [] [LD_BACKSPACE, 97] = Err Fault"
  by (rule ld_erase_underflow [OF ld_example_wf(1)]) (simp_all add: ld_example_def ld_plain_def)

theorem ld_flush_wrapped_overrun_witness:
  "line_discipline_force_flush (\<lambda>p bs. Ok (p @ bs)) (ld_example\<lparr>ld_head := 3, ld_tail := 2\<rparr>) [] = Err Fault"
  by (rule ld_flush_wrapped_overrun [OF ld_example_wf(2)]) (simp_all add: ld_example_def)

theorem ld_translate_canonical_witness:
  "line_discipline_translate ld_example LD_LINE_FEED = Ok [LD_CARRIAGE_RETURN, LD_LINE_FEED]"
  using ld_translate_canonical [of ld_example LD_LINE_FEED] by (simp add: ld_example_def ld_plain_def)

end
