(* ===== verification/CString.thy ===== *)
theory CString
  imports Prelude
begin

text \<open>The kernel's string and memory routines (\<open>util/string.c\<close>, \<open>util/ctype.c\<close>). A pointer to bytes is
  the list of the bytes from it to the end of its object; an access behind the object is a fault. A
  returned pointer is the offset from the argument, \<open>None\<close> for a null pointer. A C \<open>char\<close> is signed:
  where the code compares it with an \<open>int\<close>, \<open>sint\<close> is its value. Source and destination are
  different objects.\<close>

section \<open>Character classes\<close>

definition isupper :: "int \<Rightarrow> bool" where "isupper c \<longleftrightarrow> 65 \<le> c \<and> c \<le> 90"
definition islower :: "int \<Rightarrow> bool" where "islower c \<longleftrightarrow> 97 \<le> c \<and> c \<le> 122"
definition isalpha :: "int \<Rightarrow> bool" where "isalpha c \<longleftrightarrow> isupper c \<or> islower c"
definition isdigit :: "int \<Rightarrow> bool" where "isdigit c \<longleftrightarrow> 48 \<le> c \<and> c \<le> 57"
definition isalnum :: "int \<Rightarrow> bool" where "isalnum c \<longleftrightarrow> isalpha c \<or> isdigit c"
definition iscntrl :: "int \<Rightarrow> bool" where "iscntrl c \<longleftrightarrow> 0 \<le> c \<and> c \<le> 31 \<or> c = 127"
definition isgraph :: "int \<Rightarrow> bool" where "isgraph c \<longleftrightarrow> 33 \<le> c \<and> c \<le> 126"
definition isprint :: "int \<Rightarrow> bool" where "isprint c \<longleftrightarrow> 32 \<le> c \<and> c \<le> 126"
definition ispunct :: "int \<Rightarrow> bool" where "ispunct c \<longleftrightarrow> isgraph c \<and> \<not> isalnum c"
definition isspace :: "int \<Rightarrow> bool" where "isspace c \<longleftrightarrow> c = 32 \<or> c = 9"
definition isxdigit :: "int \<Rightarrow> bool" where
  "isxdigit c \<longleftrightarrow> isdigit c \<or> 97 \<le> c \<and> c \<le> 102 \<or> 65 \<le> c \<and> c \<le> 70"
definition tolower :: "int \<Rightarrow> int" where "tolower c = (if isupper c then c + 32 else c)"
definition toupper :: "int \<Rightarrow> int" where "toupper c = (if islower c then c - 32 else c)"

lemmas ctype_defs = isupper_def islower_def isalpha_def isdigit_def isalnum_def iscntrl_def isgraph_def
  isprint_def ispunct_def isspace_def isxdigit_def tolower_def toupper_def

section \<open>Length and copies\<close>

definition STR_MAX_SIZE :: nat where "STR_MAX_SIZE = 65536"

fun strlen_loop :: "u8 list \<Rightarrow> nat \<Rightarrow> nat result" where
  "strlen_loop [] n = Err Fault"
| "strlen_loop (c # cs) n = (if c \<noteq> 0 \<and> n < STR_MAX_SIZE then strlen_loop cs (n + 1) else Ok n)"

definition strlen :: "u8 list \<Rightarrow> nat result" where
  "strlen s = strlen_loop s 0"

fun put_bytes :: "u8 list \<Rightarrow> nat \<Rightarrow> u8 list \<Rightarrow> u8 list result" where
  "put_bytes d i [] = Ok d"
| "put_bytes d i (c # cs) = rbind (wr d i c) (\<lambda>d1. put_bytes d1 (i + 1) cs)"

definition memset :: "u8 list \<Rightarrow> u8 \<Rightarrow> nat \<Rightarrow> u8 list result" where
  "memset d v n = put_bytes d 0 (replicate n v)"

definition memcpy :: "u8 list \<Rightarrow> u8 list \<Rightarrow> nat \<Rightarrow> u8 list result" where
  "memcpy d s n = (if length s < n then Err Fault else put_bytes d 0 (take n s))"

text \<open>\<open>strcpy\<close> stores at the running index, \<open>strcat\<close> and \<open>strncat\<close> at the end of the string in \<open>d\<close>.\<close>

fun strcpy_loop :: "u8 list \<Rightarrow> nat \<Rightarrow> u8 list \<Rightarrow> u8 list result" where
  "strcpy_loop d i [] = Err Fault"
| "strcpy_loop d i (c # cs) = (if c \<noteq> 0 then rbind (wr d i c) (\<lambda>d1. strcpy_loop d1 (i + 1) cs) else wr d i 0)"

definition strcpy :: "u8 list \<Rightarrow> u8 list \<Rightarrow> u8 list result" where
  "strcpy d s = strcpy_loop d 0 s"

fun find_nul :: "u8 list \<Rightarrow> nat \<Rightarrow> nat result" where
  "find_nul [] i = Err Fault"
| "find_nul (c # cs) i = (if c \<noteq> 0 then find_nul cs (i + 1) else Ok i)"

definition strcat :: "u8 list \<Rightarrow> u8 list \<Rightarrow> u8 list result" where
  "strcat d s = rbind (find_nul d 0) (\<lambda>i. strcpy_loop d i s)"

fun strncat_loop :: "u8 list \<Rightarrow> nat \<Rightarrow> u8 list \<Rightarrow> nat \<Rightarrow> u8 list result" where
  "strncat_loop d i [] n = Err Fault"
| "strncat_loop d i (c # cs) n =
     (if c \<noteq> 0 \<and> 0 < n then rbind (wr d i c) (\<lambda>d1. strncat_loop d1 (i + 1) cs (n - 1)) else wr d i 0)"

definition strncat :: "u8 list \<Rightarrow> u8 list \<Rightarrow> nat \<Rightarrow> u8 list result" where
  "strncat d s n = rbind (find_nul d 0) (\<lambda>i. strncat_loop d i s n)"

fun strncpy_loop :: "u8 list \<Rightarrow> nat \<Rightarrow> u8 list \<Rightarrow> nat \<Rightarrow> u8 list result" where
  "strncpy_loop d i s 0 = wr d i 0"
| "strncpy_loop d i [] (Suc n) = Err Fault"
| "strncpy_loop d i (c # cs) (Suc n) =
     (if c \<noteq> 0 then rbind (wr d i c) (\<lambda>d1. strncpy_loop d1 (i + 1) cs n) else wr d i 0)"

definition strncpy :: "u8 list \<Rightarrow> u8 list \<Rightarrow> nat \<Rightarrow> u8 list result" where
  "strncpy d s n = rbind (strlen s) (\<lambda>l. strncpy_loop d 0 s (if l < n then l else n))"

section \<open>Comparisons\<close>

fun zerocheck_loop :: "u8 list \<Rightarrow> int \<Rightarrow> nat \<Rightarrow> int result" where
  "zerocheck_loop d i 0 = Ok (-1)"
| "zerocheck_loop [] i (Suc n) = Err Fault"
| "zerocheck_loop (c # cs) i (Suc n) = (if c \<noteq> 0 then Ok i else zerocheck_loop cs (i + 1) n)"

definition zerocheck :: "u8 list \<Rightarrow> nat \<Rightarrow> int result" where
  "zerocheck d n = zerocheck_loop d 0 n"

fun memcmp :: "u8 list \<Rightarrow> u8 list \<Rightarrow> nat \<Rightarrow> u64 result" where
  "memcmp d s 0 = Ok 0"
| "memcmp (a # as) (b # bs) (Suc n) = (if a \<noteq> b then Ok 1 else memcmp as bs n)"
| "memcmp _ _ (Suc n) = Err Fault"

fun strcmp :: "u8 list \<Rightarrow> u8 list \<Rightarrow> int result" where
  "strcmp (a # as) (b # bs) = (if a \<noteq> 0 \<and> b \<noteq> 0 \<and> a = b then strcmp as bs else Ok (sint a - sint b))"
| "strcmp _ _ = Err Fault"

fun strncmp :: "u8 list \<Rightarrow> u8 list \<Rightarrow> nat \<Rightarrow> int result" where
  "strncmp s1 s2 0 = Ok 0"
| "strncmp (a # as) (b # bs) (Suc n) = (if a \<noteq> b then Ok (uint a - uint b) else if a = 0 then Ok 0 else strncmp as bs n)"
| "strncmp _ _ (Suc n) = Err Fault"

section \<open>Searches\<close>

fun strchr_loop :: "u8 list \<Rightarrow> int \<Rightarrow> nat \<Rightarrow> nat option result" where
  "strchr_loop [] ch i = Err Fault"
| "strchr_loop (c # cs) ch i = (if c \<noteq> 0
     then (if sint c = ch then Ok (Some i) else strchr_loop cs ch (i + 1))
     else if sint c = ch then Ok (Some i) else Ok None)"

definition strchr :: "u8 list \<Rightarrow> int \<Rightarrow> nat option result" where
  "strchr s ch = strchr_loop s ch 0"

fun strrchr_loop :: "u8 list \<Rightarrow> int \<Rightarrow> nat \<Rightarrow> nat option \<Rightarrow> nat option result" where
  "strrchr_loop [] ch i l = Err Fault"
| "strrchr_loop (c # cs) ch i l = (if c \<noteq> 0
     then strrchr_loop cs ch (i + 1) (if sint c = ch then Some i else l)
     else Ok (if sint c = ch then Some i else l))"

definition strrchr :: "u8 list \<Rightarrow> int \<Rightarrow> nat option result" where
  "strrchr s ch = strrchr_loop s ch 0 None"

fun in_set :: "u8 \<Rightarrow> u8 list \<Rightarrow> bool result" where
  "in_set c [] = Err Fault"
| "in_set c (r # rs) = (if r = 0 then Ok False else if c = r then Ok True else in_set c rs)"

fun strcspn_loop :: "u8 list \<Rightarrow> u8 list \<Rightarrow> nat \<Rightarrow> nat result" where
  "strcspn_loop [] reject n = Err Fault"
| "strcspn_loop (c # cs) reject n = (if c = 0 then Ok n
     else rbind (in_set c reject) (\<lambda>b. if b then Ok n else strcspn_loop cs reject (n + 1)))"

definition strcspn :: "u8 list \<Rightarrow> u8 list \<Rightarrow> nat result" where
  "strcspn s reject = strcspn_loop s reject 0"

fun match_here :: "u8 list \<Rightarrow> u8 list \<Rightarrow> bool result" where
  "match_here (h # hs) (n # ns) = (if h = n \<and> n \<noteq> 0 then match_here hs ns else Ok (n = 0))"
| "match_here _ _ = Err Fault"

fun strstr_loop :: "u8 list \<Rightarrow> u8 list \<Rightarrow> nat \<Rightarrow> nat option result" where
  "strstr_loop [] needle i = Err Fault"
| "strstr_loop (c # cs) needle i = (if c = 0 then Ok None
     else rbind (match_here (c # cs) needle) (\<lambda>b. if b then Ok (Some i) else strstr_loop cs needle (i + 1)))"

definition strstr :: "u8 list \<Rightarrow> u8 list \<Rightarrow> nat option result" where
  "strstr s needle = strstr_loop s needle 0"

section \<open>Numbers\<close>

fun skip_while :: "(int \<Rightarrow> bool) \<Rightarrow> u8 list \<Rightarrow> u8 list result" where
  "skip_while P [] = Err Fault"
| "skip_while P (c # cs) = (if P (sint c) then skip_while P cs else Ok (c # cs))"

definition digit_value :: "u8 \<Rightarrow> u64" where
  "digit_value c = (if isdigit (sint c) then word_of_int (sint c - 48)
     else if isxdigit (sint c)
     then (if 97 \<le> sint c \<and> sint c \<le> 102 then word_of_int (sint c - 97 + 10) else word_of_int (sint c - 65 + 10))
     else 0)"

text \<open>The loop of \<open>atou64\<close> runs over the characters from the last to the first.\<close>

fun atou64_loop :: "u8 list \<Rightarrow> u64 \<Rightarrow> u64 \<Rightarrow> u64 \<Rightarrow> u64" where
  "atou64_loop [] base acc mul = acc"
| "atou64_loop (c # cs) base acc mul = atou64_loop cs base (acc + digit_value c * mul) (mul * base)"

definition atou64 :: "u8 list \<Rightarrow> u64 result" where
  "atou64 s = rbind (skip_while isspace s) (\<lambda>p.
     rbind (rd p 0) (\<lambda>c0.
       rbind (if c0 = 48 then rd p 1 else Ok 0) (\<lambda>c1.
         let (base, q) = (if c0 = 48 \<and> c1 = 120 then (16, drop 2 p)
                          else if c0 = 48 \<and> c1 = 98 then (2, drop 2 p) else (10, p)) in
         rbind (skip_while (\<lambda>c. \<not> isdigit c) q) (\<lambda>r.
           rbind (strlen r) (\<lambda>n. Ok (atou64_loop (rev (take n r)) base 0 1))))))"

definition atou8 :: "u8 list \<Rightarrow> u8 result" where
  "atou8 s = rbind (atou64 s) (\<lambda>v. Ok (ucast v))"

text \<open>\<open>strtoull\<close>: \<open>i\<close> is the offset of \<open>s\<close>, \<open>c\<close> the character in hand. The result is the value and
  the offset stored through \<open>endptr\<close>.\<close>

fun stou_loop :: "int \<Rightarrow> u64 \<Rightarrow> int \<Rightarrow> u64 \<Rightarrow> int \<Rightarrow> int \<Rightarrow> u8 list \<Rightarrow> nat \<Rightarrow> (u64 \<times> int \<times> nat) result" where
  "stou_loop base cutoff cutlim acc any c rest i =
     (let d = (if isdigit c then Some (c - 48)
               else if isalpha c then Some (c - (if isupper c then 55 else 87)) else None) in
      case d of None \<Rightarrow> Ok (acc, any, i)
      | Some v \<Rightarrow> (if base \<le> v then Ok (acc, any, i)
          else (let (acc', any') = (if any < 0 \<or> cutoff < acc \<or> (acc = cutoff \<and> cutlim < v) then (acc, -1)
                                    else (acc * word_of_int base + word_of_int v, 1)) in
                case rest of [] \<Rightarrow> Err Fault
                | x # xs \<Rightarrow> stou_loop base cutoff cutlim acc' any' (sint x) xs (i + 1))))"

definition strtoull :: "u8 list \<Rightarrow> int \<Rightarrow> (u64 \<times> nat) result" where
  "strtoull s base0 = rbind (skip_while isspace s) (\<lambda>p.
     let c0 = hd p; i0 = length s - length p + 1; s0 = tl p; neg = (c0 = 45) in
     rbind (if c0 = 45 \<or> c0 = 43 then rbind (rd s0 0) (\<lambda>x. Ok (x, tl s0, i0 + 1)) else Ok (c0, s0, i0)) (\<lambda>(c1, s1, i1).
     rbind (if (base0 = 0 \<or> base0 = 16) \<and> c1 = 48 then rd s1 0 else Ok 0) (\<lambda>x.
     rbind (if (base0 = 0 \<or> base0 = 16) \<and> c1 = 48 \<and> (x = 120 \<or> x = 88)
            then rbind (rd s1 1) (\<lambda>y. Ok (y, drop 2 s1, i1 + 2, 16)) else Ok (c1, s1, i1, base0)) (\<lambda>(c2, s2, i2, base1).
       let base = (if base1 = 0 then if c2 = 48 then 8 else 10 else base1);
           b = (word_of_int base :: u64);
           cutoff = (- 1 :: u64) div b;
           cutlim = sint (ucast ((- 1 :: u64) mod b) :: u32) in
       rbind (stou_loop base cutoff cutlim 0 0 (sint c2) s2 i2) (\<lambda>(acc, any, i).
         Ok (if any < 0 then - 1 else if neg then - acc else acc, if any \<noteq> 0 then i - 1 else 0))))))"

section \<open>Tokens\<close>

text \<open>\<open>strtok\<close> keeps a position in the caller's string \<open>b\<close>. The inner loop runs over the delimiters at
  the character at \<open>p\<close>; its result is the token to return (\<open>Some\<close>) or where the outer loop goes on.
  The code's \<open>continue\<close> resumes the inner loop with the same delimiter.\<close>

function strtok_inner :: "u8 list \<Rightarrow> nat \<Rightarrow> nat \<Rightarrow> u8 list \<Rightarrow> (nat option \<times> u8 list \<times> nat \<times> nat) result" where
  "strtok_inner b p st [] = Err Fault"
| "strtok_inner b p st (d # ds) = (if d = 0 then Ok (None, b, p, st)
     else if length b \<le> p then Err Fault
     else if b ! p = d
     then (if st = p then strtok_inner (b[p := 0]) (p + 1) (p + 1) (d # ds)
           else Ok (Some st, b[p := 0], p + 1, st))
     else strtok_inner b p st ds)"
  by pat_completeness auto
termination by (relation "measure (\<lambda>(b, p, st, ds). length b - p + length ds)") auto

fun strtok_outer :: "nat \<Rightarrow> u8 list \<Rightarrow> nat \<Rightarrow> nat \<Rightarrow> u8 list \<Rightarrow> (nat option \<times> u8 list \<times> nat) result" where
  "strtok_outer 0 b p st delim = Err Diverge"
| "strtok_outer (Suc k) b p st delim = rbind (rd b p) (\<lambda>c.
     if c = 0 then Ok (if st = p then None else Some st, b, p)
     else rbind (strtok_inner b p st delim) (\<lambda>(r, b1, p1, st1).
       case r of Some t \<Rightarrow> Ok (Some t, b1, p1)
       | None \<Rightarrow> strtok_outer k b1 (p1 + 1) st1 delim))"

text \<open>\<open>tok\<close> is the static \<open>lastToken\<close>; \<open>first\<close> tells a call with a string from one with a null pointer.
  The outer loop advances at least one byte per round.\<close>

definition strtok :: "bool \<Rightarrow> nat option \<Rightarrow> u8 list \<Rightarrow> u8 list \<Rightarrow> (nat option \<times> u8 list \<times> nat option) result" where
  "strtok first tok b delim = (case (if first then Some 0 else tok) of None \<Rightarrow> Ok (None, b, None)
     | Some p \<Rightarrow> rbind (strtok_outer (length b + 1) b p p delim) (\<lambda>(r, b1, p1). Ok (r, b1, Some p1)))"

section \<open>Words in memory\<close>

definition store32 :: "u8 list \<Rightarrow> u32 \<Rightarrow> u8 list result" where
  "store32 d v = put_bytes d 0 [ucast v, ucast (drop_bit 8 v), ucast (drop_bit 16 v), ucast (drop_bit 24 v)]"

definition store16 :: "u8 list \<Rightarrow> u16 \<Rightarrow> u8 list result" where
  "store16 d v = put_bytes d 0 [ucast v, ucast (drop_bit 8 v)]"

text \<open>A byte is promoted to \<open>int\<close> before it is shifted; the \<open>int\<close> is converted to the result's type,
  which extends its sign.\<close>

definition int_shl :: "u8 \<Rightarrow> nat \<Rightarrow> 32 word" where
  "int_shl b n = push_bit n (ucast b)"

definition load64 :: "u8 list \<Rightarrow> u64 result" where
  "load64 s = (if length s < 8 then Err Fault
     else Ok (scast (int_shl (s ! 0) 0) OR scast (int_shl (s ! 1) 8) OR scast (int_shl (s ! 2) 16)
       OR scast (int_shl (s ! 3) 24) OR push_bit 32 (ucast (s ! 4)) OR push_bit 40 (ucast (s ! 5))
       OR push_bit 48 (ucast (s ! 6)) OR push_bit 56 (ucast (s ! 7))))"

definition load48 :: "u8 list \<Rightarrow> u64 result" where
  "load48 s = (if length s < 6 then Err Fault
     else Ok (scast (int_shl (s ! 0) 0) OR scast (int_shl (s ! 1) 8) OR scast (int_shl (s ! 2) 16)
       OR scast (int_shl (s ! 3) 24) OR push_bit 32 (ucast (s ! 4)) OR push_bit 40 (ucast (s ! 5))))"

definition load32 :: "u8 list \<Rightarrow> u32 result" where
  "load32 s = (if length s < 4 then Err Fault
     else Ok (int_shl (s ! 0) 0 OR int_shl (s ! 1) 8 OR int_shl (s ! 2) 16 OR int_shl (s ! 3) 24))"

definition load16 :: "u8 list \<Rightarrow> u16 result" where
  "load16 s = (if length s < 2 then Err Fault
     else Ok (ucast (int_shl (s ! 0) 0) OR ucast (int_shl (s ! 1) 8)))"

section \<open>Strings as lists\<close>

definition cstr :: "u8 list \<Rightarrow> u8 list" where
  "cstr s = takeWhile (\<lambda>c. c \<noteq> 0) s"

definition terminated :: "u8 list \<Rightarrow> bool" where
  "terminated s \<longleftrightarrow> 0 \<in> set s"

named_theorems cstr_simps

lemma cstr_Cons [cstr_simps]: "cstr (c # s) = (if c = 0 then [] else c # cstr s)"
  by (simp add: cstr_def)

lemma terminated_simps [cstr_simps]: "\<not> terminated []" "terminated (c # s) \<longleftrightarrow> c = 0 \<or> terminated s"
  by (auto simp: terminated_def)

lemma terminated_split: "terminated s \<Longrightarrow> \<exists>r. s = cstr s @ 0 # r"
  by (induction s) (auto simp: cstr_simps)

lemma cstr_nonzero: "c \<in> set (cstr s) \<Longrightarrow> c \<noteq> 0"
  by (auto simp: cstr_def dest: set_takeWhileD)

lemma strlen_loop_eq: "terminated s \<Longrightarrow> n \<le> STR_MAX_SIZE \<Longrightarrow>
    strlen_loop s n = Ok (min (n + length (cstr s)) STR_MAX_SIZE)"
proof (induction s arbitrary: n)
  case (Cons c s)
  show ?case
  proof (cases "c \<noteq> 0 \<and> n < STR_MAX_SIZE")
    case True
    with Cons.IH [of "n + 1"] Cons.prems show ?thesis by (simp add: cstr_simps)
  next
    case False
    with Cons.prems show ?thesis by (auto simp: cstr_simps min_def)
  qed
qed (simp add: cstr_simps)

text \<open>The length \<open>strlen\<close> returns is the number of bytes before the terminator, capped at 65536; it reads nothing
  behind the terminator.\<close>

theorem strlen_length:
  assumes "terminated s"
  shows "strlen s = Ok (min (length (cstr s)) 65536)"
  using strlen_loop_eq [OF assms, of 0] by (simp add: strlen_def STR_MAX_SIZE_def)

lemma put_bytes_eq: "i + length bs \<le> length d \<Longrightarrow> put_bytes d i bs = Ok (take i d @ bs @ drop (i + length bs) d)"
proof (induction bs arbitrary: d i)
  case (Cons b bs)
  have "i < length d" using Cons.prems by simp
  hence "take (Suc i) (d[i := b]) = take i d @ [b]" by (simp add: take_Suc_conv_app_nth)
  with Cons.IH [of "i + 1" "d[i := b]"] Cons.prems show ?case by simp
qed simp

lemma strcpy_loop_eq:
  assumes "terminated s"
  shows "strcpy_loop d i s = put_bytes d i (cstr s @ [0])"
  using assms by (induction s arbitrary: d i) (auto simp: cstr_simps rbind_def split: result.splits)

lemma strncpy_loop_eq: "terminated s \<Longrightarrow> n \<le> length (cstr s) \<Longrightarrow> strncpy_loop d i s n = put_bytes d i (take n (cstr s) @ [0])"
proof (induction n arbitrary: d i s)
  case 0 then show ?case by (cases "wr d i 0") simp_all
next
  case (Suc n)
  then obtain c r where s: "s = c # r" by (cases s) (auto simp: cstr_simps)
  with Suc.prems have "c \<noteq> 0" "terminated r" "n \<le> length (cstr r)" by (auto simp: cstr_simps split: if_splits)
  with Suc.IH s show ?case by (simp add: cstr_simps)
qed

lemma strlen_le: "terminated s \<Longrightarrow> \<exists>l. strlen s = Ok l \<and> l \<le> length (cstr s) \<and> (l < length (cstr s) \<longrightarrow> l = 65536)"
  using strlen_loop_eq [of s 0] by (auto simp: strlen_def STR_MAX_SIZE_def min_def)

lemma put_bytes_over: "length d < i + length bs \<Longrightarrow> i \<le> length d \<Longrightarrow> put_bytes d i bs = Err Fault"
proof (induction bs arbitrary: d i)
  case (Cons b bs)
  show ?case
  proof (cases "i < length d")
    case True
    with Cons.IH [of "d[i := b]" "i + 1"] Cons.prems show ?thesis by simp
  qed (simp add: wr_def)
qed simp

text \<open>\<open>strcpy\<close> copies the string and its terminator to the start of the destination and nothing else,
  and faults exactly when they do not fit.\<close>

theorem strcpy_copies:
  assumes "terminated s"
  shows "strcpy d s = (if length (cstr s) < length d then Ok (cstr s @ 0 # drop (length (cstr s) + 1) d) else Err Fault)"
  using put_bytes_eq [of 0 "cstr s @ [0]" d] put_bytes_over [of d 0 "cstr s @ [0]"]
  by (auto simp: strcpy_def strcpy_loop_eq [OF assms])

text \<open>\<open>strncpy\<close> copies at most \<open>n\<close> characters and always stores a terminator behind them: it writes
  \<open>n + 1\<close> bytes when the string has \<open>n\<close> characters or more, so a destination of \<open>n\<close> bytes is overrun.\<close>

theorem strncpy_copies:
  assumes "terminated s" and "n \<le> 65536"
  defines "k \<equiv> min (length (cstr s)) n"
  shows "strncpy d s n = (if k < length d then Ok (take k (cstr s) @ 0 # drop (k + 1) d) else Err Fault)"
proof -
  obtain l where l: "strlen s = Ok l" "l \<le> length (cstr s)" "l < length (cstr s) \<longrightarrow> l = 65536"
    using strlen_le [OF assms(1)] by blast
  have k: "(if l < n then l else n) = k" using l assms(2) by (auto simp: k_def min_def)
  have "strncpy d s n = put_bytes d 0 (take k (cstr s) @ [0])"
    using strncpy_loop_eq [OF assms(1), of k] l(1) by (simp add: strncpy_def k) (simp add: k_def)
  moreover have "length (take k (cstr s)) = k" by (simp add: k_def)
  ultimately show ?thesis
    using put_bytes_eq [of 0 "take k (cstr s) @ [0]" d] put_bytes_over [of d 0 "take k (cstr s) @ [0]"] by auto
qed

lemma sint_eq_iff: "sint (a :: u8) = sint b \<longleftrightarrow> a = b"
  using signed_word_eqI [of a b] by auto

lemma sint_eq_0_iff: "sint (a :: u8) = 0 \<longleftrightarrow> a = 0"
  using sint_eq_iff [of a 0] by simp

text \<open>on terminated strings \<open>strcmp\<close> returns without reading behind either terminator, and it returns
  zero exactly for equal strings.\<close>

theorem strcmp_zero_iff:
  assumes "terminated a" and "terminated b"
  shows "\<exists>v. strcmp a b = Ok v \<and> (v = 0 \<longleftrightarrow> cstr a = cstr b)"
  using assms
proof (induction a b rule: strcmp.induct)
  case (1 a as b bs)
  then show ?case by (auto simp: cstr_simps sint_eq_iff sint_eq_0_iff)
qed (auto simp: cstr_simps)

section \<open>Tokens of a path\<close>

lemma outer_run:
  assumes "length t < k" "\<forall>c \<in> set t. c \<noteq> d \<and> c \<noteq> 0" "d \<noteq> 0" "x = d \<or> x = 0"
    and "st \<le> length pre" "st < length pre \<or> t \<noteq> []"
  shows "strtok_outer k (pre @ t @ x # rest) (length pre) st [d, 0] =
    Ok (Some st, pre @ t @ 0 # rest, length pre + length t + (if x = d then 1 else 0))"
  using assms
proof (induction t arbitrary: pre k)
  case Nil
  then obtain k' where "k = Suc k'" by (cases k) auto
  with Nil show ?case by (auto simp: nth_append)
next
  case (Cons c t)
  then obtain k' where k: "k = Suc k'" by (cases k) auto
  have "strtok_outer k' ((pre @ [c]) @ t @ x # rest) (length (pre @ [c])) st [d, 0] =
      Ok (Some st, (pre @ [c]) @ t @ 0 # rest, length (pre @ [c]) + length t + (if x = d then 1 else 0))"
    using Cons.prems k by (intro Cons.IH) auto
  with Cons.prems k show ?case by (simp add: nth_append)
qed

lemma inner_skip:
  assumes "c \<noteq> d" "d \<noteq> 0"
  shows "strtok_inner (pre @ replicate n d @ c # r) (length pre) (length pre) [d, 0] =
    Ok (None, pre @ replicate n 0 @ c # r, length pre + n, length pre + n)"
  using assms
proof (induction n arbitrary: pre)
  case (Suc n)
  have "strtok_inner ((pre @ [0]) @ replicate n d @ c # r) (length (pre @ [0])) (length (pre @ [0])) [d, 0] =
      Ok (None, (pre @ [0]) @ replicate n 0 @ c # r, length (pre @ [0]) + n, length (pre @ [0]) + n)"
    by (rule Suc.IH [OF Suc.prems])
  with Suc.prems show ?case by (simp add: nth_append)
qed (simp add: nth_append)

text \<open>from a position of the string, with one delimiter, \<open>strtok\<close> skips the delimiters there and
  returns the token up to the next delimiter or the end; it terminates the token with a NUL and leaves
  its position behind it (on the terminator for the last token).\<close>

theorem strtok_token:
  assumes "t \<noteq> []" and "\<forall>c \<in> set t. c \<noteq> d \<and> c \<noteq> 0" and "d \<noteq> 0" and "x = d \<or> x = 0"
  shows "strtok False (Some (length pre)) (pre @ replicate n d @ t @ x # rest) [d, 0] =
    Ok (Some (length pre + n), pre @ replicate n 0 @ t @ 0 # rest,
        Some (length pre + n + length t + (if x = d then 1 else 0)))"
proof -
  obtain c t' where t: "t = c # t'" using assms(1) by (cases t) auto
  have cd: "c \<noteq> d" "c \<noteq> 0" using assms(2) t by auto
  let ?b = "pre @ replicate n d @ t @ x # rest"
  have first: "?b ! length pre \<noteq> 0" using cd assms(3) t by (cases n) (auto simp: nth_append)
  have len: "length pre < length ?b" by simp
  have inner: "strtok_inner ?b (length pre) (length pre) [d, 0] =
      Ok (None, pre @ replicate n 0 @ t @ x # rest, length pre + n, length pre + n)"
    using inner_skip [OF cd(1) assms(3), of pre n "t' @ x # rest"] t by simp
  have "strtok_outer (length ?b) ((pre @ replicate n 0 @ [c]) @ t' @ x # rest) (length (pre @ replicate n 0 @ [c]))
      (length pre + n) [d, 0] =
    Ok (Some (length pre + n), (pre @ replicate n 0 @ [c]) @ t' @ 0 # rest,
      length (pre @ replicate n 0 @ [c]) + length t' + (if x = d then 1 else 0))"
    using assms t by (intro outer_run) auto
  then show ?thesis using first len inner t by (simp add: strtok_def)
qed

text \<open>when only delimiters are left, \<open>strtok\<close> steps over the terminator of the string and goes on
  reading behind it; for a string that ends its object this is an access out of bounds.\<close>

theorem strtok_only_delimiters:
  assumes "d \<noteq> 0" and "0 < n"
  shows "strtok True tok (replicate n d @ [0]) [d, 0] = Err Fault"
proof -
  have "strtok_inner (replicate n d @ [0]) 0 0 [d, 0] = Ok (None, replicate n 0 @ [0], n, n)"
    using inner_skip [of 0 d "[]" n "[]"] assms by simp
  moreover have "(replicate n d @ [0]) ! 0 \<noteq> 0" using assms by (cases n) auto
  moreover have "strtok_outer k (replicate n 0 @ [0]) (n + 1) n [d, 0] = Err Fault" if "0 < k" for k
    using that by (cases k) (simp_all add: rd_def)
  ultimately show ?thesis using assms by (simp add: strtok_def rd_def del: strtok_inner.simps)
qed

section \<open>Decimal numbers\<close>

definition decimal :: "u8 list \<Rightarrow> nat" where
  "decimal ds = foldl (\<lambda>a c. 10 * a + (unat c - 48)) 0 ds"

definition is_decimal :: "u8 list \<Rightarrow> bool" where
  "is_decimal ds \<longleftrightarrow> list_all (\<lambda>c. 48 \<le> unat c \<and> unat c \<le> 57) ds"

lemma sint_small:
  assumes "unat (c :: u8) < 128"
  shows "sint c = int (unat c)"
proof -
  have u: "uint c = int (unat c)" by simp
  have "- 128 \<le> int (unat c)" "int (unat c) < 128" using assms by linarith+
  hence b: "- (2 ^ 7) \<le> uint c" "uint c < 2 ^ 7" by simp_all
  show ?thesis using signed_take_bit_int_eq_self [OF b] by (simp add: sint_uint)
qed

lemma digit_value_dec:
  assumes "48 \<le> unat c" "unat c \<le> 57"
  shows "digit_value c = of_nat (unat c - 48)"
proof -
  have s: "sint c = int (unat c)" using assms by (intro sint_small) simp
  have "digit_value c = word_of_int (int (unat c) - 48)"
  proof -
    have "isdigit (sint c)" unfolding isdigit_def s using assms by linarith
    then show ?thesis unfolding s by (simp add: digit_value_def s)
  qed
  also have "int (unat c) - 48 = int (unat c - 48)" using assms by linarith
  finally show ?thesis by simp
qed

lemma atou64_loop_dec:
  "is_decimal ds \<Longrightarrow> atou64_loop (rev ds) 10 acc mul = acc + mul * of_nat (decimal ds)"
proof (induction ds arbitrary: acc mul rule: rev_induct)
  case (snoc c ds)
  hence d: "digit_value c = of_nat (unat c - 48)" by (simp add: is_decimal_def digit_value_dec)
  have "is_decimal ds" using snoc.prems by (simp add: is_decimal_def)
  with snoc.IH d show ?case by (simp add: decimal_def algebra_simps)
qed (simp add: decimal_def)

text \<open>\<open>atou64\<close> of a string of decimal digits is the number it denotes, modulo \<open>2 ^ 64\<close>.\<close>

theorem atou64_decimal:
  assumes "is_decimal ds" and "ds \<noteq> []" and "length ds \<le> 65536"
  shows "atou64 (ds @ 0 # r) = Ok (of_nat (decimal ds))"
proof -
  obtain c ds' where ds: "ds = c # ds'" using assms(2) by (cases ds) auto
  have all: "48 \<le> unat x \<and> unat x \<le> 57 \<and> sint x = int (unat x) \<and> x \<noteq> 0 \<and> x \<noteq> 120 \<and> x \<noteq> 98" if "x \<in> set ds" for x
  proof -
    have "48 \<le> unat x" "unat x \<le> 57" using assms(1) that by (auto simp: is_decimal_def list_all_iff)
    moreover from this have "sint x = int (unat x)" by (intro sint_small) simp
    ultimately show ?thesis by auto
  qed
  hence c: "48 \<le> unat c" "unat c \<le> 57" "sint c = int (unat c)" "c \<noteq> 0" using ds by auto
  let ?s = "ds @ 0 # r"
  have "\<not> isspace (sint c)" unfolding isspace_def c(3) using c(1) by linarith
  hence s1: "skip_while isspace ?s = Ok ?s" using ds by simp
  have "isdigit (sint c)" unfolding isdigit_def c(3) using c(1,2) by linarith
  hence s2: "skip_while (\<lambda>c. \<not> isdigit c) ?s = Ok ?s" using ds by simp
  have n1: "?s ! 1 \<noteq> 120 \<and> ?s ! 1 \<noteq> 98" using all ds by (cases ds') auto
  have "cstr ?s = ds" using all by (auto simp: cstr_def takeWhile_append)
  hence len: "strlen ?s = Ok (length ds)" using strlen_length [of ?s] assms(3) by (simp add: terminated_def)
  have "1 < length ?s" "rd ?s 0 = Ok c" using ds by auto
  with s1 s2 n1 len atou64_loop_dec [OF assms(1), of 0 1] show ?thesis
    by (auto simp: atou64_def Let_def)
qed

section \<open>Loads and stores\<close>

lemma byte_index: "n < 8 * m \<Longrightarrow> \<exists>q k. n = 8 * q + k \<and> q < m \<and> k < (8 :: nat)"
  by (rule exI [of _ "n div 8"], rule exI [of _ "n mod 8"]) auto

lemma less_4_cases: "(q :: nat) < 4 \<longleftrightarrow> q = 0 \<or> q = 1 \<or> q = 2 \<or> q = 3"
  by auto

lemma less_8_cases: "(q :: nat) < 8 \<longleftrightarrow> q = 0 \<or> q = 1 \<or> q = 2 \<or> q = 3 \<or> q = 4 \<or> q = 5 \<or> q = 6 \<or> q = 7"
  by auto

lemma bit_u8_high: "8 \<le> k \<Longrightarrow> \<not> bit (b :: u8) k"
  by (auto dest: bit_imp_le_length)

text \<open>a 32-bit word stored by \<open>store32\<close> is read back by \<open>load32\<close>.\<close>

theorem store32_load32:
  assumes "4 \<le> length d"
  shows "\<exists>d'. store32 d v = Ok d' \<and> load32 d' = Ok v \<and> length d' = length d \<and> drop 4 d' = drop 4 d"
proof -
  let ?bs = "[ucast v, ucast (drop_bit 8 v), ucast (drop_bit 16 v), ucast (drop_bit 24 v)] :: u8 list"
  have "int_shl (ucast v) 0 OR int_shl (ucast (drop_bit 8 v)) 8 OR int_shl (ucast (drop_bit 16 v)) 16
      OR int_shl (ucast (drop_bit 24 v)) 24 = v"
  proof (rule bit_word_eqI)
    fix n :: nat assume "n < LENGTH(32)"
    hence n: "n < 32" by simp
    from byte_index [of n 4] n obtain q k where k: "n = 8 * q + k" "q < 4" "k < 8" by auto
    from k(2) show "bit (int_shl (ucast v) 0 OR int_shl (ucast (drop_bit 8 v)) 8 OR int_shl (ucast (drop_bit 16 v)) 16
      OR int_shl (ucast (drop_bit 24 v)) 24) n = bit v n"
      unfolding less_4_cases k(1)
      by (elim disjE) (use k(3) in \<open>simp_all add: int_shl_def bit_simps bit_u8_high\<close>)
  qed
  with put_bytes_eq [of 0 ?bs d] assms show ?thesis
    by (simp add: store32_def load32_def eval_nat_numeral)
qed

text \<open>the same for \<open>store16\<close> and \<open>load16\<close>.\<close>

theorem store16_load16:
  assumes "2 \<le> length d"
  shows "\<exists>d'. store16 d v = Ok d' \<and> load16 d' = Ok v \<and> length d' = length d \<and> drop 2 d' = drop 2 d"
proof -
  let ?bs = "[ucast v, ucast (drop_bit 8 v)] :: u8 list"
  have "(ucast (int_shl (ucast v) 0) OR ucast (int_shl (ucast (drop_bit 8 v)) 8) :: u16) = v"
    by (rule bit_word_eqI) (auto simp: int_shl_def bit_simps)
  with put_bytes_eq [of 0 ?bs d] assms show ?thesis
    by (simp add: store16_def load16_def eval_nat_numeral)
qed

text \<open>The little-endian value of a list of bytes, the value \<open>load64\<close> and \<open>load48\<close> are meant to give.\<close>

fun le_value :: "u8 list \<Rightarrow> u64" where
  "le_value [] = 0"
| "le_value (b # bs) = ucast b OR push_bit 8 (le_value bs)"

text \<open>\<open>load64\<close> gives the little-endian value of eight bytes, except that the fourth byte is promoted
  to a signed \<open>int\<close> before it is shifted: when its top bit is set, the upper 32 bits of the result are
  all ones.\<close>

theorem load64_value:
  "load64 [b0, b1, b2, b3, b4, b5, b6, b7] = Ok (le_value [b0, b1, b2, b3, b4, b5, b6, b7]
    OR (if bit b3 7 then push_bit 32 (mask 32) else 0))"
proof -
  have "(scast (int_shl b0 0) OR scast (int_shl b1 8) OR scast (int_shl b2 16) OR scast (int_shl b3 24)
      OR push_bit 32 (ucast b4) OR push_bit 40 (ucast b5) OR push_bit 48 (ucast b6) OR push_bit 56 (ucast b7) :: u64)
    = le_value [b0, b1, b2, b3, b4, b5, b6, b7] OR (if bit b3 7 then push_bit 32 (mask 32) else 0)" (is "?l = ?r")
  proof (rule bit_word_eqI)
    fix n :: nat assume "n < LENGTH(64)"
    hence n: "n < 64" by simp
    from byte_index [of n 8] n obtain q k where k: "n = 8 * q + k" "q < 8" "k < 8" by auto
    from k(2) show "bit ?l n = bit ?r n"
      unfolding less_8_cases k(1)
      by (cases "k = 7"; elim disjE) (use k(3) in \<open>simp_all add: int_shl_def bit_simps bit_u8_high min_def\<close>)
  qed
  then show ?thesis by (simp add: load64_def numeral_eq_Suc)
qed


section \<open>Witnesses\<close>

theorem strlen_length_witness: "strlen [97, 98, 0, 7] = Ok 2"
  using strlen_length [of "[97, 98, 0, 7]"] by (simp add: cstr_simps)

theorem strcpy_copies_witness: "strcpy [1, 1, 1, 1] [97, 98, 0] = Ok [97, 98, 0, 1]"
  using strcpy_copies [of "[97, 98, 0]" "[1, 1, 1, 1]"] by (simp add: cstr_simps)

theorem strncpy_copies_witness: "strncpy [1, 1] [97, 98, 99, 0] 2 = Err Fault"
  using strncpy_copies [of "[97, 98, 99, 0]" 2 "[1, 1]"] by (simp add: cstr_simps)

theorem strcmp_zero_iff_witness: "\<exists>v. strcmp [97, 0, 5] [97, 0] = Ok v \<and> v = 0"
  using strcmp_zero_iff [of "[97, 0, 5]" "[97, 0]"] by (auto simp: cstr_simps)

theorem strtok_token_witness:
  "strtok False (Some 0) [47, 47, 97, 98, 47, 99, 0] [47, 0] = Ok (Some 2, [0, 0, 97, 98, 0, 99, 0], Some 5)"
proof -
  have r: "replicate 2 x = [x, x]" for x :: u8 by (simp add: numeral_2_eq_2)
  show ?thesis using strtok_token [of "[97, 98]" 47 47 "[]" 2 "[99, 0]"] unfolding r by simp
qed

theorem strtok_only_delimiters_witness: "strtok True None [47, 0] [47, 0] = Err Fault"
  using strtok_only_delimiters [of 47 1 None] by simp

theorem atou64_decimal_witness: "atou64 [49, 50, 51, 0] = Ok 123"
  using atou64_decimal [of "[49, 50, 51]" "[]"] by (simp add: is_decimal_def decimal_def)

theorem store32_load32_witness: "\<exists>d. store32 [0, 0, 0, 0] 0x12345678 = Ok d \<and> load32 d = Ok 0x12345678"
  using store32_load32 [of "[0, 0, 0, 0]" "0x12345678"] by auto

theorem store16_load16_witness: "\<exists>d. store16 [0, 0, 9] 0x1234 = Ok d \<and> load16 d = Ok 0x1234"
  using store16_load16 [of "[0, 0, 9]" "0x1234"] by auto

end
