(* ===== verification/Tty.thy ===== *)
theory Tty
  imports LineDiscipline CString
begin

text \<open>Terminals (\<open>drivers/tty/tty.c\<close>) and their driver (\<open>drivers/tty/tty_dd.c\<close>). The calls a terminal
  makes to the device below it and to its subscribers are recorded in order in \<open>calls\<close>; the called
  code does not run inside the model. Buffers and lists the source points to are \<open>None\<close> for a null
  pointer, a subscriber is identified by its handler's address.\<close>

section \<open>State\<close>

datatype tty_call =
    DeviceWrite "u8 list" "u8 list"  \<comment> \<open>device name and bytes\<close>
  | DeviceFlush "u8 list"            \<comment> \<open>\<open>SERIAL_FLUSH_TX\<close>\<close>
  | DeviceSubscribe "u8 list"        \<comment> \<open>\<open>SERIAL_SUBSCRIBE_READ\<close> with \<open>tty_read_cb\<close>\<close>
  | Notify nat u8                    \<comment> \<open>handler and event\<close>

record tty =
  indev :: "u8 list"
  outdev :: "u8 list"
  tsignal :: int
  tmode :: int
  tvalid :: int
  techo :: u8
  israw :: u8
  ldp :: "ldisc option"
  subs :: "nat list option"
  inb :: "u8 list option"
  inb_size :: int
  inb_write :: int
  inb_read :: int
  outb :: "u8 list option"
  outb_size :: int
  outb_write :: int
  outb_read :: int
  calls :: "tty_call list"

abbreviation "TTY_EVENT_OUTB \<equiv> (0 :: u8)"
abbreviation "TTY_EVENT_INB \<equiv> (1 :: u8)"
abbreviation "TTY_FLUSH_CHAR \<equiv> (0xd :: u8)"
abbreviation "TTY_MODE_SERIAL \<equiv> (0 :: int)"
abbreviation "TTY_MODE_PTY \<equiv> (1 :: int)"

definition call :: "tty_call \<Rightarrow> tty \<Rightarrow> tty" where
  "call e t = t\<lparr>calls := calls t @ [e]\<rparr>"

definition get_tty :: "tty list \<Rightarrow> int \<Rightarrow> tty option" where
  "get_tty ts i = (if i < 0 \<or> 32 \<le> i then None else Some (ts ! nat i))"

definition is_valid_tty :: "tty option \<Rightarrow> bool" where
  "is_valid_tty t = (case t of None \<Rightarrow> False | Some t \<Rightarrow> tvalid t \<noteq> 0)"

section \<open>Buffers\<close>

definition wrap :: "int \<Rightarrow> int \<Rightarrow> int" where
  "wrap n i = (if n \<le> i then 0 else i)"

definition rdi :: "'a list \<Rightarrow> int \<Rightarrow> 'a result" where
  "rdi xs i = (if i < 0 then Err Fault else rd xs (nat i))"

definition tty_run_subscribers :: "tty \<Rightarrow> u8 \<Rightarrow> tty" where
  "tty_run_subscribers t event = (if tvalid t = 0 then t
     else case subs t of None \<Rightarrow> t | Some hs \<Rightarrow> foldl (\<lambda>t h. call (Notify h event) t) t hs)"

text \<open>\<open>_tty_flush\<close> sends the bytes up to the write index, or up to the end of the buffer when they
  wrap around.\<close>

definition tty_flush_len :: "tty \<Rightarrow> int" where
  "tty_flush_len t = (if outb_write t - outb_read t < 0 then outb_size t - outb_read t else outb_write t - outb_read t)"

definition tty_flush :: "tty \<Rightarrow> tty result" where
  "tty_flush t = (case outb t of None \<Rightarrow> Ok t
     | Some b \<Rightarrow> (if outb_read t = outb_write t then Ok t
         else rbind (ld_slice b (outb_read t) (tty_flush_len t)) (\<lambda>bs.
           let t1 = call (DeviceWrite (outdev t) bs) t;
               t2 = t1\<lparr>outb_read := wrap (outb_size t) (outb_read t + tty_flush_len t)\<rparr> in
           Ok (if tmode t = TTY_MODE_SERIAL then call (DeviceFlush (outdev t)) t2 else t2))))"

definition tty_write_inb :: "tty \<Rightarrow> u8 \<Rightarrow> tty result" where
  "tty_write_inb t c = (case inb t of None \<Rightarrow> Ok t
     | Some b \<Rightarrow> rbind (wri b (inb_write t) c) (\<lambda>b1.
         let w = wrap (inb_size t) (inb_write t + 1) in
         Ok (t\<lparr>inb := Some b1, inb_write := w,
               inb_read := (if w = inb_read t then wrap (inb_size t) (inb_read t + 1) else inb_read t)\<rparr>)))"

definition tty_write_outb :: "tty \<Rightarrow> u8 \<Rightarrow> tty result" where
  "tty_write_outb t c = (case outb t of None \<Rightarrow> Ok t
     | Some b \<Rightarrow> rbind (wri b (outb_write t) c) (\<lambda>b1.
         let w = wrap (outb_size t) (outb_write t + 1);
             t1 = t\<lparr>outb := Some b1, outb_write := w,
               outb_read := (if w = outb_read t then wrap (outb_size t) (outb_read t + 1) else outb_read t)\<rparr> in
         if c = TTY_FLUSH_CHAR
         then rbind (tty_flush t1) (\<lambda>t2. Ok (tty_run_subscribers t2 TTY_EVENT_OUTB))
         else Ok t1))"

text \<open>The reads store the byte through a pointer; without a buffer they store nothing (\<open>None\<close>).\<close>

definition tty_read_inb :: "tty \<Rightarrow> (u8 option \<times> tty) result" where
  "tty_read_inb t = (case inb t of None \<Rightarrow> Ok (None, t)
     | Some b \<Rightarrow> (if inb_read t = inb_write t then Ok (Some 0, t)
         else rbind (rdi b (inb_read t)) (\<lambda>c.
           Ok (Some c, t\<lparr>inb_read := wrap (inb_size t) (inb_read t + 1)\<rparr>))))"

definition tty_read_outb :: "tty \<Rightarrow> (u8 option \<times> tty) result" where
  "tty_read_outb t = (case outb t of None \<Rightarrow> Ok (None, t)
     | Some b \<Rightarrow> (if outb_read t = outb_write t then Ok (Some 0, t)
         else rbind (rdi b (outb_read t)) (\<lambda>c.
           Ok (Some c, t\<lparr>outb_read := wrap (outb_size t) (outb_read t + 1)\<rparr>))))"

section \<open>Callbacks of the line discipline\<close>

fun tty_write_inb_all :: "tty \<Rightarrow> u8 list \<Rightarrow> tty result" where
  "tty_write_inb_all t [] = Ok t"
| "tty_write_inb_all t (c # cs) = rbind (tty_write_inb t c) (\<lambda>t1. tty_write_inb_all t1 cs)"

definition flush_cb :: "tty \<Rightarrow> u8 list \<Rightarrow> tty result" where
  "flush_cb t bs = rbind (tty_write_inb_all t bs) (\<lambda>t1. Ok (tty_run_subscribers t1 TTY_EVENT_INB))"

definition echo_cb :: "tty \<Rightarrow> u8 \<Rightarrow> tty result" where
  "echo_cb t c = (if techo t = 0 then Ok t
     else (let t1 = call (DeviceWrite (outdev t) [c]) t in
           Ok (if tmode t = TTY_MODE_SERIAL then call (DeviceFlush (outdev t)) t1 else t1)))"

text \<open>\<open>tty_read_cb\<close> is called for every byte the serial port receives.\<close>

definition tty_read_cb :: "tty \<Rightarrow> u8 \<Rightarrow> tty result" where
  "tty_read_cb t c = (if tvalid t = 0 then Ok t
     else case ldp t of None \<Rightarrow> Ok t
     | Some l \<Rightarrow> rbind (line_discipline_read flush_cb (Some echo_cb) l t c) (\<lambda>(l1, t1). Ok (t1\<lparr>ldp := Some l1\<rparr>)))"

section \<open>Subscribers\<close>

text \<open>\<open>mem\<close> says whether \<open>kmalloc\<close> succeeds. The list has a sentinel whose handler is null, which the
  removal compares too when the list is empty.\<close>

definition tty_add_subscriber :: "bool \<Rightarrow> tty \<Rightarrow> nat \<Rightarrow> tty" where
  "tty_add_subscriber mem t h = (if tvalid t = 0 then t
     else case subs t of None \<Rightarrow> t | Some hs \<Rightarrow> (if mem then t\<lparr>subs := Some (hs @ [h])\<rparr> else t))"

definition tty_remove_subscriber :: "tty \<Rightarrow> nat \<Rightarrow> tty result" where
  "tty_remove_subscriber t h = (if tvalid t = 0 then Ok t
     else case subs t of None \<Rightarrow> Ok t
     | Some hs \<Rightarrow> (if h \<in> set hs then Ok (t\<lparr>subs := Some (remove1 h hs)\<rparr>)
         else if hs = [] \<and> h = 0 then Err Fault else Ok t))"

definition tty_destroy :: "tty \<Rightarrow> tty" where
  "tty_destroy t = (if tvalid t = 0 then t else t\<lparr>tvalid := 0\<rparr>)"

section \<open>Reading and writing\<close>

fun tty_put_all :: "tty \<Rightarrow> u8 list \<Rightarrow> tty result" where
  "tty_put_all t [] = Ok t"
| "tty_put_all t (c # cs) = rbind (tty_write_outb t c) (\<lambda>t1. tty_put_all t1 cs)"

fun tty_write_loop :: "ldisc \<Rightarrow> tty \<Rightarrow> u8 list \<Rightarrow> tty result" where
  "tty_write_loop l t [] = Ok t"
| "tty_write_loop l t (c # cs) = rbind (line_discipline_translate l c) (\<lambda>cs1.
     rbind (tty_put_all t cs1) (\<lambda>t1. tty_write_loop l t1 cs))"

definition tty_write :: "tty \<Rightarrow> u8 list \<Rightarrow> int \<Rightarrow> tty result" where
  "tty_write t bs n = (if tvalid t = 0 then Ok t
     else case ldp t of None \<Rightarrow> Ok t
     | Some l \<Rightarrow> (if int (length bs) < n then Err Fault else tty_write_loop l t (take (nat n) bs)))"

text \<open>\<open>_tty_read\<close> fills the caller's buffer from index \<open>i\<close> on and stops after a null byte.\<close>

fun tty_read_loop :: "tty \<Rightarrow> u8 list \<Rightarrow> nat \<Rightarrow> nat \<Rightarrow> (u8 list \<times> tty) result" where
  "tty_read_loop t buf i 0 = Ok (buf, t)"
| "tty_read_loop t buf i (Suc n) = rbind (tty_read_inb t) (\<lambda>(c, t1).
     rbind (case c of None \<Rightarrow> Ok buf | Some c \<Rightarrow> wr buf i c) (\<lambda>buf1.
       rbind (rd buf1 i) (\<lambda>x. if x = 0 then Ok (buf1, t1) else tty_read_loop t1 buf1 (i + 1) n)))"

definition tty_read :: "tty \<Rightarrow> u8 list \<Rightarrow> int \<Rightarrow> (u8 list \<times> tty) result" where
  "tty_read t buf n = (if tvalid t = 0 then Ok (buf, t)
     else case ldp t of None \<Rightarrow> Ok (buf, t) | Some _ \<Rightarrow> tty_read_loop t buf 0 (nat n))"

definition tty_get_size :: "tty \<Rightarrow> int" where
  "tty_get_size t = (if tvalid t = 0 then 0 else inb_write t - inb_read t)"

definition tty_modes :: "tty \<Rightarrow> int \<Rightarrow> int \<Rightarrow> tty" where
  "tty_modes t m v = (if tvalid t = 0 then t
     else case ldp t of None \<Rightarrow> t
     | Some l \<Rightarrow> (if m = 0
         then t\<lparr>israw := word_of_int v, ldp := Some (line_discipline_set_mode l (if v \<noteq> 0 then MODE_RAW else MODE_CANONICAL))\<rparr>
         else if m = 1 then t\<lparr>techo := word_of_int v\<rparr> else t))"

section \<open>Creating a terminal\<close>

text \<open>The results of the allocations: the two buffers and the subscriber list succeed or not, the line
  discipline gets its structure and its buffer.\<close>

record tty_mem =
  m_inb :: bool
  m_outb :: bool
  m_subs :: bool
  m_ld :: bool
  m_ldbuf :: "u8 list option"

fun first_free :: "tty list \<Rightarrow> nat \<Rightarrow> nat option" where
  "first_free [] i = None"
| "first_free (t # ts) i = (if tvalid t = 0 then Some i else first_free ts (i + 1))"

definition zeros :: "int \<Rightarrow> u8 list" where
  "zeros n = replicate (nat n) 0"

text \<open>The fields of the chosen terminal, and whether the construction got to the end.\<close>

definition tty_setup :: "tty_mem \<Rightarrow> tty \<Rightarrow> u8 list \<Rightarrow> u8 list \<Rightarrow> int \<Rightarrow> int \<Rightarrow> int \<Rightarrow> (bool \<times> tty) result" where
  "tty_setup m t inn out mode inbs outbs =
     rbind (strncpy (indev t) inn 32) (\<lambda>idev.
     rbind (strncpy (outdev t) out 32) (\<lambda>odev.
       let t1 = t\<lparr>tmode := mode, tvalid := 0, indev := idev, outdev := odev, tsignal := 0,
                   inb := (if m_inb m then Some (zeros inbs) else None)\<rparr> in
       if \<not> m_inb m then Ok (False, t1) else
       let t2 = t1\<lparr>inb_size := inbs, inb_write := 0, inb_read := 0,
                    outb := (if m_outb m then Some (zeros outbs) else None)\<rparr> in
       if \<not> m_outb m then Ok (False, t2) else
       let t3 = t2\<lparr>outb_size := outbs, outb_write := 0, outb_read := 0,
                    subs := (if m_subs m then Some [] else None)\<rparr> in
       if \<not> m_subs m then Ok (False, t3) else
       let l = line_discipline_create (m_ld m) (m_ldbuf m) MODE_CANONICAL MODE_ECHO_ON 0 1024;
           t4 = t3\<lparr>ldp := l, israw := 0, techo := 1\<rparr> in
       if l = None then Ok (False, t4) else
       let t5 = (if mode = TTY_MODE_SERIAL then call (DeviceSubscribe (indev t4)) t4 else t4) in
       Ok (True, t5\<lparr>tvalid := 1\<rparr>)))"

text \<open>The call that subscribes a serial terminal to its device is the \<open>DeviceSubscribe\<close> that \<open>tty_setup\<close> records.\<close>

definition tty_init :: "tty_mem \<Rightarrow> tty list \<Rightarrow> u8 list \<Rightarrow> u8 list \<Rightarrow> int \<Rightarrow> int \<Rightarrow> int \<Rightarrow> (int \<times> tty list) result" where
  "tty_init m ts inn out mode inbs outbs = (case first_free ts 0 of None \<Rightarrow> Ok (-1, ts)
     | Some i \<Rightarrow> (if mode \<noteq> TTY_MODE_SERIAL \<and> mode \<noteq> TTY_MODE_PTY then Ok (-1, ts)
         else rbind (tty_setup m (ts ! i) inn out mode inbs outbs) (\<lambda>(done, t).
           Ok (if done then int i else -1, ts[i := t]))))"

section \<open>The driver\<close>

definition c_int :: "u64 \<Rightarrow> int" where
  "c_int x = sint (ucast x :: u32)"

text \<open>\<open>skipbuf\<close> is the block \<open>kmalloc(skip)\<close> returns, \<open>buf\<close> the caller's buffer.\<close>

definition tty_dd_read_block_direct :: "u8 list \<Rightarrow> tty \<Rightarrow> u64 \<Rightarrow> u64 \<Rightarrow> u8 list \<Rightarrow> (nat \<times> u8 list \<times> tty) result" where
  "tty_dd_read_block_direct skipbuf t n skip buf =
     rbind (tty_read t skipbuf (c_int skip)) (\<lambda>(_, t1).
     rbind (tty_read t1 buf (c_int n)) (\<lambda>(buf1, t2).
     rbind (strlen buf1) (\<lambda>k. Ok (k, buf1, t2))))"

definition tty_dd_write_block_direct :: "tty \<Rightarrow> u64 \<Rightarrow> u64 \<Rightarrow> u8 list \<Rightarrow> (u64 \<times> tty) result" where
  "tty_dd_write_block_direct t n skip buf =
     rbind (tty_write t (drop (unat skip) buf) (c_int n)) (\<lambda>t1. Ok (n, t1))"

definition tty_dd_read_block :: "u8 list \<Rightarrow> tty list \<Rightarrow> u64 \<Rightarrow> u64 \<Rightarrow> u64 \<Rightarrow> u8 list \<Rightarrow> (nat \<times> u8 list \<times> tty list) result" where
  "tty_dd_read_block skipbuf ts port n skip buf = (case get_tty ts (c_int port) of None \<Rightarrow> Ok (0, buf, ts)
     | Some t \<Rightarrow> (if \<not> is_valid_tty (Some t) then Ok (0, buf, ts)
         else rbind (tty_read t skipbuf (c_int skip)) (\<lambda>(_, t1).
              rbind (tty_read t1 buf (c_int n)) (\<lambda>(buf1, t2).
              rbind (strlen buf1) (\<lambda>k. Ok (k, buf1, ts[nat (c_int port) := t2]))))))"

definition tty_dd_write_block :: "tty list \<Rightarrow> u64 \<Rightarrow> u64 \<Rightarrow> u64 \<Rightarrow> u8 list \<Rightarrow> (u64 \<times> tty list) result" where
  "tty_dd_write_block ts port n skip buf = (case get_tty ts (c_int port) of None \<Rightarrow> Ok (0, ts)
     | Some t \<Rightarrow> (if \<not> is_valid_tty (Some t) then Ok (0, ts)
         else rbind (tty_write t (drop (unat skip) buf) (c_int n)) (\<lambda>t1.
              Ok (n, ts[nat (c_int port) := t1]))))"

text \<open>The argument of an ioctl is a handler (\<open>h\<close>) or points to an \<open>int\<close> (\<open>v\<close>).\<close>

definition tty_ioctl_op :: "bool \<Rightarrow> tty \<Rightarrow> u64 \<Rightarrow> nat \<Rightarrow> int \<Rightarrow> (u64 \<times> tty) result" where
  "tty_ioctl_op mem t oper h v = (if oper = 1 then Ok (1, tty_add_subscriber mem t h)
     else if oper = 2 then rbind (tty_remove_subscriber t h) (\<lambda>t1. Ok (1, t1))
     else if oper = 3 then Ok (1, tty_modes t 0 v)
     else if oper = 4 then Ok (1, tty_modes t 1 v)
     else if oper = 5 then rbind (tty_flush t) (\<lambda>t1. Ok (1, t1))
     else if oper = 6 then Ok (of_bool (is_valid_tty (Some t)), t)
     else if oper = 7 then Ok (word_of_int (tty_get_size t), t)
     else Ok (0, t))"

definition tty_dd_ioctl :: "bool \<Rightarrow> tty list \<Rightarrow> u64 \<Rightarrow> u64 \<Rightarrow> nat \<Rightarrow> int \<Rightarrow> (u64 \<times> tty list) result" where
  "tty_dd_ioctl mem ts port oper h v = (case get_tty ts (c_int port) of None \<Rightarrow> Ok (0, ts)
     | Some t \<Rightarrow> (if \<not> is_valid_tty (Some t) then Ok (0, ts)
         else rbind (tty_ioctl_op mem t oper h v) (\<lambda>(r, t1). Ok (r, ts[nat (c_int port) := t1]))))"

section \<open>Well-formed terminals\<close>

definition ring_ok :: "'a list \<Rightarrow> int \<Rightarrow> int \<Rightarrow> int \<Rightarrow> bool" where
  "ring_ok b n r w \<longleftrightarrow> n = int (length b) \<and> 1 < n \<and> 0 \<le> r \<and> r < n \<and> 0 \<le> w \<and> w < n"

definition tty_in_wf :: "tty \<Rightarrow> bool" where
  "tty_in_wf t \<longleftrightarrow> (\<exists>b. inb t = Some b \<and> ring_ok b (inb_size t) (inb_read t) (inb_write t))"

definition tty_out_wf :: "tty \<Rightarrow> bool" where
  "tty_out_wf t \<longleftrightarrow> (\<exists>b. outb t = Some b \<and> ring_ok b (outb_size t) (outb_read t) (outb_write t))"

definition tty_input :: "tty \<Rightarrow> u8 list" where
  "tty_input t = (case inb t of None \<Rightarrow> [] | Some b \<Rightarrow> ring_list b (nat (inb_read t)) (nat (inb_write t)))"

definition tty_output :: "tty \<Rightarrow> u8 list" where
  "tty_output t = (case outb t of None \<Rightarrow> [] | Some b \<Rightarrow> ring_list b (nat (outb_read t)) (nat (outb_write t)))"

lemma wrap_Suc: "0 \<le> i \<Longrightarrow> i < n \<Longrightarrow> wrap n (i + 1) = int (ring_inc (nat n) (nat i))"
  by (auto simp: wrap_def ring_inc_def)

lemma ring_okD:
  assumes "ring_ok b n r w"
  shows "nat n = length b" "nat r < length b" "nat w < length b" "1 < length b" "0 \<le> r" "0 \<le> w" "r < n" "w < n"
  using assms by (auto simp: ring_ok_def)

lemma tty_write_inb_room:
  assumes "tty_in_wf t" and "length (tty_input t) < nat (inb_size t) - 1"
  shows "\<exists>t'. tty_write_inb t c = Ok t' \<and> tty_in_wf t' \<and> inb_size t' = inb_size t \<and> tty_input t' = tty_input t @ [c]
    \<and> t' = t\<lparr>inb := inb t', inb_write := inb_write t'\<rparr>"
proof -
  obtain b where b: "inb t = Some b" and r: "ring_ok b (inb_size t) (inb_read t) (inb_write t)"
    using assms(1) by (auto simp: tty_in_wf_def)
  note d = ring_okD [OF r]
  let ?w = "ring_inc (length b) (nat (inb_write t))"
  have ne: "?w \<noteq> nat (inb_read t)"
    using assms(2) ring_cnt_room [OF d(2,3)] b d(1) by (simp add: tty_input_def)
  hence ne': "int ?w \<noteq> inb_read t" by auto
  have "tty_write_inb t c = Ok (t\<lparr>inb := Some (b[nat (inb_write t) := c]), inb_write := int ?w\<rparr>)"
    using b d ne' wrap_Suc [OF d(6,8)] by (simp add: tty_write_inb_def wri_def)
  moreover have "ring_list (b[nat (inb_write t) := c]) (nat (inb_read t)) ?w = tty_input t @ [c]"
    using ring_put [OF d(2,3) ne] b by (simp add: tty_input_def)
  moreover have "?w < length b" using d(3) by simp
  ultimately show ?thesis using b r d by (auto simp: tty_in_wf_def ring_ok_def tty_input_def)
qed

lemma tty_read_inb_cons:
  assumes "tty_in_wf t" and "tty_input t = c # cs"
  shows "\<exists>t'. tty_read_inb t = Ok (Some c, t') \<and> tty_in_wf t' \<and> inb_size t' = inb_size t \<and> tty_input t' = cs
    \<and> tvalid t' = tvalid t \<and> ldp t' = ldp t"
proof -
  obtain b where b: "inb t = Some b" and r: "ring_ok b (inb_size t) (inb_read t) (inb_write t)"
    using assms(1) by (auto simp: tty_in_wf_def)
  note d = ring_okD [OF r]
  let ?r = "ring_inc (length b) (nat (inb_read t))"
  have ne: "nat (inb_read t) \<noteq> nat (inb_write t)" using assms(2) b by (auto simp: tty_input_def)
  have g: "tty_input t = b ! nat (inb_read t) # ring_list b ?r (nat (inb_write t))"
    using ring_get [OF d(2,3) ne] b by (simp add: tty_input_def)
  have "tty_read_inb t = Ok (Some (b ! nat (inb_read t)), t\<lparr>inb_read := int ?r\<rparr>)"
    using b d ne wrap_Suc [OF d(5,7)] by (auto simp: tty_read_inb_def rdi_def)
  moreover have "?r < length b" using d(2) by simp
  ultimately show ?thesis using b r d g assms(2) by (auto simp: tty_in_wf_def ring_ok_def tty_input_def)
qed

interpretation tq: byte_queue tty_in_wf "\<lambda>t. nat (inb_size t) - 1" tty_input "\<lambda>c t. tty_write_inb t c"
  "\<lambda>t. rbind (tty_read_inb t) (\<lambda>(c, t'). case c of None \<Rightarrow> Err Fault | Some c \<Rightarrow> Ok (c, t'))"
proof unfold_locales
  fix s :: tty and x assume "tty_in_wf s" "length (tty_input s) < nat (inb_size s) - 1"
  from tty_write_inb_room [OF this, of x]
  show "\<exists>s'. tty_write_inb s x = Ok s' \<and> tty_in_wf s' \<and> nat (inb_size s') - 1 = nat (inb_size s) - 1
    \<and> tty_input s' = tty_input s @ [x]" by metis
next
  fix s :: tty and x xs assume "tty_in_wf s" "tty_input s = x # xs"
  from tty_read_inb_cons [OF this]
  show "\<exists>s'. rbind (tty_read_inb s) (\<lambda>(c, t'). case c of None \<Rightarrow> Err Fault | Some c \<Rightarrow> Ok (c, t')) = Ok (x, s') \<and> tty_in_wf s'
    \<and> nat (inb_size s') - 1 = nat (inb_size s) - 1 \<and> tty_input s' = xs" by auto
qed

section \<open>The terminal as the parent of its line discipline\<close>

definition tty_in_ok :: "tty \<Rightarrow> bool" where
  "tty_in_ok t \<longleftrightarrow> tty_in_wf t \<and> tvalid t \<noteq> 0"

lemma run_subscribers_calls: "\<exists>cs. tty_run_subscribers t e = t\<lparr>calls := cs\<rparr>"
proof -
  have "\<exists>cs. foldl (\<lambda>t h. call (Notify h e) t) t hs = t\<lparr>calls := cs\<rparr>" for hs
  proof (induction hs arbitrary: t)
    case Nil
    have "t = t\<lparr>calls := calls t\<rparr>" by simp
    then show ?case by (metis foldl_Nil)
  next
    case (Cons h hs)
    from Cons.IH [of "call (Notify h e) t"] show ?case by (auto simp: call_def)
  qed
  moreover have "t = t\<lparr>calls := calls t\<rparr>" by simp
  ultimately show ?thesis unfolding tty_run_subscribers_def by (metis option.case_eq_if)
qed

lemma tty_input_frame [simp]:
  "tty_input (t\<lparr>calls := cs\<rparr>) = tty_input t" "tty_input (t\<lparr>ldp := l\<rparr>) = tty_input t"
  "tty_in_wf (t\<lparr>calls := cs\<rparr>) = tty_in_wf t" "tty_in_wf (t\<lparr>ldp := l\<rparr>) = tty_in_wf t"
  "tty_in_ok (t\<lparr>calls := cs\<rparr>) = tty_in_ok t" "tty_in_ok (t\<lparr>ldp := l\<rparr>) = tty_in_ok t"
  by (auto simp: tty_input_def tty_in_wf_def tty_in_ok_def split: option.splits)

lemma tty_write_inb_all_eq: "tty_write_inb_all t cs = put_all (\<lambda>c t. tty_write_inb t c) cs t"
  by (induction cs arbitrary: t) (auto simp: rbind_def split: result.splits)

lemma tty_write_inb_valid: "tty_write_inb t c = Ok t' \<Longrightarrow> tvalid t' = tvalid t"
  by (auto simp: tty_write_inb_def Let_def result_simps split: option.splits)

lemma tty_write_inb_all_valid: "tty_write_inb_all t cs = Ok t' \<Longrightarrow> tvalid t' = tvalid t"
  by (induction cs arbitrary: t) (auto dest: tty_write_inb_valid)

lemma flush_cb_appends:
  assumes "tty_in_ok t" and "length (tty_input t) + length bs \<le> nat (inb_size t) - 1"
  shows "\<exists>t'. flush_cb t bs = Ok t' \<and> tty_in_ok t' \<and> tty_input t' = tty_input t @ bs
    \<and> nat (inb_size t') - 1 = nat (inb_size t) - 1"
proof -
  have w: "tty_in_wf t" "tvalid t \<noteq> 0" using assms(1) by (auto simp: tty_in_ok_def)
  obtain t1 where t1: "tty_write_inb_all t bs = Ok t1" "tty_in_wf t1" "nat (inb_size t1) - 1 = nat (inb_size t) - 1"
    "tty_input t1 = tty_input t @ bs"
    using tq.put_all_room [OF w(1) assms(2)] unfolding tty_write_inb_all_eq by blast
  obtain cs where cs: "tty_run_subscribers t1 TTY_EVENT_INB = t1\<lparr>calls := cs\<rparr>" using run_subscribers_calls by blast
  have "tvalid t1 \<noteq> 0" using tty_write_inb_all_valid [OF t1(1)] w(2) by simp
  with t1 cs show ?thesis by (simp add: flush_cb_def tty_in_ok_def)
qed

lemma echo_cb_keeps:
  "tty_in_ok t \<Longrightarrow> \<exists>t'. echo_cb t c = Ok t' \<and> tty_in_ok t' \<and> tty_input t' = tty_input t
    \<and> nat (inb_size t') - 1 = nat (inb_size t) - 1"
  by (auto simp: echo_cb_def call_def Let_def)

interpretation tp: ld_parent flush_cb echo_cb tty_in_ok "\<lambda>t. nat (inb_size t) - 1" tty_input
proof unfold_locales
  fix p :: tty and c assume "tty_in_ok p"
  from echo_cb_keeps [OF this, of c]
  show "\<exists>p'. echo_cb p c = Ok p' \<and> tty_in_ok p' \<and> tty_input p' = tty_input p \<and> nat (inb_size p') - 1 = nat (inb_size p) - 1" .
next
  fix p :: tty and bs :: "u8 list" assume "tty_in_ok p" "length (tty_input p) + length bs \<le> nat (inb_size p) - 1"
  from flush_cb_appends [OF this]
  show "\<exists>p'. flush_cb p bs = Ok p' \<and> tty_in_ok p' \<and> tty_input p' = tty_input p @ bs \<and> nat (inb_size p') - 1 = nat (inb_size p) - 1" .
qed

text \<open>The bytes of the serial port, one call of \<open>tty_read_cb\<close> each.\<close>

fun tty_receive :: "tty \<Rightarrow> u8 list \<Rightarrow> tty result" where
  "tty_receive t [] = Ok t"
| "tty_receive t (c # cs) = rbind (tty_read_cb t c) (\<lambda>t1. tty_receive t1 cs)"

definition tty_typing :: "tty \<Rightarrow> u8 list \<Rightarrow> nat \<Rightarrow> bool" where
  "tty_typing t line k \<longleftrightarrow> (\<exists>l. ldp t = Some l \<and> tp.typing l t k \<and> ld_items l = line)"

lemma typing_valid: "tp.typing l t k \<Longrightarrow> tvalid t \<noteq> 0"
  by (simp add: tp.typing_def tty_in_ok_def)

lemma typing_store: "tp.typing l t k \<Longrightarrow> tp.typing l (t\<lparr>ldp := x\<rparr>) k"
  by (simp add: tp.typing_def)

lemma tty_typing_char:
  assumes "tty_typing t line (Suc k)" and "ld_editing c"
  shows "\<exists>t'. tty_read_cb t c = Ok t' \<and> tty_typing t' (edit_char line c) k \<and> tty_input t' = tty_input t
    \<and> nat (inb_size t') - 1 = nat (inb_size t) - 1"
proof -
  obtain l where l: "ldp t = Some l" "tp.typing l t (Suc k)" "ld_items l = line"
    using assms(1) by (auto simp: tty_typing_def)
  from tp.typing_read [OF l(2) assms(2)] obtain l1 t1 where
    r: "line_discipline_read flush_cb (Some echo_cb) l t c = Ok (l1, t1)" "tp.typing l1 t1 k"
    "ld_items l1 = edit_char (ld_items l) c" "tty_input t1 = tty_input t" "nat (inb_size t1) - 1 = nat (inb_size t) - 1" by blast
  have "tty_read_cb t c = Ok (t1\<lparr>ldp := Some l1\<rparr>)"
    using l(1) r(1) typing_valid [OF l(2)] by (simp add: tty_read_cb_def)
  with r l(3) typing_store [OF r(2)] show ?thesis by (auto simp: tty_typing_def)
qed

lemma tty_typing_return:
  assumes "tty_typing t line k" and "length (tty_input t) + length line \<le> nat (inb_size t) - 1"
  shows "\<exists>t'. tty_read_cb t LD_CARRIAGE_RETURN = Ok t' \<and> tty_typing t' [] k \<and> tty_input t' = tty_input t @ line
    \<and> nat (inb_size t') - 1 = nat (inb_size t) - 1"
proof -
  obtain l where l: "ldp t = Some l" "tp.typing l t k" "ld_items l = line"
    using assms(1) by (auto simp: tty_typing_def)
  have "length (tty_input t) + length (ld_items l) \<le> nat (inb_size t) - 1" using assms(2) l(3) by simp
  from tp.typing_return [OF l(2) this] obtain l1 t1 where
    r: "line_discipline_read flush_cb (Some echo_cb) l t LD_CARRIAGE_RETURN = Ok (l1, t1)" "tp.typing l1 t1 k"
    "ld_items l1 = []" "tty_input t1 = tty_input t @ ld_items l" "nat (inb_size t1) - 1 = nat (inb_size t) - 1" by blast
  have "tty_read_cb t LD_CARRIAGE_RETURN = Ok (t1\<lparr>ldp := Some l1\<rparr>)"
    using l(1) r(1) typing_valid [OF l(2)] by (simp add: tty_read_cb_def)
  with r l(3) typing_store [OF r(2)] show ?thesis by (auto simp: tty_typing_def)
qed

lemma tty_typing_chars:
  "tty_typing t line (length cs + k) \<Longrightarrow> list_all ld_editing cs \<Longrightarrow>
    \<exists>t'. tty_receive t cs = Ok t' \<and> tty_typing t' (foldl edit_char line cs) k \<and> tty_input t' = tty_input t
      \<and> nat (inb_size t') - 1 = nat (inb_size t) - 1"
proof (induction cs arbitrary: t line)
  case (Cons c cs)
  from tty_typing_char [of t line "length cs + k" c] Cons.prems obtain t1 where
    1: "tty_read_cb t c = Ok t1" "tty_typing t1 (edit_char line c) (length cs + k)" "tty_input t1 = tty_input t"
    "nat (inb_size t1) - 1 = nat (inb_size t) - 1" by auto
  from Cons.IH [OF 1(2)] Cons.prems(2) 1 show ?case by auto
qed auto

lemma tty_receive_append: "tty_receive t (cs @ ds) = rbind (tty_receive t cs) (\<lambda>t1. tty_receive t1 ds)"
  by (induction cs arbitrary: t) (auto simp: rbind_def split: result.splits)


section \<open>Reading, sending and sizes\<close>

lemma tty_read_inb_empty: "tty_in_wf t \<Longrightarrow> tty_input t = [] \<Longrightarrow> tty_read_inb t = Ok (Some 0, t)"
  by (auto simp: tty_in_wf_def tty_input_def tty_read_inb_def ring_ok_def ring_list_empty)

lemma tty_read_loop_eq:
  "tty_in_wf t \<Longrightarrow> 0 \<notin> set (tty_input t) \<Longrightarrow> i + n \<le> length buf \<Longrightarrow>
    (let k = min n (length (tty_input t)); got = take k (tty_input t) @ (if k < n then [0] else []) in
     \<exists>t'. tty_read_loop t buf i n = Ok (take i buf @ got @ drop (i + length got) buf, t')
       \<and> tty_in_wf t' \<and> tty_input t' = drop k (tty_input t))"
proof (induction n arbitrary: t buf i)
  case (Suc n)
  have i: "i < length buf" using Suc.prems(3) by simp
  hence tk: "take (Suc i) (buf[i := x]) = take i buf @ [x]" for x by (simp add: take_Suc_conv_app_nth)
  show ?case
  proof (cases "tty_input t")
    case Nil
    have "take i buf @ 0 # drop (Suc i) buf = buf[i := 0]" using i by (rule upd_conv_take_nth_drop [symmetric])
    with Nil tty_read_inb_empty [OF Suc.prems(1) Nil] Suc.prems(1) i show ?thesis by simp
  next
    case (Cons c cs)
    from tty_read_inb_cons [OF Suc.prems(1) Cons] obtain t1 where
      t1: "tty_read_inb t = Ok (Some c, t1)" "tty_in_wf t1" "tty_input t1 = cs" by blast
    have c: "c \<noteq> 0" "0 \<notin> set (tty_input t1)" using Suc.prems(2) Cons t1(3) by auto
    have "i + 1 + n \<le> length (buf[i := c])" using Suc.prems(3) by simp
    from Suc.IH [OF t1(2) c(2) this] t1 c(1) i tk Cons show ?thesis
      by (auto simp: Let_def split: if_splits)
  qed
qed simp

text \<open>reading a terminal delivers the waiting bytes in order, up to the size of the request, takes
  them out of the input and ends a short read with a null byte.\<close>

theorem tty_read_takes:
  assumes "tty_in_wf t" and "tvalid t \<noteq> 0" and "ldp t \<noteq> None" and "0 \<notin> set (tty_input t)" and "nat n \<le> length buf"
  defines "k \<equiv> min (nat n) (length (tty_input t))"
  shows "\<exists>t'. tty_read t buf n = Ok (take k (tty_input t) @ (if k < nat n then 0 # drop (k + 1) buf else drop k buf), t')
    \<and> tty_input t' = drop k (tty_input t)"
  using tty_read_loop_eq [OF assms(1,4), of 0 "nat n" buf] assms(2,3,5)
  by (auto simp: tty_read_def k_def Let_def split: if_splits)

text \<open>a read through the driver that fills the caller's buffer has no terminator to stop at: the
  length it returns is searched for behind the buffer.\<close>

theorem tty_dd_read_full:
  assumes "tty_in_wf t" and "tvalid t \<noteq> 0" and "ldp t \<noteq> None" and "0 \<notin> set (tty_input t)"
    and "length buf = nat (c_int n)" and "nat (c_int n) \<le> length (tty_input t)" and "length buf < 65536"
  shows "tty_dd_read_block_direct skipbuf t n 0 buf = Err Fault"
proof -
  have over: "strlen_loop xs j = Err Fault" if "0 \<notin> set xs" "j + length xs < STR_MAX_SIZE" for xs j
    using that by (induction xs arbitrary: j) auto
  have k: "min (nat (c_int n)) (length (tty_input t)) = length buf" using assms(5,6) by simp
  have "nat (c_int n) \<le> length buf" using assms(5) by simp
  from tty_read_takes [OF assms(1-4) this] obtain t' where
    "tty_read t buf (c_int n) = Ok (take (length buf) (tty_input t), t')" using assms(5) k by auto
  moreover have "0 \<notin> set (take (length buf) (tty_input t))" using assms(4) by (auto dest: in_set_takeD)
  moreover have "length (take (length buf) (tty_input t)) < STR_MAX_SIZE" using assms(7) by (simp add: STR_MAX_SIZE_def)
  moreover have "tty_read t skipbuf (c_int 0) = Ok (skipbuf, t)" using assms(2,3) by (auto simp: tty_read_def c_int_def)
  ultimately show ?thesis using over [of "take (length buf) (tty_input t)" 0]
    by (simp add: tty_dd_read_block_direct_def strlen_def)
qed

text \<open>flushing a terminal writes the waiting output to its device in one call, from the oldest byte
  up to the end of the buffer, flushes the serial device behind it, and keeps what it has not sent;
  nothing is kept unless the output wraps around the buffer.\<close>

theorem tty_flush_sends:
  assumes "tty_out_wf t" and "tty_output t \<noteq> []"
  shows "\<exists>bs t'. tty_flush t = Ok t' \<and> bs \<noteq> [] \<and> tty_output t = bs @ tty_output t' \<and> tty_out_wf t'
    \<and> (outb_read t \<le> outb_write t \<longrightarrow> tty_output t' = [])
    \<and> calls t' = calls t @ DeviceWrite (outdev t) bs # (if tmode t = TTY_MODE_SERIAL then [DeviceFlush (outdev t)] else [])"
proof -
  obtain b where b: "outb t = Some b" and r: "ring_ok b (outb_size t) (outb_read t) (outb_write t)"
    using assms(1) by (auto simp: tty_out_wf_def)
  note d = ring_okD [OF r]
  have ne: "outb_read t \<noteq> outb_write t" using assms(2) b by (auto simp: tty_output_def)
  let ?r = "nat (outb_read t)" and ?w = "nat (outb_write t)" and ?n = "tty_flush_len t"
  let ?e = "if ?r \<le> ?w then ?w else length b" and ?r' = "if ?r \<le> ?w then ?w else 0"
  have n: "?n = int ?e - int ?r" "0 < ?n" using d r ne by (auto simp: tty_flush_len_def ring_ok_def)
  let ?bs = "take (?e - ?r) (drop ?r b)"
  have n': "nat ?n = ?e - ?r" using n d by auto
  have s: "ld_slice b (outb_read t) ?n = Ok ?bs"
    using n d n' by (auto simp: ld_slice_def)
  have w: "wrap (outb_size t) (outb_read t + ?n) = int ?r'"
    using n d r by (auto simp: wrap_def ring_ok_def)
  let ?t = "(call (DeviceWrite (outdev t) ?bs) t)\<lparr>outb_read := int ?r'\<rparr>"
  let ?t' = "if tmode t = TTY_MODE_SERIAL then call (DeviceFlush (outdev t)) ?t else ?t"
  have f: "tty_flush t = Ok ?t'" using b ne s w by (simp add: tty_flush_def Let_def)
  have "ring_list b ?r ?w = ?bs @ ring_list b ?r' ?w"
  proof (cases "?r \<le> ?w")
    case True
    then show ?thesis using d ring_list_flat [of ?r ?w b] by simp
  next
    case False
    hence "?w < ?r" by (simp add: not_le)
    from ring_list_wrapped [OF this, of b] d False ring_list_flat [of 0 ?w b] show ?thesis by simp
  qed
  hence o: "tty_output t = ?bs @ tty_output ?t'" using b by (simp add: tty_output_def call_def)
  have "tty_out_wf ?t'" using b r d by (auto simp: tty_out_wf_def ring_ok_def call_def)
  moreover have "?bs \<noteq> []" using n d by (auto split: if_splits)
  moreover have "outb_read t \<le> outb_write t \<longrightarrow> tty_output ?t' = []"
    using b d by (auto simp: tty_output_def call_def)
  moreover have "calls ?t' = calls t @ DeviceWrite (outdev t) ?bs # (if tmode t = TTY_MODE_SERIAL then [DeviceFlush (outdev t)] else [])"
    by (simp add: call_def)
  ultimately show ?thesis using f o by blast
qed

text \<open>The size a terminal reports is the length of its input, except when the input wraps around the
  buffer: then it is negative, the size of the buffer too small.\<close>

theorem tty_get_size_wrapped:
  assumes "tty_in_wf t" and "tvalid t \<noteq> 0"
  shows "tty_get_size t = int (length (tty_input t)) - (if inb_read t \<le> inb_write t then 0 else inb_size t)"
  using assms by (auto simp: tty_in_wf_def ring_ok_def tty_get_size_def tty_input_def ring_cnt_def)

section \<open>Witnesses\<close>

definition tty_example :: tty where
  "tty_example = \<lparr>indev = [], outdev = [65, 0], tsignal = 0, tmode = 0, tvalid = 1, techo = 1, israw = 0,
     ldp = Some \<lparr>ld_mode = 1, ld_echo = 0, ld_valid = 1, ld_buffer = [0, 0, 0, 0, 0, 0, 0, 0], ld_size = 8,
       ld_head = 0, ld_tail = 0, ld_table = default_ld_table\<rparr>,
     subs = Some [7], inb = Some [1, 2, 3, 4], inb_size = 4, inb_write = 0, inb_read = 3,
     outb = Some [5, 6, 7, 8], outb_size = 4, outb_write = 1, outb_read = 2, calls = []\<rparr>"

lemma tty_example_facts:
  "tty_in_wf tty_example" "tty_input tty_example = [4]" "tty_out_wf tty_example" "tty_output tty_example = [7, 8, 5]"
  "tvalid tty_example = 1" "ldp tty_example \<noteq> None" "outdev tty_example = [65, 0]" "calls tty_example = []"
  by (simp_all add: tty_example_def tty_in_wf_def tty_input_def tty_out_wf_def tty_output_def ring_ok_def
      ring_list_def ring_defs upt_rec)


theorem tty_read_takes_witness:
  "\<exists>t'. tty_read tty_example [9, 9, 9] 3 = Ok ([4, 0, 9], t') \<and> tty_input t' = []"
  using tty_read_takes [OF tty_example_facts(1) _ tty_example_facts(6), of 3 "[9, 9, 9]"]
  by (simp add: tty_example_facts)

theorem tty_dd_read_full_witness: "tty_dd_read_block_direct [] tty_example 1 0 [9] = Err Fault"
  using tty_dd_read_full [OF tty_example_facts(1) _ tty_example_facts(6), of "[9]" 1 "[]"]
  by (simp add: tty_example_facts c_int_def)

theorem tty_flush_sends_witness:
  "\<exists>bs t'. tty_flush tty_example = Ok t' \<and> [7, 8, 5] = bs @ tty_output t' \<and> bs \<noteq> []"
  using tty_flush_sends [OF tty_example_facts(3)] unfolding tty_example_facts(4) by auto

theorem tty_get_size_wrapped_witness: "tty_get_size tty_example = -3"
  using tty_get_size_wrapped [OF tty_example_facts(1)] tty_example_facts(2,5) by (simp add: tty_example_def)

end
