(* ===== verification/Interrupts.thy ===== *)
theory Interrupts
  imports Prelude
begin

text \<open>The table of interrupt handlers (\<open>io/interrupts.c\<close>): handlers are hooked at run time, and a
  driver raises an interrupt of its own through the dynamic vector. A handler is one of the kernel's
  own or a driver's (\<open>'h\<close>). The interrupt descriptor table of the processor and the programming of the
  interrupt controller are not modelled beyond the two end-of-interrupt writes.\<close>

datatype 'h handler = Generic_exception | GPFault | PageFault | KeyboardInt | PitInt | Driver 'h

record 'h ints =
  interrupts_ready :: bool
  dynamic_interrupt :: int
  dynamic_interrupt_handlers :: "'h handler option list"

abbreviation "DYNAMIC_HANDLER \<equiv> (0x90 :: u8)"
abbreviation "KBD_IRQ \<equiv> (0x21 :: u8)"
abbreviation "PIT_IRQ \<equiv> (0x20 :: u8)"

definition init_interrupts :: "'h ints \<Rightarrow> 'h ints" where
  "init_interrupts s = (let h0 = replicate 32 (Some Generic_exception) @ drop 32 (dynamic_interrupt_handlers s) in
     s\<lparr>dynamic_interrupt_handlers := h0[0xD := Some GPFault, 0xE := Some PageFault,
         unat KBD_IRQ := Some KeyboardInt, unat PIT_IRQ := Some PitInt],
       interrupts_ready := True\<rparr>)"

definition hook_interrupt :: "'h ints \<Rightarrow> u8 \<Rightarrow> 'h handler option \<Rightarrow> 'h ints result" where
  "hook_interrupt s i h = rbind (guard (interrupts_ready s) ''Interrupts not ready'') (\<lambda>_.
     Ok (s\<lparr>dynamic_interrupt_handlers := (dynamic_interrupt_handlers s)[unat i := h]\<rparr>))"

definition unhook_interrupt :: "'h ints \<Rightarrow> u8 \<Rightarrow> 'h ints result" where
  "unhook_interrupt s i = rbind (guard (interrupts_ready s) ''Interrupts not ready'') (\<lambda>_.
     Ok (s\<lparr>dynamic_interrupt_handlers := (dynamic_interrupt_handlers s)[unat i := Some Generic_exception]\<rparr>))"

text \<open>The handler \<open>global_interrupt_handler\<close> runs for the interrupt number of the context.\<close>

definition select_handler :: "'h ints \<Rightarrow> u8 \<Rightarrow> ('h handler \<times> 'h ints) result" where
  "select_handler s n = rbind (rd (dynamic_interrupt_handlers s) (unat n)) (\<lambda>h0.
     rbind (if n = DYNAMIC_HANDLER
            then if dynamic_interrupt s \<noteq> 0 \<and> dynamic_interrupt s \<noteq> uint DYNAMIC_HANDLER
                 then rbind (rd (dynamic_interrupt_handlers s) (nat (dynamic_interrupt s)))
                        (\<lambda>h. Ok (h, s\<lparr>dynamic_interrupt := 0\<rparr>))
                 else Err (Panic ''Invalid dynamic interrupt'')
            else Ok (h0, s)) (\<lambda>(h, s1).
       case h of None \<Rightarrow> Err (Panic ''No handler for interrupt'') | Some h \<Rightarrow> Ok (h, s1)))"

definition raise_interrupt :: "'h ints \<Rightarrow> u8 \<Rightarrow> ('h handler \<times> 'h ints) result" where
  "raise_interrupt s i = rbind (guard (interrupts_ready s) ''Interrupts not ready'') (\<lambda>_.
     select_handler (s\<lparr>dynamic_interrupt := uint i\<rparr>) DYNAMIC_HANDLER)"

text \<open>The port writes of \<open>pic_eoi\<close>.\<close>

definition pic_eoi :: "u8 \<Rightarrow> (u16 \<times> u8) list" where
  "pic_eoi irq = (if 12 \<le> irq then [(0xA0, 0x20)] else []) @ [(0x20, 0x20)]"

definition ints_wf :: "'h ints \<Rightarrow> bool" where
  "ints_wf s \<longleftrightarrow> interrupts_ready s \<and> length (dynamic_interrupt_handlers s) = 256"

text \<open>a hooked handler is the one that runs when its interrupt is raised, for every number but zero
  and the dynamic vector's own; the table is left as it was and the request is consumed.\<close>

theorem raise_hooked:
  assumes "ints_wf s" and "i \<noteq> 0" and "i \<noteq> DYNAMIC_HANDLER"
  shows "\<exists>s1. hook_interrupt s i (Some h) = Ok s1 \<and> raise_interrupt s1 i = Ok (h, s1\<lparr>dynamic_interrupt := 0\<rparr>)"
proof -
  have i: "unat i < 256" using unsigned_less [of i, where ?'a = nat] by simp
  have u: "uint i = int (unat i)" by simp
  have n: "uint i \<noteq> 0" "uint i \<noteq> uint DYNAMIC_HANDLER" using assms(2,3) by (auto simp: word_uint_eq_iff)
  have "nat (uint i) = unat i" by simp
  with assms(1) i n show ?thesis
    by (simp add: ints_wf_def hook_interrupt_def raise_interrupt_def select_handler_def)
qed

definition ints_example :: "nat ints" where
  "ints_example = \<lparr>interrupts_ready = True, dynamic_interrupt = -1, dynamic_interrupt_handlers = replicate 256 None\<rparr>"

theorem raise_hooked_witness:
  "\<exists>s1. hook_interrupt ints_example 0x91 (Some (Driver 5)) = Ok s1
    \<and> raise_interrupt s1 0x91 = Ok (Driver 5, s1\<lparr>dynamic_interrupt := 0\<rparr>)"
  by (rule raise_hooked) (simp_all add: ints_example_def ints_wf_def)

section \<open>Descriptors\<close>

record idt_offset =
  offset0 :: u16
  offset1 :: u16
  offset2 :: u32

definition set_offset :: "idt_offset \<Rightarrow> u64 \<Rightarrow> idt_offset" where
  "set_offset e off = e\<lparr>offset0 := ucast (off AND 0xffff), offset1 := ucast (drop_bit 16 (off AND 0xffff0000)),
     offset2 := ucast (drop_bit 32 (off AND 0xffffffff00000000))\<rparr>"

definition get_offset :: "idt_offset \<Rightarrow> u64" where
  "get_offset e = ucast (offset0 e) OR push_bit 16 (ucast (offset1 e)) OR push_bit 32 (ucast (offset2 e))"

lemma mask_parts: "(off AND 0xffff :: u64) = take_bit 16 off" "(off AND 0xffff0000 :: u64) = push_bit 16 (take_bit 16 (drop_bit 16 off))"
  "(off AND 0xffffffff00000000 :: u64) = push_bit 32 (drop_bit 32 off)"
proof -
  have m: "(0xffff :: u64) = mask 16" "(0xffff0000 :: u64) = push_bit 16 (mask 16)" "(0xffffffff00000000 :: u64) = push_bit 32 (mask 32)"
    by (simp_all add: mask_eq_exp_minus_1 push_bit_eq_mult)
  show "(off AND 0xffff :: u64) = take_bit 16 off" by (simp only: m take_bit_eq_mask)
  show "(off AND 0xffff0000 :: u64) = push_bit 16 (take_bit 16 (drop_bit 16 off))"
    unfolding m by (rule bit_word_eqI) (auto simp: bit_simps)
  show "(off AND 0xffffffff00000000 :: u64) = push_bit 32 (drop_bit 32 off)"
    unfolding m by (rule bit_word_eqI) (auto simp: bit_simps)
qed

lemma get_set_offset: "get_offset (set_offset e off) = off"
proof (rule bit_word_eqI)
  fix n :: nat assume "n < LENGTH(64)"
  hence n: "n < 64" by simp
  consider "n < 16" | "16 \<le> n" "n < 32" | "32 \<le> n" by linarith
  then show "bit (get_offset (set_offset e off)) n = bit off n"
    by cases (use n in \<open>auto simp: get_offset_def set_offset_def mask_parts bit_simps dest: bit_imp_le_length\<close>)
qed

end
