(* ===== verification/Serial.thy ===== *)
theory Serial
  imports RingBuffer LineDiscipline Interrupts
begin

text \<open>The serial ports (\<open>drivers/serial/serial.c\<close>) and their driver (\<open>drivers/serial/serial_dd.c\<close>). The
  ports of the hardware are the bytes waiting at each receiver (\<open>rx\<close>) and the log of all port writes
  (\<open>outs\<close>); the transmitter is taken to become ready. Calls of subscribers are logged in \<open>scalls\<close>; a
  subscriber is its parent and its handler.\<close>

section \<open>State\<close>

record serial_device =
  s_valid :: int
  s_port :: int
  s_irq :: u8
  s_echo :: int
  s_handler :: nat
  read_subscribers :: "(nat \<times> nat) list"
  write_subscribers :: "(nat \<times> nat) list"
  s_inb :: "u8 list"
  s_inb_size :: int
  s_inb_write :: int
  s_inb_read :: int
  s_outb :: "u8 list"
  s_outb_size :: int
  s_outb_write :: int
  s_outb_read :: int

datatype serial_handler = COM nat | Overflow

record serials =
  devs :: "serial_device list"
  initialized :: bool
  interrupted :: "nat option"
  sints :: "serial_handler ints"
  rx :: "int \<Rightarrow> u8 list"
  outs :: "(int \<times> u8) list"
  scalls :: "(nat \<times> nat \<times> u8 \<times> int) list"

abbreviation "MAX_COM_DEVICES \<equiv> (2 :: nat)"
abbreviation "SERIAL_OF_IRQ \<equiv> (0x91 :: u8)"

definition upd_dev :: "serials \<Rightarrow> nat \<Rightarrow> serial_device \<Rightarrow> serials" where
  "upd_dev s k d = s\<lparr>devs := (devs s)[k := d]\<rparr>"

definition com_wrap :: "int \<Rightarrow> int \<Rightarrow> int" where
  "com_wrap n i = (if n \<le> i then 0 else i)"

definition com_rd :: "u8 list \<Rightarrow> int \<Rightarrow> u8 result" where
  "com_rd xs i = (if i < 0 then Err Fault else rd xs (nat i))"

section \<open>Hardware\<close>

text \<open>\<open>read_serial\<close> spins until a byte is there: with no byte to come it does not return.\<close>

definition read_serial :: "serials \<Rightarrow> int \<Rightarrow> (u8 \<times> serials) result" where
  "read_serial s port = (case rx s port of [] \<Rightarrow> Err Diverge
     | c # cs \<Rightarrow> Ok (c, s\<lparr>rx := (rx s)(port := cs)\<rparr>))"

definition write_serial :: "serials \<Rightarrow> int \<Rightarrow> u8 \<Rightarrow> serials" where
  "write_serial s port c = s\<lparr>outs := outs s @ [(port, c)]\<rparr>"

section \<open>Devices\<close>

definition get_serial_by_comm :: "serials \<Rightarrow> int \<Rightarrow> nat option" where
  "get_serial_by_comm s comm = (if \<not> initialized s then None
     else if comm < 0 \<or> int MAX_COM_DEVICES \<le> comm then None
     else if s_valid (devs s ! nat comm) = 0 then None else Some (nat comm))"

fun find_port :: "serial_device list \<Rightarrow> int \<Rightarrow> nat \<Rightarrow> nat option" where
  "find_port [] port i = None"
| "find_port (d # ds) port i = (if s_valid d \<noteq> 0 \<and> s_port d = port then Some i else find_port ds port (i + 1))"

definition get_serial :: "serials \<Rightarrow> int \<Rightarrow> nat option" where
  "get_serial s port = (if \<not> initialized s then None else find_port (take MAX_COM_DEVICES (devs s)) port 0)"

definition on_port :: "serials \<Rightarrow> int \<Rightarrow> (serial_device \<Rightarrow> serial_device) \<Rightarrow> serials" where
  "on_port s port f = (case get_serial s port of None \<Rightarrow> s | Some k \<Rightarrow> upd_dev s k (f (devs s ! k)))"

definition serial_echo_enable :: "serials \<Rightarrow> int \<Rightarrow> serials" where
  "serial_echo_enable s port = on_port s port (\<lambda>d. d\<lparr>s_echo := 1\<rparr>)"

definition serial_echo_disable :: "serials \<Rightarrow> int \<Rightarrow> serials" where
  "serial_echo_disable s port = on_port s port (\<lambda>d. d\<lparr>s_echo := 0\<rparr>)"

definition discard_dev :: "serial_device \<Rightarrow> serial_device" where
  "discard_dev d = d\<lparr>s_inb := replicate (length (s_inb d)) 0, s_outb := replicate (length (s_outb d)) 0,
     s_inb_read := s_inb_write d, s_outb_read := s_outb_write d\<rparr>"

definition serial_discard :: "serials \<Rightarrow> int \<Rightarrow> serials" where
  "serial_discard s port = on_port s port discard_dev"

definition serial_get_ports :: "serials \<Rightarrow> int list" where
  "serial_get_ports s = (if \<not> initialized s then []
     else map s_port (filter (\<lambda>d. s_valid d \<noteq> 0) (take MAX_COM_DEVICES (devs s))))"

definition serial_count_ports :: "serials \<Rightarrow> nat" where
  "serial_count_ports s = (if \<not> initialized s then 0
     else length (filter (\<lambda>d. s_valid d \<noteq> 0) (take MAX_COM_DEVICES (devs s))))"

section \<open>Subscribers\<close>

datatype sub_type = SERIAL_READ | SERIAL_WRITE

definition add_subscriber :: "sub_type \<Rightarrow> nat \<Rightarrow> nat \<Rightarrow> serial_device \<Rightarrow> serial_device" where
  "add_subscriber ty parent h d = (case ty of
      SERIAL_READ \<Rightarrow> d\<lparr>read_subscribers := read_subscribers d @ [(parent, h)]\<rparr>
    | SERIAL_WRITE \<Rightarrow> d\<lparr>write_subscribers := write_subscribers d @ [(parent, h)]\<rparr>)"

definition remove_subscriber :: "sub_type \<Rightarrow> nat \<Rightarrow> nat \<Rightarrow> serial_device \<Rightarrow> serial_device" where
  "remove_subscriber ty parent h d = (case ty of
      SERIAL_READ \<Rightarrow> d\<lparr>read_subscribers := remove1 (parent, h) (read_subscribers d)\<rparr>
    | SERIAL_WRITE \<Rightarrow> d\<lparr>write_subscribers := remove1 (parent, h) (write_subscribers d)\<rparr>)"

definition run_subscribers :: "serials \<Rightarrow> serial_device \<Rightarrow> sub_type \<Rightarrow> u8 \<Rightarrow> serials" where
  "run_subscribers s d ty c = s\<lparr>scalls := scalls s @ map (\<lambda>(p, h). (p, h, c, s_port d))
     (case ty of SERIAL_READ \<Rightarrow> read_subscribers d | SERIAL_WRITE \<Rightarrow> write_subscribers d)\<rparr>"

definition serial_read_event_add :: "serials \<Rightarrow> int \<Rightarrow> nat \<Rightarrow> nat \<Rightarrow> serials" where
  "serial_read_event_add s port parent h = on_port s port (add_subscriber SERIAL_READ parent h)"

definition serial_read_event_remove :: "serials \<Rightarrow> int \<Rightarrow> nat \<Rightarrow> nat \<Rightarrow> serials" where
  "serial_read_event_remove s port parent h = on_port s port (remove_subscriber SERIAL_READ parent h)"

definition serial_write_event_add :: "serials \<Rightarrow> int \<Rightarrow> nat \<Rightarrow> nat \<Rightarrow> serials" where
  "serial_write_event_add s port parent h = on_port s port (add_subscriber SERIAL_WRITE parent h)"

definition serial_write_event_remove :: "serials \<Rightarrow> int \<Rightarrow> nat \<Rightarrow> nat \<Rightarrow> serials" where
  "serial_write_event_remove s port parent h = on_port s port (remove_subscriber SERIAL_WRITE parent h)"

section \<open>Buffers\<close>

text \<open>The reads of the two buffers; \<open>read_outb\<close> also runs the write subscribers.\<close>

definition read_inb :: "serial_device \<Rightarrow> (u8 \<times> serial_device) result" where
  "read_inb d = (if s_inb_read d = s_inb_write d then Ok (0, d)
     else rbind (com_rd (s_inb d) (s_inb_read d)) (\<lambda>c.
       Ok (c, d\<lparr>s_inb_read := com_wrap (s_inb_size d) (s_inb_read d + 1)\<rparr>)))"

definition take_outb :: "serial_device \<Rightarrow> (u8 \<times> serial_device) result" where
  "take_outb d = (if s_outb_read d = s_outb_write d then Ok (0, d)
     else rbind (com_rd (s_outb d) (s_outb_read d)) (\<lambda>c.
       Ok (c, d\<lparr>s_outb_read := com_wrap (s_outb_size d) (s_outb_read d + 1)\<rparr>)))"

definition read_outb :: "serials \<Rightarrow> nat \<Rightarrow> (u8 \<times> serials) result" where
  "read_outb s k = (let d = devs s ! k in rbind (take_outb d) (\<lambda>(c, d1).
     Ok (c, if s_outb_read d = s_outb_write d then s else run_subscribers (upd_dev s k d1) d1 SERIAL_WRITE c)))"

definition put_outb :: "serial_device \<Rightarrow> u8 \<Rightarrow> serial_device result" where
  "put_outb d c = rbind (wri (s_outb d) (s_outb_write d) c) (\<lambda>b.
     Ok (d\<lparr>s_outb := b, s_outb_write := com_wrap (s_outb_size d) (s_outb_write d + 1)\<rparr>))"

definition put_inb :: "serial_device \<Rightarrow> u8 \<Rightarrow> serial_device result" where
  "put_inb d c = rbind (wri (s_inb d) (s_inb_write d) c) (\<lambda>b.
     Ok (d\<lparr>s_inb := b, s_inb_write := com_wrap (s_inb_size d) (s_inb_write d + 1)\<rparr>))"

text \<open>\<open>_serial_flush\<close> sends until it reads a null byte; every round but the last takes a byte out of the
  buffer, so its size bounds the rounds.\<close>

fun flush_loop :: "nat \<Rightarrow> serials \<Rightarrow> nat \<Rightarrow> int \<Rightarrow> serials result" where
  "flush_loop 0 s k port = Err Diverge"
| "flush_loop (Suc n) s k port = rbind (read_outb s k) (\<lambda>(c, s1).
     if c \<noteq> 0 then flush_loop n (write_serial s1 port c) k port else Ok s1)"

definition serial_flush :: "serials \<Rightarrow> int \<Rightarrow> serials result" where
  "serial_flush s port = (case get_serial s port of None \<Rightarrow> Ok s
     | Some k \<Rightarrow> flush_loop (length (s_outb (devs s ! k)) + 1) s k port)"

text \<open>The overflow handler works on the device that last received a byte.\<close>

definition SERIAL_OF_HANDLER :: "serials \<Rightarrow> serials result" where
  "SERIAL_OF_HANDLER s = (case interrupted s of None \<Rightarrow> Ok s
     | Some k \<Rightarrow> (let port = s_port (devs s ! k) in
         rbind (serial_flush s port) (\<lambda>s1. Ok (serial_discard s1 port))))"

text \<open>Raising the overflow interrupt runs the handler that is hooked to it; another handler than the
  one above is not of this module.\<close>

definition raise_overflow :: "serials \<Rightarrow> serials result" where
  "raise_overflow s = rbind (raise_interrupt (sints s) SERIAL_OF_IRQ) (\<lambda>(h, i).
     let s1 = s\<lparr>sints := i\<rparr> in
     case h of Driver Overflow \<Rightarrow> SERIAL_OF_HANDLER s1 | _ \<Rightarrow> Err (Panic ''Exception''))"

definition write_inb :: "serials \<Rightarrow> nat \<Rightarrow> u8 \<Rightarrow> serials result" where
  "write_inb s k c = rbind (put_inb (devs s ! k) c) (\<lambda>d.
     let s1 = upd_dev s k d in
     rbind (if s_inb_write d = s_inb_read d then raise_overflow s1 else Ok s1) (\<lambda>s2.
       let d2 = devs s2 ! k; s3 = (if s_echo d2 \<noteq> 0 then write_serial s2 (s_port d2) c else s2) in
       Ok (run_subscribers s3 d2 SERIAL_READ c)))"

definition write_outb :: "serials \<Rightarrow> nat \<Rightarrow> u8 \<Rightarrow> serials result" where
  "write_outb s k c = rbind (put_outb (devs s ! k) c) (\<lambda>d.
     let s1 = upd_dev s k d in
     if s_outb_write d = s_outb_read d then raise_overflow s1 else Ok s1)"

text \<open>The interrupt handlers of the four ports.\<close>

definition COM_HANDLER :: "nat \<Rightarrow> serials \<Rightarrow> serials result" where
  "COM_HANDLER k s = (if s_valid (devs s ! k) = 0 then Ok s
     else rbind (read_serial (s\<lparr>interrupted := Some k\<rparr>) (s_port (devs s ! k))) (\<lambda>(c, s1). write_inb s1 k c))"

definition serial_write :: "serials \<Rightarrow> int \<Rightarrow> u8 \<Rightarrow> serials result" where
  "serial_write s port c = (case get_serial s port of None \<Rightarrow> Ok s | Some k \<Rightarrow> write_outb s k c)"

definition serial_read :: "serials \<Rightarrow> int \<Rightarrow> (u8 \<times> serials) result" where
  "serial_read s port = (case get_serial s port of None \<Rightarrow> Ok (0, s)
     | Some k \<Rightarrow> rbind (read_inb (devs s ! k)) (\<lambda>(c, d). Ok (c, upd_dev s k d)))"

section \<open>Initialisation\<close>

text \<open>\<open>loop\<close> is what the chip of a port answers to the test byte. The allocations are taken to succeed:
  the code uses their results before it tests them.\<close>

definition init_serial_comm :: "(int \<Rightarrow> u8) \<Rightarrow> serials \<Rightarrow> int \<Rightarrow> bool \<times> serials" where
  "init_serial_comm loop s p = (let s1 = s\<lparr>outs := outs s @ [(p + 1, 0), (p + 3, 0x80), (p, 3), (p + 1, 0), (p + 3, 3),
       (p + 2, 0xC7), (p + 4, 0x0B), (p + 4, 0x1E), (p, 0xAB)]\<rparr> in
     if loop p \<noteq> 0xAB then (False, s1) else (True, s1\<lparr>outs := outs s1 @ [(p + 4, 0x0F)]\<rparr>))"

definition enable_serial_int :: "serials \<Rightarrow> nat \<Rightarrow> serials result" where
  "enable_serial_int s k = (let d = devs s ! k in
     rbind (hook_interrupt (sints s) (s_irq d) (Some (Driver (COM (s_handler d))))) (\<lambda>i.
       Ok (write_serial (s\<lparr>sints := i\<rparr>) (s_port d + 1) 1)))"

definition disable_serial_int :: "serials \<Rightarrow> nat \<Rightarrow> serials result" where
  "disable_serial_int s k = (let d = devs s ! k in
     rbind (unhook_interrupt (sints s) (s_irq d)) (\<lambda>i.
       Ok (write_serial (s\<lparr>sints := i\<rparr>) (s_port d + 1) 0)))"

definition fresh_dev :: "int \<Rightarrow> int \<Rightarrow> serial_device \<Rightarrow> serial_device" where
  "fresh_dev inbs outbs d = d\<lparr>s_inb_size := inbs, s_outb_size := outbs,
     s_inb := replicate (nat inbs) 0, s_outb := replicate (nat outbs) 0, s_echo := 0,
     s_inb_read := 0, s_outb_read := 0, s_inb_write := 0, s_outb_write := 0,
     read_subscribers := [], write_subscribers := []\<rparr>"

definition init_port :: "(int \<Rightarrow> u8) \<Rightarrow> int \<Rightarrow> int \<Rightarrow> serials \<Rightarrow> nat \<Rightarrow> serials result" where
  "init_port loop inbs outbs s k = (let (ok, s1) = init_serial_comm loop s (s_port (devs s ! k)) in
     if \<not> ok then Ok s1
     else let s2 = upd_dev s1 k (fresh_dev inbs outbs (devs s1 ! k)) in
       rbind (enable_serial_int s2 k) (\<lambda>s3.
         let s4 = upd_dev s3 k ((devs s3 ! k)\<lparr>s_valid := 1\<rparr>) in
         Ok (serial_discard s4 (s_port (devs s4 ! k)))))"

definition init_serial :: "(int \<Rightarrow> u8) \<Rightarrow> serials \<Rightarrow> int \<Rightarrow> int \<Rightarrow> serials result" where
  "init_serial loop s inbs outbs = (if initialized s then Ok s
     else rbind (init_port loop inbs outbs s 0) (\<lambda>s1.
       rbind (init_port loop inbs outbs s1 1) (\<lambda>s2.
         rbind (hook_interrupt (sints s2) SERIAL_OF_IRQ (Some (Driver Overflow))) (\<lambda>i.
           Ok (s2\<lparr>sints := i, initialized := True\<rparr>)))))"

section \<open>The driver\<close>

fun read_inb_loop :: "serial_device \<Rightarrow> u8 list \<Rightarrow> nat \<Rightarrow> nat \<Rightarrow> (nat \<times> u8 list \<times> serial_device) result" where
  "read_inb_loop d buf i 0 = Ok (i, buf, d)"
| "read_inb_loop d buf i (Suc n) = rbind (read_inb d) (\<lambda>(c, d1).
     rbind (wr buf i c) (\<lambda>buf1. if c = 0 then Ok (i, buf1, d1) else read_inb_loop d1 buf1 (i + 1) n))"

fun read_inb_n :: "nat \<Rightarrow> serial_device \<Rightarrow> serial_device result" where
  "read_inb_n 0 d = Ok d"
| "read_inb_n (Suc n) d = rbind (read_inb d) (\<lambda>(_, d1). read_inb_n n d1)"

definition serial_dd_read_block :: "serials \<Rightarrow> int \<Rightarrow> u64 \<Rightarrow> u64 \<Rightarrow> u8 list \<Rightarrow> (nat \<times> u8 list \<times> serials) result" where
  "serial_dd_read_block s port n skip buf = (case get_serial s port of None \<Rightarrow> Ok (0, buf, s)
     | Some k \<Rightarrow> rbind (read_inb_n (unat skip) (devs s ! k)) (\<lambda>d.
         rbind (read_inb_loop d buf 0 (unat n)) (\<lambda>(i, buf1, d1). Ok (i, buf1, upd_dev s k d1))))"

fun write_outb_all :: "serials \<Rightarrow> nat \<Rightarrow> u8 list \<Rightarrow> serials result" where
  "write_outb_all s k [] = Ok s"
| "write_outb_all s k (c # cs) = rbind (write_outb s k c) (\<lambda>s1. write_outb_all s1 k cs)"

definition serial_dd_write_block :: "serials \<Rightarrow> int \<Rightarrow> u64 \<Rightarrow> u64 \<Rightarrow> u8 list \<Rightarrow> (u64 \<times> serials) result" where
  "serial_dd_write_block s port n skip buf = (case get_serial s port of None \<Rightarrow> Ok (0, s)
     | Some k \<Rightarrow> (if length buf < unat skip + unat n then Err Fault
         else rbind (write_outb_all s k (take (unat n) (drop (unat skip) buf))) (\<lambda>s1. Ok (n, s1))))"

datatype serial_op = FLUSH_TX | SUBSCRIBE_READ nat nat | UNSUBSCRIBE_READ nat nat | SUBSCRIBE_WRITE nat nat
  | UNSUBSCRIBE_WRITE nat nat | ENABLE_ECHO | DISABLE_ECHO | DISCARD | Unknown_op

definition serial_dd_ioctl :: "serials \<Rightarrow> int \<Rightarrow> serial_op \<Rightarrow> (u64 \<times> serials) result" where
  "serial_dd_ioctl s port oper = (case oper of
      FLUSH_TX \<Rightarrow> rbind (serial_flush s port) (\<lambda>s1. Ok (1, s1))
    | SUBSCRIBE_READ p h \<Rightarrow> Ok (1, serial_read_event_add s port p h)
    | UNSUBSCRIBE_READ p h \<Rightarrow> Ok (1, serial_read_event_remove s port p h)
    | SUBSCRIBE_WRITE p h \<Rightarrow> Ok (1, serial_write_event_add s port p h)
    | UNSUBSCRIBE_WRITE p h \<Rightarrow> Ok (1, serial_write_event_remove s port p h)
    | ENABLE_ECHO \<Rightarrow> Ok (1, serial_echo_enable s port)
    | DISABLE_ECHO \<Rightarrow> Ok (1, serial_echo_disable s port)
    | DISCARD \<Rightarrow> Ok (1, serial_discard s port)
    | Unknown_op \<Rightarrow> Ok (0, s))"

section \<open>Well-formed ports\<close>

definition com_ring :: "u8 list \<Rightarrow> int \<Rightarrow> int \<Rightarrow> int \<Rightarrow> bool" where
  "com_ring b n r w \<longleftrightarrow> n = int (length b) \<and> 1 < n \<and> 0 \<le> r \<and> r < n \<and> 0 \<le> w \<and> w < n"

definition out_wf :: "serial_device \<Rightarrow> bool" where
  "out_wf d \<longleftrightarrow> com_ring (s_outb d) (s_outb_size d) (s_outb_read d) (s_outb_write d)"

definition in_wf :: "serial_device \<Rightarrow> bool" where
  "in_wf d \<longleftrightarrow> com_ring (s_inb d) (s_inb_size d) (s_inb_read d) (s_inb_write d)"

definition out_items :: "serial_device \<Rightarrow> u8 list" where
  "out_items d = ring_list (s_outb d) (nat (s_outb_read d)) (nat (s_outb_write d))"

definition in_items :: "serial_device \<Rightarrow> u8 list" where
  "in_items d = ring_list (s_inb d) (nat (s_inb_read d)) (nat (s_inb_write d))"

lemma com_ringD:
  assumes "com_ring b n r w"
  shows "nat n = length b" "nat r < length b" "nat w < length b" "1 < length b" "0 \<le> r" "0 \<le> w" "r < n" "w < n"
  using assms by (auto simp: com_ring_def)

lemma com_wrap_Suc: "0 \<le> i \<Longrightarrow> i < n \<Longrightarrow> com_wrap n (i + 1) = int (ring_inc (nat n) (nat i))"
  by (auto simp: com_wrap_def ring_inc_def)

lemma put_outb_eq:
  assumes "out_wf d"
  shows "put_outb d c = Ok (d\<lparr>s_outb := (s_outb d)[nat (s_outb_write d) := c],
    s_outb_write := int (ring_inc (length (s_outb d)) (nat (s_outb_write d)))\<rparr>)"
  using com_ringD [OF assms [unfolded out_wf_def]] by (simp add: put_outb_def wri_def com_wrap_Suc)

lemma put_outb_room:
  assumes "out_wf d" and "length (out_items d) + 1 < length (s_outb d)"
  shows "\<exists>d'. put_outb d c = Ok d' \<and> out_wf d' \<and> out_items d' = out_items d @ [c] \<and> s_outb_write d' \<noteq> s_outb_read d'
    \<and> d' = d\<lparr>s_outb := s_outb d', s_outb_write := s_outb_write d'\<rparr> \<and> length (s_outb d') = length (s_outb d)"
proof -
  note c = com_ringD [OF assms(1) [unfolded out_wf_def]]
  let ?w = "ring_inc (length (s_outb d)) (nat (s_outb_write d))"
  have ne: "?w \<noteq> nat (s_outb_read d)"
    using assms(2) ring_cnt_room [OF c(2,3)] by (simp add: out_items_def)
  hence "int ?w \<noteq> s_outb_read d" by auto
  moreover have "?w < length (s_outb d)" using c(3) by simp
  ultimately show ?thesis using put_outb_eq [OF assms(1)] ring_put [OF c(2,3) ne] assms(1) c
    by (auto simp: out_wf_def com_ring_def out_items_def)
qed

lemma put_outb_full:
  assumes "out_wf d" and "length (out_items d) + 1 = length (s_outb d)"
  shows "\<exists>d'. put_outb d c = Ok d' \<and> out_wf d' \<and> s_outb_write d' = s_outb_read d'
    \<and> d' = d\<lparr>s_outb := s_outb d', s_outb_write := s_outb_write d'\<rparr> \<and> length (s_outb d') = length (s_outb d)"
proof -
  note c = com_ringD [OF assms(1) [unfolded out_wf_def]]
  let ?w = "ring_inc (length (s_outb d)) (nat (s_outb_write d))"
  have "?w = nat (s_outb_read d)"
    using assms(2) ring_cnt_room [OF c(2,3)] by (auto simp: out_items_def)
  hence "int ?w = s_outb_read d" using c(5) by simp
  moreover have "?w < length (s_outb d)" using c(3) by simp
  ultimately show ?thesis using put_outb_eq [OF assms(1)] assms(1) c
    by (auto simp: out_wf_def com_ring_def)
qed

lemma take_outb_cons:
  assumes "out_wf d" and "out_items d = c # cs"
  shows "\<exists>d'. take_outb d = Ok (c, d') \<and> out_wf d' \<and> out_items d' = cs \<and> d' = d\<lparr>s_outb_read := s_outb_read d'\<rparr>
    \<and> s_outb_read d \<noteq> s_outb_write d"
proof -
  note w = com_ringD [OF assms(1) [unfolded out_wf_def]]
  let ?r = "ring_inc (length (s_outb d)) (nat (s_outb_read d))"
  have ne: "nat (s_outb_read d) \<noteq> nat (s_outb_write d)" using assms(2) by (auto simp: out_items_def)
  have g: "out_items d = s_outb d ! nat (s_outb_read d) # ring_list (s_outb d) ?r (nat (s_outb_write d))"
    using ring_get [OF w(2,3) ne] by (simp add: out_items_def)
  have "take_outb d = Ok (s_outb d ! nat (s_outb_read d), d\<lparr>s_outb_read := int ?r\<rparr>)"
    using w ne by (auto simp: take_outb_def com_rd_def com_wrap_Suc)
  moreover have "?r < length (s_outb d)" using w(2) by simp
  ultimately show ?thesis using assms w g ne by (auto simp: out_wf_def com_ring_def out_items_def)
qed

lemma take_outb_empty: "out_wf d \<Longrightarrow> out_items d = [] \<longleftrightarrow> s_outb_read d = s_outb_write d"
  by (auto simp: out_wf_def com_ring_def out_items_def ring_list_empty)

interpretation sq: byte_queue out_wf "\<lambda>d. length (s_outb d) - 1" out_items "\<lambda>c d. put_outb d c" take_outb
proof unfold_locales
  fix s x assume "out_wf s" "length (out_items s) < length (s_outb s) - 1"
  hence "length (out_items s) + 1 < length (s_outb s)" by simp
  from put_outb_room [OF \<open>out_wf s\<close> this, of x]
  show "\<exists>s'. put_outb s x = Ok s' \<and> out_wf s' \<and> length (s_outb s') - 1 = length (s_outb s) - 1
    \<and> out_items s' = out_items s @ [x]" by metis
next
  fix s :: serial_device and x xs assume "out_wf s" "out_items s = x # xs"
  from take_outb_cons [OF this] obtain d' where "take_outb s = Ok (x, d')" "out_wf d'" "out_items d' = xs"
    "d' = s\<lparr>s_outb_read := s_outb_read d'\<rparr>" by blast
  moreover from this(4) have "s_outb d' = s_outb s" by (metis serial_device.select_convs(12) serial_device.surjective
    serial_device.update_convs(15))
  ultimately show "\<exists>s'. take_outb s = Ok (x, s') \<and> out_wf s' \<and> length (s_outb s') - 1 = length (s_outb s) - 1 \<and> out_items s' = xs"
    by auto
qed

section \<open>Output\<close>

definition dev_keys :: "serials \<Rightarrow> (int \<times> int) list" where
  "dev_keys s = map (\<lambda>d. (s_valid d, s_port d)) (devs s)"

lemma find_port_cong:
  "map (\<lambda>d. (s_valid d, s_port d)) ds = map (\<lambda>d. (s_valid d, s_port d)) es \<Longrightarrow> find_port ds p i = find_port es p i"
proof (induction ds arbitrary: es i)
  case (Cons d ds)
  then obtain e es' where e: "es = e # es'" "s_valid d = s_valid e" "s_port d = s_port e"
    "map (\<lambda>d. (s_valid d, s_port d)) ds = map (\<lambda>d. (s_valid d, s_port d)) es'" by (cases es) auto
  from Cons.IH [OF e(4)] show ?case unfolding e(1) by (simp add: e(2,3))
qed simp

lemma get_serial_cong:
  assumes "initialized s' = initialized s" "dev_keys s' = dev_keys s"
  shows "get_serial s' p = get_serial s p"
proof -
  have "find_port (take 2 (devs s')) p 0 = find_port (take 2 (devs s)) p 0"
    using assms(2) by (intro find_port_cong) (simp add: dev_keys_def flip: take_map)
  then show ?thesis using assms(1) by (simp add: get_serial_def)
qed

lemma dev_keys_upd:
  "s_valid d = s_valid (devs s ! k) \<Longrightarrow> s_port d = s_port (devs s ! k) \<Longrightarrow> dev_keys (upd_dev s k d) = dev_keys s"
proof -
  assume a: "s_valid d = s_valid (devs s ! k)" "s_port d = s_port (devs s ! k)"
  show "dev_keys (upd_dev s k d) = dev_keys s"
  proof (cases "k < length (devs s)")
    case True
    let ?f = "\<lambda>d. (s_valid d, s_port d)"
    have "dev_keys (upd_dev s k d) = (map ?f (devs s))[k := map ?f (devs s) ! k]"
      using True a by (simp add: dev_keys_def upd_dev_def map_update)
    then show ?thesis by (simp only: list_update_id dev_keys_def)
  qed (simp add: dev_keys_def upd_dev_def list_update_beyond)
qed

lemma find_port_Some: "find_port ds p i = Some k \<Longrightarrow> i \<le> k \<and> k < i + length ds \<and> s_valid (ds ! (k - i)) \<noteq> 0 \<and> s_port (ds ! (k - i)) = p"
proof (induction ds arbitrary: i)
  case (Cons d ds)
  show ?case
  proof (cases "s_valid d \<noteq> 0 \<and> s_port d = p")
    case False
    with Cons.prems have "find_port ds p (i + 1) = Some k" by simp
    from Cons.IH [OF this] show ?thesis by (auto simp: nth_Cons')
  qed (use Cons.prems in auto)
qed simp

lemma get_serial_Some:
  assumes "get_serial s p = Some k"
  shows "k < length (devs s)" "s_valid (devs s ! k) \<noteq> 0" "s_port (devs s ! k) = p" "initialized s"
  using find_port_Some [of "take MAX_COM_DEVICES (devs s)" p 0 k] assms
  by (auto simp: get_serial_def split: if_splits)

lemma upd_dev_simps [simp]:
  "k < length (devs s) \<Longrightarrow> devs (upd_dev s k d) ! k = d" "length (devs (upd_dev s k d)) = length (devs s)"
  "outs (upd_dev s k d) = outs s" "initialized (upd_dev s k d) = initialized s"
  "interrupted (upd_dev s k d) = interrupted s" "sints (upd_dev s k d) = sints s"
  "upd_dev (upd_dev s k d) k e = upd_dev s k e"
  by (simp_all add: upd_dev_def)

lemma out_frame:
  assumes "d' = d\<lparr>s_outb_read := r\<rparr>"
  shows "s_valid d' = s_valid d" "s_port d' = s_port d" "s_outb d' = s_outb d"
  by (simp_all add: assms)

lemma out_frame2:
  assumes "d' = d\<lparr>s_outb := b, s_outb_write := w\<rparr>"
  shows "s_valid d' = s_valid d" "s_port d' = s_port d"
  by (simp_all add: assms)

lemma flush_loop_sends:
  "k < length (devs s) \<Longrightarrow> out_wf (devs s ! k) \<Longrightarrow> length (out_items (devs s ! k)) < n \<Longrightarrow>
    \<exists>s'. flush_loop n s k port = Ok s'
      \<and> outs s' = outs s @ map (\<lambda>c. (port, c)) (takeWhile (\<lambda>c. c \<noteq> 0) (out_items (devs s ! k)))
      \<and> out_items (devs s' ! k) = drop (length (takeWhile (\<lambda>c. c \<noteq> 0) (out_items (devs s ! k))) + 1) (out_items (devs s ! k))"
proof (induction n arbitrary: s)
  case (Suc n)
  let ?d = "devs s ! k"
  show ?case
  proof (cases "out_items ?d")
    case Nil
    hence "take_outb ?d = Ok (0, ?d)" using take_outb_empty [OF Suc.prems(2)] by (simp add: take_outb_def)
    with Nil show ?thesis using take_outb_empty [OF Suc.prems(2)] by (simp add: read_outb_def Let_def)
  next
    case (Cons c cs)
    from take_outb_cons [OF Suc.prems(2) Cons] obtain d' where d': "take_outb ?d = Ok (c, d')" "out_wf d'"
      "out_items d' = cs" "d' = ?d\<lparr>s_outb_read := s_outb_read d'\<rparr>" "s_outb_read ?d \<noteq> s_outb_write ?d" by blast
    let ?s1 = "run_subscribers (upd_dev s k d') d' SERIAL_WRITE c"
    have r: "read_outb s k = Ok (c, ?s1)" using d' by (simp add: read_outb_def Let_def)
    have s1: "devs ?s1 ! k = d'" "outs ?s1 = outs s" "k < length (devs ?s1)" using Suc.prems(1)
      by (simp_all add: run_subscribers_def)
    show ?thesis
    proof (cases "c = 0")
      case True
      with r s1 d'(3) Cons show ?thesis by simp
    next
      case False
      let ?s2 = "write_serial ?s1 port c"
      have s2: "devs ?s2 ! k = d'" "outs ?s2 = outs s @ [(port, c)]" "k < length (devs ?s2)"
        using s1 by (simp_all add: write_serial_def)
      have "out_wf (devs ?s2 ! k)" "length (out_items (devs ?s2 ! k)) < n"
        using s2(1) d'(2,3) Suc.prems(3) Cons by simp_all
      from Suc.IH [OF s2(3) this] False r s2 d'(3) Cons show ?thesis by auto
    qed
  qed
qed simp

lemma out_items_length: "out_wf d \<Longrightarrow> length (out_items d) < length (s_outb d)"
  using com_ringD [of "s_outb d" "s_outb_size d" "s_outb_read d" "s_outb_write d"] ring_cnt_less
  by (auto simp: out_wf_def out_items_def)

text \<open>flushing a port sends the bytes waiting in its output buffer in order, up to the first null
  byte; that byte is dropped and what is behind it stays in the buffer.\<close>

theorem serial_flush_sends:
  assumes "get_serial s port = Some k" and "out_wf (devs s ! k)"
  shows "\<exists>s'. serial_flush s port = Ok s'
    \<and> outs s' = outs s @ map (\<lambda>c. (port, c)) (takeWhile (\<lambda>c. c \<noteq> 0) (out_items (devs s ! k)))
    \<and> out_items (devs s' ! k) = drop (length (takeWhile (\<lambda>c. c \<noteq> 0) (out_items (devs s ! k))) + 1) (out_items (devs s ! k))"
proof -
  have "length (out_items (devs s ! k)) < length (s_outb (devs s ! k)) + 1"
    using out_items_length [OF assms(2)] by simp
  from flush_loop_sends [OF get_serial_Some(1) [OF assms(1)] assms(2) this] assms(1)
  show ?thesis by (simp add: serial_flush_def)
qed

lemma write_outb_room:
  assumes "k < length (devs s)" "out_wf (devs s ! k)" "length (out_items (devs s ! k)) + 1 < length (s_outb (devs s ! k))"
  shows "\<exists>s'. write_outb s k c = Ok s' \<and> dev_keys s' = dev_keys s \<and> initialized s' = initialized s \<and> outs s' = outs s
    \<and> k < length (devs s') \<and> out_wf (devs s' ! k) \<and> out_items (devs s' ! k) = out_items (devs s ! k) @ [c]
    \<and> length (s_outb (devs s' ! k)) = length (s_outb (devs s ! k))"
proof -
  from put_outb_room [OF assms(2,3), of c] obtain d where d: "put_outb (devs s ! k) c = Ok d" "out_wf d"
    "out_items d = out_items (devs s ! k) @ [c]" "s_outb_write d \<noteq> s_outb_read d"
    "d = (devs s ! k)\<lparr>s_outb := s_outb d, s_outb_write := s_outb_write d\<rparr>"
    "length (s_outb d) = length (s_outb (devs s ! k))" by blast
  have "dev_keys (upd_dev s k d) = dev_keys s" by (rule dev_keys_upd) (rule out_frame2 [OF d(5)])+
  with d assms(1) show ?thesis by (simp add: write_outb_def Let_def)
qed

lemma write_outb_all_room:
  "k < length (devs s) \<Longrightarrow> out_wf (devs s ! k) \<Longrightarrow>
    length (out_items (devs s ! k)) + length cs < length (s_outb (devs s ! k)) \<Longrightarrow>
    \<exists>s'. write_outb_all s k cs = Ok s' \<and> dev_keys s' = dev_keys s \<and> initialized s' = initialized s \<and> outs s' = outs s
      \<and> out_wf (devs s' ! k) \<and> out_items (devs s' ! k) = out_items (devs s ! k) @ cs"
proof (induction cs arbitrary: s)
  case (Cons c cs)
  hence "length (out_items (devs s ! k)) + 1 < length (s_outb (devs s ! k))" by simp
  from write_outb_room [OF Cons.prems(1,2) this, of c] obtain s1 where s1: "write_outb s k c = Ok s1"
    "dev_keys s1 = dev_keys s" "initialized s1 = initialized s" "outs s1 = outs s" "k < length (devs s1)"
    "out_wf (devs s1 ! k)" "out_items (devs s1 ! k) = out_items (devs s ! k) @ [c]"
    "length (s_outb (devs s1 ! k)) = length (s_outb (devs s ! k))" by blast
  have "length (out_items (devs s1 ! k)) + length cs < length (s_outb (devs s1 ! k))" using Cons.prems(3) s1(7,8) by simp
  from Cons.IH [OF s1(5,6) this] s1 show ?case by auto
qed auto

text \<open>bytes (other than null) written to a port while its output buffer has room for them are all
  sent, in order and behind those that were waiting, when the port is flushed.\<close>

theorem serial_write_flush:
  assumes "get_serial s port = Some k" and "out_wf (devs s ! k)" and "length bs = unat n"
    and "length (out_items (devs s ! k)) + unat n < length (s_outb (devs s ! k))"
    and "0 \<notin> set (out_items (devs s ! k) @ bs)"
  shows "\<exists>s1 s2. serial_dd_write_block s port n 0 bs = Ok (n, s1) \<and> serial_flush s1 port = Ok s2
    \<and> outs s2 = outs s @ map (\<lambda>c. (port, c)) (out_items (devs s ! k) @ bs)"
proof -
  have "length (out_items (devs s ! k)) + length bs < length (s_outb (devs s ! k))" using assms(3,4) by simp
  from write_outb_all_room [OF get_serial_Some(1) [OF assms(1)] assms(2) this] obtain s1 where
    s1: "write_outb_all s k bs = Ok s1" "dev_keys s1 = dev_keys s" "initialized s1 = initialized s" "outs s1 = outs s"
    "out_wf (devs s1 ! k)" "out_items (devs s1 ! k) = out_items (devs s ! k) @ bs" by blast
  have g: "get_serial s1 port = Some k" using get_serial_cong [OF s1(3,2)] assms(1) by simp
  have "takeWhile (\<lambda>c. c \<noteq> 0) (out_items (devs s ! k) @ bs) = out_items (devs s ! k) @ bs"
    using assms(5) by (auto simp: takeWhile_eq_all_conv)
  with serial_flush_sends [OF g s1(5)] s1 assms(1,3) show ?thesis
    by (auto simp: serial_dd_write_block_def)
qed

section \<open>Overflow of the output buffer\<close>

definition overflow_hooked :: "serials \<Rightarrow> bool" where
  "overflow_hooked s \<longleftrightarrow> ints_wf (sints s) \<and> dynamic_interrupt_handlers (sints s) ! 0x91 = Some (Driver Overflow)"

lemma raise_overflow_hooked:
  assumes "overflow_hooked s"
  shows "raise_overflow s = SERIAL_OF_HANDLER (s\<lparr>sints := (sints s)\<lparr>dynamic_interrupt := 0\<rparr>\<rparr>)"
proof -
  have "raise_interrupt (sints s) SERIAL_OF_IRQ = Ok (Driver Overflow, (sints s)\<lparr>dynamic_interrupt := 0\<rparr>)"
    using assms by (simp add: overflow_hooked_def ints_wf_def raise_interrupt_def select_handler_def)
  then show ?thesis by (simp add: raise_overflow_def Let_def)
qed

text \<open>when a byte fills the output buffer, the write index catches up with the read index and the
  buffer looks empty: the overflow handler, which means to send what is waiting, sends nothing and
  discards everything, so all waiting bytes are lost.\<close>

theorem serial_overflow_loses_output:
  assumes "get_serial s port = Some k" and "out_wf (devs s ! k)" and "overflow_hooked s" and "interrupted s = Some k"
    and "length (out_items (devs s ! k)) + 1 = length (s_outb (devs s ! k))"
  shows "\<exists>s'. write_outb s k c = Ok s' \<and> outs s' = outs s \<and> out_items (devs s' ! k) = []"
proof -
  note g = get_serial_Some [OF assms(1)]
  from put_outb_full [OF assms(2,5), of c] obtain d where d: "put_outb (devs s ! k) c = Ok d" "out_wf d"
    "s_outb_write d = s_outb_read d" "d = (devs s ! k)\<lparr>s_outb := s_outb d, s_outb_write := s_outb_write d\<rparr>" by blast
  let ?s1 = "(upd_dev s k d)\<lparr>sints := (sints s)\<lparr>dynamic_interrupt := 0\<rparr>\<rparr>"
  have keys: "s_valid d = s_valid (devs s ! k)" "s_port d = port" using out_frame2 [OF d(4)] g(3) by simp_all
  have "dev_keys (upd_dev s k d) = dev_keys s" using keys g(3) by (intro dev_keys_upd) simp_all
  hence "get_serial ?s1 port = get_serial s port" by (intro get_serial_cong) (simp_all add: dev_keys_def upd_dev_def)
  hence gs: "get_serial ?s1 port = Some k" using assms(1) by simp
  have dk: "devs ?s1 ! k = d" using g(1) by (simp add: upd_dev_def)
  have fl: "serial_flush ?s1 port = Ok ?s1"
    using gs dk d(3) by (simp add: serial_flush_def read_outb_def take_outb_def Let_def)
  have "overflow_hooked (upd_dev s k d)" using assms(3) by (simp add: overflow_hooked_def)
  from raise_overflow_hooked [OF this] have "raise_overflow (upd_dev s k d) = Ok (serial_discard ?s1 port)"
    using assms(4) dk keys(2) fl by (simp add: SERIAL_OF_HANDLER_def Let_def)
  hence w: "write_outb s k c = Ok (serial_discard ?s1 port)"
    using d(1,3) by (simp add: write_outb_def Let_def)
  have "serial_discard ?s1 port = upd_dev ?s1 k (discard_dev d)"
    using gs dk by (simp add: serial_discard_def on_port_def)
  moreover have "devs (upd_dev ?s1 k (discard_dev d)) ! k = discard_dev d" using g(1) by (simp add: upd_dev_def)
  moreover have "outs (upd_dev ?s1 k (discard_dev d)) = outs s" by (simp add: upd_dev_def)
  moreover have "out_items (discard_dev d) = []" by (simp add: out_items_def discard_dev_def)
  ultimately show ?thesis using w by simp
qed

section \<open>Witnesses\<close>

definition com_example :: serial_device where
  "com_example = \<lparr>s_valid = 1, s_port = 0x3f8, s_irq = 0x24, s_echo = 0, s_handler = 0, read_subscribers = [],
     write_subscribers = [], s_inb = [0, 0], s_inb_size = 2, s_inb_write = 0, s_inb_read = 0,
     s_outb = [65, 66, 0, 0], s_outb_size = 4, s_outb_write = 2, s_outb_read = 0\<rparr>"

definition serials_example :: serials where
  "serials_example = \<lparr>devs = [com_example, com_example\<lparr>s_valid := 0, s_port := 0x2f8\<rparr>], initialized = True,
     interrupted = Some 0, sints = \<lparr>interrupts_ready = True, dynamic_interrupt = -1,
       dynamic_interrupt_handlers = (replicate 256 None)[0x91 := Some (Driver Overflow)]\<rparr>,
     rx = (\<lambda>_. []), outs = [], scalls = []\<rparr>"

lemma serials_example_facts:
  "get_serial serials_example 0x3f8 = Some 0" "out_wf (devs serials_example ! 0)"
  "out_items (devs serials_example ! 0) = [65, 66]" "length (s_outb (devs serials_example ! 0)) = 4"
  "overflow_hooked serials_example" "interrupted serials_example = Some 0" "outs serials_example = []"
  by (simp_all add: serials_example_def com_example_def get_serial_def out_wf_def com_ring_def out_items_def
      ring_list_def ring_defs upt_rec overflow_hooked_def ints_wf_def)

theorem serial_flush_sends_witness:
  "\<exists>s'. serial_flush serials_example 0x3f8 = Ok s' \<and> outs s' = [(0x3f8, 65), (0x3f8, 66)]"
  using serial_flush_sends [OF serials_example_facts(1,2)] unfolding serials_example_facts(3,7) by auto

theorem serial_write_flush_witness:
  "\<exists>s1 s2. serial_dd_write_block serials_example 0x3f8 1 0 [67] = Ok (1, s1) \<and> serial_flush s1 0x3f8 = Ok s2
    \<and> outs s2 = [(0x3f8, 65), (0x3f8, 66), (0x3f8, 67)]"
proof -
  have "length [67 :: u8] = unat (1 :: u64)" "0 \<notin> set (out_items (devs serials_example ! 0) @ [67])"
    "length (out_items (devs serials_example ! 0)) + unat (1 :: u64) < length (s_outb (devs serials_example ! 0))"
    unfolding serials_example_facts(3,4) by simp_all
  from serial_write_flush [OF serials_example_facts(1,2) this(1,3,2)] show ?thesis
    unfolding serials_example_facts(3,7) by simp
qed

definition serials_full :: serials where
  "serials_full = serials_example\<lparr>devs := [com_example\<lparr>s_outb_write := 3\<rparr>]\<rparr>"

lemma serials_full_facts:
  "get_serial serials_full 0x3f8 = Some 0" "out_wf (devs serials_full ! 0)" "overflow_hooked serials_full"
  "interrupted serials_full = Some 0" "length (out_items (devs serials_full ! 0)) + 1 = length (s_outb (devs serials_full ! 0))"
  by (simp_all add: serials_full_def serials_example_def com_example_def get_serial_def out_wf_def com_ring_def out_items_def
      ring_defs overflow_hooked_def ints_wf_def)

theorem serial_overflow_loses_output_witness:
  "\<exists>s'. write_outb serials_full 0 68 = Ok s' \<and> out_items (devs s' ! 0) = []"
  using serial_overflow_loses_output [OF serials_full_facts, of 68] by blast

end
