(* ===== verification/Devices.thy ===== *)
theory Devices
  imports CString
begin

text \<open>The device layer (\<open>devices/devices.c\<close>): the two tables of drivers, the chain of devices, and the
  dispatch of reads, writes and controls to the driver of a device. What the drivers do is a state \<open>'w\<close> the
  operations pass on. The chain is the list of its nodes from the header on; its last node is the blank
  one whose \<open>next\<close> is null. An empty chain is the null header before \<open>init_devices\<close>.\<close>

section \<open>State\<close>

text \<open>The tables hold 32 drivers (\<open>DEVICE_MAX_DD\<close>), names take 32 bytes (\<open>DEVICE_NAME_MAX_SIZE\<close>). The operations of a driver get the port, the size, the offset and the bytes at
  \<open>buffer\<close>. A null pointer in the table is \<open>None\<close>.\<close>

record 'w file_operations =
  fo_read :: "(u64 \<Rightarrow> u64 \<Rightarrow> u64 \<Rightarrow> u8 list \<Rightarrow> 'w \<Rightarrow> (u64 \<times> u8 list \<times> 'w) result) option"
  fo_write :: "(u64 \<Rightarrow> u64 \<Rightarrow> u64 \<Rightarrow> u8 list \<Rightarrow> 'w \<Rightarrow> (u64 \<times> 'w) result) option"
  fo_ioctl :: "(u64 \<Rightarrow> u64 \<Rightarrow> u8 list \<Rightarrow> 'w \<Rightarrow> (u64 \<times> u8 list \<times> 'w) result) option"

record 'w device_driver =
  fops :: "'w file_operations option"
  registered :: u8
  dd_name :: "u8 list"

record device =
  dv_bc :: u8
  dv_valid :: u8
  dv_major :: u8
  dv_minor :: u8
  dv_name :: "u8 list"
  dv_id :: u64
  dv_control :: u64

record 'w devtab =
  char_drivers :: "'w device_driver list"
  block_drivers :: "'w device_driver list"
  chain :: "device list"

definition blank_device :: device where
  "blank_device = \<lparr>dv_bc = 0, dv_valid = 0, dv_major = 0, dv_minor = 0,
     dv_name = replicate 32 0, dv_id = 0, dv_control = 0\<rparr>"

text \<open>The names of the device classes; entries the initialiser skips are null.\<close>

definition device_identifiers :: "u8 list option list" where
  "device_identifiers =
     replicate 8 (Some [110, 111, 110, 101]) @
     [Some [104, 100], Some [99, 100], Some [115, 101, 109, 98], Some [112, 109], Some [115, 100],
      Some [110, 111, 110, 101], Some [116, 116, 121], Some [110, 111, 110, 101],
      Some [109, 111, 117, 115, 101], Some [110, 101, 116], Some [102, 98], Some [110, 111, 110, 101]] @
     replicate 121 None @
     [Some [115, 101, 114, 105, 97, 108], Some [102, 105, 102, 111], Some [107, 98, 100]]"

section \<open>Drivers\<close>

definition set_driver :: "'w device_driver list \<Rightarrow> nat \<Rightarrow> u8 list \<Rightarrow> 'w file_operations option \<Rightarrow> 'w device_driver list result" where
  "set_driver ds i name ops = rbind (rd ds i) (\<lambda>d.
     rbind (memset (dd_name d) 0 32) (\<lambda>b0.
     rbind (rbind (strlen name) (strncpy b0 name)) (\<lambda>b1.
     wr ds i \<lparr>fops = ops, registered = 1, dd_name = b1\<rparr>)))"

definition driver_register_char :: "'w devtab \<Rightarrow> u8 \<Rightarrow> u8 list \<Rightarrow> 'w file_operations option \<Rightarrow> 'w devtab result" where
  "driver_register_char t major name ops =
     rbind (set_driver (char_drivers t) (unat (major AND 0x7F)) name ops) (\<lambda>ds. Ok (t\<lparr>char_drivers := ds\<rparr>))"

definition driver_register_block :: "'w devtab \<Rightarrow> u8 \<Rightarrow> u8 list \<Rightarrow> 'w file_operations option \<Rightarrow> 'w devtab result" where
  "driver_register_block t major name ops =
     rbind (set_driver (block_drivers t) (unat major) name ops) (\<lambda>ds. Ok (t\<lparr>block_drivers := ds\<rparr>))"

definition driver_unregister_char :: "'w devtab \<Rightarrow> u8 \<Rightarrow> 'w devtab result" where
  "driver_unregister_char t major = rbind (rd (char_drivers t) (unat (major AND 0x7F))) (\<lambda>d.
     rbind (wr (char_drivers t) (unat (major AND 0x7F)) (d\<lparr>registered := 0\<rparr>)) (\<lambda>ds. Ok (t\<lparr>char_drivers := ds\<rparr>)))"

definition driver_unregister_block :: "'w devtab \<Rightarrow> u8 \<Rightarrow> 'w devtab result" where
  "driver_unregister_block t major = rbind (rd (block_drivers t) (unat major)) (\<lambda>d.
     rbind (wr (block_drivers t) (unat major) (d\<lparr>registered := 0\<rparr>)) (\<lambda>ds. Ok (t\<lparr>block_drivers := ds\<rparr>)))"

section \<open>Walking the chain\<close>

text \<open>The loops \<open>while (dev->valid)\<close> from the header on. Running off the chain follows a null pointer.\<close>

fun first_device :: "(device \<Rightarrow> bool result) \<Rightarrow> device list \<Rightarrow> device option result" where
  "first_device P [] = Err Fault"
| "first_device P (d # ds) = (if dv_valid d = 0 then Ok None
     else rbind (P d) (\<lambda>b. if b then Ok (Some d) else first_device P ds))"

fun count_devices :: "(device \<Rightarrow> bool) \<Rightarrow> device list \<Rightarrow> u32 \<Rightarrow> u32 result" where
  "count_devices P [] c = Err Fault"
| "count_devices P (d # ds) c = (if dv_valid d = 0 then Ok c else count_devices P ds (if P d then c + 1 else c))"

definition full_major :: "device \<Rightarrow> u8" where
  "full_major d = push_bit 7 (dv_bc d) OR dv_major d"

definition get_device_count :: "'w devtab \<Rightarrow> u32 result" where
  "get_device_count t = count_devices (\<lambda>_. True) (chain t) 0"

definition get_device_count_by_major :: "'w devtab \<Rightarrow> u8 \<Rightarrow> u32 result" where
  "get_device_count_by_major t major = count_devices (\<lambda>d. full_major d = major) (chain t) 0"

text \<open>A device is given by its position in the chain.\<close>

definition get_device_head :: "'w devtab \<Rightarrow> nat option result" where
  "get_device_head t = rbind (rd (chain t) 0) (\<lambda>d. Ok (if dv_valid d \<noteq> 0 then Some 0 else None))"

definition get_next_device :: "'w devtab \<Rightarrow> nat \<Rightarrow> nat option result" where
  "get_next_device t i = rbind (rd (chain t) (i + 1)) (\<lambda>d. Ok (if dv_valid d \<noteq> 0 then Some (i + 1) else None))"

section \<open>Creating and destroying devices\<close>

text \<open>\<open>%x\<close> of a number: lower-case hexadecimal without leading zeros.\<close>

definition hex_digit :: "nat \<Rightarrow> u8" where
  "hex_digit n = of_nat (if n < 10 then 48 + n else 87 + n)"

fun hex_str :: "nat \<Rightarrow> u8 list" where
  "hex_str n = (if n < 16 then [hex_digit n] else hex_str (n div 16) @ [hex_digit (n mod 16)])"

declare hex_str.simps [simp del]

definition init_devices_head :: "'w devtab \<Rightarrow> 'w devtab" where
  "init_devices_head t = t\<lparr>chain := [blank_device]\<rparr>"

definition device_name_for :: "u8 \<Rightarrow> u8 \<Rightarrow> u8 list result" where
  "device_name_for major minor = rbind (rd device_identifiers (unat major)) (\<lambda>i.
     case i of None \<Rightarrow> Err Fault | Some s \<Rightarrow> Ok (s @ hex_str (unat minor + 0xa) @ [0]))"

text \<open>The last node becomes the new device, and a new blank node follows it. The result is the name.\<close>

definition device_create :: "'w devtab \<Rightarrow> u64 \<Rightarrow> u8 \<Rightarrow> u64 \<Rightarrow> (u8 list \<times> 'w devtab) result" where
  "device_create t control major ident = (if chain t = [] then Err Fault else
     (let minor = of_nat (length (filter (\<lambda>d. full_major d = major) (butlast (chain t)))) in
      rbind (device_name_for major minor) (\<lambda>name.
      rbind (rbind (strlen name) (strncpy (dv_name (List.last (chain t))) name)) (\<lambda>b.
      let d = \<lparr>dv_bc = drop_bit 7 (major AND 0x80), dv_valid = 1, dv_major = major AND 0x7F, dv_minor = minor,
               dv_name = b, dv_id = ident, dv_control = control\<rparr>
      in Ok (b, t\<lparr>chain := butlast (chain t) @ [d, blank_device]\<rparr>)))))"

text \<open>The comparison of \<open>device_destroy\<close> has the structure itself where the name asked for should be. Its
  first bytes are the bit field, the numbers and the name. \<open>release\<close> is the effect of \<open>free_page\<close> on the
  node.\<close>

definition device_bytes :: "device \<Rightarrow> u8 list" where
  "device_bytes d = [dv_bc d OR push_bit 1 (dv_valid d), dv_major d, dv_minor d] @ dv_name d"

fun destroy_from :: "(device \<Rightarrow> 'w \<Rightarrow> 'w result) \<Rightarrow> bool \<Rightarrow> u8 list \<Rightarrow> device list \<Rightarrow> 'w \<Rightarrow> (device list \<times> 'w) result" where
  "destroy_from release first name [] w = Err Fault"
| "destroy_from release first name (d # ds) w = (if dv_valid d = 0 then Ok (d # ds, w)
     else rbind (rbind (strlen name) (memcmp (dv_name d) (device_bytes d))) (\<lambda>r.
       if r = 0 then rbind (release d w) (\<lambda>w1. Ok (if first then d\<lparr>dv_valid := 0\<rparr> # ds else ds, w1))
       else rbind (destroy_from release False name ds w) (\<lambda>(ds1, w1). Ok (d # ds1, w1))))"

definition device_destroy :: "(device \<Rightarrow> 'w \<Rightarrow> 'w result) \<Rightarrow> 'w devtab \<Rightarrow> u8 list \<Rightarrow> 'w \<Rightarrow> ('w devtab \<times> 'w) result" where
  "device_destroy release t name w =
     rbind (destroy_from release True name (chain t) w) (\<lambda>(c, w1). Ok (t\<lparr>chain := c\<rparr>, w1))"

section \<open>Operations on devices\<close>

text \<open>A device matches when its name begins with the name asked for.\<close>

definition name_matches :: "u8 list \<Rightarrow> device \<Rightarrow> bool result" where
  "name_matches name d = rbind (strlen name) (\<lambda>n. rbind (memcmp (dv_name d) name n) (\<lambda>r. Ok (r = 0)))"

definition device_search :: "'w devtab \<Rightarrow> u8 list \<Rightarrow> device option result" where
  "device_search t name = first_device (name_matches name) (chain t)"

definition driver_of :: "'w devtab \<Rightarrow> device \<Rightarrow> 'w device_driver result" where
  "driver_of t d = rd (if dv_bc d = 0 then block_drivers t else char_drivers t) (unat (dv_major d))"

definition device_identify :: "'w devtab \<Rightarrow> u8 list \<Rightarrow> u8 list \<Rightarrow> u8 result" where
  "device_identify t name driver_name = rbind (device_search t name) (\<lambda>r. case r of None \<Rightarrow> Ok 0
     | Some d \<Rightarrow> rbind (driver_of t d) (\<lambda>dd. if registered dd = 0 then Ok 0
         else rbind (strcmp (dd_name dd) driver_name) (\<lambda>c. Ok (if c = 0 then 1 else 0))))"

definition device_write :: "'w devtab \<Rightarrow> u8 list \<Rightarrow> u64 \<Rightarrow> u64 \<Rightarrow> u8 list \<Rightarrow> 'w \<Rightarrow> (u64 \<times> 'w) result" where
  "device_write t name sz offset buffer w = rbind (device_search t name) (\<lambda>r. case r of None \<Rightarrow> Ok (0, w)
     | Some d \<Rightarrow> rbind (driver_of t d) (\<lambda>dd. if registered dd = 0 then Ok (0, w)
         else (case fops dd of None \<Rightarrow> Ok (0, w) | Some fo \<Rightarrow> case fo_write fo of None \<Rightarrow> Ok (0, w)
           | Some f \<Rightarrow> f (dv_id d) sz offset buffer w)))"

definition device_read :: "'w devtab \<Rightarrow> u8 list \<Rightarrow> u64 \<Rightarrow> u64 \<Rightarrow> u8 list \<Rightarrow> 'w \<Rightarrow> (u64 \<times> u8 list \<times> 'w) result" where
  "device_read t name sz offset buffer w = rbind (device_search t name) (\<lambda>r. case r of None \<Rightarrow> Ok (0, buffer, w)
     | Some d \<Rightarrow> rbind (driver_of t d) (\<lambda>dd. if registered dd = 0 then Ok (0, buffer, w)
         else (case fops dd of None \<Rightarrow> Ok (0, buffer, w) | Some fo \<Rightarrow> case fo_read fo of None \<Rightarrow> Ok (0, buffer, w)
           | Some f \<Rightarrow> f (dv_id d) sz offset buffer w)))"

definition device_ioctl :: "'w devtab \<Rightarrow> u8 list \<Rightarrow> u64 \<Rightarrow> u8 list \<Rightarrow> 'w \<Rightarrow> (u64 \<times> u8 list \<times> 'w) result" where
  "device_ioctl t name op buffer w = rbind (device_search t name) (\<lambda>r. case r of None \<Rightarrow> Ok (0, buffer, w)
     | Some d \<Rightarrow> rbind (driver_of t d) (\<lambda>dd. if registered dd = 0 then Ok (0, buffer, w)
         else (case fops dd of None \<Rightarrow> Ok (0, buffer, w) | Some fo \<Rightarrow> case fo_ioctl fo of None \<Rightarrow> Ok (0, buffer, w)
           | Some f \<Rightarrow> f (dv_id d) op buffer w)))"

section \<open>Well-formed chains\<close>

text \<open>Devices the layer has created: valid ones with a name of 32 bytes that begins with a character
  above the values of the first byte of the structure, and the blank node.\<close>

definition device_ok :: "device \<Rightarrow> bool" where
  "device_ok d \<longleftrightarrow> dv_valid d = 1 \<and> dv_bc d \<le> 1 \<and> length (dv_name d) = 32 \<and> 3 < dv_name d ! 0 \<and> terminated (dv_name d)"

definition chain_ok :: "device list \<Rightarrow> bool" where
  "chain_ok ds \<longleftrightarrow> ds \<noteq> [] \<and> List.last ds = blank_device \<and> list_all device_ok (butlast ds)"

lemma chain_okE:
  assumes "chain_ok ds"
  obtains xs where "ds = xs @ [blank_device]" and "list_all device_ok xs"
  using assms by (metis append_butlast_last_id chain_ok_def)

lemma chain_ok_append: "list_all device_ok xs \<Longrightarrow> chain_ok (xs @ [blank_device])"
  by (simp add: chain_ok_def)

lemma u8_le_1: "(a :: u8) \<le> 1 \<longleftrightarrow> a = 0 \<or> a = 1"
proof
  assume "a \<le> 1"
  hence "unat a \<le> 1" by (simp add: word_le_nat_alt)
  hence "unat a = unat (0 :: u8) \<or> unat a = unat (1 :: u8)" by auto
  thus "a = 0 \<or> a = 1" by (simp only: word_unat_eq_iff)
qed auto

lemma device_ok_no_self_match:
  assumes "device_ok d" and "0 < n"
  shows "memcmp (dv_name d) (device_bytes d) n = Ok 1"
proof -
  obtain c cs where c: "dv_name d = c # cs" "3 < c" using assms(1) by (cases "dv_name d") (auto simp: device_ok_def)
  have "dv_bc d OR push_bit 1 (dv_valid d) \<le> 3" using assms(1) by (auto simp: device_ok_def u8_le_1)
  hence "c \<noteq> dv_bc d OR push_bit 1 (dv_valid d)" using c(2) by auto
  thus ?thesis using c assms(2) by (cases n) (auto simp: device_bytes_def)
qed

lemma destroy_from_none:
  "list_all device_ok xs \<Longrightarrow> strlen name = Ok n \<Longrightarrow> 0 < n \<Longrightarrow> destroy_from release first name (xs @ [blank_device]) w = Ok (xs @ [blank_device], w)"
  by (induction xs arbitrary: first) (auto simp: device_ok_no_self_match blank_device_def device_ok_def)

text \<open>\<open>device_destroy\<close> compares the name of a device with the device structure itself, so on a chain
  of devices the layer has created no name that is not empty ever removes anything.\<close>

theorem device_destroy_never:
  assumes "chain_ok (chain t)" and "strlen name = Ok n" and "0 < n"
  shows "device_destroy release t name w = Ok (t, w)"
proof -
  obtain xs where "chain t = xs @ [blank_device]" "list_all device_ok xs" using chain_okE [OF assms(1)] by blast
  thus ?thesis by (cases t) (simp add: device_destroy_def destroy_from_none [OF _ assms(2,3)])
qed

section \<open>A new device answers under its name\<close>

lemma first_device_skip:
  "list_all device_ok xs \<Longrightarrow> \<forall>d \<in> set xs. P d = Ok False \<Longrightarrow> first_device P (xs @ ys) = first_device P ys"
  by (induction xs) (auto simp: device_ok_def)

lemma memcmp_refl: "n \<le> length a \<Longrightarrow> memcmp a a n = Ok 0"
proof (induction a arbitrary: n)
  case (Cons x xs) thus ?case by (cases n) auto
qed simp

lemma cstr_length: "terminated s \<Longrightarrow> length (cstr s) < length s"
  using terminated_split [of s] by (metis add_Suc_right length_Cons length_append less_add_Suc1)

lemma name_matches_self:
  assumes "terminated (dv_name d)"
  shows "name_matches (dv_name d) d = Ok True"
  using strlen_length [OF assms] memcmp_refl [of "min (length (cstr (dv_name d))) 65536" "dv_name d"] cstr_length [OF assms]
  by (simp add: name_matches_def)

lemma strncpy_self:
  assumes "terminated s" and "rbind (strlen s) (strncpy b s) = Ok b1"
  shows "length b1 = length b \<and> terminated b1"
proof -
  have "strncpy b s (min (length (cstr s)) 65536) = Ok b1" using assms(2) strlen_length [OF assms(1)] by simp
  thus ?thesis using strncpy_copies [OF assms(1), of "min (length (cstr s)) 65536" b]
    by (auto simp: terminated_def split: if_splits)
qed

lemma terminated_append_nul: "terminated (s @ [0])"
  by (simp add: terminated_def)

lemma device_name_terminated: "device_name_for major minor = Ok name \<Longrightarrow> terminated name"
  using terminated_append_nul by (auto simp: device_name_for_def result_simps split: option.splits simp flip: append_assoc)

lemma hex_str_length: "n < 16 ^ k \<Longrightarrow> 0 < k \<Longrightarrow> length (hex_str n) \<le> k"
proof (induction n arbitrary: k rule: hex_str.induct)
  case (1 n)
  show ?case
  proof (cases "n < 16")
    case True
    then show ?thesis using hex_str.simps [of n] 1(3) by simp
  next
    case False
    then obtain j where j: "k = Suc j" "0 < j" using 1(2,3) by (cases k; cases "k - 1") auto
    with 1(2) have "n div 16 < 16 ^ j" by (simp add: less_mult_imp_div_less mult.commute)
    with 1(1) [OF False] j False show ?thesis using hex_str.simps [of n] by simp
  qed
qed

lemma device_create_chain:
  assumes "chain_ok (chain t)" and "device_create t control major ident = Ok (name, t1)"
  obtains d where "t1 = t\<lparr>chain := butlast (chain t) @ [d, blank_device]\<rparr>" and "dv_valid d = 1" and "dv_name d = name"
    and "dv_bc d = drop_bit 7 (major AND 0x80)" and "dv_major d = major AND 0x7F" and "dv_id d = ident"
    and "terminated name" and "length name = 32"
proof -
  have ne: "chain t \<noteq> []" and bl: "List.last (chain t) = blank_device" using assms(1) by (auto simp: chain_ok_def)
  from assms(2) obtain minor nm where
    1: "device_name_for major minor = Ok nm" "rbind (strlen nm) (strncpy (dv_name blank_device) nm) = Ok name"
    "t1 = t\<lparr>chain := butlast (chain t) @ [\<lparr>dv_bc = drop_bit 7 (major AND 0x80), dv_valid = 1, dv_major = major AND 0x7F,
      dv_minor = minor, dv_name = name, dv_id = ident, dv_control = control\<rparr>, blank_device]\<rparr>"
    unfolding device_create_def Let_def bl using ne by (auto simp: rbind_eq_Ok)
  have "length name = 32 \<and> terminated name"
    using strncpy_self [OF device_name_terminated [OF 1(1)] 1(2)] by (simp add: blank_device_def)
  thus thesis by (intro that [OF 1(3)]) simp_all
qed

text \<open>A number that has a name in the table gives a device: the name with the number of the device behind it fits its
  32 bytes.\<close>

definition named_major :: "u8 \<Rightarrow> bool" where
  "named_major m \<longleftrightarrow> (\<exists>s. rd device_identifiers (unat m) = Ok (Some s) \<and> length s \<le> 8)"

lemma device_name_short:
  assumes "named_major m"
  shows "\<exists>s. device_name_for m minor = Ok s \<and> terminated s \<and> length s \<le> 12"
proof -
  from assms obtain s where s: "rd device_identifiers (unat m) = Ok (Some s)" "length s \<le> 8" by (auto simp: named_major_def)
  have "unat minor + 10 < 16 ^ 3" using unsigned_less [of minor, where ?'a = nat] by simp
  then have "length (hex_str (unat minor + 10)) \<le> 3" by (rule hex_str_length) simp
  with s have "device_name_for m minor = Ok (s @ hex_str (unat minor + 10) @ [0]) \<and> length (s @ hex_str (unat minor + 10) @ [0]) \<le> 12"
    by (simp add: device_name_for_def)
  then show ?thesis using device_name_terminated by blast
qed

definition new_device :: "u64 \<Rightarrow> u8 \<Rightarrow> u64 \<Rightarrow> device \<Rightarrow> bool" where
  "new_device control m i d \<longleftrightarrow> dv_valid d = 1 \<and> dv_bc d = drop_bit 7 (m AND 0x80) \<and> dv_major d = m AND 0x7F \<and> dv_id d = i \<and>
     dv_control d = control \<and> length (dv_name d) = 32 \<and> terminated (dv_name d)"

lemma device_created:
  assumes c: "chain t = xs @ [blank_device]" and m: "named_major m"
  shows "\<exists>d. device_create t control m i = Ok (dv_name d, t\<lparr>chain := xs @ [d, blank_device]\<rparr>) \<and> new_device control m i d"
proof -
  let ?n = "of_nat (length (filter (\<lambda>d. full_major d = m) xs)) :: u8"
  from device_name_short [OF m, of ?n] obtain s where
    s: "device_name_for m ?n = Ok s" "terminated s" "length s \<le> 12" by blast
  have l: "length (cstr s) < 12" using cstr_length [OF s(2)] s(3) by simp
  have b: "length (dv_name blank_device) = 32" by (simp add: blank_device_def)
  have "strncpy (dv_name blank_device) s (length (cstr s)) = Ok (cstr s @ 0 # drop (length (cstr s) + 1) (dv_name blank_device))"
    using strncpy_copies [OF s(2), of "length (cstr s)" "dv_name blank_device"] l b by simp
  moreover have "strlen s = Ok (length (cstr s))" using strlen_length [OF s(2)] l by simp
  ultimately have "\<exists>b. rbind (strlen s) (strncpy (dv_name blank_device) s) = Ok b" by simp
  then obtain b1 where b1: "rbind (strlen s) (strncpy (dv_name blank_device) s) = Ok b1" by (rule exE)
  let ?d = "\<lparr>dv_bc = drop_bit 7 (m AND 0x80), dv_valid = 1, dv_major = m AND 0x7F, dv_minor = ?n, dv_name = b1, dv_id = i,
    dv_control = control\<rparr>"
  have "device_create t control m i = Ok (dv_name ?d, t\<lparr>chain := xs @ [?d, blank_device]\<rparr>)"
    using s(1) b1 c by (simp add: device_create_def Let_def)
  moreover have "new_device control m i ?d" using strncpy_self [OF s(2) b1] b by (simp add: new_device_def)
  ultimately show ?thesis by blast
qed

lemma search_created:
  assumes "chain_ok (chain t)" and "device_create t control major ident = Ok (name, t1)"
    and "\<forall>d \<in> set (butlast (chain t)). name_matches name d = Ok False"
  obtains d where "device_search t1 name = Ok (Some d)" and "dv_bc d = drop_bit 7 (major AND 0x80)"
    and "dv_major d = major AND 0x7F" and "dv_id d = ident" and "char_drivers t1 = char_drivers t" and "block_drivers t1 = block_drivers t"
proof -
  from device_create_chain [OF assms(1,2)] obtain d where
    d: "t1 = t\<lparr>chain := butlast (chain t) @ [d, blank_device]\<rparr>" "dv_valid d = 1" "dv_name d = name"
      "dv_bc d = drop_bit 7 (major AND 0x80)" "dv_major d = major AND 0x7F" "dv_id d = ident" "terminated name" by blast
  have "list_all device_ok (butlast (chain t))" using assms(1) by (simp add: chain_ok_def)
  hence "device_search t1 name = Ok (Some d)"
    using first_device_skip [of "butlast (chain t)" "name_matches name" "[d, blank_device]"] assms(3) name_matches_self [of d] d
    by (simp add: device_search_def)
  thus thesis using d by (intro that [of d]) simp_all
qed

lemma registered_driver:
  assumes "set_driver ds i dn ops = Ok ds1"
  obtains nm where "rd ds1 i = Ok \<lparr>fops = ops, registered = 1, dd_name = nm\<rparr>"
  using assms by (auto simp: set_driver_def rd_def wr_def rbind_eq_Ok split: if_splits)

lemma chain_ok_registered:
  "driver_register_block t major dn ops = Ok t1 \<Longrightarrow> chain t1 = chain t"
  by (auto simp: driver_register_block_def rbind_eq_Ok)

lemma low_major:
  assumes "(major :: u8) < 0x80"
  shows "major AND 0x80 = 0" and "major AND 0x7F = major"
proof -
  have "unat (take_bit 7 major) = unat major"
    using assms by (simp add: unsigned_take_bit_eq take_bit_nat_eq_self word_less_nat_alt)
  moreover have "take_bit 7 major = major AND 0x7F" by (simp add: take_bit_eq_mask mask_eq_exp_minus_1)
  ultimately show 2: "major AND 0x7F = major" by (simp add: word_unat_eq_iff)
  show "major AND 0x80 = 0" by (subst 2 [symmetric]) (simp add: and.assoc)
qed

text \<open>once a driver is registered for a block class, a device created for that class is served by it:
  a write through the name \<open>device_create\<close> returned is the driver's write with the identifier of the device,
  unless the name of an older device begins with that name.\<close>

theorem device_create_dispatch:
  assumes "chain_ok (chain t)" and "major < 0x80"
    and "driver_register_block t major dn (Some ops) = Ok t1" and "device_create t1 control major ident = Ok (name, t2)"
    and "\<forall>d \<in> set (butlast (chain t)). name_matches name d = Ok False" and "fo_write ops = Some f"
  shows "device_write t2 name len offset buffer w = f ident len offset buffer w"
proof -
  have m: "major AND 0x80 = 0" "major AND 0x7F = major"
    using low_major [OF assms(2)] .
  have c: "chain t1 = chain t" using chain_ok_registered [OF assms(3)] .
  from search_created [OF assms(1) [folded c] assms(4) assms(5) [folded c]] obtain d where
    d: "device_search t2 name = Ok (Some d)" "dv_bc d = 0" "dv_major d = major" "dv_id d = ident" "block_drivers t2 = block_drivers t1"
    using m by auto
  from assms(3) obtain ds1 where "set_driver (block_drivers t) (unat major) dn (Some ops) = Ok ds1" "block_drivers t1 = ds1"
    by (auto simp: driver_register_block_def rbind_eq_Ok)
  from registered_driver [OF this(1)] obtain nm where "rd ds1 (unat major) = Ok \<lparr>fops = Some ops, registered = 1, dd_name = nm\<rparr>" .
  hence "driver_of t2 d = Ok \<lparr>fops = Some ops, registered = 1, dd_name = nm\<rparr>"
    using d \<open>block_drivers t1 = ds1\<close> by (simp add: driver_of_def)
  thus ?thesis using d assms(6) by (simp add: device_write_def)
qed

section \<open>Bounds of the driver tables\<close>

text \<open>the tables hold 32 drivers, but the major numbers of a class run to 127: registering a driver with
  a larger number writes outside the table.\<close>

theorem driver_register_bounds:
  assumes "length (char_drivers t) = 32" and "length (block_drivers t) = 32" and "32 \<le> unat (major AND 0x7F)"
  shows "driver_register_char t major name ops = Err Fault"
    and "driver_register_block t (major AND 0x7F) name ops = Err Fault"
  using assms by (simp_all add: driver_register_char_def driver_register_block_def set_driver_def rd_def)

section \<open>Concrete inputs\<close>

definition quiet_driver :: "unit device_driver" where
  "quiet_driver = \<lparr>fops = None, registered = 0, dd_name = replicate 32 0\<rparr>"

definition echo_ops :: "unit file_operations" where
  "echo_ops = \<lparr>fo_read = None, fo_write = Some (\<lambda>p n off b w. Ok (p + n, w)), fo_ioctl = None\<rparr>"

definition devtab_example :: "unit devtab" where
  "devtab_example = \<lparr>char_drivers = replicate 32 quiet_driver, block_drivers = replicate 32 quiet_driver,
     chain = [blank_device\<lparr>dv_valid := 1, dv_major := 8, dv_name := [104, 100, 97] @ replicate 29 0\<rparr>, blank_device]\<rparr>"

lemma devtab_example_chain: "chain_ok (chain devtab_example)"
  by (simp add: devtab_example_def chain_ok_def device_ok_def blank_device_def terminated_def)

theorem device_destroy_never_witness: "device_destroy (\<lambda>d w. Err Fault) devtab_example [104, 100, 97, 0] () = Ok (devtab_example, ())"
  by (rule device_destroy_never [OF devtab_example_chain, of _ 3]) (simp_all add: strlen_def STR_MAX_SIZE_def)

theorem device_create_dispatch_witness:
  "\<exists>t1 t2 name. driver_register_block devtab_example 8 [65, 0] (Some echo_ops) = Ok t1
    \<and> device_create t1 0 8 7 = Ok (name, t2) \<and> take 4 name = [104, 100, 98, 0] \<and> device_write t2 name 5 0 [] () = Ok (12, ())"
proof -
  have h: "hex_str 11 = [98]" by (simp add: hex_str.simps hex_digit_def)
  have l: "strlen [65, 0] = Ok 1" "strlen [104, 100, 98, 0] = Ok 3" by (simp_all add: strlen_def STR_MAX_SIZE_def)
  have cs: "cstr [65, 0] = [65]" "cstr [104, 100, 98, 0] = [104, 100, 98]" by (simp_all add: cstr_def)
  have c: "strncpy (replicate 32 (0 :: u8)) [65, 0] 1 = Ok ([65, 0] @ replicate 30 0)"
    "strncpy (replicate 32 (0 :: u8)) [104, 100, 98, 0] 3 = Ok ([104, 100, 98, 0] @ replicate 28 0)"
    using strncpy_copies [of "[65, 0]" 1 "replicate 32 0"] strncpy_copies [of "[104, 100, 98, 0]" 3 "replicate 32 0"]
    unfolding cs by (simp_all add: terminated_def)
  have "set_driver (block_drivers devtab_example) 8 [65, 0] (Some echo_ops)
      = Ok ((block_drivers devtab_example)[8 := \<lparr>fops = Some echo_ops, registered = 1, dd_name = [65, 0] @ replicate 30 0\<rparr>])"
    by (simp add: set_driver_def devtab_example_def quiet_driver_def memset_def put_bytes_eq l c [simplified])
  then obtain t1 where 1: "driver_register_block devtab_example 8 [65, 0] (Some echo_ops) = Ok t1" "chain t1 = chain devtab_example"
    by (simp add: driver_register_block_def)
  let ?n = "[104, 100, 98, 0] @ replicate 28 (0 :: u8)"
  have "device_name_for 8 1 = Ok [104, 100, 98, 0]" by (simp add: device_name_for_def device_identifiers_def nth_append h)
  hence 2: "device_create t1 0 8 7 = Ok (?n, t1\<lparr>chain := butlast (chain t1) @
      [\<lparr>dv_bc = 0, dv_valid = 1, dv_major = 8, dv_minor = 1, dv_name = ?n, dv_id = 7, dv_control = 0\<rparr>, blank_device]\<rparr>)"
    by (simp add: device_create_def 1(2) devtab_example_def full_major_def blank_device_def l c)
  have "\<forall>d \<in> set (butlast (chain devtab_example)). name_matches ?n d = Ok False"
    by (simp add: devtab_example_def name_matches_def strlen_def STR_MAX_SIZE_def numeral_3_eq_3 blank_device_def)
  from device_create_dispatch [OF devtab_example_chain _ 1(1) 2 this, of _ 5 0 "[]" "()"] 1 2
  show ?thesis by (auto simp: echo_ops_def)
qed

theorem driver_register_bounds_witness: "driver_register_char devtab_example 0xa0 [65, 0] None = Err Fault"
  by (rule driver_register_bounds(1)) (simp_all add: devtab_example_def)

end
