(* ===== verification/Disk.thy ===== *)
theory Disk
  imports Devices
begin

text \<open>The disk driver (\<open>drivers/disk/disk_dd.c\<close>) and the interface the file systems call
  (\<open>disk_interface.c\<close>). The controller is the sectors of the drive at each port, with the accesses it
  completes; its command tables are in \<open>Ahci\<close>. Both interfaces count bytes: the driver moves as many
  sectors of 512 bytes as they fill.\<close>

section \<open>Drives\<close>

text \<open>\<open>dr_packet\<close> is what a packet read of a number of sectors leaves in the buffer of the port, \<open>dr_ident\<close> and
  \<open>dr_capacity\<close> what the drive identifies itself with.\<close>

record drive =
  dr_sector :: "u64 \<Rightarrow> u8 list"
  dr_ok :: "u64 \<Rightarrow> bool"
  dr_packet :: "u64 \<Rightarrow> u32 \<Rightarrow> u8 list option"
  dr_ident :: "u8 list"
  dr_capacity :: u64

type_synonym ports = "u8 \<Rightarrow> drive"

definition read_port :: "drive \<Rightarrow> u64 \<Rightarrow> u8 list option" where
  "read_port d a = (if dr_ok d a then Some (dr_sector d a) else None)"

definition write_port :: "drive \<Rightarrow> u64 \<Rightarrow> u8 list \<Rightarrow> drive option" where
  "write_port d a bs = (if dr_ok d a then Some (d\<lparr>dr_sector := (dr_sector d)(a := bs)\<rparr>) else None)"

section \<open>The driver\<close>

definition size_to_blocks :: "u64 \<Rightarrow> u64" where "size_to_blocks n = (n + 511) div 512"
definition block_to_size :: "u64 \<Rightarrow> u64" where "block_to_size n = n * 512"

text \<open>\<open>n\<close> more sectors from the \<open>i\<close>-th on; the result is the number of a sector that failed.\<close>

fun dd_read_loop :: "drive \<Rightarrow> u64 \<Rightarrow> nat \<Rightarrow> nat \<Rightarrow> u8 list \<Rightarrow> (nat option \<times> u8 list) result" where
  "dd_read_loop d a i 0 buf = Ok (None, buf)"
| "dd_read_loop d a i (Suc n) buf = (case read_port d (a + of_nat i) of
      None \<Rightarrow> Ok (Some i, buf)
    | Some bs \<Rightarrow> rbind (put_bytes buf (512 * i) bs) (\<lambda>buf1. dd_read_loop d a (i + 1) n buf1))"

definition dd_disk_read :: "u64 \<Rightarrow> u64 \<Rightarrow> u64 \<Rightarrow> u8 list \<Rightarrow> ports \<Rightarrow> (u64 \<times> u8 list \<times> ports) result" where
  "dd_disk_read port n offset buf ps =
     rbind (dd_read_loop (ps (ucast port)) offset 0 (unat (size_to_blocks n)) buf) (\<lambda>(r, buf1).
       Ok (case r of None \<Rightarrow> n | Some i \<Rightarrow> block_to_size (of_nat i), buf1, ps))"

fun dd_write_loop :: "drive \<Rightarrow> u64 \<Rightarrow> nat \<Rightarrow> nat \<Rightarrow> u8 list \<Rightarrow> (nat option \<times> drive) result" where
  "dd_write_loop d a i 0 buf = Ok (None, d)"
| "dd_write_loop d a i (Suc n) buf = (if length buf < 512 * (i + 1) then Err Fault
     else case write_port d (a + of_nat i) (take 512 (drop (512 * i) buf)) of
        None \<Rightarrow> Ok (Some i, d)
      | Some d1 \<Rightarrow> dd_write_loop d1 a (i + 1) n buf)"

definition dd_disk_write :: "u64 \<Rightarrow> u64 \<Rightarrow> u64 \<Rightarrow> u8 list \<Rightarrow> ports \<Rightarrow> (u64 \<times> ports) result" where
  "dd_disk_write port n offset buf ps =
     rbind (dd_write_loop (ps (ucast port)) offset 0 (unat (size_to_blocks n)) buf) (\<lambda>(r, d).
       Ok (case r of None \<Rightarrow> n | Some i \<Rightarrow> block_to_size (of_nat i), ps(ucast port := d)))"

definition dd_disk_atapi_read :: "u64 \<Rightarrow> u64 \<Rightarrow> u64 \<Rightarrow> u8 list \<Rightarrow> ports \<Rightarrow> (u64 \<times> u8 list \<times> ports) result" where
  "dd_disk_atapi_read port n offset buf ps =
     (case dr_packet (ps (ucast port)) offset (ucast (size_to_blocks n)) of
        None \<Rightarrow> Ok (0, buf, ps)
      | Some hw \<Rightarrow> rbind (memcpy buf hw (512 * unat (size_to_blocks n))) (\<lambda>buf1. Ok (n, buf1, ps)))"

definition dd_disk_atapi_write :: "u64 \<Rightarrow> u64 \<Rightarrow> u64 \<Rightarrow> u8 list \<Rightarrow> ports \<Rightarrow> (u64 \<times> ports) result" where
  "dd_disk_atapi_write port n offset buf ps = Err (Panic ''ATAPI WRITE NOT IMPLEMENTED'')"

abbreviation "IOCTL_INIT \<equiv> (3 :: u64)"
abbreviation "IOCTL_CTRL_SYNC \<equiv> (4 :: u64)"
abbreviation "IOCTL_CTRL_TRIM \<equiv> (5 :: u64)"
abbreviation "IOCTL_GET_SECTOR_SIZE \<equiv> (6 :: u64)"
abbreviation "IOCTL_GET_SECTOR_COUNT \<equiv> (7 :: u64)"
abbreviation "IOCTL_GET_BLOCK_SIZE \<equiv> (8 :: u64)"

text \<open>Operation 1 is \<open>IOCTL_ATAPI_IDENTIFY\<close>. \<open>data\<close> is the object the last argument points to; a null pointer is the empty object.\<close>

definition dd_ioctl :: "u64 \<Rightarrow> u64 \<Rightarrow> u8 list \<Rightarrow> ports \<Rightarrow> (u64 \<times> u8 list \<times> ports) result" where
  "dd_ioctl port op data ps = (let d = ps (ucast port) in
     if op = 1 then rbind (memcpy data (dr_ident d) 512) (\<lambda>b. Ok (0, b, ps))
     else if op = IOCTL_INIT \<or> op = IOCTL_CTRL_SYNC \<or> op = IOCTL_CTRL_TRIM
     then rbind (store32 data 1) (\<lambda>b. Ok (1, b, ps))
     else if op = IOCTL_GET_SECTOR_SIZE \<or> op = IOCTL_GET_BLOCK_SIZE
     then rbind (store32 data 512) (\<lambda>b. Ok (512, b, ps))
     else if op = IOCTL_GET_SECTOR_COUNT
     then rbind (store32 data (ucast (dr_capacity d))) (\<lambda>b. rbind (store32 (drop 4 b) (ucast (drop_bit 32 (dr_capacity d)))) (\<lambda>c.
       Ok (dr_capacity d, take 4 b @ c, ps)))
     else Ok (0, data, ps))"

definition ata_fops :: "ports file_operations" where
  "ata_fops = \<lparr>fo_read = Some dd_disk_read, fo_write = Some dd_disk_write, fo_ioctl = Some dd_ioctl\<rparr>"

definition atapi_fops :: "ports file_operations" where
  "atapi_fops = \<lparr>fo_read = Some dd_disk_atapi_read, fo_write = Some dd_disk_atapi_write, fo_ioctl = Some dd_ioctl\<rparr>"

text \<open>The names are \<open>ATA DRIVER\<close> and \<open>ATAPI DRIVER\<close>.\<close>

definition DISK_ATA_DD_NAME :: "u8 list" where
  "DISK_ATA_DD_NAME = [65, 84, 65, 32, 68, 82, 73, 86, 69, 82, 0, 0]"

definition DISK_ATAPI_DD_NAME :: "u8 list" where
  "DISK_ATAPI_DD_NAME = [65, 84, 65, 80, 73, 32, 68, 82, 73, 86, 69, 82, 0, 0]"

definition init_drive_dd :: "ports devtab \<Rightarrow> ports devtab result" where
  "init_drive_dd t = rbind (driver_register_block t 8 DISK_ATA_DD_NAME (Some ata_fops)) (\<lambda>t1.
     driver_register_block t1 9 DISK_ATAPI_DD_NAME (Some atapi_fops))"

section \<open>The interface\<close>

text \<open>The device tables and the drives. \<open>sector\<close> and \<open>count\<close> of the second variants are \<open>int\<close>s, which the call
  extends with their sign.\<close>

record dsys =
  dtab :: "ports devtab"
  dports :: ports

definition get_disk_status :: "dsys \<Rightarrow> u8 list \<Rightarrow> u32 result" where
  "get_disk_status s name = rbind (device_search (dtab s) name) (\<lambda>r. Ok (if r \<noteq> None then 1 else 0))"

definition disk_get_status :: "dsys \<Rightarrow> u8 list \<Rightarrow> u8 result" where
  "disk_get_status s name = rbind (device_search (dtab s) name) (\<lambda>r. Ok (if r \<noteq> None then 1 else 0))"

definition ioctl_disk :: "dsys \<Rightarrow> u8 list \<Rightarrow> u32 \<Rightarrow> u8 list \<Rightarrow> (u32 \<times> u8 list \<times> dsys) result" where
  "ioctl_disk s name op data = rbind (device_ioctl (dtab s) name (scast op) data (dports s)) (\<lambda>(r, b, ps).
     Ok (if r \<noteq> 0 then 1 else 0, b, s\<lparr>dports := ps\<rparr>))"

definition disk_ioctl :: "dsys \<Rightarrow> u8 list \<Rightarrow> u32 \<Rightarrow> u8 list \<Rightarrow> (u64 \<times> u8 list \<times> dsys) result" where
  "disk_ioctl s name op data = rbind (device_ioctl (dtab s) name (ucast op) data (dports s)) (\<lambda>(r, b, ps).
     Ok (if r \<noteq> 0 then 1 else 0, b, s\<lparr>dports := ps\<rparr>))"

definition init_disk :: "dsys \<Rightarrow> u8 list \<Rightarrow> (u32 \<times> dsys) result" where
  "init_disk s name = rbind (device_ioctl (dtab s) name IOCTL_INIT [] (dports s)) (\<lambda>(r, b, ps).
     Ok (if r \<noteq> 0 then 1 else 0, s\<lparr>dports := ps\<rparr>))"

definition disk_initialize :: "dsys \<Rightarrow> u8 list \<Rightarrow> (u8 \<times> dsys) result" where
  "disk_initialize s name = rbind (device_ioctl (dtab s) name IOCTL_INIT [] (dports s)) (\<lambda>(r, b, ps).
     Ok (if r \<noteq> 0 then 1 else 0, s\<lparr>dports := ps\<rparr>))"

definition disk_read :: "dsys \<Rightarrow> u8 list \<Rightarrow> u8 list \<Rightarrow> u32 \<Rightarrow> u32 \<Rightarrow> (u8 \<times> u8 list \<times> dsys) result" where
  "disk_read s name buf lba count = rbind (device_read (dtab s) name (ucast count) (ucast lba) buf (dports s)) (\<lambda>(r, b, ps).
     Ok (ucast r, b, s\<lparr>dports := ps\<rparr>))"

definition read_disk :: "dsys \<Rightarrow> u8 list \<Rightarrow> u8 list \<Rightarrow> u32 \<Rightarrow> u32 \<Rightarrow> (u32 \<times> u8 list \<times> dsys) result" where
  "read_disk s name buf sector count = rbind (device_read (dtab s) name (scast count) (scast sector) buf (dports s)) (\<lambda>(r, b, ps).
     Ok (ucast r, b, s\<lparr>dports := ps\<rparr>))"

definition disk_write :: "dsys \<Rightarrow> u8 list \<Rightarrow> u8 list \<Rightarrow> u32 \<Rightarrow> u32 \<Rightarrow> (u8 \<times> dsys) result" where
  "disk_write s name buf lba count = rbind (device_write (dtab s) name (ucast count) (ucast lba) buf (dports s)) (\<lambda>(r, ps).
     Ok (ucast r, s\<lparr>dports := ps\<rparr>))"

definition write_disk :: "dsys \<Rightarrow> u8 list \<Rightarrow> u8 list \<Rightarrow> u32 \<Rightarrow> u32 \<Rightarrow> (u32 \<times> dsys) result" where
  "write_disk s name buf sector count = rbind (device_write (dtab s) name (scast count) (scast sector) buf (dports s)) (\<lambda>(r, ps).
     Ok (ucast r, s\<lparr>dports := ps\<rparr>))"

definition disk_identify :: "dsys \<Rightarrow> u8 list \<Rightarrow> u64 result" where
  "disk_identify s name = rbind (device_identify (dtab s) name DISK_ATA_DD_NAME) (\<lambda>f.
     if f = 0 then rbind (device_identify (dtab s) name DISK_ATAPI_DD_NAME) (\<lambda>g. Ok (ucast g)) else Ok (ucast f))"

section \<open>Stores of sectors\<close>

text \<open>What a client may rely on: the sectors are independent cells. Runs of sectors are read and written one
  after the other; the addresses wrap around.\<close>

fun get_secs :: "('s \<Rightarrow> u64 \<Rightarrow> 'b) \<Rightarrow> 's \<Rightarrow> u64 \<Rightarrow> nat \<Rightarrow> 'b list" where
  "get_secs get s a 0 = []"
| "get_secs get s a (Suc n) = get s a # get_secs get s (a + 1) n"

fun put_secs :: "('s \<Rightarrow> u64 \<Rightarrow> 'b \<Rightarrow> 's) \<Rightarrow> 's \<Rightarrow> u64 \<Rightarrow> 'b list \<Rightarrow> 's" where
  "put_secs put s a [] = s"
| "put_secs put s a (b # bs) = put_secs put (put s a b) (a + 1) bs"

text \<open>\<open>in_run b a n\<close>: \<open>b\<close> is one of the \<open>n\<close> addresses from \<open>a\<close> on.\<close>

definition in_run :: "u64 \<Rightarrow> u64 \<Rightarrow> nat \<Rightarrow> bool" where
  "in_run b a n \<longleftrightarrow> unat (b - a) < n"

lemma in_run_Suc: "in_run b (a + 1) n \<Longrightarrow> in_run b a (Suc n) \<or> b = a"
proof (cases "b = a")
  case False
  have "unat ((b - a) - 1) = unat (b - a) - 1" using False by (intro unat_minus_one) simp
  moreover assume "in_run b (a + 1) n"
  hence "unat ((b - a) - 1) < n" by (simp add: in_run_def diff_diff_eq)
  ultimately show ?thesis unfolding in_run_def by linarith
qed simp

locale sector_store =
  fixes get :: "'s \<Rightarrow> u64 \<Rightarrow> u8 list" and put :: "'s \<Rightarrow> u64 \<Rightarrow> u8 list \<Rightarrow> 's"
  assumes get_put_same: "get (put s a b) a = b"
    and get_put_other: "a' \<noteq> a \<Longrightarrow> get (put s a b) a' = get s a'"
begin

lemma get_put_secs_other: "\<not> in_run a' a (length bs) \<Longrightarrow> length bs < 2 ^ 64 \<Longrightarrow> get (put_secs put s a bs) a' = get s a'"
proof (induction bs arbitrary: s a)
  case (Cons b bs)
  have "a' \<noteq> a" using Cons.prems(1) by (auto simp: in_run_def)
  moreover have "\<not> in_run a' (a + 1) (length bs)" using Cons.prems(1) in_run_Suc [of a' a "length bs"] \<open>a' \<noteq> a\<close> by auto
  ultimately show ?case using Cons.IH [of "a + 1" "put s a b"] Cons.prems(2) by (simp add: get_put_other)
qed simp

lemma get_secs_cong: "(\<And>i. i < n \<Longrightarrow> get s (a + of_nat i) = get s' (a + of_nat i)) \<Longrightarrow> get_secs get s a n = get_secs get s' a n"
proof (induction n arbitrary: a)
  case (Suc n)
  have "get s (a + 1 + of_nat i) = get s' (a + 1 + of_nat i)" if "i < n" for i
    using Suc.prems [of "Suc i"] that by (simp add: add.assoc)
  from Suc.IH [OF this] Suc.prems [of 0] show ?case by simp
qed simp

lemma get_put_secs_same: "length bs < 2 ^ 64 \<Longrightarrow> get_secs get (put_secs put s a bs) a (length bs) = bs"
proof (induction bs arbitrary: s a)
  case (Cons b bs)
  have "a - (a + 1) = - 1" by simp
  hence "unat (a - (a + 1)) = 2 ^ 64 - 1" by (simp add: unsigned_minus_1_eq_mask mask_eq_exp_minus_1)
  hence "\<not> in_run a (a + 1) (length bs)" using Cons.prems by (simp add: in_run_def)
  with get_put_secs_other [of a "a + 1" bs "put s a b"] Cons show ?case by (simp add: get_put_same)
qed simp

lemma get_put_secs_disjoint:
  assumes "\<And>i. i < n \<Longrightarrow> \<not> in_run (c + of_nat i) a (length bs)" and "length bs < 2 ^ 64"
  shows "get_secs get (put_secs put s a bs) c n = get_secs get s c n"
  by (rule get_secs_cong) (use get_put_secs_other assms in blast)

end

text \<open>The sectors of a drive are such a store.\<close>

definition put_sector :: "drive \<Rightarrow> u64 \<Rightarrow> u8 list \<Rightarrow> drive" where
  "put_sector d a b = d\<lparr>dr_sector := (dr_sector d)(a := b)\<rparr>"

interpretation dv: sector_store dr_sector put_sector
  by unfold_locales (simp_all add: put_sector_def)

section \<open>The driver on healthy drives\<close>

text \<open>Every sector holds 512 bytes and every access completes.\<close>

definition drive_ok :: "drive \<Rightarrow> bool" where
  "drive_ok d \<longleftrightarrow> (\<forall>a. length (dr_sector d a) = 512 \<and> dr_ok d a)"

definition chunks :: "nat \<Rightarrow> u8 list \<Rightarrow> u8 list list" where
  "chunks n bs = map (\<lambda>i. take 512 (drop (512 * i) bs)) [0..<n]"

lemma length_get_secs [simp]: "length (get_secs get s a n) = n"
  by (induction n arbitrary: a) auto

lemma drive_ok_get: "drive_ok d \<Longrightarrow> length (concat (get_secs dr_sector d a n)) = 512 * n"
  by (induction n arbitrary: a) (auto simp: drive_ok_def)

lemma drive_ok_put: "drive_ok d \<Longrightarrow> length b = 512 \<Longrightarrow> drive_ok (put_sector d a b)"
  by (auto simp: drive_ok_def put_sector_def)

lemma drive_ok_put_secs: "drive_ok d \<Longrightarrow> \<forall>b \<in> set bs. length b = 512 \<Longrightarrow> drive_ok (put_secs put_sector d a bs)"
  by (induction bs arbitrary: d a) (auto intro: drive_ok_put)

lemma dd_read_loop_ok:
  "drive_ok d \<Longrightarrow> 512 * (i + n) \<le> length buf \<Longrightarrow> dd_read_loop d a i n buf =
    Ok (None, take (512 * i) buf @ concat (get_secs dr_sector d (a + of_nat i) n) @ drop (512 * (i + n)) buf)"
proof (induction n arbitrary: i buf)
  case (Suc n)
  have r: "read_port d (a + of_nat i) = Some (dr_sector d (a + of_nat i))" and l: "length (dr_sector d (a + of_nat i)) = 512"
    using Suc.prems(1) by (simp_all add: read_port_def drive_ok_def)
  let ?b = "take (512 * i) buf @ dr_sector d (a + of_nat i) @ drop (512 * i + 512) buf"
  have p: "put_bytes buf (512 * i) (dr_sector d (a + of_nat i)) = Ok ?b"
    using put_bytes_eq [of "512 * i" "dr_sector d (a + of_nat i)" buf] Suc.prems(2) l by simp
  have "length ?b = length buf" using Suc.prems(2) l by simp
  then have "512 * (Suc i + n) \<le> length ?b" using Suc.prems(2) by simp
  from Suc.IH [OF Suc.prems(1) this] show ?case using r p l Suc.prems(2) by (simp add: algebra_simps)
qed simp

lemma dd_write_loop_ok:
  "drive_ok d \<Longrightarrow> 512 * (i + n) \<le> length buf \<Longrightarrow> dd_write_loop d a i n buf =
    Ok (None, put_secs put_sector d (a + of_nat i) (chunks n (drop (512 * i) buf)))"
proof (induction n arbitrary: i d)
  case (Suc n)
  let ?c = "take 512 (drop (512 * i) buf)"
  have w: "write_port d (a + of_nat i) ?c = Some (put_sector d (a + of_nat i) ?c)"
    using Suc.prems(1) by (simp add: write_port_def put_sector_def drive_ok_def)
  have ok: "drive_ok (put_sector d (a + of_nat i) ?c)" by (rule drive_ok_put [OF Suc.prems(1)]) (use Suc.prems(2) in simp)
  have "chunks (Suc n) (drop (512 * i) buf) = ?c # chunks n (drop (512 * (i + 1)) buf)"
    unfolding chunks_def map_upt_Suc by (simp add: comp_def algebra_simps)
  with Suc.IH [OF ok, of "i + 1"] w Suc.prems(2) show ?case by (simp add: algebra_simps)
qed (simp add: chunks_def)

section \<open>Disks behind the device layer\<close>

text \<open>\<open>on_drive s name p\<close>: the device found under \<open>name\<close> is served by the ATA driver on port \<open>p\<close>.\<close>

definition on_drive :: "dsys \<Rightarrow> u8 list \<Rightarrow> u8 \<Rightarrow> bool" where
  "on_drive s name p \<longleftrightarrow> (\<exists>d dd. device_search (dtab s) name = Ok (Some d) \<and> driver_of (dtab s) d = Ok dd
     \<and> registered dd \<noteq> 0 \<and> fops dd = Some ata_fops \<and> ucast (dv_id d) = p)"

lemma on_driveE:
  assumes "on_drive s name p"
  obtains d dd where "device_search (dtab s) name = Ok (Some d)" and "driver_of (dtab s) d = Ok dd"
    and "registered dd \<noteq> 0" and "fops dd = Some ata_fops" and "ucast (dv_id d) = p"
  using assms by (auto simp: on_drive_def)

lemma on_drive_ports [simp]: "on_drive (s\<lparr>dports := ps\<rparr>) name p = on_drive s name p"
  by (simp add: on_drive_def)

lemma ucast_scast_u32 [simp]: "(ucast (scast (x :: u32) :: u64) :: u32) = x"
  by (rule bit_word_eqI) (simp add: bit_simps)

definition sectors_for :: "u32 \<Rightarrow> nat" where
  "sectors_for count = unat (size_to_blocks (scast count))"

text \<open>The bytes of \<open>n\<close> sectors, and a drive after the sectors of \<open>bs\<close> have been written.\<close>

definition disk_bytes :: "drive \<Rightarrow> u64 \<Rightarrow> nat \<Rightarrow> u8 list" where
  "disk_bytes d a n = concat (get_secs dr_sector d a n)"

definition disk_put :: "drive \<Rightarrow> u64 \<Rightarrow> nat \<Rightarrow> u8 list \<Rightarrow> drive" where
  "disk_put d a n bs = put_secs put_sector d a (chunks n bs)"

lemma read_disk_ok:
  assumes "on_drive s name p" and "drive_ok (dports s p)" and "512 * sectors_for count \<le> length buf"
  shows "read_disk s name buf sector count =
    Ok (count, disk_bytes (dports s p) (scast sector) (sectors_for count) @ drop (512 * sectors_for count) buf, s)"
proof -
  obtain d dd where d: "device_search (dtab s) name = Ok (Some d)" "driver_of (dtab s) d = Ok dd" "registered dd \<noteq> 0"
    "fops dd = Some ata_fops" "ucast (dv_id d) = p" using on_driveE [OF assms(1)] by blast
  show ?thesis
    using dd_read_loop_ok [OF assms(2), of 0 "sectors_for count" buf "scast sector"] assms(3) d
    by (simp add: read_disk_def device_read_def ata_fops_def dd_disk_read_def sectors_for_def disk_bytes_def)
qed

lemma write_disk_ok:
  assumes "on_drive s name p" and "drive_ok (dports s p)" and "512 * sectors_for count \<le> length buf"
  shows "write_disk s name buf sector count = Ok (count,
    s\<lparr>dports := (dports s)(p := disk_put (dports s p) (scast sector) (sectors_for count) buf)\<rparr>)"
proof -
  obtain d dd where d: "device_search (dtab s) name = Ok (Some d)" "driver_of (dtab s) d = Ok dd" "registered dd \<noteq> 0"
    "fops dd = Some ata_fops" "ucast (dv_id d) = p" using on_driveE [OF assms(1)] by blast
  show ?thesis
    using dd_write_loop_ok [OF assms(2), of 0 "sectors_for count" buf "scast sector"] assms(3) d
    by (simp add: write_disk_def device_write_def ata_fops_def dd_disk_write_def sectors_for_def disk_put_def)
qed

lemma concat_chunks: "512 * n \<le> length bs \<Longrightarrow> concat (chunks n bs) = take (512 * n) bs"
proof (induction n)
  case (Suc n)
  have "chunks (Suc n) bs = chunks n bs @ [take 512 (drop (512 * n) bs)]" by (simp add: chunks_def)
  moreover have "take (512 * Suc n) bs = take (512 * n) bs @ take 512 (drop (512 * n) bs)"
    by (metis mult_Suc_right add.commute take_add)
  ultimately show ?case using Suc by simp
qed (simp add: chunks_def)

lemma length_chunks [simp]: "length (chunks n bs) = n"
  by (simp add: chunks_def)

lemma chunks_512: "512 * n \<le> length bs \<Longrightarrow> \<forall>b \<in> set (chunks n bs). length b = 512"
  by (auto simp: chunks_def)

lemma disk_put_ok: "drive_ok d \<Longrightarrow> 512 * n \<le> length bs \<Longrightarrow> drive_ok (disk_put d a n bs)"
  unfolding disk_put_def by (rule drive_ok_put_secs [OF _ chunks_512])

lemma disk_bytes_put_same: "n < 2 ^ 64 \<Longrightarrow> 512 * n \<le> length bs \<Longrightarrow> disk_bytes (disk_put d a n bs) a n = take (512 * n) bs"
  using dv.get_put_secs_same [of "chunks n bs" d a] by (simp add: disk_bytes_def disk_put_def concat_chunks)

lemma disk_bytes_put_other:
  "(\<And>i. i < n \<Longrightarrow> \<not> in_run (c + of_nat i) a m) \<Longrightarrow> m < 2 ^ 64 \<Longrightarrow> disk_bytes (disk_put d a m bs) c n = disk_bytes d c n"
  using dv.get_put_secs_disjoint [of n c a "chunks m bs" d] by (simp add: disk_bytes_def disk_put_def)

lemma disk_bytes_length: "drive_ok d \<Longrightarrow> length (disk_bytes d a n) = 512 * n"
  by (simp add: disk_bytes_def drive_ok_get)

lemma get_secs_append: "get_secs get s a (m + n) = get_secs get s a m @ get_secs get s (a + of_nat m) n"
  by (induction m arbitrary: a) (simp_all add: add.assoc)

lemma disk_bytes_split: "disk_bytes d a (m + n) = disk_bytes d a m @ disk_bytes d (a + of_nat m) n"
  by (simp add: disk_bytes_def get_secs_append)

lemma sectors_for_le: "sectors_for count < 2 ^ 64"
  by (simp add: sectors_for_def del: unat_u64) (rule unat_u64)

text \<open>C21: what is written to a disk through the device layer is what is read back from the same place: every
  sector the byte count fills is stored, the sectors elsewhere keep their contents.\<close>

theorem disk_write_read:
  assumes "on_drive s name p" and "drive_ok (dports s p)" and "512 * sectors_for count \<le> length bs"
    and "512 * sectors_for count \<le> length buf"
  shows "\<exists>s1. write_disk s name bs sector count = Ok (count, s1)
    \<and> read_disk s1 name buf sector count = Ok (count, take (512 * sectors_for count) bs @ drop (512 * sectors_for count) buf, s1)
    \<and> (\<forall>a. \<not> in_run a (scast sector) (sectors_for count) \<longrightarrow> dr_sector (dports s1 p) a = dr_sector (dports s p) a)"
proof -
  let ?d = "disk_put (dports s p) (scast sector) (sectors_for count) bs"
  let ?s = "s\<lparr>dports := (dports s)(p := ?d)\<rparr>"
  have "drive_ok (dports ?s p)" using disk_put_ok [OF assms(2,3)] by simp
  moreover have "disk_bytes ?d (scast sector) (sectors_for count) = take (512 * sectors_for count) bs"
    by (rule disk_bytes_put_same [OF sectors_for_le assms(3)])
  moreover have "\<not> in_run a (scast sector) (sectors_for count) \<Longrightarrow> dr_sector ?d a = dr_sector (dports s p) a" for a
    unfolding disk_put_def using dv.get_put_secs_other [of a "scast sector" "chunks (sectors_for count) bs" "dports s p"] sectors_for_le
    by simp
  ultimately show ?thesis
    using write_disk_ok [OF assms(1-3)] read_disk_ok [of ?s name p count buf sector] assms(1,4) by auto
qed

text \<open>The first variant returns the byte count as a byte: a whole number of sectors below 128 is reported as 0,
  the value of a failed read.\<close>

lemma disk_read_sector:
  assumes "on_drive s name p" and "drive_ok (dports s p)" and "512 \<le> length buf"
  shows "disk_read s name buf lba 512 = Ok (0, dr_sector (dports s p) (ucast lba) @ drop 512 buf, s)"
proof -
  obtain d dd where d: "device_search (dtab s) name = Ok (Some d)" "driver_of (dtab s) d = Ok dd" "registered dd \<noteq> 0"
    "fops dd = Some ata_fops" "ucast (dv_id d) = p" using on_driveE [OF assms(1)] by blast
  show ?thesis
    using dd_read_loop_ok [OF assms(2), of 0 1 buf "ucast lba"] assms(3) d
    by (simp add: disk_read_def device_read_def ata_fops_def dd_disk_read_def size_to_blocks_def)
qed

section \<open>A disk\<close>

definition drive_example :: drive where
  "drive_example = \<lparr>dr_sector = (\<lambda>a. replicate 512 (ucast a)), dr_ok = (\<lambda>a. True), dr_packet = (\<lambda>a n. None),
     dr_ident = replicate 512 0, dr_capacity = 0\<rparr>"

definition dsys_example :: dsys where
  "dsys_example = \<lparr>dtab = \<lparr>char_drivers = [],
       block_drivers = replicate 9 \<lparr>fops = Some ata_fops, registered = 1, dd_name = DISK_ATA_DD_NAME\<rparr>,
       chain = [blank_device\<lparr>dv_valid := 1, dv_major := 8, dv_name := [104, 100, 97] @ replicate 29 0\<rparr>, blank_device]\<rparr>,
     dports = (\<lambda>p. drive_example)\<rparr>"

lemma drive_example_ok: "drive_ok drive_example"
  by (simp add: drive_ok_def drive_example_def)

lemma dsys_example_on: "on_drive dsys_example [104, 100, 97, 0] 0"
proof -
  have "strlen [104, 100, 97, 0] = Ok 3" by (simp add: strlen_def STR_MAX_SIZE_def)
  thus ?thesis
    by (simp add: on_drive_def device_search_def name_matches_def dsys_example_def blank_device_def driver_of_def numeral_3_eq_3)
qed

theorem disk_write_read_witness:
  "\<exists>s1. write_disk dsys_example [104, 100, 97, 0] (replicate 512 7) 5 512 = Ok (512, s1)
    \<and> read_disk s1 [104, 100, 97, 0] (replicate 512 0) 5 512 = Ok (512, replicate 512 7, s1)
    \<and> dr_sector (dports s1 0) 6 = replicate 512 6"
proof -
  have n: "sectors_for 512 = 1" by (simp add: sectors_for_def size_to_blocks_def)
  have "drive_ok (dports dsys_example 0)" by (simp add: dsys_example_def drive_example_ok)
  from disk_write_read [OF dsys_example_on this, of 512 "replicate 512 7" "replicate 512 0" 5]
  show ?thesis by (auto simp: n in_run_def dsys_example_def drive_example_def)
qed

end
