(* ===== verification/Bytes.thy ===== *)
theory Bytes
  imports CString
begin

text \<open>Words in byte buffers: the little-endian loads and stores by which packed structures are read and written
  at an offset of a buffer, and the divisions of unsigned words.\<close>

section \<open>Words in byte buffers\<close>

definition get32 :: "u8 list \<Rightarrow> nat \<Rightarrow> u32 result" where
  "get32 b i = load32 (drop i b)"

definition get16 :: "u8 list \<Rightarrow> nat \<Rightarrow> u16 result" where
  "get16 b i = load16 (drop i b)"

definition get64 :: "u8 list \<Rightarrow> nat \<Rightarrow> u64 result" where
  "get64 b i = rbind (get32 b i) (\<lambda>lo. rbind (get32 b (i + 4)) (\<lambda>hi. Ok (ucast lo OR push_bit 32 (ucast hi))))"

definition bytes32 :: "u32 \<Rightarrow> u8 list" where
  "bytes32 v = [ucast v, ucast (drop_bit 8 v), ucast (drop_bit 16 v), ucast (drop_bit 24 v)]"

definition bytes16 :: "u16 \<Rightarrow> u8 list" where
  "bytes16 v = [ucast v, ucast (drop_bit 8 v)]"

definition set32 :: "u8 list \<Rightarrow> nat \<Rightarrow> u32 \<Rightarrow> u8 list result" where
  "set32 b i v = put_bytes b i (bytes32 v)"

definition set16 :: "u8 list \<Rightarrow> nat \<Rightarrow> u16 \<Rightarrow> u8 list result" where
  "set16 b i v = put_bytes b i (bytes16 v)"

text \<open>An array of words in a buffer.\<close>

fun words32 :: "u8 list \<Rightarrow> u32 list" where
  "words32 (a # b # c # d # r) = (int_shl a 0 OR int_shl b 8 OR int_shl c 16 OR int_shl d 24) # words32 r"
| "words32 _ = []"

text \<open>A division by zero traps.\<close>

definition udiv :: "'a::len word \<Rightarrow> 'a word \<Rightarrow> 'a word result" where
  "udiv a b = (if b = 0 then Err Fault else Ok (a div b))"

definition umod :: "'a::len word \<Rightarrow> 'a word \<Rightarrow> 'a word result" where
  "umod a b = (if b = 0 then Err Fault else Ok (a mod b))"

definition DIVIDE_ROUNDED_UP :: "'a::len word \<Rightarrow> 'a word \<Rightarrow> 'a word result" where
  "DIVIDE_ROUNDED_UP x y = (if y = 0 then Err Fault
     else Ok (if x mod y \<noteq> 0 then (x + y - 1) div y else x div y))"

section \<open>Replacing a part of a buffer\<close>

definition overlay :: "'a list \<Rightarrow> nat \<Rightarrow> 'a list \<Rightarrow> 'a list" where
  "overlay b i bs = take i b @ bs @ drop (i + length bs) b"

named_theorems overlay_simps

lemma length_overlay [simp]: "i + length bs \<le> length b \<Longrightarrow> length (overlay b i bs) = length b"
  by (simp add: overlay_def)

lemma put_bytes_overlay: "i + length bs \<le> length b \<Longrightarrow> put_bytes b i bs = Ok (overlay b i bs)"
  by (simp add: overlay_def put_bytes_eq)

lemma slice_overlay_same [overlay_simps]: "i + length bs \<le> length b \<Longrightarrow> take (length bs) (drop i (overlay b i bs)) = bs"
  by (simp add: overlay_def)

lemma slice_overlay_other:
  assumes "i + length bs \<le> length b" and "j + n \<le> i \<or> i + length bs \<le> j"
  shows "take n (drop j (overlay b i bs)) = take n (drop j b)"
proof (rule nth_equalityI)
  show "length (take n (drop j (overlay b i bs))) = length (take n (drop j b))" using assms(1) by simp
  fix k assume k: "k < length (take n (drop j (overlay b i bs)))"
  show "take n (drop j (overlay b i bs)) ! k = take n (drop j b) ! k"
    using k assms by (auto simp: overlay_def nth_append)
qed

lemma overlay_twice [simp]: "i + length bs \<le> length b \<Longrightarrow> length cs = length bs \<Longrightarrow> overlay (overlay b i bs) i cs = overlay b i cs"
  by (simp add: overlay_def)

section \<open>Loads and stores\<close>

definition w32 :: "u8 list \<Rightarrow> u32" where
  "w32 s = int_shl (s ! 0) 0 OR int_shl (s ! 1) 8 OR int_shl (s ! 2) 16 OR int_shl (s ! 3) 24"

definition w16 :: "u8 list \<Rightarrow> u16" where
  "w16 s = ucast (int_shl (s ! 0) 0) OR ucast (int_shl (s ! 1) 8)"

lemma w32_take: "w32 (take 4 s) = w32 s"
  by (simp add: w32_def)

lemma w16_take: "w16 (take 2 s) = w16 s"
  by (simp add: w16_def)

lemma get32_eq: "get32 b i = (if length b < i + 4 then Err Fault else Ok (w32 (take 4 (drop i b))))"
  by (auto simp: get32_def load32_def w32_take) (simp add: w32_def)

lemma get16_eq: "get16 b i = (if length b < i + 2 then Err Fault else Ok (w16 (take 2 (drop i b))))"
  by (auto simp: get16_def load16_def w16_take) (simp add: w16_def)

lemma length_bytes [simp]: "length (bytes32 v) = 4" "length (bytes16 h) = 2"
  by (simp_all add: bytes32_def bytes16_def)

lemma w32_bytes [simp]: "w32 (bytes32 v) = v"
proof -
  obtain d where "store32 [0, 0, 0, 0] v = Ok d" "load32 d = Ok v" using store32_load32 [of "[0, 0, 0, 0]" v] by auto
  moreover have "store32 [0, 0, 0, 0] v = Ok (bytes32 v)"
    using put_bytes_eq [of 0 "bytes32 v" "[0, 0, 0, 0]"] by (simp add: store32_def bytes32_def)
  ultimately have "load32 (bytes32 v) = Ok v" by simp
  thus ?thesis by (simp add: load32_def w32_def)
qed

lemma w16_bytes [simp]: "w16 (bytes16 v) = v"
proof -
  obtain d where "store16 [0, 0] v = Ok d" "load16 d = Ok v" using store16_load16 [of "[0, 0]" v] by auto
  moreover have "store16 [0, 0] v = Ok (bytes16 v)"
    using put_bytes_eq [of 0 "bytes16 v" "[0, 0]"] by (simp add: store16_def bytes16_def)
  ultimately have "load16 (bytes16 v) = Ok v" by simp
  thus ?thesis by (simp add: load16_def w16_def)
qed

lemma set32_Ok: "i + 4 \<le> length b \<Longrightarrow> set32 b i v = Ok (overlay b i (bytes32 v))"
  by (simp add: set32_def put_bytes_overlay)

lemma set16_Ok: "i + 2 \<le> length b \<Longrightarrow> set16 b i v = Ok (overlay b i (bytes16 v))"
  by (simp add: set16_def put_bytes_overlay)

lemma get32_same [overlay_simps]: "i + 4 \<le> length b \<Longrightarrow> get32 (overlay b i (bytes32 v)) i = Ok v"
  using slice_overlay_same [of i "bytes32 v" b] by (simp add: get32_eq)

lemma get16_same [overlay_simps]: "i + 2 \<le> length b \<Longrightarrow> get16 (overlay b i (bytes16 v)) i = Ok v"
  using slice_overlay_same [of i "bytes16 v" b] by (simp add: get16_eq)

lemma get32_other [overlay_simps]:
  "i + length bs \<le> length b \<Longrightarrow> j + 4 \<le> i \<or> i + length bs \<le> j \<Longrightarrow> get32 (overlay b i bs) j = get32 b j"
  using slice_overlay_other [of i bs b j 4] by (simp add: get32_eq)

lemma get16_other [overlay_simps]:
  "i + length bs \<le> length b \<Longrightarrow> j + 2 \<le> i \<or> i + length bs \<le> j \<Longrightarrow> get16 (overlay b i bs) j = get16 b j"
  using slice_overlay_other [of i bs b j 2] by (simp add: get16_eq)

lemma bytes32_w32:
  assumes "length s = 4"
  shows "bytes32 (w32 s) = s"
proof -
  obtain a b c d where s: "s = [a, b, c, d]" using assms by (auto simp: numeral_eq_Suc length_Suc_conv)
  have "ucast (w32 s) = a" "ucast (drop_bit 8 (w32 s)) = b" "ucast (drop_bit 16 (w32 s)) = c" "ucast (drop_bit 24 (w32 s)) = d"
    unfolding s by (intro bit_word_eqI; auto simp: w32_def int_shl_def bit_simps bit_u8_high)+
  then show ?thesis by (simp add: bytes32_def s)
qed

section \<open>Arrays of words\<close>

lemma words32_nth: "4 * i + 4 \<le> length b \<Longrightarrow> i < length (words32 b) \<and> words32 b ! i = w32 (take 4 (drop (4 * i) b))"
proof (induction i arbitrary: b)
  case 0
  then obtain a0 a1 a2 a3 r where "b = a0 # a1 # a2 # a3 # r" by (auto simp: numeral_eq_Suc Suc_le_length_iff)
  thus ?case by (simp add: w32_def)
next
  case (Suc i)
  then obtain a0 a1 a2 a3 r where b: "b = a0 # a1 # a2 # a3 # r" by (auto simp: numeral_eq_Suc Suc_le_length_iff)
  moreover have "drop (4 * Suc i) b = drop (4 * i) r" using b by (simp add: numeral_eq_Suc)
  ultimately show ?case using Suc.IH [of r] Suc.prems by simp
qed

lemma length_words32: "length (words32 b) = length b div 4"
  by (induction b rule: words32.induct) auto

lemma words32_get: "i < length b div 4 \<Longrightarrow> get32 b (4 * i) = Ok (words32 b ! i)"
  using words32_nth [of i b] by (auto simp: get32_eq)

lemma overlay_word: "4 * i + 4 \<le> length b \<Longrightarrow> overlay b (4 * i) (bytes32 (words32 b ! i)) = b"
  using words32_nth [of i b] bytes32_w32 [of "take 4 (drop (4 * i) b)"]
  by (simp add: overlay_def) (metis add.commute append_take_drop_id drop_drop)

lemma words32_overlay:
  assumes "4 * i + 4 \<le> length b"
  shows "words32 (overlay b (4 * i) (bytes32 v)) = (words32 b)[i := v]"
proof (rule nth_equalityI)
  have l: "length (overlay b (4 * i) (bytes32 v)) = length b" using assms by simp
  show "length (words32 (overlay b (4 * i) (bytes32 v))) = length ((words32 b)[i := v])" using l by (simp add: length_words32)
  fix k assume "k < length (words32 (overlay b (4 * i) (bytes32 v)))"
  hence k: "4 * k + 4 \<le> length b" using l by (simp add: length_words32)
  show "words32 (overlay b (4 * i) (bytes32 v)) ! k = (words32 b)[i := v] ! k"
  proof (cases "k = i")
    case True
    then show ?thesis using words32_nth [of i "overlay b (4 * i) (bytes32 v)"] words32_nth [of i b] assms l
        slice_overlay_same [of "4 * i" "bytes32 v" b] by simp
  next
    case False
    hence "4 * k + 4 \<le> 4 * i \<or> 4 * i + length (bytes32 v) \<le> 4 * k" by auto
    then show ?thesis using words32_nth [of k "overlay b (4 * i) (bytes32 v)"] words32_nth [of k b] assms k l False
        slice_overlay_other [of "4 * i" "bytes32 v" b "4 * k" 4] by simp
  qed
qed

lemma unat_word_of_nat_32: "n < 2 ^ 32 \<Longrightarrow> unat (word_of_nat n :: u32) = n"
  by (simp add: unsigned_of_nat take_bit_nat_eq_self)

end
