(* ===== verification/Ext2Fs.thy ===== *)
theory Ext2Fs
  imports Disk Bytes
begin

text \<open>The EXT2 driver's data (\<open>vfs/generic/ext2/ext2_structs.h\<close>) and the operations the rest of it is built
  from: arithmetic on block sizes, reading and writing blocks (\<open>ext2_block.c\<close>) and inodes
  (\<open>ext2_inode.c\<close>). The structures are packed, and the code casts pointers to them into buffers: a structure is the
  bytes of its object, a field is read and written at its offset. The error log the macros of
  \<open>ext2_integrity.h\<close> fill has no effect on the results and is not part of the state.\<close>

section \<open>Partitions\<close>

text \<open>\<open>struct ext2_partition\<close>. \<open>pt_sb\<close> and \<open>pt_gd\<close> are the objects its last pointers point to: the superblock of
  1024 bytes and the table of block group descriptors, 32 bytes each.\<close>

record partition =
  pt_name :: "u8 list"
  pt_disk :: "u8 list"
  backup_bgs :: "u32 list"
  backup_bgs_count :: u32
  pt_lba :: u32
  group_number :: u32
  sector_size :: u32
  bgdt_block :: u32
  sb_block :: u32
  flush_required :: u8
  pt_sb :: "u8 list"
  pt_gd :: "u8 list"

text \<open>The state the operations work on: the disks, the partition, what freshly allocated memory holds (the
  same for every allocation), the static \<open>ext2_unique_id\<close> and the clock.\<close>

record fs =
  fdev :: dsys
  fpart :: partition
  junk :: "nat \<Rightarrow> u8"
  unique_id :: u32
  epoch :: u32

definition sb32 :: "partition \<Rightarrow> nat \<Rightarrow> u32" where
  "sb32 p i = (case get32 (pt_sb p) i of Ok v \<Rightarrow> v | Err e \<Rightarrow> 0)"

definition sb16 :: "partition \<Rightarrow> nat \<Rightarrow> u16" where
  "sb16 p i = (case get16 (pt_sb p) i of Ok v \<Rightarrow> v | Err e \<Rightarrow> 0)"

definition s_blocks_count :: "partition \<Rightarrow> u32" where "s_blocks_count p = sb32 p 4"
definition s_free_blocks_count :: "partition \<Rightarrow> u32" where "s_free_blocks_count p = sb32 p 12"
definition s_free_inodes_count :: "partition \<Rightarrow> u32" where "s_free_inodes_count p = sb32 p 16"
definition s_log_block_size :: "partition \<Rightarrow> u32" where "s_log_block_size p = sb32 p 24"
definition s_blocks_per_group :: "partition \<Rightarrow> u32" where "s_blocks_per_group p = sb32 p 32"
definition s_inodes_per_group :: "partition \<Rightarrow> u32" where "s_inodes_per_group p = sb32 p 40"
definition s_rev_level :: "partition \<Rightarrow> u32" where "s_rev_level p = sb32 p 76"
definition s_inode_size :: "partition \<Rightarrow> u16" where "s_inode_size p = sb16 p 88"

definition set_sb32 :: "nat \<Rightarrow> u32 \<Rightarrow> partition \<Rightarrow> partition result" where
  "set_sb32 i v p = rbind (set32 (pt_sb p) i v) (\<lambda>b. Ok (p\<lparr>pt_sb := b\<rparr>))"

definition gd32 :: "partition \<Rightarrow> u32 \<Rightarrow> nat \<Rightarrow> u32 result" where
  "gd32 p g i = get32 (pt_gd p) (32 * unat g + i)"

definition gd16 :: "partition \<Rightarrow> u32 \<Rightarrow> nat \<Rightarrow> u16 result" where
  "gd16 p g i = get16 (pt_gd p) (32 * unat g + i)"

definition set_gd16 :: "u32 \<Rightarrow> nat \<Rightarrow> u16 \<Rightarrow> partition \<Rightarrow> partition result" where
  "set_gd16 g i v p = rbind (set16 (pt_gd p) (32 * unat g + i) v) (\<lambda>b. Ok (p\<lparr>pt_gd := b\<rparr>))"

definition bg_block_bitmap :: "partition \<Rightarrow> u32 \<Rightarrow> u32 result" where "bg_block_bitmap p g = gd32 p g 0"
definition bg_inode_bitmap :: "partition \<Rightarrow> u32 \<Rightarrow> u32 result" where "bg_inode_bitmap p g = gd32 p g 4"
definition bg_inode_table :: "partition \<Rightarrow> u32 \<Rightarrow> u32 result" where "bg_inode_table p g = gd32 p g 8"
definition bg_free_blocks_count :: "partition \<Rightarrow> u32 \<Rightarrow> u16 result" where "bg_free_blocks_count p g = gd16 p g 12"
definition bg_free_inodes_count :: "partition \<Rightarrow> u32 \<Rightarrow> u16 result" where "bg_free_inodes_count p g = gd16 p g 14"
definition bg_used_dirs_count :: "partition \<Rightarrow> u32 \<Rightarrow> u16 result" where "bg_used_dirs_count p g = gd16 p g 16"

text \<open>An inode is its bytes.\<close>

definition i_mode :: "u8 list \<Rightarrow> u16 result" where "i_mode n = get16 n 0"
definition i_size :: "u8 list \<Rightarrow> u32 result" where "i_size n = get32 n 4"
definition i_block :: "u8 list \<Rightarrow> nat \<Rightarrow> u32 result" where
  "i_block n i = (if i < 15 then get32 n (40 + 4 * i) else Err Fault)"
definition i_blocks :: "u8 list \<Rightarrow> u32 list" where "i_blocks n = words32 (take 60 (drop 40 n))"

section \<open>Operations\<close>

text \<open>An operation takes the state and gives a value and the new state, or an error.\<close>

type_synonym 'a op = "fs \<Rightarrow> ('a \<times> fs) result"

definition ret :: "'a \<Rightarrow> 'a op" where "ret x = (\<lambda>s. Ok (x, s))"
definition bnd :: "'a op \<Rightarrow> ('a \<Rightarrow> 'b op) \<Rightarrow> 'b op" where "bnd m f = (\<lambda>s. rbind (m s) (\<lambda>(x, s1). f x s1))"
definition gets :: "(fs \<Rightarrow> 'a) \<Rightarrow> 'a op" where "gets f = (\<lambda>s. Ok (f s, s))"
definition lft :: "'a result \<Rightarrow> 'a op" where "lft r = (\<lambda>s. rbind r (\<lambda>x. Ok (x, s)))"
definition part :: "(partition \<Rightarrow> 'a) \<Rightarrow> 'a op" where "part f = (\<lambda>s. Ok (f (fpart s), s))"
definition lpart :: "(partition \<Rightarrow> 'a result) \<Rightarrow> 'a op" where "lpart f = (\<lambda>s. rbind (f (fpart s)) (\<lambda>x. Ok (x, s)))"
definition modp :: "(partition \<Rightarrow> partition result) \<Rightarrow> unit op" where
  "modp f = (\<lambda>s. rbind (f (fpart s)) (\<lambda>p. Ok ((), s\<lparr>fpart := p\<rparr>)))"

lemma ret_apply [simp]: "ret x s = Ok (x, s)" by (simp add: ret_def)
lemma bnd_apply: "bnd m f s = rbind (m s) (\<lambda>(x, s1). f x s1)" by (simp add: bnd_def)
lemma gets_apply [simp]: "gets f s = Ok (f s, s)" by (simp add: gets_def)
lemma lft_Ok [simp]: "lft (Ok x) s = Ok (x, s)" by (simp add: lft_def)
lemma lft_Err [simp]: "lft (Err e) s = Err e" by (simp add: lft_def)
lemma part_apply [simp]: "part f s = Ok (f (fpart s), s)" by (simp add: part_def)
lemma lpart_apply: "lpart f s = rbind (f (fpart s)) (\<lambda>x. Ok (x, s))" by (simp add: lpart_def)
lemma modp_apply: "modp f s = rbind (f (fpart s)) (\<lambda>p. Ok ((), s\<lparr>fpart := p\<rparr>))" by (simp add: modp_def)

lemma bnd_Ok [simp]: "m s = Ok (x, s1) \<Longrightarrow> bnd m f s = f x s1" by (simp add: bnd_def)
lemma bnd_Err [simp]: "m s = Err e \<Longrightarrow> bnd m f s = Err e" by (simp add: bnd_def)

text \<open>\<open>kmalloc\<close> gives a null pointer for no bytes.\<close>

definition alloc_mem :: "nat \<Rightarrow> u8 list option op" where
  "alloc_mem n = gets (\<lambda>s. if n = 0 then None else Some (map (junk s) [0..<n]))"

definition block_size :: "partition \<Rightarrow> u32" where
  "block_size p = push_bit (unat (s_log_block_size p)) 1024"

definition ext2_buffer_for_size :: "u32 \<Rightarrow> u64 \<Rightarrow> u8 list option op" where
  "ext2_buffer_for_size bsize n = bnd (lft (DIVIDE_ROUNDED_UP n (ucast bsize))) (\<lambda>b.
     alloc_mem (unat ((ucast b :: u32) * bsize)))"

definition disk_in :: "u8 list \<Rightarrow> u32 \<Rightarrow> u32 \<Rightarrow> (u32 \<times> u8 list) op" where
  "disk_in buf sector count = (\<lambda>s. rbind (read_disk (fdev s) (pt_disk (fpart s)) buf sector count) (\<lambda>(r, b, d).
     Ok ((r, b), s\<lparr>fdev := d\<rparr>)))"

definition disk_out :: "u8 list \<Rightarrow> u32 \<Rightarrow> u32 \<Rightarrow> u32 op" where
  "disk_out buf sector count = (\<lambda>s. rbind (write_disk (fdev s) (pt_disk (fpart s)) buf sector count) (\<lambda>(r, d).
     Ok (r, s\<lparr>fdev := d\<rparr>)))"

section \<open>Blocks\<close>

abbreviation "EXT2_READ_FAILED \<equiv> (0xFFFFFFFE :: u64)"
abbreviation "EXT2_WRITE_FAILED \<equiv> (0xFFFFFFFD :: u64)"

text \<open>The failure codes are unsigned constants: as 64-bit results they are positive.\<close>

definition ext2_read_block :: "u32 \<Rightarrow> u8 list \<Rightarrow> (u64 \<times> u8 list) op" where
  "ext2_read_block block buf = bnd (part block_size) (\<lambda>bs. bnd (part sector_size) (\<lambda>ss. bnd (part pt_lba) (\<lambda>lba0.
     bnd (lft (DIVIDE_ROUNDED_UP bs ss)) (\<lambda>block_sectors.
     bnd (lft (udiv (block * bs) ss)) (\<lambda>block_lba.
     if 0 < block then bnd (disk_in buf (lba0 + block_lba) (block_sectors * ss)) (\<lambda>(r, b).
       ret (if r = 0 then EXT2_READ_FAILED else 1, b))
     else ret (0, buf))))))"

definition ext2_write_block :: "u32 \<Rightarrow> u8 list \<Rightarrow> u64 op" where
  "ext2_write_block block buf = bnd (part block_size) (\<lambda>bs. bnd (part sector_size) (\<lambda>ss. bnd (part pt_lba) (\<lambda>lba0.
     bnd (lft (DIVIDE_ROUNDED_UP bs ss)) (\<lambda>block_sectors.
     bnd (lft (udiv (block * bs) ss)) (\<lambda>block_lba.
     if block \<noteq> 0 then bnd (disk_out buf (lba0 + block_lba) block_sectors) (\<lambda>r.
       ret (if r = 0 then EXT2_WRITE_FAILED else 1))
     else ret 0)))))"

section \<open>Inodes\<close>

text \<open>Where an inode lies: its group, its index in the group, and the sector and the offset of its bytes.\<close>

definition inode_bytes :: "partition \<Rightarrow> u32" where
  "inode_bytes p = (if s_rev_level p < 1 then 128 else ucast (s_inode_size p))"

record inode_place =
  ip_group :: u32
  ip_index :: u32
  ip_lba :: u32
  ip_offset :: u32
  ip_count :: u32

definition locate_inode :: "partition \<Rightarrow> u32 \<Rightarrow> inode_place result" where
  "locate_inode p ino = (let bs = block_size p; ss = sector_size p; isz = inode_bytes p in
     rbind (DIVIDE_ROUNDED_UP bs ss) (\<lambda>spb.
     rbind (udiv (ino - 1) (s_inodes_per_group p)) (\<lambda>grp.
     rbind (umod (ino - 1) (s_inodes_per_group p)) (\<lambda>idx.
     rbind (udiv (idx * isz) bs) (\<lambda>blk.
     rbind (bg_inode_table p grp) (\<lambda>tbl.
     rbind (udiv (tbl * bs) ss) (\<lambda>tlba.
     rbind (umod (idx * isz) bs) (\<lambda>off.
     Ok \<lparr>ip_group = grp, ip_index = idx, ip_lba = pt_lba p + tlba + blk * spb, ip_offset = off, ip_count = spb * ss\<rparr>))))))))"

definition ext2_read_inode :: "u32 \<Rightarrow> u8 list option op" where
  "ext2_read_inode ino = bnd (lpart (\<lambda>p. locate_inode p ino)) (\<lambda>pl. bnd (part block_size) (\<lambda>bs.
     bnd (alloc_mem (unat bs)) (\<lambda>m. case m of None \<Rightarrow> ret None | Some buf \<Rightarrow>
       bnd (disk_in buf (ip_lba pl) (ip_count pl)) (\<lambda>(r, b).
         if r = 0 then ret None
         else bnd (part inode_bytes) (\<lambda>isz. bnd (alloc_mem (unat isz)) (\<lambda>m. case m of None \<Rightarrow> ret None | Some n \<Rightarrow>
           bnd (lft (memcpy n (drop (unat (ip_offset pl)) b) (unat isz))) (\<lambda>n1. ret (Some n1))))))))"

text \<open>0 is success.\<close>

definition ext2_write_inode :: "u32 \<Rightarrow> u8 list \<Rightarrow> u8 op" where
  "ext2_write_inode ino n = bnd (lpart (\<lambda>p. locate_inode p ino)) (\<lambda>pl. bnd (part block_size) (\<lambda>bs.
     bnd (alloc_mem (unat bs)) (\<lambda>m. case m of None \<Rightarrow> ret 1 | Some buf \<Rightarrow>
       bnd (disk_in buf (ip_lba pl) (ip_count pl)) (\<lambda>(r, b).
         if r = 0 then ret 1
         else bnd (part inode_bytes) (\<lambda>isz.
           bnd (lft (memcpy (drop (unat (ip_offset pl)) b) n (unat isz))) (\<lambda>t.
           bnd (disk_out (take (unat (ip_offset pl)) b @ t) (ip_lba pl) (ip_count pl)) (\<lambda>r.
             ret (if r = 0 then 1 else 0))))))))"

section \<open>Healthy file systems\<close>

text \<open>The partition lies on a healthy drive with sectors of 512 bytes, and its blocks have at most 64 KiB.\<close>

definition fs_ok :: "fs \<Rightarrow> u8 \<Rightarrow> bool" where
  "fs_ok s port \<longleftrightarrow> on_drive (fdev s) (pt_disk (fpart s)) port \<and> drive_ok (dports (fdev s) port)
     \<and> sector_size (fpart s) = 512 \<and> s_log_block_size (fpart s) \<le> 6"

definition drive_of :: "fs \<Rightarrow> u8 \<Rightarrow> drive" where
  "drive_of s port = dports (fdev s) port"

definition with_drive :: "fs \<Rightarrow> u8 \<Rightarrow> drive \<Rightarrow> fs" where
  "with_drive s port d = s\<lparr>fdev := (fdev s)\<lparr>dports := (dports (fdev s))(port := d)\<rparr>\<rparr>"

named_theorems fs_simps

lemma with_drive_simps [simp, fs_simps]:
  "fpart (with_drive s port d) = fpart s" "junk (with_drive s port d) = junk s"
  "unique_id (with_drive s port d) = unique_id s" "epoch (with_drive s port d) = epoch s"
  "drive_of (with_drive s port d) port = d" "with_drive (with_drive s port d) port d' = with_drive s port d'"
  by (simp_all add: with_drive_def drive_of_def)

lemma fs_ok_drive: "fs_ok s port \<Longrightarrow> drive_ok (drive_of s port)"
  by (simp add: fs_ok_def drive_of_def)

lemma fs_ok_with_drive: "fs_ok s port \<Longrightarrow> drive_ok d \<Longrightarrow> fs_ok (with_drive s port d) port"
  by (simp add: fs_ok_def with_drive_def)

lemma fs_ok_part: "fs_ok s port \<Longrightarrow> pt_disk p = pt_disk (fpart s) \<Longrightarrow> sector_size p = 512
    \<Longrightarrow> s_log_block_size p = s_log_block_size (fpart s) \<Longrightarrow> fs_ok (s\<lparr>fpart := p\<rparr>) port"
  by (simp add: fs_ok_def)

lemma drive_of_part [simp]: "drive_of (s\<lparr>fpart := p\<rparr>) port = drive_of s port"
  by (simp add: drive_of_def)

definition block_bytes :: "partition \<Rightarrow> nat" where "block_bytes p = unat (block_size p)"
definition block_secs :: "partition \<Rightarrow> nat" where "block_secs p = unat (block_size p div 512)"

definition block_addr :: "partition \<Rightarrow> u32 \<Rightarrow> u64" where
  "block_addr p b = scast (pt_lba p + b * block_size p div 512)"

lemma le_6_cases: "(x :: u32) \<le> 6 \<Longrightarrow> x = 0 \<or> x = 1 \<or> x = 2 \<or> x = 3 \<or> x = 4 \<or> x = 5 \<or> x = 6"
proof -
  assume "x \<le> 6"
  hence "unat x \<le> 6" by (simp add: word_le_nat_alt)
  hence "unat x = 0 \<or> unat x = 1 \<or> unat x = 2 \<or> unat x = 3 \<or> unat x = 4 \<or> unat x = 5 \<or> unat x = 6" by arith
  hence "unat x = unat (0 :: u32) \<or> unat x = unat (1 :: u32) \<or> unat x = unat (2 :: u32) \<or> unat x = unat (3 :: u32)
    \<or> unat x = unat (4 :: u32) \<or> unat x = unat (5 :: u32) \<or> unat x = unat (6 :: u32)" by simp
  thus ?thesis by (simp only: word_unat_eq_iff)
qed

lemma block_facts:
  assumes "s_log_block_size p \<le> 6"
  shows "DIVIDE_ROUNDED_UP (block_size p) 512 = Ok (block_size p div 512)" and "block_bytes p = 512 * block_secs p"
    and "2 \<le> block_secs p" and "block_secs p \<le> 128" and "sectors_for (block_size p div 512 * 512) = block_secs p"
    and "sectors_for (block_size p div 512) = 1" and "block_size p \<noteq> 0" and "block_size p div 512 \<noteq> 0"
    and "block_size p div 512 * 512 \<noteq> 0"
  using le_6_cases [OF assms]
  by (auto simp: block_size_def block_bytes_def block_secs_def DIVIDE_ROUNDED_UP_def sectors_for_def size_to_blocks_def)

lemma fs_ok_block:
  assumes "fs_ok s port"
  shows "DIVIDE_ROUNDED_UP (block_size (fpart s)) 512 = Ok (block_size (fpart s) div 512)"
    and "block_bytes (fpart s) = 512 * block_secs (fpart s)" and "2 \<le> block_secs (fpart s)" and "block_secs (fpart s) \<le> 128"
    and "sectors_for (block_size (fpart s) div 512 * 512) = block_secs (fpart s)"
    and "sectors_for (block_size (fpart s) div 512) = 1" and "block_size (fpart s) \<noteq> 0"
    and "block_size (fpart s) div 512 \<noteq> 0" and "block_size (fpart s) div 512 * 512 \<noteq> 0"
  using block_facts [of "fpart s"] assms by (simp_all add: fs_ok_def)

lemma disk_in_ok:
  assumes "fs_ok s port" and "512 * sectors_for count \<le> length buf"
  shows "disk_in buf sector count s = Ok ((count, disk_bytes (drive_of s port) (scast sector) (sectors_for count)
    @ drop (512 * sectors_for count) buf), s)"
  using read_disk_ok [of "fdev s" "pt_disk (fpart s)" port count buf sector] assms
  by (simp add: disk_in_def fs_ok_def drive_of_def)

lemma disk_out_ok:
  assumes "fs_ok s port" and "512 * sectors_for count \<le> length buf"
  shows "disk_out buf sector count s = Ok (count, with_drive s port (disk_put (drive_of s port) (scast sector) (sectors_for count) buf))"
  using write_disk_ok [of "fdev s" "pt_disk (fpart s)" port count buf sector] assms
  by (simp add: disk_out_def fs_ok_def drive_of_def with_drive_def)

definition block_data :: "fs \<Rightarrow> u8 \<Rightarrow> u32 \<Rightarrow> u8 list" where
  "block_data s port b = disk_bytes (drive_of s port) (block_addr (fpart s) b) (block_secs (fpart s))"

lemma length_block_data: "fs_ok s port \<Longrightarrow> length (block_data s port b) = block_bytes (fpart s)"
  using disk_bytes_length [OF fs_ok_drive] fs_ok_block(2) by (simp add: block_data_def)

lemma sector_size_512: "fs_ok s port \<Longrightarrow> sector_size (fpart s) = 512"
  by (simp add: fs_ok_def)

lemma read_block_ok:
  assumes "fs_ok s port" and "b \<noteq> 0" and "block_bytes (fpart s) \<le> length buf"
  shows "ext2_read_block b buf s = Ok ((1, block_data s port b @ drop (block_bytes (fpart s)) buf), s)"
proof -
  note f = fs_ok_block [OF assms(1)]
  have "0 < b" using assms(2) by (simp add: word_neq_0_conv)
  moreover have "512 * sectors_for (block_size (fpart s) div 512 * 512) \<le> length buf" using f(2,5) assms(3) by simp
  ultimately show ?thesis
    using disk_in_ok [OF assms(1), of "block_size (fpart s) div 512 * 512" buf "pt_lba (fpart s) + b * block_size (fpart s) div 512"] f
    by (simp add: ext2_read_block_def sector_size_512 [OF assms(1)] udiv_def block_data_def block_addr_def)
qed

lemma write_block_ok:
  assumes "fs_ok s port" and "b \<noteq> 0" and "512 \<le> length buf"
  shows "ext2_write_block b buf s = Ok (1, with_drive s port (disk_put (drive_of s port) (block_addr (fpart s) b) 1 buf))"
  using disk_out_ok [OF assms(1), of "block_size (fpart s) div 512" buf "pt_lba (fpart s) + b * block_size (fpart s) div 512"]
    fs_ok_block [OF assms(1)] assms
  by (simp add: ext2_write_block_def sector_size_512 [OF assms(1)] udiv_def block_addr_def)

section \<open>Blocks on the drive\<close>

lemma not_in_run_step: "i < 128 \<Longrightarrow> \<not> in_run (a + 1 + of_nat i) a 1"
proof -
  assume i: "i < 128"
  have "a + 1 + of_nat i - a = (word_of_nat (Suc i) :: u64)" by simp
  moreover have "unat (word_of_nat (Suc i) :: u64) = Suc i" using i by (intro unat_of_nat_u64) simp
  ultimately show ?thesis by (simp add: in_run_def del: of_nat_Suc)
qed

lemma disk_bytes_put_first:
  assumes "drive_ok d" and "512 \<le> length buf" and "1 \<le> n" and "n \<le> 128"
  shows "disk_bytes (disk_put d a 1 buf) a n = take 512 buf @ drop 512 (disk_bytes d a n)"
proof -
  obtain k where k: "n = 1 + k" "k < 128" using assms(3,4) by (metis add.commute le_Suc_ex less_eq_Suc_le plus_1_eq_Suc Suc_le_lessD order.strict_trans2 lessI)
  have "disk_bytes (disk_put d a 1 buf) (a + 1) k = disk_bytes d (a + 1) k"
    by (rule disk_bytes_put_other) (use not_in_run_step k(2) in auto)
  moreover have "disk_bytes (disk_put d a 1 buf) a 1 = take 512 buf"
    using disk_bytes_put_same [of 1 buf d a] assms(2) by simp
  moreover have "length (disk_bytes d a 1) = 512" using disk_bytes_length [OF assms(1), of a 1] by simp
  ultimately show ?thesis unfolding k(1) disk_bytes_split by simp
qed

text \<open>Writing a block stores its first sector only: \<open>write_disk\<close> counts bytes, \<open>ext2_write_block\<close> gives it sectors.\<close>

lemma write_block_first_sector:
  assumes "fs_ok s port" and "b \<noteq> 0" and "512 \<le> length buf"
  shows "\<exists>s'. ext2_write_block b buf s = Ok (1, s') \<and> fs_ok s' port \<and> fpart s' = fpart s \<and> junk s' = junk s
    \<and> block_data s' port b = take 512 buf @ drop 512 (block_data s port b)"
proof -
  let ?d = "disk_put (drive_of s port) (block_addr (fpart s) b) 1 buf"
  have "fs_ok (with_drive s port ?d) port"
    by (rule fs_ok_with_drive [OF assms(1) disk_put_ok [OF fs_ok_drive [OF assms(1)]]]) (use assms(3) in simp)
  moreover have "block_data (with_drive s port ?d) port b = take 512 buf @ drop 512 (block_data s port b)"
    using disk_bytes_put_first [OF fs_ok_drive [OF assms(1)] assms(3), of "block_secs (fpart s)" "block_addr (fpart s) b"] fs_ok_block(3,4) [OF assms(1)]
    by (simp add: block_data_def)
  ultimately show ?thesis using write_block_ok [OF assms] by simp
qed

section \<open>Inodes on the drive\<close>

definition place_data :: "fs \<Rightarrow> u8 \<Rightarrow> inode_place \<Rightarrow> u8 list" where
  "place_data s port pl = disk_bytes (drive_of s port) (scast (ip_lba pl)) (block_secs (fpart s))"

definition inode_data :: "fs \<Rightarrow> u8 \<Rightarrow> inode_place \<Rightarrow> u8 list" where
  "inode_data s port pl = take (unat (inode_bytes (fpart s))) (drop (unat (ip_offset pl)) (place_data s port pl))"

text \<open>The inode lies within one block.\<close>

definition inode_at :: "fs \<Rightarrow> u32 \<Rightarrow> inode_place \<Rightarrow> bool" where
  "inode_at s ino pl \<longleftrightarrow> locate_inode (fpart s) ino = Ok pl \<and> inode_bytes (fpart s) \<noteq> 0
     \<and> unat (ip_offset pl) + unat (inode_bytes (fpart s)) \<le> block_bytes (fpart s)"

lemma locate_count:
  assumes "fs_ok s port" and "locate_inode (fpart s) ino = Ok pl"
  shows "ip_count pl = block_size (fpart s) div 512 * 512"
  using assms(2) fs_ok_block(1) [OF assms(1)] sector_size_512 [OF assms(1)]
  by (auto simp: locate_inode_def Let_def rbind_eq_Ok)

lemma memcpy_all: "n \<le> length src \<Longrightarrow> length d = n \<Longrightarrow> memcpy d src n = Ok (take n src)"
  using put_bytes_eq [of 0 "take n src" d] by (simp add: memcpy_def)

lemma memcpy_over: "n \<le> length src \<Longrightarrow> n \<le> length d \<Longrightarrow> memcpy d src n = Ok (take n src @ drop n d)"
  using put_bytes_eq [of 0 "take n src" d] by (simp add: memcpy_def)

lemma alloc_mem_Ok [simp]: "n \<noteq> 0 \<Longrightarrow> alloc_mem n s = Ok (Some (map (junk s) [0..<n]), s)"
  by (simp add: alloc_mem_def)

lemma length_place: "fs_ok s port \<Longrightarrow> length (place_data s port pl) = block_bytes (fpart s)"
  using disk_bytes_length [OF fs_ok_drive] fs_ok_block(2) by (simp add: place_data_def)

lemma length_inode_data:
  "fs_ok s port \<Longrightarrow> inode_at s ino pl \<Longrightarrow> length (inode_data s port pl) = unat (inode_bytes (fpart s))"
  using length_place [of s port pl] by (auto simp: inode_data_def inode_at_def min_def)

lemma read_inode_ok:
  assumes "fs_ok s port" and "inode_at s ino pl"
  shows "ext2_read_inode ino s = Ok (Some (inode_data s port pl), s)"
proof -
  note f = fs_ok_block [OF assms(1)] locate_count [OF assms(1)]
  have l: "locate_inode (fpart s) ino = Ok pl" "unat (inode_bytes (fpart s)) \<noteq> 0"
    "unat (ip_offset pl) + unat (inode_bytes (fpart s)) \<le> block_bytes (fpart s)"
    using assms(2) by (auto simp: inode_at_def unat_eq_zero)
  have c: "ip_count pl = block_size (fpart s) div 512 * 512" by (rule f(10) [OF l(1)])
  have nz: "unat (block_size (fpart s)) \<noteq> 0" "block_bytes (fpart s) = unat (block_size (fpart s))"
    using f(7) by (simp_all add: unat_eq_zero block_bytes_def)
  have "disk_in (map (junk s) [0..<unat (block_size (fpart s))]) (ip_lba pl) (ip_count pl) s
      = Ok ((ip_count pl, place_data s port pl), s)"
    using disk_in_ok [OF assms(1), of "ip_count pl" "map (junk s) [0..<unat (block_size (fpart s))]" "ip_lba pl"] f(2,5) nz
    by (simp add: c place_data_def)
  moreover have "memcpy (map (junk s) [0..<unat (inode_bytes (fpart s))]) (drop (unat (ip_offset pl)) (place_data s port pl)) (unat (inode_bytes (fpart s)))
      = Ok (inode_data s port pl)"
    using memcpy_all l(3) length_place [OF assms(1), of pl] by (simp add: inode_data_def)
  ultimately show ?thesis using l nz(1) f(9) by (simp add: ext2_read_inode_def lpart_apply c)
qed

lemma write_inode_ok:
  assumes "fs_ok s port" and "inode_at s ino pl" and "unat (inode_bytes (fpart s)) \<le> length n"
  shows "ext2_write_inode ino n s = Ok (0, with_drive s port (disk_put (drive_of s port) (scast (ip_lba pl)) (block_secs (fpart s))
    (overlay (place_data s port pl) (unat (ip_offset pl)) (take (unat (inode_bytes (fpart s))) n))))"
proof -
  note f = fs_ok_block [OF assms(1)] locate_count [OF assms(1)]
  have l: "locate_inode (fpart s) ino = Ok pl" "unat (inode_bytes (fpart s)) \<noteq> 0"
    "unat (ip_offset pl) + unat (inode_bytes (fpart s)) \<le> block_bytes (fpart s)"
    using assms(2) by (auto simp: inode_at_def unat_eq_zero)
  have c: "ip_count pl = block_size (fpart s) div 512 * 512" by (rule f(10) [OF l(1)])
  have nz: "unat (block_size (fpart s)) \<noteq> 0" "block_bytes (fpart s) = unat (block_size (fpart s))"
    using f(7) by (simp_all add: unat_eq_zero block_bytes_def)
  let ?b = "overlay (place_data s port pl) (unat (ip_offset pl)) (take (unat (inode_bytes (fpart s))) n)"
  have "disk_in (map (junk s) [0..<unat (block_size (fpart s))]) (ip_lba pl) (ip_count pl) s
      = Ok ((ip_count pl, place_data s port pl), s)"
    using disk_in_ok [OF assms(1), of "ip_count pl" "map (junk s) [0..<unat (block_size (fpart s))]" "ip_lba pl"] f(2,5) nz
    by (simp add: c place_data_def)
  moreover have "rbind (memcpy (drop (unat (ip_offset pl)) (place_data s port pl)) n (unat (inode_bytes (fpart s))))
      (\<lambda>t. Ok (take (unat (ip_offset pl)) (place_data s port pl) @ t)) = Ok ?b"
    using memcpy_over [OF assms(3), of "drop (unat (ip_offset pl)) (place_data s port pl)"] l(3) length_place [OF assms(1), of pl] assms(3)
    by (simp add: overlay_def min_def add.commute)
  moreover have "disk_out ?b (ip_lba pl) (ip_count pl) s = Ok (ip_count pl, with_drive s port (disk_put (drive_of s port)
      (scast (ip_lba pl)) (block_secs (fpart s)) ?b))"
    using disk_out_ok [OF assms(1), of "ip_count pl" ?b "ip_lba pl"] f(2,5) l(3) length_place [OF assms(1), of pl] assms(3)
    by (simp add: c min_def)
  ultimately show ?thesis using l nz(1) f(9) by (auto simp: ext2_write_inode_def lpart_apply c rbind_eq_Ok)
qed

text \<open>C20: an inode written by \<open>ext2_write_inode\<close> is what \<open>ext2_read_inode\<close> gives back, and the other inodes of its
  block keep their bytes: unlike a block, an inode is stored whole.\<close>

theorem inode_write_read:
  assumes "fs_ok s port" and "inode_at s ino pl" and "unat (inode_bytes (fpart s)) \<le> length n"
    and "inode_at s ino' pl'" and "ip_lba pl' = ip_lba pl"
    and "unat (ip_offset pl') + unat (inode_bytes (fpart s)) \<le> unat (ip_offset pl)
      \<or> unat (ip_offset pl) + unat (inode_bytes (fpart s)) \<le> unat (ip_offset pl')"
  shows "\<exists>s'. ext2_write_inode ino n s = Ok (0, s') \<and> ext2_read_inode ino s' = Ok (Some (take (unat (inode_bytes (fpart s))) n), s')
    \<and> ext2_read_inode ino' s' = Ok (Some (inode_data s port pl'), s')"
proof -
  let ?b = "overlay (place_data s port pl) (unat (ip_offset pl)) (take (unat (inode_bytes (fpart s))) n)"
  let ?s = "with_drive s port (disk_put (drive_of s port) (scast (ip_lba pl)) (block_secs (fpart s)) ?b)"
  have fits: "unat (ip_offset pl) + length (take (unat (inode_bytes (fpart s))) n) \<le> length (place_data s port pl)"
    and len: "length (take (unat (inode_bytes (fpart s))) n) = unat (inode_bytes (fpart s))"
    using assms(2,3) length_place [OF assms(1), of pl] by (auto simp: inode_at_def)
  have lb: "length ?b = 512 * block_secs (fpart s)" using fits length_place [OF assms(1), of pl] fs_ok_block(2) [OF assms(1)] by simp
  have ok: "fs_ok ?s port"
    by (rule fs_ok_with_drive [OF assms(1) disk_put_ok [OF fs_ok_drive [OF assms(1)]]]) (use lb in simp)
  have "place_data ?s port pl = ?b" "place_data ?s port pl' = ?b"
    using disk_bytes_put_same [of "block_secs (fpart s)" ?b "drive_of s port" "scast (ip_lba pl)"] lb fs_ok_block(4) [OF assms(1)] assms(5)
    by (simp_all add: place_data_def)
  moreover have "place_data s port pl' = place_data s port pl" using assms(5) by (simp add: place_data_def)
  ultimately have "inode_data ?s port pl = take (unat (inode_bytes (fpart s))) n" "inode_data ?s port pl' = inode_data s port pl'"
    using slice_overlay_same [OF fits] slice_overlay_other [OF fits] assms(6) unfolding len by (auto simp: inode_data_def)
  moreover have "inode_at ?s ino pl" "inode_at ?s ino' pl'" using assms(2,4) by (auto simp: inode_at_def)
  ultimately show ?thesis
    using write_inode_ok [OF assms(1-3)] read_inode_ok [OF ok] by metis
qed

section \<open>A file system\<close>

text \<open>One group of 8192 blocks of 1 KiB and 32 inodes of 128 bytes on the disk \<open>hda\<close>. The first sector of the block
  bitmap is full.\<close>

definition sb_example :: "u8 list" where
  "sb_example = overlay (overlay (overlay (replicate 1024 0) 12 (bytes32 4096)) 32 (bytes32 8192)) 40 (bytes32 32)"

definition gd_example :: "u8 list" where
  "gd_example = overlay (overlay (overlay (overlay (replicate 512 0) 0 (bytes32 3)) 4 (bytes32 4)) 8 (bytes32 5)) 12 (bytes16 4096)"

definition fs_example :: fs where
  "fs_example = \<lparr>fdev = dsys_example\<lparr>dports := (\<lambda>p. drive_example\<lparr>dr_sector := (\<lambda>a. replicate 512 (if a = 6 then 255 else 0))\<rparr>)\<rparr>,
     fpart = \<lparr>pt_name = [47, 0], pt_disk = [104, 100, 97, 0], backup_bgs = 0 # replicate 63 0, backup_bgs_count = 1, pt_lba = 0,
       group_number = 1, sector_size = 512, bgdt_block = 2, sb_block = 2, flush_required = 0, pt_sb = sb_example, pt_gd = gd_example\<rparr>,
     junk = (\<lambda>i. 0), unique_id = 0, epoch = 0\<rparr>"

lemma get32_zero: "i + 4 \<le> n \<Longrightarrow> get32 (replicate n 0) i = Ok 0"
  by (simp add: get32_eq w32_def int_shl_def)

lemma get16_zero: "i + 2 \<le> n \<Longrightarrow> get16 (replicate n 0) i = Ok 0"
  by (simp add: get16_eq w16_def int_shl_def)

lemma fs_example_fields [simp]:
  "s_log_block_size (fpart fs_example) = 0" "s_blocks_per_group (fpart fs_example) = 8192"
  "s_inodes_per_group (fpart fs_example) = 32" "s_rev_level (fpart fs_example) = 0" "s_free_blocks_count (fpart fs_example) = 4096"
  by (simp_all add: s_log_block_size_def s_blocks_per_group_def s_inodes_per_group_def s_rev_level_def s_free_blocks_count_def
      sb32_def fs_example_def sb_example_def overlay_simps get32_zero)

lemma fs_example_groups [simp]:
  "bg_block_bitmap (fpart fs_example) 0 = Ok 3" "bg_inode_bitmap (fpart fs_example) 0 = Ok 4"
  "bg_inode_table (fpart fs_example) 0 = Ok 5" "bg_free_blocks_count (fpart fs_example) 0 = Ok 4096"
  by (simp_all add: bg_block_bitmap_def bg_inode_bitmap_def bg_inode_table_def bg_free_blocks_count_def gd32_def gd16_def
      fs_example_def gd_example_def overlay_simps)

lemma fs_example_block [simp]: "block_size (fpart fs_example) = 1024" "inode_bytes (fpart fs_example) = 128"
  "block_bytes (fpart fs_example) = 1024" "block_secs (fpart fs_example) = 2"
  by (simp_all add: block_size_def inode_bytes_def block_bytes_def block_secs_def)

lemma on_drive_eq: "dtab s' = dtab s \<Longrightarrow> on_drive s' name p = on_drive s name p"
  by (simp add: on_drive_def)

lemma fs_example_ok: "fs_ok fs_example 0"
proof -
  have "on_drive (fdev fs_example) (pt_disk (fpart fs_example)) 0"
    using dsys_example_on on_drive_eq [of "fdev fs_example" dsys_example] by (simp add: fs_example_def)
  moreover have "drive_ok (dports (fdev fs_example) 0)" by (simp add: fs_example_def drive_ok_def drive_example_def)
  moreover have "sector_size (fpart fs_example) = 512" by (simp add: fs_example_def)
  ultimately show ?thesis by (simp add: fs_ok_def)
qed

lemma fs_example_inode:
  "ino = 1 \<or> ino = 2 \<or> ino = 3 \<Longrightarrow> inode_at fs_example ino \<lparr>ip_group = 0, ip_index = ino - 1, ip_lba = 10, ip_offset = (ino - 1) * 128, ip_count = 1024\<rparr>"
proof -
  have "sector_size (fpart fs_example) = 512" "pt_lba (fpart fs_example) = 0" by (simp_all add: fs_example_def)
  moreover assume "ino = 1 \<or> ino = 2 \<or> ino = 3"
  ultimately show ?thesis
    by (auto simp: inode_at_def locate_inode_def DIVIDE_ROUNDED_UP_def udiv_def umod_def)
qed

theorem inode_write_read_witness:
  "\<exists>s'. ext2_write_inode 2 (replicate 128 7) fs_example = Ok (0, s') \<and> ext2_read_inode 2 s' = Ok (Some (replicate 128 7), s')"
  using inode_write_read [OF fs_example_ok fs_example_inode [of 2] _ fs_example_inode [of 1], of "replicate 128 7"] by auto

end
