(* ===== verification/Ext2Block.thy ===== *)
theory Ext2Block
  imports Ext2Fs
begin

text \<open>The blocks of a file and the block bitmap (\<open>vfs/generic/ext2/ext2_block.c\<close>): reading and writing through the
  direct, indirect, double and triple indirect blocks of an inode, allocating and releasing blocks. A moving buffer
  pointer is the buffer with an offset; the pointer to the count of blocks still to skip is passed on.\<close>

section \<open>Reading\<close>

definition read_at :: "u32 \<Rightarrow> nat \<Rightarrow> u8 list \<Rightarrow> (u64 \<times> u8 list) op" where
  "read_at block off buf = bnd (ext2_read_block block (drop off buf)) (\<lambda>(r, b). ret (r, take off buf @ b))"

type_synonym reader = "u32 list \<Rightarrow> u64 \<Rightarrow> u64 \<Rightarrow> nat \<Rightarrow> u8 list \<Rightarrow> (u64 \<times> u64 \<times> u8 list) op"

text \<open>\<open>n\<close> blocks have been read so far.\<close>

fun read_direct_loop :: "u32 list \<Rightarrow> u64 \<Rightarrow> u64 \<Rightarrow> u64 \<Rightarrow> nat \<Rightarrow> u8 list \<Rightarrow> (u64 \<times> u64 \<times> u8 list) op" where
  "read_direct_loop [] n count skip off buf = ret (n, skip, buf)"
| "read_direct_loop (b # bs) n count skip off buf = (if 0 < skip then read_direct_loop bs n count (skip - 1) off buf
     else bnd (read_at b off buf) (\<lambda>(r, buf1).
       if r = EXT2_READ_FAILED then ret (EXT2_READ_FAILED, skip, buf1)
       else if r = 0 then ret (n, skip, buf1)
       else if n + r = count then ret (n + r, skip, buf1)
       else bnd (part block_size) (\<lambda>bsz. read_direct_loop bs (n + r) count skip (off + unat bsz) buf1)))"

definition ext2_read_direct_blocks :: reader where
  "ext2_read_direct_blocks blocks = read_direct_loop blocks 0"

text \<open>The three levels of indirection differ in the reader below and in the width of the counter, which \<open>trunc\<close>
  cuts to 32 bits where the code declares it so.\<close>

fun read_level_loop :: "(u64 \<Rightarrow> u64) \<Rightarrow> reader \<Rightarrow> u32 list \<Rightarrow> u64 \<Rightarrow> u64 \<Rightarrow> u64 \<Rightarrow> nat \<Rightarrow> u8 list \<Rightarrow> (u64 \<times> u64 \<times> u8 list) op" where
  "read_level_loop trunc inner [] n count skip off buf = ret (n, skip, buf)"
| "read_level_loop trunc inner (b # bs) n count skip off buf = bnd (part block_size) (\<lambda>bsz.
     bnd (ext2_buffer_for_size bsz (ucast bsz)) (\<lambda>m. case m of None \<Rightarrow> lft (Err Fault) | Some ib \<Rightarrow>
     bnd (ext2_read_block b ib) (\<lambda>(r, ib1).
       if sint r \<le> 0 then ret (EXT2_READ_FAILED, skip, buf)
       else bnd (inner (words32 ib1) (count - n) skip off buf) (\<lambda>(r, skip1, buf1).
         if r = EXT2_READ_FAILED \<or> r = 0 then ret (r, skip1, buf1)
         else let n1 = trunc (n + r) in
           if n1 = count then ret (n1, skip1, buf1)
           else read_level_loop trunc inner bs n1 count skip1 (off + unat (r * ucast bsz)) buf1))))"

definition cut32 :: "u64 \<Rightarrow> u64" where "cut32 x = ucast (ucast x :: u32)"

definition ext2_read_indirect_blocks :: reader where
  "ext2_read_indirect_blocks blocks = read_level_loop id ext2_read_direct_blocks blocks 0"

definition ext2_read_double_indirect_blocks :: reader where
  "ext2_read_double_indirect_blocks blocks = read_level_loop cut32 ext2_read_indirect_blocks blocks 0"

definition ext2_read_triple_indirect_blocks :: reader where
  "ext2_read_triple_indirect_blocks blocks = read_level_loop cut32 ext2_read_double_indirect_blocks blocks 0"

section \<open>Writing\<close>

type_synonym writer = "u32 list \<Rightarrow> u64 \<Rightarrow> u64 \<Rightarrow> nat \<Rightarrow> u8 list \<Rightarrow> (u64 \<times> u64) op"

fun write_direct_loop :: "u32 list \<Rightarrow> u64 \<Rightarrow> u64 \<Rightarrow> u64 \<Rightarrow> nat \<Rightarrow> u8 list \<Rightarrow> (u64 \<times> u64) op" where
  "write_direct_loop [] n count skip off buf = ret (n, skip)"
| "write_direct_loop (b # bs) n count skip off buf = (if 0 < skip then write_direct_loop bs n count (skip - 1) off buf
     else bnd (ext2_write_block b (drop off buf)) (\<lambda>r.
       if r = EXT2_WRITE_FAILED then ret (EXT2_WRITE_FAILED, skip)
       else if r = 0 then ret (n, skip)
       else if n + r = count then ret (n + r, skip)
       else bnd (part block_size) (\<lambda>bsz. write_direct_loop bs (n + r) count skip (off + unat bsz) buf)))"

definition ext2_write_direct_blocks :: writer where
  "ext2_write_direct_blocks blocks = write_direct_loop blocks 0"

fun write_level_loop :: "(u64 \<Rightarrow> u64) \<Rightarrow> writer \<Rightarrow> u32 list \<Rightarrow> u64 \<Rightarrow> u64 \<Rightarrow> u64 \<Rightarrow> nat \<Rightarrow> u8 list \<Rightarrow> (u64 \<times> u64) op" where
  "write_level_loop trunc inner [] n count skip off buf = ret (n, skip)"
| "write_level_loop trunc inner (b # bs) n count skip off buf = bnd (part block_size) (\<lambda>bsz.
     bnd (ext2_buffer_for_size bsz (ucast bsz)) (\<lambda>m. case m of None \<Rightarrow> lft (Err Fault) | Some ib \<Rightarrow>
     bnd (ext2_read_block b ib) (\<lambda>(r, ib1).
       if sint r \<le> 0 then ret (EXT2_WRITE_FAILED, skip)
       else bnd (inner (words32 ib1) (count - n) skip off buf) (\<lambda>(r, skip1).
         if r = EXT2_WRITE_FAILED \<or> r = 0 then ret (r, skip1)
         else let n1 = trunc (n + r) in
           if n1 = count then ret (n1, skip1)
           else write_level_loop trunc inner bs n1 count skip1 (off + unat (r * ucast bsz)) buf))))"

definition ext2_write_indirect_blocks :: writer where
  "ext2_write_indirect_blocks blocks = write_level_loop id ext2_write_direct_blocks blocks 0"

definition ext2_write_double_indirect_blocks :: writer where
  "ext2_write_double_indirect_blocks blocks = write_level_loop cut32 ext2_write_indirect_blocks blocks 0"

definition ext2_write_triple_indirect_blocks :: writer where
  "ext2_write_triple_indirect_blocks blocks = write_level_loop cut32 ext2_write_double_indirect_blocks blocks 0"

section \<open>Allocating blocks\<close>

text \<open>The first clear bit: its word and its place in the word.\<close>

fun scan_words :: "u32 list \<Rightarrow> nat \<Rightarrow> (nat \<times> nat) option" where
  "scan_words [] j = None"
| "scan_words (w # ws) j = (if w = 0xFFFFFFFF then scan_words ws (j + 1)
     else case find (\<lambda>k. \<not> bit w k) [0..<32] of Some k \<Rightarrow> Some (j, k) | None \<Rightarrow> scan_words ws (j + 1))"

definition ext2_flush_required :: "unit op" where
  "ext2_flush_required = modp (\<lambda>p. Ok (p\<lparr>flush_required := 1\<rparr>))"

definition add_free_blocks :: "u32 \<Rightarrow> u16 \<Rightarrow> unit op" where
  "add_free_blocks g d = bnd (modp (\<lambda>p. rbind (bg_free_blocks_count p g) (\<lambda>c. set_gd16 g 12 (c + d) p))) (\<lambda>_.
     modp (\<lambda>p. set_sb32 12 (s_free_blocks_count p + scast d) p))"

definition take_bit_block :: "u32 \<Rightarrow> u32 \<Rightarrow> nat \<Rightarrow> nat \<Rightarrow> u8 list \<Rightarrow> u32 op" where
  "take_bit_block g bitmap j k bits = bnd (lft (rbind (get32 bits (4 * j)) (\<lambda>w. set32 bits (4 * j) (w OR push_bit k 1)))) (\<lambda>bits1.
     bnd (add_free_blocks g (- 1)) (\<lambda>_.
     bnd (ext2_write_block bitmap bits1) (\<lambda>r.
       if sint r \<le> 0 then bnd (add_free_blocks g 1) (\<lambda>_. ret 0)
       else bnd ext2_flush_required (\<lambda>_. bnd (part s_blocks_per_group) (\<lambda>bpg.
         ret (of_nat j * 32 + of_nat k + 1 + g * bpg))))))"

fun allocate_from :: "nat \<Rightarrow> u32 \<Rightarrow> u32 op" where
  "allocate_from 0 g = ret 0"
| "allocate_from (Suc n) g = bnd (lpart (\<lambda>p. bg_free_blocks_count p g)) (\<lambda>free.
     if free = 0 then allocate_from n (g + 1)
     else bnd (part block_size) (\<lambda>bs. bnd (alloc_mem (unat bs)) (\<lambda>m. case m of None \<Rightarrow> ret 0 | Some buf \<Rightarrow>
       bnd (lpart (\<lambda>p. bg_block_bitmap p g)) (\<lambda>bitmap.
       bnd (ext2_read_block bitmap buf) (\<lambda>(r, bits).
         if r = 0 then ret 0
         else case scan_words (words32 bits) 0 of None \<Rightarrow> allocate_from n (g + 1)
           | Some (j, k) \<Rightarrow> take_bit_block g bitmap j k bits)))))"

definition ext2_allocate_block :: "u32 op" where
  "ext2_allocate_block = bnd (part (\<lambda>p. unat (group_number p))) (\<lambda>n. allocate_from n 0)"

section \<open>Releasing blocks\<close>

text \<open>1 is success.\<close>

definition ext2_deallocate_block :: "u32 \<Rightarrow> u32 op" where
  "ext2_deallocate_block block = bnd (part block_size) (\<lambda>bs.
     bnd (lpart (\<lambda>p. udiv (block - 1) (s_blocks_per_group p))) (\<lambda>g.
     bnd (lpart (\<lambda>p. umod (block - 1) (s_blocks_per_group p))) (\<lambda>idx.
     let j = unat (idx div 32); k = unat (idx mod 32) in
     bnd (alloc_mem (unat bs)) (\<lambda>m. case m of None \<Rightarrow> ret 0 | Some buf \<Rightarrow>
     bnd (lpart (\<lambda>p. bg_block_bitmap p g)) (\<lambda>bitmap.
     bnd (ext2_read_block bitmap buf) (\<lambda>(r, bits).
       if r = 0 then ret 0
       else bnd (lft (get32 bits (4 * j))) (\<lambda>w.
         if bit w k then
           bnd (lft (set32 bits (4 * j) (w AND NOT (push_bit k 1)))) (\<lambda>bits1.
           bnd (add_free_blocks g 1) (\<lambda>_.
           bnd (ext2_write_block bitmap bits1) (\<lambda>r.
             if sint r \<le> 0 then bnd (add_free_blocks g (- 1)) (\<lambda>_. ret 0)
             else bnd ext2_flush_required (\<lambda>_. ret 1))))
         else ret 0)))))))"

text \<open>From the entry with index \<open>i - 1\<close> down; \<open>None\<close> when a block cannot be released.\<close>

fun deallocate_loop :: "nat \<Rightarrow> u32 list \<Rightarrow> u32 \<Rightarrow> u32 option op" where
  "deallocate_loop 0 blocks n = ret (Some n)"
| "deallocate_loop (Suc i) blocks n = bnd (lft (rd blocks i)) (\<lambda>b. bnd (ext2_deallocate_block b) (\<lambda>r.
     if r = 0 then ret None else deallocate_loop i blocks (n + 1)))"

definition ext2_deallocate_blocks :: "u32 list \<Rightarrow> u32 \<Rightarrow> u32 op" where
  "ext2_deallocate_blocks blocks count = bnd (part block_size) (\<lambda>bs. if bs = 0 then ret 0
     else bnd (deallocate_loop (if sint (count - 1) < 0 then 0 else unat count) blocks 0) (\<lambda>r. case r of None \<Rightarrow> ret 0
       | Some n \<Rightarrow> bnd ext2_flush_required (\<lambda>_. ret n)))"

section \<open>Allocating the blocks of a file\<close>

text \<open>These give the number of data blocks allocated and the block number stored at \<open>target_block\<close>.\<close>

fun fill_indirect :: "nat \<Rightarrow> nat \<Rightarrow> u32 \<Rightarrow> u32 \<Rightarrow> u8 list \<Rightarrow> (u32 \<times> u8 list) option op" where
  "fill_indirect 0 j n want buf = ret (Some (n, buf))"
| "fill_indirect (Suc k) j n want buf = (if n = want then ret (Some (n, buf))
     else bnd ext2_allocate_block (\<lambda>b. bnd (lft (set32 buf (4 * j) b)) (\<lambda>buf1.
       if b = 0 then ret None else fill_indirect k (j + 1) (n + 1) want buf1)))"

definition ext2_allocate_indirect_block :: "u32 \<Rightarrow> (u32 \<times> u32) op" where
  "ext2_allocate_indirect_block want = bnd ext2_allocate_block (\<lambda>t. if t = 0 then ret (0, 0)
     else bnd (part block_size) (\<lambda>bs. bnd (alloc_mem (unat bs)) (\<lambda>m. case m of None \<Rightarrow> ret (0, t) | Some buf \<Rightarrow>
       bnd (fill_indirect (unat (bs div 4)) 0 0 want buf) (\<lambda>r. case r of None \<Rightarrow> ret (0, t) | Some (n, buf1) \<Rightarrow>
         bnd (ext2_write_block t buf1) (\<lambda>r. ret (if sint r \<le> 0 then 0 else n, t))))))"

fun fill_level :: "(u32 \<Rightarrow> (u32 \<times> u32) op) \<Rightarrow> nat \<Rightarrow> nat \<Rightarrow> u32 \<Rightarrow> u32 \<Rightarrow> u8 list \<Rightarrow> (u32 \<times> u8 list) op" where
  "fill_level inner 0 j n want buf = ret (n, buf)"
| "fill_level inner (Suc k) j n want buf = (if n = want then ret (n, buf)
     else bnd (inner (want - n)) (\<lambda>(w, t). bnd (lft (set32 buf (4 * j) t)) (\<lambda>buf1.
       fill_level inner k (j + 1) (n + w) want buf1)))"

definition allocate_level :: "(u32 \<Rightarrow> (u32 \<times> u32) op) \<Rightarrow> u32 \<Rightarrow> (u32 \<times> u32) op" where
  "allocate_level inner want = bnd ext2_allocate_block (\<lambda>t. if t = 0 then ret (0, 0)
     else bnd (part block_size) (\<lambda>bs. bnd (alloc_mem (unat bs)) (\<lambda>m. case m of None \<Rightarrow> ret (0, t) | Some buf \<Rightarrow>
       bnd (fill_level inner (unat (bs div 4)) 0 0 want buf) (\<lambda>(n, buf1).
         bnd (ext2_write_block t buf1) (\<lambda>r. ret (if sint r \<le> 0 then 0 else n, t))))))"

definition ext2_allocate_double_indirect_block :: "u32 \<Rightarrow> (u32 \<times> u32) op" where
  "ext2_allocate_double_indirect_block = allocate_level ext2_allocate_indirect_block"

definition ext2_allocate_triple_indirect_block :: "u32 \<Rightarrow> (u32 \<times> u32) op" where
  "ext2_allocate_triple_indirect_block = allocate_level ext2_allocate_double_indirect_block"

text \<open>The inode is changed in place; 0 is success.\<close>

definition set_i_block :: "u8 list \<Rightarrow> nat \<Rightarrow> u32 \<Rightarrow> u8 list result" where
  "set_i_block n i b = set32 n (40 + 4 * i) b"

fun allocate_direct :: "nat \<Rightarrow> nat \<Rightarrow> u32 \<Rightarrow> u32 \<Rightarrow> u8 list \<Rightarrow> (u32 option \<times> u8 list) op" where
  "allocate_direct 0 i n want inode = ret (Some n, inode)"
| "allocate_direct (Suc k) i n want inode = (if n = want then ret (Some n, inode)
     else bnd (lft (i_block inode i)) (\<lambda>b.
       if b = 0 then bnd ext2_allocate_block (\<lambda>c. bnd (lft (set_i_block inode i c)) (\<lambda>inode1.
         if c = 0 then ret (None, inode1) else allocate_direct k (i + 1) (n + 1) want inode1))
       else allocate_direct k (i + 1) n want inode))"

definition allocate_into :: "(u32 \<Rightarrow> (u32 \<times> u32) op) \<Rightarrow> nat \<Rightarrow> u32 \<Rightarrow> u32 \<Rightarrow> u8 list \<Rightarrow> (u32 \<times> u8 list) op" where
  "allocate_into f i n want inode = bnd (f (want - n)) (\<lambda>(w, t). bnd (lft (set_i_block inode i t)) (\<lambda>inode1. ret (n + w, inode1)))"

definition ext2_allocate_blocks :: "u8 list \<Rightarrow> u32 \<Rightarrow> (u8 \<times> u8 list) op" where
  "ext2_allocate_blocks inode want = bnd (allocate_direct 12 0 0 want inode) (\<lambda>(r, inode). case r of None \<Rightarrow> ret (1, inode) | Some n \<Rightarrow>
     if n = want then ret (0, inode)
     else bnd (allocate_into ext2_allocate_indirect_block 12 n want inode) (\<lambda>(n, inode). if n = want then ret (0, inode)
     else bnd (allocate_into ext2_allocate_double_indirect_block 13 n want inode) (\<lambda>(n, inode). if n = want then ret (0, inode)
     else bnd (allocate_into ext2_allocate_triple_indirect_block 14 n want inode) (\<lambda>(n, inode).
       ret (if n = want then 0 else 1, inode)))))"

section \<open>Reading and writing the contents of an inode\<close>

text \<open>The steps through the four kinds of blocks: one step reads what the \<open>read\<close> of its kind can and goes on when
  more is wanted.\<close>

definition read_step :: "reader \<Rightarrow> u32 list \<Rightarrow> (u32 \<Rightarrow> u64 \<Rightarrow> nat \<Rightarrow> u8 list \<Rightarrow> (u64 \<times> u8 list) op) \<Rightarrow> u64 \<Rightarrow> u32 \<Rightarrow> u64 \<Rightarrow> nat \<Rightarrow> u8 list \<Rightarrow> (u64 \<times> u8 list) op" where
  "read_step f blocks next count n skip off buf = bnd (f blocks (count - ucast n) skip off buf) (\<lambda>(r, skip1, buf1).
     if r = EXT2_READ_FAILED \<or> r = 0 then ret (r, buf1)
     else let n1 = n + ucast r in
       if count \<le> ucast n1 then ret (ucast n1, buf1)
       else bnd (part block_size) (\<lambda>bs. next n1 skip1 (off + unat (r * ucast bs)) buf1))"

definition ext2_read_inode_blocks :: "u32 \<Rightarrow> u64 \<Rightarrow> u64 \<Rightarrow> nat \<Rightarrow> u8 list \<Rightarrow> (u64 \<times> u8 list) op" where
  "ext2_read_inode_blocks ino count skip off buf = (if count = 0 then ret (0, buf)
     else bnd (ext2_read_inode ino) (\<lambda>m. case m of None \<Rightarrow> ret (EXT2_READ_FAILED, buf) | Some inode \<Rightarrow>
       bnd (lft (if length inode < 100 then Err Fault else Ok (i_blocks inode))) (\<lambda>bl.
       read_step ext2_read_direct_blocks (take 12 bl)
         (read_step ext2_read_indirect_blocks [bl ! 12]
           (read_step ext2_read_double_indirect_blocks [bl ! 13]
             (read_step ext2_read_triple_indirect_blocks [bl ! 14]
               (\<lambda>n skip off buf. ret (EXT2_READ_FAILED, buf)) count) count) count) count 0 skip off buf)))"

text \<open>The three stages: the rest of the first block, the blocks in between, the start of the last one. Each is
  passed the bytes moved so far, the blocks to skip and the offset of the buffer pointer.\<close>

definition read_last :: "u32 \<Rightarrow> u64 \<Rightarrow> u64 \<Rightarrow> u64 \<Rightarrow> nat \<Rightarrow> u8 list \<Rightarrow> (u64 \<times> u8 list) op" where
  "read_last ino count done skipb off buf = (let rest = count - done in
     if sint rest \<le> 0 then ret (done, buf)
     else bnd (part block_size) (\<lambda>bs. bnd (alloc_mem (unat bs)) (\<lambda>m. case m of None \<Rightarrow> lft (Err Fault) | Some tmp \<Rightarrow>
       bnd (ext2_read_inode_blocks ino 1 skipb 0 tmp) (\<lambda>(r, tmp1). if r \<noteq> 1 then ret (EXT2_READ_FAILED, buf)
         else bnd (lft (memcpy (drop off buf) tmp1 (unat rest))) (\<lambda>t. ret (done + rest, take off buf @ t))))))"

definition read_middle :: "u32 \<Rightarrow> u64 \<Rightarrow> u64 \<Rightarrow> u64 \<Rightarrow> u64 \<Rightarrow> nat \<Rightarrow> u8 list \<Rightarrow> (u64 \<times> u8 list) op" where
  "read_middle ino count blocks done skipb off buf = (if sint (count - done) \<le> 0 then ret (done, buf)
     else bnd (ext2_read_inode_blocks ino (blocks - 1) skipb off buf) (\<lambda>(r, buf1).
       if r = EXT2_READ_FAILED \<or> sint r < 0 then ret (EXT2_READ_FAILED, buf1)
       else bnd (part block_size) (\<lambda>bs.
         read_last ino count (done + r * ucast bs) (skipb + r) (off + unat (r * ucast bs)) buf1)))"

definition ext2_read_inode_bytes :: "u32 \<Rightarrow> u8 list \<Rightarrow> u64 \<Rightarrow> u64 \<Rightarrow> (u64 \<times> u8 list) op" where
  "ext2_read_inode_bytes ino buf count skip = bnd (part (\<lambda>p. ucast (block_size p))) (\<lambda>bs.
     bnd (lft (DIVIDE_ROUNDED_UP count bs)) (\<lambda>blocks.
     let skip_blocks = skip div bs; skip_bytes = skip mod bs in
     if skip_bytes = 0 then read_middle ino count blocks 0 skip_blocks 0 buf
     else bnd (alloc_mem (unat bs)) (\<lambda>m. case m of None \<Rightarrow> lft (Err Fault) | Some tmp \<Rightarrow>
       bnd (ext2_read_inode_blocks ino 1 skip_blocks 0 tmp) (\<lambda>(r, tmp1). if r \<noteq> 1 then ret (EXT2_READ_FAILED, buf)
         else bnd (lft (memcpy buf (drop (unat skip_bytes) tmp1) (unat (bs - skip_bytes)))) (\<lambda>buf1.
           read_middle ino count blocks (bs - skip_bytes) (skip_blocks + 1) (unat (bs - skip_bytes)) buf1)))))"

definition write_step :: "writer \<Rightarrow> u32 list \<Rightarrow> (u32 \<Rightarrow> u64 \<Rightarrow> nat \<Rightarrow> u8 list \<Rightarrow> u64 op) \<Rightarrow> u64 \<Rightarrow> u32 \<Rightarrow> u64 \<Rightarrow> nat \<Rightarrow> u8 list \<Rightarrow> u64 op" where
  "write_step f blocks next count n skip off buf = bnd (f blocks (count - ucast n) skip off buf) (\<lambda>(r, skip1).
     if r = EXT2_WRITE_FAILED \<or> r = 0 then ret r
     else let n1 = n + ucast r in
       if count \<le> ucast n1 then ret (ucast n1)
       else bnd (part block_size) (\<lambda>bs. next n1 skip1 (off + unat (r * ucast bs)) buf))"

definition ext2_write_inode_blocks :: "u32 \<Rightarrow> u64 \<Rightarrow> u64 \<Rightarrow> nat \<Rightarrow> u8 list \<Rightarrow> u64 op" where
  "ext2_write_inode_blocks ino count skip off buf = (if count = 0 then ret 0
     else bnd (ext2_read_inode ino) (\<lambda>m. case m of None \<Rightarrow> ret EXT2_WRITE_FAILED | Some inode \<Rightarrow>
       bnd (lft (if length inode < 100 then Err Fault else Ok (i_blocks inode))) (\<lambda>bl.
       write_step ext2_write_direct_blocks (take 12 bl)
         (write_step ext2_write_indirect_blocks [bl ! 12]
           (write_step ext2_write_double_indirect_blocks [bl ! 13]
             (write_step ext2_write_triple_indirect_blocks [bl ! 14]
               (\<lambda>n skip off buf. ret EXT2_WRITE_FAILED) count) count) count) count 0 skip off buf)))"

text \<open>The last stage adds the bytes written so far to the buffer pointer, which the first stage has already moved; the
  first stage copies \<open>skip_bytes\<close> bytes of the source.\<close>

definition write_last :: "u32 \<Rightarrow> u64 \<Rightarrow> u64 \<Rightarrow> u64 \<Rightarrow> nat \<Rightarrow> u8 list \<Rightarrow> u64 op" where
  "write_last ino count done skipb off buf = (let rest = count - done in
     if sint rest \<le> 0 then ret done
     else bnd (part block_size) (\<lambda>bs. bnd (alloc_mem (unat bs)) (\<lambda>m. case m of None \<Rightarrow> lft (Err Fault) | Some tmp \<Rightarrow>
       bnd (ext2_read_inode_blocks ino 1 skipb 0 tmp) (\<lambda>(r, tmp1). if r \<noteq> 1 then ret EXT2_WRITE_FAILED
         else bnd (lft (memcpy tmp1 (drop (off + unat done) buf) (unat rest))) (\<lambda>tmp2.
         bnd (ext2_write_inode_blocks ino 1 skipb 0 tmp2) (\<lambda>r. if r \<noteq> 1 then ret EXT2_WRITE_FAILED
           else ret (done + rest)))))))"

definition write_middle :: "u32 \<Rightarrow> u64 \<Rightarrow> u64 \<Rightarrow> u64 \<Rightarrow> u64 \<Rightarrow> nat \<Rightarrow> u8 list \<Rightarrow> u64 op" where
  "write_middle ino count blocks done skipb off buf = (if sint (count - done) \<le> 0 then ret done
     else bnd (ext2_write_inode_blocks ino (blocks - 1) skipb off buf) (\<lambda>r.
       if r = EXT2_WRITE_FAILED \<or> sint r < 0 then ret EXT2_WRITE_FAILED
       else bnd (part block_size) (\<lambda>bs. write_last ino count (done + r * ucast bs) (skipb + r) off buf)))"

definition ext2_write_inode_bytes :: "u32 \<Rightarrow> u8 list \<Rightarrow> u64 \<Rightarrow> u64 \<Rightarrow> u64 op" where
  "ext2_write_inode_bytes ino buf count skip = bnd (ext2_read_inode ino) (\<lambda>m. case m of None \<Rightarrow> ret EXT2_WRITE_FAILED | Some inode \<Rightarrow>
     bnd (lft (i_size inode)) (\<lambda>_. bnd (part (\<lambda>p. ucast (block_size p))) (\<lambda>bs.
     bnd (lft (DIVIDE_ROUNDED_UP count bs)) (\<lambda>blocks.
     let skip_blocks = skip div bs; skip_bytes = skip mod bs in
     if skip_bytes = 0 then write_middle ino count blocks 0 skip_blocks 0 buf
     else bnd (alloc_mem (unat bs)) (\<lambda>m. case m of None \<Rightarrow> lft (Err Fault) | Some tmp \<Rightarrow>
       bnd (ext2_read_inode_blocks ino 1 skip_blocks 0 tmp) (\<lambda>(r, tmp1). if r \<noteq> 1 then ret EXT2_WRITE_FAILED
         else bnd (lft (memcpy (drop (unat skip_bytes) tmp1) buf (unat skip_bytes))) (\<lambda>t.
         bnd (ext2_write_inode_blocks ino 1 skip_blocks 0 (take (unat skip_bytes) tmp1 @ t)) (\<lambda>r. if r \<noteq> 1 then ret EXT2_WRITE_FAILED
           else write_middle ino count blocks (bs - skip_bytes) (skip_blocks + 1) (unat (bs - skip_bytes)) buf))))))))"

section \<open>Partitions of the same layout\<close>

text \<open>The counters of free blocks are all that differs.\<close>

definition same_layout :: "partition \<Rightarrow> partition \<Rightarrow> bool" where
  "same_layout p q \<longleftrightarrow> pt_disk q = pt_disk p \<and> pt_lba q = pt_lba p \<and> sector_size q = sector_size p \<and> group_number q = group_number p
     \<and> s_log_block_size q = s_log_block_size p \<and> s_blocks_per_group q = s_blocks_per_group p
     \<and> length (pt_gd q) = length (pt_gd p) \<and> length (pt_sb q) = length (pt_sb p) \<and> (\<forall>g. bg_block_bitmap q g = bg_block_bitmap p g)"

lemma same_layout_refl [simp]: "same_layout p p"
  by (simp add: same_layout_def)

lemma same_layout_trans: "same_layout p q \<Longrightarrow> same_layout q r \<Longrightarrow> same_layout p r"
  by (simp add: same_layout_def)

lemma same_layout_fs_ok: "fs_ok s port \<Longrightarrow> same_layout (fpart s) p \<Longrightarrow> fs_ok (s\<lparr>fpart := p\<rparr>) port"
  by (rule fs_ok_part) (auto simp: same_layout_def fs_ok_def)

lemma same_layout_block:
  "same_layout (fpart s) (fpart s') \<Longrightarrow> drive_of s' port = drive_of s port \<Longrightarrow> block_data s' port b = block_data s port b"
  by (simp add: same_layout_def block_data_def block_addr_def block_secs_def block_size_def)

lemma same_layout_size: "same_layout p q \<Longrightarrow> block_size q = block_size p"
  by (simp add: same_layout_def block_size_def)

lemma descriptors_apart: "32 * (a :: nat) + 4 \<le> 32 * b + 12 \<or> 32 * b + 12 + 2 \<le> 32 * a"
  by presburger

lemma add_free_blocks_ok:
  assumes "32 * unat g + 32 \<le> length (pt_gd (fpart s))" and "length (pt_sb (fpart s)) = 1024"
    and "bg_free_blocks_count (fpart s) g = Ok c"
  shows "\<exists>p. add_free_blocks g d s = Ok ((), s\<lparr>fpart := p\<rparr>) \<and> same_layout (fpart s) p \<and> bg_free_blocks_count p g = Ok (c + d)
    \<and> (\<forall>h. h \<noteq> g \<longrightarrow> bg_free_blocks_count p h = bg_free_blocks_count (fpart s) h)"
proof -
  let ?gd = "overlay (pt_gd (fpart s)) (32 * unat g + 12) (bytes16 (c + d))"
  let ?p = "(fpart s)\<lparr>pt_gd := ?gd\<rparr>"
  let ?sb = "overlay (pt_sb (fpart s)) 12 (bytes32 (s_free_blocks_count ?p + scast d))"
  let ?q = "?p\<lparr>pt_sb := ?sb\<rparr>"
  have g: "set_gd16 g 12 (c + d) (fpart s) = Ok ?p" using assms(1) by (simp add: set_gd16_def set16_Ok)
  have b: "set_sb32 12 (s_free_blocks_count ?p + scast d) ?p = Ok ?q" using assms(2) by (simp add: set_sb32_def set32_Ok)
  have "add_free_blocks g d s = Ok ((), s\<lparr>fpart := ?q\<rparr>)"
    using g b assms(3) by (simp add: add_free_blocks_def bnd_apply modp_apply)
  moreover have "bg_block_bitmap ?q h = bg_block_bitmap (fpart s) h" for h
  proof -
    have "get32 (overlay (pt_gd (fpart s)) (32 * unat g + 12) (bytes16 (c + d))) (32 * unat h) = get32 (pt_gd (fpart s)) (32 * unat h)"
      using assms(1) descriptors_apart [of "unat h" "unat g"] by (intro get32_other) simp_all
    then show ?thesis by (simp add: bg_block_bitmap_def gd32_def)
  qed
  moreover have "s_log_block_size ?q = s_log_block_size (fpart s)" "s_blocks_per_group ?q = s_blocks_per_group (fpart s)"
    using assms(2) by (simp_all add: s_log_block_size_def s_blocks_per_group_def sb32_def get32_other)
  moreover have "bg_free_blocks_count ?q g = Ok (c + d)"
    using assms(1) by (simp add: bg_free_blocks_count_def gd16_def get16_same)
  moreover have "bg_free_blocks_count ?q h = bg_free_blocks_count (fpart s) h" if "h \<noteq> g" for h
  proof -
    have "unat h \<noteq> unat g" using that by (simp add: word_unat_eq_iff)
    hence "32 * unat h + 12 + 2 \<le> 32 * unat g + 12 \<or> 32 * unat g + 12 + 2 \<le> 32 * unat h + 12" by presburger
    hence "get16 (overlay (pt_gd (fpart s)) (32 * unat g + 12) (bytes16 (c + d))) (32 * unat h + 12) = get16 (pt_gd (fpart s)) (32 * unat h + 12)"
      using assms(1) by (intro get16_other) simp_all
    then show ?thesis by (simp add: bg_free_blocks_count_def gd16_def)
  qed
  ultimately show ?thesis using assms(1,2) by (intro exI [of _ ?q]) (simp add: same_layout_def)
qed

section \<open>What an allocation does\<close>

lemma scan_words_Some:
  "scan_words ws i = Some (j, k) \<Longrightarrow> i \<le> j \<and> j - i < length ws \<and> k < 32 \<and> \<not> bit (ws ! (j - i)) k"
proof (induction ws i rule: scan_words.induct)
  case (2 w ws i)
  show ?case
  proof (cases "w = 0xFFFFFFFF \<or> find (\<lambda>k. \<not> bit w k) [0..<32] = None")
    case True
    hence "scan_words ws (i + 1) = Some (j, k)" using 2(3) by (auto split: if_splits option.splits)
    hence "i + 1 \<le> j \<and> j - (i + 1) < length ws \<and> k < 32 \<and> \<not> bit (ws ! (j - (i + 1))) k"
      using 2(1,2) True by (cases "w = 0xFFFFFFFF") auto
    moreover from this have "j - i = Suc (j - (i + 1))" by auto
    ultimately show ?thesis by simp
  next
    case False
    then obtain k' where k': "find (\<lambda>k. \<not> bit w k) [0..<32] = Some k'" by auto
    hence "k' < 32 \<and> \<not> bit w k'" by (auto simp: find_Some_iff)
    then show ?thesis using k' 2(3) False by auto
  qed
qed simp

text \<open>Group \<open>g\<close> is the first that has free blocks, the first clear bit of its bitmap is bit \<open>k\<close> of word \<open>j\<close>.\<close>

definition free_at :: "fs \<Rightarrow> u8 \<Rightarrow> u32 \<Rightarrow> u16 \<Rightarrow> u32 \<Rightarrow> nat \<Rightarrow> nat \<Rightarrow> bool" where
  "free_at s port g c b j k \<longleftrightarrow> fs_ok s port \<and> g < group_number (fpart s) \<and> (\<forall>h < g. bg_free_blocks_count (fpart s) h = Ok 0)
     \<and> 32 * unat g + 32 \<le> length (pt_gd (fpart s)) \<and> length (pt_sb (fpart s)) = 1024
     \<and> bg_free_blocks_count (fpart s) g = Ok c \<and> c \<noteq> 0 \<and> bg_block_bitmap (fpart s) g = Ok b \<and> b \<noteq> 0
     \<and> scan_words (words32 (block_data s port b)) 0 = Some (j, k)"

definition mark_bit :: "u8 list \<Rightarrow> nat \<Rightarrow> nat \<Rightarrow> u8 list" where
  "mark_bit bits j k = overlay bits (4 * j) (bytes32 (words32 bits ! j OR push_bit k 1))"

lemma free_at_word:
  assumes "free_at s port g c b j k"
  shows "4 * j + 4 \<le> length (block_data s port b)" and "k < 32" and "\<not> bit (words32 (block_data s port b) ! j) k"
proof -
  have "j < length (words32 (block_data s port b)) \<and> k < 32 \<and> \<not> bit (words32 (block_data s port b) ! j) k"
    using assms scan_words_Some [of "words32 (block_data s port b)" 0 j k] by (simp add: free_at_def)
  then show "4 * j + 4 \<le> length (block_data s port b)" and "k < 32" and "\<not> bit (words32 (block_data s port b) ! j) k"
    by (auto simp: length_words32)
qed

text \<open>What allocating and releasing a block share: the counter, the write of the bitmap, the flag.\<close>

lemma bitmap_commit:
  assumes "fs_ok s port" and "32 * unat g + 32 \<le> length (pt_gd (fpart s))" and "length (pt_sb (fpart s)) = 1024"
    and "bg_free_blocks_count (fpart s) g = Ok c" and "b \<noteq> 0" and "512 \<le> length m"
  shows "\<exists>p s2 s3. add_free_blocks g d s = Ok ((), s\<lparr>fpart := p\<rparr>) \<and> ext2_write_block b m (s\<lparr>fpart := p\<rparr>) = Ok (1, s2)
    \<and> ext2_flush_required s2 = Ok ((), s3) \<and> fs_ok s3 port \<and> same_layout (fpart s) (fpart s3)
    \<and> bg_free_blocks_count (fpart s3) g = Ok (c + d) \<and> (\<forall>h. h \<noteq> g \<longrightarrow> bg_free_blocks_count (fpart s3) h = bg_free_blocks_count (fpart s) h)
    \<and> block_data s3 port b = take 512 m @ drop 512 (block_data s port b)"
proof -
  obtain p where p: "add_free_blocks g d s = Ok ((), s\<lparr>fpart := p\<rparr>)" "same_layout (fpart s) p" "bg_free_blocks_count p g = Ok (c + d)"
    "\<forall>h. h \<noteq> g \<longrightarrow> bg_free_blocks_count p h = bg_free_blocks_count (fpart s) h"
    using add_free_blocks_ok [of g s c d] assms(2-4) by auto
  let ?s = "s\<lparr>fpart := p\<rparr>"
  have ok: "fs_ok ?s port" by (rule same_layout_fs_ok [OF assms(1) p(2)])
  have bd: "block_data ?s port b = block_data s port b" by (rule same_layout_block) (use p(2) in simp_all)
  from write_block_first_sector [OF ok assms(5,6)] obtain s2 where
    s2: "ext2_write_block b m ?s = Ok (1, s2)" "fs_ok s2 port" "fpart s2 = p"
      "block_data s2 port b = take 512 m @ drop 512 (block_data s port b)" unfolding bd by auto
  let ?q = "p\<lparr>flush_required := 1\<rparr>" and ?s3 = "s2\<lparr>fpart := p\<lparr>flush_required := 1\<rparr>\<rparr>"
  have q: "same_layout p ?q" "bg_free_blocks_count ?q h = bg_free_blocks_count p h" for h
    by (simp_all add: same_layout_def bg_block_bitmap_def bg_free_blocks_count_def gd32_def gd16_def s_log_block_size_def
        s_blocks_per_group_def sb32_def)
  have "ext2_flush_required s2 = Ok ((), ?s3)" by (simp add: ext2_flush_required_def modp_apply s2(3))
  moreover have "fs_ok ?s3 port" by (rule same_layout_fs_ok [OF s2(2)]) (use q(1) s2(3) in simp)
  moreover have "block_data ?s3 port b = block_data s2 port b" by (rule same_layout_block) (use q(1) s2(3) in simp_all)
  ultimately show ?thesis using p s2(1,4) same_layout_trans [OF p(2) q(1)] q(2)
    by (intro exI [of _ p] exI [of _ s2] exI [of _ ?s3]) simp
qed

lemma read_bitmap_ok:
  assumes "fs_ok s port" and "b \<noteq> 0"
  shows "ext2_read_block b (map (junk s) [0..<unat (block_size (fpart s))]) s = Ok ((1, block_data s port b), s)"
  using read_block_ok [OF assms, of "map (junk s) [0..<unat (block_size (fpart s))]"] by (simp add: block_bytes_def)

lemma allocate_from_skips:
  "\<forall>h < m. bg_free_blocks_count (fpart s) (g + of_nat h) = Ok 0 \<Longrightarrow> allocate_from (m + n) g s = allocate_from n (g + of_nat m) s"
proof (induction m arbitrary: g)
  case (Suc m)
  have "bg_free_blocks_count (fpart s) (g + 1 + of_nat h) = Ok 0" if "h < m" for h
    using spec [OF Suc.prems, of "Suc h"] that by (simp add: ac_simps)
  from Suc.IH [of "g + 1"] this have "allocate_from (m + n) (g + 1) s = allocate_from n (g + of_nat (Suc m)) s" by (simp add: ac_simps)
  moreover have "bg_free_blocks_count (fpart s) g = Ok 0" using spec [OF Suc.prems, of 0] by simp
  ultimately show ?case by (simp add: lpart_apply)
qed simp

abbreviation block_number :: "fs \<Rightarrow> u32 \<Rightarrow> nat \<Rightarrow> nat \<Rightarrow> u32" where
  "block_number s g j k \<equiv> of_nat j * 32 + of_nat k + 1 + g * s_blocks_per_group (fpart s)"

lemma allocate_step:
  assumes "free_at s port g c b j k"
  shows "\<exists>s1. ext2_allocate_block s = Ok (block_number s g j k, s1) \<and> fs_ok s1 port \<and> same_layout (fpart s) (fpart s1)
    \<and> bg_free_blocks_count (fpart s1) g = Ok (c - 1)
    \<and> (\<forall>h. h \<noteq> g \<longrightarrow> bg_free_blocks_count (fpart s1) h = bg_free_blocks_count (fpart s) h)
    \<and> block_data s1 port b = take 512 (mark_bit (block_data s port b) j k) @ drop 512 (block_data s port b)"
proof -
  note w = free_at_word [OF assms]
  have a: "fs_ok s port" "32 * unat g + 32 \<le> length (pt_gd (fpart s))" "length (pt_sb (fpart s)) = 1024" "bg_free_blocks_count (fpart s) g = Ok c"
    "c \<noteq> 0" "bg_block_bitmap (fpart s) g = Ok b" "b \<noteq> 0" "scan_words (words32 (block_data s port b)) 0 = Some (j, k)"
    using assms by (auto simp: free_at_def)
  have "unat g < unat (group_number (fpart s))" using assms by (simp add: free_at_def word_less_nat_alt)
  then obtain n where n: "unat (group_number (fpart s)) = unat g + Suc n" using less_imp_Suc_add by fastforce
  have "bg_free_blocks_count (fpart s) (of_nat h) = Ok 0" if "h < unat g" for h
  proof -
    have "unat (of_nat h :: u32) = h" using that unsigned_less [of g, where ?'a = nat] by (simp add: unsigned_of_nat take_bit_nat_eq_self)
    hence "(of_nat h :: u32) < g" using that by (simp add: word_less_nat_alt)
    with assms show ?thesis by (auto simp: free_at_def)
  qed
  from allocate_from_skips [of "unat g" s 0 "Suc n"] this
  have skip: "allocate_from (unat g + Suc n) 0 s = allocate_from (Suc n) g s" by simp
  let ?bits = "block_data s port b" and ?m = "mark_bit (block_data s port b) j k"
  have st: "rbind (get32 ?bits (4 * j)) (\<lambda>w. set32 ?bits (4 * j) (w OR push_bit k 1)) = Ok ?m"
    using words32_get [of j ?bits] w(1) by (simp add: set32_Ok mark_bit_def)
  have "512 \<le> length ?m" using w(1) length_block_data [OF a(1), of b] fs_ok_block(2,3) [OF a(1)] by (simp add: mark_bit_def)
  from bitmap_commit [OF a(1-4,7) this, of "- 1"] obtain p s2 s3 where
    c: "add_free_blocks g (- 1) s = Ok ((), s\<lparr>fpart := p\<rparr>)" "ext2_write_block b ?m (s\<lparr>fpart := p\<rparr>) = Ok (1, s2)"
      "ext2_flush_required s2 = Ok ((), s3)"
    and s3: "fs_ok s3 port" "same_layout (fpart s) (fpart s3)" "bg_free_blocks_count (fpart s3) g = Ok (c + - 1)"
      "\<forall>h. h \<noteq> g \<longrightarrow> bg_free_blocks_count (fpart s3) h = bg_free_blocks_count (fpart s) h"
      "block_data s3 port b = take 512 ?m @ drop 512 ?bits" by blast
  have bpg: "s_blocks_per_group (fpart s3) = s_blocks_per_group (fpart s)" using s3(2) by (simp add: same_layout_def)
  have "take_bit_block g b j k ?bits s = Ok (block_number s g j k, s3)"
    by (simp add: take_bit_block_def st c bpg del: push_bit_of_1)
  hence "ext2_allocate_block s = Ok (block_number s g j k, s3)"
    using a(5) read_bitmap_ok [OF a(1,7)] a(8) fs_ok_block(7) [OF a(1)] skip
    by (simp add: ext2_allocate_block_def n lpart_apply a(4,6) unat_eq_zero del: add_Suc_right)
  then show ?thesis using s3 by auto
qed

lemma mark_bit_word:
  assumes "4 * j + 4 \<le> length bits"
  shows "words32 (mark_bit bits j k) = (words32 bits)[j := words32 bits ! j OR push_bit k 1]"
  using words32_overlay [OF assms] by (simp add: mark_bit_def)

text \<open>\<open>ext2_allocate_block\<close> gives the number of the first clear bit of the bitmap of the first group that has free
  blocks and counts it as used. When the bit lies in the first 512 bytes of the bitmap, the bitmap on the disk is the old
  one with just that bit set.\<close>

theorem allocate_block_marks:
  assumes "free_at s port g c b j k" and "j < 128"
  shows "\<exists>s1. ext2_allocate_block s = Ok (block_number s g j k, s1) \<and> bg_free_blocks_count (fpart s1) g = Ok (c - 1)
    \<and> \<not> bit (words32 (block_data s port b) ! j) k
    \<and> words32 (block_data s1 port b) = (words32 (block_data s port b))[j := words32 (block_data s port b) ! j OR push_bit k 1]"
proof -
  note w = free_at_word [OF assms(1)]
  let ?m = "mark_bit (block_data s port b) j k"
  have "drop 512 ?m = drop 512 (block_data s port b)"
    using slice_overlay_other [of "4 * j" "bytes32 (words32 (block_data s port b) ! j OR push_bit k 1)" "block_data s port b" 512
      "length (block_data s port b)"] w(1) assms(2) by (simp add: mark_bit_def)
  hence "take 512 ?m @ drop 512 (block_data s port b) = ?m" by (metis append_take_drop_id)
  with allocate_step [OF assms(1)] mark_bit_word [OF w(1)] w(3) show ?thesis by auto
qed

text \<open>When the first free block is not among the first 4096 of the group, the allocation is never recorded on the
  disk, because \<open>ext2_write_block\<close> stores the first sector of the bitmap only: the next allocation gives the same block
  again.\<close>

theorem allocate_block_twice:
  assumes "free_at s port g c b j k" and "128 \<le> j" and "c \<noteq> 1"
  shows "\<exists>s1 s2. ext2_allocate_block s = Ok (block_number s g j k, s1)
    \<and> ext2_allocate_block s1 = Ok (block_number s g j k, s2)"
proof -
  note w = free_at_word [OF assms(1)]
  let ?m = "mark_bit (block_data s port b) j k"
  have "take 512 ?m = take 512 (block_data s port b)"
    using slice_overlay_other [of "4 * j" "bytes32 (words32 (block_data s port b) ! j OR push_bit k 1)" "block_data s port b" 0 512]
      w(1) assms(2) by (simp add: mark_bit_def)
  then obtain s1 where 1: "ext2_allocate_block s = Ok (block_number s g j k, s1)" "fs_ok s1 port" "same_layout (fpart s) (fpart s1)"
    "bg_free_blocks_count (fpart s1) g = Ok (c - 1)"
    "\<forall>h. h \<noteq> g \<longrightarrow> bg_free_blocks_count (fpart s1) h = bg_free_blocks_count (fpart s) h" "block_data s1 port b = block_data s port b"
    using allocate_step [OF assms(1)] by auto
  have "free_at s1 port g (c - 1) b j k" using assms(1,3) 1(2-6) by (auto simp: free_at_def same_layout_def)
  moreover have "block_number s1 g j k = block_number s g j k" using 1(3) by (simp add: same_layout_def)
  ultimately show ?thesis using allocate_step [of s1 port g "c - 1" b j k] 1(1) by auto
qed

text \<open>Releasing the block with number \<open>x + 1\<close>, the one with index \<open>i\<close> of group \<open>g\<close>.\<close>

definition clear_bit :: "u8 list \<Rightarrow> nat \<Rightarrow> nat \<Rightarrow> u8 list" where
  "clear_bit bits j k = overlay bits (4 * j) (bytes32 (words32 bits ! j AND NOT (push_bit k 1)))"

lemma deallocate_step:
  assumes "fs_ok s port" and "32 * unat g + 32 \<le> length (pt_gd (fpart s))" and "length (pt_sb (fpart s)) = 1024"
    and "bg_free_blocks_count (fpart s) g = Ok c" and "bg_block_bitmap (fpart s) g = Ok b" and "b \<noteq> 0"
    and "s_blocks_per_group (fpart s) \<noteq> 0" and "x div s_blocks_per_group (fpart s) = g" and "x mod s_blocks_per_group (fpart s) = i"
    and "j = unat (i div 32)" and "k = unat (i mod 32)" and "4 * j + 4 \<le> length (block_data s port b)"
  shows "if bit (words32 (block_data s port b) ! j) k
    then \<exists>s1. ext2_deallocate_block (x + 1) s = Ok (1, s1) \<and> bg_free_blocks_count (fpart s1) g = Ok (c + 1)
      \<and> block_data s1 port b = take 512 (clear_bit (block_data s port b) j k) @ drop 512 (block_data s port b)
    else ext2_deallocate_block (x + 1) s = Ok (0, s)"
proof -
  let ?bits = "block_data s port b" and ?m = "clear_bit (block_data s port b) j k"
  have st: "get32 ?bits (4 * j) = Ok (words32 ?bits ! j)" "set32 ?bits (4 * j) (words32 ?bits ! j AND NOT (push_bit k 1)) = Ok ?m"
    using words32_get [of j ?bits] assms(12) by (simp_all add: set32_Ok clear_bit_def)
  note s = read_bitmap_ok [OF assms(1,6)] fs_ok_block(7) [OF assms(1)] st
  show ?thesis
  proof (cases "bit (words32 ?bits ! j) k")
    case True
    have "512 \<le> length ?m" using assms(12) length_block_data [OF assms(1), of b] fs_ok_block(2,3) [OF assms(1)] by (simp add: clear_bit_def)
    from bitmap_commit [OF assms(1-4,6) this, of 1] obtain p s2 s3 where
      c: "add_free_blocks g 1 s = Ok ((), s\<lparr>fpart := p\<rparr>)" "ext2_write_block b ?m (s\<lparr>fpart := p\<rparr>) = Ok (1, s2)"
        "ext2_flush_required s2 = Ok ((), s3)"
      and s3: "bg_free_blocks_count (fpart s3) g = Ok (c + 1)" "block_data s3 port b = take 512 ?m @ drop 512 ?bits" by blast
    have "ext2_deallocate_block (x + 1) s = Ok (1, s3)" using s True
      by (simp add: ext2_deallocate_block_def lpart_apply assms(5,7-9) udiv_def umod_def c unat_eq_zero
          assms(10) [symmetric] assms(11) [symmetric] Let_def del: push_bit_of_1)
    then show ?thesis using s3 True by auto
  next
    case False
    then show ?thesis using s
      by (simp add: ext2_deallocate_block_def lpart_apply assms(5,7-9) udiv_def umod_def unat_eq_zero
          assms(10) [symmetric] assms(11) [symmetric] Let_def del: push_bit_of_1)
  qed
qed

lemma clear_marked:
  fixes w :: u32
  assumes "\<not> bit w k"
  shows "(w OR push_bit k 1) AND NOT (push_bit k 1) = w" "k < 32 \<Longrightarrow> bit (w OR push_bit k 1) k"
  using assms by (auto intro!: bit_eqI simp: bit_simps)

text \<open>The group and the index that the number of a block stands for, when it does not wrap around.\<close>

lemma block_number_parts:
  fixes g bpg :: u32
  assumes "i < unat bpg" and "unat g * unat bpg + i < 2 ^ 32"
  shows "(of_nat i + g * bpg) div bpg = g" and "unat ((of_nat i + g * bpg) mod bpg) = i"
proof -
  have e: "(of_nat i + g * bpg :: u32) = of_nat (i + unat g * unat bpg)" by simp
  have u: "unat (of_nat i + g * bpg :: u32) = i + unat g * unat bpg" unfolding e using assms(2) by (simp add: unsigned_of_nat take_bit_nat_eq_self del: of_nat_add of_nat_mult)
  show "(of_nat i + g * bpg) div bpg = g" using assms(1) by (simp add: word_unat_eq_iff unat_div_distrib u)
  show "unat ((of_nat i + g * bpg) mod bpg) = i" using assms(1) by (simp add: unat_mod_distrib u)
qed

text \<open>C27: what happens to a block that is allocated and then released, in the first group that has free blocks, its number
  being within the blocks of its group and below \<open>2 ^ 32\<close>. Among the first 4096 of its group its bit is set on the disk, and
  releasing it restores the bitmap on the disk and the count of free blocks. Otherwise the bitmap on the disk
  never shows it as used (\<open>ext2_write_block\<close> stores the first sector only): the release finds it free and fails without a
  change, so the count of free blocks stays one too low.\<close>

theorem allocate_deallocate:
  assumes "free_at s port g c b j k" and "32 * j + k < unat (s_blocks_per_group (fpart s))"
    and "unat g * unat (s_blocks_per_group (fpart s)) + (32 * j + k) < 2 ^ 32"
  shows "\<exists>x s1. x = of_nat j * 32 + of_nat k + 1 + g * s_blocks_per_group (fpart s) \<and> ext2_allocate_block s = Ok (x, s1)
    \<and> bg_free_blocks_count (fpart s1) g = Ok (c - 1)
    \<and> (if j < 128 then words32 (block_data s1 port b) = (words32 (block_data s port b))[j := words32 (block_data s port b) ! j OR push_bit k 1]
          \<and> (\<exists>s2. ext2_deallocate_block x s1 = Ok (1, s2) \<and> bg_free_blocks_count (fpart s2) g = Ok c
            \<and> block_data s2 port b = block_data s port b)
       else block_data s1 port b = block_data s port b \<and> ext2_deallocate_block x s1 = Ok (0, s1))"
proof -
  note w = free_at_word [OF assms(1)]
  let ?d = "block_data s port b" and ?bpg = "s_blocks_per_group (fpart s)"
  let ?m = "mark_bit ?d j k" and ?y = "of_nat j * 32 + of_nat k + g * ?bpg"
  have lm: "length ?m = length ?d" using w(1) by (simp add: mark_bit_def)
  obtain s1 where 1: "ext2_allocate_block s = Ok (block_number s g j k, s1)" "fs_ok s1 port" "same_layout (fpart s) (fpart s1)"
    "bg_free_blocks_count (fpart s1) g = Ok (c - 1)" "block_data s1 port b = take 512 ?m @ drop 512 ?d"
    using allocate_step [OF assms(1)] by blast
  have y: "block_number s g j k = ?y + 1" by simp
  have nd: "?y = of_nat (32 * j + k) + g * ?bpg" by simp
  have l1: "32 * unat g + 32 \<le> length (pt_gd (fpart s1))" "length (pt_sb (fpart s1)) = 1024" "bg_block_bitmap (fpart s1) g = Ok b"
    "b \<noteq> 0" "s_blocks_per_group (fpart s1) = ?bpg" using assms(1) 1(3) by (auto simp: free_at_def same_layout_def)
  have "?bpg \<noteq> 0" using assms(2) by auto
  note gi = block_number_parts [OF assms(2,3), folded nd]
  have jk: "j = unat (?y mod ?bpg div 32)" "k = unat (?y mod ?bpg mod 32)"
    unfolding unat_div_distrib [of "?y mod ?bpg" 32] unat_mod_distrib [of "?y mod ?bpg" 32] gi(2) using w(2) by simp_all
  have ld: "4 * j + 4 \<le> length (block_data s1 port b)" using w(1) lm by (simp add: 1(5))
  have "s_blocks_per_group (fpart s1) \<noteq> 0" "?y div s_blocks_per_group (fpart s1) = g" "?y mod s_blocks_per_group (fpart s1) = ?y mod ?bpg"
    using l1(5) gi(1) \<open>?bpg \<noteq> 0\<close> by simp_all
  note de = deallocate_step [OF 1(2) l1(1,2) 1(4) l1(3,4) this jk ld]
  have eq: "take 512 ?m @ drop 512 ?d = (if j < 128 then ?m else ?d)"
  proof (cases "j < 128")
    case True
    hence "drop 512 ?m = drop 512 ?d"
      using slice_overlay_other [of "4 * j" "bytes32 (words32 ?d ! j OR push_bit k 1)" ?d 512 "length ?d"] w(1) lm by (simp add: mark_bit_def)
    with True show ?thesis by (metis append_take_drop_id)
  next
    case False
    hence "take 512 ?m = take 512 ?d"
      using slice_overlay_other [of "4 * j" "bytes32 (words32 ?d ! j OR push_bit k 1)" ?d 0 512] w(1) by (simp add: mark_bit_def)
    with False show ?thesis by (metis append_take_drop_id)
  qed
  show ?thesis
  proof (cases "j < 128")
    case True
    have b1: "block_data s1 port b = ?m" using 1(5) eq True by simp
    have wm: "words32 ?m ! j = words32 ?d ! j OR push_bit k 1"
      using words32_overlay [OF w(1)] w(1) by (simp add: mark_bit_def length_words32)
    have "bit (words32 ?m ! j) k" unfolding wm by (rule clear_marked(2) [OF w(3,2)])
    with de obtain s2 where 2: "ext2_deallocate_block (?y + 1) s1 = Ok (1, s2)" "bg_free_blocks_count (fpart s2) g = Ok (c - 1 + 1)"
      "block_data s2 port b = take 512 (clear_bit ?m j k) @ drop 512 ?m" unfolding b1 by auto
    have "clear_bit ?m j k = ?d"
      using w(1) words32_get [of j ?d] clear_marked(1) [OF w(3)] wm by (simp add: clear_bit_def mark_bit_def overlay_twice overlay_word)
    moreover have "take 512 ?d @ drop 512 ?m = ?d" using eq True by (metis append_eq_append_conv append_take_drop_id length_take lm)
    ultimately show ?thesis using 1(1,4) 2 True mark_bit_word [OF w(1)] unfolding y by (auto simp: b1)
  next
    case False
    have b1: "block_data s1 port b = ?d" using 1(5) eq False by simp
    with de w(3) have "ext2_deallocate_block (?y + 1) s1 = Ok (0, s1)" by simp
    then show ?thesis using 1(1,4) b1 False unfolding y by auto
  qed
qed

section \<open>Reading through the direct blocks\<close>

lemma overlay_append: "off + length a + length b \<le> length buf \<Longrightarrow> overlay (overlay buf off a) (off + length a) b = overlay buf off (a @ b)"
  by (cases a) (auto simp: overlay_def min_def ac_simps)

lemma overlay_nil [simp]: "off \<le> length buf \<Longrightarrow> overlay buf off [] = buf"
  by (simp add: overlay_def)

lemma read_at_ok:
  assumes "fs_ok s port" and "b \<noteq> 0" and "off + block_bytes (fpart s) \<le> length buf"
  shows "read_at b off buf s = Ok ((1, overlay buf off (block_data s port b)), s)"
  using read_block_ok [OF assms(1,2), of "drop off buf"] assms(3) length_block_data [OF assms(1), of b]
  by (simp add: read_at_def overlay_def add.commute)

definition blocks_data :: "fs \<Rightarrow> u8 \<Rightarrow> u32 list \<Rightarrow> u8 list" where
  "blocks_data s port bs = concat (map (block_data s port) bs)"

lemma length_blocks_data: "fs_ok s port \<Longrightarrow> length (blocks_data s port bs) = length bs * block_bytes (fpart s)"
  by (induction bs) (auto simp: blocks_data_def length_block_data)

lemma read_direct_skips:
  "length bs \<le> unat skip \<Longrightarrow> read_direct_loop bs n count skip off buf s = Ok ((n, skip - of_nat (length bs), buf), s)"
proof (induction bs arbitrary: skip)
  case (Cons b bs)
  have "skip \<noteq> 0" using Cons.prems by auto
  hence u: "unat (skip - 1) = unat skip - 1" and p: "0 < skip" by (simp_all add: unat_minus_one word_greater_zero_iff)
  have "length bs \<le> unat (skip - 1)" unfolding u using Cons.prems by simp
  from Cons.IH [OF this] p show ?case by (simp add: diff_diff_eq)
qed simp

lemma read_direct_reads:
  assumes "fs_ok s port"
  shows "0 < m \<Longrightarrow> m \<le> length bs \<Longrightarrow> unat n + m = unat count \<Longrightarrow> off + m * block_bytes (fpart s) \<le> length buf \<Longrightarrow>
    \<forall>b \<in> set (take m bs). b \<noteq> 0 \<Longrightarrow>
    read_direct_loop bs n count 0 off buf s = Ok ((count, 0, overlay buf off (blocks_data s port (take m bs))), s)"
proof (induction bs arbitrary: m n off buf)
  case (Cons b bs)
  let ?B = "block_bytes (fpart s)" and ?buf = "overlay buf off (block_data s port b)"
  have len: "length (block_data s port b) = ?B" by (rule length_block_data [OF assms(1)])
  have fit: "off + ?B \<le> length buf" using Cons.prems(1,4) by (cases m) auto
  have r: "read_at b off buf s = Ok ((1, ?buf), s)" using read_at_ok [OF assms(1) _ fit] Cons.prems(1,5) by (cases m) simp_all
  have lt: "unat n + 1 \<le> unat count" using Cons.prems(1,3) by simp
  have n1: "unat (n + 1) = unat n + 1" by (rule unat_Suc_small [OF le_less_trans [OF lt unsigned_less]])
  show ?case
  proof (cases "m = 1")
    case True
    have "unat (n + 1) = unat count" using n1 Cons.prems(3) True by simp
    hence "n + 1 = count" by (simp only: word_unat_eq_iff)
    then show ?thesis using r True by (simp add: blocks_data_def)
  next
    case False
    then obtain k where k: "m = Suc k" "0 < k" using Cons.prems(1) by (cases m) auto
    have ne: "n + 1 \<noteq> count" using n1 Cons.prems(3) k by auto
    have "unat (n + 1) + k = unat count" using n1 Cons.prems(3) k by simp
    moreover have "length ?buf = length buf" using fit len by simp
    moreover have "(off + ?B) + k * ?B \<le> length buf" using Cons.prems(4) k by simp
    ultimately have "read_direct_loop bs (n + 1) count 0 (off + ?B) ?buf s
        = Ok ((count, 0, overlay ?buf (off + ?B) (blocks_data s port (take k bs))), s)"
      using Cons.IH [of k "n + 1" "off + ?B" ?buf] k Cons.prems(2,5) by simp
    moreover have "overlay ?buf (off + ?B) (blocks_data s port (take k bs)) = overlay buf off (blocks_data s port (take m (b # bs)))"
      using overlay_append [of off "block_data s port b" "blocks_data s port (take k bs)" buf] len
        length_blocks_data [OF assms(1), of "take k bs"] Cons.prems(2,4) k by (simp add: blocks_data_def)
    ultimately show ?thesis using r ne k by (simp add: block_bytes_def)
  qed
qed simp

lemma read_direct_ok:
  assumes "fs_ok s port" and "\<forall>b \<in> set (take (unat count) (drop (unat skip) bs)). b \<noteq> 0" and "0 < unat count" and "unat skip + unat count \<le> length bs"
    and "off + unat count * block_bytes (fpart s) \<le> length buf"
  shows "ext2_read_direct_blocks bs count skip off buf s =
    Ok ((count, 0, overlay buf off (blocks_data s port (take (unat count) (drop (unat skip) bs)))), s)"
proof -
  have "read_direct_loop bs 0 count skip off buf s = read_direct_loop (drop (unat skip) bs) 0 count 0 off buf s"
    using assms(4)
  proof (induction bs arbitrary: skip)
    case (Cons b bs)
    show ?case
    proof (cases "skip = 0")
      case False
      have "unat skip \<noteq> 0" using False by (simp add: unat_eq_zero)
      moreover have "unat (skip - 1) = unat skip - 1" using False by (rule unat_minus_one)
      ultimately have u: "unat skip = Suc (unat (skip - 1))" by linarith
      have "0 < skip" using False by (simp add: word_greater_zero_iff)
      moreover have "unat (skip - 1) + unat count \<le> length bs" using Cons.prems u by simp
      ultimately show ?thesis using Cons.IH [of "skip - 1"] unfolding u by simp
    qed simp
  qed (simp add: unat_eq_zero)
  then show ?thesis
    using read_direct_reads [OF assms(1), where bs = "drop (unat skip) bs" and m = "unat count" and n = 0] assms(2-5)
    by (simp add: ext2_read_direct_blocks_def)
qed

section \<open>Reading the contents of an inode\<close>

text \<open>The inode can be read and has all its fields.\<close>

definition inode_ready :: "fs \<Rightarrow> u8 \<Rightarrow> u32 \<Rightarrow> inode_place \<Rightarrow> bool" where
  "inode_ready s port ino pl \<longleftrightarrow> fs_ok s port \<and> inode_at s ino pl \<and> 100 \<le> unat (inode_bytes (fpart s))"

lemma inode_ready_read:
  assumes "inode_ready s port ino pl"
  shows "fs_ok s port" and "ext2_read_inode ino s = Ok (Some (inode_data s port pl), s)" and "\<not> length (inode_data s port pl) < 100"
    and "length (i_blocks (inode_data s port pl)) = 15"
  using assms read_inode_ok [of s port ino pl] length_inode_data [of s port ino pl]
  by (auto simp: inode_ready_def i_blocks_def length_words32)

lemma read_inode_blocks_direct:
  assumes "inode_ready s port ino pl" and "count \<noteq> 0"
    and "ext2_read_direct_blocks (take 12 (i_blocks (inode_data s port pl))) count skip off buf s = Ok ((r, sk, buf1), s)"
    and "r = EXT2_READ_FAILED \<or> r = 0 \<or> count \<le> ucast (ucast r :: u32)"
  shows "ext2_read_inode_blocks ino count skip off buf s = Ok ((if r = EXT2_READ_FAILED \<or> r = 0 then r else ucast (ucast r :: u32), buf1), s)"
  using assms inode_ready_read [OF assms(1)] by (auto simp: ext2_read_inode_blocks_def read_step_def)

lemma read_inode_blocks_past:
  assumes "inode_ready s port ino pl" and "count \<noteq> 0" and "12 \<le> unat skip"
  shows "ext2_read_inode_blocks ino count skip off buf s = Ok ((0, buf), s)"
proof -
  have "ext2_read_direct_blocks (take 12 (i_blocks (inode_data s port pl))) count skip off buf s = Ok ((0, skip - 12, buf), s)"
    using read_direct_skips [of "take 12 (i_blocks (inode_data s port pl))" skip 0 count off buf s] assms(3) inode_ready_read(4) [OF assms(1)]
    by (simp add: ext2_read_direct_blocks_def)
  from read_inode_blocks_direct [OF assms(1,2) this] show ?thesis by simp
qed

lemma cut_small: "unat (x :: u64) \<le> 12 \<Longrightarrow> (ucast (ucast x :: u32) :: u64) = x"
  by (rule word_unat_eq_iff [THEN iffD2]) (simp add: unsigned_ucast_eq unsigned_take_bit_eq take_bit_nat_eq_self)

lemma read_inode_blocks_ok:
  assumes "inode_ready s port ino pl" and "bl = take 12 (i_blocks (inode_data s port pl))"
    and "\<forall>b \<in> set (take (unat count) (drop (unat skip) bl)). b \<noteq> 0"
    and "0 < unat count" and "unat skip + unat count \<le> 12" and "off + unat count * block_bytes (fpart s) \<le> length buf"
  shows "ext2_read_inode_blocks ino count skip off buf s =
    Ok ((count, overlay buf off (blocks_data s port (take (unat count) (drop (unat skip) bl)))), s)"
proof -
  have l: "length bl = 12" using inode_ready_read(4) [OF assms(1)] assms(2) by simp
  have c: "ucast (ucast count :: u32) = count" using assms(5) by (intro cut_small) simp
  have n: "count \<noteq> EXT2_READ_FAILED" "count \<noteq> 0" using assms(4,5) by auto
  from read_direct_ok [OF inode_ready_read(1) [OF assms(1)] assms(3,4), of off buf] l assms(5,6)
  have d: "ext2_read_direct_blocks bl count skip off buf s =
    Ok ((count, 0, overlay buf off (blocks_data s port (take (unat count) (drop (unat skip) bl)))), s)" by simp
  show ?thesis
    using read_inode_blocks_direct [OF assms(1) n(2) d [unfolded assms(2)]] c n by (simp add: assms(2))
qed

lemma sint_u64_small:
  fixes x :: u64
  assumes "unat x < 2 ^ 63"
  shows "sint x = int (unat x)"
proof -
  have u: "uint x = int (unat x)" by (rule uint_nat)
  have "int (unat x) < int (2 ^ 63)" using assms by (simp only: of_nat_less_iff)
  hence "uint x < 2 ^ 63" unfolding u by simp
  moreover have "- (2 ^ 63) \<le> uint x" by (rule order_trans [of _ 0]) simp_all
  ultimately have "signed_take_bit 63 (uint x) = uint x" by (intro signed_take_bit_int_eq_self)
  then show ?thesis by (simp add: sint_uint)
qed

lemma sint_pos_small: "0 < unat (x :: u64) \<Longrightarrow> unat x < 2 ^ 63 \<Longrightarrow> 0 < sint x"
  using sint_u64_small [of x] by linarith

lemma unat_block_size: "unat (ucast (block_size p) :: u64) = block_bytes p"
  using unsigned_less [of "block_size p", where ?'a = nat] by (simp add: block_bytes_def unsigned_ucast_eq take_bit_nat_eq_self)

text \<open>nothing behind the twelfth block of a file can be read from an offset: the direct blocks count as nothing read,
  which ends the walk before the indirect blocks are looked at.\<close>

theorem read_past_direct:
  assumes "inode_ready s port ino pl" and "0 < sint count" and "12 * block_bytes (fpart s) \<le> unat skip"
  shows "ext2_read_inode_bytes ino buf count skip s = Ok ((EXT2_READ_FAILED, buf), s)"
proof -
  note f = fs_ok_block [OF inode_ready_read(1) [OF assms(1)]]
  let ?B = "ucast (block_size (fpart s)) :: u64"
  have B: "unat ?B = block_bytes (fpart s)" by (rule unat_block_size)
  have Bpos: "0 < block_bytes (fpart s)" using f(2,3) by simp
  have B0: "?B \<noteq> 0" using B Bpos by auto
  have sk: "12 \<le> unat (skip div ?B)" using assms(3) Bpos by (simp add: unat_div_distrib B less_eq_div_iff_mult_less_eq)
  have count: "count \<noteq> 0" using assms(2) by auto
  have m: "unat (block_size (fpart s)) \<noteq> 0" using f(7) by (simp add: unat_eq_zero)
  have last: "read_last ino count 0 (skip div ?B) off buf s = Ok ((EXT2_READ_FAILED, buf), s)" for off
    using read_inode_blocks_past [OF assms(1) _ sk, of 1] assms(2) m by (simp add: read_last_def)
  have mid: "read_middle ino count blocks 0 (skip div ?B) 0 buf s = Ok ((EXT2_READ_FAILED, buf), s)" for blocks
  proof (cases "blocks - 1 = 0")
    case True then show ?thesis using last assms(2) by (simp add: read_middle_def ext2_read_inode_blocks_def)
  next
    case False then show ?thesis using read_inode_blocks_past [OF assms(1) False sk] last assms(2) by (simp add: read_middle_def)
  qed
  obtain blocks where bl: "DIVIDE_ROUNDED_UP count ?B = Ok blocks" using B0 by (simp add: DIVIDE_ROUNDED_UP_def)
  show ?thesis
  proof (cases "skip mod ?B = 0")
    case True then show ?thesis using mid bl by (simp add: ext2_read_inode_bytes_def Let_def)
  next
    case False
    have "unat ?B \<noteq> 0" using B Bpos by simp
    then show ?thesis using False read_inode_blocks_past [OF assms(1) _ sk, of 1] bl
      by (simp add: ext2_read_inode_bytes_def Let_def del: unat_block_size)
  qed
qed

section \<open>Reading a file from its beginning\<close>

lemma blocks_data_split: "blocks_data s port (xs @ ys) = blocks_data s port xs @ blocks_data s port ys"
  by (simp add: blocks_data_def)

lemma rounded_up:
  fixes c B :: u64
  assumes "0 < unat B" and "0 < unat c" and "unat c + unat B \<le> 2 ^ 32"
  shows "\<exists>b. DIVIDE_ROUNDED_UP c B = Ok b \<and> unat (b - 1) = (unat c - 1) div unat B"
proof -
  have B0: "B \<noteq> 0" and c0: "c \<noteq> 0" using assms(1,2) by auto
  have lt: "unat c + unat B < 2 ^ 64" using assms(3) by (rule le_less_trans) simp
  define b where "b = (if c mod B \<noteq> 0 then (c + B - 1) div B else c div B)"
  have ub: "unat b = (unat c - 1) div unat B + 1"
  proof (cases "c mod B = 0")
    case True
    then obtain k where k: "unat c = unat B * k" by (metis unat_mod_eq_0 mod_0_imp_dvd dvdE)
    then obtain j where "k = Suc j" using assms(2) by (cases k) auto
    moreover have "(unat B * Suc j - 1) div unat B = j" using assms(1) by (intro div_nat_eqI) auto
    ultimately show ?thesis using True k assms(1) by (simp add: b_def unat_div_distrib)
  next
    case False
    have "unat (c + B) = unat c + unat B" using lt by (intro unat_add_small) simp
    moreover have "c + B \<noteq> 0" using calculation assms(1) by auto
    ultimately have "unat (c + B - 1) = unat c - 1 + unat B" using assms(2) by (simp add: unat_minus_one)
    moreover have "(unat c - 1 + unat B) div unat B = (unat c - 1) div unat B + 1" using assms(1) by (intro div_add_self2) simp
    ultimately show ?thesis using False by (simp add: b_def unat_div_distrib)
  qed
  hence "b \<noteq> 0" by auto
  with ub have "unat (b - 1) = (unat c - 1) div unat B" by (simp add: unat_minus_one)
  moreover have "DIVIDE_ROUNDED_UP c B = Ok b" using B0 by (simp add: DIVIDE_ROUNDED_UP_def b_def)
  ultimately show ?thesis by blast
qed

lemma read_last_data:
  assumes "inode_ready s port ino pl" and "bl = take 12 (i_blocks (inode_data s port pl))"
    and "unat skipb < 12" and "bl ! unat skipb \<noteq> 0"
    and "unat done < unat count" and "unat count < 2 ^ 63" and "unat count - unat done \<le> block_bytes (fpart s)"
    and "off + (unat count - unat done) \<le> length buf"
  shows "read_last ino count done skipb off buf s
    = Ok ((count, overlay buf off (take (unat count - unat done) (block_data s port (bl ! unat skipb)))), s)"
proof -
  note f = fs_ok_block [OF inode_ready_read(1) [OF assms(1)]]
  let ?B = "block_bytes (fpart s)" and ?d = "block_data s port (bl ! unat skipb)"
  have l: "length bl = 12" using inode_ready_read(4) [OF assms(1)] assms(2) by simp
  have rest: "unat (count - done) = unat count - unat done" using assms(5) by (simp add: unat_sub_small word_le_nat_alt)
  have "0 < sint (count - done)" by (rule sint_pos_small) (use rest assms(5,6) in linarith)+
  hence pos: "\<not> sint (count - done) \<le> 0" by linarith
  have m: "unat (block_size (fpart s)) \<noteq> 0" using f(7) by (simp add: unat_eq_zero)
  have ld: "length ?d = ?B" by (rule length_block_data [OF inode_ready_read(1) [OF assms(1)]])
  have t1: "take 1 (drop (unat skipb) bl) = [bl ! unat skipb]" using assms(3) l by (simp add: take_Suc_conv_app_nth)
  have "ext2_read_inode_blocks ino 1 skipb 0 (map (junk s) [0..<unat (block_size (fpart s))]) s
      = Ok ((1, overlay (map (junk s) [0..<unat (block_size (fpart s))]) 0 ?d), s)"
    using read_inode_blocks_ok [OF assms(1,2), of 1 skipb 0 "map (junk s) [0..<unat (block_size (fpart s))]"] assms(3,4) t1
    by (simp add: blocks_data_def block_bytes_def)
  moreover have "overlay (map (junk s) [0..<unat (block_size (fpart s))]) 0 ?d = ?d"
    using ld by (simp add: overlay_def block_bytes_def)
  moreover have "memcpy (drop off buf) ?d (unat count - unat done) = Ok (take (unat count - unat done) ?d @ drop (unat count - unat done) (drop off buf))"
    by (rule memcpy_over) (use assms(7,8) ld in auto)
  moreover have "length (take (unat count - unat done) ?d) = unat count - unat done" using assms(7) ld by simp
  ultimately show ?thesis using pos m rest by (simp add: read_last_def Let_def overlay_def add.commute)
qed

lemma unat_read_failed: "unat EXT2_READ_FAILED = 4294967294 \<and> (12 :: nat) < 4294967294"
  by simp

lemma read_middle_data:
  assumes "inode_ready s port ino pl" and "bl = take 12 (i_blocks (inode_data s port pl))"
    and "unat count \<le> 12 * block_bytes (fpart s)" and "0 < unat count" and "unat count \<le> length buf"
    and "unat (blocks - 1) = (unat count - 1) div block_bytes (fpart s)"
    and "\<forall>b \<in> set (take (unat (blocks - 1) + 1) bl). b \<noteq> 0"
  shows "read_middle ino count blocks 0 0 0 buf s
    = Ok ((count, take (unat count) (blocks_data s port bl) @ drop (unat count) buf), s)"
proof -
  note f = fs_ok_block [OF inode_ready_read(1) [OF assms(1)]]
  let ?B = "block_bytes (fpart s)" and ?q = "unat (blocks - 1)"
  let ?d = "blocks_data s port (take ?q bl)" and ?e = "block_data s port (bl ! ?q)"
  have l: "length bl = 12" using inode_ready_read(4) [OF assms(1)] assms(2) by simp
  have Bpos: "0 < ?B" and B: "?B \<le> 65536" using f(2,3,4) by simp_all
  have q: "?q * ?B \<le> unat count - 1" unfolding assms(6) by simp
  have "unat count - 1 < Suc ?q * ?B" unfolding assms(6) using Bpos by (metis dividend_less_div_times mult_Suc)
  hence q1: "unat count \<le> Suc ?q * ?B" using assms(4) by linarith
  have "?q * ?B < 12 * ?B" using q assms(3,4) by linarith
  hence q12: "?q < 12" by simp
  have small: "unat count < 2 ^ 63" using assms(3) B by (intro le_less_trans [of "unat count" "12 * 65536"]) simp_all
  have "\<not> sint count \<le> 0" using sint_pos_small [OF assms(4) small] by linarith
  have ld: "length ?d = ?q * ?B" using length_blocks_data [OF inode_ready_read(1) [OF assms(1)], of "take ?q bl"] l q12 by simp
  have rd: "ext2_read_inode_blocks ino (blocks - 1) 0 0 buf s = Ok ((blocks - 1, overlay buf 0 ?d), s)"
  proof (cases "blocks - 1 = 0")
    case True then show ?thesis by (simp add: ext2_read_inode_blocks_def blocks_data_def)
  next
    case False
    have "\<forall>b \<in> set (take ?q (drop (unat (0 :: u64)) bl)). b \<noteq> 0" using assms(7) set_take_subset_set_take [of ?q "?q + 1" bl] by auto
    then show ?thesis
      using read_inode_blocks_ok [OF assms(1,2), of "blocks - 1" 0 0 buf] False q12 q assms(5) by (simp add: unat_gt_0)
  qed
  have qb: "unat ((blocks - 1) * ucast (block_size (fpart s))) = ?q * ?B"
  proof -
    have "?q * ?B \<le> 2 ^ 63" using q small by linarith
    hence "?q * ?B < 2 ^ 64" by (rule le_less_trans) simp
    then show ?thesis by (simp add: unat_word_ariths unat_block_size)
  qed
  have last: "read_last ino count ((blocks - 1) * ucast (block_size (fpart s))) (blocks - 1) (?q * ?B) (overlay buf 0 ?d) s
      = Ok ((count, overlay (overlay buf 0 ?d) (?q * ?B) (take (unat count - ?q * ?B) ?e)), s)"
    using read_last_data [OF assms(1,2), of "blocks - 1" "(blocks - 1) * ucast (block_size (fpart s))" count "?q * ?B" "overlay buf 0 ?d"]
      q12 assms(4,5,7) small q q1 qb l ld by (simp add: take_Suc_conv_app_nth)
  have bl: "bl = take ?q bl @ [bl ! ?q] @ drop (Suc ?q) bl" using l q12 by (simp add: id_take_nth_drop)
  have le: "length ?e = ?B" by (rule length_block_data [OF inode_ready_read(1) [OF assms(1)]])
  have "blocks_data s port bl = ?d @ ?e @ blocks_data s port (drop (Suc ?q) bl)"
    by (subst bl) (simp only: blocks_data_split, simp add: blocks_data_def)
  hence tk: "take (unat count) (blocks_data s port bl) = ?d @ take (unat count - ?q * ?B) ?e" using q q1 ld le by simp
  have "overlay (overlay buf 0 ?d) (?q * ?B) (take (unat count - ?q * ?B) ?e) = overlay buf 0 (take (unat count) (blocks_data s port bl))"
    using overlay_append [of 0 ?d "take (unat count - ?q * ?B) ?e" buf] ld le q q1 assms(4,5) unfolding tk by simp
  also have "\<dots> = take (unat count) (blocks_data s port bl) @ drop (unat count) buf"
  proof -
    have "length (take (unat count) (blocks_data s port bl)) = unat count" using tk ld le q q1 assms(4) by simp
    then show ?thesis by (simp add: overlay_def)
  qed
  finally have buf: "overlay (overlay buf 0 ?d) (?q * ?B) (take (unat count - ?q * ?B) ?e)
    = take (unat count) (blocks_data s port bl) @ drop (unat count) buf" .
  have "blocks - 1 \<noteq> EXT2_READ_FAILED" using q12 by (metis unat_read_failed not_less_iff_gr_or_eq order_less_trans)
  moreover have "\<not> sint (blocks - 1) < 0"
  proof -
    have "?q < 2 ^ 63" using q12 by (rule less_trans) simp
    then show ?thesis by (simp only: sint_u64_small)
  qed
  ultimately show ?thesis using \<open>\<not> sint count \<le> 0\<close> rd last [unfolded buf]
    by (simp add: read_middle_def qb)
qed

text \<open>Reading a file of up to twelve blocks from its beginning puts the bytes of its blocks into the buffer, exactly as
  many as asked for: the whole blocks directly, the rest through a buffer of one block.\<close>

lemma read_inode_data:
  assumes "inode_ready s port ino pl" and "bl = take 12 (i_blocks (inode_data s port pl))"
    and "0 < unat count" and "unat count \<le> 12 * block_bytes (fpart s)" and "unat count \<le> length buf"
    and "\<forall>i. i * block_bytes (fpart s) < unat count \<longrightarrow> bl ! i \<noteq> 0"
  shows "ext2_read_inode_bytes ino buf count 0 s = Ok ((count, take (unat count) (blocks_data s port bl) @ drop (unat count) buf), s)"
proof -
  note f = fs_ok_block [OF inode_ready_read(1) [OF assms(1)]]
  let ?B = "block_bytes (fpart s)"
  have Bpos: "0 < ?B" and B: "?B \<le> 65536" using f(2,3,4) by simp_all
  have "unat count + ?B \<le> 4294967296" using assms(4) B by linarith
  hence "unat count + unat (ucast (block_size (fpart s)) :: u64) \<le> 2 ^ 32" by (simp add: unat_block_size)
  then obtain blocks where b: "DIVIDE_ROUNDED_UP count (ucast (block_size (fpart s))) = Ok blocks"
      "unat (blocks - 1) = (unat count - 1) div ?B"
    using rounded_up [of "ucast (block_size (fpart s))" count] Bpos assms(3) by (auto simp: unat_block_size)
  have "bl ! i \<noteq> 0" if "i < unat (blocks - 1) + 1" for i
  proof -
    have "i * ?B \<le> (unat count - 1) div ?B * ?B" using that b(2) by simp
    also have "\<dots> \<le> unat count - 1" by simp
    finally show ?thesis using assms(3,6) by simp
  qed
  hence nz: "\<forall>b \<in> set (take (unat (blocks - 1) + 1) bl). b \<noteq> 0" by (auto simp: in_set_conv_nth)
  show ?thesis
    using read_middle_data [OF assms(1,2,4,3,5) b(2) nz] b(1) by (simp add: ext2_read_inode_bytes_def)
qed

end
