(* ===== verification/Ext2Inode.thy ===== *)
theory Ext2Inode
  imports Ext2Block
begin

text \<open>Block groups (\<open>ext2_bg.c\<close>), inodes (\<open>ext2_inode.c\<close>) and the helpers of \<open>ext2_util.c\<close>: choosing a group, allocating
  and deleting inodes, the list of the blocks of a file, and the lookup of paths.\<close>

section \<open>Block groups\<close>

text \<open>The callback is called on one group after the other until it gives a value other than 0; -1 when it never
  does.\<close>

fun operate_loop :: "(u32 \<Rightarrow> u8 op) \<Rightarrow> nat \<Rightarrow> u32 \<Rightarrow> u32 op" where
  "operate_loop callback 0 i = ret (- 1)"
| "operate_loop callback (Suc n) i = bnd (callback i) (\<lambda>r. if r \<noteq> 0 then ret i else operate_loop callback n (i + 1))"

definition ext2_operate_on_bg :: "(u32 \<Rightarrow> u8 op) \<Rightarrow> u32 op" where
  "ext2_operate_on_bg callback = bnd (part (\<lambda>p. unat (group_number p))) (\<lambda>n. operate_loop callback n 0)"

definition ext2_bg_has_free_inodes :: "u32 \<Rightarrow> u8 op" where
  "ext2_bg_has_free_inodes i = bnd (lpart (\<lambda>p. bg_free_inodes_count p i)) (\<lambda>c. ret (if 0 < c then 1 else 0))"

text \<open>The descriptors from the \<open>i\<close>-th on are written where group \<open>i\<close> begins, with the block number of the table
  added to the sector. \<open>write_disk\<close> is given a number of sectors.\<close>

definition ext2_flush_bg :: "u32 \<Rightarrow> u8 op" where
  "ext2_flush_bg i = bnd (part id) (\<lambda>p.
     bnd (lft (DIVIDE_ROUNDED_UP (ucast (group_number p) * 32 :: u64) (ucast (sector_size p)))) (\<lambda>n.
     bnd (lft (udiv (block_size p) (sector_size p))) (\<lambda>spb.
     bnd (disk_out (drop (32 * unat i) (pt_gd p))
           (pt_lba p + s_blocks_per_group p * spb * i + bgdt_block p) (ucast n)) (\<lambda>r.
       ret (if r = 0 then 1 else 0)))))"

definition ext2_flush_sb :: "u32 \<Rightarrow> u8 op" where
  "ext2_flush_sb i = bnd (part id) (\<lambda>p.
     if backup_bgs_count p \<le> i then ret 1
     else bnd (lft (rd (backup_bgs p) (unat i))) (\<lambda>b. if b = - 1 then ret 1
     else bnd (lft (udiv (block_size p) (sector_size p))) (\<lambda>spb.
       bnd (disk_out (pt_sb p) (pt_lba p + s_blocks_per_group p * spb * i + sb_block p) 2) (\<lambda>r.
         ret (if r = 0 then 1 else 0)))))"

definition ext2_flush_partition :: "unit op" where
  "ext2_flush_partition = bnd (ext2_operate_on_bg ext2_flush_bg) (\<lambda>_. bnd (ext2_operate_on_bg ext2_flush_sb) (\<lambda>_.
     modp (\<lambda>p. Ok (p\<lparr>flush_required := 0\<rparr>))))"

section \<open>Identifiers and time\<close>

definition ext2_get_unique_id :: "u32 op" where
  "ext2_get_unique_id = (\<lambda>s. let u = (if unique_id s = 0xFFFFFFFF then 0x00CAFE00 else unique_id s + 1)
     in Ok (u, s\<lparr>unique_id := u\<rparr>))"

section \<open>Allocating and deleting inodes\<close>

fun scan_bytes :: "u8 list \<Rightarrow> nat \<Rightarrow> (nat \<times> nat) option" where
  "scan_bytes [] i = None"
| "scan_bytes (b # bs) i = (if b \<noteq> 0xFF
     then (case find (\<lambda>j. \<not> bit b j) [0..<8] of Some j \<Rightarrow> Some (i, j) | None \<Rightarrow> None)
     else scan_bytes bs (i + 1))"

definition add_free_inodes :: "u32 \<Rightarrow> u16 \<Rightarrow> unit op" where
  "add_free_inodes g d = bnd (modp (\<lambda>p. rbind (bg_free_inodes_count p g) (\<lambda>c. set_gd16 g 14 (c + d) p))) (\<lambda>_.
     modp (\<lambda>p. set_sb32 16 (s_free_inodes_count p + scast d) p))"

definition ext2_allocate_inode :: "u32 op" where
  "ext2_allocate_inode = bnd (part block_size) (\<lambda>bs. bnd (ext2_operate_on_bg ext2_bg_has_free_inodes) (\<lambda>g.
     if g = - 1 then ret 0
     else bnd (ext2_buffer_for_size bs (ucast bs)) (\<lambda>m. case m of None \<Rightarrow> ret 0 | Some buf \<Rightarrow>
     bnd (lpart (\<lambda>p. bg_inode_bitmap p g)) (\<lambda>bitmap.
     bnd (ext2_read_block bitmap buf) (\<lambda>(r, bits). if r \<noteq> 1 then ret 0
     else case scan_bytes bits 0 of None \<Rightarrow> ret 0 | Some (i, j) \<Rightarrow>
       let ino = of_nat i * 8 + of_nat j + 1 in
       bnd (lft (rbind (rd bits i) (\<lambda>b. wr bits i (b OR push_bit j 1)))) (\<lambda>bits1.
       bnd (ext2_write_block bitmap bits1) (\<lambda>r. if sint r \<le> 0 then ret 0
       else bnd (add_free_inodes g (- 1)) (\<lambda>_. bnd ext2_flush_required (\<lambda>_. ret ino)))))))))"

definition INODE_TYPE_DIR :: u16 where "INODE_TYPE_DIR = 0x4000"

text \<open>The fields of a fresh inode; the owner is 0.\<close>

definition fresh_inode :: "u8 list \<Rightarrow> u16 \<Rightarrow> u32 \<Rightarrow> u32 \<Rightarrow> u8 list result" where
  "fresh_inode n m now generation = (if length n < 116 then Err Fault
     else Ok (bytes16 m @ bytes16 0 @ bytes32 0 @ bytes32 now @ bytes32 now @ bytes32 now @ bytes32 0 @ bytes16 0 @ bytes16 1
       @ bytes32 0 @ bytes32 0 @ bytes32 0 @ replicate 60 0 @ bytes32 generation @ bytes32 0 @ bytes32 0 @ bytes32 0 @ drop 116 n))"

definition ext2_initialize_inode :: "u32 \<Rightarrow> u32 \<Rightarrow> u32 \<Rightarrow> u8 list option op" where
  "ext2_initialize_inode ino kind permissions = bnd (ext2_read_inode ino) (\<lambda>m. case m of None \<Rightarrow> ret None | Some n \<Rightarrow>
     bnd ext2_get_unique_id (\<lambda>u. if u = 0 then ret None
       else bnd (gets epoch) (\<lambda>now. bnd (lft (fresh_inode n (ucast (kind OR permissions)) now u)) (\<lambda>n1. ret (Some n1)))))"

definition inode_bitmap_place :: "partition \<Rightarrow> u32 \<Rightarrow> (u32 \<times> u32) result" where
  "inode_bitmap_place p ino = rbind (udiv (ino - 1) (s_inodes_per_group p)) (\<lambda>g.
     rbind (udiv (block_size p) (sector_size p)) (\<lambda>spb.
     rbind (bg_inode_bitmap p g) (\<lambda>b.
     rbind (udiv (b * block_size p) (sector_size p)) (\<lambda>l. Ok (pt_lba p + l, spb)))))"

definition ext2_read_inode_bitmap :: "u32 \<Rightarrow> u8 list option op" where
  "ext2_read_inode_bitmap ino = bnd (lpart (\<lambda>p. inode_bitmap_place p ino)) (\<lambda>(l, spb). bnd (part id) (\<lambda>p.
     bnd (alloc_mem (unat (block_size p))) (\<lambda>m. case m of None \<Rightarrow> ret None | Some buf \<Rightarrow>
     bnd (disk_in buf l (spb * sector_size p)) (\<lambda>(r, b). ret (if r = 0 then None else Some b)))))"

definition ext2_write_inode_bitmap :: "u32 \<Rightarrow> u8 list \<Rightarrow> u8 op" where
  "ext2_write_inode_bitmap ino bits = bnd (lpart (\<lambda>p. inode_bitmap_place p ino)) (\<lambda>(l, spb).
     bnd (disk_out bits l spb) (\<lambda>r. ret (if r = 0 then 1 else 0)))"

definition clear_inode :: "u8 list \<Rightarrow> u32 \<Rightarrow> u8 list result" where
  "clear_inode n now = rbind (set32 n 20 now) (\<lambda>n. rbind (set16 n 26 0) (\<lambda>n. rbind (set32 n 4 0) (\<lambda>n.
     rbind (set16 n 0 0) (\<lambda>n. set32 n 28 0))))"

text \<open>The code clears the byte, not the bit, with the index of the inode.\<close>

definition ext2_delete_inode :: "u32 \<Rightarrow> u8 op" where
  "ext2_delete_inode ino = bnd (ext2_read_inode ino) (\<lambda>m. case m of None \<Rightarrow> ret 1 | Some n \<Rightarrow>
     bnd (lft (i_mode n)) (\<lambda>original.
     bnd (lpart (\<lambda>p. udiv (ino - 1) (s_inodes_per_group p))) (\<lambda>g.
     bnd (lpart (\<lambda>p. umod (ino - 1) (s_inodes_per_group p))) (\<lambda>idx.
     bnd (gets epoch) (\<lambda>now. bnd (lft (clear_inode n now)) (\<lambda>n1.
     bnd (ext2_write_inode ino n1) (\<lambda>r. if r \<noteq> 0 then ret 1 else
     bnd (ext2_read_inode_bitmap ino) (\<lambda>m. case m of None \<Rightarrow> ret 1 | Some bits \<Rightarrow>
     bnd (lft (wr bits (unat idx) 0)) (\<lambda>bits1.
     bnd (ext2_write_inode_bitmap ino bits1) (\<lambda>r. if r \<noteq> 0 then ret 1 else
     bnd (add_free_inodes g 1) (\<lambda>_.
     bnd (if original AND INODE_TYPE_DIR \<noteq> 0
          then modp (\<lambda>p. rbind (bg_used_dirs_count p g) (\<lambda>c. set_gd16 g 16 (c - 1) p)) else ret ()) (\<lambda>_.
     bnd ext2_flush_required (\<lambda>_. ret 0)))))))))))))"

section \<open>The blocks of a file\<close>

text \<open>The block numbers are stored from position \<open>pos\<close> of the list \<open>out\<close> on; \<open>None\<close> is \<open>EXT2_READ_FAILED\<close>. A level
  stores what the level below finds for each entry, up to an entry that is 0 or \<open>INODE_BLOCK_END\<close>.\<close>

type_synonym loader = "nat \<Rightarrow> u32 list \<Rightarrow> u32 \<Rightarrow> (nat \<times> u32 list) option op"

fun load_entries :: "loader \<Rightarrow> u32 list \<Rightarrow> nat \<Rightarrow> nat \<Rightarrow> u32 list \<Rightarrow> (nat \<times> u32 list) option op" where
  "load_entries f [] n pos out = ret (Some (n, out))"
| "load_entries f (b # bs) n pos out = (if b = 0 \<or> b = 0xFFFFFFFF then ret (Some (n, out))
     else bnd (f (pos + n) out b) (\<lambda>r. case r of None \<Rightarrow> ret None | Some (k, out1) \<Rightarrow> load_entries f bs (n + k) pos out1))"

definition load_level :: "loader \<Rightarrow> loader" where
  "load_level f pos out block = bnd (part block_size) (\<lambda>bs. bnd (alloc_mem (unat bs)) (\<lambda>m. case m of None \<Rightarrow> ret None | Some ib \<Rightarrow>
     bnd (ext2_read_block block ib) (\<lambda>(r, ib1). if r = EXT2_READ_FAILED then ret None
       else load_entries f (words32 ib1) 0 pos out)))"

definition store_entry :: loader where
  "store_entry pos out b = bnd (lft (wr out pos b)) (\<lambda>out1. ret (Some (1, out1)))"

definition ext2_load_indirect_block_list :: loader where
  "ext2_load_indirect_block_list = load_level store_entry"

definition ext2_load_double_indirect_block_list :: loader where
  "ext2_load_double_indirect_block_list = load_level ext2_load_indirect_block_list"

definition ext2_load_triple_indirect_block_list :: loader where
  "ext2_load_triple_indirect_block_list = load_level ext2_load_double_indirect_block_list"

fun load_direct :: "u32 list \<Rightarrow> nat \<Rightarrow> nat \<Rightarrow> u32 list \<Rightarrow> (nat \<times> u32 list) result" where
  "load_direct [] n want out = Ok (n, out)"
| "load_direct (b # bs) n want out = (if want \<le> n then Ok (n, out)
     else if 0 < b then rbind (wr out n b) (\<lambda>out1. load_direct bs (n + 1) want out1)
     else load_direct bs n want out)"

definition load_more :: "loader \<Rightarrow> u32 \<Rightarrow> nat \<Rightarrow> nat \<Rightarrow> u32 list \<Rightarrow> (nat \<times> u32 list) option op" where
  "load_more f block want n out = (if n < want
     then bnd (f n out block) (\<lambda>r. case r of None \<Rightarrow> ret None | Some (k, out1) \<Rightarrow> ret (Some (n + k, out1)))
     else ret (Some (n, out)))"

definition ext2_load_block_list :: "u32 \<Rightarrow> u32 list option op" where
  "ext2_load_block_list ino = bnd (ext2_read_inode ino) (\<lambda>m. case m of None \<Rightarrow> ret None | Some inode \<Rightarrow>
     bnd (lft (i_size inode)) (\<lambda>size. bnd (part block_size) (\<lambda>bs.
     bnd (lft (DIVIDE_ROUNDED_UP size bs)) (\<lambda>number.
     bnd (alloc_mem (unat (number * 4))) (\<lambda>m. case m of None \<Rightarrow> ret None | Some mem \<Rightarrow>
     let want = unat number; bl = i_blocks inode in
     bnd (lft (if length bl < 15 then Err Fault else load_direct (take 12 bl) 0 want (words32 mem))) (\<lambda>(n, out).
     bnd (load_more ext2_load_indirect_block_list (bl ! 12) want n out) (\<lambda>r. case r of None \<Rightarrow> ret None | Some (n, out) \<Rightarrow>
     bnd (load_more ext2_load_double_indirect_block_list (bl ! 13) want n out) (\<lambda>r. case r of None \<Rightarrow> ret None | Some (n, out) \<Rightarrow>
     bnd (load_more ext2_load_triple_indirect_block_list (bl ! 14) want n out) (\<lambda>r. case r of None \<Rightarrow> ret None | Some (n, out) \<Rightarrow>
       ret (if n = want then Some out else None))))))))))"

definition ext2_delete_file_blocks :: "u32 \<Rightarrow> u8 op" where
  "ext2_delete_file_blocks ino = bnd (ext2_read_inode ino) (\<lambda>m. case m of None \<Rightarrow> ret 1 | Some inode \<Rightarrow>
     bnd (ext2_load_block_list ino) (\<lambda>l. case l of None \<Rightarrow> ret 1 | Some blocks \<Rightarrow>
     bnd (lft (i_size inode)) (\<lambda>size. bnd (part block_size) (\<lambda>bs.
     bnd (lft (DIVIDE_ROUNDED_UP size bs)) (\<lambda>number.
     bnd (ext2_deallocate_blocks blocks number) (\<lambda>r. ret (if r \<noteq> number then 1 else 0)))))))"

definition ext2_delete_n_blocks :: "u32 \<Rightarrow> u32 \<Rightarrow> u8 op" where
  "ext2_delete_n_blocks ino number = bnd (ext2_read_inode ino) (\<lambda>m. case m of None \<Rightarrow> ret 1 | Some inode \<Rightarrow>
     bnd (ext2_load_block_list ino) (\<lambda>l. case l of None \<Rightarrow> ret 1 | Some blocks \<Rightarrow>
     bnd (ext2_deallocate_blocks blocks number) (\<lambda>r. ret (if r \<noteq> number then 1 else 0))))"

section \<open>Directory entries and paths\<close>

text \<open>The fields of the entry at an offset of a buffer.\<close>

definition de_inode :: "u8 list \<Rightarrow> u32 \<Rightarrow> u32 result" where "de_inode buf off = get32 buf (unat off)"
definition de_rec_len :: "u8 list \<Rightarrow> u32 \<Rightarrow> u16 result" where "de_rec_len buf off = get16 buf (unat off + 4)"
definition de_name_len :: "u8 list \<Rightarrow> u32 \<Rightarrow> u8 result" where "de_name_len buf off = rd buf (unat off + 6)"
definition de_name :: "u8 list \<Rightarrow> u32 \<Rightarrow> u8 list" where "de_name buf off = drop (unat off + 8) buf"

text \<open>The loops over the entries of a directory: the first entry with property \<open>P\<close> and the one before it. \<open>k\<close> bounds
  the entries visited; reaching it ends the loops that count and is a loop that never ends for the others.\<close>

fun find_entry :: "bool \<Rightarrow> nat \<Rightarrow> u8 list \<Rightarrow> u32 \<Rightarrow> u32 \<Rightarrow> u32 option \<Rightarrow> (u32 \<Rightarrow> bool result) \<Rightarrow> (u32 option \<times> u32 option) result" where
  "find_entry capped 0 buf sz off prev P = (if \<not> off < sz \<or> capped then Ok (None, prev) else Err Diverge)"
| "find_entry capped (Suc k) buf sz off prev P = (if \<not> off < sz then Ok (None, prev)
     else rbind (P off) (\<lambda>b. if b then Ok (Some off, prev)
       else rbind (de_rec_len buf off) (\<lambda>l. find_entry capped k buf sz (off + ucast l) (Some off) P)))"

definition entry_named :: "u8 list \<Rightarrow> u8 list \<Rightarrow> u32 \<Rightarrow> bool result" where
  "entry_named buf name off = rbind (de_name_len buf off) (\<lambda>n. rbind (strncmp (de_name buf off) name (unat n)) (\<lambda>r. Ok (r = 0)))"

abbreviation "EXT2_INO_PAP_NOTFOUND \<equiv> (- 1 :: u32)"
abbreviation "EXT2_INO_PAP_ERROR \<equiv> (- 2 :: u32)"

definition ext2_inode_from_path_and_parent :: "u32 \<Rightarrow> u8 list \<Rightarrow> u32 op" where
  "ext2_inode_from_path_and_parent parent name = bnd (part block_size) (\<lambda>bs. bnd (ext2_read_inode parent) (\<lambda>m. case m of
     None \<Rightarrow> ret EXT2_INO_PAP_ERROR | Some inode \<Rightarrow>
     bnd (lft (i_mode inode)) (\<lambda>m. bnd (lft (i_size inode)) (\<lambda>size.
       if m AND INODE_TYPE_DIR = 0 then ret EXT2_INO_PAP_NOTFOUND
       else bnd (ext2_read_inode_bytes parent (replicate (unat (size + bs)) 0) (ucast size) 0) (\<lambda>(r, buf).
         if r = EXT2_READ_FAILED then ret EXT2_INO_PAP_ERROR
         else bnd (lft (find_entry False (unat size) buf size 0 None (entry_named buf name))) (\<lambda>(f, _). case f of
           None \<Rightarrow> ret EXT2_INO_PAP_NOTFOUND | Some off \<Rightarrow> lft (de_inode buf off)))))))"

text \<open>The loop over the tokens of the path; \<open>tok\<close> is the state of \<open>strtok\<close>, \<open>t\<close> the current token.\<close>

fun path_loop :: "nat \<Rightarrow> u8 list \<Rightarrow> nat option \<Rightarrow> nat option \<Rightarrow> u32 \<Rightarrow> u32 op" where
  "path_loop k copy tok None ino = (if ino = 0 then lft (Err (Panic ''Inode Zer0'')) else ret ino)"
| "path_loop 0 copy tok (Some t) ino = lft (Err Diverge)"
| "path_loop (Suc k) copy tok (Some t) ino = bnd (ext2_inode_from_path_and_parent ino (drop t copy)) (\<lambda>r.
     if r = EXT2_INO_PAP_ERROR \<or> r = EXT2_INO_PAP_NOTFOUND then ret 0
     else bnd (lft (strtok False tok copy [47, 0])) (\<lambda>(t1, copy1, tok1). path_loop k copy1 tok1 t1 r))"

definition ext2_path_to_inode :: "u8 list \<Rightarrow> u32 op" where
  "ext2_path_to_inode path = bnd (lft (strlen path)) (\<lambda>n.
     bnd (lft (strncpy (replicate (n + 1) 0) path (n + 1))) (\<lambda>copy.
     bnd (lft (strtok True None copy [47, 0])) (\<lambda>(t, copy1, tok). path_loop (n + 1) copy1 tok t 2)))"

text \<open>The parent directory and the name of a path; both are null-terminated objects of their own.\<close>

definition ext2_path_to_parent_and_name :: "u8 list \<Rightarrow> (u8 list \<times> u8 list) option result" where
  "ext2_path_to_parent_and_name source = rbind (strlen source) (\<lambda>n. if n = 0 then Ok None
     else (let slash = foldl (\<lambda>l i. if source ! i = 47 then i else l) 0 [0..<n] in
       if slash = 0 then (if length source < n + 2 then Err Fault else Ok (Some ([47, 0], take (n + 1) (drop 1 source))))
       else if length source < n + 1 then Err Fault
       else Ok (Some (take slash source @ [0], take (n - slash) (drop (slash + 1) source)))))"

end
