(* ===== verification/Ext2Dentry.thy ===== *)
theory Ext2Dentry
  imports Ext2Inode
begin

text \<open>Directories (\<open>vfs/generic/ext2/ext2_dentry.c\<close>): finding, listing, deleting and creating the entries of a
  directory, which are the variable-length records of its contents. 0 is success for the functions that give a
  byte.\<close>

abbreviation "LIST_MAX \<equiv> (16 :: nat)"
abbreviation "EXT2_NAME_LEN \<equiv> (255 :: nat)"
abbreviation "DENTRY_SIZE \<equiv> (263 :: nat)"
abbreviation "DENTRY_HEADER \<equiv> (8 :: nat)"

section \<open>Reading a directory\<close>

text \<open>The contents of the directory with inode \<open>ino\<close> in a buffer one block longer; \<open>None\<close> when it cannot be read
  and \<open>Some None\<close> when it is no directory.\<close>

definition load_directory :: "u32 \<Rightarrow> (u8 list \<times> u32) option option op" where
  "load_directory ino = bnd (part block_size) (\<lambda>bs. bnd (ext2_read_inode ino) (\<lambda>m. case m of None \<Rightarrow> ret None | Some inode \<Rightarrow>
     bnd (lft (i_mode inode)) (\<lambda>md. if md AND INODE_TYPE_DIR = 0 then ret (Some None) else
     bnd (lft (i_size inode)) (\<lambda>size.
     bnd (alloc_mem (unat (size + bs))) (\<lambda>m. case m of None \<Rightarrow> ret None | Some mem \<Rightarrow>
     bnd (ext2_read_inode_bytes ino mem (ucast size) 0) (\<lambda>(r, buf).
       ret (if r = EXT2_READ_FAILED then None else Some (Some (buf, size)))))))))"

definition live_named :: "u8 list \<Rightarrow> u8 list \<Rightarrow> u32 \<Rightarrow> bool result" where
  "live_named buf name off = rbind (de_inode buf off) (\<lambda>i. if i \<noteq> 0 then entry_named buf name off else Ok False)"

text \<open>The code means to give the entry to the caller, but the name of the parameter is hidden by a local variable:
  the caller's entry is not written.\<close>

definition ext2_dentry_get_dentry :: "u8 list \<Rightarrow> u8 list \<Rightarrow> u8 op" where
  "ext2_dentry_get_dentry parent_path name = bnd (ext2_path_to_inode parent_path) (\<lambda>ino. if ino = 0 then ret 1 else
     bnd (load_directory ino) (\<lambda>d. case d of Some (Some (buf, sz)) \<Rightarrow>
         bnd (lft (find_entry True LIST_MAX buf sz 0 None (live_named buf name))) (\<lambda>(f, _). ret (if f = None then 1 else 0))
       | _ \<Rightarrow> ret 1))"

text \<open>The entries with an inode: their offsets.\<close>

fun live_entries :: "nat \<Rightarrow> u8 list \<Rightarrow> u32 \<Rightarrow> u32 \<Rightarrow> u32 list result" where
  "live_entries 0 buf sz off = (if off < sz then Err Diverge else Ok [])"
| "live_entries (Suc k) buf sz off = (if \<not> off < sz then Ok []
     else rbind (de_inode buf off) (\<lambda>i. rbind (de_rec_len buf off) (\<lambda>l.
       rbind (live_entries k buf sz (off + ucast l)) (\<lambda>r. Ok (if i \<noteq> 0 then off # r else r)))))"

definition dentry_at :: "u8 list \<Rightarrow> u32 \<Rightarrow> u8 list result" where
  "dentry_at buf off = (if length buf < unat off + DENTRY_SIZE then Err Fault
     else Ok (take DENTRY_SIZE (drop (unat off) buf)))"

fun rmap :: "('a \<Rightarrow> 'b result) \<Rightarrow> 'a list \<Rightarrow> 'b list result" where
  "rmap f [] = Ok []"
| "rmap f (x # xs) = rbind (f x) (\<lambda>y. rbind (rmap f xs) (\<lambda>ys. Ok (y # ys)))"

text \<open>The copies of the entries, as many as the code counts.\<close>

definition ext2_get_all_dirs :: "u8 list \<Rightarrow> u8 list list op" where
  "ext2_get_all_dirs path = bnd (ext2_path_to_inode path) (\<lambda>ino. if ino = 0 then ret [] else
     bnd (load_directory ino) (\<lambda>d. case d of Some (Some (buf, sz)) \<Rightarrow>
         bnd (lft (live_entries (unat sz) buf sz 0)) (\<lambda>offs. lft (rmap (dentry_at buf) offs))
       | _ \<Rightarrow> ret []))"

fun operate_entries :: "(u32 \<Rightarrow> u8 op) \<Rightarrow> nat \<Rightarrow> u8 list \<Rightarrow> u32 \<Rightarrow> u32 \<Rightarrow> u8 op" where
  "operate_entries callback 0 buf sz off = (if off < sz then lft (Err Diverge) else ret 0)"
| "operate_entries callback (Suc k) buf sz off = (if \<not> off < sz then ret 0
     else bnd (lft (de_inode buf off)) (\<lambda>i. bnd (callback i) (\<lambda>r. if r \<noteq> 0 then ret 1
       else bnd (lft (de_rec_len buf off)) (\<lambda>l. operate_entries callback k buf sz (off + ucast l)))))"

definition ext2_operate_on_dentry :: "u8 list \<Rightarrow> (u32 \<Rightarrow> u8 op) \<Rightarrow> u8 op" where
  "ext2_operate_on_dentry path callback = bnd (ext2_path_to_inode path) (\<lambda>ino. if ino = 0 then ret 0 else
     bnd (load_directory ino) (\<lambda>d. case d of Some (Some (buf, sz)) \<Rightarrow> operate_entries callback (unat sz) buf sz 0
       | _ \<Rightarrow> ret 0))"

section \<open>Deleting an entry\<close>

definition erase_entry :: "u8 list \<Rightarrow> u32 \<Rightarrow> u32 option \<Rightarrow> u8 list result" where
  "erase_entry buf off prev = rbind (set32 buf (unat off) 0) (\<lambda>b. rbind (wr b (unat off + 6) 0) (\<lambda>b.
     rbind (wr b (unat off + 7) 0) (\<lambda>b. rbind (wr b (unat off + 8) 0) (\<lambda>b. rbind (de_rec_len b off) (\<lambda>l.
     rbind (case prev of None \<Rightarrow> Ok b
       | Some q \<Rightarrow> rbind (de_rec_len b q) (\<lambda>k. set16 b (unat q + 4) (k + l))) (\<lambda>b.
     set16 b (unat off + 4) 0))))))"

definition ext2_delete_dentry :: "u8 list \<Rightarrow> u8 op" where
  "ext2_delete_dentry path = bnd (lft (ext2_path_to_parent_and_name path)) (\<lambda>s. case s of None \<Rightarrow> ret 1 | Some (parent_path, name) \<Rightarrow>
     bnd (ext2_path_to_inode parent_path) (\<lambda>parent. if parent = 0 then ret 1 else
     bnd (ext2_read_inode parent) (\<lambda>m. case m of None \<Rightarrow> ret 1 | Some inode \<Rightarrow>
     bnd (ext2_path_to_inode path) (\<lambda>target. if target = 0 then ret 1 else
     bnd (load_directory parent) (\<lambda>d. case d of None \<Rightarrow> ret 1 | Some None \<Rightarrow> ret 1
       | Some (Some (buf, sz)) \<Rightarrow>
         bnd (lft (find_entry False (unat sz) buf sz 0 None (\<lambda>off. rbind (de_inode buf off) (\<lambda>i. Ok (i = target))))) (\<lambda>(f, prev).
           case f of None \<Rightarrow> ret 1 | Some off \<Rightarrow>
           bnd (lft (erase_entry buf off prev)) (\<lambda>buf1.
           bnd (ext2_write_inode_bytes parent buf1 (ucast sz) 0) (\<lambda>r.
             ret (if r = EXT2_WRITE_FAILED then 1 else 0)))))))))"

section \<open>Creating entries\<close>

definition entry_size :: "u8 \<Rightarrow> u32" where "entry_size name_len = 263 + ucast name_len - 255"
definition align4 :: "u32 \<Rightarrow> u32" where "align4 n = (n + 3) AND NOT 3"

definition entry_bytes :: "u32 \<Rightarrow> u16 \<Rightarrow> u8 \<Rightarrow> u8 \<Rightarrow> u8 list" where
  "entry_bytes ino rec_len name_len kind = bytes32 ino @ bytes16 rec_len @ [name_len, kind]"

text \<open>The entries \<open>.\<close> and \<open>..\<close> of a new directory.\<close>

definition ext2_initialize_directory :: "u32 \<Rightarrow> u32 \<Rightarrow> u8 op" where
  "ext2_initialize_directory ino parent = bnd (ext2_read_inode ino) (\<lambda>m. case m of None \<Rightarrow> ret 1 | Some inode \<Rightarrow>
     bnd (part block_size) (\<lambda>bs. if bs = 0 then ret 1 else
     bnd (lft (i_size inode)) (\<lambda>size.
     let l1 = ucast (align4 (entry_size 1)) :: u16; l2 = 1024 - l1 in
     bnd (ext2_read_inode_bytes ino (replicate (unat bs) 0) (ucast size) 0) (\<lambda>(r, buf). if r = EXT2_READ_FAILED then ret 1 else
     bnd (lft (put_bytes buf 0 (entry_bytes ino l1 1 2 @ [46]))) (\<lambda>buf.
     bnd (lft (put_bytes buf (unat l1) (entry_bytes parent l2 2 2 @ [46, 46]))) (\<lambda>buf.
     bnd (ext2_write_inode_bytes ino buf (ucast size) 0) (\<lambda>r. ret (if r = EXT2_WRITE_FAILED then 1 else 0))))))))"

text \<open>The offset of the last entry and the offset behind it.\<close>

fun last_entry :: "nat \<Rightarrow> u8 list \<Rightarrow> u32 \<Rightarrow> u32 \<Rightarrow> u32 option \<Rightarrow> (u32 option \<times> u32) result" where
  "last_entry 0 buf sz off lst = (if off < sz then Err Diverge else Ok (lst, off))"
| "last_entry (Suc k) buf sz off lst = (if \<not> off < sz then Ok (lst, off)
     else rbind (de_rec_len buf off) (\<lambda>l. last_entry k buf sz (off + ucast l) (Some off)))"

text \<open>The new entry takes the space behind the name of the last one. \<open>None\<close> when there is no entry or no
  space.\<close>

definition insert_entry :: "u8 list \<Rightarrow> u32 \<Rightarrow> u32 \<Rightarrow> u8 list \<Rightarrow> u8 \<Rightarrow> u32 \<Rightarrow> u8 list option result" where
  "insert_entry buf sz child name name_len kind = rbind (last_entry (unat sz) buf sz 0 None) (\<lambda>(l, stop). case l of None \<Rightarrow> Ok None
     | Some off \<Rightarrow> rbind (de_name_len buf off) (\<lambda>nl. rbind (de_rec_len buf off) (\<lambda>old.
       let aligned = align4 (entry_size nl); need = ucast (align4 (entry_size name_len)) :: u16 in
       if ucast old < aligned + ucast need then Ok None
       else let at = unat (stop - ucast old + aligned) in
         rbind (set16 buf (unat off + 4) (ucast aligned)) (\<lambda>b.
         rbind (if length b < unat (stop - ucast old) + unat (entry_size nl) then Err Fault else Ok ()) (\<lambda>_.
         rbind (put_bytes b at (entry_bytes child (old - ucast aligned) name_len (ucast kind))) (\<lambda>b.
         rbind (if length name < unat name_len then Err Fault else put_bytes b (at + DENTRY_HEADER) (take (unat name_len) name)) (\<lambda>b.
           Ok (Some b))))))))"

definition ext2_create_directory_entry :: "u32 \<Rightarrow> u32 \<Rightarrow> u8 list \<Rightarrow> u32 \<Rightarrow> u8 op" where
  "ext2_create_directory_entry ino child name kind = bnd (ext2_read_inode ino) (\<lambda>m. case m of None \<Rightarrow> ret 1 | Some inode \<Rightarrow>
     bnd (lft (strlen name)) (\<lambda>n. bnd (lft (i_mode inode)) (\<lambda>md. if md AND INODE_TYPE_DIR = 0 then ret 1 else
     bnd (lft (i_size inode)) (\<lambda>size.
     bnd (alloc_mem (unat size)) (\<lambda>m. case m of None \<Rightarrow> ret 1 | Some mem \<Rightarrow>
     bnd (ext2_read_inode_bytes ino mem (ucast size) 0) (\<lambda>(r, buf). if r = EXT2_READ_FAILED then ret 1 else
     bnd (lft (insert_entry buf size child name (of_nat n) kind)) (\<lambda>b. case b of None \<Rightarrow> ret 1 | Some buf1 \<Rightarrow>
     bnd (ext2_write_inode_bytes ino buf1 (ucast size) 0) (\<lambda>r. ret (if r = EXT2_WRITE_FAILED then 1 else 0)))))))))"

end
