(* ===== verification/Ext2File.thy ===== *)
theory Ext2File
  imports Ext2Dentry
begin

text \<open>The operations on files (\<open>vfs/generic/ext2/ext2.c\<close>): creating, resizing, reading, writing and deleting them by
  path, and the table of partitions (\<open>ext2_partition.c\<close>) with the flushing of \<open>ext2_integrity.c\<close>. 1 is success for
  the former.\<close>

abbreviation "EXT2_RESULT_ERROR \<equiv> (0 :: u8)"
abbreviation "EXT2_RESULT_OK \<equiv> (1 :: u8)"
abbreviation "EXT2_FILE_TYPE_DIRECTORY \<equiv> (2 :: u32)"

section \<open>File types and paths\<close>

definition file_type_translator :: "(u32 \<times> u32) list" where
  "file_type_translator = [(0, 0), (1, 0x8000), (2, 0x4000), (3, 0x2000), (4, 0x6000), (5, 0x1000), (6, 0xC000), (7, 0xA000)]"

definition is_directory :: "u8 list \<Rightarrow> bool result" where
  "is_directory dentry = rbind (rd dentry 7) (\<lambda>t. Ok (t = 2))"

definition is_regular_file :: "u8 list \<Rightarrow> bool result" where
  "is_regular_file dentry = rbind (rd dentry 7) (\<lambda>t. Ok (t = 1))"

definition split_into_path_and_name :: "u8 list \<Rightarrow> u8 list \<Rightarrow> u8 list \<Rightarrow> (u8 list \<times> u8 list) option result" where
  "split_into_path_and_name full parent name = rbind (strlen full) (\<lambda>n. if n = 0 then Ok None
     else rbind (strrchr full 47) (\<lambda>sep. case sep of
       None \<Rightarrow> rbind (strcpy parent [0]) (\<lambda>p. rbind (strcpy name full) (\<lambda>m. Ok (Some (p, m))))
     | Some i \<Rightarrow> (let len = (if i = 0 then 1 else i) in
         rbind (strncpy parent full len) (\<lambda>p. rbind (wr p len 0) (\<lambda>p.
         rbind (strcpy name (drop (i + 1) full)) (\<lambda>m. Ok (Some (p, m))))))))"

section \<open>Looking at files\<close>

definition ext2_sync :: "u8 op" where
  "ext2_sync = bnd ext2_flush_partition (\<lambda>_. ret EXT2_RESULT_OK)"

definition ext2_get_file_size :: "u8 list \<Rightarrow> u64 op" where
  "ext2_get_file_size path = bnd (ext2_path_to_inode path) (\<lambda>ino. if ino = 0 then ret 0 else
     bnd (ext2_read_inode ino) (\<lambda>m. case m of None \<Rightarrow> ret 0 | Some inode \<Rightarrow>
     bnd (lft (i_size inode)) (\<lambda>size. ret (ucast size))))"

definition ext2_get_inode_index :: "u8 list \<Rightarrow> u32 op" where
  "ext2_get_inode_index path = bnd (ext2_path_to_inode path) (\<lambda>ino. if ino = 0 then ret 0 else
     bnd (ext2_read_inode ino) (\<lambda>m. ret (if m = None then 0 else ino)))"

definition ext2_get_file_permissions :: "u8 list \<Rightarrow> u16 op" where
  "ext2_get_file_permissions path = bnd (ext2_path_to_inode path) (\<lambda>ino. if ino = 0 then ret 0 else
     bnd (ext2_read_inode ino) (\<lambda>m. case m of None \<Rightarrow> lft (Err Fault) | Some inode \<Rightarrow>
     bnd (lft (i_mode inode)) (\<lambda>md. ret (if md AND INODE_TYPE_DIR \<noteq> 0 then 0 else md AND 0x1FF))))"

definition ext2_get_dentry :: "u8 list \<Rightarrow> u8 op" where
  "ext2_get_dentry path = bnd (lft (strlen path)) (\<lambda>n. bnd (alloc_mem (n + 1)) (\<lambda>m. case m of None \<Rightarrow> lft (Err Fault) | Some mem \<Rightarrow>
     bnd (lft (split_into_path_and_name path mem mem)) (\<lambda>s. case s of None \<Rightarrow> ret EXT2_RESULT_ERROR | Some (parent_path, name) \<Rightarrow>
     bnd (ext2_dentry_get_dentry parent_path name) (\<lambda>r. ret (if r \<noteq> 0 then EXT2_RESULT_ERROR else EXT2_RESULT_OK)))))"

text \<open>The listing walks at most 16 entries and prints them.\<close>

definition ext2_list_dentry :: "u8 list \<Rightarrow> unit op" where
  "ext2_list_dentry path = bnd (ext2_path_to_inode path) (\<lambda>ino. if ino = 0 then ret () else
     bnd (load_directory ino) (\<lambda>d. case d of Some (Some (buf, sz)) \<Rightarrow>
         bnd (lft (find_entry True LIST_MAX buf sz 0 None (\<lambda>off. rbind (de_inode buf off) (\<lambda>_. Ok False)))) (\<lambda>_. ret ())
       | _ \<Rightarrow> ret ()))"

section \<open>Resizing\<close>

definition ext2_resize_file :: "u32 \<Rightarrow> u32 \<Rightarrow> u8 op" where
  "ext2_resize_file ino new_size = bnd (ext2_read_inode ino) (\<lambda>m. case m of None \<Rightarrow> ret EXT2_RESULT_ERROR | Some inode \<Rightarrow>
     bnd (part block_size) (\<lambda>bs. bnd (part sector_size) (\<lambda>ss. bnd (lft (i_size inode)) (\<lambda>size.
     if size = new_size then ret EXT2_RESULT_OK else
     bnd (if new_size < size
          then bnd (lft (udiv (size - new_size) bs)) (\<lambda>n. bnd (ext2_load_block_list ino) (\<lambda>l. case l of None \<Rightarrow> ret None
            | Some blocks \<Rightarrow> bnd (ext2_deallocate_blocks blocks n) (\<lambda>r. ret (if r \<noteq> n then None else Some inode))))
          else bnd (lft (udiv (new_size - size) bs)) (\<lambda>q. bnd (lft (umod (new_size - size) bs)) (\<lambda>r.
            bnd (ext2_allocate_blocks inode (if r \<noteq> 0 then q + 1 else q)) (\<lambda>(f, inode1). ret (if f \<noteq> 0 then None else Some inode1)))))
       (\<lambda>i. case i of None \<Rightarrow> ret EXT2_RESULT_ERROR | Some inode1 \<Rightarrow>
     bnd (lft (DIVIDE_ROUNDED_UP new_size ss)) (\<lambda>sectors.
     bnd (lft (rbind (set32 inode1 4 new_size) (\<lambda>n. set32 n 28 sectors))) (\<lambda>inode2.
     bnd (ext2_write_inode ino inode2) (\<lambda>r. if r \<noteq> 0 then ret EXT2_RESULT_ERROR else
     bnd ext2_flush_partition (\<lambda>_. ret EXT2_RESULT_OK)))))))))"

section \<open>Creating and deleting\<close>

definition ext2_create_file :: "u8 list \<Rightarrow> u32 \<Rightarrow> u32 \<Rightarrow> u8 op" where
  "ext2_create_file path kind permissions = bnd (part block_size) (\<lambda>bs.
     bnd (lft (rd file_type_translator (unat kind))) (\<lambda>(native, inode_type).
     bnd (lft (ext2_path_to_parent_and_name path)) (\<lambda>s. case s of None \<Rightarrow> ret EXT2_RESULT_ERROR | Some (parent_path, name) \<Rightarrow>
     bnd (ext2_path_to_inode parent_path) (\<lambda>parent. if parent = 0 then ret EXT2_RESULT_ERROR else
     bnd (ext2_read_inode parent) (\<lambda>m. case m of None \<Rightarrow> lft (Err Fault) | Some parent_inode \<Rightarrow>
     bnd (lft (i_mode parent_inode)) (\<lambda>md. if md AND INODE_TYPE_DIR = 0 then ret EXT2_RESULT_ERROR else
     bnd ext2_allocate_inode (\<lambda>ino. if ino = 0 then ret EXT2_RESULT_ERROR else
     bnd (ext2_initialize_inode ino inode_type permissions) (\<lambda>m. case m of None \<Rightarrow> lft (Err Fault) | Some inode \<Rightarrow>
     bnd (ext2_write_inode ino inode) (\<lambda>r. if r \<noteq> 0 then ret EXT2_RESULT_ERROR else
     bnd (if kind = EXT2_FILE_TYPE_DIRECTORY
          then bnd (ext2_resize_file ino bs) (\<lambda>r. if r \<noteq> EXT2_RESULT_OK then ret False
            else bnd ext2_flush_partition (\<lambda>_. bnd (ext2_initialize_directory ino parent) (\<lambda>r. ret (r = 0))))
          else ret True) (\<lambda>ok. if \<not> ok then ret EXT2_RESULT_ERROR else
     bnd (ext2_create_directory_entry parent ino name native) (\<lambda>r. if r \<noteq> 0 then ret EXT2_RESULT_ERROR else
     bnd (ext2_list_dentry path) (\<lambda>_. ret EXT2_RESULT_OK))))))))))))"

definition ext2_delete_file :: "u8 list \<Rightarrow> u8 op" where
  "ext2_delete_file path = bnd (ext2_path_to_inode path) (\<lambda>ino. if ino = 0 then ret EXT2_RESULT_ERROR else
     bnd (ext2_delete_file_blocks ino) (\<lambda>r. if r \<noteq> 0 then ret EXT2_RESULT_ERROR else
     bnd (ext2_delete_inode ino) (\<lambda>r. if r \<noteq> 0 then ret EXT2_RESULT_ERROR else
     bnd (ext2_delete_dentry path) (\<lambda>r. if r \<noteq> 0 then ret EXT2_RESULT_ERROR else
     bnd ext2_flush_partition (\<lambda>_. ret EXT2_RESULT_OK)))))"

section \<open>Reading and writing\<close>

definition ext2_read_file :: "u8 list \<Rightarrow> u8 list \<Rightarrow> u64 \<Rightarrow> u64 \<Rightarrow> (u8 \<times> u8 list) op" where
  "ext2_read_file path buf n skip = bnd (ext2_path_to_inode path) (\<lambda>ino. if ino = 0 then ret (EXT2_RESULT_ERROR, buf) else
     bnd (ext2_read_inode ino) (\<lambda>m. case m of None \<Rightarrow> lft (Err Fault) | Some inode \<Rightarrow>
     bnd (lft (i_mode inode)) (\<lambda>md. if md AND INODE_TYPE_DIR \<noteq> 0 then ret (EXT2_RESULT_ERROR, buf) else
     bnd (lft (i_size inode)) (\<lambda>size. if ucast size < skip + n then ret (EXT2_RESULT_ERROR, buf) else
     bnd (ext2_read_inode_bytes ino buf n skip) (\<lambda>(r, buf1).
       ret (if r = EXT2_READ_FAILED \<or> sint r \<le> 0 then EXT2_RESULT_ERROR else EXT2_RESULT_OK, buf1))))))"

definition ext2_write_file :: "u8 list \<Rightarrow> u8 list \<Rightarrow> u64 \<Rightarrow> u64 \<Rightarrow> u8 op" where
  "ext2_write_file path buf n skip = bnd (ext2_path_to_inode path) (\<lambda>ino. if ino = 0 then ret EXT2_RESULT_ERROR else
     bnd (ext2_path_to_inode path) (\<lambda>ino. if ino = 0 then ret EXT2_RESULT_ERROR else
     bnd (ext2_read_inode ino) (\<lambda>m. case m of None \<Rightarrow> lft (Err Fault) | Some inode \<Rightarrow>
     bnd (lft (i_mode inode)) (\<lambda>md. if md AND INODE_TYPE_DIR \<noteq> 0 then ret EXT2_RESULT_ERROR else
     bnd (lft (i_size inode)) (\<lambda>size.
     bnd (if ucast size < n + skip then ext2_resize_file ino (ucast (n + skip)) else ret EXT2_RESULT_OK) (\<lambda>f.
     if f \<noteq> EXT2_RESULT_OK then ret EXT2_RESULT_ERROR else
     bnd (ext2_write_inode_bytes ino buf n skip) (\<lambda>r.
       ret (if r = EXT2_WRITE_FAILED \<or> sint r \<le> 0 then EXT2_RESULT_ERROR else EXT2_RESULT_OK))))))))"

section \<open>Partitions\<close>

text \<open>The driver's state: \<open>fs\<close> with the list of all partitions in place of one.\<close>

record esys =
  xdev :: dsys
  xparts :: "partition list"
  xjunk :: "nat \<Rightarrow> u8"
  xunique :: u32
  xepoch :: u32

definition on_part :: "nat \<Rightarrow> 'a op \<Rightarrow> esys \<Rightarrow> ('a \<times> esys) result" where
  "on_part i f x = rbind (rd (xparts x) i) (\<lambda>p.
     rbind (f \<lparr>fdev = xdev x, fpart = p, junk = xjunk x, unique_id = xunique x, epoch = xepoch x\<rparr>) (\<lambda>(r, s).
       Ok (r, x\<lparr>xdev := fdev s, xparts := (xparts x)[i := fpart s], xunique := unique_id s\<rparr>)))"

abbreviation "EXT2_SUPER_MAGIC \<equiv> (0xEF53 :: u16)"
abbreviation "SB_OFFSET_LBA \<equiv> (2 :: u32)"

definition ext2_disk_from_partition :: "u8 list \<Rightarrow> u8 list \<Rightarrow> u8 list result" where
  "ext2_disk_from_partition dest name = rbind (strlen name) (\<lambda>n.
     case find (\<lambda>i. name ! i = 112) (rev [0..<n]) of None \<Rightarrow> Ok dest
     | Some i \<Rightarrow> rbind (memcpy dest name i) (\<lambda>d. wr d i 0))"

definition ext2_check_status :: "u8 list \<Rightarrow> esys \<Rightarrow> (u8 \<times> esys) result" where
  "ext2_check_status disk x = rbind (get_disk_status (xdev x) disk) (\<lambda>st. if st = 1 then Ok (1, x)
     else rbind (init_disk (xdev x) disk) (\<lambda>(r, d). let x1 = x\<lparr>xdev := d\<rparr> in if r \<noteq> 0 then Ok (0, x1)
     else rbind (get_disk_status d disk) (\<lambda>st. Ok (if st = 1 then 1 else 0, x1))))"

definition get_partition :: "u8 list \<Rightarrow> partition list \<Rightarrow> partition option result" where
  "get_partition partno ps = foldr (\<lambda>p r. rbind (strcmp (pt_name p) partno) (\<lambda>c. if c = 0 then Ok (Some p) else r)) ps (Ok None)"

definition ext2_partition_count_partitions :: "esys \<Rightarrow> u32" where
  "ext2_partition_count_partitions x = of_nat (length (xparts x))"

definition ext2_partition_get_partition_by_index :: "esys \<Rightarrow> u32 \<Rightarrow> nat option" where
  "ext2_partition_get_partition_by_index x i = (if unat i < length (xparts x) then Some (unat i) else None)"

definition ext2_partition_search :: "u8 list \<Rightarrow> u32 \<Rightarrow> esys \<Rightarrow> (u8 \<times> esys) result" where
  "ext2_partition_search name lba x = rbind (read_disk (xdev x) name (map (xjunk x) [0..<1024]) (lba + 2) 1024) (\<lambda>(r, b, d).
     if r = 0 then Ok (0, x\<lparr>xdev := d\<rparr>)
     else rbind (get16 b 56) (\<lambda>m. Ok (if m = EXT2_SUPER_MAGIC then 1 else 0, x\<lparr>xdev := d\<rparr>)))"

definition ext2_partition_unregister_partition :: "nat \<Rightarrow> esys \<Rightarrow> (u8 \<times> esys) result" where
  "ext2_partition_unregister_partition i x = Ok (0, x)"

text \<open>The superblocks of the groups: the groups that have one are noted in an array of 64.\<close>

fun find_backups :: "nat \<Rightarrow> u32 \<Rightarrow> u8 list \<Rightarrow> u32 \<Rightarrow> u32 \<Rightarrow> nat \<Rightarrow> u32 list \<Rightarrow> esys \<Rightarrow> ((nat \<times> u32 list) option \<times> esys) result" where
  "find_backups 0 i disk lba spg n bgs x = Ok (Some (n, bgs), x)"
| "find_backups (Suc k) i disk lba spg n bgs x =
     rbind (read_disk (xdev x) disk (map (xjunk x) [0..<1024]) (lba + i * spg + SB_OFFSET_LBA) 1024) (\<lambda>(r, b, d).
     let x1 = x\<lparr>xdev := d\<rparr> in
     if r = 0 then Ok (None, x1)
     else rbind (get16 b 56) (\<lambda>m. if m = EXT2_SUPER_MAGIC
       then rbind (wr bgs n i) (\<lambda>bgs1. find_backups k (i + 1) disk lba spg (n + 1) bgs1 x1)
       else find_backups k (i + 1) disk lba spg n bgs x1))"

text \<open>\<open>snprintf(dest, 32, "%s", src)\<close> on 32 fresh bytes.\<close>

definition copy_name :: "(nat \<Rightarrow> u8) \<Rightarrow> u8 list \<Rightarrow> u8 list" where
  "copy_name mem src = (let c = take 31 (cstr src) @ [0] in c @ map mem [length c..<32])"

text \<open>A partition whose superblock is in \<open>sb\<close>; the result is \<open>None\<close> where the code returns a null pointer.\<close>

definition register_with :: "u8 list \<Rightarrow> u32 \<Rightarrow> u8 list \<Rightarrow> u32 \<Rightarrow> u8 list \<Rightarrow> esys \<Rightarrow> (partition option \<times> esys) result" where
  "register_with disk lba mountpoint ss sb x =
     rbind (get16 sb 56) (\<lambda>magic. if magic \<noteq> EXT2_SUPER_MAGIC then Ok (None, x) else
     rbind (get32 sb 24) (\<lambda>lg. let bs = push_bit (unat lg) 1024 :: u32 in
     rbind (DIVIDE_ROUNDED_UP bs ss) (\<lambda>spb.
     rbind (get32 sb 4) (\<lambda>blocks. rbind (get32 sb 32) (\<lambda>bpg. rbind (get32 sb 0) (\<lambda>inodes. rbind (get32 sb 40) (\<lambda>ipg.
     rbind (DIVIDE_ROUNDED_UP blocks bpg) (\<lambda>g1. rbind (DIVIDE_ROUNDED_UP inodes ipg) (\<lambda>g2.
     if g1 \<noteq> g2 then Ok (None, x) else
     let bgdt = (if bs = 1024 then 2 else 1) :: u32 in
     rbind (find_backups (unat g1) 0 disk lba (bpg * spb) 0 (- 1 # replicate 63 0) x) (\<lambda>(r, x). case r of None \<Rightarrow> Ok (None, x)
       | Some (n, bgs) \<Rightarrow>
     rbind (DIVIDE_ROUNDED_UP (ucast g1 * 32 :: u64) (ucast ss)) (\<lambda>gn. let bytes = (ucast gn :: u32) * ss in
     rbind (read_disk (xdev x) disk (map (xjunk x) [0..<unat bytes]) (lba + spb * bgdt) bytes) (\<lambda>(r, gd, d).
     let x = x\<lparr>xdev := d\<rparr> in
     if r = 0 then Ok (None, x) else
     let p = \<lparr>pt_name = copy_name (xjunk x) mountpoint, pt_disk = copy_name (xjunk x) disk, backup_bgs = bgs,
              backup_bgs_count = of_nat n, pt_lba = lba, group_number = g1, sector_size = ss, bgdt_block = bgdt,
              sb_block = SB_OFFSET_LBA, flush_required = 0, pt_sb = sb, pt_gd = gd\<rparr>
     in Ok (Some p, x\<lparr>xparts := xparts x @ [p]\<rparr>)))))))))))))"

definition ext2_partition_register_partition :: "u8 list \<Rightarrow> u32 \<Rightarrow> u8 list \<Rightarrow> esys \<Rightarrow> (partition option \<times> esys) result" where
  "ext2_partition_register_partition disk lba mountpoint x = rbind (ext2_check_status disk x) (\<lambda>(st, x). if st = 0 then Ok (None, x) else
     rbind (ioctl_disk (xdev x) disk 6 (map (xjunk x) [0..<4])) (\<lambda>(r, b, d). let x = x\<lparr>xdev := d\<rparr> in if r = 0 then Ok (None, x) else
     rbind (get32 b 0) (\<lambda>ss. if ss = 0 \<or> 4096 < ss then Ok (None, x) else
     rbind (read_disk (xdev x) disk (map (xjunk x) [0..<1024]) (lba + SB_OFFSET_LBA) 1024) (\<lambda>(r, sb, d).
     let x = x\<lparr>xdev := d\<rparr> in if r = 0 then Ok (None, x) else register_with disk lba mountpoint ss sb x))))"

definition ext2_flush_all_partitions :: "esys \<Rightarrow> esys result" where
  "ext2_flush_all_partitions x = foldl (\<lambda>r i. rbind r (\<lambda>x. rbind (rd (xparts x) i) (\<lambda>p.
     if flush_required p \<noteq> 0 then rbind (on_part i ext2_flush_partition x) (\<lambda>(_, x). Ok x) else Ok x))) (Ok x) [0..<length (xparts x)]"

definition ext2_is_flush_required :: "partition \<Rightarrow> u8" where
  "ext2_is_flush_required p = flush_required p"

definition ext2_is_any_flush_required :: "esys \<Rightarrow> u8" where
  "ext2_is_any_flush_required x = (if \<exists>p \<in> set (xparts x). flush_required p \<noteq> 0 then 1 else 0)"

end
