(* ===== verification/Ext2Dir.thy ===== *)
theory Ext2Dir
  imports Ext2File
begin

text \<open>Directories as lists of entries: when the contents of a directory hold a list of entries, how the operations of
  \<open>ext2_dentry.c\<close> and \<open>ext2_inode.c\<close> find, append and erase entries in terms of that list, and a small file system on which
  the theorems about EXT2 are applied.\<close>

section \<open>Bytes at an offset\<close>

definition holds :: "u8 list \<Rightarrow> nat \<Rightarrow> u8 list \<Rightarrow> bool" where
  "holds buf off bs \<longleftrightarrow> take (length bs) (drop off buf) = bs"

named_theorems holds_simps

lemma holds_bound: "holds buf off bs \<Longrightarrow> bs \<noteq> [] \<Longrightarrow> off + length bs \<le> length buf"
proof -
  assume "holds buf off bs" and "bs \<noteq> []"
  hence "min (length buf - off) (length bs) = length bs" and "0 < length bs"
    by (auto simp: holds_def dest!: arg_cong [of _ _ length] intro: min.commute [THEN trans])
  thus ?thesis by linarith
qed

lemma holds_append: "holds buf off (as @ bs) \<longleftrightarrow> holds buf off as \<and> holds buf (off + length as) bs"
proof
  assume h: "holds buf off (as @ bs)"
  hence "take (length as) (take (length as + length bs) (drop off buf)) = as"
    and "drop (length as) (take (length as + length bs) (drop off buf)) = bs" by (simp_all add: holds_def)
  thus "holds buf off as \<and> holds buf (off + length as) bs"
    by (simp add: holds_def min_def drop_take add.commute)
next
  assume "holds buf off as \<and> holds buf (off + length as) bs"
  thus "holds buf off (as @ bs)" by (simp add: holds_def take_add add.commute)
qed

lemma holds_overlay_same: "off + length bs \<le> length buf \<Longrightarrow> holds (overlay buf off bs) off bs"
  by (simp add: holds_def slice_overlay_same)

lemma holds_overlay_other:
  "off + length bs \<le> length buf \<Longrightarrow> j + length cs \<le> off \<or> off + length bs \<le> j \<Longrightarrow> holds (overlay buf off bs) j cs = holds buf j cs"
  by (simp add: holds_def slice_overlay_other)

lemma bytes_not_Nil [simp]: "bytes32 v \<noteq> []" "bytes16 h \<noteq> []"
  by (simp_all add: bytes32_def bytes16_def)

lemma holds_get32: "holds buf off (bytes32 v) \<Longrightarrow> get32 buf off = Ok v"
  using holds_bound [of buf off "bytes32 v"] by (auto simp: holds_def get32_eq)

lemma holds_get16: "holds buf off (bytes16 v) \<Longrightarrow> get16 buf off = Ok v"
  using holds_bound [of buf off "bytes16 v"] by (auto simp: holds_def get16_eq)

lemma holds_rd: "holds buf off [v] \<Longrightarrow> rd buf off = Ok v"
proof -
  assume h: "holds buf off [v]"
  hence "off < length buf" using holds_bound [OF h] by simp
  with h show ?thesis by (simp add: holds_def take_Suc_conv_app_nth rd_Ok)
qed

lemma holds_drop: "holds buf off bs \<Longrightarrow> drop off buf = bs @ drop (off + length bs) buf"
  unfolding holds_def by (metis add.commute append_take_drop_id drop_drop)

lemma holds_prefix: "take n buf = take n buf' \<Longrightarrow> off + length bs \<le> n \<Longrightarrow> holds buf off bs = holds buf' off bs"
proof -
  assume t: "take n buf = take n buf'" and l: "off + length bs \<le> n"
  have "take (length bs) (drop off b) = take (length bs) (drop off (take n b))" for b :: "u8 list"
    using l by (simp add: drop_take min_def)
  from this [of buf] this [of buf'] show ?thesis unfolding holds_def t by simp
qed

section \<open>Directories\<close>

record dent =
  dn_inode :: u32
  dn_len :: u16
  dn_kind :: u8
  dn_name :: "u8 list"

definition dent_bytes :: "dent \<Rightarrow> u8 list" where
  "dent_bytes e = entry_bytes (dn_inode e) (dn_len e) (of_nat (length (dn_name e))) (dn_kind e) @ dn_name e"

text \<open>The length of an entry has room for its name, which has no null byte.\<close>

definition dent_ok :: "dent \<Rightarrow> bool" where
  "dent_ok e \<longleftrightarrow> length (dn_name e) < 256 \<and> 0 \<notin> set (dn_name e) \<and> 8 + length (dn_name e) \<le> unat (dn_len e)"

text \<open>The bytes of \<open>buf\<close> from \<open>off\<close> up to \<open>sz\<close> are the entries \<open>es\<close>.\<close>

fun dir_from :: "u8 list \<Rightarrow> nat \<Rightarrow> nat \<Rightarrow> dent list \<Rightarrow> bool" where
  "dir_from buf sz off [] \<longleftrightarrow> off = sz"
| "dir_from buf sz off (e # es) \<longleftrightarrow> dent_ok e \<and> holds buf off (dent_bytes e) \<and> dir_from buf sz (off + unat (dn_len e)) es"

definition dir_size :: "dent list \<Rightarrow> nat" where "dir_size es = sum_list (map (unat \<circ> dn_len) es)"

lemma dir_size_simps [simp]: "dir_size [] = 0" "dir_size (e # es) = unat (dn_len e) + dir_size es" "dir_size (es @ fs) = dir_size es + dir_size fs"
  by (simp_all add: dir_size_def)

lemma length_dent_bytes [simp]: "length (dent_bytes e) = 8 + length (dn_name e)"
  by (simp add: dent_bytes_def entry_bytes_def)

lemma dir_from_size: "dir_from buf sz off es \<Longrightarrow> off + dir_size es = sz"
proof (induction es arbitrary: off)
  case (Cons e es)
  hence "off + unat (dn_len e) + dir_size es = sz" by auto
  then show ?case by simp
qed simp

lemma dir_from_many: "dir_from buf sz off es \<Longrightarrow> off + 8 * length es \<le> sz"
  by (induction es arbitrary: off) (fastforce simp: dent_ok_def)+

lemma dir_from_append: "dir_from buf sz off (es @ fs) \<longleftrightarrow> dir_from buf (off + dir_size es) off es \<and> dir_from buf sz (off + dir_size es) fs"
  by (induction es arbitrary: off) (auto simp: add.assoc)

lemma dir_from_cong:
  "dir_from buf sz off es \<Longrightarrow> (\<And>e o'. e \<in> set es \<Longrightarrow> dent_ok e \<Longrightarrow> off \<le> o' \<Longrightarrow> o' + unat (dn_len e) \<le> sz \<Longrightarrow> holds buf o' (dent_bytes e) \<Longrightarrow> holds buf' o' (dent_bytes e))
    \<Longrightarrow> dir_from buf' sz off es"
proof (induction es arbitrary: off)
  case (Cons e es)
  have "off + unat (dn_len e) \<le> sz" using dir_from_size [OF Cons.prems(1)] by simp
  moreover have "dir_from buf' sz (off + unat (dn_len e)) es" using Cons.prems by (intro Cons.IH) auto
  ultimately show ?case using Cons.prems by auto
qed simp

lemma dir_from_prefix: "dir_from buf sz off es \<Longrightarrow> take sz buf = take sz buf' \<Longrightarrow> dir_from buf' sz off es"
  by (erule dir_from_cong) (subst holds_prefix [of sz buf' buf], auto simp: dent_ok_def)

text \<open>The fields of an entry that is there.\<close>

lemma dent_fields:
  assumes "holds buf (unat off) (dent_bytes e)"
  shows "de_inode buf off = Ok (dn_inode e)" and "de_rec_len buf off = Ok (dn_len e)"
    and "de_name_len buf off = Ok (of_nat (length (dn_name e)))"
    and "de_name buf off = dn_name e @ drop (unat off + 8 + length (dn_name e)) buf"
proof -
  have "holds buf (unat off) (bytes32 (dn_inode e) @ bytes16 (dn_len e) @ [of_nat (length (dn_name e))] @ [dn_kind e] @ dn_name e)"
    using assms by (simp add: dent_bytes_def entry_bytes_def)
  hence "holds buf (unat off) (bytes32 (dn_inode e))" "holds buf (unat off + 4) (bytes16 (dn_len e))"
    "holds buf (unat off + 6) [of_nat (length (dn_name e))]" "holds buf (unat off + 8) (dn_name e)"
    unfolding holds_append by (simp_all add: add.commute)
  then show "de_inode buf off = Ok (dn_inode e)" "de_rec_len buf off = Ok (dn_len e)"
    "de_name_len buf off = Ok (of_nat (length (dn_name e)))"
    "de_name buf off = dn_name e @ drop (unat off + 8 + length (dn_name e)) buf"
    by (simp_all add: de_inode_def de_rec_len_def de_name_len_def de_name_def holds_get32 holds_get16 holds_rd holds_drop)
qed

section \<open>Walking a directory\<close>

lemma unat_u16_u32: "unat (ucast (l :: u16) :: u32) = unat l"
proof -
  have "unat l < 2 ^ 32" by (rule less_trans [OF unsigned_less]) simp
  then show ?thesis by (simp add: unsigned_ucast_eq take_bit_nat_eq_self)
qed

lemma step_offset:
  assumes "dir_from buf (unat (sz :: u32)) (unat (off :: u32)) (e # es)"
  shows "unat (off + ucast (dn_len e)) = unat off + unat (dn_len e)" and "off < sz"
    and "dir_from buf (unat sz) (unat (off + ucast (dn_len e))) es"
proof -
  have s: "unat off + unat (dn_len e) \<le> unat sz" "0 < unat (dn_len e)"
    using dir_from_size [OF assms] assms by (auto simp: dent_ok_def)
  have u: "unat (ucast (dn_len e) :: u32) = unat (dn_len e)" by (rule unat_u16_u32)
  have "unat off + unat (dn_len e) < 2 ^ 32" using s(1) unsigned_less [of sz, where ?'a = nat] by simp
  then show "unat (off + ucast (dn_len e)) = unat off + unat (dn_len e)" by (simp add: unat_word_ariths u)
  with assms show "dir_from buf (unat sz) (unat (off + ucast (dn_len e))) es" by simp
  show "off < sz" using s unfolding word_less_nat_alt by linarith
qed

lemma end_offset: "dir_from buf (unat (sz :: u32)) (unat (off :: u32)) [] \<Longrightarrow> off = sz"
  by (simp add: word_unat_eq_iff)

lemma walk_fuel: "dir_from buf (unat (sz :: u32)) 0 es \<Longrightarrow> length es \<le> unat sz"
  using dir_from_many [of buf "unat sz" 0 es] by simp

text \<open>Every entry answers \<open>P\<close> as \<open>Q\<close> says.\<close>

definition decides :: "u8 list \<Rightarrow> (u32 \<Rightarrow> bool result) \<Rightarrow> (dent \<Rightarrow> bool) \<Rightarrow> bool" where
  "decides buf P Q \<longleftrightarrow> (\<forall>off e. dent_ok e \<longrightarrow> holds buf (unat off) (dent_bytes e) \<longrightarrow> P off = Ok (Q e))"

lemma find_entry_hit:
  assumes "decides buf P Q" and "Q e"
  shows "dir_from buf (unat sz) (unat off) (pre @ e # post) \<Longrightarrow> length pre < k \<Longrightarrow> \<forall>x \<in> set pre. \<not> Q x \<Longrightarrow>
    find_entry capped k buf sz off prev P
      = Ok (Some (off + of_nat (dir_size pre)), if pre = [] then prev else Some (off + of_nat (dir_size (butlast pre))))"
proof (induction pre arbitrary: off k prev)
  case Nil
  then obtain k' where k: "k = Suc k'" by (cases k) auto
  have d: "dir_from buf (unat sz) (unat off) (e # post)" using Nil.prems(1) by simp
  have "P off = Ok True" using assms d by (auto simp: decides_def)
  then show ?case using step_offset(2) [OF d] k by simp
next
  case (Cons x pre)
  then obtain k' where k: "k = Suc k'" by (cases k) auto
  have d: "dir_from buf (unat sz) (unat off) (x # pre @ e # post)" using Cons.prems(1) by simp
  have "P off = Ok False" using assms(1) d Cons.prems(3) by (auto simp: decides_def)
  moreover have "de_rec_len buf off = Ok (dn_len x)" by (rule dent_fields(2)) (use d in simp)
  moreover have "length pre < k'" using Cons.prems(2) k by simp
  moreover have "(ucast (dn_len x) :: u32) = of_nat (unat (dn_len x))" by (simp add: of_nat_unat)
  ultimately show ?case using step_offset [OF d] k Cons.IH [of "off + ucast (dn_len x)" k' "Some off"] Cons.prems(3)
    by (simp add: add.assoc)
qed

lemma find_entry_miss:
  assumes "decides buf P Q"
  shows "dir_from buf (unat sz) (unat off) es \<Longrightarrow> length es \<le> k \<Longrightarrow> \<forall>x \<in> set es. \<not> Q x \<Longrightarrow>
    \<exists>q. find_entry capped k buf sz off prev P = Ok (None, q)"
proof (induction es arbitrary: off k prev)
  case Nil
  then show ?case using end_offset [of buf sz off] by (cases k) auto
next
  case (Cons x es)
  then obtain k' where k: "k = Suc k'" by (cases k) auto
  have "P off = Ok False" using assms Cons.prems(1,3) by (auto simp: decides_def)
  moreover have "de_rec_len buf off = Ok (dn_len x)" by (rule dent_fields(2)) (use Cons.prems(1) in simp)
  ultimately show ?case using step_offset [OF Cons.prems(1)] k Cons.IH [of "off + ucast (dn_len x)" k' "Some off"] Cons.prems(2,3)
    by simp
qed

lemma last_entry_dir:
  "dir_from buf (unat sz) (unat off) es \<Longrightarrow> length es \<le> k \<Longrightarrow>
    last_entry k buf sz off lst = Ok (if es = [] then lst else Some (sz - ucast (dn_len (List.last es))), sz)"
proof (induction es arbitrary: off k lst)
  case Nil
  then show ?case using end_offset [of buf sz off] by (cases k) auto
next
  case (Cons x es)
  then obtain k' where k: "k = Suc k'" by (cases k) auto
  note s = step_offset [OF Cons.prems(1)]
  have "de_rec_len buf off = Ok (dn_len x)" by (rule dent_fields(2)) (use Cons.prems(1) in simp)
  moreover have "es = [] \<Longrightarrow> sz = off + ucast (dn_len x)" using end_offset s(3) by metis
  ultimately show ?case using s k Cons.IH [OF s(3), of k' "Some off"] Cons.prems(2) by auto
qed

section \<open>Looking a name up\<close>

text \<open>An entry matches when its name is a beginning of the name asked for.\<close>

definition names :: "u8 list \<Rightarrow> dent \<Rightarrow> bool" where
  "names tok e \<longleftrightarrow> take (length (dn_name e)) tok = dn_name e"

lemma strncmp_prefix:
  "0 \<notin> set nm \<Longrightarrow> 0 \<in> set tok \<Longrightarrow> \<exists>r. strncmp (nm @ rest) tok (length nm) = Ok r \<and> (r = 0 \<longleftrightarrow> take (length nm) tok = nm)"
proof (induction nm arbitrary: tok)
  case (Cons a nm)
  then obtain b bs where tok: "tok = b # bs" by (cases tok) auto
  show ?case
  proof (cases "a = b")
    case True
    then show ?thesis using Cons tok by auto
  next
    case False
    then show ?thesis using tok by (auto simp: word_uint_eq_iff)
  qed
qed simp

lemma entry_named_decides: "0 \<in> set tok \<Longrightarrow> decides buf (entry_named buf tok) (names tok)"
proof -
  assume z: "0 \<in> set tok"
  have "entry_named buf tok off = Ok (names tok e)" if e: "dent_ok e" "holds buf (unat off) (dent_bytes e)" for off e
  proof -
    have "unat (of_nat (length (dn_name e)) :: u8) = length (dn_name e)"
      using e(1) by (simp add: dent_ok_def unat_of_nat)
    moreover obtain r where "strncmp (de_name buf off) tok (length (dn_name e)) = Ok r" "(r = 0) = names tok e"
      using strncmp_prefix [of "dn_name e" tok] e z by (auto simp: dent_fields(4) names_def dent_ok_def)
    ultimately show ?thesis using dent_fields(3) [OF e(2)] by (simp add: entry_named_def)
  qed
  thus ?thesis by (simp add: decides_def)
qed

lemma find_Some_split: "find Q es = Some e \<Longrightarrow> \<exists>pre post. es = pre @ e # post \<and> Q e \<and> (\<forall>x \<in> set pre. \<not> Q x)"
  by (induction es) (auto split: if_splits intro: exI [of _ "[]"] dest: Cons_eq_appendI, metis append_Cons set_ConsD)

lemma lookup_dir:
  assumes "dir_from buf (unat sz) 0 es" and "0 \<in> set tok"
  shows "rbind (find_entry False (unat sz) buf sz 0 None (entry_named buf tok)) (\<lambda>(f, q). case f of None \<Rightarrow> Ok x | Some off \<Rightarrow> de_inode buf off)
    = Ok (case find (names tok) es of None \<Rightarrow> x | Some e \<Rightarrow> dn_inode e)"
proof (cases "find (names tok) es")
  case None
  hence "\<forall>e \<in> set es. \<not> names tok e" by (simp add: find_None_iff)
  then obtain q where "find_entry False (unat sz) buf sz 0 None (entry_named buf tok) = Ok (None, q)"
    using find_entry_miss [OF entry_named_decides [OF assms(2)], of buf sz 0 es "unat sz" False None] assms(1) walk_fuel [OF assms(1)] by auto
  then show ?thesis using None by simp
next
  case (Some e)
  then obtain pre post where e: "es = pre @ e # post" "names tok e" "\<forall>x \<in> set pre. \<not> names tok x" using find_Some_split by metis
  have d: "dir_from buf (unat sz) (dir_size pre) (e # post)" using assms(1) dir_from_append [of buf "unat sz" 0 pre] e(1) by simp
  have "dir_size pre \<le> unat sz" using dir_from_size [OF d] by simp
  hence "unat (of_nat (dir_size pre) :: u32) = dir_size pre" using unsigned_less [of sz, where ?'a = nat] by (simp add: unat_of_nat)
  hence "de_inode buf (of_nat (dir_size pre)) = Ok (dn_inode e)" using d by (intro dent_fields(1)) simp
  moreover have "length pre < unat sz" using walk_fuel [OF assms(1)] e(1) by simp
  ultimately show ?thesis
    using find_entry_hit [where capped = False, OF entry_named_decides [OF assms(2)] e(2), of buf sz 0 pre post "unat sz" None] assms(1) e(1,3) Some by simp
qed

text \<open>The directory with inode \<open>ino\<close> lies in its direct blocks and holds the entries \<open>es\<close>.\<close>

definition dir_at :: "fs \<Rightarrow> u8 \<Rightarrow> u32 \<Rightarrow> dent list \<Rightarrow> bool" where
  "dir_at s port ino es \<longleftrightarrow> (\<exists>pl md sz bl. inode_ready s port ino pl \<and> i_mode (inode_data s port pl) = Ok md \<and> md AND INODE_TYPE_DIR \<noteq> 0
     \<and> i_size (inode_data s port pl) = Ok sz \<and> 0 < unat sz \<and> unat sz \<le> 12 * block_bytes (fpart s)
     \<and> bl = take 12 (i_blocks (inode_data s port pl)) \<and> (\<forall>i. i * block_bytes (fpart s) < unat sz \<longrightarrow> bl ! i \<noteq> 0)
     \<and> dir_from (blocks_data s port bl) (unat sz) 0 es)"

lemma unat_u32_u64: "unat (ucast (l :: u32) :: u64) = unat l"
proof -
  have "unat l < 2 ^ 64" by (rule less_trans [OF unsigned_less]) simp
  then show ?thesis by (simp add: unsigned_ucast_eq take_bit_nat_eq_self)
qed

lemma dir_read:
  fixes sz :: u32
  assumes "inode_ready s port ino pl" and "0 < unat sz" and "unat sz \<le> 12 * block_bytes (fpart s)"
    and "bl = take 12 (i_blocks (inode_data s port pl))" and "\<forall>i. i * block_bytes (fpart s) < unat sz \<longrightarrow> bl ! i \<noteq> 0"
    and "dir_from (blocks_data s port bl) (unat sz) 0 es" and "unat sz \<le> length buf"
  shows "\<exists>buf1. ext2_read_inode_bytes ino buf (ucast sz) 0 s = Ok ((ucast sz, buf1), s) \<and> dir_from buf1 (unat sz) 0 es
    \<and> length buf1 = length buf \<and> (ucast sz :: u64) \<noteq> EXT2_READ_FAILED"
proof -
  note f = fs_ok_block [OF inode_ready_read(1) [OF assms(1)]]
  let ?d = "blocks_data s port bl"
  have "length bl = 12" using inode_ready_read(4) [OF assms(1)] assms(4) by simp
  hence ld: "unat sz \<le> length ?d" using assms(3) length_blocks_data [OF inode_ready_read(1) [OF assms(1)], of bl] by simp
  have "ext2_read_inode_bytes ino buf (ucast sz) 0 s = Ok ((ucast sz, take (unat sz) ?d @ drop (unat sz) buf), s)"
    by (rule read_inode_data [OF assms(1,4), of "ucast sz" buf, unfolded unat_u32_u64, OF assms(2,3,7,5)])
  moreover have "dir_from (take (unat sz) ?d @ drop (unat sz) buf) (unat sz) 0 es"
    by (rule dir_from_prefix [OF assms(6)]) (use ld in simp)
  moreover have "unat sz \<le> 786432" using assms(3) f(2,4) by linarith
  hence "(ucast sz :: u64) \<noteq> EXT2_READ_FAILED" using unat_u32_u64 [of sz] by auto
  ultimately show ?thesis using ld assms(7) by auto
qed

lemma names_token: "dent_ok e \<Longrightarrow> names (c @ 0 # rest) e \<longleftrightarrow> names c e"
proof -
  assume e: "dent_ok e"
  show ?thesis
  proof (cases "length (dn_name e) \<le> length c")
    case False
    hence "take (length (dn_name e)) (c @ 0 # rest) \<noteq> dn_name e" using e
      by (auto simp: dent_ok_def take_Cons' dest!: arg_cong [of _ _ set])
    moreover have "take (length (dn_name e)) c \<noteq> dn_name e" using False by (metis length_take min.absorb_iff2 nat_le_linear)
    ultimately show ?thesis by (simp add: names_def)
  qed (simp add: names_def)
qed

lemma dir_from_ok: "dir_from buf sz off es \<Longrightarrow> e \<in> set es \<Longrightarrow> dent_ok e"
  by (induction es arbitrary: off) auto

lemma find_token: "dir_from buf sz off es \<Longrightarrow> find (names (c @ 0 # rest)) es = find (names c) es"
  by (intro find_cong refl names_token) (rule dir_from_ok)

lemma component_found:
  assumes "dir_at s port ino es"
  shows "ext2_inode_from_path_and_parent ino (c @ 0 # rest) s
    = Ok (case find (names c) es of None \<Rightarrow> EXT2_INO_PAP_NOTFOUND | Some e \<Rightarrow> dn_inode e, s)"
proof -
  obtain pl md sz bl where d: "inode_ready s port ino pl" "i_mode (inode_data s port pl) = Ok md" "md AND INODE_TYPE_DIR \<noteq> 0"
      "i_size (inode_data s port pl) = Ok sz" "0 < unat sz" "unat sz \<le> 12 * block_bytes (fpart s)"
      "bl = take 12 (i_blocks (inode_data s port pl))" "\<forall>i. i * block_bytes (fpart s) < unat sz \<longrightarrow> bl ! i \<noteq> 0"
      "dir_from (blocks_data s port bl) (unat sz) 0 es"
    using assms by (auto simp: dir_at_def)
  note f = fs_ok_block [OF inode_ready_read(1) [OF d(1)]]
  have "unat sz + unat (block_size (fpart s)) \<le> 4294967295" using d(6) f(2,4) by (simp add: block_bytes_def [symmetric])
  hence "unat sz \<le> unat (sz + block_size (fpart s))" by (simp add: unat_word_ariths)
  hence "unat sz \<le> length (replicate (unat (sz + block_size (fpart s))) (0 :: u8))" by simp
  from dir_read [OF d(1,5-9) this] obtain buf where
    b: "ext2_read_inode_bytes ino (replicate (unat (sz + block_size (fpart s))) 0) (ucast sz) 0 s = Ok ((ucast sz, buf), s)"
      "dir_from buf (unat sz) 0 es" "(ucast sz :: u64) \<noteq> EXT2_READ_FAILED" by auto
  have z: "0 \<in> set (c @ 0 # rest)" by simp
  let ?P = "entry_named buf (c @ 0 # rest)" and ?r = "case find (names c) es of None \<Rightarrow> EXT2_INO_PAP_NOTFOUND | Some e \<Rightarrow> dn_inode e"
  have "rbind (find_entry False (unat sz) buf sz 0 None ?P) (\<lambda>(f, q). case f of None \<Rightarrow> Ok EXT2_INO_PAP_NOTFOUND | Some off \<Rightarrow> de_inode buf off) = Ok ?r"
    using lookup_dir [OF b(2) z] by (simp add: find_token [OF b(2)])
  then obtain fo q where "find_entry False (unat sz) buf sz 0 None ?P = Ok (fo, q)"
      "(case fo of None \<Rightarrow> Ok EXT2_INO_PAP_NOTFOUND | Some off \<Rightarrow> de_inode buf off) = Ok ?r" by (auto simp: rbind_eq_Ok)
  then show ?thesis using inode_ready_read(2) [OF d(1)] d(2,3,4) b(1,3)
    by (cases fo) (simp_all add: ext2_inode_from_path_and_parent_def)
qed

section \<open>Resolving a path\<close>

text \<open>What a path means in a tree of directories: every component is looked up in the directory reached so far. The result
  is 0 when a component is missing and \<open>None\<close> when the tree does not know a directory or an entry has one of the numbers
  that the code takes for an error.\<close>

fun walk :: "(u32 \<Rightarrow> dent list option) \<Rightarrow> u32 \<Rightarrow> u8 list list \<Rightarrow> u32 option" where
  "walk D ino [] = Some ino"
| "walk D ino (c # cs) = (case D ino of None \<Rightarrow> None | Some es \<Rightarrow> (case find (names c) es of None \<Rightarrow> Some 0
     | Some e \<Rightarrow> if dn_inode e = 0 \<or> dn_inode e = EXT2_INO_PAP_NOTFOUND \<or> dn_inode e = EXT2_INO_PAP_ERROR then None
       else walk D (dn_inode e) cs))"

definition tree_at :: "fs \<Rightarrow> u8 \<Rightarrow> (u32 \<Rightarrow> dent list option) \<Rightarrow> bool" where
  "tree_at s port D \<longleftrightarrow> (\<forall>ino es. D ino = Some es \<longrightarrow> dir_at s port ino es)"

definition component_ok :: "u8 list \<Rightarrow> bool" where
  "component_ok c \<longleftrightarrow> c \<noteq> [] \<and> 0 \<notin> set c \<and> 47 \<notin> set c"

definition path_of :: "u8 list list \<Rightarrow> u8 list" where
  "path_of cs = concat (map (\<lambda>c. 47 # c) cs) @ [0]"

lemma path_of_simps [simp]: "path_of [] = [0]" "path_of (c # cs) = 47 # c @ path_of cs"
  by (simp_all add: path_of_def)

lemma strtok_component:
  assumes "component_ok c" and "x = 47 \<or> x = 0"
  shows "strtok False (Some (length pre)) (pre @ replicate n 47 @ c @ x # rest) [47, 0] =
    Ok (Some (length pre + n), pre @ replicate n 0 @ c @ 0 # rest, Some (length pre + n + length c + (if x = 47 then 1 else 0)))"
  by (rule strtok_token) (use assms in \<open>auto simp: component_ok_def\<close>)

lemma strtok_end: "p < length b \<Longrightarrow> b ! p = 0 \<Longrightarrow> strtok False (Some p) b [47, 0] = Ok (None, b, Some p)"
  by (simp add: strtok_def)

text \<open>What follows a token in the string, once \<open>strtok\<close> has ended the token with a null byte.\<close>

definition after_token :: "u8 list list \<Rightarrow> u8 list" where
  "after_token cs = 0 # List.tl (path_of cs)"

lemma path_loop_walk:
  assumes "tree_at s port D"
  shows "component_ok c \<Longrightarrow> \<forall>c \<in> set cs. component_ok c \<Longrightarrow> walk D ino (c # cs) = Some r \<Longrightarrow> length cs < k \<Longrightarrow>
    path_loop k (pre @ c @ after_token cs) (Some (length pre + length c + (if cs = [] then 0 else 1))) (Some (length pre)) ino s = Ok (r, s)"
proof (induction cs arbitrary: c ino k pre)
  case Nil
  then obtain k' es where k: "k = Suc k'" and es: "D ino = Some es" by (cases k) (auto split: option.splits)
  have "dir_at s port ino es" using assms es by (simp add: tree_at_def)
  note cf = component_found [OF this, of c "[]"]
  have se: "strtok False (Some (length pre + length c)) (pre @ c @ [0]) [47, 0] = Ok (None, pre @ c @ [0], Some (length pre + length c))"
    using strtok_end [of "length pre + length c" "pre @ c @ [0]"] by (simp add: nth_append)
  show ?case
  proof (cases "find (names c) es")
    case None
    then show ?thesis using Nil cf k es by (simp add: after_token_def)
  next
    case (Some e)
    then show ?thesis using Nil cf se k es by (cases k') (auto simp: after_token_def split: if_splits)
  qed
next
  case (Cons d cs)
  then obtain k' es where k: "k = Suc k'" and es: "D ino = Some es" by (cases k) (auto split: option.splits)
  let ?t = "pre @ c @ after_token (d # cs)" and ?p = "length pre + length c + 1"
  have "dir_at s port ino es" using assms es by (simp add: tree_at_def)
  note cf = component_found [OF this, of c "d @ path_of cs"]
  have st: "strtok False (Some ?p) ?t [47, 0]
      = Ok (Some ?p, (pre @ c @ [0]) @ d @ after_token cs, Some (length (pre @ c @ [0]) + length d + (if cs = [] then 0 else 1)))"
  proof (cases cs)
    case Nil
    then show ?thesis using strtok_component [of d 0 "pre @ c @ [0]" 0 "[]"] Cons.prems(2) by (simp add: after_token_def)
  next
    case (Cons x xs)
    then show ?thesis using strtok_component [of d 47 "pre @ c @ [0]" 0 "x @ path_of xs"] Cons.prems(2) by (simp add: after_token_def)
  qed
  show ?case
  proof (cases "find (names c) es")
    case None
    then show ?thesis using Cons.prems(3) cf k es by (simp add: after_token_def)
  next
    case (Some e)
    have ok: "dn_inode e \<noteq> EXT2_INO_PAP_NOTFOUND" "dn_inode e \<noteq> EXT2_INO_PAP_ERROR" "walk D (dn_inode e) (d # cs) = Some r"
      using Cons.prems(3) Some es by (auto split: if_splits)
    have "path_loop k' ((pre @ c @ [0]) @ d @ after_token cs) (Some (length (pre @ c @ [0]) + length d + (if cs = [] then 0 else 1)))
        (Some (length (pre @ c @ [0]))) (dn_inode e) s = Ok (r, s)"
      by (rule Cons.IH [OF _ _ ok(3)]) (use Cons.prems(2,4) k in auto)
    moreover have "?t = pre @ c @ 0 # d @ path_of cs" by (simp add: after_token_def)
    ultimately show ?thesis using Some cf st ok k by simp
  qed
qed

lemma path_no_null: "\<forall>c \<in> set cs. component_ok c \<Longrightarrow> \<exists>p. path_of cs = p @ [0] \<and> 0 \<notin> set p \<and> length cs \<le> length p"
proof (induction cs)
  case (Cons c cs)
  then obtain p where "path_of cs = p @ [0]" "0 \<notin> set p" "length cs \<le> length p" by auto
  then show ?case using Cons.prems by (intro exI [of _ "47 # c @ p"]) (auto simp: component_ok_def)
qed simp

lemma copy_path:
  assumes "path = p @ [0]" and "0 \<notin> set p" and "length p < 65536"
  shows "strlen path = Ok (length p)" and "strncpy (replicate (length p + 1) 0) path (length p + 1) = Ok path"
proof -
  have t: "terminated path" and c: "cstr path = p" using assms(1,2) by (auto simp: terminated_def cstr_def takeWhile_append)
  show "strlen path = Ok (length p)" using strlen_length [OF t] assms(3) c by simp
  show "strncpy (replicate (length p + 1) 0) path (length p + 1) = Ok path"
    using strncpy_copies [OF t, of "length p + 1" "replicate (length p + 1) 0"] assms(1,3) c by simp
qed

lemma path_to_inode_walk:
  assumes "tree_at s port D" and "cs \<noteq> []" and "\<forall>c \<in> set cs. component_ok c" and "length (path_of cs) \<le> 65536"
    and "walk D 2 cs = Some r"
  shows "ext2_path_to_inode (path_of cs) s = Ok (r, s)"
proof -
  obtain c ds where cs: "cs = c # ds" using assms(2) by (cases cs) auto
  obtain p where p: "path_of cs = p @ [0]" "0 \<notin> set p" "length cs \<le> length p" using path_no_null [OF assms(3)] by auto
  have "length p < 65536" using assms(4) p(1) by simp
  note cp = copy_path [OF p(1,2) this]
  have "strtok True None (path_of cs) [47, 0]
      = Ok (Some 1, [0] @ c @ after_token ds, Some (length [0 :: u8] + length c + (if ds = [] then 0 else 1)))"
  proof (cases ds)
    case Nil
    then show ?thesis using strtok_component [of c 0 "[]" 1 "[]"] assms(3) cs by (simp add: strtok_def after_token_def)
  next
    case (Cons x xs)
    then show ?thesis using strtok_component [of c 47 "[]" 1 "x @ path_of xs"] assms(3) cs by (simp add: strtok_def after_token_def)
  qed
  moreover have "path_loop (length p + 1) ([0] @ c @ after_token ds) (Some (length [0 :: u8] + length c + (if ds = [] then 0 else 1)))
      (Some (length [0 :: u8])) 2 s = Ok (r, s)"
    by (rule path_loop_walk [OF assms(1)]) (use assms(3,5) p(3) cs in auto)
  ultimately show ?thesis using cp by (simp add: ext2_path_to_inode_def)
qed

text \<open>C17: \<open>ext2_path_to_inode\<close> follows a path through the directories on the disk, one component after the other, and ends
  at the inode the tree has for it, or at 0 when a component is missing. A component matches the first entry whose name is a
  beginning of it.\<close>

theorem path_to_inode_resolves:
  assumes "tree_at s port D" and "cs \<noteq> []" and "\<forall>c \<in> set cs. component_ok c" and "length (path_of cs) \<le> 65536"
    and "walk D 2 cs = Some r"
  shows "ext2_path_to_inode (path_of cs) s = Ok (r, s)"
  by (rule path_to_inode_walk [OF assms])

text \<open>The regular file with inode \<open>ino\<close> has the given contents, in its at most 12 direct blocks: the code does not get at the
  blocks behind them (\<open>read_past_direct\<close>).\<close>

definition file_at :: "fs \<Rightarrow> u8 \<Rightarrow> u32 \<Rightarrow> u8 list \<Rightarrow> bool" where
  "file_at s port ino contents \<longleftrightarrow> (\<exists>pl md sz bl. inode_ready s port ino pl \<and> i_mode (inode_data s port pl) = Ok md \<and> md AND INODE_TYPE_DIR = 0
     \<and> i_size (inode_data s port pl) = Ok sz \<and> unat sz = length contents \<and> unat sz \<le> 12 * block_bytes (fpart s)
     \<and> bl = take 12 (i_blocks (inode_data s port pl)) \<and> (\<forall>i. i * block_bytes (fpart s) < unat sz \<longrightarrow> bl ! i \<noteq> 0)
     \<and> contents = take (unat sz) (blocks_data s port bl))"

lemma read_file_data:
  assumes "tree_at s port D" and "cs \<noteq> []" and "\<forall>c \<in> set cs. component_ok c" and "length (path_of cs) \<le> 65536"
    and "walk D 2 cs = Some ino" and "ino \<noteq> 0" and "file_at s port ino contents"
    and "0 < unat n" and "unat n \<le> length contents" and "unat n \<le> length buf"
  shows "ext2_read_file (path_of cs) buf n 0 s = Ok ((EXT2_RESULT_OK, take (unat n) contents @ drop (unat n) buf), s)"
proof -
  obtain pl md sz bl where d: "inode_ready s port ino pl" "i_mode (inode_data s port pl) = Ok md" "md AND INODE_TYPE_DIR = 0"
      "i_size (inode_data s port pl) = Ok sz" "unat sz = length contents" "unat sz \<le> 12 * block_bytes (fpart s)"
      "bl = take 12 (i_blocks (inode_data s port pl))" "\<forall>i. i * block_bytes (fpart s) < unat sz \<longrightarrow> bl ! i \<noteq> 0"
      "contents = take (unat sz) (blocks_data s port bl)"
    using assms(7) by (auto simp: file_at_def)
  note f = fs_ok_block [OF inode_ready_read(1) [OF d(1)]]
  have n12: "unat n \<le> 12 * block_bytes (fpart s)" and nz: "\<forall>i. i * block_bytes (fpart s) < unat n \<longrightarrow> bl ! i \<noteq> 0"
    using assms(9) d(5,6,8) by auto
  have "ext2_read_inode_bytes ino buf n 0 s = Ok ((n, take (unat n) (blocks_data s port bl) @ drop (unat n) buf), s)"
    by (rule read_inode_data [OF d(1,7) assms(8) n12 assms(10) nz])
  moreover have "take (unat n) (blocks_data s port bl) = take (unat n) contents"
    using assms(9) d(5) by (subst d(9)) (simp add: min_def)
  moreover have small: "unat n \<le> 786432" using n12 f(2,4) by linarith
  hence "n \<noteq> EXT2_READ_FAILED" by auto
  moreover have "\<not> sint n \<le> 0" using sint_pos_small [OF assms(8)] small by auto
  moreover have "\<not> ucast sz < 0 + n" using assms(9) d(5) by (simp add: word_less_nat_alt unat_u32_u64)
  ultimately show ?thesis
    using path_to_inode_walk [OF assms(1-5)] assms(6) inode_ready_read(2) [OF d(1)] d(2,3,4)
    by (simp add: ext2_read_file_def)
qed

text \<open>reading from the beginning of a file by its path puts exactly the bytes asked for into the buffer, through the path
  lookup, the inode and its blocks.\<close>

theorem read_file_contents:
  assumes "tree_at s port D" and "cs \<noteq> []" and "\<forall>c \<in> set cs. component_ok c" and "length (path_of cs) \<le> 65536"
    and "walk D 2 cs = Some ino" and "ino \<noteq> 0" and "file_at s port ino contents"
    and "0 < unat n" and "unat n \<le> length contents" and "unat n \<le> length buf"
  shows "ext2_read_file (path_of cs) buf n 0 s = Ok ((EXT2_RESULT_OK, take (unat n) contents @ drop (unat n) buf), s)"
  by (rule read_file_data [OF assms])

section \<open>Appending an entry\<close>

definition align_up :: "nat \<Rightarrow> nat" where "align_up n = (n + 3) div 4 * 4"

lemma and_not_3: "unat (x AND NOT 3 :: u32) = unat x div 4 * 4"
proof -
  have "x AND NOT 3 = push_bit 2 (drop_bit 2 x)"
  proof (rule bit_word_eqI)
    fix n assume "n < LENGTH(32)"
    have "bit (3 :: u32) n \<longleftrightarrow> n < 2 \<and> n < LENGTH(32)" using bit_mask_iff [of 2 n, where ?'a = u32] by (auto simp: mask_eq_exp_minus_1)
    moreover have "2 \<le> n \<Longrightarrow> Suc (Suc (n - 2)) = n" by arith
    ultimately show "bit (x AND NOT 3) n = bit (push_bit 2 (drop_bit 2 x)) n" using \<open>n < LENGTH(32)\<close>
      by (cases "2 \<le> n") (auto simp: bit_simps)
  qed
  moreover have "unat (push_bit 2 (drop_bit 2 x)) = unat x div 4 * 4"
  proof -
    have "unat x div 4 * 4 < 2 ^ 32" using unsigned_less [of x, where ?'a = nat] by (simp add: le_less_trans [OF div_times_less_eq_dividend])
    then show ?thesis by (simp add: push_bit_eq_mult drop_bit_eq_div unat_word_ariths unat_div_distrib)
  qed
  ultimately show ?thesis by simp
qed

lemma entry_room:
  fixes nl :: u8
  shows "unat (entry_size nl) = 8 + unat nl" and "unat (align4 (entry_size nl)) = align_up (8 + unat nl)"
    and "unat (ucast (align4 (entry_size nl)) :: u16) = align_up (8 + unat nl)"
proof -
  have nl: "unat nl < 256" using unsigned_less [of nl, where ?'a = nat] by simp
  have u: "unat (ucast nl :: u32) = unat nl" using nl by (simp add: unsigned_ucast_eq take_bit_nat_eq_self)
  have "entry_size nl = 8 + ucast nl" by (simp add: entry_size_def)
  thus s: "unat (entry_size nl) = 8 + unat nl" using nl by (simp add: unat_word_ariths u)
  have e3: "unat (entry_size nl + 3) = 8 + unat nl + 3" using nl by (simp add: unat_word_ariths s)
  thus a: "unat (align4 (entry_size nl)) = align_up (8 + unat nl)" by (simp only: align4_def and_not_3 e3 align_up_def)
  have "align_up (8 + unat nl) < 65536" using nl by (auto simp: align_up_def)
  thus "unat (ucast (align4 (entry_size nl)) :: u16) = align_up (8 + unat nl)" by (simp add: unsigned_ucast_eq take_bit_nat_eq_self a)
qed

lemma align_up_ge: "n \<le> align_up n"
  by (simp add: align_up_def)

lemma put_overlay: "off + length bs \<le> length buf \<Longrightarrow> put_bytes buf off bs = Ok (overlay buf off bs)"
  by (rule put_bytes_overlay)

text \<open>The new entry, with the space the last one does not need.\<close>

definition shrunk :: "dent \<Rightarrow> dent" where
  "shrunk e = e\<lparr>dn_len := of_nat (align_up (8 + length (dn_name e)))\<rparr>"

definition appended :: "dent \<Rightarrow> u32 \<Rightarrow> u8 list \<Rightarrow> u32 \<Rightarrow> dent" where
  "appended e child nm kind = \<lparr>dn_inode = child, dn_len = dn_len e - of_nat (align_up (8 + length (dn_name e))),
     dn_kind = ucast kind, dn_name = nm\<rparr>"

lemma unat_of_nat_32: "n < 4294967296 \<Longrightarrow> unat (of_nat n :: u32) = n"
  by (simp add: unat_of_nat)

lemma unat_of_nat_16: "n < 65536 \<Longrightarrow> unat (of_nat n :: u16) = n"
  by (simp add: unat_of_nat)

lemma holds_new_len:
  assumes "holds buf off (dent_bytes e)"
  shows "holds (overlay buf (off + 4) (bytes16 l)) off (dent_bytes (e\<lparr>dn_len := l\<rparr>))"
proof -
  let ?b = "overlay buf (off + 4) (bytes16 l)" and ?r = "[of_nat (length (dn_name e)), dn_kind e] @ dn_name e"
  have len: "off + 8 + length (dn_name e) \<le> length buf" using holds_bound [OF assms] by (auto simp flip: length_0_conv)
  have "holds buf off (bytes32 (dn_inode e) @ bytes16 (dn_len e) @ ?r)" using assms by (simp add: dent_bytes_def entry_bytes_def)
  hence h: "holds buf off (bytes32 (dn_inode e))" "holds buf (off + 4 + 2) ?r" unfolding holds_append by simp_all
  have "holds ?b off (bytes32 (dn_inode e))" using h(1) len by (subst holds_overlay_other) auto
  moreover have "holds ?b (off + 4) (bytes16 l)" using len by (intro holds_overlay_same) simp
  moreover have "holds ?b (off + 4 + 2) ?r" using h(2) len by (subst holds_overlay_other) auto
  ultimately have "holds ?b off (bytes32 (dn_inode e) @ bytes16 l @ ?r)" unfolding holds_append by simp
  thus ?thesis by (simp add: dent_bytes_def entry_bytes_def)
qed

lemma dir_from_overlay:
  assumes "dir_from buf sz off es" and "sz \<le> o'" and "o' + length bs \<le> length buf"
  shows "dir_from (overlay buf o' bs) sz off es"
  by (rule dir_from_cong [OF assms(1)]) (subst holds_overlay_other, use assms(2,3) in \<open>auto simp: dent_ok_def\<close>)

text \<open>The contents after an entry has been appended behind \<open>e\<close> at \<open>p\<close>.\<close>

lemma append_step:
  assumes "dir_from buf sz p [e]" and "sz \<le> length buf" and "a = align_up (8 + length (dn_name e))"
    and "a + 8 + length nm \<le> unat (dn_len e)" and "length nm < 256" and "0 \<notin> set nm"
    and "b1 = overlay buf (p + 4) (bytes16 (of_nat a))"
    and "b2 = overlay b1 (p + a) (entry_bytes child (dn_len e - of_nat a) (of_nat (length nm)) (ucast kind))"
    and "b3 = overlay b2 (p + a + 8) nm"
  shows "dir_from b3 sz p [shrunk e, appended e child nm kind]" and "length b3 = length buf"
    and "\<And>es. dir_from buf p 0 es \<Longrightarrow> dir_from b3 p 0 es"
proof -
  have e: "dent_ok e" "holds buf p (dent_bytes e)" "p + unat (dn_len e) = sz" using assms(1) by auto
  have a8: "8 + length (dn_name e) \<le> a" unfolding assms(3) by (rule align_up_ge)
  have al: "a < 65536" using assms(4) unsigned_less [of "dn_len e", where ?'a = nat] by simp
  have ua: "unat (of_nat a :: u16) = a" by (rule unat_of_nat_16 [OF al])
  have ul: "unat (dn_len e - of_nat a) = unat (dn_len e) - a" using assms(4) by (simp add: unat_sub_small word_le_nat_alt ua)
  have fit: "p + a + 8 + length nm \<le> length buf" using assms(2,4) e(3) by simp
  have l1: "length b1 = length buf" using assms(7) fit by simp
  have leb: "length (entry_bytes i l n k) = 8" for i l n k by (simp add: entry_bytes_def)
  have l2: "length b2 = length buf" using assms(8) l1 fit leb by simp
  show l3: "length b3 = length buf" using assms(9) l2 fit by simp
  have h1: "holds b1 p (dent_bytes (shrunk e))" using holds_new_len [OF e(2)] assms(3,7) by (simp add: shrunk_def)
  hence "holds b2 p (dent_bytes (shrunk e))" unfolding assms(8)
    by (subst holds_overlay_other) (use l1 fit leb a8 in \<open>auto simp: shrunk_def\<close>)
  hence hs: "holds b3 p (dent_bytes (shrunk e))" unfolding assms(9)
    by (subst holds_overlay_other) (use l2 fit a8 in \<open>auto simp: shrunk_def\<close>)
  have "holds b2 (p + a) (entry_bytes child (dn_len e - of_nat a) (of_nat (length nm)) (ucast kind))"
    unfolding assms(8) by (rule holds_overlay_same) (use l1 fit leb in simp)
  hence "holds b3 (p + a) (entry_bytes child (dn_len e - of_nat a) (of_nat (length nm)) (ucast kind))"
    unfolding assms(9) by (subst holds_overlay_other) (use l2 fit leb in auto)
  moreover have "holds b3 (p + a + 8) nm" unfolding assms(9) by (rule holds_overlay_same) (use l2 fit in simp)
  ultimately have hn: "holds b3 (p + a) (dent_bytes (appended e child nm kind))"
    using assms(3) leb by (simp add: dent_bytes_def appended_def holds_append)
  show "dir_from b3 sz p [shrunk e, appended e child nm kind]"
    using hs hn e(1,3) assms(3-6) a8 ua ul by (simp add: dent_ok_def shrunk_def appended_def)
  show "dir_from b3 p 0 es" if "dir_from buf p 0 es" for es
    unfolding assms(7-9)
    by (intro dir_from_overlay that) (use fit leb in auto)
qed

lemma insert_place:
  assumes "dir_from buf (unat (sz :: u32)) 0 (es @ [e])"
  shows "unat (sz - ucast (dn_len e)) = dir_size es" and "dir_from buf (unat sz) (dir_size es) [e]" and "dir_from buf (dir_size es) 0 es"
proof -
  show d: "dir_from buf (unat sz) (dir_size es) [e]" "dir_from buf (dir_size es) 0 es"
    using assms dir_from_append [of buf "unat sz" 0 es "[e]"] dir_from_size [of buf "dir_size es" 0 es] by auto
  have "unat sz = dir_size es + unat (dn_len e)" using d(1) by simp
  then show "unat (sz - ucast (dn_len e)) = dir_size es" by (simp add: unat_sub_small word_le_nat_alt unat_u16_u32)
qed

lemma insert_entry_dir:
  assumes "dir_from buf (unat sz) 0 (es @ [e])" and "unat sz \<le> length buf" and "length nm < 256" and "0 \<notin> set nm"
  shows "align_up (8 + length (dn_name e)) + align_up (8 + length nm) \<le> unat (dn_len e) \<Longrightarrow>
      \<exists>b. insert_entry buf sz child (nm @ rest) (of_nat (length nm)) kind = Ok (Some b) \<and> length b = length buf
        \<and> dir_from b (unat sz) 0 (es @ [shrunk e, appended e child nm kind])"
    and "\<not> align_up (8 + length (dn_name e)) + align_up (8 + length nm) \<le> unat (dn_len e) \<Longrightarrow>
      insert_entry buf sz child (nm @ rest) (of_nat (length nm)) kind = Ok None"
proof -
  let ?p = "dir_size es" and ?a = "align_up (8 + length (dn_name e))" and ?n = "align_up (8 + length nm)"
  note i = insert_place [OF assms(1)]
  have e: "dent_ok e" "holds buf ?p (dent_bytes e)" "?p + unat (dn_len e) = unat sz" using i(2) by auto
  have le: "last_entry (unat sz) buf sz 0 None = Ok (Some (sz - ucast (dn_len e)), sz)"
    using last_entry_dir [of buf sz 0 "es @ [e]" "unat sz" None] assms(1) walk_fuel [OF assms(1)] by simp
  have h: "holds buf (unat (sz - ucast (dn_len e))) (dent_bytes e)" using e(2) i(1) by simp
  note fl = dent_fields [OF h]
  have nl: "unat (of_nat (length (dn_name e)) :: u8) = length (dn_name e)" "unat (of_nat (length nm) :: u8) = length nm"
    using e(1) assms(3) by (simp_all add: dent_ok_def unat_of_nat)
  let ?al = "align4 (entry_size (of_nat (length (dn_name e))))" and ?ne = "ucast (align4 (entry_size (of_nat (length nm)))) :: u16"
  have al: "unat ?al = ?a" "unat (ucast ?al :: u16) = ?a" "unat ?ne = ?n" "unat (entry_size (of_nat (length (dn_name e)))) = 8 + length (dn_name e)"
    using entry_room [of "of_nat (length (dn_name e))"] entry_room(3) [of "of_nat (length nm)"] nl by simp_all
  have an: "?a < 65536" "?n < 65536" using al(2,3) unsigned_less [of "ucast ?al :: u16", where ?'a = nat] unsigned_less [of ?ne, where ?'a = nat] by simp_all
  have "unat (?al + ucast ?ne) = ?a + ?n" using an al(1,3) by (simp add: unat_word_ariths unat_u16_u32)
  hence cond: "ucast (dn_len e) < ?al + ucast ?ne \<longleftrightarrow> \<not> ?a + ?n \<le> unat (dn_len e)" by (simp add: word_less_nat_alt unat_u16_u32 not_le)
  show "insert_entry buf sz child (nm @ rest) (of_nat (length nm)) kind = Ok None" if "\<not> ?a + ?n \<le> unat (dn_len e)"
    using le fl(2,3) that cond by (simp add: insert_entry_def Let_def)
  assume room: "?a + ?n \<le> unat (dn_len e)"
  have ua: "(ucast ?al :: u16) = of_nat ?a" using al(2) by (metis of_nat_unat ucast_id)
  have lt: "?p + ?a \<le> unat sz" using room e(3) by simp
  have at: "unat (sz - ucast (dn_len e) + ?al) = ?p + ?a"
    using i(1) al(1) lt unsigned_less [of sz, where ?'a = nat] by (simp add: unat_word_ariths)
  let ?b1 = "overlay buf (?p + 4) (bytes16 (of_nat ?a))"
  let ?b2 = "overlay ?b1 (?p + ?a) (entry_bytes child (dn_len e - of_nat ?a) (of_nat (length nm)) (ucast kind))"
  let ?b3 = "overlay ?b2 (?p + ?a + 8) nm"
  have fit: "?p + ?a + 8 + length nm \<le> length buf" using assms(2) room e(3) align_up_ge [of "8 + length nm"] by simp
  have big: "?p + 8 + length (dn_name e) \<le> length buf" "8 + length (dn_name e) \<le> ?a" using e(1,3) assms(2) align_up_ge by (auto simp: dent_ok_def)
  have leb: "length (entry_bytes j l n k) = 8" for j l n k by (simp add: entry_bytes_def)
  have s1: "set16 buf (?p + 4) (of_nat ?a) = Ok ?b1" using big by (intro set16_Ok) simp
  have l1: "length ?b1 = length buf" using big by simp
  have s2: "put_bytes ?b1 (?p + ?a) (entry_bytes child (dn_len e - of_nat ?a) (of_nat (length nm)) (ucast kind)) = Ok ?b2"
    using fit leb l1 by (intro put_overlay) simp
  have l2: "length ?b2 = length buf" using fit leb l1 by simp
  have s3: "put_bytes ?b2 (?p + ?a + 8) nm = Ok ?b3" using fit l2 by (intro put_overlay) simp
  have "insert_entry buf sz child (nm @ rest) (of_nat (length nm)) kind = Ok (Some ?b3)"
    using le fl(2,3) cond room s1 s2 s3 l1 big
    by (simp add: insert_entry_def Let_def i(1) al(4) at nl ua del: length_overlay)
  moreover have "?a + 8 + length nm \<le> unat (dn_len e)" using room align_up_ge [of "8 + length nm"] by simp
  note ap = append_step [OF i(2) assms(2) refl this assms(3,4) refl refl refl, where child = child and kind = kind]
  ultimately show "\<exists>b. insert_entry buf sz child (nm @ rest) (of_nat (length nm)) kind = Ok (Some b) \<and> length b = length buf
        \<and> dir_from b (unat sz) 0 (es @ [shrunk e, appended e child nm kind])"
    using ap(1,2) ap(3) [OF i(3)] dir_from_append [of ?b3 "unat sz" 0 es "[shrunk e, appended e child nm kind]"] by simp
qed

text \<open>C18: appending an entry keeps a directory well formed: the last entry shrinks to the space of its name, the new one gets
  the rest, every name that was found is still found with its inode, and without room nothing is changed.\<close>

theorem insert_entry_appends:
  assumes "dir_from buf (unat sz) 0 (es @ [e])" and "unat sz \<le> length buf" and "length nm < 256" and "0 \<notin> set nm"
  shows "if align_up (8 + length (dn_name e)) + align_up (8 + length nm) \<le> unat (dn_len e)
    then \<exists>b. insert_entry buf sz child (nm @ rest) (of_nat (length nm)) kind = Ok (Some b) \<and> length b = length buf
      \<and> dir_from b (unat sz) 0 (es @ [shrunk e, appended e child nm kind])
      \<and> (\<forall>c x. find (names c) (es @ [e]) = Some x
          \<longrightarrow> map_option dn_inode (find (names c) (es @ [shrunk e, appended e child nm kind])) = Some (dn_inode x))
    else insert_entry buf sz child (nm @ rest) (of_nat (length nm)) kind = Ok None"
proof -
  have "map_option dn_inode (find (names c) (es @ [shrunk e, appended e child nm kind])) = Some (dn_inode x)"
    if "find (names c) (es @ [e]) = Some x" for c x
    using that by (induction es) (auto simp: names_def shrunk_def split: if_splits)
  then show ?thesis using insert_entry_dir [OF assms] by simp
qed

section \<open>Erasing an entry\<close>

lemma upd_overlay: "i < length b \<Longrightarrow> b[i := v] = overlay b i [v]"
  by (simp add: overlay_def upd_conv_take_nth_drop)

lemma dir_from_overlay_before:
  assumes "dir_from buf sz off es" and "o' + length bs \<le> off" and "o' + length bs \<le> length buf"
  shows "dir_from (overlay buf o' bs) sz off es"
  by (rule dir_from_cong [OF assms(1)]) (subst holds_overlay_other, use assms(2,3) in \<open>auto simp: dent_ok_def\<close>)

text \<open>The bytes an erased entry loses.\<close>

definition wiped :: "u8 list \<Rightarrow> nat \<Rightarrow> u8 list" where
  "wiped b p = overlay (overlay (overlay (overlay b p (bytes32 0)) (p + 6) [0]) (p + 7) [0]) (p + 8) [0]"

lemma wiped_facts:
  assumes "p + 9 \<le> length b"
  shows "length (wiped b p) = length b" and "j + length cs \<le> p \<or> p + 9 \<le> j \<Longrightarrow> holds (wiped b p) j cs = holds b j cs"
    and "get16 (wiped b p) (p + 4) = get16 b (p + 4)"
    and "rbind (set32 b p 0) (\<lambda>b. rbind (wr b (p + 6) 0) (\<lambda>b. rbind (wr b (p + 7) 0) (\<lambda>b. wr b (p + 8) 0))) = Ok (wiped b p)"
  using assms by (auto simp: wiped_def holds_overlay_other get16_other set32_Ok upd_overlay)

lemma wiped_dir:
  assumes "p + 9 \<le> length b" and "dir_from b sz off es"
  shows "sz \<le> p \<or> p + 9 \<le> off \<Longrightarrow> dir_from (wiped b p) sz off es"
  by (rule dir_from_cong [OF assms(2)]) (subst wiped_facts(2) [OF assms(1)], auto simp: dent_ok_def)

lemma erase_entry_dir:
  assumes "dir_from buf (unat sz) 0 (pre @ q # e # post)" and "unat sz \<le> length buf" and "dn_name e \<noteq> []"
    and "unat (dn_len q) + unat (dn_len e) < 65536"
    and "unat off = dir_size (pre @ [q])" and "unat qo = dir_size pre"
  shows "\<exists>b. erase_entry buf off (Some qo) = Ok b \<and> length b = length buf
    \<and> dir_from b (unat sz) 0 (pre @ q\<lparr>dn_len := dn_len q + dn_len e\<rparr> # post)"
proof -
  let ?p = "dir_size (pre @ [q])" and ?q = "dir_size pre" and ?z = "unat sz"
  let ?l = "dn_len q + dn_len e"
  have d: "dir_from buf ?q 0 pre" "dir_from buf ?z ?q (q # e # post)"
    using assms(1) dir_from_append [of buf ?z 0 pre "q # e # post"] by auto
  have dq: "dent_ok q" "holds buf ?q (dent_bytes q)" "dent_ok e" "holds buf ?p (dent_bytes e)" "dir_from buf ?z (?p + unat (dn_len e)) post"
    using d(2) by auto
  have "0 < length (dn_name e)" "8 + length (dn_name e) \<le> unat (dn_len e)" using assms(3) dq(3) by (simp_all add: dent_ok_def)
  hence "9 \<le> unat (dn_len e)" by linarith
  hence bounds: "?q + 8 + length (dn_name q) \<le> ?p" "?p + 9 \<le> ?p + unat (dn_len e)" "?p + unat (dn_len e) \<le> ?z"
    using dq(1,3) assms(3) dir_from_size [OF dq(5)] by (auto simp: dent_ok_def Suc_le_eq)
  have p9: "?p + 9 \<le> length buf" using bounds assms(2) by linarith
  let ?w = "wiped buf ?p"
  note w = wiped_facts [OF p9]
  have hq: "holds ?w ?q (dent_bytes q)" using dq(2) w(2) bounds(1) by simp
  let ?b1 = "overlay ?w (?q + 4) (bytes16 ?l)"
  let ?b2 = "overlay ?b1 (?p + 4) (bytes16 0)"
  have l1: "length ?b1 = length buf" using w(1) p9 bounds(1) by simp
  have l2: "length ?b2 = length buf" using l1 p9 by simp
  have "de_rec_len ?w off = Ok (dn_len e)"
    using w(3) dent_fields(2) [of buf off e] dq(4) assms(5) by (simp add: de_rec_len_def)
  moreover have "de_rec_len ?w qo = Ok (dn_len q)" using dent_fields(2) [of ?w qo q] hq assms(6) by simp
  moreover have "set16 ?w (unat qo + 4) ?l = Ok ?b1" using w(1) p9 bounds(1) assms(6) by (simp add: set16_Ok)
  moreover have "set16 ?b1 (unat off + 4) 0 = Ok ?b2" using l1 p9 assms(5) by (simp add: set16_Ok)
  ultimately have "erase_entry buf off (Some qo) = Ok ?b2"
    using w(4) assms(5) by (auto simp: erase_entry_def rbind_eq_Ok)
  moreover have "dir_from ?b2 ?z 0 (pre @ q\<lparr>dn_len := ?l\<rparr> # post)"
  proof -
    have "unat ?l = unat (dn_len q) + unat (dn_len e)" using assms(4) by (simp add: unat_word_ariths)
    moreover have "holds ?b2 ?q (dent_bytes (q\<lparr>dn_len := ?l\<rparr>))"
      using holds_new_len [OF hq, of ?l] l1 p9 bounds(1) by (subst holds_overlay_other) auto
    moreover have "dir_from ?b2 ?q 0 pre"
      by (intro dir_from_overlay wiped_dir [OF p9 d(1)]) (use w(1) l1 p9 bounds(1) in auto)
    moreover have "dir_from ?b2 ?z (?p + unat (dn_len e)) post"
      by (intro dir_from_overlay_before wiped_dir [OF p9 dq(5)]) (use w(1) l1 p9 bounds in auto)
    ultimately show ?thesis using dq(1) dir_from_append [of ?b2 ?z 0 pre "q\<lparr>dn_len := ?l\<rparr> # post"]
      by (simp add: dent_ok_def dent_bytes_def add.assoc)
  qed
  ultimately show ?thesis using l2 by blast
qed

lemma erase_first_entry:
  assumes "dir_from buf (unat sz) 0 (e # es)" and "unat sz \<le> length buf" and "dn_name e \<noteq> []"
  shows "\<exists>b. erase_entry buf 0 None = Ok b \<and> holds b 0 (dent_bytes \<lparr>dn_inode = 0, dn_len = 0, dn_kind = 0, dn_name = []\<rparr>)"
proof -
  have e: "dent_ok e" "holds buf 0 (dent_bytes e)" "unat (dn_len e) \<le> unat sz"
    using assms(1) dir_from_size [OF assms(1)] by auto
  have p9: "0 + 9 \<le> length buf" using e(1,3) assms(2,3) by (auto simp: dent_ok_def Suc_le_eq neq_Nil_conv)
  note w = wiped_facts [OF p9]
  let ?b = "overlay (wiped buf 0) 4 (bytes16 0)"
  have "de_rec_len (wiped buf 0) 0 = Ok (dn_len e)"
    using w(3) dent_fields(2) [of buf 0 e] e(2) by (simp add: de_rec_len_def)
  moreover have "set16 (wiped buf 0) 4 0 = Ok ?b" using w(1) p9 by (simp add: set16_Ok)
  ultimately have "erase_entry buf 0 None = Ok ?b" using w(4) by (auto simp: erase_entry_def rbind_eq_Ok)
  moreover have "holds ?b 0 (bytes32 0 @ bytes16 0 @ [0] @ [0])"
    unfolding holds_append using w(1) p9
    by (simp add: holds_overlay_other holds_overlay_same wiped_def)
  hence "holds ?b 0 (dent_bytes \<lparr>dn_inode = 0, dn_len = 0, dn_kind = 0, dn_name = []\<rparr>)" by (simp add: dent_bytes_def entry_bytes_def)
  ultimately show ?thesis by blast
qed

text \<open>C19: deleting an entry, found by its inode, keeps a directory well formed: the entry before it takes over its space and
  all other entries stay as they are.\<close>

theorem erase_entry_removes:
  assumes "dir_from buf (unat sz) 0 (pre @ q # e # post)" and "unat sz \<le> length buf" and "dn_name e \<noteq> []"
    and "unat (dn_len q) + unat (dn_len e) < 65536" and "dn_inode e = target" and "\<forall>x \<in> set (pre @ [q]). dn_inode x \<noteq> target"
  shows "\<exists>off b. find_entry False (unat sz) buf sz 0 None (\<lambda>off. rbind (de_inode buf off) (\<lambda>i. Ok (i = target)))
      = Ok (Some off, Some (of_nat (dir_size pre)))
    \<and> erase_entry buf off (Some (of_nat (dir_size pre))) = Ok b \<and> length b = length buf
    \<and> dir_from b (unat sz) 0 (pre @ q\<lparr>dn_len := dn_len q + dn_len e\<rparr> # post)"
proof -
  let ?P = "\<lambda>off. rbind (de_inode buf off) (\<lambda>i. Ok (i = target))" and ?Q = "\<lambda>x. dn_inode x = target"
  have dec: "decides buf ?P ?Q" by (auto simp: decides_def dent_fields(1))
  have d: "dir_from buf (unat sz) (unat 0) ((pre @ [q]) @ e # post)" using assms(1) by simp
  have s: "dir_size (pre @ [q]) \<le> unat sz" using dir_from_size [OF assms(1)] by simp
  hence u: "unat (of_nat (dir_size (pre @ [q])) :: u32) = dir_size (pre @ [q])" "unat (of_nat (dir_size pre) :: u32) = dir_size pre"
    using unsigned_less [of sz, where ?'a = nat] by (intro unat_of_nat_32; simp)+
  have "length (pre @ [q]) < unat sz" using walk_fuel [OF assms(1)] by simp
  from find_entry_hit [where capped = False and prev = None, OF dec assms(5) d this assms(6)]
  have "find_entry False (unat sz) buf sz 0 None ?P = Ok (Some (of_nat (dir_size (pre @ [q]))), Some (of_nat (dir_size pre)))" by simp
  then show ?thesis using erase_entry_dir [OF assms(1-4) u] by blast
qed

text \<open>erasing the first entry of a directory, which has none before it, leaves an entry without a name and without length:
  every later lookup in that directory finds this entry, whatever the name, and gives inode 0.\<close>

theorem erase_first_entry_breaks:
  assumes "dir_from buf (unat sz) 0 (e # es)" and "unat sz \<le> length buf" and "dn_name e \<noteq> []"
  shows "\<exists>b. erase_entry buf 0 None = Ok b \<and> (\<forall>tok. find_entry False (unat sz) b sz 0 None (entry_named b tok) = Ok (Some 0, None))
    \<and> de_inode b 0 = Ok 0"
proof -
  obtain b where b: "erase_entry buf 0 None = Ok b" "holds b 0 (dent_bytes \<lparr>dn_inode = 0, dn_len = 0, dn_kind = 0, dn_name = []\<rparr>)"
    using erase_first_entry [OF assms] by blast
  have h: "holds b (unat 0) (dent_bytes \<lparr>dn_inode = 0, dn_len = 0, dn_kind = 0, dn_name = []\<rparr>)" using b(2) by simp
  have "entry_named b tok 0 = Ok True" for tok using dent_fields(3) [OF h] by (simp add: entry_named_def)
  moreover have "0 < unat sz" using step_offset(2) [of buf sz 0 e es] assms(1) by (simp add: word_less_nat_alt)
  then obtain k where "unat sz = Suc k" "0 < sz" by (auto simp: gr0_conv_Suc word_less_nat_alt)
  ultimately show ?thesis using b(1) dent_fields(1) [OF h] by (intro exI [of _ b]) simp
qed

section \<open>A small file system\<close>

definition pad_dent :: "dent \<Rightarrow> u8 list" where
  "pad_dent e = dent_bytes e @ replicate (unat (dn_len e) - (8 + length (dn_name e))) 0"

definition dir_bytes :: "dent list \<Rightarrow> u8 list" where
  "dir_bytes es = concat (map pad_dent es)"

lemma length_pad_dent: "dent_ok e \<Longrightarrow> length (pad_dent e) = unat (dn_len e)"
  by (simp add: pad_dent_def dent_ok_def)

lemma pad_dent_holds: "holds (pre @ pad_dent e @ rest) (length pre) (dent_bytes e)"
  by (simp add: holds_def pad_dent_def)

lemma dir_bytes_size: "\<forall>e \<in> set es. dent_ok e \<Longrightarrow> length (dir_bytes es) = dir_size es"
  by (induction es) (auto simp: dir_bytes_def length_pad_dent)

lemma dir_bytes_dir:
  "\<forall>e \<in> set es. dent_ok e \<Longrightarrow> dir_from (pre @ dir_bytes es @ rest) (length pre + dir_size es) (length pre) es"
proof (induction es arbitrary: pre)
  case (Cons e es)
  have "dir_from ((pre @ pad_dent e) @ dir_bytes es @ rest) (length (pre @ pad_dent e) + dir_size es) (length (pre @ pad_dent e)) es"
    by (rule Cons.IH) (use Cons.prems in simp)
  then show ?case using Cons.prems
    using pad_dent_holds [of pre e "dir_bytes es @ rest"] by (simp add: dir_bytes_def length_pad_dent add.assoc)
qed simp

text \<open>The root directory with a file \<open>ab\<close> that holds \<open>hello\<close>.\<close>

definition dot_example :: dent where "dot_example = \<lparr>dn_inode = 2, dn_len = 12, dn_kind = 2, dn_name = [46]\<rparr>"
definition dots_example :: dent where "dots_example = \<lparr>dn_inode = 2, dn_len = 12, dn_kind = 2, dn_name = [46, 46]\<rparr>"
definition ab_example :: dent where "ab_example = \<lparr>dn_inode = 3, dn_len = 1000, dn_kind = 1, dn_name = [97, 98]\<rparr>"
definition root_example :: "dent list" where "root_example = [dot_example, dots_example, ab_example]"

lemmas dent_examples = dot_example_def dots_example_def ab_example_def

definition inode_example :: "u16 \<Rightarrow> u32 \<Rightarrow> u32 \<Rightarrow> u8 list" where
  "inode_example m sz b = bytes16 m @ bytes16 0 @ bytes32 sz @ replicate 32 0 @ bytes32 b @ replicate 84 0"

definition hello_example :: "u8 list" where "hello_example = [104, 101, 108, 108, 111]"

definition drive_tree :: drive where
  "drive_tree = drive_example\<lparr>dr_sector := (\<lambda>a. if a = 10 then replicate 128 0 @ inode_example 0x4000 1024 20 @ inode_example 0x8000 5 30 @ replicate 128 0
     else if a = 40 then take 512 (dir_bytes root_example) else if a = 41 then drop 512 (dir_bytes root_example)
     else if a = 60 then hello_example @ replicate 507 0 else replicate 512 0)\<rparr>"

definition fs_tree :: fs where "fs_tree = with_drive fs_example 0 drive_tree"

lemma root_example_ok: "\<forall>e \<in> set root_example. dent_ok e" "dir_size root_example = 1024" "length (dir_bytes root_example) = 1024"
proof -
  show ok: "\<forall>e \<in> set root_example. dent_ok e" by (simp add: root_example_def dent_ok_def dent_examples)
  show "dir_size root_example = 1024" by (simp add: root_example_def dent_examples)
  then show "length (dir_bytes root_example) = 1024" using dir_bytes_size [OF ok] by simp
qed

lemma words32_bytes32 [simp]: "words32 (bytes32 v @ r) = v # words32 r"
  using w32_bytes [of v] by (simp add: bytes32_def w32_def)

lemma inode_example_fields:
  "length (inode_example m sz b) = 128" "i_mode (inode_example m sz b) = Ok m" "i_size (inode_example m sz b) = Ok sz"
  "take 12 (i_blocks (inode_example m sz b)) ! 0 = b" "List.hd (take 12 (i_blocks (inode_example m sz b))) = b"
proof -
  have "holds (inode_example m sz b) 0 (bytes16 m @ bytes16 0 @ bytes32 sz)" by (simp add: holds_def inode_example_def)
  hence "holds (inode_example m sz b) 0 (bytes16 m)" "holds (inode_example m sz b) 4 (bytes32 sz)" unfolding holds_append by (simp_all add: eval_nat_numeral)
  then show "i_mode (inode_example m sz b) = Ok m" "i_size (inode_example m sz b) = Ok sz"
    by (simp_all add: i_mode_def i_size_def holds_get32 holds_get16)
  have "i_blocks (inode_example m sz b) = b # words32 (replicate 56 0)" by (simp add: i_blocks_def inode_example_def)
  then show "take 12 (i_blocks (inode_example m sz b)) ! 0 = b" "List.hd (take 12 (i_blocks (inode_example m sz b))) = b" by simp_all
qed (simp add: inode_example_def)

lemma sector_examples:
  "length (dr_sector drive_tree a) = 512"
  "dr_sector drive_tree 10 = replicate 128 0 @ inode_example 0x4000 1024 20 @ inode_example 0x8000 5 30 @ replicate 128 0"
  "dr_sector drive_tree 40 @ dr_sector drive_tree 41 = dir_bytes root_example"
  "dr_sector drive_tree 60 = hello_example @ replicate 507 0"
  using root_example_ok(3) by (simp_all add: drive_tree_def inode_example_fields(1) hello_example_def)

lemma two_sectors: "disk_bytes d a 2 = dr_sector d a @ dr_sector d (a + 1)"
  by (simp add: disk_bytes_def numeral_2_eq_2)

lemma fs_tree_simps [simp]: "fpart fs_tree = fpart fs_example" "drive_of fs_tree 0 = drive_tree" "pt_lba (fpart fs_example) = 0"
  by (simp_all add: fs_tree_def) (simp add: fs_example_def)

lemma fs_tree_ok: "fs_ok fs_tree 0"
  unfolding fs_tree_def
  by (rule fs_ok_with_drive [OF fs_example_ok]) (simp add: drive_ok_def sector_examples(1), simp add: drive_tree_def drive_example_def)

definition place_example :: "u32 \<Rightarrow> inode_place" where
  "place_example ino = \<lparr>ip_group = 0, ip_index = ino - 1, ip_lba = 10, ip_offset = (ino - 1) * 128, ip_count = 1024\<rparr>"

lemma fs_tree_inodes:
  "inode_ready fs_tree 0 2 (place_example 2)" "inode_data fs_tree 0 (place_example 2) = inode_example 0x4000 1024 20"
  "inode_ready fs_tree 0 3 (place_example 3)" "inode_data fs_tree 0 (place_example 3) = inode_example 0x8000 5 30"
  using fs_example_inode [of 2] fs_example_inode [of 3]
  by (simp_all add: place_example_def inode_ready_def fs_tree_ok inode_at_def inode_data_def place_data_def two_sectors sector_examples(2) inode_example_fields(1))

lemma fs_tree_blocks:
  "block_data fs_tree 0 20 = dir_bytes root_example" "block_data fs_tree 0 30 = hello_example @ replicate 507 0 @ dr_sector drive_tree 61"
  by (simp_all add: block_data_def block_addr_def two_sectors sector_examples(3,4))

lemma first_block:
  "b = List.hd bs \<Longrightarrow> bs \<noteq> [] \<Longrightarrow> blocks_data s port bs = block_data s port b @ blocks_data s port (List.tl bs)"
  by (cases bs) (simp_all add: blocks_data_def)

lemma inode_example_blocks:
  "blocks_data s port (take 12 (i_blocks (inode_example m sz b)))
    = block_data s port b @ blocks_data s port (List.tl (take 12 (i_blocks (inode_example m sz b))))"
proof (rule first_block)
  have "length (i_blocks (inode_example m sz b)) = 15" by (simp add: i_blocks_def length_words32 inode_example_fields(1))
  then show "take 12 (i_blocks (inode_example m sz b)) \<noteq> []" by auto
qed (simp add: inode_example_fields(5))

lemma fs_tree_root: "dir_at fs_tree 0 2 root_example"
proof -
  let ?bl = "take 12 (i_blocks (inode_example 0x4000 1024 20))"
  have "dir_from ([] @ dir_bytes root_example @ blocks_data fs_tree 0 (List.tl ?bl)) (length ([] :: u8 list) + dir_size root_example) (length ([] :: u8 list)) root_example"
    by (rule dir_bytes_dir [OF root_example_ok(1)])
  hence "dir_from (blocks_data fs_tree 0 ?bl) 1024 0 root_example"
    unfolding inode_example_blocks by (simp add: fs_tree_blocks(1) root_example_ok(2))
  moreover have "?bl ! i \<noteq> 0" if "i * 1024 < 1024" for i using that inode_example_fields(4) by simp
  ultimately show ?thesis unfolding dir_at_def
    by (intro exI [of _ "place_example 2"] exI [of _ "0x4000"] exI [of _ 1024] exI [of _ ?bl])
      (simp add: fs_tree_inodes inode_example_fields(2,3) INODE_TYPE_DIR_def)
qed

lemma fs_tree_file: "file_at fs_tree 0 3 hello_example"
proof -
  let ?bl = "take 12 (i_blocks (inode_example 0x8000 5 30))"
  have "take 5 (blocks_data fs_tree 0 ?bl) = hello_example"
    unfolding inode_example_blocks by (simp add: fs_tree_blocks(2) hello_example_def)
  moreover have "?bl ! i \<noteq> 0" if "i * 1024 < 5" for i using that inode_example_fields(4) by (cases i) simp_all
  ultimately show ?thesis unfolding file_at_def
    by (intro exI [of _ "place_example 3"] exI [of _ "0x8000"] exI [of _ 5] exI [of _ ?bl])
      (simp add: fs_tree_inodes inode_example_fields(2,3) INODE_TYPE_DIR_def hello_example_def)
qed

definition tree_example :: "u32 \<Rightarrow> dent list option" where
  "tree_example i = (if i = 2 then Some root_example else None)"

lemma tree_example_ok: "tree_at fs_tree 0 tree_example" "walk tree_example 2 [[97, 98]] = Some 3" "walk tree_example 2 [[99]] = Some 0"
proof -
  show "tree_at fs_tree 0 tree_example" by (simp add: tree_at_def tree_example_def fs_tree_root)
  show "walk tree_example 2 [[97, 98]] = Some 3" "walk tree_example 2 [[99]] = Some 0"
    by (simp_all add: tree_example_def root_example_def names_def dent_examples)
qed

lemma root_example_dir: "dir_from (dir_bytes root_example) (unat (1024 :: u32)) 0 [dot_example, dots_example, ab_example]"
  using dir_bytes_dir [OF root_example_ok(1), of "[]" "[]"] root_example_ok(2) by (simp add: root_example_def)

theorem path_to_inode_resolves_witness: "ext2_path_to_inode [47, 97, 98, 0] fs_tree = Ok (3, fs_tree)"
  using path_to_inode_resolves [OF tree_example_ok(1) _ _ _ tree_example_ok(2)] by (simp add: component_ok_def)

theorem read_file_contents_witness:
  "ext2_read_file [47, 97, 98, 0] [1, 2, 3, 4, 5] 3 0 fs_tree = Ok ((EXT2_RESULT_OK, [104, 101, 108, 4, 5]), fs_tree)"
  using read_file_contents [OF tree_example_ok(1) _ _ _ tree_example_ok(2) _ fs_tree_file, of 3 "[1, 2, 3, 4, 5]"]
  by (simp add: component_ok_def hello_example_def)

theorem insert_entry_appends_witness:
  "\<exists>b. insert_entry (dir_bytes root_example) 1024 9 [99, 0] 1 1 = Ok (Some b) \<and> length b = 1024
    \<and> dir_from b 1024 0 [dot_example, dots_example, ab_example\<lparr>dn_len := 12\<rparr>, \<lparr>dn_inode = 9, dn_len = 988, dn_kind = 1, dn_name = [99]\<rparr>]"
proof -
  have d: "dir_from (dir_bytes root_example) (unat (1024 :: u32)) 0 ([dot_example, dots_example] @ [ab_example])"
    using root_example_dir by simp
  have n: "dn_name ab_example = [97, 98]" "dn_len ab_example = 1000" by (simp_all add: ab_example_def)
  have s: "shrunk ab_example = ab_example\<lparr>dn_len := 12\<rparr>" "appended ab_example 9 [99] 1 = \<lparr>dn_inode = 9, dn_len = 988, dn_kind = 1, dn_name = [99]\<rparr>"
    by (simp_all add: shrunk_def appended_def align_up_def n)
  have "align_up (8 + length (dn_name ab_example)) + align_up (8 + length [99 :: u8]) \<le> unat (dn_len ab_example)"
    by (simp add: n align_up_def)
  with insert_entry_appends [OF d, of "[99]" 9 "[0]" 1] root_example_ok(3) obtain b where
    "insert_entry (dir_bytes root_example) 1024 9 ([99] @ [0]) (of_nat (length [99 :: u8])) 1 = Ok (Some b)" "length b = 1024"
    "dir_from b (unat (1024 :: u32)) 0 ([dot_example, dots_example] @ [shrunk ab_example, appended ab_example 9 [99] 1])"
    by (auto simp del: dir_from.simps)
  then show ?thesis unfolding s by (intro exI [of _ b]) (simp del: dir_from.simps)
qed

theorem erase_entry_removes_witness:
  "\<exists>off b. find_entry False 1024 (dir_bytes root_example) 1024 0 None (\<lambda>off. rbind (de_inode (dir_bytes root_example) off) (\<lambda>i. Ok (i = 3)))
      = Ok (Some off, Some 12)
    \<and> erase_entry (dir_bytes root_example) off (Some 12) = Ok b
    \<and> dir_from b 1024 0 [dot_example, dots_example\<lparr>dn_len := 1012\<rparr>]"
proof -
  have d: "dir_from (dir_bytes root_example) (unat (1024 :: u32)) 0 ([dot_example] @ dots_example # ab_example # [])"
    using root_example_dir by simp
  have f: "dn_len dot_example = 12" "dn_len dots_example = 12" "dn_len ab_example = 1000" "dn_name ab_example = [97, 98]"
    "dn_inode dot_example = 2" "dn_inode dots_example = 2" "dn_inode ab_example = 3" by (simp_all add: dent_examples)
  obtain off b where "find_entry False (unat (1024 :: u32)) (dir_bytes root_example) 1024 0 None
        (\<lambda>off. rbind (de_inode (dir_bytes root_example) off) (\<lambda>i. Ok (i = 3))) = Ok (Some off, Some (of_nat (dir_size [dot_example])))"
    "erase_entry (dir_bytes root_example) off (Some (of_nat (dir_size [dot_example]))) = Ok b"
    "dir_from b (unat (1024 :: u32)) 0 ([dot_example] @ dots_example\<lparr>dn_len := dn_len dots_example + dn_len ab_example\<rparr> # [])"
    using erase_entry_removes [OF d, of 3] root_example_ok(3) by (auto simp: f simp del: dir_from.simps)
  then show ?thesis by (intro exI [of _ off] exI [of _ b]) (simp add: f del: dir_from.simps)
qed

theorem erase_first_entry_breaks_witness:
  "\<exists>b. erase_entry (dir_bytes root_example) 0 None = Ok b \<and> find_entry False 1024 b 1024 0 None (entry_named b [97, 98, 0]) = Ok (Some 0, None)"
proof -
  have "dn_name dot_example \<noteq> []" by (simp add: dent_examples)
  with erase_first_entry_breaks [OF root_example_dir] root_example_ok(3) show ?thesis by auto
qed

end
