(* ===== verification/Ext2Props.thy ===== *)
theory Ext2Props
  imports Ext2Dir
begin

text \<open>What the EXT2 driver does to the disk: how much of a block is written, where the superblock and the descriptors go when a
  partition is flushed; and the theorems about blocks on the small file system.\<close>

section \<open>Writing a block\<close>

text \<open>\<open>ext2_write_block\<close> stores the first 512 bytes of a block only: reading the block back gives these followed by what
  the block held before.\<close>

theorem write_block_truncates:
  assumes "fs_ok s port" and "b \<noteq> 0" and "length buf = block_bytes (fpart s)" and "length buf1 = block_bytes (fpart s)"
  shows "\<exists>s'. ext2_write_block b buf s = Ok (1, s')
    \<and> ext2_read_block b buf1 s' = Ok ((1, take 512 buf @ drop 512 (block_data s port b)), s')"
proof -
  have "512 \<le> length buf" using assms(3) fs_ok_block(2,3) [OF assms(1)] by simp
  from write_block_first_sector [OF assms(1,2) this] obtain s' where
    s': "ext2_write_block b buf s = Ok (1, s')" "fs_ok s' port" "fpart s' = fpart s"
      "block_data s' port b = take 512 buf @ drop 512 (block_data s port b)" by auto
  have "ext2_read_block b buf1 s' = Ok ((1, block_data s' port b @ drop (block_bytes (fpart s')) buf1), s')"
    by (rule read_block_ok [OF s'(2) assms(2)]) (use assms(4) s'(3) in simp)
  then show ?thesis using s' assms(4) by auto
qed

theorem write_block_truncates_witness:
  "\<exists>s'. ext2_write_block 30 (replicate 1024 7) fs_tree = Ok (1, s')
    \<and> ext2_read_block 30 (replicate 1024 0) s' = Ok ((1, replicate 512 7 @ drop 512 (block_data fs_tree 0 30)), s')"
  using write_block_truncates [OF fs_tree_ok, of 30 "replicate 1024 7" "replicate 1024 0"] by simp

section \<open>Flushing a partition\<close>

lemma put_one: "512 \<le> length buf \<Longrightarrow> dr_sector (disk_put d a 1 buf) x = (if x = a then take 512 buf else dr_sector d x)"
  by (simp add: disk_put_def chunks_def put_sector_def)

lemma disk_out_one:
  assumes "fs_ok s port" and "sectors_for count = 1" and "512 \<le> length buf"
  shows "\<exists>s'. disk_out buf sector count s = Ok (count, s') \<and> fs_ok s' port \<and> fpart s' = fpart s
    \<and> dr_sector (drive_of s' port) = (dr_sector (drive_of s port))(scast sector := take 512 buf)"
proof -
  let ?d = "disk_put (drive_of s port) (scast sector) 1 buf"
  have "fs_ok (with_drive s port ?d) port"
    by (rule fs_ok_with_drive [OF assms(1) disk_put_ok [OF fs_ok_drive [OF assms(1)]]]) (use assms(3) in simp)
  then show ?thesis using disk_out_ok [OF assms(1), of count buf sector] assms(2,3)
    by (auto simp: put_one [unfolded One_nat_def] fun_upd_def)
qed

lemma sectors_one: "count = 1 \<or> count = 2 \<Longrightarrow> sectors_for count = 1"
  by (auto simp: sectors_for_def size_to_blocks_def)

text \<open>on a partition with one group and blocks of 1 KiB, as \<open>ext2_partition_register_partition\<close> sets it up, a flush changes one
  sector only, the one of the superblock, and it ends up with the first half of the superblock in memory: the block group
  descriptors never reach their table.\<close>

theorem flush_partition_sectors:
  assumes "fs_ok s port" and "s_log_block_size (fpart s) = 0" and "group_number (fpart s) = 1"
    and "bgdt_block (fpart s) = 2" and "sb_block (fpart s) = 2" and "backup_bgs (fpart s) = 0 # bgs" and "0 < backup_bgs_count (fpart s)"
    and "512 \<le> length (pt_gd (fpart s))" and "length (pt_sb (fpart s)) = 1024"
  shows "\<exists>s'. ext2_flush_partition s = Ok ((), s') \<and> flush_required (fpart s') = 0
    \<and> dr_sector (drive_of s' port) = (dr_sector (drive_of s port))(scast (pt_lba (fpart s) + 2) := take 512 (pt_sb (fpart s)))"
proof -
  let ?p = "fpart s"
  have bs: "block_size ?p = 1024" "sector_size ?p = 512" using assms(1,2) by (simp_all add: block_size_def fs_ok_def)
  have g: "unat (group_number ?p) = 1" using assms(3) by simp
  obtain s1 where 1: "disk_out (pt_gd ?p) (pt_lba ?p + 2) 1 s = Ok (1, s1)" "fs_ok s1 port" "fpart s1 = ?p"
    "dr_sector (drive_of s1 port) = (dr_sector (drive_of s port))(scast (pt_lba ?p + 2) := take 512 (pt_gd ?p))"
    using disk_out_one [OF assms(1) sectors_one assms(8), of 1 "pt_lba ?p + 2"] by auto
  have "512 \<le> length (pt_sb (fpart s1))" using assms(9) 1(3) by simp
  from disk_out_one [OF 1(2) sectors_one this, of 2 "pt_lba ?p + 2"] obtain s2 where
    2: "disk_out (pt_sb ?p) (pt_lba ?p + 2) 2 s1 = Ok (2, s2)" "fs_ok s2 port" "fpart s2 = ?p"
      "dr_sector (drive_of s2 port) = (dr_sector (drive_of s1 port))(scast (pt_lba ?p + 2) := take 512 (pt_sb ?p))"
    using 1(3) by auto
  have fb: "ext2_flush_bg 0 s = Ok (0, s1)"
    using 1(1) assms(3,4) bs by (simp add: ext2_flush_bg_def DIVIDE_ROUNDED_UP_def udiv_def)
  have fsb: "ext2_flush_sb 0 s1 = Ok (0, s2)"
    using 2(1) 1(3) assms(5-7) bs by (simp add: ext2_flush_sb_def udiv_def not_le)
  have "ext2_operate_on_bg ext2_flush_bg s = Ok (- 1, s1)" "ext2_operate_on_bg ext2_flush_sb s1 = Ok (- 1, s2)"
    using fb fsb g 1(3) by (simp_all add: ext2_operate_on_bg_def)
  then have "ext2_flush_partition s = Ok ((), s2\<lparr>fpart := ?p\<lparr>flush_required := 0\<rparr>\<rparr>)"
    by (simp add: ext2_flush_partition_def modp_apply 2(3))
  then show ?thesis using 1(4) 2(4) by auto
qed

lemma fs_example_objects:
  "group_number (fpart fs_example) = 1" "bgdt_block (fpart fs_example) = 2" "sb_block (fpart fs_example) = 2"
  "backup_bgs (fpart fs_example) = 0 # replicate 63 0" "backup_bgs_count (fpart fs_example) = 1" "pt_sb (fpart fs_example) = sb_example"
  "length (pt_gd (fpart fs_example)) = 512" "length sb_example = 1024"
  "dr_sector (drive_of fs_example 0) = (\<lambda>a. replicate 512 (if a = 6 then 255 else 0))"
  by (simp_all add: fs_example_def sb_example_def gd_example_def drive_of_def)

theorem flush_partition_sectors_witness:
  "\<exists>s'. ext2_flush_partition fs_example = Ok ((), s') \<and> flush_required (fpart s') = 0
    \<and> dr_sector (drive_of s' 0) = (dr_sector (drive_of fs_example 0))(2 := take 512 sb_example)"
  using flush_partition_sectors [OF fs_example_ok, of "replicate 63 0"] by (simp add: fs_example_objects)

section \<open>Blocks of the small file system\<close>

lemma words32_replicate: "words32 (replicate (4 * n) c @ r) = replicate n (w32 [c, c, c, c]) @ words32 r"
  by (induction n) (simp_all add: w32_def numeral_eq_Suc)

lemma scan_words_full: "scan_words (replicate n 0xFFFFFFFF @ ws) i = scan_words ws (i + n)"
  by (induction n arbitrary: i) simp_all

lemma fs_tree_bitmap: "free_at fs_tree 0 0 4096 3 0 0"
proof -
  have "block_data fs_tree 0 3 = replicate (4 * 256) 0"
    by (simp add: block_data_def block_addr_def two_sectors drive_tree_def flip: replicate_add)
  hence "words32 (block_data fs_tree 0 3) = replicate 256 0" using words32_replicate [of 256 0 "[]"] by (simp add: w32_def int_shl_def)
  moreover have "scan_words (replicate (Suc n) 0) 0 = Some (0, 0)" for n by (simp add: upt_conv_Cons)
  ultimately have "scan_words (words32 (block_data fs_tree 0 3)) 0 = Some (0, 0)" by (simp only: numeral_eq_Suc)
  then show ?thesis by (simp add: free_at_def fs_tree_ok fs_example_objects)
qed

lemma fs_example_bitmap: "free_at fs_example 0 0 4096 3 128 0"
proof -
  have "block_data fs_example 0 3 = replicate (4 * 128) 255 @ replicate (4 * 128) 0"
    by (simp add: block_data_def block_addr_def two_sectors fs_example_objects)
  hence "words32 (block_data fs_example 0 3) = replicate 128 0xFFFFFFFF @ replicate 128 0"
    using words32_replicate [of 128 255 "replicate (4 * 128) 0"] words32_replicate [of 128 0 "[]"] by (simp add: w32_def int_shl_def)
  moreover have "scan_words (replicate (Suc n) 0) i = Some (i, 0)" for n i by (simp add: upt_conv_Cons)
  hence "scan_words (replicate 128 0) 128 = Some (128, 0)" using Suc_pred [of 128] by (metis zero_less_numeral)
  ultimately have "scan_words (words32 (block_data fs_example 0 3)) 0 = Some (128, 0)" by (simp add: scan_words_full)
  then show ?thesis by (simp add: free_at_def fs_example_ok fs_example_objects)
qed

theorem allocate_block_marks_witness:
  "\<exists>s1. ext2_allocate_block fs_tree = Ok (1, s1) \<and> bg_free_blocks_count (fpart s1) 0 = Ok 4095"
  using allocate_block_marks [OF fs_tree_bitmap] by auto

theorem allocate_block_twice_witness:
  "\<exists>s1 s2. ext2_allocate_block fs_example = Ok (4097, s1) \<and> ext2_allocate_block s1 = Ok (4097, s2)"
  using allocate_block_twice [OF fs_example_bitmap] by auto

theorem allocate_deallocate_witness:
  "(\<exists>s1 s2. ext2_allocate_block fs_tree = Ok (1, s1) \<and> ext2_deallocate_block 1 s1 = Ok (1, s2)
    \<and> bg_free_blocks_count (fpart s2) 0 = Ok 4096 \<and> block_data s2 0 3 = block_data fs_tree 0 3)
  \<and> (\<exists>s1. ext2_allocate_block fs_example = Ok (4097, s1) \<and> ext2_deallocate_block 4097 s1 = Ok (0, s1))"
  using allocate_deallocate [OF fs_tree_bitmap] allocate_deallocate [OF fs_example_bitmap] by auto

theorem read_past_direct_witness: "ext2_read_inode_bytes 2 [7] 1 12288 fs_tree = Ok ((EXT2_READ_FAILED, [7]), fs_tree)"
proof -
  have "unat (12288 :: u64) = 12288" "0 < sint (1 :: u64)" by simp_all
  then show ?thesis using read_past_direct [OF fs_tree_inodes(1), of 1 12288 "[7]"] by simp
qed

end
