(* ===== verification/VfsCompat.thy ===== *)
theory VfsCompat
  imports Bytes Devices
begin

text \<open>The tables of open files and directories every file system shares (\<open>vfs/generic/vfs_compat.c\<close>):
  their entries, the operations that take, release and look up descriptors, and the listing of an open
  directory.\<close>

section \<open>State\<close>

abbreviation "VFS_COMPAT_MAX_OPEN_FILES \<equiv> (65536 :: nat)"
abbreviation "VFS_COMPAT_MAX_OPEN_DIRECTORIES \<equiv> (4096 :: nat)"
abbreviation "VFS_FDE_NAME_MAX_LEN \<equiv> (256 :: nat)"

text \<open>\<open>struct file_descriptor_entry\<close> and \<open>struct dentry\<close>; the arrays have 256 bytes.\<close>

record fdentry =
  fd_name :: "u8 list"
  fd_mount :: "u8 list"
  fd_flags :: u32
  fd_mode :: u32
  fd_offset :: u64
  fd_loaded :: u8

record dirent =
  dt_name :: "u8 list"
  dt_len :: u32
  dt_inode :: u32
  dt_type :: u32

text \<open>The chain of \<open>struct dentry\<close>s a directory points to, its empty head included: none yet, a chain, or a
  chain whose blocks behind the head have been freed.\<close>

datatype dents = NoDents | Dents "dirent list" | Freed "dirent list"

record dirslot =
  ds_fd :: fdentry
  ds_dents :: dents
  ds_number :: u32
  ds_index :: u32

text \<open>The two tables, and the static \<open>fd\<close> of \<open>get_fd\<close> and of \<open>get_dirfd\<close>. The tables are arrays of 65536 and
  4096 entries: the operations check the index against these sizes.\<close>

record fdtab =
  files :: "nat \<Rightarrow> fdentry"
  dirs :: "nat \<Rightarrow> dirslot"
  next_fd :: nat
  next_dirfd :: nat

definition blank_fd :: fdentry where
  "blank_fd = \<lparr>fd_name = replicate 256 0, fd_mount = replicate 256 0, fd_flags = 0, fd_mode = 0, fd_offset = 0, fd_loaded = 0\<rparr>"

definition blank_dirent :: dirent where
  "blank_dirent = \<lparr>dt_name = replicate 256 0, dt_len = 0, dt_inode = 0, dt_type = 0\<rparr>"

definition empty_fdtab :: fdtab where
  "empty_fdtab = \<lparr>files = (\<lambda>_. blank_fd), dirs = (\<lambda>_. \<lparr>ds_fd = blank_fd, ds_dents = NoDents, ds_number = 0, ds_index = 0\<rparr>),
     next_fd = 0, next_dirfd = 0\<rparr>"

text \<open>The element \<open>fd\<close> of a table of \<open>n\<close> entries, \<open>None\<close> when it lies past the end; the code does not check for
  negative numbers.\<close>

definition slot :: "nat \<Rightarrow> int \<Rightarrow> nat option result" where
  "slot n fd = (if int n \<le> fd then Ok None else if fd < 0 then Err Fault else Ok (Some (nat fd)))"

definition vfs_compat_get_dir :: "int \<Rightarrow> nat option result" where
  "vfs_compat_get_dir fd = slot VFS_COMPAT_MAX_OPEN_DIRECTORIES fd"

definition vfs_compat_get_file_descriptor :: "int \<Rightarrow> nat option result" where
  "vfs_compat_get_file_descriptor fd = slot VFS_COMPAT_MAX_OPEN_FILES fd"

definition set_file :: "nat \<Rightarrow> fdentry \<Rightarrow> fdtab \<Rightarrow> fdtab" where
  "set_file i e t = t\<lparr>files := (files t)(i := e)\<rparr>"

definition set_dir :: "nat \<Rightarrow> dirslot \<Rightarrow> fdtab \<Rightarrow> fdtab" where
  "set_dir i e t = t\<lparr>dirs := (dirs t)(i := e)\<rparr>"

section \<open>Taking descriptors\<close>

text \<open>The lengths are compared with the size of the arrays, not with the room for the final NUL.\<close>

definition fd_fill :: "fdentry \<Rightarrow> u8 list \<Rightarrow> u8 list \<Rightarrow> u32 \<Rightarrow> u32 \<Rightarrow> fdentry result" where
  "fd_fill e path mount flags mode =
     rbind (rbind (strlen path) (strncpy (fd_name e) path)) (\<lambda>n.
     rbind (rbind (strlen mount) (strncpy (fd_mount e) mount)) (\<lambda>m.
     Ok \<lparr>fd_name = n, fd_mount = m, fd_flags = flags, fd_mode = mode, fd_offset = 0, fd_loaded = 1\<rparr>))"

definition next_slot :: "nat \<Rightarrow> nat \<Rightarrow> nat" where
  "next_slot n i = (if n \<le> i + 1 then 0 else i + 1)"

fun get_fd_loop :: "nat \<Rightarrow> u8 list \<Rightarrow> u8 list \<Rightarrow> u32 \<Rightarrow> u32 \<Rightarrow> fdtab \<Rightarrow> (int \<times> fdtab) result" where
  "get_fd_loop 0 path mount flags mode t = Ok (- 1, t)"
| "get_fd_loop (Suc n) path mount flags mode t = (let i = next_fd t in
     if VFS_COMPAT_MAX_OPEN_FILES \<le> i then Err Fault
     else if fd_loaded (files t i) = 0
     then rbind (fd_fill (files t i) path mount flags mode) (\<lambda>e. Ok (int i, (set_file i e t)\<lparr>next_fd := i + 1\<rparr>))
     else get_fd_loop n path mount flags mode (t\<lparr>next_fd := next_slot VFS_COMPAT_MAX_OPEN_FILES i\<rparr>))"

definition get_fd :: "u8 list \<Rightarrow> u8 list \<Rightarrow> u32 \<Rightarrow> u32 \<Rightarrow> fdtab \<Rightarrow> (int \<times> fdtab) result" where
  "get_fd path mount flags mode t =
     rbind (strlen path) (\<lambda>l. if VFS_FDE_NAME_MAX_LEN < l then Ok (- 1, t) else
     rbind (strlen mount) (\<lambda>l. if VFS_FDE_NAME_MAX_LEN < l then Ok (- 1, t) else
     get_fd_loop VFS_COMPAT_MAX_OPEN_FILES path mount flags mode t))"

fun get_dirfd_loop :: "nat \<Rightarrow> u8 list \<Rightarrow> u8 list \<Rightarrow> u32 \<Rightarrow> u32 \<Rightarrow> fdtab \<Rightarrow> (int \<times> fdtab) result" where
  "get_dirfd_loop 0 path mount flags mode t = Ok (- 1, t)"
| "get_dirfd_loop (Suc n) path mount flags mode t = (let i = next_dirfd t in
     if VFS_COMPAT_MAX_OPEN_DIRECTORIES \<le> i then Err Fault
     else if fd_loaded (ds_fd (dirs t i)) = 0
     then rbind (fd_fill (ds_fd (dirs t i)) path mount flags mode) (\<lambda>e.
       Ok (int i, (set_dir i \<lparr>ds_fd = e, ds_dents = Dents [blank_dirent], ds_number = 0, ds_index = 0\<rparr> t)\<lparr>next_dirfd := i + 1\<rparr>))
     else get_dirfd_loop n path mount flags mode (t\<lparr>next_dirfd := next_slot VFS_COMPAT_MAX_OPEN_DIRECTORIES i\<rparr>))"

definition get_dirfd :: "u8 list \<Rightarrow> u8 list \<Rightarrow> u32 \<Rightarrow> u32 \<Rightarrow> fdtab \<Rightarrow> (int \<times> fdtab) result" where
  "get_dirfd path mount flags mode t =
     rbind (strlen path) (\<lambda>l. if VFS_FDE_NAME_MAX_LEN < l then Ok (- 1, t) else
     rbind (strlen mount) (\<lambda>l. if VFS_FDE_NAME_MAX_LEN < l then Ok (- 1, t) else
     get_dirfd_loop VFS_COMPAT_MAX_OPEN_DIRECTORIES path mount flags mode t))"

section \<open>Searching and releasing\<close>

text \<open>\<open>n\<close> entries from the \<open>i\<close>-th on.\<close>

fun find_fd :: "(nat \<Rightarrow> fdentry) \<Rightarrow> u8 list \<Rightarrow> nat \<Rightarrow> nat \<Rightarrow> nat option result" where
  "find_fd f path i 0 = Ok None"
| "find_fd f path i (Suc n) =
     rbind (if fd_loaded (f i) = 1 then rbind (strcmp (fd_name (f i)) path) (\<lambda>c. Ok (c = 0)) else Ok False) (\<lambda>hit.
       if hit then Ok (Some i) else find_fd f path (i + 1) n)"

definition is_open :: "u8 list \<Rightarrow> fdtab \<Rightarrow> int result" where
  "is_open path t = rbind (find_fd (files t) path 0 VFS_COMPAT_MAX_OPEN_FILES) (\<lambda>r. case r of Some i \<Rightarrow> Ok (int i) | None \<Rightarrow>
     rbind (find_fd (\<lambda>i. ds_fd (dirs t i)) path 0 VFS_COMPAT_MAX_OPEN_DIRECTORIES) (\<lambda>r. case r of Some i \<Rightarrow> Ok (int i) | None \<Rightarrow>
     Ok (- 1)))"

text \<open>The entries of the first \<open>n\<close> that are in use under \<open>path\<close>.\<close>

fun named_fds :: "(nat \<Rightarrow> fdentry) \<Rightarrow> u8 list \<Rightarrow> nat \<Rightarrow> nat \<Rightarrow> nat list result" where
  "named_fds f path i 0 = Ok []"
| "named_fds f path i (Suc n) =
     rbind (if fd_loaded (f i) = 1 then rbind (strcmp (fd_name (f i)) path) (\<lambda>c. Ok (c = 0)) else Ok False) (\<lambda>hit.
     rbind (named_fds f path (i + 1) n) (\<lambda>is. Ok (if hit then i # is else is)))"

definition close_file :: "nat \<Rightarrow> fdtab \<Rightarrow> fdtab" where
  "close_file i t = set_file i ((files t i)\<lparr>fd_loaded := 0\<rparr>) t"

definition close_dir :: "nat \<Rightarrow> fdtab \<Rightarrow> fdtab" where
  "close_dir i t = set_dir i ((dirs t i)\<lparr>ds_fd := (ds_fd (dirs t i))\<lparr>fd_loaded := 0\<rparr>\<rparr>) t"

definition force_release :: "u8 list \<Rightarrow> fdtab \<Rightarrow> (int \<times> fdtab) result" where
  "force_release path t =
     rbind (named_fds (files t) path 0 VFS_COMPAT_MAX_OPEN_FILES) (\<lambda>fs.
     rbind (named_fds (\<lambda>i. ds_fd (dirs t i)) path 0 VFS_COMPAT_MAX_OPEN_DIRECTORIES) (\<lambda>ds.
     Ok (int (length fs + length ds), fold close_dir ds (fold close_file fs t))))"

definition release_fd :: "int \<Rightarrow> fdtab \<Rightarrow> (int \<times> fdtab) result" where
  "release_fd fd t = rbind (slot VFS_COMPAT_MAX_OPEN_FILES fd) (\<lambda>s. case s of None \<Rightarrow> Ok (- 1, t)
     | Some i \<Rightarrow> Ok (0, close_file i t))"

section \<open>Directories\<close>

text \<open>The name goes to the caller's buffer; \<open>len\<close> and \<open>type\<close> are what the caller's variables hold.\<close>

definition read_dirfd :: "int \<Rightarrow> u8 list \<Rightarrow> u32 \<Rightarrow> u32 \<Rightarrow> fdtab \<Rightarrow> (int \<times> u8 list \<times> u32 \<times> u32 \<times> fdtab) result" where
  "read_dirfd fd name len type t = rbind (slot VFS_COMPAT_MAX_OPEN_DIRECTORIES fd) (\<lambda>s. case s of
       None \<Rightarrow> Ok (- 1, name, len, type, t)
     | Some i \<Rightarrow> let d = dirs t i in
       if fd_loaded (ds_fd d) = 0 then Ok (- 1, name, len, type, t)
       else if ds_number d \<le> ds_index d then Ok (0, name, len, type, t)
       else (case ds_dents d of
           NoDents \<Rightarrow> Ok (0, name, len, type, t)
         | Freed ds \<Rightarrow> Err Fault
         | Dents ds \<Rightarrow> if length ds \<le> 1 then Ok (0, name, len, type, t)
             else rbind (rd (List.tl ds) (unat (ds_index d))) (\<lambda>e. rbind (strncpy name (dt_name e) (unat (dt_len e))) (\<lambda>b.
               Ok (1, b, dt_len e, dt_type e, set_dir i (d\<lparr>ds_index := ds_index d + 1\<rparr>) t)))))"

text \<open>The blocks behind the head are freed one after the other, each before its \<open>next\<close> is read; the allocator leaves
  the contents of a freed block in place. The head is not freed.\<close>

definition release_dirfd :: "int \<Rightarrow> fdtab \<Rightarrow> (int \<times> fdtab) result" where
  "release_dirfd fd t = rbind (slot VFS_COMPAT_MAX_OPEN_DIRECTORIES fd) (\<lambda>s. case s of None \<Rightarrow> Ok (- 1, t)
     | Some i \<Rightarrow> (case ds_dents (dirs t i) of
           NoDents \<Rightarrow> Err Fault
         | Freed ds \<Rightarrow> Err Fault
         | Dents ds \<Rightarrow> let t1 = close_dir i t in
             Ok (0, if length ds \<le> 1 then t1 else set_dir i ((dirs t1 i)\<lparr>ds_dents := Freed ds\<rparr>) t1)))"

text \<open>\<open>mem\<close> is what the 256 bytes of the new block's name hold.\<close>

definition add_file_to_dirfd :: "u8 list \<Rightarrow> int \<Rightarrow> u8 list \<Rightarrow> u32 \<Rightarrow> u32 \<Rightarrow> u32 \<Rightarrow> fdtab \<Rightarrow> (u8 \<times> fdtab) result" where
  "add_file_to_dirfd mem fd name inode type name_len t =
     rbind (slot VFS_COMPAT_MAX_OPEN_DIRECTORIES fd) (\<lambda>s. case s of None \<Rightarrow> Ok (0, t) | Some i \<Rightarrow>
     rbind (strlen name) (\<lambda>l. if VFS_FDE_NAME_MAX_LEN < l then Ok (0, t) else let d = dirs t i in
     if fd_loaded (ds_fd d) = 0 then Ok (0, t) else
     (case ds_dents d of NoDents \<Rightarrow> Err Fault | Freed ds \<Rightarrow> Err Fault | Dents ds \<Rightarrow>
       rbind (strncpy mem name l) (\<lambda>b.
         Ok (1, set_dir i (d\<lparr>ds_dents := Dents (ds @ [\<lparr>dt_name = b, dt_len = name_len, dt_inode = inode, dt_type = type\<rparr>]),
                             ds_number := ds_number d + 1\<rparr>) t)))))"

section \<open>Well-formed tables\<close>

definition fd_ok :: "fdentry \<Rightarrow> bool" where
  "fd_ok e \<longleftrightarrow> length (fd_name e) = 256 \<and> length (fd_mount e) = 256 \<and> fd_loaded e \<le> 1
     \<and> (fd_loaded e = 1 \<longrightarrow> terminated (fd_name e) \<and> terminated (fd_mount e))"

definition dirent_ok :: "dirent \<Rightarrow> bool" where
  "dirent_ok e \<longleftrightarrow> length (dt_name e) = 256 \<and> terminated (dt_name e)"

definition dir_ok :: "dirslot \<Rightarrow> bool" where
  "dir_ok d \<longleftrightarrow> fd_ok (ds_fd d) \<and> (fd_loaded (ds_fd d) = 1 \<longrightarrow>
     (\<exists>h es. ds_dents d = Dents (h # es) \<and> ds_number d = of_nat (length es) \<and> list_all dirent_ok es))"

definition tab_ok :: "fdtab \<Rightarrow> bool" where
  "tab_ok t \<longleftrightarrow> next_fd t \<le> VFS_COMPAT_MAX_OPEN_FILES \<and> next_dirfd t \<le> VFS_COMPAT_MAX_OPEN_DIRECTORIES
     \<and> (\<forall>i. fd_ok (files t i)) \<and> (\<forall>i. dir_ok (dirs t i))"

named_theorems tab_simps

lemma set_file_simps [simp, tab_simps]:
  "files (set_file i e t) = (files t)(i := e)" "dirs (set_file i e t) = dirs t"
  "next_fd (set_file i e t) = next_fd t" "next_dirfd (set_file i e t) = next_dirfd t"
  by (simp_all add: set_file_def)

lemma set_dir_simps [simp, tab_simps]:
  "dirs (set_dir i d t) = (dirs t)(i := d)" "files (set_dir i d t) = files t"
  "next_fd (set_dir i d t) = next_fd t" "next_dirfd (set_dir i d t) = next_dirfd t"
  by (simp_all add: set_dir_def)

lemma tab_ok_files: "tab_ok t \<Longrightarrow> fd_ok (files t i)" by (simp add: tab_ok_def)
lemma tab_ok_dirs: "tab_ok t \<Longrightarrow> dir_ok (dirs t i)" by (simp add: tab_ok_def)

lemma tab_ok_set_file: "tab_ok t \<Longrightarrow> fd_ok e \<Longrightarrow> tab_ok (set_file i e t)" by (simp add: tab_ok_def)
lemma tab_ok_set_dir: "tab_ok t \<Longrightarrow> dir_ok d \<Longrightarrow> tab_ok (set_dir i d t)" by (simp add: tab_ok_def)
lemma tab_ok_next_fd: "tab_ok t \<Longrightarrow> n \<le> 65536 \<Longrightarrow> tab_ok (t\<lparr>next_fd := n\<rparr>)" by (simp add: tab_ok_def)
lemma tab_ok_next_dirfd: "tab_ok t \<Longrightarrow> n \<le> 4096 \<Longrightarrow> tab_ok (t\<lparr>next_dirfd := n\<rparr>)" by (simp add: tab_ok_def)

lemma fd_ok_blank: "fd_ok blank_fd"
  by (simp add: fd_ok_def blank_fd_def)

lemma tab_ok_empty: "tab_ok empty_fdtab"
  by (simp add: tab_ok_def empty_fdtab_def dir_ok_def fd_ok_blank) (simp add: blank_fd_def)

lemma slot_Some: "slot n fd = Ok (Some i) \<longleftrightarrow> fd = int i \<and> i < n"
  by (auto simp: slot_def)

lemma slot_of_nat [simp]: "i < n \<Longrightarrow> slot n (int i) = Ok (Some i)"
  by (simp add: slot_Some)

section \<open>Descriptors\<close>

lemma cstr_zeros [simp]: "cstr (replicate n 0) = []"
  by (cases n) (simp_all add: cstr_def)

lemma terminated_zeros: "0 < n \<Longrightarrow> terminated (replicate n 0)"
  by (simp add: terminated_def)

lemma cstr_terminated_app: "0 \<notin> set s \<Longrightarrow> cstr (s @ 0 # r) = s"
  by (induction s) (auto simp: cstr_simps)

lemma cstr_cstr_app [simp]: "cstr (cstr s @ 0 # r) = cstr s"
  by (rule cstr_terminated_app) (auto dest: cstr_nonzero)

lemma strncpy_whole:
  assumes "terminated s" and "length (cstr s) \<le> 65536"
  shows "rbind (strlen s) (strncpy d s)
    = (if length (cstr s) < length d then Ok (cstr s @ 0 # drop (length (cstr s) + 1) d) else Err Fault)"
  using strncpy_copies [OF assms(1), of "length (cstr s)" d] strlen_loop_eq [OF assms(1), of 0] assms(2)
  by (simp add: strlen_def STR_MAX_SIZE_def)

lemma strlen_exact: "terminated s \<Longrightarrow> length (cstr s) \<le> 65535 \<Longrightarrow> strlen s = Ok (length (cstr s))"
  using strlen_loop_eq [of s 0] by (simp add: strlen_def STR_MAX_SIZE_def)

lemma strncpy_take:
  assumes "terminated s" and "length (cstr s) < length d" and "length (cstr s) \<le> 65535"
  shows "strncpy d s n = Ok (take n (cstr s) @ 0 # drop (length (take n (cstr s)) + 1) d)"
proof (cases "n \<le> length (cstr s)")
  case True
  with strncpy_copies [OF assms(1), of n d] assms(2,3) show ?thesis by (simp add: min_def)
next
  case False
  with strncpy_copies [OF assms(1), of "length (cstr s)" d] assms(2,3) strlen_exact [OF assms(1,3)]
  show ?thesis by (simp add: strncpy_def)
qed

lemma strlen_le_256: "terminated s \<Longrightarrow> strlen s = Ok l \<Longrightarrow> l \<le> 256 \<Longrightarrow> l = length (cstr s)"
  using strlen_loop_eq [of s 0] by (simp add: strlen_def STR_MAX_SIZE_def)

lemma fd_fill_Ok:
  assumes "fd_ok e" and "terminated path" and "terminated mount" and "length (cstr path) < 256" and "length (cstr mount) < 256"
  shows "\<exists>e'. fd_fill e path mount flags mode = Ok e' \<and> fd_ok e' \<and> fd_loaded e' = 1 \<and> fd_offset e' = 0
    \<and> fd_flags e' = flags \<and> fd_mode e' = mode \<and> cstr (fd_name e') = cstr path \<and> cstr (fd_mount e') = cstr mount"
  using assms strncpy_whole [OF assms(2), of "fd_name e"] strncpy_whole [OF assms(3), of "fd_mount e"]
  by (simp add: fd_fill_def fd_ok_def terminated_def)

lemma fd_fill_ok:
  assumes "fd_fill e path mount flags mode = Ok e'" and "fd_ok e" and "terminated path" and "terminated mount"
    and "length (cstr path) \<le> 256" and "length (cstr mount) \<le> 256"
  shows "fd_ok e'"
  using assms(1,2,5,6) strncpy_whole [OF assms(3), of "fd_name e"] strncpy_whole [OF assms(4), of "fd_mount e"]
  by (auto simp: fd_fill_def fd_ok_def terminated_def split: if_splits)

lemma next_slot_mod: "i < n \<Longrightarrow> next_slot n i = (i + 1) mod n"
  by (auto simp: next_slot_def le_Suc_eq)

lemma get_fd_loop_ok:
  assumes "terminated path" and "terminated mount" and "length (cstr path) \<le> 256" and "length (cstr mount) \<le> 256"
  shows "get_fd_loop n path mount flags mode t = Ok (r, t') \<Longrightarrow> tab_ok t \<Longrightarrow> tab_ok t'"
proof (induction n arbitrary: t)
  case (Suc n)
  let ?i = "next_fd t"
  show ?case
  proof (cases "fd_loaded (files t ?i) = 0")
    case True
    with Suc.prems(1) obtain e where e: "fd_fill (files t ?i) path mount flags mode = Ok e"
      "t' = (set_file ?i e t)\<lparr>next_fd := ?i + 1\<rparr>" "?i < 65536"
      by (auto simp: Let_def split: if_splits)
    with fd_fill_ok [OF e(1) tab_ok_files [OF Suc.prems(2)] assms] Suc.prems(2) show ?thesis
      by (simp add: tab_ok_next_fd tab_ok_set_file)
  next
    case False
    with Suc.prems have "get_fd_loop n path mount flags mode (t\<lparr>next_fd := next_slot 65536 ?i\<rparr>) = Ok (r, t')" "?i < 65536"
      by (auto simp: Let_def split: if_splits)
    with Suc.IH Suc.prems(2) show ?thesis by (simp add: tab_ok_next_fd next_slot_def)
  qed
qed simp

lemma get_dirfd_loop_ok:
  assumes "terminated path" and "terminated mount" and "length (cstr path) \<le> 256" and "length (cstr mount) \<le> 256"
  shows "get_dirfd_loop n path mount flags mode t = Ok (r, t') \<Longrightarrow> tab_ok t \<Longrightarrow> tab_ok t'"
proof (induction n arbitrary: t)
  case (Suc n)
  let ?i = "next_dirfd t"
  show ?case
  proof (cases "fd_loaded (ds_fd (dirs t ?i)) = 0")
    case True
    with Suc.prems(1) obtain e where e: "fd_fill (ds_fd (dirs t ?i)) path mount flags mode = Ok e"
      "t' = (set_dir ?i \<lparr>ds_fd = e, ds_dents = Dents [blank_dirent], ds_number = 0, ds_index = 0\<rparr> t)\<lparr>next_dirfd := ?i + 1\<rparr>" "?i < 4096"
      by (auto simp: Let_def split: if_splits)
    have "fd_ok (ds_fd (dirs t ?i))" using tab_ok_dirs [OF Suc.prems(2)] by (simp add: dir_ok_def)
    from fd_fill_ok [OF e(1) this assms] e Suc.prems(2) show ?thesis
      by (simp add: tab_ok_next_dirfd tab_ok_set_dir dir_ok_def)
  next
    case False
    with Suc.prems have "get_dirfd_loop n path mount flags mode (t\<lparr>next_dirfd := next_slot 4096 ?i\<rparr>) = Ok (r, t')" "?i < 4096"
      by (auto simp: Let_def split: if_splits)
    with Suc.IH Suc.prems(2) show ?thesis by (simp add: tab_ok_next_dirfd next_slot_def)
  qed
qed simp

text \<open>The scan takes the first free entry behind the last one taken, around the end of the table.\<close>

lemma get_fd_loop_takes:
  assumes "fd_fill (files t ((i + m) mod 65536)) path mount flags mode = Ok e"
    and "fd_loaded (files t ((i + m) mod 65536)) = 0"
  shows "next_fd t' = i \<Longrightarrow> files t' = files t \<Longrightarrow> dirs t' = dirs t \<Longrightarrow> next_dirfd t' = next_dirfd t \<Longrightarrow> i < 65536 \<Longrightarrow> m < n \<Longrightarrow>
    \<forall>j < m. fd_loaded (files t ((i + j) mod 65536)) \<noteq> 0 \<Longrightarrow>
    get_fd_loop n path mount flags mode t' = Ok (int ((i + m) mod 65536),
      (set_file ((i + m) mod 65536) e t)\<lparr>next_fd := (i + m) mod 65536 + 1\<rparr>)"
  using assms
proof (induction m arbitrary: i n t')
  case 0
  obtain n' where n: "n = Suc n'" using 0 by (cases n) auto
  show ?case using 0 by (simp add: n Let_def set_file_def)
next
  case (Suc m)
  obtain n' where n: "n = Suc n'" using Suc.prems by (cases n) auto
  have shift: "((i + 1) mod 65536 + j) mod 65536 = (i + Suc j) mod 65536" for j by (simp add: mod_add_left_eq)
  have rest: "\<forall>j < m. fd_loaded (files t (((i + 1) mod 65536 + j) mod 65536)) \<noteq> 0" using Suc.prems(7) unfolding shift by blast
  have busy: "fd_loaded (files t i) \<noteq> 0" using Suc.prems(5,7) by (metis add_0_right mod_less zero_less_Suc)
  have "get_fd_loop n' path mount flags mode (t'\<lparr>next_fd := (i + 1) mod 65536\<rparr>)
      = Ok (int (((i + 1) mod 65536 + m) mod 65536), (set_file (((i + 1) mod 65536 + m) mod 65536) e t)\<lparr>next_fd := ((i + 1) mod 65536 + m) mod 65536 + 1\<rparr>)"
    using Suc.IH [where i = "(i + 1) mod 65536" and n = n' and t' = "t'\<lparr>next_fd := (i + 1) mod 65536\<rparr>"] rest Suc.prems n
    unfolding shift by simp
  with Suc.prems busy show ?case by (simp add: n Let_def next_slot_mod mod_add_left_eq)
qed

lemma get_fd_loop_full:
  "next_fd t < 65536 \<Longrightarrow> \<forall>j < 65536. fd_loaded (files t j) \<noteq> 0 \<Longrightarrow>
   get_fd_loop n path mount flags mode t = Ok (- 1, t\<lparr>next_fd := (next_fd t + n) mod 65536\<rparr>)"
proof (induction n arbitrary: t)
  case 0 then show ?case by simp
next
  case (Suc n)
  from Suc.IH [of "t\<lparr>next_fd := (next_fd t + 1) mod 65536\<rparr>"] Suc.prems show ?case
    by (simp add: Let_def next_slot_mod mod_add_left_eq)
qed

lemma first_free:
  assumes "k < 65536" and "fd_loaded (f k) = 0" and "i < (65536 :: nat)"
  obtains m where "m < 65536" and "fd_loaded (f ((i + m) mod 65536)) = 0" and "\<forall>j < m. fd_loaded (f ((i + j) mod 65536)) \<noteq> 0"
proof -
  let ?P = "\<lambda>m. fd_loaded (f ((i + m) mod 65536)) = 0"
  let ?m = "(k + 65536 - i) mod 65536"
  have "(i + ?m) mod 65536 = (i + (k + 65536 - i)) mod 65536" by (rule mod_add_right_eq)
  also have "\<dots> = k" using assms(1,3) by simp
  finally have p: "?P ?m" using assms(2) by simp
  have "(LEAST m. ?P m) \<le> ?m" by (rule Least_le [where P = ?P, OF p])
  moreover have "?m < 65536" by simp
  ultimately have "(LEAST m. ?P m) < 65536" by linarith
  with LeastI [where P = ?P, OF p] not_less_Least [where P = ?P] show ?thesis by (intro that) auto
qed

lemma get_fd_scan:
  assumes "terminated path" and "terminated mount" and "length (cstr path) < 256" and "length (cstr mount) < 256"
  shows "get_fd path mount flags mode t = get_fd_loop 65536 path mount flags mode t"
  using assms by (simp add: get_fd_def strlen_exact)

lemma get_fd_free:
  assumes "tab_ok t" and "next_fd t < 65536" and "terminated path" and "terminated mount"
    and "length (cstr path) < 256" and "length (cstr mount) < 256"
    and "k < 65536" and "fd_loaded (files t k) = 0"
  shows "\<exists>i e. get_fd path mount flags mode t = Ok (int i, (set_file i e t)\<lparr>next_fd := i + 1\<rparr>) \<and> i < 65536
    \<and> fd_loaded (files t i) = 0 \<and> fd_ok e \<and> fd_loaded e = 1 \<and> fd_offset e = 0 \<and> fd_flags e = flags \<and> fd_mode e = mode
    \<and> cstr (fd_name e) = cstr path \<and> cstr (fd_mount e) = cstr mount"
proof -
  obtain m where m: "m < 65536" "fd_loaded (files t ((next_fd t + m) mod 65536)) = 0"
    "\<forall>j < m. fd_loaded (files t ((next_fd t + j) mod 65536)) \<noteq> 0"
    using first_free [of k "files t" "next_fd t"] assms(2,7,8) by blast
  obtain e where e: "fd_fill (files t ((next_fd t + m) mod 65536)) path mount flags mode = Ok e" "fd_ok e" "fd_loaded e = 1"
    "fd_offset e = 0" "fd_flags e = flags" "fd_mode e = mode" "cstr (fd_name e) = cstr path" "cstr (fd_mount e) = cstr mount"
    using fd_fill_Ok [OF tab_ok_files [OF assms(1)] assms(3-6)] by blast
  show ?thesis
    using get_fd_loop_takes [OF e(1) m(2) refl refl refl refl assms(2) m(1,3)] e(2-) m(2) get_fd_scan [OF assms(3-6)]
    by (intro exI [where x = "(next_fd t + m) mod 65536"] exI [where x = e]) simp
qed

text \<open>\<open>get_fd\<close> hands out a free descriptor while there is one: the entry holds the path, the mount point, the flags
  and the mode with offset 0, and no other entry changes.\<close>

theorem get_fd_takes:
  assumes "tab_ok t" and "next_fd t < 65536" and "terminated path" and "terminated mount"
    and "length (cstr path) < 256" and "length (cstr mount) < 256"
    and "k < 65536" and "fd_loaded (files t k) = 0"
  shows "\<exists>i t'. get_fd path mount flags mode t = Ok (int i, t') \<and> i < 65536 \<and> fd_loaded (files t i) = 0
    \<and> cstr (fd_name (files t' i)) = cstr path \<and> cstr (fd_mount (files t' i)) = cstr mount
    \<and> fd_offset (files t' i) = 0 \<and> fd_loaded (files t' i) = 1 \<and> fd_flags (files t' i) = flags \<and> fd_mode (files t' i) = mode
    \<and> (\<forall>j. j \<noteq> i \<longrightarrow> files t' j = files t j) \<and> dirs t' = dirs t"
  using get_fd_free [OF assms, of flags mode] by auto

theorem get_fd_takes_witness:
  "\<exists>i t'. get_fd [97, 0] [47, 0] 0 0 empty_fdtab = Ok (int i, t') \<and> i < 65536 \<and> cstr (fd_name (files t' i)) = [97]"
  using get_fd_takes [OF tab_ok_empty, of "[97, 0]" "[47, 0]" 0 0 0]
  by (auto simp: empty_fdtab_def blank_fd_def cstr_simps)

text \<open>With every descriptor in use \<open>get_fd\<close> fails after one round and leaves the tables as they are.\<close>

theorem get_fd_full:
  assumes "next_fd t < 65536" and "\<forall>j < 65536. fd_loaded (files t j) \<noteq> 0"
    and "terminated path" and "terminated mount" and "length (cstr path) < 256" and "length (cstr mount) < 256"
  shows "get_fd path mount flags mode t = Ok (- 1, t)"
  using get_fd_loop_full [OF assms(1,2), of 65536 path mount flags mode] get_fd_scan [OF assms(3-6)] assms(1) by simp

theorem get_fd_full_witness:
  "get_fd [97, 0] [47, 0] 0 0 (empty_fdtab\<lparr>files := (\<lambda>_. blank_fd\<lparr>fd_loaded := 1\<rparr>)\<rparr>)
    = Ok (- 1, empty_fdtab\<lparr>files := (\<lambda>_. blank_fd\<lparr>fd_loaded := 1\<rparr>)\<rparr>)"
  by (rule get_fd_full) (simp_all add: empty_fdtab_def cstr_simps)

text \<open>The static index is left one past the entry that was taken: after the last descriptor has been handed out the
  next call looks at an entry behind the table.\<close>

theorem get_fd_last_breaks:
  assumes "tab_ok t" and "next_fd t = 65535" and "fd_loaded (files t 65535) = 0"
    and "terminated path" and "terminated mount" and "length (cstr path) < 256" and "length (cstr mount) < 256"
  shows "\<exists>t'. get_fd path mount flags mode t = Ok (65535, t') \<and> get_fd path mount flags mode t' = Err Fault"
proof -
  obtain e where e: "fd_fill (files t 65535) path mount flags mode = Ok e"
    using fd_fill_Ok [OF tab_ok_files [OF assms(1)] assms(4-7)] by blast
  have unfold: "get_fd_loop 65536 path mount flags mode u = get_fd_loop (Suc 65535) path mount flags mode u" for u by simp
  show ?thesis
    using e assms(2,3) unfolding get_fd_scan [OF assms(4-7)] unfold get_fd_loop.simps by (simp add: Let_def)
qed

theorem get_fd_last_breaks_witness:
  "\<exists>t'. get_fd [97, 0] [47, 0] 0 0 (empty_fdtab\<lparr>next_fd := 65535\<rparr>) = Ok (65535, t') \<and> get_fd [97, 0] [47, 0] 0 0 t' = Err Fault"
  by (rule get_fd_last_breaks)
    (use tab_ok_next_fd [OF tab_ok_empty, of 65535] in \<open>simp_all add: empty_fdtab_def blank_fd_def cstr_simps\<close>)

section \<open>Operations on the tables\<close>

lemma close_file_ok: "tab_ok t \<Longrightarrow> tab_ok (close_file i t)"
  unfolding close_file_def by (rule tab_ok_set_file) (auto dest: tab_ok_files [of t i] simp: fd_ok_def)

lemma dir_ok_close: "dir_ok d \<Longrightarrow> dir_ok (d\<lparr>ds_fd := (ds_fd d)\<lparr>fd_loaded := 0\<rparr>\<rparr>)"
  by (simp add: dir_ok_def fd_ok_def)

lemma close_dir_ok: "tab_ok t \<Longrightarrow> tab_ok (close_dir i t)"
  unfolding close_dir_def by (rule tab_ok_set_dir) (simp_all add: dir_ok_close tab_ok_dirs)

lemma fold_close_ok: "tab_ok t \<Longrightarrow> tab_ok (fold close_file is t)" "tab_ok t \<Longrightarrow> tab_ok (fold close_dir is t)"
  by (induction "is" arbitrary: t) (auto simp: close_file_ok close_dir_ok)

lemma loaded_dents: "dir_ok d \<Longrightarrow> fd_loaded (ds_fd d) \<noteq> 0 \<Longrightarrow>
    \<exists>h es. ds_dents d = Dents (h # es) \<and> ds_number d = of_nat (length es) \<and> list_all dirent_ok es"
  using u8_le_1 [of "fd_loaded (ds_fd d)"] by (auto simp: dir_ok_def fd_ok_def)

lemma release_dirfd_ok: "release_dirfd fd t = Ok (r, t') \<Longrightarrow> tab_ok t \<Longrightarrow> tab_ok t'"
  using close_dir_ok [of t] tab_ok_dirs [of "close_dir i t" i for i]
  by (auto simp: release_dirfd_def Let_def split: option.splits dents.splits if_splits)
    (auto simp: close_dir_def dir_ok_def intro!: tab_ok_set_dir)

lemma dir_ok_index: "dir_ok d \<Longrightarrow> dir_ok (d\<lparr>ds_index := n\<rparr>)"
  by (simp add: dir_ok_def)

lemma read_dirfd_ok: "read_dirfd fd name len type t = Ok (r, name', len', type', t') \<Longrightarrow> tab_ok t \<Longrightarrow> tab_ok t'"
  by (auto simp: read_dirfd_def Let_def dir_ok_index tab_ok_dirs intro!: tab_ok_set_dir
      split: option.splits dents.splits if_splits)

lemma new_dirent_ok:
  assumes "terminated name" and "strlen name = Ok l" and "l \<le> 256" and "strncpy mem name l = Ok b" and "length mem = 256"
  shows "dirent_ok \<lparr>dt_name = b, dt_len = len, dt_inode = ino, dt_type = type\<rparr>"
  using strlen_le_256 [OF assms(1,2,3)] strncpy_copies [OF assms(1), of l mem] assms(3-)
  by (auto simp: dirent_ok_def terminated_def split: if_splits)

lemma add_file_ok:
  assumes "add_file_to_dirfd mem fd name inode type len t = Ok (r, t')" and "tab_ok t" and "terminated name" and "length mem = 256"
  shows "tab_ok t'"
proof -
  have new: "dirent_ok \<lparr>dt_name = b, dt_len = len, dt_inode = inode, dt_type = type\<rparr>"
    if "strlen name = Ok l" "l \<le> 256" "strncpy mem name l = Ok b" for l b
    using new_dirent_ok [OF assms(3) that assms(4)] .
  have "dir_ok (d\<lparr>ds_dents := Dents (ds @ [e]), ds_number := ds_number d + 1\<rparr>)"
    if "dir_ok d" "fd_loaded (ds_fd d) \<noteq> 0" "ds_dents d = Dents ds" "dirent_ok e" for d ds e
    using loaded_dents [OF that(1,2)] that by (auto simp: dir_ok_def)
  with assms(1,2) new show ?thesis
    by (auto simp: add_file_to_dirfd_def Let_def not_less tab_ok_dirs intro!: tab_ok_set_dir
        split: option.splits dents.splits if_splits)
qed

text \<open>The loops do not fail while the static index is in its table.\<close>

lemma get_fd_loop_runs:
  assumes "terminated path" and "terminated mount" and "length (cstr path) < 256" and "length (cstr mount) < 256"
  shows "tab_ok t \<Longrightarrow> next_fd t < 65536 \<Longrightarrow> \<exists>r t'. get_fd_loop n path mount flags mode t = Ok (r, t')"
proof (induction n arbitrary: t)
  case (Suc n)
  let ?t = "t\<lparr>next_fd := next_slot 65536 (next_fd t)\<rparr>"
  have "tab_ok ?t" "next_fd ?t < 65536" using Suc.prems by (simp_all add: tab_ok_next_fd next_slot_def)
  from Suc.IH [OF this] fd_fill_Ok [OF tab_ok_files [OF Suc.prems(1)] assms, of "next_fd t" flags mode] Suc.prems(2)
  show ?case by (auto simp: Let_def)
qed simp

lemma get_dirfd_loop_runs:
  assumes "terminated path" and "terminated mount" and "length (cstr path) < 256" and "length (cstr mount) < 256"
  shows "tab_ok t \<Longrightarrow> next_dirfd t < 4096 \<Longrightarrow> \<exists>r t'. get_dirfd_loop n path mount flags mode t = Ok (r, t')"
proof (induction n arbitrary: t)
  case (Suc n)
  let ?t = "t\<lparr>next_dirfd := next_slot 4096 (next_dirfd t)\<rparr>"
  have "tab_ok ?t" "next_dirfd ?t < 4096" using Suc.prems by (simp_all add: tab_ok_next_dirfd next_slot_def)
  moreover have "fd_ok (ds_fd (dirs t (next_dirfd t)))" using tab_ok_dirs [OF Suc.prems(1)] by (simp add: dir_ok_def)
  ultimately show ?case using Suc.IH [of ?t] fd_fill_Ok [OF _ assms, of "ds_fd (dirs t (next_dirfd t))" flags mode] Suc.prems(2)
    by (auto simp: Let_def)
qed simp

lemma strlen_long: "terminated s \<Longrightarrow> 256 < length (cstr s) \<Longrightarrow> \<exists>l. strlen s = Ok l \<and> 256 < l"
  using strlen_length [of s] by simp

lemma named_fds_runs: "(\<And>i. fd_ok (f i)) \<Longrightarrow> terminated path \<Longrightarrow> \<exists>is. named_fds f path i n = Ok is"
proof (induction n arbitrary: i)
  case (Suc n)
  then obtain "is" where r: "named_fds f path (i + 1) n = Ok is" by blast
  show ?case
  proof (cases "fd_loaded (f i) = 1")
    case True
    then have "terminated (fd_name (f i))" using Suc.prems(1) [of i] by (simp add: fd_ok_def)
    then obtain v where "strcmp (fd_name (f i)) path = Ok v" using strcmp_zero_iff Suc.prems(2) by blast
    with True r show ?thesis by simp
  qed (use r in simp)
qed simp

text \<open>The operations with their arguments. Seeking, reading and writing a file set the offset of its entry.\<close>

datatype fd_call = FdOpen "u8 list" "u8 list" u32 u32 | FdOpenDir "u8 list" "u8 list" u32 u32 | FdRelease int | FdReleaseDir int
  | FdForce "u8 list" | FdReadDir int "u8 list" u32 u32 | FdAdd "u8 list" int "u8 list" u32 u32 u32 | FdOffset nat u64

fun do_fd :: "fd_call \<Rightarrow> fdtab \<Rightarrow> (int \<times> fdtab) result" where
  "do_fd (FdOpen path mount flags mode) t = get_fd path mount flags mode t"
| "do_fd (FdOpenDir path mount flags mode) t = get_dirfd path mount flags mode t"
| "do_fd (FdRelease fd) t = release_fd fd t"
| "do_fd (FdReleaseDir fd) t = release_dirfd fd t"
| "do_fd (FdForce path) t = force_release path t"
| "do_fd (FdReadDir fd name len type) t = rbind (read_dirfd fd name len type t) (\<lambda>(r, name', len', type', t'). Ok (r, t'))"
| "do_fd (FdAdd mem fd name inode type len) t = rbind (add_file_to_dirfd mem fd name inode type len t) (\<lambda>(r, t'). Ok (uint r, t'))"
| "do_fd (FdOffset i off) t = Ok (0, set_file i ((files t i)\<lparr>fd_offset := off\<rparr>) t)"

text \<open>The operation gets a string of more than 256 characters: the code refuses it.\<close>

fun too_long :: "fd_call \<Rightarrow> bool" where
  "too_long (FdOpen path mount flags mode) \<longleftrightarrow> 256 < length (cstr path) \<or> 256 < length (cstr mount)"
| "too_long (FdOpenDir path mount flags mode) \<longleftrightarrow> 256 < length (cstr path) \<or> 256 < length (cstr mount)"
| "too_long (FdAdd mem fd name inode type len) \<longleftrightarrow> 256 < length (cstr name)"
| "too_long _ \<longleftrightarrow> False"

text \<open>The strings end, whatever their length but for 256 characters, which pass the checks of the code and overrun
  their array by the NUL; no descriptor is negative, the directory released is open, the buffer a name is read to
  has the 256 bytes of a name; and a descriptor is not asked for right after the last of its table was handed out.\<close>

fun fd_args :: "fd_call \<Rightarrow> fdtab \<Rightarrow> bool" where
  "fd_args (FdOpen path mount flags mode) t \<longleftrightarrow> terminated path \<and> terminated mount \<and> length (cstr path) \<noteq> 256
    \<and> length (cstr mount) \<noteq> 256 \<and> next_fd t < VFS_COMPAT_MAX_OPEN_FILES"
| "fd_args (FdOpenDir path mount flags mode) t \<longleftrightarrow> terminated path \<and> terminated mount \<and> length (cstr path) \<noteq> 256
    \<and> length (cstr mount) \<noteq> 256 \<and> next_dirfd t < VFS_COMPAT_MAX_OPEN_DIRECTORIES"
| "fd_args (FdRelease fd) t \<longleftrightarrow> 0 \<le> fd"
| "fd_args (FdReleaseDir fd) t \<longleftrightarrow> 0 \<le> fd \<and> (fd < int VFS_COMPAT_MAX_OPEN_DIRECTORIES \<longrightarrow> fd_loaded (ds_fd (dirs t (nat fd))) = 1)"
| "fd_args (FdForce path) t \<longleftrightarrow> terminated path"
| "fd_args (FdReadDir fd name len type) t \<longleftrightarrow> 0 \<le> fd \<and> 256 \<le> length name"
| "fd_args (FdAdd mem fd name inode type len) t \<longleftrightarrow> 0 \<le> fd \<and> terminated name \<and> length (cstr name) \<noteq> 256 \<and> length mem = 256"
| "fd_args (FdOffset i off) t \<longleftrightarrow> i < VFS_COMPAT_MAX_OPEN_FILES"

definition fd_runs :: "fd_call \<Rightarrow> fdtab \<Rightarrow> bool" where
  "fd_runs c t \<longleftrightarrow> (\<exists>r t'. do_fd c t = Ok (r, t') \<and> tab_ok t' \<and> (too_long c \<longrightarrow> t' = t))"

lemma open_runs:
  assumes "tab_ok t" and "fd_args (FdOpen path mount flags mode) t"
  shows "fd_runs (FdOpen path mount flags mode) t"
proof (cases "too_long (FdOpen path mount flags mode)")
  case True
  with strlen_long [of path] strlen_long [of mount] strlen_length [of path] strlen_length [of mount] assms
  show ?thesis by (auto simp: fd_runs_def get_fd_def)
next
  case False
  with assms(2) have a: "terminated path" "terminated mount" "length (cstr path) < 256" "length (cstr mount) < 256" by auto
  with get_fd_loop_runs [OF a assms(1), of 65536 flags mode] get_fd_loop_ok [OF a(1,2), of 65536 flags mode t] assms False
  show ?thesis by (auto simp: fd_runs_def get_fd_scan [OF a])
qed

lemma open_dir_runs:
  assumes "tab_ok t" and "fd_args (FdOpenDir path mount flags mode) t"
  shows "fd_runs (FdOpenDir path mount flags mode) t"
proof (cases "too_long (FdOpenDir path mount flags mode)")
  case True
  with strlen_long [of path] strlen_long [of mount] strlen_length [of path] strlen_length [of mount] assms
  show ?thesis by (auto simp: fd_runs_def get_dirfd_def)
next
  case False
  with assms(2) have a: "terminated path" "terminated mount" "length (cstr path) < 256" "length (cstr mount) < 256" by auto
  with get_dirfd_loop_runs [OF a assms(1), of 4096 flags mode] get_dirfd_loop_ok [OF a(1,2), of 4096 flags mode t] assms False
  show ?thesis by (auto simp: fd_runs_def get_dirfd_def strlen_exact)
qed

lemma release_runs:
  assumes "tab_ok t"
  shows "0 \<le> fd \<Longrightarrow> fd_runs (FdRelease fd) t"
    and "fd_args (FdReleaseDir fd) t \<Longrightarrow> fd_runs (FdReleaseDir fd) t"
    and "terminated path \<Longrightarrow> fd_runs (FdForce path) t"
proof -
  show "fd_runs (FdRelease fd) t" if "0 \<le> fd"
    using that assms by (auto simp: fd_runs_def release_fd_def slot_def close_file_ok)
  show "fd_runs (FdReleaseDir fd) t" if a: "fd_args (FdReleaseDir fd) t"
  proof -
    have "\<exists>r t'. release_dirfd fd t = Ok (r, t')"
    proof (cases "fd < 4096")
      case True
      with a loaded_dents [OF tab_ok_dirs [OF assms], of "nat fd"] obtain ds where "ds_dents (dirs t (nat fd)) = Dents ds" by auto
      with a True show ?thesis by (auto simp: release_dirfd_def slot_def Let_def)
    qed (use a in \<open>simp add: release_dirfd_def slot_def\<close>)
    with release_dirfd_ok [of fd t] assms show ?thesis by (auto simp: fd_runs_def)
  qed
  show "fd_runs (FdForce path) t" if "terminated path"
  proof -
    have "fd_ok (ds_fd (dirs t i))" for i using tab_ok_dirs [OF assms] by (simp add: dir_ok_def)
    with named_fds_runs [of "files t" path] named_fds_runs [of "\<lambda>i. ds_fd (dirs t i)" path] tab_ok_files [OF assms] that
    obtain fs ds where "named_fds (files t) path 0 65536 = Ok fs" "named_fds (\<lambda>i. ds_fd (dirs t i)) path 0 4096 = Ok ds" by metis
    then show ?thesis using assms by (simp add: fd_runs_def force_release_def fold_close_ok)
  qed
qed

lemma dirent_ok_name:
  assumes "dirent_ok e"
  shows "terminated (dt_name e)" and "length (cstr (dt_name e)) < 256"
proof -
  show t: "terminated (dt_name e)" using assms by (simp add: dirent_ok_def)
  obtain r where "dt_name e = cstr (dt_name e) @ 0 # r" using terminated_split [OF t] by blast
  from arg_cong [OF this, of length] show "length (cstr (dt_name e)) < 256" using assms by (simp add: dirent_ok_def)
qed

lemma read_dir_runs:
  assumes "tab_ok t" and "0 \<le> fd" and "256 \<le> length name"
  shows "fd_runs (FdReadDir fd name len type) t"
proof -
  have "\<exists>x. read_dirfd fd name len type t = Ok x"
  proof (cases "fd < 4096")
    case False
    then show ?thesis by (simp add: read_dirfd_def slot_def)
  next
    case True
    let ?d = "dirs t (nat fd)"
    show ?thesis
    proof (cases "fd_loaded (ds_fd ?d) = 0 \<or> ds_number ?d \<le> ds_index ?d")
      case True
      with \<open>fd < 4096\<close> assms(2) show ?thesis by (auto simp: read_dirfd_def slot_def Let_def)
    next
      case False
      then obtain h es where d: "ds_dents ?d = Dents (h # es)" "ds_number ?d = of_nat (length es)" "list_all dirent_ok es"
        using loaded_dents [OF tab_ok_dirs [OF assms(1)], of "nat fd"] by auto
      have "unat (of_nat (length es) :: u32) \<le> length es" by (simp add: unsigned_of_nat take_bit_eq_mod)
      hence i: "unat (ds_index ?d) < length es" using False d(2) by (simp add: word_less_nat_alt not_le)
      hence "dirent_ok (es ! unat (ds_index ?d))" using d(3) by (simp add: list_all_length)
      note e = dirent_ok_name [OF this]
      with strncpy_take [OF e(1), of name] assms(3) obtain b where
        "strncpy name (dt_name (es ! unat (ds_index ?d))) (unat (dt_len (es ! unat (ds_index ?d)))) = Ok b" by auto
      with False d(1) i \<open>fd < 4096\<close> assms(2) show ?thesis by (auto simp: read_dirfd_def slot_def Let_def)
    qed
  qed
  then obtain r name' len' type' t' where "read_dirfd fd name len type t = Ok (r, name', len', type', t')" by auto
  with read_dirfd_ok [OF this assms(1)] show ?thesis by (simp add: fd_runs_def)
qed

lemma add_runs:
  assumes "tab_ok t" and "fd_args (FdAdd mem fd name inode type len) t"
  shows "fd_runs (FdAdd mem fd name inode type len) t"
proof (cases "int 4096 \<le> fd \<or> 256 < length (cstr name)")
  case True
  with assms strlen_length [of name] strlen_long [of name] show ?thesis
    by (auto simp: fd_runs_def add_file_to_dirfd_def slot_def)
next
  case False
  with assms(2) have n: "length (cstr name) < 256" "terminated name" "length mem = 256" "0 \<le> fd" "fd < 4096" by auto
  obtain b where b: "strncpy mem name (length (cstr name)) = Ok b" using strncpy_take [OF n(2), of mem] n(1,3) by auto
  have "\<exists>r t'. add_file_to_dirfd mem fd name inode type len t = Ok (r, t')"
  proof (cases "fd_loaded (ds_fd (dirs t (nat fd))) = 0")
    case True
    with n show ?thesis by (auto simp: add_file_to_dirfd_def slot_def strlen_exact Let_def)
  next
    case False
    then obtain ds where "ds_dents (dirs t (nat fd)) = Dents ds" using loaded_dents [OF tab_ok_dirs [OF assms(1)], of "nat fd"] by auto
    with False n b show ?thesis by (auto simp: add_file_to_dirfd_def slot_def strlen_exact Let_def)
  qed
  then obtain r t' where r: "add_file_to_dirfd mem fd name inode type len t = Ok (r, t')" by blast
  from add_file_ok [OF r assms(1) n(2,3)] r False show ?thesis by (simp add: fd_runs_def)
qed

lemma do_fd_runs: "tab_ok t \<Longrightarrow> fd_args c t \<Longrightarrow> fd_runs c t"
proof (cases c)
  case (FdOffset i off)
  assume "tab_ok t"
  with tab_ok_files [of t i] have "tab_ok (set_file i ((files t i)\<lparr>fd_offset := off\<rparr>) t)"
    by (intro tab_ok_set_file) (simp_all add: fd_ok_def)
  with FdOffset show ?thesis by (simp add: fd_runs_def)
qed (simp_all add: open_runs open_dir_runs release_runs read_dir_runs add_runs)

section \<open>Reachable tables\<close>

inductive fd_step :: "fdtab \<Rightarrow> fdtab \<Rightarrow> bool" where
  step: "fd_args c t \<Longrightarrow> do_fd c t = Ok (r, t') \<Longrightarrow> fd_step t t'"

lemma fd_steps_ok: "fd_step\<^sup>*\<^sup>* empty_fdtab t \<Longrightarrow> tab_ok t"
proof (induction rule: rtranclp_induct)
  case (step t t')
  then show ?case using do_fd_runs [of t] by (fastforce elim!: fd_step.cases simp: fd_runs_def)
qed (rule tab_ok_empty)

text \<open>C30: the tables after any sequence of operations with proper arguments (\<open>fd_args\<close>: strings that end, of any length but
  256 characters; no negative descriptor; no descriptor asked for right after the last one of the table was handed out; a directory
  released is open; a name is read to a buffer of 256 bytes). Every entry is free or in use, an entry in use has strings
  that end within their arrays, an open directory has its chain with as many entries as its count says. Every further operation
  with proper arguments returns, without an access behind an array, and keeps this; one that gets a longer string than the arrays
  hold changes nothing.\<close>

theorem fd_tables_ok:
  assumes "fd_step\<^sup>*\<^sup>* empty_fdtab t" and "fd_args c t"
  shows "tab_ok t \<and> (\<exists>r t'. do_fd c t = Ok (r, t') \<and> tab_ok t' \<and> (too_long c \<longrightarrow> t' = t))"
  using fd_steps_ok [OF assms(1)] do_fd_runs [of t c] assms(2) by (simp add: fd_runs_def)

text \<open>A file and a directory are opened, an entry is added and read back, and an over-long name is refused.\<close>

theorem fd_tables_ok_witness:
  "\<exists>r0 r1 r2 r3 t1 t2 t3 t4. do_fd (FdOpen [97, 0] [47, 0] 0 0) empty_fdtab = Ok (r0, t1)
    \<and> do_fd (FdOpenDir [98, 0] [47, 0] 0 0) t1 = Ok (r1, t2) \<and> do_fd (FdAdd (replicate 256 0) 0 [99, 0] 5 1 1) t2 = Ok (r2, t3)
    \<and> do_fd (FdReadDir 0 (replicate 256 0) 0 0) t3 = Ok (r3, t4) \<and> tab_ok t4
    \<and> (\<exists>r. do_fd (FdOpen (replicate 300 97 @ [0]) [47, 0] 0 0) empty_fdtab = Ok (r, empty_fdtab))"
proof -
  have e: "fd_step\<^sup>*\<^sup>* empty_fdtab empty_fdtab" by simp
  have n0: "next_fd empty_fdtab < 65536" "next_dirfd empty_fdtab < 4096" by (simp_all add: empty_fdtab_def)
  have a1: "fd_args (FdOpen [97, 0] [47, 0] 0 0) empty_fdtab" using n0 by (simp add: cstr_simps)
  from fd_tables_ok [OF e a1] obtain r0 t1 where t1: "do_fd (FdOpen [97, 0] [47, 0] 0 0) empty_fdtab = Ok (r0, t1)" by blast
  have s1: "fd_step\<^sup>*\<^sup>* empty_fdtab t1" by (rule r_into_rtranclp) (rule fd_step.step [OF a1 t1])
  have "dirs t1 = dirs empty_fdtab \<and> next_dirfd t1 = next_dirfd empty_fdtab"
    using get_fd_free [OF tab_ok_empty n0(1), of "[97, 0]" "[47, 0]" 0 0 0] t1
    by (auto simp: cstr_simps empty_fdtab_def blank_fd_def)
  with n0 have a2: "fd_args (FdOpenDir [98, 0] [47, 0] 0 0) t1" by (simp add: cstr_simps)
  from fd_tables_ok [OF s1 a2] obtain r1 t2 where t2: "do_fd (FdOpenDir [98, 0] [47, 0] 0 0) t1 = Ok (r1, t2)" by blast
  have s2: "fd_step\<^sup>*\<^sup>* empty_fdtab t2" by (rule rtranclp.rtrancl_into_rtrancl [OF s1]) (rule fd_step.step [OF a2 t2])
  have a3: "fd_args (FdAdd (replicate 256 0) 0 [99, 0] 5 1 1) t2" by (simp add: cstr_simps)
  from fd_tables_ok [OF s2 a3] obtain r2 t3 where t3: "do_fd (FdAdd (replicate 256 0) 0 [99, 0] 5 1 1) t2 = Ok (r2, t3)" by blast
  have s3: "fd_step\<^sup>*\<^sup>* empty_fdtab t3" by (rule rtranclp.rtrancl_into_rtrancl [OF s2]) (rule fd_step.step [OF a3 t3])
  have a4: "fd_args (FdReadDir 0 (replicate 256 0) 0 0) t3" by simp
  from fd_tables_ok [OF s3 a4] obtain r3 t4 where t4: "do_fd (FdReadDir 0 (replicate 256 0) 0 0) t3 = Ok (r3, t4)" "tab_ok t4" by blast
  have c: "cstr (replicate 300 97 @ [0]) = (replicate 300 97 :: u8 list)" by (rule cstr_terminated_app) simp
  have "fd_args (FdOpen (replicate 300 97 @ [0]) [47, 0] 0 0) empty_fdtab" using n0 by (simp add: c) (simp add: cstr_simps terminated_def)
  moreover have "too_long (FdOpen (replicate 300 97 @ [0]) [47, 0] 0 0)" by (simp add: c)
  ultimately have "\<exists>r. do_fd (FdOpen (replicate 300 97 @ [0]) [47, 0] 0 0) empty_fdtab = Ok (r, empty_fdtab)"
    using fd_tables_ok [OF e] by blast
  with t1 t2 t3 t4 show ?thesis by blast
qed

section \<open>Listings\<close>

text \<open>An open directory is a queue of names with their types: what \<open>read_dirfd\<close> has not returned yet.\<close>

definition shown :: "dirent \<Rightarrow> u8 list \<times> u32" where
  "shown e = (take (unat (dt_len e)) (cstr (dt_name e)), dt_type e)"

definition listing :: "fdtab \<Rightarrow> nat \<Rightarrow> (u8 list \<times> u32) list" where
  "listing t i = (case ds_dents (dirs t i) of Dents ds \<Rightarrow> map shown (drop (unat (ds_index (dirs t i))) (List.tl ds)) | _ \<Rightarrow> [])"

definition open_dir :: "fdtab \<Rightarrow> nat \<Rightarrow> nat \<Rightarrow> bool" where
  "open_dir t i n \<longleftrightarrow> tab_ok t \<and> i < 4096 \<and> fd_loaded (ds_fd (dirs t i)) = 1
     \<and> (\<exists>h es. ds_dents (dirs t i) = Dents (h # es) \<and> length es = n) \<and> n < 2 ^ 32 \<and> unat (ds_index (dirs t i)) \<le> n"

lemma open_dirE:
  assumes "open_dir t i n"
  obtains h es where "ds_dents (dirs t i) = Dents (h # es)" and "length es = n" and "n < 2 ^ 32"
    and "ds_number (dirs t i) = of_nat n" and "unat (ds_number (dirs t i)) = n" and "list_all dirent_ok es"
    and "unat (ds_index (dirs t i)) \<le> n" and "i < 4096" and "fd_loaded (ds_fd (dirs t i)) = 1"
    and "listing t i = map shown (drop (unat (ds_index (dirs t i))) es)"
proof -
  obtain h es where d: "ds_dents (dirs t i) = Dents (h # es)" "length es = n" using assms by (auto simp: open_dir_def)
  with tab_ok_dirs [of t i] assms show ?thesis
    by (intro that [OF d]) (auto simp: open_dir_def dir_ok_def listing_def unat_word_of_nat_32)
qed

lemma read_dirfd_listing:
  assumes "open_dir t i n" and "length name = 256"
  shows "case listing t i of
      [] \<Rightarrow> read_dirfd (int i) name len type t = Ok (0, name, len, type, t)
    | (nm, ty) # rest \<Rightarrow> \<exists>len' t'. read_dirfd (int i) name len type t = Ok (1, nm @ 0 # drop (length nm + 1) name, len', ty, t')
        \<and> open_dir t' i n \<and> listing t' i = rest \<and> (\<forall>j. j \<noteq> i \<longrightarrow> dirs t' j = dirs t j) \<and> files t' = files t"
proof -
  from assms(1) obtain h es where d: "ds_dents (dirs t i) = Dents (h # es)" "length es = n" "n < 2 ^ 32"
    "ds_number (dirs t i) = of_nat n" "unat (ds_number (dirs t i)) = n" "list_all dirent_ok es"
    "unat (ds_index (dirs t i)) \<le> n" "i < 4096" "fd_loaded (ds_fd (dirs t i)) = 1"
    "listing t i = map shown (drop (unat (ds_index (dirs t i))) es)" by (rule open_dirE)
  let ?k = "unat (ds_index (dirs t i))"
  show ?thesis
  proof (cases "?k < n")
    case False
    with d have "listing t i = []" "ds_number (dirs t i) \<le> ds_index (dirs t i)" by (simp_all add: word_le_nat_alt)
    with d show ?thesis by (simp add: read_dirfd_def)
  next
    case True
    let ?e = "es ! ?k" and ?t = "set_dir i ((dirs t i)\<lparr>ds_index := ds_index (dirs t i) + 1\<rparr>) t"
    have split: "drop ?k es = ?e # drop (?k + 1) es" using True d(2) by (simp add: Cons_nth_drop_Suc)
    have less: "\<not> ds_number (dirs t i) \<le> ds_index (dirs t i)" using True d(5) by (simp add: word_le_nat_alt)
    have e: "length (dt_name ?e) = 256" "terminated (dt_name ?e)" using d(2,6) True by (auto simp: list_all_length dirent_ok_def)
    have len: "length (cstr (dt_name ?e)) < 256" using cstr_length [OF e(2)] e(1) by simp
    let ?nm = "take (unat (dt_len ?e)) (cstr (dt_name ?e))"
    have copy: "strncpy name (dt_name ?e) (unat (dt_len ?e)) = Ok (?nm @ 0 # drop (length ?nm + 1) name)"
      using strncpy_take [OF e(2), of name] len assms(2) by simp
    have step: "unat (ds_index (dirs t i) + 1) = ?k + 1" using True d(3) by (simp add: unat_word_ariths)
    have "read_dirfd (int i) name len type t = Ok (1, ?nm @ 0 # drop (length ?nm + 1) name, dt_len ?e, dt_type ?e, ?t)"
      using True d less copy by (auto simp: read_dirfd_def Let_def)
    moreover have "open_dir ?t i n" using assms(1) True step d(1,2)
      by (auto simp: open_dir_def tab_ok_set_dir dir_ok_index tab_ok_dirs)
    moreover have "listing ?t i = map shown (drop (?k + 1) es)" using d(1) step by (simp add: listing_def)
    ultimately show ?thesis using d(10) split by (auto simp: shown_def)
  qed
qed

text \<open>Reading an open directory takes its entries one by one, in order and without touching another
  descriptor; at the end it returns 0 and leaves everything alone.\<close>

theorem read_dirfd_takes:
  assumes "open_dir t i n" and "length name = 256"
  shows "case listing t i of
      [] \<Rightarrow> read_dirfd (int i) name len type t = Ok (0, name, len, type, t)
    | (nm, ty) # rest \<Rightarrow> \<exists>len' t'. read_dirfd (int i) name len type t = Ok (1, nm @ 0 # drop (length nm + 1) name, len', ty, t')
        \<and> open_dir t' i n \<and> listing t' i = rest \<and> (\<forall>j. j \<noteq> i \<longrightarrow> dirs t' j = dirs t j) \<and> files t' = files t"
  by (rule read_dirfd_listing [OF assms])

lemma add_file_listing:
  assumes "open_dir t i n" and "n + 1 < 2 ^ 32" and "length mem = 256" and "terminated name" and "length (cstr name) < 256"
  shows "\<exists>t'. add_file_to_dirfd mem (int i) name inode type len t = Ok (1, t') \<and> open_dir t' i (n + 1)
    \<and> listing t' i = listing t i @ [(take (unat len) (cstr name), type)] \<and> (\<forall>j. j \<noteq> i \<longrightarrow> dirs t' j = dirs t j) \<and> files t' = files t"
proof -
  from assms(1) obtain h es where d: "ds_dents (dirs t i) = Dents (h # es)" "length es = n" "n < 2 ^ 32"
    "ds_number (dirs t i) = of_nat n" "unat (ds_number (dirs t i)) = n" "list_all dirent_ok es"
    "unat (ds_index (dirs t i)) \<le> n" "i < 4096" "fd_loaded (ds_fd (dirs t i)) = 1"
    "listing t i = map shown (drop (unat (ds_index (dirs t i))) es)" by (rule open_dirE)
  let ?b = "cstr name @ 0 # drop (length (cstr name) + 1) mem"
  let ?e = "\<lparr>dt_name = ?b, dt_len = len, dt_inode = inode, dt_type = type\<rparr>"
  let ?t = "set_dir i ((dirs t i)\<lparr>ds_dents := Dents (h # es @ [?e]), ds_number := ds_number (dirs t i) + 1\<rparr>) t"
  have l: "strlen name = Ok (length (cstr name))" using strlen_exact assms(4,5) by simp
  have c: "strncpy mem name (length (cstr name)) = Ok ?b" using strncpy_copies [OF assms(4), of "length (cstr name)" mem] assms(3,5) by simp
  have run: "add_file_to_dirfd mem (int i) name inode type len t = Ok (1, ?t)"
    using d l c assms(5) by (simp add: add_file_to_dirfd_def)
  have "tab_ok ?t" using add_file_ok [OF run _ assms(4,3)] assms(1) by (simp add: open_dir_def)
  hence "open_dir ?t i (n + 1)" using d assms(2) by (auto simp: open_dir_def)
  with run d(1,2,7,10) show ?thesis by (auto simp: listing_def shown_def)
qed

text \<open>Loading an entry into an open directory appends it to what reading returns.\<close>

theorem add_file_appends:
  assumes "open_dir t i n" and "n + 1 < 2 ^ 32" and "length mem = 256" and "terminated name" and "length (cstr name) < 256"
  shows "\<exists>t'. add_file_to_dirfd mem (int i) name inode type len t = Ok (1, t') \<and> open_dir t' i (n + 1)
    \<and> listing t' i = listing t i @ [(take (unat len) (cstr name), type)] \<and> (\<forall>j. j \<noteq> i \<longrightarrow> dirs t' j = dirs t j) \<and> files t' = files t"
  by (rule add_file_listing [OF assms])

definition dir_example :: fdtab where
  "dir_example = set_dir 0 \<lparr>ds_fd = blank_fd\<lparr>fd_loaded := 1\<rparr>, ds_dents = Dents [blank_dirent], ds_number = 0, ds_index = 0\<rparr> empty_fdtab"

lemma dir_example_open: "open_dir dir_example 0 0" "listing dir_example 0 = []"
  by (simp_all add: open_dir_def listing_def dir_example_def tab_ok_set_dir tab_ok_empty dir_ok_def fd_ok_def blank_fd_def terminated_def)

theorem read_dirfd_takes_witness: "read_dirfd 0 (replicate 256 1) 5 6 dir_example = Ok (0, replicate 256 1, 5, 6, dir_example)"
  using read_dirfd_takes [OF dir_example_open(1), of "replicate 256 1" 5 6] dir_example_open(2) by simp

theorem add_file_appends_witness:
  "\<exists>t'. add_file_to_dirfd (replicate 256 1) 0 [97, 98, 0] 12 2 1 dir_example = Ok (1, t') \<and> listing t' 0 = [([97], 2)]"
  using add_file_appends [OF dir_example_open(1), of "replicate 256 1" "[97, 98, 0]" 12 2 1] dir_example_open(2)
  by (auto simp: cstr_simps)

end
