(* ===== verification/Partitions.thy ===== *)
theory Partitions
  imports Disk Bytes
begin

text \<open>The partition tables of a disk: \<open>vfs/partition/mbr.c\<close> and \<open>vfs/partition/gpt.c\<close>, with the chain of
  partitions they fill (\<open>add_partition\<close> of \<open>vfs/vfs.c\<close>).\<close>

section \<open>The chain\<close>

text \<open>\<open>struct vfs_partition\<close>; the name has 48 bytes. A chain is its filled nodes: the blank node that follows the
  last one is implied. A null head is \<open>None\<close>.\<close>

record vpart =
  vp_name :: "u8 list"
  vp_lba :: u32
  vp_size :: u32
  vp_status :: u8
  vp_type :: u8

definition new_part :: "u32 \<Rightarrow> u32 \<Rightarrow> u8 \<Rightarrow> u8 \<Rightarrow> vpart" where
  "new_part lba sz status type = \<lparr>vp_name = replicate 48 0, vp_lba = lba, vp_size = sz, vp_status = status, vp_type = type\<rparr>"

definition init_partition_header :: "vpart list option" where
  "init_partition_header = Some []"

definition add_partition :: "vpart list option \<Rightarrow> u32 \<Rightarrow> u32 \<Rightarrow> u8 \<Rightarrow> u8 \<Rightarrow> vpart list option result" where
  "add_partition head lba sz status type = (case head of None \<Rightarrow> Err (Panic ''[VFS] Invalid partition header'')
     | Some ps \<Rightarrow> Ok (Some (ps @ [new_part lba sz status type])))"

section \<open>Master boot records\<close>

abbreviation "MBR_BOOT_SIG \<equiv> (510 :: nat)"
abbreviation "MBR_BOOT_SIG_VALUE \<equiv> (0xAA55 :: u16)"

text \<open>\<open>struct mbr_partition\<close> number \<open>i\<close> of a sector: the four entries of 16 bytes follow 446 bytes.\<close>

definition mbr_type :: "u8 list \<Rightarrow> nat \<Rightarrow> u8 result" where "mbr_type b i = rd b (446 + 16 * i + 4)"
definition mbr_start :: "u8 list \<Rightarrow> nat \<Rightarrow> u32 result" where "mbr_start b i = get32 b (446 + 16 * i + 8)"
definition mbr_sectors :: "u8 list \<Rightarrow> nat \<Rightarrow> u32 result" where "mbr_sectors b i = get32 b (446 + 16 * i + 12)"

text \<open>The last \<open>k\<close> of the four entries; \<open>n\<close> partitions have been found.\<close>

fun mbr_loop :: "nat \<Rightarrow> u8 list \<Rightarrow> vpart list option \<Rightarrow> u32 \<Rightarrow> (u32 \<times> vpart list option) result" where
  "mbr_loop 0 b ps n = Ok (n, ps)"
| "mbr_loop (Suc k) b ps n = (let i = 4 - Suc k in
     rbind (mbr_sectors b i) (\<lambda>sectors. if sectors \<noteq> 0
       then rbind (mbr_start b i) (\<lambda>lba. rbind (mbr_type b i) (\<lambda>type.
         rbind (add_partition ps lba sectors 1 type) (\<lambda>ps. mbr_loop k b ps (n + 1))))
       else mbr_loop k b ps n))"

definition read_mbr :: "dsys \<Rightarrow> u8 list \<Rightarrow> vpart list option \<Rightarrow> (u32 \<times> vpart list option \<times> dsys) result" where
  "read_mbr s disk ps = rbind (disk_read s disk (replicate 512 0) 0 1) (\<lambda>(r, b, s). if r = 0 then Ok (0, ps, s) else
     rbind (load16 (drop MBR_BOOT_SIG b)) (\<lambda>sig. if sig \<noteq> MBR_BOOT_SIG_VALUE then Ok (0, ps, s) else
     rbind (mbr_loop 4 b ps 0) (\<lambda>(n, ps). Ok (n, ps, s))))"

section \<open>GUID partition tables\<close>

abbreviation "GPT_SIGNATURE \<equiv> (0x5452415020494645 :: u64)"

text \<open>\<open>struct gpt_header\<close>.\<close>

definition gpt_signature :: "u8 list \<Rightarrow> u64 result" where "gpt_signature h = get64 h 0"
definition gpt_table_lba :: "u8 list \<Rightarrow> u64 result" where "gpt_table_lba h = get64 h 72"
definition gpt_count :: "u8 list \<Rightarrow> u32 result" where "gpt_count h = get32 h 80"
definition gpt_entry_size :: "u8 list \<Rightarrow> u32 result" where "gpt_entry_size h = get32 h 84"

text \<open>The array of entries, 128 bytes each, is filled four at a time.\<close>

fun gpt_load :: "nat \<Rightarrow> dsys \<Rightarrow> u8 list \<Rightarrow> u32 \<Rightarrow> u64 \<Rightarrow> u32 \<Rightarrow> u32 \<Rightarrow> u8 list \<Rightarrow> (bool \<times> u8 list \<times> dsys) result" where
  "gpt_load k s disk count tab sz i ents = (if \<not> i < count then Ok (True, ents, s) else case k of 0 \<Rightarrow> Err Diverge | Suc k \<Rightarrow>
     (let lba = ucast (tab + ucast (drop_bit 9 (i * sz))) :: u32; at = 128 * unat i in
      rbind (disk_read s disk (drop at ents) lba 1) (\<lambda>(r, b, s). if r = 0 then Ok (False, take at ents @ b, s)
        else gpt_load k s disk count tab sz (i + 4) (take at ents @ b))))"

declare gpt_load.simps [simp del]

text \<open>\<open>%0nx\<close> of a number that has at most \<open>n\<close> digits, and the text of the type of an entry: 36 characters. The
  buffer it is printed to has exactly 36 bytes; the NUL behind them lands in the frame and is not modelled.\<close>

definition hex_pad :: "nat \<Rightarrow> nat \<Rightarrow> u8 list" where
  "hex_pad n v = (let h = hex_str v in replicate (n - length h) 48 @ h)"

definition guid_text :: "u8 list \<Rightarrow> u8 list result" where
  "guid_text e = rbind (load32 e) (\<lambda>a. rbind (load16 (drop 4 e)) (\<lambda>b. rbind (load16 (drop 6 e)) (\<lambda>c.
     if length e < 16 then Err Fault else
     Ok (hex_pad 8 (unat a) @ [45] @ hex_pad 4 (unat b) @ [45] @ hex_pad 4 (unat c) @ [45]
       @ hex_pad 2 (unat (e ! 8)) @ hex_pad 2 (unat (e ! 9)) @ [45]
       @ concat (map (\<lambda>i. hex_pad 2 (unat (e ! i))) [10..<16])))))"

definition GPT_NO_ENTRY :: "u8 list" where
  "GPT_NO_ENTRY = replicate 8 48 @ [45] @ replicate 4 48 @ [45] @ replicate 4 48 @ [45] @ replicate 4 48 @ [45] @ replicate 12 48"

definition gpt_entry :: "u8 list \<Rightarrow> nat \<Rightarrow> u8 list" where
  "gpt_entry ents i = take 128 (drop (128 * i) ents)"

text \<open>The entries before the first unused one, of the \<open>k\<close> from the \<open>i\<close>-th on.\<close>

fun gpt_valid :: "nat \<Rightarrow> nat \<Rightarrow> u8 list \<Rightarrow> nat result" where
  "gpt_valid 0 i ents = Ok i"
| "gpt_valid (Suc k) i ents = rbind (guid_text (gpt_entry ents i)) (\<lambda>t. rbind (memcmp t GPT_NO_ENTRY 36) (\<lambda>c.
     if c = 0 then Ok i else gpt_valid k (i + 1) ents))"

text \<open>The last loop counts with a byte: with 256 partitions or more it does not end.\<close>

fun gpt_add :: "nat \<Rightarrow> nat \<Rightarrow> u8 list \<Rightarrow> vpart list option \<Rightarrow> vpart list option result" where
  "gpt_add 0 i ents ps = Ok ps"
| "gpt_add (Suc k) i ents ps = (if 256 \<le> i then Err Diverge else
     rbind (get64 (gpt_entry ents i) 32) (\<lambda>first. rbind (get64 (gpt_entry ents i) 40) (\<lambda>last.
     rbind (add_partition ps (ucast first) (ucast (last - first)) 0 0) (gpt_add k (i + 1) ents))))"

text \<open>\<open>mem\<close> is what the array of entries holds before it is filled.\<close>

definition read_gpt :: "(nat \<Rightarrow> u8) \<Rightarrow> dsys \<Rightarrow> u8 list \<Rightarrow> vpart list option \<Rightarrow> (u32 \<times> vpart list option \<times> dsys) result" where
  "read_gpt mem s disk ps = rbind (disk_read s disk (replicate 512 0) 0 1) (\<lambda>(r, b, s). if r = 0 then Ok (0, ps, s) else
     rbind (load16 (drop MBR_BOOT_SIG b)) (\<lambda>sig. if sig \<noteq> MBR_BOOT_SIG_VALUE then Ok (0, ps, s) else
     rbind (disk_read s disk (replicate 512 0) 1 1) (\<lambda>(r, h, s). if r = 0 then Ok (0, ps, s) else
     rbind (gpt_signature h) (\<lambda>sig. if sig \<noteq> GPT_SIGNATURE then Ok (0, ps, s) else
     rbind (gpt_count h) (\<lambda>count. rbind (gpt_table_lba h) (\<lambda>tab. rbind (gpt_entry_size h) (\<lambda>sz.
     rbind (gpt_load ((unat count + 3) div 4) s disk count tab sz 0 (map mem [0..<128 * unat count])) (\<lambda>(ok, ents, s).
     if \<not> ok then Ok (0, ps, s) else
     rbind (gpt_valid (unat count) 0 ents) (\<lambda>n. rbind (gpt_add n 0 ents ps) (\<lambda>ps. Ok (of_nat n, ps, s)))))))))))"

section \<open>Master boot records found\<close>

lemma disk_read_one:
  assumes "on_drive s name p" and "drive_ok (dports s p)" and "512 \<le> length buf"
  shows "disk_read s name buf lba 1 = Ok (1, dr_sector (dports s p) (ucast lba) @ drop 512 buf, s)"
proof -
  obtain d dd where d: "device_search (dtab s) name = Ok (Some d)" "driver_of (dtab s) d = Ok dd" "registered dd \<noteq> 0"
    "fops dd = Some ata_fops" "ucast (dv_id d) = p" using on_driveE [OF assms(1)] by blast
  show ?thesis
    using dd_read_loop_ok [OF assms(2), of 0 1 buf "ucast lba"] assms(3) d
    by (simp add: disk_read_def device_read_def ata_fops_def dd_disk_read_def size_to_blocks_def)
qed

definition boot_signature :: "u8 list \<Rightarrow> bool" where
  "boot_signature sec \<longleftrightarrow> w16 (take 2 (drop 510 sec)) = MBR_BOOT_SIG_VALUE"

definition mbr_entry :: "u8 list \<Rightarrow> nat \<Rightarrow> vpart list" where
  "mbr_entry sec i = (let sectors = w32 (take 4 (drop (458 + 16 * i) sec)) in
     if sectors = 0 then [] else [new_part (w32 (take 4 (drop (454 + 16 * i) sec))) sectors 1 (sec ! (450 + 16 * i))])"

definition mbr_parts :: "u8 list \<Rightarrow> vpart list" where
  "mbr_parts sec = concat (map (mbr_entry sec) [0..<4])"

lemma load16_sig: "length b = 512 \<Longrightarrow> load16 (drop 510 b) = Ok (w16 (take 2 (drop 510 b)))"
  using get16_eq [of b 510] by (simp add: get16_def)

lemma mbr_loop_entries:
  "length b = 512 \<Longrightarrow> k \<le> 4 \<Longrightarrow> mbr_loop k b (Some ps) n =
    Ok (n + of_nat (length (concat (map (mbr_entry b) [4 - k..<4]))), Some (ps @ concat (map (mbr_entry b) [4 - k..<4])))"
proof (induction k arbitrary: ps n)
  case (Suc k)
  have "[4 - Suc k..<4] = (4 - Suc k) # [4 - k..<4]" using Suc.prems(2) upt_conv_Cons [of "4 - Suc k" 4] Suc_diff_Suc [of k 4] by simp
  moreover have bounds: "446 + 16 * (4 - Suc k) + 16 \<le> 512" using Suc.prems(2) by simp
  have "mbr_sectors b (4 - Suc k) = Ok (w32 (take 4 (drop (458 + 16 * (4 - Suc k)) b)))"
    "mbr_start b (4 - Suc k) = Ok (w32 (take 4 (drop (454 + 16 * (4 - Suc k)) b)))"
    "mbr_type b (4 - Suc k) = Ok (b ! (450 + 16 * (4 - Suc k)))"
    using bounds Suc.prems(1) by (simp_all add: mbr_sectors_def mbr_start_def mbr_type_def get32_eq algebra_simps)
  ultimately show ?case using Suc.IH [of "ps @ mbr_entry b (4 - Suc k)"] Suc.prems
    by (auto simp: Let_def mbr_entry_def add_partition_def algebra_simps simp del: upt_Suc)
qed simp

text \<open>On a disk with a boot signature the partitions are the entries of the table that have a size, in the order of
  the table; without one nothing is found. The disk is left as it is.\<close>

theorem read_mbr_finds:
  assumes "on_drive s disk p" and "drive_ok (dports s p)"
  defines "sec \<equiv> dr_sector (dports s p) 0"
  shows "read_mbr s disk (Some ps) = (if boot_signature sec
    then Ok (of_nat (length (mbr_parts sec)), Some (ps @ mbr_parts sec), s) else Ok (0, Some ps, s))"
proof -
  have "length sec = 512" using assms(2) by (simp add: sec_def drive_ok_def)
  with mbr_loop_entries [of sec 4 ps 0] load16_sig [of sec] disk_read_one [OF assms(1,2), of "replicate 512 0" 0]
  show ?thesis by (simp add: read_mbr_def sec_def boot_signature_def mbr_parts_def)
qed

section \<open>Types of entries\<close>

lemma hex_digit_0: "n < 16 \<Longrightarrow> hex_digit n = 48 \<longleftrightarrow> n = 0"
proof -
  assume "n < 16"
  hence "unat (hex_digit n) = (if n < 10 then 48 + n else 87 + n)"
    by (simp add: hex_digit_def unsigned_of_nat take_bit_nat_eq_self)
  moreover have "hex_digit 0 = 48" by (simp add: hex_digit_def)
  moreover have "hex_digit n = 48 \<Longrightarrow> unat (hex_digit n) = 48" by simp
  ultimately show ?thesis by (auto split: if_splits)
qed

lemma hex_str_zeros: "set (hex_str n) \<subseteq> {48} \<longleftrightarrow> n = 0"
proof (induction n rule: hex_str.induct)
  case (1 n)
  show ?case
  proof (cases "n < 16")
    case True
    then show ?thesis using hex_digit_0 [of n] hex_str.simps [of n] by auto
  next
    case False
    with 1 have "set (hex_str (n div 16)) \<subseteq> {48} \<longleftrightarrow> n div 16 = 0" by blast
    with False show ?thesis using hex_str.simps [of n] by auto
  qed
qed

lemma replicate_eq_set: "length xs = n \<Longrightarrow> xs = replicate n x \<longleftrightarrow> set xs \<subseteq> {x}"
  by (induction xs arbitrary: n) auto

lemma hex_pad_length: "v < 16 ^ n \<Longrightarrow> 0 < n \<Longrightarrow> length (hex_pad n v) = n"
  using hex_str_length [of v n] by (simp add: hex_pad_def Let_def)

lemma hex_pad_zeros: "v < 16 ^ n \<Longrightarrow> 0 < n \<Longrightarrow> hex_pad n v = replicate n 48 \<longleftrightarrow> v = 0"
  using replicate_eq_set [OF hex_pad_length, of v n 48] hex_str_zeros [of v] by (auto simp: hex_pad_def Let_def)

lemma bytes16_w16:
  assumes "length s = 2"
  shows "bytes16 (w16 s) = s"
proof -
  obtain a b where s: "s = [a, b]" using assms by (auto simp: numeral_eq_Suc length_Suc_conv)
  have "ucast (w16 s) = a" "ucast (drop_bit 8 (w16 s)) = b"
    unfolding s by (intro bit_word_eqI; auto simp: w16_def int_shl_def bit_simps bit_u8_high)+
  then show ?thesis by (simp add: bytes16_def s)
qed

lemma zero_words: "bytes32 0 = [0, 0, 0, 0]" "w32 [0, 0, 0, 0] = 0" "bytes16 0 = [0, 0]" "w16 [0, 0] = 0"
  by (simp_all add: bytes32_def w32_def bytes16_def w16_def int_shl_def)

lemma w32_zero: "length s = 4 \<Longrightarrow> w32 s = 0 \<longleftrightarrow> s = [0, 0, 0, 0]"
  using bytes32_w32 [of s] zero_words by metis

lemma w16_zero: "length s = 2 \<Longrightarrow> w16 s = 0 \<longleftrightarrow> s = [0, 0]"
  using bytes16_w16 [of s] zero_words by metis

text \<open>The type of an entry is compared as text; the comparison finds exactly the entries whose type is all zeros.\<close>

definition unused_type :: "u8 list \<Rightarrow> bool" where
  "unused_type e \<longleftrightarrow> take 16 e = replicate 16 0"

lemma list_16: "16 \<le> length e \<Longrightarrow> \<exists>a0 a1 a2 a3 a4 a5 a6 a7 a8 a9 b0 b1 b2 b3 b4 b5 r.
    e = a0 # a1 # a2 # a3 # a4 # a5 # a6 # a7 # a8 # a9 # b0 # b1 # b2 # b3 # b4 # b5 # r"
  by (auto simp: numeral_eq_Suc Suc_le_length_iff)

lemma hex_pad_u: "length (hex_pad 8 (unat (x :: u32))) = 8" "length (hex_pad 4 (unat (y :: u16))) = 4" "length (hex_pad 2 (unat (z :: u8))) = 2"
  "hex_pad 8 (unat x) = replicate 8 48 \<longleftrightarrow> x = 0" "hex_pad 4 (unat y) = replicate 4 48 \<longleftrightarrow> y = 0" "hex_pad 2 (unat z) = replicate 2 48 \<longleftrightarrow> z = 0"
  using hex_pad_length [of "unat x" 8] hex_pad_length [of "unat y" 4] hex_pad_length [of "unat z" 2]
    hex_pad_zeros [of "unat x" 8] hex_pad_zeros [of "unat y" 4] hex_pad_zeros [of "unat z" 2]
    unsigned_less [of x, where ?'a = nat] unsigned_less [of y, where ?'a = nat] unsigned_less [of z, where ?'a = nat]
  by (simp_all add: unat_eq_zero)

lemma guid_text_shape: "16 \<le> length e \<Longrightarrow> guid_text e = Ok (hex_pad 8 (unat (w32 (take 4 e))) @ [45]
    @ hex_pad 4 (unat (w16 (take 2 (drop 4 e)))) @ [45] @ hex_pad 4 (unat (w16 (take 2 (drop 6 e)))) @ [45]
    @ hex_pad 2 (unat (e ! 8)) @ hex_pad 2 (unat (e ! 9)) @ [45] @ concat (map (\<lambda>i. hex_pad 2 (unat (e ! i))) [10..<16]))"
  using get32_eq [of e 0] get16_eq [of e 4] get16_eq [of e 6] by (simp add: guid_text_def get32_def get16_def)

lemma concat_pads: "length (concat (map (\<lambda>i. hex_pad 2 (unat ((e :: u8 list) ! i))) is)) = 2 * length is"
  "concat (map (\<lambda>i. hex_pad 2 (unat (e ! i))) is) = replicate (2 * length is) 48 \<longleftrightarrow> (\<forall>i \<in> set is. e ! i = 0)"
proof (induction "is")
  case (Cons i "is")
  have "replicate (2 * length (i # is)) (48 :: u8) = replicate 2 48 @ replicate (2 * length is) 48" by (simp flip: replicate_add)
  with Cons show "concat (map (\<lambda>i. hex_pad 2 (unat (e ! i))) (i # is)) = replicate (2 * length (i # is)) 48 \<longleftrightarrow> (\<forall>i \<in> set (i # is). e ! i = 0)"
    by (simp add: hex_pad_u del: replicate.simps)
qed (auto simp: hex_pad_u)

lemma GPT_NO_ENTRY_shape: "GPT_NO_ENTRY = replicate 8 48 @ [45] @ replicate 4 48 @ [45] @ replicate 4 48 @ [45]
    @ replicate 2 48 @ replicate 2 48 @ [45] @ replicate (2 * length [10..<16]) 48"
  by (simp add: GPT_NO_ENTRY_def numeral_eq_Suc)

lemma guid_text_unused:
  assumes "16 \<le> length e"
  shows "\<exists>t. guid_text e = Ok t \<and> length t = 36 \<and> (t = GPT_NO_ENTRY \<longleftrightarrow> unused_type e)"
proof -
  have "unused_type e \<longleftrightarrow> w32 (take 4 e) = 0 \<and> w16 (take 2 (drop 4 e)) = 0 \<and> w16 (take 2 (drop 6 e)) = 0
      \<and> e ! 8 = 0 \<and> e ! 9 = 0 \<and> (\<forall>i \<in> set [10..<16]. e ! i = 0)"
    using list_16 [OF assms] by (auto simp: unused_type_def w32_zero w16_zero numeral_eq_Suc)
  moreover have "concat (map (\<lambda>i. hex_pad 2 (unat (e ! i))) [10..<16]) = replicate 12 48 \<longleftrightarrow> (\<forall>i \<in> set [10..<16]. e ! i = 0)"
    using concat_pads(2) [of e "[10..<16]"] by (simp del: upt_rec_numeral)
  ultimately show ?thesis unfolding guid_text_shape [OF assms] GPT_NO_ENTRY_shape
    by (simp add: hex_pad_u concat_pads(1) del: upt_rec_numeral)
qed

section \<open>GUID partition tables found\<close>

definition gpt_address :: "u64 \<Rightarrow> nat \<Rightarrow> u64" where
  "gpt_address tab j = ucast (ucast (tab + of_nat j) :: u32)"

definition gpt_table :: "drive \<Rightarrow> u64 \<Rightarrow> nat \<Rightarrow> u8 list" where
  "gpt_table d tab m = concat (map (\<lambda>j. dr_sector d (gpt_address tab j)) [0..<m])"

definition gpt_part :: "u8 list \<Rightarrow> nat \<Rightarrow> vpart" where
  "gpt_part tbl i = (case (get64 (gpt_entry tbl i) 32, get64 (gpt_entry tbl i) 40) of
     (Ok a, Ok b) \<Rightarrow> new_part (ucast a) (ucast (b - a)) 0 0)"

definition gpt_used :: "u8 list \<Rightarrow> nat \<Rightarrow> nat" where
  "gpt_used tbl k = length (takeWhile (\<lambda>i. \<not> unused_type (gpt_entry tbl i)) [0..<k])"

lemma gpt_lba:
  assumes "j < 2 ^ 23"
  shows "ucast (ucast (tab + ucast (drop_bit 9 (of_nat (4 * j) * 128 :: u32)) :: u64) :: u32) = gpt_address tab j"
proof -
  have "(of_nat (4 * j) * 128 :: u32) = of_nat (512 * j)" by simp
  hence "unat (of_nat (4 * j) * 128 :: u32) = 512 * j"
    using assms unat_word_of_nat_32 [of "512 * j"] by (simp del: of_nat_mult)
  hence "unat (drop_bit 9 (of_nat (4 * j) * 128 :: u32)) = j"
    by (subst unat_drop_bit_eq) (simp add: drop_bit_eq_div)
  hence "(ucast (drop_bit 9 (of_nat (4 * j) * 128 :: u32)) :: u64) = of_nat j"
    by (metis of_nat_unat)
  thus ?thesis by (simp add: gpt_address_def)
qed

lemma gpt_load_sectors:
  assumes "on_drive s disk p" and "drive_ok (dports s p)" and "m \<le> 2 ^ 23" and "length ents = 512 * m"
  shows "k \<le> m \<Longrightarrow> take (512 * (m - k)) ents = concat (map (\<lambda>j. dr_sector (dports s p) (gpt_address tab j)) [0..<m - k]) \<Longrightarrow>
    length ents = 512 * m \<Longrightarrow>
    gpt_load k s disk (of_nat (4 * m)) tab 128 (of_nat (4 * (m - k))) ents = Ok (True, gpt_table (dports s p) tab m, s)"
proof (induction k arbitrary: ents)
  case 0
  then show ?case by (simp add: gpt_load.simps [of 0] gpt_table_def)
next
  case (Suc k)
  let ?j = "m - Suc k" and ?i = "of_nat (4 * (m - Suc k)) :: u32"
  have j: "Suc ?j = m - k" "?j < m" using Suc.prems(1) by simp_all
  have u: "unat ?i = 4 * ?j" "unat (of_nat (4 * m) :: u32) = 4 * m"
    using j(2) assms(3) unat_word_of_nat_32 [of "4 * ?j"] unat_word_of_nat_32 [of "4 * m"] by simp_all
  have less: "?i < of_nat (4 * m)" using j(2) u by (simp add: word_less_nat_alt)
  have room: "512 * ?j + 512 \<le> length ents" using j(2) Suc.prems(3) by simp
  have read: "disk_read s disk (drop (128 * unat ?i) ents) (ucast (tab + ucast (drop_bit 9 (?i * 128)))) 1
      = Ok (1, dr_sector (dports s p) (gpt_address tab ?j) @ drop (512 * ?j + 512) ents, s)"
    using disk_read_one [OF assms(1,2), of "drop (128 * unat ?i) ents"] room u(1) gpt_lba [of ?j tab] j(2) assms(3)
    by (simp add: add.commute)
  let ?e = "take (512 * ?j) ents @ dr_sector (dports s p) (gpt_address tab ?j) @ drop (512 * ?j + 512) ents"
  have l: "length (dr_sector (dports s p) (gpt_address tab ?j)) = 512" using assms(2) by (simp add: drive_ok_def)
  have "length (concat (map (\<lambda>j. dr_sector (dports s p) (gpt_address tab j)) [0..<?j])) = 512 * ?j"
    unfolding Suc.prems(2) [symmetric] using room by simp
  hence "take (512 * (m - k)) ?e = concat (map (\<lambda>j. dr_sector (dports s p) (gpt_address tab j)) [0..<m - k])"
    using Suc.prems(2) room l unfolding j(1) [symmetric] by simp
  moreover have "length ?e = 512 * m" using room l Suc.prems(3) by simp
  moreover have "?i + 4 = of_nat (4 * (m - k))" unfolding j(1) [symmetric] by (simp add: algebra_simps)
  ultimately have "gpt_load k s disk (of_nat (4 * m)) tab 128 (?i + 4) ?e = Ok (True, gpt_table (dports s p) tab m, s)"
    using Suc.IH [of ?e] Suc.prems(1) by simp
  with less read u(1) show ?case by (simp add: gpt_load.simps [of "Suc k"] Let_def)
qed

lemma gpt_entry_length: "128 * i + 128 \<le> length tbl \<Longrightarrow> length (gpt_entry tbl i) = 128"
  by (simp add: gpt_entry_def)

lemma memcmp_eq: "length a = n \<Longrightarrow> length b = n \<Longrightarrow> memcmp a b n = Ok (if a = b then 0 else 1)"
proof (induction n arbitrary: a b)
  case (Suc n)
  then obtain x a' y b' where "a = x # a'" "b = y # b'" by (cases a; cases b) auto
  with Suc show ?case by simp
qed simp

lemma gpt_valid_used:
  "128 * (i + k) \<le> length tbl \<Longrightarrow>
   gpt_valid k i tbl = Ok (i + length (takeWhile (\<lambda>i. \<not> unused_type (gpt_entry tbl i)) [i..<i + k]))"
proof (induction k arbitrary: i)
  case (Suc k)
  have "length (gpt_entry tbl i) = 128" by (rule gpt_entry_length) (use Suc.prems in simp)
  then obtain t where t: "guid_text (gpt_entry tbl i) = Ok t" "length t = 36" "t = GPT_NO_ENTRY \<longleftrightarrow> unused_type (gpt_entry tbl i)"
    using guid_text_unused [of "gpt_entry tbl i"] by auto
  have "memcmp t GPT_NO_ENTRY 36 = Ok (if t = GPT_NO_ENTRY then 0 else 1)"
    by (rule memcmp_eq [OF t(2)]) (simp add: GPT_NO_ENTRY_def)
  with Suc.IH [of "i + 1"] Suc.prems t(1,3) show ?case by (simp add: upt_conv_Cons [of i] del: upt_Suc)
qed simp

lemma gpt_add_parts:
  "128 * (i + k) \<le> length tbl \<Longrightarrow> i + k \<le> 256 \<Longrightarrow> gpt_add k i tbl (Some ps) = Ok (Some (ps @ map (gpt_part tbl) [i..<i + k]))"
proof (induction k arbitrary: i ps)
  case (Suc k)
  have l: "length (gpt_entry tbl i) = 128" by (rule gpt_entry_length) (use Suc.prems in simp)
  have "\<exists>a b. get64 (gpt_entry tbl i) 32 = Ok a \<and> get64 (gpt_entry tbl i) 40 = Ok b"
    using l by (simp add: get64_def get32_eq)
  then obtain a b where "get64 (gpt_entry tbl i) 32 = Ok a" "get64 (gpt_entry tbl i) 40 = Ok b" by blast
  with Suc.IH [of "i + 1" "ps @ [gpt_part tbl i]"] Suc.prems show ?case
    by (simp add: add_partition_def gpt_part_def upt_conv_Cons [of i] del: upt_Suc)
qed simp

lemma gpt_used_le: "gpt_used tbl k \<le> k"
  using length_takeWhile_le [of _ "[0..<k]"] by (simp add: gpt_used_def)

lemma gpt_table_length: "drive_ok d \<Longrightarrow> length (gpt_table d tab m) = 512 * m"
  by (induction m) (simp_all add: gpt_table_def drive_ok_def)

text \<open>C38: On a disk with a GUID partition table the partitions are the entries before the first unused one, in order, each
  with its first sector; the size is the difference of the last and the first sector, which leaves out one sector
  of the partition.\<close>

theorem read_gpt_finds:
  assumes "on_drive s disk p" and "drive_ok (dports s p)" and "boot_signature (dr_sector (dports s p) 0)"
  defines "h \<equiv> dr_sector (dports s p) 1"
  assumes "gpt_signature h = Ok GPT_SIGNATURE" and "gpt_count h = Ok (of_nat (4 * m))" and "gpt_table_lba h = Ok tab"
    and "gpt_entry_size h = Ok 128" and "m \<le> 2 ^ 23"
  defines "tbl \<equiv> gpt_table (dports s p) tab m"
  assumes "gpt_used tbl (4 * m) \<le> 255"
  shows "read_gpt mem s disk (Some ps)
    = Ok (of_nat (gpt_used tbl (4 * m)), Some (ps @ map (gpt_part tbl) [0..<gpt_used tbl (4 * m)]), s)"
proof -
  have len: "length (dr_sector (dports s p) a) = 512" for a using assms(2) by (simp add: drive_ok_def)
  have c: "unat (of_nat (4 * m) :: u32) = 4 * m" by (rule unat_word_of_nat_32) (use assms(9) in simp)
  have l: "length tbl = 512 * m" unfolding tbl_def by (rule gpt_table_length [OF assms(2)])
  have load: "gpt_load m s disk (of_nat (4 * m)) tab 128 0 (map mem [0..<128 * (4 * m)]) = Ok (True, tbl, s)"
    using gpt_load_sectors [OF assms(1,2,9), of "map mem [0..<128 * (4 * m)]" m tab] by (simp add: tbl_def)
  have valid: "gpt_valid (4 * m) 0 tbl = Ok (gpt_used tbl (4 * m))"
    using gpt_valid_used [of 0 "4 * m" tbl] l by (simp add: gpt_used_def)
  have add: "gpt_add (gpt_used tbl (4 * m)) 0 tbl (Some ps) = Ok (Some (ps @ map (gpt_part tbl) [0..<gpt_used tbl (4 * m)]))"
    using gpt_add_parts [of 0 "gpt_used tbl (4 * m)" tbl ps] l gpt_used_le [of tbl "4 * m"] assms(11) by simp
  show ?thesis
    using disk_read_one [OF assms(1,2), of "replicate 512 0" 0] disk_read_one [OF assms(1,2), of "replicate 512 0" 1]
      load16_sig [OF len, of 0] assms(3,5-8) len load valid add c
    by (simp add: read_gpt_def boot_signature_def h_def del: of_nat_mult of_nat_numeral)
qed

section \<open>A partitioned disk\<close>

definition mbr_sector :: "u8 list" where
  "mbr_sector = replicate 450 0 @ [0x83] @ replicate 3 0 @ bytes32 64 @ bytes32 100 @ replicate 48 0 @ bytes16 0xAA55"

definition gpt_sector :: "u8 list" where
  "gpt_sector = (bytes32 0x20494645 @ bytes32 0x54524150) @ replicate 64 0 @ bytes32 2 @ bytes32 0 @ bytes32 4 @ bytes32 128 @ replicate 424 0"

definition gpt_entries_sector :: "u8 list" where
  "gpt_entries_sector = [1] @ replicate 31 0 @ bytes32 64 @ bytes32 0 @ bytes32 127 @ bytes32 0 @ replicate 464 0"

definition drive_parted :: drive where
  "drive_parted = drive_example\<lparr>dr_sector := (\<lambda>a. if a = 0 then mbr_sector else if a = 1 then gpt_sector
     else if a = 2 then gpt_entries_sector else replicate 512 0)\<rparr>"

definition dsys_parted :: dsys where
  "dsys_parted = dsys_example\<lparr>dports := (\<lambda>_. drive_parted)\<rparr>"

lemma drive_parted_ok: "drive_ok drive_parted"
  by (simp add: drive_ok_def drive_parted_def drive_example_def mbr_sector_def gpt_sector_def gpt_entries_sector_def)

lemma drive_parted_sectors: "dr_sector drive_parted 0 = mbr_sector" "dr_sector drive_parted 1 = gpt_sector" "dr_sector drive_parted 2 = gpt_entries_sector"
  by (simp_all add: drive_parted_def)

lemma dsys_parted_on: "on_drive dsys_parted [104, 100, 97, 0] 0" "dports dsys_parted 0 = drive_parted"
  using dsys_example_on by (simp_all add: dsys_parted_def)

lemma mbr_sector_facts: "boot_signature mbr_sector" "mbr_parts mbr_sector = [new_part 64 100 1 0x83]"
proof -
  show "boot_signature mbr_sector" by (simp add: boot_signature_def mbr_sector_def)
  have u: "[0..<4] = [0, 1, 2, 3 :: nat]" by (simp add: upt_rec)
  have z: "w32 (replicate 4 0) = 0" by (simp add: w32_zero numeral_eq_Suc)
  show "mbr_parts mbr_sector = [new_part 64 100 1 0x83]"
    unfolding mbr_parts_def u by (simp add: mbr_entry_def mbr_sector_def Let_def z nth_append)
qed

theorem read_mbr_finds_witness:
  "read_mbr dsys_parted [104, 100, 97, 0] (Some []) = Ok (1, Some [new_part 64 100 1 0x83], dsys_parted)"
  using read_mbr_finds [OF dsys_parted_on(1), of "[]"] drive_parted_ok mbr_sector_facts
  by (simp add: dsys_parted_on(2) drive_parted_sectors)

lemma gpt_sector_facts: "gpt_signature gpt_sector = Ok GPT_SIGNATURE" "gpt_count gpt_sector = Ok 4" "gpt_table_lba gpt_sector = Ok 2"
    "gpt_entry_size gpt_sector = Ok 128"
  by (simp_all add: gpt_signature_def gpt_count_def gpt_table_lba_def gpt_entry_size_def get64_def get32_eq gpt_sector_def)

lemma gpt_entries_facts: "gpt_used gpt_entries_sector 4 = 1" "gpt_part gpt_entries_sector 0 = new_part 64 63 0 0"
proof -
  have u: "[0..<4] = [0, 1, 2, 3 :: nat]" by (simp add: upt_rec)
  have "\<not> unused_type (gpt_entry gpt_entries_sector 0)" "unused_type (gpt_entry gpt_entries_sector 1)"
    by (simp_all add: unused_type_def gpt_entry_def gpt_entries_sector_def numeral_eq_Suc)
  thus "gpt_used gpt_entries_sector 4 = 1" by (simp add: gpt_used_def u)
  show "gpt_part gpt_entries_sector 0 = new_part 64 63 0 0"
    by (simp add: gpt_part_def get64_def get32_eq gpt_entry_def gpt_entries_sector_def)
qed

theorem read_gpt_finds_witness:
  "read_gpt (\<lambda>_. 9) dsys_parted [104, 100, 97, 0] (Some []) = Ok (1, Some [new_part 64 63 0 0], dsys_parted)"
proof -
  have t: "gpt_table drive_parted 2 (Suc 0) = gpt_entries_sector"
    by (simp add: gpt_table_def gpt_address_def drive_parted_sectors)
  show ?thesis
    using read_gpt_finds [OF dsys_parted_on(1), of 1 2 "\<lambda>_. 9" "[]"] drive_parted_ok mbr_sector_facts gpt_sector_facts gpt_entries_facts
    by (simp add: dsys_parted_on(2) drive_parted_sectors t)
qed

end
