(* ===== verification/Vfs.thy ===== *)
theory Vfs
  imports VfsCompat Partitions
begin

text \<open>The core of the virtual file system (\<open>vfs/vfs.c\<close>): the registered file systems, the devices with their
  partitions, the mounts, and the way from a path or a descriptor to the mount it belongs to.\<close>

section \<open>State\<close>

text \<open>What the file systems work on: the tables of descriptors, the disks, their own state and what freshly
  allocated memory holds.\<close>

record 'x fsenv =
  etab :: fdtab
  edisk :: dsys
  efs :: 'x
  ejunk :: "nat \<Rightarrow> u8"

text \<open>The function pointers of \<open>struct vfs_compatible\<close> and of \<open>struct vfs_file_system_type\<close>, which the code never
  calls through a null check. \<open>unregister_partition\<close>, \<open>flush\<close>, \<open>file_stat\<close>, \<open>rename\<close>, \<open>chmod\<close> and \<open>debug\<close> are
  stored and never called with an effect; they are left out.\<close>

type_synonym ('a, 'x) io = "'x fsenv \<Rightarrow> ('a \<times> 'x fsenv) result"

record 'x fs_ops =
  op_register_partition :: "(u8 list \<Rightarrow> u32 \<Rightarrow> u8 list \<Rightarrow> (int, 'x) io) option"
  op_detect :: "(u8 list \<Rightarrow> u32 \<Rightarrow> (u8, 'x) io) option"
  op_file_flush :: "(int \<Rightarrow> int \<Rightarrow> (int, 'x) io) option"
  op_file_open :: "(int \<Rightarrow> u8 list \<Rightarrow> u32 \<Rightarrow> u32 \<Rightarrow> (int, 'x) io) option"
  op_file_close :: "(int \<Rightarrow> int \<Rightarrow> (int, 'x) io) option"
  op_file_creat :: "(int \<Rightarrow> u8 list \<Rightarrow> u32 \<Rightarrow> (int, 'x) io) option"
  op_file_read :: "(int \<Rightarrow> int \<Rightarrow> u8 list \<Rightarrow> u64 \<Rightarrow> (u64 \<times> u8 list, 'x) io) option"
  op_file_write :: "(int \<Rightarrow> int \<Rightarrow> u8 list \<Rightarrow> u64 \<Rightarrow> (u64, 'x) io) option"
  op_file_seek :: "(int \<Rightarrow> int \<Rightarrow> u64 \<Rightarrow> int \<Rightarrow> (u64, 'x) io) option"
  op_file_tell :: "(int \<Rightarrow> int \<Rightarrow> (u64, 'x) io) option"
  op_dir_open :: "(int \<Rightarrow> u8 list \<Rightarrow> (int, 'x) io) option"
  op_dir_close :: "(int \<Rightarrow> int \<Rightarrow> (int, 'x) io) option"
  op_dir_load :: "(int \<Rightarrow> int \<Rightarrow> (int, 'x) io) option"
  op_dir_read :: "(int \<Rightarrow> int \<Rightarrow> u8 list \<Rightarrow> u32 \<Rightarrow> u32 \<Rightarrow> (int \<times> u8 list \<times> u32 \<times> u32, 'x) io) option"
  op_dir_creat :: "(int \<Rightarrow> u8 list \<Rightarrow> u32 \<Rightarrow> (int, 'x) io) option"
  op_prepare_remove :: "(int \<Rightarrow> u8 list \<Rightarrow> (int, 'x) io) option"
  op_remove :: "(int \<Rightarrow> u8 list \<Rightarrow> (int, 'x) io) option"

definition call_op :: "'f option \<Rightarrow> ('f \<Rightarrow> 'a result) \<Rightarrow> 'a result" where
  "call_op p k = (case p of None \<Rightarrow> Err Fault | Some f \<Rightarrow> k f)"

lemma call_op_simps [simp]: "call_op None k = Err Fault" "call_op (Some f) k = k f"
  by (simp_all add: call_op_def)

text \<open>A file system that registers, and a registered one: both have a name of 32 bytes and 256 major numbers.\<close>

record 'x fstype =
  ft_name :: "u8 list"
  ft_majors :: "u8 list"
  ft_major_no :: int
  ft_ops :: "'x fs_ops"

definition no_ops :: "'x fs_ops" where
  "no_ops = \<lparr>op_register_partition = None, op_detect = None, op_file_flush = None, op_file_open = None, op_file_close = None,
     op_file_creat = None, op_file_read = None, op_file_write = None, op_file_seek = None, op_file_tell = None, op_dir_open = None,
     op_dir_close = None, op_dir_load = None, op_dir_read = None, op_dir_creat = None, op_prepare_remove = None, op_remove = None\<rparr>"

text \<open>A mount names its device by the position in the chain of devices, its partition by the entry of the table of
  devices and the position in its chain, its file system by the position in the list.\<close>

record vmount =
  mt_device :: nat
  mt_partition :: "nat \<times> nat"
  mt_fst :: nat
  mt_index :: int

record devmap =
  dm_dev :: "nat option"
  dm_parts :: "vpart list option"
  dm_no :: u32

text \<open>The chains of file systems and of mounts are their filled nodes, like those of partitions; a null head is \<open>None\<close>.
  \<open>vroots\<close> has 512 entries.\<close>

record 'x vfs =
  vroot_size :: u16
  vroots :: "devmap list"
  vtypes :: "'x fstype list option"
  vmounts :: "vmount list option"
  venv :: "'x fsenv"

abbreviation "VFS_MAX_DEVICES \<equiv> (512 :: nat)"

definition blank_devmap :: devmap where
  "blank_devmap = \<lparr>dm_dev = None, dm_parts = None, dm_no = 0\<rparr>"

definition fresh :: "'x fsenv \<Rightarrow> nat \<Rightarrow> u8 list" where
  "fresh e n = map (ejunk e) [0..<n]"

section \<open>File systems\<close>

fun same_name :: "u8 list \<Rightarrow> 'x fstype list \<Rightarrow> bool result" where
  "same_name name [] = Ok False"
| "same_name name (t # ts) = rbind (strcmp (ft_name t) name) (\<lambda>c. if c = 0 then Ok True else same_name name ts)"

fun copy_majors :: "nat \<Rightarrow> nat \<Rightarrow> u8 list \<Rightarrow> u8 list \<Rightarrow> u8 list result" where
  "copy_majors 0 i src dst = Ok dst"
| "copy_majors (Suc k) i src dst = rbind (rd src i) (\<lambda>m. rbind (wr dst i m) (copy_majors k (i + 1) src))"

definition register_filesystem :: "'x fstype \<Rightarrow> 'x vfs \<Rightarrow> 'x vfs result" where
  "register_filesystem r v = (let ts = (case vtypes v of None \<Rightarrow> [] | Some ts \<Rightarrow> ts) in
     rbind (same_name (ft_name r) ts) (\<lambda>same.
     if same then Err (Panic ''[VFS] File system type with same name already registered'') else
     rbind (copy_majors (nat (ft_major_no r)) 0 (ft_majors r) (replicate 256 0)) (\<lambda>majors.
     rbind (strlen (ft_name r)) (\<lambda>l.
     rbind (strncpy (replicate 32 0) (ft_name r) (if 32 < l then 32 else l)) (\<lambda>name.
     Ok (v\<lparr>vtypes := Some (ts @ [\<lparr>ft_name = name, ft_majors = majors, ft_major_no = ft_major_no r, ft_ops = ft_ops r\<rparr>])\<rparr>))))))"

text \<open>Whether a device's number is among the first \<open>n\<close> majors from the \<open>i\<close>-th on.\<close>

fun has_major :: "nat \<Rightarrow> nat \<Rightarrow> u8 list \<Rightarrow> u8 \<Rightarrow> bool result" where
  "has_major 0 i ms m = Ok False"
| "has_major (Suc n) i ms m = rbind (rd ms i) (\<lambda>x. if x = m then Ok True else has_major n (i + 1) ms m)"

section \<open>Mounts\<close>

definition add_mount :: "vmount list option \<Rightarrow> vmount \<Rightarrow> vmount list option result" where
  "add_mount head m = (case head of None \<Rightarrow> Err (Panic ''[VFS] Invalid mount header'') | Some ms \<Rightarrow> Ok (Some (ms @ [m])))"

definition device_at :: "'x vfs \<Rightarrow> nat \<Rightarrow> device result" where
  "device_at v d = rd (chain (dtab (edisk (venv v)))) d"

definition parts_of :: "'x vfs \<Rightarrow> nat \<Rightarrow> vpart list result" where
  "parts_of v r = rbind (rd (vroots v) r) (\<lambda>m. case dm_parts m of None \<Rightarrow> Err Fault | Some ps \<Rightarrow> Ok ps)"

definition part_at :: "'x vfs \<Rightarrow> nat \<times> nat \<Rightarrow> vpart result" where
  "part_at v rp = rbind (parts_of v (fst rp)) (\<lambda>ps. rd ps (snd rp))"

definition set_part :: "nat \<times> nat \<Rightarrow> vpart \<Rightarrow> 'x vfs \<Rightarrow> 'x vfs result" where
  "set_part rp p v = rbind (rd (vroots v) (fst rp)) (\<lambda>m. case dm_parts m of None \<Rightarrow> Err Fault | Some ps \<Rightarrow>
     rbind (wr ps (snd rp) p) (\<lambda>ps. Ok (v\<lparr>vroots := (vroots v)[fst rp := m\<lparr>dm_parts := Some ps\<rparr>]\<rparr>)))"

text \<open>\<open>snprintf(dest, 48, "%s", src)\<close>.\<close>

definition print_48 :: "u8 list \<Rightarrow> u8 list \<Rightarrow> u8 list result" where
  "print_48 dest src = put_bytes dest 0 (take 47 (cstr src) @ [0])"

text \<open>The file systems of the list \<open>ts\<close>, the first of them number \<open>i\<close>, are tried in turn. A file system that detects its
  partition and then fails to register it ends the search.\<close>

fun mount_with :: "'x fstype list \<Rightarrow> nat \<Rightarrow> nat \<Rightarrow> nat \<times> nat \<Rightarrow> u8 list \<Rightarrow> 'x vfs \<Rightarrow> (u8 \<times> 'x vfs) result" where
  "mount_with [] i dev rp mountpoint v = Ok (0, v)"
| "mount_with (t # ts) i dev rp mountpoint v =
     rbind (device_at v dev) (\<lambda>d. rbind (has_major (nat (ft_major_no t)) 0 (ft_majors t) (full_major d)) (\<lambda>found.
     if \<not> found then mount_with ts (i + 1) dev rp mountpoint v else
     rbind (part_at v rp) (\<lambda>p.
     rbind (call_op (op_detect (ft_ops t)) (\<lambda>f. f (dv_name d) (vp_lba p) (venv v))) (\<lambda>(r, e). let v = v\<lparr>venv := e\<rparr> in
     if r = 0 then mount_with ts (i + 1) dev rp mountpoint v else
     rbind (call_op (op_register_partition (ft_ops t)) (\<lambda>f. f (dv_name d) (vp_lba p) mountpoint (venv v))) (\<lambda>(r, e). let v = v\<lparr>venv := e\<rparr> in
     if r = - 1 then Ok (0, v) else
     rbind (print_48 (vp_name p) mountpoint) (\<lambda>name.
     rbind (set_part rp (p\<lparr>vp_name := name\<rparr>) v) (\<lambda>v.
     rbind (add_mount (vmounts v) \<lparr>mt_device = dev, mt_partition = rp, mt_fst = i, mt_index = r\<rparr>) (\<lambda>ms.
     Ok (1, v\<lparr>vmounts := ms\<rparr>)))))))))"

definition mount_fs :: "nat \<Rightarrow> nat \<times> nat \<Rightarrow> u8 list \<Rightarrow> 'x vfs \<Rightarrow> (u8 \<times> 'x vfs) result" where
  "mount_fs dev rp mountpoint v = (let v = v\<lparr>vmounts := Some (case vmounts v of None \<Rightarrow> [] | Some ms \<Rightarrow> ms)\<rparr> in
     case vtypes v of None \<Rightarrow> Ok (0, v) | Some ts \<Rightarrow> mount_with ts 0 dev rp mountpoint v)"

section \<open>Devices\<close>

text \<open>Only the disks, with the numbers 8 to 12, have tables; any other device is one partition at 0.\<close>

definition detect_partitions :: "device \<Rightarrow> vpart list option \<Rightarrow> 'x fsenv \<Rightarrow> (u32 \<times> vpart list option \<times> 'x fsenv) result" where
  "detect_partitions d ps e = (if full_major d < 8 \<or> 0xc < full_major d
     then rbind (add_partition ps 0 0 0 0) (\<lambda>ps. Ok (1, ps, e))
     else rbind (read_gpt (ejunk e) (edisk e) (dv_name d) ps) (\<lambda>(n, ps, s). let e = e\<lparr>edisk := s\<rparr> in
       if n \<noteq> 0 then Ok (n, ps, e)
       else rbind (read_mbr (edisk e) (dv_name d) ps) (\<lambda>(n, ps, s). Ok (n, ps, e\<lparr>edisk := s\<rparr>))))"

text \<open>The search for a device among the first \<open>n\<close> entries from the \<open>i\<close>-th on. The \<open>continue\<close> after a match goes on
  with the search, for the device that follows, and never with the outer loop.\<close>

fun skip_known :: "nat \<Rightarrow> nat \<Rightarrow> nat option \<Rightarrow> 'x vfs \<Rightarrow> nat option result" where
  "skip_known 0 i dev v = Ok dev"
| "skip_known (Suc n) i dev v = rbind (rd (vroots v) i) (\<lambda>m. if dm_dev m = dev
     then (case dev of None \<Rightarrow> Err Fault | Some d \<Rightarrow>
       rbind (get_next_device (dtab (edisk (venv v))) d) (\<lambda>dev. skip_known n (i + 1) dev v))
     else skip_known n (i + 1) dev v)"

fun free_entry :: "devmap list \<Rightarrow> nat \<Rightarrow> nat result" where
  "free_entry [] i = Err Fault"
| "free_entry (m # ms) i = (if dm_dev m \<noteq> None then free_entry ms (i + 1) else Ok i)"

text \<open>The rest of the devices from \<open>dev\<close> on; \<open>index\<close> is where the last free entry was found. The name of the device is
  read after a null device has been stored.\<close>

fun detect_from :: "nat \<Rightarrow> nat option \<Rightarrow> nat \<Rightarrow> 'x vfs \<Rightarrow> 'x vfs result" where
  "detect_from k None index v = Ok v"
| "detect_from 0 (Some d) index v = Err Diverge"
| "detect_from (Suc k) (Some d) index v =
     rbind (skip_known (unat (vroot_size v)) 0 (Some d) v) (\<lambda>dev.
     rbind (free_entry (drop index (vroots v)) index) (\<lambda>index.
     case dev of None \<Rightarrow> Err Fault | Some d \<Rightarrow>
     rbind (device_at v d) (\<lambda>dd.
     rbind (detect_partitions dd init_partition_header (venv v)) (\<lambda>(n, ps, e).
     let v = v\<lparr>vroots := (vroots v)[index := \<lparr>dm_dev = Some d, dm_parts = ps, dm_no = n\<rparr>], venv := e\<rparr> in
     rbind (get_next_device (dtab (edisk e)) d) (\<lambda>dev. detect_from k dev index v)))))"

definition detect_devices :: "'x vfs \<Rightarrow> 'x vfs result" where
  "detect_devices v = (let t = dtab (edisk (venv v)) in
     rbind (get_device_count t) (\<lambda>n. let v = v\<lparr>vroot_size := ucast n\<rparr> in
     rbind (get_device_head t) (\<lambda>dev. detect_from (length (chain t)) dev 0 v)))"

text \<open>\<open>%d\<close> of a position.\<close>

fun dec_str :: "nat \<Rightarrow> u8 list" where
  "dec_str n = (if n < 10 then [of_nat (48 + n)] else dec_str (n div 10) @ [of_nat (48 + n mod 10)])"

declare dec_str.simps [simp del]

text \<open>The mount point of partition \<open>j\<close>: the name of the device, a \<open>p\<close> and the number, cut to 47 characters.\<close>

definition mountpoint_for :: "u8 list \<Rightarrow> nat \<Rightarrow> u8 list result" where
  "mountpoint_for name j = print_48 (replicate 48 0) (cstr name @ [112] @ dec_str j @ [0])"

text \<open>The partitions of entry \<open>r\<close>, \<open>k\<close> of them from the \<open>j\<close>-th on; the mounted ones have a name.\<close>

fun mount_parts :: "nat \<Rightarrow> nat \<Rightarrow> nat \<Rightarrow> 'x vfs \<Rightarrow> 'x vfs result" where
  "mount_parts 0 r j v = Ok v"
| "mount_parts (Suc k) r j v = rbind (part_at v (r, j)) (\<lambda>p. rbind (rd (vp_name p) 0) (\<lambda>c.
     if c \<noteq> 0 then mount_parts k r (j + 1) v else
     rbind (rd (vroots v) r) (\<lambda>m. case dm_dev m of None \<Rightarrow> Err Fault | Some d \<Rightarrow>
     rbind (device_at v d) (\<lambda>dd.
     rbind (mountpoint_for (dv_name dd) j) (\<lambda>mp. rbind (mount_fs d (r, j) mp v) (\<lambda>(_, v). mount_parts k r (j + 1) v))))))"

fun mount_roots :: "nat \<Rightarrow> nat \<Rightarrow> 'x vfs \<Rightarrow> 'x vfs result" where
  "mount_roots 0 r v = Ok v"
| "mount_roots (Suc k) r v = rbind (parts_of v r) (\<lambda>ps. rbind (mount_parts (length ps) r 0 v) (mount_roots k (r + 1)))"

definition detect_partition_fs :: "'x vfs \<Rightarrow> 'x vfs result" where
  "detect_partition_fs v = mount_roots (unat (vroot_size v)) 0 v"

definition probe_fs :: "'x vfs \<Rightarrow> 'x vfs result" where
  "probe_fs v = rbind (detect_devices v) detect_partition_fs"

definition init_vfs :: "'x vfs \<Rightarrow> 'x vfs result" where
  "init_vfs v = rbind (detect_devices v) detect_partition_fs"

section \<open>From paths and descriptors to mounts\<close>

fun iterate_mounts_list :: "(vmount \<Rightarrow> 's \<Rightarrow> u8 \<times> 's) \<Rightarrow> vmount list \<Rightarrow> 's \<Rightarrow> u8 \<times> 's" where
  "iterate_mounts_list callback [] s = (0, s)"
| "iterate_mounts_list callback (m # ms) s = (let (r, s) = callback m s in if r \<noteq> 0 then (1, s) else iterate_mounts_list callback ms s)"

definition iterate_mounts :: "(vmount \<Rightarrow> 's \<Rightarrow> u8 \<times> 's) \<Rightarrow> 'x vfs \<Rightarrow> 's \<Rightarrow> u8 \<times> 's" where
  "iterate_mounts callback v s = (case vmounts v of None \<Rightarrow> (0, s) | Some ms \<Rightarrow> iterate_mounts_list callback ms s)"

definition get_full_path_from_fdentry :: "fdentry \<Rightarrow> 'x fsenv \<Rightarrow> u8 list result" where
  "get_full_path_from_fdentry en e = rbind (strlen (fd_name en)) (\<lambda>n. rbind (strlen (fd_mount en)) (\<lambda>m.
     rbind (strcpy (fresh e (n + m + 1)) (fd_mount en)) (\<lambda>b.
     rbind (strcpy (drop m b) (fd_name en)) (\<lambda>c. Ok (take m b @ c)))))"

text \<open>A null entry gives a null path.\<close>

definition get_full_path_from_fd :: "int \<Rightarrow> 'x fsenv \<Rightarrow> u8 list option result" where
  "get_full_path_from_fd fd e = rbind (vfs_compat_get_file_descriptor fd) (\<lambda>s. case s of None \<Rightarrow> Ok None
     | Some i \<Rightarrow> rbind (get_full_path_from_fdentry (files (etab e) i) e) (\<lambda>p. Ok (Some p)))"

definition get_full_path_from_dir :: "int \<Rightarrow> 'x fsenv \<Rightarrow> u8 list option result" where
  "get_full_path_from_dir fd e = rbind (vfs_compat_get_dir fd) (\<lambda>s. case s of None \<Rightarrow> Ok None
     | Some i \<Rightarrow> rbind (get_full_path_from_fdentry (ds_fd (dirs (etab e) i)) e) (\<lambda>p. Ok (Some p)))"

definition is_safe_for_removing :: "u8 list \<Rightarrow> u8 \<Rightarrow> fdtab \<Rightarrow> (int \<times> fdtab) result" where
  "is_safe_for_removing path force t = rbind (is_open path t) (\<lambda>r. if 0 < r
     then (if force = 0 then Ok (0, t) else rbind (force_release path t) (\<lambda>(_, t). Ok (1, t)))
     else Ok (1, t))"

fun find_mount :: "u8 list \<Rightarrow> u8 list \<Rightarrow> vmount list \<Rightarrow> 'x vfs \<Rightarrow> (vmount option \<times> u8 list) result" where
  "find_mount path native [] v = Ok (None, native)"
| "find_mount path native (m # ms) v = rbind (part_at v (mt_partition m)) (\<lambda>p.
     rbind (strlen (vp_name p)) (\<lambda>l. rbind (strncmp (vp_name p) path l) (\<lambda>c. if c \<noteq> 0 then find_mount path native ms v else
     rbind (strlen path) (\<lambda>n. rbind (memcpy native (drop l path) (n - l)) (\<lambda>b. rbind (wr b (n - l) 0) (\<lambda>b. Ok (Some m, b)))))))"

definition get_mount_from_path :: "u8 list \<Rightarrow> u8 list \<Rightarrow> 'x vfs \<Rightarrow> (vmount option \<times> u8 list) result" where
  "get_mount_from_path path native v = (case vmounts v of None \<Rightarrow> Ok (None, native) | Some ms \<Rightarrow> find_mount path native ms v)"

end
