(* ===== verification/VfsInterface.thy ===== *)
theory VfsInterface
  imports Vfs
begin

text \<open>What programs call (\<open>vfs/vfs_interface.c\<close>): paths are normalised in place, the mount is looked up by the
  path or by the descriptor, and the file system of the mount does the work. The buffers the operations free
  before they return are not part of the state.\<close>

section \<open>Normalising paths\<close>

fun back_up :: "u8 list \<Rightarrow> nat \<Rightarrow> nat" where
  "back_up p 0 = 0"
| "back_up p (Suc w) = (if p ! w = 47 then Suc w else back_up p w)"

text \<open>\<open>r\<close> is the position read (\<open>path_ptr\<close>), \<open>w\<close> the one written (\<open>path_ptr2\<close>), which never passes \<open>r\<close>.\<close>

definition char_at :: "u8 list \<Rightarrow> nat \<Rightarrow> u8 \<Rightarrow> bool" where
  "char_at p i c \<longleftrightarrow> i < length p \<and> p ! i = c"

function norm_loop :: "u8 list \<Rightarrow> nat \<Rightarrow> nat \<Rightarrow> (u8 list \<times> nat) result" where
  "norm_loop p r w = (if length p \<le> r then Err Fault
     else if p ! r = 0 then Ok (p, w)
     else if p ! r = 46 \<and> char_at p (r + 1) 47 then norm_loop p (r + 2) w
     else if p ! r = 46 \<and> char_at p (r + 1) 46 \<and> char_at p (r + 2) 47 then norm_loop p (r + 3) (back_up p w)
     else if w < length p then norm_loop (p[w := p ! r]) (r + 1) (w + 1) else Err Fault)"
  by pat_completeness auto
termination by (relation "measure (\<lambda>(p, r, w). length p - r)") auto

declare norm_loop.simps [simp del]

fun trim_end :: "u8 list \<Rightarrow> nat \<Rightarrow> nat" where
  "trim_end p 0 = 0"
| "trim_end p (Suc w) = (if p ! w \<noteq> 47 \<and> p ! w \<noteq> 46 then Suc w else trim_end p w)"

definition vfs_normalize_path :: "u8 list \<Rightarrow> u8 list result" where
  "vfs_normalize_path p = rbind (norm_loop p 0 0) (\<lambda>(p, w). wr p (trim_end p w) 0)"

section \<open>Operations\<close>

text \<open>The file system of the mount a path belongs to is called with the mount's index and the rest of the path;
  without a mount the result is \<open>dflt\<close>.\<close>

definition type_of :: "vmount \<Rightarrow> 'x vfs \<Rightarrow> 'x fs_ops result" where
  "type_of m v = (case vtypes v of None \<Rightarrow> Err Fault | Some ts \<Rightarrow> rbind (rd ts (mt_fst m)) (\<lambda>t. Ok (ft_ops t)))"

definition at_path :: "u8 list \<Rightarrow> 'a \<Rightarrow> ('x fs_ops \<Rightarrow> int \<Rightarrow> u8 list \<Rightarrow> ('a, 'x) io) \<Rightarrow> 'x vfs \<Rightarrow> ('a \<times> 'x vfs) result" where
  "at_path path dflt f v = rbind (strlen path) (\<lambda>n.
     rbind (get_mount_from_path path (fresh (venv v) (n + 1)) v) (\<lambda>(m, native). case m of None \<Rightarrow> Ok (dflt, v) | Some m \<Rightarrow>
     rbind (type_of m v) (\<lambda>ops. rbind (f ops (mt_index m) native (venv v)) (\<lambda>(r, e). Ok (r, v\<lparr>venv := e\<rparr>)))))"

text \<open>The same for the path of a descriptor.\<close>

definition at_fd :: "int \<Rightarrow> 'a \<Rightarrow> 'a \<Rightarrow> ('x fs_ops \<Rightarrow> int \<Rightarrow> ('a, 'x) io) \<Rightarrow> 'x vfs \<Rightarrow> ('a \<times> 'x vfs) result" where
  "at_fd fd bad dflt f v = rbind (get_full_path_from_fd fd (venv v)) (\<lambda>path. case path of None \<Rightarrow> Ok (bad, v)
     | Some path \<Rightarrow> at_path path dflt (\<lambda>ops i _. f ops i) v)"

definition at_dir :: "int \<Rightarrow> 'a \<Rightarrow> 'a \<Rightarrow> ('x fs_ops \<Rightarrow> int \<Rightarrow> ('a, 'x) io) \<Rightarrow> 'x vfs \<Rightarrow> ('a \<times> 'x vfs) result" where
  "at_dir fd bad dflt f v = rbind (get_full_path_from_dir fd (venv v)) (\<lambda>path. case path of None \<Rightarrow> Ok (bad, v)
     | Some path \<Rightarrow> at_path path dflt (\<lambda>ops i _. f ops i) v)"

text \<open>The operations on paths return the caller's buffer, which normalising has changed.\<close>

definition vfs_file_open :: "u8 list \<Rightarrow> u32 \<Rightarrow> u32 \<Rightarrow> 'x vfs \<Rightarrow> (int \<times> u8 list \<times> 'x vfs) result" where
  "vfs_file_open path flags mode v = rbind (vfs_normalize_path path) (\<lambda>path.
     rbind (at_path path (- 1) (\<lambda>ops i native e. call_op (op_file_open ops) (\<lambda>f. f i native flags mode e)) v) (\<lambda>(r, v). Ok (r, path, v)))"

definition vfs_file_close :: "int \<Rightarrow> 'x vfs \<Rightarrow> (int \<times> 'x vfs) result" where
  "vfs_file_close fd = at_fd fd (- 1) (- 1) (\<lambda>ops i e. call_op (op_file_close ops) (\<lambda>f. f i fd e))"

text \<open>The count passes through a variable of type \<open>int\<close>, which the return extends with its sign.\<close>

definition through_int :: "u64 \<Rightarrow> u64" where
  "through_int r = scast (ucast r :: u32)"

definition vfs_file_read :: "int \<Rightarrow> u8 list \<Rightarrow> u64 \<Rightarrow> 'x vfs \<Rightarrow> ((u64 \<times> u8 list) \<times> 'x vfs) result" where
  "vfs_file_read fd buffer sz = at_fd fd (- 1, buffer) (- 1, buffer) (\<lambda>ops i e.
     rbind (call_op (op_file_read ops) (\<lambda>f. f i fd buffer sz e)) (\<lambda>((r, b), e). Ok ((through_int r, b), e)))"

definition vfs_file_write :: "int \<Rightarrow> u8 list \<Rightarrow> u64 \<Rightarrow> 'x vfs \<Rightarrow> (u64 \<times> 'x vfs) result" where
  "vfs_file_write fd buffer sz = at_fd fd (- 1) (- 1) (\<lambda>ops i e.
     rbind (call_op (op_file_write ops) (\<lambda>f. f i fd buffer sz e)) (\<lambda>(r, e). Ok (through_int r, e)))"

definition vfs_file_creat :: "u8 list \<Rightarrow> u32 \<Rightarrow> 'x vfs \<Rightarrow> (int \<times> u8 list \<times> 'x vfs) result" where
  "vfs_file_creat path mode v = rbind (vfs_normalize_path path) (\<lambda>path.
     rbind (at_path path (- 1) (\<lambda>ops i native e. call_op (op_file_creat ops) (\<lambda>f. f i native mode e)) v) (\<lambda>(r, v). Ok (r, path, v)))"

definition vfs_file_seek :: "int \<Rightarrow> u64 \<Rightarrow> int \<Rightarrow> 'x vfs \<Rightarrow> (u64 \<times> 'x vfs) result" where
  "vfs_file_seek fd off whence = at_fd fd (- 1) 0 (\<lambda>ops i e. call_op (op_file_seek ops) (\<lambda>f. f i fd off whence e))"

definition vfs_file_tell :: "int \<Rightarrow> 'x vfs \<Rightarrow> (u64 \<times> 'x vfs) result" where
  "vfs_file_tell fd = at_fd fd (- 1) 0 (\<lambda>ops i e. call_op (op_file_tell ops) (\<lambda>f. f i fd e))"

definition vfs_dir_open :: "u8 list \<Rightarrow> 'x vfs \<Rightarrow> (int \<times> u8 list \<times> 'x vfs) result" where
  "vfs_dir_open path v = rbind (vfs_normalize_path path) (\<lambda>path.
     rbind (at_path path (- 1) (\<lambda>ops i native e. call_op (op_dir_open ops) (\<lambda>f. f i native e)) v) (\<lambda>(r, v). Ok (r, path, v)))"

definition vfs_dir_close :: "int \<Rightarrow> 'x vfs \<Rightarrow> (int \<times> 'x vfs) result" where
  "vfs_dir_close fd = at_dir fd (- 1) (- 1) (\<lambda>ops i e. call_op (op_dir_close ops) (\<lambda>f. f i fd e))"

definition vfs_file_flush :: "int \<Rightarrow> 'x vfs \<Rightarrow> 'x vfs result" where
  "vfs_file_flush fd v = rbind (at_fd fd 0 0 (\<lambda>ops i e. call_op (op_file_flush ops) (\<lambda>f. f i fd e)) v) (\<lambda>(_, v). Ok v)"

definition vfs_dir_load :: "int \<Rightarrow> 'x vfs \<Rightarrow> (int \<times> 'x vfs) result" where
  "vfs_dir_load fd = at_dir fd (- 1) (- 1) (\<lambda>ops i e. call_op (op_dir_load ops) (\<lambda>f. f i fd e))"

definition vfs_dir_read :: "int \<Rightarrow> u8 list \<Rightarrow> u32 \<Rightarrow> u32 \<Rightarrow> 'x vfs \<Rightarrow> ((int \<times> u8 list \<times> u32 \<times> u32) \<times> 'x vfs) result" where
  "vfs_dir_read fd name len type = at_dir fd (- 1, name, len, type) (- 1, name, len, type)
     (\<lambda>ops i e. call_op (op_dir_read ops) (\<lambda>f. f i fd name len type e))"

definition vfs_mkdir :: "u8 list \<Rightarrow> u32 \<Rightarrow> 'x vfs \<Rightarrow> (int \<times> u8 list \<times> 'x vfs) result" where
  "vfs_mkdir path mode v = rbind (vfs_normalize_path path) (\<lambda>path.
     rbind (at_path path (- 1) (\<lambda>ops i native e. call_op (op_dir_creat ops) (\<lambda>f. f i native mode e)) v) (\<lambda>(r, v). Ok (r, path, v)))"

definition vfs_rename :: "u8 list \<Rightarrow> u8 list \<Rightarrow> int" where "vfs_rename path name = - 1"
definition vfs_chmod :: "u8 list \<Rightarrow> u32 \<Rightarrow> int" where "vfs_chmod path mode = - 1"

text \<open>A removal is refused with \<open>- 2\<close> by the file system and with \<open>- 1\<close> because the path is open; both leave the
  buffer of the path allocated.\<close>

definition vfs_remove :: "u8 list \<Rightarrow> u8 \<Rightarrow> 'x vfs \<Rightarrow> (int \<times> u8 list \<times> 'x vfs) result" where
  "vfs_remove path force v = rbind (vfs_normalize_path path) (\<lambda>path.
     rbind (at_path path (- 1) (\<lambda>ops i native e.
       rbind (call_op (op_prepare_remove ops) (\<lambda>f. f i native e)) (\<lambda>(r, e). if r = 0 then Ok (- 2, e) else
       rbind (is_safe_for_removing native force (etab e)) (\<lambda>(s, t). let e = e\<lparr>etab := t\<rparr> in if s = 0 then Ok (- 1, e) else
       call_op (op_remove ops) (\<lambda>f. f i native e)))) v) (\<lambda>(r, v). Ok (r, path, v)))"

section \<open>Searching a tree\<close>

text \<open>The result of a search. \<open>Undefined\<close> is a return without a value, which the recursive call compares; the
  callers' comparison is then undefined as well. The buffers of paths hold 1024 bytes.\<close>

datatype search = Found | NotFound | Undefined

text \<open>The string of a buffer with \<open>memset\<close> and \<open>strcpy\<close>: the copy of \<open>src\<close> in a cleared buffer.\<close>

definition cleared_copy :: "u8 list \<Rightarrow> u8 list result" where
  "cleared_copy src = strcpy (replicate 1024 0) src"

abbreviation "DOT \<equiv> [46, 0 :: u8]"
abbreviation "DOTS \<equiv> [46, 46, 0 :: u8]"
abbreviation "SLASH \<equiv> [47, 0 :: u8]"
abbreviation "LOST_FOUND \<equiv> [108, 111, 115, 116, 43, 102, 111, 117, 110, 100, 0 :: u8]"

definition skipped :: "u8 list \<Rightarrow> bool result" where
  "skipped name = rbind (strcmp name DOT) (\<lambda>a. rbind (strcmp name DOTS) (\<lambda>b. rbind (strcmp name LOST_FOUND) (\<lambda>c.
     Ok (a = 0 \<or> b = 0 \<or> c = 0))))"

text \<open>The loop over the entries of the open directory \<open>fd\<close>: \<open>dirpath\<close> is the path searched, \<open>new\<close> what \<open>new_path\<close>
  holds. The depth of the recursion and the number of entries share the fuel \<open>k\<close>.\<close>

fun vfs_file_search :: "nat \<Rightarrow> u8 list \<Rightarrow> u8 list \<Rightarrow> 'x vfs \<Rightarrow> (search \<times> u8 list \<times> 'x vfs) result"
  and search_entries :: "nat \<Rightarrow> int \<Rightarrow> u8 list \<Rightarrow> u8 list \<Rightarrow> u8 list \<Rightarrow> u8 list \<Rightarrow> u32 \<Rightarrow> u32 \<Rightarrow> 'x vfs \<Rightarrow> (search \<times> u8 list \<times> 'x vfs) result" where
  "vfs_file_search 0 name path v = Err Diverge"
| "vfs_file_search (Suc k) name path v = rbind (vfs_normalize_path path) (\<lambda>path.
     rbind (cleared_copy path) (\<lambda>new. rbind (strcat new DOT) (\<lambda>new.
     rbind (vfs_dir_open new v) (\<lambda>(fd, new, v). if fd < 0 then Ok (Undefined, path, v) else
     rbind (vfs_dir_load fd v) (\<lambda>(r, v). if r < 0 then Ok (Undefined, path, v) else
     search_entries k fd name path new (fresh (venv v) 256) 0 0 v)))))"
| "search_entries 0 fd name path new nb len type v = Err Diverge"
| "search_entries (Suc k) fd name path new nb len type v =
     rbind (vfs_dir_read fd nb len type v) (\<lambda>((r, nb, len, type), v). if \<not> 0 < r
       then rbind (vfs_dir_close fd v) (\<lambda>(_, v). Ok (NotFound, path, v)) else
     rbind (strcmp nb name) (\<lambda>c. if c = 0
       then rbind (vfs_dir_close fd v) (\<lambda>(_, v). rbind (cleared_copy new) (\<lambda>path. rbind (strlen path) (\<lambda>n.
         rbind (if n = 0 then Err Fault else wr path (n - 1) 47) (\<lambda>path. rbind (strcat path nb) (\<lambda>path. Ok (Found, path, v))))))
       else
     rbind (skipped nb) (\<lambda>skip. if type \<noteq> 2 \<or> skip then search_entries k fd name path new nb len type v else
     rbind (cleared_copy path) (\<lambda>new. rbind (strlen new) (\<lambda>n. rbind (if n = 0 then Err Fault else rd new (n - 1)) (\<lambda>c.
     rbind (if c \<noteq> 47 then strcat new SLASH else Ok new) (\<lambda>new. rbind (strcat new nb) (\<lambda>new.
     rbind (vfs_file_search k name new v) (\<lambda>(r, new, v). case r of
         Undefined \<Rightarrow> Err Fault
       | Found \<Rightarrow> rbind (cleared_copy new) (\<lambda>path. rbind (vfs_dir_close fd v) (\<lambda>(_, v). Ok (Found, path, v)))
       | NotFound \<Rightarrow> search_entries k fd name path new nb len type v)))))))))"

section \<open>Normalised paths\<close>

text \<open>What normalising does to the characters of a path: \<open>./\<close> is dropped wherever it stands, \<open>../\<close> drops what
  follows the last slash, and slashes and dots at the end go.\<close>

definition up_to_slash :: "u8 list \<Rightarrow> u8 list" where
  "up_to_slash acc = rev (dropWhile (\<lambda>c. c \<noteq> 47) (rev acc))"

fun norm_from :: "u8 list \<Rightarrow> u8 list \<Rightarrow> u8 list" where
  "norm_from acc [] = acc"
| "norm_from acc (c # s) = (if c = 46 \<and> take 1 s = [47] then norm_from acc (drop 1 s)
     else if c = 46 \<and> take 2 s = [46, 47] then norm_from (up_to_slash acc) (drop 2 s)
     else norm_from (acc @ [c]) s)"

declare norm_from.simps(2) [simp del]

definition strip_end :: "u8 list \<Rightarrow> u8 list" where
  "strip_end acc = rev (dropWhile (\<lambda>c. c = 47 \<or> c = 46) (rev acc))"

definition normalized :: "u8 list \<Rightarrow> u8 list" where
  "normalized s = strip_end (norm_from [] s)"

lemma back_up_take: "w \<le> length p \<Longrightarrow> take (back_up p w) p = up_to_slash (take w p) \<and> back_up p w \<le> w"
proof (induction w)
  case (Suc w)
  then have "take (Suc w) p = take w p @ [p ! w]" by (simp add: take_Suc_conv_app_nth)
  with Suc show ?case by (auto simp: up_to_slash_def)
qed (simp add: up_to_slash_def)

lemma trim_end_take: "w \<le> length p \<Longrightarrow> take (trim_end p w) p = strip_end (take w p) \<and> trim_end p w \<le> w"
proof (induction w)
  case (Suc w)
  then have "take (Suc w) p = take w p @ [p ! w]" by (simp add: take_Suc_conv_app_nth)
  with Suc show ?case by (auto simp: strip_end_def)
qed (simp add: strip_end_def)

lemma char_at_app: "char_at (a @ b) (length a + k) d = char_at b k d"
  by (simp add: char_at_def)

lemma char_at_simps: "char_at (c # b) (Suc k) d = char_at b k d" "char_at (c # b) 0 d \<longleftrightarrow> c = d" "\<not> char_at [] k d"
  by (simp_all add: char_at_def)

lemma char_at_drop:
  assumes "drop r p = c # s @ 0 # x" and "d \<noteq> 0" and "e \<noteq> 0"
  shows "char_at p (r + 1) d \<longleftrightarrow> take 1 s = [d]" "char_at p (r + 1) d \<and> char_at p (r + 2) e \<longleftrightarrow> take 2 s = [d, e]"
proof -
  have r: "r < length p" using assms(1) by (cases "r < length p") auto
  have p: "p = take r p @ c # s @ 0 # x" using assms(1) append_take_drop_id [of r p] by simp
  have at: "char_at p (r + Suc k) y = char_at (s @ 0 # x) k y" for k y
    using char_at_app [of "take r p" "c # s @ 0 # x" "Suc k" y] r p by (simp add: char_at_simps min_absorb2)
  show "char_at p (r + 1) d \<longleftrightarrow> take 1 s = [d]" using at [of 0 d] assms(2) by (cases s) (auto simp: char_at_simps)
  show "char_at p (r + 1) d \<and> char_at p (r + 2) e \<longleftrightarrow> take 2 s = [d, e]"
    using at [of 0 d] at [of 1 e] assms(2,3) by (cases s; cases "List.tl s") (auto simp: char_at_simps)
qed

lemma drop_next: "drop r p = c # y \<Longrightarrow> drop (Suc r) p = y"
  by (metis drop_Suc list.sel(3) tl_drop)

lemma norm_loop_list:
  "w \<le> r \<Longrightarrow> drop r p = s @ 0 # x \<Longrightarrow> 0 \<notin> set s \<Longrightarrow>
   \<exists>p' w'. norm_loop p r w = Ok (p', w') \<and> take w' p' = norm_from (take w p) s \<and> w' < length p' \<and> length p' = length p"
proof (induction "length s" arbitrary: p r w s rule: less_induct)
  case less
  have r: "r < length p" using less.prems(2) by (cases "r < length p") auto
  show ?case
  proof (cases s)
    case Nil
    with less.prems r show ?thesis by (simp add: norm_loop.simps [of p r w] hd_drop_conv_nth [symmetric])
  next
    case (Cons c t)
    have c: "p ! r = c" "c \<noteq> 0" using less.prems(2,3) Cons r by (auto simp: hd_drop_conv_nth [symmetric])
    have tail: "drop (r + 1) p = t @ 0 # x" using drop_next [of r p c] less.prems(2) Cons by simp
    have d: "drop r p = c # t @ 0 # x" using less.prems(2) Cons by simp
    note at = char_at_drop(1) [OF d, of 47 47] char_at_drop(2) [OF d, of 46 47]
    have w: "w < length p" using less.prems(1) r by simp
    consider (here) "c = 46" "take 1 t = [47]" | (up) "c = 46" "take 2 t = [46, 47]" "take 1 t \<noteq> [47]"
      | (copy) "\<not> (c = 46 \<and> take 1 t = [47])" "\<not> (c = 46 \<and> take 2 t = [46, 47])" by blast
    then show ?thesis
    proof cases
      case here
      then obtain t' where t: "t = 47 # t'" by (cases t) auto
      have "drop (r + 2) p = t' @ 0 # x" using drop_next [of "r + 1" p 47] tail t by simp
      from less.hyps [OF _ _ this, of w] less.prems(1,3) Cons t here at c r show ?thesis
        by (simp add: norm_loop.simps [of p r w] norm_from.simps(2))
    next
      case up
      then obtain t' where t: "t = 46 # 47 # t'" by (cases t; cases "List.tl t") auto
      have "drop (r + 3) p = t' @ 0 # x" using drop_next [of "r + 1" p 46] drop_next [of "r + 2" p 47] tail t by (simp add: numeral_3_eq_3)
      moreover have "take (back_up p w) p = up_to_slash (take w p)" "back_up p w \<le> w" using back_up_take [of w p] w by auto
      ultimately show ?thesis using less.hyps [of t' "back_up p w" "r + 3" p] less.prems(1,3) Cons t up at c r
        by (simp add: norm_loop.simps [of p r w] norm_from.simps(2))
    next
      case copy
      let ?p = "p[w := c]"
      have "take (w + 1) ?p = take w p @ [c]" using w by (simp add: take_Suc_conv_app_nth)
      moreover have "drop (r + 1) ?p = t @ 0 # x" using tail less.prems(1) by simp
      moreover have "norm_loop p r w = norm_loop ?p (r + 1) (w + 1)"
        using copy at c r w by (auto simp: norm_loop.simps [of p r w])
      moreover have "norm_from (take w p) s = norm_from (take w p @ [c]) t"
        unfolding Cons using copy by (auto simp: norm_from.simps(2))
      ultimately show ?thesis using less.hyps [of t "w + 1" "r + 1" ?p] less.prems(1,3) Cons by simp
    qed
  qed
qed

lemma set_norm_from: "set (norm_from acc s) \<subseteq> set acc \<union> set s"
proof (induction "length s" arbitrary: acc s rule: less_induct)
  case less
  have up: "set (up_to_slash acc) \<subseteq> set acc" by (auto simp: up_to_slash_def dest: set_dropWhileD)
  show ?case
  proof (cases s)
    case (Cons c t)
    have "length t - Suc 0 < Suc (length t)" "length t - 2 < Suc (length t)" by linarith+
    hence "set (norm_from acc (drop 1 t)) \<subseteq> set acc \<union> set t" "set (norm_from (up_to_slash acc) (drop 2 t)) \<subseteq> set acc \<union> set t"
      "set (norm_from (acc @ [c]) t) \<subseteq> set acc \<union> set s"
      using less.hyps [of "drop 1 t" acc] less.hyps [of "drop 2 t" "up_to_slash acc"] less.hyps [of t "acc @ [c]"] up Cons
        set_drop_subset [of 1 t] set_drop_subset [of 2 t] by auto
    thus ?thesis unfolding Cons norm_from.simps(2) by (simp split: if_splits) blast
  qed simp
qed

lemma set_strip_end: "set (strip_end s) \<subseteq> set s"
  by (auto simp: strip_end_def dest: set_dropWhileD)

lemma zero_not_normalized: "0 \<notin> set s \<Longrightarrow> 0 \<notin> set (normalized s)"
  using set_norm_from [of "[]" s] set_strip_end by (auto simp: normalized_def)

lemma normalize_eq:
  assumes "terminated p"
  shows "\<exists>q. vfs_normalize_path p = Ok q \<and> cstr q = normalized (cstr p) \<and> terminated q \<and> length q = length p"
proof -
  obtain x where p: "p = cstr p @ 0 # x" using terminated_split [OF assms] by blast
  have z: "0 \<notin> set (cstr p)" using cstr_nonzero by blast
  obtain p' w' where n: "norm_loop p 0 0 = Ok (p', w')" "take w' p' = norm_from [] (cstr p)" "w' < length p'" "length p' = length p"
    using norm_loop_list [of 0 0 p "cstr p" x] p z by auto
  let ?e = "trim_end p' w'"
  have e: "take ?e p' = normalized (cstr p)" "?e < length p'" using trim_end_take [of w' p'] n by (auto simp: normalized_def)
  have "p'[?e := 0] = take ?e p' @ 0 # drop (Suc ?e) p'" using e(2) by (simp add: upd_conv_take_nth_drop)
  hence "cstr (p'[?e := 0]) = normalized (cstr p)" "terminated (p'[?e := 0])"
    using e(1) cstr_terminated_app [OF zero_not_normalized [OF z]] by (simp_all add: terminated_def)
  with n e(2) show ?thesis by (simp add: vfs_normalize_path_def)
qed

text \<open>C32: Normalising in place computes the function on lists and never touches a byte behind the string.\<close>

theorem normalize_path_refines:
  assumes "terminated p"
  shows "\<exists>q. vfs_normalize_path p = Ok q \<and> cstr q = normalized (cstr p) \<and> terminated q \<and> length q = length p"
  by (rule normalize_eq [OF assms])

section \<open>Normal forms\<close>

text \<open>\<open>clean s\<close>: no dot of \<open>s\<close> is followed by a slash.\<close>

fun clean :: "u8 list \<Rightarrow> bool" where
  "clean (a # b # s) \<longleftrightarrow> \<not> (a = 46 \<and> b = 47) \<and> clean (b # s)"
| "clean s \<longleftrightarrow> True"

lemma clean_app: "clean (a @ b) \<longleftrightarrow> clean a \<and> clean b \<and> (a \<noteq> [] \<and> b \<noteq> [] \<longrightarrow> \<not> (List.last a = 46 \<and> List.hd b = 47))"
  by (induction a rule: clean.induct) (cases b; auto)+

lemma rev_dropWhile_prefix: "\<exists>y. acc = rev (dropWhile P (rev acc)) @ y"
proof -
  have "rev (rev acc) = rev (dropWhile P (rev acc)) @ rev (takeWhile P (rev acc))" unfolding rev_append [symmetric] by simp
  thus ?thesis by auto
qed

lemma up_to_slash_prefix: "\<exists>y. acc = up_to_slash acc @ y"
  unfolding up_to_slash_def by (rule rev_dropWhile_prefix)

lemma up_to_slash_last: "up_to_slash acc = [] \<or> List.last (up_to_slash acc) = 47"
  using hd_dropWhile [of "\<lambda>c. c \<noteq> 47" "rev acc"] by (auto simp: up_to_slash_def last_rev)

lemma strip_end_prefix: "\<exists>y. acc = strip_end acc @ y"
  unfolding strip_end_def by (rule rev_dropWhile_prefix)

lemma norm_from_clean:
  "clean acc \<Longrightarrow> (acc \<noteq> [] \<and> List.last acc = 46 \<longrightarrow> take 1 s \<noteq> [47] \<and> take 2 s \<noteq> [46, 47]) \<Longrightarrow> clean (norm_from acc s)"
proof (induction "length s" arbitrary: acc s rule: less_induct)
  case less
  have up: "clean (up_to_slash acc)" using up_to_slash_prefix [of acc] less.prems(1) clean_app by metis
  show ?case
  proof (cases s)
    case (Cons c t)
    consider (here) "c = 46" "take 1 t = [47]" | (up) "c = 46" "take 2 t = [46, 47]" "take 1 t \<noteq> [47]"
      | (copy) "\<not> (c = 46 \<and> take 1 t = [47])" "\<not> (c = 46 \<and> take 2 t = [46, 47])" by blast
    then show ?thesis
    proof cases
      case here
      then have "take 2 s = [46, 47]" using Cons by (cases t) auto
      with less.prems have "acc = [] \<or> List.last acc \<noteq> 46" by auto
      with less.hyps [of "drop 1 t" acc] less.prems(1) Cons here show ?thesis by (auto simp: norm_from.simps(2))
    next
      case up
      with less.hyps [of "drop 2 t" "up_to_slash acc"] Cons \<open>clean (up_to_slash acc)\<close> up_to_slash_last [of acc]
      show ?thesis by (auto simp: norm_from.simps(2))
    next
      case copy
      have "clean (acc @ [c])" using less.prems Cons by (auto simp: clean_app)
      with less.hyps [of t "acc @ [c]"] Cons copy show ?thesis by (auto simp: norm_from.simps(2))
    qed
  qed (simp add: less.prems(1))
qed

lemma normalized_clean: "clean (normalized s)"
proof -
  obtain y where "norm_from [] s = strip_end (norm_from [] s) @ y" using strip_end_prefix by blast
  with norm_from_clean [of "[]" s] show ?thesis unfolding normalized_def by (metis clean.simps(2) clean_app)
qed

lemma norm_from_of_clean: "clean s \<Longrightarrow> norm_from acc s = acc @ s"
proof (induction s arbitrary: acc)
  case (Cons c s)
  have "\<not> (c = 46 \<and> take 1 s = [47])" "\<not> (c = 46 \<and> take 2 s = [46, 47])" using Cons.prems by (cases s; cases "List.tl s"; auto)+
  moreover have "clean s" using Cons.prems by (cases s) auto
  ultimately show ?case using Cons.IH by (auto simp: norm_from.simps(2))
qed simp

lemma strip_end_twice: "strip_end (strip_end s) = strip_end s"
  by (simp add: strip_end_def dropWhile_idem)

lemma normalized_twice: "normalized (normalized s) = normalized s"
  using norm_from_of_clean [OF normalized_clean, of "[]" s] by (simp add: normalized_def strip_end_twice)

text \<open>Normalising a normalised path changes nothing, and a normalised path has no \<open>./\<close> left in it, inside a name or
  outside.\<close>

theorem normalize_path_idempotent:
  assumes "terminated p" and "vfs_normalize_path p = Ok q"
  shows "\<exists>r. vfs_normalize_path q = Ok r \<and> cstr r = cstr q \<and> clean (cstr q)"
  using normalize_eq [OF assms(1)] assms(2) normalize_eq [of q] normalized_twice normalized_clean by auto

lemma norm_from_plain: "46 \<notin> set x \<Longrightarrow> norm_from acc (x @ s) = norm_from (acc @ x) s"
  by (induction x arbitrary: acc) (auto simp: norm_from.simps(2))

lemma strip_end_keeps: "y \<noteq> [] \<Longrightarrow> List.last y \<noteq> 47 \<Longrightarrow> List.last y \<noteq> 46 \<Longrightarrow> strip_end (x @ y) = x @ y"
  by (cases y rule: rev_cases) (simp_all add: strip_end_def)

definition plain :: "u8 list \<Rightarrow> bool" where
  "plain x \<longleftrightarrow> 0 \<notin> set x \<and> 46 \<notin> set x \<and> 47 \<notin> set x"

text \<open>The component \<open>..\<close> is dropped together with its slash, but what it should go back over stays: the step back stops
  at the slash right before it. \<open>x/../y\<close> becomes \<open>x/y\<close>.\<close>

theorem normalize_keeps_parent:
  assumes "plain x" and "plain y" and "y \<noteq> []"
  shows "\<exists>q. vfs_normalize_path (x @ [47, 46, 46, 47] @ y @ [0]) = Ok q \<and> cstr q = x @ [47] @ y"
proof -
  let ?s = "x @ [47, 46, 46, 47] @ y"
  have "0 \<notin> set ?s" using assms by (auto simp: plain_def)
  hence c: "cstr (?s @ 0 # []) = ?s" by (rule cstr_terminated_app)
  have "norm_from [] ?s = norm_from x ([47, 46, 46, 47] @ y)" using norm_from_plain [of x "[]"] assms(1) by (simp add: plain_def)
  also have "\<dots> = norm_from (x @ [47]) y" by (simp add: norm_from.simps(2) up_to_slash_def)
  also have "\<dots> = x @ [47] @ y" using norm_from_plain [of y "x @ [47]" "[]"] assms(2) by (simp add: plain_def)
  finally have n: "norm_from [] ?s = x @ [47] @ y" .
  have "List.last y \<noteq> 47" "List.last y \<noteq> 46" using assms(2,3) last_in_set [of y] unfolding plain_def by metis+
  with n strip_end_keeps [of y "x @ [47]"] assms(3) have "normalized ?s = x @ [47] @ y" by (simp add: normalized_def)
  with normalize_eq [of "?s @ [0]"] c show ?thesis by (auto simp: terminated_def)
qed

theorem normalize_keeps_parent_witness: "\<exists>q. vfs_normalize_path [97, 47, 46, 46, 47, 98, 0] = Ok q \<and> cstr q = [97, 47, 98]"
  using normalize_keeps_parent [of "[97]" "[98]"] by (simp add: plain_def)

theorem normalize_path_refines_witness: "\<exists>q. vfs_normalize_path [97, 46, 47, 98, 47, 0] = Ok q \<and> cstr q = [97, 98]"
  using normalize_path_refines [of "[97, 46, 47, 98, 47, 0]"]
  by (auto simp: terminated_def cstr_simps normalized_def norm_from.simps(2) strip_end_def)

theorem normalize_path_idempotent_witness: "\<exists>r. vfs_normalize_path [97, 0, 46, 47, 98, 0] = Ok r \<and> cstr r = [97]"
proof -
  obtain q where q: "vfs_normalize_path [97, 0, 46, 47, 98, 0] = Ok q" "cstr q = [97]"
    using normalize_eq [of "[97, 0, 46, 47, 98, 0]"]
    by (auto simp: terminated_def cstr_simps normalized_def norm_from.simps(2) strip_end_def)
  from normalize_path_idempotent [OF _ q(1)] q show ?thesis by (auto simp: terminated_def)
qed

section \<open>The mount of a path\<close>

definition mount_name :: "'x vfs \<Rightarrow> vmount \<Rightarrow> u8 list \<Rightarrow> bool" where
  "mount_name v m nm \<longleftrightarrow> (\<exists>p. part_at v (mt_partition m) = Ok p \<and> terminated (vp_name p) \<and> cstr (vp_name p) = nm
     \<and> length nm \<le> 65535)"

lemma strncmp_cstr:
  "terminated a \<Longrightarrow> terminated b \<Longrightarrow>
   \<exists>c. strncmp a b (length (cstr a)) = Ok c \<and> (c = 0 \<longleftrightarrow> take (length (cstr a)) (cstr b) = cstr a)"
proof (induction a arbitrary: b)
  case (Cons x a)
  then obtain y b' where b: "b = y # b'" by (cases b) (auto simp: terminated_simps)
  show ?case
  proof (cases "x = 0 \<or> x \<noteq> y")
    case True
    then show ?thesis using b by (auto simp: cstr_simps word_uint_eq_iff)
  next
    case False
    with Cons.IH [of b'] Cons.prems b show ?thesis by (auto simp: cstr_simps)
  qed
qed (simp add: terminated_simps)

lemma find_mount_skip:
  assumes "\<forall>m \<in> set pre. \<exists>nm. mount_name v m nm \<and> take (length nm) (cstr path) \<noteq> nm" and "terminated path"
  shows "find_mount path native (pre @ ms) v = find_mount path native ms v"
  using assms(1)
proof (induction pre)
  case (Cons m pre)
  then obtain nm p where n: "part_at v (mt_partition m) = Ok p" "terminated (vp_name p)" "cstr (vp_name p) = nm" "length nm \<le> 65535"
    "take (length nm) (cstr path) \<noteq> nm" by (auto simp: mount_name_def)
  have "strlen (vp_name p) = Ok (length nm)" using strlen_exact [OF n(2)] n(3,4) by simp
  with strncmp_cstr [OF n(2) assms(2)] n Cons show ?case by auto
qed simp

lemma drop_cstr: "terminated s \<Longrightarrow> n \<le> length (cstr s) \<Longrightarrow> drop n s = drop n (cstr s) @ 0 # drop (length (cstr s) + 1) s"
  using terminated_split [of s] by (metis append_Cons append_eq_conv_conj drop_append drop_drop Suc_eq_plus1 append_Nil diff_is_0_eq drop0 length_append_singleton append.assoc)

lemma find_mount_hit:
  assumes "mount_name v m nm" and "terminated path" and "cstr path = nm @ rest" and "length (cstr path) \<le> 65535"
    and "length native = length (cstr path) + 1"
  shows "find_mount path native (m # ms) v = Ok (Some m, rest @ 0 # drop (length rest + 1) native)"
proof -
  from assms(1) obtain p where p: "part_at v (mt_partition m) = Ok p" "terminated (vp_name p)" "cstr (vp_name p) = nm" "length nm \<le> 65535"
    by (auto simp: mount_name_def)
  have l: "strlen (vp_name p) = Ok (length nm)" "strlen path = Ok (length nm + length rest)"
    using strlen_exact [OF p(2)] strlen_exact [OF assms(2)] p(3,4) assms(3,4) by simp_all
  have c: "strncmp (vp_name p) path (length nm) = Ok 0" using strncmp_cstr [OF p(2) assms(2)] p(3) assms(3) by auto
  have d: "drop (length nm) path = rest @ 0 # drop (length (cstr path) + 1) path"
    using drop_cstr [OF assms(2), of "length nm"] assms(3) by simp
  have m: "memcpy native (drop (length nm) path) (length rest) = Ok (rest @ drop (length rest) native)"
    using put_bytes_eq [of 0 rest native] assms(3,5) by (simp add: memcpy_def d)
  have "(rest @ drop (length rest) native)[length rest := 0] = rest @ 0 # drop (length rest + 1) native"
    using assms(3,5) by (simp add: list_update_append upd_conv_take_nth_drop Cons_nth_drop_Suc [symmetric])
  with p(1) l c m assms(3,5) show ?thesis by simp
qed

text \<open>\<open>path\<close>, without its NUL, belongs to mount \<open>m\<close>, with \<open>rest\<close> behind the mount point: \<open>m\<close> is the first mount whose
  name is a beginning of the path.\<close>

definition belongs :: "'x vfs \<Rightarrow> u8 list \<Rightarrow> vmount \<Rightarrow> u8 list \<Rightarrow> bool" where
  "belongs v path m rest \<longleftrightarrow> (\<exists>pre post nm. vmounts v = Some (pre @ m # post) \<and> mount_name v m nm \<and> path = nm @ rest
     \<and> (\<forall>x \<in> set pre. \<exists>nx. mount_name v x nx \<and> take (length nx) path \<noteq> nx))"

lemma get_mount_belongs:
  assumes "belongs v (cstr path) m rest" and "terminated path" and "length (cstr path) \<le> 65535" and "length native = length (cstr path) + 1"
  shows "get_mount_from_path path native v = Ok (Some m, rest @ 0 # drop (length rest + 1) native)"
proof -
  from assms(1) obtain pre post nm where b: "vmounts v = Some (pre @ m # post)" "mount_name v m nm" "cstr path = nm @ rest"
    "\<forall>x \<in> set pre. \<exists>nx. mount_name v x nx \<and> take (length nx) (cstr path) \<noteq> nx" by (auto simp: belongs_def)
  show ?thesis
    using find_mount_skip [OF b(4) assms(2), of native "m # post"] find_mount_hit [OF b(2) assms(2) b(3) assms(3,4), of post] b(1)
    by (simp add: get_mount_from_path_def)
qed

lemma at_path_belongs:
  assumes "belongs v (cstr path) m rest" and "terminated path" and "length (cstr path) \<le> 65535" and "type_of m v = Ok ops"
  shows "\<exists>x. at_path path dflt f v = rbind (f ops (mt_index m) (rest @ 0 # x) (venv v)) (\<lambda>(r, e). Ok (r, v\<lparr>venv := e\<rparr>))"
  using get_mount_belongs [OF assms(1-3), of "fresh (venv v) (length (cstr path) + 1)"] strlen_exact [OF assms(2,3)] assms(4)
  by (auto simp: at_path_def fresh_def)

text \<open>Opening a path calls the file system of the mount the normalised path belongs to, with the part behind the mount
  point.\<close>

theorem file_open_dispatches:
  assumes "terminated path" and "belongs v (normalized (cstr path)) m rest" and "length (normalized (cstr path)) \<le> 65535"
    and "type_of m v = Ok ops" and "op_file_open ops = Some f"
  shows "\<exists>q x. cstr q = normalized (cstr path) \<and> vfs_file_open path flags mode v
    = rbind (f (mt_index m) (rest @ 0 # x) flags mode (venv v)) (\<lambda>(r, e). Ok (r, q, v\<lparr>venv := e\<rparr>))"
proof -
  obtain q where q: "vfs_normalize_path path = Ok q" "cstr q = normalized (cstr path)" "terminated q"
    using normalize_eq [OF assms(1)] by blast
  obtain x where x: "at_path q (- 1) (\<lambda>ops i native e. call_op (op_file_open ops) (\<lambda>f. f i native flags mode e)) v
      = rbind (f (mt_index m) (rest @ 0 # x) flags mode (venv v)) (\<lambda>(r, e). Ok (r, v\<lparr>venv := e\<rparr>))"
    using at_path_belongs [of v q m rest ops "- 1 :: int" "\<lambda>ops i native e. call_op (op_file_open ops) (\<lambda>f. f i native flags mode e)"]
      q(2,3) assms(2-5) by auto
  show ?thesis
    by (intro exI [where x = q] exI [where x = x])
      (cases "f (mt_index m) (rest @ 0 # x) flags mode (venv v)"; use q x in \<open>auto simp: vfs_file_open_def\<close>)
qed

section \<open>The mount of a descriptor\<close>

lemma full_path:
  assumes "terminated (fd_name en)" and "terminated (fd_mount en)" and "length (cstr (fd_name en)) \<le> 65535" and "length (cstr (fd_mount en)) \<le> 65535"
  shows "get_full_path_from_fdentry en e = Ok (cstr (fd_mount en) @ cstr (fd_name en) @ [0])"
proof -
  let ?n = "cstr (fd_name en)" and ?m = "cstr (fd_mount en)"
  have "strcpy (fresh e (length ?n + length ?m + 1)) (fd_mount en) = Ok (?m @ 0 # drop (length ?m + 1) (fresh e (length ?n + length ?m + 1)))"
    using strcpy_loop_eq [OF assms(2), of "fresh e (length ?n + length ?m + 1)" 0]
      put_bytes_eq [of 0 "?m @ [0]" "fresh e (length ?n + length ?m + 1)"] by (simp add: strcpy_def fresh_def)
  moreover have "strcpy d (fd_name en) = Ok (?n @ [0])" if "length d = length ?n + 1" for d
    using strcpy_loop_eq [OF assms(1), of d 0] put_bytes_eq [of 0 "?n @ [0]" d] that by (simp add: strcpy_def)
  ultimately show ?thesis
    using strlen_exact [OF assms(1,3)] strlen_exact [OF assms(2,4)] by (simp add: get_full_path_from_fdentry_def fresh_def)
qed

lemma fd_ok_path: "fd_ok en \<Longrightarrow> fd_loaded en = 1 \<Longrightarrow>
    get_full_path_from_fdentry en e = Ok (cstr (fd_mount en) @ cstr (fd_name en) @ [0])
    \<and> length (cstr (fd_mount en) @ cstr (fd_name en)) \<le> 65535"
  using full_path [of en e] cstr_length [of "fd_name en"] cstr_length [of "fd_mount en"] by (auto simp: fd_ok_def)

lemma zero_not_cstr [simp]: "0 \<notin> set (cstr s)"
  using cstr_nonzero by blast

lemma cstr_snoc [simp]: "0 \<notin> set s \<Longrightarrow> cstr (s @ [0]) = s"
  using cstr_terminated_app [of s "[]"] by simp

lemma at_fd_belongs:
  assumes "fd_ok en" and "fd_loaded en = 1" and "files (etab (venv v)) i = en" and "i < 65536"
    and "belongs v (cstr (fd_mount en) @ cstr (fd_name en)) m rest" and "type_of m v = Ok ops"
  shows "at_fd (int i) bad dflt f v = rbind (f ops (mt_index m) (venv v)) (\<lambda>(r, e). Ok (r, v\<lparr>venv := e\<rparr>))"
proof -
  let ?p = "(cstr (fd_mount en) @ cstr (fd_name en)) @ [0]"
  have c: "cstr ?p = cstr (fd_mount en) @ cstr (fd_name en)" by (rule cstr_snoc) simp
  obtain x where "at_path ?p dflt (\<lambda>ops i _. f ops i) v = rbind (f ops (mt_index m) (venv v)) (\<lambda>(r, e). Ok (r, v\<lparr>venv := e\<rparr>))"
    using at_path_belongs [of v ?p m rest ops dflt "\<lambda>ops i _. f ops i"] assms(5,6) c fd_ok_path [OF assms(1,2)]
    by (auto simp: terminated_def)
  with fd_ok_path [OF assms(1,2), of "venv v"] assms(3,4) show ?thesis
    by (simp add: at_fd_def get_full_path_from_fd_def vfs_compat_get_file_descriptor_def)
qed

lemma norm_from_length: "length (norm_from acc s) \<le> length acc + length s"
proof (induction "length s" arbitrary: acc s rule: less_induct)
  case less
  have up: "length (up_to_slash acc) \<le> length acc" using length_dropWhile_le [of "\<lambda>c. c \<noteq> 47" "rev acc"] by (simp add: up_to_slash_def)
  show ?case
  proof (cases s)
    case (Cons c t)
    have "length t - Suc 0 < Suc (length t)" "length t - 2 < Suc (length t)" by linarith+
    with less.hyps [of "drop 1 t" acc] less.hyps [of "drop 2 t" "up_to_slash acc"] less.hyps [of t "acc @ [c]"] up Cons
    show ?thesis by (auto simp: norm_from.simps(2))
  qed simp
qed

lemma normalized_length: "length (normalized s) \<le> length s"
proof -
  have "length (strip_end x) \<le> length x" for x
    using length_dropWhile_le [of "\<lambda>c. c = 47 \<or> c = 46" "rev x"] by (simp add: strip_end_def)
  from this [of "norm_from [] s"] norm_from_length [of "[]" s] show ?thesis unfolding normalized_def by simp
qed

lemma normalized_last: "normalized s = [] \<or> List.last (normalized s) \<noteq> 47"
  using hd_dropWhile [of "\<lambda>c. c = 47 \<or> c = 46" "rev (norm_from [] s)"]
  by (auto simp: normalized_def strip_end_def last_rev)

end
