(* ===== verification/VfsMounts.thy ===== *)
theory VfsMounts
  imports VfsInterface
begin

text \<open>The mounts: they stay consistent with the partitions and the file systems they refer to, whatever the file
  systems do; a mounted partition is found under its mount point; where the look-up goes wrong.\<close>

section \<open>Consistency\<close>

definition name_ok :: "u8 list \<Rightarrow> bool" where
  "name_ok nm \<longleftrightarrow> length nm = 48 \<and> terminated nm"

definition root_ok :: "devmap \<Rightarrow> bool" where
  "root_ok m \<longleftrightarrow> (\<forall>ps. dm_parts m = Some ps \<longrightarrow> (\<forall>p \<in> set ps. name_ok (vp_name p)))"

definition types_of :: "'x vfs \<Rightarrow> 'x fstype list" where
  "types_of v = (case vtypes v of None \<Rightarrow> [] | Some ts \<Rightarrow> ts)"

definition mounts_of :: "'x vfs \<Rightarrow> vmount list" where
  "mounts_of v = (case vmounts v of None \<Rightarrow> [] | Some ms \<Rightarrow> ms)"

text \<open>The entry of the mount's device is in use, its chain has the partition, and the list has the file system.\<close>

definition mount_ok :: "devmap list \<Rightarrow> nat \<Rightarrow> vmount \<Rightarrow> bool" where
  "mount_ok rs n m \<longleftrightarrow> fst (mt_partition m) < length rs \<and> dm_dev (rs ! fst (mt_partition m)) \<noteq> None
     \<and> (\<exists>ps. dm_parts (rs ! fst (mt_partition m)) = Some ps \<and> snd (mt_partition m) < length ps) \<and> mt_fst m < n"

definition vfs_ok :: "'x vfs \<Rightarrow> bool" where
  "vfs_ok v \<longleftrightarrow> list_all root_ok (vroots v) \<and> list_all (mount_ok (vroots v) (length (types_of v))) (mounts_of v)"

lemma vfs_ok_env [simp]: "vfs_ok (v\<lparr>venv := e\<rparr>) = vfs_ok v"
  by (simp add: vfs_ok_def types_of_def mounts_of_def)

lemma vfs_ok_size [simp]: "vfs_ok (v\<lparr>vroot_size := n\<rparr>) = vfs_ok v"
  by (simp add: vfs_ok_def types_of_def mounts_of_def)

lemma types_of_env [simp]: "types_of (v\<lparr>venv := e\<rparr>) = types_of v" "mounts_of (v\<lparr>venv := e\<rparr>) = mounts_of v"
  by (simp_all add: types_of_def mounts_of_def)

lemma part_at_Ok: "part_at v rp = Ok p \<longleftrightarrow> fst rp < length (vroots v)
    \<and> (\<exists>ps. dm_parts (vroots v ! fst rp) = Some ps \<and> snd rp < length ps \<and> p = ps ! snd rp)"
  by (auto simp: part_at_def parts_of_def rbind_eq_Ok rd_eq_Ok split: option.splits)

lemma vfs_ok_part: "vfs_ok v \<Longrightarrow> part_at v rp = Ok p \<Longrightarrow> name_ok (vp_name p)"
  by (auto simp: vfs_ok_def part_at_Ok list_all_length root_ok_def)

lemma vfs_ok_mount: "vfs_ok v \<Longrightarrow> m \<in> set (mounts_of v) \<Longrightarrow>
    \<exists>p t. part_at v (mt_partition m) = Ok p \<and> name_ok (vp_name p) \<and> rd (types_of v) (mt_fst m) = Ok t"
  using vfs_ok_part [of v "mt_partition m"]
  by (fastforce simp: vfs_ok_def list_all_iff mount_ok_def part_at_Ok)

lemma print_48_ok:
  assumes "length d = 48"
  shows "print_48 d src = Ok (take 47 (cstr src) @ 0 # drop (length (take 47 (cstr src)) + 1) d)"
    "\<exists>x. print_48 d src = Ok x \<and> name_ok x \<and> cstr x = take 47 (cstr src)"
proof -
  let ?s = "take 47 (cstr src)"
  show e: "print_48 d src = Ok (?s @ 0 # drop (length ?s + 1) d)"
    using put_bytes_eq [of 0 "?s @ [0]" d] assms by (simp add: print_48_def)
  have "0 \<notin> set ?s" using set_take_subset [of 47 "cstr src"] zero_not_cstr [of src] by auto
  with e assms show "\<exists>x. print_48 d src = Ok x \<and> name_ok x \<and> cstr x = take 47 (cstr src)"
    by (auto simp: name_ok_def terminated_def cstr_terminated_app)
qed

text \<open>The partition \<open>rp\<close> gets a name.\<close>

definition renamed :: "'x vfs \<Rightarrow> nat \<times> nat \<Rightarrow> vpart \<Rightarrow> devmap list" where
  "renamed v rp p = (vroots v)[fst rp := (vroots v ! fst rp)\<lparr>dm_parts := Some ((the (dm_parts (vroots v ! fst rp)))[snd rp := p])\<rparr>]"

lemma set_part_Ok: "part_at v rp = Ok q \<Longrightarrow> set_part rp p v = Ok (v\<lparr>vroots := renamed v rp p\<rparr>)"
  by (auto simp: part_at_Ok set_part_def renamed_def)

lemma renamed_mount_ok: "part_at v rp = Ok q \<Longrightarrow> mount_ok (vroots v) n m \<Longrightarrow> mount_ok (renamed v rp p) n m"
  by (cases "fst (mt_partition m) = fst rp") (auto simp: renamed_def mount_ok_def part_at_Ok)

lemma renamed_root_ok:
  assumes "part_at v rp = Ok q" and "list_all root_ok (vroots v)" and "name_ok (vp_name p)"
  shows "list_all root_ok (renamed v rp p)"
  unfolding list_all_length
proof (intro allI impI)
  fix i assume "i < length (renamed v rp p)"
  with assms show "root_ok (renamed v rp p ! i)"
    by (cases "i = fst rp") (auto simp: renamed_def part_at_Ok root_ok_def list_all_length dest!: set_update_subset_insert [THEN subsetD])
qed

text \<open>\<open>keeps v v'\<close>: what mounting leaves in place.\<close>

definition keeps :: "'x vfs \<Rightarrow> 'x vfs \<Rightarrow> bool" where
  "keeps v v' \<longleftrightarrow> vtypes v' = vtypes v \<and> length (vroots v') = length (vroots v)
     \<and> (\<forall>i < length (vroots v). dm_dev (vroots v' ! i) = dm_dev (vroots v ! i)) \<and> (\<exists>ms. mounts_of v' = mounts_of v @ ms)"

lemma keeps_refl: "keeps v v" "keeps v (v\<lparr>venv := e\<rparr>)" "keeps v v' \<Longrightarrow> keeps v' v'' \<Longrightarrow> keeps v v''"
  by (auto simp: keeps_def)

lemma keeps_env [simp]: "keeps (v\<lparr>venv := e\<rparr>) v' = keeps v v'"
  by (simp add: keeps_def)

lemma mount_with_ok:
  "mount_with ts i dev rp mp v = Ok (r, v') \<Longrightarrow> vfs_ok v \<Longrightarrow> i + length ts \<le> length (types_of v) \<Longrightarrow>
   dm_dev (vroots v ! fst rp) \<noteq> None \<Longrightarrow> vfs_ok v' \<and> keeps v v'"
proof (induction ts arbitrary: i v)
  case Nil
  then show ?case by (simp add: keeps_refl)
next
  case (Cons t ts)
  from Cons.prems(1) obtain d found where d: "device_at v dev = Ok d" "has_major (nat (ft_major_no t)) 0 (ft_majors t) (full_major d) = Ok found"
    by (auto simp: rbind_eq_Ok)
  show ?case
  proof (cases found)
    case False
    with Cons.IH [of "i + 1" v] Cons.prems d show ?thesis by simp
  next
    case True
    with Cons.prems(1) d obtain p f r1 e1 where p: "part_at v rp = Ok p" "op_detect (ft_ops t) = Some f" "f (dv_name d) (vp_lba p) (venv v) = Ok (r1, e1)"
      by (auto simp: rbind_eq_Ok call_op_def split: option.splits)
    show ?thesis
    proof (cases "r1 = 0")
      case True
      with Cons.IH [of "i + 1" "v\<lparr>venv := e1\<rparr>"] Cons.prems d p \<open>found\<close> show ?thesis by auto
    next
      case False
      with Cons.prems(1) d p \<open>found\<close> obtain g r2 e2 where g: "op_register_partition (ft_ops t) = Some g" "g (dv_name d) (vp_lba p) mp e1 = Ok (r2, e2)"
        by (auto simp: rbind_eq_Ok Let_def call_op_def split: option.splits)
      show ?thesis
      proof (cases "r2 = - 1")
        case True
        with False Cons.prems d p g \<open>found\<close> show ?thesis by (auto simp: Let_def keeps_def mounts_of_def)
      next
        case r2: False
        obtain nm where nm: "print_48 (vp_name p) mp = Ok nm" "name_ok nm"
          using vfs_ok_part [OF Cons.prems(2) p(1)] print_48_ok(2) [of "vp_name p" mp] by (auto simp: name_ok_def)
        let ?p = "p\<lparr>vp_name := nm\<rparr>" and ?m = "\<lparr>mt_device = dev, mt_partition = rp, mt_fst = i, mt_index = r2\<rparr>"
        have s: "set_part rp ?p (v\<lparr>venv := e2\<rparr>) = Ok (v\<lparr>vroots := renamed v rp ?p, venv := e2\<rparr>)"
          using set_part_Ok [of "v\<lparr>venv := e2\<rparr>" rp p ?p] p(1) by (simp add: part_at_Ok renamed_def)
        with Cons.prems(1) d p g nm r2 False \<open>found\<close> obtain ms where ms: "vmounts v = Some ms"
          "v' = v\<lparr>vroots := renamed v rp ?p, venv := e2, vmounts := Some (ms @ [?m])\<rparr>"
          by (cases "vmounts v") (auto simp: Let_def add_mount_def)
        have "mount_ok (renamed v rp ?p) (length (types_of v)) ?m"
          using p(1) Cons.prems(3,4) by (auto simp: mount_ok_def renamed_def part_at_Ok)
        moreover have "list_all root_ok (renamed v rp ?p)"
          by (rule renamed_root_ok [OF p(1)]) (use Cons.prems(2) nm(2) in \<open>simp_all add: vfs_ok_def\<close>)
        moreover have "list_all (mount_ok (renamed v rp ?p) (length (types_of v))) ms"
          using Cons.prems(2) renamed_mount_ok [OF p(1)] ms(1) by (auto simp: vfs_ok_def list_all_iff mounts_of_def)
        ultimately have "vfs_ok v'" unfolding ms(2) by (simp add: vfs_ok_def mounts_of_def types_of_def)
        moreover have "keeps v v'" using ms p(1) by (auto simp: keeps_def mounts_of_def renamed_def nth_list_update part_at_Ok)
        ultimately show ?thesis by blast
      qed
    qed
  qed
qed

lemma vfs_ok_mounts_init: "vfs_ok (v\<lparr>vmounts := Some (mounts_of v)\<rparr>) = vfs_ok v" "keeps v (v\<lparr>vmounts := Some (mounts_of v)\<rparr>)"
  by (simp_all add: vfs_ok_def types_of_def mounts_of_def keeps_def)

lemma mount_fs_ok:
  assumes "mount_fs dev rp mp v = Ok (r, v')" and "vfs_ok v" and "dm_dev (vroots v ! fst rp) \<noteq> None"
  shows "vfs_ok v' \<and> keeps v v'"
proof (cases "vtypes v")
  case None
  with assms(1,2) vfs_ok_mounts_init [of v] show ?thesis by (simp add: mount_fs_def mounts_of_def Let_def)
next
  case (Some ts)
  let ?v = "v\<lparr>vmounts := Some (mounts_of v)\<rparr>"
  have "mount_with ts 0 dev rp mp ?v = Ok (r, v')" using assms(1) Some by (simp add: mount_fs_def mounts_of_def Let_def)
  from mount_with_ok [OF this] assms(2,3) Some vfs_ok_mounts_init [of v] keeps_refl(3) show ?thesis by (fastforce simp: types_of_def)
qed

lemma mount_parts_ok: "mount_parts k r j v = Ok v' \<Longrightarrow> vfs_ok v \<Longrightarrow> vfs_ok v' \<and> keeps v v'"
proof (induction k arbitrary: j v)
  case 0
  then show ?case by (simp add: keeps_refl)
next
  case (Suc k)
  from Suc.prems(1) obtain p c where p: "part_at v (r, j) = Ok p" "rd (vp_name p) 0 = Ok c" by (auto simp: rbind_eq_Ok)
  show ?case
  proof (cases "c = 0")
    case False
    with Suc.IH [of "j + 1" v] Suc.prems p show ?thesis by simp
  next
    case True
    with Suc.prems(1) p obtain m d dd mp f v1 where m: "rd (vroots v) r = Ok m" "dm_dev m = Some d" "device_at v d = Ok dd"
      "mountpoint_for (dv_name dd) j = Ok mp" "mount_fs d (r, j) mp v = Ok (f, v1)" "mount_parts k r (j + 1) v1 = Ok v'"
      by (auto simp: rbind_eq_Ok split: option.splits)
    from mount_fs_ok [OF m(5) Suc.prems(2)] m(1,2) have "vfs_ok v1 \<and> keeps v v1" by (simp add: rd_eq_Ok)
    with Suc.IH [OF m(6)] keeps_refl(3) show ?thesis by blast
  qed
qed

lemma mount_roots_ok: "mount_roots k r v = Ok v' \<Longrightarrow> vfs_ok v \<Longrightarrow> vfs_ok v' \<and> keeps v v'"
proof (induction k arbitrary: r v)
  case 0
  then show ?case by (simp add: keeps_refl)
next
  case (Suc k)
  from Suc.prems(1) obtain ps v1 where "parts_of v r = Ok ps" "mount_parts (length ps) r 0 v = Ok v1" "mount_roots k (r + 1) v1 = Ok v'"
    by (auto simp: rbind_eq_Ok)
  with mount_parts_ok Suc.IH Suc.prems(2) keeps_refl(3) show ?case by blast
qed

section \<open>Devices\<close>

definition parts_ok :: "vpart list option \<Rightarrow> bool" where
  "parts_ok ps \<longleftrightarrow> (\<forall>xs. ps = Some xs \<longrightarrow> (\<forall>p \<in> set xs. name_ok (vp_name p)))"

lemma add_partition_ok: "add_partition ps l s st ty = Ok ps' \<Longrightarrow> parts_ok ps \<Longrightarrow> parts_ok ps'"
  by (auto simp: add_partition_def parts_ok_def new_part_def name_ok_def terminated_def split: option.splits)

lemma mbr_loop_ok: "mbr_loop k b ps n = Ok (m, ps') \<Longrightarrow> parts_ok ps \<Longrightarrow> parts_ok ps'"
  by (induction k arbitrary: ps n) (auto simp: Let_def split: if_splits, meson add_partition_ok)

lemma gpt_add_ok: "gpt_add k i ents ps = Ok ps' \<Longrightarrow> parts_ok ps \<Longrightarrow> parts_ok ps'"
  by (induction k arbitrary: i ps) (auto split: if_splits, meson add_partition_ok)

lemma read_mbr_ok: "read_mbr s d ps = Ok (n, ps', s') \<Longrightarrow> parts_ok ps \<Longrightarrow> parts_ok ps'"
  by (auto simp: read_mbr_def split: if_splits) (meson mbr_loop_ok)

lemma read_gpt_ok: "read_gpt mem s d ps = Ok (n, ps', s') \<Longrightarrow> parts_ok ps \<Longrightarrow> parts_ok ps'"
  by (auto simp: read_gpt_def split: if_splits) (meson gpt_add_ok)

lemma detect_partitions_ok:
  assumes "detect_partitions d ps e = Ok (n, ps', e')" and "parts_ok ps"
  shows "parts_ok ps'"
  using assms add_partition_ok [of ps 0 0 0 0] read_gpt_ok [of "ejunk e" "edisk e" "dv_name d" ps] read_mbr_ok
  by (auto simp: detect_partitions_def Let_def split: if_splits)

lemma free_entry_Ok: "free_entry ms i = Ok k \<Longrightarrow> i \<le> k \<and> k - i < length ms \<and> dm_dev (ms ! (k - i)) = None"
proof (induction ms arbitrary: i)
  case (Cons m ms)
  show ?case
  proof (cases "dm_dev m = None")
    case False
    with Cons.IH [of "i + 1"] Cons.prems show ?thesis by (auto simp: nth_Cons')
  qed (use Cons.prems in auto)
qed simp

lemma new_root_ok:
  assumes "vfs_ok v" and "i < length (vroots v)" and "dm_dev (vroots v ! i) = None" and "root_ok m"
  shows "vfs_ok (v\<lparr>vroots := (vroots v)[i := m], venv := e\<rparr>)"
proof -
  have "list_all root_ok ((vroots v)[i := m])"
    using assms by (auto simp: vfs_ok_def list_all_iff dest!: set_update_subset_insert [THEN subsetD])
  moreover have "mount_ok ((vroots v)[i := m]) n x" if "mount_ok (vroots v) n x" for n x
    using that assms(3) by (cases "fst (mt_partition x) = i") (auto simp: mount_ok_def)
  ultimately show ?thesis using assms(1) by (auto simp: vfs_ok_def list_all_iff types_of_def mounts_of_def)
qed

lemma detect_from_ok: "detect_from k dev index v = Ok v' \<Longrightarrow> vfs_ok v \<Longrightarrow> vfs_ok v'"
proof (induction k dev index v rule: detect_from.induct)
  case (3 k d index v)
  from "3.prems"(1) obtain dev i where s: "skip_known (unat (vroot_size v)) 0 (Some d) v = Ok dev" "free_entry (drop index (vroots v)) index = Ok i"
    by (auto simp: rbind_eq_Ok)
  with "3.prems"(1) obtain d2 dd n ps e dev' where d: "dev = Some d2" "device_at v d2 = Ok dd"
    "detect_partitions dd init_partition_header (venv v) = Ok (n, ps, e)" "get_next_device (dtab (edisk e)) d2 = Ok dev'"
    "detect_from k dev' i (v\<lparr>vroots := (vroots v)[i := \<lparr>dm_dev = Some d2, dm_parts = ps, dm_no = n\<rparr>], venv := e\<rparr>) = Ok v'"
    by (auto simp: rbind_eq_Ok Let_def split: option.splits)
  have "parts_ok ps" by (rule detect_partitions_ok [OF d(3)]) (simp add: parts_ok_def init_partition_header_def)
  hence "root_ok \<lparr>dm_dev = Some d2, dm_parts = ps, dm_no = n\<rparr>" by (simp add: parts_ok_def root_ok_def)
  moreover have "i < length (vroots v)" "dm_dev (vroots v ! i) = None" using free_entry_Ok [OF s(2)] by (auto simp: less_diff_conv)
  ultimately have "vfs_ok (v\<lparr>vroots := (vroots v)[i := \<lparr>dm_dev = Some d2, dm_parts = ps, dm_no = n\<rparr>], venv := e\<rparr>)"
    using new_root_ok [OF "3.prems"(2)] by blast
  from "3.IH" [OF d(1) refl d(5) this] show ?case .
qed auto

lemma probe_ok: "probe_fs v = Ok v' \<Longrightarrow> vfs_ok v \<Longrightarrow> vfs_ok v'"
  by (auto simp: probe_fs_def detect_devices_def detect_partition_fs_def Let_def rbind_eq_Ok dest!: detect_from_ok mount_roots_ok)

lemma register_ok:
  assumes "register_filesystem t v = Ok v'" and "vfs_ok v"
  shows "vfs_ok v'"
proof -
  obtain x where x: "vtypes v' = Some (types_of v @ [x])" "vroots v' = vroots v" "vmounts v' = vmounts v"
    using assms(1) by (auto simp: register_filesystem_def Let_def rbind_eq_Ok types_of_def split: option.splits if_splits)
  have "mount_ok rs n m \<Longrightarrow> mount_ok rs (Suc n) m" for rs n m by (auto simp: mount_ok_def)
  with assms(2) x show ?thesis by (auto simp: vfs_ok_def types_of_def mounts_of_def list_all_iff split: option.splits)
qed

text \<open>The state before anything is registered or probed.\<close>

definition empty_vfs :: "'x fsenv \<Rightarrow> 'x vfs" where
  "empty_vfs e = \<lparr>vroot_size = 0, vroots = replicate VFS_MAX_DEVICES blank_devmap, vtypes = None, vmounts = None, venv = e\<rparr>"

lemma empty_vfs_ok: "vfs_ok (empty_vfs e)"
  by (simp add: vfs_ok_def empty_vfs_def root_ok_def blank_devmap_def mounts_of_def list_all_iff)

text \<open>What happens to the virtual file system: file systems register, devices are probed, and the file systems' own
  operations change what they work on in any way.\<close>

inductive vfs_step :: "'x vfs \<Rightarrow> 'x vfs \<Rightarrow> bool" where
  registered: "register_filesystem t v = Ok v' \<Longrightarrow> vfs_step v v'"
| probed: "probe_fs v = Ok v' \<Longrightarrow> vfs_step v v'"
| initialised: "init_vfs v = Ok v' \<Longrightarrow> vfs_step v v'"
| operated: "vfs_step v (v\<lparr>venv := e\<rparr>)"

lemma vfs_step_ok: "vfs_step v v' \<Longrightarrow> vfs_ok v \<Longrightarrow> vfs_ok v'"
  by (induction rule: vfs_step.induct) (auto intro: register_ok probe_ok simp: init_vfs_def probe_fs_def [symmetric])

text \<open>C29: Every mount refers to a partition and a file system that exist, under a name that ends within its 48 bytes, after
  any sequence of registrations, probes and operations of the file systems: looking up a mount never follows a null
  pointer and never leaves a list.\<close>

theorem mounts_well_typed:
  assumes "vfs_step\<^sup>*\<^sup>* (empty_vfs e) v" and "m \<in> set (mounts_of v)"
  shows "\<exists>p t. part_at v (mt_partition m) = Ok p \<and> name_ok (vp_name p) \<and> rd (types_of v) (mt_fst m) = Ok t"
proof -
  have "vfs_ok v" using assms(1) by (induction rule: rtranclp_induct) (auto intro: vfs_step_ok empty_vfs_ok)
  from vfs_ok_mount [OF this assms(2)] show ?thesis .
qed

section \<open>Mounts and paths\<close>

lemma mount_with_found:
  "mount_with ts i dev rp mp v = Ok (1, v') \<Longrightarrow> vfs_ok v \<Longrightarrow> vmounts v = Some ms \<Longrightarrow>
   \<exists>m p. vmounts v' = Some (ms @ [m]) \<and> mt_partition m = rp \<and> part_at v' rp = Ok p \<and> name_ok (vp_name p) \<and> cstr (vp_name p) = take 47 (cstr mp)"
proof (induction ts arbitrary: i v)
  case (Cons t ts)
  from Cons.prems(1) obtain d found where d: "device_at v dev = Ok d" "has_major (nat (ft_major_no t)) 0 (ft_majors t) (full_major d) = Ok found"
    by (auto simp: rbind_eq_Ok)
  show ?case
  proof (cases found)
    case False
    with Cons.IH [of "i + 1" v] Cons.prems d show ?thesis by simp
  next
    case True
    with Cons.prems(1) d obtain p f r1 e1 where p: "part_at v rp = Ok p" "op_detect (ft_ops t) = Some f" "f (dv_name d) (vp_lba p) (venv v) = Ok (r1, e1)"
      by (auto simp: rbind_eq_Ok call_op_def split: option.splits)
    show ?thesis
    proof (cases "r1 = 0")
      case True
      with Cons.IH [of "i + 1" "v\<lparr>venv := e1\<rparr>"] Cons.prems d p \<open>found\<close> show ?thesis by simp
    next
      case False
      with Cons.prems(1) d p \<open>found\<close> obtain g r2 e2 where g: "op_register_partition (ft_ops t) = Some g" "g (dv_name d) (vp_lba p) mp e1 = Ok (r2, e2)"
        by (auto simp: rbind_eq_Ok Let_def call_op_def split: option.splits)
      have r2: "r2 \<noteq> - 1" using False Cons.prems(1) d p g \<open>found\<close> by (auto simp: Let_def)
      obtain nm where nm: "print_48 (vp_name p) mp = Ok nm" "name_ok nm" "cstr nm = take 47 (cstr mp)"
        using vfs_ok_part [OF Cons.prems(2) p(1)] print_48_ok(2) [of "vp_name p" mp] by (auto simp: name_ok_def)
      let ?p = "p\<lparr>vp_name := nm\<rparr>" and ?m = "\<lparr>mt_device = dev, mt_partition = rp, mt_fst = i, mt_index = r2\<rparr>"
      have s: "set_part rp ?p (v\<lparr>venv := e2\<rparr>) = Ok (v\<lparr>vroots := renamed v rp ?p, venv := e2\<rparr>)"
        using set_part_Ok [of "v\<lparr>venv := e2\<rparr>" rp p ?p] p(1) by (simp add: part_at_Ok renamed_def)
      with Cons.prems(1,3) d p g nm r2 False \<open>found\<close>
      have "v' = v\<lparr>vroots := renamed v rp ?p, venv := e2, vmounts := Some (ms @ [?m])\<rparr>" by (auto simp: Let_def add_mount_def)
      moreover have "part_at (v\<lparr>vroots := renamed v rp ?p, venv := e2, vmounts := Some (ms @ [?m])\<rparr>) rp = Ok ?p"
        using p(1) by (auto simp: part_at_Ok renamed_def)
      ultimately show ?thesis using nm by (intro exI [of _ ?m] exI [of _ ?p]) simp
    qed
  qed
qed simp

text \<open>In consistent tables a path that begins with the name of some mount belongs to one.\<close>

lemma vfs_ok_name: "vfs_ok v \<Longrightarrow> m \<in> set (mounts_of v) \<Longrightarrow> \<exists>nm. mount_name v m nm"
proof -
  assume "vfs_ok v" "m \<in> set (mounts_of v)"
  from vfs_ok_mount [OF this] obtain p where p: "part_at v (mt_partition m) = Ok p" "name_ok (vp_name p)" by blast
  have "length (cstr (vp_name p)) \<le> length (vp_name p)" by (simp add: cstr_def length_takeWhile_le)
  with p show ?thesis by (auto simp: mount_name_def name_ok_def)
qed

lemma first_mount_belongs:
  assumes "vfs_ok v" and "x \<in> set (mounts_of v)" and "mount_name v x nx" and "take (length nx) path = nx"
  shows "\<exists>m r. belongs v path m r"
proof -
  let ?P = "\<lambda>y. \<exists>ny. mount_name v y ny \<and> take (length ny) path = ny"
  have "\<exists>y \<in> set (mounts_of v). ?P y" using assms(2-4) by blast
  then obtain pre m post where m: "mounts_of v = pre @ m # post" "?P m" "\<forall>y \<in> set pre. \<not> ?P y"
    by (rule split_list_first_propE)
  then obtain nm where nm: "mount_name v m nm" "take (length nm) path = nm" by blast
  have "\<exists>ny. mount_name v y ny \<and> take (length ny) path \<noteq> ny" if "y \<in> set pre" for y
    using vfs_ok_name [OF assms(1), of y] m(1,3) that by auto
  moreover have "vmounts v = Some (pre @ m # post)" using m(1) by (auto simp: mounts_of_def split: option.splits)
  moreover have "path = nm @ drop (length nm) path" using nm(2) by (metis append_take_drop_id)
  ultimately show ?thesis using nm(1) unfolding belongs_def by metis
qed

text \<open>C31: After a partition has been mounted every path that starts with its mount point is found to belong to a mount: to the
  first one in the list whose name is a beginning of the path (\<open>belongs\<close>), whose file system gets the rest. When the name of
  no earlier mount is a beginning of the path that is the new mount; otherwise an earlier mount takes the path (as
  \<open>mount_shadowed\<close> shows). The mount point has at most 47 characters, the path at most 65535.\<close>

theorem mount_fs_found:
  assumes "mount_fs dev rp mp v = Ok (1, v')" and "vfs_ok v" and "dm_dev (vroots v ! fst rp) \<noteq> None" and "length (cstr mp) \<le> 47"
    and "terminated path" and "cstr path = cstr mp @ rest" and "length (cstr path) \<le> 65535" and "length native = length (cstr path) + 1"
  shows "\<exists>m r. get_mount_from_path path native v' = Ok (Some m, r @ 0 # drop (length r + 1) native) \<and> belongs v' (cstr path) m r
    \<and> ((\<forall>x \<in> set (mounts_of v). \<exists>nx. mount_name v' x nx \<and> take (length nx) (cstr path) \<noteq> nx) \<longrightarrow> mt_partition m = rp \<and> r = rest)"
proof -
  let ?v = "v\<lparr>vmounts := Some (mounts_of v)\<rparr>"
  obtain ts where "mount_with ts 0 dev rp mp ?v = Ok (1, v')"
    using assms(1) by (auto simp: mount_fs_def mounts_of_def Let_def split: option.splits)
  from mount_with_found [OF this] assms(2) obtain m p where m: "vmounts v' = Some (mounts_of v @ [m])" "mt_partition m = rp"
    "part_at v' rp = Ok p" "name_ok (vp_name p)" "cstr (vp_name p) = cstr mp"
    using vfs_ok_mounts_init(1) [of v] assms(4) by auto
  have n: "mount_name v' m (cstr mp)" using m(2-5) assms(4) by (auto simp: mount_name_def name_ok_def)
  note found = get_mount_belongs [OF _ assms(5,7,8)]
  show ?thesis
  proof (cases "\<forall>x \<in> set (mounts_of v). \<exists>nx. mount_name v' x nx \<and> take (length nx) (cstr path) \<noteq> nx")
    case True
    with n m(1) assms(6) have "belongs v' (cstr path) m rest" unfolding belongs_def by metis
    with found [OF this] m(2) show ?thesis by blast
  next
    case False
    have "m \<in> set (mounts_of v')" "take (length (cstr mp)) (cstr path) = cstr mp" using m(1) assms(6) by (simp_all add: mounts_of_def)
    with first_mount_belongs [OF _ _ n] mount_fs_ok [OF assms(1-3)] obtain m' r where "belongs v' (cstr path) m' r" by blast
    with found [OF this] False show ?thesis by blast
  qed
qed

text \<open>The comparison does not ask for a separator behind the mount point: when the name of a mount continues that of an
  earlier one, as \<open>hdap10\<close> does \<open>hdap1\<close>, every path of the later mount \<open>m2\<close> is given to the earlier one.\<close>

theorem mount_shadowed:
  assumes "vmounts v = Some (pre @ m1 # mid @ m2 # post)" and "mount_name v m1 nm" and "mount_name v m2 (nm @ s)"
    and "\<forall>x \<in> set pre. \<exists>nx. mount_name v x nx \<and> take (length nx) (cstr path) \<noteq> nx"
    and "terminated path" and "cstr path = (nm @ s) @ rest" and "length (cstr path) \<le> 65535" and "length native = length (cstr path) + 1"
  shows "get_mount_from_path path native v = Ok (Some m1, (s @ rest) @ 0 # drop (length (s @ rest) + 1) native)"
proof (rule get_mount_belongs)
  show "belongs v (cstr path) m1 (s @ rest)"
    unfolding belongs_def using assms(1,2,4,6) by (intro exI [of _ pre] exI [of _ "mid @ m2 # post"] exI [of _ nm]) simp
qed (rule assms(5,7,8))+

section \<open>Probing again\<close>

definition all_known :: "'x vfs \<Rightarrow> nat \<Rightarrow> bool" where
  "all_known v n \<longleftrightarrow> n \<le> length (vroots v) \<and> (\<forall>i < n. dm_dev (vroots v ! i) = Some i)"

definition valid_chain :: "'x vfs \<Rightarrow> nat \<Rightarrow> bool" where
  "valid_chain v n \<longleftrightarrow> (\<exists>ds b. chain (dtab (edisk (venv v))) = ds @ [b] \<and> length ds = n \<and> (\<forall>d \<in> set ds. dv_valid d \<noteq> 0) \<and> dv_valid b = 0)"

lemma count_valid: "\<forall>d \<in> set ds. dv_valid d \<noteq> 0 \<Longrightarrow> dv_valid b = 0 \<Longrightarrow>
    count_devices (\<lambda>_. True) (ds @ [b]) c = Ok (c + of_nat (length ds))"
  by (induction ds arbitrary: c) (auto simp: algebra_simps)

lemma next_valid: "valid_chain v n \<Longrightarrow> i < n \<Longrightarrow>
    get_next_device (dtab (edisk (venv v))) i = Ok (if i + 1 < n then Some (i + 1) else None)"
  by (auto simp: valid_chain_def get_next_device_def nth_append)

lemma skip_all: "all_known v n \<Longrightarrow> valid_chain v n \<Longrightarrow> i + k = n \<Longrightarrow> 0 < k \<Longrightarrow> skip_known k i (Some i) v = Ok None"
proof (induction k arbitrary: i)
  case (Suc k)
  then have "rd (vroots v) i = Ok (vroots v ! i)" "dm_dev (vroots v ! i) = Some i" by (simp_all add: all_known_def)
  with Suc next_valid [OF Suc.prems(2), of i] show ?case by (cases k) auto
qed simp

lemma free_entry_Err: "free_entry ms i = Err x \<Longrightarrow> x = Fault"
  by (induction ms arbitrary: i) (auto split: if_splits)

text \<open>Once every device has its entry, a further probe skips them all, the null device at the end included, and
  follows the null pointer.\<close>

theorem probe_again_faults:
  assumes "valid_chain v n" and "all_known v n" and "0 < n" and "n < 65536"
  shows "probe_fs v = Err Fault"
proof -
  from assms(1) obtain ds b where c: "chain (dtab (edisk (venv v))) = ds @ [b]" "length ds = n" "\<forall>d \<in> set ds. dv_valid d \<noteq> 0" "dv_valid b = 0"
    by (auto simp: valid_chain_def)
  let ?v = "v\<lparr>vroot_size := of_nat n\<rparr>"
  have cnt: "get_device_count (dtab (edisk (venv v))) = Ok (of_nat n)" using count_valid [OF c(3,4), of 0] c(1,2) by (simp add: get_device_count_def)
  obtain d ds' where ds: "ds = d # ds'" using c(2) assms(3) by (cases ds) auto
  have hd: "get_device_head (dtab (edisk (venv v))) = Ok (Some 0)" using c(1,3) ds by (simp add: get_device_head_def)
  have u: "(ucast (of_nat n :: u32) :: u16) = of_nat n"
    by (rule unsigned_word_eqI [where 'a = nat]) (simp add: unsigned_ucast_eq unsigned_of_nat)
  have n: "unat (of_nat n :: u16) = n" using assms(4) by (simp add: unsigned_of_nat take_bit_nat_eq_self)
  have "skip_known n 0 (Some 0) ?v = Ok None"
    by (rule skip_all) (use assms in \<open>simp_all add: all_known_def valid_chain_def\<close>)
  hence "detect_from (length (ds @ [b])) (Some 0) 0 ?v = Err Fault"
    using n free_entry_Err by (auto simp: rbind_def split: result.splits)
  moreover have "detect_devices v = detect_from (length (ds @ [b])) (Some 0) 0 ?v"
    unfolding detect_devices_def Let_def cnt hd rbind_Ok u c(1) ..
  ultimately show ?thesis by (simp add: probe_fs_def)
qed

section \<open>Removing an open file\<close>

text \<open>Descriptor 0 counts as closed: the test is for a number above 0.\<close>

theorem remove_ignores_descriptor_0:
  assumes "fd_loaded (files t 0) = 1" and "strcmp (fd_name (files t 0)) path = Ok 0"
  shows "is_safe_for_removing path 0 t = Ok (1, t)"
proof -
  have "find_fd (files t) path 0 65536 = find_fd (files t) path 0 (Suc 65535)" by simp
  also have "\<dots> = Ok (Some 0)" unfolding find_fd.simps using assms by simp
  finally show ?thesis by (simp add: is_safe_for_removing_def is_open_def)
qed

section \<open>A small system\<close>

text \<open>One device that is not a disk, and a file system that takes every partition.\<close>

definition toy_ops :: "unit fs_ops" where
  "toy_ops = no_ops\<lparr>op_detect := Some (\<lambda>d l e. Ok (1, e)), op_register_partition := Some (\<lambda>d l m e. Ok (7, e))\<rparr>"

definition toy_type :: "unit fstype" where
  "toy_type = \<lparr>ft_name = 84 # 0 # replicate 30 0, ft_majors = 14 # replicate 255 0, ft_major_no = 1, ft_ops = toy_ops\<rparr>"

definition toy_env :: "unit fsenv" where
  "toy_env = \<lparr>etab = empty_fdtab, edisk = dsys_example\<lparr>dtab := (dtab dsys_example)\<lparr>chain :=
     [blank_device\<lparr>dv_valid := 1, dv_major := 14, dv_name := 116 # 0 # replicate 30 0\<rparr>, blank_device]\<rparr>\<rparr>, efs = (), ejunk = (\<lambda>_. 0)\<rparr>"

definition toy_vfs :: "unit vfs" where
  "toy_vfs = (empty_vfs toy_env)\<lparr>vtypes := Some [toy_type]\<rparr>"

text \<open>The mount point of its only partition: \<open>tp0\<close>.\<close>

definition toy_name :: "u8 list" where "toy_name = [116, 112, 48, 0] @ replicate 44 0"

definition toy_mounted :: "unit vfs" where
  "toy_mounted = toy_vfs\<lparr>vroot_size := 1, vroots := \<lparr>dm_dev = Some 0, dm_parts = Some [(new_part 0 0 0 0)\<lparr>vp_name := toy_name\<rparr>], dm_no = 1\<rparr>
     # replicate 511 blank_devmap, vmounts := Some [\<lparr>mt_device = 0, mt_partition = (0, 0), mt_fst = 0, mt_index = 7\<rparr>]\<rparr>"

lemma toy_registers: "register_filesystem toy_type (empty_vfs toy_env) = Ok toy_vfs"
proof -
  have "strlen (84 # 0 # replicate 30 (0 :: u8)) = Ok 1"
    by (subst strlen_exact) (simp_all add: cstr_simps terminated_simps terminated_zeros)
  moreover have "strncpy (replicate 32 (0 :: u8)) (84 # 0 # replicate 30 0) 1 = Ok (84 # 0 # replicate 30 0)"
    by (subst strncpy_take) (simp_all add: cstr_simps terminated_simps terminated_zeros)
  moreover have "replicate 256 (0 :: u8) = 0 # replicate 255 0" by (simp add: numeral_eq_Suc)
  ultimately show ?thesis
    by (simp add: register_filesystem_def toy_type_def empty_vfs_def toy_vfs_def Let_def)
qed

lemma roots_512: "replicate 512 blank_devmap = blank_devmap # replicate 511 blank_devmap"
  by (simp add: numeral_eq_Suc)

lemma toy_mp: "mountpoint_for (116 # 0 # replicate 30 0) 0 = Ok toy_name"
proof -
  have "cstr (116 # 0 # replicate 30 0) = [116 :: u8]" by (simp add: cstr_simps)
  moreover have "dec_str 0 = [48]" by (simp add: dec_str.simps)
  ultimately have "mountpoint_for (116 # 0 # replicate 30 0) 0 = print_48 (replicate 48 0) ([116, 112, 48] @ [0])" by (simp add: mountpoint_for_def)
  also have "\<dots> = Ok toy_name" using print_48_ok(1) [of "replicate 48 0" "[116, 112, 48] @ [0]"] by (simp add: toy_name_def cstr_simps)
  finally show ?thesis .
qed

definition toy_detected :: "unit vfs" where
  "toy_detected = toy_vfs\<lparr>vroot_size := 1, vroots := \<lparr>dm_dev = Some 0, dm_parts = Some [new_part 0 0 0 0], dm_no = 1\<rparr> # replicate 511 blank_devmap\<rparr>"

lemma toy_chain: "chain (dtab (edisk toy_env)) = [blank_device\<lparr>dv_valid := 1, dv_major := 14, dv_name := 116 # 0 # replicate 30 0\<rparr>, blank_device]"
  by (simp add: toy_env_def)

lemma toy_detects: "detect_devices toy_vfs = Ok toy_detected"
proof -
  have u: "(unat (1 :: u16)) = Suc 0" by simp
  have "venv toy_vfs = toy_env" "vroots toy_vfs = blank_devmap # replicate 511 blank_devmap"
    using roots_512 by (simp_all add: toy_vfs_def empty_vfs_def)
  thus ?thesis
    by (simp add: detect_devices_def get_device_count_def get_device_head_def get_next_device_def toy_chain blank_device_def u Let_def
        device_at_def detect_partitions_def full_major_def add_partition_def init_partition_header_def toy_detected_def
        blank_devmap_def)
qed

lemma toy_probes: "probe_fs toy_vfs = Ok toy_mounted"
proof -
  have e: "venv toy_detected = toy_env" "vroot_size toy_detected = 1" "vtypes toy_detected = Some [toy_type]" "vmounts toy_detected = None"
    "vroots toy_detected = \<lparr>dm_dev = Some 0, dm_parts = Some [new_part 0 0 0 0], dm_no = 1\<rparr> # replicate 511 blank_devmap"
    by (simp_all add: toy_detected_def toy_vfs_def empty_vfs_def)
  have p: "print_48 (replicate 48 0) toy_name = Ok toy_name"
    using print_48_ok(1) [of "replicate 48 0" toy_name] by (simp add: toy_name_def cstr_simps)
  have "detect_partition_fs toy_detected = Ok toy_mounted"
    using e p toy_mp
    by (simp add: detect_partition_fs_def parts_of_def part_at_def new_part_def device_at_def toy_chain mount_fs_def Let_def toy_type_def
        toy_ops_def full_major_def set_part_def add_mount_def toy_mounted_def toy_detected_def no_ops_def blank_device_def)
  with toy_detects show ?thesis by (simp add: probe_fs_def)
qed

theorem mounts_well_typed_witness: "\<exists>p t. part_at toy_mounted (0, 0) = Ok p \<and> name_ok (vp_name p) \<and> rd (types_of toy_mounted) 0 = Ok t"
proof -
  have "vfs_step\<^sup>*\<^sup>* (empty_vfs toy_env) toy_mounted"
    using registered [OF toy_registers] probed [OF toy_probes] by (meson converse_rtranclp_into_rtranclp r_into_rtranclp)
  from mounts_well_typed [OF this, of "\<lparr>mt_device = 0, mt_partition = (0, 0), mt_fst = 0, mt_index = 7\<rparr>"]
  show ?thesis by (simp add: toy_mounted_def mounts_of_def)
qed

theorem probe_again_faults_witness: "probe_fs toy_mounted = Err Fault"
  by (rule probe_again_faults [of _ 1])
    (simp_all add: valid_chain_def all_known_def toy_mounted_def toy_vfs_def empty_vfs_def toy_chain blank_device_def)

lemma toy_mount_name: "mount_name toy_mounted \<lparr>mt_device = 0, mt_partition = (0, 0), mt_fst = 0, mt_index = 7\<rparr> [116, 112, 48]"
  by (simp add: mount_name_def part_at_Ok toy_mounted_def toy_name_def terminated_simps terminated_zeros cstr_simps)

lemma toy_mounts: "mount_fs 0 (0, 0) toy_name toy_detected = Ok (1, toy_mounted)"
proof -
  have "venv toy_detected = toy_env" "vtypes toy_detected = Some [toy_type]" "vmounts toy_detected = None"
    "vroots toy_detected = \<lparr>dm_dev = Some 0, dm_parts = Some [new_part 0 0 0 0], dm_no = 1\<rparr> # replicate 511 blank_devmap"
    by (simp_all add: toy_detected_def toy_vfs_def empty_vfs_def)
  moreover have "print_48 (replicate 48 0) toy_name = Ok toy_name"
    using print_48_ok(1) [of "replicate 48 0" toy_name] by (simp add: toy_name_def cstr_simps)
  ultimately show ?thesis
    by (simp add: mount_fs_def Let_def part_at_def parts_of_def new_part_def device_at_def toy_chain toy_type_def toy_ops_def no_ops_def
        full_major_def set_part_def add_mount_def toy_mounted_def toy_detected_def blank_device_def)
qed

theorem mount_fs_found_witness:
  "\<exists>m. get_mount_from_path [116, 112, 48, 47, 97, 0] [7, 7, 7, 7, 7, 7] toy_mounted = Ok (Some m, [47, 97, 0, 7, 7, 7]) \<and> mt_partition m = (0, 0)"
proof -
  have "vfs_ok toy_detected"
    by (simp add: vfs_ok_def toy_detected_def toy_vfs_def empty_vfs_def root_ok_def blank_devmap_def new_part_def name_ok_def
        terminated_zeros mounts_of_def list_all_iff)
  moreover have "dm_dev (vroots toy_detected ! fst (0 :: nat, 0 :: nat)) \<noteq> None"
    by (simp add: toy_detected_def toy_vfs_def empty_vfs_def)
  ultimately show ?thesis using mount_fs_found [OF toy_mounts, of "[116, 112, 48, 47, 97, 0]" "[47, 97]" "[7, 7, 7, 7, 7, 7]"]
    by (auto simp: terminated_def toy_name_def cstr_simps mounts_of_def toy_detected_def toy_vfs_def empty_vfs_def)
qed

text \<open>Two partitions named \<open>d\<close> and \<open>d0\<close>.\<close>

definition two_mounts :: "unit vfs" where
  "two_mounts = (empty_vfs toy_env)\<lparr>vroots := [\<lparr>dm_dev = Some 0, dm_parts = Some [(new_part 0 0 0 0)\<lparr>vp_name := 100 # 0 # replicate 46 0\<rparr>,
       (new_part 0 0 0 0)\<lparr>vp_name := 100 # 48 # 0 # replicate 45 0\<rparr>], dm_no = 2\<rparr>],
     vmounts := Some [\<lparr>mt_device = 0, mt_partition = (0, 0), mt_fst = 0, mt_index = 0\<rparr>, \<lparr>mt_device = 0, mt_partition = (0, 1), mt_fst = 0, mt_index = 1\<rparr>]\<rparr>"

theorem mount_shadowed_witness:
  "get_mount_from_path [100, 48, 47, 97, 0] [7, 7, 7, 7, 7] two_mounts
    = Ok (Some \<lparr>mt_device = 0, mt_partition = (0, 0), mt_fst = 0, mt_index = 0\<rparr>, [48, 47, 97, 0, 7])"
proof -
  have "vmounts two_mounts = Some ([] @ \<lparr>mt_device = 0, mt_partition = (0, 0), mt_fst = 0, mt_index = 0\<rparr> # []
      @ \<lparr>mt_device = 0, mt_partition = (0, 1), mt_fst = 0, mt_index = 1\<rparr> # [])" by (simp add: two_mounts_def)
  moreover have "mount_name two_mounts \<lparr>mt_device = 0, mt_partition = (0, 0), mt_fst = 0, mt_index = 0\<rparr> [100]"
    "mount_name two_mounts \<lparr>mt_device = 0, mt_partition = (0, 1), mt_fst = 0, mt_index = 1\<rparr> ([100] @ [48])"
    by (simp_all add: mount_name_def part_at_Ok two_mounts_def empty_vfs_def terminated_simps cstr_simps)
  ultimately show ?thesis using mount_shadowed [of two_mounts "[]" _ "[]" _ "[]" "[100]" "[48]" "[100, 48, 47, 97, 0]" "[47, 97]" "[7, 7, 7, 7, 7]"]
    by (simp add: terminated_def cstr_simps)
qed

theorem remove_ignores_descriptor_0_witness:
  "is_safe_for_removing [97, 0] 0 (set_file 0 (blank_fd\<lparr>fd_name := [97, 0], fd_loaded := 1\<rparr>) empty_fdtab)
    = Ok (1, set_file 0 (blank_fd\<lparr>fd_name := [97, 0], fd_loaded := 1\<rparr>) empty_fdtab)"
  by (rule remove_ignores_descriptor_0) simp_all

end
