(* ===== verification/FsInterface.thy ===== *)
theory FsInterface
  imports VfsInterface
begin

text \<open>What the virtual file system relies on in the file systems it calls through \<open>struct vfs_compatible\<close>, as
  interfaces: a file system whose files can be opened and read, and one that refuses every path but \<open>/\<close>. The
  consequences for programs are proved once, from the laws alone; the adapters provide the instances.\<close>

lemma belongs_env [simp]: "belongs (v\<lparr>venv := e\<rparr>) path m rest = belongs v path m rest"
  by (simp add: belongs_def mount_name_def part_at_def parts_of_def)

lemma type_of_env [simp]: "type_of m (v\<lparr>venv := e\<rparr>) = type_of m v"
  by (simp add: type_of_def)

lemma mount_name_length: "belongs v path m rest \<Longrightarrow> \<exists>nm. path = nm @ rest \<and> length nm \<le> 65535"
  by (auto simp: belongs_def mount_name_def)

section \<open>Reading files\<close>

text \<open>An entry in use at offset 0, for the path \<open>rest\<close> of the mount named \<open>nm\<close>.\<close>

definition opened :: "fdentry \<Rightarrow> u8 list \<Rightarrow> u8 list \<Rightarrow> bool" where
  "opened en nm rest \<longleftrightarrow> fd_ok en \<and> fd_loaded en = 1 \<and> fd_offset en = 0 \<and> cstr (fd_name en) = rest \<and> cstr (fd_mount en) = nm"

definition with_entry :: "nat \<Rightarrow> fdentry \<Rightarrow> fdtab \<Rightarrow> fdtab" where
  "with_entry i en t = (set_file i en t)\<lparr>next_fd := i + 1\<rparr>"

lemma with_entry_at [simp]: "files (with_entry i en t) i = en"
  by (simp add: with_entry_def set_file_def)

text \<open>\<open>ready e i nm\<close>: the mount with the index \<open>i\<close> is in order and its name is \<open>nm\<close>; \<open>holds e i rest c\<close>: the path
  \<open>rest\<close> of that mount is a file with the contents \<open>c\<close>. Both are independent of the descriptors. \<open>status\<close> is what
  a read that succeeds returns.\<close>

locale readable_fs =
  fixes ops :: "'x fs_ops" and ready :: "'x fsenv \<Rightarrow> int \<Rightarrow> u8 list \<Rightarrow> bool"
    and holds :: "'x fsenv \<Rightarrow> int \<Rightarrow> u8 list \<Rightarrow> u8 list \<Rightarrow> bool" and status :: "u64 \<Rightarrow> u64"
  assumes ready_tab: "ready e i nm \<Longrightarrow> ready (e\<lparr>etab := t\<rparr>) i nm"
    and holds_tab: "holds e i rest c \<Longrightarrow> holds (e\<lparr>etab := t\<rparr>) i rest c"
    and holds_path: "holds e i rest c \<Longrightarrow> 0 \<notin> set rest"
    and ready_name: "ready e i nm \<Longrightarrow> length nm < 256"
    and open_takes: "ready e i nm \<Longrightarrow> 0 \<notin> set rest \<Longrightarrow> length rest < 256 \<Longrightarrow> tab_ok (etab e) \<Longrightarrow> next_fd (etab e) < 65536 \<Longrightarrow>
      j < 65536 \<Longrightarrow> fd_loaded (files (etab e) j) = 0 \<Longrightarrow>
      \<exists>f k en. op_file_open ops = Some f \<and> f i (rest @ 0 # x) flags mode e = Ok (int k, e\<lparr>etab := with_entry k en (etab e)\<rparr>)
        \<and> k < 65536 \<and> opened en nm rest"
    and read_gives: "ready e i nm \<Longrightarrow> holds e i rest c \<Longrightarrow> k < 65536 \<Longrightarrow> opened (files (etab e) k) nm rest \<Longrightarrow>
      0 < unat n \<Longrightarrow> unat n \<le> length c \<Longrightarrow> unat n \<le> length buf \<Longrightarrow>
      \<exists>f. op_file_read ops = Some f \<and> f i (int k) buf n e = Ok ((status n, take (unat n) c @ drop (unat n) buf), e)"
begin

lemma opens:
  assumes "terminated path" and "normalized (cstr path) = nm @ rest" and "belongs v (nm @ rest) m rest" and "type_of m v = Ok ops"
    and "ready (venv v) (mt_index m) nm" and "length rest < 256"
    and "tab_ok (etab (venv v))" and "next_fd (etab (venv v)) < 65536" and "j < 65536" and "fd_loaded (files (etab (venv v)) j) = 0"
  shows "\<exists>q k en. vfs_file_open path flags mode v = Ok (int k, q, v\<lparr>venv := (venv v)\<lparr>etab := with_entry k en (etab (venv v))\<rparr>\<rparr>)
    \<and> cstr q = nm @ rest \<and> k < 65536 \<and> opened en nm rest"
proof -
  have z: "0 \<notin> set rest" using zero_not_normalized [of "cstr path"] assms(2) by simp
  obtain f where f: "op_file_open ops = Some f"
    using open_takes [OF assms(5) z assms(6-10)] by blast
  have len: "length (normalized (cstr path)) \<le> 65535" using ready_name [OF assms(5)] assms(2,6) by simp
  obtain q x where q: "cstr q = nm @ rest" "vfs_file_open path flags mode v
      = rbind (f (mt_index m) (rest @ 0 # x) flags mode (venv v)) (\<lambda>(r, e). Ok (r, q, v\<lparr>venv := e\<rparr>))"
    using file_open_dispatches [OF assms(1) _ len assms(4) f, of rest flags mode] assms(2,3) by auto
  obtain k en where k: "f (mt_index m) (rest @ 0 # x) flags mode (venv v) = Ok (int k, (venv v)\<lparr>etab := with_entry k en (etab (venv v))\<rparr>)"
    "k < 65536" "opened en nm rest"
    using open_takes [OF assms(5) z assms(6-10), of x flags mode] f by auto
  with q show ?thesis by (intro exI [where x = q] exI [where x = k] exI [where x = en]) simp
qed

lemma reads:
  assumes "k < 65536" and "opened (files (etab (venv v)) k) nm rest" and "belongs v (nm @ rest) m rest'" and "type_of m v = Ok ops"
    and "ready (venv v) (mt_index m) nm" and "holds (venv v) (mt_index m) rest c"
    and "0 < unat n" and "unat n \<le> length c" and "unat n \<le> length buf"
  shows "vfs_file_read (int k) buf n v = Ok ((through_int (status n), take (unat n) c @ drop (unat n) buf), v)"
proof -
  obtain f where f: "op_file_read ops = Some f"
    "f (mt_index m) (int k) buf n (venv v) = Ok ((status n, take (unat n) c @ drop (unat n) buf), venv v)"
    using read_gives [OF assms(5,6,1,2,7-9)] by blast
  show ?thesis
    using at_fd_belongs [of "files (etab (venv v)) k" v k m rest' ops "(- 1 :: u64, buf)" "(- 1, buf)"] assms(1-4) f
    by (simp add: vfs_file_read_def opened_def)
qed

text \<open>Opening a path and reading from the descriptor.\<close>

lemma open_then_read:
  assumes "terminated path" and "normalized (cstr path) = nm @ rest" and "belongs v (nm @ rest) m rest" and "type_of m v = Ok ops"
    and "ready (venv v) (mt_index m) nm" and "length rest < 256"
    and "tab_ok (etab (venv v))" and "next_fd (etab (venv v)) < 65536" and "j < 65536" and "fd_loaded (files (etab (venv v)) j) = 0"
    and "holds (venv v) (mt_index m) rest c" and "0 < unat n" and "unat n \<le> length c" and "unat n \<le> length buf"
  shows "\<exists>fd q v1. vfs_file_open path flags mode v = Ok (fd, q, v1) \<and> 0 \<le> fd
    \<and> vfs_file_read fd buf n v1 = Ok ((through_int (status n), take (unat n) c @ drop (unat n) buf), v1)"
proof -
  obtain q k en where o: "vfs_file_open path flags mode v = Ok (int k, q, v\<lparr>venv := (venv v)\<lparr>etab := with_entry k en (etab (venv v))\<rparr>\<rparr>)"
    "k < 65536" "opened en nm rest"
    using opens [OF assms(1-10), of flags mode] by blast
  let ?v = "v\<lparr>venv := (venv v)\<lparr>etab := with_entry k en (etab (venv v))\<rparr>\<rparr>"
  have "vfs_file_read (int k) buf n ?v = Ok ((through_int (status n), take (unat n) c @ drop (unat n) buf), ?v)"
    by (rule reads [where nm = nm and rest = rest and m = m and rest' = rest])
      (use o assms(3-5,11-) in \<open>auto intro: ready_tab holds_tab\<close>)
  with o(1) show ?thesis by (intro exI [where x = "int k"] exI [where x = q] exI [where x = ?v]) simp
qed

end

section \<open>Reading files as a whole\<close>

text \<open>What a file system adds whose files can be measured by seeking and closed again.\<close>

definition moved :: "nat \<Rightarrow> u64 \<Rightarrow> fdtab \<Rightarrow> fdtab" where
  "moved k off t = set_file k ((files t k)\<lparr>fd_offset := off\<rparr>) t"

locale seekable_fs = readable_fs ops ready holds status
  for ops :: "'x fs_ops" and ready and holds and status +
  assumes holds_size: "holds e i rest c \<Longrightarrow> length c < 2 ^ 64"
    and seek_set: "ready e i nm \<Longrightarrow> k < 65536 \<Longrightarrow>
      \<exists>f. op_file_seek ops = Some f \<and> f i (int k) off 0 e = Ok (off, e\<lparr>etab := moved k off (etab e)\<rparr>)"
    and seek_end: "ready e i nm \<Longrightarrow> holds e i rest c \<Longrightarrow> k < 65536 \<Longrightarrow> opened (files (etab e) k) nm rest \<Longrightarrow>
      \<exists>f. op_file_seek ops = Some f \<and> f i (int k) off 2 e = Ok (of_nat (length c) + off, e\<lparr>etab := moved k (of_nat (length c) + off) (etab e)\<rparr>)"
    and tell_offset: "ready e i nm \<Longrightarrow> k < 65536 \<Longrightarrow>
      \<exists>f. op_file_tell ops = Some f \<and> f i (int k) e = Ok (fd_offset (files (etab e) k), e)"
    and close_frees: "ready e i nm \<Longrightarrow> k < 65536 \<Longrightarrow>
      \<exists>f. op_file_close ops = Some f \<and> f i (int k) e = Ok (0, e\<lparr>etab := close_file k (etab e)\<rparr>)"

lemma moved_simps [simp]: "files (moved k off t) k = (files t k)\<lparr>fd_offset := off\<rparr>" "moved k a (moved k b t) = moved k a t"
  by (simp_all add: moved_def set_file_def)

lemma moved_back: "fd_offset (files t k) = a \<Longrightarrow> moved k a t = t"
  by (cases t; cases "files t k") (auto simp: moved_def set_file_def)

section \<open>Devices\<close>

text \<open>A file system that opens no path but \<open>/\<close>, with the precondition \<open>fit\<close>.\<close>

locale root_only_fs =
  fixes ops :: "'x fs_ops" and fit :: "'x fsenv \<Rightarrow> bool"
  assumes refuses: "fit e \<Longrightarrow> rest \<noteq> [47] \<Longrightarrow> 0 \<notin> set rest \<Longrightarrow> length rest \<le> 65535 \<Longrightarrow>
    \<exists>f. op_file_open ops = Some f \<and> f i (rest @ 0 # x) flags mode e = Ok (- 1, e)"
begin

lemma never_opens:
  assumes "terminated path" and "length (cstr path) \<le> 65535" and "belongs v (normalized (cstr path)) m rest"
    and "type_of m v = Ok ops" and "fit (venv v)"
  shows "\<exists>q. vfs_file_open path flags mode v = Ok (- 1, q, v) \<and> cstr q = normalized (cstr path)"
proof -
  obtain nm where nm: "normalized (cstr path) = nm @ rest" using mount_name_length [OF assms(3)] by blast
  have "0 \<notin> set (normalized (cstr path))" by (rule zero_not_normalized) simp
  hence z: "0 \<notin> set rest" using nm by simp
  have r: "rest \<noteq> [47]" using nm normalized_last [of "cstr path"] by auto
  have len: "length (normalized (cstr path)) \<le> 65535" using normalized_length [of "cstr path"] assms(2) by simp
  hence l: "length rest \<le> 65535" using nm by simp
  from refuses [OF assms(5) r z l] obtain f where f: "op_file_open ops = Some f" by blast
  have c: "f (mt_index m) (rest @ 0 # x) flags mode (venv v) = Ok (- 1, venv v)" for x
    using refuses [OF assms(5) r z l, of "mt_index m" x flags mode] f by simp
  from file_open_dispatches [OF assms(1,3) len assms(4) f, of flags mode] c show ?thesis by auto
qed

end

end
