(* ===== verification/GenericExt2.thy ===== *)
theory GenericExt2
  imports FsInterface Ext2Dir
begin

text \<open>The adapter that makes EXT2 a file system of the virtual file system (\<open>vfs/generic/ext2/generic_ext2.h\<close>), and
  what programs see of an EXT2 partition through the whole stack.\<close>

section \<open>State\<close>

text \<open>The partitions the driver knows, in the order they were registered, and the table of 32 pointers to them.\<close>

record ext2fs =
  x2_parts :: "partition list"
  x2_slots :: "nat option list"
  x2_unique :: u32
  x2_epoch :: u32

abbreviation "MAX_EXT2_PARTITIONS \<equiv> (32 :: nat)"
abbreviation "EXT2_FILE_TYPE_REGULAR \<equiv> (1 :: u32)"

definition esys_of :: "ext2fs fsenv \<Rightarrow> esys" where
  "esys_of e = \<lparr>xdev = edisk e, xparts = x2_parts (efs e), xjunk = ejunk e, xunique = x2_unique (efs e), xepoch = x2_epoch (efs e)\<rparr>"

definition with_esys :: "esys \<Rightarrow> ext2fs fsenv \<Rightarrow> ext2fs fsenv" where
  "with_esys x e = e\<lparr>edisk := xdev x, efs := (efs e)\<lparr>x2_parts := xparts x, x2_unique := xunique x\<rparr>\<rparr>"

definition on_esys :: "(esys \<Rightarrow> ('a \<times> esys) result) \<Rightarrow> ('a, ext2fs) io" where
  "on_esys f e = rbind (f (esys_of e)) (\<lambda>(r, x). Ok (r, with_esys x e))"

text \<open>An operation on the partition a slot points to; a slot number out of range or a null pointer gives \<open>dflt\<close>.\<close>

definition on_slot :: "int \<Rightarrow> 'a \<Rightarrow> (nat \<Rightarrow> ('a, ext2fs) io) \<Rightarrow> ('a, ext2fs) io" where
  "on_slot partno dflt f e = (if partno < 0 \<or> int MAX_EXT2_PARTITIONS \<le> partno then Ok (dflt, e)
     else rbind (rd (x2_slots (efs e)) (nat partno)) (\<lambda>s. case s of None \<Rightarrow> Ok (dflt, e) | Some p \<Rightarrow> f p e))"

definition part_name :: "nat \<Rightarrow> ext2fs fsenv \<Rightarrow> u8 list result" where
  "part_name p e = rbind (rd (x2_parts (efs e)) p) (\<lambda>p. Ok (pt_name p))"

definition on_tab :: "(fdtab \<Rightarrow> ('a \<times> fdtab) result) \<Rightarrow> ('a, ext2fs) io" where
  "on_tab f e = rbind (f (etab e)) (\<lambda>(r, t). Ok (r, e\<lparr>etab := t\<rparr>))"

section \<open>Partitions\<close>

fun free_slot :: "nat option list \<Rightarrow> nat \<Rightarrow> nat option" where
  "free_slot [] i = None"
| "free_slot (s # ss) i = (if s = None then Some i else free_slot ss (i + 1))"

definition ext2_compat_register_partition :: "u8 list \<Rightarrow> u32 \<Rightarrow> u8 list \<Rightarrow> (int, ext2fs) io" where
  "ext2_compat_register_partition drive lba mountpoint e = (case free_slot (x2_slots (efs e)) 0 of None \<Rightarrow> Ok (- 1, e)
     | Some i \<Rightarrow> rbind (on_esys (ext2_partition_register_partition drive lba mountpoint) e) (\<lambda>(r, e). case r of None \<Rightarrow> Ok (- 1, e)
       | Some _ \<Rightarrow> Ok (int i, e\<lparr>efs := (efs e)\<lparr>x2_slots := (x2_slots (efs e))[i := Some (length (x2_parts (efs e)) - 1)]\<rparr>\<rparr>)))"

text \<open>The index is not checked.\<close>

definition ext2_compat_unregister_partition :: "int \<Rightarrow> (u8, ext2fs) io" where
  "ext2_compat_unregister_partition index e = (if index < 0 then Err Fault else
     rbind (rd (x2_slots (efs e)) (nat index)) (\<lambda>s. case s of None \<Rightarrow> Ok (1, e)
       | Some p \<Rightarrow> rbind (on_esys (ext2_partition_unregister_partition p) e) (\<lambda>(_, e).
           Ok (0, e\<lparr>efs := (efs e)\<lparr>x2_slots := (x2_slots (efs e))[nat index := None]\<rparr>\<rparr>))))"

definition ext2_compat_detect :: "u8 list \<Rightarrow> u32 \<Rightarrow> (u8, ext2fs) io" where
  "ext2_compat_detect disk lba = on_esys (ext2_partition_search disk lba)"

text \<open>A null pointer is passed on to \<open>ext2_sync\<close>.\<close>

definition ext2_compat_flush :: "int \<Rightarrow> (int, ext2fs) io" where
  "ext2_compat_flush index e = (if index < 0 \<or> int MAX_EXT2_PARTITIONS \<le> index then Ok (- 1, e)
     else rbind (rd (x2_slots (efs e)) (nat index)) (\<lambda>s. case s of None \<Rightarrow> Err Fault
       | Some p \<Rightarrow> rbind (on_esys (on_part p ext2_sync) e) (\<lambda>(r, e). Ok (uint r, e))))"

section \<open>Files\<close>

definition ext2_compat_file_open :: "int \<Rightarrow> u8 list \<Rightarrow> u32 \<Rightarrow> u32 \<Rightarrow> (int, ext2fs) io" where
  "ext2_compat_file_open partno path flags mode = on_slot partno (- 1) (\<lambda>p e.
     rbind (part_name p e) (\<lambda>name. on_tab (get_fd path name flags mode) e))"

definition ext2_compat_dir_open :: "int \<Rightarrow> u8 list \<Rightarrow> (int, ext2fs) io" where
  "ext2_compat_dir_open partno path = on_slot partno (- 1) (\<lambda>p e.
     rbind (part_name p e) (\<lambda>name. on_tab (get_dirfd path name 0 0) e))"

definition ext2_compat_file_close :: "int \<Rightarrow> int \<Rightarrow> (int, ext2fs) io" where
  "ext2_compat_file_close partno fd = on_slot partno (- 1) (\<lambda>p. on_tab (release_fd fd))"

definition ext2_compat_dir_close :: "int \<Rightarrow> int \<Rightarrow> (int, ext2fs) io" where
  "ext2_compat_dir_close partno fd = on_slot partno (- 1) (\<lambda>p. on_tab (release_dirfd fd))"

definition ext2_compat_file_creat :: "int \<Rightarrow> u8 list \<Rightarrow> u32 \<Rightarrow> (int, ext2fs) io" where
  "ext2_compat_file_creat partno path mode = on_slot partno (- 1) (\<lambda>p e.
     rbind (on_esys (on_part p (ext2_create_file path EXT2_FILE_TYPE_REGULAR mode)) e) (\<lambda>(r, e). if r \<noteq> EXT2_RESULT_OK then Ok (- 1, e) else
     rbind (part_name p e) (\<lambda>name. on_tab (get_fd path name 0 mode) e)))"

definition ext2_compat_dir_creat :: "int \<Rightarrow> u8 list \<Rightarrow> u32 \<Rightarrow> (int, ext2fs) io" where
  "ext2_compat_dir_creat partno path mode = on_slot partno (- 1) (\<lambda>p e.
     rbind (on_esys (on_part p (ext2_create_file path EXT2_FILE_TYPE_DIRECTORY mode)) e) (\<lambda>(r, e). if r \<noteq> EXT2_RESULT_OK then Ok (- 1, e) else
     rbind (part_name p e) (\<lambda>name. on_tab (get_dirfd path name 0 mode) e)))"

text \<open>The result is the status of \<open>ext2_read_file\<close>, 1 for success, and not a number of bytes; a closed descriptor
  gives the same 1.\<close>

definition ext2_compat_file_read :: "int \<Rightarrow> int \<Rightarrow> u8 list \<Rightarrow> u64 \<Rightarrow> (u64 \<times> u8 list, ext2fs) io" where
  "ext2_compat_file_read partno fd buffer sz = on_slot partno (0, buffer) (\<lambda>p e.
     rbind (vfs_compat_get_file_descriptor fd) (\<lambda>s. case s of None \<Rightarrow> Ok ((1, buffer), e) | Some i \<Rightarrow>
     let en = files (etab e) i in if fd_loaded en = 0 then Ok ((1, buffer), e) else
     rbind (on_esys (on_part p (ext2_read_file (fd_name en) buffer sz (fd_offset en))) e) (\<lambda>((r, b), e). Ok ((ucast r, b), e))))"

definition SEEK_SET :: int where "SEEK_SET = 0"
definition SEEK_CUR :: int where "SEEK_CUR = 1"
definition SEEK_END :: int where "SEEK_END = 2"

definition move_to :: "nat \<Rightarrow> u64 \<Rightarrow> (u64, ext2fs) io" where
  "move_to i off e = Ok (off, e\<lparr>etab := set_file i ((files (etab e) i)\<lparr>fd_offset := off\<rparr>) (etab e)\<rparr>)"

text \<open>Seeking checks neither for a null entry nor for a closed one.\<close>

definition ext2_compat_file_seek :: "int \<Rightarrow> int \<Rightarrow> u64 \<Rightarrow> int \<Rightarrow> (u64, ext2fs) io" where
  "ext2_compat_file_seek partno fd off whence = on_slot partno 0 (\<lambda>p e.
     rbind (vfs_compat_get_file_descriptor fd) (\<lambda>s.
     if whence \<noteq> SEEK_SET \<and> whence \<noteq> SEEK_CUR \<and> whence \<noteq> SEEK_END then Ok (0, e) else
     case s of None \<Rightarrow> Err Fault | Some i \<Rightarrow>
     if whence = SEEK_SET then move_to i off e
     else if whence = SEEK_CUR then move_to i (fd_offset (files (etab e) i) + off) e
     else rbind (on_esys (on_part p (ext2_get_file_size (fd_name (files (etab e) i)))) e) (\<lambda>(size, e). move_to i (size + off) e)))"

text \<open>The offset moves by \<open>sz\<close> whether the write succeeded or not.\<close>

definition ext2_compat_file_write :: "int \<Rightarrow> int \<Rightarrow> u8 list \<Rightarrow> u64 \<Rightarrow> (u64, ext2fs) io" where
  "ext2_compat_file_write partno fd buffer sz = on_slot partno (- 1) (\<lambda>p e.
     rbind (vfs_compat_get_file_descriptor fd) (\<lambda>s. case s of None \<Rightarrow> Err Fault | Some i \<Rightarrow>
     let en = files (etab e) i in
     rbind (on_esys (on_part p (ext2_write_file (fd_name en) buffer sz (fd_offset en))) e) (\<lambda>(r, e).
     rbind (ext2_compat_file_seek partno fd sz SEEK_CUR e) (\<lambda>(_, e). Ok (ucast r, e)))))"

definition ext2_compat_file_tell :: "int \<Rightarrow> int \<Rightarrow> (u64, ext2fs) io" where
  "ext2_compat_file_tell partno fd = on_slot partno 0 (\<lambda>p e.
     rbind (vfs_compat_get_file_descriptor fd) (\<lambda>s. case s of None \<Rightarrow> Err Fault | Some i \<Rightarrow> Ok (fd_offset (files (etab e) i), e)))"

section \<open>Directories\<close>

definition ext2_compat_dir_read :: "int \<Rightarrow> int \<Rightarrow> u8 list \<Rightarrow> u32 \<Rightarrow> u32 \<Rightarrow> (int \<times> u8 list \<times> u32 \<times> u32, ext2fs) io" where
  "ext2_compat_dir_read partno fd name len type e = rbind (read_dirfd fd name len type (etab e)) (\<lambda>(r, name, len, type, t).
     Ok ((r, name, len, type), e\<lparr>etab := t\<rparr>))"

text \<open>The entries lie one behind the other, 263 bytes each; a name that fills its 255 bytes runs on into the next entry.
  \<open>n\<close> of them from the \<open>i\<close>-th on.\<close>

fun add_entries :: "nat \<Rightarrow> nat \<Rightarrow> u8 list \<Rightarrow> int \<Rightarrow> (nat \<Rightarrow> u8) \<Rightarrow> fdtab \<Rightarrow> fdtab result" where
  "add_entries 0 i ents fd mem t = Ok t"
| "add_entries (Suc n) i ents fd mem t = (let b = drop (263 * i) ents in
     rbind (get32 b 0) (\<lambda>inode. rbind (rd b 6) (\<lambda>len. rbind (rd b 7) (\<lambda>type.
     rbind (add_file_to_dirfd (map mem [0..<256]) fd (drop 8 b) inode (ucast type) (ucast len) t) (\<lambda>(_, t).
     add_entries n (i + 1) ents fd mem t)))))"

definition ext2_compat_dir_load :: "int \<Rightarrow> int \<Rightarrow> (int, ext2fs) io" where
  "ext2_compat_dir_load partno fd = on_slot partno 0 (\<lambda>p e.
     rbind (vfs_compat_get_dir fd) (\<lambda>s. case s of None \<Rightarrow> Ok (0, e) | Some i \<Rightarrow>
     let en = ds_fd (dirs (etab e) i) in if fd_loaded en = 0 then Ok (0, e) else
     rbind (on_esys (on_part p (ext2_get_all_dirs (fd_name en))) e) (\<lambda>(ents, e).
     rbind (add_entries (length ents) 0 (concat ents) fd (ejunk e) (etab e)) (\<lambda>t. Ok (1, e\<lparr>etab := t\<rparr>)))))"

section \<open>Removing\<close>

text \<open>The entry is a local variable that \<open>ext2_get_dentry\<close> does not fill: its type is what the stack holds.\<close>

definition ext2_compat_prepare_remove :: "int \<Rightarrow> u8 list \<Rightarrow> (int, ext2fs) io" where
  "ext2_compat_prepare_remove partno path = on_slot partno 0 (\<lambda>p e.
     rbind (on_esys (on_part p (ext2_get_dentry path)) e) (\<lambda>(r, e). if r \<noteq> EXT2_RESULT_OK then Ok (0, e) else
     rbind (is_directory (fresh e 263)) (\<lambda>d. if \<not> d then Ok (1, e) else
     rbind (on_esys (on_part p (ext2_get_all_dirs path)) e) (\<lambda>(ents, e). Ok (if ents = [] then 1 else 0, e)))))"

definition ext2_compat_remove :: "int \<Rightarrow> u8 list \<Rightarrow> (int, ext2fs) io" where
  "ext2_compat_remove partno path = on_slot partno 0 (\<lambda>p e.
     rbind (on_esys (on_part p (ext2_delete_file path)) e) (\<lambda>(r, e). Ok (uint r, e)))"

definition ext2_compat_stat :: "int \<Rightarrow> int \<Rightarrow> int" where "ext2_compat_stat partno fd = - 1"
definition ext2_compat_rename :: "int \<Rightarrow> u8 list \<Rightarrow> u8 list \<Rightarrow> int" where "ext2_compat_rename partno path newpath = - 1"
definition ext2_compat_chmod :: "int \<Rightarrow> u8 list \<Rightarrow> u32 \<Rightarrow> int" where "ext2_compat_chmod partno path mode = - 1"

text \<open>The table of functions names no \<open>file_flush\<close>: the pointer is null.\<close>

definition ext2_ops :: "ext2fs fs_ops" where
  "ext2_ops = \<lparr>op_register_partition = Some ext2_compat_register_partition, op_detect = Some ext2_compat_detect, op_file_flush = None,
     op_file_open = Some ext2_compat_file_open, op_file_close = Some ext2_compat_file_close, op_file_creat = Some ext2_compat_file_creat,
     op_file_read = Some ext2_compat_file_read, op_file_write = Some ext2_compat_file_write, op_file_seek = Some ext2_compat_file_seek,
     op_file_tell = Some ext2_compat_file_tell, op_dir_open = Some ext2_compat_dir_open, op_dir_close = Some ext2_compat_dir_close,
     op_dir_load = Some ext2_compat_dir_load, op_dir_read = Some ext2_compat_dir_read, op_dir_creat = Some ext2_compat_dir_creat,
     op_prepare_remove = Some ext2_compat_prepare_remove, op_remove = Some ext2_compat_remove\<rparr>"

definition ext2_register :: "ext2fs fstype" where
  "ext2_register = \<lparr>ft_name = [69, 88, 84, 50, 0] @ replicate 27 0, ft_majors = [8, 9, 10, 11, 12] @ replicate 251 0,
     ft_major_no = 5, ft_ops = ext2_ops\<rparr>"

lemma ext2_ops_simps [simp]: "op_file_open ext2_ops = Some ext2_compat_file_open" "op_file_close ext2_ops = Some ext2_compat_file_close"
  "op_file_read ext2_ops = Some ext2_compat_file_read" "op_file_write ext2_ops = Some ext2_compat_file_write"
  "op_file_flush ext2_ops = None" "op_prepare_remove ext2_ops = Some ext2_compat_prepare_remove" "op_remove ext2_ops = Some ext2_compat_remove"
  by (simp_all add: ext2_ops_def)

section \<open>Files through the whole stack\<close>

text \<open>What the driver sees of partition \<open>p\<close>.\<close>

definition fs_view :: "ext2fs fsenv \<Rightarrow> nat \<Rightarrow> fs" where
  "fs_view e p = \<lparr>fdev = edisk e, fpart = x2_parts (efs e) ! p, junk = ejunk e, unique_id = x2_unique (efs e), epoch = x2_epoch (efs e)\<rparr>"

lemma fs_view_tab [simp]: "fs_view (e\<lparr>etab := t\<rparr>) p = fs_view e p"
  by (simp add: fs_view_def)

text \<open>Slot \<open>k\<close> holds partition \<open>p\<close>.\<close>

definition slot_of :: "ext2fs fsenv \<Rightarrow> nat \<Rightarrow> nat \<Rightarrow> bool" where
  "slot_of e k p \<longleftrightarrow> k < 32 \<and> length (x2_slots (efs e)) = 32 \<and> x2_slots (efs e) ! k = Some p \<and> p < length (x2_parts (efs e))"

lemma slot_of_tab [simp]: "slot_of (e\<lparr>etab := t\<rparr>) k p = slot_of e k p"
  by (simp add: slot_of_def)

lemma on_slot_of: "slot_of e k p \<Longrightarrow> on_slot (int k) dflt f e = f p e"
  by (simp add: on_slot_def slot_of_def)

lemma on_part_read:
  assumes "slot_of e k p" and "f (fs_view e p) = Ok (r, fs_view e p)"
  shows "on_esys (on_part p f) e = Ok (r, e)"
  using assms by (simp add: on_esys_def on_part_def esys_of_def with_esys_def slot_of_def fs_view_def)

lemma path_to_inode_cstr:
  assumes "terminated path" and "length (cstr path) \<le> 65534"
  shows "ext2_path_to_inode path s = ext2_path_to_inode (cstr path @ [0]) s"
proof -
  let ?n = "length (cstr path)"
  have c: "cstr (cstr path @ [0]) = cstr path" "terminated (cstr path @ [0])" by (simp_all add: terminated_def)
  show ?thesis
    using strlen_exact [OF assms(1)] strlen_exact [OF c(2)] strncpy_take [OF assms(1), of "replicate (?n + 1) 0" "?n + 1"]
      strncpy_take [OF c(2), of "replicate (?n + 1) 0" "?n + 1"] c(1) assms(2)
    by (simp add: ext2_path_to_inode_def)
qed

lemma read_file_cstr:
  "terminated path \<Longrightarrow> length (cstr path) \<le> 65534 \<Longrightarrow> ext2_read_file path buf n skip s = ext2_read_file (cstr path @ [0]) buf n skip s"
  unfolding ext2_read_file_def bnd_def by (simp only: path_to_inode_cstr)

text \<open>\<open>ext2_mounted v m k p nm\<close>: mount \<open>m\<close> is slot \<open>k\<close> of the EXT2 adapter, which holds partition \<open>p\<close>; the mount and the
  partition have the same name \<open>nm\<close>.\<close>

definition ext2_mounted :: "ext2fs vfs \<Rightarrow> vmount \<Rightarrow> nat \<Rightarrow> nat \<Rightarrow> u8 list \<Rightarrow> bool" where
  "ext2_mounted v m k p nm \<longleftrightarrow> type_of m v = Ok ext2_ops \<and> mt_index m = int k \<and> slot_of (venv v) k p
     \<and> terminated (pt_name (x2_parts (efs (venv v)) ! p)) \<and> cstr (pt_name (x2_parts (efs (venv v)) ! p)) = nm \<and> length nm < 256"

text \<open>The interface, for the mounts whose index is a slot of the adapter: the contents of a path are those of the inode the
  directories on the disk lead to.\<close>

definition ext2_ready :: "ext2fs fsenv \<Rightarrow> int \<Rightarrow> u8 list \<Rightarrow> bool" where
  "ext2_ready e i nm \<longleftrightarrow> (\<exists>k p. i = int k \<and> slot_of e k p \<and> terminated (pt_name (x2_parts (efs e) ! p))
     \<and> cstr (pt_name (x2_parts (efs e) ! p)) = nm \<and> length nm < 256)"

definition ext2_holds :: "ext2fs fsenv \<Rightarrow> int \<Rightarrow> u8 list \<Rightarrow> u8 list \<Rightarrow> bool" where
  "ext2_holds e i rest c \<longleftrightarrow> (\<exists>k p port D cs ino. i = int k \<and> slot_of e k p \<and> rest @ [0] = path_of cs \<and> tree_at (fs_view e p) port D
     \<and> cs \<noteq> [] \<and> (\<forall>c \<in> set cs. component_ok c) \<and> walk D 2 cs = Some ino \<and> ino \<noteq> 0 \<and> file_at (fs_view e p) port ino c)"

lemma ext2_opens:
  assumes "ext2_ready e i nm" and "0 \<notin> set rest" and "length rest < 256"
    and "tab_ok (etab e)" and "next_fd (etab e) < 65536" and "j < 65536" and "fd_loaded (files (etab e) j) = 0"
  shows "\<exists>k en. ext2_compat_file_open i (rest @ 0 # x) flags mode e = Ok (int k, e\<lparr>etab := with_entry k en (etab e)\<rparr>)
    \<and> k < 65536 \<and> opened en nm rest"
proof -
  obtain s p where m: "i = int s" "slot_of e s p" "terminated (pt_name (x2_parts (efs e) ! p))"
    "cstr (pt_name (x2_parts (efs e) ! p)) = nm" "length nm < 256" using assms(1) by (auto simp: ext2_ready_def)
  have c: "cstr (rest @ 0 # x) = rest" "terminated (rest @ 0 # x)" using cstr_terminated_app [OF assms(2)] by (simp_all add: terminated_def)
  from get_fd_free [OF assms(4,5) c(2) m(3), of j flags mode] c(1) m(4,5) assms(3,6,7)
  show ?thesis using m(1,2) on_slot_of [OF m(2), of "- 1 :: int"]
    by (auto simp: ext2_compat_file_open_def part_name_def on_tab_def slot_of_def with_entry_def opened_def)
qed

lemma ext2_reads:
  assumes "ext2_holds e i rest c" and "k < 65536" and "opened (files (etab e) k) nm rest"
    and "0 < unat n" and "unat n \<le> length c" and "unat n \<le> length buf"
  shows "ext2_compat_file_read i (int k) buf n e = Ok ((1, take (unat n) c @ drop (unat n) buf), e)"
proof -
  let ?en = "files (etab e) k"
  obtain s p port D cs ino where h: "i = int s" "slot_of e s p" "rest @ [0] = path_of cs" "tree_at (fs_view e p) port D"
    "cs \<noteq> []" "\<forall>c \<in> set cs. component_ok c" "walk D 2 cs = Some ino" "ino \<noteq> 0" "file_at (fs_view e p) port ino c"
    using assms(1) by (auto simp: ext2_holds_def)
  have t: "terminated (fd_name ?en)" "length (cstr (fd_name ?en)) < 256"
    using assms(3) cstr_length [of "fd_name ?en"] by (auto simp: fd_ok_def opened_def)
  have l: "length (path_of cs) \<le> 65536" using t(2) assms(3) by (simp add: opened_def flip: h(3))
  have "ext2_read_file (fd_name ?en) buf n (fd_offset ?en) (fs_view e p) = Ok ((EXT2_RESULT_OK, take (unat n) c @ drop (unat n) buf), fs_view e p)"
    using read_file_data [OF h(4-6) l h(7-9) assms(4-6)] read_file_cstr [OF t(1), of buf n 0 "fs_view e p"] t(2) assms(3) h(3)
    by (simp add: opened_def)
  hence "on_esys (on_part p (ext2_read_file (fd_name ?en) buf n (fd_offset ?en))) e
      = Ok ((EXT2_RESULT_OK, take (unat n) c @ drop (unat n) buf), e)"
    by (rule on_part_read [OF h(2)])
  thus ?thesis
    using h(1) on_slot_of [OF h(2), of "(0 :: u64, buf)"] assms(2,3)
    by (simp add: ext2_compat_file_read_def vfs_compat_get_file_descriptor_def opened_def)
qed

interpretation ext2_files: readable_fs ext2_ops ext2_ready ext2_holds "\<lambda>_. 1"
proof (unfold_locales, goal_cases)
  case (3 e i rest c)
  then obtain cs where "rest @ [0] = path_of cs" "\<forall>c \<in> set cs. component_ok c" by (auto simp: ext2_holds_def)
  with path_no_null [of cs] show ?case by auto
next
  case (5 e i nm rest j x flags mode)
  from ext2_opens [OF this] show ?case by simp
next
  case (6 e i nm rest c k n buf)
  from ext2_reads [OF this(2-7)] show ?case by simp
qed (auto simp: ext2_ready_def ext2_holds_def)

text \<open>C16: A program that opens a file (of at most 12 direct blocks) of a mounted EXT2 partition by its path and reads from the
  descriptor gets the first bytes of the file that the directories on the disk give the path: normalisation, the choice of the mount, the tables of
  descriptors, the adapter, the directory walk, the inode and the blocks work together. The result of the read is the
  status 1, whatever the number of bytes.\<close>

theorem open_read_contents:
  assumes "terminated path" and "normalized (cstr path) = nm @ rest" and "rest @ [0] = path_of cs"
    and "belongs v (nm @ rest) m rest" and "ext2_mounted v m k p nm" and "length rest < 256"
    and "tab_ok (etab (venv v))" and "next_fd (etab (venv v)) < 65536" and "j < 65536" and "fd_loaded (files (etab (venv v)) j) = 0"
    and "tree_at (fs_view (venv v) p) port D" and "cs \<noteq> []" and "\<forall>c \<in> set cs. component_ok c"
    and "walk D 2 cs = Some ino" and "ino \<noteq> 0" and "file_at (fs_view (venv v) p) port ino contents"
    and "0 < unat n" and "unat n \<le> length contents" and "unat n \<le> length buf"
  shows "\<exists>fd q v1. vfs_file_open path flags mode v = Ok (fd, q, v1) \<and> 0 \<le> fd
    \<and> vfs_file_read fd buf n v1 = Ok ((1, take (unat n) contents @ drop (unat n) buf), v1)"
proof -
  have m: "type_of m v = Ok ext2_ops" "ext2_ready (venv v) (mt_index m) nm" "mt_index m = int k" "slot_of (venv v) k p"
    using assms(5) by (auto simp: ext2_mounted_def ext2_ready_def)
  have h: "ext2_holds (venv v) (mt_index m) rest contents" unfolding ext2_holds_def using m(3,4) assms(3,11-16) by blast
  have s: "through_int 1 = 1" by (simp add: through_int_def)
  from ext2_files.open_then_read [OF assms(1,2,4) m(1,2) assms(6-10) h assms(17-19)] show ?thesis unfolding s .
qed

section \<open>Where the adapter fails\<close>

text \<open>Flushing a file of an EXT2 partition calls through a null pointer.\<close>

theorem file_flush_faults:
  assumes "files (etab (venv v)) i = en" and "i < 65536" and "fd_ok en" and "fd_loaded en = 1"
    and "belongs v (cstr (fd_mount en) @ cstr (fd_name en)) m rest" and "type_of m v = Ok ext2_ops"
  shows "vfs_file_flush (int i) v = Err Fault"
  using at_fd_belongs [OF assms(3,4,1,2,5,6), of "0 :: int" 0] by (simp add: vfs_file_flush_def)

text \<open>Whether a directory may be removed does not depend on its contents: the type that is looked at is a byte of
  the stack. Any value but 2 lets the removal of a path go ahead, whatever it names.\<close>

theorem prepare_remove_guesses:
  assumes "slot_of e k p" and "ext2_get_dentry path (fs_view e p) = Ok (EXT2_RESULT_OK, fs_view e p)" and "ejunk e 7 \<noteq> 2"
  shows "ext2_compat_prepare_remove (int k) path e = Ok (1, e)"
proof -
  have "on_esys (on_part p (ext2_get_dentry path)) e = Ok (EXT2_RESULT_OK, e)" by (rule on_part_read, rule assms(1), rule assms(2))
  moreover have "is_directory (fresh e 263) = Ok False" using assms(3) by (simp add: is_directory_def fresh_def)
  ultimately show ?thesis using on_slot_of [OF assms(1), of "0 :: int"] by (simp add: ext2_compat_prepare_remove_def)
qed

text \<open>Seeking sets the offset as the three modes say, and changes nothing else.\<close>

theorem file_seek_moves:
  assumes "slot_of e k p" and "i < 65536"
    and "ext2_get_file_size (fd_name (files (etab e) i)) (fs_view e p) = Ok (len, fs_view e p)"
  shows "ext2_compat_file_seek (int k) (int i) off SEEK_SET e = move_to i off e"
    "ext2_compat_file_seek (int k) (int i) off SEEK_CUR e = move_to i (fd_offset (files (etab e) i) + off) e"
    "ext2_compat_file_seek (int k) (int i) off SEEK_END e = move_to i (len + off) e"
proof -
  have "on_esys (on_part p (ext2_get_file_size (fd_name (files (etab e) i)))) e = Ok (len, e)" by (rule on_part_read, rule assms(1), rule assms(3))
  thus "ext2_compat_file_seek (int k) (int i) off SEEK_SET e = move_to i off e"
    "ext2_compat_file_seek (int k) (int i) off SEEK_CUR e = move_to i (fd_offset (files (etab e) i) + off) e"
    "ext2_compat_file_seek (int k) (int i) off SEEK_END e = move_to i (len + off) e"
    using on_slot_of [OF assms(1), of "0 :: u64"] assms(2)
    by (simp_all add: ext2_compat_file_seek_def vfs_compat_get_file_descriptor_def SEEK_SET_def SEEK_CUR_def SEEK_END_def)
qed

text \<open>A write that fails and changes nothing still moves the offset by the number of bytes asked for.\<close>

theorem failed_write_moves:
  assumes "slot_of e k p" and "i < 65536"
    and "ext2_write_file (fd_name (files (etab e) i)) buf n (fd_offset (files (etab e) i)) (fs_view e p) = Ok (EXT2_RESULT_ERROR, fs_view e p)"
  shows "\<exists>e'. ext2_compat_file_write (int k) (int i) buf n e = Ok (0, e') \<and> fd_offset (files (etab e') i) = fd_offset (files (etab e) i) + n
    \<and> edisk e' = edisk e \<and> efs e' = efs e"
proof -
  let ?en = "files (etab e) i"
  have "on_esys (on_part p (ext2_write_file (fd_name ?en) buf n (fd_offset ?en))) e = Ok (EXT2_RESULT_ERROR, e)"
    by (rule on_part_read, rule assms(1), rule assms(3))
  moreover have "ext2_compat_file_seek (int k) (int i) n SEEK_CUR e = move_to i (fd_offset ?en + n) e"
    using on_slot_of [OF assms(1), of "0 :: u64"] assms(2)
    by (simp add: ext2_compat_file_seek_def vfs_compat_get_file_descriptor_def SEEK_SET_def SEEK_CUR_def SEEK_END_def)
  ultimately show ?thesis using on_slot_of [OF assms(1), of "- 1 :: u64"] assms(2)
    by (simp add: ext2_compat_file_write_def vfs_compat_get_file_descriptor_def move_to_def Let_def)
qed

section \<open>A mounted partition\<close>

text \<open>The small file system, mounted as \<open>/\<close>; its file is \<open>//ab\<close>.\<close>

definition ext2_env :: "ext2fs fsenv" where
  "ext2_env = \<lparr>etab = empty_fdtab, edisk = fdev fs_tree, efs = \<lparr>x2_parts = [fpart fs_tree], x2_slots = Some 0 # replicate 31 None,
     x2_unique = unique_id fs_tree, x2_epoch = epoch fs_tree\<rparr>, ejunk = junk fs_tree\<rparr>"

definition ext2_mount :: vmount where
  "ext2_mount = \<lparr>mt_device = 0, mt_partition = (0, 0), mt_fst = 0, mt_index = 0\<rparr>"

definition ext2_vfs :: "ext2fs vfs" where
  "ext2_vfs = \<lparr>vroot_size = 1, vroots = [\<lparr>dm_dev = Some 0, dm_parts = Some [(new_part 0 0 0 0)\<lparr>vp_name := 47 # 0 # replicate 46 0\<rparr>], dm_no = 1\<rparr>],
     vtypes = Some [ext2_register], vmounts = Some [ext2_mount], venv = ext2_env\<rparr>"

lemma ext2_view: "fs_view ext2_env 0 = fs_tree"
  by (simp add: fs_view_def ext2_env_def)

lemma ext2_vfs_mounted: "slot_of ext2_env 0 0" "type_of ext2_mount ext2_vfs = Ok ext2_ops" "ext2_mounted ext2_vfs ext2_mount 0 0 [47]"
proof -
  show s: "slot_of ext2_env 0 0" by (simp add: slot_of_def ext2_env_def)
  show t: "type_of ext2_mount ext2_vfs = Ok ext2_ops" by (simp add: type_of_def ext2_vfs_def ext2_mount_def ext2_register_def)
  have "pt_name (fpart fs_tree) = [47, 0]" by (simp add: fs_example_def)
  with s t show "ext2_mounted ext2_vfs ext2_mount 0 0 [47]"
    by (simp add: ext2_mounted_def ext2_vfs_def ext2_env_def ext2_mount_def terminated_simps cstr_simps)
qed

lemma ext2_vfs_belongs: "belongs ext2_vfs (47 # rest) ext2_mount rest"
proof -
  have "mount_name ext2_vfs ext2_mount [47]"
    by (simp add: mount_name_def part_at_def parts_of_def ext2_vfs_def ext2_mount_def terminated_simps cstr_simps)
  thus ?thesis unfolding belongs_def
    by (intro exI [of _ "[]"] exI [of _ "[47]"]) (simp add: ext2_vfs_def)
qed

theorem open_read_contents_witness:
  "\<exists>fd q v1. vfs_file_open [47, 47, 97, 98, 0] 0 0 ext2_vfs = Ok (fd, q, v1) \<and> 0 \<le> fd
    \<and> vfs_file_read fd [1, 2, 3, 4, 5] 3 v1 = Ok ((1, [104, 101, 108, 4, 5]), v1)"
proof -
  have n: "normalized (cstr [47, 47, 97, 98, 0]) = [47] @ [47, 97, 98]"
    by (simp add: cstr_simps normalized_def norm_from.simps(2) strip_end_def)
  have e: "venv ext2_vfs = ext2_env" "etab ext2_env = empty_fdtab" by (simp_all add: ext2_vfs_def ext2_env_def)
  have p: "[47, 97, 98] @ [0] = path_of [[97, 98]]" by simp
  have t: "terminated [47, 47, 97, 98, 0]" by (simp add: terminated_simps)
  have b: "belongs ext2_vfs ([47] @ [47, 97, 98]) ext2_mount [47, 97, 98]" using ext2_vfs_belongs by simp
  show ?thesis
    using open_read_contents [OF t n p b ext2_vfs_mounted(3), of 0 0 tree_example 3 hello_example 3 "[1, 2, 3, 4, 5]" 0 0]
      tab_ok_empty tree_example_ok(1,2) fs_tree_file
    by (simp add: e ext2_view empty_fdtab_def blank_fd_def component_ok_def hello_example_def)
qed

text \<open>The size of a file found by its path.\<close>

lemma file_size_data:
  assumes "tree_at s port D" and "cs \<noteq> []" and "\<forall>c \<in> set cs. component_ok c" and "length (path_of cs) \<le> 65536"
    and "walk D 2 cs = Some ino" and "ino \<noteq> 0" and "file_at s port ino contents"
  shows "ext2_get_file_size (path_of cs) s = Ok (of_nat (length contents), s)"
proof -
  obtain pl sz where d: "inode_ready s port ino pl" "i_size (inode_data s port pl) = Ok sz" "unat sz = length contents"
    using assms(7) by (auto simp: file_at_def)
  have "(ucast sz :: u64) = of_nat (length contents)" using d(3) by (metis of_nat_unat)
  with path_to_inode_walk [OF assms(1-5)] assms(6) inode_ready_read(2) [OF d(1)] d(2) show ?thesis
    by (simp add: ext2_get_file_size_def)
qed

lemma file_size_cstr:
  "terminated path \<Longrightarrow> length (cstr path) \<le> 65534 \<Longrightarrow> ext2_get_file_size path s = ext2_get_file_size (cstr path @ [0]) s"
  unfolding ext2_get_file_size_def bnd_def by (simp only: path_to_inode_cstr)

lemma write_missing:
  assumes "terminated path" and "length (cstr path) \<le> 65534" and "cstr path @ [0] = path_of cs"
    and "tree_at s port D" and "cs \<noteq> []" and "\<forall>c \<in> set cs. component_ok c" and "walk D 2 cs = Some 0"
  shows "ext2_write_file path buf n skip s = Ok (EXT2_RESULT_ERROR, s)"
proof -
  have "length (path_of cs) \<le> 65536" using assms(2) by (simp flip: assms(3))
  from path_to_inode_walk [OF assms(4-6) this assms(7)] path_to_inode_cstr [OF assms(1,2), of s] assms(3)
  show ?thesis by (simp add: ext2_write_file_def)
qed

definition entry_example :: "u8 list \<Rightarrow> fdentry" where
  "entry_example name = blank_fd\<lparr>fd_name := name @ 0 # replicate (255 - length name) 0, fd_mount := 47 # replicate 255 0, fd_loaded := 1\<rparr>"

definition env_example :: "u8 list \<Rightarrow> ext2fs fsenv" where
  "env_example name = ext2_env\<lparr>etab := set_file 5 (entry_example name) empty_fdtab\<rparr>"

lemma env_example_simps [simp]: "files (etab (env_example name)) 5 = entry_example name" "slot_of (env_example name) 0 0"
  "fs_view (env_example name) 0 = fs_tree"
  using ext2_vfs_mounted(1) ext2_view by (simp_all add: env_example_def)

lemma entry_name: "0 \<notin> set name \<Longrightarrow> length name < 256 \<Longrightarrow>
    terminated (fd_name (entry_example name)) \<and> cstr (fd_name (entry_example name)) = name \<and> length (fd_name (entry_example name)) = 256"
  using cstr_terminated_app [of name "replicate (255 - length name) 0"]
  by (simp add: entry_example_def terminated_def Suc_diff_le [of "length name" 255, simplified])

theorem file_flush_faults_witness: "vfs_file_flush 5 (ext2_vfs\<lparr>venv := env_example [47, 97, 98]\<rparr>) = Err Fault"
proof -
  let ?v = "ext2_vfs\<lparr>venv := env_example [47, 97, 98]\<rparr>" and ?en = "entry_example [47, 97, 98]"
  have n: "terminated (fd_name ?en)" "cstr (fd_name ?en) = [47, 97, 98]" "length (fd_name ?en) = 256" using entry_name [of "[47, 97, 98]"] by simp_all
  have m: "cstr (fd_mount ?en) = [47]" "terminated (fd_mount ?en)" "length (fd_mount ?en) = 256"
    by (simp_all add: entry_example_def cstr_simps terminated_def)
  have "vfs_file_flush (int 5) ?v = Err Fault"
    by (rule file_flush_faults [where en = ?en and m = ext2_mount and rest = "[47, 97, 98]"])
      (use n m ext2_vfs_belongs ext2_vfs_mounted(2) in \<open>simp_all add: fd_ok_def entry_example_def\<close>)
  thus ?thesis by simp
qed

theorem file_seek_moves_witness:
  "ext2_compat_file_seek 0 5 2 2 (env_example [47, 97, 98]) = move_to 5 7 (env_example [47, 97, 98])"
proof -
  let ?en = "entry_example [47, 97, 98]"
  have n: "terminated (fd_name ?en)" "cstr (fd_name ?en) = [47, 97, 98]" using entry_name [of "[47, 97, 98]"] by simp_all
  have "ext2_get_file_size (path_of [[97, 98]]) fs_tree = Ok (of_nat (length hello_example), fs_tree)"
    by (rule file_size_data [OF tree_example_ok(1) _ _ _ tree_example_ok(2) _ fs_tree_file]) (simp_all add: component_ok_def)
  hence "ext2_get_file_size (fd_name ?en) fs_tree = Ok (5, fs_tree)"
    using file_size_cstr [OF n(1), of fs_tree] n(2) by (simp add: hello_example_def)
  thus ?thesis using file_seek_moves(3) [of "env_example [47, 97, 98]" 0 0 5 5 2] by (simp add: SEEK_END_def)
qed

theorem failed_write_moves_witness:
  "\<exists>e'. ext2_compat_file_write 0 5 [1, 2, 3] 3 (env_example [47, 99]) = Ok (0, e') \<and> fd_offset (files (etab e') 5) = 3"
proof -
  let ?en = "entry_example [47, 99]"
  have n: "terminated (fd_name ?en)" "cstr (fd_name ?en) = [47, 99]" using entry_name [of "[47, 99]"] by simp_all
  have "ext2_write_file (fd_name ?en) [1, 2, 3] 3 0 fs_tree = Ok (EXT2_RESULT_ERROR, fs_tree)"
    by (rule write_missing [OF n(1) _ _ tree_example_ok(1) _ _ tree_example_ok(3)]) (use n(2) in \<open>simp_all add: component_ok_def\<close>)
  thus ?thesis using failed_write_moves [of "env_example [47, 99]" 0 0 5 "[1, 2, 3]" 3]
    by (auto simp: entry_example_def blank_fd_def)
qed

section \<open>Files as a whole\<close>

text \<open>The adapter measures a file by the size in its inode and frees the descriptor it closes.\<close>

lemma ext2_sizes:
  assumes "ext2_ready e i nm" and "ext2_holds e i rest c" and "k < 65536" and "opened (files (etab e) k) nm rest"
  shows "ext2_compat_file_seek i (int k) off 2 e = move_to k (of_nat (length c) + off) e"
proof -
  let ?en = "files (etab e) k"
  obtain s p port D cs ino where h: "i = int s" "slot_of e s p" "rest @ [0] = path_of cs" "tree_at (fs_view e p) port D"
    "cs \<noteq> []" "\<forall>c \<in> set cs. component_ok c" "walk D 2 cs = Some ino" "ino \<noteq> 0" "file_at (fs_view e p) port ino c"
    using assms(2) by (auto simp: ext2_holds_def)
  have t: "terminated (fd_name ?en)" "length (cstr (fd_name ?en)) < 256"
    using assms(4) cstr_length [of "fd_name ?en"] by (auto simp: fd_ok_def opened_def)
  have "length (path_of cs) \<le> 65536" using t(2) assms(4) by (simp add: opened_def flip: h(3))
  from file_size_data [OF h(4-6) this h(7-9)] file_size_cstr [OF t(1), of "fs_view e p"] t(2) assms(4) h(3)
  have "ext2_get_file_size (fd_name ?en) (fs_view e p) = Ok (of_nat (length c), fs_view e p)" by (simp add: opened_def)
  from file_seek_moves(3) [OF h(2) assms(3) this] show ?thesis using h(1) by (simp add: SEEK_END_def)
qed

lemma ext2_ops_more [simp]: "op_file_seek ext2_ops = Some ext2_compat_file_seek" "op_file_tell ext2_ops = Some ext2_compat_file_tell"
  by (simp_all add: ext2_ops_def)

interpretation ext2_whole: seekable_fs ext2_ops ext2_ready ext2_holds "\<lambda>_. 1"
proof (unfold_locales, goal_cases)
  case (1 e i rest c)
  then obtain s p port ino where "file_at (fs_view e p) port ino c" by (auto simp: ext2_holds_def)
  then obtain sz :: u32 where "unat sz = length c" by (auto simp: file_at_def)
  with unsigned_less [of sz, where 'a = nat] show ?case by simp
next
  case (2 e i nm k off)
  then show ?case using on_slot_of by (auto simp: ext2_ready_def ext2_compat_file_seek_def vfs_compat_get_file_descriptor_def
      SEEK_SET_def SEEK_CUR_def SEEK_END_def move_to_def moved_def)
next
  case (3 e i nm rest c k off)
  from ext2_sizes [OF 3] show ?case by (simp add: move_to_def moved_def)
next
  case (4 e i nm k)
  then show ?case using on_slot_of by (auto simp: ext2_ready_def ext2_compat_file_tell_def vfs_compat_get_file_descriptor_def)
next
  case (5 e i nm k)
  then obtain s p where "i = int s" "slot_of e s p" by (auto simp: ext2_ready_def)
  with 5(2) on_slot_of [of e s p "- 1 :: int"] show ?case by (simp add: ext2_compat_file_close_def release_fd_def slot_def on_tab_def)
qed

end
