(* ===== verification/GenericDevices.thy ===== *)
theory GenericDevices
  imports FsInterface
begin

text \<open>Terminals and FIFOs as file systems: the functions of \<open>drivers/tty/tty_interface.c\<close> and
  \<open>drivers/fifo/fifo_interface.c\<close>, which call the device layer, the objects of \<open>vfs/generic/tty/tty.c\<close> and
  \<open>vfs/generic/fifo/fifo.c\<close>, and the adapters \<open>generic_tty.h\<close> and \<open>generic_fifo.h\<close>. The two adapters are the same
  text up to the names; what they share is written once and takes the interface as an argument.\<close>

section \<open>State\<close>

text \<open>The device table with the state \<open>'w\<close> its drivers work on, and the table of 32 pointers to the mounted devices;
  \<open>struct vfs_tty\<close> and \<open>struct vfs_fifo\<close> are a name and the name of the device, 32 bytes each.\<close>

record vfs_dev =
  vd_name :: "u8 list"
  vd_device :: "u8 list"

record 'w devfs =
  df_tab :: "'w devtab"
  df_world :: 'w
  df_slots :: "vfs_dev option list"

abbreviation "MAX_DEVICES \<equiv> (32 :: nat)"

section \<open>Interfaces\<close>

text \<open>Positions and sizes pass through 32 bits.\<close>

definition dev_read :: "u8 list \<Rightarrow> u8 list \<Rightarrow> u32 \<Rightarrow> u32 \<Rightarrow> 'w devfs \<Rightarrow> (u64 \<times> u8 list \<times> 'w devfs) result" where
  "dev_read device buffer skip sz f = rbind (device_read (df_tab f) device (ucast sz) (ucast skip) buffer (df_world f)) (\<lambda>(r, b, w).
     Ok (r, b, f\<lparr>df_world := w\<rparr>))"

definition dev_write :: "u8 list \<Rightarrow> u8 list \<Rightarrow> u32 \<Rightarrow> u32 \<Rightarrow> 'w devfs \<Rightarrow> (u64 \<times> 'w devfs) result" where
  "dev_write device buffer skip sz f = rbind (device_write (df_tab f) device (ucast sz) (ucast skip) buffer (df_world f)) (\<lambda>(r, w).
     Ok (r, f\<lparr>df_world := w\<rparr>))"

definition dev_ioctl :: "u8 list \<Rightarrow> u64 \<Rightarrow> 'w devfs \<Rightarrow> (u64 \<times> 'w devfs) result" where
  "dev_ioctl device oper f = rbind (device_ioctl (df_tab f) device oper [] (df_world f)) (\<lambda>(r, _, w). Ok (r, f\<lparr>df_world := w\<rparr>))"

text \<open>The names are \<open>TTY DRIVER\<close> and \<open>FIFO DRIVER\<close>.\<close>

definition TTY_DD_NAME :: "u8 list" where "TTY_DD_NAME = [84, 84, 89, 32, 68, 82, 73, 86, 69, 82, 0, 0]"
definition FIFO_DD_NAME :: "u8 list" where "FIFO_DD_NAME = [70, 73, 70, 79, 32, 68, 82, 73, 86, 69, 82, 0, 0]"

definition if_tty_read :: "u8 list \<Rightarrow> u8 list \<Rightarrow> u32 \<Rightarrow> u32 \<Rightarrow> 'w devfs \<Rightarrow> (u64 \<times> u8 list \<times> 'w devfs) result" where
  "if_tty_read = dev_read"
definition if_tty_write :: "u8 list \<Rightarrow> u8 list \<Rightarrow> u32 \<Rightarrow> u32 \<Rightarrow> 'w devfs \<Rightarrow> (u64 \<times> 'w devfs) result" where
  "if_tty_write = dev_write"
definition if_tty_flush :: "u8 list \<Rightarrow> 'w devfs \<Rightarrow> (u64 \<times> 'w devfs) result" where
  "if_tty_flush device = dev_ioctl device 5"
definition if_tty_validate :: "u8 list \<Rightarrow> 'w devfs \<Rightarrow> (u64 \<times> 'w devfs) result" where
  "if_tty_validate device = dev_ioctl device 6"
definition if_tty_get_size :: "u8 list \<Rightarrow> 'w devfs \<Rightarrow> (u64 \<times> 'w devfs) result" where
  "if_tty_get_size device = dev_ioctl device 7"
definition if_tty_write_now :: "u8 list \<Rightarrow> u8 list \<Rightarrow> u32 \<Rightarrow> u32 \<Rightarrow> 'w devfs \<Rightarrow> (u64 \<times> 'w devfs) result" where
  "if_tty_write_now device buffer skip sz f = rbind (if_tty_write device buffer skip sz f) (\<lambda>(r, f).
     rbind (if_tty_flush device f) (\<lambda>(_, f). Ok (r, f)))"
definition if_tty_identify :: "u8 list \<Rightarrow> 'w devfs \<Rightarrow> u8 result" where
  "if_tty_identify device f = device_identify (df_tab f) device TTY_DD_NAME"

definition if_fifo_read :: "u8 list \<Rightarrow> u8 list \<Rightarrow> u32 \<Rightarrow> u32 \<Rightarrow> 'w devfs \<Rightarrow> (u64 \<times> u8 list \<times> 'w devfs) result" where
  "if_fifo_read = dev_read"
definition if_fifo_write :: "u8 list \<Rightarrow> u8 list \<Rightarrow> u32 \<Rightarrow> u32 \<Rightarrow> 'w devfs \<Rightarrow> (u64 \<times> 'w devfs) result" where
  "if_fifo_write = dev_write"
definition if_fifo_flush :: "u8 list \<Rightarrow> 'w devfs \<Rightarrow> (u64 \<times> 'w devfs) result" where
  "if_fifo_flush device = dev_ioctl device 1"
definition if_fifo_get_size :: "u8 list \<Rightarrow> 'w devfs \<Rightarrow> (u64 \<times> 'w devfs) result" where
  "if_fifo_get_size device = dev_ioctl device 3"
definition if_fifo_identify :: "u8 list \<Rightarrow> 'w devfs \<Rightarrow> u8 result" where
  "if_fifo_identify device f = device_identify (df_tab f) device FIFO_DD_NAME"

section \<open>Objects\<close>

text \<open>\<open>snprintf(dest, 32, "%s", src)\<close> on cleared bytes.\<close>

definition print_32 :: "u8 list \<Rightarrow> u8 list" where
  "print_32 src = (let c = take 31 (cstr src) in c @ replicate (32 - length c) 0)"

definition new_dev :: "u8 list \<Rightarrow> u8 list \<Rightarrow> vfs_dev" where
  "new_dev device mountpoint = \<lparr>vd_name = print_32 mountpoint, vd_device = print_32 device\<rparr>"

definition tty_register_device :: "u8 list \<Rightarrow> u8 list \<Rightarrow> 'w devfs \<Rightarrow> (vfs_dev option \<times> 'w devfs) result" where
  "tty_register_device device mountpoint f = rbind (if_tty_validate device f) (\<lambda>(r, f).
     Ok (if r = 0 then None else Some (new_dev device mountpoint), f))"

definition fifo_register_device :: "u8 list \<Rightarrow> u8 list \<Rightarrow> 'w devfs \<Rightarrow> (vfs_dev option \<times> 'w devfs) result" where
  "fifo_register_device device mountpoint f = Ok (Some (new_dev device mountpoint), f)"

text \<open>The counts of \<open>vfs_tty_read\<close>, \<open>vfs_tty_write\<close> and their FIFO counterparts are returned as bytes.\<close>

definition vfs_tty_read :: "vfs_dev \<Rightarrow> u8 list \<Rightarrow> u64 \<Rightarrow> u64 \<Rightarrow> 'w devfs \<Rightarrow> (u8 \<times> u8 list \<times> 'w devfs) result" where
  "vfs_tty_read d buffer sz skip f = rbind (if_tty_read (vd_device d) buffer (ucast skip) (ucast sz) f) (\<lambda>(r, b, f). Ok (ucast r, b, f))"
definition vfs_tty_write :: "vfs_dev \<Rightarrow> u8 list \<Rightarrow> u64 \<Rightarrow> u64 \<Rightarrow> 'w devfs \<Rightarrow> (u8 \<times> 'w devfs) result" where
  "vfs_tty_write d buffer sz skip f = rbind (if_tty_write (vd_device d) buffer (ucast skip) (ucast sz) f) (\<lambda>(r, f). Ok (ucast r, f))"
definition vfs_tty_get_size :: "vfs_dev \<Rightarrow> 'w devfs \<Rightarrow> (u64 \<times> 'w devfs) result" where
  "vfs_tty_get_size d = if_tty_get_size (vd_device d)"
definition tty_sync :: "vfs_dev \<Rightarrow> 'w devfs \<Rightarrow> (u64 \<times> 'w devfs) result" where
  "tty_sync d = if_tty_flush (vd_device d)"

definition vfs_fifo_read :: "vfs_dev \<Rightarrow> u8 list \<Rightarrow> u64 \<Rightarrow> u64 \<Rightarrow> 'w devfs \<Rightarrow> (u8 \<times> u8 list \<times> 'w devfs) result" where
  "vfs_fifo_read d buffer sz skip f = rbind (if_fifo_read (vd_device d) buffer (ucast skip) (ucast sz) f) (\<lambda>(r, b, f). Ok (ucast r, b, f))"
definition vfs_fifo_write :: "vfs_dev \<Rightarrow> u8 list \<Rightarrow> u64 \<Rightarrow> u64 \<Rightarrow> 'w devfs \<Rightarrow> (u8 \<times> 'w devfs) result" where
  "vfs_fifo_write d buffer sz skip f = rbind (if_fifo_write (vd_device d) buffer (ucast skip) (ucast sz) f) (\<lambda>(r, f). Ok (ucast r, f))"
definition vfs_fifo_get_size :: "vfs_dev \<Rightarrow> 'w devfs \<Rightarrow> (u64 \<times> 'w devfs) result" where
  "vfs_fifo_get_size d = if_fifo_get_size (vd_device d)"
definition fifo_sync :: "vfs_dev \<Rightarrow> 'w devfs \<Rightarrow> (u64 \<times> 'w devfs) result" where
  "fifo_sync d = if_fifo_flush (vd_device d)"

section \<open>What the adapters share\<close>

definition on_dev :: "('w devfs \<Rightarrow> ('a \<times> 'w devfs) result) \<Rightarrow> ('a, 'w devfs) io" where
  "on_dev g e = rbind (g (efs e)) (\<lambda>(r, f). Ok (r, e\<lparr>efs := f\<rparr>))"

fun free_dev :: "vfs_dev option list \<Rightarrow> nat \<Rightarrow> nat option" where
  "free_dev [] i = None"
| "free_dev (s # ss) i = (if s = None then Some i else free_dev ss (i + 1))"

definition compat_register :: "(u8 list \<Rightarrow> u8 list \<Rightarrow> 'w devfs \<Rightarrow> (vfs_dev option \<times> 'w devfs) result) \<Rightarrow> u8 list \<Rightarrow> u32 \<Rightarrow> u8 list \<Rightarrow> (int, 'w devfs) io" where
  "compat_register reg device mode mountpoint e = (case free_dev (df_slots (efs e)) 0 of None \<Rightarrow> Ok (- 1, e) | Some i \<Rightarrow>
     rbind (on_dev (reg device mountpoint) e) (\<lambda>(d, e). case d of None \<Rightarrow> Ok (- 1, e)
       | Some d \<Rightarrow> Ok (int i, e\<lparr>efs := (efs e)\<lparr>df_slots := (df_slots (efs e))[i := Some d]\<rparr>\<rparr>)))"

definition compat_unregister :: "int \<Rightarrow> (u8, 'w devfs) io" where
  "compat_unregister index e = (if index < 0 then Err Fault else rbind (rd (df_slots (efs e)) (nat index)) (\<lambda>s. case s of None \<Rightarrow> Ok (1, e)
     | Some d \<Rightarrow> Ok (0, e\<lparr>efs := (efs e)\<lparr>df_slots := (df_slots (efs e))[nat index := None]\<rparr>\<rparr>)))"

definition dev_slot :: "int \<Rightarrow> 'a \<Rightarrow> (vfs_dev \<Rightarrow> ('a, 'w devfs) io) \<Rightarrow> ('a, 'w devfs) io" where
  "dev_slot devno dflt g e = (if devno < 0 \<or> int MAX_DEVICES \<le> devno then Ok (dflt, e)
     else rbind (rd (df_slots (efs e)) (nat devno)) (\<lambda>s. case s of None \<Rightarrow> Ok (dflt, e) | Some d \<Rightarrow> g d e))"

text \<open>The entry of a descriptor in use, the default otherwise.\<close>

definition open_entry :: "int \<Rightarrow> 'a \<Rightarrow> (nat \<Rightarrow> fdentry \<Rightarrow> ('a, 'w devfs) io) \<Rightarrow> ('a, 'w devfs) io" where
  "open_entry fd dflt g e = rbind (vfs_compat_get_file_descriptor fd) (\<lambda>s. case s of None \<Rightarrow> Ok (dflt, e)
     | Some i \<Rightarrow> if fd_loaded (files (etab e) i) = 0 then Ok (dflt, e) else g i (files (etab e) i) e)"

definition compat_read :: "(vfs_dev \<Rightarrow> u8 list \<Rightarrow> u64 \<Rightarrow> u64 \<Rightarrow> 'w devfs \<Rightarrow> (u8 \<times> u8 list \<times> 'w devfs) result) \<Rightarrow> int \<Rightarrow> int \<Rightarrow> u8 list \<Rightarrow> u64 \<Rightarrow> (u64 \<times> u8 list, 'w devfs) io" where
  "compat_read rdf devno fd buffer sz = dev_slot devno (- 1, buffer) (\<lambda>d. open_entry fd (- 1, buffer) (\<lambda>i en.
     on_dev (\<lambda>f. rbind (rdf d buffer sz (fd_offset en) f) (\<lambda>(r, b, f). Ok ((ucast r, b), f)))))"

definition compat_write :: "(vfs_dev \<Rightarrow> u8 list \<Rightarrow> u64 \<Rightarrow> u64 \<Rightarrow> 'w devfs \<Rightarrow> (u8 \<times> 'w devfs) result) \<Rightarrow> int \<Rightarrow> int \<Rightarrow> u8 list \<Rightarrow> u64 \<Rightarrow> (u64, 'w devfs) io" where
  "compat_write wt devno fd buffer sz = dev_slot devno (- 1) (\<lambda>d. open_entry fd (- 1) (\<lambda>i en.
     on_dev (\<lambda>f. rbind (wt d buffer sz (fd_offset en) f) (\<lambda>(r, f). Ok (ucast r, f)))))"

definition move_offset :: "nat \<Rightarrow> u64 \<Rightarrow> (u64, 'w devfs) io" where
  "move_offset i off e = Ok (off, e\<lparr>etab := set_file i ((files (etab e) i)\<lparr>fd_offset := off\<rparr>) (etab e)\<rparr>)"

text \<open>\<open>whence\<close> is 0 for the beginning, 1 for the current position and 2 for the end.\<close>

definition compat_seek :: "(vfs_dev \<Rightarrow> 'w devfs \<Rightarrow> (u64 \<times> 'w devfs) result) \<Rightarrow> int \<Rightarrow> int \<Rightarrow> u64 \<Rightarrow> int \<Rightarrow> (u64, 'w devfs) io" where
  "compat_seek len devno fd off whence = dev_slot devno (- 1) (\<lambda>d. open_entry fd (- 1) (\<lambda>i en e.
     if whence = 0 then move_offset i off e
     else if whence = 1 then move_offset i (fd_offset en + off) e
     else if whence = 2 then rbind (on_dev (len d) e) (\<lambda>(n, e). move_offset i (n + off) e)
     else Ok (0, e)))"

definition compat_tell :: "int \<Rightarrow> int \<Rightarrow> (u64, 'w devfs) io" where
  "compat_tell devno fd = dev_slot devno (- 1) (\<lambda>d. open_entry fd (- 1) (\<lambda>i en e. Ok (fd_offset en, e)))"

text \<open>Only the path \<open>/\<close> can be opened.\<close>

definition compat_open :: "int \<Rightarrow> u8 list \<Rightarrow> u32 \<Rightarrow> u32 \<Rightarrow> (int, 'w devfs) io" where
  "compat_open devno path flags mode = dev_slot devno (- 1) (\<lambda>d e.
     rbind (strlen path) (\<lambda>n. rbind (if n \<noteq> 1 then Ok 1 else strcmp path [47, 0]) (\<lambda>c. if c \<noteq> 0 then Ok (- 1, e) else
     rbind (get_fd path (vd_name d) flags mode (etab e)) (\<lambda>(r, t). Ok (r, e\<lparr>etab := t\<rparr>)))))"

definition compat_close :: "int \<Rightarrow> int \<Rightarrow> (int, 'w devfs) io" where
  "compat_close devno fd = dev_slot devno (- 1) (\<lambda>d e. rbind (release_fd fd (etab e)) (\<lambda>(r, t). Ok (r, e\<lparr>etab := t\<rparr>)))"

text \<open>A null pointer is passed on.\<close>

definition compat_flush :: "(vfs_dev \<Rightarrow> 'w devfs \<Rightarrow> (u64 \<times> 'w devfs) result) \<Rightarrow> int \<Rightarrow> int \<Rightarrow> (int, 'w devfs) io" where
  "compat_flush sync devno fd e = (if devno < 0 \<or> int MAX_DEVICES \<le> devno then Ok (- 1, e)
     else rbind (rd (df_slots (efs e)) (nat devno)) (\<lambda>s. case s of None \<Rightarrow> Err Fault
       | Some d \<Rightarrow> rbind (on_dev (sync d) e) (\<lambda>(r, e). Ok (sint (ucast r :: u32), e))))"

definition refuse :: "'a \<Rightarrow> ('a, 'w devfs) io" where "refuse r e = Ok (r, e)"

section \<open>The terminals' adapter\<close>

definition tty_compat_register_device :: "u8 list \<Rightarrow> u32 \<Rightarrow> u8 list \<Rightarrow> (int, 'w devfs) io" where
  "tty_compat_register_device = compat_register tty_register_device"
definition tty_compat_unregister_device :: "int \<Rightarrow> (u8, 'w devfs) io" where "tty_compat_unregister_device = compat_unregister"
definition tty_compat_detect :: "u8 list \<Rightarrow> u32 \<Rightarrow> (u8, 'w devfs) io" where
  "tty_compat_detect name port = on_dev (\<lambda>f. rbind (if_tty_identify name f) (\<lambda>r. Ok (r, f)))"
definition tty_compat_file_read :: "int \<Rightarrow> int \<Rightarrow> u8 list \<Rightarrow> u64 \<Rightarrow> (u64 \<times> u8 list, 'w devfs) io" where
  "tty_compat_file_read = compat_read vfs_tty_read"
definition tty_compat_file_write :: "int \<Rightarrow> int \<Rightarrow> u8 list \<Rightarrow> u64 \<Rightarrow> (u64, 'w devfs) io" where
  "tty_compat_file_write = compat_write vfs_tty_write"
definition tty_compat_file_seek :: "int \<Rightarrow> int \<Rightarrow> u64 \<Rightarrow> int \<Rightarrow> (u64, 'w devfs) io" where
  "tty_compat_file_seek = compat_seek vfs_tty_get_size"
definition tty_compat_file_tell :: "int \<Rightarrow> int \<Rightarrow> (u64, 'w devfs) io" where "tty_compat_file_tell = compat_tell"
definition tty_compat_file_open :: "int \<Rightarrow> u8 list \<Rightarrow> u32 \<Rightarrow> u32 \<Rightarrow> (int, 'w devfs) io" where "tty_compat_file_open = compat_open"
definition tty_compat_file_close :: "int \<Rightarrow> int \<Rightarrow> (int, 'w devfs) io" where "tty_compat_file_close = compat_close"
definition tty_compat_file_flush :: "int \<Rightarrow> int \<Rightarrow> (int, 'w devfs) io" where "tty_compat_file_flush = compat_flush tty_sync"

definition tty_ops :: "'w devfs fs_ops" where
  "tty_ops = \<lparr>op_register_partition = Some tty_compat_register_device, op_detect = Some tty_compat_detect,
     op_file_flush = Some tty_compat_file_flush, op_file_open = Some tty_compat_file_open, op_file_close = Some tty_compat_file_close,
     op_file_creat = Some (\<lambda>_ _ _. refuse (- 1)), op_file_read = Some tty_compat_file_read, op_file_write = Some tty_compat_file_write,
     op_file_seek = Some tty_compat_file_seek, op_file_tell = Some tty_compat_file_tell, op_dir_open = Some (\<lambda>_ _. refuse (- 1)),
     op_dir_close = Some (\<lambda>_ _. refuse (- 1)), op_dir_load = Some (\<lambda>_ _. refuse (- 1)),
     op_dir_read = Some (\<lambda>_ _ name len type. refuse (- 1, name, len, type)), op_dir_creat = Some (\<lambda>_ _ _. refuse (- 1)),
     op_prepare_remove = Some (\<lambda>_ _. refuse (- 1)), op_remove = Some (\<lambda>_ _. refuse (- 1))\<rparr>"

definition tty_register :: "'w devfs fstype" where
  "tty_register = \<lparr>ft_name = [84, 84, 89, 0] @ replicate 28 0, ft_majors = 0xE # replicate 255 0, ft_major_no = 1, ft_ops = tty_ops\<rparr>"

section \<open>The FIFOs' adapter\<close>

definition fifo_compat_register_device :: "u8 list \<Rightarrow> u32 \<Rightarrow> u8 list \<Rightarrow> (int, 'w devfs) io" where
  "fifo_compat_register_device = compat_register fifo_register_device"
definition fifo_compat_unregister_device :: "int \<Rightarrow> (u8, 'w devfs) io" where "fifo_compat_unregister_device = compat_unregister"
definition fifo_compat_detect :: "u8 list \<Rightarrow> u32 \<Rightarrow> (u8, 'w devfs) io" where
  "fifo_compat_detect name port = on_dev (\<lambda>f. rbind (if_fifo_identify name f) (\<lambda>r. Ok (r, f)))"
definition fifo_compat_file_read :: "int \<Rightarrow> int \<Rightarrow> u8 list \<Rightarrow> u64 \<Rightarrow> (u64 \<times> u8 list, 'w devfs) io" where
  "fifo_compat_file_read = compat_read vfs_fifo_read"
definition fifo_compat_file_write :: "int \<Rightarrow> int \<Rightarrow> u8 list \<Rightarrow> u64 \<Rightarrow> (u64, 'w devfs) io" where
  "fifo_compat_file_write = compat_write vfs_fifo_write"
definition fifo_compat_file_seek :: "int \<Rightarrow> int \<Rightarrow> u64 \<Rightarrow> int \<Rightarrow> (u64, 'w devfs) io" where
  "fifo_compat_file_seek = compat_seek vfs_fifo_get_size"
definition fifo_compat_file_tell :: "int \<Rightarrow> int \<Rightarrow> (u64, 'w devfs) io" where "fifo_compat_file_tell = compat_tell"
definition fifo_compat_file_open :: "int \<Rightarrow> u8 list \<Rightarrow> u32 \<Rightarrow> u32 \<Rightarrow> (int, 'w devfs) io" where "fifo_compat_file_open = compat_open"
definition fifo_compat_file_close :: "int \<Rightarrow> int \<Rightarrow> (int, 'w devfs) io" where "fifo_compat_file_close = compat_close"
definition fifo_compat_file_flush :: "int \<Rightarrow> int \<Rightarrow> (int, 'w devfs) io" where "fifo_compat_file_flush = compat_flush fifo_sync"

definition fifo_ops :: "'w devfs fs_ops" where
  "fifo_ops = tty_ops\<lparr>op_register_partition := Some fifo_compat_register_device, op_detect := Some fifo_compat_detect,
     op_file_flush := Some fifo_compat_file_flush, op_file_open := Some fifo_compat_file_open, op_file_close := Some fifo_compat_file_close,
     op_file_read := Some fifo_compat_file_read, op_file_write := Some fifo_compat_file_write,
     op_file_seek := Some fifo_compat_file_seek, op_file_tell := Some fifo_compat_file_tell\<rparr>"

definition fifo_register :: "'w devfs fstype" where
  "fifo_register = \<lparr>ft_name = [70, 73, 70, 79, 0] @ replicate 27 0, ft_majors = 0x8e # replicate 255 0, ft_major_no = 1, ft_ops = fifo_ops\<rparr>"

section \<open>Opening a device\<close>

lemma compat_open_refuses:
  assumes "rest \<noteq> [47]" and "0 \<notin> set rest" and "length rest \<le> 65535" and "length (df_slots (efs e)) = 32"
  shows "compat_open devno (rest @ 0 # x) flags mode e = Ok (- 1, e)"
proof -
  have t: "terminated (rest @ 0 # x)" and c: "cstr (rest @ 0 # x) = rest" using cstr_terminated_app [OF assms(2)] by (simp_all add: terminated_def)
  have l: "strlen (rest @ 0 # x) = Ok (length rest)" using strlen_exact [OF t] c assms(3) by simp
  have "\<exists>r. strcmp (rest @ 0 # x) [47, 0] = Ok r \<and> r \<noteq> 0" if one: "length rest = 1"
  proof -
    obtain a where "rest = [a]" using one by (cases rest) auto
    with assms(1) show ?thesis using sint_eq_iff [of a 47] by auto
  qed
  with l assms(4) show ?thesis by (auto simp: compat_open_def dev_slot_def rd_def split: option.splits)
qed

abbreviation "table_of_32 e \<equiv> length (df_slots (efs e)) = 32"

interpretation terminals: root_only_fs tty_ops table_of_32
  by unfold_locales (simp add: tty_ops_def tty_compat_file_open_def compat_open_refuses)

interpretation fifos: root_only_fs fifo_ops table_of_32
  by unfold_locales (simp add: fifo_ops_def fifo_compat_file_open_def compat_open_refuses)

text \<open>No terminal and no FIFO can be opened: their adapters accept the path \<open>/\<close> only, and normalising takes the slash at
  the end of a path away before it gets there.\<close>

theorem device_files_never_open:
  assumes "terminated path" and "length (cstr path) \<le> 65535" and "belongs v (normalized (cstr path)) m rest"
    and "type_of m v = Ok tty_ops \<or> type_of m v = Ok fifo_ops" and "length (df_slots (efs (venv v))) = 32"
  shows "\<exists>q. vfs_file_open path flags mode v = Ok (- 1, q, v) \<and> cstr q = normalized (cstr path)"
  using assms(4) terminals.never_opens [OF assms(1-3) _ assms(5)] fifos.never_opens [OF assms(1-3) _ assms(5)] by blast

section \<open>An example\<close>

text \<open>One terminal, mounted as \<open>tp0\<close>.\<close>

definition tp_name :: "u8 list" where "tp_name = [116, 112, 48, 0] @ replicate 44 0"

definition tp_env :: "unit devfs fsenv" where
  "tp_env = \<lparr>etab = empty_fdtab, edisk = dsys_example, efs = \<lparr>df_tab = \<lparr>char_drivers = [], block_drivers = [], chain = [blank_device]\<rparr>,
     df_world = (), df_slots = Some (new_dev [116, 0] [116, 112, 48, 0]) # replicate 31 None\<rparr>, ejunk = (\<lambda>_. 0)\<rparr>"

definition tp_vfs :: "unit devfs vfs" where
  "tp_vfs = \<lparr>vroot_size = 1, vroots = [\<lparr>dm_dev = Some 0, dm_parts = Some [(new_part 0 0 0 0)\<lparr>vp_name := tp_name\<rparr>], dm_no = 1\<rparr>],
     vtypes = Some [fifo_register, tty_register], vmounts = Some [\<lparr>mt_device = 0, mt_partition = (0, 0), mt_fst = 1, mt_index = 0\<rparr>],
     venv = tp_env\<rparr>"

theorem device_files_never_open_witness:
  "\<exists>q. vfs_file_open [116, 112, 48, 47, 0] 0 0 tp_vfs = Ok (- 1, q, tp_vfs) \<and> cstr q = [116, 112, 48]"
proof -
  have p: "cstr [116, 112, 48, 47, 0] = [116, 112, 48, 47 :: u8]" "terminated [116, 112, 48, 47, 0]"
    by (simp_all add: cstr_simps terminated_def)
  have n: "normalized [116, 112, 48, 47] = [116, 112, 48]" by (simp add: normalized_def norm_from.simps(2) strip_end_def)
  let ?m = "\<lparr>mt_device = 0, mt_partition = (0, 0), mt_fst = 1, mt_index = 0\<rparr> :: vmount"
  have ms: "vmounts tp_vfs = Some [?m]" by (simp add: tp_vfs_def)
  have nm: "mount_name tp_vfs ?m [116, 112, 48]"
    by (simp add: mount_name_def tp_vfs_def parts_of_def tp_name_def cstr_simps terminated_simps new_part_def part_at_def)
  have "belongs tp_vfs (normalized (cstr [116, 112, 48, 47, 0])) ?m []"
    unfolding belongs_def p n by (intro exI [of _ "[] :: vmount list"] exI [of _ "[116, 112, 48]"]) (use nm ms in simp)
  moreover have "type_of ?m tp_vfs = Ok tty_ops" by (simp add: type_of_def tp_vfs_def tty_register_def)
  moreover have "length (df_slots (efs (venv tp_vfs))) = 32" by (simp add: tp_vfs_def tp_env_def)
  ultimately show ?thesis using device_files_never_open [of "[116, 112, 48, 47, 0]" tp_vfs ?m "[]" 0 0] p n by auto
qed

end
