(* ===== verification/SegmentTables.thy ===== *)
theory SegmentTables
  imports Interrupts
begin

text \<open>The tables of the processor: the segment descriptors of \<open>arch/gdt.c\<close> and the task-state segment of
  \<open>arch/tss.c\<close>. Loading a table into the processor (\<open>load_gdt\<close>) and the functions that print are left out.\<close>

section \<open>Segment descriptors\<close>

text \<open>\<open>gdt_entry_t\<close>; \<open>g_limit_middle\<close> and \<open>g_granularity\<close> are bit fields of 4 bits that share a byte.\<close>

record gdt_entry_t =
  g_limit_low :: u16
  g_base_low :: u16
  g_base_middle :: u8
  g_flags :: u8
  g_limit_middle :: u8
  g_granularity :: u8
  g_base_high :: u8

record tss_entry_t =
  t_length :: u16
  t_base_low :: u16
  t_base_middle :: u8
  t_flags1 :: u8
  t_flags2 :: u8
  t_base_high :: u8
  t_base_upper :: u32
  t_reserved :: u32

record gdt_t =
  entries :: "gdt_entry_t list"
  gdt_tss :: tss_entry_t

definition GDT_PRESENT :: u8 where "GDT_PRESENT = 0x80"
definition GDT_USER :: u8 where "GDT_USER = 0x60"
definition GDT_SEGMENT :: u8 where "GDT_SEGMENT = 0x10"
definition GDT_EXECUTABLE :: u8 where "GDT_EXECUTABLE = 8"
definition GDT_READWRITE :: u8 where "GDT_READWRITE = 2"
definition GDT_LONG_MODE_GRANULARITY :: u8 where "GDT_LONG_MODE_GRANULARITY = 2"

abbreviation "GDT_MAX_CPU \<equiv> (32 :: nat)"
abbreviation "GDT_ENTRY_COUNT \<equiv> (6 :: nat)"
abbreviation "GDT_KERNEL_CODE_ENTRY \<equiv> (1 :: nat)"
abbreviation "GDT_KERNEL_DATA_ENTRY \<equiv> (2 :: nat)"
abbreviation "GDT_USER_DATA_ENTRY \<equiv> (4 :: nat)"
abbreviation "GDT_USER_CODE_ENTRY \<equiv> (5 :: nat)"
abbreviation "GDT_TSS_ENTRY \<equiv> (6 :: nat)"

definition gdt_entry :: "u32 \<Rightarrow> u32 \<Rightarrow> u8 \<Rightarrow> u8 \<Rightarrow> gdt_entry_t" where
  "gdt_entry base limit granularity flags = \<lparr>g_limit_low = ucast (limit AND 0xffff), g_base_low = ucast (base AND 0xffff),
     g_base_middle = ucast (drop_bit 16 base AND 0xff), g_flags = flags, g_limit_middle = ucast (drop_bit 16 limit AND 0x0f),
     g_granularity = granularity AND 0xf, g_base_high = ucast (drop_bit 24 base AND 0xff)\<rparr>"

definition gdt_null_entry :: gdt_entry_t where "gdt_null_entry = gdt_entry 0 0 0 0"

definition gdt_simple_entry :: "u8 \<Rightarrow> u8 \<Rightarrow> gdt_entry_t" where
  "gdt_simple_entry flags granularity = gdt_entry 0 0 granularity flags"

text \<open>\<open>sizeof(struct tss)\<close> is 104.\<close>

definition gdt_tss_entry :: "u64 \<Rightarrow> tss_entry_t" where
  "gdt_tss_entry a = \<lparr>t_length = 104, t_base_low = ucast (a AND 0xffff), t_base_middle = ucast (drop_bit 16 a AND 0xff),
     t_flags1 = 0x89, t_flags2 = 0, t_base_high = ucast (drop_bit 24 a AND 0xff), t_base_upper = ucast (drop_bit 32 a), t_reserved = 0\<rparr>"

text \<open>The table of one processor; \<open>tss\<close> is the address of the task-state segment, which all processors share.\<close>

definition new_gdt :: "u64 \<Rightarrow> gdt_t" where
  "new_gdt tss = \<lparr>entries = [gdt_null_entry,
       gdt_simple_entry (GDT_PRESENT OR GDT_SEGMENT OR GDT_READWRITE OR GDT_EXECUTABLE) GDT_LONG_MODE_GRANULARITY,
       gdt_simple_entry (GDT_PRESENT OR GDT_SEGMENT OR GDT_READWRITE) 0,
       gdt_null_entry,
       gdt_simple_entry (GDT_PRESENT OR GDT_SEGMENT OR GDT_READWRITE OR GDT_USER) 0,
       gdt_simple_entry (GDT_PRESENT OR GDT_SEGMENT OR GDT_READWRITE OR GDT_EXECUTABLE OR GDT_USER) GDT_LONG_MODE_GRANULARITY],
     gdt_tss = gdt_tss_entry tss\<rparr>"

definition create_gdt :: "u64 \<Rightarrow> gdt_t list" where
  "create_gdt tss = replicate GDT_MAX_CPU (new_gdt tss)"

definition get_kernel_code_selector :: u16 where "get_kernel_code_selector = push_bit 3 (of_nat GDT_KERNEL_CODE_ENTRY)"
definition get_kernel_data_selector :: u16 where "get_kernel_data_selector = push_bit 3 (of_nat GDT_KERNEL_DATA_ENTRY)"
definition get_user_code_selector :: u16 where "get_user_code_selector = push_bit 3 (of_nat GDT_USER_CODE_ENTRY)"
definition get_user_data_selector :: u16 where "get_user_data_selector = push_bit 3 (of_nat GDT_USER_DATA_ENTRY)"
definition get_tss_selector :: u16 where "get_tss_selector = push_bit 3 (of_nat GDT_TSS_ENTRY)"

section \<open>The task-state segment\<close>

record tss =
  tss_rsp :: "u64 list"
  tss_reserved1 :: u64
  tss_ist :: "u64 list"
  tss_reserved2 :: u64
  tss_iopb :: u16

definition blank_tss :: tss where
  "blank_tss = \<lparr>tss_rsp = replicate 3 0, tss_reserved1 = 0, tss_ist = replicate 7 0, tss_reserved2 = 0, tss_iopb = 0\<rparr>"

definition DLP_CONVERT :: "u8 \<Rightarrow> nat" where
  "DLP_CONVERT dpl = (if dpl = 0 then 0 else unat dpl - 1)"

definition tss_set_stack :: "tss \<Rightarrow> u64 \<Rightarrow> u8 \<Rightarrow> tss result" where
  "tss_set_stack t stack dpl = rbind (wr (tss_rsp t) (DLP_CONVERT dpl) stack) (\<lambda>r. Ok (t\<lparr>tss_rsp := r\<rparr>))"

definition tss_get_stack :: "tss \<Rightarrow> u8 \<Rightarrow> u64 result" where
  "tss_get_stack t dpl = rd (tss_rsp t) (DLP_CONVERT dpl)"

text \<open>The index \<open>n - 1\<close> is an \<open>int\<close>: \<open>n = 0\<close> is the word before the array, \<open>n = 8\<close> the word behind it. Both are reserved.\<close>

definition tss_set_ist :: "tss \<Rightarrow> u8 \<Rightarrow> u64 \<Rightarrow> tss result" where
  "tss_set_ist t n stack = (if n = 0 then Ok (t\<lparr>tss_reserved1 := stack\<rparr>) else if n = 8 then Ok (t\<lparr>tss_reserved2 := stack\<rparr>)
     else rbind (wr (tss_ist t) (unat n - 1) stack) (\<lambda>i. Ok (t\<lparr>tss_ist := i\<rparr>)))"

definition tss_get_ist :: "tss \<Rightarrow> u8 \<Rightarrow> u64 result" where
  "tss_get_ist t n = (if n = 0 then Ok (tss_reserved1 t) else if n = 8 then Ok (tss_reserved2 t) else rd (tss_ist t) (unat n - 1))"

section \<open>What the processor reads\<close>

text \<open>The base and the limit of a descriptor as the processor puts them together.\<close>

definition entry_base :: "gdt_entry_t \<Rightarrow> u32" where
  "entry_base e = ucast (g_base_low e) OR push_bit 16 (ucast (g_base_middle e)) OR push_bit 24 (ucast (g_base_high e))"

definition entry_limit :: "gdt_entry_t \<Rightarrow> u32" where
  "entry_limit e = ucast (g_limit_low e) OR push_bit 16 (ucast (g_limit_middle e))"

definition tss_base :: "tss_entry_t \<Rightarrow> u64" where
  "tss_base e = ucast (t_base_low e) OR push_bit 16 (ucast (t_base_middle e)) OR push_bit 24 (ucast (t_base_high e))
     OR push_bit 32 (ucast (t_base_upper e))"

lemma low_masks: "(x :: 'a::len word) AND 0xffff = take_bit 16 x" "x AND 0xff = take_bit 8 x" "x AND 0x0f = take_bit 4 x"
proof -
  have "(0xffff :: 'a word) = mask 16" "(0xff :: 'a word) = mask 8" "(0x0f :: 'a word) = mask 4"
    by (simp_all add: mask_eq_exp_minus_1)
  thus "x AND 0xffff = take_bit 16 x" "x AND 0xff = take_bit 8 x" "x AND 0x0f = take_bit 4 x"
    by (simp_all only: take_bit_eq_mask)
qed

lemma entry_base_of: "entry_base (gdt_entry base limit gran flags) = base"
proof (rule bit_word_eqI)
  fix n :: nat assume "n < LENGTH(32)"
  hence n: "n < 32" by simp
  consider "n < 16" | "16 \<le> n" "n < 24" | "24 \<le> n" by linarith
  then show "bit (entry_base (gdt_entry base limit gran flags)) n = bit base n"
    by cases (use n in \<open>auto simp: entry_base_def gdt_entry_def low_masks bit_simps dest: bit_imp_le_length\<close>)
qed

lemma entry_limit_of: "entry_limit (gdt_entry base limit gran flags) = take_bit 20 limit"
proof (rule bit_word_eqI)
  fix n :: nat assume "n < LENGTH(32)"
  hence n: "n < 32" by simp
  consider "n < 16" | "16 \<le> n" "n < 20" | "20 \<le> n" by linarith
  then show "bit (entry_limit (gdt_entry base limit gran flags)) n = bit (take_bit 20 limit) n"
    by cases (use n in \<open>auto simp: entry_limit_def gdt_entry_def low_masks bit_simps dest: bit_imp_le_length\<close>)
qed

lemma tss_base_of: "tss_base (gdt_tss_entry a) = a"
proof (rule bit_word_eqI)
  fix n :: nat assume "n < LENGTH(64)"
  hence n: "n < 64" by simp
  consider "n < 16" | "16 \<le> n" "n < 24" | "24 \<le> n" "n < 32" | "32 \<le> n" by linarith
  then show "bit (tss_base (gdt_tss_entry a)) n = bit a n"
    by cases (use n in \<open>auto simp: tss_base_def gdt_tss_entry_def low_masks bit_simps dest: bit_imp_le_length\<close>)
qed

text \<open>Bits of a descriptor's flags.\<close>

definition is_code :: "gdt_entry_t \<Rightarrow> bool" where "is_code e \<longleftrightarrow> bit (g_flags e) 3"
definition privilege_of :: "gdt_entry_t \<Rightarrow> u8" where "privilege_of e = drop_bit 5 (g_flags e) AND 3"
definition present_of :: "gdt_entry_t \<Rightarrow> bool" where "present_of e \<longleftrightarrow> bit (g_flags e) 7"
definition long_mode :: "gdt_entry_t \<Rightarrow> bool" where "long_mode e \<longleftrightarrow> bit (g_granularity e) 1"

text \<open>The selectors name the descriptors they are meant for: kernel code and data with privilege 0, user code and data with
  privilege 3, the code in 64-bit mode, all of them present and with base 0; the system descriptor holds the address
  of the task-state segment.\<close>

theorem selectors_name_segments:
  fixes tss :: u64 and i :: nat
  assumes "i < GDT_MAX_CPU"
  defines "d \<equiv> \<lambda>sel. entries (create_gdt tss ! i) ! unat (drop_bit 3 (sel :: u16))"
  shows "is_code (d get_kernel_code_selector) \<and> privilege_of (d get_kernel_code_selector) = 0 \<and> long_mode (d get_kernel_code_selector)"
    and "\<not> is_code (d get_kernel_data_selector) \<and> privilege_of (d get_kernel_data_selector) = 0"
    and "is_code (d get_user_code_selector) \<and> privilege_of (d get_user_code_selector) = 3 \<and> long_mode (d get_user_code_selector)"
    and "\<not> is_code (d get_user_data_selector) \<and> privilege_of (d get_user_data_selector) = 3"
    and "\<forall>sel \<in> {get_kernel_code_selector, get_kernel_data_selector, get_user_code_selector, get_user_data_selector}.
      present_of (d sel) \<and> entry_base (d sel) = 0"
    and "tss_base (gdt_tss (create_gdt tss ! i)) = tss"
proof -
  have g: "create_gdt tss ! i = new_gdt tss" using assms by (simp add: create_gdt_def)
  have s: "unat (drop_bit 3 get_kernel_code_selector) = 1" "unat (drop_bit 3 get_kernel_data_selector) = 2"
    "unat (drop_bit 3 get_user_code_selector) = 5" "unat (drop_bit 3 get_user_data_selector) = 4"
    by (simp_all add: get_kernel_code_selector_def get_kernel_data_selector_def get_user_code_selector_def get_user_data_selector_def)
  note defs = d_def g s new_gdt_def gdt_simple_entry_def entry_base_of tss_base_of is_code_def privilege_of_def long_mode_def present_of_def
    gdt_entry_def GDT_PRESENT_def GDT_SEGMENT_def GDT_READWRITE_def GDT_EXECUTABLE_def GDT_USER_def GDT_LONG_MODE_GRANULARITY_def
  show "is_code (d get_kernel_code_selector) \<and> privilege_of (d get_kernel_code_selector) = 0 \<and> long_mode (d get_kernel_code_selector)"
    by (simp add: defs)
  show "\<not> is_code (d get_kernel_data_selector) \<and> privilege_of (d get_kernel_data_selector) = 0" by (simp add: defs)
  show "is_code (d get_user_code_selector) \<and> privilege_of (d get_user_code_selector) = 3 \<and> long_mode (d get_user_code_selector)"
    by (simp add: defs)
  show "\<not> is_code (d get_user_data_selector) \<and> privilege_of (d get_user_data_selector) = 3" by (simp add: defs)
  show "\<forall>sel \<in> {get_kernel_code_selector, get_kernel_data_selector, get_user_code_selector, get_user_data_selector}.
      present_of (d sel) \<and> entry_base (d sel) = 0"
    by (simp add: defs entry_base_def)
  show "tss_base (gdt_tss (create_gdt tss ! i)) = tss" by (simp add: g new_gdt_def tss_base_of)
qed

end
