(* ===== verification/Pit.thy ===== *)
theory Pit
  imports Prelude
begin

text \<open>The timer (\<open>devices/pit/pit.c\<close>): ticks, conversions to seconds and milliseconds, and the tests the
  interrupt handler makes after each tick. Port writes are a log; \<open>sleep_ticks\<close> is modelled by the
  sequence of tick counts it sees between its calls of \<open>yield\<close>.\<close>

record pit =
  boot_epoch :: u64
  hertz :: u64
  timer_ticks :: u64
  preemption_ticks :: u64
  preemption_enabled :: u8
  wakeup_handler :: nat
  wakeup_ticks :: u64
  pit_outs :: "(u16 \<times> u8) list"

text \<open>The divisor is computed with C \<open>int\<close>s; a frequency of zero divides by zero.\<close>

definition timer_phase :: "pit \<Rightarrow> int \<Rightarrow> pit result" where
  "timer_phase p hz = (if hz = 0 then Err Fault else
     let divisor = word_of_int ((7159090 + 6 div 2) div (6 * hz)) :: 32 word in
     Ok (p\<lparr>pit_outs := pit_outs p @ [(0x43, 0x36), (0x40, ucast (divisor AND 0xFF)),
                                       (0x40, ucast (drop_bit 8 divisor AND 0xFF))]\<rparr>))"

definition init_pit :: "pit \<Rightarrow> u64 \<Rightarrow> int \<Rightarrow> pit result" where
  "init_pit p boot hz = timer_phase (p\<lparr>boot_epoch := boot, timer_ticks := 0, preemption_ticks := 0,
     preemption_enabled := 0, hertz := word_of_int hz, wakeup_handler := 0, wakeup_ticks := 0\<rparr>) hz"

definition tick :: "pit \<Rightarrow> pit" where
  "tick p = p\<lparr>timer_ticks := timer_ticks p + 1\<rparr>"

definition requires_wakeup :: "pit \<Rightarrow> bool" where
  "requires_wakeup p \<longleftrightarrow> (wakeup_handler p \<noteq> 0 \<and> wakeup_ticks p \<noteq> 0 \<and> timer_ticks p mod wakeup_ticks p \<noteq> 0)"

definition seconds_to_ticks :: "pit \<Rightarrow> u64 \<Rightarrow> u64" where
  "seconds_to_ticks p s = s * hertz p"

definition ticks_to_seconds :: "pit \<Rightarrow> u64 \<Rightarrow> u64" where
  "ticks_to_seconds p t = (if hertz p = 0 then 0 else if t = 0 then 0 else if t < hertz p then 1 else t div hertz p)"

definition ticks_to_ms :: "pit \<Rightarrow> u64 \<Rightarrow> u64" where
  "ticks_to_ms p t = (if hertz p = 0 then 0 else if t = 0 then 0 else if t * 1000 < hertz p then 1000
     else t * 1000 div hertz p)"

definition ms_to_ticks :: "pit \<Rightarrow> u64 \<Rightarrow> u64" where
  "ms_to_ticks p ms = (let cuak = ms * hertz p in if cuak < 1000 then 1 else cuak div 1000)"

definition set_wakeup_call :: "pit \<Rightarrow> nat \<Rightarrow> u64 \<Rightarrow> pit" where
  "set_wakeup_call p h t = (if h = 0 then p\<lparr>wakeup_handler := 0, wakeup_ticks := 0\<rparr>
     else p\<lparr>wakeup_handler := h, wakeup_ticks := t\<rparr>)"

definition set_preemption_ticks :: "pit \<Rightarrow> u64 \<Rightarrow> pit" where
  "set_preemption_ticks p t = p\<lparr>preemption_ticks := t\<rparr>"

definition preempt_toggle :: "pit \<Rightarrow> pit" where
  "preempt_toggle p = p\<lparr>preemption_enabled := (if preemption_enabled p = 0 then 1 else 0)\<rparr>"

definition enable_preemption :: "pit \<Rightarrow> pit" where
  "enable_preemption p = p\<lparr>preemption_enabled := 1\<rparr>"

definition requires_preemption :: "pit \<Rightarrow> bool" where
  "requires_preemption p = (if preemption_enabled p = 0 \<or> preemption_ticks p = 0 then False
     else timer_ticks p mod preemption_ticks p = 0)"

definition get_ticks_since_boot :: "pit \<Rightarrow> u64" where
  "get_ticks_since_boot p = timer_ticks p"

definition get_epoch :: "pit \<Rightarrow> u64" where
  "get_epoch p = boot_epoch p + ticks_to_seconds p (timer_ticks p)"

text \<open>The number of yields of \<open>sleep_ticks\<close> when the counter reads \<open>start\<close> at first and then the values
  of the list; it does not return if the list ends before the time has passed.\<close>

fun sleep_ticks :: "u64 \<Rightarrow> u64 \<Rightarrow> u64 list \<Rightarrow> nat result" where
  "sleep_ticks start t [] = Err Diverge"
| "sleep_ticks start t (now # later) = (if now - start < t then rbind (sleep_ticks start t later) (\<lambda>n. Ok (n + 1)) else Ok 0)"

definition sleep :: "pit \<Rightarrow> u64 \<Rightarrow> u64 list \<Rightarrow> nat result" where
  "sleep p s reads = sleep_ticks (timer_ticks p) (seconds_to_ticks p s) reads"

text \<open>Sleeping ends when the tick counter has advanced by the requested number, also when the counter
  wraps around, and yields once per reading before that.\<close>

lemma sleep_ticks_wraps:
  assumes t: "unat t \<le> n"
  shows "sleep_ticks start t (map (\<lambda>i. start + of_nat i) [0..<Suc n]) = Ok (unat t)"
proof -
  have "sleep_ticks start t (map (\<lambda>i. start + of_nat i) [k..<Suc n]) = Ok (unat t - k)" if "k \<le> unat t" for k
    using that
  proof (induction "unat t - k" arbitrary: k)
    case 0
    hence k: "k = unat t" by simp
    then show ?case using t by (simp add: upt_rec)
  next
    case (Suc m)
    hence k: "k < unat t" by simp
    hence "k < 18446744073709551616" using unat_u64 [of t] by linarith
    hence "(of_nat k :: u64) < t" using k by (simp add: word_less_nat_alt)
    moreover have "sleep_ticks start t (map (\<lambda>i. start + of_nat i) [Suc k..<Suc n]) = Ok (unat t - Suc k)"
      using Suc.hyps k by simp
    moreover have "[k..<Suc n] = k # [Suc k..<Suc n]" using k t by (simp add: upt_rec)
    ultimately show ?case using k by simp
  qed
  from this [of 0] show ?thesis by simp
qed

text \<open>with preemption on, the interrupt handler yields exactly at the ticks that are multiples of the
  time slice; a wake-up call with the same period is made exactly at the other ticks.\<close>

theorem preemption_and_wakeup:
  assumes "preemption_enabled p \<noteq> 0" and "preemption_ticks p = n" and "n \<noteq> 0"
    and "wakeup_handler p \<noteq> 0" and "wakeup_ticks p = n"
  shows "(requires_preemption p \<longleftrightarrow> unat n dvd unat (timer_ticks p))
    \<and> (requires_wakeup p \<longleftrightarrow> \<not> unat n dvd unat (timer_ticks p))"
  using assms unat_mod_eq_0 [of "timer_ticks p" n]
  by (simp_all add: requires_preemption_def requires_wakeup_def dvd_eq_mod_eq_0)

definition pit_example :: pit where
  "pit_example = \<lparr>boot_epoch = 0, hertz = 100, timer_ticks = 12, preemption_ticks = 4, preemption_enabled = 1,
     wakeup_handler = 9, wakeup_ticks = 4, pit_outs = []\<rparr>"

theorem preemption_and_wakeup_witness: "requires_preemption pit_example \<and> \<not> requires_wakeup pit_example"
  using preemption_and_wakeup [of pit_example 4] by (simp add: pit_example_def)

end
