(* ===== verification/Scheduler.thy ===== *)
theory Scheduler
  imports CString Pit
begin

text \<open>The scheduler (\<open>sched/scheduler.c\<close>) and the locks of \<open>sched/concurrency.c\<close>. Tasks are records in a
  store, linked by addresses (zero is the null pointer). The processor state a task carries (context,
  stacks, page tables, segment selectors) is not part of the record; a context switch is logged as the
  pair of the tasks involved. The invariant \<open>sched_ok\<close> and the calls of \<open>do_call\<close> cover every operation that
  changes the scheduler; \<open>scheduler_safe\<close> says what any sequence of them may do.\<close>

section \<open>State\<close>

record task_signal =
  sig_no :: int
  sig_data :: nat
  sig_size :: u64

record task =
  pid :: int
  ppid :: int
  state :: int
  flags :: u64
  privilege :: u8
  cpu_time :: u64
  last_scheduled :: u64
  exit_code :: int
  exit_signal :: int
  signal_queue :: "task_signal list"
  signal_handlers :: "nat list"
  ttyname :: "u8 list"
  parent :: nat
  next_task :: nat
  prev_task :: nat

record sched =
  tasks :: "nat \<Rightarrow> task option"
  task_head :: nat
  current_task :: nat
  irq_disable_counter :: int
  irqs_on :: bool
  spit :: pit
  switches :: "(nat \<times> nat) list"
  handled :: "(nat \<times> int \<times> nat \<times> u64) list"

abbreviation "TASK_EXECUTING \<equiv> (0 :: int)"
abbreviation "TASK_READY \<equiv> (1 :: int)"
abbreviation "TASK_UNINTERRUPTIBLE \<equiv> (3 :: int)"
abbreviation "TASK_ZOMBIE \<equiv> (5 :: int)"
abbreviation "TASK_IDLE \<equiv> (8 :: int)"
abbreviation "SIGKILL \<equiv> (9 :: int)"

definition TASK_SIGNAL_MAX :: nat where "TASK_SIGNAL_MAX = 32"

definition get_t :: "sched \<Rightarrow> nat \<Rightarrow> task result" where
  "get_t s a = (case tasks s a of None \<Rightarrow> Err Fault | Some t \<Rightarrow> Ok t)"

definition upd_t :: "sched \<Rightarrow> nat \<Rightarrow> (task \<Rightarrow> task) \<Rightarrow> sched result" where
  "upd_t s a f = (case tasks s a of None \<Rightarrow> Err Fault | Some t \<Rightarrow> Ok (s\<lparr>tasks := (tasks s)(a \<mapsto> f t)\<rparr>))"

definition lock_scheduler :: "sched \<Rightarrow> sched" where
  "lock_scheduler s = s\<lparr>irqs_on := False, irq_disable_counter := irq_disable_counter s + 1\<rparr>"

definition unlock_scheduler :: "sched \<Rightarrow> sched" where
  "unlock_scheduler s = (let s1 = s\<lparr>irq_disable_counter := irq_disable_counter s - 1\<rparr> in
     if irq_disable_counter s1 = 0 then s1\<lparr>irqs_on := True\<rparr> else s1)"

section \<open>Choosing the next task\<close>

text \<open>The loop of \<open>schedule\<close>: the next task in the list, cyclically, that can run; \<open>None\<close> when it came
  back to the task it started from. \<open>k\<close> bounds the steps.\<close>

fun find_runnable :: "nat \<Rightarrow> sched \<Rightarrow> nat \<Rightarrow> nat \<Rightarrow> nat option result" where
  "find_runnable 0 s cur original = Err Diverge"
| "find_runnable (Suc k) s cur original = rbind (get_t s cur) (\<lambda>c.
     let cur1 = (if next_task c = 0 then task_head s else next_task c) in
     rbind (get_t s cur1) (\<lambda>t.
       if state t = TASK_READY \<or> state t = TASK_EXECUTING then Ok (Some cur1)
       else if cur1 = original then Ok None
       else find_runnable k s cur1 original))"

definition schedule :: "nat \<Rightarrow> sched \<Rightarrow> (nat \<times> sched) result" where
  "schedule k s = rbind (find_runnable k s (current_task s) (current_task s)) (\<lambda>r.
     rbind (case r of Some n \<Rightarrow> Ok n
            | None \<Rightarrow> rbind (get_t s (task_head s)) (\<lambda>h.
                rbind (guard (state h = TASK_IDLE) ''Idle task is not valid or at head'') (\<lambda>_. Ok (task_head s)))) (\<lambda>n.
     rbind (get_t s (current_task s)) (\<lambda>c.
     rbind (if state c = TASK_EXECUTING then upd_t s (current_task s) (\<lambda>t. t\<lparr>state := TASK_READY\<rparr>) else Ok s) (\<lambda>s1.
     rbind (get_t s1 n) (\<lambda>t.
     rbind (if state t = TASK_READY then upd_t s1 n (\<lambda>t. t\<lparr>state := TASK_EXECUTING\<rparr>) else Ok s1) (\<lambda>s2.
       Ok (current_task s, s2\<lparr>current_task := n\<rparr>)))))))"

definition yield :: "nat \<Rightarrow> sched \<Rightarrow> sched result" where
  "yield k s = (let s0 = s\<lparr>irqs_on := False\<rparr>; now = get_ticks_since_boot (spit s) in
     rbind (upd_t s0 (current_task s0) (\<lambda>t. if last_scheduled t \<noteq> 0
              then t\<lparr>cpu_time := cpu_time t + (now - last_scheduled t)\<rparr> else t)) (\<lambda>s1.
     rbind (schedule k s1) (\<lambda>(prev, s2).
     rbind (upd_t s2 (current_task s2) (\<lambda>t. t\<lparr>last_scheduled := now\<rparr>)) (\<lambda>s3.
       Ok (s3\<lparr>switches := switches s3 @ [(prev, current_task s3)]\<rparr>)))))"

definition block_task :: "nat \<Rightarrow> sched \<Rightarrow> int \<Rightarrow> sched result" where
  "block_task k s reason = (let s0 = lock_scheduler s in
     rbind (upd_t s0 (current_task s0) (\<lambda>t. t\<lparr>state := reason\<rparr>)) (\<lambda>s1.
     rbind (yield k s1) (\<lambda>s2. Ok (unlock_scheduler s2))))"

definition unblock_task :: "nat \<Rightarrow> sched \<Rightarrow> nat \<Rightarrow> sched result" where
  "unblock_task k s a = (let s0 = lock_scheduler s in
     rbind (upd_t s0 a (\<lambda>t. t\<lparr>state := TASK_READY\<rparr>)) (\<lambda>s1.
     rbind (yield k s1) (\<lambda>s2. Ok (unlock_scheduler s2))))"

section \<open>The task list\<close>

fun last_task :: "nat \<Rightarrow> sched \<Rightarrow> nat \<Rightarrow> nat result" where
  "last_task 0 s a = Err Diverge"
| "last_task (Suc k) s a = rbind (get_t s a) (\<lambda>t. if next_task t \<noteq> 0 then last_task k s (next_task t) else Ok a)"

definition add_task :: "nat \<Rightarrow> sched \<Rightarrow> nat \<Rightarrow> sched result" where
  "add_task k s a = (let s0 = lock_scheduler s in
     if task_head s0 = 0 then Ok (unlock_scheduler (s0\<lparr>task_head := a\<rparr>))
     else rbind (last_task k s0 (task_head s0)) (\<lambda>l.
       rbind (upd_t s0 l (\<lambda>t. t\<lparr>next_task := a\<rparr>)) (\<lambda>s1.
       rbind (upd_t s1 a (\<lambda>t. t\<lparr>prev_task := l\<rparr>)) (\<lambda>s2. Ok (unlock_scheduler s2)))))"

definition remove_task :: "sched \<Rightarrow> nat \<Rightarrow> sched result" where
  "remove_task s a = (let s0 = lock_scheduler s in
     rbind (get_t s0 a) (\<lambda>t.
       if prev_task t = 0
       then let s1 = s0\<lparr>task_head := next_task t\<rparr> in
         rbind (if task_head s1 \<noteq> 0 then upd_t s1 (task_head s1) (\<lambda>h. h\<lparr>prev_task := 0\<rparr>) else Ok s1) (\<lambda>s2.
           Ok (unlock_scheduler s2))
       else rbind (upd_t s0 (prev_task t) (\<lambda>p. p\<lparr>next_task := next_task t\<rparr>)) (\<lambda>s1.
         rbind (if next_task t \<noteq> 0 then upd_t s1 (next_task t) (\<lambda>n. n\<lparr>prev_task := prev_task t\<rparr>) else Ok s1) (\<lambda>s2.
           Ok (unlock_scheduler s2)))))"

text \<open>\<open>get_task\<close> and \<open>get_status\<close> return the first task of the list with a given pid or state.\<close>

fun first_task :: "nat \<Rightarrow> (task \<Rightarrow> bool) \<Rightarrow> sched \<Rightarrow> nat \<Rightarrow> nat result" where
  "first_task 0 P s a = Err Diverge"
| "first_task (Suc k) P s a = (if a = 0 then Ok 0
     else rbind (get_t s a) (\<lambda>t. if P t then Ok a else first_task k P s (next_task t)))"

definition get_task :: "nat \<Rightarrow> sched \<Rightarrow> int \<Rightarrow> nat result" where
  "get_task k s p = first_task k (\<lambda>t. pid t = p) s (task_head s)"

definition get_status :: "nat \<Rightarrow> sched \<Rightarrow> int \<Rightarrow> nat result" where
  "get_status k s st = first_task k (\<lambda>t. state t = st) s (task_head s)"

fun free_pid_from :: "nat \<Rightarrow> nat \<Rightarrow> sched \<Rightarrow> int \<Rightarrow> int result" where
  "free_pid_from 0 k s p = Err Diverge"
| "free_pid_from (Suc n) k s p = rbind (get_task k s p) (\<lambda>a. if a \<noteq> 0 then free_pid_from n k s (p + 1) else Ok p)"

definition get_free_pid :: "nat \<Rightarrow> sched \<Rightarrow> int result" where
  "get_free_pid k s = free_pid_from k k s 1"

section \<open>Life of a task\<close>

text \<open>\<open>create_task\<close>: the record at the address \<open>kmalloc\<close> returned, as far as the model keeps it; the
  context, the stacks and the open files are set up by code outside this model. \<open>junk\<close> is the memory of
  the name of the terminal.\<close>

definition create_task :: "nat \<Rightarrow> sched \<Rightarrow> nat \<Rightarrow> u8 \<Rightarrow> u8 list \<Rightarrow> u8 list \<Rightarrow> sched result" where
  "create_task k s a priv tty junk = (let s0 = lock_scheduler s in
     rbind (get_free_pid k s0) (\<lambda>p.
     rbind (if current_task s0 = 0 then Ok 0 else rbind (get_t s0 (current_task s0)) (\<lambda>c. Ok (pid c))) (\<lambda>pp.
     rbind (rbind (strlen tty) (strncpy junk tty)) (\<lambda>name.
       Ok (unlock_scheduler (s0\<lparr>tasks := (tasks s0)(a \<mapsto>
         \<lparr>pid = p, ppid = pp, state = TASK_READY, flags = 0, privilege = priv, cpu_time = 0, last_scheduled = 0,
          exit_code = 0, exit_signal = 0, signal_queue = [], signal_handlers = replicate TASK_SIGNAL_MAX 0,
          ttyname = name, parent = (if current_task s0 = 0 then a else current_task s0),
          next_task = 0, prev_task = 0\<rparr>)\<rparr>))))))"

definition exit_task :: "sched \<Rightarrow> sched result" where
  "exit_task s = (let s0 = lock_scheduler s in
     rbind (upd_t s0 (current_task s0) (\<lambda>t. t\<lparr>exit_code := 0, state := TASK_ZOMBIE\<rparr>)) (\<lambda>s1. Ok (unlock_scheduler s1)))"

definition kill_task :: "nat \<Rightarrow> sched \<Rightarrow> int \<Rightarrow> sched result" where
  "kill_task k s p = (let s0 = lock_scheduler s in
     rbind (get_task k s0 p) (\<lambda>a. if a = 0 then Ok (unlock_scheduler s0)
       else rbind (upd_t s0 a (\<lambda>t. t\<lparr>exit_code := 0, exit_signal := SIGKILL, state := TASK_ZOMBIE\<rparr>)) (\<lambda>s1.
         Ok (unlock_scheduler s1))))"

definition pause_task :: "sched \<Rightarrow> nat \<Rightarrow> sched result" where
  "pause_task s a = rbind (upd_t (lock_scheduler s) a (\<lambda>t. t\<lparr>state := TASK_UNINTERRUPTIBLE\<rparr>)) (\<lambda>s1. Ok (unlock_scheduler s1))"

definition resume_task :: "sched \<Rightarrow> nat \<Rightarrow> sched result" where
  "resume_task s a = rbind (upd_t (lock_scheduler s) a (\<lambda>t. t\<lparr>state := TASK_READY\<rparr>)) (\<lambda>s1. Ok (unlock_scheduler s1))"

text \<open>The idle task at the address \<open>a\<close>.\<close>

definition init_scheduler :: "nat \<Rightarrow> sched \<Rightarrow> nat \<Rightarrow> u8 list \<Rightarrow> sched result" where
  "init_scheduler k s a junk = (let s0 = lock_scheduler s in
     rbind (create_task k s0 a 0 [100, 101, 102, 97, 117, 108, 116, 0] junk) (\<lambda>s1.
     rbind (upd_t s1 a (\<lambda>t. t\<lparr>pid := 0, state := TASK_IDLE\<rparr>)) (\<lambda>s2.
     rbind (add_task k s2 a) (\<lambda>s3. Ok (unlock_scheduler (s3\<lparr>current_task := task_head s3\<rparr>))))))"

section \<open>Signals and terminals\<close>

definition subscribe_signal :: "sched \<Rightarrow> int \<Rightarrow> nat \<Rightarrow> sched result" where
  "subscribe_signal s sg h = (let s0 = lock_scheduler s in
     rbind (get_t s0 (current_task s0)) (\<lambda>t.
     rbind (if sg < 0 then Err Fault else wr (signal_handlers t) (nat sg) h) (\<lambda>hs.
     rbind (upd_t s0 (current_task s0) (\<lambda>t. t\<lparr>signal_handlers := hs\<rparr>)) (\<lambda>s1. Ok (unlock_scheduler s1)))))"

definition add_signal :: "nat \<Rightarrow> sched \<Rightarrow> int \<Rightarrow> int \<Rightarrow> nat \<Rightarrow> u64 \<Rightarrow> sched result" where
  "add_signal k s p sg data n = (let s0 = lock_scheduler s in
     rbind (get_task k s0 p) (\<lambda>a. if a = 0 then Ok (unlock_scheduler s0)
       else rbind (upd_t s0 a (\<lambda>t. t\<lparr>signal_queue := signal_queue t @ [\<lparr>sig_no = sg, sig_data = data, sig_size = n\<rparr>]\<rparr>)) (\<lambda>s1.
         Ok (unlock_scheduler s1))))"

text \<open>One round of \<open>process_loop\<close>: the handlers of the queued signals are called in order and the queue
  is emptied.\<close>

fun run_signals :: "nat \<Rightarrow> nat list \<Rightarrow> task_signal list \<Rightarrow> (nat \<times> int \<times> nat \<times> u64) list result" where
  "run_signals a hs [] = Ok []"
| "run_signals a hs (g # gs) = rbind (if sig_no g < 0 then Err Fault else rd hs (nat (sig_no g))) (\<lambda>h.
     rbind (run_signals a hs gs) (\<lambda>r. Ok (if h \<noteq> 0 then (h, sig_no g, sig_data g, sig_size g) # r else r)))"

definition process_round :: "sched \<Rightarrow> sched result" where
  "process_round s = rbind (get_t s (current_task s)) (\<lambda>t.
     rbind (run_signals (current_task s) (signal_handlers t) (signal_queue t)) (\<lambda>r.
     rbind (upd_t s (current_task s) (\<lambda>t. t\<lparr>signal_queue := []\<rparr>)) (\<lambda>s1.
       Ok (s1\<lparr>handled := handled s1 @ r\<rparr>))))"

definition get_current_tty :: "sched \<Rightarrow> u8 list result" where
  "get_current_tty s = (if current_task s = 0 then Ok [100, 101, 102, 97, 117, 108, 116, 0, 0]
     else rbind (get_t s (current_task s)) (\<lambda>t. Ok (ttyname t)))"

definition set_current_tty :: "sched \<Rightarrow> u8 list \<Rightarrow> sched result" where
  "set_current_tty s tty = (let s0 = lock_scheduler s in
     if current_task s0 = 0 then Ok (unlock_scheduler s0)
     else rbind (get_t s0 (current_task s0)) (\<lambda>t.
       rbind (strlen tty) (\<lambda>n.
       rbind (memset (ttyname t) 0 32) (\<lambda>b0.
       rbind (strncpy b0 tty n) (\<lambda>b1.
       rbind (wr b1 n 0) (\<lambda>b2.
       rbind (upd_t s0 (current_task s0) (\<lambda>t. t\<lparr>ttyname := b2\<rparr>)) (\<lambda>s1. Ok (unlock_scheduler s1))))))))"

definition reset_current_tty :: "sched \<Rightarrow> sched result" where
  "reset_current_tty s = (let s0 = lock_scheduler s in
     if current_task s0 = 0 then Ok (unlock_scheduler s0)
     else rbind (get_t s0 (current_task s0)) (\<lambda>t.
       rbind (memset (ttyname t) 0 32) (\<lambda>b0.
       rbind (strncpy b0 [100, 101, 102, 97, 117, 108, 116, 0] 8) (\<lambda>b1.
       rbind (upd_t s0 (current_task s0) (\<lambda>t. t\<lparr>ttyname := b1\<rparr>)) (\<lambda>s1. Ok (unlock_scheduler s1))))))"

section \<open>Locks\<close>

text \<open>A lock is an \<open>int\<close>; acquiring one that is held spins until another processor releases it.\<close>

definition acquire_lock :: "int \<Rightarrow> int result" where
  "acquire_lock l = (if l = 0 then Ok 1 else Err Diverge)"

definition try_acquire_lock :: "int \<Rightarrow> bool \<times> int" where
  "try_acquire_lock l = (if l = 0 then (True, 1) else (False, l))"

definition release_lock :: "int \<Rightarrow> int" where
  "release_lock l = 0"

definition init_lock :: "int \<Rightarrow> int" where
  "init_lock l = 0"

section \<open>The list of tasks\<close>

fun tchain :: "(nat \<Rightarrow> task option) \<Rightarrow> nat \<Rightarrow> nat list \<Rightarrow> bool" where
  "tchain m a [] \<longleftrightarrow> a = 0"
| "tchain m a (x # xs) \<longleftrightarrow> a = x \<and> x \<noteq> 0 \<and> (\<exists>t. m x = Some t \<and> tchain m (next_task t) xs)"

definition links :: "(nat \<Rightarrow> task option) \<Rightarrow> nat \<Rightarrow> nat option" where
  "links m a = map_option next_task (m a)"

definition st :: "sched \<Rightarrow> nat \<Rightarrow> int" where
  "st s a = (case tasks s a of None \<Rightarrow> -1 | Some t \<Rightarrow> state t)"

definition runnable :: "sched \<Rightarrow> nat \<Rightarrow> bool" where
  "runnable s a \<longleftrightarrow> st s a = TASK_READY \<or> st s a = TASK_EXECUTING"

lemma tchain_cong: "(\<And>a. a \<in> set xs \<Longrightarrow> links m' a = links m a) \<Longrightarrow> tchain m' h xs = tchain m h xs"
proof (induction xs arbitrary: h)
  case (Cons x xs)
  have l: "links m' x = links m x" using Cons.prems by simp
  have IH: "tchain m' h' xs = tchain m h' xs" for h' by (rule Cons.IH) (use Cons.prems in simp)
  show ?case using l by (cases "m x"; cases "m' x") (auto simp: links_def IH)
qed simp

lemma tchain_task: "tchain m h xs \<Longrightarrow> a \<in> set xs \<Longrightarrow> a \<noteq> 0 \<and> (\<exists>t. m a = Some t)"
  by (induction xs arbitrary: h) auto

lemma tchain_split: "tchain m h (pre @ a # post) \<Longrightarrow> tchain m a (a # post) \<and> h = hd (pre @ [a])"
  by (induction pre arbitrary: h) auto

section \<open>Walking around the list\<close>

definition nxt :: "sched \<Rightarrow> nat \<Rightarrow> nat option" where
  "nxt s a = (case tasks s a of None \<Rightarrow> None
     | Some t \<Rightarrow> Some (if next_task t = 0 then task_head s else next_task t))"

fun visits :: "sched \<Rightarrow> nat \<Rightarrow> nat list \<Rightarrow> bool" where
  "visits s a [] \<longleftrightarrow> True"
| "visits s a (v # vs) \<longleftrightarrow> nxt s a = Some v \<and> visits s v vs"

text \<open>The tasks in the order \<open>schedule\<close> looks at them, the current one last.\<close>

definition after :: "nat list \<Rightarrow> nat \<Rightarrow> nat list" where
  "after xs a = tl (dropWhile (\<lambda>x. x \<noteq> a) xs) @ takeWhile (\<lambda>x. x \<noteq> a) xs @ [a]"

lemma after_split: "a \<notin> set pre \<Longrightarrow> after (pre @ a # post) a = post @ pre @ [a]"
  by (auto simp: after_def dropWhile_append takeWhile_append)

lemma after_set: "a \<in> set xs \<Longrightarrow> distinct xs \<Longrightarrow> set (after xs a) = set xs \<and> length (after xs a) = length xs \<and> distinct (after xs a)"
  using split_list_first [of a xs] by (auto simp: after_split)

lemma distinct_split_eq:
  "distinct (us @ c # vs) \<Longrightarrow> us @ c # vs = us' @ c # vs' \<Longrightarrow> us = us' \<and> vs = vs'"
proof -
  assume d: "distinct (us @ c # vs)" and e: "us @ c # vs = us' @ c # vs'"
  have "c \<notin> set us" "c \<notin> set vs" using d by auto
  from append_Cons_eq_iff [OF this] e show ?thesis by blast
qed

lemma after_step:
  assumes "distinct xs" and "c \<in> set xs" and "after xs c = us @ n # vs"
  shows "after xs n = vs @ us @ [n]"
proof -
  obtain pre post where x: "xs = pre @ c # post" "c \<notin> set pre" using split_list_first [OF assms(2)] by auto
  have a: "after xs c = post @ pre @ [c]" using x after_split by simp
  have d: "distinct (us @ n # vs)" using after_set [OF assms(2,1)] assms(3) by metis
  have n: "n \<in> set (post @ pre @ [c])" using a assms(3) by (metis in_set_conv_decomp)
  consider "n = c" | p1 p2 where "post = p1 @ n # p2" | q1 q2 where "pre = q1 @ n # q2"
  proof -
    assume h: "n = c \<Longrightarrow> thesis" "\<And>p1 p2. post = p1 @ n # p2 \<Longrightarrow> thesis" "\<And>q1 q2. pre = q1 @ n # q2 \<Longrightarrow> thesis"
    have "n = c \<or> n \<in> set post \<or> n \<in> set pre" using n by auto
    then show thesis using h split_list [of n post] split_list [of n pre] by blast
  qed
  then show ?thesis
  proof cases
    case 1
    hence e: "us @ n # vs = (post @ pre) @ n # []" using a assms(3) by simp
    from distinct_split_eq [OF d e] 1 a show ?thesis by simp
  next
    case 2
    hence e: "us @ n # vs = p1 @ n # (p2 @ pre @ [c])" using a assms(3) by simp
    note uv = distinct_split_eq [OF d e]
    have "after ((pre @ c # p1) @ n # p2) n = p2 @ (pre @ c # p1) @ [n]"
      using assms(1) x 2 by (intro after_split) auto
    with uv x 2 show ?thesis by simp
  next
    case 3
    hence e: "us @ n # vs = (post @ q1) @ n # (q2 @ [c])" using a assms(3) by simp
    note uv = distinct_split_eq [OF d e]
    have "after (q1 @ n # (q2 @ c # post)) n = (q2 @ c # post) @ q1 @ [n]"
      using assms(1) x 3 by (intro after_split) auto
    with uv x 3 show ?thesis by simp
  qed
qed

lemma visits_append: "visits s a (us @ vs) \<longleftrightarrow> visits s a us \<and> visits s (List.last (a # us)) vs"
  by (induction us arbitrary: a) auto

lemma tchain_visits:
  "tchain (tasks s) a (a # ys) \<Longrightarrow> visits s a ys \<and> nxt s (List.last (a # ys)) = Some (task_head s)"
proof (induction ys arbitrary: a)
  case Nil then show ?case by (auto simp: nxt_def)
next
  case (Cons y ys)
  then obtain t where t: "tasks s a = Some t" "next_task t = y" "y \<noteq> 0" "tchain (tasks s) y (y # ys)" by auto
  with Cons.IH [OF t(4)] show ?case by (auto simp: nxt_def)
qed

lemma tchain_visits_prefix:
  "tchain (tasks s) h (p # ps @ a # post) \<Longrightarrow> visits s p (ps @ [a])"
proof (induction ps arbitrary: h p)
  case Nil then show ?case by (auto simp: nxt_def)
next
  case (Cons q ps)
  then obtain t where t: "tasks s p = Some t" "next_task t = q" "q \<noteq> 0" "tchain (tasks s) q (q # ps @ a # post)" by auto
  with Cons.IH [OF t(4)] show ?case by (auto simp: nxt_def)
qed

lemma visits_after:
  assumes "tchain (tasks s) (task_head s) xs" and "a \<in> set xs"
  shows "visits s a (after xs a)"
proof -
  obtain pre post where x: "xs = pre @ a # post" "a \<notin> set pre" using split_list_first [OF assms(2)] by auto
  have c: "tchain (tasks s) a (a # post)" "task_head s = hd (pre @ [a])"
    using tchain_split assms(1) x(1) by blast+
  note v = tchain_visits [OF c(1)]
  have "visits s (List.last (a # post)) (pre @ [a])"
  proof (cases pre)
    case Nil
    with v c(2) show ?thesis by simp
  next
    case (Cons p ps)
    with tchain_visits_prefix [of s "task_head s" p ps a post] assms(1) x(1) v c(2) show ?thesis by simp
  qed
  with v show ?thesis using after_split [OF x(2)] x(1) visits_append [of s a post "pre @ [a]"] by simp
qed

lemma find_runnable_visits:
  "visits s a vs \<Longrightarrow> vs \<noteq> [] \<Longrightarrow> (\<forall>v \<in> set vs. tasks s v \<noteq> None) \<Longrightarrow> List.last vs = b \<Longrightarrow> b \<notin> set (butlast vs) \<Longrightarrow> length vs \<le> k \<Longrightarrow>
    find_runnable k s a b = Ok (find (runnable s) vs)"
proof (induction vs arbitrary: a k)
  case (Cons v vs)
  then obtain k' where k: "k = Suc k'" by (cases k) auto
  from Cons.prems(1) obtain t where t: "tasks s a = Some t" "v = (if next_task t = 0 then task_head s else next_task t)"
    by (auto simp: nxt_def split: option.splits)
  from Cons.prems(3) obtain u where u: "tasks s v = Some u" by auto
  have st: "runnable s v \<longleftrightarrow> state u = TASK_READY \<or> state u = TASK_EXECUTING" using u by (simp add: runnable_def st_def)
  show ?case
  proof (cases "vs = []")
    case True
    with Cons.prems(4) t u st k show ?thesis by (auto simp: get_t_def Let_def)
  next
    case False
    hence "v \<noteq> b" using Cons.prems(5) by auto
    moreover have "find_runnable k' s v b = Ok (find (runnable s) vs)"
      using Cons.prems False k by (intro Cons.IH) auto
    ultimately show ?thesis using t u st k by (auto simp: get_t_def Let_def)
  qed
qed simp

section \<open>The invariant\<close>

text \<open>\<open>xs\<close> is the list of the tasks: the current task is in it, the idle task is at its head, and no
  other task than the current one is marked as executing.\<close>

definition sched_wf :: "sched \<Rightarrow> nat list \<Rightarrow> bool" where
  "sched_wf s xs \<longleftrightarrow> tchain (tasks s) (task_head s) xs \<and> distinct xs \<and> current_task s \<in> set xs
    \<and> st s (hd xs) = TASK_IDLE \<and> (\<forall>a \<in> set xs. st s a = TASK_EXECUTING \<longrightarrow> a = current_task s)"

text \<open>The part of it that does not mention the idle task: it also holds after the idle task was blocked,
  killed, paused, made ready or taken out of the list.\<close>

definition sched_chain :: "sched \<Rightarrow> nat list \<Rightarrow> bool" where
  "sched_chain s xs \<longleftrightarrow> tchain (tasks s) (task_head s) xs \<and> distinct xs \<and> current_task s \<in> set xs
    \<and> (\<forall>a \<in> set xs. st s a = TASK_EXECUTING \<longrightarrow> a = current_task s)"

lemma sched_wf_iff: "sched_wf s xs \<longleftrightarrow> sched_chain s xs \<and> st s (hd xs) = TASK_IDLE"
  by (auto simp: sched_wf_def sched_chain_def)

lemma sched_wf_chain: "sched_wf s xs \<Longrightarrow> sched_chain s xs"
  by (simp add: sched_wf_iff)

lemma sched_chain_head: "sched_chain s xs \<Longrightarrow> xs \<noteq> [] \<and> task_head s = hd xs"
  by (cases xs) (auto simp: sched_chain_def)

lemma sched_chain_task: "sched_chain s xs \<Longrightarrow> a \<in> set xs \<Longrightarrow> \<exists>t. tasks s a = Some t \<and> st s a = state t"
  using tchain_task by (fastforce simp: sched_chain_def st_def)

lemma sched_chain_current: "sched_chain s xs \<Longrightarrow> current_task s \<in> set xs"
  by (simp add: sched_chain_def)

lemmas sched_wf_head = sched_chain_head [OF sched_wf_chain]
lemmas sched_wf_task = sched_chain_task [OF sched_wf_chain]

text \<open>No task can run and the head of the list is not the idle task.\<close>

definition stuck :: "sched \<Rightarrow> nat list \<Rightarrow> bool" where
  "stuck s xs \<longleftrightarrow> (\<forall>a \<in> set xs. \<not> runnable s a) \<and> st s (hd xs) \<noteq> TASK_IDLE"

lemma stuck_cong: "st s' = st s \<Longrightarrow> stuck s' xs = stuck s xs"
  by (simp add: stuck_def runnable_def)

lemma sched_wf_not_stuck: "sched_wf s xs \<Longrightarrow> \<not> stuck s xs"
  by (simp add: sched_wf_def stuck_def)

text \<open>The task \<open>schedule\<close> gives the processor to.\<close>

definition chosen :: "sched \<Rightarrow> nat list \<Rightarrow> nat" where
  "chosen s xs = (case find (runnable s) (after xs (current_task s)) of Some n \<Rightarrow> n | None \<Rightarrow> hd xs)"

lemma chain_chosen_in: "sched_chain s xs \<Longrightarrow> chosen s xs \<in> set xs"
proof -
  assume w: "sched_chain s xs"
  hence c: "current_task s \<in> set xs" "distinct xs" by (auto simp: sched_chain_def)
  show ?thesis
  proof (cases "find (runnable s) (after xs (current_task s))")
    case None
    then show ?thesis using sched_chain_head [OF w] by (simp add: chosen_def)
  next
    case (Some n)
    hence "n \<in> set (after xs (current_task s))" by (auto simp: find_Some_iff)
    with Some after_set [OF c] show ?thesis by (simp add: chosen_def)
  qed
qed

lemmas chosen_in = chain_chosen_in [OF sched_wf_chain]

lemma none_runnable:
  assumes "sched_chain s xs"
  shows "find (runnable s) (after xs (current_task s)) = None \<longleftrightarrow> (\<forall>a \<in> set xs. \<not> runnable s a)"
  using after_set [of "current_task s" xs] assms by (auto simp: find_None_iff sched_chain_def)

lemma links_upd: "tasks s a = Some t \<Longrightarrow> next_task (f t) = next_task t \<Longrightarrow> links ((tasks s)(a \<mapsto> f t)) = links (tasks s)"
  by (auto simp: links_def)

lemma upd_t_Some:
  assumes "tasks s a = Some t"
  shows "upd_t s a f = Ok (s\<lparr>tasks := (tasks s)(a \<mapsto> f t)\<rparr>)"
  by (simp add: upd_t_def assms)

text \<open>What \<open>schedule\<close> does to the state of each task.\<close>

definition new_state :: "sched \<Rightarrow> nat \<Rightarrow> nat \<Rightarrow> int" where
  "new_state s n a = (if a = n \<and> runnable s a then TASK_EXECUTING
     else if a = current_task s \<and> st s a = TASK_EXECUTING then TASK_READY else st s a)"

lemma schedule_find:
  assumes w: "sched_chain s xs" and k: "length xs \<le> k"
  shows "find_runnable k s (current_task s) (current_task s) = Ok (find (runnable s) (after xs (current_task s)))"
proof -
  have t: "tchain (tasks s) (task_head s) xs" "current_task s \<in> set xs" "distinct xs" using w by (auto simp: sched_chain_def)
  note a = after_set [OF t(2,3)]
  have "List.last (after xs (current_task s)) = current_task s" "after xs (current_task s) \<noteq> []" by (simp_all add: after_def)
  moreover have "current_task s \<notin> set (butlast (after xs (current_task s)))"
    using a by (auto simp: after_def butlast_append)
  moreover have "\<forall>v \<in> set (after xs (current_task s)). tasks s v \<noteq> None" using a sched_chain_task [OF w] by fastforce
  ultimately show ?thesis using find_runnable_visits [OF visits_after [OF t(1,2)]] a k by simp
qed

lemma schedule_stuck:
  assumes w: "sched_chain s xs" and k: "length xs \<le> k" and "stuck s xs"
  shows "schedule k s = Err (Panic ''Idle task is not valid or at head'')"
proof -
  have n: "find (runnable s) (after xs (current_task s)) = None" using none_runnable [OF w] assms(3) by (simp add: stuck_def)
  have h: "task_head s = hd xs" "hd xs \<in> set xs" using sched_chain_head [OF w] by auto
  obtain th where "tasks s (hd xs) = Some th" "state th \<noteq> TASK_IDLE"
    using sched_chain_task [OF w h(2)] assms(3) by (auto simp: stuck_def)
  then show ?thesis unfolding schedule_def schedule_find [OF w k] n by (simp add: h(1) get_t_def)
qed

lemma schedule_eq:
  assumes w: "sched_chain s xs" and k: "length xs \<le> k" and ns: "\<not> stuck s xs"
  shows "\<exists>s'. schedule k s = Ok (current_task s, s') \<and> current_task s' = chosen s xs
    \<and> (\<forall>a. st s' a = (if tasks s a = None then st s a else new_state s (chosen s xs) a))
    \<and> links (tasks s') = links (tasks s) \<and> task_head s' = task_head s
    \<and> irq_disable_counter s' = irq_disable_counter s \<and> spit s' = spit s"
proof -
  let ?n = "chosen s xs" and ?c = "current_task s"
  obtain tc where tc: "tasks s ?c = Some tc" using sched_chain_task [OF w sched_chain_current [OF w]] by auto
  obtain tn where tn: "tasks s ?n = Some tn" using sched_chain_task [OF w chain_chosen_in [OF w]] by auto
  have h: "task_head s = hd xs" "hd xs \<in> set xs" using sched_chain_head [OF w] by auto
  obtain th where th: "tasks s (hd xs) = Some th" "find (runnable s) (after xs ?c) = None \<longrightarrow> state th = TASK_IDLE"
    using sched_chain_task [OF w h(2)] none_runnable [OF w] ns by (auto simp: stuck_def)
  let ?s1 = "if state tc = TASK_EXECUTING then s\<lparr>tasks := (tasks s)(?c \<mapsto> tc\<lparr>state := TASK_READY\<rparr>)\<rparr> else s"
  have u1: "(if state tc = TASK_EXECUTING then upd_t s ?c (\<lambda>t. t\<lparr>state := TASK_READY\<rparr>) else Ok s) = Ok ?s1"
    using upd_t_Some [OF tc] by simp
  define tn1 where "tn1 = (if ?n = ?c \<and> state tc = TASK_EXECUTING then tc\<lparr>state := TASK_READY\<rparr> else tn)"
  have tn1: "tasks ?s1 ?n = Some tn1" "next_task tn1 = next_task tn"
    "state tn1 = (if ?n = ?c \<and> state tc = TASK_EXECUTING then TASK_READY else state tn)"
    using tn tc by (auto simp: tn1_def)
  let ?s2 = "if state tn1 = TASK_READY then ?s1\<lparr>tasks := (tasks ?s1)(?n \<mapsto> tn1\<lparr>state := TASK_EXECUTING\<rparr>)\<rparr> else ?s1"
  have u2: "(if state tn1 = TASK_READY then upd_t ?s1 ?n (\<lambda>t. t\<lparr>state := TASK_EXECUTING\<rparr>) else Ok ?s1) = Ok ?s2"
    using upd_t_Some [OF tn1(1)] by simp
  have pick: "(case find (runnable s) (after xs ?c) of Some n \<Rightarrow> Ok n
       | None \<Rightarrow> rbind (get_t s (task_head s)) (\<lambda>h.
           rbind (guard (state h = TASK_IDLE) ''Idle task is not valid or at head'') (\<lambda>_. Ok (task_head s)))) = Ok ?n"
    using th h(1) by (auto simp: chosen_def get_t_def split: option.splits)
  have sch: "schedule k s = Ok (?c, ?s2\<lparr>current_task := ?n\<rparr>)"
    unfolding schedule_def schedule_find [OF w k] rbind_Ok pick
    using tc tn1(1) u1 u2 by (simp only: get_t_def rbind_Ok option.case)
  have l1: "links (tasks ?s1) = links (tasks s)" using links_upd [OF tc, of "\<lambda>t. t\<lparr>state := TASK_READY\<rparr>"] by simp
  have l2: "links (tasks ?s2) = links (tasks s)"
    using l1 links_upd [OF tn1(1), of "\<lambda>t. t\<lparr>state := TASK_EXECUTING\<rparr>"] by simp
  have ex: "st s ?n = TASK_EXECUTING \<longrightarrow> ?n = ?c" using w chain_chosen_in [OF w] by (auto simp: sched_chain_def)
  have sts: "st (?s2\<lparr>current_task := ?n\<rparr>) a = (if tasks s a = None then st s a else new_state s ?n a)" for a
  proof (cases "a = ?n")
    case True
    with tn tc tn1 ex show ?thesis by (auto simp: st_def new_state_def runnable_def)
  next
    case False
    then show ?thesis using tc by (auto simp: st_def new_state_def)
  qed
  show ?thesis
    by (intro exI [of _ "?s2\<lparr>current_task := ?n\<rparr>"] conjI allI) (use sch sts l2 in simp_all)
qed

lemma sched_chain_step:
  assumes w: "sched_chain s xs" and "links (tasks s') = links (tasks s)" and "task_head s' = task_head s"
    and "current_task s' \<in> set xs"
    and "\<And>a. a \<in> set xs \<Longrightarrow> st s' a = TASK_EXECUTING \<Longrightarrow> a = current_task s'"
  shows "sched_chain s' xs"
proof -
  have "tchain (tasks s') h xs = tchain (tasks s) h xs" for h by (rule tchain_cong) (simp add: assms(2))
  with assms show ?thesis by (auto simp: sched_chain_def)
qed

lemma sched_wf_step:
  assumes w: "sched_wf s xs" and "links (tasks s') = links (tasks s)" and "task_head s' = task_head s"
    and "current_task s' \<in> set xs" and "st s' (hd xs) = TASK_IDLE"
    and "\<And>a. a \<in> set xs \<Longrightarrow> st s' a = TASK_EXECUTING \<Longrightarrow> a = current_task s'"
  shows "sched_wf s' xs"
  using sched_chain_step [OF sched_wf_chain [OF w] assms(2,3,4,6)] assms(5) by (simp add: sched_wf_iff)

lemma schedule_chain:
  assumes w: "sched_chain s xs" and s': "current_task s' = chosen s xs"
    "\<forall>a. st s' a = (if tasks s a = None then st s a else new_state s (chosen s xs) a)"
    "links (tasks s') = links (tasks s)" "task_head s' = task_head s"
  shows "sched_chain s' xs"
proof (rule sched_chain_step [OF w s'(3,4)])
  show "current_task s' \<in> set xs" using chain_chosen_in [OF w] s'(1) by simp
  fix a assume a: "a \<in> set xs" "st s' a = TASK_EXECUTING"
  have ex: "st s a = TASK_EXECUTING \<longrightarrow> a = current_task s" using w a(1) unfolding sched_chain_def by blast
  obtain t where "tasks s a = Some t" using sched_chain_task [OF w a(1)] by blast
  with spec [OF s'(2), of a] have n: "st s' a = new_state s (chosen s xs) a" by simp
  show "a = current_task s'"
  proof (cases "a = chosen s xs")
    case True
    then show ?thesis using s'(1) by simp
  next
    case False
    hence n': "st s' a = (if a = current_task s \<and> st s a = TASK_EXECUTING then TASK_READY else st s a)"
      using n by (simp add: new_state_def)
    show ?thesis
    proof (cases "st s a = TASK_EXECUTING")
      case True
      hence "a = current_task s \<and> st s a = TASK_EXECUTING" using ex by blast
      hence "st s' a = TASK_READY" unfolding n' by (rule if_P)
      with a(2) show ?thesis by simp
    next
      case False
      hence "st s' a = st s a" unfolding n' by (intro if_not_P) blast
      with a(2) False show ?thesis by simp
    qed
  qed
qed

lemma schedule_wf:
  assumes w: "sched_wf s xs" and s': "current_task s' = chosen s xs"
    "\<forall>a. st s' a = (if tasks s a = None then st s a else new_state s (chosen s xs) a)"
    "links (tasks s') = links (tasks s)" "task_head s' = task_head s"
  shows "sched_wf s' xs"
proof -
  have "st s' (hd xs) = TASK_IDLE" using w s'(2) by (auto simp: sched_wf_def new_state_def runnable_def)
  with schedule_chain [OF sched_wf_chain [OF w] s'] show ?thesis by (simp add: sched_wf_iff)
qed

text \<open>with the idle task at the head of the list \<open>schedule\<close> never fails: it gives the processor to
  the first task after the current one, around the list, that can run (the current one comes last), and
  to the idle task when none can; it keeps the list and the invariant, so at most one task is marked as
  executing.\<close>

theorem schedule_picks:
  assumes "sched_wf s xs" and "length xs \<le> k"
  shows "\<exists>s'. schedule k s = Ok (current_task s, s') \<and> sched_wf s' xs
    \<and> current_task s' = (case find (runnable s) (after xs (current_task s)) of Some n \<Rightarrow> n | None \<Rightarrow> task_head s)
    \<and> (runnable s (current_task s') \<longrightarrow> st s' (current_task s') = TASK_EXECUTING)"
proof -
  obtain s' where s': "schedule k s = Ok (current_task s, s')" "current_task s' = chosen s xs"
    "\<forall>a. st s' a = (if tasks s a = None then st s a else new_state s (chosen s xs) a)"
    "links (tasks s') = links (tasks s)" "task_head s' = task_head s"
    using schedule_eq [OF sched_wf_chain [OF assms(1)] assms(2) sched_wf_not_stuck [OF assms(1)]] by blast
  have "sched_wf s' xs" by (rule schedule_wf [OF assms(1) s'(2-5)])
  moreover obtain t where t: "tasks s (chosen s xs) = Some t" using sched_wf_task [OF assms(1) chosen_in [OF assms(1)]] by auto
  have "runnable s (chosen s xs) \<longrightarrow> st s' (chosen s xs) = TASK_EXECUTING" using s'(3) by (simp add: new_state_def t)
  moreover have "(case find (runnable s) (after xs (current_task s)) of Some n \<Rightarrow> n | None \<Rightarrow> task_head s) = chosen s xs"
    unfolding chosen_def conjunct2 [OF sched_wf_head [OF assms(1)]] ..
  ultimately show ?thesis using s'(1,2) by auto
qed

section \<open>Yielding\<close>

lemma sched_wf_cong:
  "tasks s' = tasks s \<Longrightarrow> task_head s' = task_head s \<Longrightarrow> current_task s' = current_task s \<Longrightarrow> sched_wf s' xs = sched_wf s xs"
  by (simp add: sched_wf_def st_def)

lemma sched_wf_irq [simp]:
  "sched_wf (lock_scheduler s) xs = sched_wf s xs" "sched_wf (unlock_scheduler s) xs = sched_wf s xs"
  "sched_wf (s\<lparr>irqs_on := b\<rparr>) xs = sched_wf s xs" "sched_wf (s\<lparr>switches := l\<rparr>) xs = sched_wf s xs"
  by (rule sched_wf_cong; simp add: lock_scheduler_def unlock_scheduler_def Let_def)+

lemma st_upd: "tasks s a = Some t \<Longrightarrow> st (s\<lparr>tasks := (tasks s)(a \<mapsto> t')\<rparr>) b = (if b = a then state t' else st s b)"
  by (simp add: st_def)

lemma st_frame [simp]: "st (s\<lparr>irqs_on := b\<rparr>) = st s" "st (s\<lparr>switches := l\<rparr>) = st s" "st (s\<lparr>current_task := c\<rparr>) = st s"
  "st (lock_scheduler s) = st s" "st (unlock_scheduler s) = st s"
  by (auto simp: st_def fun_eq_iff lock_scheduler_def unlock_scheduler_def Let_def)

lemma sched_chain_cong:
  "tasks s' = tasks s \<Longrightarrow> task_head s' = task_head s \<Longrightarrow> current_task s' = current_task s \<Longrightarrow> sched_chain s' xs = sched_chain s xs"
  by (simp add: sched_chain_def st_def)

lemma sched_chain_irq [simp]:
  "sched_chain (lock_scheduler s) xs = sched_chain s xs" "sched_chain (unlock_scheduler s) xs = sched_chain s xs"
  "sched_chain (s\<lparr>irqs_on := b\<rparr>) xs = sched_chain s xs" "sched_chain (s\<lparr>switches := l\<rparr>) xs = sched_chain s xs"
  by (rule sched_chain_cong; simp add: lock_scheduler_def unlock_scheduler_def Let_def)+

lemma keep_state:
  assumes "sched_chain s xs" and "tasks s a = Some t" and "next_task t' = next_task t" and "state t' = state t"
  shows "sched_chain (s\<lparr>tasks := (tasks s)(a \<mapsto> t')\<rparr>) xs" and "st (s\<lparr>tasks := (tasks s)(a \<mapsto> t')\<rparr>) = st s"
proof -
  show s: "st (s\<lparr>tasks := (tasks s)(a \<mapsto> t')\<rparr>) = st s"
    using assms(2,4) by (auto simp: fun_eq_iff st_upd) (simp_all add: st_def)
  show "sched_chain (s\<lparr>tasks := (tasks s)(a \<mapsto> t')\<rparr>) xs"
    using assms(1) links_upd [OF assms(2), of "\<lambda>_. t'"] assms(3)
    by (intro sched_chain_step [OF assms(1)]) (auto simp: s sched_chain_def)
qed

lemma chosen_cong: "st s' = st s \<Longrightarrow> current_task s' = current_task s \<Longrightarrow> chosen s' xs = chosen s xs"
proof -
  assume a: "st s' = st s" "current_task s' = current_task s"
  have "runnable s' = runnable s" by (auto simp: fun_eq_iff runnable_def a(1))
  then show ?thesis by (simp add: chosen_def a(2))
qed

lemma new_state_cong: "st s' = st s \<Longrightarrow> current_task s' = current_task s \<Longrightarrow> new_state s' = new_state s"
proof -
  assume a: "st s' = st s" "current_task s' = current_task s"
  show ?thesis by (intro ext) (simp only: new_state_def runnable_def a)
qed

lemma yield_chain_ok:
  assumes w: "sched_chain s xs" and k: "length xs \<le> k" and ns: "\<not> stuck s xs"
  shows "\<exists>s'. yield k s = Ok s' \<and> sched_chain s' xs \<and> current_task s' = chosen s xs
    \<and> (\<forall>a \<in> set xs. st s' a = new_state s (chosen s xs) a)
    \<and> task_head s' = task_head s \<and> irq_disable_counter s' = irq_disable_counter s \<and> spit s' = spit s"
proof -
  let ?now = "get_ticks_since_boot (spit s)" and ?s0 = "s\<lparr>irqs_on := False\<rparr>"
  let ?f = "\<lambda>t. if last_scheduled t \<noteq> 0 then t\<lparr>cpu_time := cpu_time t + (?now - last_scheduled t)\<rparr> else t"
  have w0: "sched_chain ?s0 xs" using w by simp
  obtain t where t: "tasks ?s0 (current_task ?s0) = Some t"
    using sched_chain_task [OF w sched_chain_current [OF w]] by auto
  let ?s1 = "?s0\<lparr>tasks := (tasks ?s0)(current_task ?s0 \<mapsto> ?f t)\<rparr>"
  have f: "next_task (?f t) = next_task t" "state (?f t) = state t" by simp_all
  note s1 = keep_state [OF w0 t f]
  have sts: "st ?s1 = st s" using s1(2) by simp
  have ns1: "\<not> stuck ?s1 xs" using ns stuck_cong [OF sts] by blast
  obtain s2 where s2: "schedule k ?s1 = Ok (current_task ?s1, s2)" "current_task s2 = chosen ?s1 xs"
    "\<forall>a. st s2 a = (if tasks ?s1 a = None then st ?s1 a else new_state ?s1 (chosen ?s1 xs) a)"
    "links (tasks s2) = links (tasks ?s1)" "task_head s2 = task_head ?s1"
    "irq_disable_counter s2 = irq_disable_counter ?s1" "spit s2 = spit ?s1" using schedule_eq [OF s1(1) k ns1] by blast
  have w2: "sched_chain s2 xs" by (rule schedule_chain [OF s1(1) s2(2-5)])
  have ch: "chosen ?s1 xs = chosen s xs" by (rule chosen_cong [OF sts]) simp
  have st2: "st s2 a = new_state s (chosen s xs) a" if a: "a \<in> set xs" for a
  proof -
    obtain u where "tasks ?s1 a = Some u" using sched_chain_task [OF s1(1) a] by blast
    with spec [OF s2(3), of a] have "st s2 a = new_state ?s1 (chosen s xs) a" using ch by simp
    moreover have "new_state ?s1 = new_state s" by (rule new_state_cong [OF sts]) simp
    ultimately show ?thesis by simp
  qed
  obtain u where u: "tasks s2 (current_task s2) = Some u"
    using sched_chain_task [OF w2 sched_chain_current [OF w2]] by auto
  let ?s3 = "s2\<lparr>tasks := (tasks s2)(current_task s2 \<mapsto> u\<lparr>last_scheduled := ?now\<rparr>)\<rparr>"
  have g: "next_task (u\<lparr>last_scheduled := ?now\<rparr>) = next_task u" "state (u\<lparr>last_scheduled := ?now\<rparr>) = state u" by simp_all
  note s3 = keep_state [OF w2 u g]
  have "yield k s = Ok (?s3\<lparr>switches := switches ?s3 @ [(current_task s, current_task s2)]\<rparr>)"
    using upd_t_Some [OF t, of ?f] upd_t_Some [OF u, of "\<lambda>t. t\<lparr>last_scheduled := ?now\<rparr>"] s2(1)
    by (simp add: yield_def Let_def)
  with s3 s2(2,5,6,7) ch st2 show ?thesis by auto
qed


lemma yield_stuck:
  assumes w: "sched_chain s xs" and k: "length xs \<le> k" and stk: "stuck s xs"
  shows "yield k s = Err (Panic ''Idle task is not valid or at head'')"
proof -
  let ?now = "get_ticks_since_boot (spit s)" and ?s0 = "s\<lparr>irqs_on := False\<rparr>"
  let ?f = "\<lambda>t. if last_scheduled t \<noteq> 0 then t\<lparr>cpu_time := cpu_time t + (?now - last_scheduled t)\<rparr> else t"
  have w0: "sched_chain ?s0 xs" using w by simp
  obtain t where t: "tasks ?s0 (current_task ?s0) = Some t"
    using sched_chain_task [OF w sched_chain_current [OF w]] by auto
  let ?s1 = "?s0\<lparr>tasks := (tasks ?s0)(current_task ?s0 \<mapsto> ?f t)\<rparr>"
  have f: "next_task (?f t) = next_task t" "state (?f t) = state t" by simp_all
  note s1 = keep_state [OF w0 t f]
  have "st ?s1 = st s" using s1(2) by simp
  hence "stuck ?s1 xs" using stk stuck_cong by blast
  from schedule_stuck [OF s1(1) k this] show ?thesis using upd_t_Some [OF t, of ?f] by (simp add: yield_def Let_def)
qed

lemma yield_ok:
  assumes w: "sched_wf s xs" and k: "length xs \<le> k"
  shows "\<exists>s'. yield k s = Ok s' \<and> sched_wf s' xs \<and> current_task s' = chosen s xs
    \<and> (\<forall>a \<in> set xs. st s' a = new_state s (chosen s xs) a)
    \<and> task_head s' = task_head s \<and> irq_disable_counter s' = irq_disable_counter s \<and> spit s' = spit s"
proof -
  obtain s' where s': "yield k s = Ok s'" "sched_chain s' xs" "current_task s' = chosen s xs"
    "\<forall>a \<in> set xs. st s' a = new_state s (chosen s xs) a"
    "task_head s' = task_head s" "irq_disable_counter s' = irq_disable_counter s" "spit s' = spit s"
    using yield_chain_ok [OF sched_wf_chain [OF w] k sched_wf_not_stuck [OF w]] by blast
  have "st s' (hd xs) = TASK_IDLE" using s'(4) w sched_wf_head [OF w]
    by (auto simp: sched_wf_def new_state_def runnable_def)
  with s' show ?thesis by (auto simp: sched_wf_iff)
qed

lemma yield_wf:
  assumes "sched_wf s xs" and "length xs \<le> k" and "yield k s = Ok s'"
  shows "sched_wf s' xs"
  using yield_ok [OF assms(1,2)] assms(3) by auto

section \<open>Round robin\<close>

fun yields_n :: "nat \<Rightarrow> nat \<Rightarrow> sched \<Rightarrow> sched result" where
  "yields_n k 0 s = Ok s"
| "yields_n k (Suc n) s = rbind (yield k s) (yields_n k n)"

lemma find_split: "find P xs = Some y \<Longrightarrow> \<exists>us vs. xs = us @ y # vs \<and> P y \<and> (\<forall>u \<in> set us. \<not> P u)"
proof (induction xs)
  case (Cons x xs)
  show ?case
  proof (cases "P x")
    case True
    with Cons.prems show ?thesis by (intro exI [of _ "[]"] exI [of _ xs]) auto
  next
    case False
    with Cons.prems Cons.IH obtain us vs where "xs = us @ y # vs" "P y" "\<forall>u \<in> set us. \<not> P u" by auto
    with False show ?thesis by (intro exI [of _ "x # us"] exI [of _ vs]) auto
  qed
qed simp

text \<open>Each yield gives a ready task the processor or brings it nearer.\<close>

lemma yield_closer:
  assumes "sched_wf s xs" and "length xs \<le> k" and "after xs (current_task s) = us @ a # vs" and "st s a = TASK_READY"
  shows "\<exists>s'. yield k s = Ok s' \<and> sched_wf s' xs \<and> spit s' = spit s
    \<and> (current_task s' = a \<and> st s' a = TASK_EXECUTING
      \<or> st s' a = TASK_READY \<and> (\<exists>us' vs'. after xs (current_task s') = us' @ a # vs' \<and> length us' < length us))"
proof -
  have c: "current_task s \<in> set xs" "distinct xs" using assms(1) by (auto simp: sched_wf_def)
  note as = after_set [OF c]
  have "a \<in> set (after xs (current_task s))" unfolding assms(3) by simp
  hence ain: "a \<in> set xs" using as by blast
  have dis: "distinct (us @ a # vs)" using as assms(3) by simp
  have "runnable s a" using assms(4) by (simp add: runnable_def)
  hence "find (runnable s) (us @ a # vs) \<noteq> None" unfolding find_None_iff by simp blast
  then obtain n where f: "find (runnable s) (us @ a # vs) = Some n" by blast
  then obtain us' vs' where n: "us @ a # vs = us' @ n # vs'" "\<forall>u \<in> set us'. \<not> runnable s u"
    using find_split [OF f] by blast
  have ch: "chosen s xs = n" using f assms(3) by (simp add: chosen_def)
  obtain s1 where s1: "yield k s = Ok s1" "sched_wf s1 xs" "current_task s1 = n"
    "\<forall>b \<in> set xs. st s1 b = new_state s n b" "spit s1 = spit s"
    using yield_ok [OF assms(1,2)] ch by auto
  show ?thesis
  proof (cases "n = a")
    case True
    have "st s1 a = TASK_EXECUTING" using s1(4) ain True assms(4) by (simp add: new_state_def runnable_def)
    with s1 True show ?thesis by auto
  next
    case False
    have "a \<notin> set us'" using n(2) assms(4) by (auto simp: runnable_def)
    hence "a \<in> set vs'" using n(1) False by (metis Un_iff in_set_conv_decomp set_ConsD set_append)
    then obtain p q where v: "vs' = p @ a # q" by (auto dest: split_list)
    have e: "us @ a # vs = (us' @ n # p) @ a # q" using n(1) v by simp
    have us: "us = us' @ n # p" using distinct_split_eq [OF dis e] by simp
    have "after xs (current_task s1) = vs' @ us' @ [n]"
      using after_step [OF c(2,1), of us' n vs'] assms(3) n(1) s1(3) by simp
    hence af: "after xs (current_task s1) = p @ a # (q @ us' @ [n])" using v by simp
    have "st s1 a = TASK_READY" using s1(4) ain False assms(4) by (auto simp: new_state_def)
    moreover have "length p < length us" by (simp add: us)
    ultimately show ?thesis using s1(1,2,5) af by blast
  qed
qed

lemma turn_comes:
  "sched_wf s xs \<Longrightarrow> length xs \<le> k \<Longrightarrow> after xs (current_task s) = us @ a # vs \<Longrightarrow> st s a = TASK_READY \<Longrightarrow>
    \<exists>n s'. 0 < n \<and> n \<le> length us + 1 \<and> yields_n k n s = Ok s' \<and> current_task s' = a \<and> st s' a = TASK_EXECUTING"
proof (induction "length us" arbitrary: s us vs rule: less_induct)
  case less
  obtain s1 where s1: "yield k s = Ok s1" "sched_wf s1 xs" "current_task s1 = a \<and> st s1 a = TASK_EXECUTING
      \<or> st s1 a = TASK_READY \<and> (\<exists>us' vs'. after xs (current_task s1) = us' @ a # vs' \<and> length us' < length us)"
    using yield_closer [OF less.prems] by blast
  from s1(3) show ?case
  proof (elim disjE conjE exE)
    assume "current_task s1 = a" "st s1 a = TASK_EXECUTING"
    with s1(1) show ?thesis by (intro exI [of _ 1] exI [of _ s1]) simp
  next
    fix us' vs' assume r: "st s1 a = TASK_READY" and u: "after xs (current_task s1) = us' @ a # vs'" "length us' < length us"
    from less.hyps [OF u(2) s1(2) less.prems(2) u(1) r] obtain m s' where
      m: "0 < m" "m \<le> length us' + 1" "yields_n k m s1 = Ok s'" "current_task s' = a" "st s' a = TASK_EXECUTING" by auto
    have "yields_n k (Suc m) s = Ok s'" using s1(1) m(3) by simp
    with m u(2) show ?thesis by (intro exI [of _ "Suc m"] exI [of _ s']) auto
  qed
qed

text \<open>C9: a task that is ready gets the processor after at most as many yields as there are tasks.\<close>

theorem round_robin:
  assumes "sched_wf s xs" and "length xs \<le> k" and "a \<in> set xs" and "st s a = TASK_READY"
  shows "\<exists>n s'. n \<le> length xs \<and> yields_n k n s = Ok s' \<and> current_task s' = a \<and> st s' a = TASK_EXECUTING"
proof -
  have c: "current_task s \<in> set xs" "distinct xs" using assms(1) by (auto simp: sched_wf_def)
  note as = after_set [OF c]
  obtain us vs where u: "after xs (current_task s) = us @ a # vs" using as assms(3) by (metis split_list)
  have "length us + 1 \<le> length xs" using as u by (metis add_leD1 le_add1 length_Cons length_append plus_1_eq_Suc Suc_eq_plus1 add_Suc_right add_le_cancel_left)
  moreover obtain n s' where "n \<le> length us + 1" "yields_n k n s = Ok s'" "current_task s' = a" "st s' a = TASK_EXECUTING"
    using turn_comes [OF assms(1,2) u assms(4)] by blast
  ultimately show ?thesis by (intro exI [of _ n] exI [of _ s']) simp
qed

section \<open>Process identifiers\<close>

definition task_at :: "sched \<Rightarrow> nat \<Rightarrow> task" where
  "task_at s a = (case tasks s a of Some t \<Rightarrow> t | None \<Rightarrow> undefined)"

lemma first_task_chain:
  "tchain (tasks s) h xs \<Longrightarrow> length xs < k \<Longrightarrow>
    first_task k P s h = Ok (case find (\<lambda>a. P (task_at s a)) xs of Some a \<Rightarrow> a | None \<Rightarrow> 0)"
proof (induction xs arbitrary: h k)
  case Nil
  then obtain k' where "k = Suc k'" by (cases k) auto
  with Nil show ?case by simp
next
  case (Cons x xs)
  then obtain k' where k: "k = Suc k'" by (cases k) auto
  from Cons.prems(1) obtain t where t: "h = x" "x \<noteq> 0" "tasks s x = Some t" "tchain (tasks s) (next_task t) xs" by auto
  with Cons.IH [OF t(4), of k'] Cons.prems(2) k show ?case by (simp add: get_t_def task_at_def)
qed

lemma get_task_chain:
  assumes "tchain (tasks s) (task_head s) xs" and "length xs < k"
  shows "\<exists>a. get_task k s p = Ok a \<and> (a = 0 \<longleftrightarrow> p \<notin> (\<lambda>a. pid (task_at s a)) ` set xs)"
proof (cases "find (\<lambda>a. pid (task_at s a) = p) xs")
  case None
  hence "p \<notin> (\<lambda>a. pid (task_at s a)) ` set xs" by (auto simp: find_None_iff)
  with None first_task_chain [OF assms, of "\<lambda>t. pid t = p"] show ?thesis by (simp add: get_task_def)
next
  case (Some a)
  then obtain us vs where "xs = us @ a # vs" "pid (task_at s a) = p" using find_split [OF Some] by blast
  hence "a \<in> set xs" "p \<in> (\<lambda>a. pid (task_at s a)) ` set xs" by auto
  with Some first_task_chain [OF assms, of "\<lambda>t. pid t = p"] tchain_task [OF assms(1)] show ?thesis
    by (simp add: get_task_def)
qed

lemma free_pid_from_fresh:
  assumes "tchain (tasks s) (task_head s) xs" and "length xs < k"
  defines "P \<equiv> (\<lambda>a. pid (task_at s a)) ` set xs"
  shows "card {q \<in> P. p \<le> q} < n \<Longrightarrow> \<exists>r. free_pid_from n k s p = Ok r \<and> p \<le> r \<and> r \<notin> P \<and> (\<forall>q. p \<le> q \<and> q < r \<longrightarrow> q \<in> P)"
proof (induction n arbitrary: p)
  case (Suc n)
  obtain a where a: "get_task k s p = Ok a" "a = 0 \<longleftrightarrow> p \<notin> P" using get_task_chain [OF assms(1,2)] unfolding P_def by blast
  show ?case
  proof (cases "p \<in> P")
    case False
    with a show ?thesis by (intro exI [of _ p]) auto
  next
    case True
    have "{q \<in> P. p \<le> q} = insert p {q \<in> P. p + 1 \<le> q}" using True by auto
    moreover have "finite {q \<in> P. p + 1 \<le> q}" by (simp add: P_def)
    ultimately have "card {q \<in> P. p + 1 \<le> q} < n" using Suc.prems by simp
    from Suc.IH [OF this] obtain r where r: "free_pid_from n k s (p + 1) = Ok r" "p + 1 \<le> r" "r \<notin> P"
      "\<forall>q. p + 1 \<le> q \<and> q < r \<longrightarrow> q \<in> P" by blast
    have "\<forall>q. p \<le> q \<and> q < r \<longrightarrow> q \<in> P"
    proof (intro allI impI)
      fix q assume "p \<le> q \<and> q < r"
      with r(4) True show "q \<in> P" by (cases "q = p") auto
    qed
    with a True r show ?thesis by (intro exI [of _ r]) auto
  qed
qed simp

text \<open>the pid given to a new task is the smallest positive number that no task of the list has.\<close>

theorem get_free_pid_fresh:
  assumes "tchain (tasks s) (task_head s) xs" and "length xs < k"
  shows "\<exists>p. get_free_pid k s = Ok p \<and> 1 \<le> p \<and> (\<forall>a \<in> set xs. pid (task_at s a) \<noteq> p)
    \<and> (\<forall>q. 1 \<le> q \<and> q < p \<longrightarrow> (\<exists>a \<in> set xs. pid (task_at s a) = q))"
proof -
  let ?P = "(\<lambda>a. pid (task_at s a)) ` set xs"
  have "card {q \<in> ?P. 1 \<le> q} \<le> card ?P" by (intro card_mono) auto
  also have "\<dots> \<le> length xs" by (meson card_image_le card_length finite_set le_trans)
  finally have "card {q \<in> ?P. 1 \<le> q} < k" using assms(2) by simp
  from free_pid_from_fresh [OF assms this] show ?thesis unfolding get_free_pid_def by blast
qed

section \<open>Links and fields of the tasks\<close>

text \<open>The links to the previous tasks: \<open>p\<close> is what the first task of the list has.\<close>

fun back_links :: "(nat \<Rightarrow> task option) \<Rightarrow> nat \<Rightarrow> nat list \<Rightarrow> bool" where
  "back_links m p [] \<longleftrightarrow> True"
| "back_links m p (x # xs) \<longleftrightarrow> map_option prev_task (m x) = Some p \<and> back_links m x xs"

lemma back_links_cong: "(\<And>a. a \<in> set xs \<Longrightarrow> map_option prev_task (m' a) = map_option prev_task (m a)) \<Longrightarrow> back_links m' p xs = back_links m p xs"
  by (induction xs arbitrary: p) auto

lemma back_links_append: "back_links m p (us @ vs) \<longleftrightarrow> back_links m p us \<and> back_links m (List.last (p # us)) vs"
  by (induction us arbitrary: p) auto

text \<open>The arrays of a task have their sizes and the signals queued have a handler slot.\<close>

definition task_fields :: "task \<Rightarrow> bool" where
  "task_fields t \<longleftrightarrow> length (signal_handlers t) = TASK_SIGNAL_MAX \<and> length (ttyname t) = 32
    \<and> (\<forall>g \<in> set (signal_queue t). 0 \<le> sig_no g \<and> sig_no g < int TASK_SIGNAL_MAX)"

text \<open>A task that \<open>create_task\<close> made and nobody added yet.\<close>

definition unlinked :: "task \<Rightarrow> bool" where
  "unlinked t \<longleftrightarrow> next_task t = 0 \<and> prev_task t = 0 \<and> state t \<noteq> TASK_EXECUTING"

text \<open>The invariant of the scheduler: \<open>xs\<close> is the list, linked both ways, \<open>ps\<close> the tasks that were made but not
  added.\<close>

definition sched_ok :: "sched \<Rightarrow> nat list \<Rightarrow> nat list \<Rightarrow> bool" where
  "sched_ok s xs ps \<longleftrightarrow> sched_chain s xs \<and> back_links (tasks s) 0 xs \<and> distinct (xs @ ps)
    \<and> (\<forall>a \<in> set ps. a \<noteq> 0 \<and> (\<exists>t. tasks s a = Some t \<and> unlinked t))
    \<and> (\<forall>a \<in> set xs \<union> set ps. \<forall>t. tasks s a = Some t \<longrightarrow> task_fields t)"

lemma sched_ok_fields: "sched_ok s xs ps \<Longrightarrow> a \<in> set xs \<union> set ps \<Longrightarrow> tasks s a = Some t \<Longrightarrow> task_fields t"
  unfolding sched_ok_def by blast

lemma sched_ok_task: "sched_ok s xs ps \<Longrightarrow> a \<in> set xs \<union> set ps \<Longrightarrow> \<exists>t. tasks s a = Some t \<and> task_fields t"
proof -
  assume ok: "sched_ok s xs ps" and a: "a \<in> set xs \<union> set ps"
  have "\<exists>t. tasks s a = Some t" using sched_chain_task [of s xs a] ok a unfolding sched_ok_def by blast
  then show ?thesis using sched_ok_fields [OF ok a] by blast
qed

lemma sched_ok_current: "sched_ok s xs ps \<Longrightarrow> current_task s \<in> set xs \<and> (\<exists>t. tasks s (current_task s) = Some t \<and> task_fields t)"
  using sched_ok_task [of s xs ps "current_task s"] by (auto simp: sched_ok_def dest: sched_chain_current)

lemma sched_ok_cong:
  assumes "tasks s' = tasks s" "task_head s' = task_head s" "current_task s' = current_task s"
  shows "sched_ok s' xs ps = sched_ok s xs ps"
  unfolding sched_ok_def sched_chain_cong [OF assms] assms(1) ..

lemma sched_ok_irq [simp]:
  "sched_ok (lock_scheduler s) xs ps = sched_ok s xs ps" "sched_ok (unlock_scheduler s) xs ps = sched_ok s xs ps"
  by (rule sched_ok_cong; simp add: lock_scheduler_def unlock_scheduler_def Let_def)+

lemma locks_frame [simp]:
  "tasks (lock_scheduler s) = tasks s" "task_head (lock_scheduler s) = task_head s" "current_task (lock_scheduler s) = current_task s"
  "tasks (unlock_scheduler s) = tasks s" "task_head (unlock_scheduler s) = task_head s" "current_task (unlock_scheduler s) = current_task s"
  by (simp_all add: lock_scheduler_def unlock_scheduler_def Let_def)

text \<open>Updating a task in place keeps the invariant.\<close>

lemma sched_ok_upd:
  assumes ok: "sched_ok s xs ps" and t: "tasks s a = Some t" and a: "a \<in> set xs \<union> set ps"
    and l: "next_task t' = next_task t" "prev_task t' = prev_task t" and f: "task_fields t'"
    and e: "state t' = TASK_EXECUTING \<Longrightarrow> state t = TASK_EXECUTING \<or> a = current_task s"
  shows "sched_ok (s\<lparr>tasks := (tasks s)(a \<mapsto> t')\<rparr>) xs ps"
proof -
  let ?s = "s\<lparr>tasks := (tasks s)(a \<mapsto> t')\<rparr>"
  have c: "sched_chain s xs" "a \<in> set ps \<Longrightarrow> unlinked t \<and> a \<notin> set xs" using ok t by (auto simp: sched_ok_def)
  have x: "b = current_task s" if "b \<in> set xs" "st ?s b = TASK_EXECUTING" for b
  proof (cases "b = a")
    case True
    hence "state t' = TASK_EXECUTING" using that(2) t by (simp add: st_upd)
    from e [OF this] show ?thesis
    proof
      assume "state t = TASK_EXECUTING"
      hence "st s a = TASK_EXECUTING" using t by (simp add: st_def)
      with c(1) that(1) True show ?thesis by (auto simp: sched_chain_def)
    qed (use True in simp)
  next
    case False
    with that t c(1) show ?thesis by (auto simp: st_upd sched_chain_def)
  qed
  have "sched_chain ?s xs" using x links_upd [OF t, of "\<lambda>_. t'"] l(1) sched_chain_current [OF c(1)]
    by (intro sched_chain_step [OF c(1)]) auto
  moreover have "back_links (tasks ?s) 0 xs = back_links (tasks s) 0 xs" using t l(2) by (intro back_links_cong) auto
  moreover have "unlinked t'" if "a \<in> set ps"
  proof -
    have "a \<noteq> current_task s" using c(2) [OF that] sched_chain_current [OF c(1)] by auto
    with c(2) [OF that] l e show ?thesis by (auto simp: unlinked_def)
  qed
  ultimately show ?thesis using ok f unfolding sched_ok_def by auto
qed

lemma upd_ok:
  assumes ok: "sched_ok s xs ps" and a: "a \<in> set xs \<union> set ps"
    and f: "\<And>t. tasks s a = Some t \<Longrightarrow> task_fields t \<Longrightarrow> next_task (f t) = next_task t \<and> prev_task (f t) = prev_task t \<and> task_fields (f t)
      \<and> (state (f t) = TASK_EXECUTING \<longrightarrow> state t = TASK_EXECUTING \<or> a = current_task s)"
  shows "\<exists>t. tasks s a = Some t \<and> upd_t s a f = Ok (s\<lparr>tasks := (tasks s)(a \<mapsto> f t)\<rparr>)
    \<and> sched_ok (s\<lparr>tasks := (tasks s)(a \<mapsto> f t)\<rparr>) xs ps"
proof -
  obtain t where t: "tasks s a = Some t" "task_fields t" using sched_ok_task [OF ok a] by blast
  with sched_ok_upd [OF ok t(1) a, of "f t"] f [OF t] upd_t_Some [OF t(1)] show ?thesis by auto
qed

section \<open>Yielding under the invariant\<close>

text \<open>A yield changes the states and the times of two tasks only.\<close>

definition core :: "task \<Rightarrow> nat \<times> nat \<times> nat list \<times> task_signal list \<times> u8 list" where
  "core t = (next_task t, prev_task t, signal_handlers t, signal_queue t, ttyname t)"

definition same_core :: "sched \<Rightarrow> sched \<Rightarrow> nat \<Rightarrow> bool" where
  "same_core s s' a \<longleftrightarrow> map_option core (tasks s' a) = map_option core (tasks s a)"

lemma upd_t_OkE: "upd_t s a f = Ok s' \<Longrightarrow> \<exists>t. tasks s a = Some t \<and> s' = s\<lparr>tasks := (tasks s)(a \<mapsto> f t)\<rparr>"
  by (auto simp: upd_t_def split: option.splits)

lemma upd_t_frame:
  assumes "upd_t s a f = Ok s'" and "\<And>t. core (f t) = core t"
  shows "same_core s s' b" and "b \<noteq> a \<Longrightarrow> tasks s' b = tasks s b" and "current_task s' = current_task s"
  using upd_t_OkE [OF assms(1)] assms(2) by (auto simp: same_core_def)

lemma schedule_frame:
  assumes "schedule k s = Ok (p, s')"
  shows "same_core s s' a" and "a \<noteq> current_task s \<Longrightarrow> a \<noteq> current_task s' \<Longrightarrow> tasks s' a = tasks s a"
proof -
  obtain n and c t :: task and s1 s2 where d: "(if state c = TASK_EXECUTING then upd_t s (current_task s) (\<lambda>t. t\<lparr>state := TASK_READY\<rparr>) else Ok s) = Ok s1"
    "(if state t = TASK_READY then upd_t s1 n (\<lambda>t. t\<lparr>state := TASK_EXECUTING\<rparr>) else Ok s1) = Ok s2"
    "Ok (current_task s, s2\<lparr>current_task := n\<rparr>) = Ok (p, s')"
    using assms unfolding schedule_def by (elim rbind_eq_OkE) blast
  from d(3) have s': "s' = s2\<lparr>current_task := n\<rparr>" by simp
  have 1: "same_core s s1 a" "a \<noteq> current_task s \<Longrightarrow> tasks s1 a = tasks s a"
    using d(1) upd_t_frame(1,2) [of s "current_task s" "\<lambda>t. t\<lparr>state := TASK_READY\<rparr>" s1 a]
    by (auto simp: core_def same_core_def split: if_splits)
  have 2: "same_core s1 s2 a" "a \<noteq> n \<Longrightarrow> tasks s2 a = tasks s1 a"
    using d(2) upd_t_frame(1,2) [of s1 n "\<lambda>t. t\<lparr>state := TASK_EXECUTING\<rparr>" s2 a]
    by (auto simp: core_def same_core_def split: if_splits)
  show "same_core s s' a" using 1(1) 2(1) s' by (simp add: same_core_def)
  show "a \<noteq> current_task s \<Longrightarrow> a \<noteq> current_task s' \<Longrightarrow> tasks s' a = tasks s a" using 1(2) 2(2) s' by simp
qed

lemma yield_frame:
  assumes "yield k s = Ok s'"
  shows "same_core s s' a" and "a \<noteq> current_task s \<Longrightarrow> a \<noteq> current_task s' \<Longrightarrow> tasks s' a = tasks s a"
proof -
  let ?now = "get_ticks_since_boot (spit s)" and ?s0 = "s\<lparr>irqs_on := False\<rparr>"
  let ?f = "\<lambda>t. if last_scheduled t \<noteq> 0 then t\<lparr>cpu_time := cpu_time t + (?now - last_scheduled t)\<rparr> else t"
  let ?g = "\<lambda>t. t\<lparr>last_scheduled := ?now\<rparr>"
  obtain s1 p s2 s3 where d: "upd_t ?s0 (current_task s) ?f = Ok s1" "schedule k s1 = Ok (p, s2)"
    "upd_t s2 (current_task s2) ?g = Ok s3" "s' = s3\<lparr>switches := switches s3 @ [(p, current_task s3)]\<rparr>"
    using assms by (auto simp: yield_def Let_def result_simps)
  have f: "core (?f t) = core t" "core (?g t) = core t" for t by (simp_all add: core_def)
  note u1 = upd_t_frame(1,2) [OF d(1) f(1), of a] upd_t_frame(3) [OF d(1) f(1)] and u2 = schedule_frame [OF d(2), of a] and u3 = upd_t_frame(1,2) [OF d(3) f(2), of a] upd_t_frame(3) [OF d(3) f(2)]
  show "same_core s s' a" using u1(1) u2(1) u3(1) d(4) by (simp add: same_core_def)
  show "a \<noteq> current_task s \<Longrightarrow> a \<noteq> current_task s' \<Longrightarrow> tasks s' a = tasks s a" using u1(2,3) u2(2) u3(2,3) d(4) by simp
qed

lemma same_core_fields: "same_core s s' a \<Longrightarrow> tasks s' a = Some t' \<Longrightarrow> \<exists>t. tasks s a = Some t \<and> core t' = core t"
  by (cases "tasks s a") (auto simp: same_core_def)

lemma core_task_fields: "core t' = core t \<Longrightarrow> task_fields t' = task_fields t"
  by (simp add: core_def task_fields_def)

text \<open>A yield either hands the processor on and keeps the invariant, or panics because nothing can run and
  the idle task is not where it should be.\<close>

lemma yield_sched_ok:
  assumes ok: "sched_ok s xs ps" and k: "length xs \<le> k"
  shows "if stuck s xs then yield k s = Err (Panic ''Idle task is not valid or at head'')
    else \<exists>s'. yield k s = Ok s' \<and> sched_ok s' xs ps \<and> (st s (hd xs) = TASK_IDLE \<longrightarrow> st s' (hd xs) = TASK_IDLE)"
proof (cases "stuck s xs")
  case True
  have "sched_chain s xs" using ok by (simp add: sched_ok_def)
  from yield_stuck [OF this k True] True show ?thesis by simp
next
  case False
  have c: "sched_chain s xs" using ok by (simp add: sched_ok_def)
  obtain s' where s': "yield k s = Ok s'" "sched_chain s' xs" "\<forall>a \<in> set xs. st s' a = new_state s (chosen s xs) a"
    using yield_chain_ok [OF c k False] by blast
  note fr = yield_frame [OF s'(1)]
  have "map_option prev_task (tasks s' a) = map_option prev_task (tasks s a)" for a
    using fr(1) [of a] by (cases "tasks s' a"; cases "tasks s a") (auto simp: same_core_def core_def)
  hence "back_links (tasks s') 0 xs" using ok back_links_cong [of xs "tasks s'" "tasks s" 0] by (simp add: sched_ok_def)
  moreover have "tasks s' a = tasks s a" if "a \<in> set ps" for a
    using fr(2) [of a] that ok sched_chain_current [OF c] sched_chain_current [OF s'(2)] by (auto simp: sched_ok_def)
  moreover have "task_fields t" if "a \<in> set xs \<union> set ps" "tasks s' a = Some t" for a t
    using same_core_fields [OF fr(1) that(2)] sched_ok_fields [OF ok that(1)] core_task_fields by blast
  ultimately have "sched_ok s' xs ps" using ok s'(2) unfolding sched_ok_def by auto
  moreover have "st s' (hd xs) = TASK_IDLE" if "st s (hd xs) = TASK_IDLE"
    using s'(3) that sched_chain_head [OF c] by (auto simp: new_state_def runnable_def)
  ultimately show ?thesis using False s'(1) by auto
qed

section \<open>Adding and removing\<close>

lemma last_task_chain:
  "tchain (tasks s) h (x # xs) \<Longrightarrow> length (x # xs) \<le> k \<Longrightarrow> last_task k s h = Ok (List.last (x # xs))"
proof (induction xs arbitrary: h x k)
  case Nil
  then obtain k' where "k = Suc k'" by (cases k) auto
  with Nil show ?case by (auto simp: get_t_def)
next
  case (Cons y ys)
  then obtain k' where k: "k = Suc k'" by (cases k) auto
  from Cons.prems(1) obtain t where t: "h = x" "tasks s x = Some t" "tchain (tasks s) (next_task t) (y # ys)" by auto
  hence "next_task t = y" "y \<noteq> 0" by auto
  with t Cons.IH [OF t(3), of k'] Cons.prems(2) k show ?case by (simp add: get_t_def)
qed

lemma tchain_snoc:
  "tchain m h (x # xs) \<Longrightarrow> distinct (x # xs) \<Longrightarrow> a \<notin> set (x # xs) \<Longrightarrow> a \<noteq> 0 \<Longrightarrow> m (List.last (x # xs)) = Some l \<Longrightarrow> next_task ta = 0 \<Longrightarrow>
    tchain (m(List.last (x # xs) \<mapsto> l\<lparr>next_task := a\<rparr>, a \<mapsto> ta)) h (x # xs @ [a])"
proof (induction xs arbitrary: h x)
  case Nil then show ?case by auto
next
  case (Cons y ys)
  from Cons.prems(1) obtain t where t: "h = x" "x \<noteq> 0" "m x = Some t" "tchain m (next_task t) (y # ys)" by auto
  have x: "x \<noteq> List.last (y # ys)" "x \<noteq> a" using Cons.prems(2,3) last_in_set [of "y # ys"] by auto
  let ?m = "m(List.last (y # ys) \<mapsto> l\<lparr>next_task := a\<rparr>, a \<mapsto> ta)"
  have e: "List.last (x # y # ys) = List.last (y # ys)" by simp
  have "tchain ?m (next_task t) (y # ys @ [a])"
    using Cons.prems t(4) unfolding e by (intro Cons.IH) auto
  moreover have "?m x = Some t" using t(3) x by simp
  ultimately show ?case unfolding e append_Cons using t(1,2) by (subst tchain.simps) blast
qed

lemma add_task_ok:
  assumes ok: "sched_ok s xs ps" and k: "length xs \<le> k" and a: "a \<in> set ps"
  shows "\<exists>s'. add_task k s a = Ok s' \<and> sched_ok s' (xs @ [a]) (removeAll a ps) \<and> (\<forall>b. st s' b = st s b)"
proof -
  let ?s0 = "lock_scheduler s"
  have ch: "sched_chain s xs" using ok by (simp add: sched_ok_def)
  obtain x ys where xs: "xs = x # ys" using sched_chain_head [OF ch] by (cases xs) auto
  have c: "tchain (tasks s) (task_head s) (x # ys)" "distinct (x # ys)" using ch xs by (auto simp: sched_chain_def)
  let ?l = "List.last (x # ys)"
  have lx: "?l \<in> set xs" unfolding xs by (rule last_in_set) simp
  have a': "a \<notin> set xs" "a \<noteq> 0" using ok a by (auto simp: sched_ok_def)
  obtain t where t: "tasks s a = Some t" "unlinked t" using ok a by (auto simp: sched_ok_def)
  obtain l where l: "tasks s ?l = Some l" using sched_chain_task [OF ch lx] by blast
  have la: "?l \<noteq> a" using lx a'(1) by blast
  have lt: "last_task k ?s0 (task_head s) = Ok ?l" using last_task_chain [of ?s0 "task_head s" x ys k] c(1) k xs by simp
  let ?m = "(tasks s)(?l \<mapsto> l\<lparr>next_task := a\<rparr>, a \<mapsto> t\<lparr>prev_task := ?l\<rparr>)"
  let ?s' = "unlock_scheduler (?s0\<lparr>tasks := ?m\<rparr>)"
  have add: "add_task k s a = Ok ?s'"
    using lt l t(1) la c(1) by (simp add: add_task_def Let_def upd_t_def)
  have "tchain ?m (task_head s) (x # ys @ [a])"
    using c a' l t(2) xs by (intro tchain_snoc) (auto simp: unlinked_def)
  moreover have sts: "st ?s' b = st s b" for b using t l la by (auto simp: st_def)
  moreover have "st s a \<noteq> TASK_EXECUTING" using t by (simp add: unlinked_def st_def)
  ultimately have "sched_chain ?s' (xs @ [a])" using ch xs a'(1) by (auto simp: sched_chain_def)
  moreover have "back_links ?m 0 xs = back_links (tasks s) 0 xs" using a'(1) l by (intro back_links_cong) auto
  hence "back_links ?m 0 (xs @ [a])" using ok xs by (simp add: back_links_append sched_ok_def)
  moreover have "task_fields t'" if "b \<in> set (xs @ [a]) \<union> set (removeAll a ps)" "?m b = Some t'" for b t'
  proof -
    have "b \<in> set xs \<union> set ps" using that(1) a by auto
    note b = sched_ok_fields [OF ok this]
    show ?thesis using that(2) b l t(1) la by (auto simp: task_fields_def split: if_splits)
  qed
  moreover have "distinct ((xs @ [a]) @ removeAll a ps)" using ok a' by (auto simp: sched_ok_def distinct_removeAll)
  moreover have "b \<noteq> 0 \<and> (\<exists>t. ?m b = Some t \<and> unlinked t)" if "b \<in> set (removeAll a ps)" for b
    using that ok lx by (auto simp: sched_ok_def)
  ultimately have "sched_ok ?s' (xs @ [a]) (removeAll a ps)" by (simp add: sched_ok_def)
  with add sts show ?thesis by blast
qed

lemma tchain_remove:
  "tchain m h (us @ p # a # vs) \<Longrightarrow> distinct (us @ p # a # vs) \<Longrightarrow> m p = Some tp \<Longrightarrow> m a = Some ta \<Longrightarrow>
    tchain (m(p \<mapsto> tp\<lparr>next_task := next_task ta\<rparr>)) h (us @ p # vs)"
proof (induction us arbitrary: h)
  case Nil
  let ?m = "m(p \<mapsto> tp\<lparr>next_task := next_task ta\<rparr>)"
  have "tchain ?m (next_task ta) vs = tchain m (next_task ta) vs" using Nil.prems(2) by (intro tchain_cong) (auto simp: links_def)
  with Nil show ?case by (auto simp del: fun_upd_apply) (auto simp: fun_upd_def)
qed auto

text \<open>Taking a task that is not the current one out of the list.\<close>

lemma remove_task_ok:
  assumes ok: "sched_ok s xs ps" and a: "a \<in> set xs" "a \<noteq> current_task s"
  shows "\<exists>s'. remove_task s a = Ok s' \<and> sched_ok s' (remove1 a xs) ps \<and> (\<forall>b. st s' b = st s b)
    \<and> (a \<noteq> task_head s \<longrightarrow> hd (remove1 a xs) = hd xs)"
proof -
  obtain us vs where x: "xs = us @ a # vs" "a \<notin> set us" using split_list_first [OF a(1)] by blast
  have r: "remove1 a xs = us @ vs" using x by (simp add: remove1_append)
  have ch: "sched_chain s xs" and bl: "back_links (tasks s) 0 xs" and d: "distinct (us @ a # vs)"
    using ok x(1) by (auto simp: sched_ok_def)
  have c: "tchain (tasks s) (task_head s) (us @ a # vs)" using ch x(1) by (simp add: sched_chain_def)
  have cur: "current_task s \<in> set (us @ vs)" using ch a(2) x(1) by (auto simp: sched_chain_def)
  obtain t where t: "tasks s a = Some t" using sched_chain_task [OF ch a(1)] by blast
  have pt: "prev_task t = List.last (0 # us)" using bl t x(1) by (simp add: back_links_append)
  have nt: "tchain (tasks s) (next_task t) vs" using tchain_split [OF c] t by auto
  have nx: "next_task t = (case vs of [] \<Rightarrow> 0 | v # _ \<Rightarrow> v)" using nt by (cases vs) auto
  obtain f where tk: "\<And>b. b \<in> set xs \<Longrightarrow> tasks s b = Some (f b)"
    using sched_chain_task [OF ch] by metis
  text \<open>the map with the next link of the task before taken over, and with the previous link behind\<close>
  define m1 where "m1 = (if us = [] then tasks s
    else (tasks s)(List.last us \<mapsto> (f (List.last us))\<lparr>next_task := next_task t\<rparr>))"
  define m2 where "m2 = (case vs of [] \<Rightarrow> m1 | v # _ \<Rightarrow> m1(v \<mapsto> (f v)\<lparr>prev_task := prev_task t\<rparr>))"
  define h where "h = (if us = [] then next_task t else task_head s)"
  have lu: "us \<noteq> [] \<Longrightarrow> List.last us \<in> set us" by simp
  have lz: "us \<noteq> [] \<Longrightarrow> List.last us \<noteq> 0" using tchain_task [OF c] lu by auto
  have vz: "v \<in> set vs \<Longrightarrow> v \<noteq> 0" for v using tchain_task [OF c] by auto
  have tl: "us \<noteq> [] \<Longrightarrow> tasks s (List.last us) = Some (f (List.last us))" using tk lu x(1) by simp
  have tv: "vs = v # ws \<Longrightarrow> tasks s v = Some (f v)" for v ws using tk x(1) by simp
  have ul: "us \<noteq> [] \<Longrightarrow> List.last us \<notin> set vs" using d lu by (metis disjoint_iff distinct_append list.set_intros(2))
  have rem: "remove_task s a = Ok (unlock_scheduler ((lock_scheduler s)\<lparr>task_head := h, tasks := m2\<rparr>))"
    (is "_ = Ok ?s'")
  proof (cases "us = []")
    case True
    then show ?thesis using t pt nx vz tv
      by (cases vs) (auto simp: remove_task_def Let_def get_t_def upd_t_def m1_def m2_def h_def lock_scheduler_def)
  next
    case False
    then show ?thesis using t pt nx vz tv lz ul tl
      by (cases vs) (auto simp: remove_task_def Let_def get_t_def upd_t_def m1_def m2_def h_def lock_scheduler_def)
  qed
  have t0: "m2 b = (if vs \<noteq> [] \<and> b = hd vs then Some ((f b)\<lparr>prev_task := prev_task t\<rparr>)
    else if us \<noteq> [] \<and> b = List.last us then Some ((f b)\<lparr>next_task := next_task t\<rparr>) else tasks s b)" for b
    by (auto simp: m1_def m2_def split: list.splits)
  have th: "vs \<noteq> [] \<Longrightarrow> tasks s (hd vs) = Some (f (hd vs))" "vs \<noteq> [] \<Longrightarrow> hd vs \<in> set vs" using tv by (cases vs; simp)+
  have t1: "m2 b = tasks s b \<or> b \<in> set (us @ vs) \<and> (\<exists>u. tasks s b = Some (f b) \<and> m2 b = Some u
      \<and> state u = state (f b) \<and> task_fields u = task_fields (f b))" for b
  proof -
    consider "vs \<noteq> [] \<and> b = hd vs" | "\<not> (vs \<noteq> [] \<and> b = hd vs)" "us \<noteq> [] \<and> b = List.last us"
      | "\<not> (vs \<noteq> [] \<and> b = hd vs)" "\<not> (us \<noteq> [] \<and> b = List.last us)" by blast
    then show ?thesis
    proof cases
      case 1
      hence "m2 b = Some ((f b)\<lparr>prev_task := prev_task t\<rparr>)" using t0 by simp
      moreover have "tasks s b = Some (f b)" "b \<in> set vs" using 1 th by blast+
      ultimately show ?thesis by (simp add: task_fields_def)
    next
      case 2
      hence "m2 b = Some ((f b)\<lparr>next_task := next_task t\<rparr>)" unfolding t0 [of b] by (simp only: if_False if_True simp_thms)
      moreover have "tasks s b = Some (f b)" "b \<in> set us" using 2(2) tl lu by blast+
      ultimately show ?thesis by (simp add: task_fields_def)
    next
      case 3
      then show ?thesis unfolding t0 [of b] by (simp only: if_False simp_thms)
    qed
  qed
  have t2: "m2 b = None \<longleftrightarrow> tasks s b = None" "b \<notin> set (us @ vs) \<Longrightarrow> m2 b = tasks s b"
    "map_option state (m2 b) = map_option state (tasks s b)"
    "\<forall>u w. m2 b = Some u \<longrightarrow> tasks s b = Some w \<longrightarrow> task_fields u = task_fields w" for b
    using t1 [of b] by auto
  have "tchain m1 h (us @ vs)"
  proof (cases us rule: rev_cases)
    case Nil
    with nt show ?thesis by (simp add: m1_def h_def)
  next
    case (snoc us' p)
    hence "tasks s p = Some (f p)" using tk x(1) by simp
    from tchain_remove [OF _ _ this t, of "task_head s" us' vs] c d snoc show ?thesis by (simp add: m1_def h_def)
  qed
  moreover have "tchain m2 h (us @ vs) = tchain m1 h (us @ vs)"
    using tv ul by (intro tchain_cong) (auto simp: links_def m2_def m1_def split: list.splits)
  ultimately have tc: "tchain m2 h (us @ vs)" by simp
  have "back_links m2 0 us = back_links (tasks s) 0 us"
    using d tl lu by (intro back_links_cong) (auto simp: m1_def m2_def split: list.splits)
  moreover have "back_links m2 (prev_task t) vs"
  proof (cases vs)
    case (Cons v ws)
    have "back_links m2 v ws = back_links (tasks s) v ws"
      using d ul Cons by (intro back_links_cong) (auto simp: m1_def m2_def)
    with bl x(1) Cons show ?thesis by (simp add: back_links_append m2_def)
  qed simp
  ultimately have "back_links m2 0 (us @ vs)" using bl x(1) pt by (simp add: back_links_append)
  have sts: "st ?s' b = st s b" for b using t2(3) [of b]
    by (cases "tasks s b"; cases "m2 b") (auto simp: st_def)
  have "sched_chain ?s' (us @ vs)" using tc cur ch x(1) sts d by (auto simp: sched_chain_def)
  moreover have "\<exists>u. m2 b = Some u \<and> unlinked u" if "b \<in> set ps" for b
  proof -
    have "b \<notin> set (us @ vs)" using that ok x(1) by (auto simp: sched_ok_def)
    with t2(2) [of b] that ok show ?thesis by (auto simp: sched_ok_def)
  qed
  moreover have "task_fields u" if b: "b \<in> set (us @ vs) \<union> set ps" and u: "m2 b = Some u" for b u
  proof -
    have "b \<in> set xs \<union> set ps" using b x(1) by auto
    moreover obtain w where "tasks s b = Some w" using t2(1) [of b] u by (cases "tasks s b") auto
    ultimately show ?thesis using t2(4) [of b] u sched_ok_fields [OF ok] by blast
  qed
  ultimately have "sched_ok ?s' (us @ vs) ps" using \<open>back_links m2 0 (us @ vs)\<close> ok x(1) by (auto simp: sched_ok_def)
  moreover have "hd (us @ vs) = hd xs" if "a \<noteq> task_head s" using that c x(1) by (cases us) auto
  ultimately show ?thesis using rem sts r by auto
qed

text \<open>A new task gets a free pid and stays outside the list until it is added.\<close>

lemma create_task_ok:
  assumes ok: "sched_ok s xs ps" and k: "length xs < k" and a: "a \<noteq> 0" "tasks s a = None"
    and tty: "terminated tty" "length (cstr tty) < 32" "length junk = 32"
  shows "\<exists>s'. create_task k s a priv tty junk = Ok s' \<and> sched_ok s' xs (ps @ [a]) \<and> (\<forall>b \<in> set xs. st s' b = st s b)"
proof -
  let ?s0 = "lock_scheduler s"
  have ch: "sched_chain s xs" using ok by (simp add: sched_ok_def)
  have tc: "tchain (tasks ?s0) (task_head ?s0) xs" using ch by (simp add: sched_chain_def)
  obtain p where p: "get_free_pid k ?s0 = Ok p" using get_free_pid_fresh [OF tc k] by blast
  obtain c where c: "tasks s (current_task s) = Some c" "current_task s \<in> set xs" using sched_ok_current [OF ok] by blast
  have c0: "current_task s \<noteq> 0" using tchain_task [OF tc c(2)] by blast
  have n: "rbind (strlen tty) (strncpy junk tty) = Ok (cstr tty @ 0 # drop (length (cstr tty) + 1) junk)"
    using strlen_length [OF tty(1)] strncpy_copies [OF tty(1), of "length (cstr tty)" junk] tty by simp
  have out: "a \<notin> set xs" "a \<notin> set ps" using sched_ok_task [OF ok, of a] a(2) by auto
  obtain t where t: "create_task k s a priv tty junk = Ok (unlock_scheduler (?s0\<lparr>tasks := (tasks s)(a \<mapsto> t)\<rparr>))"
    "unlinked t" "task_fields t"
    using p c c0 n tty(2,3) by (auto simp: create_task_def Let_def get_t_def unlinked_def task_fields_def)
  let ?s' = "unlock_scheduler (?s0\<lparr>tasks := (tasks s)(a \<mapsto> t)\<rparr>)"
  have sts: "st ?s' b = st s b" if "b \<in> set xs" for b using that out by (auto simp: st_def)
  have "tchain (tasks ?s') (task_head s) xs = tchain (tasks s) (task_head s) xs"
    using out by (intro tchain_cong) (auto simp: links_def)
  hence "sched_chain ?s' xs" using ch sts by (simp add: sched_chain_def)
  moreover have "back_links (tasks ?s') 0 xs = back_links (tasks s) 0 xs" using out by (intro back_links_cong) auto
  ultimately have "sched_ok ?s' xs (ps @ [a])" using ok out a(1) t(2,3) by (auto simp: sched_ok_def)
  with t(1) sts show ?thesis by blast
qed

text \<open>\<open>init_scheduler\<close> leaves the idle task alone in the list.\<close>

lemma init_scheduler_ok:
  assumes s: "tasks s = Map.empty" "task_head s = 0" "current_task s = 0" and a: "a \<noteq> 0" and k: "0 < k" and j: "length junk = 32"
  shows "\<exists>s'. init_scheduler k s a junk = Ok s' \<and> sched_ok s' [a] [] \<and> st s' a = TASK_IDLE \<and> (\<forall>b. b \<noteq> a \<longrightarrow> tasks s' b = None)"
proof -
  let ?tty = "[100, 101, 102, 97, 117, 108, 116, 0] :: u8 list"
  let ?s0 = "lock_scheduler (lock_scheduler s)"
  have tc: "tchain (tasks ?s0) (task_head ?s0) []" using s by simp
  obtain p where p: "get_free_pid k ?s0 = Ok p" using get_free_pid_fresh [OF tc, of k] k by auto
  have n: "rbind (strlen ?tty) (strncpy junk ?tty) = Ok (cstr ?tty @ 0 # drop 8 junk)"
  proof -
    have len: "length (cstr ?tty) = 7" "terminated ?tty" by (simp_all add: cstr_simps)
    have "strlen ?tty = Ok 7" using strlen_length [OF len(2)] unfolding len by simp
    moreover have "strncpy junk ?tty 7 = Ok (cstr ?tty @ 0 # drop 8 junk)"
      using strncpy_copies [OF len(2), of 7 junk] j unfolding len by (simp add: len)
    ultimately show ?thesis by simp
  qed
  have t: "length (cstr ?tty @ 0 # drop 8 junk) = 32" using j by (simp add: cstr_simps)
  show ?thesis using s p n t a by (auto simp: init_scheduler_def create_task_def add_task_def Let_def upd_t_def
      sched_ok_def sched_chain_def st_def task_fields_def)
qed

section \<open>Calls of the scheduler\<close>

text \<open>The calls that change the scheduler, with the arguments their callers pass: a reason, a task, a pid, a
  signal, a handler, the name of a terminal. \<open>CallProcess\<close> is one round of \<open>process_loop\<close>.\<close>

datatype sched_call = CallYield | CallBlock int | CallUnblock nat | CallPause nat | CallResume nat | CallExit
  | CallKill int | CallSignal int int nat u64 | CallSubscribe int nat | CallProcess
  | CallAdd nat | CallRemove nat | CallCreate nat u8 "u8 list" "u8 list" | CallSetTty "u8 list" | CallResetTty

fun do_call :: "nat \<Rightarrow> sched_call \<Rightarrow> sched \<Rightarrow> sched result" where
  "do_call k CallYield s = yield k s"
| "do_call k (CallBlock reason) s = block_task k s reason"
| "do_call k (CallUnblock a) s = unblock_task k s a"
| "do_call k (CallPause a) s = pause_task s a"
| "do_call k (CallResume a) s = resume_task s a"
| "do_call k CallExit s = exit_task s"
| "do_call k (CallKill p) s = kill_task k s p"
| "do_call k (CallSignal p sg d n) s = add_signal k s p sg d n"
| "do_call k (CallSubscribe sg h) s = subscribe_signal s sg h"
| "do_call k CallProcess s = process_round s"
| "do_call k (CallAdd a) s = add_task k s a"
| "do_call k (CallRemove a) s = remove_task s a"
| "do_call k (CallCreate a priv tty junk) s = create_task k s a priv tty junk"
| "do_call k (CallSetTty tty) s = set_current_tty s tty"
| "do_call k CallResetTty s = reset_current_tty s"

text \<open>What a caller must respect: a task it names exists, only a task that was made and not yet added is added,
  the current task is not removed, \<open>kmalloc\<close> returns memory that is not in use, a signal is one of the 32 that
  have a handler slot (the code does not check it) and the name of a terminal is a string that fits the 32 bytes
  of the task. Which task is blocked, paused, killed or removed is free, the idle task included.\<close>

fun call_ok :: "sched_call \<Rightarrow> sched \<Rightarrow> nat list \<Rightarrow> nat list \<Rightarrow> bool" where
  "call_ok (CallUnblock a) s xs ps \<longleftrightarrow> a \<in> set xs \<union> set ps"
| "call_ok (CallPause a) s xs ps \<longleftrightarrow> a \<in> set xs \<union> set ps"
| "call_ok (CallResume a) s xs ps \<longleftrightarrow> a \<in> set xs \<union> set ps"
| "call_ok (CallSignal p sg d n) s xs ps \<longleftrightarrow> 0 \<le> sg \<and> sg < int TASK_SIGNAL_MAX"
| "call_ok (CallSubscribe sg h) s xs ps \<longleftrightarrow> 0 \<le> sg \<and> sg < int TASK_SIGNAL_MAX"
| "call_ok (CallAdd a) s xs ps \<longleftrightarrow> a \<in> set ps"
| "call_ok (CallRemove a) s xs ps \<longleftrightarrow> a \<in> set xs \<and> a \<noteq> current_task s"
| "call_ok (CallCreate a priv tty junk) s xs ps \<longleftrightarrow> a \<noteq> 0 \<and> tasks s a = None \<and> terminated tty
    \<and> length (cstr tty) < 32 \<and> length junk = 32"
| "call_ok (CallSetTty tty) s xs ps \<longleftrightarrow> terminated tty \<and> length (cstr tty) < 32"
| "call_ok _ s xs ps \<longleftrightarrow> True"

text \<open>The list of the tasks and the tasks made but not added, after the call.\<close>

fun listed :: "sched_call \<Rightarrow> nat list \<Rightarrow> nat list" where
  "listed (CallAdd a) xs = xs @ [a]"
| "listed (CallRemove a) xs = remove1 a xs"
| "listed _ xs = xs"

fun made :: "sched_call \<Rightarrow> nat list \<Rightarrow> nat list" where
  "made (CallAdd a) ps = removeAll a ps"
| "made (CallCreate a priv tty junk) ps = ps @ [a]"
| "made _ ps = ps"

text \<open>The call leaves the idle task at the head of the list alone.\<close>

fun spares_idle :: "nat \<Rightarrow> sched_call \<Rightarrow> sched \<Rightarrow> bool" where
  "spares_idle k (CallBlock reason) s \<longleftrightarrow> current_task s \<noteq> task_head s"
| "spares_idle k (CallUnblock a) s \<longleftrightarrow> a \<noteq> task_head s"
| "spares_idle k (CallPause a) s \<longleftrightarrow> a \<noteq> task_head s"
| "spares_idle k (CallResume a) s \<longleftrightarrow> a \<noteq> task_head s"
| "spares_idle k CallExit s \<longleftrightarrow> current_task s \<noteq> task_head s"
| "spares_idle k (CallKill p) s \<longleftrightarrow> get_task k (lock_scheduler s) p \<noteq> Ok (task_head s)"
| "spares_idle k (CallRemove a) s \<longleftrightarrow> a \<noteq> task_head s"
| "spares_idle k _ s \<longleftrightarrow> True"

text \<open>What a call may do: it returns with the invariant, and with the idle task in place when it was there
  and the call spares it; or it panics, which takes a scheduler without idle task in place (or a call that
  takes it away) in which no other task can run.\<close>

definition call_safe :: "nat \<Rightarrow> sched_call \<Rightarrow> sched \<Rightarrow> nat list \<Rightarrow> nat list \<Rightarrow> bool" where
  "call_safe k c s xs ps \<longleftrightarrow> (case do_call k c s of
      Ok s' \<Rightarrow> sched_ok s' (listed c xs) (made c ps)
        \<and> (st s (hd xs) = TASK_IDLE \<and> spares_idle k c s \<longrightarrow> st s' (hd (listed c xs)) = TASK_IDLE)
    | Err e \<Rightarrow> e = Panic ''Idle task is not valid or at head''
        \<and> \<not> (st s (hd xs) = TASK_IDLE \<and> spares_idle k c s)
        \<and> (\<forall>a \<in> set xs. a \<noteq> current_task s \<longrightarrow> \<not> runnable s a))"

lemma call_safe_Ok:
  assumes "do_call k c s = Ok s'" and "sched_ok s' (listed c xs) (made c ps)"
    and "st s (hd xs) = TASK_IDLE \<Longrightarrow> spares_idle k c s \<Longrightarrow> st s' (hd (listed c xs)) = TASK_IDLE"
  shows "call_safe k c s xs ps"
  using assms by (simp add: call_safe_def)

text \<open>Calls that set fields of one task.\<close>

lemma upd_safe:
  assumes ok: "sched_ok s xs ps" and a: "a \<in> set xs \<union> set ps" and "listed c xs = xs" "made c ps = ps"
    and call: "\<And>s1. upd_t (lock_scheduler s) a f = Ok s1 \<Longrightarrow> do_call k c s = Ok (unlock_scheduler s1)"
    and f: "\<And>t. tasks s a = Some t \<Longrightarrow> task_fields t \<Longrightarrow> next_task (f t) = next_task t \<and> prev_task (f t) = prev_task t \<and> task_fields (f t)
      \<and> (state (f t) = TASK_EXECUTING \<longrightarrow> state t = TASK_EXECUTING \<or> a = current_task s)"
    and i: "spares_idle k c s \<Longrightarrow> a \<noteq> task_head s \<or> (\<forall>t. state (f t) = state t)"
  shows "call_safe k c s xs ps"
proof -
  have ok0: "sched_ok (lock_scheduler s) xs ps" using ok by simp
  obtain t where t: "tasks s a = Some t"
    "upd_t (lock_scheduler s) a f = Ok ((lock_scheduler s)\<lparr>tasks := (tasks s)(a \<mapsto> f t)\<rparr>)"
    "sched_ok ((lock_scheduler s)\<lparr>tasks := (tasks s)(a \<mapsto> f t)\<rparr>) xs ps"
    using upd_ok [OF ok0 a, of f] f by auto
  have h: "task_head s = hd xs" using sched_chain_head [of s xs] ok by (auto simp: sched_ok_def)
  show ?thesis
  proof (rule call_safe_Ok [OF call [OF t(2)]])
    assume "st s (hd xs) = TASK_IDLE" "spares_idle k c s"
    with i h t(1) show "st (unlock_scheduler ((lock_scheduler s)\<lparr>tasks := (tasks s)(a \<mapsto> f t)\<rparr>)) (hd (listed c xs)) = TASK_IDLE"
      using assms(3) by (auto simp: st_def)
  qed (use t(3) assms(3,4) in simp)
qed

text \<open>Calls that change one task and yield.\<close>

lemma yielding_safe:
  assumes ok: "sched_ok s1 xs ps" and k: "length xs < k" and "listed c xs = xs" "made c ps = ps"
    and call: "do_call k c s = rbind (yield k s1) (\<lambda>s2. Ok (unlock_scheduler s2))"
    and i: "st s (hd xs) = TASK_IDLE \<Longrightarrow> spares_idle k c s \<Longrightarrow> st s1 (hd xs) = TASK_IDLE"
    and r: "\<And>a. a \<noteq> current_task s \<Longrightarrow> runnable s a \<Longrightarrow> runnable s1 a"
  shows "call_safe k c s xs ps"
proof (cases "stuck s1 xs")
  case True
  with yield_sched_ok [OF ok, of k] k have "do_call k c s = Err (Panic ''Idle task is not valid or at head'')"
    by (simp add: call)
  with True i r show ?thesis by (auto simp: call_safe_def stuck_def)
next
  case False
  with yield_sched_ok [OF ok, of k] k obtain s' where "yield k s1 = Ok s'" "sched_ok s' xs ps"
    "st s1 (hd xs) = TASK_IDLE \<longrightarrow> st s' (hd xs) = TASK_IDLE" by auto
  with i assms(3,4) show ?thesis by (intro call_safe_Ok [of k c s "unlock_scheduler s'"]) (simp_all add: call)
qed

lemma yield_call_safe:
  assumes ok: "sched_ok s xs ps" and k: "length xs < k"
  shows "call_safe k CallYield s xs ps"
proof (cases "stuck s xs")
  case True
  with yield_sched_ok [OF ok, of k] k show ?thesis by (auto simp: call_safe_def stuck_def)
next
  case False
  with yield_sched_ok [OF ok, of k] k obtain s' where "yield k s = Ok s'" "sched_ok s' xs ps"
    "st s (hd xs) = TASK_IDLE \<longrightarrow> st s' (hd xs) = TASK_IDLE" by auto
  then show ?thesis by (intro call_safe_Ok [of k CallYield s s']) simp_all
qed

lemma block_call_safe:
  assumes ok: "sched_ok s xs ps" and k: "length xs < k"
  shows "call_safe k (CallBlock reason) s xs ps"
proof -
  have ok0: "sched_ok (lock_scheduler s) xs ps" using ok by simp
  let ?f = "\<lambda>t. t\<lparr>state := reason\<rparr>"
  have cur: "current_task s \<in> set xs \<union> set ps" using sched_ok_current [OF ok] by blast
  obtain t where t: "tasks s (current_task s) = Some t"
    "upd_t (lock_scheduler s) (current_task s) ?f = Ok ((lock_scheduler s)\<lparr>tasks := (tasks s)(current_task s \<mapsto> ?f t)\<rparr>)"
    "sched_ok ((lock_scheduler s)\<lparr>tasks := (tasks s)(current_task s \<mapsto> ?f t)\<rparr>) xs ps"
    using upd_ok [OF ok0 cur, of ?f] by (auto simp: task_fields_def)
  have h: "task_head s = hd xs" using sched_chain_head [of s xs] ok by (auto simp: sched_ok_def)
  show ?thesis using t(1,2) h
    by (intro yielding_safe [OF t(3) k]) (auto simp: block_task_def Let_def st_def runnable_def)
qed

lemma unblock_call_safe:
  assumes ok: "sched_ok s xs ps" and k: "length xs < k" and a: "a \<in> set xs \<union> set ps"
  shows "call_safe k (CallUnblock a) s xs ps"
proof -
  have ok0: "sched_ok (lock_scheduler s) xs ps" using ok by simp
  let ?f = "\<lambda>t. t\<lparr>state := TASK_READY\<rparr>"
  obtain t where t: "tasks s a = Some t"
    "upd_t (lock_scheduler s) a ?f = Ok ((lock_scheduler s)\<lparr>tasks := (tasks s)(a \<mapsto> ?f t)\<rparr>)"
    "sched_ok ((lock_scheduler s)\<lparr>tasks := (tasks s)(a \<mapsto> ?f t)\<rparr>) xs ps"
    using upd_ok [OF ok0 a, of ?f] by (auto simp: task_fields_def)
  have h: "task_head s = hd xs" using sched_chain_head [of s xs] ok by (auto simp: sched_ok_def)
  show ?thesis using t(1,2) h
    by (intro yielding_safe [OF t(3) k]) (auto simp: unblock_task_def Let_def st_def runnable_def)
qed

text \<open>Calls that look a task up by its pid.\<close>

lemma get_task_listed:
  assumes ok: "sched_ok s xs ps" and k: "length xs < k"
  shows "\<exists>a. get_task k (lock_scheduler s) p = Ok a \<and> (a = 0 \<or> a \<in> set xs)"
proof -
  have "tchain (tasks (lock_scheduler s)) (task_head (lock_scheduler s)) xs" using ok by (simp add: sched_ok_def sched_chain_def)
  from first_task_chain [OF this k, of "\<lambda>t. pid t = p"] show ?thesis
    by (auto simp: get_task_def find_Some_iff split: option.splits)
qed

lemma kill_call_safe:
  assumes ok: "sched_ok s xs ps" and k: "length xs < k"
  shows "call_safe k (CallKill p) s xs ps"
proof -
  obtain a where a: "get_task k (lock_scheduler s) p = Ok a" "a = 0 \<or> a \<in> set xs" using get_task_listed [OF assms] by blast
  show ?thesis
  proof (cases "a = 0")
    case True
    with a(1) ok show ?thesis by (intro call_safe_Ok [of k _ s "unlock_scheduler (lock_scheduler s)"]) (auto simp: kill_task_def)
  next
    case False
    with a show ?thesis
      by (intro upd_safe [where a = a and f = "\<lambda>t. t\<lparr>exit_code := 0, exit_signal := SIGKILL, state := TASK_ZOMBIE\<rparr>", OF ok])
        (auto simp: kill_task_def task_fields_def)
  qed
qed

lemma signal_call_safe:
  assumes ok: "sched_ok s xs ps" and k: "length xs < k" and "0 \<le> sg" "sg < int TASK_SIGNAL_MAX"
  shows "call_safe k (CallSignal p sg d n) s xs ps"
proof -
  obtain a where a: "get_task k (lock_scheduler s) p = Ok a" "a = 0 \<or> a \<in> set xs" using get_task_listed [OF assms(1,2)] by blast
  show ?thesis
  proof (cases "a = 0")
    case True
    with a(1) ok show ?thesis by (intro call_safe_Ok [of k _ s "unlock_scheduler (lock_scheduler s)"]) (auto simp: add_signal_def)
  next
    case False
    with a assms(3,4) show ?thesis
      by (intro upd_safe [where a = a and f = "\<lambda>t. t\<lparr>signal_queue := signal_queue t @ [\<lparr>sig_no = sg, sig_data = d, sig_size = n\<rparr>]\<rparr>", OF ok])
        (auto simp: add_signal_def task_fields_def)
  qed
qed

lemma subscribe_call_safe:
  assumes ok: "sched_ok s xs ps" and "0 \<le> sg" "sg < int TASK_SIGNAL_MAX"
  shows "call_safe k (CallSubscribe sg h) s xs ps"
proof -
  obtain t where t: "current_task s \<in> set xs" "tasks s (current_task s) = Some t" "task_fields t" using sched_ok_current [OF ok] by blast
  show ?thesis using t assms(2,3)
    by (intro upd_safe [where a = "current_task s" and f = "\<lambda>u. u\<lparr>signal_handlers := (signal_handlers t)[nat sg := h]\<rparr>", OF ok])
      (auto simp: subscribe_signal_def get_t_def task_fields_def)
qed

lemma run_signals_ok:
  "\<forall>g \<in> set gs. 0 \<le> sig_no g \<and> sig_no g < int (length hs) \<Longrightarrow> \<exists>r. run_signals a hs gs = Ok r"
proof (induction gs)
  case (Cons g gs)
  then obtain r where "run_signals a hs gs = Ok r" by auto
  with Cons.prems show ?case by (auto simp: nat_less_iff)
qed simp

lemma process_call_safe:
  assumes ok: "sched_ok s xs ps"
  shows "call_safe k CallProcess s xs ps"
proof -
  obtain t where t: "current_task s \<in> set xs" "tasks s (current_task s) = Some t" "task_fields t" using sched_ok_current [OF ok] by blast
  obtain r where r: "run_signals (current_task s) (signal_handlers t) (signal_queue t) = Ok r"
    using run_signals_ok [of "signal_queue t" "signal_handlers t"] t(3) by (auto simp: task_fields_def)
  let ?t = "t\<lparr>signal_queue := []\<rparr>"
  let ?s = "s\<lparr>tasks := (tasks s)(current_task s \<mapsto> ?t)\<rparr>"
  have "sched_ok ?s xs ps" using t by (intro sched_ok_upd [OF ok t(2)]) (auto simp: task_fields_def)
  hence "sched_ok (?s\<lparr>handled := handled s @ r\<rparr>) xs ps" by (subst sched_ok_cong [of _ ?s]) simp_all
  moreover have p: "do_call k CallProcess s = Ok (?s\<lparr>handled := handled s @ r\<rparr>)"
    using t(2) r by (simp add: process_round_def get_t_def upd_t_def)
  ultimately show ?thesis using t(2) by (intro call_safe_Ok [OF p]) (auto simp: st_def)
qed

lemma tty_call_safe:
  assumes ok: "sched_ok s xs ps"
  shows "terminated tty \<Longrightarrow> length (cstr tty) < 32 \<Longrightarrow> call_safe k (CallSetTty tty) s xs ps"
    and "call_safe k CallResetTty s xs ps"
proof -
  obtain t where t: "current_task s \<in> set xs" "tasks s (current_task s) = Some t" "task_fields t" using sched_ok_current [OF ok] by blast
  have c0: "current_task s \<noteq> 0" using tchain_task t(1) ok by (fastforce simp: sched_ok_def sched_chain_def)
  have z: "memset (ttyname t) 0 32 = Ok (replicate 32 0)"
    using t(3) put_bytes_eq [of 0 "replicate 32 0" "ttyname t"] by (simp add: memset_def task_fields_def)
  show "call_safe k (CallSetTty tty) s xs ps" if tt: "terminated tty" "length (cstr tty) < 32"
  proof -
    let ?n = "length (cstr tty)"
    let ?b = "(cstr tty @ 0 # drop (?n + 1) (replicate 32 0))[?n := 0]"
    have "strncpy (replicate 32 0) tty ?n = Ok (cstr tty @ 0 # drop (?n + 1) (replicate 32 0))"
      using strncpy_copies [OF tt(1), of ?n "replicate 32 0"] tt(2) by simp
    moreover have "strlen tty = Ok ?n" using strlen_length [OF tt(1)] tt(2) by simp
    moreover have "length ?b = 32" using tt(2) by simp
    ultimately show ?thesis using t c0 z tt(2)
      by (intro upd_safe [where a = "current_task s" and f = "\<lambda>u. u\<lparr>ttyname := ?b\<rparr>", OF ok])
        (auto simp: set_current_tty_def Let_def get_t_def task_fields_def)
  qed
  let ?d = "[100, 101, 102, 97, 117, 108, 116, 0] :: u8 list"
  have len: "length (cstr ?d) = 7" "terminated ?d" by (simp_all add: cstr_simps)
  let ?b = "cstr ?d @ 0 # drop 8 (replicate 32 0)"
  have "strncpy (replicate 32 0) ?d 8 = Ok ?b"
    using strncpy_copies [OF len(2), of 8 "replicate 32 0"] unfolding len by (simp add: len)
  moreover have "length ?b = 32" by (simp add: len)
  ultimately show "call_safe k CallResetTty s xs ps" using t c0 z
    by (intro upd_safe [where a = "current_task s" and f = "\<lambda>u. u\<lparr>ttyname := ?b\<rparr>", OF ok])
      (auto simp: reset_current_tty_def Let_def get_t_def task_fields_def simp del: drop_replicate)
qed

lemma add_call_safe:
  assumes ok: "sched_ok s xs ps" and k: "length xs < k" and a: "a \<in> set ps"
  shows "call_safe k (CallAdd a) s xs ps"
proof -
  have "xs \<noteq> []" using sched_chain_head [of s xs] ok by (auto simp: sched_ok_def)
  moreover obtain s' where "add_task k s a = Ok s'" "sched_ok s' (xs @ [a]) (removeAll a ps)" "\<forall>b. st s' b = st s b"
    using add_task_ok [OF ok _ a, of k] k by auto
  ultimately show ?thesis by (intro call_safe_Ok [of k _ s s']) auto
qed

lemma remove_call_safe:
  assumes ok: "sched_ok s xs ps" and a: "a \<in> set xs" "a \<noteq> current_task s"
  shows "call_safe k (CallRemove a) s xs ps"
proof -
  obtain s' where "remove_task s a = Ok s'" "sched_ok s' (remove1 a xs) ps" "\<forall>b. st s' b = st s b"
    "a \<noteq> task_head s \<longrightarrow> hd (remove1 a xs) = hd xs" using remove_task_ok [OF assms] by blast
  then show ?thesis by (intro call_safe_Ok [of k _ s s']) auto
qed

lemma create_call_safe:
  assumes ok: "sched_ok s xs ps" and k: "length xs < k" and c: "call_ok (CallCreate a priv tty junk) s xs ps"
  shows "call_safe k (CallCreate a priv tty junk) s xs ps"
proof -
  have "hd xs \<in> set xs" using sched_chain_head [of s xs] ok by (auto simp: sched_ok_def)
  moreover obtain s' where "create_task k s a priv tty junk = Ok s'" "sched_ok s' xs (ps @ [a])" "\<forall>b \<in> set xs. st s' b = st s b"
    using create_task_ok [OF ok k, of a tty junk priv] c by auto
  ultimately show ?thesis by (intro call_safe_Ok [of k _ s s']) auto
qed

lemmas calls_safe = yield_call_safe block_call_safe unblock_call_safe kill_call_safe signal_call_safe
  subscribe_call_safe process_call_safe tty_call_safe add_call_safe remove_call_safe create_call_safe

lemma do_call_safe:
  assumes ok: "sched_ok s xs ps" and c: "call_ok c s xs ps" and k: "length xs < k"
  shows "call_safe k c s xs ps"
proof (cases c)
  case (CallPause a)
  with c show ?thesis by (intro upd_safe [where a = a and f = "\<lambda>t. t\<lparr>state := TASK_UNINTERRUPTIBLE\<rparr>", OF ok])
      (auto simp: pause_task_def task_fields_def)
next
  case (CallResume a)
  with c show ?thesis by (intro upd_safe [where a = a and f = "\<lambda>t. t\<lparr>state := TASK_READY\<rparr>", OF ok])
      (auto simp: resume_task_def task_fields_def)
next
  case CallExit
  with sched_ok_current [OF ok] show ?thesis
    by (intro upd_safe [where a = "current_task s" and f = "\<lambda>t. t\<lparr>exit_code := 0, state := TASK_ZOMBIE\<rparr>", OF ok])
      (auto simp: exit_task_def task_fields_def)
qed (use c calls_safe [OF ok] k in auto)

text \<open>A step is a call that returned. \<open>k\<close> bounds the walks along the list.\<close>

inductive sched_step :: "nat \<Rightarrow> sched \<times> nat list \<times> nat list \<Rightarrow> sched \<times> nat list \<times> nat list \<Rightarrow> bool" for k where
  step: "call_ok c s xs ps \<Longrightarrow> length xs < k \<Longrightarrow> do_call k c s = Ok s' \<Longrightarrow> sched_step k (s, xs, ps) (s', listed c xs, made c ps)"

inductive_cases sched_stepE: "sched_step k (s, xs, ps) \<sigma>"

lemma sched_steps_ok:
  "(sched_step k)\<^sup>*\<^sup>* (s, xs, ps) (s', xs', ps') \<Longrightarrow> sched_ok s xs ps \<Longrightarrow> sched_ok s' xs' ps'"
proof (induction "(s', xs', ps')" arbitrary: s' xs' ps' rule: rtranclp_induct)
  case (step y)
  obtain s1 xs1 ps1 where y: "y = (s1, xs1, ps1)" by (cases y) auto
  with step have ok: "sched_ok s1 xs1 ps1" by simp
  from step(2) y obtain c where "call_ok c s1 xs1 ps1" "length xs1 < k" "do_call k c s1 = Ok s'" "xs' = listed c xs1" "ps' = made c ps1"
    by (auto elim: sched_stepE)
  with do_call_safe [OF ok, of c k] show ?case by (simp add: call_safe_def)
qed simp

section \<open>Safety\<close>

text \<open>Killing the idle task is possible (the shell passes any pid to \<open>kill_task\<close>); when no other task can
  run, the next yield panics.\<close>

lemma idle_killed_panics:
  assumes ok: "sched_ok s xs ps" and k: "length xs < k" and t: "tasks s (task_head s) = Some t" "pid t = 0"
    and o: "\<And>a. a \<in> set xs \<Longrightarrow> a \<noteq> task_head s \<Longrightarrow> \<not> runnable s a"
  shows "\<exists>s'. kill_task k s 0 = Ok s' \<and> yield k s' = Err (Panic ''Idle task is not valid or at head'')"
proof -
  have ch: "sched_chain s xs" using ok by (simp add: sched_ok_def)
  have h: "task_head s = hd xs" "hd xs \<in> set xs" using sched_chain_head [OF ch] by auto
  have h0: "task_head s \<noteq> 0" using tchain_task h ch by (fastforce simp: sched_chain_def)
  obtain k' where "k = Suc k'" using k by (cases k) auto
  with h0 t have g: "get_task k (lock_scheduler s) 0 = Ok (task_head s)" by (simp add: get_task_def get_t_def)
  let ?t = "t\<lparr>exit_code := 0, exit_signal := SIGKILL, state := TASK_ZOMBIE\<rparr>"
  let ?s = "unlock_scheduler ((lock_scheduler s)\<lparr>tasks := (tasks s)(task_head s \<mapsto> ?t)\<rparr>)"
  have kill: "kill_task k s 0 = Ok ?s" using g t h0 by (simp add: kill_task_def upd_t_def)
  hence "sched_ok ?s xs ps" using kill_call_safe [OF ok k, of 0] by (simp add: call_safe_def)
  moreover have "stuck ?s xs" using o h t(1) by (auto simp: stuck_def runnable_def st_def)
  ultimately show ?thesis using kill yield_sched_ok [of ?s xs ps k] k by auto
qed

text \<open>C8: after any sequence of calls of the scheduler - yield, block, unblock, pause, resume, exit, kill, the
  signal calls, creating, adding and removing tasks and setting the name of the terminal, with the idle task as
  well as any other - the list is linked both ways without repetition, holds the current task, and no other task
  than the current one is marked as executing (\<open>sched_ok\<close>). Every further call whose arguments are in order
  (\<open>call_ok\<close>) returns and keeps this; the only other outcome is the panic of \<open>schedule\<close>, and it takes both that
  no other task than the current one can run and that the head of the list is not the idle task or the call takes
  the idle task away. As long as the calls leave the idle task at the head alone it stays there, so none of them
  panics. No call accesses memory out of range or loops.\<close>

theorem scheduler_safe:
  assumes "(sched_step k)\<^sup>*\<^sup>* (s, xs, ps) (s', xs', ps')" and "sched_ok s xs ps"
    and "call_ok c s' xs' ps'" and "length xs' < k"
  shows "sched_ok s' xs' ps' \<and> (case do_call k c s' of
      Ok s'' \<Rightarrow> sched_ok s'' (listed c xs') (made c ps')
        \<and> (st s' (hd xs') = TASK_IDLE \<and> spares_idle k c s' \<longrightarrow> st s'' (hd (listed c xs')) = TASK_IDLE)
    | Err e \<Rightarrow> e = Panic ''Idle task is not valid or at head''
        \<and> \<not> (st s' (hd xs') = TASK_IDLE \<and> spares_idle k c s')
        \<and> (\<forall>a \<in> set xs'. a \<noteq> current_task s' \<longrightarrow> \<not> runnable s' a))"
proof -
  have ok: "sched_ok s' xs' ps'" by (rule sched_steps_ok [OF assms(1,2)])
  from do_call_safe [OF ok assms(3,4)] ok show ?thesis unfolding call_safe_def by blast
qed

section \<open>Witnesses\<close>

definition task_example :: "int \<Rightarrow> int \<Rightarrow> nat \<Rightarrow> nat \<Rightarrow> task" where
  "task_example p v n pr = \<lparr>pid = p, ppid = 0, state = v, flags = 0, privilege = 0, cpu_time = 0, last_scheduled = 0,
     exit_code = 0, exit_signal = 0, signal_queue = [], signal_handlers = [], ttyname = [], parent = 1,
     next_task = n, prev_task = pr\<rparr>"

definition sched_example :: sched where
  "sched_example = \<lparr>tasks = [1 \<mapsto> task_example 0 TASK_IDLE 2 0, 2 \<mapsto> task_example 1 TASK_READY 3 1, 3 \<mapsto> task_example 2 TASK_ZOMBIE 0 2],
     task_head = 1, current_task = 1, irq_disable_counter = 0, irqs_on = True, spit = pit_example, switches = [], handled = []\<rparr>"

lemma sched_example_chain: "tchain (tasks sched_example) (task_head sched_example) [1, 2, 3]"
  by (simp add: sched_example_def task_example_def)

lemma sched_example_wf: "sched_wf sched_example [1, 2, 3]" "st sched_example 2 = TASK_READY"
  "current_task sched_example = 1" "after [1, 2, 3] (1 :: nat) = [2, 3, 1]"
  by (simp_all add: sched_example_def task_example_def sched_wf_def st_def after_def)

theorem schedule_picks_witness: "\<exists>s'. schedule 3 sched_example = Ok (1, s') \<and> current_task s' = 2"
proof -
  have "length [1, 2, 3 :: nat] \<le> 3" by simp
  moreover have "runnable sched_example 2" using sched_example_wf(2) by (simp add: runnable_def)
  ultimately show ?thesis using schedule_picks [OF sched_example_wf(1), of 3] sched_example_wf(3,4) by auto
qed

theorem round_robin_witness:
  "\<exists>n s'. n \<le> 3 \<and> yields_n 3 n sched_example = Ok s' \<and> current_task s' = 2 \<and> st s' 2 = TASK_EXECUTING"
proof -
  have "length [1, 2, 3 :: nat] \<le> 3" "2 \<in> set [1, 2, 3 :: nat]" by simp_all
  from round_robin [OF sched_example_wf(1) this sched_example_wf(2)] show ?thesis by (simp add: eval_nat_numeral)
qed

theorem scheduler_safe_witness:
  fixes tty junk :: "u8 list"
  defines "tty \<equiv> [116, 116, 121, 97, 0]" and "junk \<equiv> replicate 32 0"
  shows "\<exists>s1 s2 s3 s4. init_scheduler 5 (sched_example\<lparr>tasks := Map.empty, task_head := 0, current_task := 0\<rparr>) 1 junk = Ok s1
    \<and> create_task 5 s1 2 0 tty junk = Ok s2 \<and> add_task 5 s2 2 = Ok s3 \<and> sched_ok s3 [1, 2] []
    \<and> yield 5 s3 = Ok s4 \<and> sched_ok s4 [1, 2] [] \<and> st s4 1 = TASK_IDLE"
proof -
  have t: "terminated tty" "length (cstr tty) < 32" "length junk = 32" by (simp_all add: tty_def junk_def cstr_simps)
  obtain s1 where s1: "init_scheduler 5 (sched_example\<lparr>tasks := Map.empty, task_head := 0, current_task := 0\<rparr>) 1 junk = Ok s1"
    "sched_ok s1 [1] []" "st s1 1 = TASK_IDLE" "tasks s1 2 = None"
    using init_scheduler_ok [of "sched_example\<lparr>tasks := Map.empty, task_head := 0, current_task := 0\<rparr>" 1 5 junk] t(3) by auto
  obtain s2 where s2: "create_task 5 s1 2 0 tty junk = Ok s2" "sched_ok s2 [1] [2]" "st s2 1 = TASK_IDLE"
    using create_task_ok [OF s1(2), of 5 2 tty junk 0] s1(3,4) t by auto
  obtain s3 where s3: "add_task 5 s2 2 = Ok s3" "st s3 1 = TASK_IDLE"
    using add_task_ok [OF s2(2), of 5 2] s2(3) by auto
  have "sched_step 5 (s1, [1], []) (s2, [1], [2])"
    using sched_step.step [of "CallCreate 2 0 tty junk" s1 "[1]" "[]" 5 s2] s1(4) s2(1) t by simp
  moreover have "sched_step 5 (s2, [1], [2]) (s3, [1, 2], [])"
    using sched_step.step [of "CallAdd 2" s2 "[1]" "[2]" 5 s3] s3(1) by simp
  ultimately have "(sched_step 5)\<^sup>*\<^sup>* (s1, [1], []) (s3, [1, 2], [])" by (meson converse_rtranclp_into_rtranclp r_into_rtranclp)
  from scheduler_safe [OF this s1(2), of CallYield] s3(2) have "sched_ok s3 [1, 2] []
    \<and> (\<exists>s4. yield 5 s3 = Ok s4 \<and> sched_ok s4 [1, 2] [] \<and> st s4 1 = TASK_IDLE)" by (simp split: result.splits)
  with s1(1) s2(1) s3(1) show ?thesis by blast
qed

theorem get_free_pid_fresh_witness: "\<exists>p. get_free_pid 4 sched_example = Ok p \<and> 1 \<le> p \<and> p \<noteq> 1 \<and> p \<noteq> 2"
proof -
  have "length [1, 2, 3 :: nat] < 4" by simp
  from get_free_pid_fresh [OF sched_example_chain this] show ?thesis
    by (auto simp: task_at_def sched_example_def task_example_def)
qed

end
