(* ===== verification/Keyboard.thy ===== *)
theory Keyboard
  imports Prelude
begin

text \<open>The keyboard (\<open>devices/keyboard/keyboard.c\<close>): scan codes are translated with a table of characters
  and handed to a callback. Calls of the callback are a log; printing is not modelled. The table on the
  heap has \<open>ASCII_SIZE\<close> bytes, fewer than the initial table it is copied from.\<close>

record keyboard =
  ASCII_table :: "u8 list"
  left_shift_pressed :: u8
  right_shift_pressed :: u8
  intro_buffered :: u8
  keyboard_callback :: nat
  kbd_calls :: "(nat \<times> u8) list"

definition ASCII_SIZE :: nat where "ASCII_SIZE = 56"

text \<open>Digits and letters by their ASCII codes.\<close>

definition asciitable :: "u8 list" where
  "asciitable = [0, 0, 49, 50, 51, 52, 53, 54, 55, 56, 57, 48, 45, 61, 0, 0,
     113, 119, 101, 114, 116, 121, 117, 105, 111, 112, 91, 93, 0, 0, 97, 115,
     100, 102, 103, 104, 106, 107, 108, 59, 39, 96, 0, 92, 122, 120, 99, 118,
     98, 110, 109, 44, 46, 47, 0, 42, 0, 32]"

abbreviation "LeftShift \<equiv> (0x2A :: u8)"
abbreviation "RightShift \<equiv> (0x36 :: u8)"
abbreviation "Enter \<equiv> (0x1C :: u8)"
abbreviation "Backspace \<equiv> (0x0E :: u8)"
abbreviation "Spacebar \<equiv> (0x39 :: u8)"

definition translate :: "keyboard \<Rightarrow> u8 \<Rightarrow> bool \<Rightarrow> u8 result" where
  "translate k scancode uppercase = (if 58 < scancode then Ok 0
     else rbind (rd (ASCII_table k) (unat scancode)) (\<lambda>c. Ok (if uppercase then c - 32 else c)))"

definition init_keyboard :: "keyboard \<Rightarrow> keyboard" where
  "init_keyboard k = k\<lparr>ASCII_table := take ASCII_SIZE asciitable, left_shift_pressed := 0, right_shift_pressed := 0,
     intro_buffered := 0, keyboard_callback := 0\<rparr>"

definition kbd_call :: "keyboard \<Rightarrow> u8 \<Rightarrow> keyboard" where
  "kbd_call k c = (if keyboard_callback k \<noteq> 0 then k\<lparr>kbd_calls := kbd_calls k @ [(keyboard_callback k, c)]\<rparr> else k)"

definition handle_keyboard :: "keyboard \<Rightarrow> u8 \<Rightarrow> keyboard result" where
  "handle_keyboard k sc = (if sc = Spacebar then Ok (kbd_call k 32)
     else if sc = LeftShift then Ok (k\<lparr>left_shift_pressed := 1\<rparr>)
     else if sc = LeftShift + 0x80 then Ok (k\<lparr>left_shift_pressed := 0\<rparr>)
     else if sc = RightShift then Ok (k\<lparr>right_shift_pressed := 1\<rparr>)
     else if sc = RightShift + 0x80 then Ok (k\<lparr>right_shift_pressed := 0\<rparr>)
     else if sc = Enter then Ok (kbd_call (k\<lparr>intro_buffered := 1\<rparr>) Enter)
     else if sc = Backspace then Ok (kbd_call k Backspace)
     else rbind (translate k sc (left_shift_pressed k \<noteq> 0 \<or> right_shift_pressed k \<noteq> 0)) (\<lambda>c.
       Ok (if c \<noteq> 0 then kbd_call k c else k)))"

definition register_callback :: "keyboard \<Rightarrow> nat \<Rightarrow> keyboard" where
  "register_callback k cb = k\<lparr>keyboard_callback := cb\<rparr>"

definition unregister_callback :: "keyboard \<Rightarrow> keyboard" where
  "unregister_callback k = k\<lparr>keyboard_callback := 0\<rparr>"

section \<open>Properties\<close>

definition kbd_ready :: "keyboard \<Rightarrow> bool" where
  "kbd_ready k \<longleftrightarrow> ASCII_table k = take ASCII_SIZE asciitable"

lemma kbd_table: "kbd_ready k \<Longrightarrow> length (ASCII_table k) = 56"
  by (simp add: kbd_ready_def ASCII_SIZE_def asciitable_def)

lemma init_keyboard_ready: "kbd_ready (init_keyboard k)"
  by (simp add: init_keyboard_def kbd_ready_def)

fun handle_all :: "keyboard \<Rightarrow> u8 list \<Rightarrow> keyboard result" where
  "handle_all k [] = Ok k"
| "handle_all k (c # cs) = rbind (handle_keyboard k c) (\<lambda>k1. handle_all k1 cs)"

text \<open>two of the scan codes are looked up behind the table on the heap, 56 and 58; no other scan
  code makes the handler fault.\<close>

theorem handle_keyboard_bounds:
  assumes "kbd_ready k"
  shows "handle_keyboard k sc = Err Fault \<longleftrightarrow> sc = 56 \<or> sc = 58"
proof -
  have l: "length (ASCII_table k) = 56" by (rule kbd_table [OF assms])
  have le: "58 < sc \<longleftrightarrow> 58 < unat sc" by (simp add: word_less_nat_alt)
  have eq: "sc = 56 \<longleftrightarrow> unat sc = 56" "sc = 58 \<longleftrightarrow> unat sc = 58" "sc = Spacebar \<longleftrightarrow> unat sc = 57"
    by (simp_all add: word_unat_eq_iff)
  have t: "translate k sc u = Err Fault \<longleftrightarrow> unat sc = 56 \<or> unat sc = 57 \<or> unat sc = 58" for u
    using l le by (auto simp: translate_def rd_def)
  consider "sc = Spacebar \<or> sc = LeftShift \<or> sc = LeftShift + 0x80 \<or> sc = RightShift \<or> sc = RightShift + 0x80
      \<or> sc = Enter \<or> sc = Backspace"
    | "sc \<noteq> Spacebar \<and> sc \<noteq> LeftShift \<and> sc \<noteq> LeftShift + 0x80 \<and> sc \<noteq> RightShift \<and> sc \<noteq> RightShift + 0x80
      \<and> sc \<noteq> Enter \<and> sc \<noteq> Backspace" by blast
  then show ?thesis
  proof cases
    case 1
    then show ?thesis by (auto simp: handle_keyboard_def)
  next
    case 2
    hence "handle_keyboard k sc = Err Fault \<longleftrightarrow> translate k sc (left_shift_pressed k \<noteq> 0 \<or> right_shift_pressed k \<noteq> 0) = Err Fault"
      by (cases "translate k sc (left_shift_pressed k \<noteq> 0 \<or> right_shift_pressed k \<noteq> 0)") (auto simp: handle_keyboard_def)
    also have "\<dots> \<longleftrightarrow> sc = 56 \<or> sc = 58" using 2 t eq by blast
    finally show ?thesis .
  qed
qed

definition kbd_example :: keyboard where
  "kbd_example = (init_keyboard \<lparr>ASCII_table = [], left_shift_pressed = 0, right_shift_pressed = 0, intro_buffered = 0,
     keyboard_callback = 0, kbd_calls = []\<rparr>)\<lparr>keyboard_callback := 3\<rparr>"

text \<open>The key of the digit 1 with shift gives the character 17, not an exclamation mark: the table has
  only lower-case letters in mind.\<close>

lemma shifted_digit: "handle_all kbd_example [LeftShift, 2] = Ok (kbd_example\<lparr>left_shift_pressed := 1, kbd_calls := [(3, 17)]\<rparr>)"
  by (simp add: kbd_example_def init_keyboard_def ASCII_SIZE_def asciitable_def handle_keyboard_def translate_def kbd_call_def)

theorem handle_keyboard_bounds_witness: "handle_keyboard kbd_example 58 = Err Fault"
proof -
  have "kbd_ready kbd_example" by (simp add: kbd_ready_def kbd_example_def init_keyboard_def)
  from handle_keyboard_bounds [OF this, of 58] show ?thesis by simp
qed

end
