(* ===== verification/InterruptService.thy ===== *)
theory InterruptService
  imports SegmentTables Scheduler Keyboard
begin

text \<open>The service of interrupts: the descriptor table and the programming of the controllers (the rest of
  \<open>io/interrupts.c\<close>), and \<open>global_interrupt_handler\<close> with the kernel's own handlers, which drive the keyboard, the
  timer and through it the scheduler. The page protection of the descriptor table is left out.\<close>

section \<open>The descriptor table\<close>

record idtdescentry =
  ig_offset :: idt_offset
  ig_selector :: u16
  ig_ist :: u8
  ig_type_attr :: u8
  ig_ignore :: u32

definition IDT_TA_InterruptGate :: u8 where "IDT_TA_InterruptGate = 0x8E"

definition blank_gate :: idtdescentry where
  "blank_gate = \<lparr>ig_offset = \<lparr>offset0 = 0, offset1 = 0, offset2 = 0\<rparr>, ig_selector = 0, ig_ist = 0, ig_type_attr = 0, ig_ignore = 0\<rparr>"

text \<open>The table has 256 entries, so an index of 8 bits is always in range.\<close>

definition set_idt_gate :: "idtdescentry list \<Rightarrow> u64 \<Rightarrow> u8 \<Rightarrow> u8 \<Rightarrow> u8 \<Rightarrow> u16 \<Rightarrow> idtdescentry list" where
  "set_idt_gate tab handler i type_attr stack selector = tab[unat i := (tab ! unat i)\<lparr>ig_offset := set_offset (ig_offset (tab ! unat i)) handler,
     ig_type_attr := type_attr, ig_selector := selector, ig_ist := stack\<rparr>]"

text \<open>\<open>vector i\<close> is the address of the entry code of interrupt \<open>i\<close>, \<open>df\<close> that of the handler of double faults, which runs on a
  stack of its own.\<close>

definition init_idt :: "(nat \<Rightarrow> u64) \<Rightarrow> u64 \<Rightarrow> idtdescentry list" where
  "init_idt vector df = set_idt_gate (fold (\<lambda>i tab. set_idt_gate tab (vector i) (of_nat i) IDT_TA_InterruptGate 0 get_kernel_code_selector)
     [0..<256] (replicate 256 blank_gate)) df 8 IDT_TA_InterruptGate 1 get_kernel_code_selector"

section \<open>The controllers\<close>

abbreviation "PIC1_COMMAND \<equiv> (0x20 :: u16)"
abbreviation "PIC1_DATA \<equiv> (0x21 :: u16)"
abbreviation "PIC2_COMMAND \<equiv> (0xA0 :: u16)"
abbreviation "PIC2_DATA \<equiv> (0xA1 :: u16)"

definition io_wait :: "(u16 \<times> u8) list" where "io_wait = [(0x80, 0)]"

text \<open>The port writes, for the masks \<open>a1\<close> and \<open>a2\<close> that were read: initialisation, the first vectors 0x20 and 0x28, the
  wiring, the mode, and the masks again.\<close>

definition remap_pic :: "u8 \<Rightarrow> u8 \<Rightarrow> (u16 \<times> u8) list" where
  "remap_pic a1 a2 = io_wait @ io_wait @ concat (map (\<lambda>w. w # io_wait) [(PIC1_COMMAND, 0x11), (PIC2_COMMAND, 0x11), (PIC1_DATA, 0x20),
     (PIC2_DATA, 0x28), (PIC1_DATA, 4), (PIC2_DATA, 2), (PIC1_DATA, 1), (PIC2_DATA, 1), (PIC1_DATA, a1), (PIC2_DATA, a2)])"

definition pic_end_master :: "(u16 \<times> u8) list" where "pic_end_master = [(PIC1_COMMAND, 0x20)]"
definition pic_end_slave :: "(u16 \<times> u8) list" where "pic_end_slave = [(PIC2_COMMAND, 0x20), (PIC1_COMMAND, 0x20)]"

section \<open>State\<close>

text \<open>The handlers, the scheduler with its timer, the keyboard, the scan codes waiting at its port, the writes to the
  ports and the calls of the wake-up handler.\<close>

record 'h isys =
  iints :: "'h ints"
  iidt :: "idtdescentry list"
  isched :: sched
  ikbd :: keyboard
  iscan :: "u8 list"
  iouts :: "(u16 \<times> u8) list"
  iwakeups :: "nat list"

definition init_all_interrupts :: "(nat \<Rightarrow> u64) \<Rightarrow> u64 \<Rightarrow> u8 \<Rightarrow> u8 \<Rightarrow> 'h isys \<Rightarrow> 'h isys" where
  "init_all_interrupts vector df a1 a2 s = s\<lparr>iidt := init_idt vector df, iints := init_interrupts (iints s),
     iouts := iouts s @ remap_pic a1 a2 @ [(PIC1_DATA, 0xe0), (PIC2_DATA, 0xef)], isched := (isched s)\<lparr>irqs_on := False\<rparr>\<rparr>"

definition load_interrupts_for_local_cpu :: "'h isys \<Rightarrow> 'h isys result" where
  "load_interrupts_for_local_cpu s = rbind (guard (interrupts_ready (iints s)) ''Interrupts not ready'') (\<lambda>_.
     Ok (s\<lparr>isched := (isched s)\<lparr>irqs_on := False\<rparr>\<rparr>))"

definition enable_interrupts :: "'h isys \<Rightarrow> 'h isys result" where
  "enable_interrupts s = rbind (guard (interrupts_ready (iints s)) ''Interrupts not ready'') (\<lambda>_.
     Ok (s\<lparr>isched := (isched s)\<lparr>irqs_on := True\<rparr>\<rparr>))"

section \<open>Handlers\<close>

definition KeyboardInt_Handler :: "'h isys \<Rightarrow> 'h isys result" where
  "KeyboardInt_Handler s = (case iscan s of [] \<Rightarrow> Err Diverge | c # cs \<Rightarrow>
     rbind (handle_keyboard (ikbd s) c) (\<lambda>k. Ok (s\<lparr>iscan := cs, ikbd := k, iouts := iouts s @ pic_end_master\<rparr>)))"

definition PitInt_Handler :: "'h isys \<Rightarrow> 'h isys" where
  "PitInt_Handler s = s\<lparr>isched := (isched s)\<lparr>spit := tick (spit (isched s))\<rparr>\<rparr>"

definition run_handler :: "('h \<Rightarrow> 'h isys \<Rightarrow> 'h isys result) \<Rightarrow> 'h handler \<Rightarrow> 'h isys \<Rightarrow> 'h isys result" where
  "run_handler driver h s = (case h of Generic_exception \<Rightarrow> Err (Panic ''Exception'')
     | GPFault \<Rightarrow> Err (Panic ''General protection fault'')
     | PageFault \<Rightarrow> Err (Panic ''Page fault'')
     | KeyboardInt \<Rightarrow> KeyboardInt_Handler s
     | PitInt \<Rightarrow> Ok (PitInt_Handler s)
     | Driver d \<Rightarrow> driver d s)"

definition wakeup :: "'h isys \<Rightarrow> 'h isys" where
  "wakeup s = s\<lparr>iwakeups := iwakeups s @ [wakeup_handler (spit (isched s))]\<rparr>"

text \<open>The handler of interrupt \<open>n\<close> runs, the end of the interrupt is signalled, and then the task is switched or the wake-up
  handler is called. \<open>k\<close> bounds the walks of the scheduler.\<close>

definition global_interrupt_handler :: "nat \<Rightarrow> ('h \<Rightarrow> 'h isys \<Rightarrow> 'h isys result) \<Rightarrow> u8 \<Rightarrow> 'h isys \<Rightarrow> 'h isys result" where
  "global_interrupt_handler k driver n s = rbind (select_handler (iints s) n) (\<lambda>(h, i).
     rbind (run_handler driver h (s\<lparr>iints := i\<rparr>)) (\<lambda>s. let s = s\<lparr>iouts := iouts s @ pic_eoi n\<rparr> in
     if requires_preemption (spit (isched s)) then rbind (yield k (isched s)) (\<lambda>t. Ok (s\<lparr>isched := t\<rparr>))
     else if requires_wakeup (spit (isched s)) then Ok (wakeup s) else Ok s))"

section \<open>The gates\<close>

lemma set_idt_gate_length [simp]: "length (set_idt_gate tab h i t n sel) = length tab"
  by (simp add: set_idt_gate_def)

definition kernel_gate :: "u64 \<Rightarrow> u8 \<Rightarrow> idtdescentry \<Rightarrow> bool" where
  "kernel_gate h n g \<longleftrightarrow> get_offset (ig_offset g) = h \<and> ig_selector g = get_kernel_code_selector \<and> ig_ist g = n
     \<and> ig_type_attr g = IDT_TA_InterruptGate"

lemma set_idt_gate_at: "length tab = 256 \<Longrightarrow> j < 256 \<Longrightarrow>
    set_idt_gate tab h i IDT_TA_InterruptGate n get_kernel_code_selector ! j = (if j = unat i then
      (tab ! j)\<lparr>ig_offset := set_offset (ig_offset (tab ! j)) h, ig_type_attr := IDT_TA_InterruptGate,
        ig_selector := get_kernel_code_selector, ig_ist := n\<rparr> else tab ! j)"
  by (simp add: set_idt_gate_def nth_list_update)

lemma kernel_gate_set: "length tab = 256 \<Longrightarrow> j < 256 \<Longrightarrow>
    kernel_gate a b (set_idt_gate tab h i IDT_TA_InterruptGate n get_kernel_code_selector ! j)
    \<longleftrightarrow> (if j = unat i then a = h \<and> b = n else kernel_gate a b (tab ! j))"
  by (auto simp: set_idt_gate_at kernel_gate_def get_set_offset)

lemma unat_of_nat_8: "i < 256 \<Longrightarrow> unat (of_nat i :: u8) = i"
  by (simp add: unsigned_of_nat take_bit_nat_eq_self)

lemma fold_gates:
  "n \<le> 256 \<Longrightarrow> let tab = fold (\<lambda>i tab. set_idt_gate tab (vector i) (of_nat i) IDT_TA_InterruptGate 0 get_kernel_code_selector)
      [0..<n] (replicate 256 blank_gate) in length tab = 256 \<and> (\<forall>j < n. kernel_gate (vector j) 0 (tab ! j))"
proof (induction n)
  case (Suc n)
  then show ?case by (auto simp: Let_def kernel_gate_set unat_of_nat_8 less_Suc_eq)
qed simp

text \<open>Every gate leads to the entry code of its number, in the kernel's code segment and with interrupts off; only the
  double fault has its own handler and its own stack.\<close>

theorem init_idt_gates:
  assumes "i < 256"
  shows "kernel_gate (if i = 8 then df else vector i) (if i = 8 then 1 else 0) (init_idt vector df ! i)"
  using fold_gates [of 256 vector] assms by (auto simp: init_idt_def Let_def kernel_gate_set)

theorem init_idt_gates_witness: "kernel_gate 7 1 (init_idt (\<lambda>i. 0xffff0000 + of_nat i) 7 ! 8)
    \<and> kernel_gate 0xffff0020 0 (init_idt (\<lambda>i. 0xffff0000 + of_nat i) 7 ! 32)"
  using init_idt_gates [of 8 7 "\<lambda>i. 0xffff0000 + of_nat i"] init_idt_gates [of 32 7 "\<lambda>i. 0xffff0000 + of_nat i"] by simp

section \<open>Preemption\<close>

definition timer_interrupt :: "nat \<Rightarrow> ('h \<Rightarrow> 'h isys \<Rightarrow> 'h isys result) \<Rightarrow> 'h isys \<Rightarrow> 'h isys result" where
  "timer_interrupt k driver = global_interrupt_handler k driver PIT_IRQ"

fun timer_interrupts :: "nat \<Rightarrow> ('h \<Rightarrow> 'h isys \<Rightarrow> 'h isys result) \<Rightarrow> nat \<Rightarrow> 'h isys \<Rightarrow> 'h isys result" where
  "timer_interrupts k driver 0 s = Ok s"
| "timer_interrupts k driver (Suc n) s = rbind (timer_interrupt k driver s) (timer_interrupts k driver n)"

text \<open>The timer is hooked and slices the time into periods of \<open>n\<close> ticks.\<close>

definition slicing :: "nat \<Rightarrow> 'h isys \<Rightarrow> bool" where
  "slicing n s \<longleftrightarrow> length (dynamic_interrupt_handlers (iints s)) = 256 \<and> dynamic_interrupt_handlers (iints s) ! 32 = Some PitInt
     \<and> preemption_enabled (spit (isched s)) \<noteq> 0 \<and> unat (preemption_ticks (spit (isched s))) = n \<and> 0 < n"

definition now :: "'h isys \<Rightarrow> nat" where "now s = unat (timer_ticks (spit (isched s)))"

lemma sched_wf_tick [simp]: "sched_wf (s\<lparr>spit := p\<rparr>) xs = sched_wf s xs" "st (s\<lparr>spit := p\<rparr>) = st s"
  by (rule sched_wf_cong; simp) (auto simp: st_def fun_eq_iff)

lemma timer_step:
  assumes "slicing n s" and "now s + 1 < 2 ^ 64"
  defines "s1 \<equiv> (isched s)\<lparr>spit := tick (spit (isched s))\<rparr>"
  shows "if n dvd now s + 1
    then (case yield k s1 of Err e \<Rightarrow> timer_interrupt k driver s = Err e
      | Ok t \<Rightarrow> \<exists>s'. timer_interrupt k driver s = Ok s' \<and> isched s' = t \<and> iints s' = iints s)
    else \<exists>s'. timer_interrupt k driver s = Ok s' \<and> isched s' = s1 \<and> iints s' = iints s"
proof -
  let ?p = "spit (isched s)"
  have sel: "select_handler (iints s) PIT_IRQ = Ok (PitInt, iints s)"
    using assms(1) by (simp add: slicing_def select_handler_def)
  have t: "unat (timer_ticks ?p + 1) = now s + 1"
    using assms(2) by (simp add: now_def unat_word_ariths)
  have z: "preemption_ticks ?p \<noteq> 0" using assms(1) by (auto simp: slicing_def)
  have "timer_ticks ?p + 1 = 0 \<longleftrightarrow> False" using t by (metis add_is_0 one_neq_zero unsigned_0)
  have pre: "requires_preemption (tick ?p) \<longleftrightarrow> n dvd now s + 1"
    using unat_mod_eq_0 [of "timer_ticks ?p + 1" "preemption_ticks ?p"] t z assms(1)
    by (simp add: requires_preemption_def tick_def slicing_def dvd_eq_mod_eq_0)
  show ?thesis
    using sel pre
    by (auto simp: timer_interrupt_def global_interrupt_handler_def run_handler_def PitInt_Handler_def s1_def Let_def wakeup_def split: result.splits)
qed

lemma slicing_cong: "iints s' = iints s \<Longrightarrow> spit (isched s') = p \<Longrightarrow> preemption_enabled p = preemption_enabled (spit (isched s)) \<Longrightarrow>
    preemption_ticks p = preemption_ticks (spit (isched s)) \<Longrightarrow> slicing n s' = slicing n s"
  by (simp add: slicing_def)

lemma tick_fields [simp]: "preemption_enabled (tick p) = preemption_enabled p" "preemption_ticks (tick p) = preemption_ticks p"
  "timer_ticks (tick p) = timer_ticks p + 1"
  by (simp_all add: tick_def)

lemma timer_interrupts_app: "timer_interrupts k driver m s = Ok s1 \<Longrightarrow> timer_interrupts k driver j s1 = Ok s2 \<Longrightarrow>
    timer_interrupts k driver (m + j) s = Ok s2"
  by (induction m arbitrary: s) auto

text \<open>The next slice ends after \<open>r\<close> ticks.\<close>

lemma next_slice:
  assumes "slicing n s" and "sched_wf (isched s) xs" and "length xs \<le> k" and "after xs (current_task (isched s)) = us @ a # vs"
    and "st (isched s) a = TASK_READY" and "now s + r < 2 ^ 64" and "0 < r" and "n dvd now s + r"
    and "\<forall>j. 0 < j \<and> j < r \<longrightarrow> \<not> n dvd now s + j"
  shows "\<exists>s'. timer_interrupts k driver r s = Ok s' \<and> slicing n s' \<and> now s' = now s + r \<and> sched_wf (isched s') xs
    \<and> (current_task (isched s') = a \<and> st (isched s') a = TASK_EXECUTING
      \<or> st (isched s') a = TASK_READY \<and> (\<exists>us' vs'. after xs (current_task (isched s')) = us' @ a # vs' \<and> length us' < length us))"
  using assms
proof (induction r arbitrary: s)
  case (Suc r)
  let ?s1 = "(isched s)\<lparr>spit := tick (spit (isched s))\<rparr>"
  have lim: "now s + 1 < 2 ^ 64" using Suc.prems(6) by simp
  have t: "unat (timer_ticks (spit (isched s)) + 1) = now s + 1" using lim by (simp add: now_def unat_word_ariths)
  note step = timer_step [OF Suc.prems(1) lim, of k driver]
  show ?case
  proof (cases "r = 0")
    case True
    obtain t1 where y: "yield k ?s1 = Ok t1" "sched_wf t1 xs" "spit t1 = tick (spit (isched s))"
      "current_task t1 = a \<and> st t1 a = TASK_EXECUTING
        \<or> st t1 a = TASK_READY \<and> (\<exists>us' vs'. after xs (current_task t1) = us' @ a # vs' \<and> length us' < length us)"
      using yield_closer [of ?s1 xs k us a vs] Suc.prems(2-5) by auto
    from step y(1) Suc.prems(8) True obtain s' where s': "timer_interrupt k driver s = Ok s'" "isched s' = t1" "iints s' = iints s"
      by auto
    have "slicing n s'" using slicing_cong [of s' s "tick (spit (isched s))" n] s' y(3) Suc.prems(1) by simp
    with s' y t True show ?thesis by (auto simp: now_def)
  next
    case False
    hence "\<not> n dvd now s + 1" using Suc.prems(9) by (metis Suc_less_eq One_nat_def gr0I zero_less_one)
    with step obtain s' where s': "timer_interrupt k driver s = Ok s'" "isched s' = ?s1" "iints s' = iints s" by auto
    have sl: "slicing n s'" using slicing_cong [of s' s "tick (spit (isched s))" n] s' Suc.prems(1) by simp
    have n: "now s' = now s + 1" using s'(2) t by (simp add: now_def)
    have gap: "\<forall>j. 0 < j \<and> j < r \<longrightarrow> \<not> n dvd now s' + j"
    proof (intro allI impI)
      fix j assume "0 < j \<and> j < r"
      with spec [OF Suc.prems(9), of "Suc j"] have "\<not> n dvd now s + Suc j" by simp
      then show "\<not> n dvd now s' + j" using n by simp
    qed
    have "\<exists>s''. timer_interrupts k driver r s' = Ok s'' \<and> slicing n s'' \<and> now s'' = now s' + r \<and> sched_wf (isched s'') xs
        \<and> (current_task (isched s'') = a \<and> st (isched s'') a = TASK_EXECUTING
          \<or> st (isched s'') a = TASK_READY \<and> (\<exists>us' vs'. after xs (current_task (isched s'')) = us' @ a # vs' \<and> length us' < length us))"
      by (rule Suc.IH) (use Suc.prems s' sl n gap False in simp_all)
    with s'(1) n show ?thesis by auto
  qed
qed simp

lemma slice_length: "0 < (n :: nat) \<Longrightarrow> \<exists>r. 0 < r \<and> r \<le> n \<and> n dvd t + r \<and> (\<forall>j. 0 < j \<and> j < r \<longrightarrow> \<not> n dvd t + j)"
proof -
  assume n: "0 < n"
  let ?r = "n - t mod n"
  have m: "t mod n < n" using n by simp
  have "t + ?r = n * (t div n) + n" using m by (simp add: minus_mod_eq_mult_div [symmetric])
  hence "n dvd t + ?r" by simp
  moreover have "\<not> n dvd t + j" if "0 < j \<and> j < ?r" for j
  proof -
    have "t + j = n * (t div n) + (t mod n + j)" by simp
    moreover have "\<not> n dvd t mod n + j" using that m by (intro nat_dvd_not_less) auto
    ultimately show ?thesis by (metis dvd_add_right_iff dvd_triv_left)
  qed
  ultimately show ?thesis using m by (intro exI [of _ ?r]) auto
qed

lemma slices:
  "slicing n s \<Longrightarrow> sched_wf (isched s) xs \<Longrightarrow> length xs \<le> k \<Longrightarrow> after xs (current_task (isched s)) = us @ a # vs \<Longrightarrow>
   st (isched s) a = TASK_READY \<Longrightarrow> now s + n * (length us + 1) < 2 ^ 64 \<Longrightarrow>
   \<exists>m s'. m \<le> n * (length us + 1) \<and> timer_interrupts k driver m s = Ok s' \<and> current_task (isched s') = a
     \<and> st (isched s') a = TASK_EXECUTING \<and> sched_wf (isched s') xs"
proof (induction "length us" arbitrary: s us vs rule: less_induct)
  case less
  have "0 < n" using less.prems(1) by (simp add: slicing_def)
  from slice_length [OF this] obtain r where r: "0 < r" "r \<le> n" "n dvd now s + r" "\<forall>j. 0 < j \<and> j < r \<longrightarrow> \<not> n dvd now s + j" by blast
  have lim: "now s + r < 2 ^ 64" using r(2) less.prems(6) by simp
  obtain s1 where s1: "timer_interrupts k driver r s = Ok s1" "slicing n s1" "now s1 = now s + r" "sched_wf (isched s1) xs"
    "current_task (isched s1) = a \<and> st (isched s1) a = TASK_EXECUTING
      \<or> st (isched s1) a = TASK_READY \<and> (\<exists>us' vs'. after xs (current_task (isched s1)) = us' @ a # vs' \<and> length us' < length us)"
    using next_slice [OF less.prems(1-5) lim r(1,3,4), of driver] by blast
  from s1(5) show ?case
  proof (elim disjE conjE exE)
    assume "current_task (isched s1) = a" "st (isched s1) a = TASK_EXECUTING"
    with s1 r(2) show ?thesis by (intro exI [of _ r] exI [of _ s1]) simp
  next
    fix us' vs' assume d: "st (isched s1) a = TASK_READY" and u: "after xs (current_task (isched s1)) = us' @ a # vs'" "length us' < length us"
    have "n * (length us' + 1) + n \<le> n * (length us + 1)" using u(2) mult_le_mono2 [of "length us' + 2" "length us + 1" n] by simp
    hence b: "now s1 + n * (length us' + 1) < 2 ^ 64" "r + n * (length us' + 1) \<le> n * (length us + 1)"
      using s1(3) r(2) less.prems(6) by linarith+
    from less.hyps [OF u(2) s1(2,4) less.prems(3) u(1) d b(1)] obtain m s' where
      m: "m \<le> n * (length us' + 1)" "timer_interrupts k driver m s1 = Ok s'" "current_task (isched s') = a"
      "st (isched s') a = TASK_EXECUTING" "sched_wf (isched s') xs" by blast
    with timer_interrupts_app [OF s1(1) m(2)] b(2) show ?thesis by (intro exI [of _ "r + m"] exI [of _ s']) simp
  qed
qed

text \<open>C10: The timer alone shares the processor out: with slices of \<open>n\<close> ticks a ready task runs after at most \<open>n\<close> timer
  interrupts for every task there is, whatever the running tasks do in between short of a system call. The
  bound keeps the counter of ticks below its wrap-around.\<close>

theorem preemptive_round_robin:
  assumes "slicing n s" and "sched_wf (isched s) xs" and "length xs \<le> k" and "a \<in> set xs" and "st (isched s) a = TASK_READY"
    and "now s + n * length xs < 2 ^ 64"
  shows "\<exists>m s'. m \<le> n * length xs \<and> timer_interrupts k driver m s = Ok s' \<and> current_task (isched s') = a
    \<and> st (isched s') a = TASK_EXECUTING \<and> sched_wf (isched s') xs"
proof -
  have c: "current_task (isched s) \<in> set xs" "distinct xs" using assms(2) by (auto simp: sched_wf_def)
  note as = after_set [OF c]
  obtain us vs where u: "after xs (current_task (isched s)) = us @ a # vs" using as assms(4) by (metis split_list)
  have "length us + 1 + length vs = length xs" using as u by (metis add.assoc add.commute length_Cons length_append plus_1_eq_Suc)
  hence l: "n * (length us + 1) \<le> n * length xs" by (intro mult_le_mono2) simp
  hence "now s + n * (length us + 1) < 2 ^ 64" using assms(6) by linarith
  from slices [OF assms(1-3) u assms(5) this, of driver] obtain m s' where
    m: "m \<le> n * (length us + 1)" "timer_interrupts k driver m s = Ok s'" "current_task (isched s') = a"
    "st (isched s') a = TASK_EXECUTING" "sched_wf (isched s') xs" by blast
  with order_trans [OF m(1) l] show ?thesis by blast
qed

definition isys_example :: "nat isys" where
  "isys_example = \<lparr>iints = init_interrupts ints_example, iidt = [], isched = sched_example\<lparr>spit := pit_example\<rparr>,
     ikbd = \<lparr>ASCII_table = [], left_shift_pressed = 0, right_shift_pressed = 0, intro_buffered = 0, keyboard_callback = 0, kbd_calls = []\<rparr>,
     iscan = [], iouts = [], iwakeups = []\<rparr>"

theorem preemptive_round_robin_witness:
  "\<exists>m s'. m \<le> 12 \<and> timer_interrupts 3 (\<lambda>_ _. Err Fault) m isys_example = Ok s' \<and> current_task (isched s') = 2"
proof -
  have "slicing 4 isys_example"
    by (simp add: slicing_def isys_example_def pit_example_def init_interrupts_def ints_example_def Let_def)
  moreover have "now isys_example + 4 * 3 < 2 ^ 64" by (simp add: now_def isys_example_def pit_example_def)
  ultimately show ?thesis
    using preemptive_round_robin [of 4 isys_example "[1, 2, 3]" 3 2 "\<lambda>_ _. Err Fault"] sched_example_wf(1,2)
    by (auto simp: isys_example_def)
qed

end
