(* ===== verification/Ahci.thy ===== *)
theory Ahci
  imports Disk Paging
begin

text \<open>The driver of the disk controller (\<open>drivers/disk/ahci/ahci.c\<close>): the command lists and tables it builds, the
  commands it issues and waits for, and its start. The controller is not code of the repository: it is the argument
  \<open>hw\<close>, a step that may change everything it shares with the driver, taken before every read of a register in a loop.
  The theorems about transfers assume a controller that executes the commands as the standards of the interface
  say. The last part shows that with it the driver is the drive \<open>disk_dd.c\<close> is verified over.\<close>

section \<open>Data\<close>

text \<open>\<open>struct hba_port\<close>: the registers the driver uses.\<close>

record hba_port =
  command_list_base :: u32
  command_list_base_upper :: u32
  fis_base_address :: u32
  fis_base_address_upper :: u32
  interrupt_status :: u32
  command_status :: u32
  task_file_data :: u32
  signature :: u32
  sata_status :: u32
  sata_active :: u32
  command_issue :: u32

datatype port_type = PORT_TYPE_NONE | PORT_TYPE_SATA | PORT_TYPE_SEMB | PORT_TYPE_PM | PORT_TYPE_SATAPI

text \<open>\<open>ap_port\<close> is the number of the port of the controller the pointer \<open>hba_port\<close> leads to.\<close>

record ahci_port =
  ap_port :: "nat option"
  ap_type :: port_type
  ap_buffer :: u64
  ap_number :: u8

record hba_command_header =
  command_fis_length :: u8
  atapi :: bool
  h_write :: bool
  prefetchable :: bool
  clear_busy_on_ok :: bool
  prdt_length :: u16
  command_table_base_address :: u32
  command_table_base_address_upper :: u32

record hba_command_fis =
  fis_type :: u8
  command_control :: bool
  fis_command :: u8
  feature_low :: u8
  lba0 :: u8
  lba1 :: u8
  lba2 :: u8
  device_register :: u8
  lba3 :: u8
  lba4 :: u8
  lba5 :: u8
  count_low :: u8
  count_high :: u8

record hba_prdt_entry =
  data_base_address :: u32
  data_base_address_upper :: u32
  byte_count :: u32
  interrupt_on_completion :: bool

record hba_command_table =
  table_fis :: hba_command_fis
  atapi_command :: "u8 list"
  prdt_entry :: "hba_prdt_entry list"

definition no_fis :: hba_command_fis where
  "no_fis = \<lparr>fis_type = 0, command_control = False, fis_command = 0, feature_low = 0, lba0 = 0, lba1 = 0, lba2 = 0,
     device_register = 0, lba3 = 0, lba4 = 0, lba5 = 0, count_low = 0, count_high = 0\<rparr>"

definition no_prdt :: hba_prdt_entry where
  "no_prdt = \<lparr>data_base_address = 0, data_base_address_upper = 0, byte_count = 0, interrupt_on_completion = False\<rparr>"

text \<open>The state: the registers of the controller (\<open>hba_on\<close> is whether \<open>abar\<close> is set), the driver's ports, the command
  headers and tables by their physical addresses, the bytes of the buffers, the drives behind the ports, and the
  kernel's page tables. Headers, tables and buffers are kept apart: the driver never looks at one as another.\<close>

record ahci =
  hba_on :: bool
  host_capabilities :: u32
  ports_implemented :: u32
  hba_ports :: "nat \<Rightarrow> hba_port"
  ahci_ports :: "ahci_port list"
  port_count :: u8
  headers :: "u64 \<Rightarrow> hba_command_header"
  tables :: "u64 \<Rightarrow> hba_command_table"
  dma :: "u64 \<Rightarrow> u8"
  media :: "nat \<Rightarrow> drive"
  avm :: kvm

definition upd_hba :: "nat \<Rightarrow> (hba_port \<Rightarrow> hba_port) \<Rightarrow> ahci \<Rightarrow> ahci" where
  "upd_hba p f s = s\<lparr>hba_ports := (hba_ports s)(p := f (hba_ports s p))\<rparr>"

text \<open>A bit of the interrupt status is cleared by writing 1 to it; writing 0 to a bit of the command register has no
  effect.\<close>

definition write_status :: "nat \<Rightarrow> u32 \<Rightarrow> ahci \<Rightarrow> ahci" where
  "write_status p v = upd_hba p (\<lambda>r. r\<lparr>interrupt_status := interrupt_status r AND NOT v\<rparr>)"

definition write_issue :: "nat \<Rightarrow> u32 \<Rightarrow> ahci \<Rightarrow> ahci" where
  "write_issue p v = upd_hba p (\<lambda>r. r\<lparr>command_issue := command_issue r OR v\<rparr>)"

section \<open>Commands\<close>

definition get_port_count :: "ahci \<Rightarrow> u8" where
  "get_port_count s = (if hba_on s then port_count s else 0)"

fun first_free_slot :: "nat \<Rightarrow> nat \<Rightarrow> u32 \<Rightarrow> nat option" where
  "first_free_slot 0 i slots = None"
| "first_free_slot (Suc n) i slots = (if slots AND 1 = 0 then Some i else first_free_slot n (i + 1) (drop_bit 1 slots))"

definition find_cmd_slot :: "ahci \<Rightarrow> nat \<Rightarrow> nat option" where
  "find_cmd_slot s p = first_free_slot (unat (drop_bit 8 (host_capabilities s AND 0x0f00))) 0
     (sata_active (hba_ports s p) OR command_issue (hba_ports s p))"

definition command_header_at :: "ahci \<Rightarrow> nat \<Rightarrow> nat \<Rightarrow> u64" where
  "command_header_at s p slot = (ucast (command_list_base (hba_ports s p)) OR push_bit 32 (ucast (command_list_base_upper (hba_ports s p))))
     + 32 * of_nat slot"

definition command_table_at :: "hba_command_header \<Rightarrow> u64" where
  "command_table_at h = ucast (command_table_base_address h) OR push_bit 32 (ucast (command_table_base_address_upper h))"

definition region :: "u64 \<Rightarrow> u32 \<Rightarrow> hba_prdt_entry" where
  "region a n = \<lparr>data_base_address = ucast a, data_base_address_upper = ucast (drop_bit 32 a), byte_count = take_bit 22 n,
     interrupt_on_completion = True\<rparr>"

text \<open>The table is cleared as far as its first \<open>n\<close> entries, of at least 31. Entries behind the thirty-second are behind
  the structure.\<close>

definition clear_table :: "u16 \<Rightarrow> hba_command_table \<Rightarrow> hba_command_table" where
  "clear_table n t = \<lparr>table_fis = no_fis, atapi_command = replicate 16 0,
     prdt_entry = replicate 31 no_prdt @ (if n = 0 then drop 31 (prdt_entry t) else [no_prdt])\<rparr>"

text \<open>The loop over the entries but the last, and the last one: \<open>m\<close> more entries from \<open>i\<close> on. The step of the buffer is
  0x1000 elements of 8 bytes.\<close>

fun fill_prdt :: "nat \<Rightarrow> nat \<Rightarrow> u64 \<Rightarrow> u32 \<Rightarrow> hba_prdt_entry list \<Rightarrow> (u32 \<times> hba_prdt_entry list) result" where
  "fill_prdt 0 i buf count es = rbind (wr es i (region buf (push_bit 9 count - 1))) (\<lambda>es. Ok (count, es))"
| "fill_prdt (Suc m) i buf count es = rbind (wr es i (region buf (8 * 1024 - 1))) (\<lambda>es.
     fill_prdt m (i + 1) (buf + 8 * 0x1000) (count - 16) es)"

abbreviation "FIS_TYPE_REG_H2D \<equiv> (0x27 :: u8)"
abbreviation "ATA_CMD_READ_DMA_EX \<equiv> (0x25 :: u8)"
abbreviation "ATA_CMD_WRITE_DMA_EX \<equiv> (0x35 :: u8)"
abbreviation "ATA_CMD_IDENTIFY \<equiv> (0xEC :: u8)"
abbreviation "ATA_CMD_PACKET \<equiv> (0xA0 :: u8)"
abbreviation "ATAPI_READ_CMD \<equiv> (0xA8 :: u8)"

definition data_fis :: "u8 \<Rightarrow> u64 \<Rightarrow> u32 \<Rightarrow> hba_command_fis" where
  "data_fis cmd sector count = (let sector_low = ucast sector :: u32; sector_high = ucast (drop_bit 32 sector) :: u32 in
     no_fis\<lparr>fis_type := FIS_TYPE_REG_H2D, command_control := True, fis_command := cmd,
       lba0 := ucast sector_low, lba1 := ucast (drop_bit 8 sector_low), lba2 := ucast (drop_bit 16 sector_low), device_register := push_bit 6 1,
       lba3 := ucast (drop_bit 24 sector_low), lba4 := ucast sector_high, lba5 := ucast (drop_bit 8 sector_high),
       count_low := ucast (count AND 0xFF), count_high := ucast (drop_bit 8 count)\<rparr>)"

abbreviation "SPIN_MAX \<equiv> (1000000 :: nat)"

definition port_busy :: "hba_port \<Rightarrow> bool" where "port_busy r \<longleftrightarrow> task_file_data r AND 0x88 \<noteq> 0"
definition task_failed :: "hba_port \<Rightarrow> bool" where "task_failed r \<longleftrightarrow> interrupt_status r AND 0x40000000 \<noteq> 0"

text \<open>Waiting until the port is idle, with \<open>n\<close> tries left: the result is whether the port is hung.\<close>

fun wait_idle :: "(ahci \<Rightarrow> ahci) \<Rightarrow> nat \<Rightarrow> nat \<Rightarrow> ahci \<Rightarrow> bool \<times> ahci" where
  "wait_idle hw p n s = (let s = hw s in if port_busy (hba_ports s p) \<and> n \<noteq> 0 then wait_idle hw p (n - 1) s else (n = 0, s))"
declare wait_idle.simps [simp del]

text \<open>Waiting until the command is done, for at most \<open>k\<close> rounds: the result is whether it succeeded.\<close>

fun wait_done :: "(ahci \<Rightarrow> ahci) \<Rightarrow> nat \<Rightarrow> nat \<Rightarrow> nat \<Rightarrow> ahci \<Rightarrow> (bool \<times> ahci) result" where
  "wait_done hw p slot 0 s = Err Diverge"
| "wait_done hw p slot (Suc k) s = (let s1 = hw s; s2 = hw s1 in
     if command_issue (hba_ports s1 p) AND push_bit slot 1 = 0 then Ok (\<not> task_failed (hba_ports s2 p), s2)
     else if task_failed (hba_ports s2 p) then Ok (False, s2) else wait_done hw p slot k s2)"

text \<open>The end of every command: the port must become idle, the command is issued through the bits \<open>ci\<close> and waited for.\<close>

definition issue :: "(ahci \<Rightarrow> ahci) \<Rightarrow> nat \<Rightarrow> nat \<Rightarrow> u32 \<Rightarrow> nat \<Rightarrow> ahci \<Rightarrow> (bool \<times> ahci) result" where
  "issue hw k p ci slot s = (let (hung, s) = wait_idle hw p SPIN_MAX s in if hung then Ok (False, s)
     else wait_done hw p slot k (write_issue p ci s))"

text \<open>The port the driver calls \<open>n\<close>; the array has 32 elements.\<close>

definition port_of :: "ahci \<Rightarrow> u8 \<Rightarrow> (nat \<times> u64) result" where
  "port_of s n = rbind (rd (ahci_ports s) (unat n)) (\<lambda>a. case ap_port a of None \<Rightarrow> Err Fault | Some p \<Rightarrow> Ok (p, ap_buffer a))"

text \<open>\<open>read_port\<close> and \<open>write_port\<close> differ in the direction and the command: first the header and the table of the
  command, then the whole.\<close>

definition data_setup :: "nat \<Rightarrow> u64 \<Rightarrow> nat \<Rightarrow> bool \<Rightarrow> u8 \<Rightarrow> u64 \<Rightarrow> u32 \<Rightarrow> ahci \<Rightarrow> ahci result" where
  "data_setup p buf slot w cmd sector count s = (let h = command_header_at s p slot; n = ucast (drop_bit 4 (count - 1)) + 1 :: u16;
       s = s\<lparr>headers := (headers s)(h := (headers s h)\<lparr>command_fis_length := 5, h_write := w, prdt_length := n\<rparr>)\<rparr>;
       a = command_table_at (headers s h); t = clear_table n (tables s a) in
     rbind (fill_prdt (unat n - 1) 0 buf count (prdt_entry t)) (\<lambda>(left, es).
     Ok (s\<lparr>tables := (tables s)(a := t\<lparr>prdt_entry := es, table_fis := data_fis cmd sector left\<rparr>)\<rparr>)))"

definition data_command :: "(ahci \<Rightarrow> ahci) \<Rightarrow> nat \<Rightarrow> bool \<Rightarrow> u8 \<Rightarrow> u8 \<Rightarrow> u64 \<Rightarrow> u32 \<Rightarrow> ahci \<Rightarrow> (bool \<times> ahci) result" where
  "data_command hw k w cmd port_no sector count s = (if \<not> hba_on s then Ok (False, s) else
     rbind (port_of s port_no) (\<lambda>(p, buf).
     let s = write_status p (- 1) s in
     case find_cmd_slot s p of None \<Rightarrow> Ok (False, s) | Some slot \<Rightarrow>
     rbind (data_setup p buf slot w cmd sector count s) (issue hw k p (push_bit slot 1) slot)))"

definition hba_read_port :: "(ahci \<Rightarrow> ahci) \<Rightarrow> nat \<Rightarrow> u8 \<Rightarrow> u64 \<Rightarrow> u32 \<Rightarrow> ahci \<Rightarrow> (bool \<times> ahci) result" where
  "hba_read_port hw k = data_command hw k False ATA_CMD_READ_DMA_EX"

definition hba_write_port :: "(ahci \<Rightarrow> ahci) \<Rightarrow> nat \<Rightarrow> u8 \<Rightarrow> u64 \<Rightarrow> u32 \<Rightarrow> ahci \<Rightarrow> (bool \<times> ahci) result" where
  "hba_write_port hw k = data_command hw k True ATA_CMD_WRITE_DMA_EX"

text \<open>The command of \<open>identify\<close> is issued through slot 0 whatever slot was found.\<close>

definition identify :: "(ahci \<Rightarrow> ahci) \<Rightarrow> nat \<Rightarrow> u8 \<Rightarrow> ahci \<Rightarrow> (bool \<times> ahci) result" where
  "identify hw k port_no s = (if \<not> hba_on s then Ok (False, s) else
     rbind (port_of s port_no) (\<lambda>(p, buf).
     let s = write_status p (- 1) s in
     case find_cmd_slot s p of None \<Rightarrow> Ok (False, s) | Some slot \<Rightarrow>
     let h = command_header_at s p slot;
       s = s\<lparr>headers := (headers s)(h := (headers s h)\<lparr>command_fis_length := 5, h_write := False, prdt_length := 1, prefetchable := True,
         clear_busy_on_ok := True\<rparr>)\<rparr>;
       a = command_table_at (headers s h); t = clear_table 1 (tables s a) in
     rbind (wr (prdt_entry t) 0 (region buf (512 - 1))) (\<lambda>es.
     issue hw k p 1 slot (s\<lparr>tables := (tables s)(a := t\<lparr>prdt_entry := es,
       table_fis := no_fis\<lparr>fis_type := FIS_TYPE_REG_H2D, command_control := True, fis_command := ATA_CMD_IDENTIFY\<rparr>\<rparr>)\<rparr>))))"

definition packet_read :: "u64 \<Rightarrow> u32 \<Rightarrow> u8 list" where
  "packet_read sector count = [ATAPI_READ_CMD, 0, ucast (drop_bit 24 sector AND 0xff), ucast (drop_bit 16 sector AND 0xff),
     ucast (drop_bit 8 sector AND 0xff), ucast (sector AND 0xff), 0, 0, 0, ucast (count AND 0xff), 0, 0, 0, 0, 0, 0]"

definition read_atapi_port :: "(ahci \<Rightarrow> ahci) \<Rightarrow> nat \<Rightarrow> u8 \<Rightarrow> u64 \<Rightarrow> u32 \<Rightarrow> ahci \<Rightarrow> (bool \<times> ahci) result" where
  "read_atapi_port hw k port_no sector count s = (if \<not> hba_on s then Ok (False, s) else
     rbind (port_of s port_no) (\<lambda>(p, buf).
     let s = write_status p (- 1) s in
     case find_cmd_slot s p of None \<Rightarrow> Ok (False, s) | Some slot \<Rightarrow>
     let h = command_header_at s p slot;
       s = s\<lparr>headers := (headers s)(h := (headers s h)\<lparr>command_fis_length := 5, h_write := False, atapi := True, prdt_length := 1\<rparr>)\<rparr>;
       a = command_table_at (headers s h); t = clear_table 1 (tables s a) in
     rbind (wr (prdt_entry t) 0 (region buf (push_bit 9 count - 1))) (\<lambda>es.
     issue hw k p (push_bit slot 1) slot (s\<lparr>tables := (tables s)(a := t\<lparr>prdt_entry := es,
       table_fis := no_fis\<lparr>fis_type := FIS_TYPE_REG_H2D, command_control := True, feature_low := 5, fis_command := ATA_CMD_PACKET\<rparr>,
       atapi_command := packet_read sector count\<rparr>)\<rparr>))))"

definition write_atapi_port :: "u8 \<Rightarrow> u64 \<Rightarrow> u32 \<Rightarrow> ahci \<Rightarrow> (bool \<times> ahci) result" where
  "write_atapi_port port_no sector count s =
     (if \<not> hba_on s then Ok (False, s) else Err (Panic ''write_atapi_port not implemented''))"

definition get_buffer :: "ahci \<Rightarrow> u8 \<Rightarrow> u64 result" where
  "get_buffer s port_no = (if \<not> hba_on s then Ok 0 else rbind (rd (ahci_ports s) (unat port_no)) (\<lambda>a. Ok (ap_buffer a)))"

definition get_port_type :: "ahci \<Rightarrow> u8 \<Rightarrow> port_type result" where
  "get_port_type s port_no = (if \<not> hba_on s then Ok PORT_TYPE_NONE else rbind (rd (ahci_ports s) (unat port_no)) (\<lambda>a. Ok (ap_type a)))"

section \<open>Starting the ports\<close>

abbreviation "HBA_PxCMD_CR \<equiv> (0x8000 :: u32)"
abbreviation "HBA_PxCMD_FRE \<equiv> (0x0010 :: u32)"
abbreviation "HBA_PxCMD_FR \<equiv> (0x4000 :: u32)"
abbreviation "HBA_PxCMD_ST \<equiv> (0x0001 :: u32)"

definition upd_command :: "nat \<Rightarrow> (u32 \<Rightarrow> u32) \<Rightarrow> ahci \<Rightarrow> ahci" where
  "upd_command p f = upd_hba p (\<lambda>r. r\<lparr>command_status := f (command_status r)\<rparr>)"

text \<open>Waiting until the bits \<open>m\<close> of the command register are clear, for at most \<open>k\<close> reads.\<close>

fun wait_clear :: "(ahci \<Rightarrow> ahci) \<Rightarrow> nat \<Rightarrow> u32 \<Rightarrow> nat \<Rightarrow> ahci \<Rightarrow> ahci result" where
  "wait_clear hw p m 0 s = Err Diverge"
| "wait_clear hw p m (Suc k) s = (let s = hw s in if command_status (hba_ports s p) AND m \<noteq> 0 then wait_clear hw p m k s else Ok s)"

text \<open>The loop of \<open>port_stop_command\<close> reads the register for each of the two bits and starts again when one is set.\<close>

fun wait_stopped :: "(ahci \<Rightarrow> ahci) \<Rightarrow> nat \<Rightarrow> nat \<Rightarrow> ahci \<Rightarrow> ahci result" where
  "wait_stopped hw p 0 s = Err Diverge"
| "wait_stopped hw p (Suc k) s = (let s1 = hw s; s2 = hw s1 in
     if command_status (hba_ports s1 p) AND HBA_PxCMD_FR \<noteq> 0 then wait_stopped hw p k s1
     else if command_status (hba_ports s2 p) AND HBA_PxCMD_CR \<noteq> 0 then wait_stopped hw p k s2
     else Ok s2)"

definition port_stop_command :: "(ahci \<Rightarrow> ahci) \<Rightarrow> nat \<Rightarrow> nat \<Rightarrow> ahci \<Rightarrow> ahci result" where
  "port_stop_command hw k p s = wait_stopped hw p k
     (upd_command p (\<lambda>c. c AND NOT HBA_PxCMD_FRE) (upd_command p (\<lambda>c. c AND NOT HBA_PxCMD_ST) s))"

definition port_start_command :: "(ahci \<Rightarrow> ahci) \<Rightarrow> nat \<Rightarrow> nat \<Rightarrow> ahci \<Rightarrow> ahci result" where
  "port_start_command hw k p s = rbind (wait_clear hw p HBA_PxCMD_CR k s) (\<lambda>s.
     Ok (upd_command p (\<lambda>c. c OR HBA_PxCMD_ST) (upd_command p (\<lambda>c. c OR HBA_PxCMD_FRE) s)))"

definition no_header :: hba_command_header where
  "no_header = \<lparr>command_fis_length = 0, atapi = False, h_write = False, prefetchable = False, clear_busy_on_ok = False, prdt_length = 0,
     command_table_base_address = 0, command_table_base_address_upper = 0\<rparr>"

text \<open>A physical page for the driver.\<close>

definition new_page :: "ahci \<Rightarrow> (u64 \<times> ahci) result" where
  "new_page s = rbind (request_page (alloc (avm s))) (\<lambda>(a, m). Ok (FROM_KERNEL_MAP (TO_KERNEL_MAP a), s\<lparr>avm := (avm s)\<lparr>alloc := m\<rparr>\<rparr>))"

text \<open>The first 256 bytes of a table are its command and the first 8 entries; they are what is cleared for the slots
  from \<open>i\<close> on, in a page of their own each, while the table of slot \<open>i\<close> lies \<open>256 * i\<close> behind.\<close>

definition clear_front :: "hba_command_table \<Rightarrow> hba_command_table" where
  "clear_front t = \<lparr>table_fis = no_fis, atapi_command = replicate 16 0, prdt_entry = replicate 8 no_prdt @ drop 8 (prdt_entry t)\<rparr>"

fun init_headers :: "nat \<Rightarrow> u64 \<Rightarrow> nat \<Rightarrow> ahci \<Rightarrow> ahci result" where
  "init_headers 0 base i s = Ok s"
| "init_headers (Suc m) base i s = rbind (new_page s) (\<lambda>(page, s).
     let h = base + 32 * of_nat i; address = page + push_bit 8 (of_nat i) in
     init_headers m base (i + 1) (s\<lparr>headers := (headers s)(h := (headers s h)\<lparr>prdt_length := 8, command_table_base_address := ucast address,
       command_table_base_address_upper := ucast (drop_bit 32 address)\<rparr>), tables := (tables s)(page := clear_front (tables s page))\<rparr>))"

text \<open>The area the controller puts its answers in is cleared too; the driver does not look at it.\<close>

definition configure_port :: "(ahci \<Rightarrow> ahci) \<Rightarrow> nat \<Rightarrow> nat \<Rightarrow> ahci \<Rightarrow> ahci result" where
  "configure_port hw k p s = rbind (port_stop_command hw k p s) (\<lambda>s.
     rbind (new_page s) (\<lambda>(base, s). let s = upd_hba p (\<lambda>r. r\<lparr>command_list_base := ucast base, command_list_base_upper := ucast (drop_bit 32 base)\<rparr>) s;
       s = s\<lparr>headers := (\<lambda>a. if unat (a - base) < 1024 then no_header else headers s a)\<rparr> in
     rbind (new_page s) (\<lambda>(fis, s). let s = upd_hba p (\<lambda>r. r\<lparr>fis_base_address := ucast fis, fis_base_address_upper := ucast (drop_bit 32 fis)\<rparr>) s in
     rbind (init_headers 32 (command_header_at s p 0) 0 s) (port_start_command hw k p))))"

definition check_port_type :: "hba_port \<Rightarrow> port_type" where
  "check_port_type r = (let ipm = ucast (drop_bit 8 (sata_status r)) AND 7 :: u8; det = ucast (sata_status r AND 7) :: u8 in
     if det \<noteq> 3 then PORT_TYPE_NONE else if ipm \<noteq> 1 then PORT_TYPE_NONE
     else if signature r = 0xEB140101 then PORT_TYPE_SATAPI
     else if signature r = 0xC33C0101 then PORT_TYPE_SEMB
     else if signature r = 0x96690101 then PORT_TYPE_PM
     else if signature r = 0x00000101 then PORT_TYPE_SATA
     else PORT_TYPE_NONE)"

definition probe_port :: "nat \<Rightarrow> ahci \<Rightarrow> ahci result" where
  "probe_port i s = (let t = check_port_type (hba_ports s i) in
     if bit (ports_implemented s) i \<and> (t = PORT_TYPE_SATA \<or> t = PORT_TYPE_SATAPI)
     then rbind (rd (ahci_ports s) (unat (port_count s))) (\<lambda>a.
       Ok (s\<lparr>ahci_ports := (ahci_ports s)[unat (port_count s) := a\<lparr>ap_type := t, ap_port := Some i, ap_number := port_count s\<rparr>],
         port_count := port_count s + 1\<rparr>))
     else Ok s)"

fun probe_from :: "nat \<Rightarrow> nat \<Rightarrow> ahci \<Rightarrow> ahci result" where
  "probe_from 0 i s = Ok s"
| "probe_from (Suc n) i s = rbind (probe_port i s) (probe_from n (i + 1))"

definition probe_ports :: "ahci \<Rightarrow> ahci result" where
  "probe_ports = probe_from 32 0"

text \<open>The flags of the mappings are \<open>PAGE_CACHE_DISABLE\<close> 8, \<open>PAGE_WRITE_BIT\<close> 1 and \<open>PAGE_NX_BIT\<close> 4.\<close>

definition start_port :: "(ahci \<Rightarrow> ahci) \<Rightarrow> nat \<Rightarrow> nat \<Rightarrow> ahci \<Rightarrow> ahci result" where
  "start_port hw k i s = rbind (rd (ahci_ports s) i) (\<lambda>a. case ap_port a of None \<Rightarrow> Err Fault | Some p \<Rightarrow>
     rbind (configure_port hw k p s) (\<lambda>s.
     rbind (request_page (alloc (avm s))) (\<lambda>(buf, m). let s = s\<lparr>ahci_ports := (ahci_ports s)[i := a\<lparr>ap_buffer := buf\<rparr>], avm := (avm s)\<lparr>alloc := m\<rparr>\<rparr> in
     rbind (mprotect_current (avm s) (TO_KERNEL_MAP buf) 4096 5) (\<lambda>v.
     Ok (s\<lparr>avm := v, dma := (\<lambda>b. if unat (b - buf) < 4096 then 0 else dma s b)\<rparr>)))))"

fun start_ports :: "(ahci \<Rightarrow> ahci) \<Rightarrow> nat \<Rightarrow> nat \<Rightarrow> nat \<Rightarrow> ahci \<Rightarrow> ahci result" where
  "start_ports hw k 0 i s = Ok s"
| "start_ports hw k (Suc n) i s = rbind (start_port hw k i s) (start_ports hw k n (i + 1))"

definition init_ahci :: "(ahci \<Rightarrow> ahci) \<Rightarrow> nat \<Rightarrow> u32 \<Rightarrow> ahci \<Rightarrow> ahci result" where
  "init_ahci hw k bar5 s = rbind (guard (\<not> hba_on s) ''AHCI already initialized'') (\<lambda>_.
     rbind (map_current_memory (avm s) (TO_KERNEL_MAP (ucast bar5)) (ucast bar5) 13) (\<lambda>v.
     rbind (probe_ports (s\<lparr>hba_on := True, avm := v\<rparr>)) (\<lambda>s. start_ports hw k (unat (port_count s)) 0 s)))"

section \<open>What a command says\<close>

text \<open>The command as the controller reads it: the 48 bits of the address, the count of sectors (0 means 65536), and the
  pieces of memory, each a byte longer than its entry says.\<close>

definition fis_lba :: "hba_command_fis \<Rightarrow> u64" where
  "fis_lba f = ucast (lba0 f) OR push_bit 8 (ucast (lba1 f)) OR push_bit 16 (ucast (lba2 f)) OR push_bit 24 (ucast (lba3 f))
     OR push_bit 32 (ucast (lba4 f)) OR push_bit 40 (ucast (lba5 f))"

definition fis_count :: "hba_command_fis \<Rightarrow> nat" where
  "fis_count f = (let c = unat (count_low f) + 256 * unat (count_high f) in if c = 0 then 65536 else c)"

definition prd_piece :: "hba_prdt_entry \<Rightarrow> u64 \<times> nat" where
  "prd_piece e = (ucast (data_base_address e) OR push_bit 32 (ucast (data_base_address_upper e)), unat (byte_count e) + 1)"

definition pieces :: "hba_command_header \<Rightarrow> hba_command_table \<Rightarrow> (u64 \<times> nat) list" where
  "pieces h t = map prd_piece (take (unat (prdt_length h)) (prdt_entry t))"

lemma join_halves: "(ucast (ucast (a :: u64) :: u32) :: u64) OR push_bit 32 (ucast (ucast (drop_bit 32 a) :: u32)) = a"
proof (rule bit_word_eqI)
  fix n :: nat assume "n < LENGTH(64)"
  then show "bit ((ucast (ucast a :: u32) :: u64) OR push_bit 32 (ucast (ucast (drop_bit 32 a) :: u32))) n = bit a n"
    by (cases "n < 32") (auto simp: bit_simps)
qed

lemma fis_lba_data: "fis_lba (data_fis cmd a c) = take_bit 48 a"
proof (rule bit_word_eqI)
  fix n :: nat assume "n < LENGTH(64)"
  consider "n < 8" | "8 \<le> n" "n < 16" | "16 \<le> n" "n < 24" | "24 \<le> n" "n < 32" | "32 \<le> n" "n < 40" | "40 \<le> n" "n < 48" | "48 \<le> n"
    by linarith
  then show "bit (fis_lba (data_fis cmd a c)) n = bit (take_bit 48 a) n"
    by cases (use \<open>n < LENGTH(64)\<close> in \<open>auto simp: fis_lba_def data_fis_def no_fis_def Let_def bit_simps dest: bit_imp_le_length\<close>)
qed

lemma fis_count_data: "0 < unat c \<Longrightarrow> unat c < 65536 \<Longrightarrow> fis_count (data_fis cmd a c) = unat c"
proof -
  assume c: "0 < unat c" "unat c < 65536"
  have "c AND 0xFF = take_bit 8 c" by (simp add: take_bit_eq_mask mask_eq_exp_minus_1)
  hence "unat (ucast (c AND 0xFF) :: u8) = unat c mod 256"
    by (simp add: unsigned_ucast_eq unsigned_take_bit_eq take_bit_eq_mod unat_mod_distrib)
  moreover have "unat (ucast (drop_bit 8 c) :: u8) = unat c div 256"
    using c by (simp add: unsigned_ucast_eq unsigned_take_bit_eq take_bit_eq_mod drop_bit_eq_div unat_div_distrib)
  ultimately show ?thesis using c by (simp add: fis_count_def data_fis_def Let_def no_fis_def)
qed

text \<open>Bytes in memory, and moving data to and from the pieces.\<close>

definition bytes_at :: "(u64 \<Rightarrow> u8) \<Rightarrow> u64 \<Rightarrow> nat \<Rightarrow> u8 list" where
  "bytes_at m a n = map (\<lambda>i. m (a + of_nat i)) [0..<n]"

definition put_at :: "(u64 \<Rightarrow> u8) \<Rightarrow> u64 \<Rightarrow> u8 list \<Rightarrow> u64 \<Rightarrow> u8" where
  "put_at m a bs = (\<lambda>x. if unat (x - a) < length bs then bs ! unat (x - a) else m x)"

fun scatter :: "(u64 \<times> nat) list \<Rightarrow> u8 list \<Rightarrow> (u64 \<Rightarrow> u8) \<Rightarrow> u64 \<Rightarrow> u8" where
  "scatter [] data m = m"
| "scatter ((a, n) # ps) data m = scatter ps (drop n data) (put_at m a (take n data))"

fun gather :: "(u64 \<times> nat) list \<Rightarrow> (u64 \<Rightarrow> u8) \<Rightarrow> u8 list" where
  "gather [] m = []"
| "gather ((a, n) # ps) m = bytes_at m a n @ gather ps m"

lemma bytes_at_put_at: "length bs < 2 ^ 64 \<Longrightarrow> bytes_at (put_at m a bs) a (length bs) = bs"
  by (rule nth_equalityI) (simp_all add: bytes_at_def put_at_def unsigned_of_nat take_bit_nat_eq_self)

lemma length_bytes_at [simp]: "length (bytes_at m a n) = n" by (simp add: bytes_at_def)

section \<open>The controller\<close>

definition sectors_of :: "drive \<Rightarrow> u64 \<Rightarrow> nat \<Rightarrow> u8 list" where
  "sectors_of d a n = concat (map (\<lambda>i. dr_sector d (a + of_nat i)) [0..<n])"

definition put_sectors :: "drive \<Rightarrow> u64 \<Rightarrow> nat \<Rightarrow> u8 list \<Rightarrow> drive" where
  "put_sectors d a n bs = d\<lparr>dr_sector := (\<lambda>x. if unat (x - a) < n then take 512 (drop (512 * unat (x - a)) bs) else dr_sector d x)\<rparr>"

text \<open>A well-formed transfer of whole sectors: a read or a write of the DMA kind, in the direction the header says, with
  pieces that have room for exactly the sectors.\<close>

definition dma_command :: "hba_command_header \<Rightarrow> hba_command_table \<Rightarrow> bool" where
  "dma_command h t \<longleftrightarrow> command_fis_length h = 5 \<and> \<not> atapi h \<and> fis_type (table_fis t) = FIS_TYPE_REG_H2D \<and> command_control (table_fis t)
     \<and> fis_command (table_fis t) = (if h_write h then ATA_CMD_WRITE_DMA_EX else ATA_CMD_READ_DMA_EX)
     \<and> bit (device_register (table_fis t)) 6 \<and> sum_list (map snd (pieces h t)) = 512 * fis_count (table_fis t)"

text \<open>What it does: the sectors move between the drive and the pieces and the slot is released; if one of them fails, the
  status has the error bit, and the slot stays taken.\<close>

definition header_of :: "ahci \<Rightarrow> nat \<Rightarrow> nat \<Rightarrow> hba_command_header" where
  "header_of s p slot = headers s (command_header_at s p slot)"

definition table_of :: "ahci \<Rightarrow> nat \<Rightarrow> nat \<Rightarrow> hba_command_table" where
  "table_of s p slot = tables s (command_table_at (header_of s p slot))"

definition execute :: "nat \<Rightarrow> nat \<Rightarrow> ahci \<Rightarrow> ahci" where
  "execute p slot s = (let h = header_of s p slot; t = table_of s p slot; d = media s p; a = fis_lba (table_fis t); n = fis_count (table_fis t) in
     if \<not> list_all (\<lambda>i. dr_ok d (a + of_nat i)) [0..<n] then upd_hba p (\<lambda>r. r\<lparr>interrupt_status := interrupt_status r OR 0x40000000\<rparr>) s
     else let s = upd_hba p (\<lambda>r. r\<lparr>command_issue := command_issue r AND NOT (push_bit slot 1)\<rparr>) s in
       if h_write h then s\<lparr>media := (media s)(p := put_sectors d a n (gather (pieces h t) (dma s)))\<rparr>
       else s\<lparr>dma := scatter (pieces h t) (sectors_of d a n) (dma s)\<rparr>)"

text \<open>A controller for disks. At a port without a command, and after an error, it rests; a command that is alone and
  well formed is carried out within \<open>k\<close> steps, during which it stays visible.\<close>

definition running :: "nat \<Rightarrow> nat \<Rightarrow> ahci \<Rightarrow> bool" where
  "running p slot s \<longleftrightarrow> command_issue (hba_ports s p) AND push_bit slot 1 \<noteq> 0 \<and> \<not> task_failed (hba_ports s p)"

definition carries_out :: "(ahci \<Rightarrow> ahci) \<Rightarrow> nat \<Rightarrow> nat \<Rightarrow> nat \<Rightarrow> ahci \<Rightarrow> bool" where
  "carries_out hw p slot k s \<longleftrightarrow> (\<exists>j<k. (\<forall>m. 0 < m \<and> m \<le> j \<longrightarrow> running p slot ((hw ^^ m) s)) \<and> (hw ^^ (j + 1)) s = execute p slot s)"

definition sata_controller :: "(ahci \<Rightarrow> ahci) \<Rightarrow> nat \<Rightarrow> nat \<Rightarrow> bool" where
  "sata_controller hw p k \<longleftrightarrow> (\<forall>s. command_issue (hba_ports s p) = 0 \<or> task_failed (hba_ports s p) \<longrightarrow> hw s = s)
     \<and> (\<forall>s slot. slot < 32 \<and> command_issue (hba_ports s p) = push_bit slot 1 \<and> \<not> task_failed (hba_ports s p)
         \<and> dma_command (header_of s p slot) (table_of s p slot) \<longrightarrow> carries_out hw p slot k s)"

section \<open>Waiting\<close>

lemma wait_idle_quiet:
  assumes "\<not> port_busy (hba_ports s p)" and "hw s = s" and "0 < n"
  shows "wait_idle hw p n s = (False, s)"
  using assms by (subst wait_idle.simps) (simp add: Let_def)

lemma wait_done_from:
  assumes f: "\<And>m. hw (f m) = f (Suc m)"
    and run: "\<And>m. 0 < m \<Longrightarrow> m \<le> j \<Longrightarrow> running p slot (f m)" and stop: "\<And>m. j < m \<Longrightarrow> f m = e"
    and fin: "command_issue (hba_ports e p) AND push_bit slot 1 = 0 \<or> task_failed (hba_ports e p)"
  shows "0 < n \<Longrightarrow> j + 1 < i + 2 * n \<Longrightarrow> wait_done hw p slot n (f i) = Ok (\<not> task_failed (hba_ports e p), e)"
proof (induction n arbitrary: i)
  case (Suc n)
  have s: "hw (f i) = f (i + 1)" "hw (f (i + 1)) = f (i + 2)" using f by simp_all
  consider "j < i + 1" | "i + 1 = j" | "i + 1 < j" by linarith
  then show ?case
  proof cases
    case 1
    hence e: "f (i + 1) = e" "f (i + 2) = e" by (auto intro: stop)
    have he: "hw e = e" using s(2) unfolding e .
    have "hw (f i) = e" using s(1) e(1) by (rule trans)
    then show ?thesis using fin by (auto simp: he Let_def)
  next
    case 2
    have r: "running p slot (f (i + 1))" by (rule run) (use 2 in simp_all)
    have e: "f (i + 2) = e" by (rule stop) (use 2 in simp)
    show ?thesis
    proof (cases "task_failed (hba_ports e p)")
      case False
      have "0 < n" using Suc.prems 2 by presburger
      with Suc.IH [of "i + 2"] r e False 2 Suc.prems show ?thesis by (simp add: f Let_def running_def)
    qed (use r e in \<open>simp add: f Let_def running_def\<close>)
  next
    case 3
    have r: "running p slot (f (i + 1))" "running p slot (f (i + 2))" by (rule run; use 3 in simp)+
    have "0 < n" using Suc.prems 3 by presburger
    with Suc.IH [of "i + 2"] r 3 Suc.prems show ?thesis by (simp add: f Let_def running_def)
  qed
qed simp

lemma funpow_stays: "hw e = e \<Longrightarrow> (hw ^^ m) e = e" for m :: nat
  by (induction m) simp_all

lemma execute_stops:
  assumes "command_issue (hba_ports s p) = push_bit slot 1" and "\<not> task_failed (hba_ports s p)"
  shows "command_issue (hba_ports (execute p slot s) p) = 0 \<or> task_failed (hba_ports (execute p slot s) p)"
    and "task_failed (hba_ports (execute p slot s) p) \<longleftrightarrow> \<not> list_all (\<lambda>i. dr_ok (media s p) (fis_lba (table_fis (table_of s p slot)) + of_nat i))
      [0..<fis_count (table_fis (table_of s p slot))]"
proof -
  have "(x OR 0x40000000) AND 0x40000000 \<noteq> 0" for x :: u32
  proof -
    have "bit ((x OR 0x40000000) AND 0x40000000) 30" by (simp add: bit_simps)
    then show ?thesis by auto
  qed
  then show "command_issue (hba_ports (execute p slot s) p) = 0 \<or> task_failed (hba_ports (execute p slot s) p)"
    and "task_failed (hba_ports (execute p slot s) p) \<longleftrightarrow> \<not> list_all (\<lambda>i. dr_ok (media s p) (fis_lba (table_fis (table_of s p slot)) + of_nat i))
      [0..<fis_count (table_fis (table_of s p slot))]"
    using assms by (auto simp: execute_def Let_def upd_hba_def task_failed_def)
qed

text \<open>A well-formed command alone at its port ends, with its effect and its outcome.\<close>

lemma issue_dma:
  assumes c: "sata_controller hw p k" and "0 < k" and "slot < 32" and "command_issue (hba_ports s p) = 0" and "\<not> port_busy (hba_ports s p)"
    and "\<not> task_failed (hba_ports s p)" and "dma_command (header_of s p slot) (table_of s p slot)"
  defines "t \<equiv> write_issue p (push_bit slot 1) s"
  shows "issue hw k p (push_bit slot 1) slot s = Ok (\<not> task_failed (hba_ports (execute p slot t) p), execute p slot t)"
proof -
  have t: "command_issue (hba_ports t p) = push_bit slot 1" "\<not> task_failed (hba_ports t p)" "header_of t p slot = header_of s p slot"
    "table_of t p slot = table_of s p slot"
    using assms(4,6) by (simp_all add: t_def write_issue_def upd_hba_def task_failed_def header_of_def table_of_def command_header_at_def)
  obtain j where j: "j < k" "\<And>m. 0 < m \<Longrightarrow> m \<le> j \<Longrightarrow> running p slot ((hw ^^ m) t)" "(hw ^^ (j + 1)) t = execute p slot t"
    using c t assms(3,7) unfolding sata_controller_def carries_out_def by metis
  have e: "command_issue (hba_ports (execute p slot t) p) = 0 \<or> task_failed (hba_ports (execute p slot t) p)"
    by (rule execute_stops(1) [OF t(1,2)])
  hence stay: "hw (execute p slot t) = execute p slot t" using c by (auto simp: sata_controller_def)
  have after: "(hw ^^ m) t = execute p slot t" if "j < m" for m
  proof -
    have "(hw ^^ (m - (j + 1) + (j + 1))) t = execute p slot t" unfolding funpow_add [of "m - (j + 1)" "j + 1"] o_apply j(3) using stay by (rule funpow_stays)
    then show ?thesis using that by simp
  qed
  have w: "wait_done hw p slot k ((hw ^^ 0) t) = Ok (\<not> task_failed (hba_ports (execute p slot t) p), execute p slot t)"
    by (rule wait_done_from [where j = j]) (use j(1,2) after e assms(2) in auto)
  have "hw s = s" using c assms(4) by (auto simp: sata_controller_def)
  hence "wait_idle hw p SPIN_MAX s = (False, s)" using assms(5) by (intro wait_idle_quiet) simp_all
  with w show ?thesis by (simp add: issue_def t_def)
qed

section \<open>Reads and writes\<close>

text \<open>A port the driver may use: started, idle, without commands, and with a command list.\<close>

definition port_ready :: "ahci \<Rightarrow> u8 \<Rightarrow> nat \<Rightarrow> u64 \<Rightarrow> bool" where
  "port_ready s n p buf \<longleftrightarrow> hba_on s \<and> port_of s n = Ok (p, buf) \<and> command_issue (hba_ports s p) = 0 \<and> sata_active (hba_ports s p) = 0
     \<and> \<not> port_busy (hba_ports s p) \<and> drop_bit 8 (host_capabilities s AND 0x0f00) \<noteq> 0 \<and> \<not> atapi (header_of s p 0)"

lemma first_slot:
  assumes "command_issue (hba_ports s p) = 0" and "sata_active (hba_ports s p) = 0" and "drop_bit 8 (host_capabilities s AND 0x0f00) \<noteq> 0"
  shows "find_cmd_slot s p = Some 0"
proof -
  obtain m where "unat (drop_bit 8 (host_capabilities s AND 0x0f00)) = Suc m"
    using assms(3) by (metis not0_implies_Suc unat_eq_zero)
  then show ?thesis using assms(1,2) by (simp add: find_cmd_slot_def)
qed

lemma take_first [simp]: "xs \<noteq> [] \<Longrightarrow> take (Suc 0) (xs[0 := v]) = [v]"
  by (cases xs) simp_all

lemma prd_piece_region: "unat n < 2 ^ 22 \<Longrightarrow> prd_piece (region a n) = (a, unat n + 1)"
  by (simp add: prd_piece_def region_def join_halves unsigned_take_bit_eq take_bit_nat_eq_self)

lemma few_sectors:
  assumes "0 < unat c" and "unat c \<le> 16"
  shows "ucast (drop_bit 4 (c - 1 :: u32)) + 1 = (1 :: u16)" and "unat (push_bit 9 c - 1) = 512 * unat c - 1"
proof -
  have c1: "unat (c - 1) = unat c - 1" using assms(1) by (intro unat_minus_one) auto
  hence "unat (drop_bit 4 (c - 1)) = 0" using assms by (simp add: drop_bit_eq_div unat_div_distrib)
  then show "ucast (drop_bit 4 (c - 1)) + 1 = (1 :: u16)" by (simp add: unat_eq_zero)
  have p: "unat (push_bit 9 c) = 512 * unat c"
    using assms(2) by (simp add: push_bit_eq_mult unat_word_ariths)
  hence "push_bit 9 c \<noteq> 0" using assms(1) by (metis less_not_refl mult_eq_0_iff unsigned_0 zero_neq_numeral)
  then show "unat (push_bit 9 c - 1) = 512 * unat c - 1" using p by (simp add: unat_minus_one)
qed

text \<open>The command of up to 16 sectors.\<close>

lemma setup_few:
  assumes "0 < unat c" and "unat c \<le> 16"
  obtains s1 where "data_setup p buf slot w cmd a c s = Ok s1"
    and "header_of s1 p slot = (header_of s p slot)\<lparr>command_fis_length := 5, h_write := w, prdt_length := 1\<rparr>"
    and "table_fis (table_of s1 p slot) = data_fis cmd a c" and "pieces (header_of s1 p slot) (table_of s1 p slot) = [(buf, 512 * unat c)]"
    and "hba_ports s1 = hba_ports s" and "dma s1 = dma s" and "media s1 = media s" and "hba_on s1 = hba_on s" and "ahci_ports s1 = ahci_ports s"
    and "host_capabilities s1 = host_capabilities s" and "port_count s1 = port_count s"
proof -
  have n: "unat (1 :: u16) = 1" by simp
  have piece: "prd_piece (region buf (push_bit 9 c - 1)) = (buf, 512 * unat c)"
    using prd_piece_region [of "push_bit 9 c - 1" buf] few_sectors(2) [OF assms] assms by simp
  define h where "h = command_header_at s p slot"
  define a1 where "a1 = command_table_at (headers s h)"
  define hd1 where "hd1 = (headers s h)\<lparr>command_fis_length := 5, h_write := w, prdt_length := 1\<rparr>"
  define t1 where "t1 = \<lparr>table_fis = data_fis cmd a c, atapi_command = replicate 16 0,
    prdt_entry = (replicate 31 no_prdt @ [no_prdt])[0 := region buf (push_bit 9 c - 1)]\<rparr>"
  define s1 where "s1 = s\<lparr>headers := (headers s)(h := hd1), tables := (tables s)(a1 := t1)\<rparr>"
  have hd1: "command_table_at hd1 = a1" by (simp add: hd1_def a1_def command_table_at_def)
  have set: "data_setup p buf slot w cmd a c s = Ok s1"
    unfolding data_setup_def Let_def few_sectors(1) [OF assms] n h_def [symmetric] hd1_def [symmetric]
    by (simp add: wr_def clear_table_def s1_def t1_def hd1)
  have h1: "header_of s1 p slot = hd1" "header_of s p slot = headers s h" by (simp_all add: header_of_def command_header_at_def s1_def h_def)
  hence t: "table_of s1 p slot = t1" by (simp add: table_of_def hd1) (simp add: s1_def)
  have pc: "pieces hd1 t1 = [(buf, 512 * unat c)]" by (simp add: pieces_def hd1_def t1_def piece)
  show thesis by (rule that [OF set]) (simp_all add: h1 t pc, simp_all add: s1_def hd1_def t1_def)
qed

definition drive_wf :: "drive \<Rightarrow> bool" where "drive_wf d \<longleftrightarrow> (\<forall>x. length (dr_sector d x) = 512)"

lemma length_sectors_of: "drive_wf d \<Longrightarrow> length (sectors_of d a n) = 512 * n"
  by (induction n) (simp_all add: sectors_of_def drive_wf_def)

definition all_ok :: "drive \<Rightarrow> u64 \<Rightarrow> nat \<Rightarrow> bool" where
  "all_ok d a n \<longleftrightarrow> (\<forall>i<n. dr_ok d (a + of_nat i))"

lemma list_all_ok: "list_all (\<lambda>i. dr_ok d (a + of_nat i)) [0..<n] = all_ok d a n"
  by (auto simp: all_ok_def list_all_iff)

text \<open>Both directions: the outcome is whether all the sectors are good, and then the effect is that of the command.\<close>

lemma data_command_few:
  assumes "sata_controller hw p k" and "0 < k" and r: "port_ready s n p buf" and c: "0 < unat c" "unat c \<le> 16"
    and cmd: "cmd = (if w then ATA_CMD_WRITE_DMA_EX else ATA_CMD_READ_DMA_EX)"
  obtains s' where "data_command hw k w cmd n a c s = Ok (all_ok (media s p) (take_bit 48 a) (unat c), s')"
    and "all_ok (media s p) (take_bit 48 a) (unat c) \<Longrightarrow> port_ready s' n p buf
      \<and> dma s' = (if w then dma s else put_at (dma s) buf (take (512 * unat c) (sectors_of (media s p) (take_bit 48 a) (unat c))))
      \<and> media s' = (if w then (media s)(p := put_sectors (media s p) (take_bit 48 a) (unat c) (bytes_at (dma s) buf (512 * unat c))) else media s)"
proof -
  let ?s = "write_status p (- 1) s"
  let ?d = "media s p" and ?a = "take_bit 48 a"
  have s: "command_issue (hba_ports ?s p) = 0" "\<not> port_busy (hba_ports ?s p)" "\<not> task_failed (hba_ports ?s p)" "sata_active (hba_ports ?s p) = 0"
    "dma ?s = dma s" "media ?s = media s" "header_of ?s p 0 = header_of s p 0"
    "hba_on ?s" "port_of ?s n = Ok (p, buf)" "host_capabilities ?s = host_capabilities s" "ahci_ports ?s = ahci_ports s"
    using r by (simp_all add: port_ready_def write_status_def upd_hba_def port_busy_def task_failed_def header_of_def command_header_at_def port_of_def)
  have slot: "find_cmd_slot ?s p = Some 0" using s r by (intro first_slot) (simp_all add: port_ready_def)
  obtain s1 where s1: "data_setup p buf 0 w cmd a c ?s = Ok s1"
    "header_of s1 p 0 = (header_of ?s p 0)\<lparr>command_fis_length := 5, h_write := w, prdt_length := 1\<rparr>"
    "table_fis (table_of s1 p 0) = data_fis cmd a c" "pieces (header_of s1 p 0) (table_of s1 p 0) = [(buf, 512 * unat c)]"
    "hba_ports s1 = hba_ports ?s" "dma s1 = dma ?s" "media s1 = media ?s" "hba_on s1 = hba_on ?s" "ahci_ports s1 = ahci_ports ?s"
    "host_capabilities s1 = host_capabilities ?s" "port_count s1 = port_count ?s"
    by (rule setup_few [OF c])
  have f: "fis_lba (table_fis (table_of s1 p 0)) = ?a" "fis_count (table_fis (table_of s1 p 0)) = unat c"
    using c by (simp_all add: s1(3) fis_lba_data fis_count_data)
  have dc: "dma_command (header_of s1 p 0) (table_of s1 p 0)"
    unfolding dma_command_def s1(4) f
    by (use r in \<open>simp add: s1(2,3) s(7) cmd data_fis_def Let_def no_fis_def port_ready_def bit_simps\<close>)
  define t where "t = write_issue p (push_bit 0 1) s1"
  have t: "header_of t p 0 = header_of s1 p 0" "table_of t p 0 = table_of s1 p 0" "command_issue (hba_ports t p) = push_bit 0 1"
    "\<not> task_failed (hba_ports t p)" "media t = media s" "dma t = dma s"
    using s s1(5-7) by (simp_all add: t_def write_issue_def upd_hba_def header_of_def table_of_def command_header_at_def task_failed_def)
  have out: "task_failed (hba_ports (execute p 0 t) p) \<longleftrightarrow> \<not> all_ok ?d ?a (unat c)"
    using execute_stops(2) [OF t(3,4)] f t by (simp add: list_all_ok)
  have cmd_eq: "data_command hw k w cmd n a c s = Ok (all_ok ?d ?a (unat c), execute p 0 t)"
    using s(8,9) slot s1(1) issue_dma [of hw p k 0 s1, OF assms(1,2) _ _ _ _ dc] s s1(5) out r
    by (simp add: data_command_def port_ready_def t_def)
  show thesis
  proof (rule that [OF cmd_eq])
    assume ok: "all_ok ?d ?a (unat c)"
    have e: "execute p 0 t = (let u = upd_hba p (\<lambda>r. r\<lparr>command_issue := command_issue r AND NOT (push_bit 0 1)\<rparr>) t in
        if w then u\<lparr>media := (media s)(p := put_sectors ?d ?a (unat c) (bytes_at (dma s) buf (512 * unat c)))\<rparr>
        else u\<lparr>dma := put_at (dma s) buf (take (512 * unat c) (sectors_of ?d ?a (unat c)))\<rparr>)"
      unfolding execute_def Let_def t(1,2) f s1(4) t(5) list_all_ok
      using ok by (simp add: s1(2) upd_hba_def t(5,6))
    have "port_ready (execute p 0 t) n p buf"
      unfolding e Let_def using s s1 r
      by (auto simp: port_ready_def t_def write_issue_def upd_hba_def port_busy_def header_of_def command_header_at_def port_of_def)
    then show "port_ready (execute p 0 t) n p buf
      \<and> dma (execute p 0 t) = (if w then dma s else put_at (dma s) buf (take (512 * unat c) (sectors_of ?d ?a (unat c))))
      \<and> media (execute p 0 t) = (if w then (media s)(p := put_sectors ?d ?a (unat c) (bytes_at (dma s) buf (512 * unat c))) else media s)"
      unfolding e Let_def by (simp add: upd_hba_def t(5,6))
  qed
qed

section \<open>The drive the disk driver sees\<close>

text \<open>The loops of \<open>disk_dd.c\<close> over the commands themselves; \<open>hb\<close> is the buffer of the port.\<close>

fun ahci_read_loop :: "(ahci \<Rightarrow> ahci) \<Rightarrow> nat \<Rightarrow> u8 \<Rightarrow> u64 \<Rightarrow> u64 \<Rightarrow> nat \<Rightarrow> nat \<Rightarrow> u8 list \<Rightarrow> ahci \<Rightarrow> (nat option \<times> u8 list \<times> ahci) result" where
  "ahci_read_loop hw k n hb a i 0 buf s = Ok (None, buf, s)"
| "ahci_read_loop hw k n hb a i (Suc m) buf s = rbind (hba_read_port hw k n (a + of_nat i) 1 s) (\<lambda>(ok, s).
     if ok then rbind (put_bytes buf (512 * i) (bytes_at (dma s) hb 512)) (\<lambda>buf. ahci_read_loop hw k n hb a (i + 1) m buf s)
     else Ok (Some i, buf, s))"

definition ahci_disk_read :: "(ahci \<Rightarrow> ahci) \<Rightarrow> nat \<Rightarrow> u64 \<Rightarrow> u64 \<Rightarrow> u64 \<Rightarrow> u8 list \<Rightarrow> ahci \<Rightarrow> (u64 \<times> u8 list \<times> ahci) result" where
  "ahci_disk_read hw k port n offset buf s = rbind (get_buffer s (ucast port)) (\<lambda>hb.
     rbind (ahci_read_loop hw k (ucast port) hb offset 0 (unat (size_to_blocks n)) buf s) (\<lambda>(r, buf, s).
     Ok (case r of None \<Rightarrow> n | Some i \<Rightarrow> block_to_size (of_nat i), buf, s)))"

fun ahci_write_loop :: "(ahci \<Rightarrow> ahci) \<Rightarrow> nat \<Rightarrow> u8 \<Rightarrow> u64 \<Rightarrow> u64 \<Rightarrow> nat \<Rightarrow> nat \<Rightarrow> u8 list \<Rightarrow> ahci \<Rightarrow> (nat option \<times> ahci) result" where
  "ahci_write_loop hw k n hb a i 0 buf s = Ok (None, s)"
| "ahci_write_loop hw k n hb a i (Suc m) buf s = (if length buf < 512 * (i + 1) then Err Fault else
     rbind (hba_write_port hw k n (a + of_nat i) 1 (s\<lparr>dma := put_at (dma s) hb (take 512 (drop (512 * i) buf))\<rparr>)) (\<lambda>(ok, s).
     if ok then ahci_write_loop hw k n hb a (i + 1) m buf s else Ok (Some i, s)))"

definition ahci_disk_write :: "(ahci \<Rightarrow> ahci) \<Rightarrow> nat \<Rightarrow> u64 \<Rightarrow> u64 \<Rightarrow> u64 \<Rightarrow> u8 list \<Rightarrow> ahci \<Rightarrow> (u64 \<times> ahci) result" where
  "ahci_disk_write hw k port n offset buf s = rbind (get_buffer s (ucast port)) (\<lambda>hb.
     rbind (ahci_write_loop hw k (ucast port) hb offset 0 (unat (size_to_blocks n)) buf s) (\<lambda>(r, s).
     Ok (case r of None \<Rightarrow> n | Some i \<Rightarrow> block_to_size (of_nat i), s)))"

lemma one_sector: "all_ok d a (Suc 0) = dr_ok d a" "sectors_of d a (Suc 0) = dr_sector d a"
  by (simp_all add: all_ok_def sectors_of_def)

lemma put_one_sector: "length bs = 512 \<Longrightarrow> dr_ok d a \<Longrightarrow> write_port d a bs = Some (put_sectors d a (Suc 0) bs)"
  by (auto simp: write_port_def put_sectors_def fun_eq_iff unat_eq_zero intro!: drive.equality)

lemma low_48: "unat a < 2 ^ 48 \<Longrightarrow> take_bit 48 (a :: u64) = a"
  by (rule word_unat_eq_iff [THEN iffD2]) (simp add: unsigned_take_bit_eq take_bit_nat_eq_self)

lemma read_one:
  assumes "sata_controller hw p k" and "0 < k" and "port_ready s n p hb" and "drive_wf (media s p)" and "unat a < 2 ^ 48"
  obtains s' where "hba_read_port hw k n a 1 s = Ok (dr_ok (media s p) a, s')"
    and "dr_ok (media s p) a \<Longrightarrow> port_ready s' n p hb \<and> media s' = media s \<and> bytes_at (dma s') hb 512 = dr_sector (media s p) a"
proof -
  have l: "length (dr_sector (media s p) a) = 512" using assms(4) by (simp add: drive_wf_def)
  have b: "bytes_at (put_at (dma s) hb (dr_sector (media s p) a)) hb 512 = dr_sector (media s p) a"
    using bytes_at_put_at [of "dr_sector (media s p) a" "dma s" hb] by (simp add: l)
  show thesis
    by (rule data_command_few [OF assms(1-3), of 1 ATA_CMD_READ_DMA_EX False a])
      (use that l b in \<open>auto simp: hba_read_port_def low_48 [OF assms(5)] one_sector\<close>)
qed

lemma write_one:
  assumes "sata_controller hw p k" and "0 < k" and "port_ready s n p hb" and "length bs = 512" and "unat a < 2 ^ 48"
  obtains s' where "hba_write_port hw k n a 1 (s\<lparr>dma := put_at (dma s) hb bs\<rparr>) = Ok (dr_ok (media s p) a, s')"
    and "dr_ok (media s p) a \<Longrightarrow> port_ready s' n p hb \<and> media s' = (media s)(p := put_sectors (media s p) a (Suc 0) bs)"
proof -
  let ?s = "s\<lparr>dma := put_at (dma s) hb bs\<rparr>"
  have b: "bytes_at (put_at (dma s) hb bs) hb 512 = bs" using bytes_at_put_at [of bs "dma s" hb] by (simp add: assms(4))
  have r: "port_ready ?s n p hb" using assms(3) by (simp add: port_ready_def port_of_def header_of_def command_header_at_def)
  show thesis
    by (rule data_command_few [OF assms(1,2) r, of 1 ATA_CMD_WRITE_DMA_EX True a])
      (use that b in \<open>auto simp: hba_write_port_def low_48 [OF assms(5)] one_sector\<close>)
qed

lemma read_loop_refines:
  assumes c: "sata_controller hw p k" "0 < k"
  shows "port_ready s n p hb \<Longrightarrow> drive_wf (media s p) \<Longrightarrow> unat a + i + m \<le> 2 ^ 48 \<Longrightarrow>
    (case dd_read_loop (media s p) a i m buf of Err e \<Rightarrow> ahci_read_loop hw k n hb a i m buf s = Err e
     | Ok (r, b) \<Rightarrow> \<exists>s'. ahci_read_loop hw k n hb a i m buf s = Ok (r, b, s') \<and> (r = None \<longrightarrow> port_ready s' n p hb \<and> media s' = media s))"
proof (induction m arbitrary: i buf s)
  case (Suc m)
  have a: "unat (a + of_nat i) = unat a + i" using Suc.prems(3) by (simp add: unat_word_ariths unsigned_of_nat take_bit_nat_eq_self)
  obtain s' where s': "hba_read_port hw k n (a + of_nat i) 1 s = Ok (dr_ok (media s p) (a + of_nat i), s')"
    "dr_ok (media s p) (a + of_nat i) \<Longrightarrow>
      port_ready s' n p hb \<and> media s' = media s \<and> bytes_at (dma s') hb 512 = dr_sector (media s p) (a + of_nat i)"
    by (rule read_one [OF c Suc.prems(1,2), of "a + of_nat i"]) (use a Suc.prems(3) in auto)
  show ?case
  proof (cases "dr_ok (media s p) (a + of_nat i)")
    case True
    note t = s'(2) [OF True]
    show ?thesis
    proof (cases "put_bytes buf (512 * i) (dr_sector (media s p) (a + of_nat i))")
      case (Ok b1)
      then show ?thesis using Suc.IH [of s' "i + 1" b1] t Suc.prems s'(1) True by (auto simp: read_port_def split: result.splits)
    qed (use s' True t in \<open>simp add: read_port_def\<close>)
  qed (use s'(1) in \<open>simp add: read_port_def\<close>)
qed simp

lemma write_loop_refines:
  assumes c: "sata_controller hw p k" "0 < k"
  shows "port_ready s n p hb \<Longrightarrow> unat a + i + m \<le> 2 ^ 48 \<Longrightarrow>
    (case dd_write_loop (media s p) a i m buf of Err e \<Rightarrow> ahci_write_loop hw k n hb a i m buf s = Err e
     | Ok (r, d) \<Rightarrow> \<exists>s'. ahci_write_loop hw k n hb a i m buf s = Ok (r, s') \<and> (r = None \<longrightarrow> port_ready s' n p hb \<and> media s' = (media s)(p := d)))"
proof (induction m arbitrary: i s)
  case (Suc m)
  let ?bs = "take 512 (drop (512 * i) buf)"
  have a: "unat (a + of_nat i) = unat a + i" using Suc.prems(2) by (simp add: unat_word_ariths unsigned_of_nat take_bit_nat_eq_self)
  show ?case
  proof (cases "length buf < 512 * (i + 1)")
    case False
    hence l: "length ?bs = 512" by simp
    obtain s' where s': "hba_write_port hw k n (a + of_nat i) 1 (s\<lparr>dma := put_at (dma s) hb ?bs\<rparr>) = Ok (dr_ok (media s p) (a + of_nat i), s')"
      "dr_ok (media s p) (a + of_nat i) \<Longrightarrow> port_ready s' n p hb \<and> media s' = (media s)(p := put_sectors (media s p) (a + of_nat i) (Suc 0) ?bs)"
      by (rule write_one [OF c Suc.prems(1) l, of "a + of_nat i"]) (use a Suc.prems(2) in auto)
    show ?thesis
    proof (cases "dr_ok (media s p) (a + of_nat i)")
      case True
      note t = s'(2) [OF True]
      have w: "write_port (media s p) (a + of_nat i) ?bs = Some (media s' p)" using put_one_sector [OF l True] t by simp
      have "unat a + (i + 1) + m \<le> 2 ^ 48" using Suc.prems(2) by simp
      from Suc.IH [OF conjunct1 [OF t] this] show ?thesis using s'(1) True False t
        by (auto simp: w split: result.splits intro!: ext)
    qed (use s'(1) False in \<open>simp add: write_port_def\<close>)
  qed simp
qed simp

lemma buffer_ready: "port_ready s n p hb \<Longrightarrow> get_buffer s n = Ok hb"
  by (auto simp: port_ready_def port_of_def get_buffer_def rbind_eq_Ok rd_eq_Ok split: option.splits)

text \<open>C25: over a controller that carries out its commands, the disk driver on the AHCI driver is the disk driver on the
  drive behind the port: a read delivers the same bytes and the same result, and unless a sector failed the port is
  ready again and the drives are as before.\<close>

theorem ahci_read_refines:
  assumes "sata_controller hw p k" and "0 < k" and "port_ready s (ucast port) p hb" and "drive_wf (media s p)"
    and "unat offset + unat (size_to_blocks n) \<le> 2 ^ 48" and "ps (ucast port) = media s p"
  shows "case dd_disk_read port n offset buf ps of Err e \<Rightarrow> ahci_disk_read hw k port n offset buf s = Err e
    | Ok (r, b, ps') \<Rightarrow> \<exists>s'. ahci_disk_read hw k port n offset buf s = Ok (r, b, s')
        \<and> (all_ok (media s p) offset (unat (size_to_blocks n)) \<longrightarrow> port_ready s' (ucast port) p hb \<and> media s' = media s)"
proof -
  have ok: "r = None" if "dd_read_loop d a i m buf = Ok (r, b)" "\<forall>j<i + m. dr_ok d (a + of_nat j)" for d a i m buf r b
    using that
  proof (induction m arbitrary: i buf)
    case (Suc m)
    from Suc.prems show ?case
      by (auto simp: read_port_def rbind_eq_Ok split: if_splits option.splits intro: Suc.IH [of "Suc i"])
  qed simp
  show ?thesis
    using read_loop_refines [OF assms(1-4), of offset 0 "unat (size_to_blocks n)" buf] assms(5,6) buffer_ready [OF assms(3)]
    by (auto simp: dd_disk_read_def ahci_disk_read_def all_ok_def split: result.splits dest: ok)
qed

text \<open>C26: likewise a write: the same result, and unless a sector failed the drive holds what the drive of the disk driver
  holds, the other drives are as before and the port is ready again.\<close>

theorem ahci_write_refines:
  assumes "sata_controller hw p k" and "0 < k" and "port_ready s (ucast port) p hb"
    and "unat offset + unat (size_to_blocks n) \<le> 2 ^ 48" and "ps (ucast port) = media s p"
  shows "case dd_disk_write port n offset buf ps of Err e \<Rightarrow> ahci_disk_write hw k port n offset buf s = Err e
    | Ok (r, ps') \<Rightarrow> \<exists>s'. ahci_disk_write hw k port n offset buf s = Ok (r, s')
        \<and> (all_ok (media s p) offset (unat (size_to_blocks n)) \<longrightarrow>
             port_ready s' (ucast port) p hb \<and> media s' = (media s)(p := ps' (ucast port)))"
proof -
  have ok: "r = None" if "dd_write_loop d a i m buf = Ok (r, d')" "\<forall>j<i + m. dr_ok d (a + of_nat j)" for d a i m r d'
    using that
  proof (induction m arbitrary: i d)
    case (Suc m)
    from Suc.prems show ?case
      by (auto simp: write_port_def rbind_eq_Ok split: if_splits option.splits
        intro: Suc.IH [of "d\<lparr>dr_sector := (dr_sector d)(a + word_of_nat i := take 512 (drop (512 * i) buf))\<rparr>" "Suc i"])
  qed simp
  show ?thesis
    using write_loop_refines [OF assms(1-3), of offset 0 "unat (size_to_blocks n)" buf] assms(4,5) buffer_ready [OF assms(3)]
    by (auto simp: dd_disk_write_def ahci_disk_write_def all_ok_def split: result.splits dest: ok)
qed

section \<open>A prompt controller\<close>

text \<open>A controller that carries out its command in one step, and a state with two ports.\<close>

definition slot_of :: "u32 \<Rightarrow> nat option" where
  "slot_of c = List.find (\<lambda>i. c = push_bit i 1) [0..<32]"

definition prompt :: "nat \<Rightarrow> ahci \<Rightarrow> ahci" where
  "prompt p s = (if command_issue (hba_ports s p) = 0 \<or> task_failed (hba_ports s p) then s
     else case slot_of (command_issue (hba_ports s p)) of None \<Rightarrow> s | Some slot \<Rightarrow> execute p slot s)"

lemma push_bit_32_inj: "i < 32 \<Longrightarrow> j < 32 \<Longrightarrow> push_bit i (1 :: u32) = push_bit j 1 \<Longrightarrow> i = j"
proof -
  assume ij: "i < 32" "j < 32" "push_bit i (1 :: u32) = push_bit j 1"
  have "bit (push_bit i (1 :: u32)) i" using ij(1) by (simp add: bit_simps)
  hence "bit (push_bit j (1 :: u32)) i" using ij(3) by simp
  then show "i = j" by (simp add: bit_simps)
qed

lemma find_upt: "i < n \<Longrightarrow> P i \<Longrightarrow> (\<And>j. j < n \<Longrightarrow> P j \<Longrightarrow> j = i) \<Longrightarrow> List.find P [0..<n] = Some i"
proof -
  assume P: "i < n" "P i" "\<And>j. j < n \<Longrightarrow> P j \<Longrightarrow> j = i"
  have "\<not> P j" if "j < i" for j using P(3) [of j] P(1) that by auto
  with P(1,2) show ?thesis by (auto simp: find_Some_iff)
qed

lemma slot_of_bit: "i < 32 \<Longrightarrow> slot_of (push_bit i 1) = Some i"
  unfolding slot_of_def by (rule find_upt) (assumption, rule refl, rule push_bit_32_inj, assumption+, erule sym)

lemma prompt_sata: "sata_controller (prompt p) p 1"
  unfolding sata_controller_def
proof (intro conjI allI impI)
  fix s slot assume a: "slot < 32 \<and> command_issue (hba_ports s p) = push_bit slot 1 \<and> \<not> task_failed (hba_ports s p)
    \<and> dma_command (header_of s p slot) (table_of s p slot)"
  hence "push_bit slot (1 :: u32) \<noteq> 0" by (auto simp: bit_eq_iff bit_simps)
  with a have "prompt p s = execute p slot s" using slot_of_bit [of slot] by (simp add: prompt_def del: push_bit_of_1)
  then show "carries_out (prompt p) p slot 1 s" by (simp add: carries_out_def)
qed (auto simp: prompt_def)

definition idle_port :: hba_port where
  "idle_port = \<lparr>command_list_base = 0x5000, command_list_base_upper = 0, fis_base_address = 0x6000, fis_base_address_upper = 0,
     interrupt_status = 0, command_status = 0x11, task_file_data = 0x50, signature = 0x101, sata_status = 0x103, sata_active = 0, command_issue = 0\<rparr>"

definition ahci_example :: ahci where
  "ahci_example = \<lparr>hba_on = True, host_capabilities = 0x0400, ports_implemented = push_bit 3 1, hba_ports = (\<lambda>_. idle_port),
     ahci_ports = [\<lparr>ap_port = Some 3, ap_type = PORT_TYPE_SATA, ap_buffer = 0x9000, ap_number = 0\<rparr>], port_count = 1,
     headers = (\<lambda>_. no_header), tables = (\<lambda>_. \<lparr>table_fis = no_fis, atapi_command = [], prdt_entry = []\<rparr>), dma = (\<lambda>_. 0),
     media = (\<lambda>_. drive_example), avm = vm_example\<rparr>"

lemma ahci_example_ready: "port_ready ahci_example 0 3 0x9000" "drive_wf (media ahci_example 3)" "drive_wf drive_example"
  by (simp_all add: port_ready_def ahci_example_def port_of_def idle_port_def port_busy_def header_of_def no_header_def drive_wf_def drive_example_def)

theorem ahci_read_refines_witness:
  "case dd_disk_read 0 1024 7 (replicate 1024 0) (\<lambda>_. drive_example) of Err e \<Rightarrow> ahci_disk_read (prompt 3) 1 0 1024 7 (replicate 1024 0) ahci_example = Err e
    | Ok (r, b, ps') \<Rightarrow> \<exists>s'. ahci_disk_read (prompt 3) 1 0 1024 7 (replicate 1024 0) ahci_example = Ok (r, b, s')
        \<and> port_ready s' 0 3 0x9000 \<and> media s' = media ahci_example"
proof -
  have m: "media ahci_example 3 = drive_example" by (simp add: ahci_example_def)
  have "all_ok drive_example 7 n" for n by (simp add: all_ok_def drive_example_def)
  with ahci_read_refines [of "prompt 3" 3 1 ahci_example 0 "0x9000" 7 1024 "\<lambda>_. drive_example" "replicate 1024 0", OF prompt_sata] m
  show ?thesis by (auto simp: ahci_example_ready size_to_blocks_def split: result.splits)
qed

theorem ahci_write_refines_witness:
  "case dd_disk_write 0 512 7 (replicate 512 1) (\<lambda>_. drive_example) of Err e \<Rightarrow> ahci_disk_write (prompt 3) 1 0 512 7 (replicate 512 1) ahci_example = Err e
    | Ok (r, ps') \<Rightarrow> \<exists>s'. ahci_disk_write (prompt 3) 1 0 512 7 (replicate 512 1) ahci_example = Ok (r, s')
        \<and> port_ready s' 0 3 0x9000 \<and> media s' = (media ahci_example)(3 := ps' 0)"
proof -
  have m: "media ahci_example 3 = drive_example" by (simp add: ahci_example_def)
  have "all_ok drive_example 7 n" for n by (simp add: all_ok_def drive_example_def)
  with ahci_write_refines [of "prompt 3" 3 1 ahci_example 0 "0x9000" 7 512 "\<lambda>_. drive_example" "replicate 512 1", OF prompt_sata] m
  show ?thesis by (auto simp: ahci_example_ready size_to_blocks_def split: result.splits)
qed

section \<open>Long transfers\<close>

lemma fill_prdt_Ok: "i + m < length es \<Longrightarrow> \<exists>es'. fill_prdt m i buf c es = Ok (c - 16 * of_nat m, es') \<and> length es' = length es
    \<and> (\<forall>j<m. es' ! (i + j) = region (buf + 0x8000 * of_nat j) 8191) \<and> (\<forall>j<i. es' ! j = es ! j)
    \<and> (\<exists>l. es' ! (i + m) = region (buf + 0x8000 * of_nat m) l)"
proof (induction m arbitrary: i buf c es)
  case (Suc m)
  let ?es = "es[i := region buf (8 * 1024 - 1)]"
  from Suc.IH [of "i + 1" ?es "buf + 8 * 0x1000" "c - 16"] Suc.prems obtain es' where es':
    "fill_prdt m (i + 1) (buf + 8 * 0x1000) (c - 16) ?es = Ok (c - 16 - 16 * of_nat m, es')" "length es' = length es"
    "\<And>j. j < m \<Longrightarrow> es' ! (i + 1 + j) = region (buf + 8 * 0x1000 + 0x8000 * of_nat j) 8191" "\<And>j. j < i + 1 \<Longrightarrow> es' ! j = ?es ! j"
    "\<exists>l. es' ! (i + 1 + m) = region (buf + 8 * 0x1000 + 0x8000 * of_nat m) l"
    by auto
  have "es' ! (i + j) = region (buf + 0x8000 * of_nat j) 8191" if "j < Suc m" for j
  proof (cases j)
    case 0
    then show ?thesis using es'(4) [of i] Suc.prems by simp
  next
    case (Suc k)
    then show ?thesis using es'(3) [of k] that by (simp add: algebra_simps)
  qed
  then show ?case using es' Suc.prems by (auto simp: wr_def algebra_simps)
qed (auto simp: wr_def)

lemma fst_prd_piece [simp]: "fst (prd_piece (region a n)) = a"
  by (simp add: prd_piece_def region_def join_halves)

lemma long_transfer:
  assumes "16 < unat c" and "unat c \<le> 512" and "data_setup p buf slot w cmd a c s = Ok s1"
  shows "fis_count (table_fis (table_of s1 p slot)) = (unat c - 1) mod 16 + 1"
    and "2 \<le> length (pieces (header_of s1 p slot) (table_of s1 p slot))"
    and "pieces (header_of s1 p slot) (table_of s1 p slot) ! 0 = (buf, 8192)"
    and "fst (pieces (header_of s1 p slot) (table_of s1 p slot) ! 1) = buf + 0x8000"
proof -
  define n where "n = ucast (drop_bit 4 (c - 1)) + (1 :: u16)"
  have c1: "unat (c - 1) = unat c - 1" using assms(1) by (intro unat_minus_one) auto
  have d: "unat (drop_bit 4 (c - 1)) = (unat c - 1) div 16" by (simp add: drop_bit_eq_div unat_div_distrib c1)
  have "(unat c - 1) div 16 < 32" using assms(2) by simp
  hence un: "unat n = (unat c - 1) div 16 + 1" and m: "unat n - 1 = (unat c - 1) div 16"
    by (simp_all add: n_def unat_word_ariths unsigned_ucast_eq unsigned_take_bit_eq d take_bit_nat_eq_self)
  have n0: "n \<noteq> 0" using un by (metis add_is_0 one_neq_zero unsigned_0)
  have m1: "0 < (unat c - 1) div 16" using assms(1) by (simp add: div_greater_zero_iff)
  have lt: "0 + (unat n - 1) < length (prdt_entry (clear_table n t))" for t
    using m \<open>(unat c - 1) div 16 < 32\<close> n0 by (simp add: clear_table_def)
  define h where "h = command_header_at s p slot"
  define hd1 where "hd1 = (headers s h)\<lparr>command_fis_length := 5, h_write := w, prdt_length := n\<rparr>"
  define t where "t = clear_table n (tables s (command_table_at hd1))"
  obtain es where es: "fill_prdt (unat n - 1) 0 buf c (prdt_entry t) = Ok (c - 16 * of_nat (unat n - 1), es)" "length es = length (prdt_entry t)"
    "\<And>j. j < unat n - 1 \<Longrightarrow> es ! j = region (buf + 0x8000 * of_nat j) 8191"
    "\<exists>l. es ! (unat n - 1) = region (buf + 0x8000 * of_nat (unat n - 1)) l"
    using fill_prdt_Ok [OF lt [of "tables s (command_table_at hd1)"], of buf c] by (auto simp: t_def)
  have at: "command_table_at hd1 = command_table_at (headers s h)" by (simp add: hd1_def command_table_at_def)
  let ?t = "t\<lparr>prdt_entry := es, table_fis := data_fis cmd a (c - 16 * of_nat (unat n - 1))\<rparr>"
  have s1: "s1 = s\<lparr>headers := (headers s)(h := hd1), tables := (tables s)(command_table_at hd1 := ?t)\<rparr>"
    using assms(3) unfolding data_setup_def Let_def n_def [symmetric] h_def [symmetric] hd1_def [symmetric]
    using es(1) by (simp add: t_def)
  have h1: "header_of s1 p slot = hd1" by (simp add: header_of_def command_header_at_def s1 h_def)
  hence t1: "table_of s1 p slot = ?t" by (simp add: table_of_def) (simp add: s1)
  have lp: "length (prdt_entry t) = 32" using n0 by (simp add: t_def clear_table_def)
  have pc: "pieces (header_of s1 p slot) (table_of s1 p slot) = map prd_piece (take (unat n) es)"
    unfolding h1 t1 by (simp add: pieces_def hd1_def)
  have two: "2 \<le> unat n" "unat n \<le> length es" using un m1 es(2) lp \<open>(unat c - 1) div 16 < 32\<close> by linarith+
  show "2 \<le> length (pieces (header_of s1 p slot) (table_of s1 p slot))" using two by (simp add: pc)
  show "pieces (header_of s1 p slot) (table_of s1 p slot) ! 0 = (buf, 8192)"
    using two es(3) [of 0] prd_piece_region [of 8191 buf] by (simp add: pc)
  show "fst (pieces (header_of s1 p slot) (table_of s1 p slot) ! 1) = buf + 0x8000"
  proof (cases "unat n = 2")
    case True
    then show ?thesis using two es(4) by (auto simp: pc)
  next
    case False
    then show ?thesis using two es(3) [of 1] by (simp add: pc)
  qed
  have "unat (16 * of_nat (unat n - 1) :: u32) = 16 * (unat n - 1)"
    using m \<open>(unat c - 1) div 16 < 32\<close> by (simp add: unat_word_ariths unsigned_of_nat take_bit_nat_eq_self)
  moreover have "16 * (unat n - 1) + (unat c - 1) mod 16 + 1 = unat c" using m assms(1) by simp
  ultimately have "unat (c - 16 * of_nat (unat n - 1)) = (unat c - 1) mod 16 + 1"
    by (subst unat_sub) (simp_all add: word_le_nat_alt)
  then show "fis_count (table_fis (table_of s1 p slot)) = (unat c - 1) mod 16 + 1"
    unfolding t1 using fis_count_data [of "c - 16 * of_nat (unat n - 1)" cmd a] by simp
qed

text \<open>a transfer of more than 16 sectors is not what was asked for: the command asks for the sectors of the last piece
  only, and the second piece of memory starts 32 KiB behind the first, which holds 8 KiB.\<close>

theorem long_transfer_wrong:
  assumes "16 < unat c" and "unat c \<le> 512" and "data_setup p buf slot w cmd a c s = Ok s1"
  shows "fis_count (table_fis (table_of s1 p slot)) = (unat c - 1) mod 16 + 1
    \<and> 2 \<le> length (pieces (header_of s1 p slot) (table_of s1 p slot))
    \<and> pieces (header_of s1 p slot) (table_of s1 p slot) ! 0 = (buf, 8192)
    \<and> fst (pieces (header_of s1 p slot) (table_of s1 p slot) ! 1) = buf + 0x8000"
  using long_transfer [OF assms] by simp

theorem long_transfer_wrong_witness:
  "\<exists>s1. data_setup 3 0x9000 0 False ATA_CMD_READ_DMA_EX 0 17 ahci_example = Ok s1 \<and> fis_count (table_fis (table_of s1 3 0)) = 1
    \<and> pieces (header_of s1 3 0) (table_of s1 3 0) ! 0 = (0x9000, 8192)"
proof -
  have n: "ucast (drop_bit 4 (17 - 1 :: u32)) + (1 :: u16) = 2" by simp
  have "\<exists>s1. data_setup 3 0x9000 0 False ATA_CMD_READ_DMA_EX 0 17 ahci_example = Ok s1"
    unfolding data_setup_def Let_def n using fill_prdt_Ok [of 0 1 "replicate 31 no_prdt @ [no_prdt]" "0x9000" 17]
    by (auto simp: clear_table_def)
  then obtain s1 where s1: "data_setup 3 0x9000 0 False ATA_CMD_READ_DMA_EX 0 17 ahci_example = Ok s1" by blast
  from long_transfer_wrong [OF _ _ s1] s1 show ?thesis by auto
qed

section \<open>Probing\<close>

definition disk_port :: "ahci \<Rightarrow> nat \<Rightarrow> bool" where
  "disk_port s i \<longleftrightarrow> bit (ports_implemented s) i \<and> check_port_type (hba_ports s i) \<in> {PORT_TYPE_SATA, PORT_TYPE_SATAPI}"

lemma probe_from_finds:
  "unat (port_count s) + n \<le> length (ahci_ports s) \<Longrightarrow> length (ahci_ports s) = 32 \<Longrightarrow>
   \<exists>s'. probe_from n i s = Ok s' \<and> length (ahci_ports s') = 32 \<and> unat (port_count s') \<le> unat (port_count s) + n
     \<and> map ap_port (take (unat (port_count s')) (ahci_ports s'))
       = map ap_port (take (unat (port_count s)) (ahci_ports s)) @ map Some (filter (disk_port s) [i..<i + n])"
proof (induction n arbitrary: i s)
  case (Suc n)
  let ?c = "unat (port_count s)"
  have c: "?c < length (ahci_ports s)" using Suc.prems(1) by simp
  define s1 where "s1 = (if disk_port s i then s\<lparr>ahci_ports := (ahci_ports s)[?c := (ahci_ports s ! ?c)\<lparr>ap_type := check_port_type (hba_ports s i),
    ap_port := Some i, ap_number := port_count s\<rparr>], port_count := port_count s + 1\<rparr> else s)"
  have p: "probe_port i s = Ok s1" using c by (auto simp: probe_port_def disk_port_def Let_def s1_def)
  have c1: "unat (port_count s + 1) = ?c + 1" using c Suc.prems(2) by (simp add: unat_word_ariths)
  have d: "disk_port s1 = disk_port s" by (simp add: s1_def disk_port_def fun_eq_iff)
  have t: "map ap_port (take (unat (port_count s1)) (ahci_ports s1))
      = map ap_port (take ?c (ahci_ports s)) @ (if disk_port s i then [Some i] else [])"
    using c by (simp add: s1_def c1 take_Suc_conv_app_nth)
  have le: "unat (port_count s1) \<le> ?c + 1" by (simp add: s1_def c1)
  have l1: "length (ahci_ports s1) = 32" using Suc.prems(2) by (simp add: s1_def)
  have pre: "unat (port_count s1) + n \<le> length (ahci_ports s1)" using le l1 Suc.prems by simp
  obtain s' where "probe_from n (i + 1) s1 = Ok s'" "length (ahci_ports s') = 32" "unat (port_count s') \<le> unat (port_count s1) + n"
    "map ap_port (take (unat (port_count s')) (ahci_ports s'))
      = map ap_port (take (unat (port_count s1)) (ahci_ports s1)) @ map Some (filter (disk_port s1) [i + 1..<i + 1 + n])"
    using Suc.IH [OF pre l1] by blast
  moreover have "[i..<i + Suc n] = i # [i + 1..<i + 1 + n]" by (simp add: upt_rec)
  ultimately show ?case using le by (auto simp: p t d)
qed simp

text \<open>probing an untouched driver finds the ports with a disk, each once and in the order of the controller.\<close>

theorem probe_ports_finds:
  assumes "port_count s = 0" and "length (ahci_ports s) = 32"
  shows "\<exists>s'. probe_ports s = Ok s' \<and> map ap_port (take (unat (port_count s')) (ahci_ports s')) = map Some (filter (disk_port s) [0..<32])"
  using probe_from_finds [of s 32 0] assms by (auto simp: probe_ports_def)

theorem probe_ports_finds_witness:
  "\<exists>s'. probe_ports (ahci_example\<lparr>port_count := 0, ahci_ports := replicate 32 \<lparr>ap_port = None, ap_type = PORT_TYPE_NONE, ap_buffer = 0, ap_number = 0\<rparr>\<rparr>) = Ok s'
    \<and> map ap_port (take (unat (port_count s')) (ahci_ports s')) = [Some 3]"
proof -
  let ?s = "ahci_example\<lparr>port_count := 0, ahci_ports := replicate 32 \<lparr>ap_port = None, ap_type = PORT_TYPE_NONE, ap_buffer = 0, ap_number = 0\<rparr>\<rparr>"
  have "disk_port ?s = (\<lambda>i. i = 3)"
    by (auto simp: fun_eq_iff disk_port_def ahci_example_def check_port_type_def idle_port_def Let_def bit_simps simp del: push_bit_of_1)
  moreover have "filter (\<lambda>i. i = 3) [0..<32] = [3 :: nat]" by (simp add: upt_rec)
  ultimately show ?thesis using probe_ports_finds [of ?s] by simp
qed

end
