(* ===== verification/Loader.thy ===== *)
theory Loader
  imports Paging Bytes
begin

text \<open>The loader of programs (\<open>proc/loader.c\<close>): it reads the headers of an ELF file, and for each segment asks for pages,
  maps them into the tables of the new task and copies the file into them. Creating the task and handing it to the
  scheduler are arguments. The layout of the headers is that of the system's \<open>elf.h\<close>. \<open>elf_readelf\<close>, which prints, is
  left out.\<close>

section \<open>Headers\<close>

record Elf64_Ehdr =
  e_class :: u8
  e_type :: u16
  e_entry :: u64
  e_phoff :: u64
  e_phnum :: u16

record Elf64_Phdr =
  p_type :: u32
  p_flags :: u32
  p_offset :: u64
  p_vaddr :: u64
  p_filesz :: u64
  p_memsz :: u64

definition ELFMAG :: "u8 list" where "ELFMAG = [0x7F, 0x45, 0x4C, 0x46]"
abbreviation "ELFCLASS32 \<equiv> (1 :: u8)"
abbreviation "ET_EXEC \<equiv> (2 :: u16)"
abbreviation "ET_DYN \<equiv> (3 :: u16)"
abbreviation "PT_LOAD \<equiv> (1 :: u32)"

definition parse_elf_file :: "u8 list \<Rightarrow> bool result" where
  "parse_elf_file buffer = rbind (memcmp buffer ELFMAG 4) (\<lambda>c. Ok (c = 0))"

definition elf_header :: "u8 list \<Rightarrow> Elf64_Ehdr result" where
  "elf_header b = rbind (rd b 4) (\<lambda>cl. rbind (get16 b 16) (\<lambda>ty. rbind (get64 b 24) (\<lambda>en. rbind (get64 b 32) (\<lambda>ph. rbind (get16 b 56) (\<lambda>n.
     Ok \<lparr>e_class = cl, e_type = ty, e_entry = en, e_phoff = ph, e_phnum = n\<rparr>)))))"

definition program_header :: "u8 list \<Rightarrow> Elf64_Ehdr \<Rightarrow> nat \<Rightarrow> Elf64_Phdr result" where
  "program_header b h i = (let o1 = unat (e_phoff h) + 56 * i in
     rbind (get32 b o1) (\<lambda>ty. rbind (get32 b (o1 + 4)) (\<lambda>fl. rbind (get64 b (o1 + 8)) (\<lambda>off. rbind (get64 b (o1 + 16)) (\<lambda>va.
     rbind (get64 b (o1 + 32)) (\<lambda>fs. rbind (get64 b (o1 + 40)) (\<lambda>ms.
     Ok \<lparr>p_type = ty, p_flags = fl, p_offset = off, p_vaddr = va, p_filesz = fs, p_memsz = ms\<rparr>)))))))"

section \<open>Segments\<close>

text \<open>The words of a page that holds the bytes \<open>bs\<close>.\<close>

definition page_words :: "u8 list \<Rightarrow> nat \<Rightarrow> u64" where
  "page_words bs = (\<lambda>i. le_value (take 8 (drop (8 * i) bs)))"

definition write_page :: "('m, 'z) vm_scheme \<Rightarrow> u64 \<Rightarrow> u8 list \<Rightarrow> ('m, 'z) vm_scheme result" where
  "write_page s p bs = rbind (ptr_frame p) (\<lambda>f. Ok (s\<lparr>pmem := (pmem s)(f := page_words bs)\<rparr>))"

text \<open>\<open>PAGE_USER_BIT\<close> is 2, \<open>PAGE_WRITE_BIT\<close> 1, \<open>PAGE_NX_BIT\<close> 4; \<open>PF_W\<close> is 2 and \<open>PF_X\<close> 1.\<close>

definition segment_perms :: "Elf64_Phdr \<Rightarrow> u8" where
  "segment_perms ph = 2 OR (if p_flags ph AND 2 \<noteq> 0 then 1 else 0) OR (if p_flags ph AND 1 = 0 then 4 else 0)"

definition segment_pages :: "Elf64_Phdr \<Rightarrow> u64" where
  "segment_pages ph = (let total_size = p_memsz ph + (p_vaddr ph AND 0xfff) in
     total_size div 0x1000 + (if total_size mod 0x1000 \<noteq> 0 then 1 else 0))"

text \<open>The buffer with the whole segment; \<open>kmalloc\<close> is taken to succeed. Copying more than the buffer holds is a fault.\<close>

definition complete_buffer :: "Elf64_Phdr \<Rightarrow> u8 list \<Rightarrow> u8 list result" where
  "complete_buffer ph file = (if length file < unat (p_offset ph) + unat (p_filesz ph) then Err Fault
     else put_bytes (replicate (unat (segment_pages ph * 0x1000)) 0) (unat (p_vaddr ph AND 0xfff))
       (take (unat (p_filesz ph)) (drop (unat (p_offset ph)) file)))"

definition load_page :: "kvm \<Rightarrow> u64 \<Rightarrow> u64 \<Rightarrow> u8 \<Rightarrow> u8 list \<Rightarrow> kvm result" where
  "load_page s pml4 v perms bs = rbind (request_page (alloc s)) (\<lambda>(p, m). let s = s\<lparr>alloc := m\<rparr> in
     rbind (virtual_to_physical s (get_pml4 s) (TO_KERNEL_MAP p)) (\<lambda>physical.
     rbind (map_memory s pml4 v physical perms) (\<lambda>s. write_page s (TO_KERNEL_MAP p) bs)))"

fun load_pages :: "kvm \<Rightarrow> u64 \<Rightarrow> u64 \<Rightarrow> u8 \<Rightarrow> u8 list \<Rightarrow> nat \<Rightarrow> nat \<Rightarrow> kvm result" where
  "load_pages s pml4 vaddr perms buf i 0 = Ok s"
| "load_pages s pml4 vaddr perms buf i (Suc n) =
     rbind (load_page s pml4 (vaddr + of_nat i * 0x1000) perms (take 4096 (drop (4096 * i) buf))) (\<lambda>s.
     load_pages s pml4 vaddr perms buf (i + 1) n)"

definition allocate_segment :: "kvm \<Rightarrow> u64 \<Rightarrow> Elf64_Phdr \<Rightarrow> u8 list \<Rightarrow> kvm result" where
  "allocate_segment s pd ph file = (if p_type ph \<noteq> PT_LOAD then Ok s else
     rbind (complete_buffer ph file) (\<lambda>buf.
     load_pages s (TO_KERNEL_MAP pd) (p_vaddr ph AND NOT 0xfff) (segment_perms ph) buf 0 (unat (segment_pages ph))))"

section \<open>Programs\<close>

fun load_segments :: "kvm \<Rightarrow> u64 \<Rightarrow> u8 list \<Rightarrow> Elf64_Ehdr \<Rightarrow> nat \<Rightarrow> nat \<Rightarrow> kvm result" where
  "load_segments s pd file h i 0 = Ok s"
| "load_segments s pd file h i (Suc n) = rbind (program_header file h i) (\<lambda>ph.
     rbind (if p_type ph = PT_LOAD then allocate_segment s pd ph file else Ok s) (\<lambda>s. load_segments s pd file h (i + 1) n))"

text \<open>\<open>create entry s\<close> is \<open>create_task\<close>: the physical address of the tables of the new task, or none. The result is the
  value of \<open>elf_load_elf\<close>, none when it reaches its end without one, and the task that was added.\<close>

definition start_program :: "(u64 \<Rightarrow> kvm \<Rightarrow> (u64 option \<times> kvm) result) \<Rightarrow> kvm \<Rightarrow> u8 list \<Rightarrow> Elf64_Ehdr \<Rightarrow> (u8 option \<times> u64 option \<times> kvm) result" where
  "start_program create s file h = rbind (create (e_entry h) s) (\<lambda>(t, s). case t of None \<Rightarrow> Ok (Some 0, None, s) | Some pd \<Rightarrow>
     rbind (load_segments s pd file h 0 (unat (e_phnum h))) (\<lambda>s.
     rbind (is_present s (TO_KERNEL_MAP pd) (e_entry h)) (\<lambda>a. if a = 0 then Ok (Some 0, None, s) else
     rbind (is_user_access s (TO_KERNEL_MAP pd) (e_entry h)) (\<lambda>a. if a = 0 then Ok (Some 0, None, s) else
     rbind (is_executable s (TO_KERNEL_MAP pd) (e_entry h)) (\<lambda>a. if \<not> a then Ok (Some 0, None, s) else
     Ok (Some 1, Some pd, s))))))"

definition holds_entry :: "Elf64_Ehdr \<Rightarrow> Elf64_Phdr \<Rightarrow> bool" where
  "holds_entry h ph \<longleftrightarrow> p_type ph = PT_LOAD \<and> p_vaddr ph \<le> e_entry h \<and> e_entry h < p_vaddr ph + p_memsz ph"

fun find_entry_segment :: "u8 list \<Rightarrow> Elf64_Ehdr \<Rightarrow> nat \<Rightarrow> nat \<Rightarrow> bool result" where
  "find_entry_segment file h i 0 = Ok False"
| "find_entry_segment file h i (Suc n) = rbind (program_header file h i) (\<lambda>ph.
     if holds_entry h ph then Ok True else find_entry_segment file h (i + 1) n)"

definition elf_load_elf :: "(u64 \<Rightarrow> kvm \<Rightarrow> (u64 option \<times> kvm) result) \<Rightarrow> kvm \<Rightarrow> u8 list \<Rightarrow> (u8 option \<times> u64 option \<times> kvm) result" where
  "elf_load_elf create s file = rbind (parse_elf_file file) (\<lambda>ok. if \<not> ok then Ok (Some 0, None, s) else
     rbind (elf_header file) (\<lambda>h.
     if e_class h = ELFCLASS32 then Ok (Some 0, None, s)
     else if e_type h = ET_DYN then Ok (Some 0, None, s)
     else if e_type h \<noteq> ET_EXEC then Ok (Some 0, None, s)
     else rbind (find_entry_segment file h 0 (unat (e_phnum h))) (\<lambda>found.
       if found then start_program create s file h else Ok (None, None, s))))"

section \<open>Bytes of frames\<close>

definition frame_byte :: "('m, 'z) vm_scheme \<Rightarrow> u64 \<Rightarrow> nat \<Rightarrow> u8" where
  "frame_byte s f j = ucast (drop_bit (8 * (j mod 8)) (pmem s f (j div 8)))"

text \<open>The byte a program reads at an address, under the tables with root \<open>r\<close>.\<close>

definition byte_at :: "('m, 'z) vm_scheme \<Rightarrow> u64 \<Rightarrow> u64 \<Rightarrow> u8 option" where
  "byte_at s r v = map_option (\<lambda>f. frame_byte s f (unat (v AND 0xfff))) (translate s r v)"

lemma bit_le_value:
  "length bs \<le> 8 \<Longrightarrow> bit (le_value bs) n \<longleftrightarrow> n div 8 < length bs \<and> bit (bs ! (n div 8)) (n mod 8)"
proof (induction bs arbitrary: n)
  case (Cons b bs)
  show ?case
  proof (cases "n < 8")
    case True
    then show ?thesis by (auto simp: bit_simps dest: bit_imp_le_length)
  next
    case False
    then obtain m where n: "n = m + 8" by (metis add.commute le_Suc_ex not_less)
    have "\<not> bit b (m + 8)" by (auto dest: bit_imp_le_length)
    moreover have "m div 8 < length bs \<Longrightarrow> m + 8 < 64" using Cons.prems by simp
    moreover have "(m + 8) div 8 = Suc (m div 8)" "(m + 8) mod 8 = m mod 8" by simp_all
    ultimately show ?thesis using Cons.IH [of m] Cons.prems by (auto simp: n bit_simps)
  qed
qed simp

lemma le_value_byte:
  assumes "k < length bs" and "length bs \<le> 8"
  shows "ucast (drop_bit (8 * k) (le_value bs)) = bs ! k"
proof (rule bit_word_eqI)
  fix n :: nat assume "n < LENGTH(8)"
  hence n: "n < 8" by simp
  have "(8 * k + n) div 8 = k" "(8 * k + n) mod 8 = n" using n by simp_all
  then show "bit (ucast (drop_bit (8 * k) (le_value bs)) :: u8) n = bit (bs ! k) n"
    using assms n by (simp add: bit_simps bit_le_value)
qed

lemma frame_byte_page:
  assumes "pmem s f = page_words bs" and "j < length bs"
  shows "frame_byte s f j = bs ! j"
proof -
  have j: "8 * (j div 8) + j mod 8 = j" by simp
  hence m: "j mod 8 < length bs - 8 * (j div 8)" using assms(2) by linarith
  have "frame_byte s f j = take 8 (drop (8 * (j div 8)) bs) ! (j mod 8)"
    unfolding frame_byte_def assms(1) page_words_def by (rule le_value_byte) (use m in auto)
  also have "\<dots> = bs ! j" using m j by simp
  finally show ?thesis .
qed

section \<open>Addresses of pages\<close>

lemma mask_9: "(0x1ff :: u64) = mask 9" and mask_12: "(0xfff :: u64) = mask 12"
  by (simp_all add: mask_eq_exp_minus_1)

lemma bit_index:
  "bit (P_i (address_to_map v)) n \<longleftrightarrow> n < 9 \<and> bit v (n + 12)" "bit (PT_i (address_to_map v)) n \<longleftrightarrow> n < 9 \<and> bit v (n + 21)"
  "bit (PD_i (address_to_map v)) n \<longleftrightarrow> n < 9 \<and> bit v (n + 30)" "bit (PDP_i (address_to_map v)) n \<longleftrightarrow> n < 9 \<and> bit v (n + 39)"
  by (auto simp: address_to_map_def Let_def mask_9 bit_simps ac_simps)

text \<open>The indices of an address are its bits 12 to 47.\<close>

lemma indices_bits: "indices a = indices b \<longleftrightarrow> (\<forall>n. 12 \<le> n \<and> n < 48 \<longrightarrow> bit a n = bit b n)"
proof
  assume e: "indices a = indices b"
  show "\<forall>n. 12 \<le> n \<and> n < 48 \<longrightarrow> bit a n = bit b n"
  proof (intro allI impI)
    fix n :: nat assume n: "12 \<le> n \<and> n < 48"
    consider "n < 21" | "21 \<le> n" "n < 30" | "30 \<le> n" "n < 39" | "39 \<le> n" by linarith
    then show "bit a n = bit b n"
    proof cases
      case 1
      have "bit (P_i (address_to_map a)) (n - 12) = bit (P_i (address_to_map b)) (n - 12)" using e by (simp add: indices_def Let_def)
      moreover have "n - 12 < 9" "n - 12 + 12 = n" using n 1 by auto
      ultimately show ?thesis by (simp add: bit_index)
    next
      case 2
      have "bit (PT_i (address_to_map a)) (n - 21) = bit (PT_i (address_to_map b)) (n - 21)" using e by (simp add: indices_def Let_def)
      moreover have "n - 21 < 9" "n - 21 + 21 = n" using n 2 by auto
      ultimately show ?thesis by (simp add: bit_index)
    next
      case 3
      have "bit (PD_i (address_to_map a)) (n - 30) = bit (PD_i (address_to_map b)) (n - 30)" using e by (simp add: indices_def Let_def)
      moreover have "n - 30 < 9" "n - 30 + 30 = n" using n 3 by auto
      ultimately show ?thesis by (simp add: bit_index)
    next
      case 4
      have "bit (PDP_i (address_to_map a)) (n - 39) = bit (PDP_i (address_to_map b)) (n - 39)" using e by (simp add: indices_def Let_def)
      moreover have "n - 39 < 9" "n - 39 + 39 = n" using n 4 by auto
      ultimately show ?thesis by (simp add: bit_index)
    qed
  qed
next
  assume "\<forall>n. 12 \<le> n \<and> n < 48 \<longrightarrow> bit a n = bit b n"
  hence b: "12 \<le> n \<Longrightarrow> n < 48 \<Longrightarrow> bit a n = bit b n" for n by simp
  have "P_i (address_to_map a) = P_i (address_to_map b)" by (rule bit_eqI) (simp add: bit_index b cong: conj_cong)
  moreover have "PT_i (address_to_map a) = PT_i (address_to_map b)" by (rule bit_eqI) (simp add: bit_index b cong: conj_cong)
  moreover have "PD_i (address_to_map a) = PD_i (address_to_map b)" by (rule bit_eqI) (simp add: bit_index b cong: conj_cong)
  moreover have "PDP_i (address_to_map a) = PDP_i (address_to_map b)" by (rule bit_eqI) (simp add: bit_index b cong: conj_cong)
  ultimately show "indices a = indices b" by (simp add: indices_def Let_def)
qed

lemma indices_page: "indices (v AND NOT 0xfff) = indices v"
  by (simp add: indices_bits mask_12 bit_simps)

lemma aligned_page: "(v AND NOT 0xfff) AND 0xfff = (0 :: u64)"
  by (rule bit_word_eqI) (simp add: mask_12 bit_simps)

lemma indices_inj:
  assumes "a AND 0xfff = (0 :: u64)" and "b AND 0xfff = 0" and "a < 2 ^ 48" and "b < 2 ^ 48" and "indices a = indices b"
  shows "a = b"
proof (rule bit_word_eqI)
  fix n :: nat
  have "bit (a AND 0xfff) n \<longleftrightarrow> bit (b AND 0xfff) n" using assms(1,2) by simp
  hence low: "bit a n = bit b n" if "n < 12" using that by (simp add: mask_12 bit_simps)
  have high: "\<not> bit a n \<and> \<not> bit b n" if "48 \<le> n" using that assms(3,4) less_bits [of 48 a] less_bits [of 48 b] by auto
  show "bit a n = bit b n" using low high assms(5) unfolding indices_bits by (metis not_less)
qed

text \<open>The kernel's window is in the upper half of the addresses.\<close>

lemma kernel_bit_47: "a < 2 ^ 40 \<Longrightarrow> bit (TO_KERNEL_MAP a) 47"
proof -
  assume a: "a < 2 ^ 40"
  have "unat (TO_KERNEL_MAP a) = unat a + unat IDENTITY_MAP_START"
    using a unfolding TO_KERNEL_MAP_def by (intro unat_add_small) (simp add: word_less_nat_alt)
  moreover have "unat a < 2 ^ 40" using a by (simp add: word_less_nat_alt)
  ultimately have "unat (TO_KERNEL_MAP a) div 2 ^ 47 = 131071" by (intro div_nat_eqI) simp_all
  hence "bit (unat (TO_KERNEL_MAP a)) 47" unfolding bit_iff_odd by simp
  then show ?thesis by (simp only: bit_unsigned_iff)
qed

lemma kernel_not_user: "a < 2 ^ 40 \<Longrightarrow> v < 2 ^ 47 \<Longrightarrow> indices (TO_KERNEL_MAP a) \<noteq> indices v"
  using kernel_bit_47 [of a] less_bits [of 47 v] unfolding indices_bits by force

section \<open>The kernel's window\<close>

text \<open>Under the current tables every frame that is free is found at its place in the kernel's window. The tables on the
  way there are not tables of the task with root \<open>r\<close>, except that the last one may be shared with them, which is
  how \<open>duplicate_current_kernel_pml4\<close> leaves them.\<close>

definition window_tables :: "kvm \<Rightarrow> u64 \<Rightarrow> (u64 \<Rightarrow> nat) \<Rightarrow> u64 \<Rightarrow> u64 \<times> u64 \<times> u64 \<times> u64 \<Rightarrow> bool" where
  "window_tables s r lev f = (\<lambda>(k, g1, g2, pt). let w = TO_KERNEL_MAP (push_bit 12 f); i = address_to_map w in
     ptr_frame (get_pml4 s) = Ok k \<and> child s k (PDP_i i) = Some g1 \<and> child s g1 (PD_i i) = Some g2 \<and> child s g2 (PT_i i) = Some pt
     \<and> child s pt (P_i i) = Some f \<and> (\<forall>t \<in> {k, g1, g2}. frame_taken (alloc s) t \<and> lev t = 0)
     \<and> frame_taken (alloc s) pt \<and> (lev pt = 0 \<or> walk s r (upper w) = Some pt))"

definition kernel_window :: "kvm \<Rightarrow> u64 \<Rightarrow> (u64 \<Rightarrow> nat) \<Rightarrow> bool" where
  "kernel_window s r lev \<longleftrightarrow> (\<forall>f. \<not> frame_taken (alloc s) f \<longrightarrow> (\<exists>t. window_tables s r lev f t))"

lemma window_translates:
  assumes "window_tables s r lev f (k, g1, g2, pt)"
  shows "virtual_to_physical s (get_pml4 s) (TO_KERNEL_MAP (push_bit 12 f)) = Ok (push_bit 12 f)"
proof -
  let ?i = "address_to_map (TO_KERNEL_MAP (push_bit 12 f))"
  have "ptr_frame (get_pml4 s) = Ok k" using assms by (simp add: window_tables_def Let_def)
  moreover have "translate s k (TO_KERNEL_MAP (push_bit 12 f)) = Some f"
    using assms by (simp add: window_tables_def Let_def translate_def indices_def)
  ultimately show ?thesis by (simp add: virtual_to_physical_translate)
qed

lemma free_frame_less: "pmm_ok m \<Longrightarrow> \<not> frame_taken m f \<Longrightarrow> f < 2 ^ 28"
proof -
  assume ok: "pmm_ok m" and "\<not> frame_taken m f"
  then obtain q where q: "q \<le> npages m" "f = drop_bit 12 (first_available_page_addr m + PAGESIZE * word_of_nat q)"
    by (auto simp: frame_taken_def)
  have "unat (first_available_page_addr m + PAGESIZE * word_of_nat q) < 2 ^ 40"
    unfolding page_address [OF ok q(1)] using ok q(1) by (simp add: pmm_ok_def)
  hence "first_available_page_addr m + PAGESIZE * word_of_nat q < 2 ^ 40" by (simp add: word_less_nat_alt)
  then show ?thesis unfolding q(2) by (rule frame_less)
qed

text \<open>The tables of the window survive a change that keeps the frames that were taken and hold no table, the upper
  walks, and every translation of the window.\<close>

lemma window_kept:
  assumes w: "window_tables s r lev f (k, g1, g2, pt)" and cr: "cr3 s' = cr3 s"
    and tk: "\<And>h. frame_taken (alloc s) h \<Longrightarrow> frame_taken (alloc s') h"
    and data: "\<And>h. frame_taken (alloc s) h \<Longrightarrow> lev h = 0 \<Longrightarrow> pmem s' h = pmem s h \<and> lev' h = 0"
    and up: "\<And>u g. walk s r (upper u) = Some g \<Longrightarrow> walk s' r (upper u) = Some g"
    and tr: "translate s' r (TO_KERNEL_MAP (push_bit 12 f)) = translate s r (TO_KERNEL_MAP (push_bit 12 f))"
  shows "window_tables s' r lev' f (k, g1, g2, pt)"
proof -
  let ?w = "TO_KERNEL_MAP (push_bit 12 f)"
  have same: "child s' h i = child s h i" if "frame_taken (alloc s) h" "lev h = 0" for h i
    using data [OF that] by (simp add: child_def ent_def)
  have leaf: "child s' pt (P_i (address_to_map ?w)) = child s pt (P_i (address_to_map ?w))"
  proof (cases "lev pt = 0")
    case True
    then show ?thesis using w by (intro same) (simp_all add: window_tables_def Let_def)
  next
    case False
    hence u: "walk s r (upper ?w) = Some pt" using w by (simp add: window_tables_def Let_def)
    with tr up [OF u] show ?thesis
      by (simp add: translate_def upper_props(1) walk_append split: option.splits)
  qed
  have "lev' pt = 0 \<or> walk s' r (upper ?w) = Some pt"
    using w data [of pt] up by (auto simp: window_tables_def Let_def)
  then show ?thesis
    using w data tk same leaf by (simp add: window_tables_def Let_def get_pml4_def cr)
qed

section \<open>Writing data\<close>

text \<open>Writing a frame that holds no table of the task changes no walk.\<close>

definition put_frame :: "kvm \<Rightarrow> u64 \<Rightarrow> (nat \<Rightarrow> u64) \<Rightarrow> kvm" where
  "put_frame s g x = s\<lparr>pmem := (pmem s)(g := x)\<rparr>"

lemma put_frame_fields [simp]: "alloc (put_frame s g x) = alloc s" "cr3 (put_frame s g x) = cr3 s"
  "pmem (put_frame s g x) = (pmem s)(g := x)"
  by (simp_all add: put_frame_def)

lemma child_put_frame: "h \<noteq> g \<Longrightarrow> child (put_frame s g x) h i = child s h i"
  by (simp add: child_def ent_def)

lemma walk_put_frame:
  assumes wf: "tables_wf s r lev" and g: "lev g = 0"
  shows "length is \<le> lev f \<Longrightarrow> \<forall>j \<in> set is. j < 512 \<Longrightarrow> walk (put_frame s g x) f is = walk s f is"
proof (induction "is" arbitrary: f)
  case (Cons i "is")
  have fg: "f \<noteq> g" using Cons.prems g by auto
  show ?case
  proof (cases "child s f i")
    case None
    then show ?thesis using child_put_frame [OF fg] by simp
  next
    case (Some h)
    have "walk (put_frame s g x) h is = walk s h is"
    proof (cases "is")
      case (Cons a as)
      hence "1 < lev f" using Cons.prems by simp
      hence "Suc (lev h) = lev f" using Cons.prems by (intro tables_wf_level [OF wf Some]) auto
      then show ?thesis using Cons.prems by (intro Cons.IH) auto
    qed simp
    then show ?thesis using Some child_put_frame [OF fg] by simp
  qed
qed simp

lemma tables_wf_put_frame:
  assumes wf: "tables_wf s r lev" and g: "lev g = 0"
  shows "tables_wf (put_frame s g x) r lev"
proof -
  have c: "1 < lev h \<Longrightarrow> child (put_frame s g x) h i = child s h i" for h i using g by (intro child_put_frame) auto
  show ?thesis using wf unfolding tables_wf_def by (simp add: c cong: imp_cong)
qed

section \<open>Loading a page\<close>

definition loader_inv :: "kvm \<Rightarrow> u64 \<Rightarrow> (u64 \<Rightarrow> nat) \<Rightarrow> bool" where
  "loader_inv s r lev \<longleftrightarrow> kvm_inv s r lev \<and> kernel_window s r lev"

text \<open>What later steps keep: the frames that are taken, and the contents of those that hold no table.\<close>

definition keeps :: "kvm \<Rightarrow> (u64 \<Rightarrow> nat) \<Rightarrow> kvm \<Rightarrow> (u64 \<Rightarrow> nat) \<Rightarrow> bool" where
  "keeps s lev s' lev' \<longleftrightarrow> (\<forall>h. frame_taken (alloc s) h \<longrightarrow> frame_taken (alloc s') h
     \<and> (lev h = 0 \<longrightarrow> pmem s' h = pmem s h \<and> lev' h = 0))"

lemma loader_keeps_refl: "keeps s lev s lev" by (simp add: keeps_def)
lemma loader_keeps_trans: "keeps s lev s1 lev1 \<Longrightarrow> keeps s1 lev1 s2 lev2 \<Longrightarrow> keeps s lev s2 lev2" by (simp add: keeps_def)

lemma load_page_step:
  assumes inv: "loader_inv s r lev" and r: "ptr_frame pml4 = Ok r" and v: "v AND 0xfff = 0" "v < 2 ^ 47"
    and av: "n + 4 \<le> free_frames (alloc s)"
  obtains s' lev' g where "load_page s pml4 v perms bs = Ok s'" and "loader_inv s' r lev'" and "n \<le> free_frames (alloc s')"
    and "keeps s lev s' lev'" and "frame_taken (alloc s') g" and "lev' g = 0" and "pmem s' g = page_words bs"
    and "\<And>w. translate s' r w = (if indices w = indices v then Some g else translate s r w)"
proof -
  have kv: "kvm_inv s r lev" and kw: "kernel_window s r lev" using inv by (simp_all add: loader_inv_def)
  have I: "pmm_ok (alloc s)" and tk: "\<And>f. 0 < lev f \<Longrightarrow> frame_taken (alloc s) f" using kv by (simp_all add: vm_inv_def)
  obtain p m where req: "request_page (alloc s) = Ok (p, m)" and am: "free_frames (alloc s) \<le> Suc (free_frames m)"
    using pm.req_avail [OF I] av by auto
  let ?g = "drop_bit 12 p" and ?s = "s\<lparr>alloc := m\<rparr>"
  have p: "pmm_ok m" "IS_ALIGNED p" "p < 2 ^ 40" "\<not> frame_taken (alloc s) ?g"
    "\<And>h. frame_taken m h \<longleftrightarrow> frame_taken (alloc s) h \<or> h = ?g"
    using pm.req_Ok [OF I req] by auto
  have pp: "push_bit 12 ?g = p" by (rule aligned_split [OF p(2)])
  have lg: "lev ?g = 0" using tk p(4) by (metis neq0_conv)
  obtain k g1 g2 pt where win: "window_tables s r lev ?g (k, g1, g2, pt)" using kw p(4) by (metis kernel_window_def prod_cases4)
  have win1: "window_tables ?s r lev ?g (k, g1, g2, pt)"
    by (rule window_kept [OF win]) (simp_all add: p(5) translate_def)
  have phys: "virtual_to_physical ?s (get_pml4 ?s) (TO_KERNEL_MAP p) = Ok p" using window_translates [OF win1] by (simp add: pp)
  have inv1: "kvm_inv ?s r lev" using kv p(1,5) by (simp add: vm_inv_def)
  have al: "p AND 0xfff = 0" using p(2) unfolding take_bit_12_aligned mask_12 take_bit_eq_mask .
  have av1: "n + 3 \<le> free_frames (alloc ?s)" using av am by simp
  obtain s2 lev2 where s2: "map_with request_page TO_KERNEL_MAP ?s pml4 v p perms = Ok s2" "kvm_inv s2 r lev2"
    "\<And>w. translate s2 r w = (if indices w = indices v then Some (take_bit 28 (drop_bit 12 p)) else translate ?s r w)"
    "cr3 s2 = cr3 ?s" "n \<le> free_frames (alloc s2)" "\<And>h. frame_taken (alloc ?s) h \<Longrightarrow> frame_taken (alloc s2) h"
    "\<And>h. frame_taken (alloc ?s) h \<Longrightarrow> lev h = 0 \<Longrightarrow> pmem s2 h = pmem ?s h \<and> lev2 h = 0"
    "\<And>w g. walk ?s r (upper w) = Some g \<Longrightarrow> walk s2 r (upper w) = Some g"
    by (rule pm.map_with_total [OF conv_ok_hh inv1 r v(1) al av1, where flags = perms]) (rule that)
  have l2: "lev2 ?g = 0" using s2(7) [of ?g] p(5) lg by simp
  let ?s3 = "put_frame s2 ?g (page_words bs)"
  have run: "load_page s pml4 v perms bs = Ok ?s3"
    using req phys s2(1) conv_okD [OF conv_ok_hh frame_less [OF p(3)]]
    by (simp add: load_page_def map_memory_def map_memory_hh_def write_page_def put_frame_def pp)
  have wf2: "tables_wf s2 r lev2" by (rule vm_inv_wf [OF s2(2)])
  have tr: "translate ?s3 r w = (if indices w = indices v then Some ?g else translate s r w)" for w
  proof -
    have "translate ?s3 r w = translate s2 r w"
      unfolding translate_def by (rule walk_put_frame [OF wf2 l2]) (simp_all add: tables_wf_root [OF wf2] indices_def Let_def)
    moreover have "translate ?s r w = translate s r w" by (simp add: translate_def)
    ultimately show ?thesis using s2(3) [of w] take_bit_28 [OF frame_less [OF p(3)]] by simp
  qed
  have inv3: "kvm_inv ?s3 r lev2" using s2(2) tables_wf_put_frame [OF wf2 l2] by (simp add: vm_inv_def)
  have keep: "keeps s lev ?s3 lev2" using s2(6,7) p(4,5) by (auto simp: keeps_def)
  have up: "walk ?s3 r (upper u) = Some g" if "walk s r (upper u) = Some g" for u g
    using walk_put_frame [OF wf2 l2, of "upper u" r "page_words bs"] s2(8) [of u g] that tables_wf_root [OF wf2]
    by (simp add: upper_props)
  have "kernel_window ?s3 r lev2"
    unfolding kernel_window_def
  proof (intro allI impI)
    fix f assume "\<not> frame_taken (alloc ?s3) f"
    hence f: "\<not> frame_taken (alloc s) f" using s2(6) p(5) by auto
    obtain k g1 g2 pt where w: "window_tables s r lev f (k, g1, g2, pt)" using kw f by (metis kernel_window_def prod_cases4)
    have "push_bit 12 f < 2 ^ 40" by (rule frame_pointer(1) [OF free_frame_less [OF I f]])
    hence "translate ?s3 r (TO_KERNEL_MAP (push_bit 12 f)) = translate s r (TO_KERNEL_MAP (push_bit 12 f))"
      using kernel_not_user [OF _ v(2)] tr by simp
    with w have "window_tables ?s3 r lev2 f (k, g1, g2, pt)"
      by (rule_tac window_kept [OF w]) (use keep s2(4) up in \<open>auto simp: keeps_def\<close>)
    then show "\<exists>t. window_tables ?s3 r lev2 f t" by blast
  qed
  with inv3 have "loader_inv ?s3 r lev2" by (simp add: loader_inv_def)
  then show thesis by (rule that [OF run _ _ keep _ l2 _ tr]) (use s2(5,6) p(5) in simp_all)
qed

lemma load_pages_loop:
  assumes r: "ptr_frame pml4 = Ok r" and v: "v AND 0xfff = 0"
  shows "loader_inv s r lev \<Longrightarrow> unat v + 4096 * (i + n) \<le> 2 ^ 47 \<Longrightarrow> 4 * n \<le> free_frames (alloc s) \<Longrightarrow>
    \<exists>s' lev'. load_pages s pml4 v perms buf i n = Ok s' \<and> loader_inv s' r lev' \<and> keeps s lev s' lev'
      \<and> (\<forall>j. i \<le> j \<and> j < i + n \<longrightarrow> (\<exists>g. translate s' r (v + of_nat j * 0x1000) = Some g
          \<and> pmem s' g = page_words (take 4096 (drop (4096 * j) buf))))
      \<and> (\<forall>w. (\<forall>j. i \<le> j \<and> j < i + n \<longrightarrow> indices w \<noteq> indices (v + of_nat j * 0x1000)) \<longrightarrow> translate s' r w = translate s r w)"
proof (induction n arbitrary: s lev i)
  case 0
  then show ?case using loader_keeps_refl by auto
next
  case (Suc n)
  let ?va = "\<lambda>j. v + of_nat j * 0x1000"
  have va: "unat (?va j) = unat v + 4096 * j" "?va j AND 0xfff = 0" "?va j < 2 ^ 47" if "j < i + Suc n" for j
  proof -
    have b: "unat v + 4096 * j < 2 ^ 47" using that Suc.prems(2) by simp
    have "unat (of_nat j :: u64) = j" using b by (intro unat_of_nat_u64) simp
    then show u: "unat (?va j) = unat v + 4096 * j" using b by (simp add: unat_word_ariths)
    have "IS_ALIGNED v" using v unfolding take_bit_12_aligned mask_12 take_bit_eq_mask .
    hence "IS_ALIGNED (?va j)" unfolding IS_ALIGNED_mod u by simp
    then show "?va j AND 0xfff = 0" unfolding take_bit_12_aligned mask_12 take_bit_eq_mask .
    show "?va j < 2 ^ 47" using u b by (simp add: word_less_nat_alt)
  qed
  have av: "4 * n + 4 \<le> free_frames (alloc s)" using Suc.prems(3) by simp
  have ii: "i < i + Suc n" by simp
  obtain s1 lev1 g where s1: "load_page s pml4 (?va i) perms (take 4096 (drop (4096 * i) buf)) = Ok s1" "loader_inv s1 r lev1"
    "4 * n \<le> free_frames (alloc s1)" "keeps s lev s1 lev1" "frame_taken (alloc s1) g" "lev1 g = 0"
    "pmem s1 g = page_words (take 4096 (drop (4096 * i) buf))"
    "\<And>w. translate s1 r w = (if indices w = indices (?va i) then Some g else translate s r w)"
    by (rule load_page_step [OF Suc.prems(1) r va(2,3) [OF ii] av, where perms = perms and bs = "take 4096 (drop (4096 * i) buf)"]) (rule that)
  have lim: "unat v + 4096 * (i + 1 + n) \<le> 2 ^ 47" using Suc.prems(2) by simp
  obtain s' lev' where s': "load_pages s1 pml4 v perms buf (i + 1) n = Ok s'" "loader_inv s' r lev'" "keeps s1 lev1 s' lev'"
    "\<And>j. i + 1 \<le> j \<Longrightarrow> j < i + 1 + n \<Longrightarrow> \<exists>g. translate s' r (?va j) = Some g \<and> pmem s' g = page_words (take 4096 (drop (4096 * j) buf))"
    "\<And>w. (\<forall>j. i + 1 \<le> j \<and> j < i + 1 + n \<longrightarrow> indices w \<noteq> indices (?va j)) \<Longrightarrow> translate s' r w = translate s1 r w"
    using Suc.IH [OF s1(2) lim s1(3)] by blast
  have ne: "indices (?va a) \<noteq> indices (?va b)" if "a < i + Suc n" "b < i + Suc n" "a \<noteq> b" for a b
  proof
    assume "indices (?va a) = indices (?va b)"
    have "?va a = ?va b" by (rule indices_inj [OF va(2) [OF that(1)] va(2) [OF that(2)]])
      (use va(3) [OF that(1)] va(3) [OF that(2)] \<open>indices (?va a) = indices (?va b)\<close> in \<open>auto simp: word_less_nat_alt\<close>)
    then show False using va(1) [OF that(1)] va(1) [OF that(2)] that(3) by simp
  qed
  have "translate s' r (?va i) = Some g" using s'(5) [of "?va i"] s1(8) [of "?va i"] ne [of i] by auto
  moreover have "pmem s' g = page_words (take 4096 (drop (4096 * i) buf))" using s'(3) s1(5-7) by (simp add: keeps_def)
  ultimately have pages: "\<exists>g. translate s' r (?va j) = Some g \<and> pmem s' g = page_words (take 4096 (drop (4096 * j) buf))"
    if "i \<le> j" "j < i + Suc n" for j using s'(4) [of j] that by (cases "j = i") auto
  have rest: "translate s' r w = translate s r w" if "\<forall>j. i \<le> j \<and> j < i + Suc n \<longrightarrow> indices w \<noteq> indices (?va j)" for w
    using s'(5) [of w] s1(8) [of w] that by simp
  show ?case using s1(1) s'(1,2) loader_keeps_trans [OF s1(4) s'(3)] pages rest by (intro exI [of _ s'] exI [of _ lev']) simp
qed

section \<open>Loading a segment\<close>

definition segment_byte :: "Elf64_Phdr \<Rightarrow> u8 list \<Rightarrow> nat \<Rightarrow> u8" where
  "segment_byte ph file k = (if k < unat (p_filesz ph) then file ! (unat (p_offset ph) + k) else 0)"

text \<open>The segment lies below the upper half, its data lies in the file and it has no more data than memory.\<close>

definition segment_ok :: "Elf64_Phdr \<Rightarrow> u8 list \<Rightarrow> bool" where
  "segment_ok ph file \<longleftrightarrow> p_type ph = PT_LOAD \<and> unat (p_vaddr ph) + unat (p_memsz ph) + 4096 \<le> 2 ^ 47
     \<and> p_filesz ph \<le> p_memsz ph \<and> unat (p_offset ph) + unat (p_filesz ph) \<le> length file"

lemma unat_low: "unat (x AND 0xfff :: u64) = unat x mod 4096"
  by (simp add: mask_12 unsigned_take_bit_eq take_bit_eq_mod unat_mod_distrib flip: take_bit_eq_mask)

lemma unat_floor: "unat (x AND NOT 0xfff :: u64) = 4096 * (unat x div 4096)"
proof -
  have "4096 * (unat x div 4096) \<le> unat x" "unat x < 2 ^ 64" by simp_all
  hence "4096 * (unat x div 4096) < 2 ^ 64" by linarith
  hence "unat (push_bit 12 (drop_bit 12 x)) = 4096 * (unat x div 4096)"
    by (simp add: push_bit_eq_mult unat_word_ariths unat_drop_12)
  then show ?thesis unfolding page_floor .
qed

lemma pages_enough: "t \<le> 4096 * (t div 4096 + (if t mod 4096 = 0 then 0 else 1))" "4096 * (t div 4096 + (if t mod 4096 = 0 then 0 else 1)) < t + 4096"
  for t :: nat
proof -
  obtain q m where t: "t = 4096 * q + m" and m: "m < 4096"
    using div_mult_mod_eq [of t 4096] by (metis mod_less_divisor mult.commute zero_less_numeral)
  have "t div 4096 = q" "t mod 4096 = m" using m by (simp_all add: t)
  then show "t \<le> 4096 * (t div 4096 + (if t mod 4096 = 0 then 0 else 1))" "4096 * (t div 4096 + (if t mod 4096 = 0 then 0 else 1)) < t + 4096"
    using m by (simp_all add: t)
qed

lemma segment_pages_unat:
  assumes "segment_ok ph file"
  shows "unat (p_memsz ph) + unat (p_vaddr ph) mod 4096 \<le> 4096 * unat (segment_pages ph)"
    and "unat (p_vaddr ph AND NOT 0xfff) + 4096 * unat (segment_pages ph) \<le> 2 ^ 47"
    and "unat (segment_pages ph * 0x1000) = 4096 * unat (segment_pages ph)"
proof -
  define t where "t = unat (p_memsz ph) + unat (p_vaddr ph) mod 4096"
  have le: "unat (p_vaddr ph) + unat (p_memsz ph) + 4096 \<le> 2 ^ 47" using assms by (simp add: segment_ok_def)
  have ut: "unat (p_memsz ph + (p_vaddr ph AND 0xfff)) = t"
    using le by (subst unat_add_small) (simp_all add: unat_low t_def, linarith?)
  have up: "unat (segment_pages ph) = t div 4096 + (if t mod 4096 = 0 then 0 else 1)"
  proof -
    have "unat ((p_memsz ph + (p_vaddr ph AND 0xfff)) div 0x1000) = t div 4096" by (simp add: unat_div_distrib ut)
    moreover have "(p_memsz ph + (p_vaddr ph AND 0xfff)) mod 0x1000 = 0 \<longleftrightarrow> t mod 4096 = 0"
      by (simp add: word_zero_iff_unat unat_mod_distrib ut)
    moreover have "t div 4096 + 1 < 2 ^ 64"
    proof -
      have "unat (p_vaddr ph) mod 4096 < 4096" "t div 4096 \<le> t" "(2 :: nat) ^ 47 < 2 ^ 64" by simp_all
      then show ?thesis using le unfolding t_def by linarith
    qed
    ultimately show ?thesis by (simp add: segment_pages_def Let_def unat_word_ariths)
  qed
  show "unat (p_memsz ph) + unat (p_vaddr ph) mod 4096 \<le> 4096 * unat (segment_pages ph)"
    unfolding up t_def [symmetric] by (rule pages_enough)
  have "4096 * unat (segment_pages ph) < t + 4096" unfolding up by (rule pages_enough)
  then show b: "unat (p_vaddr ph AND NOT 0xfff) + 4096 * unat (segment_pages ph) \<le> 2 ^ 47"
    using le div_mult_mod_eq [of "unat (p_vaddr ph)" 4096] unfolding unat_floor t_def by linarith
  then show "unat (segment_pages ph * 0x1000) = 4096 * unat (segment_pages ph)" by (simp add: unat_word_ariths)
qed

text \<open>The buffer holds the segment from the offset of its first page on.\<close>

lemma complete_buffer_segment:
  assumes "segment_ok ph file"
  obtains buf where "complete_buffer ph file = Ok buf" and "length buf = 4096 * unat (segment_pages ph)"
    and "\<And>k. k < unat (p_memsz ph) \<Longrightarrow> buf ! (unat (p_vaddr ph) mod 4096 + k) = segment_byte ph file k"
proof -
  let ?o = "unat (p_vaddr ph) mod 4096" and ?n = "4096 * unat (segment_pages ph)"
  let ?data = "take (unat (p_filesz ph)) (drop (unat (p_offset ph)) file)"
  note sp = segment_pages_unat [OF assms]
  have fs: "unat (p_filesz ph) \<le> unat (p_memsz ph)" and len: "unat (p_offset ph) + unat (p_filesz ph) \<le> length file"
    using assms by (simp_all add: segment_ok_def word_le_nat_alt)
  have ld: "length ?data = unat (p_filesz ph)" using len by simp
  let ?buf = "take ?o (replicate ?n 0) @ ?data @ drop (?o + length ?data) (replicate ?n 0)"
  have fit: "?o + length ?data \<le> ?n" using sp(1) fs unfolding ld by linarith
  have "complete_buffer ph file = Ok ?buf"
    using len put_bytes_eq [of ?o ?data "replicate ?n 0"] fit by (simp add: complete_buffer_def unat_low sp(3))
  moreover have "length ?buf = ?n" using fit by simp
  moreover have "?buf ! (?o + k) = segment_byte ph file k" if "k < unat (p_memsz ph)" for k
  proof -
    have "?o + k < ?n" using that sp(1) by linarith
    then show ?thesis using ld fit len by (auto simp: nth_append segment_byte_def)
  qed
  ultimately show thesis by (rule that)
qed


section \<open>A concrete run\<close>

text \<open>The kernel's tables in frames 0x50 to 0x53, whose last one holds the window over the frames up to 0x1ff, and a task
  with an empty root in frame 0x60; the allocator has fourteen free pages.\<close>

definition loader_vm :: kvm where
  "loader_vm = \<lparr>pmem = (\<lambda>f n. if f = 0x50 then if n = 320 then table_entry 0 0x51 else 0
       else if f = 0x51 then if n = 0 then table_entry 0 0x52 else 0
       else if f = 0x52 then if n = 0 then table_entry 0 0x53 else 0
       else if f = 0x53 then table_entry 0 (of_nat n) else 0),
     cr3 = 0x50000, alloc = pmm_big\<rparr>"

definition loader_lev :: "u64 \<Rightarrow> nat" where "loader_lev f = (if f = 0x60 then 4 else 0)"

lemma loader_vm_child: "child loader_vm f i = (if f = 0x50 then if unat i = 320 then Some 0x51 else None
    else if f = 0x51 then if i = 0 then Some 0x52 else None else if f = 0x52 then if i = 0 then Some 0x53 else None
    else if f = 0x53 then Some (take_bit 28 i) else None)"
  by (simp add: child_def ent_def loader_vm_def example_fields(5) unat_eq_zero take_bit_28)

lemma pmm_big_low: "unat f < 0x100 \<Longrightarrow> frame_taken pmm_big f"
proof -
  assume f: "unat f < 0x100"
  have "unat (drop_bit 12 (first_available_page_addr pmm_big + PAGESIZE * word_of_nat q)) \<ge> 0x100"
    if "q \<le> npages pmm_big" for q
    unfolding unat_drop_12 page_address [OF pmm_big_ok that] by (simp add: pmm_big_def pmm_example_def)
  then show ?thesis using f by (force simp: frame_taken_def)
qed

lemma pmm_big_free:
  assumes "\<not> frame_taken pmm_big f"
  obtains q where "q \<le> 32" and "f = word_of_nat (0x100 + q)"
proof -
  obtain q where q: "q \<le> npages pmm_big" "f = drop_bit 12 (first_available_page_addr pmm_big + PAGESIZE * word_of_nat q)"
    using assms by (auto simp: frame_taken_def)
  have n: "npages pmm_big = 32" "first_available_page_addr pmm_big = 0x100000" by (simp_all add: pmm_big_def pmm_example_def)
  have "unat f = 0x100 + q" unfolding q(2) unat_drop_12 page_address [OF pmm_big_ok q(1)] by (simp add: n)
  moreover have "unat (word_of_nat (0x100 + q) :: u64) = 0x100 + q" using q(1) n by (intro unat_of_nat_u64) simp
  ultimately have "f = word_of_nat (0x100 + q)" by (simp only: flip: unat_eq_iff_u64)
  with that q(1) n show thesis by simp
qed

lemma window_indices:
  assumes "q \<le> 32"
  shows "indices (TO_KERNEL_MAP (push_bit 12 (word_of_nat (0x100 + q)))) = [320, 0, 0, word_of_nat (0x100 + q)]"
proof -
  have "q = 0 \<or> q = 1 \<or> q = 2 \<or> q = 3 \<or> q = 4 \<or> q = 5 \<or> q = 6 \<or> q = 7 \<or> q = 8
    \<or> q = 9 \<or> q = 10 \<or> q = 11 \<or> q = 12 \<or> q = 13 \<or> q = 14 \<or> q = 15 \<or> q = 16
    \<or> q = 17 \<or> q = 18 \<or> q = 19 \<or> q = 20 \<or> q = 21 \<or> q = 22 \<or> q = 23 \<or> q = 24
    \<or> q = 25 \<or> q = 26 \<or> q = 27 \<or> q = 28 \<or> q = 29 \<or> q = 30 \<or> q = 31 \<or> q = 32"
    using assms by arith
  then show ?thesis by (elim disjE) (simp_all add: indices_def address_to_map_def TO_KERNEL_MAP_def Let_def)
qed

lemma loader_vm_inv: "loader_inv loader_vm 0x60 loader_lev"
proof -
  have a: "alloc loader_vm = pmm_big" by (simp add: loader_vm_def)
  have c: "child loader_vm 0x60 i = None" for i by (simp add: loader_vm_child)
  have l: "0 < loader_lev f \<longleftrightarrow> f = 0x60" "1 < loader_lev f \<longleftrightarrow> f = 0x60" "loader_lev 0x60 = 4" for f
    by (simp_all add: loader_lev_def)
  have "tables_wf loader_vm 0x60 loader_lev"
    unfolding tables_wf_def l by (simp add: c)
  moreover have "frame_taken (alloc loader_vm) f" if "0 < loader_lev f" for f
    using that pmm_big_low unfolding a by (auto simp: loader_lev_def split: if_splits)
  ultimately have kv: "kvm_inv loader_vm 0x60 loader_lev" using pmm_big_ok by (simp add: vm_inv_def a)
  have "\<exists>t. window_tables loader_vm 0x60 loader_lev f t" if nt: "\<not> frame_taken (alloc loader_vm) f" for f
  proof -
    obtain q where q: "q \<le> 32" "f = word_of_nat (0x100 + q)" by (rule pmm_big_free [OF nt [unfolded a]])
    have i: "indices (TO_KERNEL_MAP (push_bit 12 f)) = [320, 0, 0, f]" unfolding q(2) by (rule window_indices [OF q(1)])
    have "f < 2 ^ 28"
      by (rule free_frame_less [OF pmm_big_ok]) (use nt in \<open>simp add: a\<close>)
    hence t: "take_bit 28 f = f" by (rule take_bit_28)
    have "ptr_frame (get_pml4 loader_vm) = Ok 0x50"
      by (simp add: ptr_frame_def IS_ALIGNED_def get_pml4_def loader_vm_def TO_KERNEL_MAP_def)
    then have "window_tables loader_vm 0x60 loader_lev f (0x50, 0x51, 0x52, 0x53)"
      using i t by (simp add: window_tables_def Let_def indices_def loader_vm_child a loader_lev_def pmm_big_low)
    then show ?thesis by blast
  qed
  with kv show ?thesis by (simp add: loader_inv_def kernel_window_def)
qed

definition segment_example :: Elf64_Phdr where
  "segment_example = \<lparr>p_type = PT_LOAD, p_flags = 5, p_offset = 0, p_vaddr = 0x400010, p_filesz = 3, p_memsz = 8\<rparr>"


section \<open>What goes wrong\<close>

lemma put_bytes_beyond: "i \<le> length d \<Longrightarrow> length d < i + length bs \<Longrightarrow> put_bytes d i bs = Err Fault"
proof (induction bs arbitrary: d i)
  case (Cons b bs)
  show ?case
  proof (cases "i < length d")
    case True
    then show ?thesis using Cons.IH [of "i + 1" "d[i := b]"] Cons.prems by (simp add: wr_def)
  qed (simp add: wr_def)
qed simp

text \<open>A segment with more data in the file than its pages have room for is written behind the buffer.\<close>

theorem segment_overrun:
  assumes "p_type ph = PT_LOAD" and "unat (p_offset ph) + unat (p_filesz ph) \<le> length file"
    and "unat (p_vaddr ph) mod 4096 \<le> unat (segment_pages ph * 0x1000)"
    and "unat (segment_pages ph * 0x1000) < unat (p_vaddr ph) mod 4096 + unat (p_filesz ph)"
  shows "allocate_segment s pd ph file = Err Fault"
  using put_bytes_beyond [of "unat (p_vaddr ph) mod 4096" "replicate (unat (segment_pages ph * 0x1000)) 0"
      "take (unat (p_filesz ph)) (drop (unat (p_offset ph)) file)"] assms
  by (simp add: allocate_segment_def complete_buffer_def unat_low)

theorem segment_overrun_witness:
  "allocate_segment loader_vm 0x60000 (segment_example\<lparr>p_filesz := 4097\<rparr>) (replicate 5000 1) = Err Fault"
  by (rule segment_overrun) (simp_all add: segment_example_def segment_pages_def)

text \<open>Only a program whose entry lies in a segment and can be executed by the task is handed to the scheduler.\<close>

theorem elf_added_executable:
  assumes "elf_load_elf create s file = Ok (r, Some pd, s')"
  shows "r = Some 1 \<and> (\<exists>h. elf_header file = Ok h \<and> e_type h = ET_EXEC \<and> find_entry_segment file h 0 (unat (e_phnum h)) = Ok True
    \<and> is_executable s' (TO_KERNEL_MAP pd) (e_entry h) = Ok True
    \<and> (\<exists>u. is_user_access s' (TO_KERNEL_MAP pd) (e_entry h) = Ok u \<and> u \<noteq> 0))"
  using assms by (auto simp: elf_load_elf_def start_program_def rbind_eq_Ok split: if_splits option.splits)

end
