(* ===== verification/AddressSpaces.thy ===== *)
theory AddressSpaces
  imports Paging
begin

text \<open>What \<open>_duplicate_pd\<close> of \<open>memory/paging.c\<close> makes: a root with its own copies of the tables of the second and the
  third level. The page tables themselves are shared with the original, so that a page mapped later is
  seen through the duplicate exactly when its page table existed at the time of the duplication.\<close>

section \<open>Copies of tables\<close>

text \<open>\<open>copy_of taken s t d g h\<close>: the table \<open>h\<close> of the state \<open>t\<close> is a copy of the table \<open>g\<close> of the state \<open>s\<close>, with \<open>d\<close> levels
  of own tables below it, in frames that were free in \<open>s\<close>.\<close>

fun copy_of :: "('m \<Rightarrow> u64 \<Rightarrow> bool) \<Rightarrow> ('m, 'z) vm_scheme \<Rightarrow> ('m, 'z) vm_scheme \<Rightarrow> nat \<Rightarrow> u64 \<Rightarrow> u64 \<Rightarrow> bool" where
  "copy_of taken s t 0 g h \<longleftrightarrow> pmem t h = pmem s g"
| "copy_of taken s t (Suc d) g h \<longleftrightarrow> (\<forall>i < 512. case child s g i of None \<Rightarrow> child t h i = None
     | Some g' \<Rightarrow> \<exists>h'. child t h i = Some h' \<and> taken (alloc t) h' \<and> \<not> taken (alloc s) h' \<and> copy_of taken s t d g' h')"

text \<open>The number of frames the copies need.\<close>

definition entries_in :: "('m, 'z) vm_scheme \<Rightarrow> u64 \<Rightarrow> nat" where
  "entries_in s g = (\<Sum>i = 0..<512. if child s g (word_of_nat i) = None then 0 else 1)"

definition dup_cost :: "('m, 'z) vm_scheme \<Rightarrow> u64 \<Rightarrow> nat \<Rightarrow> nat" where
  "dup_cost s r i = (case child s r (word_of_nat i) of None \<Rightarrow> 0 | Some g \<Rightarrow> 1 + entries_in s g)"

lemma child_cong: "pmem t h = pmem s g \<Longrightarrow> child t h i = child s g i"
  by (simp add: child_def ent_def)

lemma copy_of_mono:
  assumes "copy_of taken s t d g h" and "pmem t' h = pmem t h"
    and "\<And>f. taken (alloc t) f \<Longrightarrow> \<not> taken (alloc s) f \<Longrightarrow> pmem t' f = pmem t f \<and> taken (alloc t') f"
  shows "copy_of taken s t' d g h"
  using assms(1,2)
proof (induction d arbitrary: g h)
  case (Suc d)
  have c: "child t' h i = child t h i" for i by (rule child_cong) (rule Suc.prems(2))
  show ?case unfolding copy_of.simps
  proof (intro allI impI)
    fix i :: u64 assume i: "i < 512"
    show "case child s g i of None \<Rightarrow> child t' h i = None
      | Some g' \<Rightarrow> \<exists>h'. child t' h i = Some h' \<and> taken (alloc t') h' \<and> \<not> taken (alloc s) h' \<and> copy_of taken s t' d g' h'"
    proof (cases "child s g i")
      case None then show ?thesis using Suc.prems(1) [unfolded copy_of.simps, rule_format, OF i] c by simp
    next
      case (Some g')
      then obtain h' where h': "child t h i = Some h'" "taken (alloc t) h'" "\<not> taken (alloc s) h'" "copy_of taken s t d g' h'"
        using Suc.prems(1) [unfolded copy_of.simps, rule_format, OF i] by auto
      then have "copy_of taken s t' d g' h'" using assms(3) by (intro Suc.IH) auto
      then show ?thesis using Some h' assms(3) c by auto
    qed
  qed
qed simp

lemma each_index_invariant:
  assumes "\<And>k s. a \<le> k \<Longrightarrow> k < a + n \<Longrightarrow> P k s \<Longrightarrow> \<exists>s'. f (word_of_nat k) s = Ok s' \<and> P (Suc k) s'" and "P a s"
  shows "\<exists>s'. each_index f (word_of_nat a) n s = Ok s' \<and> P (a + n) s'"
  using assms
proof (induction n arbitrary: a s)
  case (Suc n)
  obtain s1 where s1: "f (word_of_nat a) s = Ok s1" "P (Suc a) s1" using Suc.prems(1) [of a s] Suc.prems(2) by auto
  have "\<exists>s'. each_index f (word_of_nat (Suc a)) n s1 = Ok s' \<and> P (Suc a + n) s'"
    by (rule Suc.IH) (use Suc.prems(1) s1 in auto)
  then show ?case using s1 by (simp add: add.commute)
qed simp

lemma copy_present_same:
  assumes "ptr_frame pt = Ok p" and "ptr_frame new = Ok q" and "pmem s q = pmem s p" and "i < 512"
  shows "copy_present pt new i s = Ok s"
proof -
  have "set_ent s q i (ent s p i) = s" using assms(3) by (simp add: set_ent_def ent_def flip: assms(3))
  then show ?thesis using assms by (simp add: copy_present_def load_ok store_ok)
qed

lemma word_of_nat_less_512: "k < 512 \<Longrightarrow> (word_of_nat k :: u64) < 512"
  by (simp add: word_less_nat_alt unat_of_nat_u64)

lemma copy_present_all:
  assumes "ptr_frame pt = Ok p" and "ptr_frame new = Ok q" and "pmem s q = pmem s p"
  shows "each_index (copy_present pt new) 0 512 s = Ok s"
proof -
  have "\<exists>s'. each_index (copy_present pt new) (word_of_nat 0) 512 s = Ok s' \<and> s' = s"
    by (rule each_index_invariant) (use copy_present_same [OF assms] word_of_nat_less_512 in auto)
  then show ?thesis by simp
qed

text \<open>The entry of the copy.\<close>

lemma moved_entry [simp]:
  "e_present (bf_set 12 28 q e) = e_present e" "e_page_ppn (bf_set 12 28 q e) = take_bit 28 q"
  by (simp_all add: entry_defs field_simps_bf)

section \<open>Duplicating a directory\<close>

text \<open>What no step of the duplication undoes: a frame in use stays in use, and its contents change only in the table
  \<open>b\<close> being filled.\<close>

definition grown :: "('m \<Rightarrow> bool) \<Rightarrow> ('m \<Rightarrow> u64 \<Rightarrow> bool) \<Rightarrow> ('m, 'z) vm_scheme \<Rightarrow> ('m, 'z) vm_scheme \<Rightarrow> u64 \<Rightarrow> bool" where
  "grown I taken s t b \<longleftrightarrow> I (alloc t) \<and> (\<forall>f. taken (alloc s) f \<longrightarrow> taken (alloc t) f)
     \<and> (\<forall>f. taken (alloc s) f \<longrightarrow> f \<noteq> b \<longrightarrow> pmem t f = pmem s f) \<and> cr3 t = cr3 s"

lemma grownD:
  assumes "grown I taken s t b"
  shows "I (alloc t)" and "taken (alloc s) f \<Longrightarrow> taken (alloc t) f" and "taken (alloc s) f \<Longrightarrow> f \<noteq> b \<Longrightarrow> pmem t f = pmem s f"
    and "cr3 t = cr3 s"
  using assms by (simp_all add: grown_def)

text \<open>The first \<open>k\<close> entries of the table \<open>b\<close> have been given copies, of depth \<open>d\<close>, of the entries of \<open>a\<close> from \<open>l\<close> on; the
  others are as they were.\<close>

definition entries_done ::
  "('m \<Rightarrow> u64 \<Rightarrow> bool) \<Rightarrow> ('m, 'z) vm_scheme \<Rightarrow> ('m, 'z) vm_scheme \<Rightarrow> nat \<Rightarrow> u64 \<Rightarrow> u64 \<Rightarrow> nat \<Rightarrow> nat \<Rightarrow> bool" where
  "entries_done taken s t d a b l k \<longleftrightarrow> (\<forall>i < 512. if l \<le> unat i \<and> unat i < k
     then (case child s a i of None \<Rightarrow> child t b i = None
       | Some g \<Rightarrow> \<exists>h. child t b i = Some h \<and> taken (alloc t) h \<and> \<not> taken (alloc s) h \<and> copy_of taken s t d g h)
     else child t b i = child s b i)"

lemma entries_done_0: "entries_done taken s s d a b l l"
  by (auto simp: entries_done_def)

lemma entries_done_full: "entries_done taken s t d a b 0 512 \<Longrightarrow> copy_of taken s t (Suc d) a b"
  by (simp add: entries_done_def word_less_nat_alt)

lemma entries_done_step:
  assumes done_k: "entries_done taken s t d a b l k" and k: "k < 512" "l \<le> k" and tb: "taken (alloc s) b" and gr: "grown I taken s t b"
    and mono: "\<And>f. taken (alloc t) f \<Longrightarrow> f \<noteq> b \<Longrightarrow> pmem t' f = pmem t f \<and> taken (alloc t') f"
    and other: "\<And>j. j \<noteq> word_of_nat k \<Longrightarrow> child t' b j = child t b j"
    and new: "case child s a (word_of_nat k) of None \<Rightarrow> child t' b (word_of_nat k) = None
      | Some g \<Rightarrow> \<exists>h. child t' b (word_of_nat k) = Some h \<and> taken (alloc t') h \<and> \<not> taken (alloc s) h \<and> copy_of taken s t' d g h"
  shows "entries_done taken s t' d a b l (Suc k)"
  unfolding entries_done_def
proof (intro allI impI)
  fix j :: u64 assume j: "j < 512"
  note dj = done_k [unfolded entries_done_def, rule_format, OF j]
  have uk: "unat (word_of_nat k :: u64) = k" using k by (simp add: unat_of_nat_u64)
  show "if l \<le> unat j \<and> unat j < Suc k
     then (case child s a j of None \<Rightarrow> child t' b j = None
       | Some g \<Rightarrow> \<exists>h. child t' b j = Some h \<and> taken (alloc t') h \<and> \<not> taken (alloc s) h \<and> copy_of taken s t' d g h)
     else child t' b j = child s b j"
  proof (cases "j = word_of_nat k")
    case True show ?thesis unfolding True using new k uk by simp
  next
    case False
    then have ne: "unat j \<noteq> k" using uk unat_eq_iff_u64 by metis
    have m: "copy_of taken s t' d g h" if "copy_of taken s t d g h" "taken (alloc t) h" "\<not> taken (alloc s) h" for g h
      by (rule copy_of_mono [OF that(1)]) (use that mono tb in auto)
    show ?thesis
    proof (cases "l \<le> unat j \<and> unat j < k")
      case True
      then show ?thesis using dj other [OF False] m mono tb by (auto split: option.splits)
    next
      case f: False
      then have n: "\<not> (l \<le> unat j \<and> unat j < Suc k)" using ne by linarith
      show ?thesis unfolding if_not_P [OF n] other [OF False] using dj unfolding if_not_P [OF f] .
    qed
  qed
qed

lemma grown_refl: "I (alloc s) \<Longrightarrow> grown I taken s s b"
  by (simp add: grown_def)

lemma grown_trans: "grown I taken s t b \<Longrightarrow> grown I taken t u b \<Longrightarrow> grown I taken s u b"
  by (simp add: grown_def)

lemma copy_of_base:
  assumes "copy_of taken t u (Suc 0) g h" and "pmem t g = pmem s g"
    and "\<And>i g'. i < 512 \<Longrightarrow> child s g i = Some g' \<Longrightarrow> pmem t g' = pmem s g'"
    and "\<And>f. taken (alloc s) f \<Longrightarrow> taken (alloc t) f"
  shows "copy_of taken s u (Suc 0) g h"
  unfolding copy_of.simps
proof (intro allI impI)
  fix i :: u64 assume i: "i < 512"
  have c: "child t g i = child s g i" by (rule child_cong) (rule assms(2))
  show "case child s g i of None \<Rightarrow> child u h i = None
    | Some g' \<Rightarrow> \<exists>h'. child u h i = Some h' \<and> taken (alloc u) h' \<and> \<not> taken (alloc s) h' \<and> pmem u h' = pmem s g'"
    using assms(1) [unfolded copy_of.simps, rule_format, OF i] assms(3) [OF i] assms(4) unfolding c by (force split: option.splits)
qed

context frame_source
begin

text \<open>The loop body on a present entry: the copy \<open>q\<close> of the frame \<open>g\<close> is hung into \<open>b\<close>.\<close>

lemma dup_entry_copy:
  assumes I: "I (alloc s)" and c: "child s a i = Some g" and a: "ptr_frame src = Ok a" and b: "ptr_frame dst = Ok b"
    and i: "i < 512" and av: "Suc n \<le> avail (alloc s)" and tb: "taken (alloc s) b" and gb: "g \<noteq> b"
  obtains p q t where "dup_entry req inner src dst i s = inner (push_bit 12 g) p t" and "ptr_frame p = Ok q"
    and "ptr_frame (push_bit 12 g) = Ok g" and "child t b i = Some q" and "pmem t q = pmem s g" and "\<not> taken (alloc s) q"
    and "taken (alloc t) q" and "grown I taken s t b" and "n \<le> avail (alloc t)" and "\<And>j. j \<noteq> i \<Longrightarrow> child t b j = child s b j"
proof -
  obtain p m where req: "req (alloc s) = Ok (p, m)" and am: "avail (alloc s) \<le> Suc (avail m)"
    using req_avail [OF I] av by auto
  let ?q = "drop_bit 12 p" and ?s1 = "s\<lparr>alloc := m, pmem := (pmem s)(drop_bit 12 p := pmem s g)\<rparr>"
  let ?t = "set_ent ?s1 b i (bf_set 12 28 ?q (ent s a i))"
  have p: "I m" "IS_ALIGNED p" "p < 2 ^ 40" "p \<noteq> 0" "\<not> taken (alloc s) ?q" "\<And>h. taken m h \<longleftrightarrow> taken (alloc s) h \<or> h = ?q"
    using req_Ok [OF I req] by auto
  have q: "?q < 2 ^ 28" "b \<noteq> ?q" using frame_less [OF p(3)] p(5) tb by auto
  have pq: "ptr_frame p = Ok ?q" using conv_okD [OF conv_ok_id q(1)] aligned_split [OF p(2)] by simp
  have pg: "ptr_frame (push_bit 12 g) = Ok g" using conv_okD [OF conv_ok_id child_less [OF c]] by simp
  have e: "e_present (ent s a i) \<noteq> 0" "e_page_ppn (ent s a i) = g" using c by (auto simp: child_def split: if_splits)
  have run: "dup_entry req inner src dst i s = inner (push_bit 12 g) p ?t"
    using e req p(4) pq pg i by (simp add: dup_entry_def load_ok [OF a] store_ok [OF b] copy_page_def Let_def)
  have c1: "child ?t b i = Some ?q" using e take_bit_28 [OF q(1)] by simp
  have c2: "child ?t b j = child s b j" if "j \<noteq> i" for j
    using that q(2) child_cong [of "?s1" b s b j] by simp
  have m: "pmem ?t ?q = pmem s g" using q(2) by (simp add: set_ent_def)
  have gr: "grown I taken s ?t b" using p q(2) by (auto simp: grown_def set_ent_def)
  have av': "n \<le> avail (alloc ?t)" using av am by simp
  have tq: "taken (alloc ?t) ?q" using p(6) by simp
  show thesis by (rule that [OF run pq pg c1 m p(5) tq gr av' c2])
qed

lemma dup_entry_absent:
  "child s a i = None \<Longrightarrow> ptr_frame src = Ok a \<Longrightarrow> i < 512 \<Longrightarrow> dup_entry req inner src dst i s = Ok s"
  by (simp add: dup_entry_def load_ok child_def split: if_splits)


lemma dup_directory:
  assumes I: "I (alloc s)" and a: "ptr_frame src = Ok a" and b: "ptr_frame dst = Ok b"
    and ta: "taken (alloc s) a" and tb: "taken (alloc s) b" and ab: "a \<noteq> b" and same: "pmem s b = pmem s a"
    and below: "\<And>i g. i < 512 \<Longrightarrow> child s a i = Some g \<Longrightarrow> taken (alloc s) g \<and> g \<noteq> b" and av: "n + entries_in s a \<le> avail (alloc s)"
  obtains t where "each_index (dup_entry req (\<lambda>pt new_pt. each_index (copy_present pt new_pt) 0 512) src dst) 0 512 s = Ok t"
    and "grown I taken s t b" and "n \<le> avail (alloc t)" and "copy_of taken s t (Suc 0) a b"
proof -
  let ?f = "dup_entry req (\<lambda>pt new_pt. each_index (copy_present pt new_pt) 0 512) src dst"
  let ?c = "\<lambda>i. if child s a (word_of_nat i) = None then 0 else 1 :: nat"
  define P where "P k t \<longleftrightarrow> grown I taken s t b \<and> n + (\<Sum>i = k..<512. ?c i) \<le> avail (alloc t) \<and> entries_done taken s t 0 a b 0 k" for k t
  have step: "\<exists>t'. ?f (word_of_nat k) t = Ok t' \<and> P (Suc k) t'" if k: "0 \<le> k" "k < 0 + 512" and P: "P k t" for k t
  proof -
    let ?i = "word_of_nat k :: u64"
    have i: "?i < 512" using word_of_nat_less_512 k by simp
    have uk: "unat ?i = k" using k by (simp add: unat_of_nat_u64)
    have g: "grown I taken s t b" and avt: "n + (\<Sum>i = k..<512. ?c i) \<le> avail (alloc t)" and d: "entries_done taken s t 0 a b 0 k"
      using P by (simp_all add: P_def)
    have sum: "(\<Sum>i = k..<512. ?c i) = ?c k + (\<Sum>i = Suc k..<512. ?c i)" using k by (intro sum.atLeast_Suc_lessThan) simp
    have ca: "child t a j = child s a j" for j by (rule child_cong) (rule grownD(3) [OF g ta ab])
    have cb: "child t b ?i = child s a ?i"
      using d [unfolded entries_done_def, rule_format, OF i] uk child_cong [OF same, of ?i] by simp
    show ?thesis
    proof (cases "child s a ?i")
      case None
      then have "entries_done taken s t 0 a b 0 (Suc k)"
        using k cb grownD(2) [OF g] by (intro entries_done_step [OF d _ _ tb g]) auto
      moreover have "?f ?i t = Ok t" using None ca by (intro dup_entry_absent [OF _ a i]) simp
      ultimately show ?thesis using g avt sum None by (simp add: P_def)
    next
      case (Some x)
      have x: "taken (alloc s) x" "x \<noteq> b" using below [OF i Some] by auto
      have ct: "child t a ?i = Some x" and tbt: "taken (alloc t) b" using Some ca grownD(2) [OF g tb] by auto
      have avs: "Suc (n + (\<Sum>i = Suc k..<512. ?c i)) \<le> avail (alloc t)" using avt sum Some by simp
      obtain p q t' where t': "?f ?i t = each_index (copy_present (push_bit 12 x) p) 0 512 t'" "ptr_frame p = Ok q"
        "ptr_frame (push_bit 12 x) = Ok x" "child t' b ?i = Some q" "pmem t' q = pmem t x" "\<not> taken (alloc t) q"
        "taken (alloc t') q" "grown I taken t t' b" "n + (\<Sum>i = Suc k..<512. ?c i) \<le> avail (alloc t')"
        "\<And>j. j \<noteq> ?i \<Longrightarrow> child t' b j = child t b j"
        by (rule dup_entry_copy [OF grownD(1) [OF g] ct a b i avs tbt x(2),
              where inner = "\<lambda>pt new_pt. each_index (copy_present pt new_pt) 0 512"]) (rule that)
      have px: "pmem t' x = pmem t x" "pmem t x = pmem s x"
        using grownD(3) [OF t'(8) grownD(2) [OF g x(1)] x(2)] grownD(3) [OF g x] by auto
      have run: "?f ?i t = Ok t'" unfolding t'(1) by (rule copy_present_all [OF t'(3,2)]) (use t'(5) px in simp)
      have "entries_done taken s t' 0 a b 0 (Suc k)"
        using k Some t'(4,5,6,7) px grownD(2) [OF g] grownD(2,3) [OF t'(8)] t'(10)
        by (intro entries_done_step [OF d _ _ tb g]) auto
      then show ?thesis using run grown_trans [OF g t'(8)] t'(9) by (simp add: P_def)
    qed
  qed
  have "P 0 s" using av grown_refl [of I s taken b] I entries_done_0 [of taken s 0 a b 0] by (simp add: P_def entries_in_def)
  then obtain t where t: "each_index ?f (word_of_nat 0) 512 s = Ok t" "P (0 + 512) t"
    using each_index_invariant [of 0 512 P ?f s] step by blast
  show thesis using t entries_done_full [of taken s t 0 a b] by (intro that [of t]) (simp_all add: P_def)
qed

lemma dup_tables_copy:
  assumes I: "I (alloc s)" and r: "ptr_frame father = Ok r" and b: "ptr_frame pml = Ok b"
    and tr: "taken (alloc s) r" and tb: "taken (alloc s) b" and rb: "r \<noteq> b" and zero: "\<And>i. i < 512 \<Longrightarrow> child s b i = None"
    and below: "\<And>i g. i < 512 \<Longrightarrow> child s r i = Some g \<Longrightarrow> taken (alloc s) g \<and> g \<noteq> b"
    and below2: "\<And>i g j g'. i < 512 \<Longrightarrow> child s r i = Some g \<Longrightarrow> j < 512 \<Longrightarrow> child s g j = Some g' \<Longrightarrow> taken (alloc s) g' \<and> g' \<noteq> b"
    and range: "start \<le> stop" "stop \<le> 512" and av: "n + (\<Sum>i = start..<stop. dup_cost s r i) \<le> avail (alloc s)"
  obtains t where "dup_tables req s father pml (word_of_nat start) (word_of_nat stop) = Ok t"
    and "grown I taken s t b" and "n \<le> avail (alloc t)" and "entries_done taken s t (Suc 0) r b start stop"
proof -
  let ?in = "\<lambda>pd new_pd. each_index (dup_entry req (\<lambda>pt new_pt. each_index (copy_present pt new_pt) 0 512) pd new_pd) 0 512"
  let ?f = "dup_entry req ?in father pml"
  define P where "P k t \<longleftrightarrow> grown I taken s t b \<and> n + (\<Sum>i = k..<stop. dup_cost s r i) \<le> avail (alloc t)
    \<and> entries_done taken s t (Suc 0) r b start k" for k t
  have step: "\<exists>t'. ?f (word_of_nat k) t = Ok t' \<and> P (Suc k) t'" if k: "start \<le> k" "k < start + (stop - start)" and P: "P k t" for k t
  proof -
    let ?i = "word_of_nat k :: u64"
    have k5: "k < 512" using k range by simp
    have i: "?i < 512" by (rule word_of_nat_less_512) (rule k5)
    have uk: "unat ?i = k" using k5 by (simp add: unat_of_nat_u64)
    have g: "grown I taken s t b" and avt: "n + (\<Sum>i = k..<stop. dup_cost s r i) \<le> avail (alloc t)"
      and d: "entries_done taken s t (Suc 0) r b start k" using P by (simp_all add: P_def)
    have sum: "(\<Sum>i = k..<stop. dup_cost s r i) = dup_cost s r k + (\<Sum>i = Suc k..<stop. dup_cost s r i)"
      using k range by (intro sum.atLeast_Suc_lessThan) simp
    have cr: "child t r j = child s r j" for j by (rule child_cong) (rule grownD(3) [OF g tr rb])
    have cb: "child t b ?i = None" using d [unfolded entries_done_def, rule_format, OF i] uk zero [OF i] by simp
    show ?thesis
    proof (cases "child s r ?i")
      case None
      then have "entries_done taken s t (Suc 0) r b start (Suc k)"
        using k k5 cb grownD(2) [OF g] by (intro entries_done_step [OF d _ _ tb g]) auto
      moreover have "?f ?i t = Ok t" using None cr by (intro dup_entry_absent [OF _ r i]) simp
      ultimately show ?thesis using g avt sum None by (simp add: P_def)
    next
      case (Some x)
      let ?n = "n + (\<Sum>i = Suc k..<stop. dup_cost s r i)"
      have x: "taken (alloc s) x" "x \<noteq> b" using below [OF i Some] by auto
      have ct: "child t r ?i = Some x" and tbt: "taken (alloc t) b" and tx: "taken (alloc t) x"
        using Some cr grownD(2) [OF g] tb x by auto
      have avs: "Suc (?n + entries_in s x) \<le> avail (alloc t)" using avt sum Some by (simp add: dup_cost_def)
      obtain p q t' where t': "?f ?i t = ?in (push_bit 12 x) p t'" "ptr_frame p = Ok q"
        "ptr_frame (push_bit 12 x) = Ok x" "child t' b ?i = Some q" "pmem t' q = pmem t x" "\<not> taken (alloc t) q"
        "taken (alloc t') q" "grown I taken t t' b" "?n + entries_in s x \<le> avail (alloc t')"
        "\<And>j. j \<noteq> ?i \<Longrightarrow> child t' b j = child t b j"
        by (rule dup_entry_copy [OF grownD(1) [OF g] ct r b i avs tbt x(2), where inner = ?in]) (rule that)
      note g' = grown_trans [OF g t'(8)]
      have old: "pmem t' f = pmem s f" "taken (alloc t') f" "f \<noteq> q" if "taken (alloc s) f" "f \<noteq> b" for f
        using grownD(2,3) [OF g'] grownD(2) [OF g] that t'(6) by auto
      have cx: "child t' x j = child s x j" for j by (rule child_cong) (rule old(1) [OF x])
      have "pmem t' x = pmem t x" by (rule grownD(3) [OF t'(8) tx x(2)])
      then have same: "pmem t' q = pmem t' x" using t'(5) by simp
      have bel: "taken (alloc t') y \<and> y \<noteq> q" if "j < 512" "child t' x j = Some y" for j y
        using below2 [OF i Some] old that cx by auto
      have av': "?n + entries_in t' x \<le> avail (alloc t')" using t'(9) by (simp add: entries_in_def cx)
      obtain u where u: "?in (push_bit 12 x) p t' = Ok u" "grown I taken t' u q" "?n \<le> avail (alloc u)" "copy_of taken t' u (Suc 0) x q"
        using old(2,3) [OF x] by (rule dup_directory [OF grownD(1) [OF t'(8)] t'(3,2) _ t'(7) _ same bel av']) auto
      have mono: "pmem u f = pmem t f \<and> taken (alloc u) f" if "taken (alloc t) f" "f \<noteq> b" for f
        using grownD(2,3) [OF u(2)] grownD(2,3) [OF t'(8)] that t'(6) by (metis (no_types))
      have cu: "child u b j = child t' b j" for j
        using grownD(2) [OF t'(8) tbt] t'(6) tbt by (intro child_cong grownD(3) [OF u(2)]) auto
      have "pmem u f = pmem s f" if "taken (alloc s) f" "f \<noteq> b" for f
        using grownD(3) [OF u(2) old(2) [OF that] old(3) [OF that]] old(1) [OF that] by simp
      then have gu: "grown I taken s u b"
        using grownD(1,2,4) [OF u(2)] grownD(2,4) [OF g'] by (simp add: grown_def)
      have cp: "copy_of taken s u (Suc 0) x q"
        by (rule copy_of_base [OF u(4) old(1) [OF x]]) (use below2 [OF i Some] old(1) grownD(2) [OF g'] in auto)
      have "entries_done taken s u (Suc 0) r b start (Suc k)"
        using k k5 Some mono cu cp t'(4,6,7,10) grownD(2) [OF g] grownD(2) [OF u(2)]
        by (intro entries_done_step [OF d _ _ tb g]) auto
      then show ?thesis using t'(1) u gu by (simp add: P_def)
    qed
  qed
  have "P start s" using av grown_refl [of I s taken b] I entries_done_0 [of taken s "Suc 0" r b start] by (simp add: P_def)
  then obtain t where t: "each_index ?f (word_of_nat start) (stop - start) s = Ok t" "P (start + (stop - start)) t"
    using each_index_invariant [of start "stop - start" P ?f s] step by blast
  have "unat (word_of_nat stop - word_of_nat start :: u64) = stop - start"
    using range by (simp add: unat_sub word_le_nat_alt unat_of_nat_u64)
  then show thesis using t range by (intro that [of t]) (simp_all add: dup_tables_def P_def)
qed

end

section \<open>Walks through the copy\<close>

lemma walk_same:
  assumes wf: "tables_wf s r lev" and same: "\<And>f. 0 < lev f \<Longrightarrow> pmem t f = pmem s f"
  shows "length js \<le> lev f \<Longrightarrow> \<forall>j \<in> set js. j < 512 \<Longrightarrow> walk t f js = walk s f js"
proof (induction js arbitrary: f)
  case (Cons j js)
  have c: "child t f j = child s f j" using Cons.prems by (intro child_cong same) simp
  show ?case
  proof (cases "child s f j")
    case (Some g)
    show ?thesis
    proof (cases "js = []")
      case False
      then have "1 < lev f" using Cons.prems by (cases js) auto
      then have "Suc (lev g) = lev f" using Cons.prems by (intro tables_wf_level [OF wf Some]) auto
      then show ?thesis using Some c Cons by simp
    qed (use c Some in simp)
  qed (use c in simp)
qed simp

text \<open>A walk to a page table through the copy goes to the page table of the original.\<close>

lemma copied_walk:
  assumes d: "entries_done taken s t (Suc 0) r b l k" and zero: "\<And>i. child s b i = None"
    and same: "pmem t' b = pmem t b" "\<And>f. taken (alloc t) f \<Longrightarrow> \<not> taken (alloc s) f \<Longrightarrow> pmem t' f = pmem t f"
  shows "walk t' b (upper v) = (if l \<le> unat (PDP_i (address_to_map v)) \<and> unat (PDP_i (address_to_map v)) < k
    then walk s r (upper v) else None)"
proof -
  let ?i = "PDP_i (address_to_map v)" and ?j = "PD_i (address_to_map v)" and ?k = "PT_i (address_to_map v)"
  have i: "?i < 512" and j: "?j < 512" by simp_all
  have cb: "child t' b ?i = child t b ?i" by (rule child_cong) (rule same(1))
  note di = d [unfolded entries_done_def, rule_format, OF i]
  show ?thesis
  proof (cases "l \<le> unat ?i \<and> unat ?i < k")
    case False
    show ?thesis unfolding if_not_P [OF False] using di [unfolded if_not_P [OF False]] cb zero by (simp add: upper_def Let_def)
  next
    case True
    show ?thesis
    proof (cases "child s r ?i")
      case None then show ?thesis using di True cb by (simp add: upper_def Let_def)
    next
      case (Some g)
      then obtain h where h: "child t b ?i = Some h" "taken (alloc t) h" "\<not> taken (alloc s) h" "copy_of taken s t (Suc 0) g h"
        using di True by auto
      have ch: "child t' h ?j = child t h ?j" by (rule child_cong) (rule same(2) [OF h(2,3)])
      note dj = h(4) [unfolded copy_of.simps, rule_format, OF j]
      show ?thesis
      proof (cases "child s g ?j")
        case None then show ?thesis using dj ch cb h Some True by (simp add: upper_def Let_def)
      next
        case s2: (Some g')
        then obtain h' where h': "child t h ?j = Some h'" "taken (alloc t) h'" "\<not> taken (alloc s) h'" "pmem t h' = pmem s g'"
          using dj by auto
        have "child t' h' ?k = child s g' ?k" by (rule child_cong) (use same(2) [OF h'(2,3)] h'(4) in simp)
        then show ?thesis using h(1) h'(1) ch cb Some s2 True by (simp add: upper_def Let_def split: option.split)
      qed
    qed
  qed
qed

text \<open>The state after a duplication, and what stays true of the copy while its own frames keep their contents.\<close>

lemma duplicate_pd_copy:
  assumes inv: "kvm_inv s r lev" and r: "ptr_frame father = Ok r" and range: "start \<le> stop" "stop \<le> 512"
    and av: "n + 1 + (\<Sum>i = start..<stop. dup_cost s r i) \<le> free_frames (alloc s)"
  obtains new q t where "duplicate_pd s father (word_of_nat start) (word_of_nat stop) = Ok (new, t)" and "ptr_frame new = Ok q"
    and "kvm_inv t r lev" and "cr3 t = cr3 s" and "n \<le> free_frames (alloc t)"
    and "\<And>f. frame_taken (alloc s) f \<Longrightarrow> pmem t f = pmem s f"
    and "\<forall>(t' :: kvm) v. (\<forall>f. frame_taken (alloc t) f \<longrightarrow> \<not> frame_taken (alloc s) f \<longrightarrow> pmem t' f = pmem t f) \<longrightarrow>
      walk t' q (upper v) = (if start \<le> unat (PDP_i (address_to_map v)) \<and> unat (PDP_i (address_to_map v)) < stop
        then walk s r (upper v) else None)"
proof -
  have wf: "tables_wf s r lev" and ok: "pmm_ok (alloc s)" and tk: "\<And>f. 0 < lev f \<Longrightarrow> frame_taken (alloc s) f"
    using inv by (simp_all add: vm_inv_def)
  have r4: "lev r = 4" by (rule tables_wf_root [OF wf])
  obtain p m where req: "request_page (alloc s) = Ok (p, m)" and am: "free_frames (alloc s) \<le> Suc (free_frames m)"
    using pm.req_avail [OF ok] av by auto
  let ?q = "drop_bit 12 p"
  let ?s0 = "s\<lparr>alloc := m, pmem := (pmem s)(drop_bit 12 p := (\<lambda>_. 0))\<rparr>"
  have p: "pmm_ok m" "IS_ALIGNED p" "p < 2 ^ 40" "p \<noteq> 0" "\<not> frame_taken (alloc s) ?q"
    "\<And>h. frame_taken m h \<longleftrightarrow> frame_taken (alloc s) h \<or> h = ?q" using pm.req_Ok [OF ok req] by auto
  have q: "?q < 2 ^ 28" by (rule frame_less [OF p(3)])
  have pq: "ptr_frame p = Ok ?q" using conv_okD [OF conv_ok_id q] aligned_split [OF p(2)] by simp
  have kq: "ptr_frame (TO_KERNEL_MAP p) = Ok ?q" using conv_okD [OF conv_ok_hh q] aligned_split [OF p(2)] by simp
  have nq: "f \<noteq> ?q" if "0 < lev f" for f using tk [OF that] p(5) by auto
  have c0: "child ?s0 f i = child s f i" if "0 < lev f" for f i by (rule child_cong) (use nq [OF that] in simp)
  have z: "child ?s0 ?q i = None" for i by (simp add: child_def ent_def e_present_def bf_get_zero)
  have lr: "0 < lev r" using r4 by simp
  have l2: "lev g = 3" if "i < 512" "child s r i = Some g" for i g
    using tables_wf_level [OF wf that(2)] r4 that by simp
  have l3: "lev g' = 2" if "i < 512" "child s r i = Some g" "j < 512" "child s g j = Some g'" for i g j g'
    using tables_wf_level [OF wf that(4)] l2 [OF that(1,2)] that by simp
  have cost: "dup_cost ?s0 r i = dup_cost s r i" if "i < 512" for i
  proof (cases "child s r (word_of_nat i)")
    case None then show ?thesis using c0 [OF lr] by (simp add: dup_cost_def)
  next
    case (Some g)
    then have "0 < lev g" using l2 [OF word_of_nat_less_512 [OF that] Some] by simp
    then show ?thesis using Some c0 [OF lr] c0 by (simp add: dup_cost_def entries_in_def)
  qed
  have av0: "n + (\<Sum>i = start..<stop. dup_cost ?s0 r i) \<le> free_frames (alloc ?s0)"
    using av am range cost by simp
  obtain t where t: "dup_tables request_page ?s0 father p (word_of_nat start) (word_of_nat stop) = Ok t"
    "grown pmm_ok frame_taken ?s0 t ?q" "n \<le> free_frames (alloc t)" "entries_done frame_taken ?s0 t (Suc 0) r ?q start stop"
  proof (rule pm.dup_tables_copy [OF _ r pq _ _ _ z _ _ range av0])
    show "pmm_ok (alloc ?s0)" "frame_taken (alloc ?s0) r" "frame_taken (alloc ?s0) ?q" "r \<noteq> ?q"
      using p(1,6) tk [OF lr] nq [OF lr] by simp_all
    show "frame_taken (alloc ?s0) g \<and> g \<noteq> ?q" if "i < 512" "child ?s0 r i = Some g" for i g
      using that l2 [of i g] c0 [OF lr] tk nq p(6) by simp
    show "frame_taken (alloc ?s0) g' \<and> g' \<noteq> ?q"
      if "i < 512" "child ?s0 r i = Some g" "j < 512" "child ?s0 g j = Some g'" for i g j g'
    proof -
      have g: "child s r i = Some g" using that(2) c0 [OF lr] by simp
      have "0 < lev g" using l2 [OF that(1) g] by simp
      then have "child s g j = Some g'" using that(4) c0 by simp
      then have "lev g' = 2" by (rule l3 [OF that(1) g that(3)])
      then show ?thesis using tk nq p(6) by simp
    qed
  qed (rule that)
  have old: "pmem t f = pmem s f" if "frame_taken (alloc s) f" for f
    using grownD(3) [OF t(2), of f] that p(5,6) by auto
  have run: "duplicate_pd s father (word_of_nat start) (word_of_nat stop) = Ok (TO_KERNEL_MAP p, t)"
    using req p(4) pq t(1) by (simp add: duplicate_pd_def zero_page_def)
  have cs: "child t f i = child s f i" if "0 < lev f" for f i by (rule child_cong) (rule old [OF tk [OF that]])
  have "tables_wf t r lev" using wf unfolding tables_wf_def by (simp add: cs)
  then have inv': "kvm_inv t r lev" using tk grownD(1,2) [OF t(2)] p(6) by (simp add: vm_inv_def)
  have w: "walk t' ?q (upper v) = (if start \<le> unat (PDP_i (address_to_map v)) \<and> unat (PDP_i (address_to_map v)) < stop
        then walk s r (upper v) else None)"
    if "\<forall>f. frame_taken (alloc t) f \<longrightarrow> \<not> frame_taken (alloc s) f \<longrightarrow> pmem t' f = pmem t f" for t' :: kvm and v
  proof -
    have "walk ?s0 r (upper v) = walk s r (upper v)"
      by (rule walk_same [OF wf]) (use nq r4 in \<open>auto simp: upper_props\<close>)
    then show ?thesis using copied_walk [OF t(4) z, of t' v] that grownD(2) [OF t(2), of ?q] p(5,6) by simp
  qed
  show thesis by (rule that [OF run kq inv' _ t(3) old]) (use grownD(4) [OF t(2)] in simp, assumption, intro allI impI w, blast)
qed

section \<open>Address spaces\<close>

lemma all_indices: "unat (PDP_i (address_to_map v)) < 512"
  using map_index_less(1) [of v] by (simp add: word_less_nat_alt)

lemma translate_upper: "translate s r v = (case walk s r (upper v) of None \<Rightarrow> None | Some pt \<Rightarrow> child s pt (P_i (address_to_map v)))"
  by (simp add: translate_def upper_props walk_append split: option.split)

text \<open>The tables of the current address space, copied: both translate every address alike, as the current tables did.\<close>

lemma duplicate_current_copy:
  assumes inv: "kvm_inv s r lev" and r: "ptr_frame (get_pml4 s) = Ok r"
    and av: "n + 1 + (\<Sum>i = 0..<512. dup_cost s r i) \<le> free_frames (alloc s)"
  obtains new q t where "duplicate_current_pml4 s = Ok (new, t)" and "ptr_frame new = Ok q" and "kvm_inv t r lev"
    and "get_pml4 t = get_pml4 s" and "n \<le> free_frames (alloc t)"
    and "\<And>v. walk t r (upper v) = walk s r (upper v)" and "\<And>f. 0 < lev f \<Longrightarrow> pmem t f = pmem s f"
    and "\<forall>(t' :: kvm) v. (\<forall>f. frame_taken (alloc t) f \<longrightarrow> lev f = 0 \<longrightarrow> pmem t' f = pmem t f) \<longrightarrow> walk t' q (upper v) = walk s r (upper v)"
proof -
  have wf: "tables_wf s r lev" and tk: "\<And>f. 0 < lev f \<Longrightarrow> frame_taken (alloc s) f" using inv by (simp_all add: vm_inv_def)
  obtain new q t where t: "duplicate_pd s (get_pml4 s) (word_of_nat 0) (word_of_nat 512) = Ok (new, t)" "ptr_frame new = Ok q"
    "kvm_inv t r lev" "cr3 t = cr3 s" "n \<le> free_frames (alloc t)" "\<And>f. frame_taken (alloc s) f \<Longrightarrow> pmem t f = pmem s f"
    "\<forall>(t' :: kvm) v. (\<forall>f. frame_taken (alloc t) f \<longrightarrow> \<not> frame_taken (alloc s) f \<longrightarrow> pmem t' f = pmem t f) \<longrightarrow>
      walk t' q (upper v) = (if 0 \<le> unat (PDP_i (address_to_map v)) \<and> unat (PDP_i (address_to_map v)) < 512
        then walk s r (upper v) else None)"
    by (rule duplicate_pd_copy [OF inv r _ _ av]) (simp, simp, rule that)
  have run: "duplicate_current_pml4 s = Ok (new, t)" using t(1) by (simp add: duplicate_current_pml4_def)
  have old: "pmem t f = pmem s f" if "0 < lev f" for f by (rule t(6)) (rule tk [OF that])
  have w: "walk t r (upper v) = walk s r (upper v)" for v
    by (rule walk_same [OF wf old]) (use tables_wf_root [OF wf] in \<open>simp_all add: upper_props\<close>)
  have c: "walk t' q (upper v) = walk s r (upper v)"
    if "\<forall>f. frame_taken (alloc t) f \<longrightarrow> lev f = 0 \<longrightarrow> pmem t' f = pmem t f" for t' :: kvm and v
    using t(7) [rule_format, of t' v] that tk all_indices [of v] by (metis gr0I le0)
  show thesis by (rule that [OF run t(2,3) _ t(5) w old]) (use c in \<open>simp_all add: get_pml4_def t(4)\<close>)
qed

text \<open>C3: duplicating the current address space. With enough free frames \<open>duplicate_current_pml4\<close> succeeds; the new tables
  translate every address as the current ones did, and the current ones translate as before.\<close>

theorem duplicate_translates:
  assumes "kvm_inv s r lev" and "ptr_frame (get_pml4 s) = Ok r"
    and "1 + (\<Sum>i = 0..<512. dup_cost s r i) \<le> free_frames (alloc s)"
  shows "\<exists>new t. duplicate_current_pml4 s = Ok (new, t) \<and> kvm_inv t r lev
    \<and> (\<forall>v. virtual_to_physical t new v = virtual_to_physical s (get_pml4 s) v
         \<and> virtual_to_physical t (get_pml4 t) v = virtual_to_physical s (get_pml4 s) v)"
proof -
  have wf: "tables_wf s r lev" using assms(1) by (simp add: vm_inv_def)
  obtain new q t where t: "duplicate_current_pml4 s = Ok (new, t)" "ptr_frame new = Ok q" "kvm_inv t r lev"
    "get_pml4 t = get_pml4 s" "\<And>v. walk t r (upper v) = walk s r (upper v)" "\<And>f. 0 < lev f \<Longrightarrow> pmem t f = pmem s f"
    "\<forall>(t' :: kvm) v. (\<forall>f. frame_taken (alloc t) f \<longrightarrow> lev f = 0 \<longrightarrow> pmem t' f = pmem t f) \<longrightarrow> walk t' q (upper v) = walk s r (upper v)"
    by (rule duplicate_current_copy [OF assms(1,2), of 0]) (use assms(3) in simp, rule that)
  have pt: "child t x i = child s x i" if "walk s r (upper v) = Some x" for x v i
    by (rule child_cong) (rule t(6), use walk_pt_level [OF wf that] in simp)
  have "translate t q v = translate s r v \<and> translate t r v = translate s r v" for v
    using t(7) [rule_format, of t v] t(5) pt by (auto simp: translate_upper split: option.split)
  then have "virtual_to_physical t new v = virtual_to_physical s (get_pml4 s) v
      \<and> virtual_to_physical t (get_pml4 t) v = virtual_to_physical s (get_pml4 s) v" for v
    using assms(2) t(2,4) by (simp add: virtual_to_physical_translate)
  then show ?thesis using t(1,3) by blast
qed

text \<open>C4: a page mapped after a duplication. The current address space sees it; the duplicate sees it exactly when the page
  table of the address was there before, as it is then shared, and translates no other address differently.\<close>

theorem mapping_after_duplication:
  assumes "kvm_inv s r lev" and "ptr_frame (get_pml4 s) = Ok r"
    and "4 + (\<Sum>i = 0..<512. dup_cost s r i) \<le> free_frames (alloc s)"
    and "v AND 0xfff = 0" and "p AND 0xfff = 0" and "p < 2 ^ 40"
  shows "\<exists>new t u. duplicate_current_pml4 s = Ok (new, t) \<and> map_memory_hh t (get_pml4 t) v p flags = Ok u
    \<and> virtual_to_physical u (get_pml4 t) v = Ok p
    \<and> virtual_to_physical u new v = (if walk s r (upper v) = None then Ok 0 else Ok p)
    \<and> (\<forall>w. indices w \<noteq> indices v \<longrightarrow> virtual_to_physical u new w = virtual_to_physical s (get_pml4 s) w)"
proof -
  have wf: "tables_wf s r lev" using assms(1) by (simp add: vm_inv_def)
  obtain new q t where t: "duplicate_current_pml4 s = Ok (new, t)" "ptr_frame new = Ok q" "kvm_inv t r lev"
    "get_pml4 t = get_pml4 s" "3 \<le> free_frames (alloc t)" "\<And>v. walk t r (upper v) = walk s r (upper v)"
    "\<And>f. 0 < lev f \<Longrightarrow> pmem t f = pmem s f"
    "\<forall>(t' :: kvm) v. (\<forall>f. frame_taken (alloc t) f \<longrightarrow> lev f = 0 \<longrightarrow> pmem t' f = pmem t f) \<longrightarrow> walk t' q (upper v) = walk s r (upper v)"
    by (rule duplicate_current_copy [OF assms(1,2), of 3]) (use assms(3) in simp, rule that)
  have rt: "ptr_frame (get_pml4 t) = Ok r" using assms(2) t(4) by simp
  have av: "0 + 3 \<le> free_frames (alloc t)" using t(5) by simp
  obtain u lev' pt pte where u: "map_with request_page TO_KERNEL_MAP t (get_pml4 t) v p flags = Ok u" "kvm_inv u r lev'"
    "\<And>w. translate u r w = (if indices w = indices v then Some (take_bit 28 (drop_bit 12 p)) else translate t r w)"
    "\<And>h. frame_taken (alloc t) h \<Longrightarrow> lev h = 0 \<Longrightarrow> pmem u h = pmem t h \<and> lev' h = 0"
    "\<And>w g. walk t r (upper w) = Some g \<Longrightarrow> walk u r (upper w) = Some g"
    by (rule pm.map_with_total [OF conv_ok_hh t(3) rt assms(4,5) av, where flags = flags]) (rule that)
  have cw: "walk u q (upper w) = walk s r (upper w)" for w using u(4) by (intro t(8) [rule_format]) simp
  have trq: "translate u q w = (if walk s r (upper w) = None then None else translate u r w)" for w
    using u(5) [of w] t(6) [of w] cw by (auto simp: translate_upper split: option.split)
  have trt: "translate t r w = translate s r w" for w
  proof (cases "walk s r (upper w)")
    case (Some x)
    have "child t x i = child s x i" for i
      by (rule child_cong) (rule t(7), use walk_pt_level [OF wf Some] in simp)
    then show ?thesis using Some t(6) by (simp add: translate_upper)
  qed (simp add: translate_upper t(6))
  have m: "(0xfff :: u64) = mask 12" by (simp add: mask_eq_exp_minus_1)
  have "IS_ALIGNED p" using assms(5) unfolding take_bit_12_aligned m take_bit_eq_mask .
  then have pp: "push_bit 12 (take_bit 28 (drop_bit 12 p)) = p"
    using take_bit_28 [OF frame_less [OF assms(6)]] aligned_split by simp
  have none: "translate s r w = None" if "walk s r (upper w) = None" for w using that by (simp add: translate_upper)
  have "virtual_to_physical u (get_pml4 t) v = Ok p"
    using u(3) [of v] pp by (simp add: virtual_to_physical_translate [OF rt])
  moreover have "virtual_to_physical u new v = (if walk s r (upper v) = None then Ok 0 else Ok p)"
    using trq [of v] u(3) [of v] pp by (simp add: virtual_to_physical_translate [OF t(2)])
  moreover have "virtual_to_physical u new w = virtual_to_physical s (get_pml4 s) w" if "indices w \<noteq> indices v" for w
    using trq [of w] u(3) [of w] trt none that
    by (simp add: virtual_to_physical_translate [OF t(2)] virtual_to_physical_translate [OF assms(2)])
  ultimately show ?thesis using t(1) u(1) by (auto simp: map_memory_hh_def)
qed

section \<open>Witnesses\<close>

lemma vm_big_dup_cost: "(\<Sum>i = 0..<512. dup_cost vm_big 0x50 i) = 2"
proof -
  have c: "child vm_big f (word_of_nat i) = (if i = 0 then child vm_big f 0 else None)" if "i < 512" for f i
  proof -
    have "word_of_nat i = (0 :: u64) \<longleftrightarrow> i = 0" using that by (simp add: word_unat_eq_iff unat_of_nat_u64 flip: unat_eq_iff_u64)
    then show ?thesis using vm_example_child [of f "word_of_nat i"] vm_example_child [of f 0] by (simp add: vm_big_def)
  qed
  have "entries_in vm_big 0x51 = 1"
    by (simp add: entries_in_def c sum.atLeast_Suc_lessThan) (simp add: vm_big_def vm_example_child)
  then have "dup_cost vm_big 0x50 i = (if i = 0 then 2 else 0)" if "i < 512" for i
    using that by (simp add: dup_cost_def c) (simp add: vm_big_def vm_example_child)
  then show ?thesis by (simp add: sum.atLeast_Suc_lessThan)
qed

lemma vm_big_upper: "walk vm_big 0x50 (upper 0) = Some 0x53" "walk vm_big 0x50 (upper 0x200000) = None"
  by (simp_all add: upper_def Let_def address_to_map_def vm_example_child vm_big_def)

theorem duplicate_translates_witness:
  "\<exists>new t. duplicate_current_pml4 vm_big = Ok (new, t)
     \<and> virtual_to_physical t new 0 = virtual_to_physical vm_big (get_pml4 vm_big) 0"
  using duplicate_translates [OF vm_big_inv vm_big_pml4] vm_big_free vm_big_dup_cost by auto

theorem mapping_after_duplication_witness:
  "\<exists>new t u. duplicate_current_pml4 vm_big = Ok (new, t) \<and> map_memory_hh t (get_pml4 t) 0x200000 0x7000 1 = Ok u
     \<and> virtual_to_physical u (get_pml4 t) 0x200000 = Ok 0x7000 \<and> virtual_to_physical u new 0x200000 = Ok 0"
  using mapping_after_duplication [OF vm_big_inv vm_big_pml4, of "0x200000" "0x7000" 1] vm_big_free vm_big_dup_cost vm_big_upper by auto

end
