(* ===== verification/Tasks.thy ===== *)
theory Tasks
  imports Scheduler SegmentTables Heap AddressSpaces
begin

text \<open>The processor side of the tasks (\<open>sched/scheduler.c\<close>, \<open>arch/cpu.h\<close>, the routines of \<open>arch/context.asm\<close> they call and
  \<open>proc/syscall.c\<close>): the contexts and stacks a task gets when it is created, what a switch saves and
  restores, the stacks the task-state segment and the GS registers are given, and the system calls. The
  scheduler's own state is that of the theory Scheduler.

  Memory is seen through addresses that all page tables share: the words of the stacks, the store of the
  heap. What the page tables themselves share is shown in AddressSpaces.\<close>

section \<open>Registers and contexts\<close>

record registers =
  x_rax :: u64
  x_rbx :: u64
  x_rcx :: u64
  x_rdx :: u64
  x_rsi :: u64
  x_rdi :: u64
  x_rbp :: u64
  x_r8 :: u64
  x_r9 :: u64
  x_r10 :: u64
  x_r11 :: u64
  x_r12 :: u64
  x_r13 :: u64
  x_r14 :: u64
  x_r15 :: u64
  x_rip :: u64
  x_cs :: u64
  x_rflags :: u64
  x_rsp :: u64
  x_ss :: u64

record cpu_context_info =
  info_stack :: u64
  info_cs :: u64
  info_ss :: u64
  info_thread :: u64

text \<open>\<open>struct cpu_context\<close>; the object \<open>info\<close> points to belongs to one context only and is part of it here.\<close>

record cpu_context = registers +
  x_cr3 :: u64
  ctx_info :: cpu_context_info
  interrupt_number :: u64
  error_code :: u64

definition zero_context :: cpu_context where
  "zero_context = \<lparr>x_rax = 0, x_rbx = 0, x_rcx = 0, x_rdx = 0, x_rsi = 0, x_rdi = 0, x_rbp = 0, x_r8 = 0, x_r9 = 0,
     x_r10 = 0, x_r11 = 0, x_r12 = 0, x_r13 = 0, x_r14 = 0, x_r15 = 0, x_rip = 0, x_cs = 0, x_rflags = 0, x_rsp = 0, x_ss = 0,
     x_cr3 = 0, ctx_info = \<lparr>info_stack = 0, info_cs = 0, info_ss = 0, info_thread = 0\<rparr>, interrupt_number = 0, error_code = 0\<rparr>"

text \<open>The fields of \<open>struct task\<close> the theory Scheduler leaves out.\<close>

record proc =
  context_at :: u64
  task_context :: cpu_context
  fxsave_region :: "u8 list"
  stack_base :: u64
  stack_top :: u64
  alt_stack_base :: u64
  alt_stack_top :: u64
  task_pd :: u64
  task_cs :: u64
  task_ds :: u64
  task_entry :: u64
  open_files :: "int list"
  task_heap :: "hst option"

text \<open>The processor, its stacks in memory, and the kernel's data. \<open>fpu\<close> is what \<open>fxsave\<close> stores; the register \<open>cr3\<close> is
  that of the state of the page tables.\<close>

record machine = registers +
  qmem :: "u64 \<Rightarrow> u64"
  fpu :: "u8 list"

record kernel = machine +
  sch :: sched
  procs :: "nat \<rightharpoonup> proc"
  kheap :: hst
  ktss :: tss
  gs_base :: u64
  kern_gs_base :: u64

abbreviation "KERNEL_TASK \<equiv> (0 :: u8)"
abbreviation "USER_TASK \<equiv> (1 :: u8)"
abbreviation "KERNEL_STACK_SIZE \<equiv> (0x4000 :: u64)"
abbreviation "USER_STACK_SIZE \<equiv> (0x4000 :: u64)"
abbreviation "TASK_SIZE \<equiv> (1088 :: u64)"
abbreviation "CONTEXT_SIZE \<equiv> (192 :: u64)"
abbreviation "CONTEXT_INFO_SIZE \<equiv> (32 :: u64)"

definition get_p :: "kernel \<Rightarrow> nat \<Rightarrow> proc result" where
  "get_p s a = (case procs s a of None \<Rightarrow> Err Fault | Some p \<Rightarrow> Ok p)"

section \<open>The context switch\<close>

text \<open>\<open>newctxswtch\<close>, entered by a call: the return address is on the stack. What is saved are the flags after \<open>cli\<close> and
  \<open>xor rax, rax\<close>.\<close>

definition saved_flags :: "u64 \<Rightarrow> u64" where
  "saved_flags f = f AND NOT 0xad5 OR 0x44"

definition save_context :: "kernel \<Rightarrow> cpu_context \<Rightarrow> cpu_context" where
  "save_context s c = c\<lparr>x_cr3 := cr3 (hvm (kheap s)), x_rax := x_rax s, x_rbx := x_rbx s, x_rcx := x_rcx s, x_rdx := x_rdx s, x_rsi := x_rsi s,
     x_rdi := x_rdi s, x_rbp := x_rbp s, x_r8 := x_r8 s, x_r9 := x_r9 s, x_r10 := x_r10 s, x_r11 := x_r11 s, x_r12 := x_r12 s,
     x_r13 := x_r13 s, x_r14 := x_r14 s, x_r15 := x_r15 s, interrupt_number := 0, error_code := 0,
     x_rip := qmem s (x_rsp s), x_cs := x_cs s, x_rflags := saved_flags (x_rflags s), x_rsp := x_rsp s, x_ss := x_ss s\<rparr>"

text \<open>The registers of the new context are loaded; the pushes of its instruction pointer and flags go below the old stack
  pointer. The last instructions are \<open>sti\<close> and \<open>ret\<close>, which takes the address to go on at from the new stack.\<close>

definition load_context :: "cpu_context \<Rightarrow> u8 list \<Rightarrow> kernel \<Rightarrow> kernel" where
  "load_context c fx s = (let mem = (qmem s)(x_rsp s - 8 := x_rip c, x_rsp s - 16 := x_rflags c) in
     s\<lparr>kheap := (kheap s)\<lparr>hvm := (hvm (kheap s))\<lparr>cr3 := x_cr3 c\<rparr>\<rparr>, fpu := fx, x_rax := x_rax c, x_rbx := x_rbx c, x_rcx := x_rcx c, x_rdx := x_rdx c, x_rsi := x_rsi c,
       x_rdi := x_rdi c, x_rbp := x_rbp c, x_r8 := x_r8 c, x_r9 := x_r9 c, x_r10 := x_r10 c, x_r11 := x_r11 c, x_r12 := x_r12 c,
       x_r13 := x_r13 c, x_r14 := x_r14 c, x_r15 := x_r15 c, x_rflags := x_rflags c OR 0x200,
       x_rip := mem (x_rsp c), x_rsp := x_rsp c + 8, qmem := mem\<rparr>)"

definition newctxswtch :: "nat \<Rightarrow> nat \<Rightarrow> kernel \<Rightarrow> kernel result" where
  "newctxswtch old new s = rbind (get_p s old) (\<lambda>p.
     let s1 = s\<lparr>procs := (procs s)(old \<mapsto> p\<lparr>task_context := save_context s (task_context p), fxsave_region := fpu s\<rparr>)\<rparr> in
     rbind (get_p s1 new) (\<lambda>q.
     let s2 = load_context (task_context q) (fxsave_region q) s1 in Ok (s2\<lparr>sch := (sch s2)\<lparr>irqs_on := True\<rparr>\<rparr>)))"

text \<open>The routines that lay out the stack of a new task. \<open>returnoexit\<close> and \<open>trampoline\<close> are the addresses of the two
  routines of these names; \<open>field\<close> is the address of the field \<open>stack_top\<close>.\<close>

fun push_words :: "u64 list \<Rightarrow> u64 \<Rightarrow> (u64 \<Rightarrow> u64) \<Rightarrow> u64 \<times> (u64 \<Rightarrow> u64)" where
  "push_words [] sp mem = (sp, mem)"
| "push_words (w # ws) sp mem = push_words ws (sp - 8) (mem(sp - 8 := w))"

definition newctxcreat :: "u64 \<Rightarrow> u64 \<Rightarrow> u64 \<Rightarrow> (u64 \<Rightarrow> u64) \<Rightarrow> u64 \<times> (u64 \<Rightarrow> u64)" where
  "newctxcreat returnoexit rsp init mem = push_words [returnoexit, 0, init] rsp mem"

definition newuctxcreat :: "u64 \<Rightarrow> u64 \<Rightarrow> u64 \<Rightarrow> u64 \<Rightarrow> u64 \<Rightarrow> (u64 \<Rightarrow> u64) \<Rightarrow> u64 \<times> (u64 \<Rightarrow> u64)" where
  "newuctxcreat returnoexit trampoline field rsp init mem = push_words [returnoexit, 0, init, field, trampoline] rsp mem"

section \<open>Entering a task\<close>

definition syscall_set_user_gs :: "u64 \<Rightarrow> kernel \<Rightarrow> kernel" where
  "syscall_set_user_gs addr s = s\<lparr>gs_base := addr\<rparr>"

definition syscall_set_kernel_gs :: "u64 \<Rightarrow> kernel \<Rightarrow> kernel" where
  "syscall_set_kernel_gs addr s = s\<lparr>kern_gs_base := addr\<rparr>"

definition enter_task :: "nat \<Rightarrow> kernel \<Rightarrow> kernel result" where
  "enter_task a s = rbind (get_t (sch s) a) (\<lambda>t. rbind (get_p s a) (\<lambda>p.
     if privilege t = KERNEL_TASK
     then rbind (tss_set_stack (ktss s) (stack_top p) 0) (\<lambda>x. rbind (tss_set_stack x (alt_stack_top p) 3) (\<lambda>x.
       Ok (syscall_set_kernel_gs (context_at p) s\<lparr>ktss := x\<rparr>)))
     else rbind (tss_set_stack (ktss s) (stack_top p) 3) (\<lambda>x. rbind (tss_set_stack x (alt_stack_top p) 0) (\<lambda>x.
       Ok (syscall_set_user_gs (context_at p) s\<lparr>ktss := x\<rparr>)))))"

text \<open>\<open>yield\<close> with the part the theory Scheduler leaves out.\<close>

definition yield_cpu :: "nat \<Rightarrow> kernel \<Rightarrow> kernel result" where
  "yield_cpu k s = rbind (yield k (sch s)) (\<lambda>t.
     rbind (enter_task (current_task t) (s\<lparr>sch := t\<rparr>)) (\<lambda>s1.
     newctxswtch (current_task (sch s)) (current_task t) s1))"

section \<open>Creating a task\<close>

definition put_proc :: "nat \<Rightarrow> proc \<Rightarrow> kernel \<Rightarrow> kernel" where
  "put_proc a p s = s\<lparr>procs := (procs s)(a \<mapsto> p)\<rparr>"

text \<open>An allocation the code writes to without a test.\<close>

definition kmalloc_used :: "nat \<Rightarrow> hst \<Rightarrow> u64 \<Rightarrow> (u64 \<times> hst) result" where
  "kmalloc_used scan h sz = rbind (kmalloc scan h sz) (\<lambda>(p, h). if p = 0 then Err Fault else Ok (p, h))"

definition first_context :: "proc \<Rightarrow> u64 \<Rightarrow> u64 \<Rightarrow> u64 \<Rightarrow> cpu_context" where
  "first_context p sp0 stack init = zero_context\<lparr>x_cr3 := task_pd p,
     ctx_info := \<lparr>info_stack = stack, info_cs = task_cs p, info_ss = task_ds p, info_thread = 0\<rparr>,
     x_rax := 2, x_rbx := 3, x_rcx := 4, x_rdx := 5, x_rsi := 6, x_rdi := 7, x_rbp := 8, x_r8 := 9, x_r9 := 10, x_r10 := 11,
     x_r11 := 12, x_r12 := 13, x_r13 := 14, x_r14 := 15, x_r15 := 16, interrupt_number := 0, error_code := 0, x_rip := init,
     x_cs := task_cs p, x_rflags := 0x202, x_ss := task_ds p, x_rsp := sp0\<rparr>"

definition initialize_context :: "nat \<Rightarrow> u64 \<Rightarrow> u64 \<Rightarrow> u8 \<Rightarrow> nat \<Rightarrow> u64 \<Rightarrow> kernel \<Rightarrow> kernel result" where
  "initialize_context scan returnoexit trampoline priv a init s = rbind (get_p s a) (\<lambda>p.
     let (sp0, mem) = (if priv = KERNEL_TASK then newctxcreat returnoexit (stack_top p) init (qmem s)
                       else newuctxcreat returnoexit trampoline (of_nat a + 16) (stack_top p) init (qmem s)) in
     rbind (kmalloc_used scan (kheap s) CONTEXT_SIZE) (\<lambda>(c, h).
     rbind (kmalloc_used scan h CONTEXT_INFO_SIZE) (\<lambda>(i, h).
     rbind (kstackalloc h KERNEL_STACK_SIZE) (\<lambda>(stack, h).
     Ok (put_proc a (p\<lparr>stack_top := sp0, context_at := c, fxsave_region := fpu s,
          task_context := first_context p sp0 (stack + KERNEL_STACK_SIZE) init\<rparr>) (s\<lparr>qmem := mem, kheap := h\<rparr>))))))"

text \<open>The standard streams: the device's file when it could be opened. \<open>fd\<close> is what \<open>device_search\<close> and \<open>vfs_file_open\<close> (modelled
  in Devices and FsInterface) answer: \<open>None\<close> when there is no device of that name.\<close>

definition standard_files :: "int option \<Rightarrow> int list" where
  "standard_files fd = (case fd of None \<Rightarrow> replicate 32 (-1)
     | Some d \<Rightarrow> if d = -1 then replicate 32 (-1) else [d, d, d] @ replicate 29 (-1))"

text \<open>The page tables and stacks. \<open>p\<close> is the uninitialised record of the new task, \<open>raw\<close> the uninitialised page its heap
  structure is laid over.\<close>

definition kernel_stacks :: "proc \<Rightarrow> hst \<Rightarrow> (proc \<times> hst) result" where
  "kernel_stacks p h = rbind (duplicate_current_pml4 (hvm h)) (\<lambda>(new, v).
     rbind (kstackalloc (h\<lparr>hvm := v\<rparr>) KERNEL_STACK_SIZE) (\<lambda>(base, h).
     Ok (p\<lparr>task_pd := FROM_KERNEL_MAP new, stack_base := base, stack_top := base + KERNEL_STACK_SIZE,
           task_cs := ucast get_kernel_code_selector, task_ds := ucast get_kernel_data_selector, task_heap := None\<rparr>, h)))"

definition user_stacks :: "proc \<Rightarrow> hst \<Rightarrow> hst \<Rightarrow> (proc \<times> hst) result" where
  "user_stacks p raw h = rbind (duplicate_current_kernel_pml4 (hvm h)) (\<lambda>(new, v).
     rbind (request_page (alloc v)) (\<lambda>(_, m).
     rbind (create_user_heap (raw\<lparr>hvm := v\<lparr>alloc := m\<rparr>\<rparr>) (FROM_KERNEL_MAP new)) (\<lambda>u.
     rbind (ustackalloc u (FROM_KERNEL_MAP new) USER_STACK_SIZE) (\<lambda>(base, u).
     rbind (kstackalloc (h\<lparr>hvm := hvm u\<rparr>) KERNEL_STACK_SIZE) (\<lambda>(alt, h).
     Ok (p\<lparr>task_pd := FROM_KERNEL_MAP new, stack_base := base, stack_top := base + USER_STACK_SIZE,
           alt_stack_base := alt, alt_stack_top := alt + KERNEL_STACK_SIZE,
           task_cs := ucast get_user_code_selector, task_ds := ucast get_user_data_selector, task_heap := Some u\<rparr>, h))))))"

definition create_task_cpu ::
  "nat \<Rightarrow> nat \<Rightarrow> u64 \<Rightarrow> u64 \<Rightarrow> u64 \<Rightarrow> u8 list \<Rightarrow> int option \<Rightarrow> u8 \<Rightarrow> u8 list \<Rightarrow> proc \<Rightarrow> hst \<Rightarrow> kernel \<Rightarrow> (nat \<times> kernel) result" where
  "create_task_cpu k scan returnoexit trampoline init tty fd priv junk p0 raw s =
     rbind (kmalloc_used scan (kheap s) TASK_SIZE) (\<lambda>(t, h).
     rbind (create_task k (sch s) (unat t) priv tty junk) (\<lambda>sc.
     rbind (kmalloc_used scan h 128) (\<lambda>(_, h).
     rbind (if priv = KERNEL_TASK then kernel_stacks (p0\<lparr>task_entry := init, open_files := standard_files fd\<rparr>) h
            else user_stacks (p0\<lparr>task_entry := init, open_files := standard_files fd\<rparr>) raw h) (\<lambda>(p, h).
     rbind (initialize_context scan returnoexit trampoline priv (unat t) init
       (put_proc (unat t) p (s\<lparr>sch := sc, kheap := h\<rparr>))) (\<lambda>s. Ok (unat t, s))))))"

text \<open>\<open>go\<close>: the boot code becomes a task of its own, never entered in the list, and the first task is switched to.\<close>

definition boot_proc :: "u64 \<Rightarrow> proc" where
  "boot_proc c = \<lparr>context_at = c, task_context = zero_context, fxsave_region = replicate 512 0, stack_base = 0, stack_top = 0,
     alt_stack_base = 0, alt_stack_top = 0, task_pd = 0, task_cs = 0, task_ds = 0, task_entry = 0, open_files = [], task_heap = None\<rparr>"

definition go :: "nat \<Rightarrow> nat \<Rightarrow> u32 \<Rightarrow> kernel \<Rightarrow> kernel result" where
  "go k scan preempt s = rbind (kmalloc_used scan (kheap s) TASK_SIZE) (\<lambda>(b, h).
     rbind (kmalloc_used scan h CONTEXT_SIZE) (\<lambda>(c, h).
     rbind (kmalloc_used scan h CONTEXT_INFO_SIZE) (\<lambda>(i, h).
     let pt = spit (sch s);
         sc = (sch s)\<lparr>irqs_on := False, spit := (if preempt \<noteq> 0 then enable_preemption (set_preemption_ticks pt (ucast preempt)) else pt)\<rparr> in
     rbind (schedule k sc) (\<lambda>(_, t).
     rbind (enter_task (current_task t) (syscall_set_kernel_gs c (put_proc (unat b) (boot_proc c) (s\<lparr>kheap := h, sch := t\<rparr>)))) (\<lambda>s.
     newctxswtch (unat b) (current_task t) s)))))"

section \<open>System calls\<close>

abbreviation "SYSCALL_SUCCESS \<equiv> (0 :: u64)"
abbreviation "SYSCALL_UNDEFINED \<equiv> (- 1 :: u64)"
abbreviation "SYSCALL_ERROR \<equiv> (- 2 :: u64)"
abbreviation "SYSCALL_HANDLER_COUNT \<equiv> (256 :: u64)"

definition undefined_syscall_handler :: "cpu_context \<Rightarrow> cpu_context" where
  "undefined_syscall_handler ctx = ctx\<lparr>x_rax := SYSCALL_UNDEFINED\<rparr>"

definition read_syscall_handler :: "cpu_context \<Rightarrow> cpu_context" where
  "read_syscall_handler ctx = ctx\<lparr>x_rax := SYSCALL_SUCCESS\<rparr>"

text \<open>The characters printed, from the memory of the caller.\<close>

definition write_syscall_handler :: "(u64 \<Rightarrow> u8) \<Rightarrow> cpu_context \<Rightarrow> cpu_context \<times> u8 list" where
  "write_syscall_handler mem ctx = (ctx\<lparr>x_rax := SYSCALL_SUCCESS\<rparr>,
     map (\<lambda>i. mem (x_rsi ctx + of_nat i)) [0..<unat (x_rdx ctx)])"

definition global_syscall_handler :: "(u64 \<Rightarrow> u8) \<Rightarrow> cpu_context \<Rightarrow> cpu_context \<times> u8 list" where
  "global_syscall_handler mem ctx = (if x_rax ctx < SYSCALL_HANDLER_COUNT
     then (if x_rax ctx = 0 then (read_syscall_handler ctx, [])
           else if x_rax ctx = 1 then write_syscall_handler mem ctx
           else (undefined_syscall_handler ctx, []))
     else (ctx\<lparr>x_rax := SYSCALL_ERROR\<rparr>, []))"

section \<open>Switching\<close>

lemma get_p_Some [simp]: "procs s a = Some p \<Longrightarrow> get_p s a = Ok p"
  by (simp add: get_p_def)

lemma newctxswtch_eq:
  "procs s a = Some p \<Longrightarrow> procs s b = Some q \<Longrightarrow> a \<noteq> b \<Longrightarrow> newctxswtch a b s =
     Ok (let s2 = load_context (task_context q) (fxsave_region q)
           (s\<lparr>procs := (procs s)(a \<mapsto> p\<lparr>task_context := save_context s (task_context p), fxsave_region := fpu s\<rparr>)\<rparr>)
         in s2\<lparr>sch := (sch s2)\<lparr>irqs_on := True\<rparr>\<rparr>)"
  by (simp add: newctxswtch_def get_p_def Let_def)

text \<open>What the switch leaves in the processor: the registers of the context, the interrupts on, and the execution at the
  address on the context's stack.\<close>

definition runs_at :: "cpu_context \<Rightarrow> u8 list \<Rightarrow> u64 \<Rightarrow> kernel \<Rightarrow> bool" where
  "runs_at c fx ip s \<longleftrightarrow> x_rip s = ip \<and> x_rsp s = x_rsp c + 8 \<and> cr3 (hvm (kheap s)) = x_cr3 c \<and> fpu s = fx \<and> irqs_on (sch s)
     \<and> x_rax s = x_rax c \<and> x_rbx s = x_rbx c \<and> x_rcx s = x_rcx c \<and> x_rdx s = x_rdx c \<and> x_rsi s = x_rsi c \<and> x_rdi s = x_rdi c
     \<and> x_rbp s = x_rbp c \<and> x_r8 s = x_r8 c \<and> x_r9 s = x_r9 c \<and> x_r10 s = x_r10 c \<and> x_r11 s = x_r11 c \<and> x_r12 s = x_r12 c
     \<and> x_r13 s = x_r13 c \<and> x_r14 s = x_r14 c \<and> x_r15 s = x_r15 c \<and> x_rflags s = x_rflags c OR 0x200"

text \<open>The two words the switch leaves below the old stack pointer are not the word the new stack starts with.\<close>

definition clear_of :: "kernel \<Rightarrow> u64 \<Rightarrow> bool" where
  "clear_of s sp \<longleftrightarrow> x_rsp s - 8 \<noteq> sp \<and> x_rsp s - 16 \<noteq> sp"

lemma newctxswtch_runs:
  assumes "procs s a = Some p" and "procs s b = Some q" and "a \<noteq> b" and "clear_of s (x_rsp (task_context q))"
  obtains s' where "newctxswtch a b s = Ok s'" and "runs_at (task_context q) (fxsave_region q) (qmem s (x_rsp (task_context q))) s'"
    and "procs s' = (procs s)(a \<mapsto> p\<lparr>task_context := save_context s (task_context p), fxsave_region := fpu s\<rparr>)"
    and "\<And>x. x \<noteq> x_rsp s - 8 \<Longrightarrow> x \<noteq> x_rsp s - 16 \<Longrightarrow> qmem s' x = qmem s x"
    and "ktss s' = ktss s" and "kern_gs_base s' = kern_gs_base s" and "gs_base s' = gs_base s"
    and "sch s' = (sch s)\<lparr>irqs_on := True\<rparr>"
  by (rule that [OF newctxswtch_eq [OF assms(1-3)]])
    (use assms(4) in \<open>auto simp: Let_def load_context_def runs_at_def clear_of_def\<close>)

text \<open>C12: a switch is undone by the switch back. A task that called the switch goes on behind that call with its registers,
  stack, page tables and floating-point state, whatever ran in between, if that left its context and the return
  address on its stack alone.\<close>

theorem switch_resumes:
  assumes "procs s a = Some p" and "procs s b = Some q" and "a \<noteq> b" and "clear_of s (x_rsp (task_context q))"
    and ret: "procs t c = Some r" "c \<noteq> a" "clear_of t (x_rsp s)" "qmem t (x_rsp s) = qmem s (x_rsp s)"
    and kept: "\<And>s1. newctxswtch a b s = Ok s1 \<Longrightarrow> procs t a = procs s1 a"
  shows "\<exists>t'. newctxswtch c a t = Ok t' \<and> x_rip t' = qmem s (x_rsp s) \<and> x_rsp t' = x_rsp s + 8
    \<and> cr3 (hvm (kheap t')) = cr3 (hvm (kheap s)) \<and> fpu t' = fpu s \<and> irqs_on (sch t')
    \<and> x_rax t' = x_rax s \<and> x_rbx t' = x_rbx s \<and> x_rcx t' = x_rcx s \<and> x_rdx t' = x_rdx s \<and> x_rsi t' = x_rsi s \<and> x_rdi t' = x_rdi s
    \<and> x_rbp t' = x_rbp s \<and> x_r8 t' = x_r8 s \<and> x_r9 t' = x_r9 s \<and> x_r10 t' = x_r10 s \<and> x_r11 t' = x_r11 s \<and> x_r12 t' = x_r12 s
    \<and> x_r13 t' = x_r13 s \<and> x_r14 t' = x_r14 s \<and> x_r15 t' = x_r15 s"
proof -
  let ?c = "save_context s (task_context p)"
  obtain s1 where s1: "newctxswtch a b s = Ok s1"
    "procs s1 = (procs s)(a \<mapsto> p\<lparr>task_context := ?c, fxsave_region := fpu s\<rparr>)"
    by (rule newctxswtch_runs [OF assms(1-4)])
  have a: "procs t a = Some (p\<lparr>task_context := ?c, fxsave_region := fpu s\<rparr>)" using kept [OF s1(1)] s1(2) by simp
  have "clear_of t (x_rsp (task_context (p\<lparr>task_context := ?c, fxsave_region := fpu s\<rparr>)))" using ret(3) by (simp add: save_context_def)
  then obtain t' where "newctxswtch c a t = Ok t'" "runs_at ?c (fpu s) (qmem t (x_rsp ?c)) t'"
    by (rule newctxswtch_runs [OF ret(1) a ret(2)]) simp
  then show ?thesis using ret(4) by (auto simp: runs_at_def save_context_def)
qed

section \<open>Yielding\<close>

lemma enter_task_stacks:
  assumes "tasks (sch s) a = Some t" and "procs s a = Some p" and "length (tss_rsp (ktss s)) = 3"
  obtains x where "enter_task a s = Ok (if privilege t = KERNEL_TASK then s\<lparr>kern_gs_base := context_at p, ktss := x\<rparr>
      else s\<lparr>gs_base := context_at p, ktss := x\<rparr>)" and "length (tss_rsp x) = 3"
    and "tss_rsp x ! 0 = (if privilege t = KERNEL_TASK then stack_top p else alt_stack_top p)"
    and "tss_rsp x ! 2 = (if privilege t = KERNEL_TASK then alt_stack_top p else stack_top p)"
proof -
  let ?l = "tss_rsp (ktss s)"
  let ?x = "(ktss s)\<lparr>tss_rsp := if privilege t = KERNEL_TASK then ?l[0 := stack_top p, 2 := alt_stack_top p]
    else ?l[2 := stack_top p, 0 := alt_stack_top p]\<rparr>"
  have "enter_task a s = Ok (if privilege t = KERNEL_TASK then s\<lparr>kern_gs_base := context_at p, ktss := ?x\<rparr>
      else s\<lparr>gs_base := context_at p, ktss := ?x\<rparr>)"
    using assms by (auto simp: enter_task_def get_t_def tss_set_stack_def DLP_CONVERT_def wr_def
        syscall_set_kernel_gs_def syscall_set_user_gs_def)
  then show thesis by (rule that) (use assms(3) in simp_all)
qed

text \<open>The context a task goes on with when \<open>o\<close> switches to it: a task that switches to itself goes on with what it has just saved.\<close>

definition resumed :: "nat \<Rightarrow> nat \<Rightarrow> kernel \<Rightarrow> proc \<Rightarrow> proc" where
  "resumed old new s q = (if new = old then q\<lparr>task_context := save_context s (task_context q), fxsave_region := fpu s\<rparr> else q)"

lemma newctxswtch_resumes:
  assumes "procs s a = Some p" and "procs s b = Some q" and "a = b \<or> clear_of s (x_rsp (task_context q))"
  obtains s' where "newctxswtch a b s = Ok s'"
    and "runs_at (task_context (resumed a b s q)) (fxsave_region (resumed a b s q)) (qmem s (x_rsp (task_context (resumed a b s q)))) s'"
    and "procs s' = (procs s)(a \<mapsto> p\<lparr>task_context := save_context s (task_context p), fxsave_region := fpu s\<rparr>)"
    and "ktss s' = ktss s" and "kern_gs_base s' = kern_gs_base s" and "gs_base s' = gs_base s"
    and "sch s' = (sch s)\<lparr>irqs_on := True\<rparr>"
proof (cases "a = b")
  case True
  let ?p = "p\<lparr>task_context := save_context s (task_context p), fxsave_region := fpu s\<rparr>"
  let ?s = "s\<lparr>procs := (procs s)(a \<mapsto> ?p)\<rparr>"
  have q: "q = p" using assms(1,2) True by simp
  have "newctxswtch a b s = Ok (let s2 = load_context (task_context ?p) (fxsave_region ?p) ?s in s2\<lparr>sch := (sch s2)\<lparr>irqs_on := True\<rparr>\<rparr>)"
    using assms(1) True by (simp add: newctxswtch_def get_p_def Let_def)
  then show thesis by (rule that)
      (simp_all add: q True resumed_def load_context_def runs_at_def save_context_def Let_def)
next
  case False
  then obtain s' where "newctxswtch a b s = Ok s'" "runs_at (task_context q) (fxsave_region q) (qmem s (x_rsp (task_context q))) s'"
    "procs s' = (procs s)(a \<mapsto> p\<lparr>task_context := save_context s (task_context p), fxsave_region := fpu s\<rparr>)"
    "ktss s' = ktss s" "kern_gs_base s' = kern_gs_base s" "gs_base s' = gs_base s" "sch s' = (sch s)\<lparr>irqs_on := True\<rparr>"
    using newctxswtch_runs [OF assms(1,2) False] assms(3) by metis
  with False show thesis by (intro that) (simp_all add: resumed_def)
qed

text \<open>C11: a yield on a well-formed list of tasks (the idle task at its head), each with its context, when the word at the
  saved stack pointer of another task that is chosen is not one of the two words below the running stack that the switch
  overwrites. It does not fail; the processor goes on with the task the scheduler chose (which may be the one that
  yielded: it goes on with what it has just saved), on that task's stack and in its address space with interrupts
  on. The task-state segment holds both stacks of that task, for a kernel task its stack for privilege 0 and its
  alternative stack for privilege 3, for a user task the other way round; the context of the task that yielded
  holds the registers it had. The GS base for the kernel is set for kernel tasks only, the other one for user tasks only.
  The stacks are those of one memory, whatever the page tables.\<close>

theorem yield_cpu_runs:
  assumes wf: "sched_wf (sch s) xs" and k: "length xs \<le> k" and pr: "\<forall>a \<in> set xs. procs s a \<noteq> None"
    and tl: "length (tss_rsp (ktss s)) = 3"
    and sp: "\<forall>q. procs s (chosen (sch s) xs) = Some q \<longrightarrow>
      current_task (sch s) = chosen (sch s) xs \<or> clear_of s (x_rsp (task_context q))"
  shows "\<exists>s' t p q r. yield_cpu k s = Ok s' \<and> sched_wf (sch s') xs \<and> current_task (sch s') = chosen (sch s) xs
    \<and> procs s (current_task (sch s)) = Some p \<and> procs s (chosen (sch s) xs) = Some q
    \<and> r = (if chosen (sch s) xs = current_task (sch s)
        then q\<lparr>task_context := save_context s (task_context q), fxsave_region := fpu s\<rparr> else q)
    \<and> runs_at (task_context r) (fxsave_region r) (qmem s (x_rsp (task_context r))) s'
    \<and> procs s' = (procs s)(current_task (sch s) \<mapsto> p\<lparr>task_context := save_context s (task_context p), fxsave_region := fpu s\<rparr>)
    \<and> tasks (sch s') (chosen (sch s) xs) = Some t \<and> length (tss_rsp (ktss s')) = 3
    \<and> tss_rsp (ktss s') ! 0 = (if privilege t = KERNEL_TASK then stack_top q else alt_stack_top q)
    \<and> tss_rsp (ktss s') ! 2 = (if privilege t = KERNEL_TASK then alt_stack_top q else stack_top q)
    \<and> kern_gs_base s' = (if privilege t = KERNEL_TASK then context_at q else kern_gs_base s)
    \<and> gs_base s' = (if privilege t = KERNEL_TASK then gs_base s else context_at q)"
proof -
  let ?c = "chosen (sch s) xs" and ?o = "current_task (sch s)"
  obtain u where u: "yield k (sch s) = Ok u" "sched_wf u xs" "current_task u = ?c" using yield_ok [OF wf k] by blast
  obtain t where t: "tasks u ?c = Some t" using sched_wf_task [OF u(2) chosen_in [OF wf]] by blast
  have "?o \<in> set xs" using wf by (simp add: sched_wf_def)
  then obtain p q where old: "procs s ?o = Some p" and new: "procs s ?c = Some q" using pr chosen_in [OF wf] by blast
  let ?s = "s\<lparr>sch := u\<rparr>"
  obtain x where x: "enter_task ?c ?s = Ok (if privilege t = KERNEL_TASK then ?s\<lparr>kern_gs_base := context_at q, ktss := x\<rparr>
      else ?s\<lparr>gs_base := context_at q, ktss := x\<rparr>)" "length (tss_rsp x) = 3"
    "tss_rsp x ! 0 = (if privilege t = KERNEL_TASK then stack_top q else alt_stack_top q)"
    "tss_rsp x ! 2 = (if privilege t = KERNEL_TASK then alt_stack_top q else stack_top q)"
    by (rule enter_task_stacks [of ?s ?c t q]) (use t new tl in simp_all)
  define s1 where "s1 = (if privilege t = KERNEL_TASK then ?s\<lparr>kern_gs_base := context_at q, ktss := x\<rparr>
      else ?s\<lparr>gs_base := context_at q, ktss := x\<rparr>)"
  have s1: "procs s1 = procs s" "sch s1 = u" "ktss s1 = x" "qmem s1 = qmem s" "x_rsp s1 = x_rsp s" "fpu s1 = fpu s"
    "kern_gs_base s1 = (if privilege t = KERNEL_TASK then context_at q else kern_gs_base s)"
    "gs_base s1 = (if privilege t = KERNEL_TASK then gs_base s else context_at q)"
    "save_context s1 = save_context s" by (auto simp: s1_def save_context_def)
  let ?r = "resumed ?o ?c s1 q"
  have "procs s1 ?o = Some p" "procs s1 ?c = Some q" "?o = ?c \<or> clear_of s1 (x_rsp (task_context q))"
    using old new sp by (auto simp: s1 clear_of_def)
  from newctxswtch_resumes [OF this] obtain s' where s': "newctxswtch ?o ?c s1 = Ok s'"
    "runs_at (task_context ?r) (fxsave_region ?r) (qmem s1 (x_rsp (task_context ?r))) s'"
    "procs s' = (procs s1)(?o \<mapsto> p\<lparr>task_context := save_context s1 (task_context p), fxsave_region := fpu s1\<rparr>)"
    "ktss s' = ktss s1" "kern_gs_base s' = kern_gs_base s1" "gs_base s' = gs_base s1" "sch s' = (sch s1)\<lparr>irqs_on := True\<rparr>" by metis
  have "yield_cpu k s = Ok s'" using u(1,3) x(1) s'(1) by (simp add: yield_cpu_def flip: s1_def)
  moreover have "?r = (if ?c = ?o then q\<lparr>task_context := save_context s (task_context q), fxsave_region := fpu s\<rparr> else q)"
    by (simp add: resumed_def s1)
  ultimately show ?thesis
    by (intro exI [of _ s'] exI [of _ t] exI [of _ p] exI [of _ q] exI [of _ ?r]) (use s' s1 u(2,3) t x(2-4) old new in auto)
qed

section \<open>The start of a task\<close>

lemma kmalloc_used_Ok: "kmalloc_used scan h n = Ok (p, h') \<Longrightarrow> kmalloc scan h n = Ok (p, h') \<and> p \<noteq> 0"
  by (auto simp: kmalloc_used_def split: if_splits)

text \<open>C13: a new kernel task. After \<open>initialize_context\<close> a switch to the task starts its function, in its own page tables and
  with interrupts on, sixteen bytes below the top of its stack. The return address the function finds there
  is 0: a function that returns does not get to \<open>returnoexit\<close>, whose address lies one word higher.\<close>

theorem new_task_starts:
  assumes init: "initialize_context scan returnoexit trampoline KERNEL_TASK a f s = Ok s1" and p: "procs s a = Some p"
    and later: "procs t a = procs s1 a" "qmem t (stack_top p - 24) = qmem s1 (stack_top p - 24)"
    and old: "procs t c = Some r" "c \<noteq> a" "clear_of t (stack_top p - 24)"
  shows "\<exists>t'. newctxswtch c a t = Ok t' \<and> x_rip t' = f \<and> x_rsp t' = stack_top p - 16
    \<and> cr3 (hvm (kheap t')) = task_pd p \<and> irqs_on (sch t')
    \<and> qmem s1 (stack_top p - 16) = 0 \<and> qmem s1 (stack_top p - 8) = returnoexit"
proof -
  let ?t = "stack_top p"
  have w: "?t - 8 - 8 = ?t - 16" "?t - 16 - 8 = ?t - 24" by (simp_all add: diff_diff_eq)
  have n: "?t - 24 \<noteq> ?t - 16" "?t - 24 \<noteq> ?t - 8" "?t - 16 \<noteq> ?t - 8" by simp_all
  obtain ca stack h p1 where s1: "s1 = put_proc a p1 (s\<lparr>qmem := (qmem s)(?t - 8 := returnoexit, ?t - 16 := 0, ?t - 24 := f), kheap := h\<rparr>)"
    "p1 = p\<lparr>stack_top := ?t - 24, context_at := ca, fxsave_region := fpu s,
       task_context := first_context p (?t - 24) (stack + KERNEL_STACK_SIZE) f\<rparr>"
    using init p by (auto simp: initialize_context_def newctxcreat_def w)
  have a: "procs t a = Some p1" using later(1) s1(1) by (simp add: put_proc_def)
  have c: "x_rsp (task_context p1) = ?t - 24" "x_cr3 (task_context p1) = task_pd p" by (simp_all add: s1(2) first_context_def)
  obtain t' where t': "newctxswtch c a t = Ok t'" "runs_at (task_context p1) (fxsave_region p1) (qmem t (x_rsp (task_context p1))) t'"
    by (rule newctxswtch_runs [OF old(1) a old(2)]) (use old(3) c in simp_all)
  have "qmem s1 (?t - 24) = f" "qmem s1 (?t - 16) = 0" "qmem s1 (?t - 8) = returnoexit" using n by (simp_all add: s1(1) put_proc_def)
  then show ?thesis using t' c later(2) by (auto simp: runs_at_def)
qed

section \<open>Concrete runs\<close>

text \<open>A heap with two free segments of the sizes \<open>initialize_context\<close> asks for.\<close>

definition heap_for_task :: hst where
  "heap_for_task = heap_blank\<lparr>lastStack := 0x80000, mainSegment := 0x10000, ready := 1,
     hdrs := [0x10000 \<mapsto> \<lparr>s_free = 1, s_length = 192, s_next = 0x9000, s_last = 0, s_isStack = 0, s_signature = HEAP_SIGNATURE\<rparr>,
              0x9000 \<mapsto> \<lparr>s_free = 1, s_length = 32, s_next = 0, s_last = 0x10000, s_isStack = 0, s_signature = HEAP_SIGNATURE\<rparr>]\<rparr>"

lemma no_split: "(sz :: u64) < 0x1000 \<Longrightarrow> \<not> sz + HDR < sz"
proof -
  assume "sz < 0x1000"
  then have "unat sz < 0x1000" by (simp add: word_less_nat_alt)
  then have "unat (sz + HDR) = unat sz + 48" by (simp add: unat_word_ariths)
  then show ?thesis by (simp add: word_less_nat_alt)
qed

lemma malloc_unfold: "malloc scan h pml4 sz = malloc_fuel (Suc 3) scan h pml4 sz"
  by (simp add: malloc_def)

lemma kmalloc_first:
  assumes "ready h \<noteq> 0" and "hdrs h (mainSegment h) = Some sg" and "s_signature sg = HEAP_SIGNATURE"
    and "s_free sg \<noteq> 0" and "s_length sg = sz" and "sz mod 0x10 = 0" and "sz \<noteq> 0" and "sz < 0x1000" and "mainSegment h + HDR \<noteq> 0"
  shows "kmalloc_used (Suc n) h sz = Ok (mainSegment h + HDR, h\<lparr>hdrs := (hdrs h)(mainSegment h \<mapsto> sg\<lparr>s_free := 0\<rparr>),
    usedSize := usedSize h + (sz + HDR), freeSize := freeSize h - (sz + HDR)\<rparr>)"
  unfolding kmalloc_used_def kmalloc_def malloc_unfold malloc_fuel.simps
  using assms no_split [OF assms(8)] by (simp add: Let_def round_up_def take_segment_def)

lemma kmalloc_next:
  assumes "ready h \<noteq> 0" and "hdrs h (mainSegment h) = Some m" and "s_signature m = HEAP_SIGNATURE" and "s_free m = 0"
    and "s_next m = a" and "a \<noteq> 0" and "a \<noteq> mainSegment h" and "hdrs h a = Some sg" and "s_signature sg = HEAP_SIGNATURE"
    and "s_free sg \<noteq> 0" and "s_length sg = sz" and "sz mod 0x10 = 0" and "sz \<noteq> 0" and "sz < 0x1000" and "a + HDR \<noteq> 0"
  shows "kmalloc_used (Suc (Suc n)) h sz = Ok (a + HDR, h\<lparr>hdrs := (hdrs h)(a \<mapsto> sg\<lparr>s_free := 0\<rparr>),
    usedSize := usedSize h + (sz + HDR), freeSize := freeSize h - (sz + HDR)\<rparr>)"
  unfolding kmalloc_used_def kmalloc_def malloc_unfold malloc_fuel.simps
  using assms no_split [OF assms(14)] by (simp add: Let_def round_up_def take_segment_def)

text \<open>Three tasks as in the example of the scheduler; the second has been given a stack.\<close>

definition proc_for_task :: "u64 \<Rightarrow> proc" where
  "proc_for_task sp = (boot_proc 0x7000)\<lparr>stack_top := sp, task_pd := 0x50000, task_context := zero_context\<lparr>x_rsp := sp - 24\<rparr>\<rparr>"

definition kernel_example :: kernel where
  "kernel_example = \<lparr>x_rax = 1, x_rbx = 2, x_rcx = 3, x_rdx = 4, x_rsi = 5, x_rdi = 6, x_rbp = 7, x_r8 = 8, x_r9 = 9, x_r10 = 10,
     x_r11 = 11, x_r12 = 12, x_r13 = 13, x_r14 = 14, x_r15 = 15, x_rip = 0, x_cs = 8, x_rflags = 0x202, x_rsp = 0x3000, x_ss = 16,
     qmem = (\<lambda>a. if a = 0x3000 then 0x1234 else 0), fpu = [], sch = sched_example,
     procs = [1 \<mapsto> boot_proc 0x6000, 2 \<mapsto> proc_for_task 0x4000, 3 \<mapsto> proc_for_task 0x5000],
     kheap = heap_for_task, ktss = blank_tss, gs_base = 0, kern_gs_base = 0\<rparr>"

theorem switch_resumes_witness:
  "\<exists>t t'. newctxswtch 1 2 kernel_example = Ok t \<and> newctxswtch 2 1 t = Ok t' \<and> x_rip t' = 0x1234 \<and> x_rbx t' = 2"
proof -
  have pq: "procs kernel_example 1 = Some (boot_proc 0x6000)" "procs kernel_example 2 = Some (proc_for_task 0x4000)" "(1 :: nat) \<noteq> 2"
    and cl: "clear_of kernel_example (x_rsp (task_context (proc_for_task 0x4000)))"
    by (simp_all add: kernel_example_def clear_of_def proc_for_task_def)
  obtain t where t: "newctxswtch 1 2 kernel_example = Ok t"
    "runs_at (task_context (proc_for_task 0x4000)) (fxsave_region (proc_for_task 0x4000))
       (qmem kernel_example (x_rsp (task_context (proc_for_task 0x4000)))) t"
    "procs t = (procs kernel_example)(1 \<mapsto> (boot_proc 0x6000)\<lparr>task_context := save_context kernel_example (task_context (boot_proc 0x6000)),
       fxsave_region := fpu kernel_example\<rparr>)"
    "\<And>x. x \<noteq> x_rsp kernel_example - 8 \<Longrightarrow> x \<noteq> x_rsp kernel_example - 16 \<Longrightarrow> qmem t x = qmem kernel_example x"
    by (rule newctxswtch_runs [OF pq cl]) (rule that)
  have "x_rsp t = 0x3ff0" using t(2) by (simp add: runs_at_def proc_for_task_def)
  then have "procs t 2 = Some (proc_for_task 0x4000)" "(2 :: nat) \<noteq> 1" "clear_of t (x_rsp kernel_example)"
    "qmem t (x_rsp kernel_example) = qmem kernel_example (x_rsp kernel_example)"
    using t(3) t(4) [of "x_rsp kernel_example"] pq by (simp_all add: clear_of_def kernel_example_def)
  from switch_resumes [OF pq cl this] t(1)
  obtain t' where "newctxswtch 2 1 t = Ok t'" "x_rip t' = qmem kernel_example (x_rsp kernel_example)" "x_rbx t' = x_rbx kernel_example"
    by auto
  then show ?thesis using t(1) by (intro exI [of _ t] exI [of _ t']) (simp add: kernel_example_def)
qed

theorem yield_cpu_runs_witness:
  "\<exists>s'. yield_cpu 3 kernel_example = Ok s' \<and> current_task (sch s') = 2 \<and> x_rsp s' = 0x3ff0"
proof -
  have s: "sch kernel_example = sched_example" by (simp add: kernel_example_def)
  have wf: "sched_wf (sch kernel_example) [1, 2, 3]" "length [1, 2, 3 :: nat] \<le> 3" using sched_example_wf(1) by (simp_all add: s)
  have r: "runnable sched_example 2" using sched_example_wf(2) by (simp add: runnable_def)
  then have c: "chosen (sch kernel_example) [1, 2, 3] = 2" "current_task (sch kernel_example) = 1"
    using sched_example_wf(3,4) by (simp_all add: s chosen_def)
  have q: "procs kernel_example 2 = Some (proc_for_task 0x4000)" by (simp add: kernel_example_def)
  have "\<forall>a \<in> set [1, 2, 3]. procs kernel_example a \<noteq> None" "length (tss_rsp (ktss kernel_example)) = 3"
    "\<forall>q. procs kernel_example (chosen (sch kernel_example) [1, 2, 3]) = Some q \<longrightarrow>
      current_task (sch kernel_example) = chosen (sch kernel_example) [1, 2, 3] \<or> clear_of kernel_example (x_rsp (task_context q))"
    unfolding c by (simp_all add: kernel_example_def blank_tss_def clear_of_def proc_for_task_def)
  from yield_cpu_runs [OF wf this] show ?thesis unfolding c using q by (auto simp: runs_at_def proc_for_task_def)
qed

theorem new_task_starts_witness:
  "\<exists>s1 t'. initialize_context (Suc (Suc 0)) 0x9990 0x9980 KERNEL_TASK 2 0x8880 kernel_example = Ok s1 \<and> newctxswtch 1 2 s1 = Ok t'
     \<and> x_rip t' = 0x8880 \<and> cr3 (hvm (kheap t')) = 0x50000"
proof -
  let ?h1 = "heap_for_task\<lparr>hdrs := (hdrs heap_for_task)(0x10000 \<mapsto> \<lparr>s_free = 0, s_length = 192, s_next = 0x9000, s_last = 0, s_isStack = 0,
     s_signature = HEAP_SIGNATURE\<rparr>), usedSize := 240, freeSize := - 240\<rparr>"
  have m1: "kmalloc_used (Suc (Suc 0)) heap_for_task CONTEXT_SIZE = Ok (0x10030, ?h1)"
    by (subst kmalloc_first [of _ "\<lparr>s_free = 1, s_length = 192, s_next = 0x9000, s_last = 0, s_isStack = 0, s_signature = HEAP_SIGNATURE\<rparr>"])
      (simp_all add: heap_for_task_def heap_blank_def)
  have "\<exists>h. kmalloc_used (Suc (Suc 0)) ?h1 CONTEXT_INFO_SIZE = Ok (0x9030, h) \<and> lastStack h = 0x80000 \<and> hvm h = vm_big"
    by (subst kmalloc_next [of _ "\<lparr>s_free = 0, s_length = 192, s_next = 0x9000, s_last = 0, s_isStack = 0, s_signature = HEAP_SIGNATURE\<rparr>"
          "0x9000" "\<lparr>s_free = 1, s_length = 32, s_next = 0, s_last = 0x10000, s_isStack = 0, s_signature = HEAP_SIGNATURE\<rparr>"])
      (simp_all add: heap_for_task_def heap_blank_def)
  then obtain h2 where h2: "kmalloc_used (Suc (Suc 0)) ?h1 CONTEXT_INFO_SIZE = Ok (0x9030, h2)" "lastStack h2 = 0x80000" "hvm h2 = vm_big" by blast
  have "kvm_inv (hvm h2) 0x50 lev_example" "ptr_frame (get_pml4 (hvm h2)) = Ok 0x50" "lastStack h2 AND 0xfff = 0"
    "0 + 4 * 4 \<le> free_frames (alloc (hvm h2))" "4096 * 4 < unat (lastStack h2)" "(4 :: nat) < 2 ^ 32"
    using h2 vm_big_inv vm_big_pml4 vm_big_free by simp_all
  from kstackalloc_maps [OF this] obtain base h3 where h3: "kstackalloc h2 0x4000 = Ok (base, h3)" by auto
  have p: "procs kernel_example 2 = Some (proc_for_task 0x4000)" "kheap kernel_example = heap_for_task" by (simp_all add: kernel_example_def)
  obtain s1 where s1: "initialize_context (Suc (Suc 0)) 0x9990 0x9980 KERNEL_TASK 2 0x8880 kernel_example = Ok s1"
    "procs s1 1 = procs kernel_example 1" "x_rsp s1 = x_rsp kernel_example"
    using p m1 h2(1) h3 by (simp add: initialize_context_def newctxcreat_def put_proc_def)
  have "procs s1 1 = Some (boot_proc 0x6000)" "(1 :: nat) \<noteq> 2" "clear_of s1 (stack_top (proc_for_task 0x4000) - 24)"
    using s1 by (simp_all add: kernel_example_def clear_of_def proc_for_task_def)
  from new_task_starts [OF s1(1) p(1) refl refl this] s1(1) show ?thesis by (auto simp: proc_for_task_def)
qed

end
