(* ===== verification/Cpus.thy ===== *)
theory Cpus
  imports Tasks
begin

text \<open>Starting the processor (\<open>arch/cpu.c\<close>): its record, its context and its three stacks. Loading the tables and enabling the
  system calls are instructions without effect on this state.\<close>

record cpu =
  cpu_ctx :: u64
  cpu_kstack :: u64
  cpu_ready :: u8

abbreviation "CPU_SIZE \<equiv> (48 :: u64)"

text \<open>A cleared stack; the result is its top.\<close>

definition new_stack :: "hst \<Rightarrow> (u64 \<times> hst) result" where
  "new_stack h = rbind (kstackalloc h KERNEL_STACK_SIZE) (\<lambda>(base, h).
     Ok (base + KERNEL_STACK_SIZE, h\<lparr>bytes := fill_bytes (bytes h) base 0 KERNEL_STACK_SIZE\<rparr>))"

definition cpu_stacks :: "hst \<Rightarrow> tss \<Rightarrow> (u64 \<times> tss \<times> hst) result" where
  "cpu_stacks h t = rbind (new_stack h) (\<lambda>(kstack, h). rbind (new_stack h) (\<lambda>(ist0, h). rbind (new_stack h) (\<lambda>(ist1, h).
     rbind (tss_set_stack t kstack 0) (\<lambda>t. rbind (tss_set_ist t 0 ist0) (\<lambda>t. rbind (tss_set_ist t 1 ist1) (\<lambda>t.
     Ok (kstack, t, h)))))))"

definition init_cpus :: "nat \<Rightarrow> kernel \<Rightarrow> (cpu \<times> kernel) result" where
  "init_cpus scan s = rbind (kmalloc_used scan (kheap s) CPU_SIZE) (\<lambda>(cpu, h).
     rbind (kmalloc_used scan (h\<lparr>bytes := fill_bytes (bytes h) cpu 0 CPU_SIZE\<rparr>) CONTEXT_SIZE) (\<lambda>(ctx, h).
     rbind (cpu_stacks (h\<lparr>bytes := fill_bytes (bytes h) ctx 0 CONTEXT_SIZE\<rparr>) (ktss s)) (\<lambda>(kstack, t, h).
     Ok (\<lparr>cpu_ctx = ctx, cpu_kstack = kstack, cpu_ready = 1\<rparr>, s\<lparr>kheap := h, ktss := t, gs_base := ctx\<rparr>))))"

section \<open>The stacks\<close>

text \<open>\<open>n\<close> pages directly below \<open>top\<close> are mapped.\<close>

definition stack_mapped :: "kvm \<Rightarrow> u64 \<Rightarrow> u64 \<Rightarrow> nat \<Rightarrow> bool" where
  "stack_mapped s r tp n \<longleftrightarrow> (\<forall>i < n. translate s r (tp - 4096 * of_nat n + 4096 * of_nat i) \<noteq> None)"

lemma new_stack_maps:
  assumes "kvm_inv (hvm h) r lev" "ptr_frame (get_pml4 (hvm h)) = Ok r" "lastStack h AND 0xfff = 0"
    "m + 16 \<le> free_frames (alloc (hvm h))" "0x4000 < unat (lastStack h)"
  shows "\<exists>h1 lev1. new_stack h = Ok (lastStack h, h1) \<and> stack_mapped (hvm h1) r (lastStack h) 4 \<and>
    (\<forall>w. translate (hvm h) r w \<noteq> None \<longrightarrow> translate (hvm h1) r w \<noteq> None) \<and>
    lastStack h1 = lastStack h - 0x5000 \<and> kvm_inv (hvm h1) r lev1 \<and> m \<le> free_frames (alloc (hvm h1)) \<and>
    get_pml4 (hvm h1) = get_pml4 (hvm h)"
proof -
  have "m + 4 * 4 \<le> free_frames (alloc (hvm h))" "4096 * 4 < unat (lastStack h)" "(4 :: nat) < 2 ^ 32" using assms(4,5) by simp_all
  from kstackalloc_maps [OF assms(1-3) this] show ?thesis
    by (auto simp: new_stack_def stack_mapped_def)
qed

lemma aligned_below: "a AND 0xfff = (0 :: u64) \<Longrightarrow> (a - 0x5000) AND 0xfff = 0"
  using page_below [of a] page_below [of "a - 0x1000"] page_below [of "a - 0x2000"] page_below [of "a - 0x3000"] page_below [of "a - 0x4000"]
  by (simp add: diff_diff_eq)

lemma tss_first_stack: "tss_rsp t \<noteq> [] \<Longrightarrow> tss_ist t \<noteq> [] \<Longrightarrow>
    rbind (tss_set_stack t k 0) (\<lambda>t. rbind (tss_set_ist t 0 a) (\<lambda>t. rbind (tss_set_ist t 1 b) (\<lambda>t. Ok (k, t, h)))) =
    Ok (k, t\<lparr>tss_rsp := (tss_rsp t)[0 := k], tss_reserved1 := a, tss_ist := (tss_ist t)[0 := b]\<rparr>, h)"
  by (simp add: tss_set_stack_def tss_set_ist_def DLP_CONVERT_def wr_def)

text \<open>C14: with 48 pages free and room below the last stack, the processor starts with three stacks of 16 KiB, each mapped,
  one page of addresses apart: the first is the one of the kernel, the third the one double faults use. The second,
  meant for index 0, lands in a word of the segment the processor does not read.\<close>

theorem boot_stacks:
  assumes "kvm_inv (hvm h) r lev" "ptr_frame (get_pml4 (hvm h)) = Ok r" "lastStack h AND 0xfff = 0"
    "48 \<le> free_frames (alloc (hvm h))" "0xf000 \<le> unat (lastStack h)" "tss_rsp t \<noteq> []" "tss_ist t \<noteq> []"
  shows "\<exists>h1. cpu_stacks h t = Ok (lastStack h, t\<lparr>tss_rsp := (tss_rsp t)[0 := lastStack h], tss_reserved1 := lastStack h - 0x5000,
        tss_ist := (tss_ist t)[0 := lastStack h - 0xa000]\<rparr>, h1) \<and>
    stack_mapped (hvm h1) r (lastStack h) 4 \<and> stack_mapped (hvm h1) r (lastStack h - 0x5000) 4 \<and>
    stack_mapped (hvm h1) r (lastStack h - 0xa000) 4 \<and> lastStack h1 = lastStack h - 0xf000"
proof -
  have u: "unat (lastStack h - c) = unat (lastStack h) - unat c" if "unat c \<le> 0xf000" for c
    using that assms(5) by (intro unat_sub) (simp add: word_le_nat_alt)
  from new_stack_maps [of h r lev 32] assms obtain h1 l1 where
    1: "new_stack h = Ok (lastStack h, h1)" "stack_mapped (hvm h1) r (lastStack h) 4" "lastStack h1 = lastStack h - 0x5000"
      "kvm_inv (hvm h1) r l1" "32 \<le> free_frames (alloc (hvm h1))" "get_pml4 (hvm h1) = get_pml4 (hvm h)" by auto
  have "0x4000 < unat (lastStack h1)" using u [of "0x5000"] assms(5) by (simp add: 1(3))
  with new_stack_maps [of h1 r l1 16] 1 assms(2) aligned_below [OF assms(3)] obtain h2 l2 where
    2: "new_stack h1 = Ok (lastStack h - 0x5000, h2)" "\<forall>w. translate (hvm h1) r w \<noteq> None \<longrightarrow> translate (hvm h2) r w \<noteq> None"
      "stack_mapped (hvm h2) r (lastStack h - 0x5000) 4" "lastStack h2 = lastStack h - 0xa000" "kvm_inv (hvm h2) r l2" "16 \<le> free_frames (alloc (hvm h2))"
      "get_pml4 (hvm h2) = get_pml4 (hvm h)" by auto
  have "0x4000 < unat (lastStack h2)" using u [of "0xa000"] assms(5) by (simp add: 2(4))
  with new_stack_maps [of h2 r l2 0] 2 assms(2) aligned_below [OF aligned_below [OF assms(3)]] obtain h3 l3 where
    3: "new_stack h2 = Ok (lastStack h - 0xa000, h3)" "\<forall>w. translate (hvm h2) r w \<noteq> None \<longrightarrow> translate (hvm h3) r w \<noteq> None"
      "lastStack h3 = lastStack h - 0xf000" "stack_mapped (hvm h3) r (lastStack h - 0xa000) 4" by auto
  have "stack_mapped (hvm h3) r (lastStack h) 4" using 1(2) 2(2) 3(2) unfolding stack_mapped_def by blast
  moreover have "stack_mapped (hvm h3) r (lastStack h - 0x5000) 4" using 2(3) 3(2) unfolding stack_mapped_def by blast
  ultimately show ?thesis using 3(3,4)
    by (intro exI [of _ h3]) (simp add: cpu_stacks_def 1(1) 2(1) 3(1) tss_first_stack [OF assms(6,7)])
qed

section \<open>A concrete machine\<close>

text \<open>The example tables over an allocator with 62 free pages.\<close>

definition pmm_boot :: pmm where
  "pmm_boot = pmm_example\<lparr>total_available_pages := 64, bitfield := 3 # replicate 7 0\<rparr>"

definition vm_boot :: kvm where
  "vm_boot = vm_example\<lparr>alloc := pmm_boot\<rparr>"

lemma pmm_boot_used: "used pmm_boot = {0, 1}"
proof -
  have "x \<in> used pmm_boot \<longleftrightarrow> x \<in> used pmm_example" for x
  proof (cases "x div 8")
    case 0 then show ?thesis by (simp add: used_def bm_elems_iff pmm_boot_def pmm_example_def)
  next
    case (Suc k)
    then have "\<not> (x div 8 < 8 \<and> bit ((3 # replicate 7 0 :: u8 list) ! (x div 8)) (x mod 8))"
      by (auto simp: nth_Cons' nth_replicate)
    moreover have "x \<notin> {0, 1}" using Suc by auto
    ultimately show ?thesis using pmm_example_used by (simp add: used_def bm_elems_iff pmm_boot_def)
  qed
  then have "used pmm_boot = used pmm_example" by (intro set_eqI)
  then show ?thesis by (simp only: pmm_example_used)
qed

lemma pmm_boot_ok: "pmm_ok pmm_boot"
  by (simp add: pmm_ok_def pmm_wf_def pmm_boot_def pmm_example_def bitfield_entries_def IS_ALIGNED_mod)

lemma vm_boot_free: "free_frames (alloc vm_boot) = 62"
proof -
  have "free_ahead pmm_boot = {2..<64}"
    by (auto simp: free_ahead_def pmm_boot_used) (auto simp: pmm_boot_def pmm_example_def)
  then show ?thesis by (simp add: free_frames_def vm_boot_def)
qed

lemma vm_boot_inv: "kvm_inv vm_boot 0x50 lev_example"
proof -
  have t: "frame_taken pmm_boot f" if "unat f < 0x100" for f
  proof -
    have "unat (drop_bit 12 (first_available_page_addr pmm_boot + PAGESIZE * word_of_nat q)) \<ge> 0x100"
      if "q \<le> npages pmm_boot" for q
      unfolding unat_drop_12 page_address [OF pmm_boot_ok that] by (simp add: pmm_boot_def pmm_example_def)
    then show ?thesis using that by (force simp: frame_taken_def)
  qed
  have "frame_taken (alloc vm_boot) f" if "0 < lev_example f" for f
    using that t by (auto simp: lev_example_def vm_boot_def split: if_splits)
  then show ?thesis using vm_example_inv pmm_boot_ok by (simp add: vm_inv_def vm_boot_def)
qed

theorem boot_stacks_witness:
  "\<exists>h1 t1. cpu_stacks (heap_blank\<lparr>hvm := vm_boot, lastStack := 0x80000\<rparr>) blank_tss = Ok (0x80000, t1, h1) \<and>
     tss_ist t1 ! 0 = 0x76000 \<and> stack_mapped (hvm h1) 0x50 0x80000 4 \<and> stack_mapped (hvm h1) 0x50 0x7b000 4 \<and>
     stack_mapped (hvm h1) 0x50 0x76000 4"
proof -
  let ?h = "heap_blank\<lparr>hvm := vm_boot, lastStack := 0x80000\<rparr>"
  have p: "ptr_frame (get_pml4 vm_boot) = Ok 0x50" using vm_example_pml4 by (simp add: vm_boot_def get_pml4_def)
  have "kvm_inv (hvm ?h) 0x50 lev_example" "ptr_frame (get_pml4 (hvm ?h)) = Ok 0x50" "lastStack ?h AND 0xfff = 0"
    "48 \<le> free_frames (alloc (hvm ?h))" "0xf000 \<le> unat (lastStack ?h)" "tss_rsp blank_tss \<noteq> []" "tss_ist blank_tss \<noteq> []"
    using vm_boot_inv p vm_boot_free by (simp_all add: blank_tss_def)
  from boot_stacks [OF this] show ?thesis by (auto simp: blank_tss_def)
qed

end
