(* ===== verification/Pci.thy ===== *)
theory Pci
  imports Ahci Devices
begin

text \<open>The PCI bus (\<open>devices/pci/pci.c\<close>): the names it prints, the two ways to the configuration space, base address
  registers, the interrupts of its devices, and the enumeration that starts the disk driver and creates the
  disk devices. The configuration space of the machine is an argument.\<close>

section \<open>Data\<close>

record pci_device_header =
  vendor_id :: u16
  device_id :: u16
  pci_command :: u16
  pci_status :: u16
  revision_id :: u8
  prog_if :: u8
  sub_class :: u8
  class_code :: u8
  cache_line_size :: u8
  latency_timer :: u8
  header_type :: u8
  bist :: u8

text \<open>\<open>struct pci_device_header_0\<close> as far as it is read: the six base address registers, the word behind them and the
  interrupt line.\<close>

record pci_device_header_0 = pci_device_header +
  bars :: "u32 list"
  cardbus_cis_pointer :: u32
  interrupt_line :: u8

record device_config =
  base_address :: u64
  start_bus :: u8
  end_bus :: u8

text \<open>The table: its length and the entries behind its header, each read from memory when it is used.\<close>

record mcfg_header =
  mcfg_length :: u32
  mcfg_entry :: "u64 \<Rightarrow> device_config result"

section \<open>Names\<close>

text \<open>A literal of the program, or the buffer of \<open>itoa\<close> with the number in base 16. There is one such buffer: a name of
  the second kind is overwritten when the next number is converted.\<close>

datatype pci_name = Text string | Itoa_buffer "u8 list"

definition itoa16 :: "'a::len word \<Rightarrow> pci_name" where
  "itoa16 v = Itoa_buffer (hex_str (unat v))"

definition pci_device_classes :: "string list" where
  "pci_device_classes = [
     ''Unclassified'', ''Mass Storage Controller'', ''Network Controller'', ''Display Controller'',
     ''Multimedia Controller'', ''Memory Controller'', ''Bridge Device'', ''Simple Communication Controller'',
     ''Base System Peripheral'', ''Input Device Controller'', ''Docking Station'', ''Processor'',
     ''Serial Bus Controller'', ''Wireless Controller'', ''Intelligent Controller'',
     ''Satellite Communication Controller'', ''Encryption Controller'', ''Signal Processing Controller'',
     ''Processing Accelerator'', ''Non Essential Instrumentation''
  ]"

definition get_device_class :: "u8 \<Rightarrow> string result" where
  "get_device_class cl = rd pci_device_classes (unat cl)"

definition get_vendor_name :: "u16 \<Rightarrow> pci_name" where
  "get_vendor_name v = (
     if v = 0x8086 then Text ''Intel''
     else if v = 0x10de then Text ''nVidia''
     else if v = 0x1022 then Text ''AMD''
     else if v = 0x1234 then Text ''Bochs''
     else itoa16 v)"

definition get_device_name :: "u16 \<Rightarrow> u16 \<Rightarrow> pci_name" where
  "get_device_name v d = (if v = 0x8086 then (
     if d = 0x29c0 then Text ''Express DRAM Controller''
     else if d = 0x2918 then Text ''LPC Interface Controller''
     else if d = 0x2922 then Text ''SATA Controller [AHCI]''
     else if d = 0x2930 then Text ''SMBus Controller''
     else if d = 0x10d3 then Text ''Gigabit Network Connection''
     else itoa16 d)
     else if v = 0x1234 \<and> d = 0x1111 then Text ''Virtual VGA Controller''
     else itoa16 d)"

definition mass_storage_controller_subclass_name :: "u8 \<Rightarrow> pci_name" where
  "mass_storage_controller_subclass_name c = (
     if c = 0 then Text ''SCSI Bus Controller''
     else if c = 1 then Text ''IDE Controller''
     else if c = 2 then Text ''Floppy Disk Controller''
     else if c = 3 then Text ''IPI Bus Controller''
     else if c = 4 then Text ''RAID Controller''
     else if c = 5 then Text ''ATA Controller''
     else if c = 6 then Text ''Serial ATA''
     else if c = 7 then Text ''Serial Attached SCSI''
     else if c = 8 then Text ''Non-Volatile Memory Controller''
     else if c = 0x80 then Text ''Other''
     else itoa16 c)"

definition serial_bus_controller_subclass_name :: "u8 \<Rightarrow> pci_name" where
  "serial_bus_controller_subclass_name c = (
     if c = 0 then Text ''FireWire (IEEE 1394) Controller''
     else if c = 1 then Text ''ACCESS Bus''
     else if c = 2 then Text ''SSA''
     else if c = 3 then Text ''USB Controller''
     else if c = 4 then Text ''Fibre Channel''
     else if c = 5 then Text ''SMBus''
     else if c = 6 then Text ''Infiniband''
     else if c = 7 then Text ''IPMI Interface''
     else if c = 8 then Text ''SERCOS Interface (IEC 61491)''
     else if c = 9 then Text ''CANbus''
     else if c = 0x80 then Text ''SerialBusController - Other''
     else itoa16 c)"

definition bridge_device_subclass_name :: "u8 \<Rightarrow> pci_name" where
  "bridge_device_subclass_name c = (
     if c = 0 then Text ''Host Bridge''
     else if c = 1 then Text ''ISA Bridge''
     else if c = 2 then Text ''EISA Bridge''
     else if c = 3 then Text ''MCA Bridge''
     else if c = 4 then Text ''PCI-to-PCI Bridge''
     else if c = 5 then Text ''PCMCIA Bridge''
     else if c = 6 then Text ''NuBus Bridge''
     else if c = 7 then Text ''CardBus Bridge''
     else if c = 8 then Text ''RACEway Bridge''
     else if c = 9 then Text ''PCI-to-PCI Bridge''
     else if c = 0xa then Text ''InfiniBand-to-PCI Host Bridge''
     else if c = 0x80 then Text ''Other''
     else itoa16 c)"

definition get_subclass_name :: "u8 \<Rightarrow> u8 \<Rightarrow> pci_name" where
  "get_subclass_name cl sub = (if cl = 1 then mass_storage_controller_subclass_name sub
     else if cl = 3 \<and> sub = 0 then Text ''VGA Compatible Controller''
     else if cl = 6 then bridge_device_subclass_name sub
     else if cl = 0xc then serial_bus_controller_subclass_name sub
     else itoa16 sub)"

definition get_prog_interface :: "u8 \<Rightarrow> u8 \<Rightarrow> u8 \<Rightarrow> pci_name" where
  "get_prog_interface cl sub prog = (if cl = 1 \<and> sub = 6 then (
     if prog = 0 then Text ''Vendor Specific Interface''
     else if prog = 1 then Text ''AHCI 1.0''
     else if prog = 2 then Text ''Serial Storage Bus''
     else itoa16 prog)
     else if cl = 3 \<and> sub = 0 then (
     if prog = 0 then Text ''VGA Controller''
     else if prog = 1 then Text ''8514-Compatible Controller''
     else itoa16 prog)
     else if cl = 0xc \<and> sub = 3 then (
     if prog = 0 then Text ''UHCI Controller''
     else if prog = 0x10 then Text ''OHCI Controller''
     else if prog = 0x20 then Text ''EHCI (USB2) Controller''
     else if prog = 0x30 then Text ''XHCI (USB3) Controller''
     else if prog = 0x80 then Text ''Unspecified''
     else if prog = 0xfe then Text ''USB Device (Not a Host Controller)''
     else itoa16 prog)
     else itoa16 prog)"

section \<open>The configuration space through the ports\<close>

text \<open>The registers by their address in the port \<open>PCI_CONFIG_ADDR\<close>; a write changes the bits \<open>writable\<close> allows.\<close>

record config_space =
  cfg_regs :: "u32 \<Rightarrow> u32"
  writable :: "u32 \<Rightarrow> u32"

abbreviation "PCI_CONFIGURATION_SPACE_SIZE \<equiv> (0x100 :: nat)"

definition cfg_write :: "config_space \<Rightarrow> u32 \<Rightarrow> u32 \<Rightarrow> config_space" where
  "cfg_write c a v = c\<lparr>cfg_regs := (cfg_regs c)(a := v AND writable c a OR cfg_regs c a AND NOT (writable c a))\<rparr>"

definition PCIWrite32 :: "config_space \<Rightarrow> u32 \<Rightarrow> u32 \<Rightarrow> config_space" where
  "PCIWrite32 c addr data = cfg_write c (addr AND NOT 3) data"

definition PCIRead32 :: "config_space \<Rightarrow> u32 \<Rightarrow> u32" where
  "PCIRead32 c addr = cfg_regs c (addr AND NOT 3)"

text \<open>The shift is by 0 or by 32, all the bits of the word: undefined in C.\<close>

definition PCIRead16 :: "config_space \<Rightarrow> u32 \<Rightarrow> u16 result" where
  "PCIRead16 c addr = (let offset = ucast addr :: u8; sh = unat (offset AND 2) * 0x10 in
     if 32 \<le> sh then Err Fault else Ok (ucast (drop_bit sh (PCIRead32 c (addr AND NOT 3)))))"

definition PCIRead8 :: "config_space \<Rightarrow> u32 \<Rightarrow> u8 result" where
  "PCIRead8 c addr = (let offset = ucast addr :: u8 in
     rbind (PCIRead16 c (addr AND NOT 3)) (\<lambda>v. Ok (ucast (drop_bit (unat (offset AND 1) * 8) v))))"

definition PCIMemcpy8 :: "config_space \<Rightarrow> u32 \<Rightarrow> nat \<Rightarrow> u8 list result" where
  "PCIMemcpy8 c src n = foldr (\<lambda>i r. rbind (PCIRead8 c ((src AND NOT 3) + of_nat i)) (\<lambda>b. rbind r (\<lambda>bs. Ok (b # bs)))) [0..<n] (Ok [])"

definition PCIMemcpy16 :: "config_space \<Rightarrow> u32 \<Rightarrow> nat \<Rightarrow> u16 list result" where
  "PCIMemcpy16 c src n = foldr (\<lambda>i r. rbind (PCIRead16 c ((src AND NOT 3) + 2 * of_nat i)) (\<lambda>b. rbind r (\<lambda>bs. Ok (b # bs))))
     [0..<(n + 1) div 2] (Ok [])"

definition PCIMemcpy32 :: "config_space \<Rightarrow> u32 \<Rightarrow> nat \<Rightarrow> u32 list" where
  "PCIMemcpy32 c src n = map (\<lambda>i. PCIRead32 c ((src AND NOT 3) + 4 * of_nat i)) [0..<(n + 3) div 4]"

definition ReceiveConfigurationSpacePCI :: "config_space \<Rightarrow> u32 \<Rightarrow> u32 list" where
  "ReceiveConfigurationSpacePCI c address = PCIMemcpy32 c address PCI_CONFIGURATION_SPACE_SIZE"

text \<open>The buffer as words; it is aligned.\<close>

fun send_words :: "config_space \<Rightarrow> u32 \<Rightarrow> u32 list \<Rightarrow> config_space" where
  "send_words c a [] = c"
| "send_words c a (w # ws) = send_words (PCIWrite32 c a w) (a + 4) ws"

definition SendConfigurationSpacePCI :: "config_space \<Rightarrow> u32 \<Rightarrow> u32 list \<Rightarrow> config_space" where
  "SendConfigurationSpacePCI c address buffer = send_words c address (take (PCI_CONFIGURATION_SPACE_SIZE div 4) buffer)"

section \<open>Base address registers\<close>

datatype pci_bar_type = PCI_BAR_TYPE_NULL | PCI_BAR_TYPE_IO | PCI_BAR_TYPE_32 | PCI_BAR_TYPE_64

definition get_bar_type :: "u32 \<Rightarrow> pci_bar_type" where
  "get_bar_type v = (if v AND 1 \<noteq> 0 then PCI_BAR_TYPE_IO
     else if v AND 6 = 0 then PCI_BAR_TYPE_32
     else if v AND 6 = 6 then PCI_BAR_TYPE_64 else PCI_BAR_TYPE_NULL)"

definition get_bar_address :: "pci_device_header_0 \<Rightarrow> u8 \<Rightarrow> u64 result" where
  "get_bar_address devh index = (if index > 5 then Ok 0 else
     let words = bars devh @ [cardbus_cis_pointer devh] in
     rbind (rd words (unat index)) (\<lambda>v. rbind (rd words (unat index + 1)) (\<lambda>v2.
     Ok (case get_bar_type v of
          PCI_BAR_TYPE_IO \<Rightarrow> ucast (v AND 0xFFFFFFFC)
        | PCI_BAR_TYPE_32 \<Rightarrow> ucast (v AND 0xFFFFFFF0)
        | PCI_BAR_TYPE_64 \<Rightarrow> if index = 5 then 0 else ucast (v AND 0xFFFFFFF0) OR push_bit 32 (ucast v2)
        | PCI_BAR_TYPE_NULL \<Rightarrow> 0))))"

text \<open>\<open>low\<close> is the address of the register in the configuration space: \<open>addresslow\<close> points to the same register in the memory
  the space is mapped to.\<close>

definition bar_size_high :: "config_space \<Rightarrow> u32 \<Rightarrow> u32 \<Rightarrow> u32 list \<Rightarrow> u32 \<times> u32 list \<times> config_space" where
  "bar_size_high c high base conf = (let v = cfg_regs c high;
     c = SendConfigurationSpacePCI (cfg_write c high 0xFFFFFFFF) base conf;
     conf = ReceiveConfigurationSpacePCI c base;
     sz = cfg_regs c high
   in (sz, conf, SendConfigurationSpacePCI (cfg_write c high v) base conf))"

definition get_bar_size :: "config_space \<Rightarrow> u32 \<Rightarrow> u32 \<Rightarrow> u64 \<times> config_space" where
  "get_bar_size c low base = (let v = cfg_regs c low; t = get_bar_type v; conf = ReceiveConfigurationSpacePCI c base in
     if t = PCI_BAR_TYPE_NULL then (0, c) else
     (let c = SendConfigurationSpacePCI (cfg_write c low 0xFFFFFFFF) base conf;
          conf = ReceiveConfigurationSpacePCI c base;
          size_low = (if t = PCI_BAR_TYPE_IO then cfg_regs c low AND 0xFFFFFFFC else cfg_regs c low AND 0xFFFFFFF0);
          (size_high, conf, c) = (if t = PCI_BAR_TYPE_64 then bar_size_high c (low + 4) base conf else (0xFFFFFFFF, conf, c));
          c = SendConfigurationSpacePCI (cfg_write c low v) base conf
      in (NOT (push_bit 32 (ucast size_high) OR ucast size_low) + 1, c)))"

definition enable_bus_mastering :: "pci_device_header \<Rightarrow> pci_device_header" where
  "enable_bus_mastering h = h\<lparr>pci_command := pci_command h OR 4\<rparr>"

definition pci_set_irq :: "pci_device_header_0 \<Rightarrow> u8 \<Rightarrow> pci_device_header_0" where
  "pci_set_irq h irq = h\<lparr>interrupt_line := irq\<rparr>"

section \<open>Interrupts\<close>

definition has_interrupted :: "pci_device_header \<Rightarrow> bool" where
  "has_interrupted h \<longleftrightarrow> pci_status h AND 8 \<noteq> 0 \<and> pci_command h AND 0x400 = 0"

text \<open>An element of the list: \<open>pl_device\<close> is the address of the header and \<open>pl_cb\<close> the callback, 0 when there is none.\<close>

record pci_dev_list =
  pl_name :: "u8 list"
  pl_data :: u64
  pl_device :: u64
  pl_cb :: u64

text \<open>\<open>junk\<close> is the uninitialised name of the new element.\<close>

definition subscribe_pci_interrupt :: "u8 list \<Rightarrow> u64 \<Rightarrow> u64 \<Rightarrow> u64 \<Rightarrow> u8 list \<Rightarrow> pci_dev_list list \<Rightarrow> pci_dev_list list result" where
  "subscribe_pci_interrupt ident dev cb data junk ls = rbind (strlen ident) (\<lambda>n. rbind (strncpy junk ident n) (\<lambda>name.
     Ok (\<lparr>pl_name = name, pl_data = data, pl_device = dev, pl_cb = cb\<rparr> # ls)))"

text \<open>The calls made: the callback and its argument. \<open>hdr\<close> is the memory of the headers.\<close>

fun trigger_pci_interrupt :: "(u64 \<Rightarrow> pci_device_header) \<Rightarrow> pci_dev_list list \<Rightarrow> (u64 \<times> u64) list" where
  "trigger_pci_interrupt hdr [] = []"
| "trigger_pci_interrupt hdr (c # cs) = (if pl_device c \<noteq> 0 \<and> has_interrupted (hdr (pl_device c)) \<and> pl_cb c \<noteq> 0
     then (pl_cb c, pl_data c) # trigger_pci_interrupt hdr cs else trigger_pci_interrupt hdr cs)"

section \<open>Enumeration\<close>

text \<open>The disk driver, the devices, and what was printed of each function found.\<close>

record 'w pci =
  pdisk :: ahci
  pdevs :: "'w devtab"
  announced :: "(string \<times> pci_name \<times> pci_name \<times> pci_name \<times> pci_name) list"

definition announce :: "pci_device_header_0 \<Rightarrow> (string \<times> pci_name \<times> pci_name \<times> pci_name \<times> pci_name) result" where
  "announce h = rbind (get_device_class (class_code h)) (\<lambda>c. Ok (c, get_subclass_name (class_code h) (sub_class h),
     get_vendor_name (vendor_id h), get_device_name (vendor_id h) (device_id h),
     get_prog_interface (class_code h) (sub_class h) (prog_if h)))"

definition major_of :: "port_type \<Rightarrow> u8" where
  "major_of t = (case t of PORT_TYPE_SATA \<Rightarrow> 0x8 | PORT_TYPE_SATAPI \<Rightarrow> 0x9 | PORT_TYPE_SEMB \<Rightarrow> 0xa | PORT_TYPE_PM \<Rightarrow> 0xb
     | PORT_TYPE_NONE \<Rightarrow> 0xc)"

text \<open>\<open>control\<close> is the address of the header, \<open>insert_device_cb\<close> the callback of \<open>init_devices\<close>.\<close>

definition insert_device_cb :: "u64 \<Rightarrow> u8 \<Rightarrow> u64 \<Rightarrow> 'w pci \<Rightarrow> 'w pci result" where
  "insert_device_cb control major i s = rbind (device_create (pdevs s) control major i) (\<lambda>(_, t). Ok (s\<lparr>pdevs := t\<rparr>))"

fun create_ports :: "nat \<Rightarrow> nat \<Rightarrow> u64 \<Rightarrow> 'w pci \<Rightarrow> 'w pci result" where
  "create_ports 0 i control s = Ok s"
| "create_ports (Suc n) i control s = rbind (get_port_type (pdisk s) (of_nat i)) (\<lambda>t.
     rbind (insert_device_cb control (major_of t) (of_nat i) s) (create_ports n (i + 1) control))"

definition register_pci_device :: "(ahci \<Rightarrow> ahci) \<Rightarrow> nat \<Rightarrow> u64 \<Rightarrow> pci_device_header_0 \<Rightarrow> 'w pci \<Rightarrow> 'w pci result" where
  "register_pci_device hw k control h s =
     (if class_code h = 1 \<and> sub_class h = 6 \<and> prog_if h = 1
      then rbind (rd (bars h) 5) (\<lambda>bar5. rbind (init_ahci hw k bar5 (pdisk s)) (\<lambda>d.
        create_ports (unat (get_port_count d)) 0 control (s\<lparr>pdisk := d\<rparr>)))
      else Ok s)"

definition map_config :: "u64 \<Rightarrow> 'w pci \<Rightarrow> 'w pci result" where
  "map_config a s = rbind (map_current_memory (avm (pdisk s)) (TO_KERNEL_MAP a) a 1) (\<lambda>v. Ok (s\<lparr>pdisk := (pdisk s)\<lparr>avm := v\<rparr>\<rparr>))"

text \<open>\<open>cfg\<close> is the header at a physical address of the configuration space.\<close>

definition enumerate_function ::
  "(u64 \<Rightarrow> pci_device_header_0) \<Rightarrow> (ahci \<Rightarrow> ahci) \<Rightarrow> nat \<Rightarrow> u64 \<Rightarrow> u64 \<Rightarrow> 'w pci \<Rightarrow> 'w pci result" where
  "enumerate_function cfg hw k device_address fn s = (let a = device_address + push_bit 12 fn; h = cfg a in
     rbind (map_config a s) (\<lambda>s.
     if device_id h = 0xFFFF then Ok s else
     rbind (announce h) (\<lambda>p. register_pci_device hw k (TO_KERNEL_MAP a) h (s\<lparr>announced := announced s @ [p]\<rparr>))))"

definition enumerate_device ::
  "(u64 \<Rightarrow> pci_device_header_0) \<Rightarrow> (ahci \<Rightarrow> ahci) \<Rightarrow> nat \<Rightarrow> u64 \<Rightarrow> u64 \<Rightarrow> 'w pci \<Rightarrow> 'w pci result" where
  "enumerate_device cfg hw k bus_address device s = (let a = bus_address + push_bit 15 device in
     rbind (map_config a s) (\<lambda>s.
     if header_type (cfg a) AND 0x80 \<noteq> 0 then each_index (enumerate_function cfg hw k a) 0 8 s
     else enumerate_function cfg hw k a 0 s))"

definition enumerate_bus ::
  "(u64 \<Rightarrow> pci_device_header_0) \<Rightarrow> (ahci \<Rightarrow> ahci) \<Rightarrow> nat \<Rightarrow> u64 \<Rightarrow> u64 \<Rightarrow> 'w pci \<Rightarrow> 'w pci result" where
  "enumerate_bus cfg hw k base bus s = (let a = base + push_bit 20 bus in
     rbind (map_config a s) (each_index (enumerate_device cfg hw k a) 0 32))"

definition enumerate_buses ::
  "(u64 \<Rightarrow> pci_device_header_0) \<Rightarrow> (ahci \<Rightarrow> ahci) \<Rightarrow> nat \<Rightarrow> device_config \<Rightarrow> 'w pci \<Rightarrow> 'w pci result" where
  "enumerate_buses cfg hw k c s = each_index (enumerate_bus cfg hw k (base_address c)) (ucast (start_bus c))
     (unat (end_bus c) - unat (start_bus c)) s"

text \<open>The sizes are those of \<open>struct mcfg_header\<close>, 44, and \<open>struct device_config\<close>, 16.\<close>

definition mcfg_count :: "mcfg_header \<Rightarrow> u64" where
  "mcfg_count m = (ucast (mcfg_length m) - 44) div 16"

definition register_pci ::
  "(u64 \<Rightarrow> pci_device_header_0) \<Rightarrow> (ahci \<Rightarrow> ahci) \<Rightarrow> nat \<Rightarrow> mcfg_header \<Rightarrow> 'w pci \<Rightarrow> 'w pci result" where
  "register_pci cfg hw k m s = each_index (\<lambda>i s. rbind (mcfg_entry m i) (\<lambda>c. enumerate_buses cfg hw k c s))
     0 (unat (mcfg_count m)) s"

section \<open>The buses visited\<close>

lemma each_index_cong:
  assumes "\<And>i s. i < n \<Longrightarrow> f (a + of_nat i) s = g (a + of_nat i) s"
  shows "each_index f a n s = each_index g a n s"
  using assms
proof (induction n arbitrary: a s)
  case (Suc n)
  have "f a s = g a s" using Suc.prems [of 0] by simp
  moreover have "each_index f (a + 1) n s = each_index g (a + 1) n s" for s
    by (rule Suc.IH) (use Suc.prems [of "Suc i" for i] in \<open>simp add: algebra_simps\<close>)
  ultimately show ?case by simp
qed simp

lemma push_bit_small:
  assumes i: "i < 2 ^ m" "m + n \<le> 64"
  shows "unat (push_bit n (of_nat i :: u64)) = i * 2 ^ n"
proof -
  have "i * 2 ^ n < 2 ^ m * 2 ^ n" using i(1) by simp
  also have "\<dots> = (2 :: nat) ^ (m + n)" by (simp add: power_add)
  also have "\<dots> \<le> (2 :: nat) ^ 64" using power_increasing [of "m + n" 64 "2 :: nat"] i(2) by simp
  finally have b: "i * 2 ^ n < 2 ^ 64" .
  have "push_bit n (of_nat i :: u64) = of_nat (i * 2 ^ n)" by (simp add: push_bit_eq_mult)
  with b show ?thesis by (simp only: unat_of_nat) (simp add: take_bit_nat_eq_self)
qed

lemma unat_plus_le: "unat (a + b :: 'a::len word) \<le> unat a + unat b"
  by (simp add: unat_word_ariths)

lemma function_offset:
  fixes base :: u64
  assumes "b < e" "e \<le> 255" "d < 32" "f < 8"
  shows "unat (base + push_bit 20 (of_nat b) + push_bit 15 (of_nat d) + push_bit 12 (of_nat f) - base) < e * 2 ^ 20"
proof -
  have u: "unat (push_bit 20 (of_nat b :: u64)) = b * 2 ^ 20" "unat (push_bit 15 (of_nat d :: u64)) = d * 2 ^ 15"
    "unat (push_bit 12 (of_nat f :: u64)) = f * 2 ^ 12"
    using assms push_bit_small [of b 8 20] push_bit_small [of d 5 15] push_bit_small [of f 3 12] by simp_all
  have l: "b * 2 ^ 20 + d * 2 ^ 15 + f * 2 ^ 12 < e * 2 ^ 20" using assms by simp
  have "base + push_bit 20 (of_nat b) + push_bit 15 (of_nat d) + push_bit 12 (of_nat f) - base
    = push_bit 20 (of_nat b) + (push_bit 15 (of_nat d) + push_bit 12 (of_nat f))" by simp
  also have "unat \<dots> \<le> b * 2 ^ 20 + d * 2 ^ 15 + f * 2 ^ 12"
    using unat_plus_le [of "push_bit 20 (of_nat b :: u64)" "push_bit 15 (of_nat d) + push_bit 12 (of_nat f)"]
      unat_plus_le [of "push_bit 15 (of_nat d :: u64)" "push_bit 12 (of_nat f)"] u by linarith
  finally show ?thesis using l by linarith
qed

definition same_config :: "(u64 \<Rightarrow> pci_device_header_0) \<Rightarrow> (u64 \<Rightarrow> pci_device_header_0) \<Rightarrow> device_config \<Rightarrow> bool" where
  "same_config cfg cfg1 c \<longleftrightarrow> (\<forall>a. unat (a - base_address c) < unat (end_bus c) * 2 ^ 20 \<longrightarrow> cfg a = cfg1 a)"

lemma enumerate_function_same: "cfg (a + push_bit 12 fn) = cfg1 (a + push_bit 12 fn) \<Longrightarrow>
    enumerate_function cfg hw k a fn s = enumerate_function cfg1 hw k a fn s"
  by (simp add: enumerate_function_def)

lemma enumerate_device_same:
  assumes "same_config cfg cfg1 c" "b < unat (end_bus c)" "d < 32"
  shows "enumerate_device cfg hw k (base_address c + push_bit 20 (of_nat b)) (of_nat d) s =
    enumerate_device cfg1 hw k (base_address c + push_bit 20 (of_nat b)) (of_nat d) s"
proof -
  let ?a = "base_address c + push_bit 20 (of_nat b) + push_bit 15 (of_nat d)"
  have e: "unat (end_bus c) \<le> 255" using unsigned_less [of "end_bus c", where ?'a = nat] by simp
  have f: "cfg (?a + push_bit 12 (of_nat f)) = cfg1 (?a + push_bit 12 (of_nat f))" if "f < 8" for f
    using assms(1) function_offset [OF assms(2) e assms(3) that] by (simp only: same_config_def)
  have 0: "cfg ?a = cfg1 ?a" using f [of 0] by simp
  have all: "each_index (enumerate_function cfg hw k ?a) 0 8 s = each_index (enumerate_function cfg1 hw k ?a) 0 8 s" for s
    by (rule each_index_cong, rule enumerate_function_same) (simp add: f)
  have one: "enumerate_function cfg hw k ?a 0 s = enumerate_function cfg1 hw k ?a 0 s" for s
    by (rule enumerate_function_same) (simp add: 0)
  show ?thesis by (simp only: enumerate_device_def Let_def 0 all one)
qed

lemma enumerate_bus_same:
  fixes s :: "'w pci"
  assumes "same_config cfg cfg1 c" "b < unat (end_bus c)"
  shows "enumerate_bus cfg hw k (base_address c) (of_nat b) s = enumerate_bus cfg1 hw k (base_address c) (of_nat b) s"
proof -
  have "each_index (enumerate_device cfg hw k (base_address c + push_bit 20 (of_nat b))) 0 32 =
      (each_index (enumerate_device cfg1 hw k (base_address c + push_bit 20 (of_nat b))) 0 32 :: 'w pci \<Rightarrow> 'w pci result)"
    by (rule ext, rule each_index_cong) (use enumerate_device_same [OF assms] in \<open>simp only: add_0_left\<close>)
  then show ?thesis by (simp only: enumerate_bus_def Let_def)
qed

lemma enumerate_buses_same:
  assumes "same_config cfg cfg1 c"
  shows "enumerate_buses cfg hw k c s = enumerate_buses cfg1 hw k c s"
  unfolding enumerate_buses_def
proof (rule each_index_cong)
  fix i s assume "i < unat (end_bus c) - unat (start_bus c)"
  then have b: "unat (start_bus c) + i < unat (end_bus c)" by simp
  have "(ucast (start_bus c) :: u64) + of_nat i = of_nat (unat (start_bus c) + i)"
    by (simp only: of_nat_add of_nat_unat)
  with enumerate_bus_same [OF assms b]
  show "enumerate_bus cfg hw k (base_address c) (ucast (start_bus c) + of_nat i) s =
    enumerate_bus cfg1 hw k (base_address c) (ucast (start_bus c) + of_nat i) s" by (simp only:)
qed

text \<open>C39: The bus a table names as its last one is never looked at: whatever the configuration space of that bus and of
  the buses above it holds, the same devices are announced, the same devices are created, the driver ends the same.\<close>

theorem last_bus_skipped:
  assumes "\<forall>i c. mcfg_entry m i = Ok c \<longrightarrow> same_config cfg cfg1 c"
  shows "register_pci cfg hw k m s = register_pci cfg1 hw k m s"
  unfolding register_pci_def
proof (rule each_index_cong)
  fix i :: nat and s :: "'a pci"
  have "rbind (mcfg_entry m j) (\<lambda>c. enumerate_buses cfg hw k c s) =
      rbind (mcfg_entry m j) (\<lambda>c. enumerate_buses cfg1 hw k c s)" for j
    using assms by (cases "mcfg_entry m j") (simp_all add: enumerate_buses_same)
  then show "rbind (mcfg_entry m (0 + of_nat i :: u64)) (\<lambda>c. enumerate_buses cfg hw k c s) =
      rbind (mcfg_entry m (0 + of_nat i :: u64)) (\<lambda>c. enumerate_buses cfg1 hw k c s)" .
qed

section \<open>The devices of a disk controller\<close>

text \<open>The numbers \<open>register_pci_device\<close> gives have a name in the table.\<close>

lemma major_of_named: "named_major (major_of t)"
  by (cases t) (simp_all add: named_major_def major_of_def rd_def device_identifiers_def nth_append)

lemma create_ports_from:
  assumes "chain (pdevs s) = xs @ [blank_device]" "hba_on (pdisk s)" "k + n \<le> length (ahci_ports (pdisk s))" "k + n < 256"
  shows "\<exists>ds. create_ports n k control s = Ok (s\<lparr>pdevs := (pdevs s)\<lparr>chain := xs @ ds @ [blank_device]\<rparr>\<rparr>) \<and> length ds = n \<and>
    (\<forall>i < n. new_device control (major_of (ap_type (ahci_ports (pdisk s) ! (k + i)))) (of_nat (k + i)) (ds ! i))"
  using assms
proof (induction n arbitrary: k s xs)
  case (Suc n)
  let ?m = "major_of (ap_type (ahci_ports (pdisk s) ! k))"
  have t: "get_port_type (pdisk s) (of_nat k) = Ok (ap_type (ahci_ports (pdisk s) ! k))"
    using Suc.prems by (simp add: get_port_type_def rd_def unat_of_nat take_bit_nat_eq_self)
  from device_created [OF Suc.prems(1) major_of_named [of "ap_type (ahci_ports (pdisk s) ! k)"], of control "of_nat k"] obtain d where
    d: "device_create (pdevs s) control ?m (of_nat k) = Ok (dv_name d, (pdevs s)\<lparr>chain := xs @ [d, blank_device]\<rparr>)"
      "new_device control ?m (of_nat k) d" by blast
  let ?s = "s\<lparr>pdevs := (pdevs s)\<lparr>chain := xs @ [d, blank_device]\<rparr>\<rparr>"
  have "chain (pdevs ?s) = (xs @ [d]) @ [blank_device]" "hba_on (pdisk ?s)" "k + 1 + n \<le> length (ahci_ports (pdisk ?s))" "k + 1 + n < 256"
    using Suc.prems by simp_all
  from Suc.IH [OF this] obtain ds where
    ds: "create_ports n (k + 1) control ?s = Ok (?s\<lparr>pdevs := (pdevs ?s)\<lparr>chain := (xs @ [d]) @ ds @ [blank_device]\<rparr>\<rparr>)" "length ds = n"
      "\<forall>i < n. new_device control (major_of (ap_type (ahci_ports (pdisk s) ! (k + 1 + i)))) (of_nat (k + 1 + i)) (ds ! i)" by auto
  have "create_ports (Suc n) k control s = Ok (s\<lparr>pdevs := (pdevs s)\<lparr>chain := xs @ (d # ds) @ [blank_device]\<rparr>\<rparr>)"
    using t d(1) ds(1) by (simp add: insert_device_cb_def)
  moreover have "new_device control (major_of (ap_type (ahci_ports (pdisk s) ! (k + i)))) (of_nat (k + i)) ((d # ds) ! i)" if "i < Suc n" for i
  proof (cases i)
    case (Suc j)
    with ds(3) that have "new_device control (major_of (ap_type (ahci_ports (pdisk s) ! (k + 1 + j)))) (of_nat (k + 1 + j)) (ds ! j)" by simp
    with Suc show ?thesis by simp
  qed (use d(2) in simp)
  ultimately show ?case using ds(2) by (intro exI [of _ "d # ds"]) simp
qed simp

text \<open>C22: Every port the controller answers on becomes one device, behind those that are there: its number says what
  the port is, its identifier is the index of the port, its name fits and ends, and nothing else changes.\<close>

theorem ports_become_devices:
  assumes "chain_ok (chain (pdevs s))" "hba_on (pdisk s)" "n \<le> length (ahci_ports (pdisk s))" "n < 256"
  shows "\<exists>ds. create_ports n 0 control s = Ok (s\<lparr>pdevs := (pdevs s)\<lparr>chain := butlast (chain (pdevs s)) @ ds @ [blank_device]\<rparr>\<rparr>) \<and>
    length ds = n \<and> (\<forall>i < n. new_device control (major_of (ap_type (ahci_ports (pdisk s) ! i))) (of_nat i) (ds ! i))"
proof -
  obtain xs where "chain (pdevs s) = xs @ [blank_device]" using chain_okE [OF assms(1)] by blast
  with create_ports_from [of s xs 0 n control] assms(2-4) show ?thesis by simp
qed

text \<open>A header of a class the table of names does not have is read past the end of the table.\<close>

lemma unknown_class_faults: "20 \<le> unat (class_code h) \<Longrightarrow> announce h = Err Fault"
  by (simp add: announce_def get_device_class_def rd_def pci_device_classes_def)

text \<open>Reading a byte uses the word at the aligned address: bytes 2 and 3 of a register are never seen.\<close>

lemma PCIRead8_low_bytes: "PCIRead8 c a = PCIRead8 c (a AND NOT 2)"
proof -
  have "a AND NOT 3 = (a AND NOT 2) AND NOT 3" by (simp add: and.assoc)
  moreover have "(ucast a :: u8) AND 1 = ucast (a AND NOT 2) AND 1" by (rule bit_word_eqI) (auto simp: bit_simps)
  ultimately show ?thesis by (simp add: PCIRead8_def Let_def)
qed

text \<open>A 64-bit register as the devices have it (the bits 0 to 2 of the low word are 100) has no type here.\<close>

lemma bar_64_unknown: "v AND 7 = 4 \<Longrightarrow> get_bar_type v = PCI_BAR_TYPE_NULL"
proof -
  assume v: "v AND 7 = 4"
  have "v AND 1 = (v AND 7) AND 1" "v AND 6 = (v AND 7) AND 6" by (simp_all add: and.assoc)
  then show ?thesis by (simp add: v get_bar_type_def)
qed

section \<open>Concrete runs\<close>

definition no_function :: pci_device_header_0 where
  "no_function = \<lparr>vendor_id = 0xFFFF, device_id = 0xFFFF, pci_command = 0, pci_status = 0, revision_id = 0, prog_if = 0, sub_class = 0,
     class_code = 0, cache_line_size = 0, latency_timer = 0, header_type = 0, bist = 0, bars = replicate 6 0,
     cardbus_cis_pointer = 0, interrupt_line = 0\<rparr>"

definition disk_function :: pci_device_header_0 where
  "disk_function = no_function\<lparr>vendor_id := 0x8086, device_id := 0x2922, class_code := 1, sub_class := 6, prog_if := 1\<rparr>"

definition two_buses :: mcfg_header where
  "two_buses = \<lparr>mcfg_length = 60, 
     mcfg_entry = (\<lambda>i. if i = 0 then Ok \<lparr>base_address = 0xB0000000, start_bus = 0, end_bus = 1\<rparr> else Err Fault)\<rparr>"

theorem last_bus_skipped_witness:
  "\<forall>s :: unit pci. register_pci (\<lambda>a. if a = 0xB0100000 then disk_function else no_function) id 1 two_buses s =
     register_pci (\<lambda>a. no_function) id 1 two_buses s"
proof
  fix s :: "unit pci"
  have "\<forall>i c. mcfg_entry two_buses i = Ok c \<longrightarrow> same_config (\<lambda>a. if a = 0xB0100000 then disk_function else no_function) (\<lambda>a. no_function) c"
    by (auto simp: two_buses_def same_config_def split: if_splits)
  then show "register_pci (\<lambda>a. if a = 0xB0100000 then disk_function else no_function) id 1 two_buses s =
      register_pci (\<lambda>a. no_function) id 1 two_buses s" by (rule last_bus_skipped)
qed

theorem ports_become_devices_witness:
  "\<exists>t. create_ports 1 0 0x1000 \<lparr>pdisk = ahci_example, pdevs = devtab_example, announced = []\<rparr> =
     Ok \<lparr>pdisk = ahci_example, pdevs = t, announced = []\<rparr> \<and> length (chain t) = 3 \<and> dv_major (chain t ! 1) = 8"
proof -
  let ?s = "\<lparr>pdisk = ahci_example, pdevs = devtab_example, announced = []\<rparr>"
  have c: "chain_ok (chain (pdevs ?s))" by (simp add: devtab_example_chain)
  have b: "hba_on (pdisk ?s)" "1 \<le> length (ahci_ports (pdisk ?s))" "ap_type (ahci_ports (pdisk ?s) ! 0) = PORT_TYPE_SATA"
    by (simp_all add: ahci_example_def)
  from ports_become_devices [OF c b(1,2), of "0x1000"] obtain ds where
    1: "create_ports 1 0 0x1000 ?s = Ok (?s\<lparr>pdevs := (pdevs ?s)\<lparr>chain := butlast (chain (pdevs ?s)) @ ds @ [blank_device]\<rparr>\<rparr>)"
    and 2: "length ds = 1" "\<forall>i < 1. new_device 0x1000 (major_of (ap_type (ahci_ports (pdisk ?s) ! i))) (of_nat i) (ds ! i)" by auto
  have d: "dv_major (ds ! 0) = 8" using 2(2) b(3) by (simp add: new_device_def major_of_def)
  show ?thesis unfolding 1
    by (intro exI [of _ "devtab_example\<lparr>chain := butlast (chain devtab_example) @ ds @ [blank_device]\<rparr>"])
      (use 2(1) d in \<open>simp add: devtab_example_def nth_append\<close>)
qed

end
