(* ===== verification/Acpi.thy ===== *)
theory Acpi
  imports Pci Bytes
begin

text \<open>The tables of the firmware (\<open>devices/acpi/acpi.c\<close>) and the start of the device layer that uses them
  (\<open>init_devices\<close> of \<open>devices/devices.c\<close>). The tables lie in memory the firmware filled: a byte that is not mapped
  is \<open>None\<close>. The copies of names that are made for the prints are left out.\<close>

section \<open>Memory\<close>

type_synonym fmem = "u64 \<Rightarrow> u8 option"

fun mread :: "fmem \<Rightarrow> u64 \<Rightarrow> nat \<Rightarrow> u8 list result" where
  "mread m a 0 = Ok []"
| "mread m a (Suc n) = (case m a of None \<Rightarrow> Err Fault | Some b \<Rightarrow> rbind (mread m (a + 1) n) (\<lambda>bs. Ok (b # bs)))"

definition m32 :: "fmem \<Rightarrow> u64 \<Rightarrow> u32 result" where
  "m32 m a = rbind (mread m a 4) (\<lambda>b. Ok (w32 b))"

definition m64 :: "fmem \<Rightarrow> u64 \<Rightarrow> u64 result" where
  "m64 m a = rbind (m32 m a) (\<lambda>lo. rbind (m32 m (a + 4)) (\<lambda>hi. Ok (ucast lo OR push_bit 32 (ucast hi))))"

definition m8 :: "fmem \<Rightarrow> u64 \<Rightarrow> u8 result" where
  "m8 m a = (case m a of None \<Rightarrow> Err Fault | Some b \<Rightarrow> Ok b)"

definition str :: "string \<Rightarrow> u8 list" where
  "str = map (\<lambda>c. of_nat (of_char c))"

section \<open>Finding a table\<close>

abbreviation "SDT_HEADER \<equiv> (36 :: u64)"

fun sum_bytes :: "fmem \<Rightarrow> u64 \<Rightarrow> nat \<Rightarrow> u8 \<Rightarrow> u8 result" where
  "sum_bytes m a 0 s = Ok s"
| "sum_bytes m a (Suc n) s = rbind (m8 m a) (\<lambda>b. sum_bytes m (a + 1) n (s + b))"

definition acpi_sdt_checksum :: "fmem \<Rightarrow> u64 \<Rightarrow> bool result" where
  "acpi_sdt_checksum m a = rbind (m32 m (a + 4)) (\<lambda>n. rbind (sum_bytes m a (unat n) 0) (\<lambda>s. Ok (s = 0)))"

text \<open>The search of both kinds of root table. \<open>pto\<close> is the variable of this name for an index, \<open>n\<close> what is left of the entries.\<close>

fun find_header :: "fmem \<Rightarrow> (nat \<Rightarrow> u32 result) \<Rightarrow> u8 list \<Rightarrow> nat \<Rightarrow> nat \<Rightarrow> nat \<Rightarrow> u64 result" where
  "find_header m pto sig sig_len 0 i = Ok 0"
| "find_header m pto sig sig_len (Suc n) i = rbind (pto i) (\<lambda>p. rbind (mread m (ucast p) 4) (\<lambda>s.
     rbind (memcmp s sig sig_len) (\<lambda>r. if r = 0 then Ok (ucast p) else find_header m pto sig sig_len n (i + 1))))"

definition entries_of :: "u32 \<Rightarrow> u64 \<Rightarrow> u32" where
  "entries_of len entry = ucast ((ucast len - SDT_HEADER) div entry)"

definition find_rsdt :: "fmem \<Rightarrow> u64 \<Rightarrow> u8 list \<Rightarrow> nat \<Rightarrow> u64 result" where
  "find_rsdt m rsdt sig sig_len = rbind (m32 m (rsdt + 4)) (\<lambda>len.
     find_header m (\<lambda>i. m32 m (rsdt + SDT_HEADER + 4 * of_nat i)) sig sig_len (unat (entries_of len 4)) 0)"

definition find_xsdt :: "fmem \<Rightarrow> u64 \<Rightarrow> u8 list \<Rightarrow> nat \<Rightarrow> u64 result" where
  "find_xsdt m xsdt sig sig_len = rbind (m32 m (xsdt + 4)) (\<lambda>len.
     find_header m (\<lambda>i. rbind (m64 m (xsdt + SDT_HEADER + 8 * of_nat i)) (\<lambda>p. Ok (ucast p)))
       sig sig_len (unat (entries_of len 8)) 0)"

text \<open>The offsets are those of \<open>struct rsdp_descriptor\<close> and \<open>struct rsdp2_descriptor\<close>, which are packed.\<close>

definition check_rsdp :: "fmem \<Rightarrow> u64 \<Rightarrow> unit result" where
  "check_rsdp m rsdp = rbind (mread m rsdp 8) (\<lambda>s. rbind (memcmp s (str ''RSD PTR '') 8) (\<lambda>r.
     guard (r = 0) ''RSDP signature mismatch''))"

definition init_acpi_vt :: "fmem \<Rightarrow> u64 \<Rightarrow> u8 list \<Rightarrow> u64 result" where
  "init_acpi_vt m rsdp target = rbind (check_rsdp m rsdp) (\<lambda>_. rbind (m64 m (rsdp + 24)) (\<lambda>xsdt.
     rbind (find_xsdt m xsdt target 4) (\<lambda>t. rbind (acpi_sdt_checksum m t) (\<lambda>ok.
     rbind (guard ok ''XSDT checksum mismatch'') (\<lambda>_. Ok t)))))"

definition init_acpi_vz :: "fmem \<Rightarrow> u64 \<Rightarrow> u8 list \<Rightarrow> u64 result" where
  "init_acpi_vz m rsdp target = rbind (check_rsdp m rsdp) (\<lambda>_. rbind (m32 m (rsdp + 16)) (\<lambda>rsdt.
     rbind (find_rsdt m (ucast rsdt) target 4) (\<lambda>t. rbind (acpi_sdt_checksum m t) (\<lambda>ok.
     rbind (guard ok ''RSDT checksum mismatch'') (\<lambda>_. Ok t)))))"

definition acpi_table :: "fmem \<Rightarrow> u64 \<Rightarrow> u8 list \<Rightarrow> u64 result" where
  "acpi_table m rsdp target = rbind (m8 m (rsdp + 15)) (\<lambda>revision.
     if revision = 0 then init_acpi_vz m rsdp target
     else if revision = 2 then init_acpi_vt m rsdp target
     else Err (Panic ''RSDP revision not supported''))"

definition get_acpi_mcfg :: "fmem \<Rightarrow> u64 \<Rightarrow> u64 result" where
  "get_acpi_mcfg m rsdp = acpi_table m rsdp (str ''MCFG'')"

definition get_acpi_madt :: "fmem \<Rightarrow> u64 \<Rightarrow> u64 result" where
  "get_acpi_madt m rsdp = acpi_table m rsdp (str ''APIC'')"

definition get_acpi_fadt :: "fmem \<Rightarrow> u64 \<Rightarrow> u64 result" where
  "get_acpi_fadt m rsdp = acpi_table m rsdp (str ''FACP'')"

section \<open>Enabling ACPI\<close>

definition acpi_signatures :: "u8 list list" where
  "acpi_signatures = map str [
     ''BERT'', ''BOOT'', ''BGRT'', ''CPEP'', ''CSRT'', ''DBG2'', ''DBGP'', ''DSDT'', ''DMAR'', ''DRTM'', ''ECDT'', ''EINJ'', ''ERST'', ''ETDT'',
     ''FACS'', ''FADT'', ''FPDT'', ''GTDT'', ''HEST'', ''HPET'', ''IBFT'', ''IORT'', ''IVRS'', ''LPIT'', ''MADT'', ''MCFG'', ''MCHI'', ''MPST'',
     ''MSCT'', ''MSDM'', ''NFIT'', ''OEMx'', ''PCCT'', ''PMTT'', ''PSDT'', ''RASF'', ''SBST'', ''SLIC'', ''SLIT'', ''SPCR'', ''SPMI'', ''SRAT'',
     ''SSDT'', ''STAO'', ''TCPA'', ''TPM2'', ''UEFI'', ''WAET'', ''WDAT'', ''WDRT'', ''WPBT'', ''XENV'', ''XSDT''
  ]"

text \<open>The tables the list is made of; the code prints them.\<close>

fun all_tables :: "fmem \<Rightarrow> u64 \<Rightarrow> u8 list list \<Rightarrow> u64 list result" where
  "all_tables m rsdp [] = Ok []"
| "all_tables m rsdp (sig # sigs) = rbind (acpi_table m rsdp sig) (\<lambda>t. rbind (all_tables m rsdp sigs) (\<lambda>ts.
     Ok (if t \<noteq> 0 then t # ts else ts)))"

definition enumerate_tables :: "fmem \<Rightarrow> u64 \<Rightarrow> u64 list result" where
  "enumerate_tables m rsdp = all_tables m rsdp acpi_signatures"

text \<open>The offsets are those of \<open>struct fadt_header\<close>.\<close>

definition is_enabled :: "fmem \<Rightarrow> u64 \<Rightarrow> bool result" where
  "is_enabled m fadt = rbind (m32 m (fadt + 48)) (\<lambda>smi_command_port. if smi_command_port \<noteq> 0 then Ok False else
     rbind (m8 m (fadt + 52)) (\<lambda>acpi_enable. rbind (m8 m (fadt + 53)) (\<lambda>acpi_disable.
     if acpi_enable \<noteq> 0 \<or> acpi_disable \<noteq> 0 then Ok False else
     rbind (m32 m (fadt + 56)) (\<lambda>pm1a_event_block. Ok (pm1a_event_block AND 1 \<noteq> 0)))))"

text \<open>The ports are a machine of type \<open>'h\<close>: \<open>inw\<close> reads one and \<open>outb\<close> writes one. The wait has no bound: \<open>k\<close> rounds.\<close>

fun wait_enabled :: "nat \<Rightarrow> (u16 \<Rightarrow> 'h \<Rightarrow> u16 \<times> 'h) \<Rightarrow> u16 \<Rightarrow> 'h \<Rightarrow> 'h result" where
  "wait_enabled 0 inw port s = Err Diverge"
| "wait_enabled (Suc k) inw port s = (let (v, s) = inw port s in if v AND 1 = 0 then wait_enabled k inw port s else Ok s)"

definition init_acpi ::
  "nat \<Rightarrow> (u16 \<Rightarrow> 'h \<Rightarrow> u16 \<times> 'h) \<Rightarrow> (u16 \<Rightarrow> u8 \<Rightarrow> 'h \<Rightarrow> 'h) \<Rightarrow> fmem \<Rightarrow> u64 \<Rightarrow> 'h \<Rightarrow> (u64 list \<times> 'h) result" where
  "init_acpi k inw outb m rsdp s = rbind (get_acpi_fadt m rsdp) (\<lambda>fadt. rbind (is_enabled m fadt) (\<lambda>e.
     if e then rbind (enumerate_tables m rsdp) (\<lambda>ts. Ok (ts, s)) else
     rbind (m32 m (fadt + 64)) (\<lambda>control. let (v, s) = inw (ucast control) s in
     if v AND 1 \<noteq> 0 then rbind (enumerate_tables m rsdp) (\<lambda>ts. Ok (ts, s)) else
     rbind (m32 m (fadt + 48)) (\<lambda>port. rbind (m8 m (fadt + 52)) (\<lambda>cmd.
     rbind (wait_enabled k inw (ucast control) (outb (ucast port) cmd s)) (\<lambda>s.
     rbind (enumerate_tables m rsdp) (\<lambda>ts. Ok (ts, s))))))))"

section \<open>Starting the device layer\<close>

definition device_config_at :: "fmem \<Rightarrow> u64 \<Rightarrow> device_config result" where
  "device_config_at m a = rbind (m64 m a) (\<lambda>base. rbind (m8 m (a + 10)) (\<lambda>start. rbind (m8 m (a + 11)) (\<lambda>stop.
     Ok \<lparr>base_address = base, start_bus = start, end_bus = stop\<rparr>)))"

definition init_devices ::
  "(u64 \<Rightarrow> pci_device_header_0) \<Rightarrow> (ahci \<Rightarrow> ahci) \<Rightarrow> nat \<Rightarrow> fmem \<Rightarrow> u64 \<Rightarrow> 'w pci \<Rightarrow> 'w pci result" where
  "init_devices cfg hw k m rsdp s = (let s1 = s\<lparr>pdevs := init_devices_head (pdevs s)\<rparr> in
     rbind (get_acpi_mcfg m rsdp) (\<lambda>mcfg. if mcfg \<noteq> 0
       then rbind (m32 m (mcfg + 4)) (\<lambda>len.
         register_pci cfg hw k \<lparr>mcfg_length = len, mcfg_entry = (\<lambda>i. device_config_at m (mcfg + 44 + 16 * i))\<rparr> s1)
       else Ok s1))"

section \<open>What is found\<close>

text \<open>The root table of a machine whose firmware is of revision 2: at \<open>x\<close>, with the pointers \<open>ps\<close>.\<close>

definition root_table :: "fmem \<Rightarrow> u64 \<Rightarrow> u64 \<Rightarrow> u64 list \<Rightarrow> bool" where
  "root_table m rsdp x ps \<longleftrightarrow> mread m rsdp 8 = Ok (str ''RSD PTR '') \<and> m8 m (rsdp + 15) = Ok 2 \<and> m64 m (rsdp + 24) = Ok x \<and>
     m32 m (x + 4) = Ok (of_nat (36 + 8 * length ps)) \<and> length ps < 2 ^ 28 \<and>
     (\<forall>i < length ps. m64 m (x + SDT_HEADER + 8 * of_nat i) = Ok (ps ! i))"

text \<open>The search keeps 32 bits of each pointer.\<close>

definition low :: "u64 \<Rightarrow> u64" where
  "low p = ucast (ucast p :: u32)"

definition readable :: "fmem \<Rightarrow> u64 list \<Rightarrow> bool" where
  "readable m ps \<longleftrightarrow> (\<forall>p \<in> set ps. \<exists>s. mread m (low p) 4 = Ok s)"

lemma memcmp_equal: "length a = n \<Longrightarrow> length b = n \<Longrightarrow> memcmp a b n = Ok (if a = b then 0 else 1)"
proof (induction a arbitrary: b n)
  case (Cons x xs)
  then obtain y ys k where "b = y # ys" "n = Suc k" "length ys = k" "length xs = k" by (cases b) auto
  with Cons.IH [of k ys] show ?case by simp
qed simp

lemma mread_length: "mread m a n = Ok s \<Longrightarrow> length s = n"
  by (induction n arbitrary: a s) (auto simp: rbind_eq_Ok split: option.splits)

lemma find_header_first:
  assumes "length sig = 4" "readable m ps" "\<And>j. j < length ps \<Longrightarrow> pto (i + j) = Ok (ucast (ps ! j))"
  shows "find_header m pto sig 4 (length ps) i = Ok (case List.find (\<lambda>p. mread m (low p) 4 = Ok sig) ps of None \<Rightarrow> 0 | Some p \<Rightarrow> low p)"
  using assms
proof (induction ps arbitrary: i)
  case (Cons p ps)
  from Cons.prems(2) obtain s where s: "mread m (low p) 4 = Ok s" by (auto simp: readable_def)
  have r: "pto i = Ok (ucast p)" using Cons.prems(3) [of 0] by simp
  have c: "memcmp s sig 4 = Ok (if s = sig then 0 else 1)" using memcmp_equal [OF mread_length [OF s] Cons.prems(1)] .
  have "find_header m pto sig 4 (length ps) (i + 1) =
      Ok (case List.find (\<lambda>p. mread m (low p) 4 = Ok sig) ps of None \<Rightarrow> 0 | Some p \<Rightarrow> low p)"
    by (rule Cons.IH) (use Cons.prems Cons.prems(3) [of "Suc j" for j] in \<open>simp_all add: readable_def\<close>)
  with r s c show ?case by (simp add: low_def)
qed simp

lemma entries_of_length:
  assumes "n < 2 ^ 28"
  shows "unat (entries_of (of_nat (36 + 8 * n)) 8) = n"
proof -
  have "(ucast (of_nat (36 + 8 * n) :: u32) :: u64) - 36 = of_nat (8 * n)" 
  proof -
    have "unat (of_nat (36 + 8 * n) :: u32) = 36 + 8 * n" using assms by (simp only: unat_of_nat) (simp add: take_bit_nat_eq_self)
    then have "(ucast (of_nat (36 + 8 * n) :: u32) :: u64) = of_nat (36 + 8 * n)" by (metis of_nat_unat ucast_id)
    then show ?thesis by simp
  qed
  moreover have "(of_nat (8 * n) :: u64) div 8 = of_nat n"
  proof -
    have "unat (of_nat (8 * n) :: u64) = 8 * n" using assms by (simp only: unat_of_nat) (simp add: take_bit_nat_eq_self)
    then have "unat ((of_nat (8 * n) :: u64) div 8) = n" by (simp only: unat_div_distrib) simp
    then show ?thesis by (metis of_nat_unat ucast_id)
  qed
  ultimately have "entries_of (of_nat (36 + 8 * n)) 8 = ucast (of_nat n :: u64)" unfolding entries_of_def by (simp only:)
  then show ?thesis using assms by (simp add: unsigned_ucast_eq unat_of_nat take_bit_nat_eq_self)
qed

lemma acpi_table_looked_up:
  assumes "root_table m rsdp x ps" "readable m ps" "length sig = 4"
  shows "acpi_table m rsdp sig =
    (let t = (case List.find (\<lambda>p. mread m (low p) 4 = Ok sig) ps of None \<Rightarrow> 0 | Some p \<Rightarrow> low p) in
     rbind (acpi_sdt_checksum m t) (\<lambda>ok. if ok then Ok t else Err (Panic ''XSDT checksum mismatch'')))"
proof -
  let ?t = "case List.find (\<lambda>p. mread m (low p) 4 = Ok sig) ps of None \<Rightarrow> 0 | Some p \<Rightarrow> low p"
  let ?p = "\<lambda>i. rbind (m64 m (x + SDT_HEADER + 8 * of_nat i)) (\<lambda>p. Ok (ucast p :: u32))"
  have r: "mread m rsdp 8 = Ok (str ''RSD PTR '')" "m8 m (rsdp + 15) = Ok 2" "m64 m (rsdp + 24) = Ok x"
    "m32 m (x + 4) = Ok (of_nat (36 + 8 * length ps))" "length ps < 2 ^ 28" using assms(1) by (simp_all only: root_table_def)
  have e: "\<forall>i < length ps. m64 m (x + SDT_HEADER + 8 * of_nat i) = Ok (ps ! i)"
    using assms(1) unfolding root_table_def by blast
  have "find_header m ?p sig 4 (length ps) 0 = Ok ?t"
    by (rule find_header_first [OF assms(3,2)]) (use e in simp)
  then have f: "find_xsdt m x sig 4 = Ok ?t" unfolding find_xsdt_def r(4) rbind_Ok entries_of_length [OF r(5)] .
  have c: "check_rsdp m rsdp = Ok ()" unfolding check_rsdp_def r(1) by (simp add: memcmp_equal str_def guard_def)
  show ?thesis unfolding acpi_table_def r(2) init_acpi_vt_def c r(3) Let_def
    by (simp add: f guard_def) (rule arg_cong [where f = "rbind _"], rule ext, simp)
qed

text \<open>C24: A table is looked up by what it is called: with a good root table \<open>acpi_table\<close> returns the first table, by the low 32
  bits of the pointers, whose signature is the one asked for, if its bytes add up to 0, and stops when they do not;
  when there is none, it adds up the bytes at address 0.\<close>

theorem acpi_table_finds:
  assumes "root_table m rsdp x ps" "readable m ps" "length sig = 4"
  shows "acpi_table m rsdp sig =
    (let t = (case List.find (\<lambda>p. mread m (low p) 4 = Ok sig) ps of None \<Rightarrow> 0 | Some p \<Rightarrow> low p) in
     rbind (acpi_sdt_checksum m t) (\<lambda>ok. if ok then Ok t else Err (Panic ''XSDT checksum mismatch'')))"
  by (rule acpi_table_looked_up [OF assms])

lemma checksum_unmapped: "m 4 = None \<Longrightarrow> acpi_sdt_checksum m 0 = Err Fault"
  by (simp add: acpi_sdt_checksum_def m32_def numeral_eq_Suc)

lemma find_header_found: "find_header m pto sig n k i = Ok t \<Longrightarrow> t \<noteq> 0 \<Longrightarrow>
    \<exists>p s. t = ucast (p :: u32) \<and> mread m t 4 = Ok s \<and> memcmp s sig n = Ok 0"
  by (induction k arbitrary: i) (auto simp: rbind_eq_Ok split: if_splits)

text \<open>Every result is the address of a table with the right signature and checksum: while the first page is not mapped,
  a search without a result stops the kernel.\<close>

lemma acpi_table_result:
  assumes "m 4 = None" "acpi_table m rsdp sig = Ok t"
  shows "t \<noteq> 0 \<and> acpi_sdt_checksum m t = Ok True \<and> (\<exists>s. mread m t 4 = Ok s \<and> memcmp s sig 4 = Ok 0)"
proof -
  have c: "acpi_sdt_checksum m t = Ok True" and f: "\<exists>pto k. find_header m pto sig 4 k 0 = Ok t"
    using assms(2) by (auto simp: acpi_table_def init_acpi_vt_def init_acpi_vz_def find_rsdt_def find_xsdt_def rbind_eq_Ok guard_def split: if_splits)
  have "t \<noteq> 0" using c checksum_unmapped [of m, OF assms(1)] by auto
  with f c find_header_found show ?thesis by blast
qed

lemma all_tables_found:
  assumes "m 4 = None" "all_tables m rsdp sigs = Ok ts"
  shows "list_all2 (\<lambda>sig t. acpi_sdt_checksum m t = Ok True \<and> (\<exists>s. mread m t 4 = Ok s \<and> memcmp s sig 4 = Ok 0)) sigs ts"
  using assms(2)
proof (induction sigs arbitrary: ts)
  case (Cons sig sigs)
  from Cons.prems obtain t us where t: "acpi_table m rsdp sig = Ok t" "all_tables m rsdp sigs = Ok us"
    "ts = (if t \<noteq> 0 then t # us else us)" by (auto simp: rbind_eq_Ok)
  with acpi_table_result [of m, OF assms(1) t(1)] Cons.IH [OF t(2)] show ?case by simp
qed simp

text \<open>\<open>enumerate_tables\<close> ends only on a machine that has a good table for every one of the 53 names.\<close>

lemma enumerate_needs_all:
  assumes "m 4 = None" "enumerate_tables m rsdp = Ok ts"
  shows "length ts = 53 \<and> (\<forall>i < 53. \<exists>s. mread m (ts ! i) 4 = Ok s \<and> memcmp s (acpi_signatures ! i) 4 = Ok 0)"
proof -
  have n: "length acpi_signatures = 53" by (simp add: acpi_signatures_def)
  have l: "list_all2 (\<lambda>sig t. acpi_sdt_checksum m t = Ok True \<and> (\<exists>s. mread m t 4 = Ok s \<and> memcmp s sig 4 = Ok 0)) acpi_signatures ts"
    using all_tables_found [of m, OF assms(1)] assms(2) by (simp add: enumerate_tables_def)
  have "length ts = 53" using list_all2_lengthD [OF l] n by simp
  moreover have "\<exists>s. mread m (ts ! i) 4 = Ok s \<and> memcmp s (acpi_signatures ! i) 4 = Ok 0" if "i < 53" for i
    using list_all2_nthD [OF l, of i] n that by simp
  ultimately show ?thesis by blast
qed

text \<open>The device layer tests whether the firmware has the table of the PCI segments, but does not get there without
  one: when there is none and the first page is not mapped, the start of the layer reads the table at address 0.\<close>

theorem devices_need_mcfg:
  assumes "root_table m rsdp x ps" "readable m ps" "\<forall>p \<in> set ps. mread m (low p) 4 \<noteq> Ok (str ''MCFG'')" "m 4 = None"
  shows "init_devices cfg hw k m rsdp s = Err Fault"
proof -
  have "List.find (\<lambda>p. mread m (low p) 4 = Ok (str ''MCFG'')) ps = None" using assms(3) by (auto simp: find_None_iff)
  then have "get_acpi_mcfg m rsdp = Err Fault"
    using acpi_table_looked_up [OF assms(1,2), of "str ''MCFG''"] checksum_unmapped [of m, OF assms(4)]
    by (simp add: get_acpi_mcfg_def str_def)
  then show ?thesis by (simp add: init_devices_def)
qed

section \<open>A concrete machine\<close>

text \<open>The descriptor at 0x1000, the root table with one pointer, whose upper half is not 0, and a table \<open>APIC\<close> behind it.\<close>

definition firmware :: "u8 list" where
  "firmware = str ''RSD PTR '' @ [0, 0, 0, 0, 0, 0, 0, 2, 0, 0, 0, 0, 36, 0, 0, 0, 0x24, 0x10, 0, 0, 0, 0, 0, 0, 0, 0, 0, 0]
     @ str ''XSDT'' @ [44, 0, 0, 0] @ replicate 28 0 @ [0x50, 0x10, 0, 0, 1, 0, 0, 0] @ str ''APIC'' @ [10, 0, 0, 0, 0, 0xD9]"

definition block :: "u64 \<Rightarrow> u8 list \<Rightarrow> fmem" where
  "block base bs a = (let i = unat (a - base) in if i < length bs then Some (bs ! i) else None)"

lemma mread_block: "i + n \<le> length bs \<Longrightarrow> length bs < 2 ^ 63 \<Longrightarrow> mread (block base bs) (base + of_nat i) n = Ok (take n (drop i bs))"
proof (induction n arbitrary: i)
  case (Suc n)
  have "unat (base + of_nat i - base) = i" using Suc.prems by (simp add: unat_of_nat take_bit_nat_eq_self)
  then have b: "block base bs (base + of_nat i) = Some (bs ! i)" using Suc.prems by (simp add: block_def Let_def)
  have "base + of_nat i + 1 = base + of_nat (i + 1)" by simp
  moreover have "mread (block base bs) (base + of_nat (i + 1)) n = Ok (take n (drop (i + 1) bs))"
    using Suc.prems by (intro Suc.IH) simp_all
  ultimately have "mread (block base bs) (base + of_nat i) (Suc n) = Ok (bs ! i # take n (drop (i + 1) bs))" by (simp only: mread.simps b option.case rbind_Ok)
  also have "bs ! i # take n (drop (i + 1) bs) = take (Suc n) (drop i bs)" using Suc.prems by (simp add: Cons_nth_drop_Suc [symmetric])
  finally show ?case .
qed simp

abbreviation "acpi_example \<equiv> block 0x1000 firmware"

lemma acpi_example_reads:
  "mread acpi_example 0x1000 8 = Ok (str ''RSD PTR '')" "acpi_example 0x100F = Some 2" "mread acpi_example 0x1018 4 = Ok [0x24, 0x10, 0, 0]"
  "mread acpi_example 0x101C 4 = Ok [0, 0, 0, 0]" "mread acpi_example 0x1028 4 = Ok [44, 0, 0, 0]"
  "mread acpi_example 0x1048 4 = Ok [0x50, 0x10, 0, 0]" "mread acpi_example 0x104C 4 = Ok [1, 0, 0, 0]"
  "mread acpi_example 0x1050 4 = Ok (str ''APIC'')" "mread acpi_example 0x1054 4 = Ok [10, 0, 0, 0]" "acpi_example 4 = None"
  using mread_block [of 0 8 firmware "0x1000"] mread_block [of 24 4 firmware "0x1000"] mread_block [of 28 4 firmware "0x1000"]
    mread_block [of 40 4 firmware "0x1000"] mread_block [of 72 4 firmware "0x1000"] mread_block [of 76 4 firmware "0x1000"]
    mread_block [of 80 4 firmware "0x1000"] mread_block [of 84 4 firmware "0x1000"]
  by (simp_all add: firmware_def str_def block_def)

lemma sum_bytes_eq: "sum_bytes m a n s = rbind (mread m a n) (\<lambda>bs. Ok (s + sum_list bs))"
proof (induction n arbitrary: a s)
  case (Suc n)
  show ?case
  proof (cases "m a")
    case (Some b)
    then show ?thesis by (cases "mread m (a + 1) n") (simp_all add: m8_def Suc.IH add.assoc)
  qed (simp add: m8_def)
qed simp

lemma acpi_example_root: "root_table acpi_example 0x1000 0x1024 [0x100001050]"
  by (simp add: root_table_def m8_def m32_def m64_def acpi_example_reads w32_def int_shl_def)

lemma acpi_example_readable: "readable acpi_example [0x100001050]"
  by (simp add: readable_def low_def acpi_example_reads)

theorem acpi_table_finds_witness: "acpi_table acpi_example 0x1000 (str ''APIC'') = Ok 0x1050"
proof -
  have "take 10 (drop 80 firmware) = [65, 80, 73, 67, 10, 0, 0, 0, 0, 0xD9]" "90 \<le> length firmware" "length firmware < 2 ^ 63"
    by (simp_all add: firmware_def str_def)
  then have "mread acpi_example 0x1050 10 = Ok [65, 80, 73, 67, 10, 0, 0, 0, 0, 0xD9]" using mread_block [of 80 10 firmware "0x1000"] by simp
  then have "acpi_sdt_checksum acpi_example 0x1050 = Ok True"
    by (simp add: acpi_sdt_checksum_def m32_def acpi_example_reads w32_def int_shl_def sum_bytes_eq)
  moreover have "length (str ''APIC'') = 4" by (simp add: str_def)
  ultimately show ?thesis
    using acpi_table_finds [OF acpi_example_root acpi_example_readable, of "str ''APIC''"] by (simp add: low_def acpi_example_reads)
qed

theorem devices_need_mcfg_witness:
  "\<forall>s :: unit pci. init_devices (\<lambda>_. no_function) id 1 acpi_example 0x1000 s = Err Fault"
proof
  fix s :: "unit pci"
  have "\<forall>p \<in> set [0x100001050]. mread acpi_example (low p) 4 \<noteq> Ok (str ''MCFG'')"
    by (simp add: low_def acpi_example_reads) (simp add: str_def)
  with devices_need_mcfg [OF acpi_example_root acpi_example_readable this acpi_example_reads(10)]
  show "init_devices (\<lambda>_. no_function) id 1 acpi_example 0x1000 s = Err Fault" by blast
qed

end
