(* ===== verification/Calendar.thy ===== *)
theory Calendar
  imports CString Pit
begin

text \<open>The calendar (\<open>util/time.c\<close>) and the dates of EXT2 (\<open>epoch_to_date\<close> of \<open>ext2_util.c\<close>).\<close>

section \<open>Times\<close>

record tm =
  tm_sec :: int
  tm_min :: int
  tm_hour :: int
  tm_mday :: int
  tm_mon :: int
  tm_year :: int
  tm_wday :: int
  tm_yday :: int
  tm_isdst :: int

text \<open>The result and what is stored at \<open>tloc\<close>, when that is given.\<close>

definition time :: "pit \<Rightarrow> u64 option \<Rightarrow> u64 \<times> u64 option" where
  "time p tloc = (get_epoch p, map_option (\<lambda>_. get_epoch p) tloc)"

definition localtime :: "u64 \<Rightarrow> tm" where
  "localtime t = \<lparr>
     tm_sec = uint (t mod 60),
     tm_min = uint ((t div 60) mod 60),
     tm_hour = uint ((t div 3600) mod 24),
     tm_mday = uint ((t div 86400) mod 30),
     tm_mon = uint ((t div 2592000) mod 12),
     tm_year = sint (ucast (t div 31104000 + 70) :: u32),
     tm_wday = uint ((t div 86400) mod 7),
     tm_yday = uint ((t div 86400) mod 365),
     tm_isdst = 0\<rparr>"

section \<open>Formatting\<close>

definition ascii :: "string \<Rightarrow> u8 list" where
  "ascii = map (\<lambda>c. of_nat (of_char c))"

definition days :: "u8 list list" where
  "days = map ascii [''Sun'', ''Mon'', ''Tue'', ''Wed'', ''Thu'', ''Fri'', ''Sat'']"

definition months :: "u8 list list" where
  "months = map ascii [''Jan'', ''Feb'', ''Mar'', ''Apr'', ''May'', ''Jun'', ''Jul'', ''Aug'', ''Sep'', ''Oct'', ''Nov'', ''Dec'']"

text \<open>\<open>tzset\<close> stores the same name again.\<close>

definition tzname :: "u8 list" where
  "tzname = ascii ''CET''"

fun dec_str :: "nat \<Rightarrow> u8 list" where
  "dec_str n = (if n < 10 then [of_nat (48 + n)] else dec_str (n div 10) @ [of_nat (48 + n mod 10)])"

declare dec_str.simps [simp del]

text \<open>What \<open>snprintf (s + i, n, "%0wd", v)\<close> does: the number in at least \<open>w\<close> characters, of which \<open>n - 1\<close> are kept, and a
  terminator.\<close>

definition pad_dec :: "nat \<Rightarrow> int \<Rightarrow> u8 list" where
  "pad_dec w v = (let d = dec_str (nat \<bar>v\<bar>); sign = (if v < 0 then [45] else []) in
     sign @ replicate (w - length sign - length d) 48 @ d)"

definition snprintf_int :: "u8 list \<Rightarrow> nat \<Rightarrow> nat \<Rightarrow> nat \<Rightarrow> int \<Rightarrow> u8 list result" where
  "snprintf_int s i n w v = put_bytes s i (take (n - 1) (pad_dec w v) @ [0])"

definition name_of :: "u8 list list \<Rightarrow> int \<Rightarrow> u8 list result" where
  "name_of names k = (if 0 \<le> k then rd names (nat k) else Err Fault)"

text \<open>The character behind a \<open>%\<close>: the new index and buffer.\<close>

definition strftime_field :: "tm \<Rightarrow> u8 \<Rightarrow> u8 list \<Rightarrow> nat \<Rightarrow> (nat \<times> u8 list) result" where
  "strftime_field tm c s i =
     (if c = 97 then rbind (name_of days (tm_wday tm)) (\<lambda>n. rbind (put_bytes s i n) (\<lambda>s. Ok (i + 3, s)))
      else if c = 98 then rbind (name_of months (tm_mon tm)) (\<lambda>n. rbind (put_bytes s i n) (\<lambda>s. Ok (i + 3, s)))
      else if c = 100 then rbind (snprintf_int s i 3 2 (tm_mday tm)) (\<lambda>s. Ok (i + 2, s))
      else if c = 72 then rbind (snprintf_int s i 3 2 (tm_hour tm)) (\<lambda>s. Ok (i + 2, s))
      else if c = 77 then rbind (snprintf_int s i 3 2 (tm_min tm)) (\<lambda>s. Ok (i + 2, s))
      else if c = 83 then rbind (snprintf_int s i 3 2 (tm_sec tm)) (\<lambda>s. Ok (i + 2, s))
      else if c = 89 then rbind (snprintf_int s i 5 4 (tm_year tm + 1900)) (\<lambda>s. Ok (i + 4, s))
      else if c = 90 then rbind (put_bytes s i tzname) (\<lambda>s. Ok (i + 3, s))
      else if c = 37 then rbind (wr s i 37) (\<lambda>s. Ok (i + 1, s))
      else rbind (wr s i c) (\<lambda>s. Ok (i + 1, s)))"

text \<open>\<open>fmt\<close> is what is left of the format.\<close>

fun strftime_loop :: "nat \<Rightarrow> tm \<Rightarrow> u8 list \<Rightarrow> u8 list \<Rightarrow> nat \<Rightarrow> (nat \<times> u8 list) result" where
  "strftime_loop mx tm [] s i = (if i < mx then Err Fault else Ok (i, s))"
| "strftime_loop mx tm (c # fmt) s i = (if i < mx \<and> c \<noteq> 0 then
     (if c = 37 then (case fmt of [] \<Rightarrow> Err Fault
        | d # fmt \<Rightarrow> rbind (strftime_field tm d s i) (\<lambda>(i, s). strftime_loop mx tm fmt s i))
      else rbind (wr s i c) (\<lambda>s. strftime_loop mx tm fmt s (i + 1)))
     else Ok (i, s))"

definition strftime :: "u8 list \<Rightarrow> nat \<Rightarrow> u8 list \<Rightarrow> tm \<Rightarrow> (nat \<times> u8 list) result" where
  "strftime s mx fmt tm = rbind (strftime_loop mx tm fmt s 0) (\<lambda>(i, s). rbind (wr s i 0) (\<lambda>s. Ok (i, s)))"

definition epoch_to_date :: "u8 list \<Rightarrow> u32 \<Rightarrow> u8 list result" where
  "epoch_to_date date epoch =
     rbind (strftime date 32 (ascii ''%Y-%m-%d %H:%M:%S'' @ [0]) (localtime (ucast epoch))) (\<lambda>(_, date). Ok date)"

definition ext2_get_current_epoch :: "pit \<Rightarrow> u32" where
  "ext2_get_current_epoch p = ucast (fst (time p None))"

section \<open>What a date says\<close>

definition two_digits :: "nat \<Rightarrow> u8 list" where
  "two_digits n = [of_nat (48 + n div 10), of_nat (48 + n mod 10)]"

definition four_digits :: "nat \<Rightarrow> u8 list" where
  "four_digits n = two_digits (n div 100) @ two_digits (n mod 100)"

lemma dec_str_less: "n < 10 \<Longrightarrow> dec_str n = [of_nat (48 + n)]"
  by (simp add: dec_str.simps [of n])

lemma dec_str_more: "10 \<le> n \<Longrightarrow> dec_str n = dec_str (n div 10) @ [of_nat (48 + n mod 10)]"
  by (simp add: dec_str.simps [of n])

lemma pad_two:
  assumes "n < 100"
  shows "pad_dec 2 (int n) = two_digits n"
proof (cases "n < 10")
  case False
  then have "n div 10 < 10" "10 \<le> n" using assms by simp_all
  then show ?thesis by (simp add: pad_dec_def two_digits_def dec_str_more dec_str_less)
qed (simp add: pad_dec_def two_digits_def dec_str_less)

lemma pad_four:
  assumes "1000 \<le> n" "n < 10000"
  shows "pad_dec 4 (int n) = four_digits n"
proof -
  have m: "n mod 100 div 10 = n div 10 mod 10" "n mod 100 mod 10 = n mod 10"
    using mod_mult2_eq [of n 10 10] by (simp_all add: mod_mod_cancel)
  have b: "n div 1000 < 10" "10 \<le> n div 100" "10 \<le> n div 10" "10 \<le> n" using assms by simp_all
  have d: "n div 10 div 10 = n div 100" "n div 100 div 10 = n div 1000" by (simp_all flip: div_mult2_eq)
  have "dec_str n = [of_nat (48 + n div 1000), of_nat (48 + n div 100 mod 10), of_nat (48 + n div 10 mod 10), of_nat (48 + n mod 10)]"
    by (simp only: dec_str_more [OF b(4)] dec_str_more [OF b(3)] d dec_str_more [OF b(2)] dec_str_less [OF b(1)] append.simps)
  then show ?thesis by (simp only: pad_dec_def four_digits_def two_digits_def m d Let_def nat_abs_int_diff abs_of_nat nat_int) simp
qed

text \<open>The buffer \<open>s\<close> while a date is printed into \<open>s0\<close>: the text so far, and what lies behind the 19 bytes of a date.\<close>

definition printed :: "u8 list \<Rightarrow> u8 list \<Rightarrow> u8 list \<Rightarrow> bool" where
  "printed s0 text s \<longleftrightarrow> take (length text) s = text \<and> drop 19 s = drop 19 s0 \<and> length s = length s0 \<and> 19 \<le> length s0"

lemma printed_put:
  assumes "printed s0 t s" "length t + length bs \<le> 19" "k \<le> length bs"
  shows "\<exists>s1. put_bytes s (length t) bs = Ok s1 \<and> printed s0 (t @ take k bs) s1"
proof -
  have l: "length t + length bs \<le> length s" using assms by (simp add: printed_def)
  then have "put_bytes s (length t) bs = Ok (take (length t) s @ bs @ drop (length t + length bs) s)" by (rule put_bytes_eq)
  moreover have "printed s0 (t @ take k bs) (take (length t) s @ bs @ drop (length t + length bs) s)"
    using assms l by (auto simp: printed_def min_def)
  ultimately show ?thesis by blast
qed

lemma printed_wr: "printed s0 t s \<Longrightarrow> length t < 19 \<Longrightarrow> \<exists>s1. wr s (length t) c = Ok s1 \<and> printed s0 (t @ [c]) s1"
  using printed_put [of s0 t s "[c]" 1] by (auto simp: rbind_eq_Ok)

definition prints :: "tm \<Rightarrow> u8 list \<Rightarrow> u8 list \<Rightarrow> u8 list \<Rightarrow> u8 list \<Rightarrow> bool" where
  "prints tm s0 fmt t u \<longleftrightarrow> (\<forall>s. printed s0 t s \<longrightarrow> (\<exists>s1. strftime_loop 32 tm fmt s (length t) = Ok (length u, s1) \<and> printed s0 u s1))"

lemma prints_end: "prints tm s0 [0] t t"
  by (simp add: prints_def)

lemma prints_char:
  assumes "c \<noteq> 0" "c \<noteq> 37" "length t < 19" "prints tm s0 fmt (t @ [c]) u"
  shows "prints tm s0 (c # fmt) t u"
  unfolding prints_def
proof (intro allI impI)
  fix s assume "printed s0 t s"
  from printed_wr [OF this assms(3), of c] obtain s1 where "wr s (length t) c = Ok s1" "printed s0 (t @ [c]) s1" by blast
  with assms show "\<exists>s1. strftime_loop 32 tm (c # fmt) s (length t) = Ok (length u, s1) \<and> printed s0 u s1"
    by (simp add: prints_def)
qed

lemma prints_field:
  assumes f: "\<And>s. strftime_field tm d s (length t) = rbind (put_bytes s (length t) (bs @ z)) (\<lambda>s. Ok (length t + length bs, s))"
    and l: "length t + length bs + length z \<le> 19" "bs \<noteq> []" and p: "prints tm s0 fmt (t @ bs) u"
  shows "prints tm s0 (37 # d # fmt) t u"
  unfolding prints_def
proof (intro allI impI)
  fix s assume "printed s0 t s"
  from printed_put [OF this, of "bs @ z" "length bs"] l
  obtain s1 where "put_bytes s (length t) (bs @ z) = Ok s1" "printed s0 (t @ bs) s1" by auto
  moreover have "length t < 32" using l by simp
  ultimately show "\<exists>s1. strftime_loop 32 tm (37 # d # fmt) s (length t) = Ok (length u, s1) \<and> printed s0 u s1"
    using p by (simp add: prints_def f)
qed

lemma localtime_digits:
  fixes e :: u32
  defines "n \<equiv> unat e"
  shows "pad_dec 2 (tm_mday (localtime (ucast e))) = two_digits (n div 86400 mod 30)"
    and "pad_dec 2 (tm_hour (localtime (ucast e))) = two_digits (n div 3600 mod 24)"
    and "pad_dec 2 (tm_min (localtime (ucast e))) = two_digits (n div 60 mod 60)"
    and "pad_dec 2 (tm_sec (localtime (ucast e))) = two_digits (n mod 60)"
    and "pad_dec 4 (tm_year (localtime (ucast e)) + 1900) = four_digits (1970 + n div 31104000)"
proof -
  have "unat e < 2 ^ 64" using unsigned_less [of e, where ?'a = nat] by simp
  then have e: "unat (ucast e :: u64) = n" by (simp add: n_def unsigned_ucast_eq take_bit_nat_eq_self)
  have u: "uint ((ucast e :: u64) div of_nat a mod of_nat b) = int (n div a mod b)" if "a < 2 ^ 64" "b < 2 ^ 64" for a b :: nat
    using that by (simp only: uint_nat unat_div_distrib unat_mod_distrib e) (simp add: unat_of_nat take_bit_nat_eq_self)
  show "pad_dec 2 (tm_mday (localtime (ucast e))) = two_digits (n div 86400 mod 30)"
    using u [of 86400 30] pad_two [of "n div 86400 mod 30"] by (simp add: localtime_def)
  show "pad_dec 2 (tm_hour (localtime (ucast e))) = two_digits (n div 3600 mod 24)"
    using u [of 3600 24] pad_two [of "n div 3600 mod 24"] by (simp add: localtime_def)
  show "pad_dec 2 (tm_min (localtime (ucast e))) = two_digits (n div 60 mod 60)"
    using u [of 60 60] pad_two [of "n div 60 mod 60"] by (simp add: localtime_def)
  show "pad_dec 2 (tm_sec (localtime (ucast e))) = two_digits (n mod 60)"
    using u [of 1 60] pad_two [of "n mod 60"] by (simp add: localtime_def)
  have y: "n div 31104000 < 139" using unsigned_less [of e, where ?'a = nat] by (simp add: n_def)
  have "sint (ucast ((ucast e :: u64) div 31104000 + 70) :: u32) = int (n div 31104000 + 70)"
  proof -
    have "(ucast e :: u64) div 31104000 + 70 = of_nat (n div 31104000 + 70)"
    proof -
      have "unat ((ucast e :: u64) div 31104000) = n div 31104000" by (simp only: unat_div_distrib e) simp
      then have "(ucast e :: u64) div 31104000 = of_nat (n div 31104000)" by (metis of_nat_unat ucast_id)
      then show ?thesis by simp
    qed
    then show ?thesis using y by (simp only:) (simp add: sint_uint uint_nat unsigned_ucast_eq unat_of_nat take_bit_nat_eq_self signed_take_bit_int_eq_self)
  qed
  then show "pad_dec 4 (tm_year (localtime (ucast e)) + 1900) = four_digits (1970 + n div 31104000)"
    using pad_four [of "1970 + n div 31104000"] y by (simp add: localtime_def)
qed

definition date_text :: "nat \<Rightarrow> u8 list" where
  "date_text n = four_digits (1970 + n div 31104000) @ ascii ''-m-'' @ two_digits (n div 86400 mod 30) @ ascii '' '' @
     two_digits (n div 3600 mod 24) @ ascii '':'' @ two_digits (n div 60 mod 60) @ ascii '':'' @ two_digits (n mod 60)"

lemma digits_length [simp]: "length (two_digits n) = 2" "length (four_digits n) = 4" "two_digits n \<noteq> []" "four_digits n \<noteq> []"
  by (simp_all add: two_digits_def four_digits_def)

text \<open>C37: A date of EXT2 is always 18 characters and fits 19 bytes, but it is not the date: years have twelve months of 30
  days, days count from 0, and the month is the letter \<open>m\<close>, since the format has a conversion that \<open>strftime\<close> lacks.\<close>

theorem epoch_to_date_text:
  assumes "19 \<le> length date"
  shows "epoch_to_date date e = Ok (date_text (unat e) @ 0 # drop 19 date)"
proof -
  let ?tm = "localtime (ucast e)" and ?n = "unat e"
  let ?y = "four_digits (1970 + ?n div 31104000)" and ?d = "two_digits (?n div 86400 mod 30)"
    and ?h = "two_digits (?n div 3600 mod 24)" and ?m = "two_digits (?n div 60 mod 60)" and ?s = "two_digits (?n mod 60)"
  have f: "strftime_field ?tm 89 s i = rbind (put_bytes s i (?y @ [0])) (\<lambda>s. Ok (i + length ?y, s))"
    "strftime_field ?tm 109 s i = rbind (put_bytes s i ([109] @ [])) (\<lambda>s. Ok (i + length [109 :: u8], s))"
    "strftime_field ?tm 100 s i = rbind (put_bytes s i (?d @ [0])) (\<lambda>s. Ok (i + length ?d, s))"
    "strftime_field ?tm 72 s i = rbind (put_bytes s i (?h @ [0])) (\<lambda>s. Ok (i + length ?h, s))"
    "strftime_field ?tm 77 s i = rbind (put_bytes s i (?m @ [0])) (\<lambda>s. Ok (i + length ?m, s))"
    "strftime_field ?tm 83 s i = rbind (put_bytes s i (?s @ [0])) (\<lambda>s. Ok (i + length ?s, s))" for s i
    by (simp_all add: strftime_field_def snprintf_int_def localtime_digits wr_def)
  note field = f [THEN prints_field]
  have "prints ?tm date [37, 89, 45, 37, 109, 45, 37, 100, 32, 37, 72, 58, 37, 77, 58, 37, 83, 0] []
      ((((((((((([] @ ?y) @ [45]) @ [109]) @ [45]) @ ?d) @ [32]) @ ?h) @ [58]) @ ?m) @ [58]) @ ?s)"
    by (intro field prints_char prints_end) simp_all
  then have "prints ?tm date (ascii ''%Y-%m-%d %H:%M:%S'' @ [0]) [] (date_text ?n)"
    by (simp add: ascii_def date_text_def)
  moreover have "printed date [] date" using assms by (simp add: printed_def)
  moreover have l: "length (date_text ?n) = 18" by (simp add: date_text_def ascii_def)
  ultimately obtain s where s: "strftime_loop 32 ?tm (ascii ''%Y-%m-%d %H:%M:%S'' @ [0]) date 0 = Ok (18, s)" "printed date (date_text ?n) s"
    unfolding prints_def by (metis list.size(3))
  from printed_wr [OF s(2), of 0] l obtain s1 where w: "wr s 18 0 = Ok s1" "printed date (date_text ?n @ [0]) s1" by auto
  have "s1 = date_text ?n @ 0 # drop 19 date"
    using w(2) l append_take_drop_id [of 19 s1] by (simp add: printed_def)
  with s(1) w(1) show ?thesis by (simp add: epoch_to_date_def strftime_def)
qed

theorem epoch_to_date_text_witness:
  "epoch_to_date (replicate 32 0) 86400 = Ok (ascii ''1970-m-01 00:00:00'' @ 0 # replicate 13 0)"
  using epoch_to_date_text [of "replicate 32 0" 86400]
  by (simp add: date_text_def ascii_def four_digits_def two_digits_def)

text \<open>The bound holds before each conversion only: a conversion of four characters may start at the last place.\<close>

lemma strftime_field_grows: "strftime_field tm c s i = Ok (j, s1) \<Longrightarrow> j \<le> i + 4"
  by (auto simp: strftime_field_def rbind_eq_Ok split: if_splits)

lemma strftime_bound: "strftime_loop mx tm fmt s i = Ok (j, s1) \<Longrightarrow> i \<le> mx + 3 \<Longrightarrow> j \<le> mx + 3"
proof (induction mx tm fmt s i rule: strftime_loop.induct)
  case (2 mx tm c fmt s i)
  show ?case
  proof (cases "i < mx \<and> c \<noteq> 0")
    case True
    show ?thesis
    proof (cases "c = 37")
      case 37: True
      then obtain d fs where fs: "fmt = d # fs" using 2(3) True by (cases fmt) auto
      from 2(3) True 37 fs obtain i1 s2 where
        f: "strftime_field tm d s i = Ok (i1, s2)" "strftime_loop mx tm fs s2 i1 = Ok (j, s1)" by (auto simp: rbind_eq_Ok)
      have "i1 \<le> mx + 3" using strftime_field_grows [OF f(1)] True by simp
      then show ?thesis using 2(1) [OF True 37 fs f(2)] by blast
    next
      case False
      from 2(3) True False obtain s2 where s: "strftime_loop mx tm fmt s2 (i + 1) = Ok (j, s1)" by (auto simp: rbind_eq_Ok)
      show ?thesis using 2(2) [OF True False s] True by simp
    qed
  qed (use 2(3,4) in auto)
qed (auto split: if_splits)

lemma strftime_overrun:
  fixes e :: u32
  shows "strftime (replicate 5 0) 5 [37, 89, 37, 89, 0] (localtime (ucast e)) = Err Fault"
proof -
  let ?tm = "localtime (ucast e)" and ?y = "four_digits (1970 + unat e div 31104000)"
  have f: "strftime_field ?tm 89 s i = rbind (put_bytes s i (?y @ [0])) (\<lambda>s. Ok (i + 4, s))" for s i
    by (simp add: strftime_field_def snprintf_int_def localtime_digits)
  have "put_bytes (replicate 5 0) 0 (?y @ [0]) = Ok (?y @ [0])" using put_bytes_eq [of 0 "?y @ [0]" "replicate 5 0"] by simp
  moreover have "put_bytes (?y @ [0]) 4 (?y @ [0]) = Err Fault" by (rule put_bytes_over) simp_all
  ultimately show ?thesis by (simp add: strftime_def f)
qed

end
