(* ===== verification/Comm.thy ===== *)
theory Comm
  imports Serial Tty Devices
begin

text \<open>The terminals of the serial ports (\<open>devices/comm/comm.c\<close>): every port that answers becomes a device, and a terminal on
  that device becomes another. The array the ports are collected in is a list; its allocation is left out.\<close>

section \<open>Registration\<close>

record 'w comm =
  ser :: serials
  ttys :: "tty list"
  cdevs :: "'w devtab"

abbreviation "SERIAL_MAJOR \<equiv> (0x8d :: u8)"
abbreviation "TTY_MAJOR \<equiv> (0xe :: u8)"

text \<open>\<open>m\<close> holds the results of the allocations of \<open>tty_init\<close>, \<open>tty_at\<close> the addresses of the terminals.\<close>

definition register_port :: "tty_mem \<Rightarrow> (int \<Rightarrow> u64) \<Rightarrow> int \<Rightarrow> 'w comm \<Rightarrow> 'w comm result" where
  "register_port m tty_at port s = rbind (device_create (cdevs s) 0 SERIAL_MAJOR (word_of_int port)) (\<lambda>(name, t).
     rbind (tty_init m (ttys s) name name TTY_MODE_SERIAL 1024 1024) (\<lambda>(index, ts).
     let s1 = s\<lparr>ttys := ts, cdevs := t\<rparr> in
     if is_valid_tty (get_tty ts index)
     then rbind (device_create t (tty_at index) TTY_MAJOR (word_of_int index)) (\<lambda>(_, t). Ok (s1\<lparr>cdevs := t\<rparr>))
     else Ok s1))"

fun register_ports :: "(nat \<Rightarrow> tty_mem) \<Rightarrow> (int \<Rightarrow> u64) \<Rightarrow> nat \<Rightarrow> int list \<Rightarrow> 'w comm \<Rightarrow> 'w comm result" where
  "register_ports m tty_at i [] s = Ok s"
| "register_ports m tty_at i (p # ps) s = rbind (register_port (m i) tty_at p s) (register_ports m tty_at (i + 1) ps)"

definition register_comm :: "(int \<Rightarrow> u8) \<Rightarrow> (nat \<Rightarrow> tty_mem) \<Rightarrow> (int \<Rightarrow> u64) \<Rightarrow> 'w comm \<Rightarrow> 'w comm result" where
  "register_comm loop m tty_at s = rbind (init_serial loop (ser s) 4096 4096) (\<lambda>s1.
     let port_count = serial_count_ports s1; port_buffer = serial_get_ports s1 in
     register_ports m tty_at 0 (take port_count port_buffer) (s\<lparr>ser := s1\<rparr>))"

section \<open>What is registered\<close>

definition mem_good :: "tty_mem \<Rightarrow> bool" where
  "mem_good m \<longleftrightarrow> m_inb m \<and> m_outb m \<and> m_subs m \<and> m_ld m \<and> m_ldbuf m \<noteq> None"

definition slots_ok :: "tty list \<Rightarrow> bool" where
  "slots_ok ts \<longleftrightarrow> length ts = 32 \<and> (\<forall>t \<in> set ts. length (indev t) = 32 \<and> length (outdev t) = 32)"

definition free_slots :: "tty list \<Rightarrow> nat" where
  "free_slots ts = length (filter (\<lambda>t. tvalid t = 0) ts)"

lemma first_free_exists: "free_slots ts \<noteq> 0 \<Longrightarrow> \<exists>i < length ts. first_free ts k = Some (k + i) \<and> tvalid (ts ! i) = 0"
proof (induction ts arbitrary: k)
  case (Cons t ts)
  show ?case
  proof (cases "tvalid t = 0")
    case False
    then have "free_slots ts \<noteq> 0" using Cons.prems by (simp add: free_slots_def)
    from Cons.IH [OF this, of "k + 1"] obtain i where "i < length ts" "first_free ts (k + 1) = Some (k + 1 + i)" "tvalid (ts ! i) = 0" by blast
    then show ?thesis using False by (intro exI [of _ "Suc i"]) simp
  qed (intro exI [of _ 0], simp)
qed (simp add: free_slots_def)

lemma free_slots_take: "i < length ts \<Longrightarrow> tvalid (ts ! i) = 0 \<Longrightarrow> tvalid t \<noteq> 0 \<Longrightarrow> Suc (free_slots (ts[i := t])) = free_slots ts"
proof (induction ts arbitrary: i)
  case (Cons x xs) then show ?case by (cases i) (auto simp: free_slots_def)
qed simp

text \<open>The terminal \<open>t\<close> reads and writes the device called \<open>name\<close>.\<close>

definition terminal_on :: "u8 list \<Rightarrow> tty \<Rightarrow> bool" where
  "terminal_on name t \<longleftrightarrow> tvalid t = 1 \<and> cstr (indev t) = cstr name \<and> cstr (outdev t) = cstr name \<and> length (indev t) = 32 \<and>
     length (outdev t) = 32"

lemma name_copied:
  assumes "terminated name" "length name = 32" "length d = 32"
  shows "\<exists>d1. strncpy d name 32 = Ok d1 \<and> cstr d1 = cstr name \<and> length d1 = 32"
proof -
  have l: "length (cstr name) < 32" using cstr_length [OF assms(1)] assms(2) by simp
  then have "strncpy d name 32 = Ok (cstr name @ 0 # drop (length (cstr name) + 1) d)"
    using strncpy_copies [OF assms(1), of 32 d] assms(3) by simp
  moreover have "cstr (cstr name @ 0 # xs) = cstr name" for xs
    by (simp add: cstr_def takeWhile_append)
  ultimately show ?thesis using l assms(3) by simp
qed

lemma terminal_made:
  assumes "mem_good m" "length (indev t) = 32" "length (outdev t) = 32" "terminated name" "length name = 32"
  shows "\<exists>t1. tty_setup m t name name TTY_MODE_SERIAL 1024 1024 = Ok (True, t1) \<and> terminal_on name t1"
proof -
  from name_copied [OF assms(4,5,2)] obtain d1 where d1: "strncpy (indev t) name 32 = Ok d1" "cstr d1 = cstr name" "length d1 = 32" by blast
  from name_copied [OF assms(4,5,3)] obtain d2 where d2: "strncpy (outdev t) name 32 = Ok d2" "cstr d2 = cstr name" "length d2 = 32" by blast
  show ?thesis using assms(1) d1 d2
    by (auto simp: tty_setup_def mem_good_def Let_def terminal_on_def line_discipline_create_def call_def)
qed

lemma serial_major_named: "named_major SERIAL_MAJOR" "named_major TTY_MAJOR"
  by (simp_all add: named_major_def rd_def device_identifiers_def nth_append)

lemma register_port_devices:
  assumes "chain (cdevs s) = xs @ [blank_device]" "slots_ok (ttys s)" "free_slots (ttys s) \<noteq> 0" "mem_good m"
  shows "\<exists>d e i t. register_port m tty_at port s =
      Ok (s\<lparr>ttys := (ttys s)[i := t], cdevs := (cdevs s)\<lparr>chain := xs @ [d, e, blank_device]\<rparr>\<rparr>) \<and>
    new_device 0 SERIAL_MAJOR (word_of_int port) d \<and> new_device (tty_at (int i)) TTY_MAJOR (word_of_int (int i)) e \<and>
    i < 32 \<and> tvalid (ttys s ! i) = 0 \<and> terminal_on (dv_name d) t"
proof -
  from device_created [OF assms(1) serial_major_named(1), of 0 "word_of_int port"] obtain d where
    d: "device_create (cdevs s) 0 SERIAL_MAJOR (word_of_int port) = Ok (dv_name d, (cdevs s)\<lparr>chain := xs @ [d, blank_device]\<rparr>)"
      "new_device 0 SERIAL_MAJOR (word_of_int port) d" by blast
  from first_free_exists [OF assms(3), of 0] obtain i where
    i: "i < length (ttys s)" "first_free (ttys s) 0 = Some i" "tvalid (ttys s ! i) = 0" by auto
  have l: "length (ttys s) = 32" "length (indev (ttys s ! i)) = 32" "length (outdev (ttys s ! i)) = 32"
    using assms(2) i(1) by (auto simp: slots_ok_def)
  have n: "terminated (dv_name d)" "length (dv_name d) = 32" using d(2) by (simp_all add: new_device_def)
  from terminal_made [OF assms(4) l(2,3) n] obtain t where
    t: "tty_setup m (ttys s ! i) (dv_name d) (dv_name d) TTY_MODE_SERIAL 1024 1024 = Ok (True, t)" "terminal_on (dv_name d) t" by blast
  have v: "is_valid_tty (get_tty ((ttys s)[i := t]) (int i))"
    using i(1) l(1) t(2) by (simp add: is_valid_tty_def get_tty_def terminal_on_def)
  have "chain ((cdevs s)\<lparr>chain := xs @ [d, blank_device]\<rparr>) = (xs @ [d]) @ [blank_device]" by simp
  from device_created [OF this serial_major_named(2), of "tty_at (int i)" "word_of_int (int i)"] obtain e where
    e: "device_create ((cdevs s)\<lparr>chain := xs @ [d, blank_device]\<rparr>) (tty_at (int i)) TTY_MAJOR (word_of_int (int i)) =
        Ok (dv_name e, (cdevs s)\<lparr>chain := xs @ [d, e, blank_device]\<rparr>)"
      "new_device (tty_at (int i)) TTY_MAJOR (word_of_int (int i)) e" by auto
  have "tty_init m (ttys s) (dv_name d) (dv_name d) TTY_MODE_SERIAL 1024 1024 = Ok (int i, (ttys s)[i := t])"
    by (simp add: tty_init_def i(2) t(1))
  then have "register_port m tty_at port s =
      Ok (s\<lparr>ttys := (ttys s)[i := t], cdevs := (cdevs s)\<lparr>chain := xs @ [d, e, blank_device]\<rparr>\<rparr>)"
    using d(1) v e(1) by (simp add: register_port_def Let_def del: of_int_of_nat_eq)
  then show ?thesis using d(2) e(2) i l(1) t(2) by (intro exI conjI) auto
qed

text \<open>The two devices of a port, and its terminal in \<open>ts\<close>.\<close>

definition port_served :: "(int \<Rightarrow> u64) \<Rightarrow> tty list \<Rightarrow> int \<Rightarrow> device \<times> device \<Rightarrow> bool" where
  "port_served tty_at ts port p \<longleftrightarrow> (\<exists>i < 32. new_device 0 SERIAL_MAJOR (word_of_int port) (fst p) \<and>
     new_device (tty_at (int i)) TTY_MAJOR (word_of_int (int i)) (snd p) \<and> terminal_on (dv_name (fst p)) (ts ! i))"

definition pairs :: "('a \<times> 'a) list \<Rightarrow> 'a list" where
  "pairs ps = concat (map (\<lambda>(a, b). [a, b]) ps)"

lemma register_ports_devices:
  assumes "chain (cdevs s) = xs @ [blank_device]" "slots_ok (ttys s)" "length ps \<le> free_slots (ttys s)" "\<forall>i. mem_good (m i)"
  shows "\<exists>ds ts. register_ports m tty_at k ps s = Ok (s\<lparr>ttys := ts, cdevs := (cdevs s)\<lparr>chain := xs @ pairs ds @ [blank_device]\<rparr>\<rparr>) \<and>
    list_all2 (port_served tty_at ts) ps ds \<and> (\<forall>i < 32. tvalid (ttys s ! i) \<noteq> 0 \<longrightarrow> ts ! i = ttys s ! i)"
  using assms(1-3)
proof (induction ps arbitrary: s xs k)
  case Nil
  have "register_ports m tty_at k [] s = Ok (s\<lparr>ttys := ttys s, cdevs := (cdevs s)\<lparr>chain := xs @ pairs [] @ [blank_device]\<rparr>\<rparr>)"
    using Nil.prems(1) by (simp add: pairs_def)
  then show ?case by fastforce
next
  case (Cons p ps)
  have f: "free_slots (ttys s) \<noteq> 0" using Cons.prems(3) by simp
  from register_port_devices [OF Cons.prems(1,2) f, of "m k" tty_at p] assms(4) obtain d e i t where
    1: "register_port (m k) tty_at p s = Ok (s\<lparr>ttys := (ttys s)[i := t], cdevs := (cdevs s)\<lparr>chain := xs @ [d, e, blank_device]\<rparr>\<rparr>)"
      "new_device 0 SERIAL_MAJOR (word_of_int p) d" "new_device (tty_at (int i)) TTY_MAJOR (word_of_int (int i)) e"
      "i < 32" "tvalid (ttys s ! i) = 0" "terminal_on (dv_name d) t" by blast
  let ?s = "s\<lparr>ttys := (ttys s)[i := t], cdevs := (cdevs s)\<lparr>chain := xs @ [d, e, blank_device]\<rparr>\<rparr>"
  have l: "length (ttys s) = 32" using Cons.prems(2) by (simp add: slots_ok_def)
  have "chain (cdevs ?s) = (xs @ [d, e]) @ [blank_device]" by simp
  moreover have "slots_ok (ttys ?s)"
    using Cons.prems(2) 1(6) by (auto simp: slots_ok_def terminal_on_def dest!: set_update_subset_insert [THEN subsetD])
  moreover have "length ps \<le> free_slots (ttys ?s)"
    using free_slots_take [of i "ttys s" t] Cons.prems(3) 1(4-6) l by (simp add: terminal_on_def)
  ultimately obtain ds ts where
    2: "register_ports m tty_at (k + 1) ps ?s = Ok (?s\<lparr>ttys := ts, cdevs := (cdevs ?s)\<lparr>chain := (xs @ [d, e]) @ pairs ds @ [blank_device]\<rparr>\<rparr>)"
      "list_all2 (port_served tty_at ts) ps ds" "\<forall>j < 32. tvalid (ttys ?s ! j) \<noteq> 0 \<longrightarrow> ts ! j = ttys ?s ! j"
    using Cons.IH by blast
  have "ts ! i = t" using 2(3) 1(4,6) l by (simp add: terminal_on_def)
  then have "port_served tty_at ts p (d, e)" using 1 by (auto simp: port_served_def)
  moreover have "\<forall>j < 32. tvalid (ttys s ! j) \<noteq> 0 \<longrightarrow> ts ! j = ttys s ! j"
  proof (intro allI impI)
    fix j assume j: "j < 32" "tvalid (ttys s ! j) \<noteq> 0"
    with 1(5) have "j \<noteq> i" by auto
    with 2(3) j show "ts ! j = ttys s ! j" by simp
  qed
  moreover have "register_ports m tty_at k (p # ps) s = Ok (s\<lparr>ttys := ts, cdevs := (cdevs s)\<lparr>chain := xs @ pairs ((d, e) # ds) @ [blank_device]\<rparr>\<rparr>)"
    using 1(1) 2(1) by (simp add: pairs_def)
  ultimately show ?case using 2(2) by (intro exI [of _ "(d, e) # ds"] exI [of _ ts]) simp
qed

text \<open>C23: Every serial port that answers ends up with a device and a terminal that reads and writes this device, and the
  terminal with a device of its own, in the order of the ports; what was a terminal before still is.\<close>

theorem ports_become_terminals:
  assumes "init_serial loop (ser s) 4096 4096 = Ok s1" "chain_ok (chain (cdevs s))" "slots_ok (ttys s)"
    and "length (serial_get_ports s1) \<le> free_slots (ttys s)" "\<forall>i. mem_good (m i)"
  shows "\<exists>ds ts. register_comm loop m tty_at s =
      Ok (s\<lparr>ser := s1, ttys := ts, cdevs := (cdevs s)\<lparr>chain := butlast (chain (cdevs s)) @ pairs ds @ [blank_device]\<rparr>\<rparr>) \<and>
    list_all2 (port_served tty_at ts) (serial_get_ports s1) ds \<and> (\<forall>i < 32. tvalid (ttys s ! i) \<noteq> 0 \<longrightarrow> ts ! i = ttys s ! i)"
proof -
  obtain xs where xs: "chain (cdevs s) = xs @ [blank_device]" using chain_okE [OF assms(2)] by blast
  have c: "take (serial_count_ports s1) (serial_get_ports s1) = serial_get_ports s1"
    by (simp add: serial_count_ports_def serial_get_ports_def)
  let ?s = "s\<lparr>ser := s1\<rparr>"
  have "chain (cdevs ?s) = xs @ [blank_device]" "slots_ok (ttys ?s)" "length (serial_get_ports s1) \<le> free_slots (ttys ?s)"
    using xs assms(3,4) by simp_all
  from register_ports_devices [OF this assms(5), of tty_at 0] obtain ds ts where
    "register_ports m tty_at 0 (serial_get_ports s1) ?s = Ok (?s\<lparr>ttys := ts, cdevs := (cdevs ?s)\<lparr>chain := xs @ pairs ds @ [blank_device]\<rparr>\<rparr>)"
    "list_all2 (port_served tty_at ts) (serial_get_ports s1) ds" "\<forall>i < 32. tvalid (ttys ?s ! i) \<noteq> 0 \<longrightarrow> ts ! i = ttys ?s ! i" by blast
  then show ?thesis using xs c assms(1) by (intro exI [of _ ds] exI [of _ ts]) (simp add: register_comm_def)
qed

section \<open>A concrete machine\<close>

definition empty_terminal :: tty where
  "empty_terminal = tty_example\<lparr>tvalid := 0, indev := replicate 32 0, outdev := replicate 32 0\<rparr>"

definition comm_example :: "unit comm" where
  "comm_example = \<lparr>ser = serials_example, ttys = replicate 32 empty_terminal, cdevs = devtab_example\<rparr>"

definition good_memory :: tty_mem where
  "good_memory = \<lparr>m_inb = True, m_outb = True, m_subs = True, m_ld = True, m_ldbuf = Some (replicate 1024 0)\<rparr>"

theorem ports_become_terminals_witness:
  "\<exists>d e ts t. register_comm (\<lambda>_. 0) (\<lambda>_. good_memory) (\<lambda>i. word_of_int (0x5000 + 200 * i)) comm_example =
      Ok \<lparr>ser = serials_example, ttys = ts, cdevs = t\<rparr> \<and>
    port_served (\<lambda>i. word_of_int (0x5000 + 200 * i)) ts 0x3f8 (d, e) \<and> length (chain t) = 4"
proof -
  have ports: "serial_get_ports serials_example = [0x3f8]" by (simp add: serial_get_ports_def serials_example_def com_example_def)
  have c: "init_serial (\<lambda>_. 0) (ser comm_example) 4096 4096 = Ok serials_example" "chain_ok (chain (cdevs comm_example))"
    "slots_ok (ttys comm_example)" "\<forall>i :: nat. mem_good good_memory"
    by (simp_all add: init_serial_def comm_example_def serials_example_def devtab_example_chain slots_ok_def empty_terminal_def mem_good_def
      good_memory_def)
  have l: "length (serial_get_ports serials_example) \<le> free_slots (ttys comm_example)"
    by (simp add: ports comm_example_def free_slots_def empty_terminal_def)
  from ports_become_terminals [OF c(1-3) l c(4), of "\<lambda>i. word_of_int (0x5000 + 200 * i)"] obtain ds ts where
    r: "register_comm (\<lambda>_. 0) (\<lambda>_. good_memory) (\<lambda>i. word_of_int (0x5000 + 200 * i)) comm_example =
      Ok (comm_example\<lparr>ser := serials_example, ttys := ts, cdevs := (cdevs comm_example)\<lparr>chain := butlast (chain (cdevs comm_example)) @ pairs ds @ [blank_device]\<rparr>\<rparr>)"
      "list_all2 (port_served (\<lambda>i. word_of_int (0x5000 + 200 * i)) ts) [0x3f8] ds" unfolding ports by blast
  from r(2) obtain d e where d: "ds = [(d, e)]" "port_served (\<lambda>i. word_of_int (0x5000 + 200 * i)) ts 0x3f8 (d, e)"
    by (auto simp: list_all2_Cons1)
  show ?thesis unfolding r(1)
    by (intro exI [of _ d] exI [of _ e] exI [of _ ts] exI [of _ "devtab_example\<lparr>chain := butlast (chain devtab_example) @ [d, e, blank_device]\<rparr>"])
      (use d in \<open>simp add: comm_example_def pairs_def devtab_example_def\<close>)
qed

end
