(* ===== verification/ErrorLog.thy ===== *)
theory ErrorLog
  imports CString
begin

text \<open>The log of EXT2 (\<open>ext2_integrity.c\<close>): messages, newest first, that are trimmed in blocks when a counter says so. A message
  text is what \<open>ext2_format_message\<close> made; \<open>mem\<close> says whether the structure of a message could be allocated.\<close>

section \<open>State\<close>

record error_message =
  e_msg :: "u8 list"
  e_function :: "u8 list"
  e_file :: "u8 list option"
  e_line :: u32
  e_type :: u8
  e_id :: u64

record error_log =
  debug_base_path :: "u8 list"
  error_count :: u32
  error_deletion_counter :: u64
  error_id :: u64
  errors_inhibited :: u8
  error_messages :: "error_message list"

abbreviation "EXT2_MAX_ERRORS \<equiv> (1024 :: u32)"
abbreviation "EXT2_DELETE_CYCLE \<equiv> (128 :: nat)"
abbreviation "ERROR_FUNC_SIZE \<equiv> (64 :: nat)"
abbreviation "ERROR_FILE_SIZE \<equiv> (64 :: nat)"

text \<open>What the macros pass: the text, the function, the file, the line and the level.\<close>

record report =
  r_error :: "u8 list"
  r_function :: "u8 list"
  r_file :: "u8 list"
  r_line :: u32
  r_type :: u8

section \<open>Copies of strings\<close>

definition ascii_bytes :: "string \<Rightarrow> u8 list" where
  "ascii_bytes s = map (\<lambda>c. of_nat (of_char c)) s @ [0]"

text \<open>\<open>p = kmalloc (n); strncpy (p, s, n)\<close>: the heap gives blocks of multiples of 16 bytes, none for 0, and the byte behind a
  block is the header of the next one.\<close>

definition copy_string :: "u8 list \<Rightarrow> nat \<Rightarrow> u8 list result" where
  "copy_string s n = (if n = 0 then Err Fault else strncpy (replicate ((n + 15) div 16 * 16) 0) s n)"

definition own_copy :: "u8 list \<Rightarrow> u8 list result" where
  "own_copy s = rbind (strlen s) (copy_string s)"

definition ext2_set_debug_base_path :: "u8 list \<Rightarrow> error_log \<Rightarrow> error_log result" where
  "ext2_set_debug_base_path path s = rbind (strlen path) (\<lambda>n. if n > ERROR_FILE_SIZE then Ok s
     else rbind (strncpy (debug_base_path s) path n) (\<lambda>b. Ok (s\<lparr>debug_base_path := b\<rparr>)))"

section \<open>Adding a message\<close>

definition function_field :: "u8 list \<Rightarrow> u8 list result" where
  "function_field f = rbind (strlen f) (\<lambda>n. if n > ERROR_FUNC_SIZE then own_copy (ascii_bytes ''Function name too long'') else own_copy f)"

text \<open>The lengths are 64 bits wide and their difference wraps around. A file that does not begin with the base path gets no
  name: the field stays 0.\<close>

definition file_field :: "u8 list \<Rightarrow> u8 list \<Rightarrow> u8 list option result" where
  "file_field base file = rbind (strlen file) (\<lambda>n. rbind (strlen base) (\<lambda>b.
     let too_long = rbind (own_copy (ascii_bytes ''File name too long'')) (\<lambda>c. Ok (Some c)) in
     if (of_nat n - of_nat b :: u64) > of_nat ERROR_FILE_SIZE then too_long
     else if n \<le> b then (if n > ERROR_FILE_SIZE then too_long else rbind (own_copy file) (\<lambda>c. Ok (Some c)))
     else rbind (strncmp file base b) (\<lambda>r. if r = 0
       then (if n - b > ERROR_FILE_SIZE then too_long else rbind (copy_string (drop b file) (n - b)) (\<lambda>c. Ok (Some c)))
       else Ok None)))"

definition ext2_clear_oldest_error :: "error_log \<Rightarrow> error_log" where
  "ext2_clear_oldest_error s = s\<lparr>error_messages := butlast (error_messages s)\<rparr>"

text \<open>\<open>warn\<close> adds a message, the two that are logged here are \<open>w1\<close> and \<open>w2\<close>.\<close>

definition ext2_make_space :: "(report \<Rightarrow> error_log \<Rightarrow> error_log result) \<Rightarrow> report \<Rightarrow> report \<Rightarrow> error_log \<Rightarrow> error_log result" where
  "ext2_make_space warn w1 w2 s = (let s = (ext2_clear_oldest_error ^^ EXT2_DELETE_CYCLE) s;
     s = s\<lparr>error_count := error_count s - of_nat EXT2_DELETE_CYCLE, error_deletion_counter := error_deletion_counter s + 1\<rparr> in
     rbind (warn w1 s) (\<lambda>s. if error_deletion_counter s \<ge> 0xFFFFFFFFFFFFFFFF div of_nat EXT2_DELETE_CYCLE
       then rbind (warn w2 s) (\<lambda>s. Ok (s\<lparr>error_deletion_counter := 0\<rparr>)) else Ok s))"

text \<open>The warnings of \<open>ext2_make_space\<close> come back here; \<open>k\<close> bounds how deep.\<close>

fun ext2_add_error :: "nat \<Rightarrow> bool \<Rightarrow> report \<Rightarrow> report \<Rightarrow> report \<Rightarrow> error_log \<Rightarrow> error_log result" where
  "ext2_add_error 0 mem w1 w2 r s = Err Diverge"
| "ext2_add_error (Suc k) mem w1 w2 r s = (if errors_inhibited s \<noteq> 0 then Ok s else
     rbind (if error_count s \<ge> EXT2_MAX_ERRORS then ext2_make_space (ext2_add_error k mem w1 w2) w1 w2 s else Ok s) (\<lambda>s.
     if \<not> mem then Ok s else
     rbind (own_copy (r_error r)) (\<lambda>m. rbind (function_field (r_function r)) (\<lambda>f.
     rbind (file_field (debug_base_path s) (r_file r)) (\<lambda>p.
     Ok (s\<lparr>error_messages := \<lparr>e_msg = m, e_function = f, e_file = p, e_line = r_line r, e_type = r_type r, e_id = error_id s\<rparr> # error_messages s,
           error_id := error_id s + 1\<rparr>))))))"

section \<open>Asking and clearing\<close>

definition ext2_integrity_inhibit_errors :: "u8 \<Rightarrow> error_log \<Rightarrow> error_log" where
  "ext2_integrity_inhibit_errors t s = s\<lparr>errors_inhibited := t\<rparr>"

definition ext2_get_error_deletion_counter :: "error_log \<Rightarrow> u64" where
  "ext2_get_error_deletion_counter s = error_deletion_counter s * of_nat EXT2_DELETE_CYCLE"

fun any_of_level :: "error_message list \<Rightarrow> u8 \<Rightarrow> bool" where
  "any_of_level [] l = False"
| "any_of_level (m # ms) l = (if e_type m \<ge> l then True else any_of_level ms l)"

definition ext2_has_errors :: "u8 \<Rightarrow> error_log \<Rightarrow> bool" where
  "ext2_has_errors min_level s = any_of_level (error_messages s) min_level"

definition ext2_clear_errors :: "error_log \<Rightarrow> error_log" where
  "ext2_clear_errors s = s\<lparr>error_messages := []\<rparr>"

section \<open>What the log keeps\<close>

lemma any_of_level_iff: "any_of_level ms l \<longleftrightarrow> (\<exists>m \<in> set ms. l \<le> e_type m)"
  by (induction ms) auto

text \<open>A message is the newest of the log under its own number, and the counter of messages stays as it is.\<close>

lemma add_error_logs:
  assumes "errors_inhibited s = 0" "error_count s < EXT2_MAX_ERRORS" "ext2_add_error (Suc k) True w1 w2 r s = Ok s1"
  shows "\<exists>m. s1 = s\<lparr>error_messages := m # error_messages s, error_id := error_id s + 1\<rparr> \<and> e_id m = error_id s \<and> e_type m = r_type r"
proof -
  have "\<not> EXT2_MAX_ERRORS \<le> error_count s" using assms(2) by simp
  with assms(1,3) show ?thesis by (auto simp: rbind_eq_Ok)
qed

fun add_all :: "nat \<Rightarrow> report \<Rightarrow> report \<Rightarrow> report list \<Rightarrow> error_log \<Rightarrow> error_log result" where
  "add_all k w1 w2 [] s = Ok s"
| "add_all k w1 w2 (r # rs) s = rbind (ext2_add_error (Suc k) True w1 w2 r s) (add_all k w1 w2 rs)"

text \<open>The log is never trimmed: while the counter is below the maximum, which it always is since nothing adds to it, any
  number of messages are all kept, newest first, and numbered in a row.\<close>

theorem log_keeps_everything:
  assumes "errors_inhibited s = 0" "error_count s < EXT2_MAX_ERRORS" "add_all k w1 w2 rs s = Ok s1"
  shows "\<exists>ms. s1 = s\<lparr>error_messages := ms @ error_messages s, error_id := error_id s + of_nat (length rs)\<rparr> \<and>
    map e_type ms = rev (map r_type rs) \<and> (\<forall>i < length rs. e_id (rev ms ! i) = error_id s + of_nat i)"
  using assms
proof (induction rs arbitrary: s)
  case (Cons r rs)
  from Cons.prems(3) obtain s2 where a: "ext2_add_error (Suc k) True w1 w2 r s = Ok s2" "add_all k w1 w2 rs s2 = Ok s1"
    by (auto simp: rbind_eq_Ok)
  from add_error_logs [OF Cons.prems(1,2) a(1)] obtain m where
    m: "s2 = s\<lparr>error_messages := m # error_messages s, error_id := error_id s + 1\<rparr>" "e_id m = error_id s" "e_type m = r_type r" by blast
  have "errors_inhibited s2 = 0" "error_count s2 < EXT2_MAX_ERRORS" using Cons.prems(1,2) m(1) by simp_all
  from Cons.IH [OF this a(2)] obtain ms where
    ms: "s1 = s2\<lparr>error_messages := ms @ error_messages s2, error_id := error_id s2 + of_nat (length rs)\<rparr>"
      "map e_type ms = rev (map r_type rs)" "\<forall>i < length rs. e_id (rev ms ! i) = error_id s2 + of_nat i" by blast
  have "e_id (rev (ms @ [m]) ! i) = error_id s + of_nat i" if "i < length (r # rs)" for i
    using ms(3) m that by (cases i) simp_all
  then show ?case using ms(1,2) m by (intro exI [of _ "ms @ [m]"]) (simp add: algebra_simps)
qed simp

text \<open>A string whose length is a multiple of 16 fills its block, and its terminator is written behind it.\<close>

lemma copy_overruns:
  assumes "terminated s" "length (cstr s) = 16 * n" "16 * n \<le> 65536"
  shows "own_copy s = Err Fault"
proof -
  have "strlen s = Ok (16 * n)" using strlen_length [OF assms(1)] assms(2,3) by simp
  moreover have "(16 * n + 15) div 16 * 16 = 16 * n" by simp
  moreover have "strncpy (replicate (16 * n) 0) s (16 * n) = Err Fault"
    using strncpy_copies [OF assms(1,3)] assms(2) by simp
  ultimately show ?thesis by (simp only: own_copy_def copy_string_def rbind_Ok if_cancel)
qed

section \<open>A concrete log\<close>

definition log_example :: error_log where
  "log_example = \<lparr>debug_base_path = 0 # replicate 63 0, error_count = 0, error_deletion_counter = 0, error_id = 5, errors_inhibited = 0,
     error_messages = []\<rparr>"

definition report_example :: report where
  "report_example = \<lparr>r_error = [65, 0], r_function = [102, 0], r_file = [120, 0], r_line = 1, r_type = 3\<rparr>"

lemma short_copy: "a \<noteq> 0 \<Longrightarrow> \<exists>d. copy_string [a, 0] (Suc 0) = Ok d"
  using strncpy_copies [of "[a, 0]" 1 "replicate 16 0"] by (simp add: copy_string_def cstr_simps)

theorem log_keeps_everything_witness:
  "\<exists>s1. add_all 0 report_example report_example (replicate 3 report_example) log_example = Ok s1 \<and> length (error_messages s1) = 3"
proof -
  have one: "\<exists>m. ext2_add_error (Suc 0) True report_example report_example report_example s =
      Ok (s\<lparr>error_messages := m # error_messages s, error_id := error_id s + 1\<rparr>)"
    if "errors_inhibited s = 0" "error_count s = 0" "debug_base_path s = 0 # replicate 63 0" for s
  proof -
    obtain d1 d2 d3 where "copy_string [65, 0] (Suc 0) = Ok d1" "copy_string [102, 0] (Suc 0) = Ok d2" "copy_string [120, 0] (Suc 0) = Ok d3"
      using short_copy [of 65] short_copy [of 102] short_copy [of 120] by auto
    with that show ?thesis
      by (simp add: report_example_def own_copy_def strlen_def STR_MAX_SIZE_def function_field_def file_field_def Let_def) (rule exI, rule refl)
  qed
  have all: "\<exists>s1. add_all 0 report_example report_example (replicate n report_example) s = Ok s1"
    if "errors_inhibited s = 0" "error_count s = 0" "debug_base_path s = 0 # replicate 63 0" for n s
    using that
  proof (induction n arbitrary: s)
    case (Suc n)
    from one [OF Suc.prems] obtain m where
      m: "ext2_add_error (Suc 0) True report_example report_example report_example s =
        Ok (s\<lparr>error_messages := m # error_messages s, error_id := error_id s + 1\<rparr>)" by blast
    with Suc.IH [of "s\<lparr>error_messages := m # error_messages s, error_id := error_id s + 1\<rparr>"] Suc.prems show ?case
      by (simp del: ext2_add_error.simps)
  qed simp
  obtain s1 where r: "add_all 0 report_example report_example (replicate 3 report_example) log_example = Ok s1"
    using all [of log_example 3] by (auto simp: log_example_def)
  have "errors_inhibited log_example = 0" "error_count log_example < EXT2_MAX_ERRORS" by (simp_all add: log_example_def)
  from log_keeps_everything [OF this r] obtain ms where
    ms: "s1 = log_example\<lparr>error_messages := ms @ error_messages log_example,
        error_id := error_id log_example + of_nat (length (replicate 3 report_example))\<rparr>"
      "map e_type ms = rev (map r_type (replicate 3 report_example))" by auto
  have "length (map e_type ms) = length (rev (map r_type (replicate 3 report_example)))" by (simp only: ms(2))
  then have "length (error_messages s1) = 3" by (simp add: ms(1)) (simp add: log_example_def)
  with r show ?thesis by blast
qed

end
