(* ===== verification/Shell.thy ===== *)
theory Shell
  imports CString
begin

text \<open>The debug shell (\<open>debug/shell.c\<close>): how a line becomes a command with arguments, and how the current directory changes.
  What is printed is left out; the commands on files are in \<open>ShellFiles\<close>.\<close>

section \<open>Tokens\<close>

text \<open>\<open>for (tok = strtok (b, d); tok != 0; tok = strtok (0, d)) f (tok)\<close>: \<open>f\<close> gets the index of the token and the string there.\<close>

fun each_token :: "nat \<Rightarrow> u8 \<Rightarrow> (nat \<Rightarrow> u8 list \<Rightarrow> 's \<Rightarrow> 's result) \<Rightarrow> bool \<Rightarrow> nat option \<Rightarrow> u8 list \<Rightarrow> 's \<Rightarrow> ('s \<times> u8 list) result" where
  "each_token 0 d f first tok b s = Err Diverge"
| "each_token (Suc k) d f first tok b s = rbind (strtok first tok b [d, 0]) (\<lambda>(r, b, tok). case r of None \<Rightarrow> Ok (s, b)
     | Some i \<Rightarrow> rbind (f i (drop i b) s) (each_token k d f False tok b))"

section \<open>The current directory\<close>

record shell =
  cwd :: "u8 list"
  workpath :: "u8 list"
  devno :: "u8 list"

definition apply_cd :: "u8 list \<Rightarrow> shell \<Rightarrow> shell result" where
  "apply_cd path s = rbind (memset (workpath s) 0 256) (\<lambda>w. rbind (rd path 0) (\<lambda>c.
     rbind (if c = 47 then strcpy w (drop 1 path)
            else rbind (strcpy w (cwd s)) (\<lambda>w. rbind (strcat w [47, 0]) (\<lambda>w. strcat w path))) (\<lambda>w.
     Ok (s\<lparr>workpath := w\<rparr>))))"

text \<open>The index \<open>lastSlash\<close> stops at: a slash or 0.\<close>

fun last_slash :: "u8 list \<Rightarrow> nat \<Rightarrow> nat" where
  "last_slash np 0 = 0"
| "last_slash np (Suc i) = (if np ! Suc i \<noteq> 47 then last_slash np i else Suc i)"

definition pop_token :: "u8 list \<times> nat \<Rightarrow> (u8 list \<times> nat) result" where
  "pop_token = (\<lambda>(np, depth). if depth > 0 then rbind (strlen np) (\<lambda>l. if l = 0 then Err Fault else
     let i = last_slash np (l - 1) in Ok (if i \<noteq> 0 then (np[i := 0], depth - 1) else (np, depth)))
     else Ok (np, depth))"

definition push_token :: "u8 list \<Rightarrow> u8 list \<times> nat \<Rightarrow> (u8 list \<times> nat) result" where
  "push_token token = (\<lambda>(np, depth). rbind (if depth > 0 then strcat np [47, 0] else Ok np) (\<lambda>np.
     rbind (strcat np token) (\<lambda>np. Ok (np, depth + 1))))"

definition path_token :: "nat \<Rightarrow> u8 list \<Rightarrow> u8 list \<times> nat \<Rightarrow> (u8 list \<times> nat) result" where
  "path_token i token s = rbind (strcmp token [46, 46, 0]) (\<lambda>r. if r = 0 then pop_token s else
     rbind (strcmp token [46, 0]) (\<lambda>r. if r \<noteq> 0 then rbind (strlen token) (\<lambda>l. if l > 0 then push_token token s else Ok s) else Ok s))"

text \<open>\<open>junk\<close> is what the buffer on the stack holds behind its first byte.\<close>

definition normalizePath :: "u8 list \<Rightarrow> u8 list \<Rightarrow> u8 list result" where
  "normalizePath junk path = rbind (strlen path) (\<lambda>l. if l = 0 then Ok path else
     rbind (each_token (l + 1) 47 path_token True None path (0 # take l junk, 0)) (\<lambda>((np, depth), b).
     rbind (strlen np) (\<lambda>m. let np = (if m > 0 \<and> np ! (m - 1) = 47 then np[m - 1 := 0] else np) in strcpy b np)))"

definition cd :: "u8 list \<Rightarrow> u8 list \<Rightarrow> shell \<Rightarrow> shell result" where
  "cd junk path s = rbind (apply_cd path s) (\<lambda>s. rbind (memset (cwd s) 0 256) (\<lambda>c. rbind (strcpy c (workpath s)) (\<lambda>c.
     rbind (strlen c) (\<lambda>n. rbind (wr c n 0) (\<lambda>c. rbind (normalizePath junk c) (\<lambda>c. Ok (s\<lparr>cwd := c\<rparr>)))))))"

section \<open>Commands\<close>

definition literal :: "string \<Rightarrow> u8 list" where
  "literal s = map (\<lambda>c. of_nat (of_char c)) s @ [0]"

definition cmdlist :: "string list" where
  "cmdlist = [''test'', ''attach'', ''detach'', ''readelf'', ''ls'', ''lsblk'', ''lschr'', ''readd'', ''writed'', ''lsdsk'', ''loadelf'', ''loadraw'',
     ''ps'', ''d'', ''spawn'', ''sched'', ''kill'', ''ioctl'', ''read'', ''write'', ''create'', ''delete'', ''mkdir'', ''cd'', ''preempt'', ''ticks'', ''help'']"

text \<open>The array of arguments has 32 places.\<close>

definition add_arg :: "nat \<Rightarrow> u8 list \<Rightarrow> nat list \<Rightarrow> nat list result" where
  "add_arg i token args = (if length args < 32 then Ok (args @ [i]) else Err Fault)"

definition split_line :: "u8 list \<Rightarrow> (nat list \<times> u8 list) result" where
  "split_line cmd = each_token (length cmd + 1) 32 add_arg True None cmd []"

fun find_command :: "string list \<Rightarrow> u8 list \<Rightarrow> string option result" where
  "find_command [] arg = Ok None"
| "find_command (c # cs) arg = rbind (strcmp (literal c) arg) (\<lambda>r. if r = 0 then Ok (Some c) else find_command cs arg)"

text \<open>The handler called and the arguments it gets, as strings of the buffer. A line without a word leaves the first argument
  null.\<close>

definition run_line :: "u8 list \<Rightarrow> (string option \<times> u8 list list) result" where
  "run_line cmd = rbind (split_line cmd) (\<lambda>(args, b). if args = [] then Err Fault
     else rbind (find_command cmdlist (drop (args ! 0) b)) (\<lambda>c. Ok (c, map (\<lambda>i. drop i b) args)))"

text \<open>\<open>read_line\<close> is what \<open>device_read\<close> returns, as an \<open>int\<close>, and puts into the cleared buffer.\<close>

definition tty_signal_handler :: "int \<times> u8 list \<Rightarrow> u64 \<Rightarrow> (string option \<times> u8 list list) option result" where
  "tty_signal_handler read_line event = (if event = 1
     then (if fst read_line > 0 then rbind (run_line (snd read_line)) (\<lambda>r. Ok (Some r)) else Ok None)
     else Ok None)"

section \<open>Splitting\<close>

text \<open>Words with the number of separators before each.\<close>

definition spread :: "u8 \<Rightarrow> (nat \<times> u8 list) list \<Rightarrow> u8 list" where
  "spread d ws = concat (map (\<lambda>(n, t). replicate n d @ t) ws)"

lemma spread_simps [simp]: "spread d [] = []" "spread d ((n, t) # ws) = replicate n d @ t @ spread d ws"
  by (simp_all add: spread_def)

definition word_ok :: "u8 \<Rightarrow> u8 list \<Rightarrow> bool" where
  "word_ok d t \<longleftrightarrow> t \<noteq> [] \<and> d \<notin> set t \<and> 0 \<notin> set t"

definition words_ok :: "u8 \<Rightarrow> (nat \<times> u8 list) list \<Rightarrow> bool" where
  "words_ok d ws \<longleftrightarrow> (\<forall>(n, t) \<in> set ws. word_ok d t) \<and> (\<forall>(n, t) \<in> set (tl ws). 0 < n)"

text \<open>At most one separator follows the last word.\<close>

definition line_of :: "u8 \<Rightarrow> (nat \<times> u8 list) list \<Rightarrow> bool \<Rightarrow> u8 list" where
  "line_of d ws e = spread d ws @ (if e then [d] else []) @ [0]"

lemma strtok_done: "p < length b \<Longrightarrow> b ! p = 0 \<Longrightarrow> strtok False (Some p) b dl = Ok (None, b, Some p)"
  by (simp add: strtok_def rd_def)

definition token_at :: "u8 \<Rightarrow> (nat \<times> u8 list) list \<Rightarrow> nat \<Rightarrow> nat" where
  "token_at d ws j = length (spread d (take j ws)) + fst (ws ! j)"

lemma token_at_next: "0 < m \<Longrightarrow> token_at d ((n, t) # (m, u) # ws) (Suc j) = n + length t + 1 + token_at d ((m - 1, u) # ws) j"
  by (cases j) (simp_all add: token_at_def)

lemma spread_length: "length (spread d ws) = length (spread e ws)"
  by (induction ws) auto

lemma each_token_run:
  assumes d: "d \<noteq> 0"
    and "\<And>j r s. j < Suc (length ws) \<Longrightarrow> P j s \<Longrightarrow>
      \<exists>s1. f (length pre + token_at d ((n, t) # ws) j) (snd (((n, t) # ws) ! j) @ 0 # r) s = Ok s1 \<and> P (Suc j) s1"
    and "words_ok d ((n, t) # ws)" "Suc (length ws) < k" "P 0 s"
  shows "\<exists>s1. each_token k d f False (Some (length pre)) (pre @ line_of d ((n, t) # ws) e @ rest) s =
    Ok (s1, pre @ line_of 0 ((n, t) # ws) e @ rest) \<and> P (Suc (length ws)) s1"
  using assms(2-)
proof (induction ws arbitrary: n t k pre s P)
  case Nil
  obtain k' where k: "k = Suc (Suc k')" using Nil.prems(3) by (metis Suc_lessE length_0_conv less_imp_Suc_add)
  have t: "t \<noteq> []" "\<forall>c \<in> set t. c \<noteq> d \<and> c \<noteq> 0" using Nil.prems(2) by (auto simp: words_ok_def word_ok_def)
  let ?x = "if e then d else 0" and ?r = "(if e then [0] else []) @ rest" and ?q = "length pre + n"
  let ?p = "?q + length t + (if ?x = d then 1 else 0)"
  have l: "pre @ line_of d [(n, t)] e @ rest = pre @ replicate n d @ t @ ?x # ?r" by (simp add: line_of_def)
  have st: "strtok False (Some (length pre)) (pre @ line_of d [(n, t)] e @ rest) [d, 0] =
      Ok (Some ?q, pre @ replicate n 0 @ t @ 0 # ?r, Some ?p)"
    unfolding l by (rule strtok_token) (use t d in auto)
  have dr: "drop ?q (pre @ replicate n 0 @ t @ 0 # ?r) = t @ 0 # ?r" by simp
  from Nil.prems(1) [of 0 s ?r] Nil.prems(4) obtain s1 where
    s1: "f ?q (t @ 0 # ?r) s = Ok s1" "P (Suc 0) s1" by (auto simp: token_at_def)
  have "strtok False (Some ?p) (pre @ replicate n 0 @ t @ 0 # ?r) [d, 0] = Ok (None, pre @ replicate n 0 @ t @ 0 # ?r, Some ?p)"
    by (rule strtok_done) (use d in \<open>auto simp: nth_append\<close>)
  then show ?case using st dr s1 k by (simp add: line_of_def)
next
  case (Cons v ws)
  obtain k' where k: "k = Suc k'" "Suc (length ws) < k'" using Cons.prems(3) by (cases k) auto
  have t: "t \<noteq> []" "\<forall>c \<in> set t. c \<noteq> d \<and> c \<noteq> 0" using Cons.prems(2) by (auto simp: words_ok_def word_ok_def)
  obtain m u where v: "v = (m, u)" "0 < m" using Cons.prems(2) by (cases v) (auto simp: words_ok_def)
  let ?ws = "(m - 1, u) # ws" and ?pre = "pre @ replicate n 0 @ t @ [0]" and ?q = "length pre + n"
  have m: "replicate m d = d # replicate (m - 1) d" "replicate m (0 :: u8) = 0 # replicate (m - 1) 0" using v(2) by (cases m; simp)+
  have l: "pre @ line_of d ((n, t) # v # ws) e @ rest = pre @ replicate n d @ t @ d # (line_of d ?ws e @ rest)"
    using v(1) m by (simp add: line_of_def)
  have st: "strtok False (Some (length pre)) (pre @ line_of d ((n, t) # v # ws) e @ rest) [d, 0] =
      Ok (Some ?q, ?pre @ line_of d ?ws e @ rest, Some (length ?pre))"
    using strtok_token [OF t d, of d pre n "line_of d ?ws e @ rest"] unfolding l by simp
  have dr: "drop ?q (?pre @ line_of d ?ws e @ rest) = t @ 0 # (line_of d ?ws e @ rest)" by simp
  from Cons.prems(1) [of 0 s "line_of d ?ws e @ rest"] Cons.prems(4) obtain s1 where
    s1: "f ?q (t @ 0 # (line_of d ?ws e @ rest)) s = Ok s1" "P (Suc 0) s1" by (auto simp: token_at_def)
  have step: "\<exists>s1. f (length ?pre + token_at d ?ws j) (snd (?ws ! j) @ 0 # r) s = Ok s1 \<and> P (Suc (Suc j)) s1"
    if "j < Suc (length ws)" "P (Suc j) s" for j r s
  proof -
    have "snd (?ws ! j) = snd (((n, t) # v # ws) ! Suc j)" using v(1) by (cases j) simp_all
    moreover have "length ?pre + token_at d ?ws j = length pre + token_at d ((n, t) # v # ws) (Suc j)"
      using token_at_next [OF v(2)] v(1) by simp
    moreover have "\<exists>s1. f (length pre + token_at d ((n, t) # v # ws) (Suc j)) (snd (((n, t) # v # ws) ! Suc j) @ 0 # r) s = Ok s1 \<and> P (Suc (Suc j)) s1"
      by (rule Cons.prems(1)) (use that in simp_all)
    ultimately show ?thesis by (simp only:)
  qed
  have "words_ok d ?ws" using Cons.prems(2) v(1) by (auto simp: words_ok_def)
  from Cons.IH [where pre = ?pre and n = "m - 1" and t = u and P = "\<lambda>j. P (Suc j)", OF step this k(2) s1(2)] obtain s2 where
    s2: "each_token k' d f False (Some (length ?pre)) (?pre @ line_of d ?ws e @ rest) s1 = Ok (s2, ?pre @ line_of 0 ?ws e @ rest)"
      "P (Suc (Suc (length ws))) s2" by blast
  have "?pre @ line_of 0 ?ws e @ rest = pre @ line_of 0 ((n, t) # v # ws) e @ rest" using v(1) m by (simp add: line_of_def)
  then show ?case using st dr s1(1) s2 k(1) by simp
qed

section \<open>A line is a command\<close>

definition args_at :: "(nat \<times> u8 list) list \<Rightarrow> nat list" where
  "args_at ws = map (token_at 32 ws) [0..<length ws]"

lemma split_line_words:
  assumes "words_ok 32 ws" "ws \<noteq> []" "length ws \<le> 32"
  shows "split_line (line_of 32 ws e @ rest) = Ok (args_at ws, line_of 0 ws e @ rest)"
proof -
  obtain n t vs where ws: "ws = (n, t) # vs" using assms(2) by (cases ws) auto
  have len: "length vs < length (line_of 32 ws e @ rest)"
  proof -
    have "length vs \<le> length (spread 32 vs)" if "\<forall>(n, t) \<in> set vs. 0 < n" for vs :: "(nat \<times> u8 list) list"
      using that by (induction vs) auto
    then show ?thesis using assms(1) ws by (force simp: line_of_def words_ok_def)
  qed
  have "\<exists>s1. each_token (length (line_of 32 ws e @ rest) + 1) 32 add_arg False (Some (length ([] :: u8 list)))
      ([] @ line_of 32 ((n, t) # vs) e @ rest) [] = Ok (s1, [] @ line_of 0 ((n, t) # vs) e @ rest) \<and>
      s1 = map (token_at 32 ws) [0..<Suc (length vs)]"
  proof (rule each_token_run)
    fix j r s assume "j < Suc (length vs)" "s = map (token_at 32 ws) [0..<j]"
    then show "\<exists>s1. add_arg (length ([] :: u8 list) + token_at 32 ((n, t) # vs) j) (snd (((n, t) # vs) ! j) @ 0 # r) s = Ok s1 \<and>
        s1 = map (token_at 32 ws) [0..<Suc j]"
      using assms(3) ws by (simp add: add_arg_def)
  qed (use assms(1) ws len in simp_all)
  then show ?thesis using ws by (simp add: split_line_def args_at_def strtok_def del: upt_Suc)
qed

lemma token_text: "j < length ws \<Longrightarrow> \<exists>r. drop (token_at 0 ws j) (spread 0 ws @ z) = snd (ws ! j) @ r \<and>
    (r = spread 0 (drop (Suc j) ws) @ z)"
proof (induction ws arbitrary: j)
  case (Cons w ws)
  obtain n t where w: "w = (n, t)" by (cases w)
  show ?case
  proof (cases j)
    case (Suc i)
    then have "token_at 0 (w # ws) j = n + length t + token_at 0 ws i" using w by (simp add: token_at_def)
    with Cons.IH [of i] Cons.prems Suc w show ?thesis by simp
  qed (use w in \<open>simp add: token_at_def\<close>)
qed simp

lemma token_at_any: "token_at d ws j = token_at e ws j"
  using spread_length [of d "take j ws" e] by (simp add: token_at_def)

lemma word_is_arg:
  assumes "words_ok d ws" "j < length ws"
  shows "cstr (drop (token_at d ws j) (line_of 0 ws e @ rest)) = snd (ws ! j) \<and> terminated (drop (token_at d ws j) (line_of 0 ws e @ rest))"
proof -
  obtain r where r: "drop (token_at d ws j) (line_of 0 ws e @ rest) = snd (ws ! j) @ 0 # r"
  proof (cases "drop (Suc j) ws")
    case Nil
    with token_text [OF assms(2), of "(if e then [0] else []) @ 0 # rest"] that show ?thesis
      unfolding token_at_any [of d ws j 0] line_of_def by (cases e) auto
  next
    case (Cons w vs)
    obtain m u where w: "w = (m, u)" by (cases w)
    have "w \<in> set (drop (Suc j) ws)" using Cons by simp
    then have "w \<in> set (tl ws)" using set_drop_subset [of j "tl ws"] by (auto simp: drop_Suc)
    then have "0 < m" using assms(1) w by (auto simp: words_ok_def)
    then have "replicate m (0 :: u8) = 0 # replicate (m - 1) 0" by (cases m) simp_all
    with token_text [OF assms(2), of "(if e then [0] else []) @ 0 # rest"] Cons w that show ?thesis
      unfolding token_at_any [of d ws j 0] line_of_def by auto
  qed
  have "0 \<notin> set (snd (ws ! j))" using assms by (force simp: words_ok_def word_ok_def dest: nth_mem)
  then show ?thesis unfolding r by (auto simp: cstr_def terminated_def takeWhile_append)
qed

lemma find_command_first:
  "terminated arg \<Longrightarrow> find_command cs arg = Ok (List.find (\<lambda>c. cstr (literal c) = cstr arg) cs)"
proof (induction cs)
  case (Cons c cs)
  have "terminated (literal c)" by (simp add: literal_def terminated_def)
  from strcmp_zero_iff [OF this Cons.prems] obtain v where "strcmp (literal c) arg = Ok v" "v = 0 \<longleftrightarrow> cstr (literal c) = cstr arg" by auto
  with Cons show ?case by simp
qed simp

text \<open>C34: A line of words runs the command its first word names, with the words as arguments, however many blanks are
  between them; a line that starts with another word runs nothing.\<close>

theorem line_runs_command:
  assumes "words_ok 32 ws" "ws \<noteq> []" "length ws \<le> 32"
  shows "\<exists>args. run_line (line_of 32 ws e @ rest) =
      Ok (List.find (\<lambda>c. cstr (literal c) = snd (ws ! 0)) cmdlist, args) \<and> map cstr args = map snd ws"
proof -
  let ?b = "line_of 0 ws e @ rest"
  have a: "args_at ws \<noteq> []" "args_at ws ! 0 = token_at 32 ws 0" using assms(2) by (simp_all add: args_at_def)
  have "0 < length ws" using assms(2) by simp
  from word_is_arg [OF assms(1) this, of e rest] have w: "cstr (drop (token_at 32 ws 0) ?b) = snd (ws ! 0)"
    "terminated (drop (token_at 32 ws 0) ?b)" by simp_all
  have "map cstr (map (\<lambda>i. drop i ?b) (args_at ws)) = map snd ws"
    by (rule nth_equalityI) (use word_is_arg [OF assms(1)] in \<open>simp_all add: args_at_def\<close>)
  moreover have "run_line (line_of 32 ws e @ rest) =
      Ok (List.find (\<lambda>c. cstr (literal c) = snd (ws ! 0)) cmdlist, map (\<lambda>i. drop i ?b) (args_at ws))"
    using a w by (simp add: run_line_def split_line_words [OF assms] find_command_first)
  ultimately show ?thesis by blast
qed

text \<open>A line without a word makes the handler compare with a null pointer.\<close>

lemma blank_line_faults: "run_line (0 # rest) = Err Fault"
  by (simp add: run_line_def split_line_def strtok_def rd_def)

section \<open>The way up and down\<close>

text \<open>The reference: a path as the list of its components. The way up stops at the first one.\<close>

definition go_to :: "u8 list list \<Rightarrow> u8 list \<Rightarrow> u8 list list" where
  "go_to cs t = (if t = [46, 46] then (if 2 \<le> length cs then butlast cs else cs) else if t = [46] then cs else cs @ [t])"

fun join :: "u8 list list \<Rightarrow> u8 list" where
  "join [] = []"
| "join [c] = c"
| "join (c # d # cs) = c @ 47 # join (d # cs)"

definition weight :: "u8 list list \<Rightarrow> nat" where
  "weight cs = sum_list (map (\<lambda>c. Suc (length c)) cs)"

lemma weight_simps [simp]: "weight [] = 0" "weight (c # cs) = Suc (length c) + weight cs" "weight (as @ bs) = weight as + weight bs"
  by (simp_all add: weight_def)

lemma join_length: "cs \<noteq> [] \<Longrightarrow> Suc (length (join cs)) = weight cs"
  by (induction cs rule: join.induct) auto

lemma join_snoc: "cs \<noteq> [] \<Longrightarrow> join (cs @ [c]) = join cs @ 47 # c"
  by (induction cs rule: join.induct) auto

lemma go_to_weight: "weight (go_to cs t) \<le> weight cs + Suc (length t)"
proof -
  have "weight (butlast cs) \<le> weight cs" by (induction cs) auto
  then show ?thesis by (auto simp: go_to_def)
qed

lemma fold_weight: "weight (foldl go_to cs ts) \<le> weight cs + weight ts"
proof (induction ts arbitrary: cs)
  case (Cons t ts)
  have "weight (foldl go_to (go_to cs t) ts) \<le> weight (go_to cs t) + weight ts" by (rule Cons.IH)
  then show ?case using go_to_weight [of cs t] by simp
qed simp

definition holds :: "nat \<Rightarrow> u8 list list \<Rightarrow> u8 list \<times> nat \<Rightarrow> bool" where
  "holds len cs p \<longleftrightarrow> length (fst p) = len \<and> terminated (fst p) \<and> cstr (fst p) = join cs \<and> snd p = length cs \<and>
     (\<forall>c \<in> set cs. word_ok 47 c) \<and> weight cs \<le> len"

lemma cat_string:
  assumes "terminated d" "terminated s" "length (cstr d) + length (cstr s) < length d"
  shows "\<exists>d1. strcat d s = Ok d1 \<and> cstr d1 = cstr d @ cstr s \<and> terminated d1 \<and> length d1 = length d"
proof -
  let ?c = "cstr d"
  obtain r where r: "d = ?c @ 0 # r" using terminated_split [OF assms(1)] by blast
  have "find_nul (t @ 0 # r) i = Ok (i + length t)" if "0 \<notin> set t" for t i using that by (induction t arbitrary: i) auto
  moreover have "0 \<notin> set ?c" using cstr_nonzero [of 0 d] by auto
  ultimately have "find_nul (?c @ 0 # r) 0 = Ok (length ?c)" by simp
  then have n: "find_nul d 0 = Ok (length ?c)" by (simp only: r [symmetric])
  have "put_bytes d (length (cstr d)) (cstr s @ [0]) =
      Ok (take (length (cstr d)) d @ (cstr s @ [0]) @ drop (length (cstr d) + length (cstr s @ [0])) d)"
    by (rule put_bytes_eq) (use assms(3) in simp)
  moreover have "take (length ?c) d = ?c" using arg_cong [OF r, of "take (length ?c)"] by simp
  ultimately have "strcat d s = Ok (cstr d @ cstr s @ 0 # drop (length (cstr d) + length (cstr s @ [0])) d)"
    using n strcpy_loop_eq [OF assms(2), of d "length (cstr d)"] by (simp add: strcat_def)
  moreover have "0 \<notin> set (?c @ cstr s)" using cstr_nonzero [of 0 d] cstr_nonzero [of 0 s] by auto
  then have "cstr ((?c @ cstr s) @ 0 # z) = ?c @ cstr s" for z unfolding cstr_def [of "_ @ _"]
    by (subst takeWhile_append2) auto
  then have "cstr (?c @ cstr s @ 0 # z) = ?c @ cstr s" for z by simp
  moreover have "length (?c @ cstr s @ 0 # drop (length ?c + length (cstr s @ [0])) d) = length d" using assms(3) by simp
  moreover have "terminated (?c @ cstr s @ 0 # z)" for z by (simp add: terminated_def)
  ultimately show ?thesis by blast
qed

lemma push_ok:
  assumes "holds len cs p" "word_ok 47 t" "weight cs + Suc (length t) \<le> len" "t \<noteq> [46]" "t \<noteq> [46, 46]"
  shows "\<exists>p1. push_token (t @ 0 # r) p = Ok p1 \<and> holds len (cs @ [t]) p1"
proof -
  obtain np where p: "p = (np, length cs)" and h: "length np = len" "terminated np" "cstr np = join cs" "\<forall>c \<in> set cs. word_ok 47 c"
    using assms(1) by (cases p) (auto simp: holds_def)
  have t: "terminated (t @ 0 # r)" "cstr (t @ 0 # r) = t"
    using assms(2) by (auto simp: word_ok_def terminated_def cstr_def takeWhile_append)
  show ?thesis
  proof (cases "cs = []")
    case True
    from cat_string [OF h(2) t(1)] obtain d1 where "strcat np (t @ 0 # r) = Ok d1" "cstr d1 = t" "terminated d1" "length d1 = len"
      using h(1,3) t(2) True assms(3) by auto
    then show ?thesis using True p assms(2,3) by (auto simp: push_token_def holds_def)
  next
    case False
    have s: "terminated [47, 0]" "cstr [47, 0] = [47]" by (simp_all add: cstr_simps)
    have l: "Suc (length (join cs)) = weight cs" by (rule join_length [OF False])
    from cat_string [OF h(2) s(1)] obtain d1 where d1: "strcat np [47, 0] = Ok d1" "cstr d1 = join cs @ [47]" "terminated d1" "length d1 = len"
      using h(1,3) s(2) assms(3) l by auto
    from cat_string [OF d1(3) t(1)] obtain d2 where d2: "strcat d1 (t @ 0 # r) = Ok d2" "cstr d2 = join cs @ 47 # t" "terminated d2" "length d2 = len"
      using d1(2,4) t(2) assms(3) l by auto
    show ?thesis using False p d1(1) d2 join_snoc [OF False] h(4) assms(2,3) by (auto simp: push_token_def holds_def)
  qed
qed

lemma last_slash_none: "\<forall>j. 0 < j \<longrightarrow> j \<le> i \<longrightarrow> np ! j \<noteq> 47 \<Longrightarrow> last_slash np i = 0"
  by (induction i) auto

lemma last_slash_found: "0 < k \<Longrightarrow> k \<le> i \<Longrightarrow> np ! k = 47 \<Longrightarrow> \<forall>j. k < j \<longrightarrow> j \<le> i \<longrightarrow> np ! j \<noteq> 47 \<Longrightarrow> last_slash np i = k"
proof (induction i)
  case (Suc i)
  show ?case
  proof (cases "k = Suc i")
    case False
    with Suc.prems have "last_slash np i = k" by (intro Suc.IH) auto
    then show ?thesis using Suc.prems False by simp
  qed (use Suc.prems in simp)
qed simp

lemma pop_ok:
  assumes "holds len cs p" "len \<le> 65536"
  shows "\<exists>p1. pop_token p = Ok p1 \<and> holds len (if 2 \<le> length cs then butlast cs else cs) p1"
proof -
  obtain np where p: "p = (np, length cs)" and h: "length np = len" "terminated np" "cstr np = join cs" "\<forall>c \<in> set cs. word_ok 47 c" "weight cs \<le> len"
    using assms(1) by (cases p) (auto simp: holds_def)
  obtain r where r: "np = join cs @ 0 # r" using terminated_split [OF h(2)] h(3) by auto
  show ?thesis
  proof (cases cs rule: rev_cases)
    case Nil
    then show ?thesis using assms(1) p by (auto simp: pop_token_def)
  next
    case (snoc bs c)
    have c: "c \<noteq> []" "47 \<notin> set c" using h(4) snoc by (auto simp: word_ok_def)
    have l: "strlen np = Ok (length (join cs))" using strlen_length [OF h(2)] h(3,5) assms(2) join_length [of cs] snoc by simp
    show ?thesis
    proof (cases "bs = []")
      case True
      then have j: "join cs = c" using snoc by simp
      have "last_slash np (length c - 1) = 0"
        by (rule last_slash_none) (use c r j in \<open>auto simp: nth_append in_set_conv_nth\<close>)
      then show ?thesis using assms(1) p l j c True snoc by (auto simp: pop_token_def Let_def)
    next
      case False
      have j: "join cs = join bs @ 47 # c" using join_snoc [OF False] snoc by simp
      have pos: "join bs \<noteq> []" using False h(4) snoc by (cases bs rule: join.cases) (auto simp: word_ok_def)
      have "last_slash np (length (join cs) - 1) = length (join bs)"
      proof (rule last_slash_found)
        show "\<forall>i. length (join bs) < i \<longrightarrow> i \<le> length (join cs) - 1 \<longrightarrow> np ! i \<noteq> 47"
        proof (intro allI impI)
          fix i assume i: "length (join bs) < i" "i \<le> length (join cs) - 1"
          then have "np ! i = c ! (i - Suc (length (join bs)))" "i - Suc (length (join bs)) < length c"
            using r j by (auto simp: nth_append nth_Cons')
          then show "np ! i \<noteq> 47" using c(2) by (metis nth_mem)
        qed
      qed (use pos r j in \<open>auto simp: nth_append\<close>)
      then have run: "pop_token p = Ok (np[length (join bs) := 0], length bs)"
        using p l j pos snoc by (simp add: pop_token_def Let_def)
      have ul: "length np = length (join bs @ 0 # c @ 0 # r)" using arg_cong [OF r, of length] j by simp
      have u: "np[length (join bs) := 0] = join bs @ 0 # c @ 0 # r" using r j by (simp add: list_update_append)
      have "0 \<notin> set (join bs)" using h(3) j cstr_nonzero [of 0 np] by auto
      then have "cstr (join bs @ 0 # c @ 0 # r) = join bs" by (auto simp: cstr_def takeWhile_append)
      then have "holds len bs (np[length (join bs) := 0], length bs)"
        using h(4,5) ul h(1) snoc u by (auto simp: holds_def terminated_def)
      moreover have "2 \<le> length cs" using snoc False by (cases bs) auto
      ultimately show ?thesis using run snoc by simp
    qed
  qed
qed

lemma path_token_ok:
  assumes "holds len cs p" "word_ok 47 t" "weight cs + Suc (length t) \<le> len" "len \<le> 65536"
  shows "\<exists>p1. path_token i (t @ 0 # r) p = Ok p1 \<and> holds len (go_to cs t) p1"
proof -
  have t: "terminated (t @ 0 # r)" "cstr (t @ 0 # r) = t"
    using assms(2) by (auto simp: word_ok_def terminated_def cstr_def takeWhile_append)
  have l: "terminated [46, 46, 0]" "cstr [46, 46, 0] = [46, 46]" "terminated [46, 0]" "cstr [46, 0] = [46]" by (simp_all add: cstr_simps)
  from strcmp_zero_iff [OF t(1) l(1)] strcmp_zero_iff [OF t(1) l(3)] obtain v w where
    c: "strcmp (t @ 0 # r) [46, 46, 0] = Ok v" "v = 0 \<longleftrightarrow> t = [46, 46]" "strcmp (t @ 0 # r) [46, 0] = Ok w" "w = 0 \<longleftrightarrow> t = [46]"
    using t(2) l(2,4) by auto
  have n: "strlen (t @ 0 # r) = Ok (length t)" "0 < length t"
    using strlen_length [OF t(1)] t(2) assms(2-4) by (simp_all add: word_ok_def)
  show ?thesis
  proof (cases "t = [46, 46]")
    case True
    then show ?thesis using pop_ok [OF assms(1,4)] c by (auto simp: path_token_def go_to_def)
  next
    case False
    show ?thesis
    proof (cases "t = [46]")
      case True
      then show ?thesis using assms(1) c by (auto simp: path_token_def go_to_def)
    next
      case dot: False
      then show ?thesis using push_ok [OF assms(1-3) dot False] c n False by (auto simp: path_token_def go_to_def)
    qed
  qed
qed

lemma spread_weight: "words_ok d ((n, t) # ws) \<Longrightarrow> weight (map snd ((n, t) # ws)) + n \<le> Suc (length (spread d ((n, t) # ws)))"
proof (induction ws arbitrary: n t)
  case (Cons w ws)
  obtain m u where w: "w = (m, u)" by (cases w)
  have "words_ok d ((m, u) # ws)" "0 < m" using Cons.prems w by (auto simp: words_ok_def)
  with Cons.IH [of m u] w show ?case by simp
qed simp

lemma spread_no_nul: "words_ok d ws \<Longrightarrow> d \<noteq> 0 \<Longrightarrow> 0 \<notin> set (spread d ws)"
  by (auto simp: spread_def words_ok_def word_ok_def)

lemma cstr_prefix: "0 \<notin> set a \<Longrightarrow> cstr (a @ 0 # z) = a \<and> terminated (a @ 0 # z)"
  unfolding cstr_def by (subst takeWhile_append2) (auto simp: terminated_def)

lemma join_last: "cs \<noteq> [] \<Longrightarrow> \<forall>c \<in> set cs. word_ok 47 c \<Longrightarrow> join cs \<noteq> [] \<and> List.last (join cs) \<noteq> 47"
  by (induction cs rule: join.induct) (auto simp: word_ok_def dest: last_in_set)

text \<open>\<open>normalizePath\<close> walks a path as the reference does: a dot stays, two dots go up but never above the first component,
  separators in a row count once, and the result fits where the path was.\<close>

lemma normalizePath_walks:
  assumes "words_ok 47 ws" "ws \<noteq> []" "length (line_of 47 ws e) \<le> 65536" "length (line_of 47 ws e) \<le> length junk"
  shows "\<exists>q. normalizePath junk (line_of 47 ws e @ rest) = Ok q \<and> terminated q \<and> length q = length (line_of 47 ws e @ rest) \<and>
    cstr q = join (foldl go_to [] (map snd ws))"
proof -
  obtain n t vs where ws: "ws = (n, t) # vs" using assms(2) by (cases ws) auto
  let ?p = "line_of 47 ws e @ rest" and ?a = "spread 47 ws @ (if e then [47] else [])" and ?ts = "map snd ws"
  let ?len = "Suc (length ?a)"
  have p: "?p = ?a @ 0 # rest" "length (line_of 47 ws e) = ?len" by (simp_all add: line_of_def)
  have "0 \<notin> set ?a" using spread_no_nul [OF assms(1)] by simp
  from cstr_prefix [OF this, of rest] have c: "cstr ?p = ?a" "terminated ?p" unfolding p(1) by simp_all
  have l: "strlen ?p = Ok (length ?a)" using strlen_length [OF c(2)] c(1) p(2) assms(3) by simp
  have w: "weight ?ts \<le> ?len" using spread_weight [of 47 n t vs] assms(1) ws by simp
  have ok: "\<forall>t \<in> set ?ts. word_ok 47 t" using assms(1) by (auto simp: words_ok_def)
  have k: "Suc (length vs) < length ?a + 1"
  proof -
    have "length vs \<le> length (spread 47 vs)" if "\<forall>(n, t) \<in> set vs. 0 < n" for vs :: "(nat \<times> u8 list) list"
      using that by (induction vs) auto
    moreover have "t \<noteq> []" using assms(1) ws by (auto simp: words_ok_def word_ok_def)
    ultimately show ?thesis using assms(1) ws by (cases t) (force simp: words_ok_def)+
  qed
  let ?P = "\<lambda>j s. holds ?len (foldl go_to [] (take j ?ts)) s"
  have junk: "holds ?len [] (0 # take (length ?a) junk, 0)" using assms(4) p(2) by (simp add: holds_def cstr_simps)
  have "\<exists>s1. each_token (length ?a + 1) 47 path_token False (Some (length ([] :: u8 list))) ([] @ line_of 47 ((n, t) # vs) e @ rest)
      (0 # take (length ?a) junk, 0) = Ok (s1, [] @ line_of 0 ((n, t) # vs) e @ rest) \<and> ?P (Suc (length vs)) s1"
  proof (rule each_token_run)
    fix j r s assume j: "j < Suc (length vs)" "?P j s"
    then have jl: "j < length ?ts" using ws by simp
    have s: "take (Suc j) ?ts = take j ?ts @ [?ts ! j]" by (rule take_Suc_conv_app_nth [OF jl])
    have "weight (take (Suc j) ?ts) + weight (drop (Suc j) ?ts) = weight ?ts"
      using weight_simps(3) [of "take (Suc j) ?ts" "drop (Suc j) ?ts"] by simp
    then have "weight (take j ?ts) + Suc (length (?ts ! j)) \<le> ?len" using w unfolding s by simp
    moreover have "weight (foldl go_to [] (take j ?ts)) \<le> weight (take j ?ts)" using fold_weight [of "[]" "take j ?ts"] by simp
    moreover have "word_ok 47 (?ts ! j)" using ok jl nth_mem by blast
    ultimately have "\<exists>s1. path_token (length ([] :: u8 list) + token_at 47 ((n, t) # vs) j) (?ts ! j @ 0 # r) s = Ok s1 \<and>
        holds ?len (go_to (foldl go_to [] (take j ?ts)) (?ts ! j)) s1"
      using j(2) assms(3) p(2) by (intro path_token_ok) simp_all
    moreover have "?ts ! j = snd (((n, t) # vs) ! j)" using jl ws nth_map [of j ws snd] by (simp only: length_map)
    ultimately show "\<exists>s1. path_token (length ([] :: u8 list) + token_at 47 ((n, t) # vs) j) (snd (((n, t) # vs) ! j) @ 0 # r) s = Ok s1 \<and>
        ?P (Suc j) s1" unfolding s by simp
  qed (use assms(1) ws k junk in simp_all)
  then obtain np depth where run: "each_token (length ?a + 1) 47 path_token True None ?p (0 # take (length ?a) junk, 0) =
      Ok ((np, depth), line_of 0 ws e @ rest)" and h: "holds ?len (foldl go_to [] ?ts) (np, depth)"
    using ws by (auto simp: strtok_def)
  let ?cs = "foldl go_to [] ?ts"
  have np: "terminated np" "cstr np = join ?cs" "length np = ?len" "\<forall>c \<in> set ?cs. word_ok 47 c" "weight ?cs \<le> ?len"
    using h by (simp_all add: holds_def)
  obtain r where r: "np = join ?cs @ 0 # r" using terminated_split [OF np(1)] np(2) by auto
  have jl: "length (join ?cs) < ?len" using arg_cong [OF r, of length] np(3) by simp
  have m: "strlen np = Ok (length (join ?cs))" using strlen_length [OF np(1)] np(2) jl assms(3) p(2) by simp
  have last: "\<not> (length (join ?cs) > 0 \<and> np ! (length (join ?cs) - 1) = 47)"
  proof (cases "?cs = []")
    case False
    from join_last [OF False np(4)] show ?thesis using r by (auto simp: last_conv_nth nth_append)
  qed simp
  have bl: "length (line_of 0 ws e @ rest) = length ?p" using spread_length [of 0 ws 47] by (simp add: line_of_def)
  have "strcpy (line_of 0 ws e @ rest) np = Ok (join ?cs @ 0 # drop (length (join ?cs) + 1) (line_of 0 ws e @ rest))"
    using strcpy_copies [OF np(1), of "line_of 0 ws e @ rest"] np(2) jl bl p(2) by simp
  moreover have "length ?a \<noteq> 0" using k by linarith
  ultimately have "normalizePath junk ?p = Ok (join ?cs @ 0 # drop (length (join ?cs) + 1) (line_of 0 ws e @ rest))"
    by (simp only: normalizePath_def l rbind_Ok run m last if_False Let_def prod.case)
  moreover have "0 \<notin> set (join ?cs)" using cstr_nonzero [of 0 np] np(2) by auto
  moreover have "length (join ?cs @ 0 # drop (length (join ?cs) + 1) (line_of 0 ws e @ rest)) = length ?p"
    using jl bl p(2) by simp
  ultimately show ?thesis using cstr_prefix by blast
qed

definition components :: "u8 list list \<Rightarrow> (nat \<times> u8 list) list" where
  "components cs = (case cs of [] \<Rightarrow> [] | c # ds \<Rightarrow> (0, c) # map (Pair 1) ds)"

lemma spread_components: "spread 47 (components cs) = join cs"
proof (induction cs rule: join.induct)
  case (3 c d cs)
  then show ?case by (simp add: components_def)
qed (simp_all add: components_def)

lemma spread_append: "spread d (us @ ws) = spread d us @ spread d ws"
  by (simp add: spread_def)

lemma words_components:
  assumes "\<forall>c \<in> set cs. word_ok 47 c" "cs \<noteq> []" "words_ok 47 ((0, t) # ws)"
  shows "words_ok 47 (components cs @ (1, t) # ws) \<and> map snd (components cs @ (1, t) # ws) = cs @ map snd ((0, t) # ws)"
  using assms by (cases cs) (auto simp: components_def words_ok_def comp_def)

text \<open>The current directory, in its 256 bytes.\<close>

definition in_dir :: "shell \<Rightarrow> u8 list list \<Rightarrow> bool" where
  "in_dir s cs \<longleftrightarrow> length (cwd s) = 256 \<and> length (workpath s) = 256 \<and> terminated (cwd s) \<and> cstr (cwd s) = join cs \<and>
     (\<forall>c \<in> set cs. word_ok 47 c)"

lemma memset_all: "memset d v (length d) = Ok (replicate (length d) v)"
  using put_bytes_eq [of 0 "replicate (length d) v" d] by (simp add: memset_def)

lemma go_to_first: "cs \<noteq> [] \<Longrightarrow> foldl go_to cs ts \<noteq> [] \<and> hd (foldl go_to cs ts) = hd cs"
proof (induction ts arbitrary: cs)
  case (Cons t ts)
  have "go_to cs t \<noteq> [] \<and> hd (go_to cs t) = hd cs" using Cons.prems by (cases cs rule: rev_cases) (auto simp: go_to_def hd_append)
  then show ?case using Cons.IH [of "go_to cs t"] by simp
qed simp

lemma go_to_words: "\<forall>c \<in> set cs. word_ok d c \<Longrightarrow> \<forall>t \<in> set ts. word_ok d t \<Longrightarrow> \<forall>c \<in> set (foldl go_to cs ts). word_ok d c"
proof (induction ts arbitrary: cs)
  case (Cons t ts)
  have "\<forall>c \<in> set (go_to cs t). word_ok d c" using Cons.prems by (auto simp: go_to_def dest: in_set_butlastD)
  then show ?case using Cons.IH [of "go_to cs t"] Cons.prems(2) by simp
qed simp

lemma fold_dir: "\<forall>c \<in> set cs. c \<noteq> [46] \<and> c \<noteq> [46, 46] \<Longrightarrow> foldl go_to ds cs = ds @ cs"
  by (induction cs arbitrary: ds) (auto simp: go_to_def)

text \<open>A directory without dots in it, which is what \<open>cd\<close> leaves.\<close>

definition plain :: "u8 list list \<Rightarrow> bool" where
  "plain cs \<longleftrightarrow> cs \<noteq> [] \<and> (\<forall>c \<in> set cs. c \<noteq> [46] \<and> c \<noteq> [46, 46])"

lemma go_to_plain: "plain cs \<Longrightarrow> plain (foldl go_to cs ts)"
proof (induction ts arbitrary: cs)
  case (Cons t ts)
  have "plain (go_to cs t)" using Cons.prems by (cases cs rule: rev_cases) (auto simp: go_to_def plain_def)
  then show ?case using Cons.IH by simp
qed simp

lemma relative_path:
  assumes "in_dir s cs" "cs \<noteq> []" "words_ok 47 ((0, t) # ws)" "length (join cs) + Suc (length (line_of 47 ((0, t) # ws) e)) \<le> 256"
  shows "\<exists>s1. apply_cd (line_of 47 ((0, t) # ws) e @ rest) s = Ok s1 \<and> cwd s1 = cwd s \<and> length (workpath s1) = 256 \<and>
    terminated (workpath s1) \<and> cstr (workpath s1) = join cs @ 47 # spread 47 ((0, t) # ws) @ (if e then [47] else [])"
proof -
  let ?path = "line_of 47 ((0, t) # ws) e @ rest" and ?a = "spread 47 ((0, t) # ws) @ (if e then [47] else [])"
  have s: "length (cwd s) = 256" "length (workpath s) = 256" "terminated (cwd s)" "cstr (cwd s) = join cs" using assms(1) by (simp_all add: in_dir_def)
  have "0 \<notin> set ?a" using spread_no_nul [OF assms(3)] by simp
  from cstr_prefix [OF this, of rest] have p: "cstr ?path = ?a" "terminated ?path" by (simp_all add: line_of_def)
  obtain c u where t: "t = c # u" "c \<noteq> 47" using assms(3) by (cases t) (auto simp: words_ok_def word_ok_def)
  have first: "rd ?path 0 = Ok c" using t(1) by (simp add: rd_def line_of_def)
  have fit: "length (join cs) + Suc (length ?a) < 256" using assms(4) by (simp add: line_of_def)
  let ?w = "join cs @ 0 # drop (length (join cs) + 1) (replicate 256 0)"
  have w: "strcpy (replicate 256 0) (cwd s) = Ok ?w" using strcpy_copies [OF s(3), of "replicate 256 0"] s(4) fit by simp
  have "0 \<notin> set (join cs)" using cstr_nonzero [of 0 "cwd s"] s(4) by auto
  from cstr_prefix [OF this] have wc: "cstr ?w = join cs" "terminated ?w" by simp_all
  have wl: "length ?w = 256" using fit by simp
  have sl: "terminated [47, 0]" "cstr [47, 0] = [47]" by (simp_all add: cstr_simps)
  from cat_string [OF wc(2) sl(1)] obtain d1 where
    d1: "strcat ?w [47, 0] = Ok d1" "cstr d1 = join cs @ [47]" "terminated d1" "length d1 = 256"
    using wc(1) sl(2) wl fit by auto
  from cat_string [OF d1(3) p(2)] obtain d2 where
    d2: "strcat d1 ?path = Ok d2" "cstr d2 = join cs @ 47 # ?a" "terminated d2" "length d2 = 256"
    using d1(2,4) p(1) fit by auto
  have m: "memset (workpath s) 0 256 = Ok (replicate 256 0)" using memset_all [of "workpath s" 0] s(2) by simp
  have "apply_cd ?path s = Ok (s\<lparr>workpath := d2\<rparr>)"
    unfolding apply_cd_def m first using t(2) w d1(1) d2(1) by simp
  then show ?thesis using d2 by simp
qed

text \<open>C33: \<open>cd\<close> with a relative path ends where the reference does, component by component, if the names fit the buffer; it
  never leaves the file system the directory was in, whatever dots the path has.\<close>

theorem cd_walks:
  assumes "in_dir s cs" "plain cs" "words_ok 47 ((0, t) # ws)" "256 \<le> length junk"
    and "length (join cs) + Suc (length (line_of 47 ((0, t) # ws) e)) \<le> 256"
  shows "\<exists>s1. cd junk (line_of 47 ((0, t) # ws) e @ rest) s = Ok s1 \<and> in_dir s1 (foldl go_to cs (map snd ((0, t) # ws))) \<and>
    hd (foldl go_to cs (map snd ((0, t) # ws))) = hd cs"
proof -
  let ?a = "spread 47 ((0, t) # ws) @ (if e then [47] else [])" and ?ws = "components cs @ (1, t) # ws"
  have ne: "cs \<noteq> []" and ok: "\<forall>c \<in> set cs. word_ok 47 c" using assms(1,2) by (simp_all add: plain_def in_dir_def)
  from relative_path [OF assms(1) ne assms(3,5), of rest] obtain s1 where
    s1: "apply_cd (line_of 47 ((0, t) # ws) e @ rest) s = Ok s1" "cwd s1 = cwd s" "length (workpath s1) = 256"
      "terminated (workpath s1)" "cstr (workpath s1) = join cs @ 47 # ?a" by (elim exE conjE)
  have cl: "length (cwd s1) = 256" using s1(2) assms(1) by (simp add: in_dir_def)
  have fit: "length (join cs) + Suc (length ?a) < 256" using assms(5) by (simp add: line_of_def)
  have m: "memset (cwd s1) 0 256 = Ok (replicate 256 0)" using memset_all [of "cwd s1" 0] cl by simp
  let ?j = "join cs @ 47 # ?a"
  let ?z = "replicate (256 - Suc (length ?j)) (0 :: u8)"
  have cp: "strcpy (replicate 256 0) (workpath s1) = Ok (?j @ 0 # ?z)"
    using strcpy_copies [OF s1(4), of "replicate 256 0"] s1(5) fit by simp
  have wo: "words_ok 47 ?ws" "map snd ?ws = cs @ map snd ((0, t) # ws)" using words_components [OF ok ne assms(3)] by simp_all
  have line: "?j @ [0] = line_of 47 ?ws e" by (simp add: line_of_def spread_append spread_components)
  have nz: "0 \<notin> set ?j" using spread_no_nul [OF wo(1)] by (simp add: spread_append spread_components)
  have sl: "strlen (?j @ 0 # ?z) = Ok (length ?j)"
    using strlen_length [of "?j @ 0 # ?z"] cstr_prefix [OF nz, of ?z] fit by simp
  have wr0: "wr (?j @ 0 # ?z) (length ?j) 0 = Ok (?j @ 0 # ?z)" using fit by (simp add: wr_def list_update_append)
  have len: "length (line_of 47 ?ws e) \<le> 256" unfolding line [symmetric] using fit by simp
  have b: "?j @ 0 # ?z = line_of 47 ?ws e @ ?z" unfolding line [symmetric] by simp
  have "length (line_of 47 ?ws e) \<le> 65536" "length (line_of 47 ?ws e) \<le> length junk" "?ws \<noteq> []" using len assms(4) by simp_all
  from normalizePath_walks [OF wo(1) this(3,1,2), of ?z] obtain q where
    q: "normalizePath junk (?j @ 0 # ?z) = Ok q" "terminated q" "length q = length (line_of 47 ?ws e @ ?z)"
      "cstr q = join (foldl go_to [] (map snd ?ws))" unfolding b by (elim exE conjE)
  have "length (line_of 47 ?ws e @ ?z) = 256" unfolding b [symmetric] using fit by simp
  moreover have "foldl go_to [] (map snd ?ws) = foldl go_to cs (map snd ((0, t) # ws))"
    unfolding wo(2) foldl_append using fold_dir [of cs "[]"] assms(2) by (simp add: plain_def)
  moreover have "\<forall>c \<in> set (foldl go_to cs (map snd ((0, t) # ws))). word_ok 47 c"
    by (rule go_to_words [OF ok]) (use assms(3) in \<open>auto simp: words_ok_def\<close>)
  ultimately have "in_dir (s1\<lparr>cwd := q\<rparr>) (foldl go_to cs (map snd ((0, t) # ws)))"
    using q s1(3) by (simp add: in_dir_def)
  moreover have "cd junk (line_of 47 ((0, t) # ws) e @ rest) s = Ok (s1\<lparr>cwd := q\<rparr>)"
    by (simp only: cd_def s1(1) rbind_Ok m cp sl wr0 q(1))
  ultimately show ?thesis using go_to_first [OF ne] by blast
qed

theorem cd_walks_witness:
  "\<exists>s1. cd (replicate 256 7) [46, 46, 47, 46, 46, 47, 99, 0] \<lparr>cwd = [97, 47, 98] @ replicate 253 0, workpath = replicate 256 0, devno = []\<rparr> = Ok s1 \<and>
    in_dir s1 [[97], [99]]"
proof -
  let ?s = "\<lparr>cwd = [97, 47, 98] @ replicate 253 0, workpath = replicate 256 0, devno = []\<rparr>"
  let ?ws = "[(1, [46, 46]), (1, [99])] :: (nat \<times> u8 list) list"
  have l: "line_of 47 ((0, [46, 46]) # ?ws) False = [46, 46, 47, 46, 46, 47, 99, 0]" by (simp add: line_of_def)
  have "cstr (cwd ?s) = [97, 47, 98] \<and> terminated (cwd ?s)" using cstr_prefix [of "[97, 47, 98]" "replicate 252 0"] by (simp add: replicate_Suc [symmetric])
  then have "in_dir ?s [[97], [98]]" "plain [[97 :: u8], [98]]" "words_ok 47 ((0, [46, 46]) # ?ws)" "256 \<le> length (replicate 256 (7 :: u8))"
    "length (join [[97], [98]]) + Suc (length (line_of 47 ((0, [46, 46]) # ?ws) False)) \<le> 256"
    unfolding l by (simp_all add: in_dir_def plain_def words_ok_def word_ok_def)
  from cd_walks [OF this, of "[]"] show ?thesis unfolding l by (simp add: go_to_def)
qed

theorem line_runs_command_witness:
  "\<exists>args. run_line ([32, 99, 100, 32, 32, 97] @ 0 # replicate 9 0) = Ok (Some ''cd'', args) \<and> map cstr args = [[99, 100], [97]]"
proof -
  let ?ws = "[(1, [99, 100]), (2, [97])] :: (nat \<times> u8 list) list"
  have l: "line_of 32 ?ws False = [32, 99, 100, 32, 32, 97, 0]" by (simp add: line_of_def numeral_2_eq_2)
  have w: "words_ok 32 ?ws" by (simp add: words_ok_def word_ok_def)
  have f: "List.find (\<lambda>c. cstr (literal c) = snd (?ws ! 0)) cmdlist = Some ''cd''"
    by (simp add: cmdlist_def literal_def cstr_simps)
  from line_runs_command [OF w, of False "replicate 9 0"] show ?thesis unfolding l f by simp
qed

end
