(* ===== verification/ShellFiles.thy ===== *)
theory ShellFiles
  imports Loader Shell GenericExt2
begin

text \<open>The commands of the debug shell that work on files (\<open>debug/shell.c\<close>), over the virtual file system. The arguments are
  strings of their own: normalising a path and cutting it at a colon change no byte of another argument. A command that is
  given too few arguments prints its usage and nothing else. The buffer a command passes to
  \<open>printf\<close> is its result.\<close>

section \<open>Files\<close>

text \<open>The size of an open file: its end is sought, asked for, and left again.\<close>

definition size_of_fd :: "int \<Rightarrow> 'x vfs \<Rightarrow> (u64 \<times> 'x vfs) result" where
  "size_of_fd fd v = rbind (vfs_file_seek fd 0 2 v) (\<lambda>(_, v). rbind (vfs_file_tell fd v) (\<lambda>(n, v).
     rbind (vfs_file_seek fd 0 0 v) (\<lambda>(_, v). Ok (n, v))))"

text \<open>A cleared buffer of \<open>n\<close> bytes, read into, with the file closed behind.\<close>

definition take_bytes :: "int \<Rightarrow> u64 \<Rightarrow> 'x vfs \<Rightarrow> (u8 list \<times> 'x vfs) result" where
  "take_bytes fd n v = rbind (memset (fresh (venv v) (unat n)) 0 (unat n)) (\<lambda>buf. rbind (vfs_file_read fd buf n v) (\<lambda>((_, buf), v).
     rbind (vfs_file_close fd v) (\<lambda>(_, v). Ok (buf, v))))"

text \<open>The first part of \<open>readelf\<close>, \<open>loadelf\<close> and \<open>loadraw\<close>.\<close>

definition load_file :: "u8 list \<Rightarrow> 'x vfs \<Rightarrow> (u8 list option \<times> 'x vfs) result" where
  "load_file path v = rbind (vfs_file_open path 0 0 v) (\<lambda>(fd, _, v). if fd < 0 then Ok (None, v) else
     rbind (size_of_fd fd v) (\<lambda>(n, v). rbind (take_bytes fd n v) (\<lambda>(buf, v). Ok (Some buf, v))))"

definition readelf :: "u8 list list \<Rightarrow> 'x vfs \<Rightarrow> (u8 list option \<times> 'x vfs) result" where
  "readelf argv v = (if length argv < 2 then Ok (None, v) else load_file (argv ! 1) v)"

text \<open>The loader works on the page tables and the memory behind them.\<close>

definition loadelf :: "(u64 \<Rightarrow> kvm \<Rightarrow> (u64 option \<times> kvm) result) \<Rightarrow> u8 list list \<Rightarrow> 'x vfs \<Rightarrow> kvm \<Rightarrow> ('x vfs \<times> kvm) result" where
  "loadelf create argv v s = (if length argv < 2 then Ok (v, s) else
     rbind (load_file (argv ! 1) v) (\<lambda>(b, v). case b of None \<Rightarrow> Ok (v, s)
       | Some buf \<Rightarrow> rbind (elf_load_elf create s buf) (\<lambda>(_, _, s). Ok (v, s))))"

text \<open>How much of a file \<open>read\<close> and \<open>readd\<close> show, and from where.\<close>

definition range_of :: "u8 list list \<Rightarrow> int \<Rightarrow> 'x vfs \<Rightarrow> (u64 \<times> u64 \<times> 'x vfs) result" where
  "range_of argv fd v = rbind (if length argv > 3 then atou64 (argv ! 3) else Ok 0) (\<lambda>off.
     rbind (if length argv > 2 then rbind (atou64 (argv ! 2)) (\<lambda>n. Ok (n, v)) else size_of_fd fd v) (\<lambda>(n, v). Ok (n, off, v)))"

definition shell_read :: "u8 list list \<Rightarrow> shell \<Rightarrow> 'x vfs \<Rightarrow> (u8 list option \<times> shell \<times> 'x vfs) result" where
  "shell_read argv s v = (if length argv < 2 then Ok (None, s, v) else
     rbind (apply_cd (argv ! 1) s) (\<lambda>s. rbind (vfs_file_open (workpath s) 0 0 v) (\<lambda>(fd, p, v).
     let s = s\<lparr>workpath := p\<rparr> in if fd < 0 then Ok (None, s, v) else
     rbind (range_of argv fd v) (\<lambda>(n, off, v). rbind (vfs_file_seek fd off 0 v) (\<lambda>(_, v).
     rbind (take_bytes fd n v) (\<lambda>(buf, v). Ok (Some buf, s, v)))))))"

text \<open>The buffer has as many bytes as are read: there is none for the NUL behind them.\<close>

definition readd :: "u8 list list \<Rightarrow> 'x vfs \<Rightarrow> (u8 list option \<times> 'x vfs) result" where
  "readd argv v = (if length argv < 2 then Ok (None, v) else
     rbind (vfs_file_open (argv ! 1) 0 0 v) (\<lambda>(fd, _, v). if fd < 0 then Ok (None, v) else
     rbind (range_of argv fd v) (\<lambda>(n, off, v). rbind (vfs_file_seek fd off 0 v) (\<lambda>(_, v).
     rbind (take_bytes fd n v) (\<lambda>(buf, v). rbind (wr buf (unat n) 0) (\<lambda>buf. Ok (Some buf, v)))))))"

text \<open>Every word is written with a blank behind it.\<close>

fun write_words :: "int \<Rightarrow> u8 list list \<Rightarrow> 'x vfs \<Rightarrow> 'x vfs result" where
  "write_words fd [] v = Ok v"
| "write_words fd (w # ws) v = rbind (strlen w) (\<lambda>n. rbind (vfs_file_write fd w (of_nat n) v) (\<lambda>(_, v).
     rbind (vfs_file_write fd [32, 0] 1 v) (\<lambda>(_, v). write_words fd ws v)))"

definition writed :: "u8 list list \<Rightarrow> 'x vfs \<Rightarrow> 'x vfs result" where
  "writed argv v = (if length argv < 2 then Ok v else
     rbind (vfs_file_open (argv ! 1) 0 0 v) (\<lambda>(fd, _, v). if fd < 0 then Ok v else
     rbind (write_words fd (drop 2 argv) v) (\<lambda>v. rbind (vfs_file_close fd v) (\<lambda>(_, v). Ok v))))"

text \<open>\<open>path:offset\<close>.\<close>

definition cut_offset :: "u8 list \<Rightarrow> (u8 list \<times> u64) result" where
  "cut_offset path = rbind (strlen path) (\<lambda>n. case List.find (\<lambda>i. path ! i = 58) [0..<n] of None \<Rightarrow> Ok (path, 0)
     | Some i \<Rightarrow> rbind (atou64 (drop (i + 1) path)) (\<lambda>off. Ok (path[i := 0], off)))"

definition shell_write :: "u8 list list \<Rightarrow> shell \<Rightarrow> 'x vfs \<Rightarrow> (shell \<times> 'x vfs) result" where
  "shell_write argv s v = (if length argv < 3 then Ok (s, v) else
     rbind (cut_offset (argv ! 1)) (\<lambda>(path, off). rbind (apply_cd path s) (\<lambda>s.
     rbind (vfs_file_open (workpath s) 0 0 v) (\<lambda>(fd, p, v). let s = s\<lparr>workpath := p\<rparr> in if fd < 0 then Ok (s, v) else
     rbind (vfs_file_seek fd off 0 v) (\<lambda>(_, v). rbind (write_words fd (drop 2 argv) v) (\<lambda>v.
     rbind (vfs_file_close fd v) (\<lambda>(_, v). Ok (s, v))))))))"

definition shell_create :: "u8 list list \<Rightarrow> shell \<Rightarrow> 'x vfs \<Rightarrow> (shell \<times> 'x vfs) result" where
  "shell_create argv s v = (if length argv < 2 then Ok (s, v) else
     rbind (apply_cd (argv ! 1) s) (\<lambda>s. rbind (vfs_file_creat (workpath s) 0 v) (\<lambda>(_, p, v). Ok (s\<lparr>workpath := p\<rparr>, v))))"

definition shell_delete :: "u8 list list \<Rightarrow> shell \<Rightarrow> 'x vfs \<Rightarrow> (shell \<times> 'x vfs) result" where
  "shell_delete argv s v = (if length argv < 2 then Ok (s, v) else
     rbind (if length argv > 2 then rbind (strcmp (argv ! 2) (literal ''-force'')) (\<lambda>c. Ok (if c = 0 then 1 else 0)) else Ok 0) (\<lambda>force.
     rbind (apply_cd (argv ! 1) s) (\<lambda>s. rbind (vfs_remove (workpath s) force v) (\<lambda>(_, p, v). Ok (s\<lparr>workpath := p\<rparr>, v)))))"

definition shell_mkdir :: "u8 list list \<Rightarrow> shell \<Rightarrow> 'x vfs \<Rightarrow> (shell \<times> 'x vfs) result" where
  "shell_mkdir argv s v = (if length argv < 2 then Ok (s, v) else
     rbind (apply_cd (argv ! 1) s) (\<lambda>s. rbind (vfs_mkdir (workpath s) 0 v) (\<lambda>(_, p, v). Ok (s\<lparr>workpath := p\<rparr>, v))))"

text \<open>The offset behind the colon, in decimal; without a colon the path stays as it is.\<close>

theorem cut_offset_splits:
  assumes "58 \<notin> set path" and "0 \<notin> set path" and "is_decimal ds" and "ds \<noteq> []" and "length path + length ds < 65536"
  shows "cut_offset (path @ 58 # ds @ 0 # r) = Ok (path @ 0 # ds @ 0 # r, of_nat (decimal ds))"
proof -
  let ?p = "path @ 58 # ds @ 0 # r"
  have "0 \<notin> set ds" using assms(3) by (auto simp: is_decimal_def list_all_iff)
  then have "0 \<notin> set (path @ 58 # ds)" using assms(2) by simp
  from cstr_prefix [OF this, of r] have l: "strlen ?p = Ok (Suc (length path + length ds))"
    using strlen_length [of ?p] assms(5) by simp
  have "List.find (\<lambda>i. ?p ! i = 58) [0..<Suc (length path + length ds)] = Some (length path)"
  proof -
    have "i \<noteq> 58" if "i \<in> set path" for i using assms(1) that by blast
    then show ?thesis by (simp add: find_Some_iff) (use nth_mem in \<open>fastforce simp: nth_append\<close>)
  qed
  with l atou64_decimal [OF assms(3,4), of r] assms(5) show ?thesis by (simp add: cut_offset_def list_update_append)
qed

lemma cut_offset_plain: "terminated path \<Longrightarrow> 58 \<notin> set (cstr path) \<Longrightarrow> length (cstr path) < 65536 \<Longrightarrow> cut_offset path = Ok (path, 0)"
proof -
  assume a: "terminated path" "58 \<notin> set (cstr path)" "length (cstr path) < 65536"
  obtain r where r: "path = cstr path @ 0 # r" using terminated_split [OF a(1)] by blast
  have "path ! i \<noteq> 58" if "i < length (cstr path)" for i
    using a(2) nth_mem [OF that] that nth_append [of "cstr path" "0 # r" i] r by metis
  then have "List.find (\<lambda>i. path ! i = 58) [0..<length (cstr path)] = None" by (simp add: find_None_iff)
  with strlen_length [OF a(1)] a(3) show ?thesis by (simp add: cut_offset_def)
qed

section \<open>Files read as a whole\<close>

context seekable_fs begin

lemma entry_moved: "opened en nm rest \<Longrightarrow> fd_ok (en\<lparr>fd_offset := a\<rparr>) \<and> fd_loaded (en\<lparr>fd_offset := a\<rparr>) = 1 \<and>
    cstr (fd_mount (en\<lparr>fd_offset := a\<rparr>)) @ cstr (fd_name (en\<lparr>fd_offset := a\<rparr>)) = nm @ rest"
  by (simp add: opened_def fd_ok_def)

lemma size_and_bytes:
  assumes "k < 65536" and "opened (files (etab (venv v)) k) nm rest" and "belongs v (nm @ rest) m rest'" and "type_of m v = Ok ops"
    and "ready (venv v) (mt_index m) nm" and "holds (venv v) (mt_index m) rest c" and "c \<noteq> []"
  shows "vfs_file_seek (int k) 0 0 v = Ok (0, v)" and "size_of_fd (int k) v = Ok (of_nat (length c), v)"
    and "take_bytes (int k) (of_nat (length c)) v = Ok (c, v\<lparr>venv := (venv v)\<lparr>etab := close_file k (etab (venv v))\<rparr>\<rparr>)"
proof -
  let ?e = "venv v" and ?i = "mt_index m"
  let ?w = "v\<lparr>venv := ?e\<lparr>etab := moved k (of_nat (length c)) (etab ?e)\<rparr>\<rparr>"
  have o: "fd_ok (files (etab ?e) k)" "fd_loaded (files (etab ?e) k) = 1" "fd_offset (files (etab ?e) k) = 0"
    "cstr (fd_mount (files (etab ?e) k)) @ cstr (fd_name (files (etab ?e) k)) = nm @ rest"
    using assms(2) by (simp_all add: opened_def)
  have mv: "fd_ok (files (etab (venv ?w)) k)" "fd_loaded (files (etab (venv ?w)) k) = 1"
    "belongs ?w (cstr (fd_mount (files (etab (venv ?w)) k)) @ cstr (fd_name (files (etab (venv ?w)) k))) m rest'"
    "type_of m ?w = Ok ops"
    using entry_moved [OF assms(2), of "of_nat (length c)"] assms(3,4) by simp_all
  have at: "at_fd (int k) bad dflt f v = rbind (f ops ?i ?e) (\<lambda>(r, e). Ok (r, v\<lparr>venv := e\<rparr>))" for bad dflt and f :: "'x fs_ops \<Rightarrow> int \<Rightarrow> ('a, 'x) io"
    by (rule at_fd_belongs [OF o(1,2) refl assms(1)]) (use assms(3,4) o(4) in simp_all)
  have atw: "at_fd (int k) bad dflt f ?w = rbind (f ops ?i (venv ?w)) (\<lambda>(r, e). Ok (r, ?w\<lparr>venv := e\<rparr>))" for bad dflt and f :: "'x fs_ops \<Rightarrow> int \<Rightarrow> ('a, 'x) io"
    by (rule at_fd_belongs [OF mv(1,2) refl assms(1) mv(3,4)])
  have rw: "ready (venv ?w) ?i nm" using ready_tab [OF assms(5)] by simp
  from seek_end [OF assms(5,6,1,2), of 0] have se: "vfs_file_seek (int k) 0 2 v = Ok (of_nat (length c), ?w)"
    unfolding vfs_file_seek_def at by auto
  from tell_offset [OF rw assms(1)] have te: "vfs_file_tell (int k) ?w = Ok (of_nat (length c), ?w)"
    unfolding vfs_file_tell_def atw by auto
  from seek_set [OF rw assms(1), of 0] have "vfs_file_seek (int k) 0 0 ?w = Ok (0, v)"
    unfolding vfs_file_seek_def atw using moved_back [OF o(3)] by auto
  with se te show "size_of_fd (int k) v = Ok (of_nat (length c), v)" by (simp add: size_of_fd_def)
  from seek_set [OF assms(5,1), of 0] show "vfs_file_seek (int k) 0 0 v = Ok (0, v)"
    unfolding vfs_file_seek_def at using moved_back [OF o(3)] by auto
  have len: "unat (of_nat (length c) :: u64) = length c" using holds_size [OF assms(6)] by (simp add: unsigned_of_nat take_bit_nat_eq_self)
  have b: "length (fresh ?e (length c)) = length c" by (simp add: fresh_def)
  have "memset (fresh ?e (length c)) 0 (length c) = Ok (replicate (length c) 0)" using memset_all [of "fresh ?e (length c)" 0] b by simp
  moreover have "vfs_file_read (int k) (replicate (length c) 0) (of_nat (length c)) v = Ok ((through_int (status (of_nat (length c))), c), v)"
    using reads [OF assms(1-6), of "of_nat (length c)" "replicate (length c) 0"] len assms(7) by simp
  moreover from close_frees [OF assms(5,1)] have "vfs_file_close (int k) v = Ok (0, v\<lparr>venv := ?e\<lparr>etab := close_file k (etab ?e)\<rparr>\<rparr>)"
    unfolding vfs_file_close_def at by auto
  ultimately show "take_bytes (int k) (of_nat (length c)) v = Ok (c, v\<lparr>venv := ?e\<lparr>etab := close_file k (etab ?e)\<rparr>\<rparr>)"
    by (simp add: take_bytes_def len)
qed

text \<open>A file that is opened, read as a whole and closed again: the bytes are its contents, and nothing but the entry of the
  descriptor has changed.\<close>

lemma whole_file:
  assumes "terminated path" and "normalized (cstr path) = nm @ rest" and "belongs v (nm @ rest) m rest" and "type_of m v = Ok ops"
    and "ready (venv v) (mt_index m) nm" and "length rest < 256"
    and "tab_ok (etab (venv v))" and "next_fd (etab (venv v)) < 65536" and "j < 65536" and "fd_loaded (files (etab (venv v)) j) = 0"
    and "holds (venv v) (mt_index m) rest c" and "c \<noteq> []"
  shows "\<exists>k q v1 en. vfs_file_open path 0 0 v = Ok (int k, q, v1) \<and> cstr q = nm @ rest \<and> vfs_file_seek (int k) 0 0 v1 = Ok (0, v1) \<and>
    size_of_fd (int k) v1 = Ok (of_nat (length c), v1) \<and> fd_loaded en = 0 \<and>
    take_bytes (int k) (of_nat (length c)) v1 = Ok (c, v\<lparr>venv := (venv v)\<lparr>etab := with_entry k en (etab (venv v))\<rparr>\<rparr>)"
proof -
  obtain q k en where o: "vfs_file_open path 0 0 v = Ok (int k, q, v\<lparr>venv := (venv v)\<lparr>etab := with_entry k en (etab (venv v))\<rparr>\<rparr>)"
    "cstr q = nm @ rest" "k < 65536" "opened en nm rest"
    using opens [OF assms(1-10), of 0 0] by blast
  let ?v = "v\<lparr>venv := (venv v)\<lparr>etab := with_entry k en (etab (venv v))\<rparr>\<rparr>"
  have p: "opened (files (etab (venv ?v)) k) nm rest" "belongs ?v (nm @ rest) m rest" "type_of m ?v = Ok ops"
    "ready (venv ?v) (mt_index m) nm" "holds (venv ?v) (mt_index m) rest c"
    using o(4) assms(3-5,11) ready_tab holds_tab by simp_all
  have "close_file k (with_entry k en (etab (venv v))) = with_entry k (en\<lparr>fd_loaded := 0\<rparr>) (etab (venv v))"
    by (simp add: close_file_def with_entry_def set_file_def)
  with size_and_bytes [OF o(3) p assms(12)] o(1,2) show ?thesis
    by (intro exI [where x = k] exI [where x = q] exI [where x = ?v] exI [where x = "en\<lparr>fd_loaded := 0\<rparr>"]) simp
qed

end

section \<open>The commands on an EXT2 partition\<close>

text \<open>\<open>shows_file v path c\<close>: the string \<open>path\<close> names a file with the contents \<open>c\<close> on a mounted EXT2 partition, and there is a free
  descriptor to open it with.\<close>

definition shows_file :: "ext2fs vfs \<Rightarrow> u8 list \<Rightarrow> u8 list \<Rightarrow> bool" where
  "shows_file v path c \<longleftrightarrow> (\<exists>nm rest m k p cs port D ino j. normalized path = nm @ rest \<and> rest @ [0] = path_of cs \<and> belongs v (nm @ rest) m rest
     \<and> ext2_mounted v m k p nm \<and> length rest < 256 \<and> tab_ok (etab (venv v)) \<and> next_fd (etab (venv v)) < 65536
     \<and> j < 65536 \<and> fd_loaded (files (etab (venv v)) j) = 0 \<and> tree_at (fs_view (venv v) p) port D \<and> cs \<noteq> []
     \<and> (\<forall>c \<in> set cs. component_ok c) \<and> walk D 2 cs = Some ino \<and> ino \<noteq> 0 \<and> file_at (fs_view (venv v) p) port ino c)"

text \<open>\<open>v\<close> with the entry of one descriptor changed, which is closed.\<close>

definition closed_again :: "'x vfs \<Rightarrow> 'x vfs \<Rightarrow> bool" where
  "closed_again v v' \<longleftrightarrow> (\<exists>k en. v' = v\<lparr>venv := (venv v)\<lparr>etab := with_entry k en (etab (venv v))\<rparr>\<rparr> \<and> fd_loaded en = 0)"

lemma shown_file:
  assumes "terminated path" and "shows_file v (cstr path) c" and "c \<noteq> []"
  shows "\<exists>k q v1 v2. vfs_file_open path 0 0 v = Ok (int k, q, v1) \<and> cstr q = normalized (cstr path) \<and> vfs_file_seek (int k) 0 0 v1 = Ok (0, v1) \<and>
    size_of_fd (int k) v1 = Ok (of_nat (length c), v1) \<and> take_bytes (int k) (of_nat (length c)) v1 = Ok (c, v2) \<and> closed_again v v2"
proof -
  from assms(2) obtain nm rest m k p cs port D ino j where h: "normalized (cstr path) = nm @ rest" "rest @ [0] = path_of cs"
    "belongs v (nm @ rest) m rest" "ext2_mounted v m k p nm" "length rest < 256" "tab_ok (etab (venv v))" "next_fd (etab (venv v)) < 65536"
    "j < 65536" "fd_loaded (files (etab (venv v)) j) = 0" "tree_at (fs_view (venv v) p) port D" "cs \<noteq> []"
    "\<forall>c \<in> set cs. component_ok c" "walk D 2 cs = Some ino" "ino \<noteq> 0" "file_at (fs_view (venv v) p) port ino c"
    unfolding shows_file_def by (elim exE conjE)
  have m: "type_of m v = Ok ext2_ops" "ext2_ready (venv v) (mt_index m) nm" "mt_index m = int k" "slot_of (venv v) k p"
    using h(4) by (auto simp: ext2_mounted_def ext2_ready_def)
  have "ext2_holds (venv v) (mt_index m) rest c" unfolding ext2_holds_def using m(3,4) h(2,10-15) by blast
  from ext2_whole.whole_file [OF assms(1) h(1,3) m(1,2) h(5-9) this assms(3)] show ?thesis unfolding closed_again_def h(1) by blast
qed

text \<open>C35: \<open>read\<close> with a path relative to the current directory, which the directories of a mounted EXT2 partition resolve to a
  nonempty file of at most 12 direct blocks (\<open>shows_file\<close>, by \<open>file_at\<close>; the code does not get at the blocks behind them), with a descriptor
  free: the path is made absolute, opened, measured by seeking, read and closed. The buffer it passes to \<open>printf\<close> has exactly the contents of
  the file, and nothing is left open. What \<open>printf\<close> prints is not part of this: there is no NUL behind the contents.\<close>

theorem shell_read_shows:
  assumes "in_dir s ds" and "ds \<noteq> []" and "words_ok 47 ((0, t) # ws)"
    and "length (join ds) + Suc (length (line_of 47 ((0, t) # ws) e)) \<le> 256"
    and "shows_file v (join ds @ 47 # spread 47 ((0, t) # ws) @ (if e then [47] else [])) c" and "c \<noteq> []"
  shows "\<exists>s1 v1. shell_read [cmd, line_of 47 ((0, t) # ws) e @ rest] s v = Ok (Some c, s1, v1) \<and> cwd s1 = cwd s \<and> closed_again v v1"
proof -
  obtain s1 where s1: "apply_cd (line_of 47 ((0, t) # ws) e @ rest) s = Ok s1" "cwd s1 = cwd s" "terminated (workpath s1)"
    "cstr (workpath s1) = join ds @ 47 # spread 47 ((0, t) # ws) @ (if e then [47] else [])"
    using relative_path [OF assms(1-4), of rest] by blast
  have "shows_file v (cstr (workpath s1)) c" unfolding s1(4) by (rule assms(5))
  from shown_file [OF s1(3) this assms(6)] obtain k q v1 v2 where
    f: "vfs_file_open (workpath s1) 0 0 v = Ok (int k, q, v1)" "vfs_file_seek (int k) 0 0 v1 = Ok (0, v1)"
      "size_of_fd (int k) v1 = Ok (of_nat (length c), v1)" "take_bytes (int k) (of_nat (length c)) v1 = Ok (c, v2)" "closed_again v v2"
    by (elim exE conjE)
  have "shell_read [cmd, line_of 47 ((0, t) # ws) e @ rest] s v = Ok (Some c, s1\<lparr>workpath := q\<rparr>, v2)"
    using s1(1) f by (simp add: shell_read_def range_of_def)
  with s1(2) f(5) show ?thesis by (intro exI [where x = "s1\<lparr>workpath := q\<rparr>"] exI [where x = v2]) simp
qed

text \<open>C36: \<open>loadelf\<close> gives the loader the contents of the file (nonempty, at most 12 direct blocks), and the file is closed whatever the loader does with them.\<close>

theorem loadelf_loads:
  assumes "terminated path" and "shows_file v (cstr path) c" and "c \<noteq> []"
  shows "\<exists>v1. loadelf create [cmd, path] v s = rbind (elf_load_elf create s c) (\<lambda>(_, _, s'). Ok (v1, s')) \<and> closed_again v v1"
proof -
  from shown_file [OF assms] obtain k q v1 v2 where
    "vfs_file_open path 0 0 v = Ok (int k, q, v1)" "size_of_fd (int k) v1 = Ok (of_nat (length c), v1)"
      "take_bytes (int k) (of_nat (length c)) v1 = Ok (c, v2)" "closed_again v v2" by blast
  then show ?thesis by (intro exI [where x = v2]) (simp add: loadelf_def load_file_def)
qed

text \<open>\<open>readd\<close> writes a NUL behind the buffer of every file it shows.\<close>

theorem readd_overruns:
  assumes "terminated path" and "shows_file v (cstr path) c" and "c \<noteq> []"
  shows "readd [cmd, path] v = Err Fault"
proof -
  from shown_file [OF assms] obtain k q v1 v2 where
    f: "vfs_file_open path 0 0 v = Ok (int k, q, v1)" "vfs_file_seek (int k) 0 0 v1 = Ok (0, v1)"
      "size_of_fd (int k) v1 = Ok (of_nat (length c), v1)" "take_bytes (int k) (of_nat (length c)) v1 = Ok (c, v2)" by blast
  obtain nm rest p cs port D ino k where "file_at (fs_view (venv v) p) port ino c" using assms(2) unfolding shows_file_def by blast
  then obtain sz :: u32 where "unat sz = length c" by (auto simp: file_at_def)
  with unsigned_less [of sz, where 'a = nat] have "unat (of_nat (length c) :: u64) = length c"
    by (simp add: unsigned_of_nat take_bit_nat_eq_self)
  with f show ?thesis by (simp add: readd_def range_of_def wr_def)
qed

lemma ext2_vfs_shows: "normalized path = [47, 47, 97, 98] \<Longrightarrow> shows_file ext2_vfs path hello_example"
proof -
  assume n: "normalized path = [47, 47, 97, 98]"
  have e: "venv ext2_vfs = ext2_env" "etab ext2_env = empty_fdtab" by (simp_all add: ext2_vfs_def ext2_env_def)
  have b: "belongs ext2_vfs ([47] @ [47, 97, 98]) ext2_mount [47, 97, 98]" using ext2_vfs_belongs by simp
  have r: "[47, 97, 98] @ [0] = path_of [[97, 98]]" by simp
  show ?thesis unfolding shows_file_def
    by (rule exI [of _ "[47]"], rule exI [of _ "[47, 97, 98]"], rule exI [of _ ext2_mount], rule exI [of _ 0], rule exI [of _ 0],
        rule exI [of _ "[[97, 98]]"], rule exI [of _ 0], rule exI [of _ tree_example], rule exI [of _ 3], rule exI [of _ 0])
      (use n r b ext2_vfs_mounted(3) tab_ok_empty tree_example_ok(1,2) fs_tree_file in
        \<open>simp add: e ext2_view empty_fdtab_def blank_fd_def component_ok_def\<close>)
qed

theorem shell_read_shows_witness:
  "\<exists>s1 v1. shell_read [[114, 0], [46, 47, 47, 47, 97, 98, 0]] \<lparr>cwd = 46 # replicate 255 0, workpath = replicate 256 0, devno = []\<rparr> ext2_vfs
    = Ok (Some hello_example, s1, v1) \<and> cwd s1 = 46 # replicate 255 0 \<and> closed_again ext2_vfs v1"
proof -
  let ?s = "\<lparr>cwd = 46 # replicate 255 0, workpath = replicate 256 0, devno = []\<rparr>" and ?ws = "[(3, [97, 98])] :: (nat \<times> u8 list) list"
  have l: "line_of 47 ((0, [46]) # ?ws) False = [46, 47, 47, 47, 97, 98, 0]" by (simp add: line_of_def numeral_3_eq_3)
  have "cstr (cwd ?s) = [46] \<and> terminated (cwd ?s)" using cstr_prefix [of "[46]" "replicate 254 0"] by (simp add: replicate_Suc [symmetric])
  then have d: "in_dir ?s [[46]]" "[[46 :: u8]] \<noteq> []" "words_ok 47 ((0, [46]) # ?ws)"
    "length (join [[46]]) + Suc (length (line_of 47 ((0, [46]) # ?ws) False)) \<le> 256"
    unfolding l by (simp_all add: in_dir_def words_ok_def word_ok_def)
  have "normalized (join [[46]] @ 47 # spread 47 ((0, [46]) # ?ws) @ (if False then [47] else [])) = [47, 47, 97, 98]"
    by (simp add: normalized_def norm_from.simps(2) strip_end_def numeral_3_eq_3)
  from shell_read_shows [OF d ext2_vfs_shows [OF this], of "[114, 0]" "[]"] show ?thesis unfolding l by (simp add: hello_example_def)
qed

theorem loadelf_loads_witness:
  "\<exists>v1. loadelf (\<lambda>_ k. Ok (None, k)) [[108, 0], [47, 47, 97, 98, 0]] ext2_vfs loader_vm = Ok (v1, loader_vm) \<and> closed_again ext2_vfs v1"
proof -
  have p: "terminated [47, 47, 97, 98, 0]" "cstr [47, 47, 97, 98, 0] = [47, 47, 97, 98]" by (simp_all add: terminated_simps cstr_simps)
  have shown: "normalized [47, 47, 97, 98] = [47, 47, 97, 98]" by (simp add: normalized_def norm_from.simps(2) strip_end_def)
  have m: "memcmp hello_example ELFMAG (Suc 3) = Ok 1" unfolding ELFMAG_def hello_example_def memcmp.simps by simp
  from ext2_vfs_shows [OF shown] have "shows_file ext2_vfs (cstr [47, 47, 97, 98, 0]) hello_example" unfolding p(2) .
  moreover have "elf_load_elf (\<lambda>_ k. Ok (None, k)) loader_vm hello_example = Ok (Some 0, None, loader_vm)"
    using m by (simp add: elf_load_elf_def parse_elf_file_def)
  ultimately show ?thesis
    using loadelf_loads [OF p(1), of ext2_vfs hello_example "\<lambda>_ k. Ok (None, k)" "[108, 0]" loader_vm] by (simp add: hello_example_def)
qed

end
