(* ===== verification/Fat32.thy ===== *)
theory Fat32
  imports FsInterface "HOL-Library.Signed_Division"
begin

text \<open>FAT32 as the kernel uses it: the volumes of the ported driver (\<open>vfs/generic/fat32/fat32.c\<close>) with their letters, how a
  partition is recognised and registered, and the adapter \<open>generic_f32.h\<close>, whose operations on files and directories all fail. The
  driver's own operations on files, which nothing calls, are left out.\<close>

section \<open>Volumes\<close>

text \<open>The label has 13 bytes, the buffer 512, the name of the disk 32.\<close>

record volume =
  vo_label :: "u8 list"
  vo_letter :: u8
  sector_size :: u16
  cluster_size :: u8
  total_size :: u32
  fat_lba :: u32
  fsinfo_lba :: u32
  data_lba :: u32
  root_lba :: u32
  vo_buffer :: "u8 list"
  buffer_lba :: u32
  vo_disk :: "u8 list"
  buffer_dirty :: u32

text \<open>The chain of the volumes, the letters in use, and the adapter's table of 32 letters.\<close>

record f32fs =
  volumes :: "volume list"
  volume_bitmask :: u32
  f32_slots :: "u8 list"

definition fat_clust_to_sect :: "volume \<Rightarrow> u32 \<Rightarrow> u32" where
  "fat_clust_to_sect vol c = (c - 2) * ucast (cluster_size vol) + data_lba vol"

definition fat_sect_to_clust :: "volume \<Rightarrow> u32 \<Rightarrow> u32 result" where
  "fat_sect_to_clust vol s = rbind (udiv (s - data_lba vol) (ucast (cluster_size vol))) (\<lambda>q. Ok (q + 2))"

definition fat_flush :: "volume \<Rightarrow> dsys \<Rightarrow> (u8 \<times> volume \<times> dsys) result" where
  "fat_flush vol d = (if buffer_dirty vol \<noteq> 0
     then rbind (disk_write d (vo_disk vol) (vo_buffer vol) (buffer_lba vol) 1) (\<lambda>(r, d).
       if r = 0 then Ok (0, vol, d) else Ok (1, vol\<lparr>buffer_dirty := 0\<rparr>, d))
     else Ok (1, vol, d))"

definition fat_read :: "volume \<Rightarrow> u32 \<Rightarrow> dsys \<Rightarrow> (u8 \<times> volume \<times> dsys) result" where
  "fat_read vol lba d = (if buffer_lba vol \<noteq> lba
     then rbind (fat_flush vol d) (\<lambda>(r, vol, d). if r = 0 then Ok (0, vol, d) else
       rbind (disk_read d (vo_disk vol) (vo_buffer vol) lba 1) (\<lambda>(r, b, d). let vol = vol\<lparr>vo_buffer := b\<rparr> in
         if r = 0 then Ok (0, vol, d) else Ok (1, vol\<lparr>buffer_lba := lba\<rparr>, d)))
     else Ok (1, vol, d))"

definition fat_table_get :: "volume \<Rightarrow> u32 \<Rightarrow> dsys \<Rightarrow> (u32 option \<times> volume \<times> dsys) result" where
  "fat_table_get vol c d = rbind (fat_read vol (fat_lba vol + c div 128) d) (\<lambda>(r, vol, d). if r = 0 then Ok (None, vol, d) else
     rbind (get32 (vo_buffer vol) (4 * unat (c mod 128))) (\<lambda>n. Ok (Some n, vol, d)))"

definition fat_table_set :: "volume \<Rightarrow> u32 \<Rightarrow> u32 \<Rightarrow> dsys \<Rightarrow> (u8 \<times> volume \<times> dsys) result" where
  "fat_table_set vol c x d = rbind (fat_read vol (fat_lba vol + c div 128) d) (\<lambda>(r, vol, d). if r = 0 then Ok (0, vol, d) else
     rbind (set32 (vo_buffer vol) (4 * unat (c mod 128)) x) (\<lambda>b.
     rbind (fat_flush (vol\<lparr>vo_buffer := b, buffer_dirty := 1\<rparr>) d) (\<lambda>(_, vol, d). Ok (1, vol, d))))"

section \<open>The label\<close>

text \<open>\<open>struct dir_s\<close>: the pointer to the volume is an argument of its own, \<open>None\<close> for null.\<close>

record fdir =
  di_sector :: u32
  di_cluster :: u32
  di_rw :: u32

definition fat_dir_get_next :: "volume option \<Rightarrow> fdir \<Rightarrow> dsys \<Rightarrow> (u8 \<times> volume option \<times> fdir \<times> dsys) result" where
  "fat_dir_get_next vol dir d = (let rw = di_rw dir + 32 in case vol of None \<Rightarrow> Err Fault | Some v \<Rightarrow>
     if rw < ucast (sector_size v) then Ok (1, vol, dir\<lparr>di_rw := rw\<rparr>, d) else
     let dir = dir\<lparr>di_rw := rw - ucast (sector_size v), di_sector := di_sector dir + 1\<rparr> in
     if di_sector dir < fat_clust_to_sect v (di_cluster dir) + ucast (cluster_size v) then Ok (1, vol, dir, d) else
     rbind (fat_table_get v (di_cluster dir) d) (\<lambda>(c, v, d). case c of None \<Rightarrow> Ok (0, Some v, dir, d) | Some c \<Rightarrow>
       if 0xFFFFFF8 \<le> c AND 0xFFFFFFF then Ok (0, Some v, dir, d)
       else Ok (1, Some v, dir\<lparr>di_cluster := c, di_sector := fat_clust_to_sect v c\<rparr>, d)))"

abbreviation "FSTATUS_ERROR \<equiv> (1 :: u32)"

text \<open>The loop over the entries of the root directory. The pointer of \<open>dir\<close> to its volume is never set.\<close>

fun vol_label_loop :: "nat \<Rightarrow> volume \<Rightarrow> fdir \<Rightarrow> dsys \<Rightarrow> (u32 \<times> volume \<times> dsys) result" where
  "vol_label_loop 0 vol dir d = Err Diverge"
| "vol_label_loop (Suc k) vol dir d = rbind (fat_read vol (di_sector dir) d) (\<lambda>(r, vol, d). if r = 0 then Ok (FSTATUS_ERROR, vol, d) else
     rbind (rd (vo_buffer vol) (unat (di_rw dir) + 11)) (\<lambda>a. if a AND 8 \<noteq> 0 \<and> a AND 0xF \<noteq> 0xF
       then rbind (memcpy (vo_label vol) (drop (unat (di_rw dir)) (vo_buffer vol)) 11) (\<lambda>l. Ok (1, vol\<lparr>vo_label := l\<rparr>, d))
       else rbind (fat_dir_get_next None dir d) (\<lambda>(r, _, dir, d). if r = 0 then Ok (FSTATUS_ERROR, vol, d) else vol_label_loop k vol dir d)))"

definition fat_get_vol_label :: "volume \<Rightarrow> dsys \<Rightarrow> (u32 \<times> volume \<times> dsys) result" where
  "fat_get_vol_label vol d = rbind (fat_sect_to_clust vol (root_lba vol)) (\<lambda>c.
     vol_label_loop 1 vol \<lparr>di_sector = root_lba vol, di_cluster = c, di_rw = 0\<rparr> d)"

section \<open>Letters\<close>

definition free_letter :: "u32 \<Rightarrow> nat option" where
  "free_letter m = List.find (\<lambda>i. \<not> bit m i) [0..<32]"

definition fat_volume_add :: "volume \<Rightarrow> f32fs \<Rightarrow> u8 \<times> f32fs" where
  "fat_volume_add vol s = (case free_letter (volume_bitmask s) of None \<Rightarrow> (vo_letter vol, s\<lparr>volumes := volumes s @ [vol]\<rparr>)
     | Some i \<Rightarrow> (67 + of_nat i, s\<lparr>volumes := volumes s @ [vol\<lparr>vo_letter := 67 + of_nat i\<rparr>], volume_bitmask := set_bit i (volume_bitmask s)\<rparr>))"

fun without_volume :: "u8 \<Rightarrow> volume list \<Rightarrow> volume list option" where
  "without_volume l [] = None"
| "without_volume l (v # vs) = (if vo_letter v = l then Some vs else case without_volume l vs of None \<Rightarrow> None | Some ws \<Rightarrow> Some (v # ws))"

text \<open>A shift by more than 31 is undefined.\<close>

definition fat_volume_remove :: "u8 \<Rightarrow> f32fs \<Rightarrow> (u8 \<times> f32fs) result" where
  "fat_volume_remove l s = (case without_volume l (volumes s) of None \<Rightarrow> Ok (0, s)
     | Some vs \<Rightarrow> let i = unat (l - 67) in if 32 \<le> i then Err Fault
       else Ok (1, s\<lparr>volumes := vs, volume_bitmask := unset_bit i (volume_bitmask s)\<rparr>))"

definition volume_get :: "u8 \<Rightarrow> f32fs \<Rightarrow> volume option" where
  "volume_get l s = List.find (\<lambda>v. vo_letter v = l) (volumes s)"

definition unregstr_fat32_partition :: "u8 \<Rightarrow> f32fs \<Rightarrow> (u8 \<times> f32fs) result" where
  "unregstr_fat32_partition l s = (case volume_get l s of None \<Rightarrow> Ok (1, s)
     | Some _ \<Rightarrow> rbind (fat_volume_remove l s) (\<lambda>(r, s). Ok (if r = 0 then 0 else 1, s)))"

section \<open>Partitions\<close>

abbreviation "FAT \<equiv> [70, 65, 84 :: u8]"

text \<open>The number of sectors of the root directory: \<open>int\<close> arithmetic, which traps at 0.\<close>

definition root_sectors :: "u16 \<Rightarrow> u16 \<Rightarrow> u32 result" where
  "root_sectors entries sector = (let s = uint sector - 1 in if s = 0 then Err Fault else Ok (of_int ((uint entries * 32 + s) sdiv s)))"

definition data_clusters :: "u8 list \<Rightarrow> u32 result" where
  "data_clusters b = rbind (get16 b 17) (\<lambda>re. rbind (get16 b 11) (\<lambda>ss. rbind (root_sectors re ss) (\<lambda>roots.
     rbind (get16 b 22) (\<lambda>f16. rbind (if f16 \<noteq> 0 then Ok (ucast f16) else get32 b 36) (\<lambda>fat_size.
     rbind (get16 b 19) (\<lambda>t16. rbind (if t16 \<noteq> 0 then Ok (ucast t16) else get32 b 32) (\<lambda>tot_sect.
     rbind (get16 b 14) (\<lambda>rsvd. rbind (rd b 16) (\<lambda>fats. rbind (rd b 13) (\<lambda>cl.
     udiv (tot_sect - (ucast rsvd + ucast fats * fat_size + roots)) (ucast cl)))))))))))"

text \<open>The sector is not FAT when both strings are there.\<close>

definition fat_sector :: "u8 list \<Rightarrow> bool result" where
  "fat_sector b = rbind (get16 b 510) (\<lambda>sig. if sig \<noteq> 0xAA55 then Ok False else
     rbind (memcmp (drop 82 b) FAT 3) (\<lambda>a. rbind (if a = 0 then memcmp (drop 54 b) FAT 3 else Ok 1) (\<lambda>c. if c = 0 then Ok False else
     rbind (data_clusters b) (\<lambda>n. Ok (65525 \<le> n)))))"

definition fat_search :: "u8 list \<Rightarrow> u32 \<Rightarrow> (u8, f32fs) io" where
  "fat_search name lba e = rbind (disk_read (edisk e) name (fresh e 512) lba 1) (\<lambda>(r, b, d). let e = e\<lparr>edisk := d\<rparr> in
     if r = 0 then Ok (0, e) else rbind (fat_sector b) (\<lambda>ok. Ok (if ok then 1 else 0, e)))"

text \<open>A new volume: its structure is cleared, so the caches are empty and the letter is 0.\<close>

definition blank_volume :: volume where
  "blank_volume = \<lparr>vo_label = replicate 13 0, vo_letter = 0, sector_size = 0, cluster_size = 0, total_size = 0, fat_lba = 0, fsinfo_lba = 0,
     data_lba = 0, root_lba = 0, vo_buffer = replicate 512 0, buffer_lba = 0, vo_disk = replicate 32 0, buffer_dirty = 0\<rparr>"

definition volume_of :: "u8 list \<Rightarrow> u32 \<Rightarrow> u8 list \<Rightarrow> volume result" where
  "volume_of disk lba b = rbind (get16 b 11) (\<lambda>ss. rbind (rd b 13) (\<lambda>cl. rbind (get32 b 32) (\<lambda>tot. rbind (get16 b 48) (\<lambda>info.
     rbind (get16 b 14) (\<lambda>rsvd. rbind (get32 b 36) (\<lambda>fsz. rbind (rd b 16) (\<lambda>fats. rbind (get32 b 44) (\<lambda>root.
     rbind (strlen disk) (\<lambda>n. rbind (memcpy (vo_disk blank_volume) disk n) (\<lambda>dn.
     let vol = blank_volume\<lparr>sector_size := ss, cluster_size := cl, total_size := tot, fsinfo_lba := lba + ucast info,
       fat_lba := lba + ucast rsvd, data_lba := lba + ucast rsvd + fsz * ucast fats, vo_disk := dn\<rparr>
     in Ok (vol\<lparr>root_lba := fat_clust_to_sect vol root\<rparr>)))))))))))"

definition register_fat32_partition :: "u8 list \<Rightarrow> u32 \<Rightarrow> u8 list \<Rightarrow> (u8, f32fs) io" where
  "register_fat32_partition disk lba mountpoint e = rbind (disk_read (edisk e) disk (fresh e 512) lba 1) (\<lambda>(r, b, d).
     if r = 0 then Ok (0, e\<lparr>edisk := d\<rparr>) else rbind (volume_of disk lba b) (\<lambda>vol.
     rbind (fat_get_vol_label vol d) (\<lambda>(_, vol, d). let (l, s) = fat_volume_add vol (efs e) in Ok (l, e\<lparr>edisk := d, efs := s\<rparr>))))"

section \<open>The adapter\<close>

fun f32_free_slot :: "u8 list \<Rightarrow> nat \<Rightarrow> nat option" where
  "f32_free_slot [] i = None"
| "f32_free_slot (l # ls) i = (if l = 0 then Some i else f32_free_slot ls (i + 1))"

definition f32_compat_register_partition :: "u8 list \<Rightarrow> u32 \<Rightarrow> u8 list \<Rightarrow> (int, f32fs) io" where
  "f32_compat_register_partition path lba mountpoint e = (case f32_free_slot (f32_slots (efs e)) 0 of None \<Rightarrow> Ok (- 1, e)
     | Some i \<Rightarrow> rbind (register_fat32_partition path lba mountpoint e) (\<lambda>(l, e).
         Ok (int i, e\<lparr>efs := (efs e)\<lparr>f32_slots := (f32_slots (efs e))[i := l]\<rparr>\<rparr>)))"

definition f32_compat_unregister_partition :: "int \<Rightarrow> (u8, f32fs) io" where
  "f32_compat_unregister_partition p e = (if p < 0 \<or> 32 \<le> p then Ok (1, e) else
     rbind (rd (f32_slots (efs e)) (nat p)) (\<lambda>l. if l = 0 then Ok (1, e) else
     rbind (unregstr_fat32_partition l (efs e)) (\<lambda>(_, s). Ok (0, e\<lparr>efs := s\<lparr>f32_slots := (f32_slots s)[nat p := 0]\<rparr>\<rparr>))))"

definition f32_compat_detect :: "u8 list \<Rightarrow> u32 \<Rightarrow> (u8, f32fs) io" where
  "f32_compat_detect = fat_search"

definition f32_compat_flush :: "int \<Rightarrow> int" where "f32_compat_flush p = 0"
definition f32_compat_file_open :: "int \<Rightarrow> u8 list \<Rightarrow> u32 \<Rightarrow> u32 \<Rightarrow> (int, f32fs) io" where
  "f32_compat_file_open partno path flags mode e = Ok (- 1, e)"
definition f32_compat_file_close :: "int \<Rightarrow> int \<Rightarrow> (int, f32fs) io" where "f32_compat_file_close partno fd e = Ok (- 1, e)"
definition f32_compat_file_creat :: "int \<Rightarrow> u8 list \<Rightarrow> u32 \<Rightarrow> (int, f32fs) io" where "f32_compat_file_creat partno path mode e = Ok (- 1, e)"
definition f32_compat_file_read :: "int \<Rightarrow> int \<Rightarrow> u8 list \<Rightarrow> u64 \<Rightarrow> (u64 \<times> u8 list, f32fs) io" where
  "f32_compat_file_read partno fd buffer n e = Ok ((1, buffer), e)"
definition f32_compat_file_write :: "int \<Rightarrow> int \<Rightarrow> u8 list \<Rightarrow> u64 \<Rightarrow> (u64, f32fs) io" where
  "f32_compat_file_write partno fd buffer n e = Ok (1, e)"
definition f32_compat_file_seek :: "int \<Rightarrow> int \<Rightarrow> u64 \<Rightarrow> int \<Rightarrow> (u64, f32fs) io" where "f32_compat_file_seek partno fd off whence e = Ok (1, e)"
definition f32_compat_file_tell :: "int \<Rightarrow> int \<Rightarrow> (u64, f32fs) io" where "f32_compat_file_tell partno fd e = Ok (1, e)"
definition f32_compat_stat :: "int \<Rightarrow> int \<Rightarrow> int" where "f32_compat_stat partno fd = - 1"
definition f32_compat_dir_open :: "int \<Rightarrow> u8 list \<Rightarrow> (int, f32fs) io" where "f32_compat_dir_open partno path e = Ok (- 1, e)"
definition f32_compat_dir_close :: "int \<Rightarrow> int \<Rightarrow> (int, f32fs) io" where "f32_compat_dir_close partno dir e = Ok (- 1, e)"
definition f32_compat_dir_load :: "int \<Rightarrow> int \<Rightarrow> (int, f32fs) io" where "f32_compat_dir_load partno dir e = Ok (- 1, e)"
definition f32_compat_dir_read :: "int \<Rightarrow> int \<Rightarrow> u8 list \<Rightarrow> u32 \<Rightarrow> u32 \<Rightarrow> (int \<times> u8 list \<times> u32 \<times> u32, f32fs) io" where
  "f32_compat_dir_read partno dir path len type e = Ok ((- 1, path, len, type), e)"
definition f32_compat_dir_creat :: "int \<Rightarrow> u8 list \<Rightarrow> u32 \<Rightarrow> (int, f32fs) io" where "f32_compat_dir_creat partno path mode e = Ok (- 1, e)"
definition f32_compat_rename :: "int \<Rightarrow> u8 list \<Rightarrow> u8 list \<Rightarrow> int" where "f32_compat_rename partno path newpath = - 1"
definition f32_compat_remove :: "int \<Rightarrow> u8 list \<Rightarrow> (int, f32fs) io" where "f32_compat_remove partno path e = Ok (- 1, e)"
definition f32_compat_chmod :: "int \<Rightarrow> u8 list \<Rightarrow> u32 \<Rightarrow> int" where "f32_compat_chmod partno path mode = - 1"

text \<open>The table names no \<open>file_flush\<close> and no \<open>prepare_remove\<close>.\<close>

definition f32_ops :: "f32fs fs_ops" where
  "f32_ops = \<lparr>op_register_partition = Some f32_compat_register_partition, op_detect = Some f32_compat_detect, op_file_flush = None,
     op_file_open = Some f32_compat_file_open, op_file_close = Some f32_compat_file_close, op_file_creat = Some f32_compat_file_creat,
     op_file_read = Some f32_compat_file_read, op_file_write = Some f32_compat_file_write, op_file_seek = Some f32_compat_file_seek,
     op_file_tell = Some f32_compat_file_tell, op_dir_open = Some f32_compat_dir_open, op_dir_close = Some f32_compat_dir_close,
     op_dir_load = Some f32_compat_dir_load, op_dir_read = Some f32_compat_dir_read, op_dir_creat = Some f32_compat_dir_creat,
     op_prepare_remove = None, op_remove = Some f32_compat_remove\<rparr>"

definition fat32_register :: "f32fs fstype" where
  "fat32_register = \<lparr>ft_name = [70, 65, 84, 51, 50, 0] @ replicate 26 0, ft_majors = [8, 9, 10, 11, 12] @ replicate 251 0,
     ft_major_no = 5, ft_ops = f32_ops\<rparr>"

text \<open>No path of a FAT32 partition can be opened.\<close>

interpretation fat32_files: root_only_fs f32_ops "\<lambda>_. True"
  by unfold_locales (simp add: f32_ops_def f32_compat_file_open_def)

section \<open>The letters are in order\<close>

definition letters_of :: "u32 \<Rightarrow> u8 set" where
  "letters_of m = {67 + of_nat i | i. i < 32 \<and> bit m i}"

text \<open>The volumes have different letters, those of the bits that are set, and the adapter's table holds each of them once.\<close>

definition fat_ok :: "f32fs \<Rightarrow> bool" where
  "fat_ok s \<longleftrightarrow> distinct (map vo_letter (volumes s)) \<and> vo_letter ` set (volumes s) = letters_of (volume_bitmask s)
     \<and> length (f32_slots s) = 32 \<and> distinct (filter (\<lambda>l. l \<noteq> 0) (f32_slots s)) \<and> set (f32_slots s) - {0} = letters_of (volume_bitmask s)"

lemma letter_inj: "i < 32 \<Longrightarrow> j < 32 \<Longrightarrow> (67 + of_nat i :: u8) = 67 + of_nat j \<longleftrightarrow> i = j"
proof -
  assume "i < 32" "j < 32"
  then have "unat (of_nat i :: u8) = i" "unat (of_nat j :: u8) = j" by (simp_all add: unsigned_of_nat take_bit_nat_eq_self)
  then show ?thesis by (metis add_left_cancel)
qed

lemma letter_value: "i < 32 \<Longrightarrow> unat (67 + of_nat i :: u8) = 67 + i"
proof -
  assume i: "i < 32"
  have "(67 + of_nat i :: u8) = of_nat (67 + i)" by simp
  with i show ?thesis by (simp only: unsigned_of_nat) (simp add: take_bit_nat_eq_self)
qed

lemma letter_nonzero: "0 \<notin> letters_of m"
proof
  assume "0 \<in> letters_of m"
  then obtain i where i: "i < 32" "(67 + of_nat i :: u8) = 0" by (auto simp: letters_of_def)
  with letter_value [OF i(1)] show False by simp
qed

lemma in_letters_of: "i < 32 \<Longrightarrow> 67 + of_nat i \<in> letters_of m \<longleftrightarrow> bit m i"
  using letter_inj by (auto simp: letters_of_def)

lemma letters_set: "i < 32 \<Longrightarrow> letters_of (set_bit i m) = insert (67 + of_nat i) (letters_of m)"
  by (auto simp: letters_of_def bit_simps)

lemma letters_unset: "i < 32 \<Longrightarrow> letters_of (unset_bit i m) = letters_of m - {67 + of_nat i}"
  using letter_inj by (auto simp: letters_of_def bit_simps)

lemma letters_card: "finite (letters_of m) \<and> card (letters_of m) = card {i. i < 32 \<and> bit m i}"
proof -
  have e: "letters_of m = (\<lambda>i. 67 + of_nat i) ` {i. i < 32 \<and> bit m i}" by (auto simp: letters_of_def)
  have "inj_on (\<lambda>i. 67 + of_nat i :: u8) {i. i < 32 \<and> bit m i}" using letter_inj by (auto simp: inj_on_def)
  then show ?thesis unfolding e by (simp add: card_image)
qed

lemma free_letter_Some: "free_letter m = Some i \<Longrightarrow> i < 32 \<and> \<not> bit m i"
  by (auto simp: free_letter_def find_Some_iff)

lemma free_letter_None: "free_letter m = None \<Longrightarrow> card (letters_of m) = 32"
proof -
  assume "free_letter m = None"
  then have "{i. i < 32 \<and> bit m i} = {..<32}" by (auto simp: free_letter_def find_None_iff)
  then show ?thesis using letters_card [of m] by simp
qed

lemma free_slot_Some: "f32_free_slot ls k = Some i \<Longrightarrow> k \<le> i \<and> i - k < length ls \<and> ls ! (i - k) = 0"
proof (induction ls arbitrary: k)
  case (Cons l ls)
  show ?case
  proof (cases "l = 0")
    case False
    with Cons.IH [of "k + 1"] Cons.prems have "k + 1 \<le> i" "i - (k + 1) < length ls" "ls ! (i - (k + 1)) = 0" by auto
    moreover have "i - k = Suc (i - (k + 1))" using \<open>k + 1 \<le> i\<close> by simp
    ultimately show ?thesis by simp
  qed (use Cons.prems in auto)
qed simp

text \<open>While a slot of the table is free there is a free letter.\<close>

lemma letter_left:
  assumes "fat_ok s" and "i < 32" and "f32_slots s ! i = 0"
  shows "free_letter (volume_bitmask s) \<noteq> None"
proof
  assume "free_letter (volume_bitmask s) = None"
  from free_letter_None [OF this] have c: "card (set (f32_slots s) - {0}) = 32" using assms(1) by (simp add: fat_ok_def)
  let ?f = "filter (\<lambda>l. l \<noteq> 0) (f32_slots s)"
  have "set ?f = set (f32_slots s) - {0}" by auto
  with c distinct_card [of ?f] assms(1) have "length ?f = 32" by (simp add: fat_ok_def)
  moreover have "length ?f < length (f32_slots s)" using assms(1-3) nth_mem [of i "f32_slots s"] by (intro length_filter_less [of 0]) (auto simp: fat_ok_def)
  ultimately show False using assms(1) by (simp add: fat_ok_def)
qed

lemma slots_filled:
  assumes "i < length ls" and "ls ! i = 0" and "l \<noteq> 0" and "l \<notin> set ls" and "distinct (filter (\<lambda>l. l \<noteq> 0) ls)"
  shows "distinct (filter (\<lambda>l. l \<noteq> 0) (ls[i := l])) \<and> set (ls[i := l]) - {0} = insert l (set ls - {0})"
proof -
  have s: "ls = take i ls @ 0 # drop (Suc i) ls" using assms(1,2) id_take_nth_drop [of i ls] by simp
  have u: "ls[i := l] = take i ls @ l # drop (Suc i) ls" using assms(1) by (simp add: upd_conv_take_nth_drop)
  have m: "l \<notin> set (take i ls)" "l \<notin> set (drop (Suc i) ls)" using assms(4) by (auto dest: in_set_takeD in_set_dropD)
  have d: "distinct (filter (\<lambda>l. l \<noteq> 0) (take i ls) @ filter (\<lambda>l. l \<noteq> 0) (drop (Suc i) ls))"
    using assms(5) arg_cong [OF s, of "filter (\<lambda>l. l \<noteq> 0)"] by simp
  have e: "set ls = set (take i ls) \<union> {0} \<union> set (drop (Suc i) ls)" using arg_cong [OF s, of set] by auto
  show ?thesis unfolding u using assms(3) m d e by auto
qed

lemma slots_emptied:
  assumes "i < length ls" and "ls ! i \<noteq> 0" and "distinct (filter (\<lambda>l. l \<noteq> 0) ls)"
  shows "distinct (filter (\<lambda>l. l \<noteq> 0) (ls[i := 0])) \<and> set (ls[i := 0]) - {0} = set ls - {0} - {ls ! i}"
proof -
  have s: "ls = take i ls @ ls ! i # drop (Suc i) ls" using assms(1) by (rule id_take_nth_drop)
  have u: "ls[i := 0] = take i ls @ 0 # drop (Suc i) ls" using assms(1) by (simp add: upd_conv_take_nth_drop)
  have d: "distinct (filter (\<lambda>l. l \<noteq> 0) (take i ls) @ ls ! i # filter (\<lambda>l. l \<noteq> 0) (drop (Suc i) ls))"
    using assms(2,3) arg_cong [OF s, of "filter (\<lambda>l. l \<noteq> 0)"] by simp
  have e: "set ls = set (take i ls) \<union> {ls ! i} \<union> set (drop (Suc i) ls)" using arg_cong [OF s, of set] by auto
  show ?thesis unfolding u using assms(2) d e by auto
qed

lemma without_volume_Some:
  "without_volume l vs = Some ws \<Longrightarrow> distinct (map vo_letter vs) \<Longrightarrow>
    distinct (map vo_letter ws) \<and> vo_letter ` set ws = vo_letter ` set vs - {l} \<and> l \<in> vo_letter ` set vs"
proof (induction vs arbitrary: ws)
  case (Cons v vs)
  show ?case
  proof (cases "vo_letter v = l")
    case True
    with Cons.prems show ?thesis by auto
  next
    case False
    with Cons.prems obtain us where u: "without_volume l vs = Some us" "ws = v # us" by (auto split: option.splits)
    with Cons.IH [OF u(1)] Cons.prems(2) False show ?thesis by auto
  qed
qed simp

lemma without_volume_None: "without_volume l vs = None \<longleftrightarrow> l \<notin> vo_letter ` set vs"
  by (induction vs) (auto split: option.splits)

lemma fat_flush_letter: "fat_flush vol d = Ok (r, vol', d') \<Longrightarrow> vo_letter vol' = vo_letter vol"
  by (auto simp: fat_flush_def rbind_eq_Ok split: if_splits)

lemma fat_read_letter: "fat_read vol a d = Ok (r, vol', d') \<Longrightarrow> vo_letter vol' = vo_letter vol"
  unfolding fat_read_def by (auto simp: rbind_eq_Ok Let_def split: if_splits dest: fat_flush_letter)

text \<open>The loop ends in its first round: it finds the label, a sector cannot be read, or it faults.\<close>

lemma vol_label_letter: "vol_label_loop (Suc k) vol dir d = Ok (r, vol', d') \<Longrightarrow> vo_letter vol' = vo_letter vol"
  by (auto simp: rbind_eq_Ok fat_dir_get_next_def split: if_splits dest: fat_read_letter)

lemma label_letter: "fat_get_vol_label vol d = Ok (r, vol', d') \<Longrightarrow> vo_letter vol' = vo_letter vol"
  unfolding fat_get_vol_label_def One_nat_def using vol_label_letter by (auto simp: rbind_eq_Ok simp del: vol_label_loop.simps)

lemma volume_of_letter: "volume_of disk lba b = Ok vol \<Longrightarrow> vo_letter vol = 0"
  unfolding volume_of_def Let_def by (elim rbind_eq_OkE) (auto simp: blank_volume_def)

lemma register_volume:
  assumes "register_fat32_partition disk lba mp e = Ok (l, e1)"
  shows "(l = 0 \<and> efs e1 = efs e) \<or> (\<exists>vol. vo_letter vol = 0 \<and> fat_volume_add vol (efs e) = (l, efs e1))"
  using assms unfolding register_fat32_partition_def
  by (auto split: if_splits prod.splits dest!: label_letter volume_of_letter)

lemma register_keeps:
  assumes "fat_ok (efs e)" and "f32_compat_register_partition path lba mp e = Ok (r, e')"
  shows "fat_ok (efs e')"
proof (cases "f32_free_slot (f32_slots (efs e)) 0")
  case None
  with assms show ?thesis by (simp add: f32_compat_register_partition_def)
next
  case (Some i)
  obtain l e1 where r: "register_fat32_partition path lba mp e = Ok (l, e1)" "efs e' = (efs e1)\<lparr>f32_slots := (f32_slots (efs e1))[i := l]\<rparr>"
    using assms(2) Some by (auto simp: f32_compat_register_partition_def)
  have i: "i < 32" "f32_slots (efs e) ! i = 0" using free_slot_Some [OF Some] assms(1) by (simp_all add: fat_ok_def)
  from register_volume [OF r(1)] show ?thesis
  proof (elim disjE exE conjE)
    assume "l = 0" "efs e1 = efs e"
    moreover have "(f32_slots (efs e))[i := 0] = f32_slots (efs e)" using i(2) by (metis list_update_id)
    ultimately show ?thesis using assms(1) r(2) by simp
  next
    fix vol assume v: "vo_letter vol = 0" "fat_volume_add vol (efs e) = (l, efs e1)"
    obtain n where n: "free_letter (volume_bitmask (efs e)) = Some n" using letter_left [OF assms(1) i] by blast
    note f = free_letter_Some [OF n]
    have l: "l = 67 + of_nat n" "efs e1 = (efs e)\<lparr>volumes := volumes (efs e) @ [vol\<lparr>vo_letter := l\<rparr>], volume_bitmask := set_bit n (volume_bitmask (efs e))\<rparr>"
      using v(2) n by (auto simp: fat_volume_add_def)
    let ?L = "letters_of (volume_bitmask (efs e))"
    have new: "l \<notin> ?L" "l \<noteq> 0" using f in_letters_of [of n "volume_bitmask (efs e)"] letter_value [of n] l(1) by auto
    have "l \<notin> set (f32_slots (efs e))" using new assms(1) by (auto simp: fat_ok_def)
    with slots_filled [of i "f32_slots (efs e)" l] i new assms(1) show ?thesis
      using letters_set [of n "volume_bitmask (efs e)"] f l by (auto simp: fat_ok_def r(2))
  qed
qed

lemma unregister_keeps:
  assumes "fat_ok (efs e)" and "f32_compat_unregister_partition p e = Ok (r, e')"
  shows "fat_ok (efs e')"
proof (cases "p < 0 \<or> 32 \<le> p \<or> f32_slots (efs e) ! nat p = 0")
  case True
  with assms show ?thesis by (auto simp: f32_compat_unregister_partition_def rd_def split: if_splits)
next
  case False
  let ?s = "efs e" and ?i = "nat p" and ?L = "letters_of (volume_bitmask (efs e))"
  let ?l = "f32_slots ?s ! ?i"
  have i: "?i < length (f32_slots ?s)" "?l \<noteq> 0" using False assms(1) by (auto simp: fat_ok_def)
  then have "?l \<in> ?L" using assms(1) nth_mem [OF i(1)] by (auto simp: fat_ok_def)
  then obtain n where n: "n < 32" "?l = 67 + of_nat n" by (auto simp: letters_of_def)
  have mem: "?l \<in> vo_letter ` set (volumes ?s)" using \<open>?l \<in> ?L\<close> assms(1) by (simp add: fat_ok_def)
  then obtain vs where vs: "without_volume ?l (volumes ?s) = Some vs" using without_volume_None by fastforce
  have "unat (?l - 67) = n" using n by (simp add: unsigned_of_nat take_bit_nat_eq_self)
  then have rm: "fat_volume_remove ?l ?s = Ok (1, ?s\<lparr>volumes := vs, volume_bitmask := unset_bit n (volume_bitmask ?s)\<rparr>)"
    using vs n(1) by (simp add: fat_volume_remove_def)
  obtain v where "volume_get ?l ?s = Some v" using mem by (cases "volume_get ?l ?s") (auto simp: volume_get_def find_None_iff)
  with rm False i assms(2) have e': "efs e' = ?s\<lparr>volumes := vs, volume_bitmask := unset_bit n (volume_bitmask ?s), f32_slots := (f32_slots ?s)[?i := 0]\<rparr>"
    by (auto simp: f32_compat_unregister_partition_def unregstr_fat32_partition_def rd_def)
  have d: "distinct (map vo_letter (volumes ?s))" using assms(1) by (simp add: fat_ok_def)
  have f: "distinct (filter (\<lambda>l. l \<noteq> 0) (f32_slots ?s))" using assms(1) by (simp add: fat_ok_def)
  show ?thesis unfolding e'
    using without_volume_Some [OF vs d] slots_emptied [OF i f] letters_unset [OF n(1), of "volume_bitmask ?s"] n(2) assms(1)
    by (simp add: fat_ok_def)
qed

definition no_volumes :: f32fs where
  "no_volumes = \<lparr>volumes = [], volume_bitmask = 0, f32_slots = replicate 32 0\<rparr>"

text \<open>What happens to the driver's state: partitions are registered and unregistered, and between that the rest of the kernel works on
  disks and descriptors.\<close>

inductive f32_run :: "f32fs fsenv \<Rightarrow> bool" where
  start: "efs e = no_volumes \<Longrightarrow> f32_run e"
| other: "f32_run e \<Longrightarrow> efs e' = efs e \<Longrightarrow> f32_run e'"
| register: "f32_run e \<Longrightarrow> f32_compat_register_partition path lba mp e = Ok (r, e') \<Longrightarrow> f32_run e'"
| unregister: "f32_run e \<Longrightarrow> f32_compat_unregister_partition p e = Ok (s, e') \<Longrightarrow> f32_run e'"

lemma no_volumes_ok: "fat_ok no_volumes"
  by (simp add: fat_ok_def no_volumes_def letters_of_def)

text \<open>C28: Whatever partitions are registered and unregistered, on whatever disks, and whether it works or not: the volumes keep
  different letters, the bits set are those of the letters given, and the adapter's table names every volume once.\<close>

theorem fat_volumes_ok: "f32_run e \<Longrightarrow> fat_ok (efs e)"
  by (induction rule: f32_run.induct) (auto simp: no_volumes_ok intro: register_keeps unregister_keeps)

section \<open>Where the driver fails\<close>

text \<open>A partition that cannot be read is registered all the same: the adapter returns the index of a slot that stays free.\<close>

theorem failed_register_succeeds:
  assumes "f32_free_slot (f32_slots (efs e)) 0 = Some i" and "disk_read (edisk e) disk (fresh e 512) lba 1 = Ok (0, b, d)"
  shows "f32_compat_register_partition disk lba mp e = Ok (int i, e\<lparr>edisk := d\<rparr>)"
proof -
  have "f32_slots (efs e) ! i = 0" using free_slot_Some [OF assms(1)] by simp
  then have "(efs e)\<lparr>f32_slots := (f32_slots (efs e))[i := 0]\<rparr> = efs e" by (metis list_update_id f32fs.surjective f32fs.update_convs(3))
  with assms show ?thesis by (simp add: f32_compat_register_partition_def register_fat32_partition_def)
qed

text \<open>A volume whose root directory does not begin with its label cannot be registered: the search for the label goes on through a
  null pointer.\<close>

theorem unlabelled_faults:
  assumes "disk_read (edisk e) disk (fresh e 512) lba 1 = Ok (r, b, d)" and "r \<noteq> 0" and "volume_of disk lba b = Ok vol"
    and "cluster_size vol \<noteq> 0" and "fat_read vol (root_lba vol) d = Ok (s, vol1, d1)" and "s \<noteq> 0" and "length (vo_buffer vol1) = 512"
    and "vo_buffer vol1 ! 11 AND 8 = 0 \<or> vo_buffer vol1 ! 11 AND 0xF = 0xF"
  shows "register_fat32_partition disk lba mp e = Err Fault"
proof -
  have z: "(ucast (cluster_size vol) :: u32) \<noteq> 0" 
  proof
    assume "(ucast (cluster_size vol) :: u32) = 0"
    moreover have "unat (ucast (cluster_size vol) :: u32) = unat (cluster_size vol)"
      using unsigned_less [of "cluster_size vol", where 'a = nat] by (simp add: unsigned_ucast_eq take_bit_nat_eq_self)
    ultimately show False using assms(4) by (simp add: unsigned_eq_0_iff)
  qed
  show ?thesis
    using assms(1-3,5-8) z
    by (auto simp: register_fat32_partition_def fat_get_vol_label_def fat_sect_to_clust_def udiv_def rd_def fat_dir_get_next_def)
qed

text \<open>The test for the name of the file system is the wrong way round: a sector is refused when \<open>FAT\<close> is at both places, and any other
  sector with a signature is accepted if it counts enough clusters.\<close>

theorem fat_test_inverted:
  assumes "get16 b 510 = Ok 0xAA55" and "memcmp (drop 82 b) FAT 3 = Ok x" and "memcmp (drop 54 b) FAT 3 = Ok y"
  shows "fat_sector b = (if x = 0 \<and> y = 0 then Ok False else rbind (data_clusters b) (\<lambda>n. Ok (65525 \<le> n)))"
  using assms by (simp add: fat_sector_def)

text \<open>Removing a path of a FAT32 partition calls through a null pointer.\<close>

theorem fat32_remove_faults:
  assumes "terminated path" and "length (normalized (cstr path)) \<le> 65535" and "belongs v (normalized (cstr path)) m rest"
    and "type_of m v = Ok f32_ops"
  shows "vfs_remove path force v = Err Fault"
proof -
  obtain q where q: "vfs_normalize_path path = Ok q" "cstr q = normalized (cstr path)" "terminated q"
    using normalize_eq [OF assms(1)] by blast
  have "at_path q dflt f v = Err Fault" if "\<And>i n e. f f32_ops i n e = Err Fault" for dflt :: int and f
    using at_path_belongs [of v q m rest f32_ops dflt f] assms(2-4) q(2,3) that by auto
  moreover have "op_prepare_remove f32_ops = None" by (simp add: f32_ops_def)
  ultimately show ?thesis unfolding vfs_remove_def q(1) rbind_Ok by simp
qed

section \<open>A small volume\<close>

text \<open>Partition 5 of the disk \<open>hda\<close>: one sector before one table of one sector, then the root directory, which begins with a label.\<close>

definition bpb_example :: "u8 list" where
  "bpb_example = [0, 0, 0, 0, 0, 0, 0, 0, 0, 0, 0, 0, 2, 1, 1, 0, 1, 0, 0, 0, 0, 0, 0, 0, 0, 0, 0, 0, 0, 0, 0, 0, 0, 0, 1, 0,
     1, 0, 0, 0, 0, 0, 0, 0, 2, 0, 0, 0, 1, 0] @ replicate 462 0"

definition root_sector :: "u8 list" where
  "root_sector = [68, 65, 84, 65, 32, 32, 32, 32, 32, 32, 32, 8] @ replicate 500 0"

definition f32_disk :: dsys where
  "f32_disk = dsys_example\<lparr>dports := (\<lambda>p. drive_example\<lparr>dr_sector := (\<lambda>a. if a = 5 then bpb_example else if a = 7 then root_sector else replicate 512 0)\<rparr>)\<rparr>"

definition f32_env :: "f32fs fsenv" where
  "f32_env = \<lparr>etab = empty_fdtab, edisk = f32_disk, efs = no_volumes, ejunk = (\<lambda>_. 0)\<rparr>"

lemma f32_disk_ok: "drive_ok (dports f32_disk p)"
  by (simp add: drive_ok_def f32_disk_def drive_example_def bpb_example_def root_sector_def)

lemma f32_disk_on: "on_drive f32_disk [104, 100, 97, 0] 0" "on_drive f32_disk ([104, 100, 97] @ replicate 29 0) 0"
proof -
  show "on_drive f32_disk [104, 100, 97, 0] 0" using dsys_example_on by (simp add: f32_disk_def)
  have "strlen ([104, 100, 97] @ 0 # replicate 28 0) = Ok 3" by (simp add: strlen_def STR_MAX_SIZE_def)
  then have "strlen ([104, 100, 97] @ replicate 29 0) = Ok 3" by (simp add: replicate_Suc [symmetric])
  then show "on_drive f32_disk ([104, 100, 97] @ replicate 29 0) 0"
    by (simp add: f32_disk_def on_drive_def device_search_def name_matches_def dsys_example_def blank_device_def driver_of_def numeral_3_eq_3)
qed

lemma read_one_sector:
  assumes "on_drive s name p" and "drive_ok (dports s p)" and "length buf = 512"
  shows "disk_read s name buf lba 1 = Ok (1, dr_sector (dports s p) (ucast lba), s)"
proof -
  obtain d dd where d: "device_search (dtab s) name = Ok (Some d)" "driver_of (dtab s) d = Ok dd" "registered dd \<noteq> 0"
    "fops dd = Some ata_fops" "ucast (dv_id d) = p" using on_driveE [OF assms(1)] by blast
  show ?thesis
    using dd_read_loop_ok [OF assms(2), of 0 1 buf "ucast lba"] assms(3) d
    by (simp add: disk_read_def device_read_def ata_fops_def dd_disk_read_def size_to_blocks_def)
qed

definition volume_example :: volume where
  "volume_example = blank_volume\<lparr>sector_size := 512, cluster_size := 1, total_size := 65536, fsinfo_lba := 6, fat_lba := 6, data_lba := 7, root_lba := 7,
     vo_disk := [104, 100, 97] @ replicate 29 0\<rparr>"

lemma volume_of_example: "volume_of [104, 100, 97, 0] 5 bpb_example = Ok volume_example"
proof -
  have g: "get16 bpb_example 11 = Ok 512" "get32 bpb_example 32 = Ok 65536" "get16 bpb_example 48 = Ok 1" "get16 bpb_example 14 = Ok 1"
    "get32 bpb_example 36 = Ok 1" "get32 bpb_example 44 = Ok 2"
    by (simp_all add: bpb_example_def get16_def get32_def load16_def load32_def rd_def int_shl_def)
  have r: "rd bpb_example 13 = Ok 1" "rd bpb_example 16 = Ok 1" by (simp_all add: bpb_example_def rd_def)
  have n: "strlen [104, 100, 97, 0] = Ok 3" by (simp add: strlen_def STR_MAX_SIZE_def)
  have m: "memcpy (replicate 32 0) [104, 100, 97, 0] 3 = Ok ([104, 100, 97] @ replicate 29 0)"
    by (simp add: memcpy_def eval_nat_numeral)
  show ?thesis unfolding volume_of_def g r n rbind_Ok
    by (simp add: blank_volume_def m volume_example_def fat_clust_to_sect_def)
qed

theorem fat_volumes_ok_witness:
  "\<exists>e. f32_compat_register_partition [104, 100, 97, 0] 5 [] f32_env = Ok (0, e) \<and> fat_ok (efs e) \<and>
    map vo_letter (volumes (efs e)) = [67] \<and> map (take 4 \<circ> vo_label) (volumes (efs e)) = [[68, 65, 84, 65]]"
proof -
  have len: "length (fresh f32_env 512) = 512" by (simp add: fresh_def)
  have d: "edisk f32_env = f32_disk" by (simp add: f32_env_def)
  have sec: "dr_sector (dports f32_disk 0) 5 = bpb_example" "dr_sector (dports f32_disk 0) 7 = root_sector" by (simp_all add: f32_disk_def)
  have b: "disk_read (edisk f32_env) [104, 100, 97, 0] (fresh f32_env 512) 5 1 = Ok (1, bpb_example, f32_disk)"
    unfolding d using read_one_sector [OF f32_disk_on(1) f32_disk_ok len, of 5] sec(1) by simp
  have buf: "length (vo_buffer volume_example) = 512" "vo_disk volume_example = [104, 100, 97] @ replicate 29 0"
    by (simp_all add: volume_example_def blank_volume_def)
  have "disk_read f32_disk (vo_disk volume_example) (vo_buffer volume_example) 7 1 = Ok (1, root_sector, f32_disk)"
    unfolding buf(2) using read_one_sector [OF f32_disk_on(2) f32_disk_ok buf(1), of 7] sec(2) by simp
  then have r: "fat_read volume_example 7 f32_disk = Ok (1, volume_example\<lparr>vo_buffer := root_sector, buffer_lba := 7\<rparr>, f32_disk)"
    by (simp add: fat_read_def fat_flush_def volume_example_def blank_volume_def)
  have a: "rd root_sector 11 = Ok 8" by (simp add: root_sector_def rd_def)
  have m: "memcpy (replicate 13 0) root_sector 11 = Ok (take 11 root_sector @ [0, 0])"
    by (simp add: root_sector_def memcpy_def eval_nat_numeral)
  have "root_lba volume_example = 7" "fat_sect_to_clust volume_example 7 = Ok 2" "vo_label volume_example = replicate 13 0"
    by (simp_all add: volume_example_def blank_volume_def fat_sect_to_clust_def udiv_def)
  then obtain vol where v: "fat_get_vol_label volume_example f32_disk = Ok (1, vol, f32_disk)" "vo_label vol = take 11 root_sector @ [0, 0]"
    using r a m by (simp add: fat_get_vol_label_def)
  let ?e = "f32_env\<lparr>efs := \<lparr>volumes = [vol\<lparr>vo_letter := 67\<rparr>], volume_bitmask = 1, f32_slots = 67 # replicate 31 0\<rparr>\<rparr>"
  have f: "free_letter 0 = Some 0" by (simp add: free_letter_def upt_rec)
  have slots: "f32_slots (efs f32_env) = 0 # replicate 31 0" by (simp add: f32_env_def no_volumes_def eval_nat_numeral)
  have add: "fat_volume_add vol (efs f32_env) = (67, (efs f32_env)\<lparr>volumes := [vol\<lparr>vo_letter := 67\<rparr>], volume_bitmask := 1\<rparr>)"
    using f by (simp add: fat_volume_add_def f32_env_def no_volumes_def set_bit_eq)
  have "register_fat32_partition [104, 100, 97, 0] 5 [] f32_env =
      Ok (67, f32_env\<lparr>efs := (efs f32_env)\<lparr>volumes := [vol\<lparr>vo_letter := 67\<rparr>], volume_bitmask := 1\<rparr>\<rparr>)"
    unfolding register_fat32_partition_def b using v(1) add d by (simp add: volume_of_example)
  with slots have reg: "f32_compat_register_partition [104, 100, 97, 0] 5 [] f32_env = Ok (0, ?e)"
    by (simp add: f32_compat_register_partition_def f32_env_def no_volumes_def)
  have "f32_run f32_env" by (rule f32_run.start) (simp add: f32_env_def)
  from fat_volumes_ok [OF f32_run.register [OF this reg]] reg v(2) show ?thesis by (simp add: root_sector_def)
qed

end
