(* ===== verification/Spec2Isabelle.thy ===== *)
theory Spec2Isabelle
  imports Heap Fifo Tty Serial Ext2Props VfsMounts GenericExt2 GenericDevices InterruptService Ahci Loader Cpus Acpi Calendar Comm ErrorLog ShellFiles Fat32
begin

text \<open>A model of the kernel UNED24, a 64-bit kernel in C (\<open>src/kernel/src\<close>), and the theorems that say what its parts do.

  \<^bold>\<open>The program.\<close> The kernel boots from a map of memory, hands out physical pages, keeps four-level page tables and a heap,
  finds its devices through the tables of the firmware and the PCI bus, drives serial ports, a keyboard, a timer and
  disks, gives them to the rest as devices in one table, puts terminals with a line discipline on top of the serial
  ports, schedules tasks and serves their system calls, reads partition tables, mounts EXT2 (and, in name, FAT32)
  file systems under one tree, loads ELF programs from it, and has a shell on a terminal. State flows upwards: the disk
  driver reads sectors through the AHCI driver, the file systems read blocks through the device table, the virtual file
  system calls the file systems through tables of functions, and programs and the shell call the virtual file system
  with paths and descriptors. Interrupts drive the keyboard, the timer and through it the scheduler.

  \<^bold>\<open>Theories.\<close> Each one models the files named, function by function, under the names of the source; a structure is a
  record with the fields of the source, an operation a function from the state to a result and the next state.
  \<^item> \<open>Prelude\<close>: words, the result type with its errors, guarded access to lists. \<open>Bytes\<close>: packed structures in
    byte buffers. \<open>CString\<close>: \<open>util/string.c\<close>, \<open>util/ctype.c\<close>. \<open>Calendar\<close>: \<open>util/time.c\<close>.
  \<^item> \<open>Bitmap\<close>, \<open>Memory\<close>: the bitmap of pages and the physical allocator (\<open>memory/memory.c\<close>, \<open>memory_cb.h\<close>).
  \<^item> \<open>Paging\<close>, \<open>AddressSpaces\<close>: the page tables (\<open>memory/paging.c\<close>), on the allocator, and their duplication.
  \<^item> \<open>Heap\<close>: the heap (\<open>memory/heap.c\<close>), on the page tables.
  \<^item> \<open>RingBuffer\<close>: the interface of a byte queue, which \<open>Fifo\<close> (\<open>devices/fifo\<close>, \<open>drivers/fifo\<close>), the terminals and the
    serial ports instantiate.
  \<^item> \<open>LineDiscipline\<close>, \<open>Tty\<close>: \<open>drivers/tty/ld/line_discipline.c\<close>, \<open>drivers/tty/tty.c\<close> and \<open>tty_dd.c\<close>.
  \<^item> \<open>Interrupts\<close>, \<open>InterruptService\<close>: \<open>io/interrupts.c\<close>, \<open>io/idt.c\<close>. \<open>SegmentTables\<close>: \<open>arch/gdt.c\<close>, \<open>arch/tss.c\<close>.
    \<open>Cpus\<close>: \<open>arch/cpu.c\<close>.
  \<^item> \<open>Pit\<close>, \<open>Keyboard\<close>, \<open>Serial\<close>: \<open>devices/pit/pit.c\<close>, \<open>devices/keyboard/keyboard.c\<close>, \<open>drivers/serial/serial.c\<close> and
    \<open>serial_dd.c\<close>. \<open>Comm\<close>: the terminals of the serial ports (\<open>devices/comm/comm.c\<close>).
  \<^item> \<open>Scheduler\<close>, \<open>Tasks\<close>: \<open>sched/scheduler.c\<close>, \<open>sched/concurrency.c\<close>; the contexts and stacks of tasks, the switch
    between them and \<open>proc/syscall.c\<close>. \<open>Loader\<close>: \<open>proc/loader.c\<close>.
  \<^item> \<open>Devices\<close>, \<open>Disk\<close>, \<open>Ahci\<close>: the device table (\<open>devices/devices.c\<close>), the disk driver and its interface
    (\<open>drivers/disk\<close>), the driver of the controller (\<open>drivers/disk/ahci\<close>). \<open>Pci\<close>, \<open>Acpi\<close>: \<open>devices/pci/pci.c\<close>,
    \<open>devices/acpi/acpi.c\<close>.
  \<^item> \<open>Partitions\<close>: \<open>vfs/partition\<close>. \<open>VfsCompat\<close>: the tables of descriptors (\<open>vfs/generic/vfs_compat.c\<close>).
    \<open>Vfs\<close>, \<open>VfsInterface\<close>, \<open>VfsMounts\<close>: \<open>vfs/vfs.c\<close>, \<open>vfs/vfs_interface.c\<close>, and the consistency of the mounts.
    \<open>FsInterface\<close>: the laws a file system may promise to the virtual file system.
  \<^item> \<open>Ext2Fs\<close>, \<open>Ext2Block\<close>, \<open>Ext2Inode\<close>, \<open>Ext2Dentry\<close>, \<open>Ext2File\<close>: the EXT2 driver (\<open>vfs/generic/ext2\<close>), \<open>Ext2Dir\<close>
    its directories as lists of entries, \<open>Ext2Props\<close> what it does to the disk, \<open>ErrorLog\<close> its log
    (\<open>ext2_integrity.c\<close>).
  \<^item> \<open>GenericExt2\<close>, \<open>GenericDevices\<close>, \<open>Fat32\<close>: the adapters \<open>generic_ext2.h\<close>, \<open>generic_tty.h\<close> and
    \<open>generic_fifo.h\<close>, \<open>generic_f32.h\<close> with the volumes of \<open>fat32.c\<close>.
  \<^item> \<open>Shell\<close>, \<open>ShellFiles\<close>: \<open>debug/shell.c\<close>: lines, commands and the current directory; the commands on files.

  \<^bold>\<open>Conventions.\<close> Integers are words of their width. State is passed explicitly, as a record per component. A function
  that can fail gives \<open>Err\<close>: \<open>Fault\<close> is an access outside an object, a call through a null pointer or a division by
  zero, \<open>Panic\<close> a call of \<open>panic\<close>, \<open>Diverge\<close> a loop that does not end. An object is the list of its bytes or a
  record; a pointer into it is an index or the rest of the list. Memory from \<open>kmalloc\<close> holds arbitrary bytes that are a
  parameter, and an allocation succeeds except for size 0 where a component does not model the heap. Hardware is a
  parameter or a log: ports are logs of what is written, drives are functions from sectors to their bytes, the disk
  controller and the memory of the firmware are arguments. Messages that are printed are left out.

  \<^bold>\<open>Interfaces.\<close> Where one component relies on another the laws are a locale, interpreted on the model of the code that
  provides them: \<open>bitset\<close> (\<open>Bitmap\<close>), \<open>frame_source\<close> (\<open>Paging\<close>), \<open>byte_queue\<close> (\<open>RingBuffer\<close>), \<open>ld_parent\<close>
  (\<open>LineDiscipline\<close>), \<open>sector_store\<close> (\<open>Disk\<close>), and \<open>readable_fs\<close>, \<open>seekable_fs\<close> and \<open>root_only_fs\<close> (\<open>FsInterface\<close>, which
  the adapters provide).

  \<^bold>\<open>What is shown.\<close>
  \<^item> Memory: the allocator hands out the next free page and locks it; a mapping translates as asked and others stay; a
    duplicate translates alike, and sees later mappings exactly where it shares a table; the heap's list of segments
    stays well formed, fits first and merges.
  \<^item> Tasks: after any sequence of scheduler calls, on the idle task too, the list of tasks is in order and every further
    call returns, or panics because the idle task was taken away and no other task can run; the choice is round robin; a switch
    resumes a task with the registers and stacks it had; a loaded program has its segments in memory and the rest cleared.
  \<^item> Devices: a typed line reaches the reader edited; FIFOs keep their order; the ports found become disk devices and
    terminals; the tables of the firmware are found; the AHCI driver is the drive the disk driver is verified over, for a
    controller that carries out commands.
  \<^item> Files: what is written to sectors, inodes and directories is read back; a path is resolved component by component;
    mounts and volumes stay consistent whatever is called, the tables of descriptors under operations with proper
    arguments, which all return; a program, and the shell with its current directory, read through the whole stack what
    the directories on the disk lead to. The contents of files are those of at most 12 direct blocks (\<open>file_at\<close>): the
    code does not get at the blocks behind them (\<open>read_past_direct\<close>).
  \<^item> Where the code does something else than it means to, the lemma that shows it stands beside the definitions: devices
    that can never be opened, directories removed with their contents, blocks allocated twice, the last bus skipped, the
    idle task killed.

  \<^bold>\<open>Loops.\<close> Loops over lists and counters are structural recursions. Where a loop of the code can run forever, the model
  has fuel that bounds the number of different states it can visit (the free pages of a heap, the bytes of a
  directory, the length of a path or a line, one more than the separators in it), and running out of it is
  \<open>Err Diverge\<close>; the theorems that a result is produced show that it does not run out.

  \<^bold>\<open>Not modelled.\<close>
  \<^item> Third-party code: FatFs (\<open>vfs/generic/fat32exp\<close>), \<open>util/printf.c\<close>, the boot protocol (\<open>bootservices\<close>), whose
    data come from outside. Of the ported \<open>fat32.c\<close> the operations on files, which the adapter never calls.
  \<^item> Single instructions: \<open>io/io.c\<close>, \<open>arch/simd.c\<close>, \<open>arch/msr.c\<close>, \<open>arch/getcpuid.c\<close>, the assembly entry code, and the
    loading of tables into the processor.
  \<^item> Functions that only print or only forward: the debug printers, \<open>elf_readelf\<close>, \<open>serial_interface.c\<close>, the shell's
    commands for tasks, terminals and devices. \<open>proc/raw.c\<close> jumps into a buffer, \<open>kernel.c\<close> calls the initialisations in
    order. String functions with an empty body have no meaning to model.\<close>

end
